(* ===== verification/Prelude.thy ===== *)
theory Prelude
  imports Main "HOL-Library.Word"
begin

text \<open>
  Shared notation and lemmas of the development.

  \<^item> Fixed-width integers of the C sources: \<open>u8\<close>, \<open>u16\<close>, \<open>u32\<close>, \<open>u64\<close>.
  \<^item> Byte memories addressed by 32-bit words (\<open>mem\<close>), with a read of \<open>n\<close> consecutive bytes
    (\<open>mread\<close>), a plain overwrite (\<open>mwrite\<close>) and the cell-wise combination \<open>mcombine\<close>, which
    the NOR flash model uses (a program operation does not overwrite a cell, it combines with it).
    Addresses wrap around at \<open>2 ^ 32\<close>, as pointers and \<open>uint32_t\<close> addresses do.
  \<^item> Little-endian encoding of 32-bit fields inside byte buffers (\<open>le32\<close>, \<open>enc32\<close>, \<open>get32\<close>).
  \<^item> The collections \<open>mem_simps\<close> (memory and buffer rewriting) and \<open>frame_simps\<close> (which
    component fields an operation leaves alone).
\<close>

unbundle bit_operations_syntax

named_theorems mem_simps \<open>rewriting of byte memories and encoded fields\<close>
named_theorems frame_simps \<open>fields an operation leaves unchanged\<close>

type_synonym u8 = "8 word"
type_synonym u16 = "16 word"
type_synonym u32 = "32 word"
type_synonym u64 = "64 word"
type_synonym mem = "u32 \<Rightarrow> u8"

section \<open>Byte memories\<close>

definition mread :: "mem \<Rightarrow> u32 \<Rightarrow> nat \<Rightarrow> u8 list" where
  "mread m a n = map (\<lambda>i. m (a + of_nat i)) [0..<n]"

definition mcombine :: "(u8 \<Rightarrow> u8 \<Rightarrow> u8) \<Rightarrow> mem \<Rightarrow> u32 \<Rightarrow> u8 list \<Rightarrow> mem" where
  "mcombine f m a bs =
     (\<lambda>x. if unat (x - a) < length bs then f (m x) (bs ! unat (x - a)) else m x)"

definition mwrite :: "mem \<Rightarrow> u32 \<Rightarrow> u8 list \<Rightarrow> mem" where
  "mwrite = mcombine (\<lambda>_ b. b)"

text \<open>The addresses touched by an access of \<open>n\<close> bytes at \<open>a\<close>.\<close>

definition in_range :: "u32 \<Rightarrow> nat \<Rightarrow> u32 \<Rightarrow> bool" where
  "in_range a n x \<longleftrightarrow> unat (x - a) < n"

lemma length_mread [simp]: "length (mread m a n) = n"
  by (simp add: mread_def)

lemma nth_mread [simp]: "i < n \<Longrightarrow> mread m a n ! i = m (a + of_nat i)"
  by (simp add: mread_def)

lemma unat_of_nat_u32: "n < 2 ^ 32 \<Longrightarrow> unat (of_nat n :: u32) = n"
  by (simp add: unat_of_nat)

lemma unat_u32_bound: "unat (x :: u32) < 2 ^ 32"
  using unsigned_less [of x] by simp

lemma unat_diff_u32:
  "unat (x - y :: u32) = (if unat y \<le> unat x then unat x - unat y else 2 ^ 32 + unat x - unat y)"
  unfolding unat_sub_if_size by (simp add: word_size) linarith

lemma mcombine_out: "\<not> in_range a (length bs) x \<Longrightarrow> mcombine f m a bs x = m x"
  by (simp add: mcombine_def in_range_def)

lemma mcombine_at:
  "i < length bs \<Longrightarrow> length bs \<le> 2 ^ 32 \<Longrightarrow> mcombine f m a bs (a + of_nat i) = f (m (a + of_nat i)) (bs ! i)"
  by (simp add: mcombine_def unat_of_nat_u32)

lemma mwrite_out: "\<not> in_range a (length bs) x \<Longrightarrow> mwrite m a bs x = m x"
  by (simp add: mwrite_def mcombine_out)

lemma mcombine_Nil [simp]: "mcombine f m a [] = m"
  by (simp add: mcombine_def)

lemma mwrite_Nil [simp]: "mwrite m a [] = m"
  by (simp add: mwrite_def)

lemma mread_cong: "(\<And>i. i < n \<Longrightarrow> m (a + of_nat i) = m' (a + of_nat i)) \<Longrightarrow> mread m a n = mread m' a n"
  by (simp add: mread_def)

lemma mread_mcombine_same:
  assumes "length bs \<le> 2 ^ 32"
  shows "mread (mcombine f m a bs) a (length bs) = map2 f (mread m a (length bs)) bs"
  using assms by (intro nth_equalityI) (simp_all add: mcombine_at)

lemma mread_mwrite_same [mem_simps]:
  assumes "length bs \<le> 2 ^ 32"
  shows "mread (mwrite m a bs) a (length bs) = bs"
  using assms by (intro nth_equalityI) (simp_all add: mwrite_def mcombine_at)

lemma mread_mcombine_disjoint:
  assumes "\<And>i. i < n \<Longrightarrow> \<not> in_range a (length bs) (b + of_nat i)"
  shows "mread (mcombine f m a bs) b n = mread m b n"
  using assms by (intro mread_cong) (simp add: mcombine_out)

lemma mread_append:
  "mread m a (n + k) = mread m a n @ mread m (a + of_nat n) k"
  by (rule nth_equalityI) (auto simp: nth_append add.assoc simp flip: of_nat_add)

lemma take_drop_mread:
  assumes "off + k \<le> n"
  shows "take k (drop off (mread m a n)) = mread m (a + of_nat off) k"
  using assms by (intro nth_equalityI) (auto simp: add.assoc simp flip: of_nat_add)

text \<open>Two consecutive writes are one write of the concatenation.\<close>

lemma mcombine_append:
  assumes "length bs + length cs \<le> 2 ^ 32"
  shows "mcombine f (mcombine f m a bs) (a + of_nat (length bs)) cs = mcombine f m a (bs @ cs)"
proof
  fix x
  define d where "d = unat (x - a)"
  have d: "d < 2 ^ 32" using unat_u32_bound[of "x - a"] by (simp add: d_def)
  have e: "x - (a + of_nat (length bs)) = (x - a) - of_nat (length bs)" by simp
  have u: "unat (x - (a + of_nat (length bs))) =
      (if length bs \<le> d then d - length bs else 2 ^ 32 + d - length bs)" if "length bs < 2 ^ 32"
    unfolding e unat_diff_u32 [of "x - a"] d_def [symmetric] using that by (simp add: unat_of_nat_u32)
  show "mcombine f (mcombine f m a bs) (a + of_nat (length bs)) cs x = mcombine f m a (bs @ cs) x"
  proof (cases "length bs < 2 ^ 32")
    case True
    then show ?thesis
      unfolding mcombine_def u[OF True] d_def[symmetric] using assms d by (auto simp: nth_append)
  next
    case False
    then have "length cs = 0" using assms by linarith
    then have "cs = []" by simp
    then show ?thesis by simp
  qed
qed

text \<open>Distance of an offset inside a larger region, used to separate two field accesses.\<close>

lemma not_in_range_offset:
  assumes "i + n \<le> j \<or> j < i" "i < 2 ^ 31" "j < 2 ^ 31" "n < 2 ^ 31"
  shows "\<not> in_range (a + of_nat i) n (a + of_nat j)"
proof -
  have eq: "a + of_nat j - (a + of_nat i) = of_nat j - (of_nat i :: u32)" by simp
  show ?thesis
    unfolding in_range_def eq unat_diff_u32 using assms by (auto simp: unat_of_nat_u32)
qed

lemma in_range_shift:
  assumes "in_range (a + of_nat k) n x" and "k + n \<le> 2 ^ 32"
  shows "in_range a (k + n) x"
proof -
  define d where "d = unat (x - (a + of_nat k))"
  have "x - (a + of_nat k) = of_nat d" by (simp add: d_def)
  then have "x - a = of_nat (d + k)" by (simp add: algebra_simps)
  moreover have "d < n" using assms by (simp add: in_range_def d_def)
  ultimately show ?thesis
    using assms by (simp add: in_range_def unat_of_nat_u32 del: of_nat_add)
qed

lemma in_range_mono: "in_range a n x \<Longrightarrow> n \<le> k \<Longrightarrow> in_range a k x"
  by (simp add: in_range_def)

lemma in_range_split:
  assumes "in_range a (k + n) x" and "\<not> in_range a k x" and "k < 2 ^ 32"
  shows "in_range (a + of_nat k) n x"
proof -
  have e: "x - (a + of_nat k) = (x - a) - of_nat k" by simp
  show ?thesis
    unfolding in_range_def e unat_diff_u32 [of "x - a"]
    using assms by (auto simp: in_range_def unat_of_nat_u32)
qed

lemma in_range_add:
  assumes "k + n \<le> 2 ^ 32" and "k < 2 ^ 32"
  shows "in_range a (k + n) x \<longleftrightarrow> in_range a k x \<or> in_range (a + of_nat k) n x"
  using assms in_range_shift in_range_split in_range_mono le_add1 by blast

text \<open>A region set to the erased value.\<close>

definition merase :: "mem \<Rightarrow> u32 \<Rightarrow> nat \<Rightarrow> mem" where
  "merase m a n = (\<lambda>x. if in_range a n x then 0xFF else m x)"

lemma merase_0 [simp]: "merase m a 0 = m"
  by (simp add: merase_def in_range_def)

lemma merase_add:
  assumes "k + n \<le> 2 ^ 32" and "k < 2 ^ 32"
  shows "merase (merase m a k) (a + of_nat k) n = merase m a (k + n)"
  using in_range_add [OF assms] by (auto simp: merase_def)

section \<open>Little-endian fields\<close>

definition le32 :: "u8 list \<Rightarrow> u32" where
  "le32 bs = ucast (bs ! 0) OR push_bit 8 (ucast (bs ! 1)) OR push_bit 16 (ucast (bs ! 2))
     OR push_bit 24 (ucast (bs ! 3))"

definition enc32 :: "u32 \<Rightarrow> u8 list" where
  "enc32 w = [ucast w, ucast (drop_bit 8 w), ucast (drop_bit 16 w), ucast (drop_bit 24 w)]"

definition get32 :: "u8 list \<Rightarrow> nat \<Rightarrow> u32" where
  "get32 bs off = le32 (take 4 (drop off bs))"

definition rd32 :: "mem \<Rightarrow> u32 \<Rightarrow> u32" where
  "rd32 m a = le32 (mread m a 4)"

lemma length_enc32 [simp]: "length (enc32 w) = 4"
  by (simp add: enc32_def)

lemma le32_enc32 [simp, mem_simps]: "le32 (enc32 w) = w"
proof (rule bit_word_eqI)
  fix n assume "n < LENGTH(32)"
  then have n: "n < 32" by simp
  then consider "n < 8" | "8 \<le> n" "n < 16" | "16 \<le> n" "n < 24" | "24 \<le> n" "n < 32" by linarith
  then show "bit (le32 (enc32 w)) n = bit w n"
    by cases (auto simp: le32_def enc32_def bit_simps)
qed

lemma bit_ucast_u8: "bit (ucast (x :: u8) :: u32) n \<longleftrightarrow> n < 8 \<and> bit x n"
  by (auto simp: bit_simps dest: bit_imp_le_length)

lemma bit_u8_high: "8 \<le> n \<Longrightarrow> \<not> bit (x :: u8) n"
  by (auto dest: bit_imp_le_length)

lemma enc32_le32 [mem_simps]:
  assumes "length bs = 4"
  shows "enc32 (le32 bs) = bs"
proof -
  obtain a b c d where bs: "bs = [a, b, c, d]"
    using assms by (auto simp: length_Suc_conv numeral_eq_Suc)
  show ?thesis unfolding bs le32_def enc32_def
    by (auto intro!: bit_word_eqI simp: bit_simps bit_ucast_u8 bit_u8_high)
qed

lemma get32_mread [mem_simps]: "off + 4 \<le> n \<Longrightarrow> get32 (mread m a n) off = rd32 m (a + of_nat off)"
  by (simp add: get32_def rd32_def take_drop_mread)

section \<open>Lists\<close>

text \<open>First index satisfying a predicate: the \<open>for\<close>/\<open>break\<close> search loops of the sources.\<close>

fun find_idx :: "('a \<Rightarrow> bool) \<Rightarrow> 'a list \<Rightarrow> nat option" where
  "find_idx P [] = None"
| "find_idx P (x # xs) = (if P x then Some 0 else map_option Suc (find_idx P xs))"

lemma find_idx_Some:
  "find_idx P xs = Some i \<longleftrightarrow> i < length xs \<and> P (xs ! i) \<and> (\<forall>j < i. \<not> P (xs ! j))"
proof (induction xs arbitrary: i)
  case Nil
  then show ?case by simp
next
  case (Cons x xs)
  show ?case
  proof (cases "P x")
    case True
    then show ?thesis by (cases i) auto
  next
    case False
    then show ?thesis
      by (cases i) (auto simp: Cons.IH less_Suc_eq_0_disj)
  qed
qed

lemma find_idx_None: "find_idx P xs = None \<longleftrightarrow> (\<forall>x \<in> set xs. \<not> P x)"
  by (induction xs) auto

lemma find_idx_None_nth: "find_idx P xs = None \<longleftrightarrow> (\<forall>i < length xs. \<not> P (xs ! i))"
  by (auto simp: find_idx_None all_set_conv_all_nth)

lemma find_idx_cong: "(\<And>x. x \<in> set xs \<Longrightarrow> P x = Q x) \<Longrightarrow> find_idx P xs = find_idx Q xs"
  by (induction xs) auto

end
