(* ===== verification/ByteStore.thy ===== *)
theory ByteStore
  imports Prelude
begin

text \<open>
  The contract the storage drivers offer to the firmware-upgrade code and to the boot loader: a
  byte-addressed store with a checked read and a checked write. \<open>ready\<close> is the driver state in
  which commands succeed, \<open>fits\<close> the address check, \<open>accepts\<close> what the cells must hold for
  a write to take effect (erased cells for NOR flash, nothing for RRAM). \<open>FlashDriver\<close> and
  \<open>RramDriver\<close> interpret the locale on the modelled drivers.
\<close>

locale byte_store =
  fixes mem_of :: "'s \<Rightarrow> mem"
    and ready :: "'s \<Rightarrow> bool"
    and fits :: "u32 \<Rightarrow> nat \<Rightarrow> 's \<Rightarrow> bool"
    and accepts :: "'s \<Rightarrow> u32 \<Rightarrow> u8 list \<Rightarrow> bool"
    and rd :: "u32 \<Rightarrow> nat \<Rightarrow> 's \<Rightarrow> u8 list option \<times> 's"
    and wr :: "u32 \<Rightarrow> u8 list \<Rightarrow> 's \<Rightarrow> bool \<times> 's"
  assumes wr_ready: "ready s \<Longrightarrow> ready (snd (wr a bs s))"
    and wr_stores: "ready s \<Longrightarrow> fits a (length bs) s \<Longrightarrow> accepts s a bs \<Longrightarrow>
          fst (wr a bs s) \<and> mread (mem_of (snd (wr a bs s))) a (length bs) = bs"
    and wr_frame: "ready s \<Longrightarrow> fits a (length bs) s \<Longrightarrow> \<not> in_range a (length bs) x \<Longrightarrow>
          mem_of (snd (wr a bs s)) x = mem_of s x"
    and wr_fits: "ready s \<Longrightarrow> fits a n (snd (wr b bs s)) = fits a n s"
    and rd_returns: "ready s \<Longrightarrow> fits a n s \<Longrightarrow> fst (rd a n s) = Some (mread (mem_of s) a n)"
    and rd_frame: "mem_of (snd (rd a n s)) = mem_of s"
begin

definition disjoint :: "u32 \<Rightarrow> nat \<Rightarrow> u32 \<Rightarrow> nat \<Rightarrow> bool" where
  "disjoint a n b k \<longleftrightarrow> (\<forall>i < k. \<not> in_range a n (b + of_nat i))"

lemma write_read:
  assumes "ready s" and "fits a (length bs) s" and "accepts s a bs"
  shows "fst (rd a (length bs) (snd (wr a bs s))) = Some bs"
  using assms by (simp add: rd_returns wr_ready wr_fits wr_stores)

lemma write_read_other:
  assumes "ready s" and "fits a (length bs) s" and "fits b k s" and "disjoint a (length bs) b k"
  shows "fst (rd b k (snd (wr a bs s))) = fst (rd b k s)"
proof -
  have "mread (mem_of (snd (wr a bs s))) b k = mread (mem_of s) b k"
    using assms by (intro mread_cong) (auto simp: disjoint_def wr_frame)
  with assms show ?thesis by (simp add: rd_returns wr_ready wr_fits)
qed

lemma write_write_read:
  assumes "ready s" and "fits a (length bs) s" and "accepts s a bs"
    and "fits b (length cs) s" and "disjoint b (length cs) a (length bs)"
  shows "fst (rd a (length bs) (snd (wr b cs (snd (wr a bs s))))) = Some bs"
  using assms by (simp add: write_read_other wr_ready wr_fits write_read)

end

end
