(* ===== verification/FlashDriver.thy ===== *)
theory FlashDriver
  imports ByteStore
begin

text \<open>
  The NOR flash driver, \<open>src/modules/hal/qcc730/flash/ferm_flash.c\<close>.

  \<^item> The device and the QSPI controller are hardware: they enter as the record \<open>flash_hw\<close>, whose
    functions are indexed by the number of the hardware command, so that every command may answer
    differently (and fail). What the driver relies on is the predicate \<open>hw_responsive\<close> (commands
    complete) and \<open>hw_nor\<close> (an erase sets a cell to \<open>0xFF\<close>, programming an erased cell stores
    the byte), both data-sheet behaviour of NOR flash, as is the wrap of a program command inside its page.
  \<^item> The driver state \<open>flash\<close> holds \<open>flash_init_done\<close>, \<open>flash_context.state\<close>,
    \<open>flash_context.config\<close> and the cell array.
  \<^item> The polled status loop, the page-split write loop, the erase loop and the parameter checks are
    the driver's own. \<open>flash_mutex\<close> only serialises callers and is not represented; the
    XIP switches (\<open>FLASH_XIP_SUPPORT\<close>) and the unimplemented non-blocking mode are compiled out
    (the callback argument is always \<open>NULL\<close> here).
  \<^item> The lemmas show that an operation touches only the cells its arguments name, that a write is
    independent of the page splitting, and that writes and erases are read back.
\<close>

section \<open>Data\<close>

datatype FLASH_STATUS =
    FLASH_DEVICE_DONE | FLASH_DEVICE_FAIL | FLASH_DEVICE_NOT_SUPPORTED
  | FLASH_DEVICE_INVALID_PARAMETER | FLASH_DEVICE_IMAGE_NOT_FOUND | FLASH_DEVICE_NOT_FOUND
  | FLASH_DEVICE_PENDING | FLASH_DEVICE_NO_MEMORY | FLASH_DEVICE_BUSY

datatype flash_erase_type = FLASH_BLOCK_ERASE_E | FLASH_BULK_ERASE_E | FLASH_CHIP_ERASE_E

datatype flash_operation = WRITE_OPERATION | ERASE_OPERATION | OTHER_OPERATION

abbreviation (input) PAGE_SIZE_IN_BYTES :: u32 where "PAGE_SIZE_IN_BYTES \<equiv> 256"
abbreviation (input) BLOCK_SIZE_IN_BYTES :: u32 where "BLOCK_SIZE_IN_BYTES \<equiv> 4096"
abbreviation (input) FLASH_16MB_IN_BYTES :: u32 where "FLASH_16MB_IN_BYTES \<equiv> 0x1000000"
abbreviation (input) READ_STATUS_CMD :: u8 where "READ_STATUS_CMD \<equiv> 0x05"
abbreviation (input) STATUS_WR_EN_MASK :: u8 where "STATUS_WR_EN_MASK \<equiv> 0x02"
abbreviation (input) PROG_ERASE_WRITE_BUSY_BMSK :: u8 where "PROG_ERASE_WRITE_BUSY_BMSK \<equiv> 0x01"

record flash_config =
  addr_bytes :: u8
  read_cmd_mode :: u8
  read_addr_mode :: u8
  read_data_mode :: u8
  write_cmd_mode :: u8
  write_addr_mode :: u8
  write_data_mode :: u8
  erase_4kb_opcode :: u8
  bulk_erase_size_4kb :: u8
  bulk_erase_opcode :: u8
  chip_erase_opcode :: u8
  erase_err_bmsk :: u8
  erase_err_status_reg :: u8
  write_err_bmsk :: u8
  write_err_status_reg :: u8
  high_performance_mode_bmask :: u8
  density_in_blocks :: u32
  device_id :: u32

text \<open>The register sequences of the bring-up that only talk to the chip.\<close>

datatype init_stage =
    Controller_Init | Clear_Write_Protection | Set_High_Performance | Enable_Quad_Mode | Enter_4B_Addr

text \<open>
  The hardware. The first argument of each function is the number of the command: \<open>hw_read\<close> is
  the result of \<open>drv_qspi_run_cmd\<close> for a data read, \<open>hw_reg\<close> the outcome of a register read
  (\<open>None\<close>: the command failed), \<open>hw_id\<close> the JEDEC id, \<open>hw_program\<close> the new value of a cell
  from its old value and the data byte, \<open>hw_erase\<close> the new value of an erased cell,
  \<open>hw_init\<close> the outcome of a bring-up stage and \<open>hw_alloc\<close> whether the allocator has memory.
\<close>

record flash_hw =
  hw_read :: "nat \<Rightarrow> bool"
  hw_reg :: "nat \<Rightarrow> u8 \<Rightarrow> u8 option"
  hw_id :: "nat \<Rightarrow> u32 option"
  hw_program :: "nat \<Rightarrow> u8 \<Rightarrow> u8 \<Rightarrow> u8"
  hw_erase :: "nat \<Rightarrow> u8 \<Rightarrow> u8"
  hw_init :: "nat \<Rightarrow> init_stage \<Rightarrow> FLASH_STATUS"
  hw_alloc :: "nat \<Rightarrow> bool"

record flash =
  flash_init_done :: bool
  flash_state :: u8
  flash_cfg :: flash_config
  flash_table :: "flash_config list"
  flash_quad :: bool
  fl_mem :: mem
  fl_hw :: flash_hw
  fl_n :: nat

abbreviation flash_limit :: "flash \<Rightarrow> u32" where
  "flash_limit f \<equiv> density_in_blocks (flash_cfg f) * BLOCK_SIZE_IN_BYTES"

section \<open>Registers and polling\<close>

text \<open>\<open>drv_flash_read_reg_internal\<close> with one byte: the register's value, or nothing on failure.\<close>

definition drv_flash_read_reg_internal :: "u8 \<Rightarrow> flash \<Rightarrow> (FLASH_STATUS \<times> u8 option) \<times> flash" where
  "drv_flash_read_reg_internal reg_opcode f =
     (let f' = f\<lparr>fl_n := Suc (fl_n f)\<rparr> in
      case hw_reg (fl_hw f) (fl_n f) reg_opcode of
        Some v \<Rightarrow> ((FLASH_DEVICE_DONE, Some v), f')
      | None \<Rightarrow> ((FLASH_DEVICE_FAIL, None), f'))"

definition drv_flash_check_error :: "flash_operation \<Rightarrow> flash \<Rightarrow> FLASH_STATUS \<times> flash" where
  "drv_flash_check_error operation_type f =
     (let (status_mask, err_status_register) =
            (case operation_type of
               WRITE_OPERATION \<Rightarrow> (write_err_bmsk (flash_cfg f), write_err_status_reg (flash_cfg f))
             | ERASE_OPERATION \<Rightarrow> (erase_err_bmsk (flash_cfg f), erase_err_status_reg (flash_cfg f))
             | OTHER_OPERATION \<Rightarrow> (0, 0))
      in if err_status_register = 0 then (FLASH_DEVICE_DONE, f)
         else (case drv_flash_read_reg_internal err_status_register f of
                 ((status, v), f') \<Rightarrow>
                   if status = FLASH_DEVICE_DONE \<and> (case v of Some q \<Rightarrow> q | None \<Rightarrow> 0) AND status_mask \<noteq> 0
                   then (FLASH_DEVICE_FAIL, f') else (status, f')))"

text \<open>
  \<open>drv_flash_wait_operation_done\<close>. The loop subtracts the polling period from the time budget
  until the budget is zero; every caller's period divides its budget, so the number of polls is
  the quotient (\<open>polls_exact\<close>). \<open>result\<close> keeps its previous value when the register
  read fails, as the C variable does.
\<close>

fun poll_status :: "nat \<Rightarrow> u8 \<Rightarrow> flash_operation \<Rightarrow> u8 \<Rightarrow> u8 \<Rightarrow> flash \<Rightarrow> FLASH_STATUS \<times> flash" where
  "poll_status 0 result operation bmask status_value f = (FLASH_DEVICE_FAIL, f)"
| "poll_status (Suc k) result operation bmask status_value f =
     (case drv_flash_read_reg_internal READ_STATUS_CMD f of
        ((_, v), f') \<Rightarrow>
          (let result' = (case v of Some r \<Rightarrow> r | None \<Rightarrow> result) in
           if result' AND bmask = status_value then drv_flash_check_error operation f'
           else poll_status k result' operation bmask status_value f'))"

definition drv_flash_wait_operation_done ::
    "nat \<Rightarrow> nat \<Rightarrow> flash_operation \<Rightarrow> u8 \<Rightarrow> u8 \<Rightarrow> flash \<Rightarrow> FLASH_STATUS \<times> flash" where
  "drv_flash_wait_operation_done timeout status_polling_usec operation bmask status_value f =
     poll_status (timeout div status_polling_usec) 0 operation bmask status_value f"

definition drv_flash_write_enable :: "flash \<Rightarrow> FLASH_STATUS \<times> flash" where
  "drv_flash_write_enable f =
     drv_flash_wait_operation_done 5000000 20 OTHER_OPERATION STATUS_WR_EN_MASK STATUS_WR_EN_MASK
       (f\<lparr>fl_n := Suc (fl_n f)\<rparr>)"

section \<open>Bring-up\<close>

definition VALID_RW_MODE :: "u8 \<Rightarrow> bool" where
  "VALID_RW_MODE m \<longleftrightarrow> 1 \<le> m \<and> m \<le> 3 \<or> m = 7"

definition IS_QUAD_MODE :: "u8 \<Rightarrow> bool" where
  "IS_QUAD_MODE m \<longleftrightarrow> m AND 3 = 3"

definition rw_modes :: "flash_config \<Rightarrow> u8 list" where
  "rw_modes c = [read_cmd_mode c, read_addr_mode c, read_data_mode c,
                 write_cmd_mode c, write_addr_mode c, write_data_mode c]"

definition drv_flash_info_init :: "u32 \<Rightarrow> flash \<Rightarrow> FLASH_STATUS \<times> flash" where
  "drv_flash_info_init dev f =
     (case find_idx (\<lambda>c. dev = device_id c) (flash_table f) of
        None \<Rightarrow> (FLASH_DEVICE_NOT_FOUND, f)
      | Some i \<Rightarrow>
          (let f' = f\<lparr>flash_state := 0, flash_cfg := flash_table f ! i, fl_n := Suc (fl_n f)\<rparr>
           in if hw_alloc (fl_hw f) (fl_n f) then (FLASH_DEVICE_DONE, f')
              else (FLASH_DEVICE_NO_MEMORY, f')))"

definition init_stage_run :: "init_stage \<Rightarrow> flash \<Rightarrow> FLASH_STATUS \<times> flash" where
  "init_stage_run st f = (hw_init (fl_hw f) (fl_n f) st, f\<lparr>fl_n := Suc (fl_n f)\<rparr>)"

text \<open>The stages after the chip has been identified: write protection, high-performance mode,
  mode check, quad mode, 4-byte addressing.\<close>

definition drv_flash_init_setup :: "flash \<Rightarrow> FLASH_STATUS \<times> flash" where
  "drv_flash_init_setup f =
     (case init_stage_run Clear_Write_Protection f of (s1, f1) \<Rightarrow>
      if s1 \<noteq> FLASH_DEVICE_DONE then (s1, f1) else
      (case (if high_performance_mode_bmask (flash_cfg f1) \<noteq> 0
             then init_stage_run Set_High_Performance f1 else (FLASH_DEVICE_DONE, f1)) of (s2, f2) \<Rightarrow>
      if s2 \<noteq> FLASH_DEVICE_DONE then (s2, f2) else
      if \<not> list_all VALID_RW_MODE (rw_modes (flash_cfg f2)) then (FLASH_DEVICE_INVALID_PARAMETER, f2) else
      (case (if flash_quad f2 \<and> list_ex IS_QUAD_MODE (rw_modes (flash_cfg f2))
             then init_stage_run Enable_Quad_Mode f2 else (FLASH_DEVICE_DONE, f2)) of (s3, f3) \<Rightarrow>
      if s3 \<noteq> FLASH_DEVICE_DONE then (s3, f3) else
      (case (if addr_bytes (flash_cfg f3) = 4 \<and> FLASH_16MB_IN_BYTES < flash_limit f3
             then init_stage_run Enter_4B_Addr f3 else (FLASH_DEVICE_DONE, f3)) of (s4, f4) \<Rightarrow>
      if s4 \<noteq> FLASH_DEVICE_DONE then (s4, f4)
      else (FLASH_DEVICE_DONE, f4\<lparr>flash_init_done := True\<rparr>)))))"

definition drv_flash_init :: "flash \<Rightarrow> FLASH_STATUS \<times> flash" where
  "drv_flash_init f =
     (if flash_init_done f then (FLASH_DEVICE_DONE, f) else
      (case init_stage_run Controller_Init f of (s0, f0) \<Rightarrow>
       if s0 \<noteq> FLASH_DEVICE_DONE then (s0, f0) else
       (let f1 = f0\<lparr>fl_n := Suc (fl_n f0)\<rparr> in
        case hw_id (fl_hw f0) (fl_n f0) of
          None \<Rightarrow> (FLASH_DEVICE_FAIL, f1)
        | Some dev \<Rightarrow>
            (case drv_flash_info_init dev f1 of (s2, f2) \<Rightarrow>
             if s2 \<noteq> FLASH_DEVICE_DONE then (s2, f2) else drv_flash_init_setup f2))))"

definition drv_flash_get_config :: "flash \<Rightarrow> flash_config option" where
  "drv_flash_get_config f = (if flash_init_done f then Some (flash_cfg f) else None)"

section \<open>Read, write, erase\<close>

text \<open>The parameter check of read and write (\<open>buffer\<close> is \<open>None\<close> for \<open>NULL\<close>).\<close>

definition rw_params_bad :: "u32 \<Rightarrow> u32 \<Rightarrow> bool \<Rightarrow> flash \<Rightarrow> bool" where
  "rw_params_bad address byte_cnt buffer_null f \<longleftrightarrow>
     buffer_null \<or> byte_cnt = 0 \<or> address + byte_cnt < address \<or> flash_limit f < address + byte_cnt"

text \<open>
  \<open>drv_flash_read\<close> with a non-null buffer. The result carries the bytes stored in the buffer;
  on an error the caller's buffer is left to the caller.
\<close>

definition drv_flash_read :: "u32 \<Rightarrow> u32 \<Rightarrow> flash \<Rightarrow> (FLASH_STATUS \<times> u8 list) \<times> flash" where
  "drv_flash_read address byte_cnt f =
     (if \<not> flash_init_done f then ((FLASH_DEVICE_FAIL, []), f) else
      if flash_state f \<noteq> 0 then ((FLASH_DEVICE_BUSY, []), f) else
      if rw_params_bad address byte_cnt False f
      then ((FLASH_DEVICE_INVALID_PARAMETER, []), f\<lparr>flash_state := 0\<rparr>) else
      (let f' = f\<lparr>flash_state := 0, fl_n := Suc (fl_n f)\<rparr> in
       if hw_read (fl_hw f) (fl_n f)
       then ((FLASH_DEVICE_DONE, mread (fl_mem f) address (unat byte_cnt)), f')
       else ((FLASH_DEVICE_FAIL, []), f')))"

text \<open>One page program command: the QSPI transfer of \<open>bs\<close> at \<open>address\<close>. Bytes behind the end of the page go to its
  beginning, as the device's address counter wraps inside a page.\<close>

definition page_program :: "u32 \<Rightarrow> u8 list \<Rightarrow> flash \<Rightarrow> flash" where
  "page_program address bs f =
     (let offset = address mod PAGE_SIZE_IN_BYTES; k = 256 - unat offset; cell = hw_program (fl_hw f) (fl_n f) in
      f\<lparr>fl_mem := mcombine cell (mcombine cell (fl_mem f) address (take k bs)) (address - offset) (drop k bs),
        fl_n := Suc (fl_n f)\<rparr>)"

definition transfer_size :: "u32 \<Rightarrow> nat \<Rightarrow> nat" where
  "transfer_size address byte_cnt =
     (if address mod PAGE_SIZE_IN_BYTES \<noteq> 0
      then (let t = 256 - unat (address mod PAGE_SIZE_IN_BYTES) in if byte_cnt < t then byte_cnt else t)
      else if 256 < byte_cnt then 256 else byte_cnt)"

lemma transfer_size_pos: "0 < n \<Longrightarrow> 0 < transfer_size a n"
proof -
  have "unat (a mod PAGE_SIZE_IN_BYTES) < 256"
    by (simp add: unat_mod)
  then show "0 < n \<Longrightarrow> 0 < transfer_size a n"
    by (simp add: transfer_size_def Let_def)
qed

text \<open>The write loop; \<open>bs\<close> are the bytes still to be written.\<close>

function write_loop :: "u32 \<Rightarrow> u8 list \<Rightarrow> flash \<Rightarrow> FLASH_STATUS \<times> flash" where
  "write_loop address bs f =
     (if bs = [] then (FLASH_DEVICE_DONE, f) else
      (case drv_flash_write_enable f of (s1, f1) \<Rightarrow>
       if s1 \<noteq> FLASH_DEVICE_DONE then (s1, f1) else
       (let n = transfer_size address (length bs) in
        case drv_flash_wait_operation_done 5000000 100 WRITE_OPERATION PROG_ERASE_WRITE_BUSY_BMSK 0
               (page_program address (take n bs) f1) of (s2, f2) \<Rightarrow>
        if s2 \<noteq> FLASH_DEVICE_DONE then (s2, f2)
        else write_loop (address + of_nat n) (drop n bs) f2)))"
  by pat_completeness auto
termination
  by (relation "measure (\<lambda>(a, bs, f). length bs)") (auto simp: transfer_size_pos)

declare write_loop.simps [simp del]

definition drv_flash_write :: "u32 \<Rightarrow> u32 \<Rightarrow> u8 list \<Rightarrow> flash \<Rightarrow> FLASH_STATUS \<times> flash" where
  "drv_flash_write address byte_cnt buffer f =
     (if \<not> flash_init_done f then (FLASH_DEVICE_FAIL, f) else
      if flash_state f \<noteq> 0 then (FLASH_DEVICE_BUSY, f) else
      if rw_params_bad address byte_cnt False f
      then (FLASH_DEVICE_INVALID_PARAMETER, f\<lparr>flash_state := 0\<rparr>) else
      (case write_loop address (take (unat byte_cnt) buffer) (f\<lparr>flash_state := 1\<rparr>) of
         (status, f') \<Rightarrow> (status, f'\<lparr>flash_state := 0\<rparr>)))"

text \<open>One erase command: \<open>sz\<close> bytes from \<open>address\<close>.\<close>

definition erase_cmd :: "u32 \<Rightarrow> u32 \<Rightarrow> flash \<Rightarrow> flash" where
  "erase_cmd address sz f =
     f\<lparr>fl_mem := (\<lambda>x. if in_range address (unat sz) x then hw_erase (fl_hw f) (fl_n f) (fl_mem f x)
                      else fl_mem f x),
       fl_n := Suc (fl_n f)\<rparr>"

fun erase_loop :: "nat \<Rightarrow> u32 \<Rightarrow> u32 \<Rightarrow> nat \<Rightarrow> nat \<Rightarrow> flash \<Rightarrow> FLASH_STATUS \<times> flash" where
  "erase_loop 0 address sz timeout polling f = (FLASH_DEVICE_DONE, f)"
| "erase_loop (Suc cnt) address sz timeout polling f =
     (case drv_flash_write_enable f of (s1, f1) \<Rightarrow>
      if s1 \<noteq> FLASH_DEVICE_DONE then (s1, f1) else
      (case drv_flash_wait_operation_done timeout polling ERASE_OPERATION PROG_ERASE_WRITE_BUSY_BMSK 0
              (erase_cmd address sz f1) of (s2, f2) \<Rightarrow>
       if s2 \<noteq> FLASH_DEVICE_DONE then (s2, f2)
       else erase_loop cnt (address + sz) sz timeout polling f2))"

text \<open>The erase type's size and polling times, or nothing when the chip does not support it.\<close>

definition erase_params :: "flash_erase_type \<Rightarrow> flash \<Rightarrow> (u32 \<times> nat \<times> nat) option" where
  "erase_params erase_type f =
     (case erase_type of
        FLASH_BLOCK_ERASE_E \<Rightarrow>
          if erase_4kb_opcode (flash_cfg f) = 0 then None else Some (BLOCK_SIZE_IN_BYTES, 5000000, 5000)
      | FLASH_BULK_ERASE_E \<Rightarrow>
          if bulk_erase_size_4kb (flash_cfg f) = 0 \<or> bulk_erase_opcode (flash_cfg f) = 0 then None
          else Some (ucast (bulk_erase_size_4kb (flash_cfg f)) * BLOCK_SIZE_IN_BYTES, 5000000, 5000)
      | FLASH_CHIP_ERASE_E \<Rightarrow>
          if chip_erase_opcode (flash_cfg f) = 0 then None
          else Some (flash_limit f, 500000000, 1000000))"

text \<open>The source reads \<open>addr_bytes\<close> through \<open>flash_context.config\<close> before it looks at \<open>flash_init_done\<close>; the value is not used
  on the path that returns there, and the load itself is not modelled.\<close>

definition drv_flash_erase :: "flash_erase_type \<Rightarrow> u32 \<Rightarrow> u32 \<Rightarrow> flash \<Rightarrow> FLASH_STATUS \<times> flash" where
  "drv_flash_erase erase_type start cnt f =
     (if \<not> flash_init_done f then (FLASH_DEVICE_FAIL, f) else
      if flash_state f \<noteq> 0 then (FLASH_DEVICE_BUSY, f) else
      (case erase_params erase_type f of
         None \<Rightarrow> (FLASH_DEVICE_INVALID_PARAMETER, f\<lparr>flash_state := 0\<rparr>)
       | Some (sz, timeout, polling) \<Rightarrow>
           if cnt = 0 \<or> (start + cnt) * sz < start * sz \<or> flash_limit f < (start + cnt) * sz
           then (FLASH_DEVICE_INVALID_PARAMETER, f\<lparr>flash_state := 0\<rparr>)
           else (case erase_loop (unat cnt) (start * sz) sz timeout polling (f\<lparr>flash_state := 4\<rparr>) of
                   (status, f') \<Rightarrow> (status, f'\<lparr>flash_state := 0\<rparr>))))"

section \<open>What the driver relies on\<close>

text \<open>Commands complete: reads succeed, the status register reports write-enabled and not busy, and
  the error registers report no error.\<close>

definition reg_clear :: "flash_hw \<Rightarrow> u8 \<Rightarrow> u8 \<Rightarrow> bool" where
  "reg_clear hw reg msk \<longleftrightarrow> reg = 0 \<or> (\<forall>n. \<exists>r. hw_reg hw n reg = Some r \<and> r AND msk = 0)"

definition hw_responsive :: "flash \<Rightarrow> bool" where
  "hw_responsive f \<longleftrightarrow>
     (\<forall>n. hw_read (fl_hw f) n) \<and>
     (\<forall>n. \<exists>r. hw_reg (fl_hw f) n READ_STATUS_CMD = Some r \<and>
           r AND STATUS_WR_EN_MASK = STATUS_WR_EN_MASK \<and> r AND PROG_ERASE_WRITE_BUSY_BMSK = 0) \<and>
     reg_clear (fl_hw f) (write_err_status_reg (flash_cfg f)) (write_err_bmsk (flash_cfg f)) \<and>
     reg_clear (fl_hw f) (erase_err_status_reg (flash_cfg f)) (erase_err_bmsk (flash_cfg f))"

text \<open>NOR cells: programming can only clear bits, erasing sets them all.\<close>

definition hw_nor :: "flash \<Rightarrow> bool" where
  "hw_nor f \<longleftrightarrow> (\<forall>n. hw_program (fl_hw f) n = (AND)) \<and> (\<forall>n x. hw_erase (fl_hw f) n x = 0xFF)"

definition flash_ready :: "flash \<Rightarrow> bool" where
  "flash_ready f \<longleftrightarrow> flash_init_done f \<and> flash_state f = 0 \<and> hw_responsive f \<and> hw_nor f \<and>
     erase_4kb_opcode (flash_cfg f) \<noteq> 0"

text \<open>Two driver states that differ only in cells and in the number of commands issued.\<close>

definition same_driver :: "flash \<Rightarrow> flash \<Rightarrow> bool" where
  "same_driver f f' \<longleftrightarrow> f' = f\<lparr>fl_mem := fl_mem f', fl_n := fl_n f'\<rparr>"

lemma same_driver_refl [simp]: "same_driver f f"
  by (simp add: same_driver_def)

lemma same_driver_trans: "same_driver f g \<Longrightarrow> same_driver g h \<Longrightarrow> same_driver f h"
  by (cases f; cases g; cases h) (simp add: same_driver_def)

lemma same_driver_fields:
  "same_driver f f' \<Longrightarrow> flash_init_done f' = flash_init_done f \<and> flash_state f' = flash_state f \<and>
     flash_cfg f' = flash_cfg f \<and> flash_table f' = flash_table f \<and> flash_quad f' = flash_quad f \<and>
     fl_hw f' = fl_hw f"
  by (cases f; cases f') (simp add: same_driver_def)

lemma same_driver_responsive: "same_driver f f' \<Longrightarrow> hw_responsive f' = hw_responsive f"
  by (simp add: hw_responsive_def same_driver_fields)

lemma same_driver_nor: "same_driver f f' \<Longrightarrow> hw_nor f' = hw_nor f"
  by (simp add: hw_nor_def same_driver_fields)

lemma same_driver_ready: "same_driver f f' \<Longrightarrow> flash_ready f' = flash_ready f"
  by (simp add: flash_ready_def same_driver_fields same_driver_responsive same_driver_nor)

lemma same_driver_mem: "same_driver f (f\<lparr>fl_mem := m, fl_n := n\<rparr>)"
  by (simp add: same_driver_def)

section \<open>Polling\<close>

text \<open>The register operations only count commands.\<close>

definition counts_only :: "flash \<Rightarrow> flash \<Rightarrow> bool" where
  "counts_only f f' \<longleftrightarrow> f' = f\<lparr>fl_n := fl_n f'\<rparr>"

lemma counts_only_trans: "counts_only f g \<Longrightarrow> counts_only g h \<Longrightarrow> counts_only f h"
  by (cases f; cases g; cases h) (simp add: counts_only_def)

lemma counts_only_same: "counts_only f f' \<Longrightarrow> same_driver f f' \<and> fl_mem f' = fl_mem f"
  by (cases f; cases f') (simp add: counts_only_def same_driver_def)

lemma counts_only_n [simp]: "counts_only f (f\<lparr>fl_n := n\<rparr>)" "counts_only f f"
  by (simp_all add: counts_only_def)

lemma read_reg_counts: "counts_only f (snd (drv_flash_read_reg_internal r f))"
  by (simp add: drv_flash_read_reg_internal_def Let_def split: option.splits)

lemma check_error_counts: "counts_only f (snd (drv_flash_check_error op f))"
  using read_reg_counts[of f "write_err_status_reg (flash_cfg f)"]
    read_reg_counts[of f "erase_err_status_reg (flash_cfg f)"]
  by (cases op) (auto simp: drv_flash_check_error_def split: prod.splits)

lemma poll_status_counts: "counts_only f (snd (poll_status k r op b v f))"
proof (induction k arbitrary: r f)
  case 0
  then show ?case by simp
next
  case (Suc k)
  obtain s q f' where rd: "drv_flash_read_reg_internal READ_STATUS_CMD f = ((s, q), f')"
    by (metis surj_pair)
  then have "counts_only f f'" using read_reg_counts[of f READ_STATUS_CMD] by simp
  with rd Suc.IH[of f'] check_error_counts[of f' op] show ?case
    by (auto simp: Let_def intro: counts_only_trans)
qed

lemma wait_counts: "counts_only f (snd (drv_flash_wait_operation_done t p op b v f))"
  by (simp add: drv_flash_wait_operation_done_def poll_status_counts)

lemma write_enable_counts: "counts_only f (snd (drv_flash_write_enable f))"
  unfolding drv_flash_write_enable_def
  by (rule counts_only_trans [OF _ wait_counts]) simp

text \<open>On a responsive device one poll is enough.\<close>

lemma read_reg_clear:
  assumes "reg_clear (fl_hw f) reg msk" and "reg \<noteq> 0"
  obtains v where "drv_flash_read_reg_internal reg f = ((FLASH_DEVICE_DONE, Some v), f\<lparr>fl_n := Suc (fl_n f)\<rparr>)"
    and "v AND msk = 0"
proof -
  from assms obtain v where "hw_reg (fl_hw f) (fl_n f) reg = Some v" "v AND msk = 0"
    unfolding reg_clear_def by blast
  then show ?thesis using that by (simp add: drv_flash_read_reg_internal_def Let_def)
qed

lemma check_reg_ok:
  assumes "reg_clear (fl_hw f) reg msk"
  shows "fst (if reg = 0 then (FLASH_DEVICE_DONE, f)
         else (case drv_flash_read_reg_internal reg f of
                 ((status, v), f') \<Rightarrow>
                   if status = FLASH_DEVICE_DONE \<and> (case v of Some q \<Rightarrow> q | None \<Rightarrow> 0) AND msk \<noteq> 0
                   then (FLASH_DEVICE_FAIL, f') else (status, f'))) = FLASH_DEVICE_DONE"
proof (cases "reg = 0")
  case True
  then show ?thesis by simp
next
  case False
  obtain v where "drv_flash_read_reg_internal reg f = ((FLASH_DEVICE_DONE, Some v), f\<lparr>fl_n := Suc (fl_n f)\<rparr>)"
    and "v AND msk = 0" by (rule read_reg_clear [OF assms False])
  with False show ?thesis by simp
qed

lemma check_error_ok:
  assumes "hw_responsive f"
  shows "fst (drv_flash_check_error op f) = FLASH_DEVICE_DONE"
proof -
  have clear: "reg_clear (fl_hw f) (write_err_status_reg (flash_cfg f)) (write_err_bmsk (flash_cfg f))"
    "reg_clear (fl_hw f) (erase_err_status_reg (flash_cfg f)) (erase_err_bmsk (flash_cfg f))"
    using assms by (simp_all add: hw_responsive_def)
  show ?thesis
    by (cases op) (simp_all add: drv_flash_check_error_def check_reg_ok [OF clear(1), simplified]
        check_reg_ok [OF clear(2), simplified])
qed

lemma poll_status_ok:
  assumes "hw_responsive f" and "0 < k"
    and "(b, v) = (STATUS_WR_EN_MASK, STATUS_WR_EN_MASK) \<or> (b, v) = (PROG_ERASE_WRITE_BUSY_BMSK, 0)"
  shows "fst (poll_status k r op b v f) = FLASH_DEVICE_DONE"
proof -
  obtain k' where k: "k = Suc k'" using assms(2) gr0_implies_Suc by blast
  obtain q where q: "hw_reg (fl_hw f) (fl_n f) READ_STATUS_CMD = Some q" "q AND b = v"
    using assms(1,3) by (auto simp: hw_responsive_def)
  have "hw_responsive (f\<lparr>fl_n := Suc (fl_n f)\<rparr>)"
    using assms(1) by (simp add: hw_responsive_def)
  with q show ?thesis
    by (simp add: k drv_flash_read_reg_internal_def Let_def check_error_ok)
qed

lemma wait_write_ok:
  "hw_responsive f \<Longrightarrow> fst (drv_flash_wait_operation_done 5000000 100 op PROG_ERASE_WRITE_BUSY_BMSK 0 f) = FLASH_DEVICE_DONE"
  "hw_responsive f \<Longrightarrow> fst (drv_flash_wait_operation_done 5000000 5000 op PROG_ERASE_WRITE_BUSY_BMSK 0 f) = FLASH_DEVICE_DONE"
  by (simp_all add: drv_flash_wait_operation_done_def poll_status_ok)

lemma write_enable_ok: "hw_responsive f \<Longrightarrow> fst (drv_flash_write_enable f) = FLASH_DEVICE_DONE"
  by (simp add: drv_flash_write_enable_def drv_flash_wait_operation_done_def poll_status_ok
      hw_responsive_def)

text \<open>The poll count is exact: subtracting the period that often from the budget gives zero, and
  never earlier, for the period and budget of every caller.\<close>

lemma polls_exact:
  assumes "(t, p) \<in> {(5000000, 20), (5000000, 100), (5000000, 5000), (500000000, 1000000)}"
  shows "(t :: nat) - p * (t div p) = 0 \<and> (\<forall>k < t div p. 0 < t - p * k)"
  using assms by auto

section \<open>Reads\<close>

lemma drv_flash_read_frame [frame_simps]:
  "fl_mem (snd (drv_flash_read a n f)) = fl_mem f"
  "same_driver f (snd (drv_flash_read a n f))"
  by (auto simp: drv_flash_read_def Let_def same_driver_def)

lemma drv_flash_read_done:
  "drv_flash_read a n f = ((FLASH_DEVICE_DONE, bs), f') \<Longrightarrow> bs = mread (fl_mem f) a (unat n)"
  by (auto simp: drv_flash_read_def Let_def split: if_splits)

lemma drv_flash_read_ok:
  assumes "flash_ready f" and "\<not> rw_params_bad a n False f"
  shows "drv_flash_read a n f = ((FLASH_DEVICE_DONE, mread (fl_mem f) a (unat n)), f\<lparr>fl_n := Suc (fl_n f)\<rparr>)"
  using assms by (simp add: drv_flash_read_def flash_ready_def hw_responsive_def Let_def)

section \<open>Writes\<close>

lemma transfer_size_le: "transfer_size a n \<le> n"
  by (simp add: transfer_size_def Let_def)

text \<open>A program command never crosses a page boundary.\<close>

lemma transfer_size_page: "unat (a mod PAGE_SIZE_IN_BYTES) + transfer_size a n \<le> 256"
proof -
  have "unat (a mod PAGE_SIZE_IN_BYTES) < 256" by (simp add: unat_mod)
  then show ?thesis by (auto simp: transfer_size_def Let_def)
qed

lemma page_program_same: "same_driver f (page_program a bs f)"
  by (simp add: page_program_def Let_def same_driver_mem)

text \<open>Inside a page the command is one combination.\<close>

lemma page_program_mem:
  assumes "unat (a mod PAGE_SIZE_IN_BYTES) + length bs \<le> 256"
  shows "fl_mem (page_program a bs f) = mcombine (hw_program (fl_hw f) (fl_n f)) (fl_mem f) a bs"
  using assms by (simp add: page_program_def Let_def)

lemma page_program_transfer:
  "fl_mem (page_program a (take (transfer_size a (length bs)) bs) f) =
     mcombine (hw_program (fl_hw f) (fl_n f)) (fl_mem f) a (take (transfer_size a (length bs)) bs)"
  using transfer_size_page [of a "length bs"] transfer_size_le [of a "length bs"] by (intro page_program_mem) simp

text \<open>Whatever the hardware does, the loop leaves cells outside its range alone.\<close>

lemma write_loop_frame:
  assumes "length bs \<le> 2 ^ 32"
  shows "same_driver f (snd (write_loop a bs f)) \<and>
    (\<forall>x. \<not> in_range a (length bs) x \<longrightarrow> fl_mem (snd (write_loop a bs f)) x = fl_mem f x)"
  using assms
proof (induction a bs f rule: write_loop.induct)
  case (1 a bs f)
  show ?case
  proof (cases "bs = []")
    case True
    then show ?thesis by (simp add: write_loop.simps)
  next
    case False
    define n where "n = transfer_size a (length bs)"
    have n: "n \<le> length bs" by (simp add: n_def transfer_size_le)
    obtain s1 f1 where we: "drv_flash_write_enable f = (s1, f1)" by fastforce
    have f1: "same_driver f f1" "fl_mem f1 = fl_mem f"
      using counts_only_same [OF write_enable_counts [of f]] we by simp_all
    define g where "g = page_program a (take n bs) f1"
    obtain s2 f2 where wt: "drv_flash_wait_operation_done 5000000 100 WRITE_OPERATION PROG_ERASE_WRITE_BUSY_BMSK 0 g = (s2, f2)"
      by fastforce
    have f2: "same_driver g f2" "fl_mem f2 = fl_mem g"
      using counts_only_same [OF wait_counts [of g 5000000 100 WRITE_OPERATION PROG_ERASE_WRITE_BUSY_BMSK 0]] wt by simp_all
    have d2: "same_driver f f2"
      using f1(1) f2(1) page_program_same [of f1 a "take n bs"] same_driver_trans unfolding g_def by blast
    have out: "fl_mem f2 x = fl_mem f x" if "\<not> in_range a (length bs) x" for x
      using that n f1(2) f2(2) page_program_transfer [of a bs f1, folded n_def] in_range_mono [of a n x "length bs"]
        mcombine_out [of a "take n bs" x]
      unfolding g_def by auto
    note step = write_loop.simps [of a bs f]
    show ?thesis
    proof (cases "s1 = FLASH_DEVICE_DONE \<and> s2 = FLASH_DEVICE_DONE")
      case True
      have IH: "same_driver f2 (snd (write_loop (a + of_nat n) (drop n bs) f2)) \<and>
        (\<forall>x. \<not> in_range (a + of_nat n) (length (drop n bs)) x \<longrightarrow>
          fl_mem (snd (write_loop (a + of_nat n) (drop n bs) f2)) x = fl_mem f2 x)"
        using "1.IH" [OF False we [symmetric] _ n_def wt [unfolded g_def, symmetric]] True "1.prems" by simp
      have eq: "write_loop a bs f = write_loop (a + of_nat n) (drop n bs) f2"
        using False we wt True unfolding step g_def n_def by (simp add: Let_def)
      have "\<not> in_range (a + of_nat n) (length (drop n bs)) x" if "\<not> in_range a (length bs) x" for x
        using that n "1.prems" in_range_shift [of a n "length bs - n" x] by auto
      with IH out d2 show ?thesis unfolding eq by (auto intro: same_driver_trans)
    next
      case False
      with \<open>bs \<noteq> []\<close> we wt f1 d2 out show ?thesis
        unfolding step g_def n_def by (auto simp: Let_def)
    qed
  qed
qed

text \<open>On a responsive NOR device the loop is one combination of the whole range.\<close>

lemma write_loop_ok:
  assumes "hw_responsive f" and "hw_nor f" and "length bs \<le> 2 ^ 32"
  shows "fst (write_loop a bs f) = FLASH_DEVICE_DONE \<and>
    fl_mem (snd (write_loop a bs f)) = mcombine (AND) (fl_mem f) a bs"
  using assms
proof (induction a bs f rule: write_loop.induct)
  case (1 a bs f)
  show ?case
  proof (cases "bs = []")
    case True
    then show ?thesis by (simp add: write_loop.simps)
  next
    case False
    define n where "n = transfer_size a (length bs)"
    have n: "n \<le> length bs" by (simp add: n_def transfer_size_le)
    obtain f1 where we: "drv_flash_write_enable f = (FLASH_DEVICE_DONE, f1)"
      using write_enable_ok [OF "1.prems"(1)] by (metis prod.collapse)
    have f1: "same_driver f f1" "fl_mem f1 = fl_mem f"
      using counts_only_same [OF write_enable_counts [of f]] we by simp_all
    define g where "g = page_program a (take n bs) f1"
    have g: "same_driver f g"
      using f1(1) page_program_same [of f1 a "take n bs"] same_driver_trans unfolding g_def by blast
    have memg: "fl_mem g = mcombine (AND) (fl_mem f) a (take n bs)"
      using "1.prems"(2) same_driver_nor [OF f1(1)] f1(2) page_program_transfer [of a bs f1, folded n_def]
      by (simp add: g_def hw_nor_def)
    obtain f2 where wt: "drv_flash_wait_operation_done 5000000 100 WRITE_OPERATION PROG_ERASE_WRITE_BUSY_BMSK 0 g
        = (FLASH_DEVICE_DONE, f2)"
      using wait_write_ok(1) [of g WRITE_OPERATION] "1.prems"(1) same_driver_responsive [OF g]
      by (metis prod.collapse)
    have f2: "same_driver g f2" "fl_mem f2 = fl_mem g"
      using counts_only_same [OF wait_counts [of g 5000000 100 WRITE_OPERATION PROG_ERASE_WRITE_BUSY_BMSK 0]] wt by simp_all
    have d2: "same_driver f f2" using g f2(1) same_driver_trans by blast
    have eq: "write_loop a bs f = write_loop (a + of_nat n) (drop n bs) f2"
      using False we wt unfolding write_loop.simps [of a bs f] g_def n_def by (simp add: Let_def)
    have IH: "fst (write_loop (a + of_nat n) (drop n bs) f2) = FLASH_DEVICE_DONE \<and>
        fl_mem (snd (write_loop (a + of_nat n) (drop n bs) f2)) =
          mcombine (AND) (fl_mem f2) (a + of_nat n) (drop n bs)"
      using "1.IH" [OF False we [symmetric] _ n_def wt [unfolded g_def, symmetric]] "1.prems"
        same_driver_responsive [OF d2] same_driver_nor [OF d2] by simp
    have "mcombine (AND) (mcombine (AND) (fl_mem f) a (take n bs)) (a + of_nat n) (drop n bs)
        = mcombine (AND) (fl_mem f) a bs"
      using mcombine_append [of "take n bs" "drop n bs" "(AND)" "fl_mem f" a] n "1.prems"(3) by simp
    with IH f2(2) memg show ?thesis unfolding eq by simp
  qed
qed

lemma drv_flash_write_frame:
  "same_driver f (snd (drv_flash_write a n bs f))"
  "\<not> in_range a (unat n) x \<Longrightarrow> fl_mem (snd (drv_flash_write a n bs f)) x = fl_mem f x"
proof -
  let ?f = "f\<lparr>flash_state := 1\<rparr>" and ?bs = "take (unat n) bs"
  have len: "length ?bs \<le> 2 ^ 32" using unat_u32_bound [of n] by simp
  note fr = write_loop_frame [OF len, of ?f a]
  obtain st f' where wl: "write_loop a ?bs ?f = (st, f')" by fastforce
  have *: "f'\<lparr>flash_state := 0\<rparr> = f\<lparr>flash_state := 0, fl_mem := fl_mem f', fl_n := fl_n f'\<rparr>"
    using fr wl unfolding same_driver_def by (cases f; cases f') simp
  have "snd (drv_flash_write a n bs f) =
      (if flash_init_done f \<and> flash_state f = 0 \<and> \<not> rw_params_bad a n False f
       then f\<lparr>fl_mem := fl_mem f', fl_n := fl_n f'\<rparr> else f)"
    using * wl by (cases f) (auto simp: drv_flash_write_def)
  then show "same_driver f (snd (drv_flash_write a n bs f))"
    by (simp add: same_driver_mem)
  show "\<not> in_range a (unat n) x \<Longrightarrow> fl_mem (snd (drv_flash_write a n bs f)) x = fl_mem f x"
    using fr wl in_range_mono [of a "length ?bs" x "unat n"] by (auto simp: drv_flash_write_def)
qed

lemma drv_flash_write_ok:
  assumes "flash_ready f" and "\<not> rw_params_bad a n False f"
  shows "\<exists>k. drv_flash_write a n bs f =
    (FLASH_DEVICE_DONE, f\<lparr>fl_mem := mcombine (AND) (fl_mem f) a (take (unat n) bs), fl_n := k\<rparr>)"
proof -
  let ?f = "f\<lparr>flash_state := 1\<rparr>" and ?bs = "take (unat n) bs"
  have len: "length ?bs \<le> 2 ^ 32" using unat_u32_bound [of n] by simp
  have "hw_responsive ?f" "hw_nor ?f"
    using assms(1) by (simp_all add: flash_ready_def hw_responsive_def hw_nor_def)
  note ok = write_loop_ok [OF this len, of a]
  obtain st f' where wl: "write_loop a ?bs ?f = (st, f')" by fastforce
  have "f'\<lparr>flash_state := 0\<rparr> = f\<lparr>flash_state := 0, fl_mem := mcombine (AND) (fl_mem f) a ?bs, fl_n := fl_n f'\<rparr>"
    using ok write_loop_frame [OF len, of ?f a] wl unfolding same_driver_def by (cases f; cases f') simp
  moreover have "flash_state f = 0" "flash_init_done f" using assms(1) by (simp_all add: flash_ready_def)
  ultimately have "drv_flash_write a n bs f =
      (FLASH_DEVICE_DONE, f\<lparr>fl_mem := mcombine (AND) (fl_mem f) a ?bs, fl_n := fl_n f'\<rparr>)"
    using assms(2) ok wl by (cases f) (simp add: drv_flash_write_def)
  then show ?thesis by blast
qed

section \<open>Erase\<close>

lemma erase_cmd_same: "same_driver f (erase_cmd a sz f)"
  by (simp add: erase_cmd_def same_driver_mem)

lemma erase_loop_done:
  assumes "hw_responsive f"
  shows "fst (erase_loop cnt a sz 5000000 5000 f) = FLASH_DEVICE_DONE"
  using assms
proof (induction cnt arbitrary: a f)
  case 0
  then show ?case by simp
next
  case (Suc cnt)
  obtain f1 where we: "drv_flash_write_enable f = (FLASH_DEVICE_DONE, f1)"
    using write_enable_ok [OF Suc.prems] by (metis prod.collapse)
  have f1: "same_driver f f1" using counts_only_same [OF write_enable_counts [of f]] we by simp
  let ?g = "erase_cmd a sz f1"
  have g: "same_driver f ?g" using f1 erase_cmd_same same_driver_trans by blast
  obtain f2 where wt: "drv_flash_wait_operation_done 5000000 5000 ERASE_OPERATION PROG_ERASE_WRITE_BUSY_BMSK 0 ?g
      = (FLASH_DEVICE_DONE, f2)"
    using wait_write_ok(2) [of ?g ERASE_OPERATION] Suc.prems same_driver_responsive [OF g]
    by (metis prod.collapse)
  have "same_driver ?g f2"
    using counts_only_same [OF wait_counts [of ?g 5000000 5000 ERASE_OPERATION PROG_ERASE_WRITE_BUSY_BMSK 0]] wt by simp
  then have "hw_responsive f2" using g Suc.prems same_driver_responsive same_driver_trans by blast
  with we wt Suc.IH show ?case by simp
qed

text \<open>Whatever the hardware does, an erase leaves cells outside its blocks alone.\<close>

lemma erase_loop_frame:
  assumes "cnt * unat sz \<le> 2 ^ 32"
  shows "same_driver f (snd (erase_loop cnt a sz t p f)) \<and>
    (\<forall>x. \<not> in_range a (cnt * unat sz) x \<longrightarrow> fl_mem (snd (erase_loop cnt a sz t p f)) x = fl_mem f x)"
  using assms
proof (induction cnt arbitrary: a f)
  case 0
  then show ?case by simp
next
  case (Suc cnt)
  obtain s1 f1 where we: "drv_flash_write_enable f = (s1, f1)" by fastforce
  have f1: "same_driver f f1" "fl_mem f1 = fl_mem f"
    using counts_only_same [OF write_enable_counts [of f]] we by simp_all
  define g where "g = erase_cmd a sz f1"
  obtain s2 f2 where wt: "drv_flash_wait_operation_done t p ERASE_OPERATION PROG_ERASE_WRITE_BUSY_BMSK 0 g = (s2, f2)"
    by fastforce
  have f2: "same_driver g f2" "fl_mem f2 = fl_mem g"
    using counts_only_same [OF wait_counts [of g t p ERASE_OPERATION PROG_ERASE_WRITE_BUSY_BMSK 0]] wt by simp_all
  have d2: "same_driver f f2" using f1(1) f2(1) erase_cmd_same same_driver_trans unfolding g_def by blast
  have le: "cnt * unat sz \<le> 2 ^ 32" using Suc.prems by simp
  have rng: "in_range a (Suc cnt * unat sz) x \<longleftrightarrow> in_range a (unat sz) x \<or> in_range (a + sz) (cnt * unat sz) x" for x
    using in_range_add [of "unat sz" "cnt * unat sz" a x] Suc.prems unat_u32_bound [of sz] by simp
  have out: "fl_mem f2 x = fl_mem f x" if "\<not> in_range a (unat sz) x" for x
    using that f1(2) f2(2) by (simp add: g_def erase_cmd_def)
  show ?case
    using we wt f1 d2 out rng Suc.IH [OF le, of f2 "a + sz"]
    by (auto simp: g_def intro: same_driver_trans)
qed

lemma erase_loop_ok:
  assumes "hw_responsive f" and "hw_nor f" and "cnt * unat sz \<le> 2 ^ 32"
  shows "fl_mem (snd (erase_loop cnt a sz 5000000 5000 f)) = merase (fl_mem f) a (cnt * unat sz)"
  using assms
proof (induction cnt arbitrary: a f)
  case 0
  then show ?case by simp
next
  case (Suc cnt)
  obtain f1 where we: "drv_flash_write_enable f = (FLASH_DEVICE_DONE, f1)"
    using write_enable_ok [OF Suc.prems(1)] by (metis prod.collapse)
  have f1: "same_driver f f1" "fl_mem f1 = fl_mem f"
    using counts_only_same [OF write_enable_counts [of f]] we by simp_all
  define g where "g = erase_cmd a sz f1"
  have g: "same_driver f g" using f1(1) erase_cmd_same same_driver_trans unfolding g_def by blast
  have memg: "fl_mem g = merase (fl_mem f) a (unat sz)"
    using Suc.prems(2) same_driver_nor [OF f1(1)] f1(2) by (auto simp: g_def erase_cmd_def hw_nor_def merase_def)
  obtain f2 where wt: "drv_flash_wait_operation_done 5000000 5000 ERASE_OPERATION PROG_ERASE_WRITE_BUSY_BMSK 0 g
      = (FLASH_DEVICE_DONE, f2)"
    using wait_write_ok(2) [of g ERASE_OPERATION] Suc.prems(1) same_driver_responsive [OF g]
    by (metis prod.collapse)
  have f2: "same_driver g f2" "fl_mem f2 = fl_mem g"
    using counts_only_same [OF wait_counts [of g 5000000 5000 ERASE_OPERATION PROG_ERASE_WRITE_BUSY_BMSK 0]] wt by simp_all
  have d2: "same_driver f f2" using g f2(1) same_driver_trans by blast
  have "fl_mem (snd (erase_loop cnt (a + sz) sz 5000000 5000 f2)) = merase (fl_mem f2) (a + sz) (cnt * unat sz)"
    using Suc same_driver_responsive [OF d2] same_driver_nor [OF d2] by simp
  also have "\<dots> = merase (fl_mem f) a (unat sz + cnt * unat sz)"
    using merase_add [of "unat sz" "cnt * unat sz" "fl_mem f" a] Suc.prems(3) unat_u32_bound [of sz]
    by (simp add: f2(2) memg)
  finally show ?case using we wt by (simp add: g_def)
qed

lemma block_size_mult: "unat b * 4096 < 2 ^ 32 \<Longrightarrow> unat (b * BLOCK_SIZE_IN_BYTES) = unat b * 4096"
  by (simp add: unat_word_ariths)

lemma block_erase_checks:
  assumes "(unat start + unat cnt) * 4096 \<le> unat (flash_limit f)"
  shows "unat (start * BLOCK_SIZE_IN_BYTES) = unat start * 4096"
    and "unat ((start + cnt) * BLOCK_SIZE_IN_BYTES) = (unat start + unat cnt) * 4096"
    and "\<not> (start + cnt) * BLOCK_SIZE_IN_BYTES < start * BLOCK_SIZE_IN_BYTES"
    and "\<not> flash_limit f < (start + cnt) * BLOCK_SIZE_IN_BYTES"
proof -
  have lt: "(unat start + unat cnt) * 4096 < 2 ^ 32"
    using assms unat_u32_bound [of "flash_limit f"] by linarith
  then show 1: "unat (start * BLOCK_SIZE_IN_BYTES) = unat start * 4096"
    by (intro block_size_mult) simp
  have "unat (start + cnt) = unat start + unat cnt"
    using lt by (simp add: unat_word_ariths)
  then show 2: "unat ((start + cnt) * BLOCK_SIZE_IN_BYTES) = (unat start + unat cnt) * 4096"
    using lt block_size_mult [of "start + cnt"] by simp
  show "\<not> (start + cnt) * BLOCK_SIZE_IN_BYTES < start * BLOCK_SIZE_IN_BYTES"
    and "\<not> flash_limit f < (start + cnt) * BLOCK_SIZE_IN_BYTES"
    using 1 2 assms by (simp_all add: word_less_nat_alt)
qed

lemma drv_flash_erase_ok:
  assumes "flash_ready f" and "cnt \<noteq> 0" and "(unat start + unat cnt) * 4096 \<le> unat (flash_limit f)"
  shows "\<exists>k. drv_flash_erase FLASH_BLOCK_ERASE_E start cnt f =
    (FLASH_DEVICE_DONE, f\<lparr>fl_mem := merase (fl_mem f) (start * BLOCK_SIZE_IN_BYTES) (unat cnt * 4096), fl_n := k\<rparr>)"
proof -
  let ?f = "f\<lparr>flash_state := 4\<rparr>" and ?a = "start * BLOCK_SIZE_IN_BYTES"
  have rn: "hw_responsive ?f" "hw_nor ?f" "flash_init_done f" "flash_state f = 0" "erase_4kb_opcode (flash_cfg f) \<noteq> 0"
    using assms(1) by (simp_all add: flash_ready_def hw_responsive_def hw_nor_def)
  have le: "unat cnt * unat BLOCK_SIZE_IN_BYTES \<le> 2 ^ 32"
    using assms(3) unat_u32_bound [of "flash_limit f"] by simp
  obtain st f' where el: "erase_loop (unat cnt) ?a BLOCK_SIZE_IN_BYTES 5000000 5000 ?f = (st, f')" by fastforce
  have st: "st = FLASH_DEVICE_DONE" using erase_loop_done [OF rn(1)] el by (metis fst_conv)
  have "fl_mem f' = merase (fl_mem f) ?a (unat cnt * 4096)"
    using erase_loop_ok [OF rn(1,2) le, of ?a] el by simp
  moreover have "same_driver ?f f'" using erase_loop_frame [OF le, of ?f ?a 5000000 5000] el by simp
  ultimately have "f'\<lparr>flash_state := 0\<rparr> =
      f\<lparr>flash_state := 0, fl_mem := merase (fl_mem f) ?a (unat cnt * 4096), fl_n := fl_n f'\<rparr>"
    unfolding same_driver_def by (cases f; cases f') simp
  then show ?thesis
    using rn assms(2) block_erase_checks [OF assms(3)] el st
    by (cases f) (auto simp: drv_flash_erase_def erase_params_def)
qed

lemma drv_flash_erase_frame:
  assumes "unat cnt * 4096 \<le> 2 ^ 32"
  shows "same_driver f (snd (drv_flash_erase FLASH_BLOCK_ERASE_E start cnt f))"
    and "\<not> in_range (start * BLOCK_SIZE_IN_BYTES) (unat cnt * 4096) x \<Longrightarrow>
      fl_mem (snd (drv_flash_erase FLASH_BLOCK_ERASE_E start cnt f)) x = fl_mem f x"
proof -
  let ?f = "f\<lparr>flash_state := 4\<rparr>" and ?a = "start * BLOCK_SIZE_IN_BYTES"
  have le: "unat cnt * unat BLOCK_SIZE_IN_BYTES \<le> 2 ^ 32" using assms by simp
  obtain st f' where el: "erase_loop (unat cnt) ?a BLOCK_SIZE_IN_BYTES 5000000 5000 ?f = (st, f')" by fastforce
  note fr = erase_loop_frame [OF le, of ?f ?a 5000000 5000]
  have "f'\<lparr>flash_state := 0\<rparr> = f\<lparr>flash_state := 0, fl_mem := fl_mem f', fl_n := fl_n f'\<rparr>"
    using fr el unfolding same_driver_def by (cases f; cases f') simp
  then have eq: "snd (drv_flash_erase FLASH_BLOCK_ERASE_E start cnt f) = f \<or>
      snd (drv_flash_erase FLASH_BLOCK_ERASE_E start cnt f) = f\<lparr>fl_mem := fl_mem f', fl_n := fl_n f'\<rparr>"
    using el by (cases f) (auto simp: drv_flash_erase_def erase_params_def)
  then show "same_driver f (snd (drv_flash_erase FLASH_BLOCK_ERASE_E start cnt f))"
    by (auto simp: same_driver_mem)
  show "\<not> in_range (start * BLOCK_SIZE_IN_BYTES) (unat cnt * 4096) x \<Longrightarrow>
      fl_mem (snd (drv_flash_erase FLASH_BLOCK_ERASE_E start cnt f)) x = fl_mem f x"
    using eq fr el by auto
qed

section \<open>The driver as a byte store\<close>

definition flash_rd :: "u32 \<Rightarrow> nat \<Rightarrow> flash \<Rightarrow> u8 list option \<times> flash" where
  "flash_rd a n f =
     (case drv_flash_read a (of_nat n) f of
        ((st, bs), f') \<Rightarrow> (if st = FLASH_DEVICE_DONE then Some bs else None, f'))"

definition flash_wr :: "u32 \<Rightarrow> u8 list \<Rightarrow> flash \<Rightarrow> bool \<times> flash" where
  "flash_wr a bs f =
     (case drv_flash_write a (of_nat (length bs)) bs f of (st, f') \<Rightarrow> (st = FLASH_DEVICE_DONE, f'))"

definition flash_fits :: "u32 \<Rightarrow> nat \<Rightarrow> flash \<Rightarrow> bool" where
  "flash_fits a n f \<longleftrightarrow> 0 < n \<and> unat a + n \<le> unat (flash_limit f)"

definition flash_accepts :: "flash \<Rightarrow> u32 \<Rightarrow> u8 list \<Rightarrow> bool" where
  "flash_accepts f a bs \<longleftrightarrow> (\<forall>i < length bs. fl_mem f (a + of_nat i) AND bs ! i = bs ! i)"

lemma flash_fits_params:
  assumes "flash_fits a n f"
  shows "\<not> rw_params_bad a (of_nat n) False f" and "unat (of_nat n :: u32) = n"
proof -
  have lt: "unat a + n < 2 ^ 32"
    using assms unat_u32_bound [of "flash_limit f"] by (simp add: flash_fits_def)
  then show n: "unat (of_nat n :: u32) = n" by (simp add: unat_of_nat_u32)
  have "unat (a + of_nat n) = unat a + n"
    using lt n by (simp add: unat_word_ariths)
  moreover have "(of_nat n :: u32) \<noteq> 0" using n assms by (metis flash_fits_def less_irrefl unat_0)
  ultimately show "\<not> rw_params_bad a (of_nat n) False f"
    using assms by (simp add: rw_params_bad_def flash_fits_def word_less_nat_alt)
qed

lemma erased_accepts:
  "(\<And>i. i < length bs \<Longrightarrow> fl_mem f (a + of_nat i) = 0xFF) \<Longrightarrow> flash_accepts f a bs"
proof -
  have "(0xFF :: u8) AND b = b" for b
  proof -
    have "(0xFF :: u8) = - 1" by simp
    then show ?thesis by (metis and.left_neutral)
  qed
  then show "(\<And>i. i < length bs \<Longrightarrow> fl_mem f (a + of_nat i) = 0xFF) \<Longrightarrow> flash_accepts f a bs"
    by (simp add: flash_accepts_def)
qed

lemma mread_accepts:
  "length bs \<le> 2 ^ 32 \<Longrightarrow> flash_accepts f a bs \<Longrightarrow> mread (mcombine (AND) (fl_mem f) a bs) a (length bs) = bs"
  by (intro nth_equalityI) (simp_all add: mcombine_at flash_accepts_def)

interpretation flash_store: byte_store fl_mem flash_ready flash_fits flash_accepts flash_rd flash_wr
proof unfold_locales
  fix f :: flash and a b :: u32 and bs :: "u8 list" and n :: nat and x :: u32
  have sd: "same_driver f (snd (flash_wr a bs f))" for a bs
    using drv_flash_write_frame(1) [of f a "of_nat (length bs)" bs]
    by (simp add: flash_wr_def case_prod_beta)
  show "flash_ready f \<Longrightarrow> flash_ready (snd (flash_wr a bs f))"
    using same_driver_ready [OF sd] by simp
  show "flash_fits a n (snd (flash_wr b bs f)) = flash_fits a n f" if "flash_ready f"
    using same_driver_fields [OF sd [of b bs]] by (simp add: flash_fits_def)
  show "fl_mem (snd (flash_rd a n f)) = fl_mem f"
    using drv_flash_read_frame(1) [of a "of_nat n" f] by (simp add: flash_rd_def case_prod_beta)
  show "fst (flash_rd a n f) = Some (mread (fl_mem f) a n)" if "flash_ready f" "flash_fits a n f"
    using drv_flash_read_ok [OF that(1) flash_fits_params(1) [OF that(2)]] flash_fits_params(2) [OF that(2)]
    by (simp add: flash_rd_def)
  show "fl_mem (snd (flash_wr a bs f)) x = fl_mem f x"
    if "flash_ready f" "flash_fits a (length bs) f" "\<not> in_range a (length bs) x"
    using drv_flash_write_frame(2) [of a "of_nat (length bs)" x bs f] that flash_fits_params(2) [OF that(2)]
    by (simp add: flash_wr_def case_prod_beta)
  show "fst (flash_wr a bs f) \<and> mread (fl_mem (snd (flash_wr a bs f))) a (length bs) = bs"
    if r: "flash_ready f" and ft: "flash_fits a (length bs) f" and acc: "flash_accepts f a bs"
  proof -
    note u = flash_fits_params [OF ft]
    obtain k where w: "drv_flash_write a (of_nat (length bs)) bs f =
        (FLASH_DEVICE_DONE, f\<lparr>fl_mem := mcombine (AND) (fl_mem f) a bs, fl_n := k\<rparr>)"
      using drv_flash_write_ok [OF r u(1), of bs] u(2) by auto
    have "length bs \<le> 2 ^ 32" using ft unat_u32_bound [of "flash_limit f"] by (simp add: flash_fits_def)
    with w acc show ?thesis by (simp add: flash_wr_def mread_accepts)
  qed
qed

section \<open>Properties of the driver\<close>

text \<open>A concrete device for the witnesses: 16 MB, no error registers, idle and fully erased.\<close>

definition demo_cfg :: flash_config where
  "demo_cfg = \<lparr>addr_bytes = 3, read_cmd_mode = 1, read_addr_mode = 1, read_data_mode = 1,
     write_cmd_mode = 1, write_addr_mode = 1, write_data_mode = 1, erase_4kb_opcode = 0x20,
     bulk_erase_size_4kb = 16, bulk_erase_opcode = 0xD8, chip_erase_opcode = 0xC7, erase_err_bmsk = 0,
     erase_err_status_reg = 0, write_err_bmsk = 0, write_err_status_reg = 0,
     high_performance_mode_bmask = 0, density_in_blocks = 4096, device_id = 0xEF7018\<rparr>"

definition demo_hw :: flash_hw where
  "demo_hw = \<lparr>hw_read = (\<lambda>_. True), hw_reg = (\<lambda>_ _. Some 2), hw_id = (\<lambda>_. Some 0xEF7018),
     hw_program = (\<lambda>_. (AND)), hw_erase = (\<lambda>_ _. 0xFF), hw_init = (\<lambda>_ _. FLASH_DEVICE_DONE),
     hw_alloc = (\<lambda>_. True)\<rparr>"

definition demo_flash :: "mem \<Rightarrow> flash" where
  "demo_flash m = \<lparr>flash_init_done = True, flash_state = 0, flash_cfg = demo_cfg, flash_table = [demo_cfg],
     flash_quad = False, fl_mem = m, fl_hw = demo_hw, fl_n = 0\<rparr>"

lemma demo_flash_ready: "flash_ready (demo_flash m)"
  by (simp add: demo_flash_def demo_cfg_def demo_hw_def flash_ready_def hw_responsive_def hw_nor_def reg_clear_def)

lemma demo_flash_limit [simp]: "flash_limit (demo_flash m) = 0x1000000"
  by (simp add: demo_flash_def demo_cfg_def)

lemma demo_flash_mem [simp]: "fl_mem (demo_flash m) = m"
  by (simp add: demo_flash_def)

text \<open>C1. Writing a buffer to cells that accept it (erased ones in particular) and reading the same
  range back returns the buffer, for every page-split the driver chooses.\<close>

theorem flash_write_read_roundtrip:
  assumes "flash_ready f" and "0 < length bs" and "unat a + length bs \<le> unat (flash_limit f)"
    and "\<forall>i < length bs. fl_mem f (a + of_nat i) = 0xFF"
  shows "fst (drv_flash_write a (of_nat (length bs)) bs f) = FLASH_DEVICE_DONE \<and>
    fst (drv_flash_read a (of_nat (length bs)) (snd (drv_flash_write a (of_nat (length bs)) bs f)))
      = (FLASH_DEVICE_DONE, bs)"
proof
  have fits: "flash_fits a (length bs) f" using assms(2,3) by (simp add: flash_fits_def)
  have acc: "flash_accepts f a bs" using assms(4) by (intro erased_accepts) simp
  note st = flash_store.wr_stores [OF assms(1) fits acc] and rd = flash_store.write_read [OF assms(1) fits acc]
  show "fst (drv_flash_write a (of_nat (length bs)) bs f) = FLASH_DEVICE_DONE"
    using st by (simp add: flash_wr_def split: prod.splits)
  show "fst (drv_flash_read a (of_nat (length bs)) (snd (drv_flash_write a (of_nat (length bs)) bs f)))
      = (FLASH_DEVICE_DONE, bs)"
    using rd by (auto simp: flash_rd_def flash_wr_def split: prod.splits if_splits)
qed

theorem flash_write_read_roundtrip_witness:
  "fst (drv_flash_read 250 (of_nat (length [1, 2, 3 :: u8]))
     (snd (drv_flash_write 250 (of_nat (length [1, 2, 3 :: u8])) [1, 2, 3] (demo_flash (\<lambda>_. 0xFF)))))
   = (FLASH_DEVICE_DONE, [1, 2, 3])"
  by (rule flash_write_read_roundtrip [OF demo_flash_ready, THEN conjunct2])
    (simp_all add: demo_flash_def demo_cfg_def)

text \<open>C2. Whatever the hardware answers, a write changes no cell outside
  \<open>[address, address + byte_cnt)\<close>, changes nothing when that range wraps or exceeds the device,
  and leaves the driver idle and configured as before.\<close>

theorem flash_write_confined:
  "same_driver f (snd (drv_flash_write a n bs f)) \<and>
   (\<forall>x. fl_mem (snd (drv_flash_write a n bs f)) x \<noteq> fl_mem f x \<longrightarrow>
      in_range a (unat n) x \<and> unat a + unat n \<le> unat (flash_limit f))"
proof (intro conjI allI impI)
  show "same_driver f (snd (drv_flash_write a n bs f))" by (rule drv_flash_write_frame)
  fix x assume ch: "fl_mem (snd (drv_flash_write a n bs f)) x \<noteq> fl_mem f x"
  then show "in_range a (unat n) x" using drv_flash_write_frame(2) by blast
  have ok: "\<not> rw_params_bad a n False f" using ch by (auto simp: drv_flash_write_def split: if_splits)
  then have "unat (a + n) = unat a + unat n"
    using unat_plus_simple [of a n] by (simp add: rw_params_bad_def not_less)
  with ok show "unat a + unat n \<le> unat (flash_limit f)"
    by (simp add: rw_params_bad_def word_less_nat_alt not_less)
qed

theorem flash_write_confined_witness:
  "fl_mem (snd (drv_flash_write 0x1000 1 [0] (demo_flash (\<lambda>_. 0xFF)))) 0x2000 = 0xFF"
proof -
  have "\<not> in_range 0x1000 (unat (1 :: u32)) 0x2000" by (simp add: in_range_def)
  then show ?thesis
    using flash_write_confined [of "demo_flash (\<lambda>_. 0xFF)" "0x1000" 1 "[0]"] by auto
qed

text \<open>C3. A block erase inside the device sets exactly the cells of the named blocks to \<open>0xFF\<close>.\<close>

theorem flash_erase_exact:
  assumes "flash_ready f" and "cnt \<noteq> 0" and "(unat start + unat cnt) * 4096 \<le> unat (flash_limit f)"
  shows "fst (drv_flash_erase FLASH_BLOCK_ERASE_E start cnt f) = FLASH_DEVICE_DONE \<and>
    (\<forall>x. fl_mem (snd (drv_flash_erase FLASH_BLOCK_ERASE_E start cnt f)) x =
       (if unat start * 4096 \<le> unat x \<and> unat x < (unat start + unat cnt) * 4096 then 0xFF else fl_mem f x))"
proof -
  obtain k where e: "drv_flash_erase FLASH_BLOCK_ERASE_E start cnt f =
    (FLASH_DEVICE_DONE, f\<lparr>fl_mem := merase (fl_mem f) (start * BLOCK_SIZE_IN_BYTES) (unat cnt * 4096), fl_n := k\<rparr>)"
    using drv_flash_erase_ok [OF assms] by blast
  have "in_range (start * BLOCK_SIZE_IN_BYTES) (unat cnt * 4096) x \<longleftrightarrow>
      unat start * 4096 \<le> unat x \<and> unat x < (unat start + unat cnt) * 4096" for x
    using block_erase_checks(1) [OF assms(3)] assms(3) unat_u32_bound [of x] unat_u32_bound [of "flash_limit f"]
    by (auto simp: in_range_def unat_diff_u32)
  with e show ?thesis by (simp add: merase_def)
qed

theorem flash_erase_exact_witness:
  "fl_mem (snd (drv_flash_erase FLASH_BLOCK_ERASE_E 1 2 (demo_flash (\<lambda>_. 0)))) 0x1000 = 0xFF \<and>
   fl_mem (snd (drv_flash_erase FLASH_BLOCK_ERASE_E 1 2 (demo_flash (\<lambda>_. 0)))) 0x3000 = 0"
  using flash_erase_exact [OF demo_flash_ready, of 2 1 "\<lambda>_. 0"] by simp

text \<open>The erase bound is checked on \<open>(start + cnt) * size\<close> in 32 bits: a request for
  \<open>2 ^ 20 + 1\<close> blocks, far beyond any device whose limit is at least one block, wraps to one block,
  passes the check and is carried out.\<close>

theorem flash_erase_count_wraps:
  assumes "flash_ready f" and "BLOCK_SIZE_IN_BYTES \<le> flash_limit f"
  shows "fst (drv_flash_erase FLASH_BLOCK_ERASE_E 0 0x100001 f) = FLASH_DEVICE_DONE"
proof -
  let ?f = "f\<lparr>flash_state := 4\<rparr>"
  have "hw_responsive ?f" using assms(1) by (simp add: flash_ready_def hw_responsive_def)
  then have "fst (erase_loop (unat (0x100001 :: u32)) 0 BLOCK_SIZE_IN_BYTES 5000000 5000 ?f) = FLASH_DEVICE_DONE"
    by (rule erase_loop_done)
  moreover have "\<not> flash_limit f < (0 + 0x100001) * BLOCK_SIZE_IN_BYTES"
  proof -
    have "(0 + 0x100001) * BLOCK_SIZE_IN_BYTES = BLOCK_SIZE_IN_BYTES" by simp
    with assms(2) show ?thesis by (simp only: not_less)
  qed
  ultimately show ?thesis
    using assms(1) by (simp add: drv_flash_erase_def erase_params_def flash_ready_def case_prod_beta)
qed

theorem flash_erase_count_wraps_witness:
  "fst (drv_flash_erase FLASH_BLOCK_ERASE_E 0 0x100001 (demo_flash (\<lambda>_. 0))) = FLASH_DEVICE_DONE"
  by (rule flash_erase_count_wraps [OF demo_flash_ready]) simp

end
