(* ===== verification/RramDriver.thy ===== *)
theory RramDriver
  imports ByteStore
begin

text \<open>
  The RRAM driver (\<open>src/modules/hal/qcc730/rram/nt_mem.c\<close>), in the configuration with OTP support and
  writes through the DXE engine. RRAM is written in aligned units of 16 bytes; \<open>nt_rram_write\<close> splits
  a request into an unaligned head, whole blocks and a padded tail, reading the padding back through the
  shared buffer \<open>temp_r_w_buff\<close>. The OTP region inside the RRAM address space has per-region read and
  write locks.

  The state is the byte memory, the shared buffer, the linker-script bounds and the engine's behaviour:
  \<open>rr_poll n k\<close> is the DONE bit of the \<open>k\<close>-th status read of transfer \<open>n\<close>, and \<open>rr_cell n\<close>
  what the transfer leaves in a cell holding the first byte when the second is written. Register setup,
  logging and the cache test mode bit are not part of the state.

  Shown: which requests the range check lets through (nothing overlapping a write-locked OTP region), that
  an accepted write to the main area on a working engine is one plain overwrite of the requested bytes
  whatever the alignment of source and destination, and what happens at the very end of the area, where
  the read-back is refused and the padding is stale.
\<close>

unbundle bit_operations_syntax

section \<open>State\<close>

datatype nt_otp_region_per_status = READ_LOCKED | WRITE_LOCKED

record rram =
  rr_mem :: mem
  rr_tmp :: "u8 list"
  rr_start :: u32
  rr_end :: u32
  rr_otp_start :: u32
  rr_otp_end :: u32
  rr_dxe_read :: bool
  rr_poll :: "nat \<Rightarrow> nat \<Rightarrow> bool"
  rr_cell :: "nat \<Rightarrow> u8 \<Rightarrow> u8 \<Rightarrow> u8"
  rr_n :: nat

abbreviation (input) EIO :: int where "EIO \<equiv> 5"
abbreviation (input) EPERM :: int where "EPERM \<equiv> 1"
abbreviation (input) EFAULT :: int where "EFAULT \<equiv> 14"
abbreviation (input) EINVAL :: int where "EINVAL \<equiv> 22"
abbreviation (input) EBADE :: int where "EBADE \<equiv> 52"

text \<open>Region sizes and lock bits of the OTP map, in address order.\<close>

definition g_otp_region_lock_map :: "(u32 \<times> nat) list" where
  "g_otp_region_lock_map =
     [(32, 0), (16, 1), (16, 2), (16, 9), (16, 3), (16, 4), (32, 5), (16, 6), (16, 7), (16, 8),
      (256, 10), (32, 11), (16, 13), (16, 16), (64, 17), (16, 19), (16, 14), (16, 15), (16, 12), (3456, 20)]"

abbreviation (input) RW_PERMISSION_REGION :: nat where "RW_PERMISSION_REGION \<equiv> 2"
abbreviation (input) MAX_REGION :: nat where "MAX_REGION \<equiv> 21"

section \<open>Address checks and OTP permissions\<close>

definition MEM_RRAM_MAIN_ADDR_CHK :: "u32 \<Rightarrow> rram \<Rightarrow> bool" where
  "MEM_RRAM_MAIN_ADDR_CHK a r \<longleftrightarrow> rr_start r \<le> a \<and> a < rr_end r"

definition MEM_RRAM_OTP_ADDR_CHK :: "u32 \<Rightarrow> rram \<Rightarrow> bool" where
  "MEM_RRAM_OTP_ADDR_CHK a r \<longleftrightarrow> rr_otp_start r \<le> a \<and> a < rr_otp_end r"

fun region_search :: "(u32 \<times> nat) list \<Rightarrow> u32 \<Rightarrow> u32 \<Rightarrow> nat" where
  "region_search [] region_start address = 0"
| "region_search ((sz, lock) # rs) region_start address =
     (if region_start \<le> address \<and> address < region_start + sz then 0
      else Suc (region_search rs (region_start + sz) address))"

definition address_to_region_num_map :: "u32 \<Rightarrow> rram \<Rightarrow> nat" where
  "address_to_region_num_map address r = region_search g_otp_region_lock_map (rr_otp_start r) address"

text \<open>
  The permission check asks \<open>locked\<close> for the lock state of a region (0 for unlocked); the byte length is
  truncated to 16 bits by the parameter type. \<open>nt_otp_region_locked\<close> below supplies \<open>locked\<close> and itself
  reads the permission bytes through \<open>nt_rram_read\<close>: the recursion of the C code ends there, because a
  read inside the permission region is granted without asking (lemma \<open>nt_otp_region_locked_inner\<close>).
\<close>

type_synonym lock_query = "nat \<Rightarrow> nt_otp_region_per_status \<Rightarrow> int"

definition check_otp_region_rw_permission ::
    "lock_query \<Rightarrow> u32 \<Rightarrow> u16 \<Rightarrow> nt_otp_region_per_status \<Rightarrow> rram \<Rightarrow> bool" where
  "check_otp_region_rw_permission locked address len rw_lock_check r =
     (let num_region = length g_otp_region_lock_map;
          starting_region_no = address_to_region_num_map address r;
          ending_region_no = address_to_region_num_map (address + ucast len) r in
      if num_region \<le> starting_region_no \<or> num_region \<le> ending_region_no then False
      else if starting_region_no = ending_region_no \<and> starting_region_no = RW_PERMISSION_REGION \<and>
              rw_lock_check = READ_LOCKED then True
      else list_all (\<lambda>region. locked (snd (g_otp_region_lock_map ! region)) rw_lock_check = 0)
             [starting_region_no ..< Suc ending_region_no])"

definition rram_address_range_check ::
    "lock_query \<Rightarrow> u32 \<Rightarrow> u32 \<Rightarrow> nt_otp_region_per_status \<Rightarrow> rram \<Rightarrow> int" where
  "rram_address_range_check locked rram_add data_len rd_wr_lock r =
     (let otp = (\<lambda>a. MEM_RRAM_OTP_ADDR_CHK a r); main = (\<lambda>a. MEM_RRAM_MAIN_ADDR_CHK a r);
          last = rram_add + data_len in
      if otp rram_add \<and> otp last
      then (if check_otp_region_rw_permission locked rram_add (ucast data_len) rd_wr_lock r then 0 else - EINVAL)
      else if otp rram_add \<or> otp last then - EINVAL
      else if \<not> (main rram_add \<or> otp rram_add) \<or> \<not> (main last \<or> otp last) then - EINVAL
      else 0)"

text \<open>
  \<open>nt_rram_read\<close> with the lock query it relies on. The result carries the bytes stored from \<open>rdata\<close> on:
  through the DXE engine the length is rounded up to a multiple of four.
\<close>

definition rram_read_with :: "lock_query \<Rightarrow> u32 \<Rightarrow> u32 \<Rightarrow> rram \<Rightarrow> int \<times> u8 list" where
  "rram_read_with locked address len r =
     (if len = 0 then (- EINVAL, [])
      else if rram_address_range_check locked address len READ_LOCKED r \<noteq> 0 then (- EINVAL, [])
      else if rr_dxe_read r
      then (let modulo_division = len mod 4;
                diff = (if modulo_division = 0 then 0 else 4 - modulo_division) in
            (0, mread (rr_mem r) address (unat (len + diff))))
      else (0, mread (rr_mem r) address (unat len)))"

text \<open>Byte offset of the permission bytes in the OTP map: three read bytes, then three write bytes.\<close>

abbreviation (input) rw_permission_offset :: u32 where "rw_permission_offset \<equiv> 48"

definition otp_lock_addr :: "nat \<Rightarrow> nt_otp_region_per_status \<Rightarrow> rram \<Rightarrow> u32" where
  "otp_lock_addr region_num rd_wr_lock r =
     rr_otp_start r + rw_permission_offset + (if rd_wr_lock = READ_LOCKED then 0 else 3) + of_nat (region_num div 8)"

definition otp_region_locked_with :: "lock_query \<Rightarrow> rram \<Rightarrow> lock_query" where
  "otp_region_locked_with locked r region_num rd_wr_lock =
     (if MAX_REGION \<le> region_num then - EINVAL
      else (case rram_read_with locked (otp_lock_addr region_num rd_wr_lock r) 1 r of
              (st, bs) \<Rightarrow> if st \<noteq> 0 then - EIO else if bit (bs ! 0) (region_num mod 8) then 1 else 0))"

definition nt_otp_region_locked :: "rram \<Rightarrow> lock_query" where
  "nt_otp_region_locked r = otp_region_locked_with (\<lambda>_ _. 1) r"

definition nt_rram_read :: "u32 \<Rightarrow> u32 \<Rightarrow> rram \<Rightarrow> int \<times> u8 list" where
  "nt_rram_read address len r = rram_read_with (nt_otp_region_locked r) address len r"

section \<open>Writing\<close>

text \<open>
  One DXE transfer: the status register is polled until DONE, at most \<open>MAX_WAIT_FOR_WRITE\<close> times after
  the first read.
\<close>

abbreviation (input) MAX_WAIT_FOR_WRITE :: nat where "MAX_WAIT_FOR_WRITE \<equiv> 300"

fun dxe_wait :: "(nat \<Rightarrow> bool) \<Rightarrow> nat \<Rightarrow> nat \<Rightarrow> int" where
  "dxe_wait xfr_done k max_loop =
     (if xfr_done k then 0
      else (case max_loop of 0 \<Rightarrow> - EBADE | Suc m \<Rightarrow> dxe_wait xfr_done (Suc k) m))"

declare dxe_wait.simps [simp del]

definition nt_rram_write_per_block :: "u32 \<Rightarrow> u8 list \<Rightarrow> rram \<Rightarrow> int \<times> rram" where
  "nt_rram_write_per_block dst wdata r =
     (dxe_wait (rr_poll r (rr_n r)) 0 MAX_WAIT_FOR_WRITE,
      r\<lparr>rr_mem := mcombine (rr_cell r (rr_n r)) (rr_mem r) dst wdata, rr_n := Suc (rr_n r)\<rparr>)"

fun write_tries :: "nat \<Rightarrow> u32 \<Rightarrow> u8 list \<Rightarrow> rram \<Rightarrow> int \<times> rram" where
  "write_tries 0 dst wdata r = (0, r)"
| "write_tries (Suc 0) dst wdata r = nt_rram_write_per_block dst wdata r"
| "write_tries (Suc (Suc n)) dst wdata r =
     (case nt_rram_write_per_block dst wdata r of
        (status, r') \<Rightarrow> if status = 0 then (status, r') else write_tries (Suc n) dst wdata r')"

abbreviation (input) MAX_WRITE_TRY :: nat where "MAX_WRITE_TRY \<equiv> 3"

definition nt_rram_write_with_retry :: "u32 \<Rightarrow> u8 list \<Rightarrow> rram \<Rightarrow> int \<times> rram" where
  "nt_rram_write_with_retry dst wdata r = write_tries MAX_WRITE_TRY dst wdata r"

text \<open>Storing \<open>src\<close> from index \<open>i\<close> of a buffer; reading RRAM into the start of the shared buffer (a
  refused read leaves it as it was).\<close>

definition patch :: "u8 list \<Rightarrow> nat \<Rightarrow> u8 list \<Rightarrow> u8 list" where
  "patch buf i src = take i buf @ src @ drop (i + length src) buf"

definition read_tmp :: "u32 \<Rightarrow> u32 \<Rightarrow> rram \<Rightarrow> rram" where
  "read_tmp a n r = r\<lparr>rr_tmp := patch (rr_tmp r) 0 (snd (nt_rram_read a n r))\<rparr>"

text \<open>Read \<open>sz\<close> bytes at \<open>des\<close> into the shared buffer, overlay \<open>src\<close> at \<open>i\<close>, write \<open>sz\<close> bytes back.\<close>

definition write_padded :: "u32 \<Rightarrow> u32 \<Rightarrow> nat \<Rightarrow> u8 list \<Rightarrow> rram \<Rightarrow> int \<times> rram" where
  "write_padded des sz i src r =
     (let r1 = read_tmp des sz r; r2 = r1\<lparr>rr_tmp := patch (rr_tmp r1) i src\<rparr> in
      nt_rram_write_with_retry des (take (unat sz) (rr_tmp r2)) r2)"

abbreviation (input) RRAM_WRITE_ADR_BYTE_ALIGN :: u32 where "RRAM_WRITE_ADR_BYTE_ALIGN \<equiv> 16"
abbreviation (input) RRAM_R_W_BUFF_SIZE :: u32 where "RRAM_R_W_BUFF_SIZE \<equiv> 256"
abbreviation (input) RRAM_WRITE_BLOCK_MAX_SIZE :: u32 where "RRAM_WRITE_BLOCK_MAX_SIZE \<equiv> 16368"

text \<open>
  \<open>num\<close> consecutive blocks of \<open>sz\<close> bytes; with \<open>via_tmp\<close> each block is first copied to the shared
  buffer (the source is not word aligned). On success the destination and the bytes left are returned.
\<close>

fun write_blocks :: "bool \<Rightarrow> nat \<Rightarrow> u32 \<Rightarrow> u32 \<Rightarrow> u8 list \<Rightarrow> rram \<Rightarrow> int \<times> u32 \<times> u8 list \<times> rram" where
  "write_blocks via_tmp 0 sz des src r = (0, des, src, r)"
| "write_blocks via_tmp (Suc num) sz des src r =
     (let blk = take (unat sz) src;
          r1 = (if via_tmp then r\<lparr>rr_tmp := patch (rr_tmp r) 0 blk\<rparr> else r) in
      case nt_rram_write_with_retry des blk r1 of (status, r2) \<Rightarrow>
        if status \<noteq> 0 then (status, des, src, r2)
        else write_blocks via_tmp num sz (des + sz) (drop (unat sz) src) r2)"

text \<open>The case of a source that is not word aligned after the head: everything through the shared buffer.\<close>

definition write_special :: "u32 \<Rightarrow> u8 list \<Rightarrow> rram \<Rightarrow> int \<times> rram" where
  "write_special des src r =
     (let remaining_byte = of_nat (length src) :: u32;
          full_block_num = ucast (remaining_byte div RRAM_R_W_BUFF_SIZE) :: u16;
          partial_block_size = ucast (remaining_byte mod RRAM_R_W_BUFF_SIZE) :: u16 in
      case write_blocks True (unat full_block_num) RRAM_R_W_BUFF_SIZE des src r of (status, des', src', r1) \<Rightarrow>
        if status \<noteq> 0 then (status, r1)
        else if partial_block_size \<noteq> 0
        then write_padded des' RRAM_R_W_BUFF_SIZE 0 (take (unat partial_block_size) src') r1
        else (status, r1))"

text \<open>Word-aligned source: blocks of \<open>RRAM_WRITE_BLOCK_MAX_SIZE\<close> straight from the source, then the
  whole 16-byte units of the rest, then a padded unit.\<close>

definition write_tail :: "u32 \<Rightarrow> nat \<Rightarrow> u8 list \<Rightarrow> rram \<Rightarrow> int \<times> rram" where
  "write_tail des partial_block_size src r =
     (if partial_block_size mod 16 = 0 then nt_rram_write_with_retry des (take partial_block_size src) r
      else
       (let whole = partial_block_size div 16 * 16 in
        case (if whole \<noteq> 0 then nt_rram_write_with_retry des (take whole src) r else (0, r)) of (status, r1) \<Rightarrow>
          if status \<noteq> 0 then (status, r1)
          else write_padded (des + of_nat whole) RRAM_WRITE_ADR_BYTE_ALIGN 0
                 (take (partial_block_size mod 16) (drop whole src)) r1))"

definition write_aligned :: "u32 \<Rightarrow> u8 list \<Rightarrow> rram \<Rightarrow> int \<times> rram" where
  "write_aligned des src r =
     (let remaining_byte = of_nat (length src) :: u32;
          full_block_num = ucast (remaining_byte div RRAM_WRITE_BLOCK_MAX_SIZE) :: u16;
          partial_block_size = ucast (remaining_byte mod RRAM_WRITE_BLOCK_MAX_SIZE) :: u16 in
      case write_blocks False (unat full_block_num) RRAM_WRITE_BLOCK_MAX_SIZE des src r of (status, des', src', r1) \<Rightarrow>
        if status \<noteq> 0 then (status, r1)
        else if partial_block_size \<noteq> 0 then write_tail des' (unat partial_block_size) src' r1
        else (status, r1))"

text \<open>
  The whole routine. \<open>src\<close> is the address of the caller's buffer and \<open>wdata\<close> its contents; only the
  alignment of \<open>src\<close> matters.
\<close>

definition nt_rram_write :: "u32 \<Rightarrow> u32 \<Rightarrow> u8 list \<Rightarrow> u32 \<Rightarrow> rram \<Rightarrow> int \<times> rram" where
  "nt_rram_write dst src wdata len r =
     (if len = 0 then (- EINVAL, r)
      else if rram_address_range_check (nt_otp_region_locked r) dst len WRITE_LOCKED r \<noteq> 0 then (- EFAULT, r)
      else
       (let off = dst mod RRAM_WRITE_ADR_BYTE_ALIGN; bytes = take (unat len) wdata in
        if off \<noteq> 0 \<or> src mod 4 \<noteq> 0 then
          (let des_adr = dst - off;
               temp_num_byte = (if 16 - unat off < unat len then 16 - unat off else unat len) in
           case write_padded des_adr RRAM_WRITE_ADR_BYTE_ALIGN (unat off) (take temp_num_byte bytes) r of
             (status, r1) \<Rightarrow>
               if status \<noteq> 0 then (status, r1)
               else if temp_num_byte = unat len then (status, r1)
               else (let rest = drop temp_num_byte bytes; des' = des_adr + RRAM_WRITE_ADR_BYTE_ALIGN in
                     if (src + of_nat temp_num_byte) mod 4 \<noteq> 0 then write_special des' rest r1
                     else write_aligned des' rest r1))
        else write_aligned dst bytes r))"

definition nt_otp_region_lock :: "nat \<Rightarrow> nt_otp_region_per_status \<Rightarrow> u32 \<Rightarrow> rram \<Rightarrow> int \<times> rram" where
  "nt_otp_region_lock region_num rd_wr_lock src r =
     (if MAX_REGION \<le> region_num then (- EINVAL, r)
      else if nt_otp_region_locked r RW_PERMISSION_REGION WRITE_LOCKED \<noteq> 0 then (- EPERM, r)
      else (case nt_rram_read (otp_lock_addr region_num rd_wr_lock r) 1 r of (st, bs) \<Rightarrow>
        if st \<noteq> 0 then (- EIO, r)
        else if bit (bs ! 0) (region_num mod 8) then (0, r)
        else (case nt_rram_write (otp_lock_addr region_num rd_wr_lock r) src
                     [set_bit (region_num mod 8) (bs ! 0)] 1 r of
                (st', r') \<Rightarrow> if st' \<noteq> 0 then (- EIO, r') else (0, r'))))"

section \<open>The lock query does not recurse\<close>

lemma region_search_permission:
  assumes "unat (rr_otp_start r) + 64 \<le> unat (rr_otp_end r)" and "48 \<le> d" and "d < 64"
  shows "address_to_region_num_map (rr_otp_start r + of_nat d) r = RW_PERMISSION_REGION"
proof -
  have b: "unat (rr_otp_start r) + 64 < 2 ^ 32" using assms(1) unat_u32_bound [of "rr_otp_end r"] by simp
  have le: "unat (rr_otp_start r + of_nat e) = unat (rr_otp_start r) + e" if "e \<le> 64" for e
    using b that by (simp add: unat_word_ariths unat_of_nat_u32)
  note ne = le [of 32, simplified] le [of 48, simplified] le [of 64, simplified]
  show ?thesis
    using assms ne le [of d]
    by (simp add: address_to_region_num_map_def g_otp_region_lock_map_def word_le_nat_alt word_less_nat_alt add.assoc)
qed

lemma otp_lock_addr_offset:
  assumes "region_num < MAX_REGION"
  shows "\<exists>d. 48 \<le> d \<and> d < 54 \<and> otp_lock_addr region_num l r = rr_otp_start r + of_nat d"
proof -
  have k: "region_num div 8 < 3" using assms by simp
  show ?thesis
    by (rule exI [of _ "48 + (if l = READ_LOCKED then 0 else 3) + region_num div 8"])
      (use k in \<open>auto simp: otp_lock_addr_def\<close>)
qed

text \<open>Reading a permission byte is granted whatever the lock query answers, so the nested query of
  \<open>nt_otp_region_locked\<close> is never used.\<close>

lemma permission_byte_readable:
  assumes "unat (rr_otp_start r) + 64 \<le> unat (rr_otp_end r)" and "region_num < MAX_REGION"
  shows "rram_address_range_check locked (otp_lock_addr region_num l r) 1 READ_LOCKED r = 0"
proof -
  obtain d where d: "48 \<le> d" "d < 54" and a: "otp_lock_addr region_num l r = rr_otp_start r + of_nat d"
    using otp_lock_addr_offset [OF assms(2)] by blast
  have b: "unat (rr_otp_start r) + 64 < 2 ^ 32" using assms(1) unat_u32_bound [of "rr_otp_end r"] by simp
  have le: "unat (rr_otp_start r + of_nat e) = unat (rr_otp_start r) + e" if "e \<le> 64" for e
    using b that by (simp add: unat_word_ariths unat_of_nat_u32)
  have nx: "otp_lock_addr region_num l r + 1 = rr_otp_start r + of_nat (Suc d)" by (simp add: a add.commute add.left_commute)
  have otp: "MEM_RRAM_OTP_ADDR_CHK (rr_otp_start r + of_nat e) r" if "e < 64" for e
    using le [of e] that assms(1) unfolding MEM_RRAM_OTP_ADDR_CHK_def word_le_nat_alt word_less_nat_alt by simp
  have reg: "address_to_region_num_map (rr_otp_start r + of_nat e) r = RW_PERMISSION_REGION"
    if "48 \<le> e" "e < 64" for e by (rule region_search_permission [OF assms(1) that])
  have regs: "address_to_region_num_map (otp_lock_addr region_num l r) r = RW_PERMISSION_REGION"
    "address_to_region_num_map (otp_lock_addr region_num l r + 1) r = RW_PERMISSION_REGION"
    unfolding nx unfolding a using d by (intro reg; simp)+
  have chk: "check_otp_region_rw_permission locked (otp_lock_addr region_num l r) 1 READ_LOCKED r"
    unfolding check_otp_region_rw_permission_def Let_def by (simp add: regs g_otp_region_lock_map_def)
  have "MEM_RRAM_OTP_ADDR_CHK (otp_lock_addr region_num l r) r"
    "MEM_RRAM_OTP_ADDR_CHK (otp_lock_addr region_num l r + 1) r"
    unfolding nx unfolding a using d by (intro otp; simp)+
  with chk show ?thesis
    unfolding rram_address_range_check_def Let_def by simp
qed

lemma nt_otp_region_locked_inner:
  assumes "unat (rr_otp_start r) + 64 \<le> unat (rr_otp_end r)"
  shows "otp_region_locked_with locked r = nt_otp_region_locked r"
proof (intro ext)
  fix n l
  show "otp_region_locked_with locked r n l = nt_otp_region_locked r n l"
    using permission_byte_readable [OF assms, of n]
    by (simp add: nt_otp_region_locked_def otp_region_locked_with_def rram_read_with_def)
qed

section \<open>OTP locks\<close>

lemma region_search_mono: "st \<le> a \<Longrightarrow> a \<le> b \<Longrightarrow> region_search rs st a \<le> region_search rs st b"
proof (induction rs arbitrary: st)
  case (Cons p rs)
  then show ?case by (cases p) auto
qed simp

text \<open>The OTP area is smaller than 64 KB, holds the permission region and is disjoint from the main area.\<close>

definition otp_layout :: "rram \<Rightarrow> bool" where
  "otp_layout r \<longleftrightarrow> unat (rr_otp_start r) + 64 \<le> unat (rr_otp_end r) \<and>
     unat (rr_otp_end r) < unat (rr_otp_start r) + 2 ^ 16 \<and>
     (rr_otp_end r \<le> rr_start r \<or> rr_end r \<le> rr_otp_start r)"

lemma check_otp_locked:
  assumes "MEM_RRAM_OTP_ADDR_CHK dst r" and "dst \<le> x" and "x \<le> dst + ucast len"
    and "locked (snd (g_otp_region_lock_map ! address_to_region_num_map x r)) WRITE_LOCKED \<noteq> 0"
  shows "\<not> check_otp_region_rw_permission locked dst len WRITE_LOCKED r"
proof -
  have st: "rr_otp_start r \<le> dst" "rr_otp_start r \<le> x"
    using assms(1,2) by (auto simp: MEM_RRAM_OTP_ADDR_CHK_def)
  have "address_to_region_num_map dst r \<le> address_to_region_num_map x r"
    "address_to_region_num_map x r \<le> address_to_region_num_map (dst + ucast len) r"
    unfolding address_to_region_num_map_def
    by (rule region_search_mono [OF st(1) assms(2)], rule region_search_mono [OF st(2) assms(3)])
  with assms(4) show ?thesis
    unfolding check_otp_region_rw_permission_def Let_def list_all_iff
    by (auto simp: less_Suc_eq_le simp del: upt_Suc intro!: bexI [of _ "address_to_region_num_map x r"])
qed

lemma otp_locked_range_refused:
  assumes "otp_layout r" and "unat dst + unat len < 2 ^ 32" and "in_range dst (unat len) x"
    and "MEM_RRAM_OTP_ADDR_CHK x r"
    and "locked (snd (g_otp_region_lock_map ! address_to_region_num_map x r)) WRITE_LOCKED \<noteq> 0"
  shows "rram_address_range_check locked dst len WRITE_LOCKED r \<noteq> 0"
proof -
  have e: "unat (dst + len) = unat dst + unat len" using assms(2) by (simp add: unat_word_ariths)
  have x: "unat dst \<le> unat x" "unat x < unat dst + unat len"
    using assms(2,3) unat_u32_bound [of x] by (auto simp: in_range_def unat_diff_u32 split: if_splits)
  note defs = MEM_RRAM_OTP_ADDR_CHK_def MEM_RRAM_MAIN_ADDR_CHK_def otp_layout_def word_le_nat_alt word_less_nat_alt
  have both: "\<not> check_otp_region_rw_permission locked dst (ucast len) WRITE_LOCKED r"
    if o: "MEM_RRAM_OTP_ADDR_CHK dst r" "MEM_RRAM_OTP_ADDR_CHK (dst + len) r"
  proof -
    have "unat len < 2 ^ 16" using o assms(1) e by (auto simp: defs)
    then have u: "unat (ucast (ucast len :: u16) :: u32) = unat len" by (simp add: unsigned_ucast_eq unsigned_take_bit_eq take_bit_nat_def)
    then have "dst \<le> x" "x \<le> dst + ucast (ucast len :: u16)"
      using x assms(2) by (simp_all add: word_le_nat_alt unat_word_ariths)
    then show ?thesis using check_otp_locked [OF o(1)] assms(5) by blast
  qed
  have "\<not> (MEM_RRAM_MAIN_ADDR_CHK dst r \<and> MEM_RRAM_MAIN_ADDR_CHK (dst + len) r)"
    if "\<not> MEM_RRAM_OTP_ADDR_CHK dst r" using that assms(1,4) x e by (auto simp: defs)
  with both show ?thesis
    unfolding rram_address_range_check_def Let_def by auto
qed

section \<open>Writes on a working engine\<close>

definition rram_ready :: "rram \<Rightarrow> bool" where
  "rram_ready r \<longleftrightarrow> length (rr_tmp r) = 256 \<and>
     (\<forall>n. dxe_wait (rr_poll r n) 0 MAX_WAIT_FOR_WRITE = 0 \<and> rr_cell r n = (\<lambda>_ b. b)) \<and>
     rr_start r mod 16 = 0 \<and> unat (rr_end r) < unat (rr_start r) + 2 ^ 24 \<and> otp_layout r"

text \<open>States that differ only in cells, in the contents of the shared buffer and in the transfer count.\<close>

definition rram_same :: "rram \<Rightarrow> rram \<Rightarrow> bool" where
  "rram_same r r' \<longleftrightarrow> r' = r\<lparr>rr_mem := rr_mem r', rr_tmp := rr_tmp r', rr_n := rr_n r'\<rparr> \<and>
     length (rr_tmp r') = length (rr_tmp r)"

lemma rram_same_refl [simp]: "rram_same r r"
  by (simp add: rram_same_def)

lemma rram_same_trans: "rram_same r r' \<Longrightarrow> rram_same r' r'' \<Longrightarrow> rram_same r r''"
  by (cases r; cases r'; cases r'') (simp add: rram_same_def)

lemma rram_same_fields:
  assumes "rram_same r r'"
  shows "rr_start r' = rr_start r" "rr_end r' = rr_end r" "rr_otp_start r' = rr_otp_start r"
    "rr_otp_end r' = rr_otp_end r" "rr_dxe_read r' = rr_dxe_read r" "rr_poll r' = rr_poll r"
    "rr_cell r' = rr_cell r" "length (rr_tmp r') = length (rr_tmp r)"
  using assms by (cases r; cases r'; simp add: rram_same_def)+

lemma rram_same_ready: "rram_same r r' \<Longrightarrow> rram_ready r' = rram_ready r"
  by (simp add: rram_ready_def otp_layout_def rram_same_fields)

text \<open>An operation succeeded and left the memory \<open>m\<close>.\<close>

definition rram_stores :: "rram \<Rightarrow> mem \<Rightarrow> int \<times> rram \<Rightarrow> bool" where
  "rram_stores r m res \<longleftrightarrow> fst res = 0 \<and> rr_mem (snd res) = m \<and> rram_same r (snd res)"

lemma with_retry_stores:
  "rram_ready r \<Longrightarrow> rram_stores r (mwrite (rr_mem r) dst bs) (nt_rram_write_with_retry dst bs r)"
  by (cases r) (simp add: rram_stores_def rram_ready_def nt_rram_write_with_retry_def numeral_3_eq_3
    nt_rram_write_per_block_def rram_same_def mwrite_def)

text \<open>Inside the main area every read of the driver is granted.\<close>

lemma range_check_main:
  assumes "otp_layout r" and "rr_start r \<le> a" and "unat a + unat n < unat (rr_end r)"
  shows "rram_address_range_check locked a n l r = 0"
proof -
  have e: "unat (a + n) = unat a + unat n"
    using assms(3) unat_u32_bound [of "rr_end r"] by (simp add: unat_word_ariths)
  have main: "MEM_RRAM_MAIN_ADDR_CHK a r" "MEM_RRAM_MAIN_ADDR_CHK (a + n) r"
    using assms(2,3) e by (auto simp: MEM_RRAM_MAIN_ADDR_CHK_def word_le_nat_alt word_less_nat_alt)
  have "\<not> MEM_RRAM_OTP_ADDR_CHK b r" if "MEM_RRAM_MAIN_ADDR_CHK b r" for b
    using assms(1) that by (auto simp: otp_layout_def MEM_RRAM_MAIN_ADDR_CHK_def MEM_RRAM_OTP_ADDR_CHK_def)
  with main show ?thesis by (simp add: rram_address_range_check_def)
qed

lemma read_back:
  assumes "rram_ready r" and "rr_start r \<le> a" and "unat a + unat n < unat (rr_end r)" and "n mod 4 = 0" and "n \<noteq> 0"
  shows "nt_rram_read a n r = (0, mread (rr_mem r) a (unat n))"
  using range_check_main [OF _ assms(2,3)] assms(1,4,5)
  by (simp add: nt_rram_read_def rram_read_with_def rram_ready_def Let_def)

lemma length_patch [simp]: "i + length src \<le> length buf \<Longrightarrow> length (patch buf i src) = length buf"
  by (simp add: patch_def)

lemma patch_Nil [simp]: "patch buf i [] = buf"
  by (simp add: patch_def)

lemma nth_patch:
  "i + length src \<le> length buf \<Longrightarrow> j < length buf \<Longrightarrow>
     patch buf i src ! j = (if i \<le> j \<and> j < i + length src then src ! (j - i) else buf ! j)"
  by (auto simp: patch_def nth_append min_def)

text \<open>Writing back a read unit with some bytes replaced is writing those bytes.\<close>

lemma mwrite_patch:
  assumes "i + length src \<le> n" and "n < 2 ^ 32"
  shows "mwrite m a (patch (mread m a n) i src) = mwrite m (a + of_nat i) src"
proof
  fix x
  define d where "d = unat (x - a)"
  have d: "x = a + of_nat d" "d < 2 ^ 32" using unat_u32_bound [of "x - a"] by (simp_all add: d_def)
  have e: "x - (a + of_nat i) = (x - a) - of_nat i" by simp
  have u: "unat (x - (a + of_nat i)) = (if i \<le> d then d - i else 2 ^ 32 + d - i)"
    unfolding e unat_diff_u32 [of "x - a"] d_def [symmetric] using assms by (simp add: unat_of_nat_u32)
  show "mwrite m a (patch (mread m a n) i src) x = mwrite m (a + of_nat i) src x"
    unfolding mwrite_def mcombine_def d_def [symmetric] u using assms d by (auto simp: nth_patch)
qed

lemma write_padded_stores:
  assumes "rram_ready r" and "rr_start r \<le> des" and "unat des + unat sz < unat (rr_end r)"
    and "sz mod 4 = 0" and "i + length src \<le> unat sz" and "unat sz \<le> 256" and "sz \<noteq> 0"
  shows "rram_stores r (mwrite (rr_mem r) (des + of_nat i) src) (write_padded des sz i src r)"
proof -
  let ?rd = "mread (rr_mem r) des (unat sz)"
  define r1 where "r1 = r\<lparr>rr_tmp := patch (rr_tmp r) 0 ?rd\<rparr>"
  define r2 where "r2 = r1\<lparr>rr_tmp := patch (rr_tmp r1) i src\<rparr>"
  have len: "length (rr_tmp r) = 256" using assms(1) by (simp add: rram_ready_def)
  have "take (unat sz) (rr_tmp r2) = patch ?rd i src"
    using assms(5,6) len by (intro nth_equalityI) (auto simp: r2_def r1_def nth_patch)
  moreover have "write_padded des sz i src r = nt_rram_write_with_retry des (take (unat sz) (rr_tmp r2)) r2"
    using read_back [OF assms(1-4,7)] by (simp add: write_padded_def read_tmp_def r1_def r2_def Let_def)
  moreover have same: "rram_same r r2" using len assms(5,6) by (cases r) (simp add: r1_def r2_def rram_same_def)
  moreover have "rr_mem r2 = rr_mem r" by (simp add: r1_def r2_def)
  ultimately show ?thesis
    using with_retry_stores [of r2 des "patch ?rd i src"] rram_same_ready [OF same] rram_same_trans [OF same] assms(1,5)
      unat_u32_bound [of sz]
    by (simp add: rram_stores_def mwrite_patch)
qed

lemma mwrite_append:
  "length bs + length cs \<le> 2 ^ 32 \<Longrightarrow> mwrite (mwrite m a bs) (a + of_nat (length bs)) cs = mwrite m a (bs @ cs)"
  by (simp add: mwrite_def mcombine_append)

lemma write_blocks_stores:
  assumes "rram_ready r" and "num * unat sz \<le> length src" and "num * unat sz \<le> 2 ^ 32"
    and "via_tmp \<longrightarrow> unat sz \<le> 256"
  shows "\<exists>r'. write_blocks via_tmp num sz des src r =
      (0, des + of_nat (num * unat sz), drop (num * unat sz) src, r') \<and>
    rr_mem r' = mwrite (rr_mem r) des (take (num * unat sz) src) \<and> rram_same r r'"
  using assms
proof (induction num arbitrary: des src r)
  case (Suc num)
  let ?blk = "take (unat sz) src"
  define r1 where "r1 = (if via_tmp then r\<lparr>rr_tmp := patch (rr_tmp r) 0 ?blk\<rparr> else r)"
  have s1: "rram_same r r1"
    using Suc.prems(1,2,4) by (cases r) (auto simp: r1_def rram_same_def rram_ready_def)
  have m1: "rr_mem r1 = rr_mem r" by (simp add: r1_def)
  obtain r2 where w: "nt_rram_write_with_retry des ?blk r1 = (0, r2)"
    and m2: "rr_mem r2 = mwrite (rr_mem r) des ?blk" and s2: "rram_same r1 r2"
    using with_retry_stores [of r1 des ?blk] rram_same_ready [OF s1] Suc.prems(1) m1
    by (cases "nt_rram_write_with_retry des ?blk r1") (auto simp: rram_stores_def)
  have rdy: "rram_ready r2" using Suc.prems(1) rram_same_ready s1 s2 by blast
  obtain r3 where r3: "write_blocks via_tmp num sz (des + sz) (drop (unat sz) src) r2 =
      (0, des + sz + of_nat (num * unat sz), drop (num * unat sz) (drop (unat sz) src), r3)"
    "rr_mem r3 = mwrite (rr_mem r2) (des + sz) (take (num * unat sz) (drop (unat sz) src))" "rram_same r2 r3"
  proof -
    have "num * unat sz \<le> length (drop (unat sz) src)" "num * unat sz \<le> 2 ^ 32"
      using Suc.prems(2,3) by (simp_all add: le_diff_conv2)
    from Suc.IH [OF rdy this Suc.prems(4), of "des + sz"] that show ?thesis by blast
  qed
  have len: "length ?blk = unat sz" using Suc.prems(2) by simp
  have "rr_mem r3 = mwrite (rr_mem r) des (?blk @ take (num * unat sz) (drop (unat sz) src))"
    using mwrite_append [of ?blk "take (num * unat sz) (drop (unat sz) src)" "rr_mem r" des] len Suc.prems(2,3)
    by (simp add: r3(2) m2)
  then have "rr_mem r3 = mwrite (rr_mem r) des (take (Suc num * unat sz) src)"
    by (simp add: take_add)
  moreover have "rram_same r r3" using s1 s2 r3(3) rram_same_trans by blast
  moreover have "write_blocks via_tmp (Suc num) sz des src r =
      (0, des + of_nat (Suc num * unat sz), drop (Suc num * unat sz) src, r3)"
    using w r3(1) by (simp add: r1_def [symmetric] Let_def drop_drop add.commute add.left_commute)
  ultimately show ?case by blast
qed simp

text \<open>How many blocks and how many bytes are left, at the widths of the counters.\<close>

lemma block_counts:
  assumes "n < 2 ^ 24" and "256 \<le> unat sz" and "unat sz < 2 ^ 16"
  shows "unat (ucast (of_nat n div sz :: u32) :: u16) = n div unat sz"
    and "unat (ucast (of_nat n mod sz :: u32) :: u16) = n mod unat sz"
proof -
  have q: "n div unat sz < 2 ^ 16"
    using assms div_le_mono2 [of 256 "unat sz" n] by (auto intro: le_less_trans)
  have m: "n mod unat sz < 2 ^ 16"
    using assms(2,3) mod_less_divisor [of "unat sz" n] by linarith
  show "unat (ucast (of_nat n div sz :: u32) :: u16) = n div unat sz"
    using q assms(1) by (simp add: unsigned_ucast_eq unsigned_take_bit_eq take_bit_nat_def unat_div unat_of_nat_u32)
  show "unat (ucast (of_nat n mod sz :: u32) :: u16) = n mod unat sz"
    using m assms(1) by (simp add: unsigned_ucast_eq unsigned_take_bit_eq take_bit_nat_def unat_mod unat_of_nat_u32)
qed

text \<open>A first write followed by one that continues where it ended.\<close>

lemma stores_then:
  assumes "rram_same r r1" and "rr_mem r1 = mwrite (rr_mem r) a bs"
    and "rram_stores r1 (mwrite (rr_mem r1) (a + of_nat (length bs)) cs) res" and "length bs + length cs \<le> 2 ^ 32"
  shows "rram_stores r (mwrite (rr_mem r) a (bs @ cs)) res"
  using assms rram_same_trans [OF assms(1)] by (simp add: rram_stores_def mwrite_append)

lemma stores_split:
  assumes "rram_same r r1" and "rr_mem r1 = mwrite (rr_mem r) a (take q src)" and "q \<le> length src"
    and "rram_stores r1 (mwrite (rr_mem r1) (a + of_nat q) (drop q src)) res" and "length src < 2 ^ 24"
  shows "rram_stores r (mwrite (rr_mem r) a src) res"
proof -
  have len: "length (take q src) = q" using assms(3) by simp
  have "length (take q src) + length (drop q src) \<le> 2 ^ 32"
    using assms(3,5) by (simp add: min_def)
  then show ?thesis
    using stores_then [OF assms(1,2), of "drop q src" res] assms(4) unfolding len by simp
qed

lemma write_all_blocks:
  assumes "rram_ready r" and "length src < 2 ^ 24" and "via_tmp \<longrightarrow> unat sz \<le> 256"
  shows "\<exists>r'. write_blocks via_tmp (length src div unat sz) sz des src r =
      (0, des + of_nat (length src div unat sz * unat sz), drop (length src div unat sz * unat sz) src, r') \<and>
    rr_mem r' = mwrite (rr_mem r) des (take (length src div unat sz * unat sz) src) \<and> rram_same r r'"
proof -
  have le: "length src div unat sz * unat sz \<le> length src" by simp
  show ?thesis
    by (rule write_blocks_stores [OF assms(1) le order_trans [OF le] assms(3)]) (use assms(2) in simp)
qed

text \<open>
  Near the end of the area the read-back of a padded unit is refused, and the unit is written with what the
  shared buffer held. \<open>rram_pads r a bs u n res\<close>: the operation succeeded and stored \<open>bs\<close> at \<open>a\<close>;
  every other cell is unchanged, except that the \<open>n\<close> cells of the unit at \<open>u\<close> around the stored bytes are
  kept only when the unit ends below the end of the area.
\<close>

definition rram_pads :: "rram \<Rightarrow> u32 \<Rightarrow> u8 list \<Rightarrow> u32 \<Rightarrow> nat \<Rightarrow> int \<times> rram \<Rightarrow> bool" where
  "rram_pads r a bs u n res \<longleftrightarrow> fst res = 0 \<and> rram_same r (snd res) \<and>
     (\<forall>x. in_range a (length bs) x \<or> \<not> in_range u n x \<or> unat u + n < unat (rr_end r) \<longrightarrow>
        rr_mem (snd res) x = mwrite (rr_mem r) a bs x)"

lemma stores_pads: "rram_stores r (mwrite (rr_mem r) a bs) res \<Longrightarrow> rram_pads r a bs u n res"
  by (simp add: rram_stores_def rram_pads_def)

lemma pads_stores:
  "rram_pads r a bs u n res \<Longrightarrow> unat u + n < unat (rr_end r) \<or> n = 0 \<Longrightarrow> rram_stores r (mwrite (rr_mem r) a bs) res"
  by (auto simp: rram_stores_def rram_pads_def in_range_def)

lemma mwrite_unit:
  assumes "i + length src \<le> n" and "n \<le> length buf" and "n < 2 ^ 32" and "in_range (a + of_nat i) (length src) x \<or> \<not> in_range a n x"
  shows "mwrite m a (take n (patch buf i src)) x = mwrite m (a + of_nat i) src x"
proof -
  define d where "d = unat (x - a)"
  have d: "d < 2 ^ 32" using unat_u32_bound [of "x - a"] by (simp add: d_def)
  have e: "x - (a + of_nat i) = (x - a) - of_nat i" by simp
  have u: "unat (x - (a + of_nat i)) = (if i \<le> d then d - i else 2 ^ 32 + d - i)"
    unfolding e unat_diff_u32 [of "x - a"] d_def [symmetric] using assms by (simp add: unat_of_nat_u32)
  show ?thesis
    using assms d unfolding mwrite_def mcombine_def in_range_def d_def [symmetric] u
    by (auto simp: nth_patch split: if_splits)
qed

lemma write_padded_pads:
  assumes "rram_ready r" and "rr_start r \<le> des" and "sz mod 4 = 0" and "i + length src \<le> unat sz" and "unat sz \<le> 256" and "sz \<noteq> 0"
  shows "rram_pads r (des + of_nat i) src des (unat sz) (write_padded des sz i src r)"
proof (cases "unat des + unat sz < unat (rr_end r)")
  case True
  show ?thesis by (rule stores_pads [OF write_padded_stores [OF assms(1,2) True assms(3-6)]])
next
  case False
  define buf where "buf = patch (rr_tmp r) 0 (snd (nt_rram_read des sz r))"
  define r2 where "r2 = r\<lparr>rr_tmp := patch buf i src\<rparr>"
  have len: "length (rr_tmp r) = 256" using assms(1) by (simp add: rram_ready_def)
  have lb: "length buf = 256"
    using assms(3,5) len by (simp add: buf_def nt_rram_read_def rram_read_with_def Let_def)
  have same: "rram_same r r2" using len lb assms(4,5) by (cases r) (simp add: r2_def rram_same_def)
  have "write_padded des sz i src r = nt_rram_write_with_retry des (take (unat sz) (patch buf i src)) r2"
    by (simp add: write_padded_def read_tmp_def buf_def r2_def Let_def)
  moreover have "rr_mem r2 = rr_mem r" by (simp add: r2_def)
  ultimately show ?thesis
    using with_retry_stores [of r2 des "take (unat sz) (patch buf i src)"] rram_same_ready [OF same] rram_same_trans [OF same]
      assms(1,4,5) False lb
    by (auto simp: rram_pads_def rram_stores_def mwrite_unit)
qed

lemma pads_split:
  assumes "rram_same r r1" and "rr_mem r1 = mwrite (rr_mem r) a (take q src)" and "q \<le> length src"
    and "rram_pads r1 (a + of_nat q) (drop q src) (a + of_nat k) n res" and "q \<le> k" and "k + n < 2 ^ 32" and "length src < 2 ^ 24"
  shows "rram_pads r a src (a + of_nat k) n res"
proof -
  have len: "length (take q src) = q" using assms(3) by simp
  have app: "mwrite (rr_mem r1) (a + of_nat q) (drop q src) = mwrite (rr_mem r) a src"
    using mwrite_append [of "take q src" "drop q src" "rr_mem r" a] assms(2,3,7) unfolding len by simp
  have apart: "in_range (a + of_nat q) (length (drop q src)) x" if "in_range a (length src) x" "in_range (a + of_nat k) n x" for x
  proof -
    define d where "d = unat (x - a)"
    have d: "x - (a + of_nat j) = (x - a) - of_nat j" for j :: nat by simp
    have "unat (of_nat k :: u32) = k" "unat (of_nat q :: u32) = q" using assms(5,6) by (simp_all add: unat_of_nat_u32)
    then show ?thesis
      using that assms(5,6,7) unfolding in_range_def d unat_diff_u32 [of "x - a"] d_def [symmetric] by (auto split: if_splits)
  qed
  show ?thesis
    using assms(1,4) rram_same_trans [OF assms(1)] rram_same_fields(2) [OF assms(1)] apart unfolding rram_pads_def app by auto
qed

text \<open>How many cells the padded unit of \<open>n\<close> bytes in units of \<open>sz\<close> has: none when no padding is needed.\<close>

definition pad_unit :: "nat \<Rightarrow> nat \<Rightarrow> nat" where
  "pad_unit sz n = (if n mod sz = 0 then 0 else sz)"

lemma write_special_pads:
  assumes "rram_ready r" and "length src < 2 ^ 24" and "rr_start r \<le> des" and "unat des + length src < unat (rr_end r)"
  shows "rram_pads r des src (des + of_nat (length src div 256 * 256)) (pad_unit 256 (length src)) (write_special des src r)"
proof -
  let ?n = "length src"
  let ?q = "?n div 256 * 256"
  have c: "unat (ucast (of_nat ?n div RRAM_R_W_BUFF_SIZE :: u32) :: u16) = ?n div 256"
    "unat (ucast (of_nat ?n mod RRAM_R_W_BUFF_SIZE :: u32) :: u16) = ?n mod 256"
    using block_counts [OF assms(2), of RRAM_R_W_BUFF_SIZE] by simp_all
  have q: "?q \<le> ?n" "?q + ?n mod 256 = ?n" by simp_all
  obtain r1 where w: "write_blocks True (?n div 256) RRAM_R_W_BUFF_SIZE des src r = (0, des + of_nat ?q, drop ?q src, r1)"
    and m1: "rr_mem r1 = mwrite (rr_mem r) des (take ?q src)" and s1: "rram_same r r1"
    using write_all_blocks [OF assms(1,2), of True RRAM_R_W_BUFF_SIZE des] by auto
  have z: "ucast (of_nat ?n mod RRAM_R_W_BUFF_SIZE :: u32) = (0 :: u16) \<longleftrightarrow> ?n mod 256 = 0"
    using c(2) by (metis unat_eq_0)
  show ?thesis
  proof (cases "?n mod 256 = 0")
    case True
    with q(2) have "?q = ?n" by linarith
    then show ?thesis
      using True w m1 s1 z unfolding write_special_def Let_def c by (intro stores_pads) (simp add: rram_stores_def)
  next
    case False
    have "?q < 2 ^ 32" using assms(2) by simp
    then have u: "unat (des + of_nat ?q) = unat des + ?q"
      using assms(4) unat_u32_bound [of "rr_end r"] by (simp add: unat_word_ariths unat_of_nat_u32)
    have "rram_pads r1 (des + of_nat ?q + of_nat 0) (drop ?q src) (des + of_nat ?q) (unat RRAM_R_W_BUFF_SIZE)
        (write_padded (des + of_nat ?q) RRAM_R_W_BUFF_SIZE 0 (drop ?q src) r1)"
    proof (rule write_padded_pads)
      show "rram_ready r1" using assms(1) rram_same_ready [OF s1] by simp
      show "rr_start r1 \<le> des + of_nat ?q"
        using assms(3) u rram_same_fields [OF s1] by (simp add: word_le_nat_alt)
      show "0 + length (drop ?q src) \<le> unat RRAM_R_W_BUFF_SIZE"
        using q mod_less_divisor [of 256 ?n] by simp
    qed simp_all
    then have "rram_pads r des src (des + of_nat ?q) 256 (write_padded (des + of_nat ?q) RRAM_R_W_BUFF_SIZE 0 (drop ?q src) r1)"
      using assms(2) by (intro pads_split [OF s1 m1 q(1) _ order_refl _ assms(2)]) simp_all
    moreover have "take (?n mod 256) (drop ?q src) = drop ?q src" by (simp add: minus_div_mult_eq_mod)
    ultimately show ?thesis
      using False w z unfolding write_special_def Let_def c pad_unit_def by simp
  qed
qed

lemma write_tail_pads:
  assumes "rram_ready r" and "length src < 2 ^ 24" and "src \<noteq> []" and "rr_start r \<le> des"
    and "unat des + length src < unat (rr_end r)"
  shows "rram_pads r des src (des + of_nat (length src div 16 * 16)) (pad_unit 16 (length src)) (write_tail des (length src) src r)"
proof (cases "length src mod 16 = 0")
  case True
  then show ?thesis using with_retry_stores [OF assms(1)] by (intro stores_pads) (simp add: write_tail_def)
next
  case False
  let ?w = "length src div 16 * 16"
  have w: "?w \<le> length src" "?w + length src mod 16 = length src" by simp_all
  obtain r1 where r1: "(if ?w \<noteq> 0 then nt_rram_write_with_retry des (take ?w src) r else (0, r)) = (0, r1)"
    and m1: "rr_mem r1 = mwrite (rr_mem r) des (take ?w src)" and s1: "rram_same r r1"
  proof (cases "?w = 0")
    case False
    with that with_retry_stores [OF assms(1), of des "take ?w src"] show ?thesis
      by (cases "nt_rram_write_with_retry des (take ?w src) r") (auto simp: rram_stores_def)
  qed (use that [of r] in simp)
  have u: "unat (des + of_nat ?w) = unat des + ?w"
    using assms(2,5) w unat_u32_bound [of "rr_end r"] by (simp add: unat_word_ariths unat_of_nat_u32)
  have "rram_pads r1 (des + of_nat ?w + of_nat 0) (drop ?w src) (des + of_nat ?w) (unat RRAM_WRITE_ADR_BYTE_ALIGN)
      (write_padded (des + of_nat ?w) RRAM_WRITE_ADR_BYTE_ALIGN 0 (drop ?w src) r1)"
  proof (rule write_padded_pads)
    show "rram_ready r1" using assms(1) rram_same_ready [OF s1] by simp
    show "rr_start r1 \<le> des + of_nat ?w"
      using assms(4) u rram_same_fields [OF s1] by (simp add: word_le_nat_alt)
    show "0 + length (drop ?w src) \<le> unat RRAM_WRITE_ADR_BYTE_ALIGN"
      using w mod_less_divisor [of 16 "length src"] by simp
  qed simp_all
  then have "rram_pads r des src (des + of_nat ?w) 16 (write_padded (des + of_nat ?w) RRAM_WRITE_ADR_BYTE_ALIGN 0 (drop ?w src) r1)"
    using assms(2) by (intro pads_split [OF s1 m1 w(1) _ order_refl _ assms(2)]) simp_all
  moreover have "take (length src mod 16) (drop ?w src) = drop ?w src" by (simp add: minus_div_mult_eq_mod)
  ultimately show ?thesis using False r1 by (simp add: write_tail_def Let_def pad_unit_def)
qed

lemma write_aligned_pads:
  assumes "rram_ready r" and "length src < 2 ^ 24" and "rr_start r \<le> des" and "unat des + length src < unat (rr_end r)"
  shows "rram_pads r des src (des + of_nat (length src div 16 * 16)) (pad_unit 16 (length src)) (write_aligned des src r)"
proof -
  let ?n = "length src"
  let ?q = "?n div 16368 * 16368"
  have c: "unat (ucast (of_nat ?n div RRAM_WRITE_BLOCK_MAX_SIZE :: u32) :: u16) = ?n div 16368"
    "unat (ucast (of_nat ?n mod RRAM_WRITE_BLOCK_MAX_SIZE :: u32) :: u16) = ?n mod 16368"
    using block_counts [OF assms(2), of RRAM_WRITE_BLOCK_MAX_SIZE] by simp_all
  have q: "?q \<le> ?n" "?q + ?n mod 16368 = ?n" by simp_all
  obtain r1 where w: "write_blocks False (?n div 16368) RRAM_WRITE_BLOCK_MAX_SIZE des src r =
      (0, des + of_nat ?q, drop ?q src, r1)"
    and m1: "rr_mem r1 = mwrite (rr_mem r) des (take ?q src)" and s1: "rram_same r r1"
    using write_all_blocks [OF assms(1,2), of False RRAM_WRITE_BLOCK_MAX_SIZE des] by auto
  have z: "ucast (of_nat ?n mod RRAM_WRITE_BLOCK_MAX_SIZE :: u32) = (0 :: u16) \<longleftrightarrow> ?n mod 16368 = 0"
    using c(2) by (metis unat_eq_0)
  show ?thesis
  proof (cases "?n mod 16368 = 0")
    case True
    with q(2) have "?q = ?n" by linarith
    then show ?thesis
      using True w m1 s1 z unfolding write_aligned_def Let_def c by (intro stores_pads) (simp add: rram_stores_def)
  next
    case False
    have "?q < 2 ^ 32" by (rule le_less_trans [OF q(1)]) (use assms(2) in simp)
    then have u: "unat (des + of_nat ?q) = unat des + ?q"
      using assms(4) q unat_u32_bound [of "rr_end r"] by (simp add: unat_word_ariths unat_of_nat_u32)
    have len: "length (drop ?q src) = ?n mod 16368" by (simp add: minus_div_mult_eq_mod)
    let ?k = "?q + ?n mod 16368 div 16 * 16"
    have k2: "?n mod 16368 mod 16 = ?n mod 16" using mod_mod_cancel [of 16 16368 ?n] by simp
    have k1: "?k = ?n div 16 * 16"
      using div_mult_mod_eq [of ?n 16] div_mult_mod_eq [of "?n mod 16368" 16] q(2) unfolding k2 by linarith
    note k = k1 k2
    have "rram_pads r1 (des + of_nat ?q) (drop ?q src) (des + of_nat ?q + of_nat (length (drop ?q src) div 16 * 16))
        (pad_unit 16 (length (drop ?q src))) (write_tail (des + of_nat ?q) (length (drop ?q src)) (drop ?q src) r1)"
    proof (rule write_tail_pads)
      show "rram_ready r1" using assms(1) rram_same_ready [OF s1] by simp
      show "rr_start r1 \<le> des + of_nat ?q"
        using assms(3) u rram_same_fields [OF s1] by (simp add: word_le_nat_alt)
      show "unat (des + of_nat ?q) + length (drop ?q src) < unat (rr_end r1)"
        using assms(4) u q rram_same_fields [OF s1] by simp
      show "drop ?q src \<noteq> []" using False len by (metis list.size(3))
      show "length (drop ?q src) < 2 ^ 24" using assms(2) by simp
    qed
    then have t: "rram_pads r1 (des + of_nat ?q) (drop ?q src) (des + of_nat ?k) (pad_unit 16 ?n)
        (write_tail (des + of_nat ?q) (?n mod 16368) (drop ?q src) r1)"
      unfolding len pad_unit_def k(2) by (simp add: add.assoc)
    have "?k + pad_unit 16 ?n < 2 ^ 32" using assms(2) k(1) by (simp add: pad_unit_def) linarith
    from pads_split [OF s1 m1 q(1) t _ this assms(2)] show ?thesis
      using False w z unfolding write_aligned_def Let_def c k(1) by simp
  qed
qed

lemma unit_base:
  assumes "rr_start r mod 16 = 0" and "rr_start r \<le> dst"
  shows "rr_start r \<le> dst - dst mod 16" and "unat (dst - dst mod 16) = unat dst - unat dst mod 16"
    and "dst - dst mod 16 + of_nat (unat (dst mod 16)) = dst"
proof -
  have um: "unat (x mod 16) = unat x mod 16" for x :: u32 by (simp add: unat_mod)
  have m: "unat (dst mod 16) = unat dst mod 16" "unat (rr_start r) mod 16 = 0"
    using um [of dst] um [of "rr_start r"] assms(1) by simp_all
  show u: "unat (dst - dst mod 16) = unat dst - unat dst mod 16"
    by (subst unat_diff_u32) (simp add: m)
  have "unat (rr_start r) \<le> unat dst - unat dst mod 16"
    using assms(2) m(2) div_le_mono [of "unat (rr_start r)" "unat dst" 16]
      div_mult_mod_eq [of "unat (rr_start r)" 16]
    unfolding word_le_nat_alt minus_mod_eq_div_mult by linarith
  then show "rr_start r \<le> dst - dst mod 16" by (simp add: word_le_nat_alt u)
qed simp

text \<open>A request inside the main area, as far as the range check of the driver lets it through.\<close>

definition in_main :: "u32 \<Rightarrow> nat \<Rightarrow> rram \<Rightarrow> bool" where
  "in_main a n r \<longleftrightarrow> 0 < n \<and> rr_start r \<le> a \<and> unat a + n < unat (rr_end r)"

text \<open>
  The unit a request pads last: where it starts and its length, 0 when the request ends at the end of a
  unit. A request that is short or whose source is word aligned behind the head is padded in a unit of 16
  bytes, the others in a whole buffer of 256 bytes.
\<close>

definition last_unit :: "u32 \<Rightarrow> u32 \<Rightarrow> nat \<Rightarrow> u32 \<times> nat" where
  "last_unit dst src len =
     (let off = dst mod 16; head = 16 - unat off; rest = len - head in
      if off = 0 \<and> src mod 4 = 0 then (dst + of_nat (len div 16 * 16), pad_unit 16 len)
      else if len \<le> head then (dst - off, 16)
      else if (src + of_nat head) mod 4 = 0 then (dst + of_nat (head + rest div 16 * 16), pad_unit 16 rest)
      else (dst + of_nat (head + rest div 256 * 256), pad_unit 256 rest))"

lemma write_rest_pads:
  assumes "rram_ready r1" and "length src < 2 ^ 24" and "rr_start r1 \<le> des" and "unat des + length src < unat (rr_end r1)"
    and "u = (if special then 256 else 16)"
  shows "rram_pads r1 des src (des + of_nat (length src div u * u)) (pad_unit u (length src))
    (if special then write_special des src r1 else write_aligned des src r1)"
  using write_special_pads [OF assms(1-4)] write_aligned_pads [OF assms(1-4)] assms(5) by auto

lemma nt_rram_write_pads:
  assumes "rram_ready r" and "in_main dst (unat len) r" and "unat len \<le> length wdata"
  shows "rram_pads r dst (take (unat len) wdata) (fst (last_unit dst src (unat len))) (snd (last_unit dst src (unat len)))
    (nt_rram_write dst src wdata len r)"
proof -
  let ?b = "take (unat len) wdata"
  have f: "0 < unat len" "rr_start r \<le> dst" "unat dst + unat len < unat (rr_end r)"
    using assms(2) by (simp_all add: in_main_def)
  have lb: "length ?b = unat len" using assms(3) by simp
  have small: "unat len < 2 ^ 24"
    using f assms(1) unfolding rram_ready_def word_le_nat_alt by linarith
  have chk: "rram_address_range_check (nt_otp_region_locked r) dst len WRITE_LOCKED r = 0"
    using assms(1) f by (intro range_check_main) (simp_all add: rram_ready_def)
  have ne: "len \<noteq> 0" using f(1) by auto
  show ?thesis
  proof (cases "dst mod 16 \<noteq> 0 \<or> src mod 4 \<noteq> 0")
    case False
    have "rram_pads r dst ?b (dst + of_nat (length ?b div 16 * 16)) (pad_unit 16 (length ?b)) (write_aligned dst ?b r)"
      using f small lb by (intro write_aligned_pads [OF assms(1)]) auto
    with False chk ne lb show ?thesis by (simp add: nt_rram_write_def last_unit_def Let_def)
  next
    case True
    define head where "head = 16 - unat (dst mod 16)"
    have off: "unat (dst mod 16) < 16" by (simp add: unat_mod)
    have al: "rr_start r mod 16 = 0" using assms(1) by (simp add: rram_ready_def)
    note base = unit_base [OF al f(2)]
    have first: "rram_pads r dst bs (dst - dst mod 16) 16 (write_padded (dst - dst mod 16) 16 (unat (dst mod 16)) bs r)"
      if "length bs \<le> head" for bs
      using write_padded_pads [OF assms(1) base(1), of 16 "unat (dst mod 16)" bs] that off base(3) by (simp add: head_def)
    note unf = nt_rram_write_def last_unit_def Let_def head_def [symmetric]
    show ?thesis
    proof (cases "unat len \<le> head")
      case le: True
      have "rram_pads r dst ?b (dst - dst mod 16) 16 (write_padded (dst - dst mod 16) 16 (unat (dst mod 16)) ?b r)"
        using le lb by (intro first) simp
      moreover have "(if head < unat len then head else unat len) = unat len" using le by simp
      moreover have "take (unat len) ?b = ?b" by simp
      ultimately show ?thesis
        using True chk ne le unfolding unf
        by (cases "write_padded (dst - dst mod 16) 16 (unat (dst mod 16)) ?b r") (auto simp: rram_pads_def)
    next
      case gt: False
      let ?rest = "drop head ?b"
      have below: "unat (dst - dst mod 16) + 16 < unat (rr_end r)"
        using gt f(3) off unfolding base(2) head_def by (simp add: unat_mod)
      obtain r1 where w: "write_padded (dst - dst mod 16) 16 (unat (dst mod 16)) (take head ?b) r = (0, r1)"
        and m1: "rr_mem r1 = mwrite (rr_mem r) dst (take head ?b)" and s1: "rram_same r r1"
        using pads_stores [OF first [of "take head ?b"]] below unfolding rram_stores_def
        by (metis length_take min.cobounded2 prod.collapse)
      have "of_nat head = (16 :: u32) - dst mod 16" using off by (simp add: head_def of_nat_diff)
      then have des: "dst - dst mod 16 + 16 = dst + of_nat head" by simp
      have u: "unat (dst + of_nat head) = unat dst + head"
        using f gt unat_u32_bound [of "rr_end r"] by (simp add: unat_word_ariths unat_of_nat_u32)
      have b: "rram_ready r1" "length ?rest < 2 ^ 24" "rr_start r1 \<le> dst + of_nat head"
        "unat (dst + of_nat head) + length ?rest < unat (rr_end r1)" "length ?rest = unat len - head"
        using assms(1) rram_same_ready [OF s1] small lb f gt u rram_same_fields [OF s1]
        by (auto simp: word_le_nat_alt)
      define special where "special \<longleftrightarrow> (src + of_nat head) mod 4 \<noteq> 0"
      define k where "k = (if special then 256 else 16 :: nat)"
      have st: "rram_pads r1 (dst + of_nat head) ?rest (dst + of_nat (head + length ?rest div k * k)) (pad_unit k (length ?rest))
          (if special then write_special (dst + of_nat head) ?rest r1 else write_aligned (dst + of_nat head) ?rest r1)"
        using write_rest_pads [OF b(1-4) k_def] by (simp add: add.assoc)
      have "rram_pads r dst ?b (dst + of_nat (head + length ?rest div k * k)) (pad_unit k (length ?rest))
          (if special then write_special (dst + of_nat head) ?rest r1 else write_aligned (dst + of_nat head) ?rest r1)"
      proof (rule pads_split [OF s1 m1 _ st])
        have "length ?rest div k * k \<le> length ?rest" "head \<le> 16" "pad_unit k (length ?rest) \<le> 256"
          by (simp_all add: head_def pad_unit_def k_def)
        then have "head + length ?rest div k * k + pad_unit k (length ?rest) \<le> 16 + length ?rest + 256" by linarith
        also have "\<dots> < 2 ^ 32" using b(2) by simp
        finally show "head + length ?rest div k * k + pad_unit k (length ?rest) < 2 ^ 32" .
      qed (use gt lb small in simp_all)
      with True chk ne w gt b(5) show ?thesis
        unfolding unf by (cases special) (auto simp: des special_def k_def)
    qed
  qed
qed

text \<open>
  What a client may rely on without knowing the alignment of its buffer: a request that leaves room for a
  whole buffer behind it never meets the refused read-back.
\<close>

definition rram_fits :: "u32 \<Rightarrow> nat \<Rightarrow> rram \<Rightarrow> bool" where
  "rram_fits a n r \<longleftrightarrow> 0 < n \<and> rr_start r \<le> a \<and> unat a + n + 256 < unat (rr_end r)"

lemma last_unit_place:
  "(\<exists>k s m. last_unit dst src n = (dst + of_nat k, pad_unit s m) \<and> k \<le> n \<and> s \<le> 256) \<or> last_unit dst src n = (dst - dst mod 16, 16)"
proof -
  let ?h = "16 - unat (dst mod 16)"
  have k: "?h + (n - ?h) div s * s \<le> n" if "\<not> n \<le> ?h" for s
    using that div_times_less_eq_dividend [of "n - ?h" s] by linarith
  consider "last_unit dst src n = (dst + of_nat (n div 16 * 16), pad_unit 16 n)" | "last_unit dst src n = (dst - dst mod 16, 16)"
    | "\<not> n \<le> ?h" "last_unit dst src n = (dst + of_nat (?h + (n - ?h) div 16 * 16), pad_unit 16 (n - ?h))"
    | "\<not> n \<le> ?h" "last_unit dst src n = (dst + of_nat (?h + (n - ?h) div 256 * 256), pad_unit 256 (n - ?h))"
    unfolding last_unit_def Let_def by metis
  then show ?thesis
  proof cases
    case 1
    moreover have "n div 16 * 16 \<le> n" by simp
    ultimately show ?thesis by (intro disjI1 exI conjI) (assumption, assumption, simp)
  next
    case 3
    then show ?thesis using k [of 16] by (intro disjI1 exI conjI) (assumption, assumption, simp)
  next
    case 4
    then show ?thesis using k [of 256] by (intro disjI1 exI conjI) (assumption, assumption, simp)
  qed simp
qed

lemma last_unit_end:
  assumes "unat dst + n + 256 < 2 ^ 32"
  shows "unat (fst (last_unit dst src n)) + snd (last_unit dst src n) \<le> unat dst + n + 256"
proof -
  have le: "unat (dst + of_nat k) = unat dst + k" if "k \<le> n" for k
    using that assms by (simp add: unat_word_ariths unat_of_nat_u32)
  have "unat (dst - dst mod 16) \<le> unat dst" by (subst unat_diff_u32) (simp add: unat_mod)
  then show ?thesis
    using last_unit_place [of dst src n] le by (auto simp: pad_unit_def)
qed

lemma nt_rram_write_stores:
  assumes "rram_ready r" and "rram_fits dst (unat len) r" and "unat len \<le> length wdata"
  shows "rram_stores r (mwrite (rr_mem r) dst (take (unat len) wdata)) (nt_rram_write dst src wdata len r)"
proof (rule pads_stores [OF nt_rram_write_pads [OF assms(1) _ assms(3)]])
  show "in_main dst (unat len) r" using assms(2) by (simp add: rram_fits_def in_main_def)
  show "unat (fst (last_unit dst src (unat len))) + snd (last_unit dst src (unat len)) < unat (rr_end r) \<or>
      snd (last_unit dst src (unat len)) = 0"
    using last_unit_end [of dst "unat len" src] assms(2) unat_u32_bound [of "rr_end r"] by (simp add: rram_fits_def)
qed

section \<open>Interpretation as a byte store\<close>

text \<open>The driver as its clients call it, with a word-aligned or unaligned buffer at \<open>src\<close>.\<close>

definition rram_rd :: "u32 \<Rightarrow> nat \<Rightarrow> rram \<Rightarrow> u8 list option \<times> rram" where
  "rram_rd a n r = (case nt_rram_read a (of_nat n) r of (st, bs) \<Rightarrow> (if st = 0 then Some (take n bs) else None, r))"

definition rram_wr :: "u32 \<Rightarrow> u32 \<Rightarrow> u8 list \<Rightarrow> rram \<Rightarrow> bool \<times> rram" where
  "rram_wr src a bs r = (case nt_rram_write a src bs (of_nat (length bs)) r of (st, r') \<Rightarrow> (st = 0, r'))"

lemma rram_fits_len: "rram_fits a n r \<Longrightarrow> unat (of_nat n :: u32) = n"
  using unat_u32_bound [of "rr_end r"] by (simp add: rram_fits_def unat_of_nat_u32)

lemma nt_rram_read_ok:
  assumes "rram_ready r" and "rram_fits a (unat n) r"
  shows "fst (nt_rram_read a n r) = 0" and "take (unat n) (snd (nt_rram_read a n r)) = mread (rr_mem r) a (unat n)"
proof -
  have chk: "rram_address_range_check (nt_otp_region_locked r) a n READ_LOCKED r = 0"
    using assms by (intro range_check_main) (simp_all add: rram_ready_def rram_fits_def)
  have ne: "n \<noteq> 0" using assms(2) by (auto simp: rram_fits_def)
  show "fst (nt_rram_read a n r) = 0"
    using chk ne by (simp add: nt_rram_read_def rram_read_with_def Let_def)
  let ?d = "if n mod 4 = 0 then 0 else 4 - n mod 4 :: u32"
  have "unat ?d \<le> 4" using word_le_nat_alt [of ?d 4] by (simp add: word_le_nat_alt unat_diff_u32 unat_mod)
  then have le: "unat n \<le> unat (n + ?d)"
    using assms(2) unat_u32_bound [of "rr_end r"] by (simp add: rram_fits_def unat_word_ariths)
  have "take (unat n) (mread (rr_mem r) a (unat (n + ?d))) = mread (rr_mem r) a (unat n)"
    using take_drop_mread [of 0 "unat n" "unat (n + ?d)" "rr_mem r" a] le by simp
  then show "take (unat n) (snd (nt_rram_read a n r)) = mread (rr_mem r) a (unat n)"
    using chk ne by (simp add: nt_rram_read_def rram_read_with_def Let_def del: add_cancel_right_right)
qed

lemma rram_wr_stores:
  assumes "rram_ready r" and "rram_fits a (length bs) r"
  shows "fst (rram_wr src a bs r) \<and> rr_mem (snd (rram_wr src a bs r)) = mwrite (rr_mem r) a bs \<and>
    rram_same r (snd (rram_wr src a bs r))"
  using nt_rram_write_stores [OF assms(1), of a "of_nat (length bs)" bs src] assms(2) rram_fits_len [OF assms(2)]
  by (simp add: rram_wr_def rram_stores_def case_prod_beta)

text \<open>Whatever the engine answers, a write leaves the bounds, the engine and the size of the shared buffer
  alone.\<close>

lemma with_retry_same: "rram_same r (snd (nt_rram_write_with_retry dst bs r))"
proof -
  have "rram_same r (snd (write_tries n dst bs r))" for n r
  proof (induction n dst bs r rule: write_tries.induct)
    case (3 n dst bs r)
    show ?case
      using 3 rram_same_trans [of r "snd (nt_rram_write_per_block dst bs r)"]
      by (cases r) (auto simp: nt_rram_write_per_block_def rram_same_def)
  qed (simp_all add: nt_rram_write_per_block_def rram_same_def)
  then show ?thesis by (simp add: nt_rram_write_with_retry_def)
qed

lemma write_padded_same:
  assumes "length (rr_tmp r) = 256" and "sz mod 4 = 0" and "unat sz \<le> 256" and "i + length src \<le> 256"
  shows "rram_same r (snd (write_padded des sz i src r))"
proof -
  have "length (snd (nt_rram_read des sz r)) \<le> 256"
    using assms(2,3) by (simp add: nt_rram_read_def rram_read_with_def Let_def)
  then have "rram_same r (r\<lparr>rr_tmp := patch (patch (rr_tmp r) 0 (snd (nt_rram_read des sz r))) i src\<rparr>)"
    using assms(1,4) by (cases r) (simp add: rram_same_def)
  then show ?thesis
    using rram_same_trans [OF _ with_retry_same] by (simp add: write_padded_def read_tmp_def Let_def)
qed

lemma write_blocks_same:
  assumes "length (rr_tmp r) = 256" and "via_tmp \<longrightarrow> unat sz \<le> 256"
  shows "rram_same r (snd (snd (snd (write_blocks via_tmp num sz des src r))))"
  using assms
proof (induction num arbitrary: des src r)
  case (Suc num)
  define r1 where "r1 = (if via_tmp then r\<lparr>rr_tmp := patch (rr_tmp r) 0 (take (unat sz) src)\<rparr> else r)"
  obtain st r2 where w: "nt_rram_write_with_retry des (take (unat sz) src) r1 = (st, r2)" by fastforce
  have "rram_same r r1" using Suc.prems by (cases r) (auto simp: r1_def rram_same_def)
  then have s2: "rram_same r r2" using with_retry_same [of r1 des "take (unat sz) src"] w rram_same_trans by auto
  then have "length (rr_tmp r2) = 256" using Suc.prems(1) rram_same_fields(8) [OF s2] by simp
  then have "rram_same r (snd (snd (snd (write_blocks via_tmp num sz (des + sz) (drop (unat sz) src) r2))))"
    using Suc.IH Suc.prems(2) rram_same_trans [OF s2] by blast
  with w s2 show ?case by (simp add: r1_def [symmetric] Let_def)
qed simp

lemma write_special_same:
  assumes "length (rr_tmp r) = 256"
  shows "rram_same r (snd (write_special des src r))"
proof -
  let ?c = "ucast (of_nat (length src) div RRAM_R_W_BUFF_SIZE :: u32) :: u16"
  obtain st des' src' r1 where w: "write_blocks True (unat ?c) RRAM_R_W_BUFF_SIZE des src r = (st, des', src', r1)"
    by (cases "write_blocks True (unat ?c) RRAM_R_W_BUFF_SIZE des src r")
  have s1: "rram_same r r1"
    using write_blocks_same [OF assms, of True RRAM_R_W_BUFF_SIZE "unat ?c" des src] w by simp
  have len: "length (rr_tmp r1) = 256" using assms rram_same_fields(8) [OF s1] by simp
  have le: "unat (ucast (of_nat (length src) mod RRAM_R_W_BUFF_SIZE :: u32) :: u16) \<le> 256"
    by (simp add: unsigned_ucast_eq unsigned_take_bit_eq take_bit_nat_def unat_mod)
  have "rram_same r (snd (write_padded des' RRAM_R_W_BUFF_SIZE 0
      (take (unat (ucast (of_nat (length src) mod RRAM_R_W_BUFF_SIZE :: u32) :: u16)) src') r1))"
    by (rule rram_same_trans [OF s1 write_padded_same [OF len]]) (use le in simp_all)
  with s1 w show ?thesis unfolding write_special_def Let_def by simp
qed

lemma write_aligned_same:
  assumes "length (rr_tmp r) = 256"
  shows "rram_same r (snd (write_aligned des src r))"
proof -
  have tail: "rram_same r (snd (write_tail des n src r))" if len: "length (rr_tmp r) = 256" for des n src r
  proof -
    let ?w = "n div 16 * 16"
    define res where "res = (if ?w \<noteq> 0 then nt_rram_write_with_retry des (take ?w src) r else (0, r))"
    have s1: "rram_same r (snd res)" using with_retry_same by (simp add: res_def)
    then have "length (rr_tmp (snd res)) = 256" using len rram_same_fields(8) [OF s1] by simp
    then have "rram_same r (snd (write_padded (des + of_nat ?w) RRAM_WRITE_ADR_BYTE_ALIGN 0
        (take (n mod 16) (drop ?w src)) (snd res)))"
      by (intro rram_same_trans [OF s1 write_padded_same]) (simp_all add: le_trans [OF less_imp_le [OF mod_less_divisor]])
    with s1 show ?thesis
      using with_retry_same unfolding write_tail_def Let_def res_def [symmetric] by (simp add: case_prod_beta)
  qed
  let ?c = "ucast (of_nat (length src) div RRAM_WRITE_BLOCK_MAX_SIZE :: u32) :: u16"
  obtain st des' src' r1 where w: "write_blocks False (unat ?c) RRAM_WRITE_BLOCK_MAX_SIZE des src r = (st, des', src', r1)"
    by (cases "write_blocks False (unat ?c) RRAM_WRITE_BLOCK_MAX_SIZE des src r")
  have s1: "rram_same r r1"
    using write_blocks_same [OF assms, of False RRAM_WRITE_BLOCK_MAX_SIZE "unat ?c" des src] w by simp
  have len: "length (rr_tmp r1) = 256" using assms rram_same_fields(8) [OF s1] by simp
  show ?thesis
    using s1 w rram_same_trans [OF s1 tail [OF len]] unfolding write_aligned_def Let_def by simp
qed

lemma nt_rram_write_same:
  assumes "length (rr_tmp r) = 256"
  shows "rram_same r (snd (nt_rram_write dst src bs len r))"
proof -
  have off: "unat (dst mod 16) < 16" by (simp add: unat_mod)
  have head: "rram_same r (snd (write_padded des RRAM_WRITE_ADR_BYTE_ALIGN (unat (dst mod 16)) (take t bs') r))"
    if "t \<le> 16 - unat (dst mod 16)" for des t bs'
    by (rule write_padded_same [OF assms]) (use that off in \<open>auto simp: min_def\<close>)
  have rest: "rram_same r (snd (write_special a c r1)) \<and> rram_same r (snd (write_aligned a c r1))"
    if s1: "rram_same r r1" for a c r1
  proof -
    have "length (rr_tmp r1) = 256" using assms rram_same_fields(8) [OF s1] by simp
    then show ?thesis using rram_same_trans [OF s1] write_special_same write_aligned_same by blast
  qed
  show ?thesis
    using head rest write_aligned_same [OF assms]
    unfolding nt_rram_write_def Let_def by (auto simp: case_prod_beta)
qed

interpretation rram_store: byte_store rr_mem rram_ready rram_fits "\<lambda>_ _ _. True" rram_rd "rram_wr src" for src
proof unfold_locales
  fix r :: rram and a b :: u32 and bs :: "u8 list" and n :: nat and x :: u32
  have sm: "rram_same r (snd (rram_wr src a bs r))" if "rram_ready r" for a bs
    using that nt_rram_write_same [of r] by (simp add: rram_wr_def rram_ready_def case_prod_beta)
  show "rram_ready r \<Longrightarrow> rram_ready (snd (rram_wr src a bs r))" using rram_same_ready sm by blast
  show "fst (rram_wr src a bs r) \<and> mread (rr_mem (snd (rram_wr src a bs r))) a (length bs) = bs"
    if "rram_ready r" "rram_fits a (length bs) r"
    using rram_wr_stores [OF that] that(2) unat_u32_bound [of "rr_end r"] by (simp add: mread_mwrite_same rram_fits_def)
  show "rr_mem (snd (rram_wr src a bs r)) x = rr_mem r x"
    if "rram_ready r" "rram_fits a (length bs) r" "\<not> in_range a (length bs) x"
    using rram_wr_stores [OF that(1,2)] that(3) by (simp add: mwrite_out)
  show "rram_fits a n (snd (rram_wr src b bs r)) = rram_fits a n r" if "rram_ready r"
    using rram_same_fields [OF sm [OF that, of b bs]] by (simp add: rram_fits_def)
  show "fst (rram_rd a n r) = Some (mread (rr_mem r) a n)" if "rram_ready r" "rram_fits a n r"
    using nt_rram_read_ok [OF that(1), of a "of_nat n"] that(2) rram_fits_len [OF that(2)]
    by (simp add: rram_rd_def case_prod_beta)
  show "rr_mem (snd (rram_rd a n r)) = rr_mem r" by (simp add: rram_rd_def case_prod_beta)
qed

section \<open>Properties of the driver\<close>

definition demo_rram :: "mem \<Rightarrow> rram" where
  "demo_rram m = \<lparr>rr_mem = m, rr_tmp = replicate 256 0xEE, rr_start = 0x200000, rr_end = 0x37FFF0,
     rr_otp_start = 0x1A0000, rr_otp_end = 0x1A1000, rr_dxe_read = False, rr_poll = (\<lambda>_ _. True),
     rr_cell = (\<lambda>_ _ b. b), rr_n = 0\<rparr>"

lemma demo_rram_ready: "rram_ready (demo_rram m)"
  by (simp add: rram_ready_def demo_rram_def otp_layout_def dxe_wait.simps)

text \<open>C5. On a working engine every write inside the main area, up to the last byte the range check lets
  through, returns 0 and stores the requested bytes, for every alignment of destination and source and every
  length: the unaligned head, the blocks and the padded tail together equal the reference \<open>mwrite\<close>. When the
  unit that is padded last (\<open>last_unit\<close>) ends below the end of the area no other cell changes; when it does
  not, its read-back is refused, and no cell outside of that unit changes.\<close>

theorem rram_write_exact:
  assumes "rram_ready r" and "len \<noteq> 0" and "rr_start r \<le> dst" and "unat dst + unat len < unat (rr_end r)"
    and "unat len \<le> length wdata" and "last_unit dst src (unat len) = (u, n)"
  shows "\<exists>r'. nt_rram_write dst src wdata len r = (0, r') \<and>
    (\<forall>i < unat len. rr_mem r' (dst + of_nat i) = wdata ! i) \<and>
    (unat u + n < unat (rr_end r) \<longrightarrow> rr_mem r' = mwrite (rr_mem r) dst (take (unat len) wdata)) \<and>
    (\<forall>x. \<not> in_range dst (unat len) x \<longrightarrow> \<not> in_range u n x \<longrightarrow> rr_mem r' x = rr_mem r x)"
proof -
  have "in_main dst (unat len) r" using assms(2-4) by (simp add: in_main_def unat_gt_0)
  note p = nt_rram_write_pads [OF assms(1) this assms(5), of src, unfolded assms(6) fst_conv snd_conv rram_pads_def]
  note m = p [THEN conjunct2, THEN conjunct2, rule_format]
  have len: "length (take (unat len) wdata) = unat len" using assms(5) by simp
  let ?r = "snd (nt_rram_write dst src wdata len r)"
  have "rr_mem ?r (dst + of_nat i) = wdata ! i" if i: "i < unat len" for i
  proof -
    have "unat (of_nat i :: u32) = i" using i unat_u32_bound [of len] by (simp add: unat_of_nat_u32)
    then show ?thesis using m [of "dst + of_nat i"] i len assms(5) by (simp add: in_range_def mwrite_def mcombine_def)
  qed
  moreover have "rr_mem ?r x = rr_mem r x" if "\<not> in_range dst (unat len) x" "\<not> in_range u n x" for x
    using m [of x] that len by (simp add: mwrite_out)
  ultimately show ?thesis
    using p by (intro exI [of _ ?r]) (auto simp: prod_eq_iff)
qed

text \<open>Forty bytes at an odd address, and three bytes in the last 16 bytes of the area.\<close>

theorem rram_write_exact_witness:
  "rr_mem (snd (nt_rram_write 0x200005 3 (replicate 40 7) 40 (demo_rram (\<lambda>_. 1)))) = mwrite (\<lambda>_. 1) 0x200005 (replicate 40 7) \<and>
   rr_mem (snd (nt_rram_write 0x37FFE2 0 [7, 8, 9] 3 (demo_rram (\<lambda>_. 1)))) 0x37FFE4 = 9 \<and>
   rr_mem (snd (nt_rram_write 0x37FFE2 0 [7, 8, 9] 3 (demo_rram (\<lambda>_. 1)))) 0x37FFF0 = 1"
proof (intro conjI)
  have "last_unit 0x200005 3 40 = (0x200010, 256)" by (simp add: last_unit_def pad_unit_def Let_def)
  then show "rr_mem (snd (nt_rram_write 0x200005 3 (replicate 40 7) 40 (demo_rram (\<lambda>_. 1)))) = mwrite (\<lambda>_. 1) 0x200005 (replicate 40 7)"
    using rram_write_exact [OF demo_rram_ready, of 40 "\<lambda>_. 1" "0x200005" "replicate 40 7" 3 "0x200010" 256]
    by (auto simp: demo_rram_def)
  have u: "last_unit 0x37FFE2 0 3 = (0x37FFE0, 16)" by (simp add: last_unit_def Let_def)
  note e = rram_write_exact [OF demo_rram_ready, of 3 "\<lambda>_. 1" "0x37FFE2" "[7, 8, 9]" 0 "0x37FFE0" 16]
  show "rr_mem (snd (nt_rram_write 0x37FFE2 0 [7, 8, 9] 3 (demo_rram (\<lambda>_. 1)))) 0x37FFE4 = 9"
    using e u by (auto simp: demo_rram_def dest!: spec [of _ "2 :: nat"])
  show "rr_mem (snd (nt_rram_write 0x37FFE2 0 [7, 8, 9] 3 (demo_rram (\<lambda>_. 1)))) 0x37FFF0 = 1"
    using e u by (auto simp: demo_rram_def in_range_def dest!: spec [of _ "0x37FFF0 :: u32"])
qed

text \<open>C6. A request that covers a byte of a write-locked OTP region is refused and changes nothing,
  whether it starts in OTP or runs into it.\<close>

theorem otp_locked_write_refused:
  assumes "otp_layout r" and "unat dst + unat len < 2 ^ 32" and "in_range dst (unat len) x"
    and "MEM_RRAM_OTP_ADDR_CHK x r"
    and "nt_otp_region_locked r (snd (g_otp_region_lock_map ! address_to_region_num_map x r)) WRITE_LOCKED \<noteq> 0"
  shows "nt_rram_write dst src wdata len r = (- EFAULT, r)"
proof -
  have "len \<noteq> 0" using assms(3) by (auto simp: in_range_def)
  with otp_locked_range_refused [OF assms(1-4), of "nt_otp_region_locked r"] assms(5) show ?thesis by (simp add: nt_rram_write_def)
qed

theorem otp_locked_write_refused_witness:
  "nt_rram_write 0x1A0000 0 [1, 2, 3, 4] 4 (demo_rram ((\<lambda>_. 0)(0x1A0033 := 1))) =
     (- EFAULT, demo_rram ((\<lambda>_. 0)(0x1A0033 := 1)))"
proof (rule otp_locked_write_refused [where x = "0x1A0002"])
  show "otp_layout (demo_rram ((\<lambda>_. 0)(0x1A0033 := 1)))" using demo_rram_ready by (simp add: rram_ready_def)
  show "MEM_RRAM_OTP_ADDR_CHK 0x1A0002 (demo_rram ((\<lambda>_. 0)(0x1A0033 := 1)))" by code_simp
  show "nt_otp_region_locked (demo_rram ((\<lambda>_. 0)(0x1A0033 := 1))) (snd (g_otp_region_lock_map !
      address_to_region_num_map 0x1A0002 (demo_rram ((\<lambda>_. 0)(0x1A0033 := 1))))) WRITE_LOCKED \<noteq> 0"
    by code_simp
qed (simp_all add: in_range_def)

text \<open>The read-back of the padding is not checked. When a short write inside one 16-byte unit is
  accepted but reading the unit is refused, the other cells of the unit are overwritten with whatever
  the shared buffer held before.\<close>

theorem rram_refused_readback_stale:
  assumes "rram_ready r" and "len \<noteq> 0" and "dst mod 16 \<noteq> 0" and "unat (dst mod 16) + unat len \<le> 16"
    and "unat len \<le> length wdata"
    and "rram_address_range_check (nt_otp_region_locked r) dst len WRITE_LOCKED r = 0"
    and "rram_address_range_check (nt_otp_region_locked r) (dst - dst mod 16) 16 READ_LOCKED r \<noteq> 0"
  shows "fst (nt_rram_write dst src wdata len r) = 0 \<and>
    rr_mem (snd (nt_rram_write dst src wdata len r)) =
      mwrite (rr_mem r) (dst - dst mod 16) (take 16 (patch (rr_tmp r) (unat (dst mod 16)) (take (unat len) wdata)))"
proof -
  let ?t = "patch (rr_tmp r) (unat (dst mod 16)) (take (unat len) wdata)"
  have rd: "snd (nt_rram_read (dst - dst mod 16) 16 r) = []"
    using assms(7) by (simp add: nt_rram_read_def rram_read_with_def)
  have t: "(if 16 - unat (dst mod 16) < unat len then 16 - unat (dst mod 16) else unat len) = unat len"
    using assms(4) by simp
  have w: "nt_rram_write dst src wdata len r = nt_rram_write_with_retry (dst - dst mod 16) (take 16 ?t) (r\<lparr>rr_tmp := ?t\<rparr>)"
    using assms(2,3,6) rd unfolding nt_rram_write_def Let_def t
    by (simp add: write_padded_def read_tmp_def Let_def case_prod_beta prod_eq_iff)
  have "length ?t = 256" using assms(1,4,5) by (simp add: rram_ready_def)
  then have "rram_ready (r\<lparr>rr_tmp := ?t\<rparr>)"
    using assms(1) by (simp add: rram_ready_def otp_layout_def)
  from with_retry_stores [OF this, of "dst - dst mod 16" "take 16 ?t"] w show ?thesis
    by (simp add: rram_stores_def)
qed

theorem rram_refused_readback_stale_witness:
  "rr_mem (snd (nt_rram_write 0x1A0033 0 [1] 1 (demo_rram ((\<lambda>_. 0)(0x1A0031 := 2))))) 0x1A0031 = 0xEE"
proof -
  let ?r = "demo_rram ((\<lambda>_. 0)(0x1A0031 := 2))"
  have "rram_address_range_check (nt_otp_region_locked ?r) 0x1A0033 1 WRITE_LOCKED ?r = 0" by code_simp
  moreover have "rram_address_range_check (nt_otp_region_locked ?r) (0x1A0033 - 0x1A0033 mod 16) 16 READ_LOCKED ?r \<noteq> 0"
    by code_simp
  ultimately show ?thesis
    using rram_refused_readback_stale [OF demo_rram_ready, of 1 "0x1A0033" "[1]" "(\<lambda>_. 0)(0x1A0031 := 2)" 0]
    by (simp add: mwrite_def mcombine_def patch_def demo_rram_def nth_append)
qed

end
