(* ===== verification/FwTypes.thy ===== *)
theory FwTypes
  imports FlashDriver RramDriver
begin

text \<open>
  Data of the firmware-upgrade storage code (\<open>src/modules/fw_upgrade/fw_upgrade_mem.h\<close> and the type
  section of \<open>fw_upgrade_mem.c\<close>): status codes, the partition handle, the firmware descriptor (FWD) and
  the firmware descriptor table (FDT) with their byte layouts, and the state record of the component.
  A descriptor is read from flash as 512 bytes and its fields are decoded at their offsets; the FDT is
  read in place in RRAM.
\<close>

unbundle bit_operations_syntax

section \<open>Types and constants\<close>

datatype (plugins only: code) fw_upgrade_status_code =
    FW_UPGRADE_OK_E | FW_UPGRADE_ERROR_E | FW_UPGRADE_ERR_INVALID_PARAM_E | FW_UPGRADE_ERR_NOT_INIT_E
  | FW_UPGRADE_ERR_INCOMPLETE_E | FW_UPGRADE_ERR_SESSION_IN_PROGRESS_E | FW_UPGRADE_ERR_SESSION_NOT_START_E
  | FW_UPGRADE_ERR_SESSION_NOT_READY_FOR_SUSPEND_E | FW_UPGRADE_ERR_SESSION_NOT_SUSPEND_E
  | FW_UPGRADE_ERR_SESSION_RESUME_NOT_SUPPORT_E | FW_UPGRADE_ERR_SESSION_CANCELLED_E
  | FW_UPGRADE_ERR_SESSION_SUSPEND_E | FW_UPGRADE_ERR_INTERFACE_NAME_TOO_LONG_E | FW_UPGRADE_ERR_URL_TOO_LONG_E
  | FW_UPGRADE_ERR_FLASH_NOT_SUPPORT_FW_UPGRADE_E | FW_UPGRADE_ERR_FLASH_INIT_TIMEOUT_E
  | FW_UPGRADE_ERR_FLASH_READ_FAIL_E | FW_UPGRADE_ERR_FLASH_WRITE_FAIL_E | FW_UPGRADE_ERR_FLASH_ERASE_FAIL_E
  | FW_UPGRADE_ERR_FLASH_NOT_ENOUGH_SPACE_E | FW_UPGRADE_ERR_FLASH_CREATE_PARTITION_E
  | FW_UPGRADE_ERR_FLASH_IMAGE_NOT_FOUND_E | FW_UPGRADE_ERR_FLASH_ERASE_PARTITION_E
  | FW_UPGRADE_ERR_FLASH_WRITE_PARTITION_E | FW_UPGRADE_ERR_GET_PARTITION_NULL_E
  | FW_UPGRADE_ERR_REACH_MAX_IMAGE_ENTRY_E | FW_UPGRADE_ERR_IMAGE_UNUSED_E | FW_UPGRADE_ERR_IMAGE_NOT_FOUND_E
  | FW_UPGRADE_ERR_IMAGE_DOWNLOAD_FAIL_E | FW_UPGRADE_ERR_INCORRECT_IMAGE_CHECKSUM_E
  | FW_UPGRADE_ERR_SERVER_RSP_TIMEOUT_E | FW_UPGRADE_ERR_INVALID_FILENAME_E | FW_UPGRADE_ERR_INCORRECT_IMAGE_HDR_E
  | FW_UPGRADE_ERR_INSUFFICIENT_MEMORY_E | FW_UPGRADE_ERR_INCORRECT_SIGNATURE_E | FW_UPGRADE_ERR_INCORRCT_VERSION_E
  | FW_UPGRADE_ERR_INCORRECT_NUM_IMAGES_E | FW_UPGRADE_ERR_INCORRECT_IMAGE_LENGTH_E
  | FW_UPGRADE_ERR_INCORRECT_HASH_TYPE_E | FW_UPGRADE_ERR_INCORRECT_IMAGE_ID_E | FW_UPGRADE_ERR_SBL_ONLY_NOT_SUPPORT_E
  | FW_UPGRADE_ERR_SBL_NOT_SUPPORT_UPGRADE_E | FW_UPGRADE_ERR_SBL_NOT_ENOUGH_SPACE_E | FW_UPGRADE_ERR_INVALID_FDT_E
  | FW_UPGRADE_ERR_BATTERY_LEVEL_TOO_LOW_E | FW_UPGRADE_ERR_CRYPTO_FAIL_E | FW_UPGRADE_ERR_PLUGIN_ENTRY_EMPTY_E
  | FW_UPGRADE_ERR_TRIAL_IS_RUNNING_E | FW_UPGRADE_ERR_FILE_NOT_FOUND_E | FW_UPGRADE_ERR_FILE_OPEN_ERROR_E
  | FW_UPGRADE_ERR_FILE_NAME_TOO_LONG_E | FW_UPGRADE_ERR_FILE_WRITE_ERROR_E | FW_UPGRADE_ERR_MOUNT_FILE_SYSTEM_ERROR_E
  | FW_UPGRADE_ERR_CREATE_THREAD_ERROR_E | FW_UPGRADE_ERR_PRESERVE_LAST_FAILED_E

datatype fw_upgrade_fwd_info =
    FW_UPGRADE_FWD_MAGIC_E | FW_UPGRADE_FWD_VERSION_E | FW_UPGRADE_FWD_RANK_E | FW_UPGRADE_FWD_STATUS_E
  | FW_UPGRADE_FWD_TOTAL_IMAGE_E

record fu_partition_client =
  ref_count :: u8
  fwd_idx :: u8
  img_idx :: u8
  img_id :: u32
  img_version :: u32
  img_start :: u32
  img_size :: u32

record fw_upgrade_mem_info =
  mem_start :: u32
  mem_size :: u32
  fwd_region_size :: u32
  block_size :: u32

record image_entry =
  image_id :: u32
  start_block :: u32
  total_blocks :: u32
  entry_version :: u32

record fdt_entry =
  fde_id :: u32
  fde_rank :: u32
  fde_format :: u32
  fde_addr :: u32
  fde_state :: u32
  fde_version :: u32
  fde_reserve :: "u8 list"

text \<open>The globals, the drivers below and the build configuration: the number of descriptors
  (\<open>CONFIG_FW_UPGRADE_FWD_SUPPORT_NUM\<close>), the linker symbols, and whether the one allocation succeeds.\<close>

record fu =
  fu_initialized :: bool
  partition_handles :: "fu_partition_client list"
  fw_upgrade_mem_params :: "fw_upgrade_mem_info option"
  fu_flash :: flash
  fu_rram :: rram
  fu_alloc :: bool
  fwd_support_num :: nat
  FDT_START :: u32
  SBL_MEM_SIZE :: u32

type_synonym fu_part_hdl = "nat option"

abbreviation (input) FW_UPGRADE_MAX_FWD :: u8 where "FW_UPGRADE_MAX_FWD \<equiv> 3"
abbreviation (input) FW_UPGRADE_INVALID_FWD :: u8 where "FW_UPGRADE_INVALID_FWD \<equiv> 0xFF"
abbreviation (input) FW_UPGRADE_MAX_HANDLES :: nat where "FW_UPGRADE_MAX_HANDLES \<equiv> 10"
abbreviation (input) MAX_FW_IMAGE_ENTRIES :: nat where "MAX_FW_IMAGE_ENTRIES \<equiv> 30"
abbreviation (input) FW_UPGRADE_MAGIC_V1 :: u32 where "FW_UPGRADE_MAGIC_V1 \<equiv> 0x54445746"
abbreviation (input) FDT_SIGNATURE :: u32 where "FDT_SIGNATURE \<equiv> 0x54445746"
abbreviation (input) FDT_MAX_ENTRY :: u32 where "FDT_MAX_ENTRY \<equiv> 31"
abbreviation (input) FDE_IMG_ID_SBL :: u32 where "FDE_IMG_ID_SBL \<equiv> 0"
abbreviation (input) FDE_IMG_ID_APP :: u32 where "FDE_IMG_ID_APP \<equiv> 2"
abbreviation (input) FDE_IMG_RANK_AGED :: u32 where "FDE_IMG_RANK_AGED \<equiv> 0"
abbreviation (input) FDE_IMG_RANK_GOLDEN :: u32 where "FDE_IMG_RANK_GOLDEN \<equiv> 1"
abbreviation (input) FDE_IMG_RANK_CURRENT :: u32 where "FDE_IMG_RANK_CURRENT \<equiv> 2"
abbreviation (input) FDE_IMG_RANK_TRIAL :: u32 where "FDE_IMG_RANK_TRIAL \<equiv> 3"
abbreviation (input) FDE_IMG_STATE_INVALID :: u32 where "FDE_IMG_STATE_INVALID \<equiv> 0"
abbreviation (input) FDE_IMG_STATE_NEW :: u32 where "FDE_IMG_STATE_NEW \<equiv> 3"
abbreviation (input) FW_UPGRADE_FWD_RANK_TRIAL :: u32 where "FW_UPGRADE_FWD_RANK_TRIAL \<equiv> 0xFFFFFFFF"
abbreviation (input) FW_UPGRADE_FWD_STATUS_VALID :: u8 where "FW_UPGRADE_FWD_STATUS_VALID \<equiv> 1"
abbreviation (input) FW_UPGRADE_FWD_STATUS_INVALID :: u8 where "FW_UPGRADE_FWD_STATUS_INVALID \<equiv> 0"
abbreviation (input) FW_UPGRADE_FWD_STATUS_UNUSED :: u8 where "FW_UPGRADE_FWD_STATUS_UNUSED \<equiv> 0xFF"
abbreviation (input) FW_UPGRADE_FWD_TRIAL_UNUSED :: u8 where "FW_UPGRADE_FWD_TRIAL_UNUSED \<equiv> 0xFF"
abbreviation (input) FW_UPGRADE_FWD_IMAGE_UNUSED :: u32 where "FW_UPGRADE_FWD_IMAGE_UNUSED \<equiv> 0xFFFFFFFF"
abbreviation (input) FW_UPGRADE_FWD_BOOT_TYPE_GOLDEN :: u32 where "FW_UPGRADE_FWD_BOOT_TYPE_GOLDEN \<equiv> 1"
abbreviation (input) FW_UPGRADE_FWD_BOOT_TYPE_CURRENT :: u32 where "FW_UPGRADE_FWD_BOOT_TYPE_CURRENT \<equiv> 2"
abbreviation (input) FW_UPGRADE_FWD_BOOT_TYPE_TRIAL :: u32 where "FW_UPGRADE_FWD_BOOT_TYPE_TRIAL \<equiv> 4"
abbreviation (input) SBL_IMG_ID :: u32 where "SBL_IMG_ID \<equiv> 1"
abbreviation (input) FS1_IMG_ID :: u32 where "FS1_IMG_ID \<equiv> 5"
abbreviation (input) APP_IMG_ID :: u32 where "APP_IMG_ID \<equiv> 10"
abbreviation (input) RAMDUMP_IMG_ID :: u32 where "RAMDUMP_IMG_ID \<equiv> 99"
abbreviation (input) USERDATA_IMG_ID :: u32 where "USERDATA_IMG_ID \<equiv> 101"
abbreviation (input) FS2_IMG_ID :: u32 where "FS2_IMG_ID \<equiv> 128"

abbreviation mem_params :: "fu \<Rightarrow> fw_upgrade_mem_info" where
  "mem_params s \<equiv> the (fw_upgrade_mem_params s)"

section \<open>Descriptor and table layout\<close>

text \<open>Entry \<open>i\<close> of a descriptor read from flash, and its encoding.\<close>

definition fwd_entry :: "u8 list \<Rightarrow> nat \<Rightarrow> image_entry" where
  "fwd_entry fwd i =
     (let o1 = 32 + 16 * i in
      \<lparr>image_id = get32 fwd o1, start_block = get32 fwd (o1 + 4), total_blocks = get32 fwd (o1 + 8),
       entry_version = get32 fwd (o1 + 12)\<rparr>)"

definition enc_entry :: "image_entry \<Rightarrow> u8 list" where
  "enc_entry e = enc32 (image_id e) @ enc32 (start_block e) @ enc32 (total_blocks e) @ enc32 (entry_version e)"

definition fwd_total_images :: "u8 list \<Rightarrow> u8" where
  "fwd_total_images fwd = fwd ! 13"

text \<open>The FDT is read in place: a header of 32 bytes, then entries of 32 bytes.\<close>

definition fde_at :: "mem \<Rightarrow> u32 \<Rightarrow> fdt_entry" where
  "fde_at m a = \<lparr>fde_id = rd32 m a, fde_rank = rd32 m (a + 4), fde_format = rd32 m (a + 8), fde_addr = rd32 m (a + 12),
     fde_state = rd32 m (a + 16), fde_version = rd32 m (a + 20), fde_reserve = mread m (a + 24) 8\<rparr>"

definition enc_fde :: "fdt_entry \<Rightarrow> u8 list" where
  "enc_fde e = enc32 (fde_id e) @ enc32 (fde_rank e) @ enc32 (fde_format e) @ enc32 (fde_addr e) @
     enc32 (fde_state e) @ enc32 (fde_version e) @ fde_reserve e"

abbreviation fdt_mem :: "fu \<Rightarrow> mem" where "fdt_mem s \<equiv> rr_mem (fu_rram s)"

definition fdt_num_fde :: "fu \<Rightarrow> u32" where
  "fdt_num_fde s = rd32 (fdt_mem s) (FDT_START s + 4)"

definition fde_addr_of :: "fu \<Rightarrow> nat \<Rightarrow> u32" where
  "fde_addr_of s i = FDT_START s + 32 + 32 * of_nat i"

definition fdt_fde :: "fu \<Rightarrow> nat \<Rightarrow> fdt_entry" where
  "fdt_fde s i = fde_at (fdt_mem s) (fde_addr_of s i)"

definition fdt_bad :: "fu \<Rightarrow> bool" where
  "fdt_bad s \<longleftrightarrow> FDT_START s = 0 \<or> rd32 (fdt_mem s) (FDT_START s) \<noteq> FDT_SIGNATURE \<or>
     fdt_num_fde s = 0 \<or> FDT_MAX_ENTRY < fdt_num_fde s"

text \<open>The first entry satisfying a condition: the search loops over \<open>fde[0..num_fde)\<close>.\<close>

definition fdt_find :: "(fdt_entry \<Rightarrow> bool) \<Rightarrow> fu \<Rightarrow> nat option" where
  "fdt_find P s = find_idx P (map (fdt_fde s) [0 ..< unat (fdt_num_fde s)])"

text \<open>Writing entry \<open>i\<close> back through the RRAM driver (\<open>update_fde\<close> is a word-aligned local).\<close>

definition write_fde :: "nat \<Rightarrow> fdt_entry \<Rightarrow> fu \<Rightarrow> bool \<times> fu" where
  "write_fde i e s =
     (case nt_rram_write (fde_addr_of s i) 0 (enc_fde e) 32 (fu_rram s) of (st, r) \<Rightarrow> (st = 0, s\<lparr>fu_rram := r\<rparr>))"

end
