(* ===== verification/FwUpgradeMem.thy ===== *)
theory FwUpgradeMem
  imports FwTypes
begin

text \<open>
  The storage side of firmware upgrade (\<open>src/modules/fw_upgrade/fw_upgrade_mem.c\<close>): the firmware
  descriptors (FWD) in the first three flash blocks, the table of partition handles, partition reads,
  writes and erases, the choice of the trial descriptor and its acceptance or rejection, and the entries
  of the firmware descriptor table (FDT) in RRAM that belong to the application and to the boot loader.

  The state holds the globals of the file (\<open>fu_initialized\<close>, \<open>partition_handles\<close>,
  \<open>fw_upgrade_mem_params\<close>), the two storage drivers and the build configuration. A partition handle is
  an index into \<open>partition_handles\<close>; \<open>None\<close> is a null handle. Output parameters are part of the
  result.
\<close>

unbundle bit_operations_syntax

section \<open>Driver calls\<close>

definition fl_read :: "u32 \<Rightarrow> u32 \<Rightarrow> fu \<Rightarrow> (FLASH_STATUS \<times> u8 list) \<times> fu" where
  "fl_read a n s = (case drv_flash_read a n (fu_flash s) of (res, f) \<Rightarrow> (res, s\<lparr>fu_flash := f\<rparr>))"

definition fl_write :: "u32 \<Rightarrow> u32 \<Rightarrow> u8 list \<Rightarrow> fu \<Rightarrow> FLASH_STATUS \<times> fu" where
  "fl_write a n bs s = (case drv_flash_write a n bs (fu_flash s) of (st, f) \<Rightarrow> (st, s\<lparr>fu_flash := f\<rparr>))"

definition fl_erase :: "u32 \<Rightarrow> u32 \<Rightarrow> fu \<Rightarrow> FLASH_STATUS \<times> fu" where
  "fl_erase start cnt s =
     (case drv_flash_erase FLASH_BLOCK_ERASE_E start cnt (fu_flash s) of (st, f) \<Rightarrow> (st, s\<lparr>fu_flash := f\<rparr>))"

section \<open>Handles and parameters\<close>

definition fw_upgrade_validation :: "fu \<Rightarrow> fw_upgrade_status_code" where
  "fw_upgrade_validation s = (if fu_initialized s then FW_UPGRADE_OK_E else FW_UPGRADE_ERROR_E)"

definition fw_upgrade_get_partition_client_entry :: "fu \<Rightarrow> nat option" where
  "fw_upgrade_get_partition_client_entry s = find_idx (\<lambda>c. ref_count c = 0) (partition_handles s)"

definition fw_upgrade_partition_handle_validation :: "fu_part_hdl \<Rightarrow> fu \<Rightarrow> fw_upgrade_status_code" where
  "fw_upgrade_partition_handle_validation handle s =
     (case handle of None \<Rightarrow> FW_UPGRADE_ERROR_E
      | Some i \<Rightarrow> if i < length (partition_handles s) \<and> 0 < ref_count (partition_handles s ! i)
                  then FW_UPGRADE_OK_E else FW_UPGRADE_ERROR_E)"

abbreviation client :: "fu \<Rightarrow> nat \<Rightarrow> fu_partition_client" where
  "client s i \<equiv> partition_handles s ! i"

definition set_client :: "nat \<Rightarrow> fu_partition_client \<Rightarrow> fu \<Rightarrow> fu" where
  "set_client i c s = s\<lparr>partition_handles := (partition_handles s)[i := c]\<rparr>"

text \<open>\<open>hdl->ref_count = 0\<close>, which is how every caller releases a handle.\<close>

definition release :: "nat \<Rightarrow> fu \<Rightarrow> fu" where
  "release i s = set_client i ((client s i)\<lparr>ref_count := 0\<rparr>) s"

definition fw_upgrade_mem_parameters_validation :: "fu_part_hdl \<Rightarrow> u32 \<Rightarrow> u32 \<Rightarrow> fu \<Rightarrow> fw_upgrade_status_code" where
  "fw_upgrade_mem_parameters_validation handle byte_offset byte_count s =
     (case handle of None \<Rightarrow> FW_UPGRADE_ERR_INVALID_PARAM_E
      | Some i \<Rightarrow>
          if byte_count = 0 then FW_UPGRADE_ERR_INVALID_PARAM_E
          else if fw_upgrade_partition_handle_validation handle s \<noteq> FW_UPGRADE_OK_E
          then FW_UPGRADE_ERR_INVALID_PARAM_E
          else (let limit = img_start (client s i) + img_size (client s i) in
                if limit < img_start (client s i) + byte_offset + byte_count
                then FW_UPGRADE_ERR_INVALID_PARAM_E else FW_UPGRADE_OK_E))"

section \<open>Initialisation\<close>

definition fw_upgrade_init :: "fu \<Rightarrow> fw_upgrade_status_code \<times> fu" where
  "fw_upgrade_init s =
     (if fu_initialized s \<and> drv_flash_get_config (fu_flash s) \<noteq> None then (FW_UPGRADE_OK_E, s) else
      (case drv_flash_init (fu_flash s) of (st, f) \<Rightarrow>
       let s1 = s\<lparr>fu_flash := f\<rparr> in
       if st \<noteq> FLASH_DEVICE_DONE then (FW_UPGRADE_ERROR_E, s1) else
       (case drv_flash_get_config f of
          None \<Rightarrow> (FW_UPGRADE_ERROR_E, s1)
        | Some flash_config \<Rightarrow>
            if fw_upgrade_mem_params s1 = None \<and> \<not> fu_alloc s1
            then (FW_UPGRADE_ERR_INSUFFICIENT_MEMORY_E, s1)
            else (FW_UPGRADE_OK_E,
              s1\<lparr>fw_upgrade_mem_params := Some \<lparr>mem_start = 0,
                   mem_size = density_in_blocks flash_config * BLOCK_SIZE_IN_BYTES,
                   fwd_region_size = BLOCK_SIZE_IN_BYTES, block_size = BLOCK_SIZE_IN_BYTES\<rparr>,
                 partition_handles := map (\<lambda>c. c\<lparr>ref_count := 0\<rparr>) (partition_handles s1),
                 fu_initialized := True\<rparr>))))"

definition fw_upgrade_get_mem_block_size :: "fu \<Rightarrow> fw_upgrade_status_code \<times> u32 option" where
  "fw_upgrade_get_mem_block_size s =
     (if fw_upgrade_validation s \<noteq> FW_UPGRADE_OK_E then (FW_UPGRADE_ERR_NOT_INIT_E, None)
      else (FW_UPGRADE_OK_E, Some (block_size (mem_params s))))"

section \<open>Descriptor fields\<close>

definition fw_upgrade_erase_fwd :: "u8 \<Rightarrow> fu \<Rightarrow> fw_upgrade_status_code \<times> fu" where
  "fw_upgrade_erase_fwd fwd s =
     (if fw_upgrade_validation s \<noteq> FW_UPGRADE_OK_E then (FW_UPGRADE_ERR_NOT_INIT_E, s)
      else if FW_UPGRADE_MAX_FWD \<le> fwd then (FW_UPGRADE_ERR_INVALID_PARAM_E, s)
      else (case fl_erase (ucast fwd) 1 s of (st, s') \<Rightarrow>
              (if st \<noteq> FLASH_DEVICE_DONE then FW_UPGRADE_ERROR_E else FW_UPGRADE_OK_E, s')))"

text \<open>Offset and size of a descriptor field.\<close>

fun fwd_field :: "fw_upgrade_fwd_info \<Rightarrow> u32 \<times> u32" where
  "fwd_field FW_UPGRADE_FWD_MAGIC_E = (0, 4)"
| "fwd_field FW_UPGRADE_FWD_VERSION_E = (4, 4)"
| "fwd_field FW_UPGRADE_FWD_RANK_E = (8, 4)"
| "fwd_field FW_UPGRADE_FWD_STATUS_E = (12, 1)"
| "fwd_field FW_UPGRADE_FWD_TOTAL_IMAGE_E = (13, 1)"

definition fwd_base :: "u8 \<Rightarrow> fu \<Rightarrow> u32" where
  "fwd_base fwd s = mem_start (mem_params s) + fwd_region_size (mem_params s) * ucast fwd"

definition fw_upgrade_set_fwd_info :: "u8 \<Rightarrow> fw_upgrade_fwd_info \<Rightarrow> u8 list \<Rightarrow> fu \<Rightarrow> fw_upgrade_status_code \<times> fu" where
  "fw_upgrade_set_fwd_info fwd info value s =
     (if fw_upgrade_validation s \<noteq> FW_UPGRADE_OK_E then (FW_UPGRADE_ERR_NOT_INIT_E, s)
      else if FW_UPGRADE_MAX_FWD \<le> fwd then (FW_UPGRADE_ERR_INVALID_PARAM_E, s)
      else (case fwd_field info of (off, byte_cnt) \<Rightarrow>
             (case fl_write (fwd_base fwd s + off) byte_cnt value s of (st, s') \<Rightarrow>
               (if st \<noteq> FLASH_DEVICE_DONE then FW_UPGRADE_ERROR_E else FW_UPGRADE_OK_E, s'))))"

definition fw_upgrade_get_fwd_info :: "u8 \<Rightarrow> fw_upgrade_fwd_info \<Rightarrow> fu \<Rightarrow> (fw_upgrade_status_code \<times> u8 list) \<times> fu" where
  "fw_upgrade_get_fwd_info fwd info s =
     (if fw_upgrade_validation s \<noteq> FW_UPGRADE_OK_E then ((FW_UPGRADE_ERR_NOT_INIT_E, []), s)
      else if FW_UPGRADE_MAX_FWD \<le> fwd then ((FW_UPGRADE_ERR_INVALID_PARAM_E, []), s)
      else (case fwd_field info of (off, byte_cnt) \<Rightarrow>
             (case fl_read (fwd_base fwd s + off) byte_cnt s of ((st, bs), s') \<Rightarrow>
               if st \<noteq> FLASH_DEVICE_DONE then ((FW_UPGRADE_ERROR_E, []), s') else ((FW_UPGRADE_OK_E, bs), s'))))"

section \<open>Partitions\<close>

text \<open>The handle contents made from entry \<open>i\<close> of a descriptor: flash images are kept in blocks, the boot
  loader image (in RRAM) in bytes.\<close>

definition client_of_entry :: "u8 \<Rightarrow> nat \<Rightarrow> u32 \<Rightarrow> image_entry \<Rightarrow> fu \<Rightarrow> fu_partition_client" where
  "client_of_entry fwd i iid e s =
     (let scale = (\<lambda>x. if iid \<noteq> SBL_IMG_ID then x * block_size (mem_params s) else x) in
      \<lparr>ref_count = 1, fwd_idx = fwd, img_idx = of_nat i, img_id = iid, img_version = entry_version e,
       img_start = scale (start_block e), img_size = scale (total_blocks e)\<rparr>)"

definition fw_upgrade_create_partition ::
    "u8 \<Rightarrow> u32 \<Rightarrow> u32 \<Rightarrow> u32 \<Rightarrow> u32 \<Rightarrow> fu \<Rightarrow> (fw_upgrade_status_code \<times> fu_part_hdl) \<times> fu" where
  "fw_upgrade_create_partition fwd iid version start sz s =
     (let bsz = block_size (mem_params s) in
      if fw_upgrade_validation s \<noteq> FW_UPGRADE_OK_E then ((FW_UPGRADE_ERR_NOT_INIT_E, None), s)
      else if FW_UPGRADE_MAX_FWD \<le> fwd then ((FW_UPGRADE_ERR_INVALID_PARAM_E, None), s)
      else if iid \<noteq> SBL_IMG_ID \<and> (start mod bsz \<noteq> 0 \<or> sz mod bsz \<noteq> 0)
      then ((FW_UPGRADE_ERR_INVALID_PARAM_E, None), s)
      else (case fw_upgrade_get_partition_client_entry s of
        None \<Rightarrow> ((FW_UPGRADE_ERROR_E, None), s)
      | Some h \<Rightarrow>
          (case fl_read (fwd_base fwd s) 512 s of ((st, bs), s1) \<Rightarrow>
           if st \<noteq> FLASH_DEVICE_DONE then ((FW_UPGRADE_ERROR_E, None), s1)
           else (case find_idx (\<lambda>i. image_id (fwd_entry bs i) = FW_UPGRADE_FWD_IMAGE_UNUSED)
                        [0 ..< MAX_FW_IMAGE_ENTRIES] of
             None \<Rightarrow> ((FW_UPGRADE_ERROR_E, None), s1)
           | Some i \<Rightarrow>
               (let e = (if iid \<noteq> SBL_IMG_ID
                         then \<lparr>image_id = iid, start_block = start div bsz, total_blocks = sz div bsz, entry_version = version\<rparr>
                         else \<lparr>image_id = iid, start_block = start, total_blocks = sz, entry_version = version\<rparr>) in
                case fl_write (fwd_base fwd s + 32 + of_nat i * 16) 16 (enc_entry e) s1 of (st2, s2) \<Rightarrow>
                if st2 \<noteq> FLASH_DEVICE_DONE then ((FW_UPGRADE_ERROR_E, None), s2)
                else ((FW_UPGRADE_OK_E, Some h),
                      set_client h \<lparr>ref_count = 1, fwd_idx = fwd, img_idx = of_nat i, img_id = iid,
                        img_version = version, img_start = start, img_size = sz\<rparr> s2))))))"

definition fw_upgrade_first_partition :: "u8 \<Rightarrow> fu \<Rightarrow> (fw_upgrade_status_code \<times> fu_part_hdl) \<times> fu" where
  "fw_upgrade_first_partition fwd s =
     (if fw_upgrade_validation s \<noteq> FW_UPGRADE_OK_E then ((FW_UPGRADE_ERR_NOT_INIT_E, None), s)
      else if FW_UPGRADE_MAX_FWD \<le> fwd then ((FW_UPGRADE_ERR_INVALID_PARAM_E, None), s)
      else (case fw_upgrade_get_partition_client_entry s of
        None \<Rightarrow> ((FW_UPGRADE_ERROR_E, None), s)
      | Some h \<Rightarrow>
          (case fl_read (fwd_base fwd s) 512 s of ((st, bs), s1) \<Rightarrow>
           if st \<noteq> FLASH_DEVICE_DONE then ((FW_UPGRADE_ERROR_E, None), s1)
           else if fwd_total_images bs = 0 then ((FW_UPGRADE_ERROR_E, None), s1)
           else ((FW_UPGRADE_OK_E, Some h),
                 set_client h (client_of_entry fwd 0 (image_id (fwd_entry bs 0)) (fwd_entry bs 0) s1) s1))))"

definition fw_upgrade_next_partition :: "fu_part_hdl \<Rightarrow> fu \<Rightarrow> (fw_upgrade_status_code \<times> fu_part_hdl) \<times> fu" where
  "fw_upgrade_next_partition cur_hdl s =
     (if fw_upgrade_validation s \<noteq> FW_UPGRADE_OK_E then ((FW_UPGRADE_ERR_NOT_INIT_E, None), s)
      else if fw_upgrade_partition_handle_validation cur_hdl s \<noteq> FW_UPGRADE_OK_E
      then ((FW_UPGRADE_ERR_INVALID_PARAM_E, None), s)
      else (case fw_upgrade_get_partition_client_entry s of
        None \<Rightarrow> ((FW_UPGRADE_ERR_GET_PARTITION_NULL_E, None), s)
      | Some h \<Rightarrow>
          (let c = client s (the cur_hdl); idx = unat (img_idx c) + 1 in
           case fl_read (fwd_base (fwd_idx c) s) 512 s of ((st, bs), s1) \<Rightarrow>
           if st \<noteq> FLASH_DEVICE_DONE then ((FW_UPGRADE_ERR_FLASH_READ_FAIL_E, None), s1)
           else if MAX_FW_IMAGE_ENTRIES \<le> idx then ((FW_UPGRADE_ERR_REACH_MAX_IMAGE_ENTRY_E, None), s1)
           else if image_id (fwd_entry bs idx) = FW_UPGRADE_FWD_IMAGE_UNUSED
           then ((FW_UPGRADE_ERR_IMAGE_UNUSED_E, None), s1)
           else ((FW_UPGRADE_OK_E, Some h),
                 set_client h (client_of_entry (fwd_idx c) idx (image_id (fwd_entry bs idx)) (fwd_entry bs idx) s1) s1))))"

definition fw_upgrade_find_partition :: "u8 \<Rightarrow> u32 \<Rightarrow> fu \<Rightarrow> (fw_upgrade_status_code \<times> fu_part_hdl) \<times> fu" where
  "fw_upgrade_find_partition fwd iid s =
     (if fw_upgrade_validation s \<noteq> FW_UPGRADE_OK_E then ((FW_UPGRADE_ERR_NOT_INIT_E, None), s)
      else if FW_UPGRADE_MAX_FWD \<le> fwd then ((FW_UPGRADE_ERR_REACH_MAX_IMAGE_ENTRY_E, None), s)
      else (case fw_upgrade_get_partition_client_entry s of
        None \<Rightarrow> ((FW_UPGRADE_ERR_GET_PARTITION_NULL_E, None), s)
      | Some h \<Rightarrow>
          (case fl_read (fwd_base fwd s) 512 s of ((st, bs), s1) \<Rightarrow>
           if st \<noteq> FLASH_DEVICE_DONE then ((FW_UPGRADE_ERR_FLASH_READ_FAIL_E, None), s1)
           else (case find_idx (\<lambda>i. image_id (fwd_entry bs i) = iid) [0 ..< MAX_FW_IMAGE_ENTRIES] of
             None \<Rightarrow> ((FW_UPGRADE_ERR_REACH_MAX_IMAGE_ENTRY_E, None), s1)
           | Some i \<Rightarrow> ((FW_UPGRADE_OK_E, Some h), set_client h (client_of_entry fwd i iid (fwd_entry bs i) s1) s1)))))"

text \<open>Flash address of field \<open>off\<close> of the handle's entry.\<close>

definition entry_addr :: "fu_partition_client \<Rightarrow> u32 \<Rightarrow> fu \<Rightarrow> u32" where
  "entry_addr c off s = (fwd_base (fwd_idx c) s + 32) + (ucast (img_idx c) * 16 + off)"

definition fw_upgrade_set_image_id :: "fu_part_hdl \<Rightarrow> u32 \<Rightarrow> fu \<Rightarrow> fw_upgrade_status_code \<times> fu" where
  "fw_upgrade_set_image_id hdl new_id s =
     (if fw_upgrade_validation s \<noteq> FW_UPGRADE_OK_E then (FW_UPGRADE_ERR_NOT_INIT_E, s)
      else if fw_upgrade_partition_handle_validation hdl s \<noteq> FW_UPGRADE_OK_E then (FW_UPGRADE_ERR_INVALID_PARAM_E, s)
      else (let i = the hdl; c = client s i in
            if FW_UPGRADE_MAX_FWD \<le> fwd_idx c then (FW_UPGRADE_ERR_INVALID_PARAM_E, s)
            else (case fl_write (entry_addr c 0 s) 4 (enc32 new_id) s of (st, s1) \<Rightarrow>
                  if st \<noteq> FLASH_DEVICE_DONE then (FW_UPGRADE_ERROR_E, s1)
                  else (FW_UPGRADE_OK_E, set_client i (c\<lparr>img_id := new_id\<rparr>) s1))))"

definition fw_upgrade_set_image_version :: "fu_part_hdl \<Rightarrow> u32 \<Rightarrow> fu \<Rightarrow> fw_upgrade_status_code \<times> fu" where
  "fw_upgrade_set_image_version hdl version s =
     (if fw_upgrade_validation s \<noteq> FW_UPGRADE_OK_E then (FW_UPGRADE_ERR_NOT_INIT_E, s)
      else if fw_upgrade_partition_handle_validation hdl s \<noteq> FW_UPGRADE_OK_E then (FW_UPGRADE_ERR_INVALID_PARAM_E, s)
      else (let i = the hdl; c = client s i in
            if FW_UPGRADE_MAX_FWD \<le> fwd_idx c then (FW_UPGRADE_ERR_INVALID_PARAM_E, s)
            else (case fl_write (entry_addr c 12 s) 4 (enc32 version) s of (st, s1) \<Rightarrow>
                  if st \<noteq> FLASH_DEVICE_DONE then (FW_UPGRADE_ERROR_E, s1)
                  else (FW_UPGRADE_OK_E, set_client i (c\<lparr>img_version := version\<rparr>) s1))))"

text \<open>The only size accepted is 0, which disables the partition; the image id is compared in 8 bits.\<close>

definition fw_upgrade_set_image_size :: "fu_part_hdl \<Rightarrow> u32 \<Rightarrow> fu \<Rightarrow> fw_upgrade_status_code \<times> fu" where
  "fw_upgrade_set_image_size hdl sz s =
     (if fw_upgrade_validation s \<noteq> FW_UPGRADE_OK_E then (FW_UPGRADE_ERR_NOT_INIT_E, s)
      else if sz \<noteq> 0 \<or> fw_upgrade_partition_handle_validation hdl s \<noteq> FW_UPGRADE_OK_E
      then (FW_UPGRADE_ERR_INVALID_PARAM_E, s)
      else (let i = the hdl; c = client s i; id8 = ucast (img_id c) :: u8 in
            if FW_UPGRADE_MAX_FWD \<le> fwd_idx c then (FW_UPGRADE_ERR_INVALID_PARAM_E, s)
            else if id8 = 10 \<or> id8 = 1 then (FW_UPGRADE_ERR_INVALID_PARAM_E, s)
            else (case fl_write (entry_addr c 8 s) 4 (enc32 sz) s of (st, s1) \<Rightarrow>
                  if st \<noteq> FLASH_DEVICE_DONE then (FW_UPGRADE_ERROR_E, s1)
                  else (FW_UPGRADE_OK_E, set_client i (c\<lparr>img_size := 0\<rparr>) s1))))"

definition fw_upgrade_erase_partition :: "fu_part_hdl \<Rightarrow> u32 \<Rightarrow> u32 \<Rightarrow> fu \<Rightarrow> fw_upgrade_status_code \<times> fu" where
  "fw_upgrade_erase_partition hdl off nbytes s =
     (if fw_upgrade_partition_handle_validation hdl s \<noteq> FW_UPGRADE_OK_E then (FW_UPGRADE_ERR_INVALID_PARAM_E, s)
      else (let h = client s (the hdl); bsz = block_size (mem_params s) in
            if img_id h = SBL_IMG_ID then (FW_UPGRADE_OK_E, s)
            else if nbytes = 0 \<or> nbytes mod bsz \<noteq> 0 \<or> off mod bsz \<noteq> 0 then (FW_UPGRADE_ERR_INVALID_PARAM_E, s)
            else if img_size h < off + nbytes then (FW_UPGRADE_ERR_INVALID_PARAM_E, s)
            else (case fl_erase ((img_start h + off) div bsz) (nbytes div bsz) s of (st, s1) \<Rightarrow>
                  (if st \<noteq> FLASH_DEVICE_DONE then FW_UPGRADE_ERROR_E else FW_UPGRADE_OK_E, s1))))"

text \<open>\<open>src\<close> is the address of the caller's buffer, whose alignment the RRAM driver looks at.\<close>

definition fw_upgrade_write_partition ::
    "fu_part_hdl \<Rightarrow> u32 \<Rightarrow> u32 \<Rightarrow> u8 list \<Rightarrow> u32 \<Rightarrow> fu \<Rightarrow> fw_upgrade_status_code \<times> fu" where
  "fw_upgrade_write_partition hdl off src buf nbytes s =
     (if fw_upgrade_mem_parameters_validation hdl off nbytes s \<noteq> FW_UPGRADE_OK_E then (FW_UPGRADE_ERR_INVALID_PARAM_E, s)
      else (let h = client s (the hdl); start_addr = img_start h + off in
            if img_id h = SBL_IMG_ID
            then (case nt_rram_write start_addr src buf nbytes (fu_rram s) of (st, r) \<Rightarrow>
                  (if st \<noteq> 0 then FW_UPGRADE_ERROR_E else FW_UPGRADE_OK_E, s\<lparr>fu_rram := r\<rparr>))
            else (case fl_write start_addr nbytes buf s of (st, s1) \<Rightarrow>
                  (if st \<noteq> FLASH_DEVICE_DONE then FW_UPGRADE_ERROR_E else FW_UPGRADE_OK_E, s1))))"

definition fw_upgrade_read_partition ::
    "fu_part_hdl \<Rightarrow> u32 \<Rightarrow> u32 \<Rightarrow> fu \<Rightarrow> (fw_upgrade_status_code \<times> u8 list \<times> u32) \<times> fu" where
  "fw_upgrade_read_partition hdl off max_bytes s =
     (if fw_upgrade_mem_parameters_validation hdl off max_bytes s \<noteq> FW_UPGRADE_OK_E
      then ((FW_UPGRADE_ERR_INVALID_PARAM_E, [], 0), s)
      else (let h = client s (the hdl); start_addr = img_start h + off in
            if img_id h = SBL_IMG_ID
            then (case nt_rram_read start_addr max_bytes (fu_rram s) of (st, bs) \<Rightarrow>
                  if st \<noteq> 0 then ((FW_UPGRADE_ERROR_E, [], 0), s) else ((FW_UPGRADE_OK_E, bs, max_bytes), s))
            else (case fl_read start_addr max_bytes s of ((st, bs), s1) \<Rightarrow>
                  if st \<noteq> FLASH_DEVICE_DONE then ((FW_UPGRADE_ERROR_E, [], 0), s1)
                  else ((FW_UPGRADE_OK_E, bs, max_bytes), s1))))"

section \<open>Active, current and trial descriptors\<close>

text \<open>
  The descriptor index, with the boot type and the valid-descriptor mask as far as they are stored; with
  \<open>want_type\<close> false \<open>fwd_boot_type\<close> is a null pointer and the rank is not looked at.
\<close>

definition fw_upgrade_get_active_fwd :: "bool \<Rightarrow> fu \<Rightarrow> u8 \<times> u32 option \<times> u32 option" where
  "fw_upgrade_get_active_fwd want_type s =
     (if fdt_bad s then (FW_UPGRADE_INVALID_FWD, None, None) else
      (case fdt_find (\<lambda>e. fde_id e = FDE_IMG_ID_APP) s of
         None \<Rightarrow> (FW_UPGRADE_INVALID_FWD, None, None)
       | Some i \<Rightarrow>
           (let e = fdt_fde s i;
                typ = (if fde_rank e = FDE_IMG_RANK_GOLDEN then Some FW_UPGRADE_FWD_BOOT_TYPE_GOLDEN
                       else if fde_rank e = FDE_IMG_RANK_CURRENT then Some FW_UPGRADE_FWD_BOOT_TYPE_CURRENT
                       else if fde_rank e = FDE_IMG_RANK_TRIAL then Some FW_UPGRADE_FWD_BOOT_TYPE_TRIAL else None) in
            if want_type \<and> typ = None then (FW_UPGRADE_INVALID_FWD, None, None)
            else (ucast (fde_addr e), if want_type then typ else None, Some (ucast (fde_reserve e ! 0))))))"

text \<open>Magic, rank, status and image count of descriptor \<open>i\<close>, read in this order; \<open>None\<close> when a read fails.\<close>

definition read_fwd_summary :: "u8 \<Rightarrow> fu \<Rightarrow> (u32 \<times> u32 \<times> u8 \<times> u8) option \<times> fu" where
  "read_fwd_summary i s =
     (case fw_upgrade_get_fwd_info i FW_UPGRADE_FWD_MAGIC_E s of ((r1, magic), s1) \<Rightarrow>
      if r1 \<noteq> FW_UPGRADE_OK_E then (None, s1) else
      (case fw_upgrade_get_fwd_info i FW_UPGRADE_FWD_RANK_E s1 of ((r2, rank), s2) \<Rightarrow>
      if r2 \<noteq> FW_UPGRADE_OK_E then (None, s2) else
      (case fw_upgrade_get_fwd_info i FW_UPGRADE_FWD_STATUS_E s2 of ((r3, status), s3) \<Rightarrow>
      if r3 \<noteq> FW_UPGRADE_OK_E then (None, s3) else
      (case fw_upgrade_get_fwd_info i FW_UPGRADE_FWD_TOTAL_IMAGE_E s3 of ((r4, images), s4) \<Rightarrow>
      if r4 \<noteq> FW_UPGRADE_OK_E then (None, s4)
      else (Some (le32 magic, le32 rank, status ! 0, images ! 0), s4)))))"

definition fwd_usable :: "u32 \<Rightarrow> u8 \<Rightarrow> u8 \<Rightarrow> bool" where
  "fwd_usable magic status image_nums \<longleftrightarrow>
     magic = FW_UPGRADE_MAGIC_V1 \<and> status = FW_UPGRADE_FWD_STATUS_VALID \<and> 0 < image_nums \<and> image_nums \<noteq> 0xFF"

fun current_scan :: "u8 list \<Rightarrow> fu \<Rightarrow> (fw_upgrade_status_code \<times> u8) \<times> fu" where
  "current_scan [] s = ((FW_UPGRADE_ERROR_E, FW_UPGRADE_FWD_STATUS_UNUSED), s)"
| "current_scan (i # is) s =
     (case read_fwd_summary i s of
        (None, s1) \<Rightarrow> ((FW_UPGRADE_ERROR_E, FW_UPGRADE_FWD_STATUS_UNUSED), s1)
      | (Some (magic, rank_l, status, image_nums), s1) \<Rightarrow>
          if fwd_usable magic status image_nums \<and> rank_l \<noteq> FW_UPGRADE_FWD_RANK_TRIAL \<and> 0 < rank_l
          then ((FW_UPGRADE_OK_E, i), s1)
          else current_scan is s1)"

definition fw_upgrade_get_current_index :: "fu \<Rightarrow> (fw_upgrade_status_code \<times> u8) \<times> fu" where
  "fw_upgrade_get_current_index s =
     (case fw_upgrade_init s of (st, s1) \<Rightarrow>
      if st \<noteq> FW_UPGRADE_OK_E then ((FW_UPGRADE_ERROR_E, FW_UPGRADE_FWD_STATUS_UNUSED), s1)
      else current_scan (map of_nat [0 ..< fwd_support_num s1]) s1)"

text \<open>The scan for the trial and the best-ranked other descriptor; the flag is false when a read failed.\<close>

fun trial_scan :: "u8 list \<Rightarrow> u8 \<times> u8 \<times> u32 \<Rightarrow> fu \<Rightarrow> (bool \<times> u8 \<times> u8 \<times> u32) \<times> fu" where
  "trial_scan [] acc s = ((True, acc), s)"
| "trial_scan (i # is) (trial, current, rank) s =
     (case read_fwd_summary i s of
        (None, s1) \<Rightarrow> ((False, trial, current, rank), s1)
      | (Some (magic, rank_l, status, image_nums), s1) \<Rightarrow>
          trial_scan is
            (if fwd_usable magic status image_nums
             then (if rank_l = FW_UPGRADE_FWD_RANK_TRIAL then (i, current, rank)
                   else if rank < rank_l then (trial, i, rank_l) else (trial, current, rank))
             else (trial, current, rank)) s1)"

definition fw_upgrade_get_trial_active_fwd_index :: "fu \<Rightarrow> (fw_upgrade_status_code \<times> u8 \<times> u8 \<times> u32) \<times> fu" where
  "fw_upgrade_get_trial_active_fwd_index s =
     (let fail = (\<lambda>s. ((FW_UPGRADE_ERROR_E, FW_UPGRADE_FWD_TRIAL_UNUSED, 0, 0), s));
          scan = (\<lambda>is rank s. case trial_scan is (FW_UPGRADE_FWD_TRIAL_UNUSED, 0, rank) s of
                    ((ok, trial, current, rank'), s') \<Rightarrow>
                      ((if ok \<and> trial \<noteq> FW_UPGRADE_FWD_TRIAL_UNUSED then FW_UPGRADE_OK_E else FW_UPGRADE_ERROR_E,
                        trial, current, rank'), s')) in
      case fw_upgrade_init s of (st, s1) \<Rightarrow>
      if st \<noteq> FW_UPGRADE_OK_E then fail s1
      else if fwd_support_num s1 = 1 then fail s1
      else if fwd_support_num s1 = 2 then scan [0, 1] 0 s1
      else (case fw_upgrade_get_fwd_info 0 FW_UPGRADE_FWD_RANK_E s1 of ((r0, bs), s2) \<Rightarrow>
            if r0 \<noteq> FW_UPGRADE_OK_E then fail s2 else scan [1, 2] (le32 bs) s2))"

text \<open>The end of the partitions that do not belong to an image set, in the order they are looked up, and at
  least the end of the descriptors.\<close>

fun end_of_partitions :: "u8 \<Rightarrow> u32 list \<Rightarrow> u32 \<Rightarrow> fu \<Rightarrow> u32 \<times> fu" where
  "end_of_partitions current [] hi s = (hi, s)"
| "end_of_partitions current (iid # ids) hi s =
     (case fw_upgrade_find_partition current iid s of
        ((st, Some h), s1) \<Rightarrow>
          (let past = img_start (client s1 h) + img_size (client s1 h) in
           end_of_partitions current ids (if hi < past then past else hi) (release h s1))
      | ((st, None), s1) \<Rightarrow> end_of_partitions current ids hi s1)"

definition fw_upgrade_get_first_programming_image_start_address :: "fu \<Rightarrow> u32 \<times> fu" where
  "fw_upgrade_get_first_programming_image_start_address s =
     (case fw_upgrade_get_active_fwd False s of (current, _, _) \<Rightarrow>
      (case end_of_partitions current [FS1_IMG_ID, FS2_IMG_ID, RAMDUMP_IMG_ID, USERDATA_IMG_ID] 0 s of (hi, s1) \<Rightarrow>
       (let past = 3 * fwd_region_size (mem_params s1) in (if hi < past then past else hi, s1))))"

text \<open>The loop over the following partitions ends because each step moves to a larger entry index.\<close>

lemma next_partition_ok:
  assumes "fw_upgrade_next_partition (Some h) s = ((st, Some h'), s')"
  shows "h' < length (partition_handles s')" "h' \<noteq> h" "length (partition_handles s') = length (partition_handles s)"
    "img_idx (client s' h') = of_nat (unat (img_idx (client s h)) + 1)" "unat (img_idx (client s h)) + 1 < 30"
    "client s' h = client s h" "h < length (partition_handles s)"
proof -
  note d = assms [unfolded fw_upgrade_next_partition_def Let_def]
  have v: "fw_upgrade_partition_handle_validation (Some h) s = FW_UPGRADE_OK_E"
    using d by (auto split: if_splits)
  obtain g where g: "fw_upgrade_get_partition_client_entry s = Some g"
    using d by (auto split: if_splits option.splits)
  obtain st1 bs s1 where r: "fl_read (fwd_base (fwd_idx (client s h)) s) 512 s = ((st1, bs), s1)"
    by (metis prod.collapse)
  let ?idx = "unat (img_idx (client s h)) + 1"
  have res: "g = h'" "?idx < 30"
    "s' = set_client g (client_of_entry (fwd_idx (client s h)) ?idx (image_id (fwd_entry bs ?idx)) (fwd_entry bs ?idx) s1) s1"
    using d v g r by (auto split: if_splits)
  have ph: "partition_handles s1 = partition_handles s"
    using r by (auto simp: fl_read_def split: prod.splits)
  have gl: "g < length (partition_handles s)" "ref_count (client s g) = 0"
    using g by (auto simp: fw_upgrade_get_partition_client_entry_def find_idx_Some)
  have hv: "h < length (partition_handles s)" "0 < ref_count (client s h)"
    using v by (auto simp: fw_upgrade_partition_handle_validation_def split: if_splits)
  show "h' \<noteq> h" using gl(2) hv(2) res(1) by auto
  then show "client s' h = client s h" using res ph by (simp add: set_client_def)
  show "h' < length (partition_handles s')" "length (partition_handles s') = length (partition_handles s)"
    using res ph gl by (simp_all add: set_client_def)
  show "img_idx (client s' h') = of_nat (unat (img_idx (client s h)) + 1)"
    using res ph gl by (simp add: set_client_def client_of_entry_def Let_def)
  show "unat (img_idx (client s h)) + 1 < 30" "h < length (partition_handles s)" using res hv by simp_all
qed

function end_addr_loop :: "nat \<Rightarrow> u32 \<Rightarrow> fu \<Rightarrow> u32 \<times> fu" where
  "end_addr_loop hdl endAddr s =
     (case fw_upgrade_next_partition (Some hdl) s of
        ((st, Some hdl'), s1) \<Rightarrow>
          (let s2 = release hdl s1; c = client s2 hdl'; rtnAddr = img_start c + img_size c in
           end_addr_loop hdl'
             (if img_id c \<noteq> SBL_IMG_ID \<and> endAddr < rtnAddr then rtnAddr else endAddr) s2)
      | ((st, None), s1) \<Rightarrow> (endAddr, release hdl s1))"
  by pat_completeness auto
termination
proof (relation "measure (\<lambda>(h, a, s). 30 - unat (img_idx (client s h)))")
  fix hdl endAddr s res s1 st ho hdl' s2 c rtnAddr
  assume e: "(res, s1) = fw_upgrade_next_partition (Some hdl) s" "(st, ho) = res" "ho = Some hdl'" "s2 = release hdl s1"
  have "fw_upgrade_next_partition (Some hdl) s = ((st, Some hdl'), s1)" using e(1-3) by simp
  note n = next_partition_ok [OF this]
  have "img_idx (client s2 hdl') = of_nat (unat (img_idx (client s hdl)) + 1)"
    using n e(4) by (simp add: release_def set_client_def)
  moreover have "unat (of_nat (unat (img_idx (client s hdl)) + 1) :: u8) = unat (img_idx (client s hdl)) + 1"
    using n(5) by (simp add: unat_of_nat del: of_nat_Suc of_nat_add)
  ultimately have "unat (img_idx (client s2 hdl')) = unat (img_idx (client s hdl)) + 1" by metis
  with n(5) show "((hdl', if img_id c \<noteq> SBL_IMG_ID \<and> endAddr < rtnAddr then rtnAddr else endAddr, s2), hdl, endAddr, s)
      \<in> measure (\<lambda>(h, a, s). 30 - unat (img_idx (client s h)))" by simp
qed simp

declare end_addr_loop.simps [simp del]

definition fw_upgrade_get_imageSet_end_addr :: "u8 \<Rightarrow> fu \<Rightarrow> (fw_upgrade_status_code \<times> u32) \<times> fu" where
  "fw_upgrade_get_imageSet_end_addr fwd s =
     (case fw_upgrade_get_fwd_info fwd FW_UPGRADE_FWD_MAGIC_E s of ((st, bs), s1) \<Rightarrow>
      let magic = (if st = FW_UPGRADE_OK_E then le32 bs else 0) in
      if magic \<noteq> FW_UPGRADE_MAGIC_V1 then ((FW_UPGRADE_ERROR_E, 0), s1)
      else (case fw_upgrade_first_partition fwd s1 of
              ((st1, None), s2) \<Rightarrow> ((FW_UPGRADE_ERROR_E, 0), s2)
            | ((st1, Some hdl), s2) \<Rightarrow>
                (let c = client s2 hdl in
                 case end_addr_loop hdl (if img_id c \<noteq> SBL_IMG_ID then img_start c + img_size c else 0) s2 of
                   (endAddr, s3) \<Rightarrow> ((FW_UPGRADE_OK_E, endAddr), s3))))"

definition fw_upgrade_reject_sbl_trial_fde :: "fu \<Rightarrow> fw_upgrade_status_code \<times> fu" where
  "fw_upgrade_reject_sbl_trial_fde s =
     (if fdt_bad s then (FW_UPGRADE_ERR_INVALID_FDT_E, s) else
      (case fdt_find (\<lambda>e. fde_id e = FDE_IMG_ID_SBL \<and> fde_rank e = FDE_IMG_RANK_TRIAL) s of
         None \<Rightarrow> (FW_UPGRADE_ERR_INVALID_FDT_E, s)
       | Some i \<Rightarrow>
           (case write_fde i ((fdt_fde s i)\<lparr>fde_rank := FDE_IMG_RANK_AGED, fde_state := FDE_IMG_STATE_INVALID\<rparr>) s of
              (ok, s1) \<Rightarrow> (if ok then FW_UPGRADE_OK_E else FW_UPGRADE_ERROR_E, s1))))"

text \<open>\<open>junk\<close> is the value of the uninitialised local \<open>fwd_boot_type\<close>, read when the table has no usable
  application entry.\<close>

definition fw_upgrade_accept_trial_fwd :: "u32 \<Rightarrow> fu \<Rightarrow> fw_upgrade_status_code \<times> fu" where
  "fw_upgrade_accept_trial_fwd junk s =
     (case fw_upgrade_get_trial_active_fwd_index s of ((ret, trial, current, rank), s1) \<Rightarrow>
      if ret \<noteq> FW_UPGRADE_OK_E then (ret, s1) else
      (case fw_upgrade_get_active_fwd True s1 of (_, typ, _) \<Rightarrow>
       let fwd_boot_type = (case typ of Some t \<Rightarrow> t | None \<Rightarrow> junk) in
       if fwd_boot_type \<noteq> FW_UPGRADE_FWD_BOOT_TYPE_TRIAL then (FW_UPGRADE_ERROR_E, s1) else
       (case fw_upgrade_set_fwd_info trial FW_UPGRADE_FWD_RANK_E (enc32 (rank + 1)) s1 of (ret1, s2) \<Rightarrow>
        if ret1 = FW_UPGRADE_OK_E \<and> (fwd_support_num s2 = 2 \<or> (fwd_support_num s2 = 3 \<and> current \<noteq> 0))
        then fw_upgrade_set_fwd_info current FW_UPGRADE_FWD_STATUS_E [FW_UPGRADE_FWD_STATUS_INVALID] s2
        else (ret1, s2))))"

definition fw_upgrade_reject_trial_fwd :: "fu \<Rightarrow> fw_upgrade_status_code \<times> fu" where
  "fw_upgrade_reject_trial_fwd s =
     (case fw_upgrade_get_trial_active_fwd_index s of ((ret, trial, current, rank), s1) \<Rightarrow>
      if ret \<noteq> FW_UPGRADE_OK_E then (ret, s1) else
      (case fw_upgrade_set_fwd_info trial FW_UPGRADE_FWD_STATUS_E [FW_UPGRADE_FWD_STATUS_INVALID] s1 of (ret1, s2) \<Rightarrow>
      if ret1 \<noteq> FW_UPGRADE_OK_E then (ret1, s2) else
      (case fw_upgrade_set_fwd_info trial FW_UPGRADE_FWD_RANK_E (enc32 1) s2 of (ret2, s3) \<Rightarrow>
      if ret2 \<noteq> FW_UPGRADE_OK_E then (ret2, s3) else
      (case fw_upgrade_find_partition trial SBL_IMG_ID s3 of ((ret3, _), s4) \<Rightarrow>
      if ret3 = FW_UPGRADE_OK_E then fw_upgrade_reject_sbl_trial_fde s4
      else if ret3 = FW_UPGRADE_ERR_REACH_MAX_IMAGE_ENTRY_E then (FW_UPGRADE_OK_E, s4)
      else (ret3, s4)))))"

definition fw_upgrade_select_trial_fwd :: "fu \<Rightarrow> (fw_upgrade_status_code \<times> (u8 \<times> u32 \<times> u32) option) \<times> fu" where
  "fw_upgrade_select_trial_fwd s =
     (let config = fwd_support_num s; p = mem_params s; bsz = block_size p in
      if config = 1 then ((FW_UPGRADE_ERROR_E, None), s) else
      (case fw_upgrade_get_first_programming_image_start_address s of (img_first, s1) \<Rightarrow>
      (case fw_upgrade_get_trial_active_fwd_index s1 of ((_, trial, current, rank), s2) \<Rightarrow>
       if config = 2 then
         (let fwd_index = (if current = 0 then 1 else 0) :: u8;
              blocks = (mem_size p - (img_first - mem_start p)) div bsz;
              sz = blocks div 2 * bsz;
              start_address = img_first + ucast fwd_index * sz in
          if fwd_index = 1 then
            (case fw_upgrade_get_imageSet_end_addr 0 s2 of ((st, end_addr), s3) \<Rightarrow>
             if st \<noteq> FW_UPGRADE_OK_E then ((FW_UPGRADE_ERROR_E, None), s3)
             else if start_address < end_addr
             then ((FW_UPGRADE_OK_E, Some (fwd_index, end_addr, sz - (end_addr - start_address))), s3)
             else ((FW_UPGRADE_OK_E, Some (fwd_index, start_address, sz)), s3))
          else ((FW_UPGRADE_OK_E, Some (fwd_index, start_address, sz)), s2))
       else
         (let fwd_index = (if current = 0 then 1 else if current = 1 then 2 else 1) :: u8 in
          case fw_upgrade_get_imageSet_end_addr 0 s2 of ((st, end_addr), s3) \<Rightarrow>
          if st \<noteq> FW_UPGRADE_OK_E then ((FW_UPGRADE_ERROR_E, None), s3)
          else (let blocks = (mem_size p - (end_addr - mem_start p)) div bsz;
                    sz = blocks div (of_nat config - 1) * bsz in
                ((FW_UPGRADE_OK_E, Some (fwd_index, end_addr + (ucast fwd_index - 1) * sz, sz)), s3))))))"

section \<open>Boot loader entries of the FDT\<close>

definition fw_upgrade_select_sbl_trial_fde :: "fu \<Rightarrow> fw_upgrade_status_code \<times> (u32 \<times> u32 \<times> u32) option" where
  "fw_upgrade_select_sbl_trial_fde s =
     (if fdt_bad s then (FW_UPGRADE_ERR_INVALID_FDT_E, None) else
      (case fdt_find (\<lambda>e. fde_id e = FDE_IMG_ID_SBL \<and> fde_rank e = FDE_IMG_RANK_AGED) s of
         None \<Rightarrow> (FW_UPGRADE_ERROR_E, None)
       | Some i \<Rightarrow> (FW_UPGRADE_OK_E, Some (of_nat i, fde_addr (fdt_fde s i), SBL_MEM_SIZE s))))"

definition fw_upgrade_set_sbl_trial_fde :: "u32 \<Rightarrow> u32 \<Rightarrow> fu \<Rightarrow> fw_upgrade_status_code \<times> fu" where
  "fw_upgrade_set_sbl_trial_fde sbl_trial_idx version s =
     (if fdt_bad s then (FW_UPGRADE_ERR_INVALID_FDT_E, s) else
      (let i = unat sbl_trial_idx; e = fdt_fde s i in
       if fdt_num_fde s \<le> sbl_trial_idx \<or> fde_id e \<noteq> FDE_IMG_ID_SBL \<or> fde_rank e \<noteq> FDE_IMG_RANK_AGED
       then (FW_UPGRADE_ERR_INVALID_PARAM_E, s)
       else (case write_fde i (e\<lparr>fde_rank := FDE_IMG_RANK_TRIAL, fde_state := FDE_IMG_STATE_NEW, fde_version := version\<rparr>) s of
               (ok, s1) \<Rightarrow> (if ok then FW_UPGRADE_OK_E else FW_UPGRADE_ERROR_E, s1))))"

text \<open>The early return gives the descriptor marker \<open>0xFF\<close> as a status: \<open>Inr\<close> is a raw number that is
  not a status code.\<close>

definition fw_upgrade_set_force_boot :: "u8 \<Rightarrow> fu \<Rightarrow> (fw_upgrade_status_code + u8) \<times> fu" where
  "fw_upgrade_set_force_boot force_boot_fwd s =
     (if fdt_bad s then (Inr FW_UPGRADE_INVALID_FWD, s) else
      (case fdt_find (\<lambda>e. fde_id e = FDE_IMG_ID_APP) s of
         None \<Rightarrow> (Inl FW_UPGRADE_ERR_INVALID_FDT_E, s)
       | Some i \<Rightarrow>
           (let e = fdt_fde s i in
            case write_fde i (e\<lparr>fde_reserve := (fde_reserve e)[1 := force_boot_fwd]\<rparr>) s of
              (ok, s1) \<Rightarrow> (Inl (if ok then FW_UPGRADE_OK_E else FW_UPGRADE_ERROR_E), s1))))"

end
