(* ===== verification/FwUpgrade.thy ===== *)
theory FwUpgrade
  imports FwUpgradeMem
begin

text \<open>
  The firmware-upgrade session (\<open>src/modules/fw_upgrade/fw_upgrade.c\<close>): the session context, the
  processing of the configuration file and of received images, the duplication of images and of the file
  system, the state machine that drives them, and the calls that start, finish, suspend, resume and cancel a
  session.

  The environment is a parameter \<open>fw_env\<close>: the transport plugin's callbacks, memory allocation, requests of
  other threads, SHA-256 (mbedtls), the contents of fresh heap blocks and the bytes found behind the end of
  the image header array. Its answers
  are indexed by the number of questions asked so far (\<open>s_n\<close>). The user callback and the results of the
  plugin's \<open>abort\<close> and \<open>fin\<close>, which the code ignores, are not modelled. A null pointer that the code
  dereferences sets \<open>s_fault\<close>; what the model computes after that has no meaning.
\<close>

section \<open>Types\<close>

datatype fw_upgrade_session_status =
    FW_UPGRADE_SESSION_NOT_START_E | FW_UPGRADE_SESSION_RUNNING_E | FW_UPGRADE_SESSION_SUSPEND_E
  | FW_UPGRADE_SESSION_CANCEL_E | FW_UPGRADE_SESSION_ERROR_E

datatype fw_upgrade_state =
    FW_UPGRADE_STATE_NOT_START_E | FW_UPGRADE_STATE_GET_TRIAL_INFO_E | FW_UPGRADE_STATE_ERASE_FWD_E
  | FW_UPGRADE_STATE_ERASE_FLASH_E | FW_UPGRADE_STATE_ERASE_SECOND_FS_E | FW_UPGRADE_STATE_PREPARE_FS_E
  | FW_UPGRADE_STATE_ERASE_IMAGE_E | FW_UPGRADE_STATE_PREPARE_CONNECT_E | FW_UPGRADE_STATE_CONNECT_SERVER_E
  | FW_UPGRADE_STATE_RESUME_SERVICE_E | FW_UPGRADE_STATE_RESUME_SERVER_E | FW_UPGRADE_STATE_RECEIVE_DATA_E
  | FW_UPGRADE_STATE_DISCONNECT_SERVER_E | FW_UPGRADE_STATE_PROCESS_CONFIG_FILE_E | FW_UPGRADE_STATE_PROCESS_IMAGE_E
  | FW_UPGRADE_STATE_DUPLICATE_IMAGES_E | FW_UPGRADE_STATE_DUPLICATE_FS_E | FW_UPGRADE_STATE_FINISH_E

text \<open>Return codes: a status of this module, or a non-zero code of the plugin.\<close>

type_synonym ret = "fw_upgrade_status_code + int"

abbreviation OK :: ret where "OK \<equiv> Inl FW_UPGRADE_OK_E"

definition plugin_ret :: "int \<Rightarrow> ret" where
  "plugin_ret v = (if v = 0 then OK else Inr v)"

record fw_upgrade_image_hdr =
  h_magic :: u32
  h_image_id :: u32
  h_version :: u32
  h_image_file :: "u8 list"
  h_disk_size :: u32
  h_image_length :: u32
  h_hash_type :: u32
  h_hash :: "u8 list"

datatype request = No_Request | Cancel_Request | Suspend_Request

record fw_env =
  plugin_init :: "nat \<Rightarrow> int"
  plugin_recv :: "nat \<Rightarrow> int \<times> u8 list"
  plugin_resume :: "nat \<Rightarrow> int"
  alloc :: "nat \<Rightarrow> bool"
  other_thread :: "nat \<Rightarrow> request"
  sha256 :: "u8 list \<Rightarrow> u8 list"
  behind_hdrs :: fw_upgrade_image_hdr
  heap_junk :: "u8 list"
  buf_addr :: u32
  no_fs :: bool

text \<open>The session context with the module's other globals, the receive buffer and the local \<open>ret\<close> and
  \<open>run\<close> of the session loop. \<open>digest_ctx\<close> is the data hashed so far, \<open>config_buf\<close> the part of the
  configuration file received so far; \<open>None\<close> is a null pointer.\<close>

record sess =
  error_code :: ret
  is_first :: bool
  buf_len :: u32
  buf_offset :: u32
  image_index :: u32
  image_wrt_count :: u32
  image_wrt_length :: u32
  total_images :: u32
  file_read_count :: u32
  hidden_images_count :: u32
  s_state :: fw_upgrade_state
  session_status :: fw_upgrade_session_status
  download_flag :: "bool list"
  url :: "char list"
  cfg_file :: "char list"
  interface_name :: "char list"
  flags :: u32
  format :: u32
  trial_mem_start :: u32
  trial_mem_size :: u32
  trial_fwd_idx :: u8
  trial_sbl_start :: u32
  trial_sbl_size :: u32
  trial_sbl_idx :: u32
  partition_hdl :: fu_part_hdl
  digest_ctx :: "u8 list option"
  config_buf :: "u8 list option"
  img_hdrs :: "fw_upgrade_image_hdr list option"
  s_buffer :: "u8 list"
  s_fu :: fu
  s_env :: fw_env
  s_n :: nat
  s_ret :: ret
  s_run :: bool
  s_fault :: bool

abbreviation (input) FW_UPGRADE_FORAMT_PARTIAL_UPGRADE :: u32 where "FW_UPGRADE_FORAMT_PARTIAL_UPGRADE \<equiv> 1"
abbreviation (input) FW_UPGRADE_MAX_IMAGES_NUM :: u8 where "FW_UPGRADE_MAX_IMAGES_NUM \<equiv> 30"
abbreviation (input) FW_UPGRADE_BUF_SIZE :: u32 where "FW_UPGRADE_BUF_SIZE \<equiv> 2048"
abbreviation (input) IMAGESET_HDR_SIZE :: nat where "IMAGESET_HDR_SIZE \<equiv> 17"
abbreviation (input) IMAGE_HDR_SIZE :: nat where "IMAGE_HDR_SIZE \<equiv> 184"
abbreviation (input) FW_UPGRADE_HASH_LEN :: nat where "FW_UPGRADE_HASH_LEN \<equiv> 32"
abbreviation (input) FW_UPGRADE_FLAG_AUTO_REBOOT :: nat where "FW_UPGRADE_FLAG_AUTO_REBOOT \<equiv> 0"
abbreviation (input) FW_UPGRADE_FLAG_DUPLICATE_ACTIVE_FS :: nat where "FW_UPGRADE_FLAG_DUPLICATE_ACTIVE_FS \<equiv> 1"

section \<open>Small helpers\<close>

definition set_state :: "fw_upgrade_state \<Rightarrow> sess \<Rightarrow> sess" where
  "set_state st \<sigma> = \<sigma>\<lparr>s_state := st\<rparr>"

text \<open>\<open>ret = r; run = 0\<close>.\<close>

definition halt :: "ret \<Rightarrow> sess \<Rightarrow> sess" where
  "halt r \<sigma> = \<sigma>\<lparr>s_ret := r, s_run := False\<rparr>"

definition ask :: "(fw_env \<Rightarrow> nat \<Rightarrow> 'a) \<Rightarrow> sess \<Rightarrow> 'a \<times> sess" where
  "ask f \<sigma> = (f (s_env \<sigma>) (s_n \<sigma>), \<sigma>\<lparr>s_n := Suc (s_n \<sigma>)\<rparr>)"

text \<open>Calls into the storage module.\<close>

definition on_fu :: "(fu \<Rightarrow> 'a \<times> fu) \<Rightarrow> sess \<Rightarrow> 'a \<times> sess" where
  "on_fu f \<sigma> = (case f (s_fu \<sigma>) of (x, s) \<Rightarrow> (x, \<sigma>\<lparr>s_fu := s\<rparr>))"

definition release_hdl :: "fu_part_hdl \<Rightarrow> sess \<Rightarrow> sess" where
  "release_hdl h \<sigma> = (case h of None \<Rightarrow> \<sigma> | Some i \<Rightarrow> \<sigma>\<lparr>s_fu := release i (s_fu \<sigma>)\<rparr>)"

text \<open>\<open>partition_hdl->ref_count = 0; partition_hdl = NULL\<close>.\<close>

definition close_partition :: "sess \<Rightarrow> sess" where
  "close_partition \<sigma> = (release_hdl (partition_hdl \<sigma>) \<sigma>)\<lparr>partition_hdl := None\<rparr>"

text \<open>A lookup or creation that stores the handle in \<open>partition_hdl\<close> when it succeeds.\<close>

definition open_partition :: "(fu \<Rightarrow> (fw_upgrade_status_code \<times> fu_part_hdl) \<times> fu) \<Rightarrow> sess \<Rightarrow> bool \<times> sess" where
  "open_partition f \<sigma> =
     (case on_fu f \<sigma> of ((st, h), \<sigma>') \<Rightarrow>
        if st = FW_UPGRADE_OK_E then (True, \<sigma>'\<lparr>partition_hdl := h\<rparr>) else (False, \<sigma>'))"

abbreviation cur_client :: "sess \<Rightarrow> fu_partition_client" where
  "cur_client \<sigma> \<equiv> client (s_fu \<sigma>) (the (partition_hdl \<sigma>))"

abbreviation active_fwd :: "sess \<Rightarrow> u8" where
  "active_fwd \<sigma> \<equiv> fst (fw_upgrade_get_active_fwd False (s_fu \<sigma>))"

abbreviation blk_size :: "sess \<Rightarrow> u32" where
  "blk_size \<sigma> \<equiv> block_size (mem_params (s_fu \<sigma>))"

text \<open>The digest: \<open>mbedtls_sha256_init\<close> with \<open>_starts\<close>, \<open>_update\<close> and \<open>_finish\<close>.\<close>

definition dig_start :: "sess \<Rightarrow> sess" where
  "dig_start \<sigma> = (case digest_ctx \<sigma> of None \<Rightarrow> \<sigma>\<lparr>s_fault := True\<rparr> | Some _ \<Rightarrow> \<sigma>\<lparr>digest_ctx := Some []\<rparr>)"

definition dig_update :: "u8 list \<Rightarrow> sess \<Rightarrow> sess" where
  "dig_update bs \<sigma> = (case digest_ctx \<sigma> of None \<Rightarrow> \<sigma>\<lparr>s_fault := True\<rparr> | Some d \<Rightarrow> \<sigma>\<lparr>digest_ctx := Some (d @ bs)\<rparr>)"

definition dig_finish :: "sess \<Rightarrow> u8 list" where
  "dig_finish \<sigma> = sha256 (s_env \<sigma>) (the (digest_ctx \<sigma>))"

text \<open>\<open>fw_upgrade_image_hdr[i]\<close>: a null array is a fault, an index past the end reads what is there.\<close>

definition hdr_at :: "nat \<Rightarrow> sess \<Rightarrow> fw_upgrade_image_hdr \<times> sess" where
  "hdr_at i \<sigma> = (case img_hdrs \<sigma> of
     None \<Rightarrow> (behind_hdrs (s_env \<sigma>), \<sigma>\<lparr>s_fault := True\<rparr>)
   | Some hs \<Rightarrow> (if i < length hs then hs ! i else behind_hdrs (s_env \<sigma>), \<sigma>))"

text \<open>The decoding of image header \<open>i\<close> of a configuration file.\<close>

definition dec_image_hdr :: "u8 list \<Rightarrow> nat \<Rightarrow> fw_upgrade_image_hdr" where
  "dec_image_hdr cb i =
     (let o1 = IMAGESET_HDR_SIZE + IMAGE_HDR_SIZE * i in
      \<lparr>h_magic = get32 cb o1, h_image_id = get32 cb (o1 + 4), h_version = get32 cb (o1 + 8),
       h_image_file = take 128 (drop (o1 + 12) cb), h_disk_size = get32 cb (o1 + 140),
       h_image_length = get32 cb (o1 + 144), h_hash_type = get32 cb (o1 + 148),
       h_hash = take FW_UPGRADE_HASH_LEN (drop (o1 + 152) cb)\<rparr>)"

section \<open>Configuration file\<close>

abbreviation hdr_num_images :: "u8 list \<Rightarrow> u8" where "hdr_num_images cb \<equiv> cb ! 16"
abbreviation hdr_magic :: "u8 list \<Rightarrow> u32" where "hdr_magic cb \<equiv> get32 cb 0"
abbreviation hdr_version :: "u8 list \<Rightarrow> u32" where "hdr_version cb \<equiv> get32 cb 4"
abbreviation hdr_format :: "u8 list \<Rightarrow> u32" where "hdr_format cb \<equiv> get32 cb 8"
abbreviation hdr_length :: "u8 list \<Rightarrow> u32" where "hdr_length cb \<equiv> get32 cb 12"

text \<open>Offset of the hash, which is the length of what it covers.\<close>

definition hash_offset :: "u8 list \<Rightarrow> nat" where
  "hash_offset cb = IMAGESET_HDR_SIZE + unat (hdr_num_images cb) * IMAGE_HDR_SIZE"

text \<open>Collecting the file over several packets. The second component says whether it is complete.\<close>

definition cfg_collect :: "u8 list \<Rightarrow> sess \<Rightarrow> (fw_upgrade_status_code \<times> bool) \<times> sess" where
  "cfg_collect buf \<sigma> =
     (case config_buf \<sigma> of
        None \<Rightarrow>
          if unat (buf_len \<sigma>) < IMAGESET_HDR_SIZE then ((FW_UPGRADE_ERR_INCORRECT_IMAGE_HDR_E, False), \<sigma>)
          else if \<not> (0 < hdr_num_images buf \<and> hdr_num_images buf \<le> FW_UPGRADE_MAX_IMAGES_NUM)
          then ((FW_UPGRADE_ERR_INCORRECT_IMAGE_HDR_E, False), \<sigma>)
          else if hdr_magic buf = 0 \<or> hdr_length buf = 0 \<or> hdr_format buf = 0
          then ((FW_UPGRADE_ERR_INCORRECT_IMAGE_HDR_E, False), \<sigma>)
          else
           (let \<sigma>1 = \<sigma>\<lparr>format := hdr_format buf\<rparr>; len = hdr_length buf in
            if len \<noteq> of_nat (hash_offset buf + FW_UPGRADE_HASH_LEN)
            then ((FW_UPGRADE_ERR_INCORRECT_IMAGE_HDR_E, False), \<sigma>1)
            else (case ask alloc \<sigma>1 of (ok, \<sigma>2) \<Rightarrow>
              if \<not> ok then ((FW_UPGRADE_ERR_INSUFFICIENT_MEMORY_E, False), \<sigma>2)
              else (let n = min (buf_len \<sigma>) len;
                        \<sigma>3 = \<sigma>2\<lparr>config_buf := Some (take (unat n) buf), buf_offset := n\<rparr> in
                    if buf_len \<sigma> < len
                    then ((FW_UPGRADE_OK_E, False),
                          set_state FW_UPGRADE_STATE_RECEIVE_DATA_E (\<sigma>3\<lparr>image_wrt_count := buf_len \<sigma>\<rparr>))
                    else ((FW_UPGRADE_OK_E, True), \<sigma>3))))
      | Some cb \<Rightarrow>
          (let n = min (buf_len \<sigma>) (hdr_length cb - image_wrt_count \<sigma>);
               \<sigma>1 = \<sigma>\<lparr>config_buf := Some (cb @ take (unat n) buf), image_wrt_count := image_wrt_count \<sigma> + n, buf_offset := n\<rparr> in
           if image_wrt_count \<sigma>1 < hdr_length cb
           then ((FW_UPGRADE_OK_E, False), set_state FW_UPGRADE_STATE_RECEIVE_DATA_E \<sigma>1)
           else ((FW_UPGRADE_OK_E, True), \<sigma>1)))"

text \<open>The hash of the complete file, then the descriptor fields of the trial.\<close>

definition cfg_hash_ok :: "u8 list \<Rightarrow> sess \<Rightarrow> bool \<times> sess" where
  "cfg_hash_ok cb \<sigma> =
     (let \<sigma>1 = dig_update (take (hash_offset cb) cb) (dig_start \<sigma>) in
      (take FW_UPGRADE_HASH_LEN (drop (hash_offset cb) cb) = dig_finish \<sigma>1, \<sigma>1))"

definition cfg_write_fwd :: "u8 list \<Rightarrow> sess \<Rightarrow> bool \<times> sess" where
  "cfg_write_fwd cb \<sigma> =
     (let t = trial_fwd_idx \<sigma> in
      case on_fu (fw_upgrade_set_fwd_info t FW_UPGRADE_FWD_MAGIC_E (enc32 (hdr_magic cb))) \<sigma> of (r1, \<sigma>1) \<Rightarrow>
      if r1 \<noteq> FW_UPGRADE_OK_E then (False, \<sigma>1) else
      (case on_fu (fw_upgrade_set_fwd_info t FW_UPGRADE_FWD_VERSION_E (enc32 (hdr_version cb))) \<sigma>1 of (r2, \<sigma>2) \<Rightarrow>
       if r2 \<noteq> FW_UPGRADE_OK_E then (False, \<sigma>2) else
       (case on_fu (fw_upgrade_set_fwd_info t FW_UPGRADE_FWD_TOTAL_IMAGE_E
                      [hdr_num_images cb + ucast (hidden_images_count \<sigma>2)]) \<sigma>2 of (r3, \<sigma>3) \<Rightarrow>
        (r3 = FW_UPGRADE_OK_E, \<sigma>3))))"

text \<open>
  The check of the image entries. The accumulator holds \<open>len\<close>, \<open>disk_size\<close>, whether a boot loader and an
  application image exist, and the boot loader's disk size. The disk sizes of flash images are rounded up to
  whole blocks, in 32 bits.
\<close>

definition round_disk :: "u32 \<Rightarrow> fw_upgrade_image_hdr \<Rightarrow> fw_upgrade_image_hdr" where
  "round_disk bsz h =
     (if h_image_id h = SBL_IMG_ID then h
      else (let d = (if h_disk_size h mod bsz \<noteq> 0 then h_disk_size h + bsz else h_disk_size h) in
            h\<lparr>h_disk_size := d div bsz * bsz\<rparr>))"

type_synonym cfg_acc = "u32 \<times> u32 \<times> bool \<times> bool \<times> u32"

definition acc_entry :: "fw_upgrade_image_hdr \<Rightarrow> cfg_acc \<Rightarrow> cfg_acc" where
  "acc_entry h acc = (case acc of (len, disk, sbl, app, sbl_disk) \<Rightarrow>
     (let iid = h_image_id h; counted = iid \<noteq> FS1_IMG_ID \<and> iid \<noteq> FS2_IMG_ID \<and> iid \<noteq> SBL_IMG_ID in
      (if counted then len + h_image_length h else len, if counted then disk + h_disk_size h else disk,
       sbl \<or> iid = SBL_IMG_ID, app \<or> iid = APP_IMG_ID, if iid = SBL_IMG_ID then h_disk_size h else sbl_disk)))"

fun cfg_entries :: "u32 \<Rightarrow> fw_upgrade_image_hdr list \<Rightarrow> cfg_acc \<Rightarrow> (fw_upgrade_image_hdr list \<times> cfg_acc) option" where
  "cfg_entries bsz [] acc = Some ([], acc)"
| "cfg_entries bsz (h # hs) acc =
     (if h_image_id h = 0 \<or> h_magic h = 0 \<or> h_hash_type h = 0 \<or> h_disk_size h = 0 \<or> h_disk_size h < h_image_length h
      then None
      else (let h' = round_disk bsz h in
            if h_image_id h' = SBL_IMG_ID \<and> h_disk_size h' < h_image_length h' then None
            else (case cfg_entries bsz hs (acc_entry h' acc) of
                    None \<Rightarrow> None
                  | Some (hs', acc') \<Rightarrow> Some (h' # hs', acc'))))"

text \<open>The limits on the sums and the boot loader entry of the FDT. The third component of the result is the
  trial entry's index, start and size.\<close>

definition cfg_limits :: "cfg_acc \<Rightarrow> sess \<Rightarrow> fw_upgrade_status_code + (u32 \<times> u32 \<times> u32)" where
  "cfg_limits acc \<sigma> = (case acc of (len, disk, sbl, app, sbl_disk) \<Rightarrow>
     if sbl \<and> \<not> app then Inl FW_UPGRADE_ERR_SBL_ONLY_NOT_SUPPORT_E
     else if trial_mem_size \<sigma> < disk then Inl FW_UPGRADE_ERR_FLASH_NOT_ENOUGH_SPACE_E
     else if disk < len then Inl FW_UPGRADE_ERR_INCORRECT_IMAGE_HDR_E
     else (case fw_upgrade_select_sbl_trial_fde (s_fu \<sigma>) of
             (_, None) \<Rightarrow> Inl FW_UPGRADE_ERR_SBL_NOT_SUPPORT_UPGRADE_E
           | (_, Some (idx, start, sz)) \<Rightarrow>
               if sz < sbl_disk then Inl FW_UPGRADE_ERR_SBL_NOT_ENOUGH_SPACE_E else Inr (idx, start, sz)))"

text \<open>Hashing a partition block by block; a failed read contributes nothing.\<close>

fun hash_blocks :: "fu_part_hdl \<Rightarrow> nat \<Rightarrow> u32 \<Rightarrow> sess \<Rightarrow> sess" where
  "hash_blocks hdl 0 off \<sigma> = \<sigma>"
| "hash_blocks hdl (Suc k) off \<sigma> =
     (case on_fu (fw_upgrade_read_partition hdl off (blk_size \<sigma>)) \<sigma> of ((st, bs, nbytes), \<sigma>1) \<Rightarrow>
        hash_blocks hdl k (off + blk_size \<sigma>) (dig_update (take (unat nbytes) bs) \<sigma>1))"

text \<open>Passes of a loop from 0 in steps of one block. A size within one block of \<open>2 ^ 32\<close>, where the source's offset
  would wrap and the loop not end, is outside the model; the devices are smaller.\<close>

definition blocks_of :: "u32 \<Rightarrow> u32 \<Rightarrow> nat" where
  "blocks_of disk bsz = (unat disk + unat bsz - 1) div unat bsz"

definition own_image :: "u32 \<Rightarrow> bool" where
  "own_image iid \<longleftrightarrow> iid \<noteq> FS1_IMG_ID \<and> iid \<noteq> FS2_IMG_ID \<and> iid \<noteq> SBL_IMG_ID"

fun cfg_flags :: "nat \<Rightarrow> fw_upgrade_image_hdr list \<Rightarrow> sess \<Rightarrow> sess" where
  "cfg_flags i [] \<sigma> = \<sigma>"
| "cfg_flags i (h # hs) \<sigma> =
     (let \<sigma>1 = \<sigma>\<lparr>download_flag := (download_flag \<sigma>)[i := True]\<rparr> in
      if \<not> own_image (h_image_id h) then cfg_flags (Suc i) hs \<sigma>1
      else (case on_fu (fw_upgrade_find_partition (active_fwd \<sigma>1) (h_image_id h)) \<sigma>1 of
              ((st, None), \<sigma>2) \<Rightarrow> cfg_flags (Suc i) hs \<sigma>2
            | ((st, Some p), \<sigma>2) \<Rightarrow>
                (let \<sigma>3 = hash_blocks (Some p) (blocks_of (img_size (client (s_fu \<sigma>2) p)) (blk_size \<sigma>2)) 0 (dig_start \<sigma>2);
                     \<sigma>4 = release_hdl (Some p) \<sigma>3 in
                 cfg_flags (Suc i) hs
                   (if h_hash h = dig_finish \<sigma>4 then \<sigma>4\<lparr>download_flag := (download_flag \<sigma>4)[i := False]\<rparr> else \<sigma>4))))"

text \<open>After a complete file has been checked: the image entries, the limits, and the two kinds of upgrade.\<close>

definition cfg_accept :: "u8 list \<Rightarrow> sess \<Rightarrow> fw_upgrade_status_code \<times> sess" where
  "cfg_accept cb \<sigma> =
     (let \<sigma>1 = \<sigma>\<lparr>total_images := ucast (hdr_num_images cb)\<rparr>;
          hs = map (dec_image_hdr cb) [0 ..< unat (hdr_num_images cb)] in
      case ask alloc \<sigma>1 of (ok, \<sigma>2) \<Rightarrow>
      if \<not> ok then (FW_UPGRADE_ERR_INSUFFICIENT_MEMORY_E, \<sigma>2\<lparr>img_hdrs := None\<rparr>) else
      (case cfg_entries (blk_size \<sigma>2) hs (0, 0, False, False, 0) of
         None \<Rightarrow> (FW_UPGRADE_ERR_INCORRECT_IMAGE_HDR_E, \<sigma>2\<lparr>img_hdrs := Some hs\<rparr>)
       | Some (hs', acc) \<Rightarrow>
           (let \<sigma>3 = \<sigma>2\<lparr>img_hdrs := Some hs'\<rparr> in
            case cfg_limits acc \<sigma>3 of
              Inl e \<Rightarrow> (e, \<sigma>3)
            | Inr (idx, start, sz) \<Rightarrow>
                (let \<sigma>4 = \<sigma>3\<lparr>trial_sbl_idx := idx, trial_sbl_start := start, trial_sbl_size := sz,
                          file_read_count := hdr_length cb, config_buf := None\<rparr> in
                 if format \<sigma>4 \<noteq> FW_UPGRADE_FORAMT_PARTIAL_UPGRADE
                 then (FW_UPGRADE_OK_E,
                       set_state (if buf_len \<sigma>4 \<le> buf_offset \<sigma>4 then FW_UPGRADE_STATE_RECEIVE_DATA_E
                                  else FW_UPGRADE_STATE_PROCESS_IMAGE_E) (\<sigma>4\<lparr>is_first := False\<rparr>))
                 else (case ask alloc \<sigma>4 of (ok', \<sigma>5) \<Rightarrow>
                   if \<not> ok' then (FW_UPGRADE_ERR_INSUFFICIENT_MEMORY_E, \<sigma>5)
                   else (FW_UPGRADE_OK_E,
                         set_state FW_UPGRADE_STATE_DISCONNECT_SERVER_E
                           ((cfg_flags 0 hs' \<sigma>5)\<lparr>is_first := False\<rparr>)))))))"

definition fw_upgrade_process_config_file :: "u8 list \<Rightarrow> sess \<Rightarrow> fw_upgrade_status_code \<times> sess" where
  "fw_upgrade_process_config_file buf \<sigma> =
     (let failed = (\<lambda>e \<sigma>. (e, \<sigma>\<lparr>config_buf := None\<rparr>)) in
      case cfg_collect buf \<sigma> of ((st, complete), \<sigma>1) \<Rightarrow>
      if st \<noteq> FW_UPGRADE_OK_E then failed st \<sigma>1
      else if \<not> complete then (st, \<sigma>1)
      else (let cb = the (config_buf \<sigma>1) in
        case cfg_hash_ok cb \<sigma>1 of (hash_ok, \<sigma>2) \<Rightarrow>
        if \<not> hash_ok then failed FW_UPGRADE_ERR_INCORRECT_IMAGE_CHECKSUM_E \<sigma>2
        else (case cfg_write_fwd cb \<sigma>2 of (ok, \<sigma>3) \<Rightarrow>
          if \<not> ok then failed FW_UPGRADE_ERR_FLASH_WRITE_FAIL_E \<sigma>3
          else (case cfg_accept cb \<sigma>3 of (st', \<sigma>4) \<Rightarrow>
                if st' \<noteq> FW_UPGRADE_OK_E then failed st' \<sigma>4 else (st', \<sigma>4)))))"

section \<open>Images\<close>

definition fw_upgrade_verify_image_hash :: "fw_upgrade_image_hdr \<Rightarrow> sess \<Rightarrow> fw_upgrade_status_code \<times> sess" where
  "fw_upgrade_verify_image_hash h \<sigma> =
     (let len = h_disk_size h - h_image_length h;
          pad = format \<sigma> = FW_UPGRADE_FORAMT_PARTIAL_UPGRADE \<and> 0 < len in
      case (if pad then ask alloc \<sigma> else (True, \<sigma>)) of (ok, \<sigma>1) \<Rightarrow>
      if \<not> ok then (FW_UPGRADE_ERR_INSUFFICIENT_MEMORY_E, \<sigma>1)
      else (let \<sigma>2 = (if pad then dig_update (replicate (unat len) 0xFF) \<sigma>1 else \<sigma>1) in
            (if h_hash h = dig_finish \<sigma>2 then FW_UPGRADE_OK_E else FW_UPGRADE_ERR_INCORRECT_IMAGE_CHECKSUM_E, \<sigma>2)))"

text \<open>How one pass through the receive loop goes on: out of the loop with a status, around again, or further
  down the body.\<close>

datatype flow = Break fw_upgrade_status_code | Continue | Go

text \<open>Closing the partition of a finished image and moving to the next one.\<close>

definition next_image :: "fw_upgrade_image_hdr \<Rightarrow> sess \<Rightarrow> sess" where
  "next_image h \<sigma> =
     (let \<sigma>1 = close_partition \<sigma>;
          \<sigma>2 = (if h_image_id h \<noteq> FS1_IMG_ID \<and> h_image_id h \<noteq> SBL_IMG_ID
                then \<sigma>1\<lparr>trial_mem_start := trial_mem_start \<sigma>1 + h_disk_size h\<rparr> else \<sigma>1) in
      \<sigma>2\<lparr>image_index := image_index \<sigma>2 + 1, image_wrt_length := 0\<rparr>)"

text \<open>Creating the partition of an image: the first file system goes where the active second one is, the boot
  loader to its RRAM slot, everything else to the next free trial address.\<close>

definition rcv_create :: "fw_upgrade_image_hdr \<Rightarrow> sess \<Rightarrow> flow \<times> sess" where
  "rcv_create h \<sigma> =
     (if h_image_id h = FS1_IMG_ID then
        (case open_partition (fw_upgrade_find_partition (active_fwd \<sigma>) FS2_IMG_ID) \<sigma> of (ok, \<sigma>1) \<Rightarrow>
         if \<not> ok then (Break FW_UPGRADE_ERR_FLASH_IMAGE_NOT_FOUND_E, \<sigma>1)
         else (let disk_size = img_size (cur_client \<sigma>1); disk_start = img_start (cur_client \<sigma>1); \<sigma>2 = close_partition \<sigma>1 in
               if disk_size < h_disk_size h then (Break FW_UPGRADE_ERR_INCORRECT_IMAGE_LENGTH_E, \<sigma>2)
               else (case open_partition (fw_upgrade_create_partition (trial_fwd_idx \<sigma>2) (h_image_id h) (h_version h)
                            disk_start disk_size) \<sigma>2 of (ok', \<sigma>3) \<Rightarrow>
                     (if ok' then Go else Break FW_UPGRADE_ERR_FLASH_CREATE_PARTITION_E, \<sigma>3))))
      else
        (let startAddr = (if h_image_id h = SBL_IMG_ID then trial_sbl_start \<sigma> else trial_mem_start \<sigma>) in
         case open_partition (fw_upgrade_create_partition (trial_fwd_idx \<sigma>) (h_image_id h) (h_version h)
                startAddr (h_disk_size h)) \<sigma> of (ok, \<sigma>1) \<Rightarrow>
         if \<not> ok then (Break FW_UPGRADE_ERR_FLASH_CREATE_PARTITION_E, \<sigma>1)
         else (case on_fu (fw_upgrade_erase_partition (partition_hdl \<sigma>1) 0 (blk_size \<sigma>1)) \<sigma>1 of (st, \<sigma>2) \<Rightarrow>
               (if st = FW_UPGRADE_OK_E then Go else Break FW_UPGRADE_ERR_FLASH_ERASE_PARTITION_E, \<sigma>2))))"

definition rcv_open :: "fw_upgrade_image_hdr \<Rightarrow> sess \<Rightarrow> flow \<times> sess" where
  "rcv_open h \<sigma> =
     (if image_wrt_length \<sigma> \<noteq> 0 then (Go, \<sigma>) else
      (case rcv_create h (\<sigma>\<lparr>image_wrt_count := 0, image_wrt_length := h_image_length h\<rparr>) of
         (Go, \<sigma>1) \<Rightarrow>
           if format \<sigma>1 \<noteq> FW_UPGRADE_FORAMT_PARTIAL_UPGRADE \<and> h_image_length h = 0
           then (let \<sigma>2 = next_image h \<sigma>1 in
                 if total_images \<sigma>2 \<le> image_index \<sigma>2
                 then (Break FW_UPGRADE_OK_E, set_state FW_UPGRADE_STATE_DUPLICATE_FS_E \<sigma>2)
                 else (Continue, \<sigma>2))
           else (Go, dig_start \<sigma>1)
       | res \<Rightarrow> res))"

text \<open>How many bytes of the buffer belong to this image; a packet that overshoots a partial image is an error.\<close>

definition rcv_len :: "sess \<Rightarrow> (u32 option) \<times> sess" where
  "rcv_len \<sigma> =
     (let left = image_wrt_length \<sigma> - image_wrt_count \<sigma> in
      if format \<sigma> = FW_UPGRADE_FORAMT_PARTIAL_UPGRADE
      then (if left < buf_len \<sigma> then (None, \<sigma>\<lparr>buf_offset := 0\<rparr>) else (Some (buf_len \<sigma>), \<sigma>\<lparr>buf_offset := 0\<rparr>))
      else (Some (min (buf_len \<sigma> - buf_offset \<sigma>) left), \<sigma>))"

text \<open>Hashing, erasing the blocks the data runs into, and writing it.\<close>

definition rcv_store :: "u32 \<Rightarrow> sess \<Rightarrow> flow \<times> sess" where
  "rcv_store write_len \<sigma> =
     (let data = take (unat write_len) (drop (unat (buf_offset \<sigma>)) (s_buffer \<sigma>));
          \<sigma>1 = dig_update data \<sigma>; bsz = blk_size \<sigma>1; cnt = image_wrt_count \<sigma>1;
          first_block = cnt div bsz + 1;
          last_block = (if (cnt + write_len) mod bsz \<noteq> 0 then (cnt + write_len) div bsz + 1 else (cnt + write_len) div bsz) in
      case (if cnt div bsz \<noteq> (cnt + write_len - 1) div bsz
            then on_fu (fw_upgrade_erase_partition (partition_hdl \<sigma>1) (first_block * bsz) ((last_block - first_block) * bsz)) \<sigma>1
            else (FW_UPGRADE_OK_E, \<sigma>1)) of (st, \<sigma>2) \<Rightarrow>
      if st \<noteq> FW_UPGRADE_OK_E then (Break FW_UPGRADE_ERR_FLASH_ERASE_PARTITION_E, \<sigma>2) else
      (case on_fu (fw_upgrade_write_partition (partition_hdl \<sigma>2) cnt (buf_addr (s_env \<sigma>2) + buf_offset \<sigma>2) data write_len) \<sigma>2 of
         (st', \<sigma>3) \<Rightarrow>
           if st' \<noteq> FW_UPGRADE_OK_E then (Break FW_UPGRADE_ERR_FLASH_WRITE_PARTITION_E, \<sigma>3)
           else (Go, \<sigma>3\<lparr>buf_offset := buf_offset \<sigma>3 + write_len, file_read_count := file_read_count \<sigma>3 + write_len,
                       image_wrt_count := image_wrt_count \<sigma>3 + write_len\<rparr>)))"

text \<open>When the image is complete its hash is verified before the session moves on.\<close>

definition rcv_finish :: "fw_upgrade_image_hdr \<Rightarrow> sess \<Rightarrow> flow \<times> sess" where
  "rcv_finish h \<sigma> =
     (if image_wrt_count \<sigma> < image_wrt_length \<sigma> then (Go, \<sigma>) else
      (case fw_upgrade_verify_image_hash h \<sigma> of (st, \<sigma>1) \<Rightarrow>
       if st \<noteq> FW_UPGRADE_OK_E then (Break st, \<sigma>1)
       else (let \<sigma>2 = next_image h \<sigma>1 in
             if format \<sigma>2 = FW_UPGRADE_FORAMT_PARTIAL_UPGRADE
             then (Go, set_state FW_UPGRADE_STATE_DISCONNECT_SERVER_E \<sigma>2)
             else if total_images \<sigma>2 \<le> image_index \<sigma>2
             then (Break FW_UPGRADE_OK_E, set_state FW_UPGRADE_STATE_DUPLICATE_FS_E \<sigma>2)
             else (Go, \<sigma>2))))"

definition rcv_erase_next :: "sess \<Rightarrow> flow \<times> sess" where
  "rcv_erase_next \<sigma> =
     (if image_wrt_count \<sigma> mod blk_size \<sigma> = 0 \<and> 0 < image_wrt_length \<sigma>
      then (case on_fu (fw_upgrade_erase_partition (partition_hdl \<sigma>) (image_wrt_count \<sigma>) (blk_size \<sigma>)) \<sigma> of (st, \<sigma>1) \<Rightarrow>
            (if st = FW_UPGRADE_OK_E then Go else Break FW_UPGRADE_ERR_FLASH_ERASE_PARTITION_E, \<sigma>1))
      else (Go, \<sigma>))"

text \<open>One pass through the loop body.\<close>

definition rcv_pass :: "sess \<Rightarrow> flow \<times> sess" where
  "rcv_pass \<sigma> =
     (if format \<sigma> \<noteq> FW_UPGRADE_FORAMT_PARTIAL_UPGRADE \<and> buf_len \<sigma> \<le> buf_offset \<sigma> then (Break FW_UPGRADE_OK_E, \<sigma>) else
      (case hdr_at (unat (image_index \<sigma>)) \<sigma> of (h, \<sigma>0) \<Rightarrow>
      (case rcv_open h \<sigma>0 of
         (Go, \<sigma>1) \<Rightarrow>
           (case rcv_len \<sigma>1 of
              (None, \<sigma>2) \<Rightarrow> (Break FW_UPGRADE_ERR_INCORRECT_IMAGE_LENGTH_E, \<sigma>2)
            | (Some write_len, \<sigma>2) \<Rightarrow>
                (case rcv_store write_len \<sigma>2 of
                   (Go, \<sigma>3) \<Rightarrow>
                     (case rcv_finish h \<sigma>3 of
                        (Go, \<sigma>4) \<Rightarrow>
                          (case rcv_erase_next \<sigma>4 of
                             (Go, \<sigma>5) \<Rightarrow>
                               (if format \<sigma>5 = FW_UPGRADE_FORAMT_PARTIAL_UPGRADE then Break FW_UPGRADE_OK_E else Continue, \<sigma>5)
                           | res \<Rightarrow> res)
                      | res \<Rightarrow> res)
                 | res \<Rightarrow> res))
       | res \<Rightarrow> res)))"

text \<open>The loop, with fuel; \<open>None\<close> when the fuel runs out. Every pass that goes around again consumes a byte of
  the packet or an image, so that the packet length plus the number of images is enough.\<close>

fun rcv_loop :: "nat \<Rightarrow> sess \<Rightarrow> (fw_upgrade_status_code \<times> sess) option" where
  "rcv_loop 0 \<sigma> = None"
| "rcv_loop (Suc fuel) \<sigma> =
     (case rcv_pass \<sigma> of
        (Break st, \<sigma>1) \<Rightarrow> Some (st, \<sigma>1)
      | (_, \<sigma>1) \<Rightarrow> rcv_loop fuel \<sigma>1)"

definition rcv_fuel :: "sess \<Rightarrow> nat" where
  "rcv_fuel \<sigma> = Suc (unat (buf_len \<sigma> - buf_offset \<sigma>) + unat (total_images \<sigma>))"

definition fw_upgrade_process_receive_image :: "sess \<Rightarrow> (fw_upgrade_status_code \<times> sess) option" where
  "fw_upgrade_process_receive_image \<sigma> = rcv_loop (rcv_fuel \<sigma>) \<sigma>"

section \<open>Duplication\<close>

text \<open>Copying \<open>k\<close> blocks from one partition to another. With \<open>check_read\<close> a failed read ends the copy; without
  it the buffer keeps its previous contents.\<close>

fun copy_blocks :: "bool \<Rightarrow> fu_part_hdl \<Rightarrow> fu_part_hdl \<Rightarrow> nat \<Rightarrow> u32 \<Rightarrow> u8 list \<Rightarrow> sess \<Rightarrow> fw_upgrade_status_code \<times> sess" where
  "copy_blocks check_read from to 0 off buf \<sigma> = (FW_UPGRADE_OK_E, \<sigma>)"
| "copy_blocks check_read from to (Suc k) off buf \<sigma> =
     (let sz = blk_size \<sigma> in
      case on_fu (fw_upgrade_read_partition from off sz) \<sigma> of ((st, bs, nbytes), \<sigma>1) \<Rightarrow>
      if check_read \<and> st \<noteq> FW_UPGRADE_OK_E then (FW_UPGRADE_ERR_FLASH_READ_FAIL_E, \<sigma>1) else
      (let buf' = (if st = FW_UPGRADE_OK_E then bs else buf) in
       case on_fu (fw_upgrade_erase_partition to off sz) \<sigma>1 of (st2, \<sigma>2) \<Rightarrow>
       if st2 \<noteq> FW_UPGRADE_OK_E then (FW_UPGRADE_ERR_FLASH_ERASE_PARTITION_E, \<sigma>2) else
       (case on_fu (fw_upgrade_write_partition to off (buf_addr (s_env \<sigma>2)) buf' sz) \<sigma>2 of (st3, \<sigma>3) \<Rightarrow>
        if st3 \<noteq> FW_UPGRADE_OK_E then (FW_UPGRADE_ERR_FLASH_WRITE_PARTITION_E, \<sigma>3)
        else copy_blocks check_read from to k (off + sz) buf' \<sigma>3)))"

definition fw_upgrade_process_duplicate_fs :: "sess \<Rightarrow> fw_upgrade_status_code \<times> sess" where
  "fw_upgrade_process_duplicate_fs \<sigma> =
     (case ask alloc \<sigma> of (ok, \<sigma>0) \<Rightarrow>
      if \<not> ok then (FW_UPGRADE_ERR_INSUFFICIENT_MEMORY_E, \<sigma>0) else
      (case on_fu (fw_upgrade_find_partition (active_fwd \<sigma>0) FS1_IMG_ID) \<sigma>0 of
         ((_, None), \<sigma>1) \<Rightarrow> (FW_UPGRADE_ERR_FLASH_IMAGE_NOT_FOUND_E, \<sigma>1)
       | ((_, Some hdl1), \<sigma>1) \<Rightarrow>
           (case on_fu (fw_upgrade_find_partition (active_fwd \<sigma>1) FS2_IMG_ID) \<sigma>1 of
              ((_, None), \<sigma>2) \<Rightarrow> (FW_UPGRADE_ERR_FLASH_IMAGE_NOT_FOUND_E, release_hdl (Some hdl1) \<sigma>2)
            | ((_, Some hdl2), \<sigma>2) \<Rightarrow>
                (case copy_blocks True (Some hdl1) (Some hdl2) (blocks_of (img_size (client (s_fu \<sigma>2) hdl1)) (blk_size \<sigma>2)) 0
                         (heap_junk (s_env \<sigma>2)) \<sigma>2 of
                   (st, \<sigma>3) \<Rightarrow> (st, release_hdl (Some hdl2) (release_hdl (Some hdl1) \<sigma>3))))))"

text \<open>A failed copy of one image is remembered but does not end the loop over the images; a failed lookup or
  creation does.\<close>

fun dup_images :: "nat \<Rightarrow> fw_upgrade_image_hdr list \<Rightarrow> fw_upgrade_status_code \<Rightarrow> sess \<Rightarrow> fw_upgrade_status_code \<times> sess" where
  "dup_images i [] ret \<sigma> = (ret, \<sigma>)"
| "dup_images i (h # hs) ret \<sigma> =
     (if download_flag \<sigma> ! i \<or> \<not> own_image (h_image_id h) then dup_images (Suc i) hs ret \<sigma> else
      (case on_fu (fw_upgrade_find_partition (active_fwd \<sigma>) (h_image_id h)) \<sigma> of
         ((_, None), \<sigma>1) \<Rightarrow> (FW_UPGRADE_ERR_INCORRECT_IMAGE_HDR_E, \<sigma>1)
       | ((_, Some hdl), \<sigma>1) \<Rightarrow>
           (case open_partition (fw_upgrade_create_partition (trial_fwd_idx \<sigma>1) (h_image_id h) (h_version h)
                   (trial_mem_start \<sigma>1) (h_disk_size h)) \<sigma>1 of (ok, \<sigma>2) \<Rightarrow>
            if \<not> ok then (FW_UPGRADE_ERR_FLASH_CREATE_PARTITION_E, release_hdl (Some hdl) \<sigma>2) else
            (case copy_blocks False (Some hdl) (partition_hdl \<sigma>2) (blocks_of (h_disk_size h) (blk_size \<sigma>2)) 0
                     (heap_junk (s_env \<sigma>2)) \<sigma>2 of (st, \<sigma>3) \<Rightarrow>
             (let \<sigma>4 = close_partition (release_hdl (Some hdl) \<sigma>3) in
              dup_images (Suc i) hs (if st = FW_UPGRADE_OK_E then ret else st)
                (\<sigma>4\<lparr>trial_mem_start := trial_mem_start \<sigma>4 + h_disk_size h\<rparr>))))))"

definition fw_upgrade_process_duplicate_images :: "sess \<Rightarrow> fw_upgrade_status_code \<times> sess" where
  "fw_upgrade_process_duplicate_images \<sigma> =
     (case ask alloc \<sigma> of (ok, \<sigma>0) \<Rightarrow>
      if \<not> ok then (FW_UPGRADE_ERR_INSUFFICIENT_MEMORY_E, close_partition \<sigma>0)
      else (case img_hdrs \<sigma>0 of
              None \<Rightarrow> (FW_UPGRADE_OK_E, if total_images \<sigma>0 = 0 then close_partition \<sigma>0 else \<sigma>0\<lparr>s_fault := True\<rparr>)
            | Some hs \<Rightarrow>
                (case dup_images 0 (take (unat (total_images \<sigma>0)) hs) FW_UPGRADE_OK_E \<sigma>0 of
                   (st, \<sigma>1) \<Rightarrow> (st, close_partition \<sigma>1))))"

section \<open>The states of the session\<close>

definition st_not_start :: "sess \<Rightarrow> sess" where
  "st_not_start \<sigma> = set_state FW_UPGRADE_STATE_GET_TRIAL_INFO_E \<sigma>"

definition st_get_trial_info :: "sess \<Rightarrow> sess" where
  "st_get_trial_info \<sigma> =
     (case on_fu fw_upgrade_select_trial_fwd \<sigma> of
        ((st, None), \<sigma>1) \<Rightarrow> halt (Inl FW_UPGRADE_ERR_FLASH_NOT_SUPPORT_FW_UPGRADE_E) \<sigma>1
      | ((st, Some (idx, start, sz)), \<sigma>1) \<Rightarrow>
          (let \<sigma>2 = \<sigma>1\<lparr>trial_fwd_idx := idx, trial_mem_start := start, trial_mem_size := sz\<rparr> in
           if active_fwd \<sigma>2 = idx then halt (Inl FW_UPGRADE_ERR_TRIAL_IS_RUNNING_E) \<sigma>2
           else set_state FW_UPGRADE_STATE_ERASE_FWD_E \<sigma>2))"

definition st_erase_fwd :: "sess \<Rightarrow> sess" where
  "st_erase_fwd \<sigma> =
     (case on_fu (fw_upgrade_erase_fwd (trial_fwd_idx \<sigma>)) \<sigma> of (st, \<sigma>1) \<Rightarrow>
      if st \<noteq> FW_UPGRADE_OK_E then halt (Inl FW_UPGRADE_ERR_FLASH_ERASE_FAIL_E) \<sigma>1
      else set_state (if no_fs (s_env \<sigma>1) then FW_UPGRADE_STATE_PREPARE_FS_E else FW_UPGRADE_STATE_ERASE_SECOND_FS_E) \<sigma>1)"

definition st_erase_second_fs :: "sess \<Rightarrow> sess" where
  "st_erase_second_fs \<sigma> =
     (case open_partition (fw_upgrade_find_partition (active_fwd \<sigma>) FS2_IMG_ID) \<sigma> of (ok, \<sigma>1) \<Rightarrow>
      if \<not> ok then halt (Inl FW_UPGRADE_ERR_FLASH_IMAGE_NOT_FOUND_E) \<sigma>1 else
      (case on_fu (fw_upgrade_erase_partition (partition_hdl \<sigma>1) 0 (img_size (cur_client \<sigma>1))) \<sigma>1 of (st, \<sigma>2) \<Rightarrow>
       if st \<noteq> FW_UPGRADE_OK_E then halt (Inl FW_UPGRADE_ERR_FLASH_ERASE_PARTITION_E) \<sigma>2
       else set_state FW_UPGRADE_STATE_PREPARE_FS_E (close_partition \<sigma>2)))"

text \<open>Recreating in the trial descriptor a partition of the active one under the id \<open>new_id\<close>: the lookup, the
  reuse of its place, and the count of hidden images. Used for the file system, the ram dump and the user
  data.\<close>

definition carry_partition :: "u32 \<Rightarrow> fu_partition_client \<Rightarrow> sess \<Rightarrow> sess" where
  "carry_partition new_id c \<sigma> =
     (case open_partition (fw_upgrade_create_partition (trial_fwd_idx \<sigma>) new_id (img_version c) (img_start c) (img_size c)) \<sigma> of
        (ok, \<sigma>1) \<Rightarrow>
          if \<not> ok then halt (Inl FW_UPGRADE_ERR_FLASH_CREATE_PARTITION_E) \<sigma>1
          else close_partition (\<sigma>1\<lparr>hidden_images_count := hidden_images_count \<sigma>1 + 1\<rparr>))"

definition prep_fs :: "sess \<Rightarrow> sess" where
  "prep_fs \<sigma> =
     (if no_fs (s_env \<sigma>) then \<sigma> else
      (case open_partition (fw_upgrade_find_partition (active_fwd \<sigma>) FS1_IMG_ID) \<sigma> of (ok, \<sigma>1) \<Rightarrow>
       if \<not> ok then halt (Inl FW_UPGRADE_ERR_FLASH_IMAGE_NOT_FOUND_E) \<sigma>1
       else carry_partition FS2_IMG_ID (cur_client \<sigma>1) (close_partition \<sigma>1)))"

text \<open>A ram dump area that is not erased is erased first.\<close>

definition prep_ramdump :: "sess \<Rightarrow> sess" where
  "prep_ramdump \<sigma> =
     (case open_partition (fw_upgrade_find_partition (active_fwd \<sigma>) RAMDUMP_IMG_ID) \<sigma> of (ok, \<sigma>1) \<Rightarrow>
      if \<not> ok then \<sigma>1 else
      (let c = cur_client \<sigma>1 in
       case on_fu (fw_upgrade_read_partition (partition_hdl \<sigma>1) 0 4) \<sigma>1 of ((st, bs, nbytes), \<sigma>2) \<Rightarrow>
       if st \<noteq> FW_UPGRADE_OK_E \<or> nbytes \<noteq> 4 then halt (Inl FW_UPGRADE_ERR_FLASH_ERASE_PARTITION_E) \<sigma>2 else
       (case (if le32 bs \<noteq> 0xFFFFFFFF then on_fu (fw_upgrade_erase_partition (partition_hdl \<sigma>2) 0 (img_size c)) \<sigma>2
              else (FW_UPGRADE_OK_E, \<sigma>2)) of (st2, \<sigma>3) \<Rightarrow>
        if st2 \<noteq> FW_UPGRADE_OK_E then halt (Inl FW_UPGRADE_ERR_FLASH_ERASE_PARTITION_E) \<sigma>3
        else carry_partition RAMDUMP_IMG_ID c (close_partition \<sigma>3))))"

definition prep_userdata :: "sess \<Rightarrow> sess" where
  "prep_userdata \<sigma> =
     (case open_partition (fw_upgrade_find_partition (active_fwd \<sigma>) USERDATA_IMG_ID) \<sigma> of (ok, \<sigma>1) \<Rightarrow>
      if \<not> ok then \<sigma>1 else carry_partition USERDATA_IMG_ID (cur_client \<sigma>1) (close_partition \<sigma>1))"

definition st_prepare_fs :: "sess \<Rightarrow> sess" where
  "st_prepare_fs \<sigma> =
     (let \<sigma>1 = prep_fs \<sigma> in if \<not> s_run \<sigma>1 then \<sigma>1 else
      (let \<sigma>2 = prep_ramdump \<sigma>1 in if \<not> s_run \<sigma>2 then \<sigma>2 else
       (let \<sigma>3 = prep_userdata \<sigma>2 in if \<not> s_run \<sigma>3 then \<sigma>3
        else set_state FW_UPGRADE_STATE_PREPARE_CONNECT_E \<sigma>3)))"

text \<open>Skipping the images that need no download.\<close>

fun skip_images :: "nat \<Rightarrow> sess \<Rightarrow> sess" where
  "skip_images 0 \<sigma> = \<sigma>"
| "skip_images (Suc k) \<sigma> =
     (if image_index \<sigma> < total_images \<sigma> \<and> \<not> download_flag \<sigma> ! unat (image_index \<sigma>)
      then skip_images k (\<sigma>\<lparr>image_index := image_index \<sigma> + 1\<rparr>) else \<sigma>)"

definition st_prepare_connect :: "sess \<Rightarrow> sess" where
  "st_prepare_connect \<sigma> =
     (if is_first \<sigma> then set_state FW_UPGRADE_STATE_CONNECT_SERVER_E \<sigma> else
      (case hdr_at (unat (image_index (skip_images (unat (total_images \<sigma>)) \<sigma>))) (skip_images (unat (total_images \<sigma>)) \<sigma>) of (h, \<sigma>1) \<Rightarrow>
       if h_image_id h = FS1_IMG_ID \<and> h_image_length h = 0 then
         (case open_partition (fw_upgrade_find_partition (active_fwd \<sigma>1) FS2_IMG_ID) \<sigma>1 of (ok, \<sigma>2) \<Rightarrow>
          if \<not> ok then halt (Inl FW_UPGRADE_ERR_FLASH_IMAGE_NOT_FOUND_E) \<sigma>2 else
          (let disk_size = img_size (cur_client \<sigma>2); disk_start = img_start (cur_client \<sigma>2); \<sigma>3 = close_partition \<sigma>2 in
           if disk_size < h_disk_size h then halt (Inl FW_UPGRADE_ERR_INCORRECT_IMAGE_LENGTH_E) \<sigma>3 else
           (case open_partition (fw_upgrade_create_partition (trial_fwd_idx \<sigma>3) (h_image_id h) (h_version h) disk_start disk_size) \<sigma>3 of
              (ok', \<sigma>4) \<Rightarrow>
                if \<not> ok' then halt (Inl FW_UPGRADE_ERR_FLASH_CREATE_PARTITION_E) \<sigma>4
                else (let \<sigma>5 = close_partition \<sigma>4 in
                      set_state FW_UPGRADE_STATE_PREPARE_CONNECT_E (\<sigma>5\<lparr>image_index := image_index \<sigma>5 + 1\<rparr>)))))
       else if total_images \<sigma>1 \<le> image_index \<sigma>1 then set_state FW_UPGRADE_STATE_DUPLICATE_IMAGES_E \<sigma>1
       else set_state FW_UPGRADE_STATE_CONNECT_SERVER_E \<sigma>1))"

text \<open>
  The calls of the plugin. Building the URL reads the image header's file name as a C string: a name without
  a terminating zero in its 128 bytes is read past its end.
\<close>

definition url_of_image :: "sess \<Rightarrow> sess" where
  "url_of_image \<sigma> =
     (case hdr_at (unat (image_index \<sigma>)) \<sigma> of (h, \<sigma>1) \<Rightarrow>
      if 0 \<in> set (h_image_file h) then \<sigma>1 else \<sigma>1\<lparr>s_fault := True\<rparr>)"

definition fw_upgrade_plugin_init :: "sess \<Rightarrow> ret \<times> sess" where
  "fw_upgrade_plugin_init \<sigma> =
     (case ask alloc (\<sigma>\<lparr>file_read_count := 0\<rparr>) of (ok, \<sigma>1) \<Rightarrow>
      if \<not> ok then (Inl FW_UPGRADE_ERR_INSUFFICIENT_MEMORY_E, \<sigma>1)
      else (case ask plugin_init (if is_first \<sigma>1 then \<sigma>1 else url_of_image \<sigma>1) of (v, \<sigma>2) \<Rightarrow> (plugin_ret v, \<sigma>2)))"

definition fw_upgrade_plugin_resume :: "sess \<Rightarrow> ret \<times> sess" where
  "fw_upgrade_plugin_resume \<sigma> =
     (case ask alloc \<sigma> of (ok, \<sigma>1) \<Rightarrow>
      if \<not> ok then (Inl FW_UPGRADE_ERR_INSUFFICIENT_MEMORY_E, \<sigma>1)
      else (case ask plugin_resume
                   (if format \<sigma>1 \<noteq> FW_UPGRADE_FORAMT_PARTIAL_UPGRADE \<or> is_first \<sigma>1 then \<sigma>1 else url_of_image \<sigma>1) of
              (v, \<sigma>2) \<Rightarrow> (plugin_ret v, \<sigma>2)))"

definition st_connect_server :: "sess \<Rightarrow> sess" where
  "st_connect_server \<sigma> =
     (case fw_upgrade_plugin_init \<sigma> of (r, \<sigma>1) \<Rightarrow>
      if r \<noteq> OK then halt r \<sigma>1 else set_state FW_UPGRADE_STATE_RECEIVE_DATA_E \<sigma>1)"

text \<open>Rehashing the part of the image already written, at most \<open>FW_UPGRADE_BUF_SIZE\<close> bytes at a time. The
  result says whether a read failed.\<close>

fun rehash :: "nat \<Rightarrow> u32 \<Rightarrow> sess \<Rightarrow> bool \<times> sess" where
  "rehash 0 off \<sigma> = (True, \<sigma>)"
| "rehash (Suc k) off \<sigma> =
     (if image_wrt_count \<sigma> \<le> off then (True, \<sigma>) else
      (let len = (if FW_UPGRADE_BUF_SIZE < image_wrt_count \<sigma> - off then FW_UPGRADE_BUF_SIZE else image_wrt_count \<sigma> - off) in
       case on_fu (fw_upgrade_read_partition (partition_hdl \<sigma>) off len) \<sigma> of ((st, bs, nbytes), \<sigma>1) \<Rightarrow>
       if st \<noteq> FW_UPGRADE_OK_E then (False, \<sigma>1)
       else rehash k (off + nbytes) (dig_update (take (unat nbytes) bs) \<sigma>1)))"

text \<open>A failed read leaves the inner loop only: the state is still moved on.\<close>

definition st_resume_service :: "sess \<Rightarrow> sess" where
  "st_resume_service \<sigma> =
     (case hdr_at (unat (image_index \<sigma>)) \<sigma> of (h, \<sigma>1) \<Rightarrow>
     (case open_partition (fw_upgrade_find_partition (trial_fwd_idx \<sigma>1) (h_image_id h)) \<sigma>1 of (ok, \<sigma>2) \<Rightarrow>
      if \<not> ok then halt (Inl FW_UPGRADE_ERR_FLASH_IMAGE_NOT_FOUND_E) \<sigma>2 else
      (case ask alloc \<sigma>2 of (ok', \<sigma>3) \<Rightarrow>
       if \<not> ok' then halt (Inl FW_UPGRADE_ERR_INSUFFICIENT_MEMORY_E) (\<sigma>3\<lparr>digest_ctx := None\<rparr>) else
       (case rehash (Suc (unat (image_wrt_count \<sigma>3))) 0 (\<sigma>3\<lparr>digest_ctx := Some []\<rparr>) of (read_ok, \<sigma>4) \<Rightarrow>
        set_state FW_UPGRADE_STATE_RESUME_SERVER_E
          (if read_ok then \<sigma>4 else halt (Inl FW_UPGRADE_ERR_FLASH_READ_FAIL_E) \<sigma>4)))))"

definition st_resume_server :: "sess \<Rightarrow> sess" where
  "st_resume_server \<sigma> =
     (case fw_upgrade_plugin_resume \<sigma> of (r, \<sigma>1) \<Rightarrow>
      if r \<noteq> OK then halt r \<sigma>1 else set_state FW_UPGRADE_STATE_RECEIVE_DATA_E \<sigma>1)"

definition st_receive_data :: "sess \<Rightarrow> sess" where
  "st_receive_data \<sigma> =
     (case ask plugin_recv \<sigma> of ((v, bs), \<sigma>1) \<Rightarrow>
      (let \<sigma>2 = \<sigma>1\<lparr>s_buffer := bs @ drop (length bs) (s_buffer \<sigma>1), s_ret := plugin_ret v\<rparr>;
           received = of_nat (length bs) :: u32 in
       if plugin_ret v = OK \<and> 0 < received
       then set_state (if is_first \<sigma>2 then FW_UPGRADE_STATE_PROCESS_CONFIG_FILE_E else FW_UPGRADE_STATE_PROCESS_IMAGE_E)
              (\<sigma>2\<lparr>buf_len := received, buf_offset := 0\<rparr>)
       else \<sigma>2\<lparr>s_run := False\<rparr>))"

definition st_process_config_file :: "sess \<Rightarrow> sess" where
  "st_process_config_file \<sigma> =
     (case fw_upgrade_process_config_file (s_buffer \<sigma>) \<sigma> of (st, \<sigma>1) \<Rightarrow>
      if st \<noteq> FW_UPGRADE_OK_E then halt (Inl st) \<sigma>1 else \<sigma>1)"

definition st_process_image :: "sess \<Rightarrow> sess" where
  "st_process_image \<sigma> =
     (case fw_upgrade_process_receive_image \<sigma> of
        None \<Rightarrow> \<sigma>
      | Some (st, \<sigma>1) \<Rightarrow>
          if st \<noteq> FW_UPGRADE_OK_E then halt (Inl st) \<sigma>1
          else if s_state \<sigma>1 = FW_UPGRADE_STATE_PROCESS_IMAGE_E then set_state FW_UPGRADE_STATE_RECEIVE_DATA_E \<sigma>1
          else \<sigma>1)"

definition st_duplicate_images :: "sess \<Rightarrow> sess" where
  "st_duplicate_images \<sigma> =
     (case fw_upgrade_process_duplicate_images \<sigma> of (st, \<sigma>1) \<Rightarrow>
      if st \<noteq> FW_UPGRADE_OK_E then halt (Inl st) \<sigma>1 else set_state FW_UPGRADE_STATE_DUPLICATE_FS_E \<sigma>1)"

definition st_duplicate_fs :: "sess \<Rightarrow> sess" where
  "st_duplicate_fs \<sigma> =
     (case (if bit (flags \<sigma>) FW_UPGRADE_FLAG_DUPLICATE_ACTIVE_FS then fw_upgrade_process_duplicate_fs \<sigma>
            else (FW_UPGRADE_OK_E, \<sigma>)) of (st, \<sigma>1) \<Rightarrow>
      if st \<noteq> FW_UPGRADE_OK_E then halt (Inl st) \<sigma>1 else set_state FW_UPGRADE_STATE_FINISH_E \<sigma>1)"

section \<open>The session loop\<close>

text \<open>One iteration of the state machine. The two states without a case leave everything as it is.\<close>

definition session_step :: "sess \<Rightarrow> sess" where
  "session_step \<sigma> = (case s_state \<sigma> of
     FW_UPGRADE_STATE_NOT_START_E \<Rightarrow> st_not_start \<sigma>
   | FW_UPGRADE_STATE_GET_TRIAL_INFO_E \<Rightarrow> st_get_trial_info \<sigma>
   | FW_UPGRADE_STATE_ERASE_FWD_E \<Rightarrow> st_erase_fwd \<sigma>
   | FW_UPGRADE_STATE_ERASE_FLASH_E \<Rightarrow> \<sigma>
   | FW_UPGRADE_STATE_ERASE_SECOND_FS_E \<Rightarrow> st_erase_second_fs \<sigma>
   | FW_UPGRADE_STATE_PREPARE_FS_E \<Rightarrow> st_prepare_fs \<sigma>
   | FW_UPGRADE_STATE_ERASE_IMAGE_E \<Rightarrow> \<sigma>
   | FW_UPGRADE_STATE_PREPARE_CONNECT_E \<Rightarrow> st_prepare_connect \<sigma>
   | FW_UPGRADE_STATE_CONNECT_SERVER_E \<Rightarrow> st_connect_server \<sigma>
   | FW_UPGRADE_STATE_RESUME_SERVICE_E \<Rightarrow> st_resume_service \<sigma>
   | FW_UPGRADE_STATE_RESUME_SERVER_E \<Rightarrow> st_resume_server \<sigma>
   | FW_UPGRADE_STATE_RECEIVE_DATA_E \<Rightarrow> st_receive_data \<sigma>
   | FW_UPGRADE_STATE_DISCONNECT_SERVER_E \<Rightarrow> set_state FW_UPGRADE_STATE_PREPARE_CONNECT_E \<sigma>
   | FW_UPGRADE_STATE_PROCESS_CONFIG_FILE_E \<Rightarrow> st_process_config_file \<sigma>
   | FW_UPGRADE_STATE_PROCESS_IMAGE_E \<Rightarrow> st_process_image \<sigma>
   | FW_UPGRADE_STATE_DUPLICATE_IMAGES_E \<Rightarrow> st_duplicate_images \<sigma>
   | FW_UPGRADE_STATE_DUPLICATE_FS_E \<Rightarrow> st_duplicate_fs \<sigma>
   | FW_UPGRADE_STATE_FINISH_E \<Rightarrow> \<sigma>\<lparr>s_run := False\<rparr>)"

text \<open>Requests of other threads take effect between iterations (\<open>fw_upgrade_session_cancel\<close> and
  \<open>fw_upgrade_session_suspend\<close> set the status of a running session).\<close>

definition poll_request :: "sess \<Rightarrow> sess" where
  "poll_request \<sigma> =
     (case ask other_thread \<sigma> of (q, \<sigma>1) \<Rightarrow>
      if session_status \<sigma>1 \<noteq> FW_UPGRADE_SESSION_RUNNING_E then \<sigma>1
      else (case q of No_Request \<Rightarrow> \<sigma>1
            | Cancel_Request \<Rightarrow> \<sigma>1\<lparr>session_status := FW_UPGRADE_SESSION_CANCEL_E\<rparr>
            | Suspend_Request \<Rightarrow> \<sigma>1\<lparr>session_status := FW_UPGRADE_SESSION_SUSPEND_E\<rparr>))"

definition in_loop :: "sess \<Rightarrow> bool" where
  "in_loop \<sigma> \<longleftrightarrow> s_run \<sigma> \<and> session_status \<sigma> = FW_UPGRADE_SESSION_RUNNING_E \<and> \<not> s_fault \<sigma>"

fun session_loop :: "nat \<Rightarrow> sess \<Rightarrow> sess option" where
  "session_loop 0 \<sigma> = None"
| "session_loop (Suc fuel) \<sigma> =
     (let \<sigma>1 = poll_request \<sigma> in if in_loop \<sigma>1 then session_loop fuel (session_step \<sigma>1) else Some \<sigma>1)"

definition session_end :: "sess \<Rightarrow> sess" where
  "session_end \<sigma> =
     \<sigma>\<lparr>error_code := (if session_status \<sigma> = FW_UPGRADE_SESSION_CANCEL_E then Inl FW_UPGRADE_ERR_SESSION_CANCELLED_E
                     else s_ret \<sigma>)\<rparr>"

definition fw_upgrade_session_process :: "nat \<Rightarrow> sess \<Rightarrow> (ret \<times> sess) option" where
  "fw_upgrade_session_process fuel \<sigma> =
     (case ask alloc \<sigma> of (ok, \<sigma>1) \<Rightarrow>
      if \<not> ok then Some (Inl FW_UPGRADE_ERR_INSUFFICIENT_MEMORY_E, \<sigma>1)
      else map_option (\<lambda>\<sigma>'. (s_ret \<sigma>', session_end \<sigma>')) (session_loop fuel (\<sigma>1\<lparr>s_ret := OK, s_run := True\<rparr>)))"

section \<open>Starting and ending a session\<close>

text \<open>The globals outside a session: the storage module, the environment, the session context (a null pointer
  when no session exists), whether the mutex exists and whether the system has been reset.\<close>

record fw_glob =
  g_fu :: fu
  g_env :: fw_env
  g_n :: nat
  g_cxt :: "sess option"
  g_mutex :: bool
  g_reset :: bool

definition of_session :: "sess \<Rightarrow> fw_glob \<Rightarrow> fw_glob" where
  "of_session \<sigma> g = g\<lparr>g_fu := s_fu \<sigma>, g_n := s_n \<sigma>, g_cxt := Some \<sigma>\<rparr>"

text \<open>The storage module is shared: a session continues on its current state.\<close>

definition to_session :: "sess \<Rightarrow> fw_glob \<Rightarrow> sess" where
  "to_session \<sigma> g = \<sigma>\<lparr>s_fu := g_fu g, s_env := g_env g, s_n := g_n g\<rparr>"

definition fw_upgrade_session_fin :: "fw_glob \<Rightarrow> fw_upgrade_status_code \<times> fw_glob" where
  "fw_upgrade_session_fin g =
     (FW_UPGRADE_OK_E,
      (case g_cxt g of None \<Rightarrow> g
       | Some \<sigma> \<Rightarrow> g\<lparr>g_fu := s_fu (close_partition (to_session \<sigma> g)), g_cxt := None\<rparr>)\<lparr>g_mutex := False\<rparr>)"

definition fw_upgrade_session_prepare_suspend :: "sess \<Rightarrow> sess" where
  "fw_upgrade_session_prepare_suspend \<sigma> = (close_partition \<sigma>)\<lparr>digest_ctx := None\<rparr>"

text \<open>The context of a new session.\<close>

definition new_session :: "char list \<Rightarrow> char list \<Rightarrow> char list \<Rightarrow> u32 \<Rightarrow> fw_glob \<Rightarrow> sess" where
  "new_session iface u cfg fl g =
     \<lparr>error_code = OK, is_first = True, buf_len = 0, buf_offset = 0, image_index = 0, image_wrt_count = 0,
      image_wrt_length = 0, total_images = 0, file_read_count = 0, hidden_images_count = 0,
      s_state = FW_UPGRADE_STATE_NOT_START_E, session_status = FW_UPGRADE_SESSION_RUNNING_E,
      download_flag = replicate 30 True, url = u, cfg_file = cfg, interface_name = iface, flags = fl, format = 1,
      trial_mem_start = 0, trial_mem_size = 0, trial_fwd_idx = 0, trial_sbl_start = 0, trial_sbl_size = 0,
      trial_sbl_idx = 0, partition_hdl = None, digest_ctx = Some [], config_buf = None, img_hdrs = None,
      s_buffer = replicate 2048 0, s_fu = g_fu g, s_env = g_env g, s_n = g_n g, s_ret = OK, s_run = True, s_fault = False\<rparr>"

definition url_with_slash :: "char list \<Rightarrow> char list" where
  "url_with_slash u = (if u \<noteq> [] \<and> last u \<noteq> CHR 0x2F then u @ [CHR 0x2F] else u)"

text \<open>\<open>plugin_complete\<close>: none of the five plugin callbacks is null.\<close>

definition fw_upgrade_session_init ::
    "char list \<Rightarrow> bool \<Rightarrow> char list \<Rightarrow> char list \<Rightarrow> u32 \<Rightarrow> fw_glob \<Rightarrow> fw_upgrade_status_code \<times> fw_glob" where
  "fw_upgrade_session_init iface plugin_complete u cfg fl g =
     (let fail = (\<lambda>e g. (e, snd (fw_upgrade_session_fin g))) in
      case fw_upgrade_init (g_fu g) of (st, s1) \<Rightarrow>
      let g1 = g\<lparr>g_fu := s1\<rparr> in
      if st \<noteq> FW_UPGRADE_OK_E then fail FW_UPGRADE_ERR_FLASH_INIT_TIMEOUT_E g1 else
      (let g2 = g1\<lparr>g_mutex := True, g_n := Suc (g_n g1)\<rparr> in
       if \<not> alloc (g_env g1) (g_n g1) then fail FW_UPGRADE_ERR_INSUFFICIENT_MEMORY_E g2
       else if \<not> plugin_complete then fail FW_UPGRADE_ERR_PLUGIN_ENTRY_EMPTY_E g2
       else if 32 \<le> length iface then fail FW_UPGRADE_ERR_INTERFACE_NAME_TOO_LONG_E g2
       else if 256 \<le> length (url_with_slash u) then fail FW_UPGRADE_ERR_URL_TOO_LONG_E g2
       else if 128 \<le> length cfg then fail FW_UPGRADE_ERR_URL_TOO_LONG_E g2
       else (let g3 = g2\<lparr>g_n := Suc (g_n g2)\<rparr> in
             if \<not> alloc (g_env g2) (g_n g2) then fail FW_UPGRADE_ERR_INSUFFICIENT_MEMORY_E g3
             else (FW_UPGRADE_OK_E, g3\<lparr>g_cxt := Some (new_session iface (url_with_slash u) cfg fl g3)\<rparr>))))"

text \<open>Whether the upgrade is complete, and the code finally returned.\<close>

definition final_ret :: "ret \<Rightarrow> sess \<Rightarrow> ret" where
  "final_ret r \<sigma> =
     (if session_status \<sigma> = FW_UPGRADE_SESSION_CANCEL_E then Inl FW_UPGRADE_ERR_SESSION_CANCELLED_E
      else if r = OK \<and> s_state \<sigma> \<noteq> FW_UPGRADE_STATE_FINISH_E then Inl FW_UPGRADE_ERR_INCOMPLETE_E else r)"

text \<open>Publishing the trial: the descriptor's status and, when it has a boot loader image, its FDT entry.\<close>

definition publish_trial :: "sess \<Rightarrow> sess" where
  "publish_trial \<sigma> =
     (case on_fu (fw_upgrade_set_fwd_info (trial_fwd_idx \<sigma>) FW_UPGRADE_FWD_STATUS_E [FW_UPGRADE_FWD_STATUS_VALID]) \<sigma> of (_, \<sigma>1) \<Rightarrow>
      (case on_fu (fw_upgrade_find_partition (trial_fwd_idx \<sigma>1) SBL_IMG_ID) \<sigma>1 of
         ((_, None), \<sigma>2) \<Rightarrow> \<sigma>2
       | ((_, Some hdl), \<sigma>2) \<Rightarrow>
           snd (on_fu (fw_upgrade_set_sbl_trial_fde (trial_sbl_idx \<sigma>2) (img_version (client (s_fu \<sigma>2) hdl))) \<sigma>2)))"

definition fw_upgrade_session_finalize :: "ret \<Rightarrow> sess \<Rightarrow> fw_glob \<Rightarrow> ret \<times> fw_glob" where
  "fw_upgrade_session_finalize r \<sigma> g =
     (let r1 = final_ret r \<sigma>; \<sigma>1 = \<sigma>\<lparr>error_code := r1\<rparr>;
          good = r1 = OK \<and> s_state \<sigma>1 = FW_UPGRADE_STATE_FINISH_E;
          \<sigma>2 = (if good then publish_trial \<sigma>1 else \<sigma>1) in
      if good \<and> bit (flags \<sigma>2) FW_UPGRADE_FLAG_AUTO_REBOOT
      then (r1, (snd (fw_upgrade_session_fin (of_session \<sigma>2 g)))\<lparr>g_reset := True\<rparr>)
      else if session_status \<sigma>2 = FW_UPGRADE_SESSION_SUSPEND_E
      then (Inl FW_UPGRADE_ERR_SESSION_SUSPEND_E, of_session (fw_upgrade_session_prepare_suspend \<sigma>2) g)
      else (r1, snd (fw_upgrade_session_fin (of_session \<sigma>2 g))))"

definition fw_upgrade :: "nat \<Rightarrow> char list \<Rightarrow> bool \<Rightarrow> char list \<Rightarrow> char list \<Rightarrow> u32 \<Rightarrow> fw_glob \<Rightarrow> (ret \<times> fw_glob) option" where
  "fw_upgrade fuel iface plugin_complete u cfg fl g =
     (if g_cxt g \<noteq> None then Some (Inl FW_UPGRADE_ERR_SESSION_IN_PROGRESS_E, g) else
      (case fw_upgrade_session_init iface plugin_complete u cfg fl g of (st, g1) \<Rightarrow>
       if st \<noteq> FW_UPGRADE_OK_E then Some (Inl st, g1)
       else map_option (\<lambda>(r, \<sigma>). fw_upgrade_session_finalize r \<sigma> g1)
              (fw_upgrade_session_process fuel (the (g_cxt g1)))))"

text \<open>Resuming: every state from \<open>RESUME_SERVICE\<close> on is replaced by it.\<close>

fun state_num :: "fw_upgrade_state \<Rightarrow> nat" where
  "state_num FW_UPGRADE_STATE_NOT_START_E = 0" | "state_num FW_UPGRADE_STATE_GET_TRIAL_INFO_E = 1"
| "state_num FW_UPGRADE_STATE_ERASE_FWD_E = 2" | "state_num FW_UPGRADE_STATE_ERASE_FLASH_E = 3"
| "state_num FW_UPGRADE_STATE_ERASE_SECOND_FS_E = 4" | "state_num FW_UPGRADE_STATE_PREPARE_FS_E = 5"
| "state_num FW_UPGRADE_STATE_ERASE_IMAGE_E = 6" | "state_num FW_UPGRADE_STATE_PREPARE_CONNECT_E = 7"
| "state_num FW_UPGRADE_STATE_CONNECT_SERVER_E = 8" | "state_num FW_UPGRADE_STATE_RESUME_SERVICE_E = 9"
| "state_num FW_UPGRADE_STATE_RESUME_SERVER_E = 10" | "state_num FW_UPGRADE_STATE_RECEIVE_DATA_E = 11"
| "state_num FW_UPGRADE_STATE_DISCONNECT_SERVER_E = 12" | "state_num FW_UPGRADE_STATE_PROCESS_CONFIG_FILE_E = 13"
| "state_num FW_UPGRADE_STATE_PROCESS_IMAGE_E = 14" | "state_num FW_UPGRADE_STATE_DUPLICATE_IMAGES_E = 15"
| "state_num FW_UPGRADE_STATE_DUPLICATE_FS_E = 16" | "state_num FW_UPGRADE_STATE_FINISH_E = 17"

definition resume_state :: "sess \<Rightarrow> sess" where
  "resume_state \<sigma> = (if 9 \<le> state_num (s_state \<sigma>) then set_state FW_UPGRADE_STATE_RESUME_SERVICE_E \<sigma> else \<sigma>)\<lparr>error_code := OK\<rparr>"

definition fw_upgrade_session_resume :: "nat \<Rightarrow> fw_glob \<Rightarrow> (ret \<times> fw_glob) option" where
  "fw_upgrade_session_resume fuel g =
     (case g_cxt g of None \<Rightarrow> Some (Inl FW_UPGRADE_ERR_SESSION_NOT_START_E, g)
      | Some \<sigma> \<Rightarrow>
          if session_status \<sigma> \<noteq> FW_UPGRADE_SESSION_SUSPEND_E then Some (Inl FW_UPGRADE_ERR_SESSION_IN_PROGRESS_E, g\<lparr>g_mutex := True\<rparr>) else
          (let \<sigma>1 = (to_session \<sigma> g)\<lparr>session_status := FW_UPGRADE_SESSION_RUNNING_E\<rparr>; g1 = g\<lparr>g_mutex := True\<rparr> in
           case on_fu fw_upgrade_init \<sigma>1 of (st, \<sigma>2) \<Rightarrow>
           if st \<noteq> FW_UPGRADE_OK_E
           then Some (fw_upgrade_session_finalize (Inl FW_UPGRADE_ERR_FLASH_INIT_TIMEOUT_E)
                        (\<sigma>2\<lparr>session_status := FW_UPGRADE_SESSION_NOT_START_E\<rparr>) g1)
           else map_option (\<lambda>(r, \<sigma>'). fw_upgrade_session_finalize r \<sigma>' g1)
                  (fw_upgrade_session_process fuel (resume_state \<sigma>2))))"

definition fw_upgrade_session_cancel :: "fw_glob \<Rightarrow> fw_upgrade_status_code \<times> fw_glob" where
  "fw_upgrade_session_cancel g =
     (case g_cxt g of None \<Rightarrow> (FW_UPGRADE_ERR_SESSION_NOT_START_E, g)
      | Some \<sigma> \<Rightarrow>
          if session_status \<sigma> = FW_UPGRADE_SESSION_RUNNING_E
          then (FW_UPGRADE_OK_E, g\<lparr>g_cxt := Some (\<sigma>\<lparr>session_status := FW_UPGRADE_SESSION_CANCEL_E\<rparr>)\<rparr>)
          else fw_upgrade_session_fin g)"

definition fw_upgrade_session_suspend :: "fw_glob \<Rightarrow> fw_upgrade_status_code \<times> fw_glob" where
  "fw_upgrade_session_suspend g =
     (case g_cxt g of None \<Rightarrow> (FW_UPGRADE_ERR_SESSION_NOT_START_E, g)
      | Some \<sigma> \<Rightarrow>
          if session_status \<sigma> \<noteq> FW_UPGRADE_SESSION_RUNNING_E then (FW_UPGRADE_ERR_SESSION_NOT_START_E, g)
          else (FW_UPGRADE_OK_E, g\<lparr>g_cxt := Some (\<sigma>\<lparr>session_status := FW_UPGRADE_SESSION_SUSPEND_E\<rparr>)\<rparr>))"

definition fw_upgrade_session_done :: "u32 \<Rightarrow> u32 \<Rightarrow> fu \<Rightarrow> fw_upgrade_status_code \<times> fu" where
  "fw_upgrade_session_done junk result s =
     (case fw_upgrade_get_trial_active_fwd_index s of ((st, trial, current, rank), s1) \<Rightarrow>
      if st \<noteq> FW_UPGRADE_OK_E then (FW_UPGRADE_ERROR_E, s1)
      else (case (if result \<noteq> 0 then fw_upgrade_accept_trial_fwd junk s1 else fw_upgrade_reject_trial_fwd s1) of (st', s2) \<Rightarrow>
            (if st' = FW_UPGRADE_OK_E then FW_UPGRADE_OK_E else FW_UPGRADE_ERROR_E, s2)))"

end
