(* ===== verification/FwMemFacts.thy ===== *)
theory FwMemFacts
  imports FwUpgradeMem
begin

text \<open>
  Correctness of the storage side of firmware upgrade (\<open>FwUpgradeMem\<close>) on a working flash: descriptor
  fields as an abstract view of the first three blocks, the trial/current selection, acceptance and
  rejection as operations on that view, partitions as entries of a descriptor, and what partition writes
  and erases may touch.
\<close>

unbundle bit_operations_syntax

section \<open>The working state\<close>

abbreviation fmem :: "fu \<Rightarrow> mem" where "fmem s \<equiv> fl_mem (fu_flash s)"

definition fu_ready :: "fu \<Rightarrow> bool" where
  "fu_ready s \<longleftrightarrow> fu_initialized s \<and> flash_ready (fu_flash s) \<and>
     fw_upgrade_mem_params s = Some \<lparr>mem_start = 0, mem_size = flash_limit (fu_flash s), fwd_region_size = 4096,
       block_size = 4096\<rparr> \<and>
     3 * 4096 \<le> unat (flash_limit (fu_flash s)) \<and> length (partition_handles s) = FW_UPGRADE_MAX_HANDLES"

text \<open>Reads only count flash commands; writes also change flash cells.\<close>

definition tick :: "nat \<Rightarrow> fu \<Rightarrow> fu" where
  "tick k s = s\<lparr>fu_flash := (fu_flash s)\<lparr>fl_n := k\<rparr>\<rparr>"

definition put_mem :: "mem \<Rightarrow> nat \<Rightarrow> fu \<Rightarrow> fu" where
  "put_mem m k s = s\<lparr>fu_flash := (fu_flash s)\<lparr>fl_mem := m, fl_n := k\<rparr>\<rparr>"

lemma fields_tick [simp]:
  "fu_initialized (tick k s) = fu_initialized s" "partition_handles (tick k s) = partition_handles s"
  "fw_upgrade_mem_params (tick k s) = fw_upgrade_mem_params s" "fu_rram (tick k s) = fu_rram s"
  "fwd_support_num (tick k s) = fwd_support_num s" "FDT_START (tick k s) = FDT_START s"
  "fmem (tick k s) = fmem s" "flash_limit (fu_flash (tick k s)) = flash_limit (fu_flash s)"
  "tick j (tick k s) = tick j s" "drv_flash_get_config (fu_flash (tick k s)) = drv_flash_get_config (fu_flash s)"
  "SBL_MEM_SIZE (tick k s) = SBL_MEM_SIZE s"
  by (simp_all add: tick_def drv_flash_get_config_def)

lemma fields_put_mem [simp]:
  "fu_initialized (put_mem m k s) = fu_initialized s" "partition_handles (put_mem m k s) = partition_handles s"
  "fw_upgrade_mem_params (put_mem m k s) = fw_upgrade_mem_params s" "fu_rram (put_mem m k s) = fu_rram s"
  "fwd_support_num (put_mem m k s) = fwd_support_num s" "FDT_START (put_mem m k s) = FDT_START s"
  "fmem (put_mem m k s) = m" "flash_limit (fu_flash (put_mem m k s)) = flash_limit (fu_flash s)"
  "put_mem m j (put_mem m' k s) = put_mem m j s" "put_mem m j (tick k s) = put_mem m j s"
  "tick j (put_mem m k s) = put_mem m j s"
  by (simp_all add: put_mem_def tick_def)

lemma fields_set_client [simp]:
  "fu_initialized (set_client i c s) = fu_initialized s" "fu_flash (set_client i c s) = fu_flash s"
  "fw_upgrade_mem_params (set_client i c s) = fw_upgrade_mem_params s" "fu_rram (set_client i c s) = fu_rram s"
  "fwd_support_num (set_client i c s) = fwd_support_num s" "FDT_START (set_client i c s) = FDT_START s"
  "length (partition_handles (set_client i c s)) = length (partition_handles s)"
  "partition_handles (set_client i c s) = (partition_handles s)[i := c]"
  by (simp_all add: set_client_def)

lemma flash_ready_n [simp]: "flash_ready (f\<lparr>fl_n := k\<rparr>) = flash_ready f"
  by (simp add: flash_ready_def hw_responsive_def hw_nor_def)

lemma flash_ready_mem [simp]: "flash_ready (f\<lparr>fl_mem := m\<rparr>) = flash_ready f"
  by (simp add: flash_ready_def hw_responsive_def hw_nor_def)

lemma fu_ready_tick [simp]: "fu_ready (tick k s) = fu_ready s"
  by (simp add: fu_ready_def tick_def)

lemma fu_ready_put_mem [simp]: "fu_ready (put_mem m k s) = fu_ready s"
  by (simp add: fu_ready_def put_mem_def)

lemma fu_ready_set_client [simp]: "fu_ready (set_client i c s) = fu_ready s"
  by (simp add: fu_ready_def set_client_def)

lemma fu_ready_simps:
  assumes "fu_ready s"
  shows "fu_initialized s" "mem_params s = \<lparr>mem_start = 0, mem_size = flash_limit (fu_flash s), fwd_region_size = 4096,
       block_size = 4096\<rparr>" "fw_upgrade_validation s = FW_UPGRADE_OK_E" "fw_upgrade_init s = (FW_UPGRADE_OK_E, s)"
  using assms by (simp_all add: fu_ready_def fw_upgrade_validation_def fw_upgrade_init_def flash_ready_def
    drv_flash_get_config_def)

lemma fwd_base_ready: "fu_ready s \<Longrightarrow> fwd_base i s = 4096 * ucast i"
  by (simp add: fwd_base_def fu_ready_def)

lemma fl_read_ok:
  assumes "fu_ready s" and "n \<noteq> 0" and "unat a + unat n \<le> unat (flash_limit (fu_flash s))"
  shows "\<exists>k. fl_read a n s = ((FLASH_DEVICE_DONE, mread (fmem s) a (unat n)), tick k s)"
proof -
  have "\<not> rw_params_bad a n False (fu_flash s)"
    using flash_fits_params(1) [of a "unat n" "fu_flash s"] assms by (simp add: flash_fits_def unat_gt_0)
  then show ?thesis
    using assms(1) drv_flash_read_ok [of "fu_flash s" a n] by (simp add: fu_ready_def fl_read_def tick_def) blast
qed

lemma fl_write_ok:
  assumes "fu_ready s" and "n \<noteq> 0" and "unat a + unat n \<le> unat (flash_limit (fu_flash s))"
  shows "\<exists>k. fl_write a n bs s = (FLASH_DEVICE_DONE, put_mem (mcombine (AND) (fmem s) a (take (unat n) bs)) k s)"
proof -
  have "\<not> rw_params_bad a n False (fu_flash s)"
    using flash_fits_params(1) [of a "unat n" "fu_flash s"] assms by (simp add: flash_fits_def unat_gt_0)
  then show ?thesis
    using assms(1) drv_flash_write_ok [of "fu_flash s" a n bs] by (auto simp: fu_ready_def fl_write_def put_mem_def)
qed

section \<open>The descriptors as an abstract view\<close>

text \<open>What the boot and upgrade logic looks at in a descriptor.\<close>

record fwd_view =
  v_magic :: u32
  v_rank :: u32
  v_status :: u8
  v_images :: u8

definition view :: "mem \<Rightarrow> u8 \<Rightarrow> fwd_view" where
  "view m i = (let a = 4096 * ucast i in
     \<lparr>v_magic = rd32 m a, v_rank = rd32 m (a + 8), v_status = m (a + 12), v_images = m (a + 13)\<rparr>)"

definition usable :: "fwd_view \<Rightarrow> bool" where
  "usable v = fwd_usable (v_magic v) (v_status v) (v_images v)"

definition is_trial :: "fwd_view \<Rightarrow> bool" where
  "is_trial v \<longleftrightarrow> usable v \<and> v_rank v = FW_UPGRADE_FWD_RANK_TRIAL"

lemma u8_less_3: "(i :: u8) < 3 \<Longrightarrow> i = 0 \<or> i = 1 \<or> i = 2"
  by (simp add: word_unat_eq_iff word_less_nat_alt) linarith

lemma field_addr:
  assumes "i < 3" and "unat off + n \<le> 4096"
  shows "unat (4096 * ucast (i :: u8) + off :: u32) + n \<le> 3 * 4096"
    and "unat (4096 * ucast i + off :: u32) = 4096 * unat i + unat off"
proof -
  have "unat (4096 * ucast i + off :: u32) = 4096 * unat i + unat off"
    using u8_less_3 [OF assms(1)] assms(2) by (auto simp: unat_word_ariths)
  moreover have "unat i < 3" using assms(1) by (simp add: word_less_nat_alt)
  ultimately show "unat (4096 * ucast i + off :: u32) = 4096 * unat i + unat off"
    "unat (4096 * ucast (i :: u8) + off :: u32) + n \<le> 3 * 4096" using assms(2) by simp_all
qed

lemma fwd_field_bounds: "unat (fst (fwd_field info)) + unat (snd (fwd_field info)) \<le> 4096" "snd (fwd_field info) \<noteq> 0"
  by (cases info; simp)+

lemma get_fwd_info_ok:
  assumes "fu_ready s" and "i < 3"
  shows "\<exists>k. fw_upgrade_get_fwd_info i info s =
    ((FW_UPGRADE_OK_E, mread (fmem s) (4096 * ucast i + fst (fwd_field info)) (unat (snd (fwd_field info)))), tick k s)"
proof -
  have "3 * 4096 \<le> unat (flash_limit (fu_flash s))" using assms(1) by (simp add: fu_ready_def)
  then obtain k where "fl_read (4096 * ucast i + fst (fwd_field info)) (snd (fwd_field info)) s =
      ((FLASH_DEVICE_DONE, mread (fmem s) (4096 * ucast i + fst (fwd_field info)) (unat (snd (fwd_field info)))), tick k s)"
    using fl_read_ok [OF assms(1) fwd_field_bounds(2)] field_addr(1) [OF assms(2) fwd_field_bounds(1)] le_trans by blast
  then show ?thesis
    using assms fu_ready_simps(3) [OF assms(1)] fwd_base_ready [OF assms(1)]
    by (auto simp: fw_upgrade_get_fwd_info_def case_prod_beta not_le)
qed

lemma set_fwd_info_ok:
  assumes "fu_ready s" and "i < 3"
  shows "\<exists>k. fw_upgrade_set_fwd_info i info bs s =
    (FW_UPGRADE_OK_E, put_mem (mcombine (AND) (fmem s) (4096 * ucast i + fst (fwd_field info))
       (take (unat (snd (fwd_field info))) bs)) k s)"
proof -
  have "3 * 4096 \<le> unat (flash_limit (fu_flash s))" using assms(1) by (simp add: fu_ready_def)
  then obtain k where "fl_write (4096 * ucast i + fst (fwd_field info)) (snd (fwd_field info)) bs s =
      (FLASH_DEVICE_DONE, put_mem (mcombine (AND) (fmem s) (4096 * ucast i + fst (fwd_field info))
         (take (unat (snd (fwd_field info))) bs)) k s)"
    using fl_write_ok [OF assms(1) fwd_field_bounds(2)] field_addr(1) [OF assms(2) fwd_field_bounds(1)] le_trans by blast
  then show ?thesis
    using assms fu_ready_simps(3) [OF assms(1)] fwd_base_ready [OF assms(1)]
    by (auto simp: fw_upgrade_set_fwd_info_def case_prod_beta not_le)
qed

lemma read_fwd_summary_ok:
  assumes "fu_ready s" and "i < 3"
  shows "\<exists>k. read_fwd_summary i s =
    (Some (v_magic (view (fmem s) i), v_rank (view (fmem s) i), v_status (view (fmem s) i), v_images (view (fmem s) i)),
     tick k s)"
proof -
  obtain k1 where k1: "fw_upgrade_get_fwd_info i FW_UPGRADE_FWD_MAGIC_E s =
      ((FW_UPGRADE_OK_E, mread (fmem s) (4096 * ucast i) 4), tick k1 s)"
    using get_fwd_info_ok [OF assms, of FW_UPGRADE_FWD_MAGIC_E] by auto
  have r: "fu_ready (tick k s)" for k using assms(1) by simp
  obtain k2 where k2: "fw_upgrade_get_fwd_info i FW_UPGRADE_FWD_RANK_E (tick k1 s) =
      ((FW_UPGRADE_OK_E, mread (fmem s) (4096 * ucast i + 8) 4), tick k2 s)"
    using get_fwd_info_ok [OF r assms(2), of FW_UPGRADE_FWD_RANK_E k1] by auto
  obtain k3 where k3: "fw_upgrade_get_fwd_info i FW_UPGRADE_FWD_STATUS_E (tick k2 s) =
      ((FW_UPGRADE_OK_E, mread (fmem s) (4096 * ucast i + 12) 1), tick k3 s)"
    using get_fwd_info_ok [OF r assms(2), of FW_UPGRADE_FWD_STATUS_E k2] by auto
  obtain k4 where k4: "fw_upgrade_get_fwd_info i FW_UPGRADE_FWD_TOTAL_IMAGE_E (tick k3 s) =
      ((FW_UPGRADE_OK_E, mread (fmem s) (4096 * ucast i + 13) 1), tick k4 s)"
    using get_fwd_info_ok [OF r assms(2), of FW_UPGRADE_FWD_TOTAL_IMAGE_E k3] by auto
  show ?thesis
    by (rule exI [of _ k4]) (simp add: read_fwd_summary_def k1 k2 k3 k4 view_def rd32_def Let_def)
qed

text \<open>Writing a field of one descriptor: NOR programming keeps the bits both values have.\<close>

lemma le32_and:
  assumes "length bs = 4"
  shows "le32 (map2 (AND) bs (enc32 w)) = le32 bs AND w"
proof -
  obtain a b c d where bs: "bs = [a, b, c, d]"
    using assms by (auto simp: length_Suc_conv numeral_eq_Suc)
  show ?thesis
  proof (rule bit_word_eqI)
    fix n assume "n < LENGTH(32)"
    then consider "n < 8" | "8 \<le> n" "n < 16" | "16 \<le> n" "n < 24" | "24 \<le> n" "n < 32" by fastforce
    then show "bit (le32 (map2 (AND) bs (enc32 w))) n = bit (le32 bs AND w) n"
      by cases (auto simp: bs le32_def enc32_def bit_simps bit_ucast_u8 bit_u8_high)
  qed
qed

lemma rd32_and_same: "rd32 (mcombine (AND) m a (enc32 w)) a = rd32 m a AND w"
  using mread_mcombine_same [of "enc32 w" "(AND)" m a] by (simp add: rd32_def le32_and)

lemma mread_apart:
  assumes "length bs \<le> unat (b - a)" and "unat (b - a) + n \<le> 2 ^ 32"
  shows "mread (mcombine f m a bs) b n = mread m b n"
proof (rule mread_mcombine_disjoint)
  fix i assume "i < n"
  have e: "b + of_nat i - a = (b - a) + of_nat i" by simp
  have "unat (b + of_nat i - a) = unat (b - a) + i"
    unfolding e using \<open>i < n\<close> assms(2) by (simp add: unat_word_ariths unat_of_nat_u32)
  with assms(1) show "\<not> in_range a (length bs) (b + of_nat i)" by (simp add: in_range_def)
qed

lemma rd32_apart:
  "length bs \<le> unat (b - a) \<Longrightarrow> unat (b - a) + 4 \<le> 2 ^ 32 \<Longrightarrow> rd32 (mcombine f m a bs) b = rd32 m b"
  by (simp add: rd32_def mread_apart)

lemma mcombine_single: "mcombine f m a [b] x = (if x = a then f (m x) b else m x)"
  by (simp add: mcombine_def unat_eq_0)

lemma view_set_rank:
  assumes "i < 3" and "j < 3"
  shows "view (mcombine (AND) m (4096 * ucast j + 8) (enc32 w)) i =
    (if i = j then (view m i)\<lparr>v_rank := v_rank (view m i) AND w\<rparr> else view m i)"
  using u8_less_3 [OF assms(1)] u8_less_3 [OF assms(2)]
  by (elim disjE) (simp_all add: view_def Let_def rd32_and_same rd32_apart mcombine_out in_range_def)

lemma view_set_status:
  assumes "i < 3" and "j < 3"
  shows "view (mcombine (AND) m (4096 * ucast j + 12) [b]) i =
    (if i = j then (view m i)\<lparr>v_status := v_status (view m i) AND b\<rparr> else view m i)"
  using u8_less_3 [OF assms(1)] u8_less_3 [OF assms(2)]
  by (elim disjE) (simp_all add: view_def Let_def rd32_apart mcombine_single)

section \<open>Trial and current descriptor\<close>

text \<open>Abstract specification: the selection on the views, and what accepting and rejecting do to them.\<close>

definition abs_step :: "(u8 \<Rightarrow> fwd_view) \<Rightarrow> u8 \<Rightarrow> u8 \<times> u8 \<times> u32 \<Rightarrow> u8 \<times> u8 \<times> u32" where
  "abs_step V i acc = (case acc of (trial, current, rank) \<Rightarrow>
     if is_trial (V i) then (i, current, rank)
     else if usable (V i) \<and> rank < v_rank (V i) then (trial, i, v_rank (V i)) else acc)"

definition abs_index :: "nat \<Rightarrow> (u8 \<Rightarrow> fwd_view) \<Rightarrow> u8 \<times> u8 \<times> u32" where
  "abs_index cfg V =
     (if cfg = 2 then abs_step V 1 (abs_step V 0 (FW_UPGRADE_FWD_TRIAL_UNUSED, 0, 0))
      else abs_step V 2 (abs_step V 1 (FW_UPGRADE_FWD_TRIAL_UNUSED, 0, v_rank (V 0))))"

definition abs_accept :: "nat \<Rightarrow> (u8 \<Rightarrow> fwd_view) \<Rightarrow> u8 \<Rightarrow> fwd_view" where
  "abs_accept cfg V = (case abs_index cfg V of (trial, current, rank) \<Rightarrow>
     (let V' = V(trial := (V trial)\<lparr>v_rank := rank + 1\<rparr>) in
      if cfg = 2 \<or> (cfg = 3 \<and> current \<noteq> 0)
      then V'(current := (V' current)\<lparr>v_status := FW_UPGRADE_FWD_STATUS_INVALID\<rparr>) else V'))"

definition abs_reject :: "nat \<Rightarrow> (u8 \<Rightarrow> fwd_view) \<Rightarrow> u8 \<Rightarrow> fwd_view" where
  "abs_reject cfg V = (case abs_index cfg V of (trial, current, rank) \<Rightarrow>
     V(trial := (V trial)\<lparr>v_status := FW_UPGRADE_FWD_STATUS_INVALID, v_rank := 1\<rparr>))"

lemma trial_scan_step:
  assumes "fu_ready s" and "i < 3"
  shows "\<exists>k. trial_scan (i # is) acc s = trial_scan is (abs_step (view (fmem s)) i acc) (tick k s)"
proof -
  obtain t c r where acc: "acc = (t, c, r)" by (cases acc)
  obtain k where "read_fwd_summary i s =
    (Some (v_magic (view (fmem s) i), v_rank (view (fmem s) i), v_status (view (fmem s) i), v_images (view (fmem s) i)),
     tick k s)" using read_fwd_summary_ok [OF assms] by blast
  then show ?thesis
    by (intro exI [of _ k]) (simp add: acc abs_step_def is_trial_def usable_def)
qed

declare trial_scan.simps(2) [simp del]

lemma trial_scan_two:
  assumes "fu_ready s" and "i < 3" and "j < 3"
  shows "\<exists>k. trial_scan [i, j] acc s = ((True, abs_step (view (fmem s)) j (abs_step (view (fmem s)) i acc)), tick k s)"
proof -
  obtain k where k: "trial_scan [i, j] acc s = trial_scan [j] (abs_step (view (fmem s)) i acc) (tick k s)"
    using trial_scan_step [OF assms(1,2)] by blast
  obtain k' where "trial_scan [j] (abs_step (view (fmem s)) i acc) (tick k s) =
      trial_scan [] (abs_step (view (fmem s)) j (abs_step (view (fmem s)) i acc)) (tick k' s)"
    using trial_scan_step [of "tick k s" j "[]" "abs_step (view (fmem s)) i acc"] assms(1,3) by auto
  with k show ?thesis by auto
qed

lemma get_trial_active_ok:
  assumes "fu_ready s" and "fwd_support_num s \<in> {2, 3}" and "abs_index (fwd_support_num s) (view (fmem s)) = (t, c, r)"
  shows "\<exists>k. fw_upgrade_get_trial_active_fwd_index s =
    ((if t \<noteq> FW_UPGRADE_FWD_TRIAL_UNUSED then FW_UPGRADE_OK_E else FW_UPGRADE_ERROR_E, t, c, r), tick k s)"
proof (cases "fwd_support_num s = 2")
  case True
  obtain k where "trial_scan [0, 1] (FW_UPGRADE_FWD_TRIAL_UNUSED, 0, 0) s = ((True, t, c, r), tick k s)"
    using trial_scan_two [OF assms(1), of 0 1 "(FW_UPGRADE_FWD_TRIAL_UNUSED, 0, 0)"] assms(3) True by (auto simp: abs_index_def)
  then show ?thesis
    using True fu_ready_simps(4) [OF assms(1)] by (auto simp: fw_upgrade_get_trial_active_fwd_index_def Let_def)
next
  case False
  then have cfg: "fwd_support_num s = 3" using assms(2) by simp
  obtain k0 where k0: "fw_upgrade_get_fwd_info 0 FW_UPGRADE_FWD_RANK_E s =
      ((FW_UPGRADE_OK_E, mread (fmem s) 8 4), tick k0 s)"
    using get_fwd_info_ok [OF assms(1), of 0 FW_UPGRADE_FWD_RANK_E] by auto
  have rank0: "le32 (mread (fmem s) 8 4) = v_rank (view (fmem s) 0)" by (simp add: view_def rd32_def)
  obtain k where "trial_scan [1, 2] (FW_UPGRADE_FWD_TRIAL_UNUSED, 0, v_rank (view (fmem s) 0)) (tick k0 s) =
      ((True, t, c, r), tick k s)"
    using trial_scan_two [of "tick k0 s" 1 2 "(FW_UPGRADE_FWD_TRIAL_UNUSED, 0, v_rank (view (fmem s) 0))"] assms(1,3) False by (auto simp: abs_index_def)
  then show ?thesis
    using cfg k0 rank0 fu_ready_simps(4) [OF assms(1)]
    by (auto simp: fw_upgrade_get_trial_active_fwd_index_def Let_def)
qed

text \<open>What the selection means.\<close>

lemma abs_index_spec:
  assumes "abs_index cfg V = (t, c, r)" and "cfg \<in> {2, 3}"
  shows "t \<noteq> FW_UPGRADE_FWD_TRIAL_UNUSED \<longleftrightarrow> (\<exists>i \<in> (if cfg = 2 then {0, 1} else {1, 2}). is_trial (V i))"
    and "t \<noteq> FW_UPGRADE_FWD_TRIAL_UNUSED \<Longrightarrow> t < 3 \<and> is_trial (V t) \<and> (cfg = 3 \<longrightarrow> t \<noteq> 0)"
    and "c < 3" and "c \<noteq> 0 \<Longrightarrow> usable (V c) \<and> \<not> is_trial (V c) \<and> v_rank (V c) = r"
    and "i \<in> (if cfg = 2 then {0, 1} else {1, 2}) \<Longrightarrow> usable (V i) \<Longrightarrow> \<not> is_trial (V i) \<Longrightarrow> v_rank (V i) \<le> r"
    and "t \<noteq> FW_UPGRADE_FWD_TRIAL_UNUSED \<Longrightarrow> t \<in> (if cfg = 2 then {0, 1} else {1, 2})" and "cfg = 2 \<Longrightarrow> c = 0 \<or> c = 1"
  using assms by (auto simp: abs_index_def abs_step_def not_less split: if_splits)

lemma fdt_fde_frame [simp]: "fdt_fde (tick k s) = fdt_fde s" "fdt_fde (put_mem m k s) = fdt_fde s"
  by (simp_all add: fun_eq_iff fdt_fde_def fde_addr_of_def)

lemma fdt_frame [simp]:
  "fdt_bad (tick k s) = fdt_bad s" "fdt_find P (tick k s) = fdt_find P s"
  "fdt_bad (put_mem m k s) = fdt_bad s" "fdt_find P (put_mem m k s) = fdt_find P s"
  by (simp_all add: fdt_bad_def fdt_find_def fdt_num_fde_def)

lemma and_all_ones [simp]: "(0xFFFFFFFF :: u32) AND x = x"
proof -
  have "(0xFFFFFFFF :: u32) = - 1" by simp
  then show ?thesis by (metis and.left_neutral)
qed

lemma get_active_frame [simp]: "fw_upgrade_get_active_fwd w (tick k s) = fw_upgrade_get_active_fwd w s"
  by (simp add: fw_upgrade_get_active_fwd_def Let_def split: option.split)

lemma accept_refines:
  assumes "fu_ready s" and "fwd_support_num s \<in> {2, 3}"
    and "abs_index (fwd_support_num s) (view (fmem s)) = (t, c, r)" and "t \<noteq> FW_UPGRADE_FWD_TRIAL_UNUSED"
    and "fst (snd (fw_upgrade_get_active_fwd True s)) = Some FW_UPGRADE_FWD_BOOT_TYPE_TRIAL"
  shows "\<exists>m' k. fw_upgrade_accept_trial_fwd junk s = (FW_UPGRADE_OK_E, put_mem m' k s) \<and>
    (\<forall>i < 3. view m' i = abs_accept (fwd_support_num s) (view (fmem s)) i)"
proof -
  let ?V = "view (fmem s)"
  note sp = abs_index_spec [OF assms(3,2)]
  have t: "t < 3" "is_trial (?V t)" and c: "c < 3" using sp(2,3) assms(4) by auto
  obtain k1 where k1: "fw_upgrade_get_trial_active_fwd_index s = ((FW_UPGRADE_OK_E, t, c, r), tick k1 s)"
    using get_trial_active_ok [OF assms(1-3)] assms(4) by auto
  obtain a v where act: "fw_upgrade_get_active_fwd True s = (a, Some FW_UPGRADE_FWD_BOOT_TYPE_TRIAL, v)"
    using assms(5) by (metis prod.collapse)
  define m1 where "m1 = mcombine (AND) (fmem s) (4096 * ucast t + 8) (enc32 (r + 1))"
  obtain k2 where k2: "fw_upgrade_set_fwd_info t FW_UPGRADE_FWD_RANK_E (enc32 (r + 1)) (tick k1 s) =
      (FW_UPGRADE_OK_E, put_mem m1 k2 s)"
    using set_fwd_info_ok [of "tick k1 s" t FW_UPGRADE_FWD_RANK_E "enc32 (r + 1)"] assms(1) t by (auto simp: m1_def)
  have v1: "view m1 i = (?V(t := (?V t)\<lparr>v_rank := r + 1\<rparr>)) i" if "i < 3" for i
    using view_set_rank [OF that t(1), of "fmem s" "r + 1"] t(2) by (simp add: m1_def is_trial_def)
  define m2 where "m2 = mcombine (AND) m1 (4096 * ucast c + 12) [FW_UPGRADE_FWD_STATUS_INVALID]"
  obtain k3 where k3: "fw_upgrade_set_fwd_info c FW_UPGRADE_FWD_STATUS_E [FW_UPGRADE_FWD_STATUS_INVALID] (put_mem m1 k2 s) =
      (FW_UPGRADE_OK_E, put_mem m2 k3 s)"
    using set_fwd_info_ok [of "put_mem m1 k2 s" c FW_UPGRADE_FWD_STATUS_E "[FW_UPGRADE_FWD_STATUS_INVALID]"] assms(1) c
    by (auto simp: m2_def)
  have v2: "view m2 i = (if i = c then (view m1 c)\<lparr>v_status := 0\<rparr> else view m1 i)" if "i < 3" for i
    using view_set_status [OF that c, of m1 0] by (simp add: m2_def)
  show ?thesis
  proof (cases "fwd_support_num s = 2 \<or> (fwd_support_num s = 3 \<and> c \<noteq> 0)")
    case True
    have "view m2 i = abs_accept (fwd_support_num s) ?V i" if "i < 3" for i
      using True v2 [OF that] v1 [OF that] v1 [OF c] by (simp add: abs_accept_def assms(3) Let_def)
    moreover have "fw_upgrade_accept_trial_fwd junk s = (FW_UPGRADE_OK_E, put_mem m2 k3 s)"
      using True by (simp add: fw_upgrade_accept_trial_fwd_def k1 k2 k3 act)
    ultimately show ?thesis by blast
  next
    case False
    have "view m1 i = abs_accept (fwd_support_num s) ?V i" if "i < 3" for i
      using False v1 [OF that] by (auto simp: abs_accept_def assms(3) Let_def)
    moreover have "fw_upgrade_accept_trial_fwd junk s = (FW_UPGRADE_OK_E, put_mem m1 k2 s)"
      using False by (auto simp: fw_upgrade_accept_trial_fwd_def k1 k2 act)
    ultimately show ?thesis by blast
  qed
qed

text \<open>Lookups leave the flash cells alone, FDT updates leave the flash alone.\<close>

lemma fl_read_frame [simp]:
  "fmem (snd (fl_read a n s)) = fmem s" "partition_handles (snd (fl_read a n s)) = partition_handles s"
  "fu_rram (snd (fl_read a n s)) = fu_rram s" "fwd_support_num (snd (fl_read a n s)) = fwd_support_num s"
  by (simp_all add: fl_read_def case_prod_beta frame_simps)

lemma find_partition_frame [frame_simps]:
  "fmem (snd (fw_upgrade_find_partition fwd iid s)) = fmem s"
  "fu_rram (snd (fw_upgrade_find_partition fwd iid s)) = fu_rram s"
  by (simp_all add: fw_upgrade_find_partition_def case_prod_beta split: option.split)

lemma write_fde_frame [frame_simps]: "fu_flash (snd (write_fde i e s)) = fu_flash s"
  "partition_handles (snd (write_fde i e s)) = partition_handles s"
  by (simp_all add: write_fde_def case_prod_beta)

lemma reject_sbl_frame [frame_simps]: "fu_flash (snd (fw_upgrade_reject_sbl_trial_fde s)) = fu_flash s"
  "partition_handles (snd (fw_upgrade_reject_sbl_trial_fde s)) = partition_handles s"
  by (simp_all add: fw_upgrade_reject_sbl_trial_fde_def case_prod_beta frame_simps split: option.split)

lemma reject_refines:
  assumes "fu_ready s" and "fwd_support_num s \<in> {2, 3}"
    and "abs_index (fwd_support_num s) (view (fmem s)) = (t, c, r)" and "t \<noteq> FW_UPGRADE_FWD_TRIAL_UNUSED" and "i < 3"
  shows "view (fmem (snd (fw_upgrade_reject_trial_fwd s))) i = abs_reject (fwd_support_num s) (view (fmem s)) i"
proof -
  let ?V = "view (fmem s)"
  have t: "t < 3" "is_trial (?V t)" using abs_index_spec(2) [OF assms(3,2)] assms(4) by auto
  obtain k1 where k1: "fw_upgrade_get_trial_active_fwd_index s = ((FW_UPGRADE_OK_E, t, c, r), tick k1 s)"
    using get_trial_active_ok [OF assms(1-3)] assms(4) by auto
  define m1 where "m1 = mcombine (AND) (fmem s) (4096 * ucast t + 12) [FW_UPGRADE_FWD_STATUS_INVALID]"
  obtain k2 where k2: "fw_upgrade_set_fwd_info t FW_UPGRADE_FWD_STATUS_E [FW_UPGRADE_FWD_STATUS_INVALID] (tick k1 s) =
      (FW_UPGRADE_OK_E, put_mem m1 k2 s)"
    using set_fwd_info_ok [of "tick k1 s" t FW_UPGRADE_FWD_STATUS_E "[FW_UPGRADE_FWD_STATUS_INVALID]"] assms(1) t
    by (auto simp: m1_def)
  define m2 where "m2 = mcombine (AND) m1 (4096 * ucast t + 8) (enc32 1)"
  obtain k3 where k3: "fw_upgrade_set_fwd_info t FW_UPGRADE_FWD_RANK_E (enc32 1) (put_mem m1 k2 s) =
      (FW_UPGRADE_OK_E, put_mem m2 k3 s)"
    using set_fwd_info_ok [of "put_mem m1 k2 s" t FW_UPGRADE_FWD_RANK_E "enc32 1"] assms(1) t by (auto simp: m2_def)
  have "view m2 i = abs_reject (fwd_support_num s) ?V i"
    using view_set_rank [OF assms(5) t(1), of m1 1, folded m2_def]
      view_set_status [OF assms(5) t(1), of "fmem s" 0, folded m1_def] t(2)
    by (cases "i = t") (simp_all add: abs_reject_def assms(3) is_trial_def)
  moreover have "fmem (snd (fw_upgrade_reject_trial_fwd s)) = m2"
    by (simp add: fw_upgrade_reject_trial_fwd_def k1 k2 k3 case_prod_beta frame_simps)
  ultimately show ?thesis by simp
qed

lemma usable_updates [simp]:
  "usable (v\<lparr>v_rank := r\<rparr>) = usable v" "\<not> usable (v\<lparr>v_status := 0\<rparr>)"
  by (simp_all add: usable_def fwd_usable_def)

lemma is_trial_updates [simp]:
  "is_trial (v\<lparr>v_rank := r\<rparr>) \<longleftrightarrow> usable v \<and> r = FW_UPGRADE_FWD_RANK_TRIAL" "\<not> is_trial (v\<lparr>v_status := 0\<rparr>)"
  by (simp_all add: is_trial_def)

text \<open>After accepting, the trial descriptor is the current one and no trial is left; after rejecting, no trial
  is left and the current one is as before.\<close>

lemma abs_index_accept:
  assumes "abs_index cfg V = (t, c, r)" and "cfg \<in> {2, 3}" and "t \<noteq> FW_UPGRADE_FWD_TRIAL_UNUSED" and "t \<noteq> c"
    and "r < 0xFFFFFFFE" and "\<forall>i < 3. is_trial (V i) \<longrightarrow> i = t"
  shows "abs_index cfg (abs_accept cfg V) = (FW_UPGRADE_FWD_TRIAL_UNUSED, t, r + 1)"
proof -
  have rr: "r + 1 \<noteq> 0xFFFFFFFF" "0 < r + 1"
    using assms(5) by (auto simp: word_less_nat_alt word_unat_eq_iff unat_word_ariths)
  have lt: "x < r + 1" "\<not> r + 1 < x" if "x \<le> r" for x
    using assms(5) that by (auto simp: word_less_nat_alt word_le_nat_alt word_unat_eq_iff unat_word_ariths)
  note sp = abs_index_spec [OF assms(1,2)]
  have t: "usable (V t)" using sp(2) [OF assms(3)] by (auto simp: is_trial_def)
  have le: "v_rank (V 0) \<le> r" if "cfg = 3"
    using assms(1) that by (auto simp: abs_index_def abs_step_def split: if_splits)
  have oth: "\<not> is_trial (V i) \<and> (usable (V i) \<longrightarrow> \<not> r + 1 < v_rank (V i))"
    if "i \<in> (if cfg = 2 then {0, 1} else {1, 2})" "i \<noteq> t" for i
  proof -
    have "\<not> is_trial (V i)" using assms(6) that by (auto split: if_splits)
    then show ?thesis using sp(5) [OF that(1)] lt(2) by blast
  qed
  consider "cfg = 2" "t = 0" "c = 1" | "cfg = 2" "t = 1" "c = 0" | "cfg = 3" "t = 1" "c = 0" | "cfg = 3" "t = 2" "c = 0"
    | "cfg = 3" "t = 1" "c = 2" | "cfg = 3" "t = 2" "c = 1"
  proof (cases "cfg = 2")
    case True
    then have "(t = 0 \<or> t = 1) \<and> (c = 0 \<or> c = 1)" using sp(6) [OF assms(3)] sp(7) by simp
    with True assms(4) that(1,2) show ?thesis by blast
  next
    case False
    then have "cfg = 3" "(t = 1 \<or> t = 2) \<and> (c = 0 \<or> c = 1 \<or> c = 2)"
      using sp(6) [OF assms(3)] u8_less_3 [OF sp(3)] assms(2) by simp_all
    with assms(4) that(3-6) show ?thesis by blast
  qed
  then show ?thesis
  proof cases
    case 1
    have "abs_accept cfg V = V(0 := (V 0)\<lparr>v_rank := r + 1\<rparr>, 1 := (V 1)\<lparr>v_status := 0\<rparr>)"
      using 1 assms(1) by (simp add: abs_accept_def)
    then show ?thesis using 1 rr t by (simp add: abs_index_def abs_step_def)
  next
    case 2
    have "abs_accept cfg V = V(1 := (V 1)\<lparr>v_rank := r + 1\<rparr>, 0 := (V 0)\<lparr>v_status := 0\<rparr>)"
      using 2 assms(1) by (simp add: abs_accept_def)
    then show ?thesis using 2 rr t by (simp add: abs_index_def abs_step_def)
  next
    case 3
    have "abs_accept cfg V = V(1 := (V 1)\<lparr>v_rank := r + 1\<rparr>)" using 3 assms(1) by (simp add: abs_accept_def)
    then show ?thesis using 3 rr t oth [of 2] lt(1) [OF le] by (simp add: abs_index_def abs_step_def)
  next
    case 4
    have "abs_accept cfg V = V(2 := (V 2)\<lparr>v_rank := r + 1\<rparr>)" using 4 assms(1) by (simp add: abs_accept_def)
    then show ?thesis
      using 4 rr t oth [of 1] lt(1) [OF le] lt(1) [of "v_rank (V 1)"] sp(5) [of 1]
      by (simp add: abs_index_def abs_step_def)
  next
    case 5
    have "abs_accept cfg V = V(1 := (V 1)\<lparr>v_rank := r + 1\<rparr>, 2 := (V 2)\<lparr>v_status := 0\<rparr>)"
      using 5 assms(1) by (simp add: abs_accept_def)
    then show ?thesis using 5 rr t lt(1) [OF le] by (simp add: abs_index_def abs_step_def)
  next
    case 6
    have "abs_accept cfg V = V(2 := (V 2)\<lparr>v_rank := r + 1\<rparr>, 1 := (V 1)\<lparr>v_status := 0\<rparr>)"
      using 6 assms(1) by (simp add: abs_accept_def)
    then show ?thesis using 6 rr t lt(1) [OF le] by (simp add: abs_index_def abs_step_def)
  qed
qed

text \<open>The rank of an accepted descriptor, also when it wraps. With two descriptors the search starts with
  descriptor 0 as the current one; when that is the trial and no other has a rank, it is taken for both and
  the accepted descriptor itself is made invalid.\<close>

lemma abs_accept_rank: "abs_index cfg V = (t, c, r) \<Longrightarrow> v_rank (abs_accept cfg V t) = r + 1"
  by (simp add: abs_accept_def Let_def)

lemma abs_index_same:
  assumes "abs_index cfg V = (t, t, r)" and "cfg \<in> {2, 3}" and "t \<noteq> FW_UPGRADE_FWD_TRIAL_UNUSED"
  shows "cfg = 2 \<and> t = 0 \<and> r = 0 \<and> \<not> (usable (V 1) \<and> 0 < v_rank (V 1))"
  using assms by (auto simp: abs_index_def abs_step_def is_trial_def split: if_splits)

lemma abs_accept_same:
  assumes "abs_index cfg V = (t, t, r)" and "cfg \<in> {2, 3}" and "t \<noteq> FW_UPGRADE_FWD_TRIAL_UNUSED"
    and "\<forall>i < 3. is_trial (V i) \<longrightarrow> i = t"
  shows "abs_index cfg (abs_accept cfg V) = (FW_UPGRADE_FWD_TRIAL_UNUSED, 0, 0)"
proof -
  have s: "cfg = 2" "t = 0" "r = 0" "\<not> (usable (V 1) \<and> 0 < v_rank (V 1))" "\<not> is_trial (V 1)"
    using abs_index_same [OF assms(1-3)] assms(4) [rule_format, of 1] by auto
  then show ?thesis using assms(1) by (simp add: abs_accept_def abs_index_def [of _ "V(_ := _)"] abs_step_def)
qed

lemma abs_index_reject:
  assumes "abs_index cfg V = (t, c, r)" and "cfg \<in> {2, 3}" and "t \<noteq> FW_UPGRADE_FWD_TRIAL_UNUSED"
    and "\<forall>i < 3. is_trial (V i) \<longrightarrow> i = t"
  shows "abs_index cfg (abs_reject cfg V) = (FW_UPGRADE_FWD_TRIAL_UNUSED, c, r)"
proof -
  note sp = abs_index_spec [OF assms(1,2)]
  have t: "is_trial (V t)" using sp(2) [OF assms(3)] by simp
  have un: "is_trial (V 0) \<Longrightarrow> t = 0" "is_trial (V 1) \<Longrightarrow> t = 1" "is_trial (V 2) \<Longrightarrow> t = 2"
    using assms(4) [rule_format, of 0] assms(4) [rule_format, of 1] assms(4) [rule_format, of 2] by simp_all
  consider "cfg = 2" "t = 0" | "cfg = 2" "t = 1" | "cfg = 3" "t = 1" | "cfg = 3" "t = 2"
    using sp(6) [OF assms(3)] assms(2) by (fastforce split: if_splits)
  then show ?thesis
    using assms(1) un t
    by cases (auto simp: abs_index_def abs_step_def abs_reject_def assms(1) usable_def fwd_usable_def is_trial_def split: if_splits)
qed

section \<open>Properties: accepting and rejecting a trial\<close>

text \<open>A concrete device for the witnesses: descriptor 0 golden with rank 1, descriptor 1 current with rank 5,
  descriptor 2 on trial; the FDT at \<open>0x204000\<close> says that the trial image is running.\<close>

definition demo_descriptor :: "u32 \<Rightarrow> u8 list" where
  "demo_descriptor rank = enc32 FW_UPGRADE_MAGIC_V1 @ enc32 1 @ enc32 rank @ [1, 1]"

definition demo_flash_mem :: mem where
  "demo_flash_mem = mwrite (mwrite (mwrite (\<lambda>_. 0xFF) 0 (demo_descriptor 1)) 0x1000 (demo_descriptor 5))
     0x2000 (demo_descriptor 0xFFFFFFFF)"

definition demo_rram_mem :: mem where
  "demo_rram_mem = mwrite (\<lambda>_. 0) 0x204000 (enc32 FDT_SIGNATURE @ enc32 1 @ replicate 24 0 @
     enc_fde \<lparr>fde_id = FDE_IMG_ID_APP, fde_rank = FDE_IMG_RANK_TRIAL, fde_format = 0, fde_addr = 2, fde_state = 1,
       fde_version = 1, fde_reserve = [7, 0, 0, 0, 0, 0, 0, 0]\<rparr>)"

definition demo_client :: fu_partition_client where
  "demo_client = \<lparr>ref_count = 0, fwd_idx = 0, img_idx = 0, img_id = 0, img_version = 0, img_start = 0, img_size = 0\<rparr>"

definition demo_fu :: "nat \<Rightarrow> mem \<Rightarrow> fu" where
  "demo_fu cfg m = \<lparr>fu_initialized = True, partition_handles = replicate 10 demo_client,
     fw_upgrade_mem_params = Some \<lparr>mem_start = 0, mem_size = 0x1000000, fwd_region_size = 4096, block_size = 4096\<rparr>,
     fu_flash = demo_flash m, fu_rram = demo_rram demo_rram_mem, fu_alloc = True, fwd_support_num = cfg,
     FDT_START = 0x204000, SBL_MEM_SIZE = 0x8000\<rparr>"

lemma demo_fu_ready [simp]: "fu_ready (demo_fu cfg m)"
  by (simp add: fu_ready_def demo_fu_def demo_flash_ready)

lemma demo_fu_fields [simp]: "fwd_support_num (demo_fu cfg m) = cfg" "fmem (demo_fu cfg m) = m"
  "fdt_mem (demo_fu cfg m) = demo_rram_mem" "FDT_START (demo_fu cfg m) = 0x204000"
  "partition_handles (demo_fu cfg m) = replicate 10 demo_client" "flash_limit (fu_flash (demo_fu cfg m)) = 0x1000000"
  by (simp_all add: demo_fu_def demo_rram_def)

lemmas eval_mem = mread_def mwrite_def mcombine_def enc32_def le32_def rd32_def

lemma demo_views:
  "view demo_flash_mem 0 = \<lparr>v_magic = FW_UPGRADE_MAGIC_V1, v_rank = 1, v_status = 1, v_images = 1\<rparr>"
  "view demo_flash_mem 1 = \<lparr>v_magic = FW_UPGRADE_MAGIC_V1, v_rank = 5, v_status = 1, v_images = 1\<rparr>"
  "view demo_flash_mem 2 = \<lparr>v_magic = FW_UPGRADE_MAGIC_V1, v_rank = 0xFFFFFFFF, v_status = 1, v_images = 1\<rparr>"
  by (simp_all add: view_def Let_def demo_flash_mem_def demo_descriptor_def eval_mem)

lemma demo_index: "abs_index 3 (view demo_flash_mem) = (2, 1, 5)"
  by (simp add: abs_index_def abs_step_def is_trial_def usable_def fwd_usable_def demo_views)

lemma demo_one_trial: "\<forall>i < 3. is_trial (view (fmem (demo_fu cfg demo_flash_mem)) i) \<longrightarrow> i = 2"
  by (auto simp: is_trial_def demo_views dest!: u8_less_3)

lemma demo_active: "fst (snd (fw_upgrade_get_active_fwd True (demo_fu cfg m))) = Some FW_UPGRADE_FWD_BOOT_TYPE_TRIAL"
  by (simp add: fw_upgrade_get_active_fwd_def fdt_bad_def fdt_find_def fdt_fde_def fdt_num_fde_def fde_addr_of_def
    fde_at_def demo_rram_mem_def eval_mem enc_fde_def Let_def nth_append)

lemma index_abs:
  assumes "fu_ready s" and "fwd_support_num s \<in> {2, 3}"
    and "fst (fw_upgrade_get_trial_active_fwd_index s) = (FW_UPGRADE_OK_E, t, c, r)"
  shows "abs_index (fwd_support_num s) (view (fmem s)) = (t, c, r)" and "t \<noteq> FW_UPGRADE_FWD_TRIAL_UNUSED"
proof -
  obtain t' c' r' where a: "abs_index (fwd_support_num s) (view (fmem s)) = (t', c', r')" by (metis prod.collapse)
  from get_trial_active_ok [OF assms(1,2) a] assms(3)
  have "t' = t \<and> c' = c \<and> r' = r \<and> t \<noteq> FW_UPGRADE_FWD_TRIAL_UNUSED" by (auto split: if_splits)
  with a show "abs_index (fwd_support_num s) (view (fmem s)) = (t, c, r)" "t \<noteq> FW_UPGRADE_FWD_TRIAL_UNUSED" by simp_all
qed

lemma abs_index_cong: "(\<And>i. i < 3 \<Longrightarrow> V i = W i) \<Longrightarrow> abs_index cfg V = abs_index cfg W"
  by (simp add: abs_index_def abs_step_def)

text \<open>C8. Accepting a trial on a working flash, when the trial is the only one and is the image that runs:
  the call succeeds and gives the descriptor the next rank (computed in 32 bits). When another descriptor is
  current and its rank is not at the end of the range, the accepted one is then the current one and no trial
  is left. The search reports the trial itself as the current one only with two descriptors, when descriptor 0
  is the trial and descriptor 1 has no rank; then accepting makes the accepted descriptor invalid, and no
  descriptor with a rank is left. With three descriptors the golden one is never touched.\<close>

theorem accept_trial_becomes_current:
  assumes "fu_ready s" and "fwd_support_num s \<in> {2, 3}"
    and "fst (fw_upgrade_get_trial_active_fwd_index s) = (FW_UPGRADE_OK_E, t, c, r)"
    and "\<forall>i < 3. is_trial (view (fmem s) i) \<longrightarrow> i = t"
    and "fst (snd (fw_upgrade_get_active_fwd True s)) = Some FW_UPGRADE_FWD_BOOT_TYPE_TRIAL"
  shows "\<exists>s'. fw_upgrade_accept_trial_fwd junk s = (FW_UPGRADE_OK_E, s') \<and> v_rank (view (fmem s') t) = r + 1 \<and>
    (t \<noteq> c \<longrightarrow> r < 0xFFFFFFFE \<longrightarrow>
       fst (fw_upgrade_get_trial_active_fwd_index s') = (FW_UPGRADE_ERROR_E, FW_UPGRADE_FWD_TRIAL_UNUSED, t, r + 1)) \<and>
    (t = c \<longrightarrow> fwd_support_num s = 2 \<and> t = 0 \<and> \<not> usable (view (fmem s') t) \<and>
       fst (fw_upgrade_get_trial_active_fwd_index s') = (FW_UPGRADE_ERROR_E, FW_UPGRADE_FWD_TRIAL_UNUSED, 0, 0)) \<and>
    (fwd_support_num s = 3 \<longrightarrow> view (fmem s') 0 = view (fmem s) 0)"
proof -
  let ?V = "view (fmem s)"
  note ix = index_abs [OF assms(1-3)]
  note sp = abs_index_spec [OF ix(1) assms(2)]
  obtain m' k where acc: "fw_upgrade_accept_trial_fwd junk s = (FW_UPGRADE_OK_E, put_mem m' k s)"
    and v: "\<And>i. i < 3 \<Longrightarrow> view m' i = abs_accept (fwd_support_num s) ?V i"
    using accept_refines [OF assms(1,2) ix(1,2) assms(5)] by blast
  have t3: "t < 3" using sp(2) [OF ix(2)] by simp
  have after: "fst (fw_upgrade_get_trial_active_fwd_index (put_mem m' k s)) = (FW_UPGRADE_ERROR_E, FW_UPGRADE_FWD_TRIAL_UNUSED, c', r')"
    if "abs_index (fwd_support_num s) (abs_accept (fwd_support_num s) ?V) = (FW_UPGRADE_FWD_TRIAL_UNUSED, c', r')" for c' r'
    using get_trial_active_ok [of "put_mem m' k s" FW_UPGRADE_FWD_TRIAL_UNUSED c' r'] assms(1,2) that abs_index_cong [OF v] by auto
  have "v_rank (view m' t) = r + 1" using abs_accept_rank [OF ix(1)] v [OF t3] by simp
  moreover have "fst (fw_upgrade_get_trial_active_fwd_index (put_mem m' k s)) = (FW_UPGRADE_ERROR_E, FW_UPGRADE_FWD_TRIAL_UNUSED, t, r + 1)"
    if "t \<noteq> c" "r < 0xFFFFFFFE"
    by (rule after [OF abs_index_accept [OF ix(1) assms(2) ix(2) that assms(4)]])
  moreover have "fwd_support_num s = 2 \<and> t = 0 \<and> \<not> usable (view m' t) \<and>
      fst (fw_upgrade_get_trial_active_fwd_index (put_mem m' k s)) = (FW_UPGRADE_ERROR_E, FW_UPGRADE_FWD_TRIAL_UNUSED, 0, 0)"
    if "t = c"
  proof -
    have x: "abs_index (fwd_support_num s) ?V = (t, t, r)" using ix(1) that by simp
    have "\<not> usable (view m' t)" using v [OF t3] x abs_index_same [OF x assms(2) ix(2)] by (simp add: abs_accept_def Let_def)
    then show ?thesis using after [OF abs_accept_same [OF x assms(2) ix(2) assms(4)]] abs_index_same [OF x assms(2) ix(2)] by simp
  qed
  moreover have "view m' 0 = ?V 0" if "fwd_support_num s = 3"
  proof -
    have "t \<noteq> 0" using sp(2) ix(2) that by simp
    with ix(1) that v [of 0] show ?thesis by (simp add: abs_accept_def Let_def)
  qed
  ultimately show ?thesis using acc by (intro exI [of _ "put_mem m' k s"]) simp
qed

text \<open>A device with two descriptors of which only the first is in use, on trial.\<close>

definition demo_single_mem :: mem where
  "demo_single_mem = mwrite (\<lambda>_. 0xFF) 0 (demo_descriptor 0xFFFFFFFF)"

lemma demo_single_views:
  "view demo_single_mem 0 = \<lparr>v_magic = FW_UPGRADE_MAGIC_V1, v_rank = 0xFFFFFFFF, v_status = 1, v_images = 1\<rparr>"
  "view demo_single_mem 1 = \<lparr>v_magic = 0xFFFFFFFF, v_rank = 0xFFFFFFFF, v_status = 0xFF, v_images = 0xFF\<rparr>"
  "view demo_single_mem 2 = \<lparr>v_magic = 0xFFFFFFFF, v_rank = 0xFFFFFFFF, v_status = 0xFF, v_images = 0xFF\<rparr>"
  by (simp_all add: view_def Let_def demo_single_mem_def demo_descriptor_def eval_mem)

lemma demo_single_index: "abs_index 2 (view demo_single_mem) = (0, 0, 0)"
  by (simp add: abs_index_def abs_step_def is_trial_def usable_def fwd_usable_def demo_single_views)

lemma demo_single_trial: "\<forall>i < 3. is_trial (view (fmem (demo_fu cfg demo_single_mem)) i) \<longrightarrow> i = 0"
  by (auto simp: is_trial_def usable_def fwd_usable_def demo_single_views dest!: u8_less_3)

theorem accept_trial_becomes_current_witness:
  "fst (fw_upgrade_get_trial_active_fwd_index (snd (fw_upgrade_accept_trial_fwd 0 (demo_fu 3 demo_flash_mem)))) =
     (FW_UPGRADE_ERROR_E, FW_UPGRADE_FWD_TRIAL_UNUSED, 2, 6) \<and>
   \<not> usable (view (fmem (snd (fw_upgrade_accept_trial_fwd 0 (demo_fu 2 demo_single_mem)))) 0)"
proof
  let ?s = "demo_fu 3 demo_flash_mem"
  have "\<forall>i < 3. is_trial (view (fmem ?s) i) \<longrightarrow> i = 2" by (rule demo_one_trial)
  moreover have "fst (fw_upgrade_get_trial_active_fwd_index ?s) = (FW_UPGRADE_OK_E, 2, 1, 5)"
    using get_trial_active_ok [of ?s 2 1 5] by (auto simp: demo_index)
  ultimately show "fst (fw_upgrade_get_trial_active_fwd_index (snd (fw_upgrade_accept_trial_fwd 0 ?s))) =
     (FW_UPGRADE_ERROR_E, FW_UPGRADE_FWD_TRIAL_UNUSED, 2, 6)"
    using accept_trial_becomes_current [of ?s 2 1 5 0] demo_active by auto
  let ?s = "demo_fu 2 demo_single_mem"
  have "\<forall>i < 3. is_trial (view (fmem ?s) i) \<longrightarrow> i = 0" by (rule demo_single_trial)
  moreover have "fst (fw_upgrade_get_trial_active_fwd_index ?s) = (FW_UPGRADE_OK_E, 0, 0, 0)"
    using get_trial_active_ok [of ?s 0 0 0] by (auto simp: demo_single_index)
  ultimately show "\<not> usable (view (fmem (snd (fw_upgrade_accept_trial_fwd 0 ?s))) 0)"
    using accept_trial_becomes_current [of ?s 0 0 0 0] demo_active by auto
qed

text \<open>Rejecting a trial leaves no trial descriptor and the current descriptor and its rank as they were, on
  every path, also when the boot loader entry cannot be rejected.\<close>

theorem reject_trial_leaves_current:
  assumes "fu_ready s" and "fwd_support_num s \<in> {2, 3}"
    and "fst (fw_upgrade_get_trial_active_fwd_index s) = (FW_UPGRADE_OK_E, t, c, r)"
    and "\<forall>i < 3. is_trial (view (fmem s) i) \<longrightarrow> i = t"
  shows "abs_index (fwd_support_num s) (view (fmem (snd (fw_upgrade_reject_trial_fwd s)))) =
      (FW_UPGRADE_FWD_TRIAL_UNUSED, c, r) \<and>
    (\<forall>i < 3. i \<noteq> t \<longrightarrow> view (fmem (snd (fw_upgrade_reject_trial_fwd s))) i = view (fmem s) i)"
proof -
  let ?V = "view (fmem s)" and ?m = "fmem (snd (fw_upgrade_reject_trial_fwd s))"
  note ix = index_abs [OF assms(1-3)]
  have v: "view ?m i = abs_reject (fwd_support_num s) ?V i" if "i < 3" for i
    using reject_refines [OF assms(1,2) ix(1,2) that] .
  have "abs_index (fwd_support_num s) (view ?m) = (FW_UPGRADE_FWD_TRIAL_UNUSED, c, r)"
    using abs_index_reject [OF ix(1) assms(2) ix(2) assms(4)] abs_index_cong [OF v] by simp
  moreover have "view ?m i = ?V i" if "i < 3" "i \<noteq> t" for i
    using v [OF that(1)] that(2) by (simp add: abs_reject_def ix(1))
  ultimately show ?thesis by blast
qed

theorem reject_trial_leaves_current_witness:
  "abs_index 3 (view (fmem (snd (fw_upgrade_reject_trial_fwd (demo_fu 3 demo_flash_mem))))) =
     (FW_UPGRADE_FWD_TRIAL_UNUSED, 1, 5)"
proof -
  let ?s = "demo_fu 3 demo_flash_mem"
  have "\<forall>i < 3. is_trial (view (fmem ?s) i) \<longrightarrow> i = 2" by (rule demo_one_trial)
  moreover have "fst (fw_upgrade_get_trial_active_fwd_index ?s) = (FW_UPGRADE_OK_E, 2, 1, 5)"
    using get_trial_active_ok [of ?s 2 1 5] by (auto simp: demo_index)
  ultimately show ?thesis
    using reject_trial_leaves_current [of ?s 2 1 5] by simp
qed

section \<open>Partitions\<close>

text \<open>What the parameter check guarantees, as long as the sum does not wrap.\<close>

lemma params_ok_bounds:
  assumes "fw_upgrade_mem_parameters_validation (Some i) off n s = FW_UPGRADE_OK_E"
    and "unat (img_start (client s i)) + unat off + unat n < 2 ^ 32"
    and "unat (img_start (client s i)) + unat (img_size (client s i)) < 2 ^ 32"
  shows "unat off + unat n \<le> unat (img_size (client s i))" and "n \<noteq> 0"
    and "i < length (partition_handles s)" and "0 < ref_count (client s i)"
proof -
  note v = assms(1) [unfolded fw_upgrade_mem_parameters_validation_def Let_def fw_upgrade_partition_handle_validation_def]
  show "n \<noteq> 0" "i < length (partition_handles s)" "0 < ref_count (client s i)"
    using v by (auto split: if_splits)
  have "img_start (client s i) + off + n \<le> img_start (client s i) + img_size (client s i)"
    using v by (auto simp: not_less split: if_splits)
  then show "unat off + unat n \<le> unat (img_size (client s i))"
    using assms(2,3) by (simp add: word_le_nat_alt unat_word_ariths)
qed

lemma fl_write_frame: "\<not> in_range a (unat n) x \<Longrightarrow> fmem (snd (fl_write a n bs s)) x = fmem s x"
  by (simp add: fl_write_def case_prod_beta drv_flash_write_frame)

text \<open>C10. A partition write that does not wrap around the address space changes no flash cell outside the
  partition, whatever the flash answers.\<close>

theorem partition_write_confined:
  assumes "unat (img_start (client s i)) + unat off + unat n < 2 ^ 32"
    and "unat (img_start (client s i)) + unat (img_size (client s i)) < 2 ^ 32"
    and "fmem (snd (fw_upgrade_write_partition (Some i) off src bs n s)) x \<noteq> fmem s x"
  shows "in_range (img_start (client s i)) (unat (img_size (client s i))) x"
proof -
  have v: "fw_upgrade_mem_parameters_validation (Some i) off n s = FW_UPGRADE_OK_E"
    using assms(3) by (auto simp: fw_upgrade_write_partition_def split: if_splits)
  have "in_range (img_start (client s i) + off) (unat n) x"
    using assms(3) fl_write_frame [of "img_start (client s i) + off" n x bs s]
    by (auto simp: fw_upgrade_write_partition_def Let_def v case_prod_beta split: if_splits)
  then have "in_range (img_start (client s i) + of_nat (unat off)) (unat n) x" by simp
  from in_range_shift [OF this] params_ok_bounds(1) [OF v assms(1,2)] assms(1)
  show ?thesis using in_range_mono by fastforce
qed

theorem partition_write_confined_witness:
  "fmem (snd (fw_upgrade_write_partition (Some 0) 0x10 0 [1, 2] 2
     (set_client 0 (demo_client\<lparr>ref_count := 1, img_id := 10, img_start := 0x10000, img_size := 0x1000\<rparr>)
       (demo_fu 3 (\<lambda>_. 0xFF))))) 0x2000 = 0xFF"
  (is "fmem (snd (fw_upgrade_write_partition _ _ _ _ _ ?s)) _ = _")
proof (rule ccontr)
  assume "fmem (snd (fw_upgrade_write_partition (Some 0) 0x10 0 [1, 2] 2 ?s)) 0x2000 \<noteq> 0xFF"
  then have "in_range (img_start (client ?s 0)) (unat (img_size (client ?s 0))) 0x2000"
    by (intro partition_write_confined [of ?s 0 "0x10" 2 0 "[1, 2]" "0x2000"]) (simp_all add: demo_fu_def)
  then show False by (simp add: in_range_def demo_fu_def)
qed

text \<open>The bound of the parameter check is computed in 32 bits: with the offset \<open>2 ^ 32 - img_start\<close> every
  write shorter than the partition's end address passes and lands at address 0, on the firmware descriptors.\<close>

theorem partition_write_wraps:
  assumes "fu_ready s" and "i < FW_UPGRADE_MAX_HANDLES" and "0 < ref_count (client s i)" and "img_id (client s i) \<noteq> SBL_IMG_ID"
    and "n \<noteq> 0" and "n \<le> img_start (client s i) + img_size (client s i)" and "n \<le> flash_limit (fu_flash s)"
  shows "\<exists>k. fw_upgrade_write_partition (Some i) (- img_start (client s i)) src bs n s =
    (FW_UPGRADE_OK_E, put_mem (mcombine (AND) (fmem s) 0 (take (unat n) bs)) k s)"
proof -
  have "fw_upgrade_mem_parameters_validation (Some i) (- img_start (client s i)) n s = FW_UPGRADE_OK_E"
    using assms(1-3,5,6)
    by (simp add: fw_upgrade_mem_parameters_validation_def fw_upgrade_partition_handle_validation_def fu_ready_def not_less)
  moreover obtain k where "fl_write 0 n bs s = (FLASH_DEVICE_DONE, put_mem (mcombine (AND) (fmem s) 0 (take (unat n) bs)) k s)"
    using fl_write_ok [OF assms(1,5), of 0 bs] assms(7) by (auto simp: word_le_nat_alt)
  ultimately show ?thesis using assms(4) by (auto simp: fw_upgrade_write_partition_def Let_def)
qed

theorem partition_write_wraps_witness:
  "\<exists>k. fw_upgrade_write_partition (Some 0) (- 0x10000) 0 [0, 0, 0, 0] 4
     (set_client 0 (demo_client\<lparr>ref_count := 1, img_id := 10, img_start := 0x10000, img_size := 0x1000\<rparr>)
       (demo_fu 3 demo_flash_mem)) =
   (FW_UPGRADE_OK_E, put_mem (mcombine (AND) demo_flash_mem 0 [0, 0, 0, 0]) k
     (set_client 0 (demo_client\<lparr>ref_count := 1, img_id := 10, img_start := 0x10000, img_size := 0x1000\<rparr>)
       (demo_fu 3 demo_flash_mem)))"
  using partition_write_wraps [of "set_client 0 (demo_client\<lparr>ref_count := 1, img_id := 10, img_start := 0x10000,
      img_size := 0x1000\<rparr>) (demo_fu 3 demo_flash_mem)" 0 4 0 "[0, 0, 0, 0]"]
  by simp

text \<open>Entry \<open>j\<close> of a descriptor, in place.\<close>

definition entry_at :: "mem \<Rightarrow> u32 \<Rightarrow> image_entry" where
  "entry_at m b = \<lparr>image_id = rd32 m b, start_block = rd32 m (b + 4), total_blocks = rd32 m (b + 8),
     entry_version = rd32 m (b + 12)\<rparr>"

definition slot :: "u8 \<Rightarrow> nat \<Rightarrow> u32" where
  "slot fwd j = 4096 * ucast fwd + 32 + of_nat j * 16"

lemma fwd_entry_at: "j < 30 \<Longrightarrow> fwd_entry (mread m (4096 * ucast fwd) 512) j = entry_at m (slot fwd j)"
  by (simp add: fwd_entry_def entry_at_def slot_def Let_def get32_mread algebra_simps)

lemma length_enc_entry [simp]: "length (enc_entry e) = 16"
  by (simp add: enc_entry_def)

lemma entry_at_read:
  assumes "mread m b 16 = enc_entry e"
  shows "entry_at m b = e"
proof -
  have "rd32 m (b + of_nat k) = le32 (take 4 (drop k (enc_entry e)))" if "k + 4 \<le> 16" for k
    using take_drop_mread [OF that, of m b] assms by (simp add: rd32_def)
  from this [of 0] this [of 4] this [of 8] this [of 12] show ?thesis
    by (cases e) (simp add: entry_at_def enc_entry_def)
qed

lemma slot_apart:
  assumes "j < 30" and "i < 30" and "j \<noteq> i"
  shows "16 \<le> unat (slot fwd j - slot fwd i)" and "unat (slot fwd j - slot fwd i) + 16 \<le> 2 ^ 32"
proof -
  have e: "slot fwd j - slot fwd i = of_nat (16 * j) - (of_nat (16 * i) :: u32)" by (simp add: slot_def mult.commute)
  have d: "unat (slot fwd j - slot fwd i) = (if 16 * i \<le> 16 * j then 16 * j - 16 * i else 2 ^ 32 + 16 * j - 16 * i)"
    unfolding e unat_diff_u32 using assms(1,2) by (simp add: unat_of_nat_u32 del: of_nat_mult)
  show "16 \<le> unat (slot fwd j - slot fwd i)" "unat (slot fwd j - slot fwd i) + 16 \<le> 2 ^ 32"
    unfolding d using assms by auto
qed

lemma entry_at_other:
  assumes "mread m' b 16 = mread m b 16"
  shows "entry_at m' b = entry_at m b"
proof -
  have "rd32 m' (b + of_nat k) = rd32 m (b + of_nat k)" if "k + 4 \<le> 16" for k
    using take_drop_mread [OF that, of m b] take_drop_mread [OF that, of m' b] assms by (simp add: rd32_def)
  from this [of 0] this [of 4] this [of 8] this [of 12] show ?thesis by (simp add: entry_at_def)
qed

lemma and_all_ones_u8 [simp]: "(0xFF :: u8) AND x = x"
proof -
  have "(0xFF :: u8) = - 1" by simp
  then show ?thesis by (metis and.left_neutral)
qed

lemma map2_and_erased: "length bs = n \<Longrightarrow> map2 (AND) (replicate n (0xFF :: u8)) bs = bs"
  by (rule nth_equalityI) simp_all

lemma program_slot:
  assumes "j < 30" and "i < 30" and "mread m (slot fwd i) 16 = replicate 16 0xFF"
  shows "entry_at (mcombine (AND) m (slot fwd i) (enc_entry e)) (slot fwd j) = (if j = i then e else entry_at m (slot fwd j))"
proof (cases "j = i")
  case True
  have "mread (mcombine (AND) m (slot fwd i) (enc_entry e)) (slot fwd i) 16 = enc_entry e"
    using mread_mcombine_same [of "enc_entry e" "(AND)" m "slot fwd i"] assms(3) by (simp add: map2_and_erased)
  with True show ?thesis by (simp add: entry_at_read)
next
  case False
  have "mread (mcombine (AND) m (slot fwd i) (enc_entry e)) (slot fwd j) 16 = mread m (slot fwd j) 16"
    using slot_apart [OF assms(1,2) False] by (intro mread_apart) simp_all
  from entry_at_other [OF this] False show ?thesis by simp
qed

text \<open>The descriptor read of a lookup, on a working flash.\<close>

lemma read_fwd_ok:
  assumes "fu_ready s" and "fwd < 3"
  shows "\<exists>k. fl_read (fwd_base fwd s) 512 s = ((FLASH_DEVICE_DONE, mread (fmem s) (4096 * ucast fwd) 512), tick k s)"
proof -
  have "unat (4096 * ucast fwd :: u32) + 512 \<le> 3 * 4096"
    using field_addr(1) [OF assms(2), of 0 512] by simp
  then show ?thesis
    using fl_read_ok [OF assms(1), of 512 "4096 * ucast fwd"] assms(1) fwd_base_ready [OF assms(1)]
    by (simp add: fu_ready_def)
qed

lemma find_entry_cong:
  "(\<And>j. j < 30 \<Longrightarrow> P j = Q j) \<Longrightarrow> find_idx P [0 ..< 30] = find_idx Q [0 ..< 30]"
  by (rule find_idx_cong) (simp only: set_upt atLeastLessThan_iff)

lemma find_partition_ok:
  assumes "fu_ready s" and "fwd < 3" and "fw_upgrade_get_partition_client_entry s = Some h"
    and "find_idx (\<lambda>j. image_id (entry_at (fmem s) (slot fwd j)) = iid) [0 ..< MAX_FW_IMAGE_ENTRIES] = Some i"
  shows "\<exists>k. fw_upgrade_find_partition fwd iid s =
    ((FW_UPGRADE_OK_E, Some h),
     set_client h (client_of_entry fwd i iid (entry_at (fmem s) (slot fwd i)) s) (tick k s))"
proof -
  obtain k where k: "fl_read (fwd_base fwd s) 512 s =
      ((FLASH_DEVICE_DONE, mread (fmem s) (4096 * ucast fwd) 512), tick k s)" using read_fwd_ok [OF assms(1,2)] by blast
  have i: "i < 30" using assms(4) by (auto simp: find_idx_Some)
  have "find_idx (\<lambda>j. image_id (fwd_entry (mread (fmem s) (4096 * ucast fwd) 512) j) = iid) [0 ..< 30] = Some i"
    using assms(4) by (subst find_entry_cong [where Q = "\<lambda>j. image_id (entry_at (fmem s) (slot fwd j)) = iid"])
      (simp_all add: fwd_entry_at)
  then show ?thesis
    using assms(1-3) fu_ready_simps(3) [OF assms(1)] k i
    by (auto simp: fw_upgrade_find_partition_def fwd_entry_at client_of_entry_def not_le)
qed

lemma create_partition_ok:
  assumes "fu_ready s" and "fwd < 3" and "fw_upgrade_get_partition_client_entry s = Some h"
    and "iid \<noteq> SBL_IMG_ID \<longrightarrow> start mod 4096 = 0 \<and> sz mod 4096 = 0"
    and "find_idx (\<lambda>j. image_id (entry_at (fmem s) (slot fwd j)) = FW_UPGRADE_FWD_IMAGE_UNUSED) [0 ..< MAX_FW_IMAGE_ENTRIES] = Some i"
  shows "\<exists>k. fw_upgrade_create_partition fwd iid version start sz s =
    ((FW_UPGRADE_OK_E, Some h),
     set_client h \<lparr>ref_count = 1, fwd_idx = fwd, img_idx = of_nat i, img_id = iid, img_version = version,
         img_start = start, img_size = sz\<rparr>
       (put_mem (mcombine (AND) (fmem s) (slot fwd i) (enc_entry
          (if iid \<noteq> SBL_IMG_ID
           then \<lparr>image_id = iid, start_block = start div 4096, total_blocks = sz div 4096, entry_version = version\<rparr>
           else \<lparr>image_id = iid, start_block = start, total_blocks = sz, entry_version = version\<rparr>))) k s))"
proof -
  obtain k where k: "fl_read (fwd_base fwd s) 512 s =
      ((FLASH_DEVICE_DONE, mread (fmem s) (4096 * ucast fwd) 512), tick k s)" using read_fwd_ok [OF assms(1,2)] by blast
  have i: "i < 30" using assms(5) by (auto simp: find_idx_Some)
  have fi: "find_idx (\<lambda>j. image_id (fwd_entry (mread (fmem s) (4096 * ucast fwd) 512) j) = 0xFFFFFFFF) [0 ..< 30] = Some i"
    using assms(5) by (subst find_entry_cong [where Q = "\<lambda>j. image_id (entry_at (fmem s) (slot fwd j)) = 0xFFFFFFFF"])
      (simp_all add: fwd_entry_at)
  have o: "unat (32 + of_nat i * 16 :: u32) = 32 + i * 16" using i by (simp add: unat_word_ariths unat_of_nat_u32)
  have "unat (slot fwd i) + 16 \<le> 3 * 4096"
    using field_addr(1) [OF assms(2), of "32 + of_nat i * 16" 16] o i by (simp add: slot_def add.assoc)
  then have "unat (slot fwd i) + unat (16 :: u32) \<le> unat (flash_limit (fu_flash (tick k s)))"
    using assms(1) by (simp add: fu_ready_def)
  then have "\<exists>k'. fl_write (slot fwd i) 16 (enc_entry e) (tick k s) =
      (FLASH_DEVICE_DONE, put_mem (mcombine (AND) (fmem s) (slot fwd i) (enc_entry e)) k' s)" for e
    using fl_write_ok [of "tick k s" 16 "slot fwd i" "enc_entry e"] assms(1) by simp
  then obtain k' where k': "\<And>e. fl_write (slot fwd i) 16 (enc_entry e) (tick k s) =
      (FLASH_DEVICE_DONE, put_mem (mcombine (AND) (fmem s) (slot fwd i) (enc_entry e)) (k' e) s)" by metis
  have sl: "fwd_base fwd s + 32 + of_nat i * 16 = slot fwd i" by (simp add: slot_def fwd_base_ready [OF assms(1)])
  show ?thesis
    using assms(2-4) fu_ready_simps(2,3) [OF assms(1)] k fi
    by (auto simp: fw_upgrade_create_partition_def Let_def sl k' not_le)
qed

lemma free_handle_found:
  assumes "length (partition_handles s) = 10" and "h < 10" and "ref_count (client s h) = 0"
  obtains h1 where "fw_upgrade_get_partition_client_entry s = Some h1" and "h1 < 10" and "ref_count (client s h1) = 0"
  using assms
  by (cases "fw_upgrade_get_partition_client_entry s")
    (auto simp: fw_upgrade_get_partition_client_entry_def find_idx_None_nth find_idx_Some)

text \<open>C12. A partition created in a descriptor is found again under its image id, with the start, size and version
  it was created with and the same entry index, in a descriptor whose unused entries are erased and that has no
  entry with this id.\<close>

theorem create_find_roundtrip:
  assumes "fu_ready s" and "fwd < 3" and "iid \<noteq> FW_UPGRADE_FWD_IMAGE_UNUSED"
    and "iid \<noteq> SBL_IMG_ID \<longrightarrow> start mod 4096 = 0 \<and> sz mod 4096 = 0"
    and "h < FW_UPGRADE_MAX_HANDLES" and "h' < FW_UPGRADE_MAX_HANDLES" and "h \<noteq> h'"
    and "ref_count (client s h) = 0" and "ref_count (client s h') = 0"
    and "\<exists>j < MAX_FW_IMAGE_ENTRIES. image_id (entry_at (fmem s) (slot fwd j)) = FW_UPGRADE_FWD_IMAGE_UNUSED"
    and "\<forall>j < MAX_FW_IMAGE_ENTRIES. image_id (entry_at (fmem s) (slot fwd j)) \<noteq> iid"
    and "\<forall>j < MAX_FW_IMAGE_ENTRIES. image_id (entry_at (fmem s) (slot fwd j)) = FW_UPGRADE_FWD_IMAGE_UNUSED \<longrightarrow>
           mread (fmem s) (slot fwd j) 16 = replicate 16 0xFF"
  shows "\<exists>h1 h2 s1 s2. fw_upgrade_create_partition fwd iid version start sz s = ((FW_UPGRADE_OK_E, Some h1), s1) \<and>
    fw_upgrade_find_partition fwd iid s1 = ((FW_UPGRADE_OK_E, Some h2), s2) \<and> client s2 h2 = client s1 h1 \<and>
    img_start (client s2 h2) = start \<and> img_size (client s2 h2) = sz \<and> img_version (client s2 h2) = version"
proof -
  let ?E = "\<lambda>m j. entry_at m (slot fwd j)"
  have len: "length (partition_handles s) = 10" using assms(1) by (simp add: fu_ready_def)
  obtain h1 where h1: "fw_upgrade_get_partition_client_entry s = Some h1" and h1l: "h1 < 10" "ref_count (client s h1) = 0"
    using free_handle_found [OF len assms(5,8)] by blast
  obtain i where i: "find_idx (\<lambda>j. image_id (?E (fmem s) j) = FW_UPGRADE_FWD_IMAGE_UNUSED) [0 ..< 30] = Some i"
    using assms(10) by (cases "find_idx (\<lambda>j. image_id (?E (fmem s) j) = FW_UPGRADE_FWD_IMAGE_UNUSED) [0 ..< 30]")
      (auto simp: find_idx_None)
  have i30: "i < 30" and un: "image_id (?E (fmem s) i) = 0xFFFFFFFF" using i by (auto simp: find_idx_Some)
  define e where "e = (if iid \<noteq> SBL_IMG_ID
    then \<lparr>image_id = iid, start_block = start div 4096, total_blocks = sz div 4096, entry_version = version\<rparr>
    else \<lparr>image_id = iid, start_block = start, total_blocks = sz, entry_version = version\<rparr>)"
  define m where "m = mcombine (AND) (fmem s) (slot fwd i) (enc_entry e)"
  define c where "c = \<lparr>ref_count = 1, fwd_idx = fwd, img_idx = of_nat i, img_id = iid, img_version = version,
    img_start = start, img_size = sz\<rparr>"
  obtain k where cr: "fw_upgrade_create_partition fwd iid version start sz s =
      ((FW_UPGRADE_OK_E, Some h1), set_client h1 c (put_mem m k s))"
    using create_partition_ok [OF assms(1,2) h1 assms(4) i, of version] unfolding e_def m_def c_def by blast
  let ?s1 = "set_client h1 c (put_mem m k s)"
  have ent: "?E m j = (if j = i then e else ?E (fmem s) j)" if "j < 30" for j
    unfolding m_def using that i30 un assms(12) by (intro program_slot) auto
  have ide: "image_id e = iid" by (simp add: e_def)
  have fi: "find_idx (\<lambda>j. image_id (?E m j) = iid) [0 ..< 30] = Some i"
    unfolding find_idx_Some using ent i30 ide assms(11) by auto
  have "ref_count (client ?s1 (if h1 = h then h' else h)) = 0" "(if h1 = h then h' else h) < 10" "length (partition_handles ?s1) = 10"
    using assms(5-9) len by (simp_all add: nth_list_update)
  then obtain h2 where h2: "fw_upgrade_get_partition_client_entry ?s1 = Some h2" and h2l: "h2 < 10" "ref_count (client ?s1 h2) = 0"
    using free_handle_found by blast
  have "h2 \<noteq> h1" using h2l h1l len by (auto simp: c_def)
  obtain k2 where fp: "fw_upgrade_find_partition fwd iid ?s1 =
      ((FW_UPGRADE_OK_E, Some h2), set_client h2 (client_of_entry fwd i iid (?E m i) ?s1) (tick k2 ?s1))"
    using find_partition_ok [of ?s1 fwd h2 iid i] assms(1,2) h2 fi by auto
  have "x div 4096 * 4096 = x" if "x mod 4096 = 0" for x :: u32
    using div_mult_mod_eq [of x 4096] that by simp
  then have cl: "client_of_entry fwd i iid (?E m i) ?s1 = c"
    using assms(4) ent [OF i30] fu_ready_simps(2) [OF assms(1)] by (simp add: client_of_entry_def c_def e_def Let_def)
  show ?thesis
    using cr fp cl h1l h2l \<open>h2 \<noteq> h1\<close> len by (auto simp: c_def)
qed

theorem create_find_roundtrip_witness:
  "\<exists>h1 h2 s1 s2. fw_upgrade_create_partition 1 10 7 0x10000 0x20000 (demo_fu 3 (\<lambda>_. 0xFF)) = ((FW_UPGRADE_OK_E, Some h1), s1) \<and>
    fw_upgrade_find_partition 1 10 s1 = ((FW_UPGRADE_OK_E, Some h2), s2) \<and> client s2 h2 = client s1 h1 \<and>
    img_start (client s2 h2) = 0x10000 \<and> img_size (client s2 h2) = 0x20000 \<and> img_version (client s2 h2) = 7"
proof (rule create_find_roundtrip [where h = 0 and h' = 1])
  have e: "image_id (entry_at (\<lambda>_. 0xFF) a) = 0xFFFFFFFF" for a
    by (simp add: entry_at_def rd32_def mread_def le32_def)
  show "\<exists>j<30. image_id (entry_at (fmem (demo_fu 3 (\<lambda>_. 0xFF))) (slot 1 j)) = 0xFFFFFFFF"
    by (rule exI [of _ 0]) (simp add: e)
  show "\<forall>j<30. image_id (entry_at (fmem (demo_fu 3 (\<lambda>_. 0xFF))) (slot 1 j)) \<noteq> 10" by (simp add: e)
  show "\<forall>j<30. image_id (entry_at (fmem (demo_fu 3 (\<lambda>_. 0xFF))) (slot 1 j)) = 0xFFFFFFFF \<longrightarrow>
      mread (fmem (demo_fu 3 (\<lambda>_. 0xFF))) (slot 1 j) 16 = replicate 16 0xFF"
    by (auto intro!: nth_equalityI)
qed (simp_all add: demo_client_def)

end
