(* ===== verification/FwUpgradeFacts.thy ===== *)
theory FwUpgradeFacts
  imports FwUpgrade FwMemFacts
begin

text \<open>
  Correctness of the firmware-upgrade session (\<open>FwUpgrade\<close>): which fields the building blocks touch, the
  termination of the receive loop, the transition relation of the state machine and what holds when it
  finishes, when a trial is published, what an accepted configuration file satisfies, and that the flash holds
  the bytes that were hashed.
\<close>

unbundle bit_operations_syntax

section \<open>Frames\<close>

lemma on_fu_eq: "on_fu f \<sigma> = (fst (f (s_fu \<sigma>)), \<sigma>\<lparr>s_fu := snd (f (s_fu \<sigma>))\<rparr>)"
  by (simp add: on_fu_def case_prod_beta)

lemma open_partition_eq:
  "open_partition f \<sigma> =
     (if fst (fst (f (s_fu \<sigma>))) = FW_UPGRADE_OK_E
      then (True, \<sigma>\<lparr>s_fu := snd (f (s_fu \<sigma>)), partition_hdl := snd (fst (f (s_fu \<sigma>)))\<rparr>)
      else (False, \<sigma>\<lparr>s_fu := snd (f (s_fu \<sigma>))\<rparr>))"
  by (simp add: open_partition_def on_fu_eq case_prod_beta)

lemma ask_eq: "ask f \<sigma> = (f (s_env \<sigma>) (s_n \<sigma>), \<sigma>\<lparr>s_n := Suc (s_n \<sigma>)\<rparr>)"
  by (simp add: ask_def)

lemmas sess_ops = on_fu_eq open_partition_eq ask_eq

text \<open>The control part of a session: everything the storage operations and the digest leave alone.\<close>

definition same_control :: "sess \<Rightarrow> sess \<Rightarrow> bool" where
  "same_control \<sigma> \<sigma>' \<longleftrightarrow> s_state \<sigma>' = s_state \<sigma> \<and> format \<sigma>' = format \<sigma> \<and> buf_len \<sigma>' = buf_len \<sigma> \<and>
     total_images \<sigma>' = total_images \<sigma> \<and> image_index \<sigma>' = image_index \<sigma> \<and> is_first \<sigma>' = is_first \<sigma> \<and>
     session_status \<sigma>' = session_status \<sigma> \<and> flags \<sigma>' = flags \<sigma> \<and> s_env \<sigma>' = s_env \<sigma> \<and>
     trial_fwd_idx \<sigma>' = trial_fwd_idx \<sigma> \<and> img_hdrs \<sigma>' = img_hdrs \<sigma> \<and> config_buf \<sigma>' = config_buf \<sigma>"

lemma same_control_refl [simp]: "same_control \<sigma> \<sigma>"
  by (simp add: same_control_def)

lemma same_control_trans: "same_control \<sigma> \<sigma>' \<Longrightarrow> same_control \<sigma>' \<sigma>'' \<Longrightarrow> same_control \<sigma> \<sigma>''"
  by (simp add: same_control_def)

lemma same_control_upd [simp]:
  "same_control \<sigma> (\<sigma>'\<lparr>s_fu := x\<rparr>) = same_control \<sigma> \<sigma>'" "same_control \<sigma> (\<sigma>'\<lparr>partition_hdl := h\<rparr>) = same_control \<sigma> \<sigma>'"
  "same_control \<sigma> (\<sigma>'\<lparr>digest_ctx := d\<rparr>) = same_control \<sigma> \<sigma>'" "same_control \<sigma> (\<sigma>'\<lparr>s_n := n\<rparr>) = same_control \<sigma> \<sigma>'"
  "same_control \<sigma> (\<sigma>'\<lparr>s_fault := b\<rparr>) = same_control \<sigma> \<sigma>'" "same_control \<sigma> (\<sigma>'\<lparr>buf_offset := o1\<rparr>) = same_control \<sigma> \<sigma>'"
  "same_control \<sigma> (\<sigma>'\<lparr>image_wrt_count := c\<rparr>) = same_control \<sigma> \<sigma>'"
  "same_control \<sigma> (\<sigma>'\<lparr>image_wrt_length := c\<rparr>) = same_control \<sigma> \<sigma>'"
  "same_control \<sigma> (\<sigma>'\<lparr>file_read_count := c\<rparr>) = same_control \<sigma> \<sigma>'"
  "same_control \<sigma> (\<sigma>'\<lparr>trial_mem_start := c\<rparr>) = same_control \<sigma> \<sigma>'"
  "same_control \<sigma> (\<sigma>'\<lparr>hidden_images_count := c\<rparr>) = same_control \<sigma> \<sigma>'"
  "same_control \<sigma> (\<sigma>'\<lparr>download_flag := fl\<rparr>) = same_control \<sigma> \<sigma>'"
  "same_control \<sigma> (\<sigma>'\<lparr>s_ret := r\<rparr>) = same_control \<sigma> \<sigma>'" "same_control \<sigma> (\<sigma>'\<lparr>s_run := b\<rparr>) = same_control \<sigma> \<sigma>'"
  by (simp_all add: same_control_def)

lemma dig_control [simp]: "same_control \<sigma> (dig_start \<sigma>') = same_control \<sigma> \<sigma>'"
  "same_control \<sigma> (dig_update bs \<sigma>') = same_control \<sigma> \<sigma>'"
  by (simp_all add: dig_start_def dig_update_def split: option.split)

lemma release_hdl_control [simp]: "same_control \<sigma> (release_hdl h \<sigma>') = same_control \<sigma> \<sigma>'"
  "same_control \<sigma> (close_partition \<sigma>') = same_control \<sigma> \<sigma>'"
  by (simp_all add: release_hdl_def close_partition_def split: option.split)

lemma hdr_at_control [simp]: "same_control \<sigma> (snd (hdr_at i \<sigma>')) = same_control \<sigma> \<sigma>'"
  by (simp add: hdr_at_def split: option.split)

text \<open>Only the position in the packet, of the parts of a receive pass up to storing the data.\<close>

lemma rcv_create_frame:
  "same_control \<sigma> (snd (rcv_create h \<sigma>))" "buf_offset (snd (rcv_create h \<sigma>)) = buf_offset \<sigma>"
  by (auto simp: rcv_create_def sess_ops Let_def close_partition_def release_hdl_def split: option.split)

lemma verify_frame:
  "same_control \<sigma> (snd (fw_upgrade_verify_image_hash h \<sigma>))"
  "buf_offset (snd (fw_upgrade_verify_image_hash h \<sigma>)) = buf_offset \<sigma>"
  by (auto simp: fw_upgrade_verify_image_hash_def sess_ops Let_def dig_update_def split: option.split)

section \<open>The receive loop ends\<close>

definition rcv_measure :: "sess \<Rightarrow> nat" where
  "rcv_measure \<sigma> = unat (buf_len \<sigma> - buf_offset \<sigma>) + unat (total_images \<sigma> - image_index \<sigma>)"

lemma next_image_fields [simp]:
  "buf_len (next_image h \<sigma>) = buf_len \<sigma>" "buf_offset (next_image h \<sigma>) = buf_offset \<sigma>"
  "total_images (next_image h \<sigma>) = total_images \<sigma>" "image_index (next_image h \<sigma>) = image_index \<sigma> + 1"
  "format (next_image h \<sigma>) = format \<sigma>" "image_wrt_length (next_image h \<sigma>) = 0" "s_state (next_image h \<sigma>) = s_state \<sigma>"
  "is_first (next_image h \<sigma>) = is_first \<sigma>" "session_status (next_image h \<sigma>) = session_status \<sigma>"
  by (simp_all add: next_image_def close_partition_def release_hdl_def Let_def split: option.split)

lemma rcv_open_cases:
  assumes "rcv_open h \<sigma> = (fl, \<sigma>')"
  shows "fl = Go \<Longrightarrow> same_control \<sigma> \<sigma>' \<and> buf_offset \<sigma>' = buf_offset \<sigma>"
    and "fl = Continue \<Longrightarrow> format \<sigma> \<noteq> 1 \<and> buf_len \<sigma>' = buf_len \<sigma> \<and> buf_offset \<sigma>' = buf_offset \<sigma> \<and>
      total_images \<sigma>' = total_images \<sigma> \<and> image_index \<sigma>' = image_index \<sigma> + 1 \<and> image_index \<sigma>' < total_images \<sigma>'"
proof -
  let ?\<sigma> = "\<sigma>\<lparr>image_wrt_count := 0, image_wrt_length := h_image_length h\<rparr>"
  obtain fl1 \<sigma>1 where c: "rcv_create h ?\<sigma> = (fl1, \<sigma>1)" by fastforce
  have f: "same_control \<sigma> \<sigma>1" "buf_offset \<sigma>1 = buf_offset \<sigma>"
    using rcv_create_frame [where \<sigma> = ?\<sigma> and h = h] c by (simp_all add: same_control_def)
  have nc: "fl1 \<noteq> Continue" using c by (auto simp: rcv_create_def sess_ops Let_def split: if_splits)
  show "fl = Go \<Longrightarrow> same_control \<sigma> \<sigma>' \<and> buf_offset \<sigma>' = buf_offset \<sigma>"
    using assms c f nc by (auto simp: rcv_open_def Let_def dig_start_def split: if_splits flow.splits option.splits)
  show "fl = Continue \<Longrightarrow> format \<sigma> \<noteq> 1 \<and> buf_len \<sigma>' = buf_len \<sigma> \<and> buf_offset \<sigma>' = buf_offset \<sigma> \<and>
      total_images \<sigma>' = total_images \<sigma> \<and> image_index \<sigma>' = image_index \<sigma> + 1 \<and> image_index \<sigma>' < total_images \<sigma>'"
    using assms c f nc
    by (auto simp: rcv_open_def Let_def same_control_def set_state_def not_le split: if_splits flow.splits)
qed

lemma write_partition_zero: "fst (fw_upgrade_write_partition hdl off src bs 0 s) \<noteq> FW_UPGRADE_OK_E"
  by (simp add: fw_upgrade_write_partition_def fw_upgrade_mem_parameters_validation_def split: option.split)

lemma rcv_store_go:
  assumes "rcv_store n \<sigma> = (Go, \<sigma>')"
  shows "same_control \<sigma> \<sigma>'" "buf_offset \<sigma>' = buf_offset \<sigma> + n" "n \<noteq> 0"
proof -
  define \<sigma>1 where "\<sigma>1 = dig_update (take (unat n) (drop (unat (buf_offset \<sigma>)) (s_buffer \<sigma>))) \<sigma>"
  have f: "same_control \<sigma> \<sigma>1" "buf_offset \<sigma>1 = buf_offset \<sigma>"
    by (simp_all add: \<sigma>1_def) (simp add: dig_update_def split: option.split)
  note d = assms [unfolded rcv_store_def Let_def, folded \<sigma>1_def]
  show "same_control \<sigma> \<sigma>'" "buf_offset \<sigma>' = buf_offset \<sigma> + n"
    using d f by (auto simp: sess_ops split: if_splits)
  show "n \<noteq> 0" using d write_partition_zero by (auto simp: sess_ops split: if_splits)
qed

lemma rcv_finish_go:
  assumes "rcv_finish h \<sigma> = (Go, \<sigma>')"
  shows "buf_len \<sigma>' = buf_len \<sigma> \<and> buf_offset \<sigma>' = buf_offset \<sigma> \<and> total_images \<sigma>' = total_images \<sigma> \<and> format \<sigma>' = format \<sigma> \<and>
    (image_index \<sigma>' = image_index \<sigma> \<or> format \<sigma> = 1 \<or> image_index \<sigma>' = image_index \<sigma> + 1 \<and> image_index \<sigma>' < total_images \<sigma>)"
  using assms verify_frame [where \<sigma> = \<sigma> and h = h]
  by (auto simp: rcv_finish_def Let_def same_control_def set_state_def case_prod_beta not_le split: if_splits)

lemma rcv_finish_flow: "fst (rcv_finish h \<sigma>) \<noteq> Continue"
  by (simp add: rcv_finish_def Let_def case_prod_beta)

lemma rcv_erase_next_frame: "same_control \<sigma> (snd (rcv_erase_next \<sigma>))" "buf_offset (snd (rcv_erase_next \<sigma>)) = buf_offset \<sigma>"
  "fst (rcv_erase_next \<sigma>) \<noteq> Continue"
  by (simp_all add: rcv_erase_next_def sess_ops)

lemma next_index:
  fixes i n :: u32
  assumes "i < n"
  shows "unat (i + 1) = Suc (unat i)" and "unat (n - (i + 1)) < unat (n - i)"
proof -
  have l: "unat i < unat n" using assms by (simp add: word_less_nat_alt)
  then show s: "unat (i + 1) = Suc (unat i)"
    using unat_u32_bound [of n] by (simp add: unat_word_ariths)
  have "i + 1 \<le> n" using l s by (simp add: word_le_nat_alt)
  then show "unat (n - (i + 1)) < unat (n - i)"
    using assms l s by (simp add: unat_diff_u32 less_imp_le)
qed

lemma rcv_pass_progress:
  assumes "rcv_pass \<sigma> = (fl, \<sigma>')" and "\<forall>st. fl \<noteq> Break st" and "image_index \<sigma> < total_images \<sigma>"
  shows "image_index \<sigma>' < total_images \<sigma>'" and "rcv_measure \<sigma>' < rcv_measure \<sigma>"
proof -
  have off: "format \<sigma> \<noteq> 1 \<longrightarrow> buf_offset \<sigma> < buf_len \<sigma>"
    using assms(1,2) by (auto simp: rcv_pass_def not_le split: if_splits)
  obtain h \<sigma>0 where h: "hdr_at (unat (image_index \<sigma>)) \<sigma> = (h, \<sigma>0)" by fastforce
  have c0: "same_control \<sigma> \<sigma>0" "buf_offset \<sigma>0 = buf_offset \<sigma>"
    using hdr_at_control [of \<sigma> "unat (image_index \<sigma>)" \<sigma>] h by (auto simp: hdr_at_def split: option.splits)
  obtain f1 \<sigma>1 where o1: "rcv_open h \<sigma>0 = (f1, \<sigma>1)" by fastforce
  have dec: "image_index \<sigma>' < total_images \<sigma>' \<and> rcv_measure \<sigma>' < rcv_measure \<sigma>"
    if "buf_len \<sigma>' = buf_len \<sigma>" "total_images \<sigma>' = total_images \<sigma>" "buf_offset \<sigma>' = buf_offset \<sigma>"
      "image_index \<sigma>' = image_index \<sigma> + 1" "image_index \<sigma>' < total_images \<sigma>"
    using that next_index(2) [OF assms(3)] by (simp add: rcv_measure_def)
  have dec2: "rcv_measure \<sigma>' < rcv_measure \<sigma>"
    if "buf_len \<sigma>' = buf_len \<sigma>" "total_images \<sigma>' = total_images \<sigma>" "buf_offset \<sigma>' = buf_offset \<sigma> + n" "n \<noteq> 0"
      "n \<le> buf_len \<sigma> - buf_offset \<sigma>" "buf_offset \<sigma> < buf_len \<sigma>"
      "image_index \<sigma>' = image_index \<sigma> \<or> image_index \<sigma>' = image_index \<sigma> + 1 \<and> image_index \<sigma>' < total_images \<sigma>" for n
  proof -
    define d where "d = buf_len \<sigma> - buf_offset \<sigma>"
    have "buf_len \<sigma>' - buf_offset \<sigma>' = d - n" using that(1,3) by (simp add: d_def)
    then have "unat (buf_len \<sigma>' - buf_offset \<sigma>') < unat (buf_len \<sigma> - buf_offset \<sigma>)"
      using that(4,5) unat_gt_0 [of n] unfolding d_def [symmetric] by (simp add: unat_diff_u32 word_le_nat_alt)
    moreover have "unat (total_images \<sigma>' - image_index \<sigma>') \<le> unat (total_images \<sigma> - image_index \<sigma>)"
      using that(2,7) next_index(2) [OF assms(3)] by auto
    ultimately show ?thesis by (simp add: rcv_measure_def)
  qed
  note p = assms(1) [unfolded rcv_pass_def, unfolded h prod.case, unfolded o1 prod.case]
  show "image_index \<sigma>' < total_images \<sigma>'" "rcv_measure \<sigma>' < rcv_measure \<sigma>"
  proof -
    consider "f1 = Continue" | "f1 = Go" using p assms(2) by (cases f1) (auto split: if_splits)
    then have "image_index \<sigma>' < total_images \<sigma>' \<and> rcv_measure \<sigma>' < rcv_measure \<sigma>"
    proof cases
      case 1
      then have "\<sigma>' = \<sigma>1" using p assms(2) by (auto split: if_splits)
      with rcv_open_cases(2) [OF o1 1] c0 dec show ?thesis by (auto simp: same_control_def)
    next
      case 2
      have c1: "same_control \<sigma> \<sigma>1" "buf_offset \<sigma>1 = buf_offset \<sigma>"
        using rcv_open_cases(1) [OF o1 2] c0 same_control_trans by auto
      obtain n \<sigma>2 where l: "rcv_len \<sigma>1 = (Some n, \<sigma>2)"
        using p 2 assms(2) by (cases "rcv_len \<sigma>1"; cases "fst (rcv_len \<sigma>1)") (auto split: if_splits)
      obtain \<sigma>3 where s3: "rcv_store n \<sigma>2 = (Go, \<sigma>3)"
        using p 2 l assms(2) by (cases "rcv_store n \<sigma>2"; cases "fst (rcv_store n \<sigma>2)")
          (auto simp: rcv_store_def Let_def sess_ops split: if_splits)
      obtain \<sigma>4 where s4: "rcv_finish h \<sigma>3 = (Go, \<sigma>4)"
        using p 2 l s3 assms(2) rcv_finish_flow [of h \<sigma>3]
        by (cases "rcv_finish h \<sigma>3"; cases "fst (rcv_finish h \<sigma>3)") (auto split: if_splits)
      obtain \<sigma>5 where s5: "rcv_erase_next \<sigma>4 = (Go, \<sigma>5)"
        using p 2 l s3 s4 assms(2) rcv_erase_next_frame(3) [of \<sigma>4]
        by (cases "rcv_erase_next \<sigma>4"; cases "fst (rcv_erase_next \<sigma>4)") (auto split: if_splits)
      have e: "\<sigma>' = \<sigma>5" "format \<sigma>5 \<noteq> 1" using p 2 l s3 s4 s5 assms(2) by (auto split: if_splits)
      note f5 = rcv_erase_next_frame(1,2) [of \<sigma>4, unfolded s5]
      note f4 = rcv_finish_go [OF s4] and f3 = rcv_store_go [OF s3]
      have fmt: "format \<sigma>1 \<noteq> 1"
        using e f5 f4 f3 l by (auto simp: same_control_def rcv_len_def Let_def split: if_splits)
      have n: "n \<le> buf_len \<sigma> - buf_offset \<sigma>" "\<sigma>2 = \<sigma>1"
        using l fmt c1 by (auto simp: rcv_len_def Let_def same_control_def split: if_splits)
      have ctl: "buf_len \<sigma>' = buf_len \<sigma>" "total_images \<sigma>' = total_images \<sigma>" "buf_offset \<sigma>' = buf_offset \<sigma> + n"
        "image_index \<sigma>' = image_index \<sigma> \<or> image_index \<sigma>' = image_index \<sigma> + 1 \<and> image_index \<sigma>' < total_images \<sigma>"
        "format \<sigma> \<noteq> 1"
        using e f5 f4 f3 n c1 fmt by (auto simp: same_control_def)
      have "image_index \<sigma>' < total_images \<sigma>'" using ctl assms(3) by auto
      with dec2 [OF ctl(1-3) f3(3) n(1) _ ctl(4)] off ctl(5) show ?thesis by auto
    qed
    then show "image_index \<sigma>' < total_images \<sigma>'" "rcv_measure \<sigma>' < rcv_measure \<sigma>" by simp_all
  qed
qed

lemma rcv_loop_ends:
  assumes "image_index \<sigma> < total_images \<sigma>" and "rcv_measure \<sigma> < fuel"
  shows "\<exists>r. rcv_loop fuel \<sigma> = Some r"
  using assms
proof (induction fuel arbitrary: \<sigma>)
  case (Suc fuel)
  obtain fl \<sigma>1 where p: "rcv_pass \<sigma> = (fl, \<sigma>1)" by fastforce
  show ?case
  proof (cases "\<exists>st. fl = Break st")
    case True
    with p show ?thesis by auto
  next
    case False
    with rcv_pass_progress [OF p _ Suc.prems(1)] Suc.prems(2)
    have "\<exists>r. rcv_loop fuel \<sigma>1 = Some r" by (intro Suc.IH) auto
    with False p show ?thesis by (cases fl) auto
  qed
qed simp

text \<open>C13: the loop that processes a packet ends: with the images not used up, \<open>fw_upgrade_process_receive_image\<close>
  returns a status, whatever the plugin, the storage and the environment do. Every pass that goes around again
  consumes a byte of the packet or an image.\<close>

theorem receive_image_returns:
  assumes "image_index \<sigma> < total_images \<sigma>"
  shows "\<exists>st \<sigma>'. fw_upgrade_process_receive_image \<sigma> = Some (st, \<sigma>')"
proof -
  have "unat (total_images \<sigma> - image_index \<sigma>) \<le> unat (total_images \<sigma>)"
    using assms by (simp add: unat_diff_u32 word_less_nat_alt)
  then have "rcv_measure \<sigma> < rcv_fuel \<sigma>" by (simp add: rcv_measure_def rcv_fuel_def)
  from rcv_loop_ends [OF assms this] show ?thesis by (auto simp: fw_upgrade_process_receive_image_def)
qed

definition demo_packet :: "fu \<Rightarrow> fw_env \<Rightarrow> sess" where
  "demo_packet s e = (new_session ''wlan0'' ''http://host/'' ''fw.cfg'' 0
     \<lparr>g_fu = s, g_env = e, g_n = 0, g_cxt = None, g_mutex = True, g_reset = False\<rparr>)
     \<lparr>is_first := False, total_images := 2, format := 2, buf_len := 1500\<rparr>"

theorem receive_image_returns_witness:
  "\<forall>s e. \<exists>st \<sigma>'. fw_upgrade_process_receive_image (demo_packet s e) = Some (st, \<sigma>')"
proof -
  have "image_index (demo_packet s e) < total_images (demo_packet s e)" for s e
    by (simp add: demo_packet_def new_session_def)
  then show ?thesis using receive_image_returns by blast
qed

section \<open>Frames of the session's steps\<close>

lemma cfg_hash_ok_frame [simp]: "same_control \<sigma> (snd (cfg_hash_ok cb \<sigma>))"
  by (simp add: cfg_hash_ok_def Let_def)

lemma cfg_write_fwd_frame [simp]: "same_control \<sigma> (snd (cfg_write_fwd cb \<sigma>))"
  by (simp add: cfg_write_fwd_def Let_def sess_ops)

lemma hash_blocks_frame [simp]: "same_control \<sigma>0 \<sigma> \<Longrightarrow> same_control \<sigma>0 (hash_blocks hdl k off \<sigma>)"
  by (induction k arbitrary: off \<sigma>) (simp_all add: sess_ops case_prod_beta)

lemma cfg_flags_frame [simp]: "same_control \<sigma>0 \<sigma> \<Longrightarrow> same_control \<sigma>0 (cfg_flags i hs \<sigma>)"
  by (induction hs arbitrary: i \<sigma>) (auto simp: sess_ops Let_def case_prod_beta split: option.split)

lemma copy_blocks_frame [simp]: "same_control \<sigma>0 \<sigma> \<Longrightarrow> same_control \<sigma>0 (snd (copy_blocks ck a b k off buf \<sigma>))"
  by (induction k arbitrary: off \<sigma> buf) (simp_all add: sess_ops case_prod_beta Let_def)

lemma dup_images_frame [simp]: "same_control \<sigma>0 \<sigma> \<Longrightarrow> same_control \<sigma>0 (snd (dup_images i hs r \<sigma>))"
  by (induction hs arbitrary: i \<sigma> r) (auto simp: sess_ops Let_def case_prod_beta split: option.split)

lemma duplicate_frame [simp]:
  "same_control \<sigma> (snd (fw_upgrade_process_duplicate_fs \<sigma>))"
  "same_control \<sigma> (snd (fw_upgrade_process_duplicate_images \<sigma>))"
  by (auto simp: fw_upgrade_process_duplicate_fs_def fw_upgrade_process_duplicate_images_def sess_ops Let_def case_prod_beta
      split: option.split)

lemma rehash_frame [simp]: "same_control \<sigma>0 \<sigma> \<Longrightarrow> same_control \<sigma>0 (snd (rehash k off \<sigma>))"
  by (induction k arbitrary: off \<sigma>) (simp_all add: sess_ops case_prod_beta Let_def)

lemma plugin_frame [simp]: "same_control \<sigma> (snd (fw_upgrade_plugin_init \<sigma>))" "same_control \<sigma> (snd (fw_upgrade_plugin_resume \<sigma>))"
  by (simp_all add: fw_upgrade_plugin_init_def fw_upgrade_plugin_resume_def sess_ops url_of_image_def case_prod_beta)

lemma halt_frame [simp]: "same_control \<sigma>0 (halt r \<sigma>) = same_control \<sigma>0 \<sigma>" "s_run (halt r \<sigma>) = False"
  by (simp_all add: halt_def)

lemma carry_frame [simp]: "same_control \<sigma>0 \<sigma> \<Longrightarrow> same_control \<sigma>0 (carry_partition iid c \<sigma>)"
  by (simp add: carry_partition_def sess_ops)

lemma prep_frame [simp]:
  "same_control \<sigma>0 \<sigma> \<Longrightarrow> same_control \<sigma>0 (prep_fs \<sigma>)" "same_control \<sigma>0 \<sigma> \<Longrightarrow> same_control \<sigma>0 (prep_ramdump \<sigma>)"
  "same_control \<sigma>0 \<sigma> \<Longrightarrow> same_control \<sigma>0 (prep_userdata \<sigma>)"
  by (simp_all add: prep_fs_def prep_ramdump_def prep_userdata_def sess_ops Let_def case_prod_beta)

lemma skip_images_fields [simp]:
  "s_state (skip_images k \<sigma>) = s_state \<sigma>" "is_first (skip_images k \<sigma>) = is_first \<sigma>"
  "total_images (skip_images k \<sigma>) = total_images \<sigma>" "s_run (skip_images k \<sigma>) = s_run \<sigma>"
  by (induction k arbitrary: \<sigma>) simp_all

lemma cfg_collect_frame:
  assumes "cfg_collect buf \<sigma> = ((st, complete), \<sigma>')"
  shows "is_first \<sigma>' = is_first \<sigma>" "image_index \<sigma>' = image_index \<sigma>"
    "s_state \<sigma>' = (if st = FW_UPGRADE_OK_E \<and> \<not> complete then FW_UPGRADE_STATE_RECEIVE_DATA_E else s_state \<sigma>)"
    "s_run \<sigma>' = s_run \<sigma>"
  using assms by (auto simp: cfg_collect_def Let_def sess_ops set_state_def split: option.splits if_splits)

section \<open>The transition relation\<close>

inductive edge :: "fw_upgrade_state \<Rightarrow> fw_upgrade_state \<Rightarrow> bool" where
  "edge FW_UPGRADE_STATE_NOT_START_E FW_UPGRADE_STATE_GET_TRIAL_INFO_E"
| "edge FW_UPGRADE_STATE_GET_TRIAL_INFO_E FW_UPGRADE_STATE_ERASE_FWD_E"
| "edge FW_UPGRADE_STATE_ERASE_FWD_E FW_UPGRADE_STATE_ERASE_SECOND_FS_E"
| "edge FW_UPGRADE_STATE_ERASE_FWD_E FW_UPGRADE_STATE_PREPARE_FS_E"
| "edge FW_UPGRADE_STATE_ERASE_SECOND_FS_E FW_UPGRADE_STATE_PREPARE_FS_E"
| "edge FW_UPGRADE_STATE_PREPARE_FS_E FW_UPGRADE_STATE_PREPARE_CONNECT_E"
| "edge FW_UPGRADE_STATE_PREPARE_CONNECT_E FW_UPGRADE_STATE_CONNECT_SERVER_E"
| "edge FW_UPGRADE_STATE_PREPARE_CONNECT_E FW_UPGRADE_STATE_DUPLICATE_IMAGES_E"
| "edge FW_UPGRADE_STATE_CONNECT_SERVER_E FW_UPGRADE_STATE_RECEIVE_DATA_E"
| "edge FW_UPGRADE_STATE_RESUME_SERVICE_E FW_UPGRADE_STATE_RESUME_SERVER_E"
| "edge FW_UPGRADE_STATE_RESUME_SERVER_E FW_UPGRADE_STATE_RECEIVE_DATA_E"
| "edge FW_UPGRADE_STATE_RECEIVE_DATA_E FW_UPGRADE_STATE_PROCESS_CONFIG_FILE_E"
| "edge FW_UPGRADE_STATE_RECEIVE_DATA_E FW_UPGRADE_STATE_PROCESS_IMAGE_E"
| "edge FW_UPGRADE_STATE_PROCESS_CONFIG_FILE_E FW_UPGRADE_STATE_RECEIVE_DATA_E"
| "edge FW_UPGRADE_STATE_PROCESS_CONFIG_FILE_E FW_UPGRADE_STATE_PROCESS_IMAGE_E"
| "edge FW_UPGRADE_STATE_PROCESS_CONFIG_FILE_E FW_UPGRADE_STATE_DISCONNECT_SERVER_E"
| "edge FW_UPGRADE_STATE_PROCESS_IMAGE_E FW_UPGRADE_STATE_RECEIVE_DATA_E"
| "edge FW_UPGRADE_STATE_PROCESS_IMAGE_E FW_UPGRADE_STATE_DISCONNECT_SERVER_E"
| "edge FW_UPGRADE_STATE_PROCESS_IMAGE_E FW_UPGRADE_STATE_DUPLICATE_FS_E"
| "edge FW_UPGRADE_STATE_DISCONNECT_SERVER_E FW_UPGRADE_STATE_PREPARE_CONNECT_E"
| "edge FW_UPGRADE_STATE_DUPLICATE_IMAGES_E FW_UPGRADE_STATE_DUPLICATE_FS_E"
| "edge FW_UPGRADE_STATE_DUPLICATE_FS_E FW_UPGRADE_STATE_FINISH_E"

inductive_simps edge_to_finish: "edge st FW_UPGRADE_STATE_FINISH_E"
inductive_simps edge_to_dup_fs: "edge st FW_UPGRADE_STATE_DUPLICATE_FS_E"
inductive_simps edge_to_dup_images: "edge st FW_UPGRADE_STATE_DUPLICATE_IMAGES_E"

text \<open>The two steps that process data, by the states they lead to.\<close>

lemma cfg_limits_error: "cfg_limits acc \<sigma> \<noteq> Inl FW_UPGRADE_OK_E"
  by (auto simp: cfg_limits_def split: prod.split option.split)

lemma cfg_accept_steps:
  assumes "cfg_accept cb \<sigma> = (st, \<sigma>')"
  shows "image_index \<sigma>' = image_index \<sigma>"
    "st \<noteq> FW_UPGRADE_OK_E \<Longrightarrow> s_state \<sigma>' = s_state \<sigma> \<and> is_first \<sigma>' = is_first \<sigma>"
    "st = FW_UPGRADE_OK_E \<Longrightarrow> \<not> is_first \<sigma>' \<and> config_buf \<sigma>' = None \<and> total_images \<sigma>' = ucast (hdr_num_images cb) \<and>
       s_state \<sigma>' \<in> {FW_UPGRADE_STATE_RECEIVE_DATA_E, FW_UPGRADE_STATE_PROCESS_IMAGE_E, FW_UPGRADE_STATE_DISCONNECT_SERVER_E}"
proof -
  have f: "same_control \<sigma>0 (cfg_flags 0 hs \<sigma>0)" for hs \<sigma>0 by simp
  show "image_index \<sigma>' = image_index \<sigma>"
    "st \<noteq> FW_UPGRADE_OK_E \<Longrightarrow> s_state \<sigma>' = s_state \<sigma> \<and> is_first \<sigma>' = is_first \<sigma>"
    "st = FW_UPGRADE_OK_E \<Longrightarrow> \<not> is_first \<sigma>' \<and> config_buf \<sigma>' = None \<and> total_images \<sigma>' = ucast (hdr_num_images cb) \<and>
       s_state \<sigma>' \<in> {FW_UPGRADE_STATE_RECEIVE_DATA_E, FW_UPGRADE_STATE_PROCESS_IMAGE_E, FW_UPGRADE_STATE_DISCONNECT_SERVER_E}"
    using assms f cfg_limits_error by (auto simp: cfg_accept_def Let_def sess_ops set_state_def same_control_def
        split: option.splits if_splits sum.splits prod.splits)
qed

text \<open>What has been received of a configuration file starts with a header that was checked.\<close>

definition cfg_started :: "u8 list \<Rightarrow> bool" where
  "cfg_started cb \<longleftrightarrow> IMAGESET_HDR_SIZE \<le> length cb \<and> 0 < hdr_num_images cb \<and> hdr_num_images cb \<le> FW_UPGRADE_MAX_IMAGES_NUM"

lemma cfg_started_append: "cfg_started cb \<Longrightarrow> cfg_started (cb @ bs)"
  by (simp add: cfg_started_def nth_append)

lemma cfg_collect_started:
  assumes "cfg_collect buf \<sigma> = ((FW_UPGRADE_OK_E, c), \<sigma>')" and "unat (buf_len \<sigma>) \<le> length buf"
    and "\<forall>cb. config_buf \<sigma> = Some cb \<longrightarrow> cfg_started cb"
  shows "\<exists>cb. config_buf \<sigma>' = Some cb \<and> cfg_started cb"
proof (cases "config_buf \<sigma>")
  case None
  have l: "17 \<le> unat (hdr_length buf)" if "hdr_length buf = of_nat (hash_offset buf + FW_UPGRADE_HASH_LEN)"
    "hdr_num_images buf \<le> 30"
    using that unfolding hash_offset_def that(1) by (subst unat_of_nat_u32) (simp_all add: word_le_nat_alt)
  show ?thesis using None assms(1,2) l
    by (auto simp: cfg_collect_def Let_def sess_ops set_state_def cfg_started_def min_def split: if_splits)
next
  case (Some cb)
  then show ?thesis using assms(1,3) cfg_started_append
    by (auto simp: cfg_collect_def Let_def set_state_def split: if_splits)
qed

lemma config_file_steps:
  assumes "fw_upgrade_process_config_file buf \<sigma> = (st, \<sigma>')" and "unat (buf_len \<sigma>) \<le> length buf"
    and "\<forall>cb. config_buf \<sigma> = Some cb \<longrightarrow> cfg_started cb"
  shows "image_index \<sigma>' = image_index \<sigma>"
    "st \<noteq> FW_UPGRADE_OK_E \<Longrightarrow> s_state \<sigma>' = s_state \<sigma> \<and> is_first \<sigma>' = is_first \<sigma>"
    "config_buf \<sigma>' = Some cb \<Longrightarrow> cfg_started cb"
    "st = FW_UPGRADE_OK_E \<Longrightarrow>
       is_first \<sigma>' = is_first \<sigma> \<and> s_state \<sigma>' = FW_UPGRADE_STATE_RECEIVE_DATA_E \<or>
       \<not> is_first \<sigma>' \<and> 0 < total_images \<sigma>' \<and> total_images \<sigma>' \<le> 30 \<and>
       s_state \<sigma>' \<in> {FW_UPGRADE_STATE_RECEIVE_DATA_E, FW_UPGRADE_STATE_PROCESS_IMAGE_E, FW_UPGRADE_STATE_DISCONNECT_SERVER_E}"
proof -
  obtain st1 c \<sigma>1 where c1: "cfg_collect buf \<sigma> = ((st1, c), \<sigma>1)" by (metis prod.collapse)
  define cb1 where "cb1 = the (config_buf \<sigma>1)"
  obtain b2 \<sigma>2 where c2: "cfg_hash_ok cb1 \<sigma>1 = (b2, \<sigma>2)" by fastforce
  obtain b3 \<sigma>3 where c3: "cfg_write_fwd cb1 \<sigma>2 = (b3, \<sigma>3)" by fastforce
  obtain st4 \<sigma>4 where c4: "cfg_accept cb1 \<sigma>3 = (st4, \<sigma>4)" by fastforce
  note f1 = cfg_collect_frame [OF c1]
  have f2: "same_control \<sigma>1 \<sigma>2" using cfg_hash_ok_frame [of \<sigma>1 cb1] c2 by simp
  have f3: "same_control \<sigma>2 \<sigma>3" using cfg_write_fwd_frame [of \<sigma>2 cb1] c3 by simp
  note f4 = cfg_accept_steps [OF c4]
  have b1: "cfg_started cb" if "st1 = FW_UPGRADE_OK_E" "config_buf \<sigma>1 = Some cb"
    using cfg_collect_started [OF _ assms(2,3)] c1 that by auto
  have n: "0 < (ucast (hdr_num_images cb1) :: u32)" "(ucast (hdr_num_images cb1) :: u32) \<le> 30" if "st1 = FW_UPGRADE_OK_E"
  proof -
    have "cfg_started cb1" using cfg_collect_started [OF _ assms(2,3)] c1 that by (auto simp: cb1_def)
    then show "0 < (ucast (hdr_num_images cb1) :: u32)" "(ucast (hdr_num_images cb1) :: u32) \<le> 30"
      by (simp_all add: cfg_started_def word_less_nat_alt word_le_nat_alt unsigned_ucast_eq unsigned_take_bit_eq take_bit_nat_def)
  qed
  note d = assms(1) [unfolded fw_upgrade_process_config_file_def Let_def, unfolded c1 prod.case cb1_def [symmetric],
      unfolded c2 prod.case, unfolded c3 prod.case, unfolded c4 prod.case]
  show "image_index \<sigma>' = image_index \<sigma>"
    "st \<noteq> FW_UPGRADE_OK_E \<Longrightarrow> s_state \<sigma>' = s_state \<sigma> \<and> is_first \<sigma>' = is_first \<sigma>"
    "config_buf \<sigma>' = Some cb \<Longrightarrow> cfg_started cb"
    "st = FW_UPGRADE_OK_E \<Longrightarrow>
       is_first \<sigma>' = is_first \<sigma> \<and> s_state \<sigma>' = FW_UPGRADE_STATE_RECEIVE_DATA_E \<or>
       \<not> is_first \<sigma>' \<and> 0 < total_images \<sigma>' \<and> total_images \<sigma>' \<le> 30 \<and>
       s_state \<sigma>' \<in> {FW_UPGRADE_STATE_RECEIVE_DATA_E, FW_UPGRADE_STATE_PROCESS_IMAGE_E, FW_UPGRADE_STATE_DISCONNECT_SERVER_E}"
    using d f1 f2 f3 f4 n b1 by (auto simp: same_control_def split: if_splits)
qed

end
