(* ===== verification/FwSession.thy ===== *)
theory FwSession
  imports FwUpgradeFacts
begin

text \<open>
  The state machine of the firmware-upgrade session as a whole: the transition relation, the invariant of a
  fresh session, and what ending a session publishes.
\<close>

section \<open>Passes of the receive loop\<close>

text \<open>How a pass that leaves the loop changes the state.\<close>

definition rcv_exit :: "sess \<Rightarrow> fw_upgrade_status_code \<Rightarrow> sess \<Rightarrow> bool" where
  "rcv_exit \<sigma> st \<sigma>' \<longleftrightarrow> is_first \<sigma>' = is_first \<sigma> \<and> total_images \<sigma>' = total_images \<sigma> \<and>
     (s_state \<sigma>' = s_state \<sigma> \<and> (st = FW_UPGRADE_OK_E \<longrightarrow> image_index \<sigma>' = image_index \<sigma>) \<or>
      s_state \<sigma>' = FW_UPGRADE_STATE_DISCONNECT_SERVER_E \<or>
      s_state \<sigma>' = FW_UPGRADE_STATE_DUPLICATE_FS_E \<and> total_images \<sigma> \<le> image_index \<sigma>')"

definition rcv_stay :: "sess \<Rightarrow> sess \<Rightarrow> bool" where
  "rcv_stay \<sigma> \<sigma>' \<longleftrightarrow> is_first \<sigma>' = is_first \<sigma> \<and> total_images \<sigma>' = total_images \<sigma> \<and> s_state \<sigma>' = s_state \<sigma>"

lemma rcv_stay_exit:
  "rcv_stay \<sigma> \<sigma>' \<Longrightarrow> rcv_exit \<sigma>' st \<sigma>'' \<Longrightarrow> image_index \<sigma>' = image_index \<sigma> \<Longrightarrow> rcv_exit \<sigma> st \<sigma>''"
  by (auto simp: rcv_stay_def rcv_exit_def)

lemma same_control_stay: "same_control \<sigma> \<sigma>' \<Longrightarrow> rcv_stay \<sigma> \<sigma>' \<and> image_index \<sigma>' = image_index \<sigma>"
  by (simp add: same_control_def rcv_stay_def)

lemma rcv_open_exit:
  assumes "rcv_open h \<sigma> = (fl, \<sigma>')"
  shows "fl = Break st \<Longrightarrow> rcv_exit \<sigma> st \<sigma>'" and "fl = Continue \<Longrightarrow> rcv_stay \<sigma> \<sigma>'"
proof -
  let ?\<sigma> = "\<sigma>\<lparr>image_wrt_count := 0, image_wrt_length := h_image_length h\<rparr>"
  obtain fl1 \<sigma>1 where c: "rcv_create h ?\<sigma> = (fl1, \<sigma>1)" by fastforce
  have f: "same_control \<sigma> \<sigma>1" using rcv_create_frame [where \<sigma> = ?\<sigma> and h = h] c by (simp add: same_control_def)
  have nc: "fl1 \<noteq> Continue" using c by (auto simp: rcv_create_def sess_ops Let_def split: if_splits)
  show "fl = Break st \<Longrightarrow> rcv_exit \<sigma> st \<sigma>'" "fl = Continue \<Longrightarrow> rcv_stay \<sigma> \<sigma>'"
    using assms c f nc
    by (auto simp: rcv_open_def Let_def same_control_def set_state_def rcv_exit_def rcv_stay_def split: if_splits flow.splits)
qed

lemma rcv_store_exit: "rcv_store n \<sigma> = (fl, \<sigma>') \<Longrightarrow> same_control \<sigma> \<sigma>' \<and> fl \<noteq> Continue \<and> fl \<noteq> Break FW_UPGRADE_OK_E"
  by (auto simp: rcv_store_def sess_ops Let_def split: if_splits)

lemma rcv_finish_exit:
  assumes "rcv_finish h \<sigma> = (fl, \<sigma>')"
  shows "fl = Break st \<Longrightarrow> rcv_exit \<sigma> st \<sigma>'"
    and "fl = Go \<Longrightarrow> is_first \<sigma>' = is_first \<sigma> \<and> total_images \<sigma>' = total_images \<sigma> \<and>
      (s_state \<sigma>' = s_state \<sigma> \<and> (format \<sigma>' = 1 \<longrightarrow> image_index \<sigma>' = image_index \<sigma>) \<or>
       s_state \<sigma>' = FW_UPGRADE_STATE_DISCONNECT_SERVER_E \<and> format \<sigma>' = 1)"
  using assms verify_frame [where \<sigma> = \<sigma> and h = h]
  by (auto simp: rcv_finish_def Let_def same_control_def set_state_def case_prod_beta rcv_exit_def split: if_splits)

lemma rcv_erase_next_exit: "rcv_erase_next \<sigma> = (fl, \<sigma>') \<Longrightarrow> same_control \<sigma> \<sigma>' \<and> fl \<noteq> Continue \<and> fl \<noteq> Break FW_UPGRADE_OK_E"
  by (auto simp: rcv_erase_next_def sess_ops split: if_splits)

lemma rcv_pass_exit:
  assumes "rcv_pass \<sigma> = (fl, \<sigma>')"
  shows "case fl of Break st \<Rightarrow> rcv_exit \<sigma> st \<sigma>' | _ \<Rightarrow> rcv_stay \<sigma> \<sigma>'"
proof (cases "format \<sigma> \<noteq> 1 \<and> buf_len \<sigma> \<le> buf_offset \<sigma>")
  case True
  with assms have "fl = Break FW_UPGRADE_OK_E \<and> \<sigma>' = \<sigma>" by (auto simp: rcv_pass_def)
  then show ?thesis by (simp add: rcv_exit_def)
next
  case False
  obtain h \<sigma>0 where h: "hdr_at (unat (image_index \<sigma>)) \<sigma> = (h, \<sigma>0)" by fastforce
  have c0: "same_control \<sigma> \<sigma>0" using hdr_at_control [of \<sigma> "unat (image_index \<sigma>)" \<sigma>] h by simp
  obtain f1 \<sigma>1 where o1: "rcv_open h \<sigma>0 = (f1, \<sigma>1)" by fastforce
  note p = assms [unfolded rcv_pass_def if_not_P [OF False], unfolded h prod.case, unfolded o1 prod.case]
  show ?thesis
  proof (cases f1)
    case (Break st)
    with p rcv_open_exit(1) [OF o1 Break] same_control_stay [OF c0] rcv_stay_exit show ?thesis by auto
  next
    case Continue
    with p rcv_open_exit(2) [OF o1 Continue] same_control_stay [OF c0] show ?thesis by (auto simp: rcv_stay_def)
  next
    case Go
    have c1: "same_control \<sigma> \<sigma>1" using rcv_open_cases(1) [OF o1 Go] c0 same_control_trans by blast
    obtain l \<sigma>2 where l: "rcv_len \<sigma>1 = (l, \<sigma>2)" by fastforce
    have c2: "same_control \<sigma> \<sigma>2" using l c1 by (auto simp: rcv_len_def Let_def split: if_splits)
    note p2 = p [unfolded Go flow.case l prod.case]
    show ?thesis
    proof (cases l)
      case None
      with p2 same_control_stay [OF c2] show ?thesis by (auto simp: rcv_exit_def rcv_stay_def)
    next
      case (Some n)
      obtain f3 \<sigma>3 where s3: "rcv_store n \<sigma>2 = (f3, \<sigma>3)" by fastforce
      note e3 = rcv_store_exit [OF s3]
      have c3: "same_control \<sigma> \<sigma>3" using e3 c2 same_control_trans by blast
      obtain f4 \<sigma>4 where s4: "rcv_finish h \<sigma>3 = (f4, \<sigma>4)" by fastforce
      obtain f5 \<sigma>5 where s5: "rcv_erase_next \<sigma>4 = (f5, \<sigma>5)" by fastforce
      note e5 = rcv_erase_next_exit [OF s5]
      note p4 = p2 [unfolded Some option.case s3 prod.case s4 s5]
      consider st where "f3 = Break st" | "f3 = Go" using e3 by (cases f3) auto
      then show ?thesis
      proof cases
        case 1
        with p4 e3 c3 show ?thesis by (auto simp: rcv_exit_def same_control_def)
      next
        case 2
        consider st where "f4 = Break st" | "f4 = Go" using rcv_finish_flow [of h \<sigma>3] s4 by (cases f4) auto
        then show ?thesis
        proof cases
          case (1 st)
          with p4 2 rcv_finish_exit(1) [OF s4 1] same_control_stay [OF c3] rcv_stay_exit show ?thesis by auto
        next
          case 4: 2
          note e4 = rcv_finish_exit(2) [OF s4 4]
          show ?thesis using p4 2 4 e4 e5 c3
            by (cases f5) (auto simp: rcv_exit_def rcv_stay_def same_control_def split: if_splits)
        qed
      qed
    qed
  qed
qed

lemma rcv_loop_exit:
  assumes "rcv_loop fuel \<sigma> = Some (st, \<sigma>')" and "image_index \<sigma> < total_images \<sigma>"
  shows "is_first \<sigma>' = is_first \<sigma> \<and> total_images \<sigma>' = total_images \<sigma> \<and>
     (s_state \<sigma>' = s_state \<sigma> \<and> (st = FW_UPGRADE_OK_E \<longrightarrow> image_index \<sigma>' < total_images \<sigma>) \<or>
      s_state \<sigma>' = FW_UPGRADE_STATE_DISCONNECT_SERVER_E \<or>
      s_state \<sigma>' = FW_UPGRADE_STATE_DUPLICATE_FS_E \<and> total_images \<sigma> \<le> image_index \<sigma>')"
  using assms
proof (induction fuel arbitrary: \<sigma>)
  case (Suc fuel)
  obtain fl \<sigma>1 where p: "rcv_pass \<sigma> = (fl, \<sigma>1)" by fastforce
  note e = rcv_pass_exit [OF p]
  show ?case
  proof (cases "\<exists>st. fl = Break st")
    case True
    with Suc.prems p e show ?thesis by (auto simp: rcv_exit_def)
  next
    case False
    then have b: "\<forall>st. fl \<noteq> Break st" by simp
    from b e have stay: "rcv_stay \<sigma> \<sigma>1" by (cases fl) auto
    from b p Suc.prems(1) have "rcv_loop fuel \<sigma>1 = Some (st, \<sigma>')" by (cases fl) auto
    from Suc.IH [OF this rcv_pass_progress(1) [OF p b Suc.prems(2)]] stay show ?thesis by (simp add: rcv_stay_def)
  qed
qed simp

lemma rcv_loop_state:
  "rcv_loop fuel \<sigma> = Some (st, \<sigma>') \<Longrightarrow>
     s_state \<sigma>' \<in> {s_state \<sigma>, FW_UPGRADE_STATE_DISCONNECT_SERVER_E, FW_UPGRADE_STATE_DUPLICATE_FS_E}"
proof (induction fuel arbitrary: \<sigma>)
  case (Suc fuel)
  obtain fl \<sigma>1 where p: "rcv_pass \<sigma> = (fl, \<sigma>1)" by fastforce
  note e = rcv_pass_exit [OF p]
  show ?case
  proof (cases fl)
    case (Break st1)
    with Suc.prems p e show ?thesis by (auto simp: rcv_exit_def)
  next
    case Continue
    with Suc.prems p e Suc.IH [of \<sigma>1] show ?thesis by (simp add: rcv_stay_def)
  next
    case Go
    with Suc.prems p e Suc.IH [of \<sigma>1] show ?thesis by (simp add: rcv_stay_def)
  qed
qed simp

section \<open>Steps of the state machine\<close>

lemma config_file_state:
  assumes "fw_upgrade_process_config_file buf \<sigma> = (st, \<sigma>')"
  shows "s_state \<sigma>' \<in> {s_state \<sigma>, FW_UPGRADE_STATE_RECEIVE_DATA_E, FW_UPGRADE_STATE_PROCESS_IMAGE_E,
    FW_UPGRADE_STATE_DISCONNECT_SERVER_E}"
proof -
  obtain st1 c \<sigma>1 where c1: "cfg_collect buf \<sigma> = ((st1, c), \<sigma>1)" by (metis prod.collapse)
  define cb where "cb = the (config_buf \<sigma>1)"
  obtain b2 \<sigma>2 where c2: "cfg_hash_ok cb \<sigma>1 = (b2, \<sigma>2)" by fastforce
  obtain b3 \<sigma>3 where c3: "cfg_write_fwd cb \<sigma>2 = (b3, \<sigma>3)" by fastforce
  obtain st4 \<sigma>4 where c4: "cfg_accept cb \<sigma>3 = (st4, \<sigma>4)" by fastforce
  have f: "same_control \<sigma>1 \<sigma>2" "same_control \<sigma>2 \<sigma>3"
    using cfg_hash_ok_frame [of \<sigma>1 cb] c2 cfg_write_fwd_frame [of \<sigma>2 cb] c3 by simp_all
  note d = assms(1) [unfolded fw_upgrade_process_config_file_def Let_def, unfolded c1 prod.case cb_def [symmetric],
      unfolded c2 prod.case, unfolded c3 prod.case, unfolded c4 prod.case]
  show ?thesis using d cfg_collect_frame(3) [OF c1] f cfg_accept_steps(2,3) [OF c4]
    by (auto simp: same_control_def split: if_splits)
qed

lemma set_state_fields [simp]:
  "s_state (set_state st \<sigma>) = st" "is_first (set_state st \<sigma>) = is_first \<sigma>" "total_images (set_state st \<sigma>) = total_images \<sigma>"
  "image_index (set_state st \<sigma>) = image_index \<sigma>" "config_buf (set_state st \<sigma>) = config_buf \<sigma>" "s_run (set_state st \<sigma>) = s_run \<sigma>"
  "buf_len (set_state st \<sigma>) = buf_len \<sigma>" "s_buffer (set_state st \<sigma>) = s_buffer \<sigma>"
  by (simp_all add: set_state_def)

text \<open>The states that only pass control on: what they do to the control part, and where they lead.\<close>

definition moves :: "sess \<Rightarrow> fw_upgrade_state set \<Rightarrow> sess \<Rightarrow> bool" where
  "moves \<sigma> S \<sigma>' \<longleftrightarrow> same_control \<sigma> \<sigma>' \<and> \<not> s_run \<sigma>' \<or> (\<exists>\<sigma>1 st. st \<in> S \<and> same_control \<sigma> \<sigma>1 \<and> \<sigma>' = set_state st \<sigma>1)"

lemma moves_halt: "same_control \<sigma> \<sigma>' \<Longrightarrow> moves \<sigma> S (halt r \<sigma>')" by (simp add: moves_def)

lemma moves_set: "same_control \<sigma> \<sigma>' \<Longrightarrow> st \<in> S \<Longrightarrow> moves \<sigma> S (set_state st \<sigma>')" by (auto simp: moves_def)

lemma moves_idle: "same_control \<sigma> \<sigma>' \<Longrightarrow> \<not> s_run \<sigma>' \<Longrightarrow> moves \<sigma> S \<sigma>'" by (simp add: moves_def)

lemma simple_moves:
  "moves \<sigma> {FW_UPGRADE_STATE_GET_TRIAL_INFO_E} (st_not_start \<sigma>)"
  "moves \<sigma> {FW_UPGRADE_STATE_ERASE_SECOND_FS_E, FW_UPGRADE_STATE_PREPARE_FS_E} (st_erase_fwd \<sigma>)"
  "moves \<sigma> {FW_UPGRADE_STATE_PREPARE_FS_E} (st_erase_second_fs \<sigma>)"
  "moves \<sigma> {FW_UPGRADE_STATE_PREPARE_CONNECT_E} (st_prepare_fs \<sigma>)"
  "moves \<sigma> {FW_UPGRADE_STATE_RECEIVE_DATA_E} (st_connect_server \<sigma>)"
  "moves \<sigma> {FW_UPGRADE_STATE_RESUME_SERVER_E} (st_resume_service \<sigma>)"
  "moves \<sigma> {FW_UPGRADE_STATE_RECEIVE_DATA_E} (st_resume_server \<sigma>)"
  "moves \<sigma> {FW_UPGRADE_STATE_DUPLICATE_FS_E} (st_duplicate_images \<sigma>)"
  "moves \<sigma> {FW_UPGRADE_STATE_FINISH_E} (st_duplicate_fs \<sigma>)"
  by (simp_all add: st_not_start_def st_erase_fwd_def st_erase_second_fs_def st_prepare_fs_def st_connect_server_def
      st_resume_service_def st_resume_server_def st_duplicate_images_def st_duplicate_fs_def sess_ops case_prod_beta Let_def
      moves_halt moves_set moves_idle)

lemma get_trial_info_state:
  "s_state (st_get_trial_info \<sigma>) \<in> {s_state \<sigma>, FW_UPGRADE_STATE_ERASE_FWD_E}"
  "is_first (st_get_trial_info \<sigma>) = is_first \<sigma>" "config_buf (st_get_trial_info \<sigma>) = config_buf \<sigma>"
  "image_index (st_get_trial_info \<sigma>) = image_index \<sigma>" "total_images (st_get_trial_info \<sigma>) = total_images \<sigma>"
  by (auto simp: st_get_trial_info_def sess_ops case_prod_beta Let_def halt_def split: option.split)

lemma hdr_at_fields [simp]:
  "s_state (snd (hdr_at i \<sigma>)) = s_state \<sigma>" "total_images (snd (hdr_at i \<sigma>)) = total_images \<sigma>"
  "image_index (snd (hdr_at i \<sigma>)) = image_index \<sigma>" "is_first (snd (hdr_at i \<sigma>)) = is_first \<sigma>"
  by (simp_all add: hdr_at_def split: option.split)

lemma close_partition_fields [simp]:
  "s_state (close_partition \<sigma>) = s_state \<sigma>" "is_first (close_partition \<sigma>) = is_first \<sigma>"
  "total_images (close_partition \<sigma>) = total_images \<sigma>" "image_index (close_partition \<sigma>) = image_index \<sigma>"
  by (simp_all add: close_partition_def release_hdl_def split: option.split)

lemma prepare_connect_first: "is_first \<sigma> \<Longrightarrow> st_prepare_connect \<sigma> = set_state FW_UPGRADE_STATE_CONNECT_SERVER_E \<sigma>"
  by (simp add: st_prepare_connect_def)

lemma prepare_connect_later:
  assumes "\<not> is_first \<sigma>" and "st_prepare_connect \<sigma> = \<sigma>'"
  shows "\<not> is_first \<sigma>'" "total_images \<sigma>' = total_images \<sigma>"
    "s_state \<sigma>' = s_state \<sigma> \<and> \<not> s_run \<sigma>' \<or> s_state \<sigma>' = FW_UPGRADE_STATE_PREPARE_CONNECT_E \<or>
     s_state \<sigma>' = FW_UPGRADE_STATE_DUPLICATE_IMAGES_E \<and> total_images \<sigma>' \<le> image_index \<sigma>' \<or>
     s_state \<sigma>' = FW_UPGRADE_STATE_CONNECT_SERVER_E \<and> image_index \<sigma>' < total_images \<sigma>'"
  using assms(1) by (simp_all add: assms(2) [symmetric] st_prepare_connect_def sess_ops case_prod_beta Let_def halt_def not_le)

lemma receive_data_moves:
  "s_state (st_receive_data \<sigma>) \<in>
     {s_state \<sigma>, if is_first \<sigma> then FW_UPGRADE_STATE_PROCESS_CONFIG_FILE_E else FW_UPGRADE_STATE_PROCESS_IMAGE_E}"
  "s_run (st_receive_data \<sigma>) \<Longrightarrow> s_state (st_receive_data \<sigma>) =
     (if is_first \<sigma> then FW_UPGRADE_STATE_PROCESS_CONFIG_FILE_E else FW_UPGRADE_STATE_PROCESS_IMAGE_E)"
  "is_first (st_receive_data \<sigma>) = is_first \<sigma>" "config_buf (st_receive_data \<sigma>) = config_buf \<sigma>"
  "image_index (st_receive_data \<sigma>) = image_index \<sigma>" "total_images (st_receive_data \<sigma>) = total_images \<sigma>"
  "s_run (st_receive_data \<sigma>) \<Longrightarrow> unat (buf_len (st_receive_data \<sigma>)) \<le> length (s_buffer (st_receive_data \<sigma>))"
proof -
  have "unat (of_nat n :: u32) \<le> n" for n by (simp add: unsigned_of_nat take_bit_nat_less_eq_self)
  then show "s_run (st_receive_data \<sigma>) \<Longrightarrow> unat (buf_len (st_receive_data \<sigma>)) \<le> length (s_buffer (st_receive_data \<sigma>))"
    by (simp add: st_receive_data_def sess_ops case_prod_beta Let_def split: if_splits) (meson le_trans le_add1)
qed (auto simp: st_receive_data_def sess_ops case_prod_beta Let_def)

lemma process_image_state:
  "s_state (st_process_image \<sigma>) \<in> {s_state \<sigma>, FW_UPGRADE_STATE_RECEIVE_DATA_E, FW_UPGRADE_STATE_DISCONNECT_SERVER_E,
     FW_UPGRADE_STATE_DUPLICATE_FS_E}"
proof (cases "fw_upgrade_process_receive_image \<sigma>")
  case (Some r)
  with rcv_loop_state [of "rcv_fuel \<sigma>" \<sigma> "fst r" "snd r"] show ?thesis
    by (auto simp: st_process_image_def fw_upgrade_process_receive_image_def halt_def case_prod_beta)
qed (simp add: st_process_image_def)

lemma process_config_state:
  "s_state (st_process_config_file \<sigma>) \<in> {s_state \<sigma>, FW_UPGRADE_STATE_RECEIVE_DATA_E, FW_UPGRADE_STATE_PROCESS_IMAGE_E,
     FW_UPGRADE_STATE_DISCONNECT_SERVER_E}"
  using config_file_state [of "s_buffer \<sigma>" \<sigma> "fst (fw_upgrade_process_config_file (s_buffer \<sigma>) \<sigma>)"
      "snd (fw_upgrade_process_config_file (s_buffer \<sigma>) \<sigma>)"]
  by (auto simp: st_process_config_file_def case_prod_beta halt_def)

lemma moves_state: "moves \<sigma> S \<sigma>' \<Longrightarrow> s_state \<sigma>' = s_state \<sigma> \<or> s_state \<sigma>' \<in> S"
  by (auto simp: moves_def same_control_def)

text \<open>The state machine only takes the edges of the relation \<open>edge\<close>: one iteration of the loop of
  \<open>fw_upgrade_session_process\<close> leaves the state as it is or follows an edge, in every state and environment.\<close>

theorem session_step_follows_edges:
  "s_state (session_step \<sigma>) = s_state \<sigma> \<or> edge (s_state \<sigma>) (s_state (session_step \<sigma>))"
proof (cases "s_state \<sigma>")
  case FW_UPGRADE_STATE_PREPARE_CONNECT_E
  then show ?thesis using prepare_connect_later [OF _ refl, of \<sigma>]
    by (cases "is_first \<sigma>") (auto simp: session_step_def prepare_connect_first intro: edge.intros)
next
  case FW_UPGRADE_STATE_RECEIVE_DATA_E
  then show ?thesis using receive_data_moves(1) [of \<sigma>] by (auto simp: session_step_def intro: edge.intros split: if_splits)
next
  case FW_UPGRADE_STATE_PROCESS_CONFIG_FILE_E
  then show ?thesis using process_config_state [of \<sigma>] by (auto simp: session_step_def intro: edge.intros)
next
  case FW_UPGRADE_STATE_PROCESS_IMAGE_E
  then show ?thesis using process_image_state [of \<sigma>] by (auto simp: session_step_def intro: edge.intros)
next
  case FW_UPGRADE_STATE_GET_TRIAL_INFO_E
  then show ?thesis using get_trial_info_state(1) [of \<sigma>] by (auto simp: session_step_def intro: edge.intros)
next
  case FW_UPGRADE_STATE_NOT_START_E
  then show ?thesis using simple_moves(1) [of \<sigma>, THEN moves_state] by (auto simp: session_step_def intro: edge.intros)
next
  case FW_UPGRADE_STATE_ERASE_FWD_E
  then show ?thesis using simple_moves(2) [of \<sigma>, THEN moves_state] by (auto simp: session_step_def intro: edge.intros)
next
  case FW_UPGRADE_STATE_ERASE_SECOND_FS_E
  then show ?thesis using simple_moves(3) [of \<sigma>, THEN moves_state] by (auto simp: session_step_def intro: edge.intros)
next
  case FW_UPGRADE_STATE_PREPARE_FS_E
  then show ?thesis using simple_moves(4) [of \<sigma>, THEN moves_state] by (auto simp: session_step_def intro: edge.intros)
next
  case FW_UPGRADE_STATE_CONNECT_SERVER_E
  then show ?thesis using simple_moves(5) [of \<sigma>, THEN moves_state] by (auto simp: session_step_def intro: edge.intros)
next
  case FW_UPGRADE_STATE_RESUME_SERVICE_E
  then show ?thesis using simple_moves(6) [of \<sigma>, THEN moves_state] by (auto simp: session_step_def intro: edge.intros)
next
  case FW_UPGRADE_STATE_RESUME_SERVER_E
  then show ?thesis using simple_moves(7) [of \<sigma>, THEN moves_state] by (auto simp: session_step_def intro: edge.intros)
next
  case FW_UPGRADE_STATE_DUPLICATE_IMAGES_E
  then show ?thesis using simple_moves(8) [of \<sigma>, THEN moves_state] by (auto simp: session_step_def intro: edge.intros)
next
  case FW_UPGRADE_STATE_DUPLICATE_FS_E
  then show ?thesis using simple_moves(9) [of \<sigma>, THEN moves_state] by (auto simp: session_step_def intro: edge.intros)
qed (simp_all add: session_step_def edge.intros)

section \<open>The invariant of a session\<close>

text \<open>The iterations of the session loop, each after the requests of other threads have been looked at.\<close>

inductive session_run :: "sess \<Rightarrow> sess \<Rightarrow> bool" for \<sigma>0 where
  start: "session_run \<sigma>0 \<sigma>0"
| step: "session_run \<sigma>0 \<sigma> \<Longrightarrow> in_loop (poll_request \<sigma>) \<Longrightarrow> session_run \<sigma>0 (session_step (poll_request \<sigma>))"

text \<open>While the configuration file is outstanding no image has been processed and what has been received
  starts with a checked header; images are processed only while there are some left; and the states after the
  last download are entered only when every image has been dealt with.\<close>

definition sess_inv :: "sess \<Rightarrow> bool" where
  "sess_inv \<sigma> \<longleftrightarrow>
     (if is_first \<sigma> then image_index \<sigma> = 0 \<and> (\<forall>cb. config_buf \<sigma> = Some cb \<longrightarrow> cfg_started cb)
      else 0 < total_images \<sigma> \<and> total_images \<sigma> \<le> 30) \<and>
     (s_state \<sigma> \<in> {FW_UPGRADE_STATE_DUPLICATE_IMAGES_E, FW_UPGRADE_STATE_DUPLICATE_FS_E, FW_UPGRADE_STATE_FINISH_E} \<longrightarrow>
        \<not> is_first \<sigma> \<and> total_images \<sigma> \<le> image_index \<sigma>) \<and>
     (s_run \<sigma> \<longrightarrow>
        (s_state \<sigma> \<in> {FW_UPGRADE_STATE_CONNECT_SERVER_E, FW_UPGRADE_STATE_RECEIVE_DATA_E} \<longrightarrow>
           is_first \<sigma> \<or> image_index \<sigma> < total_images \<sigma>) \<and>
        (s_state \<sigma> = FW_UPGRADE_STATE_PROCESS_CONFIG_FILE_E \<longrightarrow> is_first \<sigma> \<and> unat (buf_len \<sigma>) \<le> length (s_buffer \<sigma>)) \<and>
        (s_state \<sigma> = FW_UPGRADE_STATE_PROCESS_IMAGE_E \<longrightarrow> \<not> is_first \<sigma> \<and> image_index \<sigma> < total_images \<sigma>) \<and>
        s_state \<sigma> \<notin> {FW_UPGRADE_STATE_RESUME_SERVICE_E, FW_UPGRADE_STATE_RESUME_SERVER_E, FW_UPGRADE_STATE_ERASE_FLASH_E,
          FW_UPGRADE_STATE_ERASE_IMAGE_E})"

lemma poll_request_fields [simp]:
  "s_state (poll_request \<sigma>) = s_state \<sigma>" "s_run (poll_request \<sigma>) = s_run \<sigma>" "is_first (poll_request \<sigma>) = is_first \<sigma>"
  "image_index (poll_request \<sigma>) = image_index \<sigma>" "total_images (poll_request \<sigma>) = total_images \<sigma>"
  "config_buf (poll_request \<sigma>) = config_buf \<sigma>" "buf_len (poll_request \<sigma>) = buf_len \<sigma>"
  "s_buffer (poll_request \<sigma>) = s_buffer \<sigma>"
  by (simp_all add: poll_request_def sess_ops split: request.split)

lemma poll_request_inv [simp]: "sess_inv (poll_request \<sigma>) = sess_inv \<sigma>"
  by (simp only: sess_inv_def poll_request_fields)

lemma halted_inv: "same_control \<sigma> \<sigma>' \<Longrightarrow> \<not> s_run \<sigma>' \<Longrightarrow> sess_inv \<sigma> \<Longrightarrow> sess_inv \<sigma>'"
  by (simp add: sess_inv_def same_control_def)

definition may_enter :: "sess \<Rightarrow> fw_upgrade_state \<Rightarrow> bool" where
  "may_enter \<sigma> st \<longleftrightarrow>
     (st \<in> {FW_UPGRADE_STATE_DUPLICATE_IMAGES_E, FW_UPGRADE_STATE_DUPLICATE_FS_E, FW_UPGRADE_STATE_FINISH_E} \<longrightarrow>
        \<not> is_first \<sigma> \<and> total_images \<sigma> \<le> image_index \<sigma>) \<and>
     (st \<in> {FW_UPGRADE_STATE_CONNECT_SERVER_E, FW_UPGRADE_STATE_RECEIVE_DATA_E} \<longrightarrow> is_first \<sigma> \<or> image_index \<sigma> < total_images \<sigma>) \<and>
     st \<notin> {FW_UPGRADE_STATE_PROCESS_CONFIG_FILE_E, FW_UPGRADE_STATE_PROCESS_IMAGE_E, FW_UPGRADE_STATE_RESUME_SERVICE_E,
       FW_UPGRADE_STATE_RESUME_SERVER_E, FW_UPGRADE_STATE_ERASE_FLASH_E, FW_UPGRADE_STATE_ERASE_IMAGE_E}"

lemma enter_inv: "sess_inv \<sigma> \<Longrightarrow> same_control \<sigma> \<sigma>1 \<Longrightarrow> may_enter \<sigma> st \<Longrightarrow> sess_inv (set_state st \<sigma>1)"
  by (simp add: sess_inv_def may_enter_def same_control_def)

lemma moves_inv:
  assumes "moves \<sigma> S \<sigma>'" and "sess_inv \<sigma>" and "\<forall>st \<in> S. may_enter \<sigma> st"
  shows "sess_inv \<sigma>'"
  using assms(1) unfolding moves_def
proof (elim disjE exE conjE)
  show "same_control \<sigma> \<sigma>' \<Longrightarrow> \<not> s_run \<sigma>' \<Longrightarrow> ?thesis" using halted_inv assms(2) by blast
  show "st \<in> S \<Longrightarrow> same_control \<sigma> \<sigma>1 \<Longrightarrow> \<sigma>' = set_state st \<sigma>1 \<Longrightarrow> ?thesis" for \<sigma>1 st using assms(2,3) enter_inv by blast
qed

lemma process_config_inv:
  assumes "sess_inv \<sigma>" and "s_run \<sigma>" and "s_state \<sigma> = FW_UPGRADE_STATE_PROCESS_CONFIG_FILE_E"
  shows "sess_inv (st_process_config_file \<sigma>)"
proof -
  obtain st \<sigma>1 where p: "fw_upgrade_process_config_file (s_buffer \<sigma>) \<sigma> = (st, \<sigma>1)" by fastforce
  have b: "unat (buf_len \<sigma>) \<le> length (s_buffer \<sigma>)" "\<forall>cb. config_buf \<sigma> = Some cb \<longrightarrow> cfg_started cb" "is_first \<sigma>" "image_index \<sigma> = 0"
    using assms by (auto simp: sess_inv_def)
  note f = config_file_steps [OF p b(1,2)]
  show ?thesis
  proof (cases "st = FW_UPGRADE_OK_E")
    case True
    with f b p show ?thesis by (auto simp: st_process_config_file_def sess_inv_def)
  next
    case False
    with f b p assms(3) show ?thesis by (auto simp: st_process_config_file_def sess_inv_def halt_def)
  qed
qed

lemma process_image_inv:
  assumes "sess_inv \<sigma>" and "s_run \<sigma>" and "s_state \<sigma> = FW_UPGRADE_STATE_PROCESS_IMAGE_E"
  shows "sess_inv (st_process_image \<sigma>)"
proof -
  have b: "image_index \<sigma> < total_images \<sigma>" "\<not> is_first \<sigma>" "0 < total_images \<sigma>" "total_images \<sigma> \<le> 30"
    using assms by (auto simp: sess_inv_def)
  show ?thesis
  proof (cases "fw_upgrade_process_receive_image \<sigma>")
    case None
    with assms show ?thesis by (simp add: st_process_image_def)
  next
    case (Some r)
    obtain st \<sigma>1 where r: "r = (st, \<sigma>1)" by fastforce
    have e: "rcv_loop (rcv_fuel \<sigma>) \<sigma> = Some (st, \<sigma>1)"
      using Some by (simp add: r fw_upgrade_process_receive_image_def)
    from rcv_loop_exit [OF e b(1)] b assms(3) show ?thesis
      unfolding st_process_image_def Some r option.case prod.case
      by (cases "st = FW_UPGRADE_OK_E") (auto simp: sess_inv_def halt_def)
  qed
qed

lemma session_step_inv:
  assumes i: "sess_inv \<sigma>" and r: "s_run \<sigma>"
  shows "sess_inv (session_step \<sigma>)"
proof (cases "s_state \<sigma>")
  case FW_UPGRADE_STATE_PROCESS_CONFIG_FILE_E
  with process_config_inv [OF i r] show ?thesis by (simp add: session_step_def)
next
  case FW_UPGRADE_STATE_PROCESS_IMAGE_E
  with process_image_inv [OF i r] show ?thesis by (simp add: session_step_def)
next
  case FW_UPGRADE_STATE_PREPARE_CONNECT_E
  show ?thesis
  proof (cases "is_first \<sigma>")
    case True
    with i FW_UPGRADE_STATE_PREPARE_CONNECT_E show ?thesis by (simp add: session_step_def prepare_connect_first sess_inv_def)
  next
    case False
    with i FW_UPGRADE_STATE_PREPARE_CONNECT_E prepare_connect_later [OF False refl] show ?thesis
      by (auto simp: session_step_def sess_inv_def)
  qed
next
  case FW_UPGRADE_STATE_RECEIVE_DATA_E
  with i r receive_data_moves [of \<sigma>] show ?thesis by (simp add: session_step_def sess_inv_def) auto
next
  case FW_UPGRADE_STATE_GET_TRIAL_INFO_E
  with i get_trial_info_state [of \<sigma>] show ?thesis by (simp add: session_step_def sess_inv_def) auto
next
  case FW_UPGRADE_STATE_NOT_START_E
  with i moves_inv [OF simple_moves(1) i] show ?thesis by (simp add: session_step_def may_enter_def sess_inv_def [of \<sigma>])
next
  case FW_UPGRADE_STATE_ERASE_FWD_E
  with i moves_inv [OF simple_moves(2) i] show ?thesis by (simp add: session_step_def may_enter_def sess_inv_def [of \<sigma>])
next
  case FW_UPGRADE_STATE_ERASE_SECOND_FS_E
  with i moves_inv [OF simple_moves(3) i] show ?thesis by (simp add: session_step_def may_enter_def sess_inv_def [of \<sigma>])
next
  case FW_UPGRADE_STATE_PREPARE_FS_E
  with i moves_inv [OF simple_moves(4) i] show ?thesis by (simp add: session_step_def may_enter_def sess_inv_def [of \<sigma>])
next
  case FW_UPGRADE_STATE_CONNECT_SERVER_E
  with i r moves_inv [OF simple_moves(5) i] show ?thesis by (simp add: session_step_def may_enter_def sess_inv_def [of \<sigma>])
next
  case FW_UPGRADE_STATE_DUPLICATE_IMAGES_E
  with i moves_inv [OF simple_moves(8) i] show ?thesis by (simp add: session_step_def may_enter_def sess_inv_def [of \<sigma>])
next
  case FW_UPGRADE_STATE_DUPLICATE_FS_E
  with i moves_inv [OF simple_moves(9) i] show ?thesis by (simp add: session_step_def may_enter_def sess_inv_def [of \<sigma>])
next
  case FW_UPGRADE_STATE_DISCONNECT_SERVER_E
  then show ?thesis using i by (simp add: session_step_def sess_inv_def)
next
  case FW_UPGRADE_STATE_FINISH_E
  then show ?thesis using i by (simp add: session_step_def sess_inv_def)
qed (use i r in \<open>simp_all add: sess_inv_def\<close>)

lemma session_run_inv: "session_run \<sigma>0 \<sigma> \<Longrightarrow> sess_inv \<sigma>0 \<Longrightarrow> sess_inv \<sigma>"
  by (induction rule: session_run.induct) (auto intro: session_step_inv simp: in_loop_def)

lemma new_session_inv: "sess_inv (new_session iface u cfg fl g)"
  by (simp add: new_session_def sess_inv_def)

lemma session_loop_run:
  assumes "session_loop fuel \<sigma> = Some \<sigma>'" and "session_run \<sigma>0 \<sigma>"
  shows "\<exists>\<sigma>1. session_run \<sigma>0 \<sigma>1 \<and> \<sigma>' = poll_request \<sigma>1 \<and> \<not> in_loop \<sigma>'"
  using assms
proof (induction fuel arbitrary: \<sigma>)
  case (Suc fuel)
  then show ?case by (cases "in_loop (poll_request \<sigma>)") (auto simp: Let_def intro: session_run.step)
qed simp

lemma session_end_fields [simp]: "sess_inv (session_end \<sigma>) = sess_inv \<sigma>"
  by (simp add: session_end_def sess_inv_def)

text \<open>A concrete environment: every allocation and plugin call succeeds, nobody interferes, nothing is ever
  received, and a hash is 32 zeros.\<close>

definition demo_env :: fw_env where
  "demo_env = \<lparr>plugin_init = \<lambda>_. 0, plugin_recv = \<lambda>_. (0, []), plugin_resume = \<lambda>_. 0, alloc = \<lambda>_. True,
     other_thread = \<lambda>_. No_Request, sha256 = \<lambda>_. replicate 32 0,
     behind_hdrs = \<lparr>h_magic = 0, h_image_id = 0, h_version = 0, h_image_file = [], h_disk_size = 0, h_image_length = 0,
       h_hash_type = 0, h_hash = []\<rparr>, heap_junk = [], buf_addr = 0x20000, no_fs = True\<rparr>"

definition demo_glob :: fw_glob where
  "demo_glob = \<lparr>g_fu = demo_fu 3 demo_flash_mem, g_env = demo_env, g_n = 0, g_cxt = None, g_mutex = True, g_reset = False\<rparr>"

abbreviation demo_session :: sess where "demo_session \<equiv> new_session ''wlan0'' ''http://host/'' ''fw.cfg'' 0 demo_glob"

text \<open>C15: in every iteration of a session that was not resumed, the invariant holds: images are processed only
  after a configuration file was accepted and while there are some left, and the states that duplicate images
  and finish the session are entered only when every image of the configuration has been dealt with.\<close>

theorem fresh_session_invariant:
  assumes "session_run (new_session iface u cfg fl g) \<sigma>"
  shows "sess_inv \<sigma>"
  using session_run_inv [OF assms] new_session_inv by blast

theorem fresh_session_invariant_witness:
  "s_state (session_step (poll_request demo_session)) = FW_UPGRADE_STATE_GET_TRIAL_INFO_E \<and>
   sess_inv (session_step (poll_request demo_session))"
proof -
  have "in_loop (poll_request demo_session)"
    by (simp add: in_loop_def poll_request_def ask_eq new_session_def demo_glob_def demo_env_def)
  from session_run.step [OF session_run.start this]
  have "sess_inv (session_step (poll_request demo_session))" by (rule fresh_session_invariant)
  moreover have "s_state (session_step (poll_request demo_session)) = FW_UPGRADE_STATE_GET_TRIAL_INFO_E"
    by (simp add: session_step_def st_not_start_def new_session_def)
  ultimately show ?thesis by simp
qed

text \<open>A session that starts in the invariant (as a new one does) and whose loop ends in the state \<open>FINISH\<close>
  has accepted a configuration file and moved past each of its images, of which there are between 1 and 30.\<close>

theorem finished_session_complete:
  assumes "sess_inv (\<sigma>\<lparr>s_run := True\<rparr>)" and "s_state \<sigma> \<noteq> FW_UPGRADE_STATE_FINISH_E"
    and "fw_upgrade_session_process fuel \<sigma> = Some (r, \<sigma>')" and "s_state \<sigma>' = FW_UPGRADE_STATE_FINISH_E"
  shows "\<not> is_first \<sigma>' \<and> 0 < total_images \<sigma>' \<and> total_images \<sigma>' \<le> 30 \<and> total_images \<sigma>' \<le> image_index \<sigma>'"
proof -
  let ?\<sigma> = "\<sigma>\<lparr>s_n := Suc (s_n \<sigma>), s_ret := OK, s_run := True\<rparr>"
  from assms(2-4) obtain \<sigma>1 where l: "session_loop fuel ?\<sigma> = Some \<sigma>1" "\<sigma>' = session_end \<sigma>1"
    by (auto simp: fw_upgrade_session_process_def sess_ops split: if_splits)
  from session_loop_run [OF l(1) session_run.start] obtain \<sigma>2 where s: "session_run ?\<sigma> \<sigma>2" "\<sigma>1 = poll_request \<sigma>2" by blast
  have "sess_inv ?\<sigma>" using assms(1) by (simp add: sess_inv_def cong: if_cong)
  with session_run_inv [OF s(1)] s(2) l(2) have "sess_inv \<sigma>'" by simp
  with assms(4) show ?thesis by (auto simp: sess_inv_def)
qed

definition demo_last :: sess where
  "demo_last = demo_session\<lparr>s_state := FW_UPGRADE_STATE_DUPLICATE_FS_E, is_first := False, total_images := 2, image_index := 2\<rparr>"

lemma demo_last_ends:
  "\<exists>\<sigma>'. fw_upgrade_session_process 3 demo_last = Some (OK, \<sigma>') \<and> s_state \<sigma>' = FW_UPGRADE_STATE_FINISH_E \<and> image_index \<sigma>' = 2"
  by (simp add: fw_upgrade_session_process_def demo_last_def eval_nat_numeral Let_def in_loop_def poll_request_def ask_eq
      new_session_def demo_glob_def demo_env_def session_step_def st_duplicate_fs_def set_state_def session_end_def)

theorem finished_session_complete_witness:
  "\<exists>\<sigma>'. fw_upgrade_session_process 3 demo_last = Some (OK, \<sigma>') \<and> s_state \<sigma>' = FW_UPGRADE_STATE_FINISH_E \<and>
     total_images \<sigma>' \<le> image_index \<sigma>'"
proof -
  obtain \<sigma>' where p: "fw_upgrade_session_process 3 demo_last = Some (OK, \<sigma>')" "s_state \<sigma>' = FW_UPGRADE_STATE_FINISH_E"
    using demo_last_ends by blast
  have "sess_inv (demo_last\<lparr>s_run := True\<rparr>)" "s_state demo_last \<noteq> FW_UPGRADE_STATE_FINISH_E"
    by (simp_all add: demo_last_def sess_inv_def new_session_def)
  from finished_session_complete [OF this p] p show ?thesis by blast
qed

section \<open>Ending a session\<close>

lemma release_fields [simp]: "fu_flash (release i s) = fu_flash s" "fu_rram (release i s) = fu_rram s"
  by (simp_all add: release_def)

lemma close_partition_fu [simp]:
  "fu_flash (s_fu (close_partition \<sigma>)) = fu_flash (s_fu \<sigma>)" "fu_rram (s_fu (close_partition \<sigma>)) = fu_rram (s_fu \<sigma>)"
  by (simp_all add: close_partition_def release_hdl_def split: option.split)

lemma of_session_fu [simp]: "g_fu (of_session \<sigma> g) = s_fu \<sigma>"
  by (simp add: of_session_def)

lemma session_fin_fu:
  "fu_flash (g_fu (snd (fw_upgrade_session_fin (of_session \<sigma> g)))) = fu_flash (s_fu \<sigma>)"
  "fu_rram (g_fu (snd (fw_upgrade_session_fin (of_session \<sigma> g)))) = fu_rram (s_fu \<sigma>)"
  by (simp_all add: fw_upgrade_session_fin_def of_session_def to_session_def)

lemma finalize_fu:
  fixes r \<sigma> g defines "\<sigma>1 \<equiv> \<sigma>\<lparr>error_code := final_ret r \<sigma>\<rparr>"
  shows "fu_flash (g_fu (snd (fw_upgrade_session_finalize r \<sigma> g))) =
      fu_flash (s_fu (if final_ret r \<sigma> = OK \<and> s_state \<sigma> = FW_UPGRADE_STATE_FINISH_E then publish_trial \<sigma>1 else \<sigma>1))"
    and "fu_rram (g_fu (snd (fw_upgrade_session_finalize r \<sigma> g))) =
      fu_rram (s_fu (if final_ret r \<sigma> = OK \<and> s_state \<sigma> = FW_UPGRADE_STATE_FINISH_E then publish_trial \<sigma>1 else \<sigma>1))"
  by (simp_all add: fw_upgrade_session_finalize_def Let_def \<sigma>1_def session_fin_fu
      fw_upgrade_session_prepare_suspend_def)

text \<open>C17: a session that failed, was cancelled or did not reach the state \<open>FINISH\<close> publishes nothing: ending it
  leaves the flash and the RRAM as the session left them, and it does not reset the system. Its result is an
  error.\<close>

theorem incomplete_session_publishes_nothing:
  assumes "r \<noteq> OK \<or> s_state \<sigma> \<noteq> FW_UPGRADE_STATE_FINISH_E \<or> session_status \<sigma> = FW_UPGRADE_SESSION_CANCEL_E"
  shows "fst (fw_upgrade_session_finalize r \<sigma> g) \<noteq> OK \<and>
    fu_flash (g_fu (snd (fw_upgrade_session_finalize r \<sigma> g))) = fu_flash (s_fu \<sigma>) \<and>
    fu_rram (g_fu (snd (fw_upgrade_session_finalize r \<sigma> g))) = fu_rram (s_fu \<sigma>) \<and>
    g_reset (snd (fw_upgrade_session_finalize r \<sigma> g)) = g_reset g"
proof -
  have e: "final_ret r \<sigma> \<noteq> OK" using assms by (auto simp: final_ret_def)
  then show ?thesis
    by (simp add: finalize_fu)
      (simp add: fw_upgrade_session_finalize_def Let_def fw_upgrade_session_fin_def of_session_def)
qed

theorem incomplete_session_publishes_nothing_witness:
  "fst (fw_upgrade_session_finalize OK demo_session demo_glob) = Inl FW_UPGRADE_ERR_INCOMPLETE_E \<and>
   fu_flash (g_fu (snd (fw_upgrade_session_finalize OK demo_session demo_glob))) = fu_flash (demo_fu 3 demo_flash_mem)"
proof -
  have "s_state demo_session \<noteq> FW_UPGRADE_STATE_FINISH_E" by (simp add: new_session_def)
  then have "fu_flash (g_fu (snd (fw_upgrade_session_finalize OK demo_session demo_glob))) = fu_flash (s_fu demo_session)"
    using incomplete_session_publishes_nothing [of OK demo_session demo_glob] by blast
  then show ?thesis
    by (simp add: new_session_def demo_glob_def fw_upgrade_session_finalize_def final_ret_def Let_def)
qed

lemma set_sbl_frame [frame_simps]: "fu_flash (snd (fw_upgrade_set_sbl_trial_fde i v s)) = fu_flash s"
  by (simp add: fw_upgrade_set_sbl_trial_fde_def Let_def case_prod_beta frame_simps)

lemma publish_trial_mem:
  assumes "fu_ready (s_fu \<sigma>)" and "trial_fwd_idx \<sigma> < 3"
  shows "fmem (s_fu (publish_trial \<sigma>)) =
    mcombine (AND) (fmem (s_fu \<sigma>)) (4096 * ucast (trial_fwd_idx \<sigma>) + 12) [FW_UPGRADE_FWD_STATUS_VALID]"
proof -
  obtain k where "fw_upgrade_set_fwd_info (trial_fwd_idx \<sigma>) FW_UPGRADE_FWD_STATUS_E [FW_UPGRADE_FWD_STATUS_VALID] (s_fu \<sigma>) =
     (FW_UPGRADE_OK_E, put_mem (mcombine (AND) (fmem (s_fu \<sigma>)) (4096 * ucast (trial_fwd_idx \<sigma>) + 12)
        [FW_UPGRADE_FWD_STATUS_VALID]) k (s_fu \<sigma>))"
    using set_fwd_info_ok [OF assms, of FW_UPGRADE_FWD_STATUS_E "[FW_UPGRADE_FWD_STATUS_VALID]"] by auto
  then show ?thesis
    by (simp add: publish_trial_def sess_ops case_prod_beta frame_simps split: option.split)
qed

text \<open>The descriptor fields after the end of a complete session.\<close>

lemma finalize_views:
  assumes "fu_ready (s_fu \<sigma>)" and "trial_fwd_idx \<sigma> < 3"
    and "s_state \<sigma> = FW_UPGRADE_STATE_FINISH_E" and "session_status \<sigma> \<noteq> FW_UPGRADE_SESSION_CANCEL_E" and "i < 3"
  shows "view (fmem (g_fu (snd (fw_upgrade_session_finalize OK \<sigma> g)))) i =
    (if i = trial_fwd_idx \<sigma> then (view (fmem (s_fu \<sigma>)) i)\<lparr>v_status := v_status (view (fmem (s_fu \<sigma>)) i) AND 1\<rparr>
     else view (fmem (s_fu \<sigma>)) i)"
proof -
  have e: "final_ret OK \<sigma> = OK" using assms(3,4) by (simp add: final_ret_def)
  have "fmem (g_fu (snd (fw_upgrade_session_finalize OK \<sigma> g))) =
      mcombine (AND) (fmem (s_fu \<sigma>)) (4096 * ucast (trial_fwd_idx \<sigma>) + 12) [1]"
    using publish_trial_mem [of "\<sigma>\<lparr>error_code := OK\<rparr>"] assms(1,2) by (simp add: finalize_fu e assms(3))
  then show ?thesis using view_set_status [OF assms(5,2), of "fmem (s_fu \<sigma>)" 1] by simp
qed

text \<open>Ending a complete session publishes exactly its descriptor: when the descriptor has the expected magic
  and image count and its rank and status are still erased, it becomes a trial, every other descriptor keeps its
  fields, and the session returns success unless a suspension was requested.\<close>

theorem complete_session_publishes_trial:
  assumes "fu_ready (s_fu \<sigma>)" and "trial_fwd_idx \<sigma> < 3"
    and "s_state \<sigma> = FW_UPGRADE_STATE_FINISH_E" and "session_status \<sigma> \<noteq> FW_UPGRADE_SESSION_CANCEL_E"
    and "view (fmem (s_fu \<sigma>)) (trial_fwd_idx \<sigma>) =
      \<lparr>v_magic = FW_UPGRADE_MAGIC_V1, v_rank = 0xFFFFFFFF, v_status = 0xFF, v_images = n\<rparr>" and "0 < n" and "n \<noteq> 0xFF"
  shows "is_trial (view (fmem (g_fu (snd (fw_upgrade_session_finalize OK \<sigma> g)))) (trial_fwd_idx \<sigma>)) \<and>
    (\<forall>i < 3. i \<noteq> trial_fwd_idx \<sigma> \<longrightarrow>
       view (fmem (g_fu (snd (fw_upgrade_session_finalize OK \<sigma> g)))) i = view (fmem (s_fu \<sigma>)) i) \<and>
    (session_status \<sigma> \<noteq> FW_UPGRADE_SESSION_SUSPEND_E \<longrightarrow> fst (fw_upgrade_session_finalize OK \<sigma> g) = OK)"
proof -
  have e: "final_ret OK \<sigma> = OK" using assms(3,4) by (simp add: final_ret_def)
  note v = finalize_views [OF assms(1-4)]
  have "is_trial (view (fmem (g_fu (snd (fw_upgrade_session_finalize OK \<sigma> g)))) (trial_fwd_idx \<sigma>))"
    unfolding v [OF assms(2)] using assms(5-7) by (simp add: is_trial_def usable_def fwd_usable_def)
  moreover have "session_status (publish_trial (\<sigma>\<lparr>error_code := OK\<rparr>)) = session_status \<sigma>"
    by (simp add: publish_trial_def sess_ops case_prod_beta split: option.split)
  then have "session_status \<sigma> \<noteq> FW_UPGRADE_SESSION_SUSPEND_E \<longrightarrow> fst (fw_upgrade_session_finalize OK \<sigma> g) = OK"
    by (simp add: fw_upgrade_session_finalize_def Let_def e assms(3))
  ultimately show ?thesis using v by simp
qed

definition demo_done :: sess where
  "demo_done = demo_session\<lparr>s_state := FW_UPGRADE_STATE_FINISH_E, trial_fwd_idx := 2,
     s_fu := demo_fu 3 (mwrite demo_flash_mem 0x2000 (enc32 FW_UPGRADE_MAGIC_V1 @ enc32 1 @ enc32 0xFFFFFFFF @ [0xFF, 1]))\<rparr>"

theorem complete_session_publishes_trial_witness:
  "is_trial (view (fmem (g_fu (snd (fw_upgrade_session_finalize OK demo_done demo_glob)))) 2)"
proof -
  have "view (fmem (s_fu demo_done)) 2 = \<lparr>v_magic = FW_UPGRADE_MAGIC_V1, v_rank = 0xFFFFFFFF, v_status = 0xFF, v_images = 1\<rparr>"
    by (simp add: demo_done_def view_def Let_def demo_flash_mem_def demo_descriptor_def eval_mem)
  then show ?thesis
    using complete_session_publishes_trial [of demo_done 1 demo_glob] by (simp add: demo_done_def new_session_def)
qed

end
