(* ===== verification/FwIntegrity.thy ===== *)
theory FwIntegrity
  imports FwUpgradeFacts
begin

text \<open>
  What the firmware-upgrade session puts into flash is what it hashes: partition writes and erases in terms of
  byte offsets inside the partition, the invariant of a partly received image (the digest covers exactly the
  bytes in flash, and the rest of the current block is erased), and the step of the receive loop that stores a
  packet and verifies a finished image.
\<close>

unbundle bit_operations_syntax

section \<open>Partition access by offset\<close>

definition part_ok :: "nat \<Rightarrow> fu \<Rightarrow> bool" where
  "part_ok i s \<longleftrightarrow> fu_ready s \<and> i < FW_UPGRADE_MAX_HANDLES \<and> 0 < ref_count (client s i) \<and> img_id (client s i) \<noteq> SBL_IMG_ID \<and>
     unat (img_start (client s i)) mod 4096 = 0 \<and> unat (img_size (client s i)) mod 4096 = 0 \<and>
     unat (img_start (client s i)) + unat (img_size (client s i)) \<le> unat (flash_limit (fu_flash s))"

lemma part_ok_put_mem [simp]: "part_ok i (put_mem m k s) = part_ok i s"
  by (simp add: part_ok_def)

text \<open>Byte \<open>j\<close> of a partition, counted from its start.\<close>

abbreviation cell :: "mem \<Rightarrow> u32 \<Rightarrow> nat \<Rightarrow> u8" where "cell m a j \<equiv> m (a + of_nat j)"

lemma in_range_cell:
  assumes "j < 2 ^ 32" and "off + n \<le> 2 ^ 32" and "off < 2 ^ 32"
  shows "in_range (a + of_nat off) n (a + of_nat j :: u32) \<longleftrightarrow> off \<le> j \<and> j < off + n"
proof -
  have "a + of_nat j - (a + of_nat off) = (of_nat j - of_nat off :: u32)" by simp
  then show ?thesis using assms by (auto simp: in_range_def unat_diff_u32 unat_of_nat_u32)
qed

lemma cell_merase:
  assumes "j < 2 ^ 32" and "off + n \<le> 2 ^ 32" and "off < 2 ^ 32"
  shows "cell (merase m (a + of_nat off) n) a j = (if off \<le> j \<and> j < off + n then 0xFF else cell m a j)"
  using in_range_cell [OF assms] by (simp add: merase_def)

lemma cell_program:
  assumes "j < 2 ^ 32" and "off + length bs \<le> 2 ^ 32" and "off < 2 ^ 32"
  shows "cell (mcombine (AND) m (a + of_nat off) bs) a j =
    (if off \<le> j \<and> j < off + length bs then cell m a j AND bs ! (j - off) else cell m a j)"
proof (cases "off \<le> j \<and> j < off + length bs")
  case True
  then obtain i where i: "j = off + i" "i < length bs" by (metis add_less_cancel_left le_Suc_ex)
  then show ?thesis
    using mcombine_at [of i bs "(AND)" m "a + of_nat off"] assms by (simp add: add.assoc)
next
  case False
  then show ?thesis using in_range_cell [OF assms(1,2,3), of a] mcombine_out [of "a + of_nat off" bs] by auto
qed

lemma fl_erase_ok:
  assumes "fu_ready s" and "cnt \<noteq> 0" and "(unat start + unat cnt) * 4096 \<le> unat (flash_limit (fu_flash s))"
  shows "\<exists>k. fl_erase start cnt s = (FLASH_DEVICE_DONE, put_mem (merase (fmem s) (start * 4096) (unat cnt * 4096)) k s)"
  using drv_flash_erase_ok [OF _ assms(2,3)] assms(1) by (auto simp: fu_ready_def fl_erase_def put_mem_def)

lemma erase_partition_ok:
  assumes p: "part_ok i s" and "0 < n" and "off mod 4096 = 0" and "n mod 4096 = 0" and "off + n \<le> unat (img_size (client s i))"
  shows "\<exists>k. fw_upgrade_erase_partition (Some i) (of_nat off) (of_nat n) s =
    (FW_UPGRADE_OK_E, put_mem (merase (fmem s) (img_start (client s i) + of_nat off) n) k s)"
proof -
  let ?c = "client s i"
  note b = p [unfolded part_ok_def]
  have lt: "unat (img_start ?c) + unat (img_size ?c) < 2 ^ 32"
    using b unat_u32_bound [of "flash_limit (fu_flash s)"] le_less_trans by blast
  have un: "unat (of_nat off :: u32) = off" "unat (of_nat n :: u32) = n" "unat (of_nat off + of_nat n :: u32) = off + n"
    "unat (img_start ?c + of_nat off) = unat (img_start ?c) + off"
    using assms(5) lt by (simp_all add: unat_of_nat_u32 unat_word_ariths)
  define st where "st = (img_start ?c + of_nat off) div 4096"
  have st: "unat st = (unat (img_start ?c) + off) div 4096" using un(4) by (simp add: st_def unat_div)
  have al: "st * 4096 = img_start ?c + of_nat off"
  proof -
    have "(unat (img_start ?c) + off) div 4096 * 4096 = unat (img_start ?c) + off"
      using b assms(3) by (simp add: dvd_eq_mod_eq_0 [symmetric])
    then show ?thesis using st un(4) unat_u32_bound [of "img_start ?c + of_nat off"] by (simp add: word_unat_eq_iff unat_word_ariths)
  qed
  have cn: "unat (of_nat n div 4096 :: u32) = n div 4096" "n div 4096 * 4096 = n"
    using un(2) assms(4) by (simp_all add: unat_div dvd_eq_mod_eq_0 [symmetric])
  have "(unat st + unat (of_nat n div 4096 :: u32)) * 4096 \<le> unat (flash_limit (fu_flash s))"
  proof -
    have "unat st * 4096 = unat (img_start ?c) + off" using st b assms(3) by (simp add: dvd_eq_mod_eq_0 [symmetric])
    with cn b assms(5) show ?thesis by (simp add: add_mult_distrib)
  qed
  moreover have "of_nat n div 4096 \<noteq> (0 :: u32)"
    using cn assms(2) by (metis mult_is_0 neq0_conv unat_0)
  ultimately obtain k where "fl_erase st (of_nat n div 4096) s =
      (FLASH_DEVICE_DONE, put_mem (merase (fmem s) (img_start ?c + of_nat off) n) k s)"
    using fl_erase_ok [of s "of_nat n div 4096" st] b cn by (auto simp: al)
  moreover have "of_nat n \<noteq> (0 :: u32)" "(of_nat n :: u32) mod 4096 = 0" "(of_nat off :: u32) mod 4096 = 0"
    "\<not> img_size ?c < of_nat off + of_nat n"
    using un assms(2-5) by (simp_all add: word_unat_eq_iff word_less_nat_alt unat_mod)
  ultimately show ?thesis using b fu_ready_simps(2) [of s]
    by (simp add: fw_upgrade_erase_partition_def fw_upgrade_partition_handle_validation_def Let_def fu_ready_def st_def [symmetric])
      blast
qed

lemma write_partition_ok:
  assumes p: "part_ok i s" and "0 < n" and "off + n \<le> unat (img_size (client s i))"
  shows "\<exists>k. fw_upgrade_write_partition (Some i) (of_nat off) src bs (of_nat n) s =
    (FW_UPGRADE_OK_E, put_mem (mcombine (AND) (fmem s) (img_start (client s i) + of_nat off) (take n bs)) k s)"
proof -
  let ?c = "client s i"
  note b = p [unfolded part_ok_def]
  have lt: "unat (img_start ?c) + unat (img_size ?c) < 2 ^ 32"
    using b unat_u32_bound [of "flash_limit (fu_flash s)"] le_less_trans by blast
  have un: "unat (of_nat off :: u32) = off" "unat (of_nat n :: u32) = n"
    "unat (img_start ?c + of_nat off) = unat (img_start ?c) + off"
    "unat (img_start ?c + of_nat off + of_nat n) = unat (img_start ?c) + off + n"
    "unat (img_start ?c + img_size ?c) = unat (img_start ?c) + unat (img_size ?c)"
    using assms(3) lt by (simp_all add: unat_of_nat_u32 unat_word_ariths)
  have nz: "of_nat n \<noteq> (0 :: u32)" using un(2) assms(2) by auto
  obtain k where "fl_write (img_start ?c + of_nat off) (of_nat n) bs s =
      (FLASH_DEVICE_DONE, put_mem (mcombine (AND) (fmem s) (img_start ?c + of_nat off) (take n bs)) k s)"
    using fl_write_ok [of s "of_nat n" "img_start ?c + of_nat off" bs] b nz un assms(3) by auto
  moreover have "fw_upgrade_mem_parameters_validation (Some i) (of_nat off) (of_nat n) s = FW_UPGRADE_OK_E"
    using b nz un assms(3)
    by (simp add: fw_upgrade_mem_parameters_validation_def fw_upgrade_partition_handle_validation_def Let_def fu_ready_def
        word_less_nat_alt)
  ultimately show ?thesis using b by (auto simp: fw_upgrade_write_partition_def Let_def)
qed

section \<open>Storing a packet\<close>

text \<open>End of the block that holds byte \<open>c\<close>, and the first block boundary not before \<open>e\<close>.\<close>

definition block_end :: "nat \<Rightarrow> nat" where "block_end c = (c div 4096 + 1) * 4096"

definition block_ceil :: "nat \<Rightarrow> nat" where "block_ceil e = (if e mod 4096 = 0 then e else block_end e)"

lemma block_end_bounds: "c < block_end c" "block_end c mod 4096 = 0" "c < S \<Longrightarrow> S mod 4096 = 0 \<Longrightarrow> block_end c \<le> S"
proof -
  show "c < block_end c" using div_mult_mod_eq [of c 4096] by (simp add: block_end_def)
  show "block_end c mod 4096 = 0" by (simp add: block_end_def)
  assume "c < S" "S mod 4096 = 0"
  then have d: "c div 4096 < S div 4096" "S div 4096 * 4096 = S" by (auto simp: div_less_iff_less_mult dvd_eq_mod_eq_0 [symmetric])
  have "(c div 4096 + 1) * 4096 \<le> S div 4096 * 4096" using d(1) by (intro mult_le_mono1) simp
  then show "block_end c \<le> S" unfolding block_end_def d(2) .
qed

lemma block_ceil_end: "0 < e \<Longrightarrow> block_ceil e = block_end (e - 1)"
proof (cases e)
  case (Suc f)
  then show ?thesis using div_mult_mod_eq [of "Suc f" 4096]
    by (cases "Suc f mod 4096 = 0") (simp_all add: block_ceil_def block_end_def div_Suc)
qed simp

text \<open>The blocks a write from \<open>c\<close> to \<open>e\<close> runs into, behind the one it starts in.\<close>

lemma blocks_ahead:
  assumes "c < e"
  shows "c div 4096 = (e - 1) div 4096 \<Longrightarrow> block_ceil e = block_end c"
    and "c div 4096 \<noteq> (e - 1) div 4096 \<Longrightarrow> block_end c < block_ceil e"
    and "e \<le> block_ceil e" and "e \<le> S \<Longrightarrow> S mod 4096 = 0 \<Longrightarrow> block_ceil e \<le> S"
proof -
  have c: "block_ceil e = block_end (e - 1)" using assms by (simp add: block_ceil_end)
  then show "c div 4096 = (e - 1) div 4096 \<Longrightarrow> block_ceil e = block_end c" by (simp add: block_end_def)
  have "c div 4096 \<le> (e - 1) div 4096" using assms by (simp add: div_le_mono)
  then show "c div 4096 \<noteq> (e - 1) div 4096 \<Longrightarrow> block_end c < block_ceil e" using c by (simp add: block_end_def)
  show "e \<le> block_ceil e" using c block_end_bounds(1) [of "e - 1"] assms by simp
  show "e \<le> S \<Longrightarrow> S mod 4096 = 0 \<Longrightarrow> block_ceil e \<le> S" using c block_end_bounds(3) [of "e - 1" S] assms by simp
qed

lemma program_after_erase:
  fixes m :: mem and a :: u32
  assumes n: "0 < length bs" and S: "S mod 4096 = 0" "c + length bs \<le> S" "S < 2 ^ 32"
    and er: "\<forall>j. c \<le> j \<and> j < block_end c \<longrightarrow> cell m a j = 0xFF"
  defines "e \<equiv> c + length bs"
  defines "m1 \<equiv> (if c div 4096 \<noteq> (e - 1) div 4096
                  then merase m (a + of_nat (block_end c)) (block_ceil e - block_end c) else m)"
  defines "m2 \<equiv> mcombine (AND) m1 (a + of_nat c) bs"
  shows "mread m2 a e = mread m a c @ bs" and "\<forall>j. e \<le> j \<and> j < block_ceil e \<longrightarrow> cell m2 a j = 0xFF"
proof -
  have ce: "c < e" "e \<le> S" using n S(2) by (simp_all add: e_def)
  have top: "block_ceil e \<le> S" "block_end c \<le> S" using blocks_ahead(4) [OF ce(1)] block_end_bounds(3) [of c S] ce S by simp_all
  have m1: "cell m1 a j = (if c \<le> j then 0xFF else cell m a j)" if "j < block_ceil e" for j
  proof (cases "c div 4096 = (e - 1) div 4096")
    case True
    then have "block_ceil e = block_end c" using blocks_ahead(1) ce(1) by simp
    then show ?thesis using True that er by (simp add: m1_def)
  next
    case False
    then have l: "block_end c < block_ceil e" using blocks_ahead(2) ce(1) by simp
    have "cell m1 a j = (if block_end c \<le> j \<and> j < block_ceil e then 0xFF else cell m a j)"
      using False l top that S(3) cell_merase [of j "block_end c" "block_ceil e - block_end c" m a] by (simp add: m1_def)
    then show ?thesis using that er block_end_bounds(1) [of c] by auto
  qed
  have m2: "cell m2 a j = (if c \<le> j \<and> j < e then cell m1 a j AND bs ! (j - c) else cell m1 a j)" if "j < S" for j
    using that S cell_program [of j c bs m1 a] by (simp add: m2_def e_def)
  have le: "e \<le> block_ceil e" using blocks_ahead(3) [OF ce(1)] .
  show "mread m2 a e = mread m a c @ bs"
  proof (rule nth_equalityI)
    show "length (mread m2 a e) = length (mread m a c @ bs)" by (simp add: e_def)
    fix j assume "j < length (mread m2 a e)"
    then have j: "j < e" "j < block_ceil e" "j < S" using le ce by simp_all
    then show "mread m2 a e ! j = (mread m a c @ bs) ! j"
      using m2 m1 by (simp add: nth_append)
  qed
  show "\<forall>j. e \<le> j \<and> j < block_ceil e \<longrightarrow> cell m2 a j = 0xFF"
    using m1 m2 top ce by auto
qed

lemma div_4096: "(x :: u32) div 4096 = of_nat (unat x div 4096)"
proof -
  have "unat x div 4096 < 2 ^ 32" using unat_u32_bound [of x] div_le_dividend [of "unat x" 4096] by linarith
  then show ?thesis by (simp add: word_unat_eq_iff unat_div unat_of_nat_u32)
qed

lemma mod_4096: "(x :: u32) mod 4096 = 0 \<longleftrightarrow> unat x mod 4096 = 0"
  by (simp add: word_unat_eq_iff unat_mod)

text \<open>The block arithmetic of the code, in 32 bits.\<close>

lemma block_words:
  fixes cnt n :: u32
  assumes "0 < n" and "unat cnt + unat n \<le> S" and "S mod 4096 = 0" and "S < 2 ^ 32"
  defines "c \<equiv> unat cnt" and "e \<equiv> unat cnt + unat n"
  shows "(cnt div 4096 + 1) * 4096 = of_nat (block_end c)"
    and "(if (cnt + n) mod 4096 \<noteq> 0 then (cnt + n) div 4096 + 1 else (cnt + n) div 4096) * 4096 = of_nat (block_ceil e)"
    and "cnt div 4096 \<noteq> (cnt + n - 1) div 4096 \<longleftrightarrow> c div 4096 \<noteq> (e - 1) div 4096"
proof -
  have n0: "0 < unat n" using assms(1) by (simp add: word_less_nat_alt)
  have ce: "c < e" "e \<le> S" using n0 assms(2) by (simp_all add: c_def e_def)
  have un: "unat (cnt + n) = e" using ce(2) assms(4) by (simp add: e_def unat_word_ariths)
  have top: "block_end c \<le> S" "block_ceil e \<le> S"
    using block_end_bounds(3) [of c S] blocks_ahead(4) [OF ce(1), of S] ce assms(3) by simp_all
  show "(cnt div 4096 + 1) * 4096 = of_nat (block_end c)"
  proof -
    have "cnt div 4096 + 1 = of_nat (c div 4096 + 1)" by (simp add: c_def div_4096)
    then show ?thesis by (simp add: block_end_def)
  qed
  show "(if (cnt + n) mod 4096 \<noteq> 0 then (cnt + n) div 4096 + 1 else (cnt + n) div 4096) * 4096 = of_nat (block_ceil e)"
  proof (cases "e mod 4096 = 0")
    case True
    then have "(of_nat (e div 4096 * 4096) :: u32) = of_nat e" by (simp only: dvd_div_mult_self dvd_eq_mod_eq_0)
    with True show ?thesis by (simp add: mod_4096 div_4096 un block_ceil_def)
  next
    case False
    have "(of_nat (block_end e) :: u32) = (of_nat (e div 4096) + 1) * 4096" by (simp add: block_end_def)
    with False show ?thesis by (simp add: mod_4096 div_4096 un block_ceil_def)
  qed
  have "unat (cnt + n - 1) = e - 1" using un n0 ce by (simp add: unat_diff_u32)
  then show "cnt div 4096 \<noteq> (cnt + n - 1) div 4096 \<longleftrightarrow> c div 4096 \<noteq> (e - 1) div 4096"
    by (simp add: word_unat_eq_iff unat_div c_def)
qed

section \<open>A partly received image\<close>

text \<open>Image \<open>i\<close> is being received into flash: the digest covers exactly the bytes written so far, and the flash
  is erased from there to \<open>hi\<close>.\<close>

definition receiving :: "nat \<Rightarrow> nat \<Rightarrow> sess \<Rightarrow> bool" where
  "receiving i hi \<sigma> \<longleftrightarrow> partition_hdl \<sigma> = Some i \<and> part_ok i (s_fu \<sigma>) \<and>
     unat (image_wrt_length \<sigma>) \<le> unat (img_size (client (s_fu \<sigma>) i)) \<and> image_wrt_count \<sigma> \<le> image_wrt_length \<sigma> \<and>
     digest_ctx \<sigma> = Some (mread (fmem (s_fu \<sigma>)) (img_start (client (s_fu \<sigma>) i)) (unat (image_wrt_count \<sigma>))) \<and>
     (\<forall>j. unat (image_wrt_count \<sigma>) \<le> j \<and> j < hi \<longrightarrow> cell (fmem (s_fu \<sigma>)) (img_start (client (s_fu \<sigma>) i)) j = 0xFF)"

abbreviation ready_to_store :: "nat \<Rightarrow> sess \<Rightarrow> bool" where
  "ready_to_store i \<sigma> \<equiv> receiving i (block_end (unat (image_wrt_count \<sigma>))) \<sigma>"

lemma part_ok_size:
  assumes "part_ok i s"
  shows "unat (img_size (client s i)) mod 4096 = 0" "unat (img_size (client s i)) < 2 ^ 32" "block_size (mem_params s) = 4096"
  using assms fu_ready_simps(2) [of s] unat_u32_bound [of "img_size (client s i)"] by (simp_all add: part_ok_def)

text \<open>Erasing the blocks a write of \<open>n\<close> bytes at \<open>cnt\<close> runs into, as memory.\<close>

definition erased_ahead :: "mem \<Rightarrow> u32 \<Rightarrow> nat \<Rightarrow> nat \<Rightarrow> mem" where
  "erased_ahead m a c e = (if c div 4096 \<noteq> (e - 1) div 4096
     then merase m (a + of_nat (block_end c)) (block_ceil e - block_end c) else m)"

lemma erase_ahead_ok:
  fixes cnt n :: u32
  assumes p: "part_ok i s" and n: "0 < n" and fit: "unat cnt + unat n \<le> unat (img_size (client s i))"
  shows "\<exists>k. (if cnt div 4096 \<noteq> (cnt + n - 1) div 4096
      then fw_upgrade_erase_partition (Some i) ((cnt div 4096 + 1) * 4096)
        (((if (cnt + n) mod 4096 \<noteq> 0 then (cnt + n) div 4096 + 1 else (cnt + n) div 4096) - (cnt div 4096 + 1)) * 4096) s
      else (FW_UPGRADE_OK_E, s)) =
    (FW_UPGRADE_OK_E, put_mem (erased_ahead (fmem s) (img_start (client s i)) (unat cnt) (unat cnt + unat n)) k s)"
proof -
  let ?c = "unat cnt" let ?e = "unat cnt + unat n"
  note Sb = part_ok_size [OF p]
  note bw = block_words [OF n fit Sb(1,2)]
  have n0: "0 < unat n" using n by (simp add: word_less_nat_alt)
  show ?thesis
  proof (cases "?c div 4096 = (?e - 1) div 4096")
    case True
    have "put_mem (fmem s) (fl_n (fu_flash s)) s = s" by (simp add: put_mem_def)
    with True bw(3) show ?thesis by (intro exI [of _ "fl_n (fu_flash s)"]) (simp add: erased_ahead_def)
  next
    case False
    have l: "block_end ?c < block_ceil ?e" using blocks_ahead(2) [of ?c ?e] False n0 by simp
    have top: "block_ceil ?e \<le> unat (img_size (client s i))" using blocks_ahead(4) [of ?c ?e] n0 fit Sb(1) by simp
    have "((if (cnt + n) mod 4096 \<noteq> 0 then (cnt + n) div 4096 + 1 else (cnt + n) div 4096) - (cnt div 4096 + 1)) * 4096 =
        (of_nat (block_ceil ?e - block_end ?c) :: u32)"
      using l bw(1,2) by (simp only: left_diff_distrib of_nat_diff [OF less_imp_le [OF l]])
    moreover have "(block_ceil ?e - block_end ?c) mod 4096 = 0"
      using n0 block_end_bounds(2) [of ?c] block_end_bounds(2) [of "?e - 1"]
      by (simp add: block_ceil_end dvd_eq_mod_eq_0 [symmetric] dvd_diff_nat)
    ultimately show ?thesis
      using erase_partition_ok [OF p, of "block_ceil ?e - block_end ?c" "block_end ?c"] l top False bw block_end_bounds(2) [of ?c]
      by (auto simp: erased_ahead_def)
  qed
qed

lemma rcv_store_ok:
  assumes r: "ready_to_store i \<sigma>" and n: "0 < n" "n \<le> image_wrt_length \<sigma> - image_wrt_count \<sigma>"
    and buf: "unat (buf_offset \<sigma>) + unat n \<le> length (s_buffer \<sigma>)"
  defines "\<sigma>' \<equiv> snd (rcv_store n \<sigma>)"
  shows "fst (rcv_store n \<sigma>) = Go" and "receiving i (block_ceil (unat (image_wrt_count \<sigma>'))) \<sigma>'"
    and "image_wrt_count \<sigma>' = image_wrt_count \<sigma> + n" and "image_wrt_length \<sigma>' = image_wrt_length \<sigma>"
    and "client (s_fu \<sigma>') i = client (s_fu \<sigma>) i"
    and "digest_ctx \<sigma>' = Some (the (digest_ctx \<sigma>) @ take (unat n) (drop (unat (buf_offset \<sigma>)) (s_buffer \<sigma>)))"
proof -
  define data where "data = take (unat n) (drop (unat (buf_offset \<sigma>)) (s_buffer \<sigma>))"
  define cnt where "cnt = image_wrt_count \<sigma>"
  define a where "a = img_start (client (s_fu \<sigma>) i)"
  define S where "S = unat (img_size (client (s_fu \<sigma>) i))"
  define m where "m = fmem (s_fu \<sigma>)"
  define \<sigma>1 where "\<sigma>1 = dig_update data \<sigma>"
  note inv = r [unfolded receiving_def]
  have p: "part_ok i (s_fu \<sigma>)" "partition_hdl \<sigma> = Some i" using inv by simp_all
  have len: "length data = unat n" using buf by (simp add: data_def)
  have n0: "0 < unat n" using n(1) by (simp add: word_less_nat_alt)
  have fit: "unat cnt + unat n \<le> unat (image_wrt_length \<sigma>)"
  proof -
    have "cnt \<le> image_wrt_length \<sigma>" using inv by (simp add: cnt_def)
    with n(2) show ?thesis by (simp add: cnt_def [symmetric] word_le_nat_alt unat_diff_u32)
  qed
  then have S: "unat cnt + unat n \<le> S" using inv by (simp add: S_def)
  note Sb = part_ok_size [OF p(1)]
  have S2: "S mod 4096 = 0" "S < 2 ^ 32" using Sb p(2) by (simp_all add: S_def)
  let ?c = "unat cnt" let ?e = "unat cnt + unat n"
  have er: "\<forall>j. ?c \<le> j \<and> j < block_end ?c \<longrightarrow> cell m a j = 0xFF" using inv by (simp add: cnt_def m_def a_def)
  have dig: "digest_ctx \<sigma> = Some (mread m a ?c)" using inv by (simp add: cnt_def m_def a_def)
  have s1: "\<sigma>1 = \<sigma>\<lparr>digest_ctx := Some (mread m a ?c @ data)\<rparr>" by (simp add: \<sigma>1_def dig_update_def dig)
  define m1 where "m1 = erased_ahead m a ?c ?e"
  define m2 where "m2 = mcombine (AND) m1 (a + of_nat ?c) data"
  note pe = program_after_erase [of data S ?c m a, unfolded len, OF n0 S2(1) S S2(2) er, folded erased_ahead_def, folded m1_def, folded m2_def]
  obtain k1 where er1: "(if cnt div 4096 \<noteq> (cnt + n - 1) div 4096
      then fw_upgrade_erase_partition (Some i) ((cnt div 4096 + 1) * 4096)
        (((if (cnt + n) mod 4096 \<noteq> 0 then (cnt + n) div 4096 + 1 else (cnt + n) div 4096) - (cnt div 4096 + 1)) * 4096) (s_fu \<sigma>)
      else (FW_UPGRADE_OK_E, s_fu \<sigma>)) = (FW_UPGRADE_OK_E, put_mem m1 k1 (s_fu \<sigma>))"
    using erase_ahead_ok [OF p(1) n(1) S [unfolded S_def]] unfolding m1_def m_def a_def by blast
  obtain k2 where wr: "fw_upgrade_write_partition (Some i) cnt (buf_addr (s_env \<sigma>) + buf_offset \<sigma>) data n (put_mem m1 k1 (s_fu \<sigma>)) =
      (FW_UPGRADE_OK_E, put_mem m2 k2 (s_fu \<sigma>))"
    using write_partition_ok [of i "put_mem m1 k1 (s_fu \<sigma>)" "unat n" ?c "buf_addr (s_env \<sigma>) + buf_offset \<sigma>" data] p n0 S len
    by (auto simp: m2_def a_def S_def)
  have st: "rcv_store n \<sigma> = (Go, \<sigma>\<lparr>digest_ctx := Some (mread m a ?c @ data), s_fu := put_mem m2 k2 (s_fu \<sigma>),
      buf_offset := buf_offset \<sigma> + n, file_read_count := file_read_count \<sigma> + n, image_wrt_count := cnt + n\<rparr>)"
  proof (cases "cnt div 4096 = (cnt + n - 1) div 4096")
    case True
    with er1 have "s_fu \<sigma> = put_mem m1 k1 (s_fu \<sigma>)" by simp
    with True wr show ?thesis
      unfolding rcv_store_def Let_def data_def [symmetric] \<sigma>1_def [symmetric] s1
      by (simp add: sess_ops p(2) Sb(3) cnt_def [symmetric])
  next
    case False
    with er1 wr show ?thesis
      unfolding rcv_store_def Let_def data_def [symmetric] \<sigma>1_def [symmetric] s1
      by (cases "(cnt + n) mod 4096 = 0") (simp_all add: sess_ops p(2) Sb(3) cnt_def [symmetric])
  qed
  show "fst (rcv_store n \<sigma>) = Go" by (simp add: st)
  show "image_wrt_count \<sigma>' = image_wrt_count \<sigma> + n" "image_wrt_length \<sigma>' = image_wrt_length \<sigma>" "client (s_fu \<sigma>') i = client (s_fu \<sigma>) i"
    "digest_ctx \<sigma>' = Some (the (digest_ctx \<sigma>) @ take (unat n) (drop (unat (buf_offset \<sigma>)) (s_buffer \<sigma>)))"
    by (simp_all add: \<sigma>'_def st cnt_def dig data_def)
  have "unat (cnt + n) = ?e" using fit unat_u32_bound [of "image_wrt_length \<sigma>"] by (simp add: unat_word_ariths)
  then show "receiving i (block_ceil (unat (image_wrt_count \<sigma>'))) \<sigma>'"
    using inv pe fit by (simp add: \<sigma>'_def st receiving_def a_def [symmetric] word_le_nat_alt)
qed

lemma erase_next_ok:
  assumes r: "receiving i (block_ceil (unat (image_wrt_count \<sigma>))) \<sigma>" and l: "image_wrt_count \<sigma> < image_wrt_length \<sigma>"
  shows "\<exists>\<sigma>'. rcv_erase_next \<sigma> = (Go, \<sigma>') \<and> ready_to_store i \<sigma>' \<and> image_wrt_count \<sigma>' = image_wrt_count \<sigma>"
proof -
  let ?c = "unat (image_wrt_count \<sigma>)" let ?a = "img_start (client (s_fu \<sigma>) i)" let ?S = "unat (img_size (client (s_fu \<sigma>) i))"
  note inv = r [unfolded receiving_def]
  have p: "part_ok i (s_fu \<sigma>)" "partition_hdl \<sigma> = Some i" using inv by simp_all
  note Sb = part_ok_size [OF p(1)]
  have c: "?c < ?S" using l inv by (simp add: word_less_nat_alt)
  have pos: "0 < image_wrt_length \<sigma>" using l by (simp add: word_less_nat_alt)
  show ?thesis
  proof (cases "?c mod 4096 = 0")
    case False
    then have "rcv_erase_next \<sigma> = (Go, \<sigma>)" by (simp add: rcv_erase_next_def Sb(3) mod_4096)
    with r False show ?thesis by (simp add: block_ceil_def)
  next
    case True
    have e: "block_end ?c = ?c + 4096" using True by (simp add: block_end_def dvd_eq_mod_eq_0 [symmetric])
    with block_end_bounds(3) [OF c Sb(1)] have "?c + 4096 \<le> ?S" by simp
    then obtain k where k: "fw_upgrade_erase_partition (Some i) (image_wrt_count \<sigma>) 4096 (s_fu \<sigma>) =
        (FW_UPGRADE_OK_E, put_mem (merase (fmem (s_fu \<sigma>)) (?a + of_nat ?c) 4096) k (s_fu \<sigma>))"
      using erase_partition_ok [OF p(1), of 4096 ?c] True by auto
    define \<sigma>1 where "\<sigma>1 = \<sigma>\<lparr>s_fu := put_mem (merase (fmem (s_fu \<sigma>)) (?a + of_nat ?c) 4096) k (s_fu \<sigma>)\<rparr>"
    have "rcv_erase_next \<sigma> = (Go, \<sigma>1)"
      using True pos k p(2) by (simp add: rcv_erase_next_def Sb(3) mod_4096 sess_ops \<sigma>1_def)
    moreover have cm: "cell (merase (fmem (s_fu \<sigma>)) (?a + of_nat ?c) 4096) ?a j =
        (if ?c \<le> j \<and> j < ?c + 4096 then 0xFF else cell (fmem (s_fu \<sigma>)) ?a j)" if "j < ?S" for j
      using cell_merase [of j ?c 4096] that c Sb(2) \<open>?c + 4096 \<le> ?S\<close> by simp
    then have "mread (merase (fmem (s_fu \<sigma>)) (?a + of_nat ?c) 4096) ?a ?c = mread (fmem (s_fu \<sigma>)) ?a ?c"
      using c by (intro mread_cong) auto
    ultimately show ?thesis
      using inv cm \<open>?c + 4096 \<le> ?S\<close> by (auto simp: receiving_def \<sigma>1_def e)
  qed
qed

definition hash_padding :: "fw_upgrade_image_hdr \<Rightarrow> sess \<Rightarrow> u8 list" where
  "hash_padding h \<sigma> = (if format \<sigma> = FW_UPGRADE_FORAMT_PARTIAL_UPGRADE then replicate (unat (h_disk_size h - h_image_length h)) 0xFF else [])"

lemma verify_ok:
  assumes "digest_ctx \<sigma> = Some d" and "fw_upgrade_verify_image_hash h \<sigma> = (st, \<sigma>')"
  shows "st = FW_UPGRADE_OK_E \<Longrightarrow> h_hash h = sha256 (s_env \<sigma>) (d @ hash_padding h \<sigma>)"
    and "s_fu \<sigma>' = s_fu \<sigma>" and "st \<in> {FW_UPGRADE_OK_E, FW_UPGRADE_ERR_INSUFFICIENT_MEMORY_E, FW_UPGRADE_ERR_INCORRECT_IMAGE_CHECKSUM_E}"
proof -
  have z: "\<not> 0 < (x :: u32) \<Longrightarrow> unat x = 0" for x by (simp add: word_less_nat_alt)
  show "st = FW_UPGRADE_OK_E \<Longrightarrow> h_hash h = sha256 (s_env \<sigma>) (d @ hash_padding h \<sigma>)" "s_fu \<sigma>' = s_fu \<sigma>"
    "st \<in> {FW_UPGRADE_OK_E, FW_UPGRADE_ERR_INSUFFICIENT_MEMORY_E, FW_UPGRADE_ERR_INCORRECT_IMAGE_CHECKSUM_E}"
    using assms z
    by (auto simp: fw_upgrade_verify_image_hash_def Let_def ask_eq dig_update_def dig_finish_def hash_padding_def split: if_splits)
qed

lemma rcv_len_bounds:
  assumes "rcv_len \<sigma> = (Some w, \<sigma>1)" and "image_wrt_count \<sigma> < image_wrt_length \<sigma>"
    and "unat (buf_len \<sigma>) \<le> length (s_buffer \<sigma>)" "0 < buf_len \<sigma>" "format \<sigma> \<noteq> FW_UPGRADE_FORAMT_PARTIAL_UPGRADE \<longrightarrow> buf_offset \<sigma> < buf_len \<sigma>"
  shows "0 < w" "w \<le> image_wrt_length \<sigma> - image_wrt_count \<sigma>" "unat (buf_offset \<sigma>1) + unat w \<le> length (s_buffer \<sigma>1)"
    "\<sigma>1 = \<sigma> \<or> \<sigma>1 = \<sigma>\<lparr>buf_offset := 0\<rparr>"
proof -
  have d: "0 < image_wrt_length \<sigma> - image_wrt_count \<sigma>" using assms(2) by (simp add: word_less_nat_alt unat_diff_u32)
  show "\<sigma>1 = \<sigma> \<or> \<sigma>1 = \<sigma>\<lparr>buf_offset := 0\<rparr>" using assms(1) by (auto simp: rcv_len_def Let_def split: if_splits)
  show "w \<le> image_wrt_length \<sigma> - image_wrt_count \<sigma>"
    using assms(1) by (auto simp: rcv_len_def Let_def not_less split: if_splits)
  show "0 < w" "unat (buf_offset \<sigma>1) + unat w \<le> length (s_buffer \<sigma>1)"
  proof -
    have "0 < w \<and> unat (buf_offset \<sigma>1) + unat w \<le> length (s_buffer \<sigma>1)"
    proof (cases "format \<sigma> = 1")
      case True
      with assms(1,3,4) show ?thesis by (auto simp: rcv_len_def Let_def split: if_splits)
    next
      case False
      then have o1: "buf_offset \<sigma> < buf_len \<sigma>" "w = min (buf_len \<sigma> - buf_offset \<sigma>) (image_wrt_length \<sigma> - image_wrt_count \<sigma>)" "\<sigma>1 = \<sigma>"
        using assms(1,5) by (auto simp: rcv_len_def Let_def)
      have u: "unat (buf_len \<sigma> - buf_offset \<sigma>) = unat (buf_len \<sigma>) - unat (buf_offset \<sigma>)" "0 < buf_len \<sigma> - buf_offset \<sigma>"
        using o1(1) by (simp_all add: word_less_nat_alt unat_diff_u32)
      have "w \<le> buf_len \<sigma> - buf_offset \<sigma>" using o1(2) by simp
      then have "unat w \<le> unat (buf_len \<sigma>) - unat (buf_offset \<sigma>)" using u(1) by (simp add: word_le_nat_alt)
      moreover have "0 < w" using o1(2) u(2) d by simp
      ultimately show ?thesis using o1 assms(3) by (auto simp: word_less_nat_alt)
    qed
    then show "0 < w" "unat (buf_offset \<sigma>1) + unat w \<le> length (s_buffer \<sigma>1)" by simp_all
  qed
qed

text \<open>The end of an image that is completely in flash.\<close>

lemma close_partition_mem [simp]: "fmem (s_fu (close_partition \<sigma>)) = fmem (s_fu \<sigma>)"
  by (simp add: close_partition_def release_hdl_def release_def split: option.split)

lemma next_image_mem [simp]: "fmem (s_fu (next_image h \<sigma>)) = fmem (s_fu \<sigma>)"
  by (simp add: next_image_def Let_def)

lemma finish_ok:
  assumes "receiving i hi \<sigma>" and "image_wrt_count \<sigma> = image_wrt_length \<sigma>" and "rcv_finish h \<sigma> = (fl, \<sigma>')"
  shows "image_index \<sigma>' = image_index \<sigma> + 1 \<and> image_wrt_length \<sigma>' = 0 \<and> fmem (s_fu \<sigma>') = fmem (s_fu \<sigma>) \<and>
      h_hash h = sha256 (s_env \<sigma>) (mread (fmem (s_fu \<sigma>)) (img_start (client (s_fu \<sigma>) i)) (unat (image_wrt_length \<sigma>)) @ hash_padding h \<sigma>) \<or>
    fl = Break FW_UPGRADE_ERR_INCORRECT_IMAGE_CHECKSUM_E \<or> fl = Break FW_UPGRADE_ERR_INSUFFICIENT_MEMORY_E"
proof -
  obtain st \<sigma>1 where v: "fw_upgrade_verify_image_hash h \<sigma> = (st, \<sigma>1)" by fastforce
  have d: "digest_ctx \<sigma> = Some (mread (fmem (s_fu \<sigma>)) (img_start (client (s_fu \<sigma>) i)) (unat (image_wrt_length \<sigma>)))"
    using assms(1,2) by (simp add: receiving_def)
  have ix: "image_index \<sigma>1 = image_index \<sigma>" using verify_frame(1) [where \<sigma> = \<sigma> and h = h] v by (simp add: same_control_def)
  show ?thesis
  proof (cases "st = FW_UPGRADE_OK_E")
    case True
    with assms(2,3) v ix verify_ok(1,2) [OF d v] show ?thesis
      by (auto simp: rcv_finish_def Let_def set_state_def split: if_splits)
  next
    case False
    with assms(2,3) v verify_ok(3) [OF d v] show ?thesis by (auto simp: rcv_finish_def Let_def)
  qed
qed

lemma stored_then_more:
  assumes "receiving i (block_ceil (unat (image_wrt_count \<sigma>2))) \<sigma>2" and "image_wrt_count \<sigma>2 < image_wrt_length \<sigma>2" and "same_control \<sigma> \<sigma>2"
  obtains \<sigma>3 where "rcv_finish h \<sigma>2 = (Go, \<sigma>2)" and "rcv_erase_next \<sigma>2 = (Go, \<sigma>3)" and "ready_to_store i \<sigma>3"
    and "image_wrt_count \<sigma>3 = image_wrt_count \<sigma>2" and "image_index \<sigma>3 = image_index \<sigma>"
proof -
  obtain \<sigma>3 where e: "rcv_erase_next \<sigma>2 = (Go, \<sigma>3)" "ready_to_store i \<sigma>3" "image_wrt_count \<sigma>3 = image_wrt_count \<sigma>2"
    using erase_next_ok [OF assms(1,2)] by blast
  moreover have "image_index \<sigma>3 = image_index \<sigma>"
    using rcv_erase_next_frame(1) [of \<sigma>2] e(1) assms(3) by (simp add: same_control_def)
  ultimately show thesis using that assms(2) by (simp add: rcv_finish_def)
qed

text \<open>C19: while an image is received into flash, every pass of the receive loop keeps the flash and the digest
  in step: it stores at least one more byte, or it finishes the image, and then either the hash of the
  configuration file is that of the bytes now in flash (padded with \<open>0xFF\<close> to the disk size in a partial upgrade)
  and the session moves to the next image, or the pass ends with an error. On a working flash the only errors are
  a packet that overshoots a partial image, a checksum that does not match, and lack of memory.\<close>

theorem received_image_is_in_flash:
  assumes r: "ready_to_store i \<sigma>" and l: "image_wrt_count \<sigma> < image_wrt_length \<sigma>"
    and h: "hdr_at (unat (image_index \<sigma>)) \<sigma> = (h, \<sigma>)"
    and b: "unat (buf_len \<sigma>) \<le> length (s_buffer \<sigma>)" "0 < buf_len \<sigma>" "format \<sigma> \<noteq> FW_UPGRADE_FORAMT_PARTIAL_UPGRADE \<longrightarrow> buf_offset \<sigma> < buf_len \<sigma>"
    and pass: "rcv_pass \<sigma> = (fl, \<sigma>')"
  shows "fl = Break FW_UPGRADE_ERR_INCORRECT_IMAGE_LENGTH_E \<or>
    image_index \<sigma>' = image_index \<sigma> \<and> ready_to_store i \<sigma>' \<and> image_wrt_count \<sigma> < image_wrt_count \<sigma>' \<or>
    image_index \<sigma>' = image_index \<sigma> + 1 \<and>
      h_hash h = sha256 (s_env \<sigma>) (mread (fmem (s_fu \<sigma>')) (img_start (client (s_fu \<sigma>) i)) (unat (image_wrt_length \<sigma>)) @ hash_padding h \<sigma>) \<or>
    fl = Break FW_UPGRADE_ERR_INCORRECT_IMAGE_CHECKSUM_E \<or> fl = Break FW_UPGRADE_ERR_INSUFFICIENT_MEMORY_E"
proof -
  have o1: "rcv_open h \<sigma> = (Go, \<sigma>)" using l by (auto simp: rcv_open_def word_less_nat_alt)
  obtain n \<sigma>1 where ln: "rcv_len \<sigma> = (n, \<sigma>1)" by fastforce
  have "\<not> (format \<sigma> \<noteq> 1 \<and> buf_len \<sigma> \<le> buf_offset \<sigma>)" using b(3) by auto
  note p = pass [unfolded rcv_pass_def if_not_P [OF this], unfolded h prod.case, unfolded o1 prod.case flow.case, unfolded ln prod.case]
  show ?thesis
  proof (cases n)
    case None
    with p show ?thesis by simp
  next
    case (Some w)
    have w: "0 < w" "w \<le> image_wrt_length \<sigma> - image_wrt_count \<sigma>" "unat (buf_offset \<sigma>1) + unat w \<le> length (s_buffer \<sigma>1)"
      "\<sigma>1 = \<sigma> \<or> \<sigma>1 = \<sigma>\<lparr>buf_offset := 0\<rparr>"
      using rcv_len_bounds [OF ln [unfolded Some] l b] by auto
    have same: "image_wrt_count \<sigma>1 = image_wrt_count \<sigma>" "image_wrt_length \<sigma>1 = image_wrt_length \<sigma>" "s_fu \<sigma>1 = s_fu \<sigma>"
      "same_control \<sigma> \<sigma>1"
      using w(4) by auto
    have r1: "ready_to_store i \<sigma>1" using w(4) r by (auto simp: receiving_def)
    define \<sigma>2 where "\<sigma>2 = snd (rcv_store w \<sigma>1)"
    note st = rcv_store_ok [OF r1 w(1) w(2) [folded same(1,2)] w(3), folded \<sigma>2_def]
    have s2: "rcv_store w \<sigma>1 = (Go, \<sigma>2)" using st(1) by (simp add: \<sigma>2_def prod_eq_iff)
    have c2: "same_control \<sigma> \<sigma>2" using rcv_store_go(1) [OF s2] same(4) same_control_trans by blast
    note p2 = p [unfolded Some option.case s2 prod.case flow.case]
    show ?thesis
    proof (cases "image_wrt_count \<sigma>2 < image_wrt_length \<sigma>2")
      case True
      obtain \<sigma>3 where e: "rcv_finish h \<sigma>2 = (Go, \<sigma>2)" "rcv_erase_next \<sigma>2 = (Go, \<sigma>3)" "ready_to_store i \<sigma>3"
        "image_wrt_count \<sigma>3 = image_wrt_count \<sigma>2" "image_index \<sigma>3 = image_index \<sigma>"
        using stored_then_more [OF st(2) True c2] by blast
      have "image_wrt_count \<sigma> < image_wrt_count \<sigma>3"
        using e(4) st(3) w(1,2) l unat_u32_bound [of "image_wrt_length \<sigma>"] same(1)
        by (auto simp: word_less_nat_alt word_le_nat_alt unat_diff_u32 unat_word_ariths)
      then show ?thesis using p2 e by auto
    next
      case False
      with st(2) have eq: "image_wrt_count \<sigma>2 = image_wrt_length \<sigma>2" by (simp add: receiving_def)
      obtain f4 \<sigma>4 where f: "rcv_finish h \<sigma>2 = (f4, \<sigma>4)" by fastforce
      have env: "s_env \<sigma>2 = s_env \<sigma>" "format \<sigma>2 = format \<sigma>" "image_index \<sigma>2 = image_index \<sigma>" using c2 by (simp_all add: same_control_def)
      have "rcv_erase_next \<sigma>4 = (Go, \<sigma>4)" if "image_wrt_length \<sigma>4 = 0" using that by (simp add: rcv_erase_next_def)
      moreover have "f4 \<noteq> Continue" using rcv_finish_flow [of h \<sigma>2] f by simp
      ultimately show ?thesis using finish_ok [OF st(2) eq f] p2 f env st(4,5) same
        by (cases f4) (auto simp: hash_padding_def)
    qed
  qed
qed

text \<open>A session in the middle of a packet: an image of 4096 bytes whose first bytes are at the start of the
  packet, received into an erased partition of two blocks.\<close>

definition demo_hdr :: fw_upgrade_image_hdr where
  "demo_hdr = \<lparr>h_magic = 1, h_image_id = 10, h_version = 1, h_image_file = [0], h_disk_size = 0x2000, h_image_length = 4096,
     h_hash_type = 1, h_hash = replicate 32 0\<rparr>"

definition demo_receiving :: "fw_env \<Rightarrow> sess" where
  "demo_receiving e = (demo_packet (set_client 0 (demo_client\<lparr>ref_count := 1, img_id := 10, img_start := 0x10000, img_size := 0x2000\<rparr>)
     (demo_fu 3 (\<lambda>_. 0xFF))) e)\<lparr>partition_hdl := Some 0, image_wrt_length := 4096, img_hdrs := Some [demo_hdr, demo_hdr]\<rparr>"

lemma demo_receiving_fu: "s_fu (demo_receiving e) =
    set_client 0 (demo_client\<lparr>ref_count := 1, img_id := 10, img_start := 0x10000, img_size := 0x2000\<rparr>) (demo_fu 3 (\<lambda>_. 0xFF))"
  by (simp add: demo_receiving_def demo_packet_def new_session_def)

lemma demo_receiving_part: "part_ok 0 (s_fu (demo_receiving e))"
proof -
  have "unat (flash_limit (fu_flash (demo_fu 3 (\<lambda>_. 0xFF)))) = 0x1000000" by (simp only: demo_fu_fields) simp
  then show ?thesis unfolding demo_receiving_fu part_ok_def fields_set_client by simp
qed

theorem received_image_is_in_flash_witness:
  "\<forall>e. image_index (snd (rcv_pass (demo_receiving e))) = 0 \<and> ready_to_store 0 (snd (rcv_pass (demo_receiving e))) \<and>
       0 < image_wrt_count (snd (rcv_pass (demo_receiving e))) \<or>
     fst (rcv_pass (demo_receiving e)) = Break FW_UPGRADE_ERR_INCORRECT_IMAGE_LENGTH_E \<or>
     image_index (snd (rcv_pass (demo_receiving e))) = 1 \<or>
     fst (rcv_pass (demo_receiving e)) = Break FW_UPGRADE_ERR_INCORRECT_IMAGE_CHECKSUM_E \<or>
     fst (rcv_pass (demo_receiving e)) = Break FW_UPGRADE_ERR_INSUFFICIENT_MEMORY_E"
proof
  fix e
  let ?\<sigma> = "demo_receiving e"
  have "ready_to_store 0 ?\<sigma>"
    using demo_receiving_part [of e]
    by (simp add: receiving_def demo_receiving_fu) (simp add: demo_receiving_def demo_packet_def new_session_def mread_def)
  moreover have "hdr_at (unat (image_index ?\<sigma>)) ?\<sigma> = (demo_hdr, ?\<sigma>)" "image_wrt_count ?\<sigma> < image_wrt_length ?\<sigma>"
    "unat (buf_len ?\<sigma>) \<le> length (s_buffer ?\<sigma>)" "0 < buf_len ?\<sigma>" "buf_offset ?\<sigma> < buf_len ?\<sigma>"
    "image_index ?\<sigma> = 0" "image_wrt_count ?\<sigma> = 0"
    by (simp_all add: hdr_at_def demo_receiving_def demo_packet_def new_session_def)
  ultimately show "image_index (snd (rcv_pass ?\<sigma>)) = 0 \<and> ready_to_store 0 (snd (rcv_pass ?\<sigma>)) \<and>
       0 < image_wrt_count (snd (rcv_pass ?\<sigma>)) \<or> fst (rcv_pass ?\<sigma>) = Break FW_UPGRADE_ERR_INCORRECT_IMAGE_LENGTH_E \<or>
     image_index (snd (rcv_pass ?\<sigma>)) = 1 \<or> fst (rcv_pass ?\<sigma>) = Break FW_UPGRADE_ERR_INCORRECT_IMAGE_CHECKSUM_E \<or>
     fst (rcv_pass ?\<sigma>) = Break FW_UPGRADE_ERR_INSUFFICIENT_MEMORY_E"
    using received_image_is_in_flash [of 0 ?\<sigma> demo_hdr "fst (rcv_pass ?\<sigma>)" "snd (rcv_pass ?\<sigma>)"] by auto
qed

end
