(* ===== verification/FwPartition.thy ===== *)
theory FwPartition
  imports FwIntegrity
begin

text \<open>
  A flash partition behind a handle as a byte store of its own (locale \<open>byte_store\<close>), addressed by offset:
  the third provider of that contract, built on the flash driver.
\<close>

unbundle bit_operations_syntax

section \<open>The partition as a store\<close>

definition part_mem :: "nat \<Rightarrow> fu \<Rightarrow> mem" where
  "part_mem i s = (\<lambda>off. fmem s (img_start (client s i) + off))"

definition part_fits :: "nat \<Rightarrow> u32 \<Rightarrow> nat \<Rightarrow> fu \<Rightarrow> bool" where
  "part_fits i off n s \<longleftrightarrow> 0 < n \<and> unat off + n \<le> unat (img_size (client s i))"

definition part_accepts :: "nat \<Rightarrow> fu \<Rightarrow> u32 \<Rightarrow> u8 list \<Rightarrow> bool" where
  "part_accepts i s off bs \<longleftrightarrow> (\<forall>j < length bs. part_mem i s (off + of_nat j) AND bs ! j = bs ! j)"

definition part_rd :: "nat \<Rightarrow> u32 \<Rightarrow> nat \<Rightarrow> fu \<Rightarrow> u8 list option \<times> fu" where
  "part_rd i off n s = (case fw_upgrade_read_partition (Some i) off (of_nat n) s of
     ((st, bs, nbytes), s') \<Rightarrow> (if st = FW_UPGRADE_OK_E then Some bs else None, s'))"

definition part_wr :: "nat \<Rightarrow> u32 \<Rightarrow> u8 list \<Rightarrow> fu \<Rightarrow> bool \<times> fu" where
  "part_wr i off bs s = (case fw_upgrade_write_partition (Some i) off 0 bs (of_nat (length bs)) s of
     (st, s') \<Rightarrow> (st = FW_UPGRADE_OK_E, s'))"

lemma read_partition_ok:
  assumes "part_ok i s" and "part_fits i off n s"
  shows "\<exists>k. fw_upgrade_read_partition (Some i) off (of_nat n) s =
    ((FW_UPGRADE_OK_E, mread (fmem s) (img_start (client s i) + off) n, of_nat n), tick k s)"
proof -
  let ?c = "client s i"
  note b = assms(1) [unfolded part_ok_def]
  have lt: "unat (img_start ?c) + unat (img_size ?c) < 2 ^ 32"
    using b unat_u32_bound [of "flash_limit (fu_flash s)"] le_less_trans by blast
  have f: "0 < n" "unat off + n \<le> unat (img_size ?c)" using assms(2) by (simp_all add: part_fits_def)
  have un: "unat (of_nat n :: u32) = n" "unat (img_start ?c + off) = unat (img_start ?c) + unat off"
    "unat (img_start ?c + off + of_nat n) = unat (img_start ?c) + unat off + n"
    "unat (img_start ?c + img_size ?c) = unat (img_start ?c) + unat (img_size ?c)"
    using f lt by (simp_all add: unat_of_nat_u32 unat_word_ariths)
  have nz: "of_nat n \<noteq> (0 :: u32)" using un(1) f(1) by auto
  obtain k where "fl_read (img_start ?c + off) (of_nat n) s = ((FLASH_DEVICE_DONE, mread (fmem s) (img_start ?c + off) n), tick k s)"
    using fl_read_ok [of s "of_nat n" "img_start ?c + off"] b nz un f by auto
  moreover have "fw_upgrade_mem_parameters_validation (Some i) off (of_nat n) s = FW_UPGRADE_OK_E"
    using b nz un f
    by (simp add: fw_upgrade_mem_parameters_validation_def fw_upgrade_partition_handle_validation_def Let_def fu_ready_def
        word_less_nat_alt)
  ultimately show ?thesis using b by (auto simp: fw_upgrade_read_partition_def Let_def)
qed

text \<open>A write keeps everything but flash cells, whatever the request.\<close>

lemma part_wr_keeps:
  assumes "part_ok i s"
  shows "part_ok i (snd (part_wr i off bs s))" and "client (snd (part_wr i off bs s)) i = client s i"
proof -
  have id: "img_id (client s i) \<noteq> SBL_IMG_ID" using assms by (simp add: part_ok_def)
  let ?f = "snd (drv_flash_write (img_start (client s i) + off) (of_nat (length bs)) bs (fu_flash s))"
  have "snd (part_wr i off bs s) = s \<or> snd (part_wr i off bs s) = s\<lparr>fu_flash := ?f\<rparr>"
    using id by (simp add: part_wr_def fw_upgrade_write_partition_def fl_write_def Let_def case_prod_beta)
  then obtain f where f: "snd (part_wr i off bs s) = s\<lparr>fu_flash := f\<rparr>" "same_driver (fu_flash s) f"
  proof
    assume e: "snd (part_wr i off bs s) = s"
    show thesis by (rule that [of "fu_flash s"]) (simp_all add: e)
  next
    assume e: "snd (part_wr i off bs s) = s\<lparr>fu_flash := ?f\<rparr>"
    show thesis by (rule that [of ?f]) (simp_all add: e drv_flash_write_frame(1))
  qed
  show "client (snd (part_wr i off bs s)) i = client s i" by (simp add: f(1))
  show "part_ok i (snd (part_wr i off bs s))"
    using assms same_driver_fields [OF f(2)] same_driver_ready [OF f(2)] by (simp add: f(1) part_ok_def fu_ready_def)
qed

lemma part_wr_ok:
  assumes "part_ok i s" and "part_fits i off (length bs) s"
  shows "\<exists>k. part_wr i off bs s = (True, put_mem (mcombine (AND) (fmem s) (img_start (client s i) + off) bs) k s)"
  using write_partition_ok [OF assms(1), of "length bs" "unat off" 0 bs] assms(2) by (auto simp: part_fits_def part_wr_def)

interpretation part_store: byte_store "part_mem i" "part_ok i" "part_fits i" "part_accepts i" "part_rd i" "part_wr i" for i
proof unfold_locales
  fix s :: fu and a b :: u32 and bs :: "u8 list" and n :: nat and x :: u32
  show "part_ok i s \<Longrightarrow> part_ok i (snd (part_wr i a bs s))" by (rule part_wr_keeps)
  show "part_ok i s \<Longrightarrow> part_fits i a n (snd (part_wr i b bs s)) = part_fits i a n s"
    using part_wr_keeps(2) [of i s b bs] by (simp add: part_fits_def)
  show "part_mem i (snd (part_rd i a n s)) = part_mem i s"
    by (auto simp: part_mem_def part_rd_def fw_upgrade_read_partition_def Let_def case_prod_beta)
  show "fst (part_rd i a n s) = Some (mread (part_mem i s) a n)" if "part_ok i s" "part_fits i a n s"
  proof -
    have "mread (fmem s) (img_start (client s i) + a) n = mread (part_mem i s) a n"
      by (simp add: mread_def part_mem_def add.assoc)
    with read_partition_ok [OF that] show ?thesis by (auto simp: part_rd_def)
  qed
  show "part_mem i (snd (part_wr i a bs s)) x = part_mem i s x"
    if p: "part_ok i s" and f: "part_fits i a (length bs) s" and x: "\<not> in_range a (length bs) x"
  proof -
    obtain k where "part_wr i a bs s = (True, put_mem (mcombine (AND) (fmem s) (img_start (client s i) + a) bs) k s)"
      using part_wr_ok [OF p f] by blast
    with x show ?thesis by (simp add: part_mem_def mcombine_def in_range_def)
  qed
  show "fst (part_wr i a bs s) \<and> mread (part_mem i (snd (part_wr i a bs s))) a (length bs) = bs"
    if p: "part_ok i s" and f: "part_fits i a (length bs) s" and acc: "part_accepts i s a bs"
  proof -
    obtain k where w: "part_wr i a bs s = (True, put_mem (mcombine (AND) (fmem s) (img_start (client s i) + a) bs) k s)"
      using part_wr_ok [OF p f] by blast
    have l: "length bs \<le> 2 ^ 32" using f unat_u32_bound [of "img_size (client s i)"] by (simp add: part_fits_def)
    have "mread (part_mem i (snd (part_wr i a bs s))) a (length bs) = bs"
      using acc mcombine_at [OF _ l, of _ "(AND)" "fmem s" "img_start (client s i) + a"]
      by (intro nth_equalityI) (simp_all add: w part_mem_def part_accepts_def add.assoc)
    with w show ?thesis by simp
  qed
qed

text \<open>What is written to an erased part of a partition is read back from it, and a write elsewhere in the
  partition does not disturb it.\<close>

theorem partition_write_read:
  assumes "part_ok i s" and "part_fits i a (length bs) s" and "part_accepts i s a bs"
    and "part_fits i b (length cs) s" and "unat a + length bs \<le> unat b"
  shows "fst (part_rd i a (length bs) (snd (part_wr i b cs (snd (part_wr i a bs s))))) = Some bs"
proof (rule part_store.write_write_read [OF assms(1-4)])
  have "\<not> in_range b (length cs) (a + of_nat j)" if "j < length bs" for j
  proof -
    have "unat (a + of_nat j) = unat a + j"
      using that assms(5) unat_u32_bound [of b] by (simp add: unat_word_ariths unat_of_nat_u32)
    then show ?thesis using that assms(4,5) unat_u32_bound [of "img_size (client s i)"]
      by (auto simp: in_range_def unat_diff_u32 part_fits_def)
  qed
  then show "part_store.disjoint b (length cs) a (length bs)" by (simp add: part_store.disjoint_def)
qed

theorem partition_write_read_witness:
  "\<forall>e. fst (part_rd 0 8 3 (snd (part_wr 0 0x1000 [9, 9] (snd (part_wr 0 8 [1, 2, 3] (s_fu (demo_receiving e))))))) = Some [1, 2, 3]"
proof
  fix e
  have s: "part_fits 0 a n (s_fu (demo_receiving e)) \<longleftrightarrow> 0 < n \<and> unat a + n \<le> 0x2000" for a n
    by (simp add: part_fits_def demo_receiving_fu)
  have "part_accepts 0 (s_fu (demo_receiving e)) 8 [1, 2, 3]"
    by (simp add: part_accepts_def part_mem_def demo_receiving_fu)
  then show "fst (part_rd 0 8 3 (snd (part_wr 0 0x1000 [9, 9] (snd (part_wr 0 8 [1, 2, 3] (s_fu (demo_receiving e))))))) = Some [1, 2, 3]"
    using partition_write_read [OF demo_receiving_part [of e], of 8 "[1, 2, 3]" "0x1000" "[9, 9]"] by (simp add: s numeral_3_eq_3)
qed

end
