(* ===== verification/SblRram.thy ===== *)
theory SblRram
  imports RramDriver "HOL-Library.Monad_Syntax"
begin

text \<open>
  The RRAM writer of the secondary boot loader (\<open>src/bootloader/SBL/system/nt_bl_rram_dxe.c\<close>) and the
  error codes of \<open>include/boot_error_if.h\<close> that the modelled boot loader code returns.

  The boot loader sees one address space (RAM, RRAM, OTP), read directly and written in RRAM by transfers
  of the DXE engine on aligned 16-byte units. \<open>dx_poll n k\<close> is the DONE bit of the \<open>k\<close>-th status
  read of transfer \<open>n\<close>, \<open>dx_cell n\<close> what the transfer leaves in a cell. Unlike the driver of the
  application the wait for DONE has no bound: the result is \<open>None\<close> when the engine never finishes.
  A source is a buffer outside the written region or an address, read when the transfer is made.

  Shown: on an engine that finishes its transfers, \<open>rram_write_dxe\<close> and \<open>rram_memset_dxe\<close> return and
  store exactly the requested bytes, for every alignment and length the address check lets through; with
  that the writer provides the \<open>byte_store\<close> contract.
\<close>

unbundle bit_operations_syntax

section \<open>Types\<close>

datatype (plugins only: code) bl_error_type =
    BL_ERR_NONE | BL_ERR_NULL_PTR | BL_ERR_INVALID_PARAM
  | BL_ERR_ELF_MEM_NULL_PTR | BL_ERR_ELF_MEM_INIT | BL_ERR_ELF_MEM_READ | BL_ERR_ELF_MEM_REGION | BL_ERR_ELF_MEM_INVAL_PARAM
  | BL_ERR_ELF_NULL_PTR | BL_ERR_ELF_INVAL_PARAM | BL_ERR_ELF_MEM | BL_ERR_ELF_PARSE | BL_ERR_ELF_FORMAT
  | BL_ERR_ELF_HASH_TABLE_MISSING | BL_ERR_ELF_CLASS_INVALID | BL_ERR_ELF_NO_HASH_SEG_FOUND | BL_ERR_ELF_SEGMENT_COUNT
  | BL_ERR_ELF_HASH_MISMATCH | BL_ERR_ELF_MULTI_HASH_SEG_FOUND | BL_ERR_ELF_WHITELIST_CHECK
  | BL_ERR_RRAM_DXE_INVALID_ADDR | BL_ERR_RRAM_DXE_INVALID_BLOCK_ADDR
  | BL_ERR_FDT_NULL_PTR | BL_ERR_FDT_INVALID_ADDR | BL_ERR_FDT_INVALID_SIGNATURE | BL_ERR_FDT_INVALID_ENTRY_NUM
  | BL_ERR_FDT_INVALID_PARAM | BL_ERR_FDE_INVALID_IMAGE_ID | BL_ERR_FDE_INVALID_IMAGE_ADDR | BL_ERR_FDE_INVALID_IDX
  | BL_ERR_FDE_UPDATE_ERR
  | BL_ERR_IMG_AUTH_NULL_PTR | BL_ERR_IMG_AUTH_INVAL_PARAM | BL_ERR_IMG_SECURITY_FAIL | BL_ERR_IMG_META_DATA_AUTH_FAIL
  | BL_ERR_AUTH_ELF_HDR_FAIL | BL_ERR_ROLLBACK_IMAGE_SET_NOT_FOUND | BL_ERR_ROLLBACK_VERSION_VERIFY_FAIL
  | BL_ERR_ROLLBACK_VERSION_BLOW_FAIL | BL_ERR_ROLLBACK_OPEN_VERSION_FUSE_NOT_FOUND

record dxe =
  dx_mem :: mem
  dx_poll :: "nat \<Rightarrow> nat \<Rightarrow> bool"
  dx_cell :: "nat \<Rightarrow> u8 \<Rightarrow> u8 \<Rightarrow> u8"
  dx_n :: nat

datatype source = Buf "u8 list" | At u32

definition fetch :: "source \<Rightarrow> nat \<Rightarrow> nat \<Rightarrow> dxe \<Rightarrow> u8 list" where
  "fetch src off n d =
     (case src of Buf bs \<Rightarrow> take n (drop off bs) | At a \<Rightarrow> mread (dx_mem d) (a + of_nat off) n)"

text \<open>Result of an operation that may wait for the engine for ever.\<close>

type_synonym 'a waits = "'a option"

abbreviation (input) RRAM_START :: u32 where "RRAM_START \<equiv> 0x200000"
abbreviation (input) RRAM_END :: u32 where "RRAM_END \<equiv> 0x37FFFF"
abbreviation (input) RRAM_SET_BUFFER_SIZE :: u32 where "RRAM_SET_BUFFER_SIZE \<equiv> 4096"

section \<open>Operations\<close>

definition rram_verify_address :: "u32 \<Rightarrow> u32 \<Rightarrow> bl_error_type" where
  "rram_verify_address address len =
     (if RRAM_START \<le> address \<and> address \<le> RRAM_END \<and> address mod 4 = 0 \<and> len \<le> (RRAM_END - address) + 1
      then BL_ERR_NONE else BL_ERR_RRAM_DXE_INVALID_ADDR)"

partial_function (option) dxe_spin :: "(nat \<Rightarrow> bool) \<Rightarrow> nat \<Rightarrow> nat waits" where
  "dxe_spin xfr_done k = (if xfr_done k then Some k else dxe_spin xfr_done (Suc k))"

definition rram_block_write_dxe :: "u32 \<Rightarrow> u8 list \<Rightarrow> u32 \<Rightarrow> dxe \<Rightarrow> (bl_error_type \<times> dxe) waits" where
  "rram_block_write_dxe destination src len d =
     (if destination AND 15 \<noteq> 0 then Some (BL_ERR_RRAM_DXE_INVALID_BLOCK_ADDR, d)
      else if len AND 15 \<noteq> 0 then Some (BL_ERR_RRAM_DXE_INVALID_BLOCK_ADDR, d)
      else do {
        _ \<leftarrow> dxe_spin (dx_poll d (dx_n d)) 0;
        Some (BL_ERR_NONE, d\<lparr>dx_mem := mcombine (dx_cell d (dx_n d)) (dx_mem d) destination (take (unat len) src),
                dx_n := Suc (dx_n d)\<rparr>)
      })"

text \<open>The copy loop of \<open>rram_write_unaligned_dxe\<close>: the buffer and the number of bytes consumed.\<close>

fun fill_block :: "u8 list \<Rightarrow> nat \<Rightarrow> u8 list \<Rightarrow> u8 list \<times> nat" where
  "fill_block buffer offset [] = (buffer, 0)"
| "fill_block buffer offset (b # bs) =
     (if offset < 16 then (case fill_block (buffer[offset := b]) (Suc offset) bs of (buffer', n) \<Rightarrow> (buffer', Suc n))
      else (buffer, 0))"

definition rram_write_unaligned_dxe :: "u32 \<Rightarrow> source \<Rightarrow> u32 \<Rightarrow> dxe \<Rightarrow> (bl_error_type \<times> u32 \<times> dxe) waits" where
  "rram_write_unaligned_dxe destination src len d =
     (let offset = destination AND 15;
          destination = destination - offset;
          buffer = mread (dx_mem d) destination 16;
          (buffer, bytes_written) = fill_block buffer (unat offset) (fetch src 0 (unat len) d) in
      do {
        (status, d) \<leftarrow> rram_block_write_dxe destination buffer 16 d;
        Some (status, of_nat bytes_written, d)
      })"

text \<open>The loop over blocks of \<open>RRAM_WRITE_BLOCK_MAX_SIZE\<close> bytes; \<open>off\<close> is the progress of \<open>p_src\<close>.\<close>

fun dxe_full_blocks :: "nat \<Rightarrow> u32 \<Rightarrow> source \<Rightarrow> nat \<Rightarrow> dxe \<Rightarrow> (bl_error_type \<times> dxe) waits" where
  "dxe_full_blocks 0 dst src off d = Some (BL_ERR_NONE, d)"
| "dxe_full_blocks (Suc n) dst src off d = do {
     (status, d) \<leftarrow> rram_block_write_dxe dst (fetch src off 0x3FF0 d) 0x3FF0 d;
     if status \<noteq> BL_ERR_NONE then Some (status, d) else dxe_full_blocks n (dst + 0x3FF0) src (off + 0x3FF0) d
   }"

text \<open>The rest below one block: whole units, then one unit completed from memory.\<close>

definition dxe_partial :: "u32 \<Rightarrow> source \<Rightarrow> nat \<Rightarrow> u32 \<Rightarrow> dxe \<Rightarrow> (bl_error_type \<times> dxe) waits" where
  "dxe_partial dst src off nbytes d =
     (let unaligned = nbytes AND 15; aligned = nbytes - unaligned in
      do {
        (status, d) \<leftarrow> rram_block_write_dxe dst (fetch src off (unat aligned) d) aligned d;
        if status \<noteq> BL_ERR_NONE then Some (status, d)
        else if unaligned \<noteq> 0
        then rram_block_write_dxe (dst + aligned)
               (fetch src (off + unat aligned) (unat unaligned) d @
                mread (dx_mem d) (dst + aligned + unaligned) (16 - unat unaligned)) 16 d
        else Some (status, d)
      })"

definition dxe_aligned :: "u32 \<Rightarrow> source \<Rightarrow> nat \<Rightarrow> u32 \<Rightarrow> dxe \<Rightarrow> (bl_error_type \<times> dxe) waits" where
  "dxe_aligned dst src off len d =
     (let n_full_blocks = unat (len div 0x3FF0); nbytes_partial_block = len mod 0x3FF0 in
      do {
        (status, d) \<leftarrow> dxe_full_blocks n_full_blocks dst src off d;
        if status \<noteq> BL_ERR_NONE then Some (status, d)
        else if nbytes_partial_block \<noteq> 0
        then dxe_partial (dst + of_nat (n_full_blocks * 0x3FF0)) src (off + n_full_blocks * 0x3FF0) nbytes_partial_block d
        else Some (status, d)
      })"

definition rram_write_dxe :: "u32 \<Rightarrow> source \<Rightarrow> u32 \<Rightarrow> dxe \<Rightarrow> (bl_error_type \<times> dxe) waits" where
  "rram_write_dxe destination src len d =
     (if rram_verify_address destination len \<noteq> BL_ERR_NONE then Some (rram_verify_address destination len, d)
      else if destination AND 15 \<noteq> 0
      then do {
        (status, nbytes_written, d) \<leftarrow> rram_write_unaligned_dxe destination src len d;
        if status \<noteq> BL_ERR_NONE \<or> len \<le> nbytes_written then Some (status, d)
        else dxe_aligned (destination + nbytes_written) src (unat nbytes_written) (len - nbytes_written) d
      }
      else dxe_aligned destination src 0 len d)"

text \<open>\<open>rram_memset_dxe\<close>: the loop runs over pieces of at most \<open>RRAM_SET_BUFFER_SIZE\<close> bytes.\<close>

function memset_loop :: "u32 \<Rightarrow> u8 list \<Rightarrow> nat \<Rightarrow> dxe \<Rightarrow> (bl_error_type \<times> dxe) waits" where
  "memset_loop dst_addr set_buffer len d =
     (if len = 0 then Some (BL_ERR_NONE, d)
      else (let set_length = min 4096 len in
            case rram_write_dxe dst_addr (Buf set_buffer) (of_nat set_length) d of
              None \<Rightarrow> None
            | Some (status, d') \<Rightarrow>
                if status \<noteq> BL_ERR_NONE then Some (status, d')
                else memset_loop (dst_addr + of_nat set_length) set_buffer (len - set_length) d'))"
  by pat_completeness auto
termination
  by (relation "measure (\<lambda>(a, b, n, d). n)") auto

declare memset_loop.simps [simp del]

definition rram_memset_dxe :: "u32 \<Rightarrow> u32 \<Rightarrow> u32 \<Rightarrow> dxe \<Rightarrow> (bl_error_type \<times> dxe) waits" where
  "rram_memset_dxe address val len d =
     (if rram_verify_address address len \<noteq> BL_ERR_NONE then Some (rram_verify_address address len, d)
      else (let set_buffer = replicate 4096 (ucast val) in
        if address AND 15 \<noteq> 0
        then do {
          (status, set_length, d) \<leftarrow> rram_write_unaligned_dxe address (Buf set_buffer) (if 16 \<le> len then 16 else len) d;
          if status \<noteq> BL_ERR_NONE \<or> len \<le> set_length then Some (status, d)
          else memset_loop (address + set_length) set_buffer (unat (len - set_length)) d
        }
        else memset_loop address set_buffer (unat len) d))"

section \<open>A working engine\<close>

text \<open>Every transfer finishes and copies.\<close>

definition dxe_ok :: "dxe \<Rightarrow> bool" where
  "dxe_ok d \<longleftrightarrow> (\<forall>n. (\<exists>k. dx_poll d n k) \<and> dx_cell d n = (\<lambda>_ b. b))"

text \<open>An operation returned without error and left the memory \<open>m\<close>.\<close>

definition dxe_stores :: "dxe \<Rightarrow> mem \<Rightarrow> (bl_error_type \<times> dxe) waits \<Rightarrow> bool" where
  "dxe_stores d m res \<longleftrightarrow> (\<exists>n. res = Some (BL_ERR_NONE, d\<lparr>dx_mem := m, dx_n := n\<rparr>))"

lemma dxe_ok_update [simp]: "dxe_ok (d\<lparr>dx_mem := m, dx_n := n\<rparr>) = dxe_ok d"
  by (simp add: dxe_ok_def)

lemma dxe_storesI: "res = Some (BL_ERR_NONE, d\<lparr>dx_mem := m, dx_n := n\<rparr>) \<Longrightarrow> dxe_stores d m res"
  by (auto simp: dxe_stores_def)

lemma dxe_stores_refl: "dxe_stores d (dx_mem d) (Some (BL_ERR_NONE, d))"
  by (rule dxe_storesI [where n = "dx_n d"]) simp

lemma dxe_stores_bind:
  assumes "dxe_stores d m res" and "\<And>n. dxe_stores (d\<lparr>dx_mem := m, dx_n := n\<rparr>) m' (f BL_ERR_NONE (d\<lparr>dx_mem := m, dx_n := n\<rparr>))"
  shows "dxe_stores d m' (res \<bind> (\<lambda>(st, d'). f st d'))"
proof -
  obtain n where "res = Some (BL_ERR_NONE, d\<lparr>dx_mem := m, dx_n := n\<rparr>)" using assms(1) by (auto simp: dxe_stores_def)
  with assms(2) [of n] show ?thesis by (auto simp: dxe_stores_def)
qed

lemma dxe_spin_done: "xfr_done k' \<Longrightarrow> k \<le> k' \<Longrightarrow> \<exists>i. dxe_spin xfr_done k = Some i"
  by (induction "k' - k" arbitrary: k) (subst dxe_spin.simps; fastforce simp: le_Suc_eq)+

lemma dxe_spin_sound: "dxe_spin xfr_done k = Some i \<Longrightarrow> xfr_done i"
  by (rule dxe_spin.raw_induct [where P = "\<lambda>f k i. f i"]) (auto split: if_splits)

text \<open>The wait ends exactly when the engine reports DONE at some time.\<close>

lemma dxe_spin_returns: "(\<exists>i. dxe_spin xfr_done 0 = Some i) \<longleftrightarrow> (\<exists>k. xfr_done k)"
  using dxe_spin_done dxe_spin_sound by blast

lemma and_15: "(x :: u32) AND 15 = x mod 16"
  using take_bit_eq_mask [of 4 x] by (simp add: take_bit_eq_mod mask_eq_exp_minus_1)

lemma unat_and_15: "unat ((x :: u32) AND 15) = unat x mod 16"
  by (simp add: and_15 unat_mod_distrib)

lemma and_15_zero: "(x :: u32) AND 15 = 0 \<longleftrightarrow> unat x mod 16 = 0"
  by (metis unat_and_15 unat_eq_zero)

lemma round_down_aligned: "(x - (x AND 15)) AND 15 = (0 :: u32)"
proof -
  have "unat (x - (x AND 15)) = unat x - unat x mod 16"
    by (simp add: unat_diff_u32 unat_and_15)
  then show ?thesis by (simp add: and_15_zero minus_mod_eq_mult_div)
qed

lemma block_write_stores:
  assumes "dxe_ok d" and "destination AND 15 = 0" and "len AND 15 = 0"
  shows "dxe_stores d (mwrite (dx_mem d) destination (take (unat len) bs)) (rram_block_write_dxe destination bs len d)"
proof -
  obtain k where "dx_poll d (dx_n d) k" and c: "dx_cell d (dx_n d) = (\<lambda>_ b. b)"
    using assms(1) by (auto simp: dxe_ok_def)
  then obtain i where i: "dxe_spin (dx_poll d (dx_n d)) 0 = Some i" using dxe_spin_returns by blast
  show ?thesis
    using assms(2,3) i c by (intro dxe_storesI [where n = "Suc (dx_n d)"]) (simp add: rram_block_write_dxe_def mwrite_def)
qed

lemma fill_block_patch:
  assumes "length buffer = 16" and "offset \<le> 16"
  shows "fill_block buffer offset bs = (patch buffer offset (take (16 - offset) bs), min (16 - offset) (length bs))"
  using assms
proof (induction bs arbitrary: buffer offset)
  case (Cons b bs)
  show ?case
  proof (cases "offset < 16")
    case True
    then obtain k where k: "16 - offset = Suc k" "16 - Suc offset = k" by (metis Suc_diff_Suc)
    have "patch (buffer[offset := b]) (Suc offset) (take k bs) = patch buffer offset (b # take k bs)"
      using True Cons.prems by (simp add: patch_def take_Suc_conv_app_nth drop_update_cancel take_update_cancel)
    then show ?thesis using Cons.IH [of "buffer[offset := b]" "Suc offset"] True Cons.prems k by simp
  next
    case False
    then show ?thesis using Cons.prems by simp
  qed
qed simp

text \<open>The first bytes, up to the next unit.\<close>

lemma write_unaligned_stores:
  fixes destination :: u32
  assumes "dxe_ok d" and "unat len \<le> length bs"
  defines "k \<equiv> min (16 - unat destination mod 16) (unat len)"
  shows "\<exists>n. rram_write_unaligned_dxe destination (Buf bs) len d =
    Some (BL_ERR_NONE, of_nat k, d\<lparr>dx_mem := mwrite (dx_mem d) destination (take k bs), dx_n := n\<rparr>)"
proof -
  let ?a = "destination - (destination AND 15)" and ?o = "unat destination mod 16"
  let ?buf = "patch (mread (dx_mem d) ?a 16) ?o (take k bs)"
  have f: "fill_block (mread (dx_mem d) ?a 16) (unat (destination AND 15)) (fetch (Buf bs) 0 (unat len) d) = (?buf, k)"
    using assms(2) by (simp add: fill_block_patch unat_and_15 fetch_def k_def less_imp_le min.commute)
  have l: "length (take k bs) = k" using assms(2) by (simp add: k_def)
  have ok: "?o + k \<le> 16" by (simp add: k_def)
  have "dxe_stores d (mwrite (dx_mem d) ?a (take (unat (16 :: u32)) ?buf)) (rram_block_write_dxe ?a ?buf 16 d)"
    using assms(1) by (intro block_write_stores) (simp_all add: round_down_aligned)
  moreover have "mwrite (dx_mem d) ?a (take (unat (16 :: u32)) ?buf) = mwrite (dx_mem d) destination (take k bs)"
    using mwrite_patch [of ?o "take k bs" 16 "dx_mem d" ?a] ok l
    by (simp add: unat_and_15 [symmetric])
  ultimately show ?thesis
    using f by (auto simp: rram_write_unaligned_dxe_def Let_def dxe_stores_def)
qed

lemma unat_add_mod_16: "unat (a + of_nat n :: u32) mod 16 = (unat a + n) mod 16"
proof -
  have "unat (a + of_nat n :: u32) = (unat a + n) mod 2 ^ 32"
    by (simp add: unat_word_ariths unat_of_nat mod_add_right_eq)
  then show ?thesis by (simp add: mod_mod_cancel)
qed

lemma add_aligned: "(a :: u32) AND 15 = 0 \<Longrightarrow> n mod 16 = 0 \<Longrightarrow> (a + of_nat n) AND 15 = 0"
  unfolding and_15_zero unat_add_mod_16 by presburger

text \<open>Writing two consecutive parts of a buffer.\<close>

lemma mwrite_parts:
  assumes "off + k + j \<le> length bs" and "length bs \<le> 2 ^ 32"
  shows "mwrite (mwrite m a (take k (drop off bs))) (a + of_nat k) (take j (drop (off + k) bs)) =
    mwrite m a (take (k + j) (drop off bs))"
  using mwrite_append [of "take k (drop off bs)" "take j (drop (off + k) bs)" m a] assms
  by (simp add: take_add add.commute [of k off])

lemma full_blocks_stores:
  assumes "dxe_ok d" and "dst AND 15 = 0" and "off + n * 0x3FF0 \<le> length bs" and "length bs \<le> 2 ^ 32"
  shows "dxe_stores d (mwrite (dx_mem d) dst (take (n * 0x3FF0) (drop off bs))) (dxe_full_blocks n dst (Buf bs) off d)"
  using assms
proof (induction n arbitrary: dst off d)
  case 0
  then show ?case using dxe_stores_refl by simp
next
  case (Suc n)
  let ?b1 = "take 0x3FF0 (drop off bs)"
  let ?m1 = "mwrite (dx_mem d) dst ?b1"
  have "dxe_stores d ?m1 (rram_block_write_dxe dst (fetch (Buf bs) off 0x3FF0 d) 0x3FF0 d)"
    using block_write_stores [OF Suc.prems(1,2), of "0x3FF0" ?b1] by (simp add: fetch_def)
  moreover have "dxe_stores (d\<lparr>dx_mem := ?m1, dx_n := i\<rparr>)
      (mwrite (dx_mem d) dst (take (Suc n * 0x3FF0) (drop off bs)))
      (dxe_full_blocks n (dst + 0x3FF0) (Buf bs) (off + 0x3FF0) (d\<lparr>dx_mem := ?m1, dx_n := i\<rparr>))" for i
  proof -
    have "mwrite ?m1 (dst + 0x3FF0) (take (n * 0x3FF0) (drop (off + 0x3FF0) bs)) =
        mwrite (dx_mem d) dst (take (Suc n * 0x3FF0) (drop off bs))"
      using mwrite_parts [of off "0x3FF0" "n * 0x3FF0" bs "dx_mem d" dst] Suc.prems(3,4) by simp
    then show ?thesis
      using Suc.IH [of "d\<lparr>dx_mem := ?m1, dx_n := i\<rparr>" "dst + 0x3FF0" "off + 0x3FF0"] Suc.prems
        add_aligned [OF Suc.prems(2), of "0x3FF0"]
      by simp
  qed
  ultimately show ?case by (simp add: dxe_stores_bind)
qed

lemma partial_stores:
  assumes "dxe_ok d" and "dst AND 15 = 0" and "off + unat nbytes \<le> length bs" and "length bs \<le> 2 ^ 32"
  shows "dxe_stores d (mwrite (dx_mem d) dst (take (unat nbytes) (drop off bs))) (dxe_partial dst (Buf bs) off nbytes d)"
proof -
  let ?u = "nbytes AND 15" and ?a = "nbytes - (nbytes AND 15)"
  have u: "unat ?u = unat nbytes mod 16" by (simp add: unat_and_15)
  have a: "unat ?a = unat nbytes - unat nbytes mod 16" by (simp add: unat_diff_u32 unat_and_15)
  have s: "unat ?a + unat ?u = unat nbytes" by (simp add: u a)
  have al: "(dst + ?a) AND 15 = 0"
    using add_aligned [OF assms(2), of "unat ?a"] round_down_aligned [of nbytes] by (simp add: and_15_zero)
  let ?b1 = "take (unat ?a) (drop off bs)" and ?b2 = "take (unat ?u) (drop (off + unat ?a) bs)"
  let ?m1 = "mwrite (dx_mem d) dst ?b1"
  have l: "length ?b1 = unat ?a" "length ?b2 = unat ?u" using assms(3) s by simp_all
  have whole: "mwrite ?m1 (dst + ?a) ?b2 = mwrite (dx_mem d) dst (take (unat nbytes) (drop off bs))"
    using mwrite_parts [of off "unat ?a" "unat ?u" bs "dx_mem d" dst] assms(3,4) by (simp add: s add.assoc)
  have first: "dxe_stores d ?m1 (rram_block_write_dxe dst (fetch (Buf bs) off (unat ?a) d) ?a d)"
    using block_write_stores [OF assms(1,2) round_down_aligned, of nbytes ?b1] by (simp add: fetch_def)
  show ?thesis
  proof (cases "?u = 0")
    case True
    then show ?thesis using first by (auto simp: dxe_partial_def Let_def fetch_def dxe_stores_def)
  next
    case False
    let ?d1 = "\<lambda>i. d\<lparr>dx_mem := ?m1, dx_n := i\<rparr>"
    have "dxe_stores (?d1 i) (mwrite ?m1 (dst + ?a) ?b2)
        (rram_block_write_dxe (dst + ?a) (?b2 @ mread ?m1 (dst + ?a + ?u) (16 - unat ?u)) 16 (?d1 i))" for i
    proof -
      have lt: "unat ?u < 16" by (simp add: u)
      have "?b2 @ mread ?m1 (dst + ?a + ?u) (16 - unat ?u) = patch (mread ?m1 (dst + ?a) 16) 0 ?b2"
        using take_drop_mread [of "unat ?u" "16 - unat ?u" 16 ?m1 "dst + ?a"] lt l by (simp add: patch_def)
      then show ?thesis
        using block_write_stores [of "?d1 i" "dst + ?a" 16 "patch (mread ?m1 (dst + ?a) 16) 0 ?b2"] assms(1) al
          mwrite_patch [of 0 ?b2 16 ?m1 "dst + ?a"] lt l by simp
    qed
    then show ?thesis
      using first False unfolding whole dxe_partial_def Let_def
      by (intro dxe_stores_bind [where m = ?m1]) (simp_all add: fetch_def)
  qed
qed

lemma aligned_stores:
  assumes "dxe_ok d" and "dst AND 15 = 0" and "off + unat len \<le> length bs" and "length bs \<le> 2 ^ 32"
  shows "dxe_stores d (mwrite (dx_mem d) dst (take (unat len) (drop off bs))) (dxe_aligned dst (Buf bs) off len d)"
proof -
  let ?q = "unat len div 0x3FF0" and ?r = "unat len mod 0x3FF0"
  have q: "unat (len div 0x3FF0) = ?q" and r: "unat (len mod 0x3FF0) = ?r"
    by (simp_all add: unat_div_distrib unat_mod_distrib)
  have s: "?q * 0x3FF0 + ?r = unat len" by simp
  let ?m1 = "mwrite (dx_mem d) dst (take (?q * 0x3FF0) (drop off bs))"
  let ?dst = "dst + of_nat (?q * 0x3FF0)"
  have le: "off + ?q * 0x3FF0 \<le> length bs" using assms(3) s by linarith
  have first: "dxe_stores d ?m1 (dxe_full_blocks ?q dst (Buf bs) off d)"
    using full_blocks_stores [OF assms(1,2) le assms(4)] .
  have "dxe_stores (d\<lparr>dx_mem := ?m1, dx_n := i\<rparr>) (mwrite (dx_mem d) dst (take (unat len) (drop off bs)))
      (dxe_partial ?dst (Buf bs) (off + ?q * 0x3FF0) (len mod 0x3FF0) (d\<lparr>dx_mem := ?m1, dx_n := i\<rparr>))" for i
  proof -
    have "mwrite ?m1 ?dst (take ?r (drop (off + ?q * 0x3FF0) bs)) =
        mwrite (dx_mem d) dst (take (?q * 0x3FF0 + ?r) (drop off bs))"
      by (rule mwrite_parts) (use assms(3,4) s in linarith)+
    moreover have "?q * 0x3FF0 mod 16 = 0" unfolding mod_eq_0_iff_dvd by (rule dvd_mult) simp
    then have "?dst AND 15 = 0" by (rule add_aligned [OF assms(2)])
    ultimately show ?thesis
      using partial_stores [of "d\<lparr>dx_mem := ?m1, dx_n := i\<rparr>" ?dst "off + ?q * 0x3FF0" "len mod 0x3FF0" bs] assms s r
      by (simp only: r s dxe_ok_update) simp
  qed
  moreover have "?m1 = mwrite (dx_mem d) dst (take (unat len) (drop off bs))" if "len mod 0x3FF0 = 0"
    using that r s by (metis add.right_neutral unat_0)
  ultimately show ?thesis
    unfolding dxe_aligned_def Let_def q using first by (intro dxe_stores_bind [where m = ?m1]) (auto intro: dxe_storesI)
qed

lemma verify_address_ok:
  "rram_verify_address a len = BL_ERR_NONE \<longleftrightarrow>
     0x200000 \<le> unat a \<and> unat a mod 4 = 0 \<and> unat a + unat len \<le> 0x380000 \<and> unat a \<le> 0x37FFFF"
proof -
  have "unat (RRAM_END - a + 1) = 0x380000 - unat a" if "unat a \<le> 0x37FFFF"
    using that by (simp add: unat_word_ariths unat_diff_u32 unat_sub_if_size word_size)
  moreover have "a mod 4 = 0 \<longleftrightarrow> unat a mod 4 = 0" by (simp add: unat_eq_zero [symmetric] unat_mod_distrib)
  ultimately show ?thesis by (auto simp: rram_verify_address_def word_le_nat_alt)
qed

lemma rram_write_dxe_stores:
  assumes "dxe_ok d" and "rram_verify_address dst len = BL_ERR_NONE" and "unat len \<le> length bs" and "length bs \<le> 2 ^ 32"
  shows "dxe_stores d (mwrite (dx_mem d) dst (take (unat len) bs)) (rram_write_dxe dst (Buf bs) len d)"
proof (cases "dst AND 15 = 0")
  case True
  then show ?thesis using aligned_stores [OF assms(1) True, of 0 len bs] assms by (simp add: rram_write_dxe_def)
next
  case False
  define k where "k = min (16 - unat dst mod 16) (unat len)"
  have uk: "unat (of_nat k :: u32) = k" by (rule unat_of_nat_u32) (simp add: k_def)
  let ?m1 = "mwrite (dx_mem d) dst (take k bs)"
  obtain n where w: "rram_write_unaligned_dxe dst (Buf bs) len d = Some (BL_ERR_NONE, of_nat k, d\<lparr>dx_mem := ?m1, dx_n := n\<rparr>)"
    using write_unaligned_stores [OF assms(1,3), of dst] by (auto simp: k_def)
  show ?thesis
  proof (cases "unat len \<le> k")
    case True
    then have "k = unat len" "len \<le> of_nat k" by (simp_all add: k_def word_le_nat_alt uk)
    then show ?thesis using w False assms(2) by (intro dxe_storesI [where n = n]) (simp add: rram_write_dxe_def)
  next
    case kl: False
    have k16: "k = 16 - unat dst mod 16" using kl by (auto simp: k_def)
    have al: "(dst + of_nat k) AND 15 = 0"
      unfolding and_15_zero unat_add_mod_16 k16 by presburger
    have "unat (len - of_nat k) = unat len - k" using kl by (simp add: unat_diff_u32 uk)
    then have "dxe_stores (d\<lparr>dx_mem := ?m1, dx_n := n\<rparr>) (mwrite ?m1 (dst + of_nat k) (take (unat len - k) (drop k bs)))
        (dxe_aligned (dst + of_nat k) (Buf bs) k (len - of_nat k) (d\<lparr>dx_mem := ?m1, dx_n := n\<rparr>))"
      using aligned_stores [of "d\<lparr>dx_mem := ?m1, dx_n := n\<rparr>", OF _ al, of k "len - of_nat k" bs] assms kl by simp
    moreover have "mwrite ?m1 (dst + of_nat k) (take (unat len - k) (drop k bs)) = mwrite (dx_mem d) dst (take (unat len) bs)"
      using mwrite_parts [of 0 k "unat len - k" bs "dx_mem d" dst] assms(3,4) kl by simp
    ultimately show ?thesis
      using w False assms(2) kl by (auto simp: rram_write_dxe_def dxe_stores_def uk word_le_nat_alt)
  qed
qed

lemma memset_loop_stores:
  assumes "dxe_ok d" and "0x200000 \<le> unat a" and "unat a mod 4 = 0" and "unat a + n \<le> 0x380000"
  shows "dxe_stores d (mwrite (dx_mem d) a (replicate n v)) (memset_loop a (replicate 4096 v) n d)"
  using assms
proof (induction n arbitrary: a d rule: less_induct)
  case (less n)
  show ?case
  proof (cases "n = 0")
    case True
    then show ?thesis using dxe_stores_refl by (simp add: memset_loop.simps)
  next
    case False
    define k where "k = min 4096 n"
    let ?m1 = "mwrite (dx_mem d) a (replicate k v)"
    have uk: "unat (of_nat k :: u32) = k" by (rule unat_of_nat_u32) (simp add: k_def)
    have kn: "k \<le> n" by (simp add: k_def)
    with less.prems(4) have ua: "unat (a + of_nat k) = unat a + k" by (simp add: unat_word_ariths uk)
    have v: "rram_verify_address a (of_nat k) = BL_ERR_NONE"
      using less.prems False kn by (auto simp: verify_address_ok uk)
    obtain i where w: "rram_write_dxe a (Buf (replicate 4096 v)) (of_nat k) d = Some (BL_ERR_NONE, d\<lparr>dx_mem := ?m1, dx_n := i\<rparr>)"
      using rram_write_dxe_stores [OF less.prems(1) v, of "replicate 4096 v"] uk by (auto simp: dxe_stores_def k_def)
    have step: "memset_loop a (replicate 4096 v) n d =
        memset_loop (a + of_nat k) (replicate 4096 v) (n - k) (d\<lparr>dx_mem := ?m1, dx_n := i\<rparr>)"
      using False w by (subst memset_loop.simps) (simp add: Let_def k_def)
    show ?thesis
    proof (cases "n \<le> 4096")
      case True
      then have "k = n" by (simp add: k_def)
      then show ?thesis unfolding step by (intro dxe_storesI [where n = i]) (simp add: memset_loop.simps)
    next
      case big: False
      then have k: "k = 4096" by (simp add: k_def)
      have "dxe_stores (d\<lparr>dx_mem := ?m1, dx_n := i\<rparr>) (mwrite ?m1 (a + of_nat k) (replicate (n - k) v))
          (memset_loop (a + of_nat k) (replicate 4096 v) (n - k) (d\<lparr>dx_mem := ?m1, dx_n := i\<rparr>))"
        using less.IH [of "n - k" "d\<lparr>dx_mem := ?m1, dx_n := i\<rparr>" "a + of_nat k"] less.prems big ua k False by auto
      moreover have "mwrite ?m1 (a + of_nat k) (replicate (n - k) v) = mwrite (dx_mem d) a (replicate n v)"
        using mwrite_append [of "replicate k v" "replicate (n - k) v" "dx_mem d" a] big k less.prems(4)
        by (simp flip: replicate_add)
      ultimately show ?thesis unfolding step by (auto simp: dxe_stores_def)
    qed
  qed
qed

lemma rram_memset_dxe_stores:
  assumes "dxe_ok d" and "rram_verify_address a len = BL_ERR_NONE"
  shows "dxe_stores d (mwrite (dx_mem d) a (replicate (unat len) (ucast val))) (rram_memset_dxe a val len d)"
proof -
  let ?v = "ucast val :: u8"
  have lim: "unat a + unat len \<le> 0x380000" "0x200000 \<le> unat a" "unat a mod 4 = 0"
    using assms(2) by (simp_all add: verify_address_ok)
  show ?thesis
  proof (cases "a AND 15 = 0")
    case True
    then show ?thesis
      using memset_loop_stores [OF assms(1) lim(2,3,1)] assms(2) by (simp add: rram_memset_dxe_def)
  next
    case False
    define k where "k = min (16 - unat a mod 16) (unat len)"
    define l16 where "l16 = (if 16 \<le> len then 16 else len)"
    have ul: "unat l16 = min 16 (unat len)" by (simp add: l16_def word_le_nat_alt)
    have uk: "unat (of_nat k :: u32) = k" by (rule unat_of_nat_u32) (simp add: k_def)
    let ?m1 = "mwrite (dx_mem d) a (replicate k ?v)"
    have "min (16 - unat a mod 16) (unat l16) = k" and k4: "min k 4096 = k" and l4: "unat l16 \<le> 4096"
      by (simp_all add: ul k_def)
    then obtain n where w: "rram_write_unaligned_dxe a (Buf (replicate 4096 ?v)) l16 d =
        Some (BL_ERR_NONE, of_nat k, d\<lparr>dx_mem := ?m1, dx_n := n\<rparr>)"
      using write_unaligned_stores [OF assms(1), of l16 "replicate 4096 ?v" a] k4 by (auto simp: l4)
    let ?d1 = "d\<lparr>dx_mem := ?m1, dx_n := n\<rparr>"
    have run: "rram_memset_dxe a val len d =
        (if unat len \<le> k then Some (BL_ERR_NONE, ?d1)
         else memset_loop (a + of_nat k) (replicate 4096 ?v) (unat (len - of_nat k)) ?d1)"
      unfolding rram_memset_dxe_def Let_def l16_def [symmetric] using False assms(2) w by (simp add: word_le_nat_alt uk)
    show ?thesis
    proof (cases "unat len \<le> k")
      case True
      then have "k = unat len" by (simp add: k_def)
      then show ?thesis unfolding run by (intro dxe_storesI [where n = n]) simp
    next
      case kl: False
      have k16: "k = 16 - unat a mod 16" using kl by (auto simp: k_def)
      have ua: "unat (a + of_nat k) = unat a + k" using lim(1) kl by (simp add: unat_word_ariths uk)
      have "(unat a + k) mod 4 = 0" unfolding k16 using lim(3) by presburger
      then have "dxe_stores ?d1 (mwrite ?m1 (a + of_nat k) (replicate (unat len - k) ?v))
          (memset_loop (a + of_nat k) (replicate 4096 ?v) (unat len - k) ?d1)"
        using memset_loop_stores [of ?d1 "a + of_nat k" "unat len - k" ?v] assms(1) lim kl ua by simp
      moreover have "mwrite ?m1 (a + of_nat k) (replicate (unat len - k) ?v) = mwrite (dx_mem d) a (replicate (unat len) ?v)"
        using mwrite_append [of "replicate k ?v" "replicate (unat len - k) ?v" "dx_mem d" a] kl unat_u32_bound [of len]
        by (simp flip: replicate_add)
      moreover have "unat (len - of_nat k) = unat len - k" using kl by (simp add: unat_diff_u32 uk)
      ultimately show ?thesis using kl by (auto simp: run dxe_stores_def)
    qed
  qed
qed

section \<open>The storage contract\<close>

definition dxe_fits :: "u32 \<Rightarrow> nat \<Rightarrow> dxe \<Rightarrow> bool" where
  "dxe_fits a n d \<longleftrightarrow> n < 2 ^ 32 \<and> rram_verify_address a (of_nat n) = BL_ERR_NONE"

definition dxe_rd :: "u32 \<Rightarrow> nat \<Rightarrow> dxe \<Rightarrow> u8 list option \<times> dxe" where
  "dxe_rd a n d = (Some (mread (dx_mem d) a n), d)"

definition dxe_wr :: "u32 \<Rightarrow> u8 list \<Rightarrow> dxe \<Rightarrow> bool \<times> dxe" where
  "dxe_wr a bs d =
     (if length bs < 2 ^ 32
      then (case rram_write_dxe a (Buf bs) (of_nat (length bs)) d of
              None \<Rightarrow> (False, d) | Some (st, d') \<Rightarrow> (st = BL_ERR_NONE, d'))
      else (False, d))"

lemma dxe_wr_ok:
  assumes "dxe_ok d" and "dxe_fits a (length bs) d"
  shows "\<exists>n. dxe_wr a bs d = (True, d\<lparr>dx_mem := mwrite (dx_mem d) a bs, dx_n := n\<rparr>)"
  using rram_write_dxe_stores [OF assms(1), of a "of_nat (length bs)" bs] assms(2)
  by (auto simp: dxe_wr_def dxe_fits_def dxe_stores_def unat_of_nat_u32)

lemma dxe_wr_refused: "\<not> dxe_fits a (length bs) d \<Longrightarrow> dxe_wr a bs d = (False, d)"
  by (auto simp: dxe_wr_def dxe_fits_def rram_write_dxe_def)

interpretation dxe_store: byte_store dx_mem dxe_ok dxe_fits "\<lambda>_ _ _. True" dxe_rd dxe_wr
proof
  fix s :: dxe and a :: u32 and bs :: "u8 list" and x :: u32
  assume ok: "dxe_ok s"
  show "dxe_ok (snd (dxe_wr a bs s))"
  proof (cases "dxe_fits a (length bs) s")
    case True
    then show ?thesis using dxe_wr_ok [OF ok True] ok by auto
  next
    case False
    then show ?thesis using dxe_wr_refused ok by simp
  qed
  assume fits: "dxe_fits a (length bs) s"
  then have "length bs \<le> 2 ^ 32" by (simp add: dxe_fits_def)
  then show "fst (dxe_wr a bs s) \<and> mread (dx_mem (snd (dxe_wr a bs s))) a (length bs) = bs"
    using dxe_wr_ok [OF ok fits] by (auto simp: mread_mwrite_same)
  show "dx_mem (snd (dxe_wr a bs s)) x = dx_mem s x" if "\<not> in_range a (length bs) x"
    using dxe_wr_ok [OF ok fits] that by (auto simp: mwrite_out)
qed (auto simp: dxe_rd_def dxe_fits_def)

section \<open>Properties\<close>

definition demo_dxe :: "mem \<Rightarrow> dxe" where
  "demo_dxe m = \<lparr>dx_mem = m, dx_poll = (\<lambda>_ k. k = 2), dx_cell = (\<lambda>_ _ b. b), dx_n = 0\<rparr>"

lemma demo_dxe_ok [simp]: "dxe_ok (demo_dxe m)"
  by (simp add: dxe_ok_def demo_dxe_def)

lemma demo_dxe_mem [simp]: "dx_mem (demo_dxe m) = m"
  by (simp add: demo_dxe_def)

text \<open>
  C21: On an engine that finishes its transfers, \<open>rram_write_dxe\<close> returns without error for every request
  that passes the address check, the requested bytes are in memory afterwards and no other byte has
  changed, whatever the alignment of the destination and the length.
\<close>

theorem dxe_write_exact:
  assumes "dxe_ok d" and "rram_verify_address dst len = BL_ERR_NONE" and "length bs = unat len"
  shows "\<exists>d'. rram_write_dxe dst (Buf bs) len d = Some (BL_ERR_NONE, d') \<and>
    mread (dx_mem d') dst (unat len) = bs \<and> (\<forall>x. \<not> in_range dst (unat len) x \<longrightarrow> dx_mem d' x = dx_mem d x)"
proof -
  have l: "length bs \<le> 2 ^ 32" using assms(3) unat_u32_bound [of len] by simp
  from rram_write_dxe_stores [OF assms(1,2) _ this] assms(3)
  obtain n where "rram_write_dxe dst (Buf bs) len d =
      Some (BL_ERR_NONE, d\<lparr>dx_mem := mwrite (dx_mem d) dst bs, dx_n := n\<rparr>)"
    by (auto simp: dxe_stores_def)
  then show ?thesis using l by (auto simp: assms(3) [symmetric] mread_mwrite_same mwrite_out)
qed

theorem dxe_write_exact_witness:
  "\<exists>d'. rram_write_dxe 0x200004 (Buf [1, 2, 3]) 3 (demo_dxe (\<lambda>_. 0)) = Some (BL_ERR_NONE, d') \<and>
     mread (dx_mem d') 0x200004 3 = [1, 2, 3]"
  using dxe_write_exact [of "demo_dxe (\<lambda>_. 0)" "0x200004" 3 "[1, 2, 3]"] by (auto simp: rram_verify_address_def)

text \<open>
  On an engine that finishes its transfers, \<open>rram_memset_dxe\<close> returns without error for every range
  that passes the address check and sets exactly that range to the low byte of the value, across the
  pieces of its buffer.
\<close>

theorem dxe_memset_exact:
  assumes "dxe_ok d" and "rram_verify_address address len = BL_ERR_NONE"
  shows "\<exists>d'. rram_memset_dxe address val len d = Some (BL_ERR_NONE, d') \<and>
    (\<forall>x. dx_mem d' x = (if in_range address (unat len) x then ucast val else dx_mem d x))"
proof -
  have "dxe_stores d (mwrite (dx_mem d) address (replicate (unat len) (ucast val))) (rram_memset_dxe address val len d)"
    by (rule rram_memset_dxe_stores [OF assms])
  then show ?thesis by (auto simp: dxe_stores_def mwrite_def mcombine_def in_range_def)
qed

theorem dxe_memset_exact_witness:
  "\<exists>d'. rram_memset_dxe 0x200004 0 20 (demo_dxe (\<lambda>_. 7)) = Some (BL_ERR_NONE, d') \<and>
     (\<forall>x. dx_mem d' x = (if in_range 0x200004 20 x then 0 else 7))"
  using dxe_memset_exact [of "demo_dxe (\<lambda>_. 7)" "0x200004" 20 0]
  by (simp add: rram_verify_address_def cong: if_cong)

text \<open>
  A transfer of the boot loader waits for the engine without bound: a block write does not return
  exactly when it is aligned and the engine never reports DONE; a misaligned one always returns.
\<close>

theorem dxe_block_write_returns_iff_done:
  "rram_block_write_dxe destination src len d = None \<longleftrightarrow>
     destination AND 15 = 0 \<and> len AND 15 = 0 \<and> (\<forall>k. \<not> dx_poll d (dx_n d) k)"
proof -
  have "dxe_spin (dx_poll d (dx_n d)) 0 \<noteq> None \<longleftrightarrow> (\<exists>k. dx_poll d (dx_n d) k)"
    using dxe_spin_returns [of "dx_poll d (dx_n d)"] by auto
  then show ?thesis by (auto simp: rram_block_write_dxe_def bind_eq_None_conv)
qed

end
