(* ===== verification/SblFdt.thy ===== *)
theory SblFdt
  imports FwTypes SblRram
begin

text \<open>
  The firmware descriptor table in RRAM as the secondary boot loader uses it
  (\<open>src/bootloader/SBL/system/rram_fdt.c\<close>, and the searches of \<open>src/bootloader/SBL/src/sbl_main.c\<close>).
  A table pointer is an optional address (\<open>None\<close> for NULL), the table is read in place in the memory of
  \<open>SblRram\<close> with the entry layout of \<open>FwTypes\<close>, and an entry is written back through
  \<open>rram_write_dxe\<close>. An output parameter is passed in and returned: \<open>None\<close> stands for a NULL pointer,
  and a call that leaves the object alone returns the value it was given.

  Shown: an updated entry is read back and no other entry changes; every refused index, table or entry has
  its error code and leaves memory alone; the application entry the boot loader picks is the first one of
  the highest rank; what the boot loader does with an entry that does not pass verification and with a
  table that has more entries than the array it is copied to.
\<close>

unbundle bit_operations_syntax

section \<open>Operations on the table\<close>

abbreviation (input) FDE_INVAL_IDX :: u32 where "FDE_INVAL_IDX \<equiv> 32"
abbreviation (input) SBL_IMAGE_REGION_SIZE :: u32 where "SBL_IMAGE_REGION_SIZE \<equiv> 0x10000"
abbreviation (input) OTA_IMG_STATE_VALID :: u32 where "OTA_IMG_STATE_VALID \<equiv> 1"
abbreviation (input) OTA_IMG_STATE_VERIFY_PENDING :: u32 where "OTA_IMG_STATE_VERIFY_PENDING \<equiv> 4"
abbreviation (input) OTA_IMG_RANK_AGED :: u32 where "OTA_IMG_RANK_AGED \<equiv> 0"
abbreviation (input) OTA_IMG_RANK_GOLDEN :: u32 where "OTA_IMG_RANK_GOLDEN \<equiv> 1"
abbreviation (input) OTA_IMG_RANK_CURRENT :: u32 where "OTA_IMG_RANK_CURRENT \<equiv> 2"
abbreviation (input) OTA_IMG_RANK_TRIAL :: u32 where "OTA_IMG_RANK_TRIAL \<equiv> 3"
abbreviation (input) OTA_IMG_FORMAT_ELF :: u32 where "OTA_IMG_FORMAT_ELF \<equiv> 0"
abbreviation (input) OTA_IMG_FORMAT_BIN :: u32 where "OTA_IMG_FORMAT_BIN \<equiv> 1"
abbreviation (input) OTA_IMG_ID_SBL :: u32 where "OTA_IMG_ID_SBL \<equiv> 0"
abbreviation (input) OTA_IMG_ID_APP :: u32 where "OTA_IMG_ID_APP \<equiv> 2"
abbreviation (input) OTA_IMG_ID_BDF :: u32 where "OTA_IMG_ID_BDF \<equiv> 3"

text \<open>Fields of the table at address \<open>t\<close>: \<open>header.num_fde\<close> and \<open>fde[i]\<close>.\<close>

definition num_fde :: "mem \<Rightarrow> u32 \<Rightarrow> u32" where
  "num_fde m t = rd32 m (t + 4)"

definition fde_place :: "u32 \<Rightarrow> u32 \<Rightarrow> u32" where
  "fde_place t i = t + 32 + 32 * i"

definition fde_nth :: "mem \<Rightarrow> u32 \<Rightarrow> u32 \<Rightarrow> fdt_entry" where
  "fde_nth m t i = fde_at m (fde_place t i)"

definition fdt_entries :: "mem \<Rightarrow> u32 \<Rightarrow> fdt_entry list" where
  "fdt_entries m t = map (\<lambda>i. fde_nth m t (of_nat i)) [0 ..< unat (num_fde m t)]"

definition fdt_verify :: "u32 option \<Rightarrow> mem \<Rightarrow> bl_error_type" where
  "fdt_verify fdt m =
     (case fdt of None \<Rightarrow> BL_ERR_FDT_NULL_PTR
      | Some t \<Rightarrow>
          if rd32 m t \<noteq> FDT_SIGNATURE then BL_ERR_FDT_INVALID_SIGNATURE
          else if num_fde m t = 0 \<or> FDT_MAX_ENTRY < num_fde m t then BL_ERR_FDT_INVALID_ENTRY_NUM
          else BL_ERR_NONE)"

text \<open>\<open>sbla\<close> is the linker symbol \<open>_SBLA_IMAGE_Start_Addr\<close>.\<close>

definition fde_verify :: "u32 \<Rightarrow> fdt_entry option \<Rightarrow> bl_error_type" where
  "fde_verify sbla fde =
     (case fde of None \<Rightarrow> BL_ERR_FDT_NULL_PTR
      | Some e \<Rightarrow>
          if OTA_IMG_ID_APP < fde_id e then BL_ERR_FDE_INVALID_IMAGE_ID
          else if fde_id e = OTA_IMG_ID_SBL \<and> (fde_addr e < sbla \<or> sbla + SBL_IMAGE_REGION_SIZE < fde_addr e)
          then BL_ERR_FDE_INVALID_IMAGE_ADDR
          else BL_ERR_NONE)"

definition fdt_get :: "u32 \<Rightarrow> mem \<Rightarrow> bl_error_type \<times> u32 option" where
  "fdt_get FDT_Start_Addr m = (fdt_verify (Some FDT_Start_Addr) m, Some FDT_Start_Addr)"

text \<open>The search loop over \<open>fde[FDE_START_IDX .. num_fde)\<close>.\<close>

definition fde_search :: "(fdt_entry \<Rightarrow> bool) \<Rightarrow> u32 option \<Rightarrow> u32 \<Rightarrow> mem \<Rightarrow> bl_error_type \<times> u32" where
  "fde_search P fdt idx m =
     (case fdt of None \<Rightarrow> (BL_ERR_FDT_INVALID_PARAM, idx)
      | Some t \<Rightarrow> (BL_ERR_NONE, case find_idx P (fdt_entries m t) of None \<Rightarrow> FDE_INVAL_IDX | Some i \<Rightarrow> of_nat i))"

definition fde_get_idx_by_id :: "u32 option \<Rightarrow> u32 \<Rightarrow> u32 \<Rightarrow> mem \<Rightarrow> bl_error_type \<times> u32" where
  "fde_get_idx_by_id fdt i idx m = fde_search (\<lambda>e. fde_id e = i) fdt idx m"

definition fde_get_idx_by_id_rank :: "u32 option \<Rightarrow> u32 \<Rightarrow> u32 \<Rightarrow> u32 \<Rightarrow> mem \<Rightarrow> bl_error_type \<times> u32" where
  "fde_get_idx_by_id_rank fdt i rank idx m = fde_search (\<lambda>e. fde_id e = i \<and> fde_rank e = rank) fdt idx m"

definition fde_get_by_idx :: "u32 \<Rightarrow> u32 option \<Rightarrow> fdt_entry option \<Rightarrow> u32 \<Rightarrow> mem \<Rightarrow> bl_error_type \<times> fdt_entry option" where
  "fde_get_by_idx sbla fdt fde idx m =
     (case (fde, fdt) of
        (Some _, Some t) \<Rightarrow>
          if FDT_MAX_ENTRY < idx then (BL_ERR_FDT_INVALID_PARAM, fde)
          else if num_fde m t \<le> idx then (BL_ERR_FDE_INVALID_IDX, fde)
          else (let fde = Some (fde_nth m t idx) in (fde_verify sbla fde, fde))
      | _ \<Rightarrow> (BL_ERR_FDT_INVALID_PARAM, fde))"

definition fde_update :: "u32 option \<Rightarrow> fdt_entry option \<Rightarrow> u32 \<Rightarrow> dxe \<Rightarrow> (bl_error_type \<times> dxe) waits" where
  "fde_update fdt fde idx d =
     (case (fde, fdt) of
        (Some e, Some t) \<Rightarrow>
          if FDT_MAX_ENTRY < idx then Some (BL_ERR_FDT_INVALID_PARAM, d)
          else if num_fde (dx_mem d) t \<le> idx then Some (BL_ERR_FDE_INVALID_IDX, d)
          else do {
            (status, d) \<leftarrow> rram_write_dxe (fde_place t idx) (Buf (enc_fde e)) 32 d;
            Some (if status \<noteq> BL_ERR_NONE then BL_ERR_FDE_UPDATE_ERR else status, d)
          }
      | _ \<Rightarrow> Some (BL_ERR_FDT_INVALID_PARAM, d))"

section \<open>Searches of the boot loader\<close>

text \<open>The nested searches: a failed search leaves \<open>FDE_INVAL_IDX\<close> and the next rank is tried.\<close>

definition boot_sbl_find_appimg :: "u32 option \<Rightarrow> u32 option \<Rightarrow> mem \<Rightarrow> bl_error_type \<times> u32 option" where
  "boot_sbl_find_appimg fdt idx m =
     (if idx = None \<or> fdt = None then (BL_ERR_NULL_PTR, idx)
      else
       (let by_rank = (\<lambda>rank app_idx. snd (fde_get_idx_by_id_rank fdt OTA_IMG_ID_APP rank app_idx m));
            app_idx = by_rank OTA_IMG_RANK_TRIAL FDE_INVAL_IDX;
            app_idx = (if app_idx = FDE_INVAL_IDX
              then (let app_idx = by_rank OTA_IMG_RANK_CURRENT app_idx in
                    if app_idx = FDE_INVAL_IDX
                    then (let app_idx = by_rank OTA_IMG_RANK_GOLDEN app_idx in
                          if app_idx = FDE_INVAL_IDX then by_rank OTA_IMG_RANK_AGED app_idx else app_idx)
                    else app_idx)
              else app_idx) in
        if app_idx \<noteq> FDE_INVAL_IDX then (BL_ERR_NONE, Some app_idx) else (BL_ERR_INVALID_PARAM, idx)))"

definition boot_sbl_find_bdf :: "u32 option \<Rightarrow> u32 option \<Rightarrow> mem \<Rightarrow> bl_error_type \<times> u32 option" where
  "boot_sbl_find_bdf fdt idx m =
     (if idx = None \<or> fdt = None then (BL_ERR_NULL_PTR, idx)
      else
       (let app_idx = snd (fde_get_idx_by_id_rank fdt OTA_IMG_ID_BDF OTA_IMG_RANK_CURRENT FDE_INVAL_IDX m) in
        if app_idx \<noteq> FDE_INVAL_IDX then (BL_ERR_NONE, Some app_idx) else (BL_ERR_INVALID_PARAM, idx)))"

definition zero_fde :: fdt_entry where
  "zero_fde = \<lparr>fde_id = 0, fde_rank = 0, fde_format = 0, fde_addr = 0, fde_state = 0, fde_version = 0,
     fde_reserve = replicate 8 0\<rparr>"

text \<open>The local \<open>idx\<close> starts undefined; it is assigned on every path before it is read.\<close>

definition get_bdf_addr :: "u32 \<Rightarrow> u32 option \<Rightarrow> mem \<Rightarrow> u32" where
  "get_bdf_addr sbla fdt m =
     (let (status, found) = boot_sbl_find_bdf fdt (Some 0) m;
          idx = (if status \<noteq> BL_ERR_NONE then FDE_INVAL_IDX else the found) in
      if idx \<noteq> FDE_INVAL_IDX
      then fde_addr (the (snd (fde_get_by_idx sbla fdt (Some zero_fde) idx m)))
      else 0x37A000)"

record boot_sbl_share =
  magic_num :: u32
  share_ver :: u8
  share_img_type :: u8
  share_bdf_addr :: u32
  fdt_part :: "(u32 \<times> u32) list"

abbreviation (input) PART_SIZE :: nat where "PART_SIZE \<equiv> 10"

text \<open>\<open>None\<close>: the loop dereferences a NULL table or stores past \<open>fdt_part[PART_SIZE]\<close>.\<close>

definition set_sbl_share :: "u8 \<Rightarrow> u32 \<Rightarrow> u32 option \<Rightarrow> mem \<Rightarrow> boot_sbl_share \<Rightarrow> boot_sbl_share option" where
  "set_sbl_share img_type bdf_addr fdt m share =
     (case fdt of None \<Rightarrow> None
      | Some t \<Rightarrow>
          let n = unat (num_fde m t) in
          if PART_SIZE < n then None
          else Some (share\<lparr>
            fdt_part := map (\<lambda>e. (fde_id e, fde_addr e)) (fdt_entries m t) @ drop n (fdt_part share),
            magic_num := 0x55aa55aa, share_ver := 1, share_img_type := img_type, share_bdf_addr := bdf_addr\<rparr>))"

section \<open>The table as a list of entries\<close>

lemma length_fdt_entries [simp]: "length (fdt_entries m t) = unat (num_fde m t)"
  by (simp add: fdt_entries_def)

lemma nth_fdt_entries [simp]: "i < unat (num_fde m t) \<Longrightarrow> fdt_entries m t ! i = fde_nth m t (of_nat i)"
  by (simp add: fdt_entries_def)

text \<open>An entry is determined by its 32 bytes, and its encoding is read back.\<close>

lemma fde_at_bytes:
  "fde_at m a = (let bs = mread m a 32 in
     \<lparr>fde_id = get32 bs 0, fde_rank = get32 bs 4, fde_format = get32 bs 8, fde_addr = get32 bs 12,
      fde_state = get32 bs 16, fde_version = get32 bs 20, fde_reserve = take 8 (drop 24 bs)\<rparr>)"
  using take_drop_mread [of 24 8 32 m a] by (simp add: fde_at_def Let_def get32_mread)

lemma fde_at_cong: "mread m a 32 = mread m' a 32 \<Longrightarrow> fde_at m a = fde_at m' a"
  by (simp add: fde_at_bytes)

lemma length_enc_fde [simp]: "length (enc_fde e) = 24 + length (fde_reserve e)"
  by (simp add: enc_fde_def)

lemma fde_at_written:
  assumes "length (fde_reserve e) = 8"
  shows "fde_at (mwrite m a (enc_fde e)) a = e"
proof -
  have "mread (mwrite m a (enc_fde e)) a 32 = enc_fde e"
    using mread_mwrite_same [of "enc_fde e" m a] assms by simp
  then show ?thesis using assms by (simp add: fde_at_bytes enc_fde_def get32_def)
qed

lemma mread_written_elsewhere:
  assumes "i + length bs \<le> j \<or> j + n \<le> i" and "i + length bs < 2 ^ 31" and "j + n < 2 ^ 31"
  shows "mread (mwrite m (a + of_nat i) bs) (a + of_nat j) n = mread m (a + of_nat j) n"
proof (rule mread_cong)
  fix k assume k: "k < n"
  have "\<not> in_range (a + of_nat i) (length bs) (a + of_nat (j + k))"
    by (rule not_in_range_offset) (use assms k in auto)
  then show "mwrite m (a + of_nat i) bs (a + of_nat j + of_nat k) = m (a + of_nat j + of_nat k)"
    by (simp add: mwrite_out add.assoc)
qed

lemma fde_place_offset: "fde_place t (of_nat i) = t + of_nat (32 + 32 * i)"
  by (simp add: fde_place_def)

lemma num_fde_written:
  assumes "i < 2 ^ 20" and "length bs = 32"
  shows "num_fde (mwrite m (fde_place t (of_nat i)) bs) t = num_fde m t"
    and "rd32 (mwrite m (fde_place t (of_nat i)) bs) t = rd32 m t"
  using mread_written_elsewhere [of "32 + 32 * i" bs 4 4 m t] mread_written_elsewhere [of "32 + 32 * i" bs 0 4 m t] assms
  unfolding num_fde_def rd32_def fde_place_offset by simp_all

text \<open>Writing entry \<open>i\<close> is updating the list at \<open>i\<close>.\<close>

lemma fdt_entries_written:
  assumes "i < unat (num_fde m t)" and "unat (num_fde m t) < 2 ^ 20" and "length (fde_reserve e) = 8"
  shows "fdt_entries (mwrite m (fde_place t (of_nat i)) (enc_fde e)) t = (fdt_entries m t)[i := e]" (is "fdt_entries ?m t = _")
proof (rule nth_equalityI)
  have n: "num_fde ?m t = num_fde m t" using num_fde_written(1) [of i "enc_fde e" m t] assms by simp
  then show "length (fdt_entries ?m t) = length ((fdt_entries m t)[i := e])" by simp
  fix j assume "j < length (fdt_entries ?m t)"
  then have j: "j < unat (num_fde m t)" by (simp add: n)
  show "fdt_entries ?m t ! j = (fdt_entries m t)[i := e] ! j"
  proof (cases "j = i")
    case True
    then show ?thesis using assms j n fde_at_written by (simp add: fde_nth_def)
  next
    case False
    have l: "length (enc_fde e) = 32" using assms(3) by simp
    have b: "i < 1048576" "j < 1048576" using assms(1,2) j by simp_all
    have "32 + 32 * i + length (enc_fde e) \<le> 32 + 32 * j \<or> 32 + 32 * j + 32 \<le> 32 + 32 * i"
      unfolding l using False by linarith
    moreover have "32 + 32 * i + length (enc_fde e) < 2 ^ 31" "32 + 32 * j + 32 < (2 :: nat) ^ 31"
      unfolding l using b by simp_all
    ultimately have "mread ?m (fde_place t (of_nat j)) 32 = mread m (fde_place t (of_nat j)) 32"
      unfolding fde_place_offset by (rule mread_written_elsewhere)
    from fde_at_cong [OF this] show ?thesis using False j n by (simp add: fde_nth_def)
  qed
qed

section \<open>Searches\<close>

lemma find_idx_less: "find_idx P xs = Some i \<Longrightarrow> i < length xs"
  by (simp add: find_idx_Some)

lemma fdt_verify_ok:
  "fdt_verify (Some t) m = BL_ERR_NONE \<longleftrightarrow> rd32 m t = FDT_SIGNATURE \<and> 0 < unat (num_fde m t) \<and> unat (num_fde m t) \<le> 31"
  by (auto simp: fdt_verify_def word_less_nat_alt unat_gt_0)

text \<open>In a table that passes verification a search distinguishes an index from \<open>FDE_INVAL_IDX\<close>.\<close>

lemma of_nat_inval: "i < 32 \<Longrightarrow> (of_nat i :: u32) \<noteq> FDE_INVAL_IDX"
proof
  assume i: "i < 32" and e: "(of_nat i :: u32) = FDE_INVAL_IDX"
  from i have "unat (of_nat i :: u32) = i" by (simp add: unat_of_nat_u32)
  with i show False unfolding e by simp
qed

lemma search_inval:
  assumes "unat (num_fde m t) \<le> 31"
  shows "snd (fde_search P (Some t) idx m) = FDE_INVAL_IDX \<longleftrightarrow> find_idx P (fdt_entries m t) = None"
proof (cases "find_idx P (fdt_entries m t)")
  case (Some i)
  then have "i < 32" using find_idx_less [OF Some] assms by simp
  then show ?thesis using Some of_nat_inval by (simp add: fde_search_def)
qed (simp add: fde_search_def)

text \<open>The reference for the choice of the application entry: the first one of the highest rank.\<close>

definition app_entry :: "fdt_entry \<Rightarrow> bool" where
  "app_entry e \<longleftrightarrow> fde_id e = OTA_IMG_ID_APP \<and> fde_rank e \<le> OTA_IMG_RANK_TRIAL"

definition best_app :: "fdt_entry list \<Rightarrow> nat option" where
  "best_app es = find_idx (\<lambda>e. app_entry e \<and> (\<forall>e' \<in> set es. app_entry e' \<longrightarrow> fde_rank e' \<le> fde_rank e)) es"

lemma rank_cases: "(r :: u32) \<le> 3 \<longleftrightarrow> r = 0 \<or> r = 1 \<or> r = 2 \<or> r = 3"
proof -
  have "unat r \<le> 3 \<longleftrightarrow> unat r = 0 \<or> unat r = 1 \<or> unat r = 2 \<or> unat r = 3" by linarith
  then show ?thesis by (simp add: word_le_nat_alt word_unat_eq_iff)
qed

text \<open>Searching one rank finds the reference's entry when no higher rank is present.\<close>

lemma best_app_rank:
  assumes some: "find_idx (\<lambda>e. fde_id e = OTA_IMG_ID_APP \<and> fde_rank e = r) es = Some i" and r: "r \<le> OTA_IMG_RANK_TRIAL"
    and high: "\<And>r'. r < r' \<Longrightarrow> r' \<le> OTA_IMG_RANK_TRIAL \<Longrightarrow> find_idx (\<lambda>e. fde_id e = OTA_IMG_ID_APP \<and> fde_rank e = r') es = None"
  shows "best_app es = Some i"
proof -
  have le: "fde_rank e \<le> r" if "e \<in> set es" "app_entry e" for e
  proof (rule ccontr)
    assume "\<not> fde_rank e \<le> r"
    then have "find_idx (\<lambda>x. fde_id x = OTA_IMG_ID_APP \<and> fde_rank x = fde_rank e) es = None"
      using that(2) by (intro high) (simp_all add: app_entry_def not_le)
    with that show False by (auto simp: find_idx_None app_entry_def)
  qed
  obtain e0 where e0: "e0 \<in> set es" "app_entry e0" "fde_rank e0 = r"
    using some r nth_mem [of i es] by (fastforce simp: find_idx_Some app_entry_def)
  have "best_app es = find_idx (\<lambda>e. fde_id e = OTA_IMG_ID_APP \<and> fde_rank e = r) es"
    unfolding best_app_def
  proof (rule find_idx_cong)
    fix e assume "e \<in> set es"
    then show "(app_entry e \<and> (\<forall>e' \<in> set es. app_entry e' \<longrightarrow> fde_rank e' \<le> fde_rank e)) =
        (fde_id e = OTA_IMG_ID_APP \<and> fde_rank e = r)"
      using le e0 r by (auto simp: app_entry_def intro: order.antisym)
  qed
  with some show ?thesis by simp
qed

lemma best_app_None:
  assumes "\<And>r. r \<le> OTA_IMG_RANK_TRIAL \<Longrightarrow> find_idx (\<lambda>e. fde_id e = OTA_IMG_ID_APP \<and> fde_rank e = r) es = None"
  shows "best_app es = None"
  using assms by (auto simp: best_app_def find_idx_None app_entry_def)

lemma find_appimg_best:
  assumes "unat (num_fde m t) \<le> 31"
  shows "boot_sbl_find_appimg (Some t) (Some i) m =
    (case best_app (fdt_entries m t) of None \<Rightarrow> (BL_ERR_INVALID_PARAM, Some i) | Some j \<Rightarrow> (BL_ERR_NONE, Some (of_nat j)))"
proof -
  define F where "F = (\<lambda>r :: u32. find_idx (\<lambda>e. fde_id e = OTA_IMG_ID_APP \<and> fde_rank e = r) (fdt_entries m t))"
  have look: "snd (fde_get_idx_by_id_rank (Some t) OTA_IMG_ID_APP r idx m) =
      (case F r of None \<Rightarrow> FDE_INVAL_IDX | Some j \<Rightarrow> of_nat j)" for r idx
    by (simp add: fde_get_idx_by_id_rank_def fde_search_def F_def)
  have inval: "(of_nat j :: u32) \<noteq> FDE_INVAL_IDX" if "F r = Some j" for r j
    using find_idx_less [OF that [unfolded F_def]] assms by (intro of_nat_inval) simp
  have best: "best_app (fdt_entries m t) = Some j" if "F r = Some j" "r \<le> 3" "\<And>r'. r < r' \<Longrightarrow> r' \<le> 3 \<Longrightarrow> F r' = None" for r j
    using best_app_rank [of r "fdt_entries m t" j] that by (simp add: F_def)
  have none: "best_app (fdt_entries m t) = None" if "\<And>r. r \<le> 3 \<Longrightarrow> F r = None"
    using best_app_None that by (simp add: F_def)
  consider j where "F 3 = Some j" | j where "F 3 = None" "F 2 = Some j" | j where "F 3 = None" "F 2 = None" "F 1 = Some j"
    | j where "F 3 = None" "F 2 = None" "F 1 = None" "F 0 = Some j" | "F 3 = None" "F 2 = None" "F 1 = None" "F 0 = None"
    by fastforce
  then show ?thesis
  proof cases
    case 1
    then show ?thesis using best [of 3] inval by (auto simp: boot_sbl_find_appimg_def look)
  next
    case 2
    then have "F r' = None" if "2 < r'" "r' \<le> 3" for r' using that by (auto simp: rank_cases)
    then have "best_app (fdt_entries m t) = Some j" using best [of 2 j] 2 by simp
    then show ?thesis using 2 inval by (auto simp: boot_sbl_find_appimg_def look)
  next
    case 3
    then have "F r' = None" if "1 < r'" "r' \<le> 3" for r' using that by (auto simp: rank_cases)
    then have "best_app (fdt_entries m t) = Some j" using best [of 1 j] 3 by simp
    then show ?thesis using 3 inval by (auto simp: boot_sbl_find_appimg_def look)
  next
    case 4
    then have "F r' = None" if "0 < r'" "r' \<le> 3" for r' using that by (auto simp: rank_cases)
    then have "best_app (fdt_entries m t) = Some j" using best [of 0 j] 4 by simp
    then show ?thesis using 4 inval by (auto simp: boot_sbl_find_appimg_def look)
  next
    case 5
    then have "best_app (fdt_entries m t) = None" by (intro none) (auto simp: rank_cases)
    then show ?thesis using 5 by (auto simp: boot_sbl_find_appimg_def look)
  qed
qed

section \<open>Updates\<close>

text \<open>The table lies in RRAM and passes verification.\<close>

definition fdt_placed :: "u32 \<Rightarrow> mem \<Rightarrow> bool" where
  "fdt_placed t m \<longleftrightarrow> fdt_verify (Some t) m = BL_ERR_NONE \<and> 0x200000 \<le> unat t \<and> unat t mod 4 = 0 \<and> unat t + 1024 \<le> 0x380000"

lemma unat_fde_place:
  assumes "unat t + 1024 \<le> 0x380000" and "unat idx \<le> 30"
  shows "unat (fde_place t idx) = unat t + 32 + 32 * unat idx"
  using assms by (simp add: fde_place_def unat_word_ariths)

lemma fde_update_ok:
  assumes "dxe_ok d" and "fdt_placed t (dx_mem d)" and "idx < num_fde (dx_mem d) t" and "length (fde_reserve e) = 8"
  shows "\<exists>n. fde_update (Some t) (Some e) idx d =
    Some (BL_ERR_NONE, d\<lparr>dx_mem := mwrite (dx_mem d) (fde_place t idx) (enc_fde e), dx_n := n\<rparr>)"
proof -
  have p: "0x200000 \<le> unat t" "unat t mod 4 = 0" "unat t + 1024 \<le> 0x380000" and n: "unat (num_fde (dx_mem d) t) \<le> 31"
    using assms(2) by (simp_all add: fdt_placed_def fdt_verify_ok)
  have i: "unat idx < unat (num_fde (dx_mem d) t)" using assms(3) by (simp add: word_less_nat_alt)
  then have i30: "unat idx \<le> 30" using n by linarith
  have "(unat t + 32 + 32 * unat idx) mod 4 = 0" using p(2) by presburger
  then have v: "rram_verify_address (fde_place t idx) 32 = BL_ERR_NONE"
    using p i30 unat_fde_place [OF p(3) i30] by (simp add: verify_address_ok)
  have "dxe_stores d (mwrite (dx_mem d) (fde_place t idx) (enc_fde e)) (rram_write_dxe (fde_place t idx) (Buf (enc_fde e)) 32 d)"
    using rram_write_dxe_stores [OF assms(1) v, of "enc_fde e"] assms(4) by simp
  moreover have "\<not> 31 < idx" "\<not> num_fde (dx_mem d) t \<le> idx"
    using i n by (simp_all add: word_less_nat_alt word_le_nat_alt)
  ultimately show ?thesis by (auto simp: fde_update_def dxe_stores_def)
qed

text \<open>A refused write of the engine's front end leaves the state alone.\<close>

lemma rram_write_dxe_refused:
  "rram_verify_address a len \<noteq> BL_ERR_NONE \<Longrightarrow> rram_write_dxe a src len d = Some (rram_verify_address a len, d)"
  by (simp add: rram_write_dxe_def)

definition demo_fdt_mem :: mem where
  "demo_fdt_mem = mwrite (\<lambda>_. 0) 0x200400
     (enc32 FDT_SIGNATURE @ enc32 3 @ replicate 24 0 @
      enc_fde (zero_fde\<lparr>fde_addr := 0x210000\<rparr>) @
      enc_fde (zero_fde\<lparr>fde_id := 2, fde_rank := 2, fde_addr := 1\<rparr>) @
      enc_fde (zero_fde\<lparr>fde_id := 3, fde_rank := 2, fde_addr := 0x37B000\<rparr>))"

lemma demo_fdt_read:
  "rd32 demo_fdt_mem 0x200400 = FDT_SIGNATURE" "num_fde demo_fdt_mem 0x200400 = 3"
  "fde_nth demo_fdt_mem 0x200400 0 = zero_fde\<lparr>fde_addr := 0x210000\<rparr>"
  "fde_nth demo_fdt_mem 0x200400 1 = zero_fde\<lparr>fde_id := 2, fde_rank := 2, fde_addr := 1\<rparr>"
  "fde_nth demo_fdt_mem 0x200400 2 = zero_fde\<lparr>fde_id := 3, fde_rank := 2, fde_addr := 0x37B000\<rparr>"
  by code_simp+

lemma demo_fdt_entries:
  "fdt_entries demo_fdt_mem 0x200400 =
     [zero_fde\<lparr>fde_addr := 0x210000\<rparr>, zero_fde\<lparr>fde_id := 2, fde_rank := 2, fde_addr := 1\<rparr>,
      zero_fde\<lparr>fde_id := 3, fde_rank := 2, fde_addr := 0x37B000\<rparr>]"
proof -
  have "[0 ..< 3] = [0, 1, 2 :: nat]" by code_simp
  then show ?thesis by (simp add: fdt_entries_def demo_fdt_read)
qed

lemma demo_fdt_placed: "fdt_placed 0x200400 demo_fdt_mem"
  by (simp add: fdt_placed_def fdt_verify_def demo_fdt_read)

section \<open>Properties\<close>

text \<open>
  C24: On a working engine, updating entry \<open>idx\<close> of a verified table in RRAM succeeds, replaces exactly
  that entry of the table (the header still verifies and every other entry is as before), and reading the
  entry back gives the new contents with the verdict of \<open>fde_verify\<close> on them.
\<close>

theorem fde_update_replaces_entry:
  assumes "dxe_ok d" and "fdt_placed t (dx_mem d)" and "idx < num_fde (dx_mem d) t" and "length (fde_reserve e) = 8"
  shows "\<exists>d'. fde_update (Some t) (Some e) idx d = Some (BL_ERR_NONE, d') \<and> fdt_placed t (dx_mem d') \<and>
    fdt_entries (dx_mem d') t = (fdt_entries (dx_mem d) t)[unat idx := e] \<and>
    fde_get_by_idx sbla (Some t) (Some e') idx (dx_mem d') = (fde_verify sbla (Some e), Some e)"
proof -
  let ?m = "mwrite (dx_mem d) (fde_place t idx) (enc_fde e)"
  have n: "unat (num_fde (dx_mem d) t) \<le> 31" using assms(2) by (simp add: fdt_placed_def fdt_verify_ok)
  have i: "unat idx < unat (num_fde (dx_mem d) t)" using assms(3) by (simp add: word_less_nat_alt)
  have hdr: "num_fde ?m t = num_fde (dx_mem d) t" "rd32 ?m t = rd32 (dx_mem d) t"
    using num_fde_written [of "unat idx" "enc_fde e" "dx_mem d" t] i n assms(4) by simp_all
  have es: "fdt_entries ?m t = (fdt_entries (dx_mem d) t)[unat idx := e]"
    using fdt_entries_written [OF i _ assms(4)] n by simp
  then have "fde_nth ?m t idx = e"
    using i nth_fdt_entries [of "unat idx" ?m t] hdr(1) by simp
  moreover have "\<not> 31 < idx" "\<not> num_fde ?m t \<le> idx"
    using i n by (simp_all add: word_less_nat_alt word_le_nat_alt hdr)
  ultimately have "fde_get_by_idx sbla (Some t) (Some e') idx ?m = (fde_verify sbla (Some e), Some e)"
    by (simp add: fde_get_by_idx_def Let_def)
  moreover have "fdt_placed t ?m" using assms(2) hdr by (simp add: fdt_placed_def fdt_verify_ok)
  ultimately show ?thesis using fde_update_ok [OF assms] es by auto
qed

theorem fde_update_replaces_entry_witness:
  "\<exists>d'. fde_update (Some 0x200400) (Some zero_fde) 1 (demo_dxe demo_fdt_mem) = Some (BL_ERR_NONE, d') \<and>
     fdt_entries (dx_mem d') 0x200400 = (fdt_entries demo_fdt_mem 0x200400)[1 := zero_fde]"
proof -
  have "length (fde_reserve zero_fde) = 8" by (simp add: zero_fde_def)
  then show ?thesis
    using fde_update_replaces_entry [of "demo_dxe demo_fdt_mem" "0x200400" 1 zero_fde 0 zero_fde] demo_fdt_placed
    by (auto simp: demo_fdt_read)
qed

text \<open>
  \<open>fde_update\<close> on a working engine always returns; it returns \<open>BL_ERR_FDT_INVALID_PARAM\<close> for a NULL
  pointer or an index above the largest table, \<open>BL_ERR_FDE_INVALID_IDX\<close> for an index beyond the table,
  \<open>BL_ERR_FDE_UPDATE_ERR\<close> when the place is outside RRAM or misaligned, and each refusal leaves memory
  unchanged.
\<close>

theorem fde_update_refusals:
  assumes "dxe_ok d" and "length (enc_fde e) = 32"
  shows "\<exists>st d'. fde_update fdt (Some e) idx d = Some (st, d') \<and> (st \<noteq> BL_ERR_NONE \<longrightarrow> d' = d) \<and>
    st = (case fdt of None \<Rightarrow> BL_ERR_FDT_INVALID_PARAM
          | Some t \<Rightarrow> if 31 < idx then BL_ERR_FDT_INVALID_PARAM
                      else if num_fde (dx_mem d) t \<le> idx then BL_ERR_FDE_INVALID_IDX
                      else if rram_verify_address (fde_place t idx) 32 \<noteq> BL_ERR_NONE then BL_ERR_FDE_UPDATE_ERR
                      else BL_ERR_NONE)"
proof (cases fdt)
  case (Some t)
  show ?thesis
  proof (cases "rram_verify_address (fde_place t idx) 32 = BL_ERR_NONE")
    case True
    from rram_write_dxe_stores [OF assms(1) True, of "enc_fde e"] assms(2)
    show ?thesis using Some True by (auto simp: fde_update_def dxe_stores_def)
  next
    case False
    then show ?thesis using Some by (auto simp: fde_update_def rram_write_dxe_refused)
  qed
qed (simp add: fde_update_def)

theorem fde_update_refusals_witness:
  "\<exists>st d'. fde_update (Some 0x200400) (Some zero_fde) 3 (demo_dxe demo_fdt_mem) = Some (st, d') \<and> st = BL_ERR_FDE_INVALID_IDX"
proof -
  have "length (enc_fde zero_fde) = 32" by (simp add: zero_fde_def)
  then show ?thesis
    using fde_update_refusals [of "demo_dxe demo_fdt_mem" zero_fde "Some 0x200400" 3] by (auto simp: demo_fdt_read)
qed

text \<open>
  C26: The nested searches of \<open>boot_sbl_find_appimg\<close> agree with a reference that takes the first application
  entry of the highest rank (trial, then current, golden, aged): in a verified table it returns that index,
  or \<open>BL_ERR_INVALID_PARAM\<close> with the output untouched when there is none.
\<close>

theorem find_appimg_takes_highest_rank:
  assumes "fdt_verify (Some t) m = BL_ERR_NONE"
  shows "boot_sbl_find_appimg (Some t) (Some i) m =
    (case best_app (fdt_entries m t) of None \<Rightarrow> (BL_ERR_INVALID_PARAM, Some i) | Some j \<Rightarrow> (BL_ERR_NONE, Some (of_nat j)))"
  using assms by (intro find_appimg_best) (simp add: fdt_verify_ok)

theorem find_appimg_takes_highest_rank_witness:
  "boot_sbl_find_appimg (Some 0x200400) (Some 7) demo_fdt_mem = (BL_ERR_NONE, Some 1)"
proof -
  have "best_app (fdt_entries demo_fdt_mem 0x200400) = Some 1"
    by (simp add: demo_fdt_entries best_app_def app_entry_def zero_fde_def)
  then show ?thesis
    using find_appimg_takes_highest_rank [of "0x200400" demo_fdt_mem 7] demo_fdt_placed
    by (simp add: fdt_placed_def)
qed

text \<open>
  The board data address comes from an entry that the verification rejects: \<open>fde_verify\<close> accepts only
  the ids of the boot loader, the patch and the application, so \<open>fde_get_by_idx\<close> reports
  \<open>BL_ERR_FDE_INVALID_IMAGE_ID\<close> for every board data entry, and \<open>get_bdf_addr\<close> ignores that and returns
  the address of the first current one, or the default when there is none.
\<close>

theorem bdf_addr_ignores_verification:
  assumes "fdt_verify (Some t) m = BL_ERR_NONE"
  shows "case find_idx (\<lambda>e. fde_id e = OTA_IMG_ID_BDF \<and> fde_rank e = OTA_IMG_RANK_CURRENT) (fdt_entries m t) of
      None \<Rightarrow> get_bdf_addr sbla (Some t) m = 0x37A000
    | Some j \<Rightarrow> fst (fde_get_by_idx sbla (Some t) (Some e) (of_nat j) m) = BL_ERR_FDE_INVALID_IMAGE_ID \<and>
        get_bdf_addr sbla (Some t) m = fde_addr (fdt_entries m t ! j)"
proof -
  have n: "unat (num_fde m t) \<le> 31" using assms by (simp add: fdt_verify_ok)
  show ?thesis
  proof (cases "find_idx (\<lambda>e. fde_id e = OTA_IMG_ID_BDF \<and> fde_rank e = OTA_IMG_RANK_CURRENT) (fdt_entries m t)")
    case None
    then show ?thesis
      by (simp add: get_bdf_addr_def boot_sbl_find_bdf_def fde_get_idx_by_id_rank_def fde_search_def)
  next
    case (Some j)
    then have j: "j < unat (num_fde m t)" "fde_id (fdt_entries m t ! j) = OTA_IMG_ID_BDF"
      by (auto simp: find_idx_Some simp del: nth_fdt_entries)
    have u: "unat (of_nat j :: u32) = j" using j(1) n by (intro unat_of_nat_u32) simp
    have "\<not> 31 < (of_nat j :: u32)" "\<not> num_fde m t \<le> of_nat j" "(of_nat j :: u32) \<noteq> FDE_INVAL_IDX"
      using j(1) n of_nat_inval [of j] by (simp_all add: word_less_nat_alt word_le_nat_alt u)
    moreover have "fde_id (fde_nth m t (of_nat j)) = OTA_IMG_ID_BDF" using j by simp
    ultimately show ?thesis using Some j(1)
      by (simp add: get_bdf_addr_def boot_sbl_find_bdf_def fde_get_idx_by_id_rank_def fde_search_def fde_get_by_idx_def
        fde_verify_def Let_def)
  qed
qed

theorem bdf_addr_ignores_verification_witness:
  "get_bdf_addr 0 (Some 0x200400) demo_fdt_mem = 0x37B000"
  using bdf_addr_ignores_verification [of "0x200400" demo_fdt_mem 0 zero_fde] demo_fdt_placed
  by (simp add: fdt_placed_def demo_fdt_entries zero_fde_def)

end
