(* ===== verification/SblElf.thy ===== *)
theory SblElf
  imports FlashDriver SblRram
begin

text \<open>
  The ELF loader of the boot loader (\<open>src/bootloader/SBL/elf_loader/boot_elf_loader.c\<close>, \<open>boot_elf_mem.c\<close>),
  with the storage wrappers of \<open>system/sbl_storage.c\<close> and the read of \<open>system/nt_bl_mem.c\<close> it uses, in the
  build with QSPI flash. The world is the flash driver, the address space of \<open>SblRram\<close> and the linker
  symbols of the RRAM and OTP regions. An image is addressed in flash through a virtual window at
  \<open>APP_IMAGE_FLASH_ADDRESS\<close>; the memory operations are selected by the regions of source and destination.
  The loader structure lies in RAM at an address given by the caller: headers are read into it and decoded
  from memory. The copies inside RAM and the calls through the patch table (\<open>PBL_IND_MOD_PFN\<close>), which
  without patching are plain calls, are modelled as such.

  Shown: the chunked copies from flash to RAM and to RRAM transfer exactly the requested bytes; loading a
  segment puts its file bytes at its address, zeroes the rest and touches nothing else; the copy from RRAM
  to RAM writes past its destination; a request that matches no region is reported as success.
\<close>

unbundle bit_operations_syntax

section \<open>Data\<close>

record sblw =
  sw_flash :: flash
  sw_dxe :: dxe
  sw_rram_start :: u32
  sw_rram_end :: u32
  sw_otp_start :: u32
  sw_otp_end :: u32

abbreviation sw_mem :: "sblw \<Rightarrow> mem" where "sw_mem w \<equiv> dx_mem (sw_dxe w)"

definition put_mem :: "u32 \<Rightarrow> u8 list \<Rightarrow> sblw \<Rightarrow> sblw" where
  "put_mem a bs w = w\<lparr>sw_dxe := (sw_dxe w)\<lparr>dx_mem := mwrite (sw_mem w) a bs\<rparr>\<rparr>"

type_synonym 'a sbl_res = "('a \<times> sblw) waits"

record boot_elf32_phdr =
  p_type :: u32
  p_offset :: u32
  p_vaddr :: u32
  p_paddr :: u32
  p_filesz :: u32
  p_memsz :: u32
  p_flags :: u32
  p_align :: u32

record boot_elf32_ehdr =
  e_ident :: "u8 list"
  e_type :: u16
  e_machine :: u16
  e_version :: u32
  e_entry :: u32
  e_phoff :: u32
  e_shoff :: u32
  e_flags :: u32
  e_ehsize :: u16
  e_phentsize :: u16
  e_phnum :: u16
  e_shentsize :: u16
  e_shnum :: u16
  e_shstrndx :: u16

datatype bl_elf_mem_type = BL_RRAM_RAM | BL_RRAM_RRAM | BL_FLASH_RAM | BL_FLASH_RRAM

record bl_elf_mem_op =
  op_type :: bl_elf_mem_type
  v_start :: u32
  v_end :: u32
  p_start :: u32
  p_end :: u32

datatype boot_elf_load_type = BOOT_ELF_LOAD_FULL | BOOT_ELF_LOAD_RAM | BOOT_ELF_LOAD_COPY | BOOT_ELF_LOAD_MAX

record boot_elf_loader =
  elf_addr :: "u32 option"
  elf_hdr :: boot_elf32_ehdr
  prog_hdrs :: "boot_elf32_phdr list"
  phr_num :: u32
  mem_ops :: "bl_elf_mem_op list"

abbreviation (input) FRN_RAM_START :: u32 where "FRN_RAM_START \<equiv> 0"
abbreviation (input) FRN_RAM_END :: u32 where "FRN_RAM_END \<equiv> 0x9FFFF"
abbreviation (input) FRN_RRAM_START :: u32 where "FRN_RRAM_START \<equiv> 0x200000"
abbreviation (input) FRN_RRAM_END :: u32 where "FRN_RRAM_END \<equiv> 0x37FFFF"
abbreviation (input) APP_IMAGE_FLASH_ADDRESS :: u32 where "APP_IMAGE_FLASH_ADDRESS \<equiv> 0xA00000"
abbreviation (input) FRN_FLASH_START :: u32 where "FRN_FLASH_START \<equiv> 0x9FFFFF"
abbreviation (input) FRN_FLASH_END :: u32 where "FRN_FLASH_END \<equiv> 0xE00000"
abbreviation (input) MI_PBT_MAX_SEGMENTS :: nat where "MI_PBT_MAX_SEGMENTS \<equiv> 40"
abbreviation (input) PT_LOAD :: u32 where "PT_LOAD \<equiv> 1"

definition elf_mem_op :: "bl_elf_mem_op list" where
  "elf_mem_op =
     [\<lparr>op_type = BL_RRAM_RAM, v_start = FRN_RAM_START, v_end = FRN_RAM_END, p_start = FRN_RRAM_START, p_end = FRN_RRAM_END\<rparr>,
      \<lparr>op_type = BL_RRAM_RRAM, v_start = FRN_RRAM_START, v_end = FRN_RRAM_END, p_start = FRN_RRAM_START, p_end = FRN_RRAM_END\<rparr>,
      \<lparr>op_type = BL_FLASH_RAM, v_start = FRN_RAM_START, v_end = FRN_RAM_END, p_start = FRN_FLASH_START, p_end = FRN_FLASH_END\<rparr>,
      \<lparr>op_type = BL_FLASH_RRAM, v_start = FRN_RRAM_START, v_end = FRN_RRAM_END, p_start = FRN_FLASH_START, p_end = FRN_FLASH_END\<rparr>]"

section \<open>Storage wrappers\<close>

definition boot_sbl_flash_init :: "sblw \<Rightarrow> FLASH_STATUS \<times> sblw" where
  "boot_sbl_flash_init w = (case drv_flash_init (sw_flash w) of (st, f) \<Rightarrow> (st, w\<lparr>sw_flash := f\<rparr>))"

definition boot_sbl_flash_read :: "u32 \<Rightarrow> u32 \<Rightarrow> sblw \<Rightarrow> (FLASH_STATUS \<times> u8 list) \<times> sblw" where
  "boot_sbl_flash_read address byte_cnt w =
     (case drv_flash_read address byte_cnt (sw_flash w) of (r, f) \<Rightarrow> (r, w\<lparr>sw_flash := f\<rparr>))"

definition boot_sbl_flash_write :: "u32 \<Rightarrow> u32 \<Rightarrow> u8 list \<Rightarrow> sblw \<Rightarrow> FLASH_STATUS \<times> sblw" where
  "boot_sbl_flash_write address byte_cnt buffer w =
     (case drv_flash_write address byte_cnt buffer (sw_flash w) of (st, f) \<Rightarrow> (st, w\<lparr>sw_flash := f\<rparr>))"

definition boot_sbl_rram_write :: "u32 \<Rightarrow> source \<Rightarrow> u32 \<Rightarrow> sblw \<Rightarrow> bl_error_type sbl_res" where
  "boot_sbl_rram_write destination src len w = do {
     (st, d) \<leftarrow> rram_write_dxe destination src len (sw_dxe w);
     Some (st, w\<lparr>sw_dxe := d\<rparr>)
   }"

text \<open>\<open>nt_bl_rram_read\<close>: a copy of bytes that lie in the RRAM or the OTP region; \<open>True\<close> for success.\<close>

definition rram_or_otp :: "u32 \<Rightarrow> sblw \<Rightarrow> bool" where
  "rram_or_otp a w \<longleftrightarrow> sw_rram_start w \<le> a \<and> a \<le> sw_rram_end w \<or> sw_otp_start w \<le> a \<and> a \<le> sw_otp_end w"

definition nt_bl_rram_read :: "u32 \<Rightarrow> u32 \<Rightarrow> u32 \<Rightarrow> sblw \<Rightarrow> bool \<times> sblw" where
  "nt_bl_rram_read address rdata len w =
     (if len = 0 then (False, w)
      else if \<not> rram_or_otp address w \<or> \<not> rram_or_otp (address + len) w then (False, w)
      else (True, put_mem rdata (mread (sw_mem w) address (unat len)) w))"

section \<open>Memory operations\<close>

text \<open>
  The two copies from flash have the same loop: chunks of \<open>RRAM_READ_BUF_SIZE\<close> bytes while more than that is
  left, then the rest. \<open>chunk don n\<close> transfers \<open>n\<close> bytes at progress \<open>don\<close>, which never exceeds \<open>bytes\<close>.
\<close>

abbreviation (input) RRAM_READ_BUF_SIZE :: nat where "RRAM_READ_BUF_SIZE \<equiv> 2048"

type_synonym chunk_op = "nat \<Rightarrow> nat \<Rightarrow> sblw \<Rightarrow> bl_error_type sbl_res"

function chunk_loop :: "chunk_op \<Rightarrow> nat \<Rightarrow> nat \<Rightarrow> sblw \<Rightarrow> (bl_error_type \<times> nat) sbl_res" where
  "chunk_loop chunk bytes don w =
     (if don \<le> bytes \<and> RRAM_READ_BUF_SIZE < bytes - don
      then (case chunk don RRAM_READ_BUF_SIZE w of
              None \<Rightarrow> None
            | Some (st, w) \<Rightarrow>
                if st \<noteq> BL_ERR_NONE then Some ((st, don), w)
                else chunk_loop chunk bytes (don + RRAM_READ_BUF_SIZE) w)
      else Some ((BL_ERR_NONE, don), w))"
  by pat_completeness auto
termination
  by (relation "measure (\<lambda>(c, n, k, w). n - k)") auto

declare chunk_loop.simps [simp del]

definition chunk_copy :: "chunk_op \<Rightarrow> nat \<Rightarrow> sblw \<Rightarrow> bl_error_type sbl_res" where
  "chunk_copy chunk bytes w = do {
     ((status, don), w) \<leftarrow> (if RRAM_READ_BUF_SIZE < bytes then chunk_loop chunk bytes 0 w else Some ((BL_ERR_NONE, 0), w));
     if status \<noteq> BL_ERR_NONE then Some (status, w)
     else if bytes - don \<noteq> 0 then chunk don (bytes - don) w
     else Some (BL_ERR_NONE, w)
   }"

text \<open>To RAM: the chunk is read into a local buffer and copied. To RRAM: it is written through the DXE engine,
  and an error of the write is logged and not returned.\<close>

definition flash_ram_chunk :: "u32 \<Rightarrow> u32 \<Rightarrow> chunk_op" where
  "flash_ram_chunk nvm data don n w =
     (case boot_sbl_flash_read (nvm + of_nat don) (of_nat n) w of ((st, temp), w) \<Rightarrow>
        if st \<noteq> FLASH_DEVICE_DONE then Some (BL_ERR_ELF_MEM_READ, w)
        else Some (BL_ERR_NONE, put_mem (data + of_nat don) temp w))"

definition flash_rram_chunk :: "u32 \<Rightarrow> u32 \<Rightarrow> chunk_op" where
  "flash_rram_chunk nvm data don n w =
     (case boot_sbl_flash_read (nvm + of_nat don) (of_nat n) w of ((st, buf), w) \<Rightarrow>
        if st \<noteq> FLASH_DEVICE_DONE then Some (BL_ERR_ELF_MEM_READ, w)
        else do {
          (_, w) \<leftarrow> boot_sbl_rram_write (data + of_nat don) (Buf buf) (of_nat n) w;
          Some (BL_ERR_NONE, w)
        })"

definition bl_elf_flash_read_to_ram :: "u32 \<Rightarrow> u32 \<Rightarrow> u32 \<Rightarrow> sblw \<Rightarrow> bl_error_type sbl_res" where
  "bl_elf_flash_read_to_ram address data bytes w =
     chunk_copy (flash_ram_chunk (address - APP_IMAGE_FLASH_ADDRESS) data) (unat bytes) w"

definition bl_elf_flash_read_to_rram_dxe :: "u32 \<Rightarrow> u32 \<Rightarrow> u32 \<Rightarrow> sblw \<Rightarrow> bl_error_type sbl_res" where
  "bl_elf_flash_read_to_rram_dxe address data bytes w =
     chunk_copy (flash_rram_chunk (address - APP_IMAGE_FLASH_ADDRESS) data) (unat bytes) w"

definition bl_elf_rram_set_rram_dxe :: "u32 \<Rightarrow> u32 \<Rightarrow> u32 \<Rightarrow> sblw \<Rightarrow> bl_error_type sbl_res" where
  "bl_elf_rram_set_rram_dxe address val bytes w = do {
     (st, d) \<leftarrow> rram_memset_dxe address val bytes (sw_dxe w);
     Some (st, w\<lparr>sw_dxe := d\<rparr>)
   }"

definition bl_elf_rram_read_to_rram_dxe :: "u32 \<Rightarrow> u32 \<Rightarrow> u32 \<Rightarrow> sblw \<Rightarrow> bl_error_type sbl_res" where
  "bl_elf_rram_read_to_rram_dxe address data bytes w = boot_sbl_rram_write data (At address) bytes w"

definition bl_elf_rram_set_ram :: "u32 \<Rightarrow> u32 \<Rightarrow> u32 \<Rightarrow> sblw \<Rightarrow> bl_error_type sbl_res" where
  "bl_elf_rram_set_ram address val bytes w =
     Some (BL_ERR_NONE, put_mem address (replicate (unat bytes) (ucast val)) w)"

text \<open>From RRAM to RAM: the loop runs while \<open>done <= bytes\<close> and always copies a whole buffer.\<close>

function rram_ram_loop :: "u32 \<Rightarrow> u32 \<Rightarrow> nat \<Rightarrow> nat \<Rightarrow> sblw \<Rightarrow> (bl_error_type \<times> nat) \<times> sblw" where
  "rram_ram_loop address data bytes don w =
     (if don \<le> bytes
      then (case nt_bl_rram_read (address + of_nat don) (data + of_nat don) (of_nat RRAM_READ_BUF_SIZE) w of (ok, w) \<Rightarrow>
              if \<not> ok then ((BL_ERR_ELF_MEM_READ, don), w)
              else rram_ram_loop address data bytes (don + RRAM_READ_BUF_SIZE) w)
      else ((BL_ERR_NONE, don), w))"
  by pat_completeness auto
termination
  by (relation "measure (\<lambda>(a, b, n, k, w). Suc n - k)") auto

declare rram_ram_loop.simps [simp del]

definition bl_elf_rram_read_to_ram :: "u32 \<Rightarrow> u32 \<Rightarrow> u32 \<Rightarrow> sblw \<Rightarrow> bl_error_type sbl_res" where
  "bl_elf_rram_read_to_ram address data bytes w =
     (let n = unat bytes;
          ((status, don, last_bytes), w) =
            (if RRAM_READ_BUF_SIZE < n
             then (case rram_ram_loop address data n 0 w of ((st, don), w) \<Rightarrow>
                     ((st, don - RRAM_READ_BUF_SIZE, RRAM_READ_BUF_SIZE - (don - n)), w))
             else ((BL_ERR_NONE, 0, n), w)) in
      if status \<noteq> BL_ERR_NONE then Some (status, w)
      else if last_bytes \<noteq> 0
      then (case nt_bl_rram_read (address + of_nat don) (data + of_nat don) (of_nat last_bytes) w of (ok, w) \<Rightarrow>
              Some (if ok then BL_ERR_NONE else BL_ERR_ELF_MEM_READ, w))
      else Some (BL_ERR_NONE, w))"

definition op_read :: "bl_elf_mem_type \<Rightarrow> u32 \<Rightarrow> u32 \<Rightarrow> u32 \<Rightarrow> sblw \<Rightarrow> bl_error_type sbl_res" where
  "op_read ty = (case ty of
      BL_RRAM_RAM \<Rightarrow> bl_elf_rram_read_to_ram | BL_RRAM_RRAM \<Rightarrow> bl_elf_rram_read_to_rram_dxe
    | BL_FLASH_RAM \<Rightarrow> bl_elf_flash_read_to_ram | BL_FLASH_RRAM \<Rightarrow> bl_elf_flash_read_to_rram_dxe)"

definition op_set :: "bl_elf_mem_type \<Rightarrow> (u32 \<Rightarrow> u32 \<Rightarrow> u32 \<Rightarrow> sblw \<Rightarrow> bl_error_type sbl_res) option" where
  "op_set ty = (case ty of
      BL_RRAM_RAM \<Rightarrow> Some bl_elf_rram_set_ram | BL_RRAM_RRAM \<Rightarrow> Some bl_elf_rram_set_rram_dxe
    | BL_FLASH_RAM \<Rightarrow> None | BL_FLASH_RRAM \<Rightarrow> None)"

definition BL_ELF_MEM_READ_REGION_CHECK :: "u32 \<Rightarrow> u32 \<Rightarrow> u32 \<Rightarrow> bl_elf_mem_op \<Rightarrow> bool" where
  "BL_ELF_MEM_READ_REGION_CHECK src dst bytes op \<longleftrightarrow>
     p_start op \<le> src \<and> src + bytes \<le> p_end op \<and> v_start op \<le> dst \<and> dst + bytes \<le> v_end op"

definition BL_ELF_MEM_SET_REGION_CHECK :: "u32 \<Rightarrow> u32 \<Rightarrow> bl_elf_mem_op \<Rightarrow> bool" where
  "BL_ELF_MEM_SET_REGION_CHECK dst bytes op \<longleftrightarrow> v_start op \<le> dst \<and> dst + bytes \<le> v_end op"

definition boot_elf_mem_read :: "u32 \<Rightarrow> u32 \<Rightarrow> u32 \<Rightarrow> bl_elf_mem_op list \<Rightarrow> sblw \<Rightarrow> bl_error_type sbl_res" where
  "boot_elf_mem_read address data bytes ops w =
     (if ops = [] then Some (BL_ERR_ELF_MEM_INVAL_PARAM, w)
      else (case find (BL_ELF_MEM_READ_REGION_CHECK address data bytes) ops of
              Some op \<Rightarrow> op_read (op_type op) address data bytes w
            | None \<Rightarrow> Some (BL_ERR_NONE, w)))"

definition boot_elf_mem_set :: "u32 \<Rightarrow> u32 \<Rightarrow> u32 \<Rightarrow> bl_elf_mem_op list \<Rightarrow> sblw \<Rightarrow> bl_error_type sbl_res" where
  "boot_elf_mem_set address val bytes ops w =
     (if ops = [] then Some (BL_ERR_ELF_MEM_INVAL_PARAM, w)
      else (case find (BL_ELF_MEM_SET_REGION_CHECK address bytes) ops of
              Some op \<Rightarrow> (case op_set (op_type op) of Some f \<Rightarrow> f address val bytes w | None \<Rightarrow> Some (BL_ERR_NONE, w))
            | None \<Rightarrow> Some (BL_ERR_NONE, w)))"

definition boot_elf_mem_op_register :: "bl_elf_mem_op list \<Rightarrow> bl_elf_mem_op \<Rightarrow> bl_error_type \<times> bl_elf_mem_op list" where
  "boot_elf_mem_op_register ops op = (if 4 \<le> length ops then (BL_ERR_ELF_MEM_INVAL_PARAM, ops) else (BL_ERR_NONE, ops @ [op]))"

fun op_register_all :: "bl_elf_mem_op list \<Rightarrow> bl_elf_mem_op list \<Rightarrow> bl_error_type \<times> bl_elf_mem_op list" where
  "op_register_all ops [] = (BL_ERR_NONE, ops)"
| "op_register_all ops (op # cfg) =
     (case boot_elf_mem_op_register ops op of (st, ops) \<Rightarrow>
        if st \<noteq> BL_ERR_NONE then (BL_ERR_ELF_MEM_INIT, ops) else op_register_all ops cfg)"

definition boot_elf_mem_op_init :: "bl_elf_mem_op list \<Rightarrow> bl_error_type \<times> bl_elf_mem_op list" where
  "boot_elf_mem_op_init op_cfg = op_register_all [] op_cfg"

section \<open>The loader\<close>

definition le16 :: "u8 list \<Rightarrow> u16" where
  "le16 bs = ucast (bs ! 0) OR push_bit 8 (ucast (bs ! 1))"

definition get16 :: "u8 list \<Rightarrow> nat \<Rightarrow> u16" where
  "get16 bs off = le16 (take 2 (drop off bs))"

text \<open>The 52 bytes of an ELF header and the 32 bytes of a program header.\<close>

definition dec_ehdr :: "u8 list \<Rightarrow> boot_elf32_ehdr" where
  "dec_ehdr bs = \<lparr>e_ident = take 16 bs, e_type = get16 bs 16, e_machine = get16 bs 18, e_version = get32 bs 20,
     e_entry = get32 bs 24, e_phoff = get32 bs 28, e_shoff = get32 bs 32, e_flags = get32 bs 36, e_ehsize = get16 bs 40,
     e_phentsize = get16 bs 42, e_phnum = get16 bs 44, e_shentsize = get16 bs 46, e_shnum = get16 bs 48,
     e_shstrndx = get16 bs 50\<rparr>"

definition dec_phdr :: "u8 list \<Rightarrow> boot_elf32_phdr" where
  "dec_phdr bs = \<lparr>p_type = get32 bs 0, p_offset = get32 bs 4, p_vaddr = get32 bs 8, p_paddr = get32 bs 12,
     p_filesz = get32 bs 16, p_memsz = get32 bs 20, p_flags = get32 bs 24, p_align = get32 bs 28\<rparr>"

text \<open>Members of the loader structure at \<open>l\<close>: the ELF header at offset 4, the program headers at 56.\<close>

definition elf_hdr_place :: "u32 \<Rightarrow> u32" where "elf_hdr_place l = l + 4"

definition prog_hdrs_place :: "u32 \<Rightarrow> u32" where "prog_hdrs_place l = l + 56"

definition ehdr_in :: "u32 \<Rightarrow> mem \<Rightarrow> boot_elf32_ehdr" where
  "ehdr_in l m = dec_ehdr (mread m (elf_hdr_place l) 52)"

definition phdrs_in :: "u32 \<Rightarrow> mem \<Rightarrow> boot_elf32_phdr list" where
  "phdrs_in l m = map (\<lambda>i. dec_phdr (mread m (prog_hdrs_place l + 32 * of_nat i) 32)) [0 ..< MI_PBT_MAX_SEGMENTS]"

definition boot_elf_validate_elf_header :: "boot_elf32_ehdr option \<Rightarrow> bl_error_type" where
  "boot_elf_validate_elf_header hdr =
     (case hdr of None \<Rightarrow> BL_ERR_ELF_NULL_PTR
      | Some h \<Rightarrow>
         if e_ident h ! 0 \<noteq> 0x7F \<or> e_ident h ! 1 \<noteq> 0x45 \<or> e_ident h ! 2 \<noteq> 0x4C \<or> e_ident h ! 3 \<noteq> 0x46
         then BL_ERR_ELF_PARSE
         else if e_ident h ! 4 \<noteq> 1 then BL_ERR_ELF_CLASS_INVALID
         else if e_ehsize h \<noteq> 52 then BL_ERR_ELF_FORMAT
         else if e_phentsize h \<noteq> 32 then BL_ERR_ELF_FORMAT
         else if of_nat MI_PBT_MAX_SEGMENTS < e_phnum h then BL_ERR_ELF_SEGMENT_COUNT
         else BL_ERR_NONE)"

text \<open>Bytes to read from the file and bytes to zero, for a request of \<open>bytes_to_load\<close> at \<open>offset\<close>.\<close>

definition bytes_to_read_of :: "boot_elf32_phdr \<Rightarrow> u32 \<Rightarrow> u32 \<Rightarrow> u32" where
  "bytes_to_read_of ph offset bytes_to_load =
     (if p_filesz ph \<le> offset then 0
      else if p_filesz ph - offset \<le> bytes_to_load then p_filesz ph - offset
      else bytes_to_load)"

definition bytes_to_set_of :: "boot_elf32_phdr \<Rightarrow> u32 \<Rightarrow> u32 \<Rightarrow> u32" where
  "bytes_to_set_of ph bytes_to_read bytes_to_load =
     (if bytes_to_load \<le> bytes_to_read then 0
      else if p_memsz ph - p_filesz ph \<le> bytes_to_load - bytes_to_read then p_memsz ph - p_filesz ph
      else bytes_to_load - bytes_to_read)"

definition boot_elf_load_generic_segment ::
    "boot_elf_loader option \<Rightarrow> u32 \<Rightarrow> u32 \<Rightarrow> u32 \<Rightarrow> u32 \<Rightarrow> sblw \<Rightarrow> bl_error_type sbl_res" where
  "boot_elf_load_generic_segment elf_loader prog_idx offset dest_addr bytes_to_load w =
     (case elf_loader of None \<Rightarrow> Some (BL_ERR_ELF_NULL_PTR, w)
      | Some l \<Rightarrow>
       (case elf_addr l of None \<Rightarrow> Some (BL_ERR_ELF_NULL_PTR, w)
        | Some elf \<Rightarrow>
          if phr_num l \<le> prog_idx then Some (BL_ERR_ELF_INVAL_PARAM, w)
          else
           (let ph = prog_hdrs l ! unat prog_idx;
                bytes_to_read = bytes_to_read_of ph offset bytes_to_load;
                bytes_to_set = bytes_to_set_of ph bytes_to_read bytes_to_load in
            do {
              (result, w) \<leftarrow>
                (if p_memsz ph \<noteq> 0 \<and> p_filesz ph \<noteq> 0 \<and> p_filesz ph \<le> p_memsz ph \<and> bytes_to_read \<noteq> 0
                 then boot_elf_mem_read (elf + p_offset ph + offset) dest_addr bytes_to_read (mem_ops l) w
                 else Some (BL_ERR_NONE, w));
              if result \<noteq> BL_ERR_NONE then Some (result, w)
              else if p_filesz ph < p_memsz ph \<and> dest_addr \<le> dest_addr + p_filesz ph \<and> bytes_to_set \<noteq> 0
              then boot_elf_mem_set (dest_addr + bytes_to_read) 0 bytes_to_set (mem_ops l) w
              else Some (result, w)
            })))"

definition boot_elf_load_elf_header :: "u32 \<Rightarrow> boot_elf_loader \<Rightarrow> sblw \<Rightarrow> (bl_error_type \<times> boot_elf_loader) sbl_res" where
  "boot_elf_load_elf_header place l w =
     (case elf_addr l of None \<Rightarrow> Some ((BL_ERR_ELF_NULL_PTR, l), w)
      | Some elf \<Rightarrow> do {
          (result, w) \<leftarrow> boot_elf_mem_read elf (elf_hdr_place place) 52 (mem_ops l) w;
          let l = l\<lparr>elf_hdr := ehdr_in place (sw_mem w)\<rparr> in
          if result \<noteq> BL_ERR_NONE then Some ((result, l), w)
          else Some ((boot_elf_validate_elf_header (Some (elf_hdr l)), l), w)
        })"

definition boot_elf_load_prog_hdrs :: "u32 \<Rightarrow> boot_elf_loader \<Rightarrow> sblw \<Rightarrow> (bl_error_type \<times> boot_elf_loader) sbl_res" where
  "boot_elf_load_prog_hdrs place l w =
     (case elf_addr l of None \<Rightarrow> Some ((BL_ERR_ELF_NULL_PTR, l), w)
      | Some elf \<Rightarrow> do {
          (result, w) \<leftarrow> boot_elf_mem_read (elf + e_phoff (elf_hdr l)) (prog_hdrs_place place)
             (ucast (e_phnum (elf_hdr l)) * ucast (e_phentsize (elf_hdr l))) (mem_ops l) w;
          Some ((result, l\<lparr>prog_hdrs := phdrs_in place (sw_mem w)\<rparr>), w)
        })"

text \<open>The header members are cleared first; the loader is the one at \<open>place\<close>.\<close>

definition boot_elf_load_init ::
    "u32 \<Rightarrow> boot_elf_loader \<Rightarrow> u32 option \<Rightarrow> bl_elf_mem_op list \<Rightarrow> sblw \<Rightarrow> (bl_error_type \<times> boot_elf_loader) sbl_res" where
  "boot_elf_load_init place l elf op_cfg w =
     (if elf = None then Some ((BL_ERR_ELF_NULL_PTR, l), w)
      else
       (let w = put_mem (elf_hdr_place place) (replicate 52 0) w;
            w = put_mem (prog_hdrs_place place) (replicate (32 * MI_PBT_MAX_SEGMENTS) 0) w;
            (result, ops) = boot_elf_mem_op_init op_cfg;
            l = l\<lparr>elf_hdr := ehdr_in place (sw_mem w), prog_hdrs := phdrs_in place (sw_mem w), mem_ops := ops\<rparr> in
        if result \<noteq> BL_ERR_NONE then Some ((result, l), w)
        else do {
          ((result, l), w) \<leftarrow> boot_elf_load_elf_header place (l\<lparr>elf_addr := elf\<rparr>) w;
          if result \<noteq> BL_ERR_NONE then Some ((result, l), w)
          else do {
            ((result, l), w) \<leftarrow> boot_elf_load_prog_hdrs place l w;
            if result \<noteq> BL_ERR_NONE then Some ((result, l), w)
            else Some ((BL_ERR_NONE, l\<lparr>phr_num := ucast (e_phnum (elf_hdr l))\<rparr>), w)
          }
        }))"

text \<open>One segment of the image: which loads are made for the load type.\<close>

definition load_one :: "boot_elf_loader \<Rightarrow> boot_elf_load_type \<Rightarrow> nat \<Rightarrow> sblw \<Rightarrow> bl_error_type sbl_res" where
  "load_one l ty i w =
     (let ph = prog_hdrs l ! i in
      if p_type ph \<noteq> PT_LOAD then Some (BL_ERR_NONE, w)
      else if ty \<noteq> BOOT_ELF_LOAD_COPY
      then (if ty = BOOT_ELF_LOAD_RAM \<and> p_vaddr ph < FRN_RAM_END \<or> ty = BOOT_ELF_LOAD_FULL
            then boot_elf_load_generic_segment (Some l) (of_nat i) 0 (p_vaddr ph) (p_memsz ph) w
            else Some (BL_ERR_NONE, w))
      else boot_elf_load_generic_segment (Some l) (of_nat i) 0 (p_paddr ph) (p_filesz ph) w)"

fun load_segments :: "boot_elf_loader \<Rightarrow> boot_elf_load_type \<Rightarrow> nat list \<Rightarrow> sblw \<Rightarrow> bl_error_type sbl_res" where
  "load_segments l ty [] w = Some (BL_ERR_NONE, w)"
| "load_segments l ty (i # is) w = do {
     (result, w) \<leftarrow> load_one l ty i w;
     if result \<noteq> BL_ERR_NONE then Some (result, w) else load_segments l ty is w
   }"

definition boot_elf_load_image :: "boot_elf_loader option \<Rightarrow> boot_elf_load_type \<Rightarrow> sblw \<Rightarrow> bl_error_type sbl_res" where
  "boot_elf_load_image elf_loader ty w =
     (case elf_loader of None \<Rightarrow> Some (BL_ERR_ELF_NULL_PTR, w)
      | Some l \<Rightarrow> if elf_addr l = None then Some (BL_ERR_ELF_NULL_PTR, w)
                  else load_segments l ty [0 ..< unat (phr_num l)] w)"

section \<open>Copies from flash\<close>

definition world_ok :: "sblw \<Rightarrow> bool" where
  "world_ok w \<longleftrightarrow> flash_ready (sw_flash w) \<and> dxe_ok (sw_dxe w)"

text \<open>\<open>w'\<close> is \<open>w\<close> with memory \<open>m\<close>: nothing else has changed but the progress of the two engines.\<close>

definition loaded :: "sblw \<Rightarrow> mem \<Rightarrow> sblw \<Rightarrow> bool" where
  "loaded w m w' \<longleftrightarrow> (\<exists>f n. w' = w\<lparr>sw_flash := f, sw_dxe := (sw_dxe w)\<lparr>dx_mem := m, dx_n := n\<rparr>\<rparr> \<and>
     fl_mem f = fl_mem (sw_flash w) \<and> same_driver (sw_flash w) f)"

lemma loadedI:
  "w' = w\<lparr>sw_flash := f, sw_dxe := (sw_dxe w)\<lparr>dx_mem := m, dx_n := n\<rparr>\<rparr> \<Longrightarrow> fl_mem f = fl_mem (sw_flash w) \<Longrightarrow>
     same_driver (sw_flash w) f \<Longrightarrow> loaded w m w'"
  unfolding loaded_def by (intro exI conjI)

lemma loaded_refl: "loaded w (sw_mem w) w"
  by (rule loadedI [where f = "sw_flash w" and n = "dx_n (sw_dxe w)"]) simp_all

lemma loaded_trans:
  assumes "loaded w m w1" and "loaded w1 m' w2"
  shows "loaded w m' w2"
proof -
  from assms obtain f n f' n' where
    "w1 = w\<lparr>sw_flash := f, sw_dxe := (sw_dxe w)\<lparr>dx_mem := m, dx_n := n\<rparr>\<rparr>" "fl_mem f = fl_mem (sw_flash w)"
    "same_driver (sw_flash w) f" "w2 = w1\<lparr>sw_flash := f', sw_dxe := (sw_dxe w1)\<lparr>dx_mem := m', dx_n := n'\<rparr>\<rparr>"
    "fl_mem f' = fl_mem (sw_flash w1)" "same_driver (sw_flash w1) f'"
    unfolding loaded_def by (elim exE conjE) (rule that)
  then show ?thesis by (intro loadedI [where f = f' and n = n']) (auto intro: same_driver_trans)
qed

lemma loaded_mem: "loaded w m w' \<Longrightarrow> sw_mem w' = m \<and> fl_mem (sw_flash w') = fl_mem (sw_flash w)"
  by (auto simp: loaded_def)

lemma loaded_ok: "loaded w m w' \<Longrightarrow> world_ok w \<Longrightarrow> world_ok w'"
  by (auto simp: loaded_def world_ok_def same_driver_ready)

lemma loaded_fits: "loaded w m w' \<Longrightarrow> flash_fits a n (sw_flash w') = flash_fits a n (sw_flash w)"
  by (auto simp: loaded_def flash_fits_def same_driver_fields)

lemma loaded_put:
  assumes "loaded w m w'"
  shows "loaded w (mwrite m a bs) (put_mem a bs w')"
proof -
  from assms obtain f n where "w' = w\<lparr>sw_flash := f, sw_dxe := (sw_dxe w)\<lparr>dx_mem := m, dx_n := n\<rparr>\<rparr>"
    "fl_mem f = fl_mem (sw_flash w)" "same_driver (sw_flash w) f"
    unfolding loaded_def by (elim exE conjE) (rule that)
  then show ?thesis by (intro loadedI [where f = f and n = n]) (auto simp: put_mem_def)
qed

lemma loaded_dxe:
  assumes "loaded w m w'"
  shows "loaded w m' (w'\<lparr>sw_dxe := (sw_dxe w')\<lparr>dx_mem := m', dx_n := k\<rparr>\<rparr>)"
proof -
  from assms obtain f n where "w' = w\<lparr>sw_flash := f, sw_dxe := (sw_dxe w)\<lparr>dx_mem := m, dx_n := n\<rparr>\<rparr>"
    "fl_mem f = fl_mem (sw_flash w)" "same_driver (sw_flash w) f"
    unfolding loaded_def by (elim exE conjE) (rule that)
  then show ?thesis by (intro loadedI [where f = f and n = k]) auto
qed

lemma flash_read_loads:
  assumes "world_ok w" and "flash_fits a n (sw_flash w)"
  shows "\<exists>w'. boot_sbl_flash_read a (of_nat n) w = ((FLASH_DEVICE_DONE, mread (fl_mem (sw_flash w)) a n), w') \<and>
    loaded w (sw_mem w) w'"
proof -
  let ?f = "(sw_flash w)\<lparr>fl_n := Suc (fl_n (sw_flash w))\<rparr>"
  have "boot_sbl_flash_read a (of_nat n) w = ((FLASH_DEVICE_DONE, mread (fl_mem (sw_flash w)) a n), w\<lparr>sw_flash := ?f\<rparr>)"
    using drv_flash_read_ok [of "sw_flash w" a "of_nat n"] flash_fits_params [OF assms(2)] assms(1)
    by (simp add: boot_sbl_flash_read_def world_ok_def)
  moreover have "same_driver (sw_flash w) ?f" by (simp add: same_driver_def)
  then have "loaded w (sw_mem w) (w\<lparr>sw_flash := ?f\<rparr>)"
    by (intro loadedI [where f = ?f and n = "dx_n (sw_dxe w)"]) simp_all
  ultimately show ?thesis by blast
qed

lemma mwrite_mread_parts:
  assumes "k + j \<le> 2 ^ 32"
  shows "mwrite (mwrite m a (mread f b k)) (a + of_nat k) (mread f (b + of_nat k) j) = mwrite m a (mread f b (k + j))"
  using mwrite_append [of "mread f b k" "mread f (b + of_nat k) j" m a] assms by (simp add: mread_append)

text \<open>A chunk operation that transfers its chunk makes the whole copy transfer all bytes.\<close>

definition chunk_transfers :: "chunk_op \<Rightarrow> sblw \<Rightarrow> u32 \<Rightarrow> u32 \<Rightarrow> nat \<Rightarrow> bool" where
  "chunk_transfers chunk w0 nvm data bytes \<longleftrightarrow>
     (\<forall>don n w m. loaded w0 m w \<longrightarrow> don mod 4 = 0 \<longrightarrow> 0 < n \<longrightarrow> don + n \<le> bytes \<longrightarrow>
        (\<exists>w'. chunk don n w = Some (BL_ERR_NONE, w') \<and>
           loaded w0 (mwrite m (data + of_nat don) (mread (fl_mem (sw_flash w0)) (nvm + of_nat don) n)) w'))"

lemma chunk_transfersD:
  assumes "chunk_transfers chunk w0 nvm data bytes" and "loaded w0 m w" and "don mod 4 = 0" and "0 < n" and "don + n \<le> bytes"
  shows "\<exists>w'. chunk don n w = Some (BL_ERR_NONE, w') \<and>
    loaded w0 (mwrite m (data + of_nat don) (mread (fl_mem (sw_flash w0)) (nvm + of_nat don) n)) w'"
  using assms(1) [unfolded chunk_transfers_def, rule_format, OF assms(2-5)] .

lemma chunk_loop_loads:
  assumes "chunk_transfers chunk w0 nvm data bytes" and "bytes < 2 ^ 32"
    and "loaded w0 (mwrite m data (mread (fl_mem (sw_flash w0)) nvm don)) w" and "don mod 4 = 0" and "don < bytes"
  shows "\<exists>don' w'. chunk_loop chunk bytes don w = Some ((BL_ERR_NONE, don'), w') \<and> don' mod 4 = 0 \<and> don' < bytes \<and>
    loaded w0 (mwrite m data (mread (fl_mem (sw_flash w0)) nvm don')) w'"
  using assms(3-5)
proof (induction "bytes - don" arbitrary: don w rule: less_induct)
  case less
  let ?F = "fl_mem (sw_flash w0)"
  show ?case
  proof (cases "2048 < bytes - don")
    case False
    then show ?thesis using less.prems by (subst chunk_loop.simps) auto
  next
    case True
    obtain w' where c: "chunk don 2048 w = Some (BL_ERR_NONE, w')"
      and l: "loaded w0 (mwrite (mwrite m data (mread ?F nvm don)) (data + of_nat don) (mread ?F (nvm + of_nat don) 2048)) w'"
      using chunk_transfersD [OF assms(1) less.prems(1,2), of 2048] True by fastforce
    have "don + 2048 \<le> 2 ^ 32" using True assms(2) by simp
    then have "loaded w0 (mwrite m data (mread ?F nvm (don + 2048))) w'"
      using l by (simp only: mwrite_mread_parts)
    moreover have "bytes - (don + 2048) < bytes - don" "don + 2048 < bytes" using True by linarith+
    moreover have "(don + 2048) mod 4 = 0" using less.prems(2) by presburger
    ultimately show ?thesis
      using less.hyps [of "don + 2048" w'] True c by (subst chunk_loop.simps) auto
  qed
qed

lemma chunk_copy_loads:
  assumes "chunk_transfers chunk w nvm data bytes" and "bytes < 2 ^ 32" and "0 < bytes"
  shows "\<exists>w'. chunk_copy chunk bytes w = Some (BL_ERR_NONE, w') \<and>
    loaded w (mwrite (sw_mem w) data (mread (fl_mem (sw_flash w)) nvm bytes)) w'"
proof -
  let ?F = "fl_mem (sw_flash w)" and ?m = "sw_mem w"
  have "loaded w (mwrite ?m data (mread ?F nvm 0)) w" using loaded_refl by (simp add: mread_def)
  then have "\<exists>don w'. (if 2048 < bytes then chunk_loop chunk bytes 0 w else Some ((BL_ERR_NONE, 0), w)) =
      Some ((BL_ERR_NONE, don), w') \<and> don mod 4 = 0 \<and> don < bytes \<and> loaded w (mwrite ?m data (mread ?F nvm don)) w'"
    using chunk_loop_loads [OF assms(1,2), of ?m 0 w] assms(3) by auto
  then obtain don w1 where r: "(if 2048 < bytes then chunk_loop chunk bytes 0 w else Some ((BL_ERR_NONE, 0), w)) =
      Some ((BL_ERR_NONE, don), w1)" "don mod 4 = 0" "don < bytes" "loaded w (mwrite ?m data (mread ?F nvm don)) w1"
    by (elim exE conjE) (rule that)
  obtain w' where c: "chunk don (bytes - don) w1 = Some (BL_ERR_NONE, w')"
    and l: "loaded w (mwrite (mwrite ?m data (mread ?F nvm don)) (data + of_nat don) (mread ?F (nvm + of_nat don) (bytes - don))) w'"
    using chunk_transfersD [OF assms(1) r(4,2), of "bytes - don"] r(3) by fastforce
  have "loaded w (mwrite ?m data (mread ?F nvm bytes)) w'"
    using l mwrite_mread_parts [of don "bytes - don" ?m data ?F nvm] r(3) assms(2) by simp
  then show ?thesis using r(1,3) c by (simp add: chunk_copy_def)
qed

lemma fits_part:
  assumes "flash_fits nvm bytes f" and "0 < n" and "don + n \<le> bytes"
  shows "flash_fits (nvm + of_nat don) n f"
proof -
  have lt: "unat nvm + bytes < 2 ^ 32" using assms(1) unat_u32_bound [of "flash_limit f"] unfolding flash_fits_def by linarith
  then have "unat (of_nat don :: u32) = don" using assms(3) by (intro unat_of_nat_u32) linarith
  then have "unat (nvm + of_nat don) = unat nvm + don" using lt assms(3) by (simp add: unat_word_ariths)
  then show ?thesis using assms unfolding flash_fits_def by linarith
qed

lemma flash_ram_transfers:
  assumes "world_ok w0" and "flash_fits nvm bytes (sw_flash w0)"
  shows "chunk_transfers (flash_ram_chunk nvm data) w0 nvm data bytes"
  unfolding chunk_transfers_def
proof (intro allI impI)
  fix don n w m
  assume l: "loaded w0 m w" and n: "0 < n" "don + n \<le> bytes"
  have "flash_fits (nvm + of_nat don) n (sw_flash w)" using fits_part [OF assms(2) n] loaded_fits [OF l] by simp
  from flash_read_loads [OF loaded_ok [OF l assms(1)] this] obtain w1 where
    r: "boot_sbl_flash_read (nvm + of_nat don) (of_nat n) w = ((FLASH_DEVICE_DONE, mread (fl_mem (sw_flash w)) (nvm + of_nat don) n), w1)"
    and l1: "loaded w (sw_mem w) w1" by (elim exE conjE) (rule that)
  have "loaded w0 m w1" using loaded_trans [OF l l1] loaded_mem [OF l] by simp
  from loaded_put [OF this]
  show "\<exists>w'. flash_ram_chunk nvm data don n w = Some (BL_ERR_NONE, w') \<and>
      loaded w0 (mwrite m (data + of_nat don) (mread (fl_mem (sw_flash w0)) (nvm + of_nat don) n)) w'"
    using r loaded_mem [OF l] by (simp add: flash_ram_chunk_def)
qed

text \<open>Where a copy to RRAM may go.\<close>

definition rram_place :: "u32 \<Rightarrow> nat \<Rightarrow> bool" where
  "rram_place a n \<longleftrightarrow> 0x200000 \<le> unat a \<and> unat a mod 4 = 0 \<and> unat a + n \<le> 0x380000"

lemma rram_place_part:
  assumes "rram_place a bytes" and "0 < n" and "don + n \<le> bytes" and "don mod 4 = 0"
  shows "rram_verify_address (a + of_nat don) (of_nat n) = BL_ERR_NONE"
proof -
  have lt: "unat a + bytes \<le> 0x380000" using assms(1) by (simp add: rram_place_def)
  have u: "unat (of_nat don :: u32) = don" "unat (of_nat n :: u32) = n"
    using lt assms(3) by (simp_all add: unat_of_nat_u32)
  then have "unat (a + of_nat don) = unat a + don" using lt assms(3) by (simp add: unat_word_ariths)
  moreover have "(unat a + don) mod 4 = 0" using assms(1,4) unfolding rram_place_def by presburger
  ultimately show ?thesis using assms u by (auto simp: verify_address_ok rram_place_def)
qed

lemma flash_rram_transfers:
  assumes "world_ok w0" and "flash_fits nvm bytes (sw_flash w0)" and "rram_place data bytes"
  shows "chunk_transfers (flash_rram_chunk nvm data) w0 nvm data bytes"
  unfolding chunk_transfers_def
proof (intro allI impI)
  fix don n w m
  assume l: "loaded w0 m w" and n: "0 < n" "don + n \<le> bytes" and d4: "don mod 4 = 0"
  let ?bs = "mread (fl_mem (sw_flash w0)) (nvm + of_nat don) n"
  have "flash_fits (nvm + of_nat don) n (sw_flash w)" using fits_part [OF assms(2) n] loaded_fits [OF l] by simp
  from flash_read_loads [OF loaded_ok [OF l assms(1)] this] obtain w1 where
    r: "boot_sbl_flash_read (nvm + of_nat don) (of_nat n) w = ((FLASH_DEVICE_DONE, mread (fl_mem (sw_flash w)) (nvm + of_nat don) n), w1)"
    and l1: "loaded w (sw_mem w) w1" by (elim exE conjE) (rule that)
  have l01: "loaded w0 m w1" using loaded_trans [OF l l1] loaded_mem [OF l] by simp
  have ok: "dxe_ok (sw_dxe w1)" using loaded_ok [OF l01 assms(1)] by (simp add: world_ok_def)
  have n32: "unat (of_nat n :: u32) = n" "n \<le> 2 ^ 32"
    using assms(3) n by (simp_all add: rram_place_def unat_of_nat_u32)
  from rram_write_dxe_stores [OF ok rram_place_part [OF assms(3) n d4], of ?bs] n32 loaded_mem [OF l01]
  obtain k where wr: "rram_write_dxe (data + of_nat don) (Buf ?bs) (of_nat n) (sw_dxe w1) =
      Some (BL_ERR_NONE, (sw_dxe w1)\<lparr>dx_mem := mwrite m (data + of_nat don) ?bs, dx_n := k\<rparr>)"
    by (auto simp: dxe_stores_def)
  from loaded_dxe [OF l01]
  show "\<exists>w'. flash_rram_chunk nvm data don n w = Some (BL_ERR_NONE, w') \<and> loaded w0 (mwrite m (data + of_nat don) ?bs) w'"
    using r wr loaded_mem [OF l] by (simp add: flash_rram_chunk_def boot_sbl_rram_write_def)
qed

section \<open>Loading segments\<close>

text \<open>Where a segment goes in memory: RAM or RRAM, up to the last byte the region checks accept.\<close>

definition in_ram :: "u32 \<Rightarrow> nat \<Rightarrow> bool" where
  "in_ram v n \<longleftrightarrow> unat v + n \<le> 0x9FFFF"

definition in_rram :: "u32 \<Rightarrow> nat \<Rightarrow> bool" where
  "in_rram v n \<longleftrightarrow> 0x200000 \<le> unat v \<and> unat v mod 4 = 0 \<and> unat v + n \<le> 0x37FFFF"

text \<open>Bytes addressed through the flash window.\<close>

definition in_window :: "u32 \<Rightarrow> nat \<Rightarrow> sblw \<Rightarrow> bool" where
  "in_window a n w \<longleftrightarrow> 0xA00000 \<le> unat a \<and> unat a + n \<le> 0xE00000 \<and> flash_fits (a - APP_IMAGE_FLASH_ADDRESS) n (sw_flash w)"

lemma unat_add_small: "unat (a :: u32) + n < 2 ^ 32 \<Longrightarrow> unat (a + of_nat n) = unat a + n"
  by (simp add: unat_word_ariths unat_of_nat_u32)

lemma read_dispatch:
  assumes "in_window a n w" and "in_ram v n \<or> in_rram v n"
  shows "boot_elf_mem_read a v (of_nat n) elf_mem_op w =
    (if in_ram v n then bl_elf_flash_read_to_ram a v (of_nat n) w else bl_elf_flash_read_to_rram_dxe a v (of_nat n) w)"
proof -
  have a: "unat (a + of_nat n) = unat a + n" using assms(1) by (intro unat_add_small) (simp add: in_window_def)
  have v: "unat (v + of_nat n) = unat v + n" using assms(2) by (intro unat_add_small) (auto simp: in_ram_def in_rram_def)
  show ?thesis
    using assms a v unfolding boot_elf_mem_read_def elf_mem_op_def BL_ELF_MEM_READ_REGION_CHECK_def op_read_def
    by (auto simp: word_le_nat_alt in_window_def in_ram_def in_rram_def)
qed

lemma mem_read_loads:
  assumes "world_ok w" and "in_window a n w" and "in_ram v n \<or> in_rram v n" and "0 < n"
  shows "\<exists>w'. boot_elf_mem_read a v (of_nat n) elf_mem_op w = Some (BL_ERR_NONE, w') \<and>
    loaded w (mwrite (sw_mem w) v (mread (fl_mem (sw_flash w)) (a - APP_IMAGE_FLASH_ADDRESS) n)) w'"
proof -
  have f: "flash_fits (a - APP_IMAGE_FLASH_ADDRESS) n (sw_flash w)" using assms(2) by (simp add: in_window_def)
  have n: "n < 2 ^ 32" "unat (of_nat n :: u32) = n"
    using assms(2) by (simp_all add: in_window_def unat_of_nat_u32)
  show ?thesis
  proof (cases "in_ram v n")
    case True
    then show ?thesis
      using chunk_copy_loads [OF flash_ram_transfers [OF assms(1) f] n(1) assms(4), of v]
      by (simp add: read_dispatch [OF assms(2,3)] bl_elf_flash_read_to_ram_def n)
  next
    case False
    then have "rram_place v n" using assms(3) by (simp add: in_rram_def rram_place_def)
    from chunk_copy_loads [OF flash_rram_transfers [OF assms(1) f this] n(1) assms(4)] show ?thesis
      using False by (simp add: read_dispatch [OF assms(2,3)] bl_elf_flash_read_to_rram_dxe_def n)
  qed
qed

lemma mem_set_loads:
  assumes "world_ok w" and "in_ram v n \<or> in_rram v n" and "0 < n"
  shows "\<exists>w'. boot_elf_mem_set v 0 (of_nat n) elf_mem_op w = Some (BL_ERR_NONE, w') \<and>
    loaded w (mwrite (sw_mem w) v (replicate n 0)) w'"
proof -
  have n: "unat (of_nat n :: u32) = n" using assms(2) by (intro unat_of_nat_u32) (auto simp: in_ram_def in_rram_def)
  have v: "unat (v + of_nat n) = unat v + n" using assms(2) by (intro unat_add_small) (auto simp: in_ram_def in_rram_def)
  have disp: "boot_elf_mem_set v 0 (of_nat n) elf_mem_op w =
      (if in_ram v n then bl_elf_rram_set_ram v 0 (of_nat n) w else bl_elf_rram_set_rram_dxe v 0 (of_nat n) w)"
    using assms(2) v unfolding boot_elf_mem_set_def elf_mem_op_def BL_ELF_MEM_SET_REGION_CHECK_def op_set_def
    by (auto simp: word_le_nat_alt in_ram_def in_rram_def)
  show ?thesis
  proof (cases "in_ram v n")
    case True
    then show ?thesis using loaded_put [OF loaded_refl, of w v "replicate n 0"] by (simp add: disp bl_elf_rram_set_ram_def n)
  next
    case False
    then have "rram_verify_address v (of_nat n) = BL_ERR_NONE"
      using assms(2) by (auto simp: verify_address_ok in_rram_def n)
    from rram_memset_dxe_stores [OF _ this, of "sw_dxe w" 0] assms(1)
    obtain k where "rram_memset_dxe v 0 (of_nat n) (sw_dxe w) =
        Some (BL_ERR_NONE, (sw_dxe w)\<lparr>dx_mem := mwrite (sw_mem w) v (replicate n 0), dx_n := k\<rparr>)"
      by (auto simp: dxe_stores_def world_ok_def n)
    then show ?thesis
      using False loaded_dxe [OF loaded_refl, of w "mwrite (sw_mem w) v (replicate n 0)" k]
      by (simp add: disp bl_elf_rram_set_rram_dxe_def)
  qed
qed

text \<open>A segment the loader can place, and the bytes it should occupy.\<close>

definition seg_source :: "u32 \<Rightarrow> boot_elf32_phdr \<Rightarrow> u32" where
  "seg_source elf ph = elf + p_offset ph"

definition seg_ok :: "u32 \<Rightarrow> boot_elf32_phdr \<Rightarrow> sblw \<Rightarrow> bool" where
  "seg_ok elf ph w \<longleftrightarrow> p_filesz ph \<noteq> 0 \<and> p_filesz ph \<le> p_memsz ph \<and> in_window (seg_source elf ph) (unat (p_filesz ph)) w \<and>
     (in_ram (p_vaddr ph) (unat (p_memsz ph)) \<or> in_rram (p_vaddr ph) (unat (p_memsz ph)) \<and> unat (p_filesz ph) mod 4 = 0)"

definition seg_bytes :: "mem \<Rightarrow> u32 \<Rightarrow> boot_elf32_phdr \<Rightarrow> u8 list" where
  "seg_bytes F elf ph =
     mread F (seg_source elf ph - APP_IMAGE_FLASH_ADDRESS) (unat (p_filesz ph)) @
     replicate (unat (p_memsz ph) - unat (p_filesz ph)) 0"

lemma length_seg_bytes: "p_filesz ph \<le> p_memsz ph \<Longrightarrow> length (seg_bytes F elf ph) = unat (p_memsz ph)"
  by (simp add: seg_bytes_def word_le_nat_alt)

lemma seg_ok_loaded: "loaded w m w' \<Longrightarrow> seg_ok elf ph w' = seg_ok elf ph w"
  by (simp add: seg_ok_def in_window_def loaded_fits)

lemma segment_loads:
  assumes "world_ok w" and "elf_addr l = Some elf" and "mem_ops l = elf_mem_op" and "idx < phr_num l"
    and "prog_hdrs l ! unat idx = ph" and ok: "seg_ok elf ph w"
  shows "\<exists>w'. boot_elf_load_generic_segment (Some l) idx 0 (p_vaddr ph) (p_memsz ph) w = Some (BL_ERR_NONE, w') \<and>
    loaded w (mwrite (sw_mem w) (p_vaddr ph) (seg_bytes (fl_mem (sw_flash w)) elf ph)) w'"
proof -
  let ?v = "p_vaddr ph" and ?fs = "unat (p_filesz ph)" and ?ms = "unat (p_memsz ph)"
  let ?file = "mread (fl_mem (sw_flash w)) (seg_source elf ph - APP_IMAGE_FLASH_ADDRESS) ?fs"
  have fs: "0 < ?fs" "?fs \<le> ?ms" using ok by (simp_all add: seg_ok_def word_le_nat_alt unat_gt_0)
  have win: "in_window (seg_source elf ph) ?fs w" using ok by (simp add: seg_ok_def)
  have place: "in_ram ?v ?ms \<or> in_rram ?v ?ms \<and> ?fs mod 4 = 0" using ok by (simp add: seg_ok_def)
  then have pf: "in_ram ?v ?fs \<or> in_rram ?v ?fs" using fs by (auto simp: in_ram_def in_rram_def)
  have lt: "unat ?v + ?ms < 2 ^ 32" using place by (auto simp: in_ram_def in_rram_def)
  have rd: "bytes_to_read_of ph 0 (p_memsz ph) = p_filesz ph"
    using fs by (simp add: bytes_to_read_of_def word_le_nat_alt)
  have st: "bytes_to_set_of ph (p_filesz ph) (p_memsz ph) = p_memsz ph - p_filesz ph"
    using fs by (auto simp: bytes_to_set_of_def word_le_nat_alt word_unat_eq_iff unat_diff_u32)
  from mem_read_loads [OF assms(1) win pf fs(1)] obtain w1 where
    r: "boot_elf_mem_read (seg_source elf ph) ?v (p_filesz ph) elf_mem_op w = Some (BL_ERR_NONE, w1)"
    and l1: "loaded w (mwrite (sw_mem w) ?v ?file) w1" by auto
  have run: "boot_elf_load_generic_segment (Some l) idx 0 ?v (p_memsz ph) w =
      (if ?fs < ?ms then boot_elf_mem_set (?v + p_filesz ph) 0 (p_memsz ph - p_filesz ph) elf_mem_op w1
       else Some (BL_ERR_NONE, w1))"
  proof -
    have "?v \<le> ?v + p_filesz ph" using lt fs unat_add_small [of ?v ?fs] by (simp add: word_le_nat_alt)
    moreover have "p_memsz ph \<noteq> 0" "p_filesz ph \<noteq> 0" "p_filesz ph \<le> p_memsz ph"
      using fs by (auto simp: word_le_nat_alt)
    moreover have "p_filesz ph < p_memsz ph \<longleftrightarrow> ?fs < ?ms" by (simp add: word_less_nat_alt)
    moreover have "p_memsz ph - p_filesz ph \<noteq> 0" if "?fs < ?ms" using that by auto
    ultimately show ?thesis
      using assms(2-5) r by (auto simp: boot_elf_load_generic_segment_def Let_def rd st seg_source_def not_le [symmetric])
  qed
  show ?thesis
  proof (cases "?fs < ?ms")
    case False
    then have "seg_bytes (fl_mem (sw_flash w)) elf ph = ?file" using fs by (simp add: seg_bytes_def)
    then show ?thesis using False run l1 by auto
  next
    case True
    have uv: "unat (?v + p_filesz ph) = unat ?v + ?fs" using lt fs unat_add_small [of ?v ?fs] by simp
    have z: "of_nat (?ms - ?fs) = p_memsz ph - p_filesz ph" using fs by simp
    have "(unat ?v + ?fs) mod 4 = 0" if "unat ?v mod 4 = 0" "?fs mod 4 = 0" using that by presburger
    then have "in_ram (?v + p_filesz ph) (?ms - ?fs) \<or> in_rram (?v + p_filesz ph) (?ms - ?fs)"
      using place fs True by (auto simp: in_ram_def in_rram_def uv)
    from mem_set_loads [OF loaded_ok [OF l1 assms(1)] this] True obtain w2 where
      s: "boot_elf_mem_set (?v + p_filesz ph) 0 (p_memsz ph - p_filesz ph) elf_mem_op w1 = Some (BL_ERR_NONE, w2)"
      and l2: "loaded w1 (mwrite (sw_mem w1) (?v + p_filesz ph) (replicate (?ms - ?fs) 0)) w2"
      unfolding z by auto
    have "loaded w (mwrite (mwrite (sw_mem w) ?v ?file) (?v + p_filesz ph) (replicate (?ms - ?fs) 0)) w2"
      using loaded_trans [OF l1 l2] loaded_mem [OF l1] by simp
    moreover have "mwrite (mwrite (sw_mem w) ?v ?file) (?v + p_filesz ph) (replicate (?ms - ?fs) 0) =
        mwrite (sw_mem w) ?v (seg_bytes (fl_mem (sw_flash w)) elf ph)"
      using mwrite_append [of ?file "replicate (?ms - ?fs) 0" "sw_mem w" ?v] fs unat_u32_bound [of "p_memsz ph"]
      by (simp add: seg_bytes_def)
    ultimately show ?thesis using True run s by auto
  qed
qed

text \<open>The memory of a fully loaded image: the segments one after the other.\<close>

definition image_memory :: "mem \<Rightarrow> u32 \<Rightarrow> boot_elf32_phdr list \<Rightarrow> mem \<Rightarrow> mem" where
  "image_memory F elf phs m = fold (\<lambda>ph m. if p_type ph = PT_LOAD then mwrite m (p_vaddr ph) (seg_bytes F elf ph) else m) phs m"

lemma load_segments_loads:
  assumes "world_ok w" and "elf_addr l = Some elf" and "mem_ops l = elf_mem_op"
    and "\<forall>i \<in> set is. of_nat i < phr_num l \<and> unat (of_nat i :: u32) = i"
    and "\<forall>i \<in> set is. p_type (prog_hdrs l ! i) = PT_LOAD \<longrightarrow> seg_ok elf (prog_hdrs l ! i) w"
  shows "\<exists>w'. load_segments l BOOT_ELF_LOAD_FULL is w = Some (BL_ERR_NONE, w') \<and>
    loaded w (image_memory (fl_mem (sw_flash w)) elf (map ((!) (prog_hdrs l)) is) (sw_mem w)) w'"
  using assms
proof (induction "is" arbitrary: w)
  case Nil
  then show ?case using loaded_refl by (simp add: image_memory_def)
next
  case (Cons i "is")
  let ?ph = "prog_hdrs l ! i" and ?F = "fl_mem (sw_flash w)"
  let ?m1 = "if p_type ?ph = PT_LOAD then mwrite (sw_mem w) (p_vaddr ?ph) (seg_bytes ?F elf ?ph) else sw_mem w"
  obtain w1 where s: "load_one l BOOT_ELF_LOAD_FULL i w = Some (BL_ERR_NONE, w1)" and l1: "loaded w ?m1 w1"
  proof (cases "p_type ?ph = PT_LOAD")
    case True
    have "of_nat i < phr_num l" "prog_hdrs l ! unat (of_nat i :: u32) = ?ph" "seg_ok elf ?ph w"
      using Cons.prems(4,5) True by simp_all
    from segment_loads [OF Cons.prems(1-3) this] True that show ?thesis by (auto simp: load_one_def)
  next
    case False
    then show ?thesis using that loaded_refl by (simp add: load_one_def)
  qed
  have "\<forall>j \<in> set is. p_type (prog_hdrs l ! j) = PT_LOAD \<longrightarrow> seg_ok elf (prog_hdrs l ! j) w1"
    using Cons.prems(5) seg_ok_loaded [OF l1] by simp
  from Cons.IH [OF loaded_ok [OF l1 Cons.prems(1)] Cons.prems(2,3) _ this] Cons.prems(4) obtain w2 where
    "load_segments l BOOT_ELF_LOAD_FULL is w1 = Some (BL_ERR_NONE, w2)"
    and "loaded w1 (image_memory (fl_mem (sw_flash w1)) elf (map ((!) (prog_hdrs l)) is) (sw_mem w1)) w2" by auto
  moreover from this(2) have "loaded w (image_memory ?F elf (map ((!) (prog_hdrs l)) is) ?m1) w2"
    using loaded_trans [OF l1] loaded_mem [OF l1] by simp
  ultimately show ?case using s by (auto simp: image_memory_def)
qed

section \<open>The copy from RRAM to RAM\<close>

lemma mread_mwrite_apart:
  assumes "unat b + length bs \<le> unat a" and "unat a + n < 2 ^ 32"
  shows "mread (mwrite m b bs) a n = mread m a n"
proof (rule mread_cong)
  fix i assume "i < n"
  then have "unat (a + of_nat i) = unat a + i" using assms(2) by (intro unat_add_small) simp
  then have "\<not> in_range b (length bs) (a + of_nat i)" using assms(1) by (simp add: in_range_def unat_diff_u32)
  then show "mwrite m b bs (a + of_nat i) = m (a + of_nat i)" by (rule mwrite_out)
qed

text \<open>A read the range check grants.\<close>

lemma rram_read_granted:
  assumes "0 < n" and "unat (sw_rram_start w) \<le> unat a" and "unat a + n \<le> unat (sw_rram_end w)"
  shows "nt_bl_rram_read a d (of_nat n) w = (True, put_mem d (mread (sw_mem w) a n) w)"
proof -
  have lt: "unat a + n < 2 ^ 32" using assms(3) unat_u32_bound [of "sw_rram_end w"] by linarith
  have u: "unat (of_nat n :: u32) = n" using lt by (intro unat_of_nat_u32) simp
  have z: "(of_nat n :: u32) \<noteq> 0" using u assms(1) by (metis less_irrefl unat_0)
  have "rram_or_otp a w" "rram_or_otp (a + of_nat n) w"
    using assms unat_add_small [OF lt] by (auto simp: rram_or_otp_def word_le_nat_alt)
  then show ?thesis using z by (simp add: nt_bl_rram_read_def u)
qed

definition rram_to_ram_ok :: "u32 \<Rightarrow> u32 \<Rightarrow> nat \<Rightarrow> sblw \<Rightarrow> bool" where
  "rram_to_ram_ok a d n w \<longleftrightarrow> unat (sw_rram_start w) \<le> unat a \<and> unat a + n \<le> unat (sw_rram_end w) \<and> unat d + n \<le> unat a"

lemma rram_ram_loop_copies:
  assumes "rram_to_ram_ok a d (n + 2048) w" and "don \<le> n" and "don mod 2048 = 0"
  shows "rram_ram_loop a d n don (put_mem d (mread (sw_mem w) a don) w) =
    ((BL_ERR_NONE, n + (2048 - n mod 2048)), put_mem d (mread (sw_mem w) a (n + (2048 - n mod 2048))) w)"
  using assms(2,3)
proof (induction "n - don" arbitrary: don rule: less_induct)
  case less
  let ?m = "sw_mem w" and ?w = "put_mem d (mread (sw_mem w) a don) w"
  have lim: "unat (sw_rram_start w) \<le> unat a" "unat a + (n + 2048) \<le> unat (sw_rram_end w)" "unat d + (n + 2048) \<le> unat a"
    using assms(1) by (simp_all add: rram_to_ram_ok_def)
  have lt: "unat a + (n + 2048) < 2 ^ 32" using lim(2) unat_u32_bound [of "sw_rram_end w"] by linarith
  have ua: "unat (a + of_nat don) = unat a + don" using lt less.prems by (intro unat_add_small) simp
  have regions: "sw_rram_start ?w = sw_rram_start w" "sw_rram_end ?w = sw_rram_end w" by (simp_all add: put_mem_def)
  have mem: "sw_mem ?w = mwrite ?m d (mread ?m a don)" by (simp add: put_mem_def)
  have "nt_bl_rram_read (a + of_nat don) (d + of_nat don) (of_nat 2048) ?w =
      (True, put_mem (d + of_nat don) (mread (sw_mem ?w) (a + of_nat don) 2048) ?w)"
    by (rule rram_read_granted) (use lim less.prems in \<open>simp_all add: regions ua\<close>)
  also have "mread (sw_mem ?w) (a + of_nat don) 2048 = mread ?m (a + of_nat don) 2048"
    unfolding mem by (rule mread_mwrite_apart) (use lim lt less.prems in \<open>simp_all add: ua\<close>)
  also have "put_mem (d + of_nat don) (mread ?m (a + of_nat don) 2048) ?w = put_mem d (mread ?m a (don + 2048)) w"
    using mwrite_mread_parts [of don 2048 ?m d ?m a] lt less.prems by (simp add: put_mem_def)
  finally have step: "rram_ram_loop a d n don ?w = rram_ram_loop a d n (don + 2048) (put_mem d (mread ?m a (don + 2048)) w)"
    using less.prems by (subst rram_ram_loop.simps) simp
  show ?case
  proof (cases "don + 2048 \<le> n")
    case True
    then have "n - (don + 2048) < n - don" by linarith
    from less.hyps [OF this True] less.prems show ?thesis unfolding step by simp
  next
    case False
    obtain q where q: "don = 2048 * q" using less.prems(2) by (auto simp: mod_eq_0_iff_dvd)
    have "n mod 2048 = (n - don) mod 2048" using less.prems(1) unfolding q by (metis le_add_diff_inverse2 mod_mult_self2)
    then have "n + (2048 - n mod 2048) = don + 2048" using False less.prems(1) by simp
    then show ?thesis unfolding step using False by (simp add: rram_ram_loop.simps)
  qed
qed

lemma mwrite_same_part:
  assumes "k + j \<le> n" and "n \<le> 2 ^ 32"
  shows "mwrite (mwrite m d (mread f a n)) (d + of_nat k) (mread f (a + of_nat k) j) = mwrite m d (mread f a n)"
proof
  fix x
  let ?m = "mwrite m d (mread f a n)"
  show "mwrite ?m (d + of_nat k) (mread f (a + of_nat k) j) x = ?m x"
  proof (cases "in_range (d + of_nat k) j x")
    case False
    then show ?thesis by (simp add: mwrite_out)
  next
    case True
    define i where "i = unat (x - (d + of_nat k))"
    have i: "i < j" using True by (simp add: i_def in_range_def)
    have x: "x = d + of_nat k + of_nat i" by (simp add: i_def)
    then have x': "x = d + of_nat (k + i)" by (simp add: add.assoc)
    have "mwrite ?m (d + of_nat k) (mread f (a + of_nat k) j) x = f (a + of_nat (k + i))"
      unfolding x mwrite_def using i assms by (subst mcombine_at) (simp_all add: add.assoc)
    moreover have "?m x = f (a + of_nat (k + i))"
      unfolding x' mwrite_def using i assms by (subst mcombine_at) simp_all
    ultimately show ?thesis by simp
  qed
qed

section \<open>Properties\<close>

definition demo_world :: "mem \<Rightarrow> mem \<Rightarrow> sblw" where
  "demo_world F m = \<lparr>sw_flash = demo_flash F, sw_dxe = demo_dxe m, sw_rram_start = 0x200000, sw_rram_end = 0x37FFFF,
     sw_otp_start = 0x1A0000, sw_otp_end = 0x1A0FFF\<rparr>"

definition demo_phdr :: boot_elf32_phdr where
  "demo_phdr = \<lparr>p_type = PT_LOAD, p_offset = 0x1000, p_vaddr = 0x4000, p_paddr = 0x4000, p_filesz = 4, p_memsz = 8,
     p_flags = 7, p_align = 4\<rparr>"

definition demo_loader :: boot_elf_loader where
  "demo_loader = \<lparr>elf_addr = Some 0xA00000, elf_hdr = dec_ehdr (replicate 52 0), prog_hdrs = [demo_phdr], phr_num = 1,
     mem_ops = elf_mem_op\<rparr>"

lemma demo_world_ok: "world_ok (demo_world F m)"
  by (simp add: world_ok_def demo_world_def demo_flash_ready)

lemma demo_seg_ok: "seg_ok 0xA00000 demo_phdr (demo_world F m)"
  by (simp add: seg_ok_def demo_phdr_def in_window_def in_ram_def seg_source_def flash_fits_def demo_world_def demo_flash_def
    demo_cfg_def)

text \<open>
  C31: A full load of an image whose loadable segments have file bytes inside the flash window and fit into
  RAM or RRAM returns without error and leaves the memory of the reference loader: each segment's file
  bytes at its address, zeros up to its memory size, the segments in order, nothing else changed, and flash
  untouched.
\<close>

theorem image_load_exact:
  assumes "world_ok w" and "elf_addr l = Some elf" and "mem_ops l = elf_mem_op"
    and "\<forall>i < unat (phr_num l). p_type (prog_hdrs l ! i) = PT_LOAD \<longrightarrow> seg_ok elf (prog_hdrs l ! i) w"
  shows "\<exists>w'. boot_elf_load_image (Some l) BOOT_ELF_LOAD_FULL w = Some (BL_ERR_NONE, w') \<and>
    sw_mem w' = image_memory (fl_mem (sw_flash w)) elf (map ((!) (prog_hdrs l)) [0 ..< unat (phr_num l)]) (sw_mem w) \<and>
    fl_mem (sw_flash w') = fl_mem (sw_flash w)"
proof -
  have "of_nat i < phr_num l \<and> unat (of_nat i :: u32) = i" if "i < unat (phr_num l)" for i
  proof -
    have "unat (of_nat i :: u32) = i" using that unat_u32_bound [of "phr_num l"] by (intro unat_of_nat_u32) simp
    then show ?thesis using that by (simp add: word_less_nat_alt)
  qed
  then have "\<forall>i \<in> set [0 ..< unat (phr_num l)]. of_nat i < phr_num l \<and> unat (of_nat i :: u32) = i" by simp
  from load_segments_loads [OF assms(1-3) this] assms(2,4) show ?thesis
    by (auto simp: boot_elf_load_image_def dest: loaded_mem)
qed

theorem image_load_exact_witness:
  "\<exists>w'. boot_elf_load_image (Some demo_loader) BOOT_ELF_LOAD_FULL (demo_world (\<lambda>_. 5) (\<lambda>_. 9)) = Some (BL_ERR_NONE, w') \<and>
     mread (sw_mem w') 0x4000 8 = [5, 5, 5, 5, 0, 0, 0, 0]"
proof -
  let ?w = "demo_world (\<lambda>_. 5) (\<lambda>_. 9)"
  have "prog_hdrs demo_loader ! 0 = demo_phdr" by (simp add: demo_loader_def)
  moreover have "elf_addr demo_loader = Some 0xA00000" "mem_ops demo_loader = elf_mem_op" "unat (phr_num demo_loader) = 1"
    by (simp_all add: demo_loader_def)
  ultimately obtain w' where "boot_elf_load_image (Some demo_loader) BOOT_ELF_LOAD_FULL ?w = Some (BL_ERR_NONE, w')"
    and "sw_mem w' = image_memory (fl_mem (sw_flash ?w)) 0xA00000 [demo_phdr] (sw_mem ?w)"
    using image_load_exact [of ?w demo_loader "0xA00000"] demo_world_ok demo_seg_ok by auto
  moreover have "seg_bytes (\<lambda>_. 5) 0xA00000 demo_phdr = [5, 5, 5, 5, 0, 0, 0, 0]" by code_simp
  moreover have "mread (mwrite (\<lambda>_. 9) 0x4000 [5, 5, 5, 5, 0, 0, 0, 0]) 0x4000 8 = [5, 5, 5, 5, 0, 0, 0, 0]" by code_simp
  ultimately show ?thesis by (auto simp: image_memory_def demo_phdr_def demo_world_def)
qed

text \<open>
  C32: What the copy from RRAM to RAM does with a request whose source, with a buffer size of room behind it, lies
  in the RRAM and whose destination lies below it. It always reports success. A request of at most the buffer
  size of 2048 bytes is copied exactly. For a larger one the loop copies whole buffers until it is past the end:
  besides the requested bytes, the \<open>2048 - bytes mod 2048\<close> bytes behind the destination (a whole buffer when
  the request is a multiple of the buffer size) are overwritten with the source bytes behind the request.
\<close>

theorem rram_to_ram_overruns:
  assumes "rram_to_ram_ok address data (unat bytes + 2048) w"
  shows "bl_elf_rram_read_to_ram address data bytes w =
    Some (BL_ERR_NONE, put_mem data (mread (sw_mem w) address
      (if unat bytes \<le> 2048 then unat bytes else unat bytes + (2048 - unat bytes mod 2048))) w)"
proof -
  let ?n = "unat bytes" and ?m = "sw_mem w"
  have lim: "unat (sw_rram_start w) \<le> unat address" "unat address + (?n + 2048) \<le> unat (sw_rram_end w)"
    "unat data + (?n + 2048) \<le> unat address" using assms by (simp_all add: rram_to_ram_ok_def)
  have lt: "unat address + (?n + 2048) < 2 ^ 32" using lim(2) unat_u32_bound [of "sw_rram_end w"] by linarith
  have w0: "put_mem data (mread ?m address 0) w = w" by (simp add: put_mem_def mread_def)
  show ?thesis
  proof (cases "?n \<le> 2048")
    case True
    have "nt_bl_rram_read address data (of_nat ?n) w = (True, put_mem data (mread ?m address ?n) w)" if "0 < ?n"
      by (rule rram_read_granted) (use that lim in simp_all)
    then show ?thesis using True w0 by (cases "?n = 0") (simp_all add: bl_elf_rram_read_to_ram_def)
  next
    case False
    define r k don where "r = ?n mod 2048" and "k = ?n - r" and "don = ?n + (2048 - r)"
    let ?w1 = "put_mem data (mread ?m address don) w"
    have r: "r < 2048" "r \<le> ?n" by (simp_all add: r_def)
    then have k: "don - 2048 = k" "2048 - (don - ?n) = r" "k + r \<le> don" "k + r = ?n" "don \<le> ?n + 2048"
      by (simp_all add: k_def don_def)
    have ua: "unat (address + of_nat k) = unat address + k" using lt k(4) by (intro unat_add_small) simp
    have run: "rram_ram_loop address data ?n 0 w = ((BL_ERR_NONE, don), ?w1)"
      using rram_ram_loop_copies [OF assms, of 0] unfolding w0 don_def r_def by simp
    have mem: "sw_mem ?w1 = mwrite ?m data (mread ?m address don)" by (simp add: put_mem_def)
    have same: "mread (sw_mem ?w1) (address + of_nat k) r = mread ?m (address + of_nat k) r"
      unfolding mem by (rule mread_mwrite_apart) (use lim lt k in \<open>simp_all add: ua\<close>)
    have "put_mem (data + of_nat k) (mread ?m (address + of_nat k) r) ?w1 = ?w1"
      using mwrite_same_part [of k r don ?m data ?m address] lt k by (simp add: put_mem_def)
    moreover have "nt_bl_rram_read (address + of_nat k) (data + of_nat k) (of_nat r) ?w1 =
        (True, put_mem (data + of_nat k) (mread (sw_mem ?w1) (address + of_nat k) r) ?w1)" if "0 < r"
      by (rule rram_read_granted) (use that lim ua k in \<open>simp_all add: put_mem_def\<close>)
    ultimately have "nt_bl_rram_read (address + of_nat k) (data + of_nat k) (of_nat r) ?w1 = (True, ?w1)" if "0 < r"
      using that unfolding same by simp
    then show ?thesis
      using False run unfolding bl_elf_rram_read_to_ram_def r_def [symmetric] don_def [symmetric] by (simp add: k)
  qed
qed

theorem rram_to_ram_overruns_witness:
  "\<exists>w. bl_elf_rram_read_to_ram 0x210000 0x4000 3000 (demo_world (\<lambda>_. 0) (\<lambda>x. if x = 0x210BB8 then 1 else 0)) = Some (BL_ERR_NONE, w) \<and>
     sw_mem w = mwrite (\<lambda>x. if x = 0x210BB8 then 1 else 0) 0x4000 (mread (\<lambda>x. if x = 0x210BB8 then 1 else 0) 0x210000 4096)"
  using rram_to_ram_overruns [of "0x210000" "0x4000" 3000 "demo_world (\<lambda>_. 0) (\<lambda>x. if x = 0x210BB8 then 1 else 0)"]
  by (simp add: rram_to_ram_ok_def demo_world_def put_mem_def)

text \<open>
  A request that lies in no region is reported as success and transfers nothing: among them every
  read of a segment that ends with the last byte of RAM, because the region table gives the last address
  where the check expects the first address behind the region.
\<close>

theorem segment_at_ram_end_skipped:
  assumes "unat v + unat n = 0xA0000" and "0xA00000 \<le> unat a" and "unat a + unat n < 2 ^ 32"
  shows "boot_elf_mem_read a v n elf_mem_op w = Some (BL_ERR_NONE, w)"
proof -
  have "unat (v + n) = unat v + unat n" "unat (a + n) = unat a + unat n"
    using unat_add_small [of v "unat n"] unat_add_small [of a "unat n"] assms by simp_all
  moreover have "unat v \<le> 0xA0000" using assms(1) by linarith
  ultimately have "\<not> BL_ELF_MEM_READ_REGION_CHECK a v n op" if "op \<in> set elf_mem_op" for op
    using that assms by (auto simp: elf_mem_op_def BL_ELF_MEM_READ_REGION_CHECK_def word_le_nat_alt)
  then have "find (BL_ELF_MEM_READ_REGION_CHECK a v n) elf_mem_op = None" by (auto simp: find_None_iff)
  then show ?thesis by (simp add: boot_elf_mem_read_def elf_mem_op_def)
qed

theorem segment_at_ram_end_skipped_witness:
  "\<forall>w. boot_elf_mem_read 0xA01000 0x9F000 0x1000 elf_mem_op w = Some (BL_ERR_NONE, w)"
  using segment_at_ram_end_skipped [of "0x9F000" "0x1000" "0xA01000"] by simp

text \<open>
  The bytes of an ELF header the loader is meant to accept: the ELF magic, the 32-bit class, the sizes of its two
  structures, and at most as many program headers as the loader structure holds.
\<close>

definition elf_header_ok :: "u8 list \<Rightarrow> bool" where
  "elf_header_ok bs \<longleftrightarrow> take 5 bs = [0x7F, 0x45, 0x4C, 0x46, 1] \<and> get16 bs 40 = 52 \<and> get16 bs 42 = 32 \<and> unat (get16 bs 44) \<le> 40"

text \<open>The bytes of the image at \<open>elf\<close> in flash, and the program headers they hold.\<close>

definition header_bytes :: "mem \<Rightarrow> u32 \<Rightarrow> u8 list" where
  "header_bytes F elf = mread F (elf - APP_IMAGE_FLASH_ADDRESS) 52"

definition image_phdrs :: "mem \<Rightarrow> u32 \<Rightarrow> boot_elf32_phdr list" where
  "image_phdrs F elf =
     (let h = dec_ehdr (header_bytes F elf) in
      map (\<lambda>i. dec_phdr (mread F (elf + e_phoff h - APP_IMAGE_FLASH_ADDRESS + of_nat (32 * i)) 32)) [0 ..< unat (e_phnum h)])"

lemma take_5_eq:
  "length bs = 52 \<Longrightarrow> take 5 bs = [a, b, c, d, e] \<longleftrightarrow> bs ! 0 = a \<and> bs ! 1 = b \<and> bs ! 2 = c \<and> bs ! 3 = d \<and> bs ! 4 = e"
  by (auto simp: list_eq_iff_nth_eq less_Suc_eq numeral_eq_Suc)

lemma validate_iff:
  assumes "length bs = 52"
  shows "boot_elf_validate_elf_header (Some (dec_ehdr bs)) = BL_ERR_NONE \<longleftrightarrow> elf_header_ok bs"
  unfolding elf_header_ok_def take_5_eq [OF assms] boot_elf_validate_elf_header_def
  by (auto simp: dec_ehdr_def word_less_nat_alt)

lemma unat_ucast_u16: "unat (ucast (x :: u16) :: u32) = unat x"
  by transfer simp

lemma loaded_window: "loaded w m w' \<Longrightarrow> in_window a n w' = in_window a n w"
  by (simp add: in_window_def loaded_fits)

lemma mem_read_fills:
  assumes "world_ok w" and "in_window a n w" and "in_ram v n"
  shows "\<exists>w'. boot_elf_mem_read a v (of_nat n) elf_mem_op w = Some (BL_ERR_NONE, w') \<and>
    loaded w (mwrite (sw_mem w) v (mread (fl_mem (sw_flash w)) (a - APP_IMAGE_FLASH_ADDRESS) n)) w'"
proof (cases "n = 0")
  case True
  have "in_ram v n \<or> in_rram v n" using assms(3) by simp
  then show ?thesis
    using read_dispatch [OF assms(2)] assms(3) loaded_refl [of w] True
    by (simp add: bl_elf_flash_read_to_ram_def chunk_copy_def mread_def)
qed (use mem_read_loads assms in blast)

lemma op_init_elf: "boot_elf_mem_op_init elf_mem_op = (BL_ERR_NONE, elf_mem_op)"
  by (simp add: boot_elf_mem_op_init_def elf_mem_op_def boot_elf_mem_op_register_def)

lemma load_elf_header_reads:
  assumes "world_ok w" and "in_window elf 52 w" and "in_ram (elf_hdr_place place) 52" and "elf_addr l = Some elf"
    and "mem_ops l = elf_mem_op" and "bs = header_bytes (fl_mem (sw_flash w)) elf"
  shows "\<exists>m w'. boot_elf_load_elf_header place l w =
    Some ((boot_elf_validate_elf_header (Some (dec_ehdr bs)), l\<lparr>elf_hdr := dec_ehdr bs\<rparr>), w') \<and> loaded w m w'"
proof -
  from mem_read_fills [OF assms(1-3)] obtain w' where
    run: "boot_elf_mem_read elf (elf_hdr_place place) 52 elf_mem_op w = Some (BL_ERR_NONE, w')"
    and l: "loaded w (mwrite (sw_mem w) (elf_hdr_place place) bs) w'" by (auto simp: assms(6) header_bytes_def)
  have "mread (mwrite (sw_mem w) (elf_hdr_place place) bs) (elf_hdr_place place) 52 = bs"
    using mread_mwrite_same [of bs "sw_mem w" "elf_hdr_place place"] by (simp add: assms(6) header_bytes_def)
  then have "ehdr_in place (sw_mem w') = dec_ehdr bs" using loaded_mem [OF l] by (simp add: ehdr_in_def)
  then show ?thesis using run l assms(4,5) by (auto simp: boot_elf_load_elf_header_def)
qed

lemma phdrs_in_filled:
  assumes "n \<le> MI_PBT_MAX_SEGMENTS"
  shows "take n (phdrs_in place (mwrite m (prog_hdrs_place place) (mread F b (32 * n)))) =
    map (\<lambda>i. dec_phdr (mread F (b + of_nat (32 * i)) 32)) [0 ..< n]"
proof -
  have "mread (mwrite m p (mread F b (32 * n))) (p + 32 * of_nat i) 32 = mread F (b + of_nat (32 * i)) 32" if "i < n" for i p
  proof -
    have le: "32 * i + 32 \<le> 32 * n" using that by simp
    let ?m = "mwrite m p (mread F b (32 * n))"
    have "mread ?m (p + of_nat (32 * i)) 32 = take 32 (drop (32 * i) (mread ?m p (32 * n)))"
      using take_drop_mread [OF le] by simp
    also have "mread ?m p (32 * n) = mread F b (32 * n)"
      using mread_mwrite_same [of "mread F b (32 * n)" m p] assms by simp
    finally show ?thesis using take_drop_mread [OF le] by simp
  qed
  then show ?thesis using assms by (simp add: phdrs_in_def take_map)
qed

lemma load_prog_hdrs_reads:
  assumes "world_ok w" and "in_window (elf + e_phoff h) (32 * n) w" and "in_ram (prog_hdrs_place place) (32 * n)"
    and "elf_addr l = Some elf" and "mem_ops l = elf_mem_op" and "elf_hdr l = h" and "n = unat (e_phnum h)"
    and "e_phentsize h = 32" and "n \<le> MI_PBT_MAX_SEGMENTS"
  shows "\<exists>m w' phs. boot_elf_load_prog_hdrs place l w = Some ((BL_ERR_NONE, l\<lparr>prog_hdrs := phs\<rparr>), w') \<and> loaded w m w' \<and>
    length phs = MI_PBT_MAX_SEGMENTS \<and> take n phs =
      map (\<lambda>i. dec_phdr (mread (fl_mem (sw_flash w)) (elf + e_phoff h - APP_IMAGE_FLASH_ADDRESS + of_nat (32 * i)) 32)) [0 ..< n]"
proof -
  let ?F = "fl_mem (sw_flash w)" and ?b = "elf + e_phoff h - APP_IMAGE_FLASH_ADDRESS"
  have sz: "ucast (e_phnum h) * ucast (e_phentsize h) = (of_nat (32 * n) :: u32)"
    using assms(7,8) by simp
  obtain w' where
    run: "boot_elf_mem_read (elf + e_phoff h) (prog_hdrs_place place) (of_nat (32 * n)) elf_mem_op w = Some (BL_ERR_NONE, w')"
    and l: "loaded w (mwrite (sw_mem w) (prog_hdrs_place place) (mread ?F ?b (32 * n))) w'"
    using mem_read_fills [OF assms(1-3)] by (elim exE conjE)
  have "boot_elf_load_prog_hdrs place l w = Some ((BL_ERR_NONE, l\<lparr>prog_hdrs := phdrs_in place (sw_mem w')\<rparr>), w')"
    using run assms(4-6) sz by (simp add: boot_elf_load_prog_hdrs_def)
  moreover have "take n (phdrs_in place (sw_mem w')) = map (\<lambda>i. dec_phdr (mread ?F (?b + of_nat (32 * i)) 32)) [0 ..< n]"
    using phdrs_in_filled [OF assms(9)] loaded_mem [OF l] by simp
  moreover have "length (phdrs_in place (sw_mem w')) = MI_PBT_MAX_SEGMENTS" by (simp add: phdrs_in_def)
  ultimately show ?thesis using l by blast
qed

text \<open>
  C34: For an image in the flash window, \<open>boot_elf_load_init\<close> returns, succeeds exactly when the header bytes in
  flash have the ELF magic, the 32-bit class, the header sizes of the structures and at most 40 program headers,
  and leaves flash unchanged. On success the loader holds what the image has in flash: its header, its segment
  count and that many program headers in a table of 40, with the image address and the memory operations
  \<open>boot_elf_load_image\<close> needs. The loader structure is assumed to lie in RAM, and the program headers of an
  acceptable header inside the flash window.
\<close>

theorem load_init_accepts_valid_header:
  assumes "world_ok w" and "in_window elf 52 w" and "in_ram place (56 + 32 * 40)" and "F = fl_mem (sw_flash w)"
    and "h = dec_ehdr (header_bytes F elf)"
    and "elf_header_ok (header_bytes F elf) \<Longrightarrow> in_window (elf + e_phoff h) (32 * unat (e_phnum h)) w"
  shows "\<exists>st l' w'. boot_elf_load_init place l (Some elf) elf_mem_op w = Some ((st, l'), w') \<and>
    (st = BL_ERR_NONE \<longleftrightarrow> elf_header_ok (header_bytes F elf)) \<and> fl_mem (sw_flash w') = F \<and>
    (st = BL_ERR_NONE \<longrightarrow> elf_addr l' = Some elf \<and> mem_ops l' = elf_mem_op \<and> elf_hdr l' = h \<and>
      phr_num l' = ucast (e_phnum h) \<and> length (prog_hdrs l') = 40 \<and>
      take (unat (phr_num l')) (prog_hdrs l') = image_phdrs F elf)"
proof -
  let ?bs = "header_bytes F elf" and ?n = "unat (e_phnum h)"
  define w0 where "w0 = put_mem (prog_hdrs_place place) (replicate (32 * 40) 0) (put_mem (elf_hdr_place place) (replicate 52 0) w)"
  define l0 where "l0 = l\<lparr>elf_hdr := ehdr_in place (sw_mem w0), prog_hdrs := phdrs_in place (sw_mem w0), mem_ops := elf_mem_op\<rparr>"
  have c0: "loaded w (sw_mem w0) w0" using loaded_put [OF loaded_put [OF loaded_refl]] by (simp add: w0_def put_mem_def)
  have places: "unat (elf_hdr_place place) = unat place + 4" "unat (prog_hdrs_place place) = unat place + 56"
    using unat_add_small [of place 4] unat_add_small [of place 56] assms(3)
    by (simp_all add: elf_hdr_place_def prog_hdrs_place_def in_ram_def)
  have "in_ram (elf_hdr_place place) 52" using assms(3) by (simp add: in_ram_def places)
  moreover have "?bs = header_bytes (fl_mem (sw_flash w0)) elf" using loaded_mem [OF c0] assms(4) by simp
  ultimately obtain m1 w1 where run: "boot_elf_load_elf_header place (l0\<lparr>elf_addr := Some elf\<rparr>) w0 =
      Some ((boot_elf_validate_elf_header (Some h), l0\<lparr>elf_addr := Some elf, elf_hdr := h\<rparr>), w1)" and c: "loaded w0 m1 w1"
    using load_elf_header_reads [OF loaded_ok [OF c0 assms(1)], of elf place "l0\<lparr>elf_addr := Some elf\<rparr>" ?bs]
      assms(2,5) loaded_window [OF c0] by (auto simp: l0_def)
  have c1: "loaded w m1 w1" by (rule loaded_trans [OF c0 c])
  have ok: "boot_elf_validate_elf_header (Some h) = BL_ERR_NONE \<longleftrightarrow> elf_header_ok ?bs"
    unfolding assms(5) by (rule validate_iff) (simp add: header_bytes_def)
  have init: "boot_elf_load_init place l (Some elf) elf_mem_op w =
      (if elf_header_ok ?bs
       then do {
         ((result, l), w) \<leftarrow> boot_elf_load_prog_hdrs place (l0\<lparr>elf_addr := Some elf, elf_hdr := h\<rparr>) w1;
         if result \<noteq> BL_ERR_NONE then Some ((result, l), w)
         else Some ((BL_ERR_NONE, l\<lparr>phr_num := ucast (e_phnum (elf_hdr l))\<rparr>), w)
       }
       else Some ((boot_elf_validate_elf_header (Some h), l0\<lparr>elf_addr := Some elf, elf_hdr := h\<rparr>), w1))"
    using run ok by (simp add: boot_elf_load_init_def op_init_elf w0_def l0_def)
  show ?thesis
  proof (cases "elf_header_ok ?bs")
    case False
    then show ?thesis using init ok loaded_mem [OF c1] assms(4) by auto
  next
    case True
    then have lim: "?n \<le> 40" "e_phentsize h = 32" by (simp_all add: elf_header_ok_def assms(5) dec_ehdr_def)
    have "in_ram (prog_hdrs_place place) (32 * ?n)" using assms(3) lim(1) by (simp add: in_ram_def places)
    moreover have "in_window (elf + e_phoff h) (32 * ?n) w1" using assms(6) [OF True] loaded_window [OF c1] by simp
    ultimately obtain m2 w2 phs where
      "boot_elf_load_prog_hdrs place (l0\<lparr>elf_addr := Some elf, elf_hdr := h\<rparr>) w1 =
        Some ((BL_ERR_NONE, l0\<lparr>elf_addr := Some elf, elf_hdr := h, prog_hdrs := phs\<rparr>), w2)"
      and c2: "loaded w1 m2 w2" and len: "length phs = 40"
      and "take ?n phs = map (\<lambda>i. dec_phdr (mread (fl_mem (sw_flash w1))
          (elf + e_phoff h - APP_IMAGE_FLASH_ADDRESS + of_nat (32 * i)) 32)) [0 ..< ?n]"
      using load_prog_hdrs_reads [OF loaded_ok [OF c1 assms(1)], of elf h ?n place "l0\<lparr>elf_addr := Some elf, elf_hdr := h\<rparr>"] lim
      by (auto simp: l0_def)
    then show ?thesis
      using init True loaded_mem [OF c1] loaded_mem [OF c2] assms(4,5)
      by (simp add: l0_def image_phdrs_def unat_ucast_u16 Let_def)
  qed
qed

definition demo_elf_bytes :: "u8 list" where
  "demo_elf_bytes = [0x7F, 0x45, 0x4C, 0x46, 1] @ replicate 23 0 @ enc32 52 @ replicate 8 0 @ [52, 0, 32, 0, 1, 0] @ replicate 6 0"

definition demo_elf :: mem where
  "demo_elf = mwrite (\<lambda>_. 0) 0 demo_elf_bytes"

lemma length_demo_elf [simp]: "length demo_elf_bytes = 52"
  by (simp add: demo_elf_bytes_def)

lemma demo_ehdr: "mread demo_elf 0 52 = demo_elf_bytes"
  using mread_mwrite_same [of demo_elf_bytes "\<lambda>_. 0" 0] by (simp add: demo_elf_def)

theorem load_init_accepts_valid_header_witness:
  "(\<exists>l' w'. boot_elf_load_init 0x8000 demo_loader (Some 0xA00000) elf_mem_op (demo_world demo_elf (\<lambda>_. 0)) =
      Some ((BL_ERR_NONE, l'), w') \<and> take 1 (prog_hdrs l') = image_phdrs demo_elf 0xA00000) \<and>
   (\<exists>st l' w'. boot_elf_load_init 0x8000 demo_loader (Some 0xA00000) elf_mem_op (demo_world (\<lambda>_. 0) (\<lambda>_. 0)) =
      Some ((st, l'), w') \<and> st \<noteq> BL_ERR_NONE)"
proof -
  have win: "in_window 0xA00000 52 (demo_world F m)" "in_window 0xA00034 32 (demo_world F m)" for F m
    by (simp_all add: in_window_def flash_fits_def demo_world_def demo_flash_def demo_cfg_def)
  have ram: "in_ram 0x8000 (56 + 32 * 40)" by (simp add: in_ram_def)
  have F: "fl_mem (sw_flash (demo_world F m)) = F" for F m by (simp add: demo_world_def)
  have bs: "header_bytes demo_elf 0xA00000 = demo_elf_bytes" by (simp add: header_bytes_def demo_ehdr)
  have ok: "elf_header_ok demo_elf_bytes" "\<not> elf_header_ok (header_bytes (\<lambda>_. 0) 0xA00000)"
    "e_phoff (dec_ehdr demo_elf_bytes) = 52" "e_phnum (dec_ehdr demo_elf_bytes) = 1" by code_simp+
  show ?thesis
    using load_init_accepts_valid_header [OF demo_world_ok win(1) ram refl refl, of demo_elf "\<lambda>_. 0" demo_loader]
      load_init_accepts_valid_header [OF demo_world_ok win(1) ram refl refl, of "\<lambda>_. 0" "\<lambda>_. 0" demo_loader] ok win(2)
    by (auto simp: F bs)
qed

end
