(* ===== verification/SblRollback.thy ===== *)
theory SblRollback
  imports SblRram
begin

text \<open>
  Anti-rollback versions of the boot loader
  (\<open>src/bootloader/SBL/sbl_auth/rollback/boot_rollback_version.c\<close> and \<open>boot_rollback_version_impl.c\<close>).
  A version is the number of set bits in a row of fuses, which lie in the OTP part of RRAM and are written
  through the DXE engine. The addresses and masks of the two fuse words come from a register header that
  is not part of the repository: they are the parameter \<open>fuse_regs\<close>.

  Shown: the bit counting loop computes the number of set bits; the search for an open fuse returns the
  lowest one; updating the fuses makes the version exactly that of the image and never lowers it; the
  search of the image set does not return for an image that is in no set.
\<close>

unbundle bit_operations_syntax

section \<open>Data\<close>

record pbl_auth_state =
  auth_enabled :: bool
  hash_integrity_check_disabled :: bool
  debug_override :: bool
  anti_rollback_unlock :: bool
  sw_id :: u64

record boot_version_rollback_img_set =
  sec_sw_img_list :: "u32 list"
  feature_enable_base_address :: "u32 option"
  feature_enable_mask :: u32
  version_lsb_base_address :: "u32 option"
  version_lsb_mask :: u32
  version_lsb_shift :: u32
  version_msb_base_address :: "u32 option"
  version_msb_mask :: u32
  version_msb_shift :: u32

abbreviation (input) SEC_IMG_AUTH_SBL_IMG :: u32 where "SEC_IMG_AUTH_SBL_IMG \<equiv> 0"
abbreviation (input) SEC_IMG_AUTH_APP_IMG :: u32 where "SEC_IMG_AUTH_APP_IMG \<equiv> 1"
abbreviation (input) SEC_IMG_AUTH_APP_GOLD_IMG :: u32 where "SEC_IMG_AUTH_APP_GOLD_IMG \<equiv> 3"
abbreviation (input) SEC_IMG_AUTH_NUM_SUPPORTED_IMG :: u32 where "SEC_IMG_AUTH_NUM_SUPPORTED_IMG \<equiv> 0x7FFFFFFF"
abbreviation (input) ANTI_ROLLBACK_OTP_OFFSET :: u32 where "ANTI_ROLLBACK_OTP_OFFSET \<equiv> 0x1A00B0"

text \<open>The register definitions of the two version words.\<close>

record fuse_regs =
  w0_addr :: u32
  w0_mask :: u32
  w0_shift :: u32
  w1_addr :: u32
  w1_mask :: u32
  w1_shift :: u32

definition boot_rollback_version_img_set_table :: "fuse_regs \<Rightarrow> boot_version_rollback_img_set list" where
  "boot_rollback_version_img_set_table fr =
     [\<lparr>sec_sw_img_list = [SEC_IMG_AUTH_SBL_IMG, SEC_IMG_AUTH_APP_IMG, SEC_IMG_AUTH_NUM_SUPPORTED_IMG],
       feature_enable_base_address = None, feature_enable_mask = 0,
       version_lsb_base_address = Some (w0_addr fr), version_lsb_mask = w0_mask fr, version_lsb_shift = w0_shift fr,
       version_msb_base_address = Some (w1_addr fr), version_msb_mask = w1_mask fr, version_msb_shift = w1_shift fr\<rparr>]"

section \<open>Operations\<close>

text \<open>\<open>for (count = 0; input_val; count++) input_val &= input_val - 1\<close>\<close>

lemma clear_lowest_less: "x \<noteq> 0 \<Longrightarrow> unat (x AND (x - 1)) < unat (x :: u32)"
proof -
  assume "x \<noteq> 0"
  then have "0 < x" by (simp add: word_gt_0)
  then have "x - 1 < x" by (simp add: word_less_nat_alt unat_diff_u32)
  moreover have "x AND (x - 1) \<le> x - 1" by (simp add: word_and_le1)
  ultimately show ?thesis by (simp add: word_less_nat_alt word_le_nat_alt)
qed

function count_loop :: "u32 \<Rightarrow> u32 \<Rightarrow> u32" where
  "count_loop input_val count = (if input_val \<noteq> 0 then count_loop (input_val AND (input_val - 1)) (count + 1) else count)"
  by pat_completeness auto
termination
  by (relation "measure (\<lambda>(x, c). unat x)") (auto simp: clear_lowest_less)

declare count_loop.simps [simp del]

definition boot_rollback_count_bits_set :: "u32 \<Rightarrow> u32" where
  "boot_rollback_count_bits_set input_val = count_loop input_val 0"

text \<open>The loop over \<open>count < 32\<close>; 0 when no bit is open.\<close>

fun open_bit_from :: "nat list \<Rightarrow> u32 \<Rightarrow> u32 \<Rightarrow> u32" where
  "open_bit_from [] val msk = 0"
| "open_bit_from (count # cs) val msk =
     (if msk AND push_bit count 1 \<noteq> 0 \<and> val AND push_bit count 1 = 0 then push_bit count 1
      else open_bit_from cs val msk)"

definition boot_rollback_find_open_bit :: "u32 \<Rightarrow> u32 \<Rightarrow> u32" where
  "boot_rollback_find_open_bit val msk = open_bit_from [0 ..< 32] val msk"

text \<open>
  The search of the image set. The outer loop advances neither its counter nor the set pointer: it looks at
  the first set again and again. The result is the table position, \<open>None\<close> when the loop does not end.
\<close>

partial_function (option) set_search ::
    "boot_version_rollback_img_set list \<Rightarrow> nat \<Rightarrow> u32 \<Rightarrow> nat \<Rightarrow> (bl_error_type \<times> nat) waits" where
  "set_search table image_set_count image_sw_type image_set =
     (if image_set_count < length table
      then (if list_ex (\<lambda>img. img = image_sw_type) (take 3 (sec_sw_img_list (table ! image_set)))
            then Some (BL_ERR_NONE, image_set)
            else set_search table image_set_count image_sw_type image_set)
      else Some (BL_ERR_ROLLBACK_IMAGE_SET_NOT_FOUND, image_set))"

definition boot_rollback_get_set_by_img_type ::
    "boot_version_rollback_img_set list \<Rightarrow> u32 \<Rightarrow> (bl_error_type \<times> nat) waits" where
  "boot_rollback_get_set_by_img_type image_set_table image_sw_type = set_search image_set_table 0 image_sw_type 0"

definition boot_rollback_is_feature_enabled_on_set ::
    "boot_version_rollback_img_set option \<Rightarrow> mem \<Rightarrow> bl_error_type \<times> bool" where
  "boot_rollback_is_feature_enabled_on_set image_set m =
     (case image_set of None \<Rightarrow> (BL_ERR_NULL_PTR, False)
      | Some s \<Rightarrow> (BL_ERR_NONE,
          case feature_enable_base_address s of None \<Rightarrow> False | Some a \<Rightarrow> rd32 m a AND feature_enable_mask s \<noteq> 0))"

text \<open>
  The fuse rows strictly between the two words. They are visited only when the pointers, which count words,
  differ by more than \<open>sizeof(uint32)\<close>.
\<close>

definition rows_between :: "u32 \<Rightarrow> u32 \<Rightarrow> u32 list" where
  "rows_between lsb msb =
     (if 4 < sint (msb - lsb) div 4
      then map (\<lambda>i. lsb + 4 * of_nat (Suc i)) [0 ..< (unat msb - unat lsb - 1) div 4] else [])"

definition boot_rollback_calculate_fuse_version ::
    "boot_version_rollback_img_set option \<Rightarrow> mem \<Rightarrow> bl_error_type \<times> u32" where
  "boot_rollback_calculate_fuse_version image_set m =
     (case image_set of None \<Rightarrow> (BL_ERR_NULL_PTR, 0)
      | Some s \<Rightarrow>
         (case (version_lsb_base_address s, version_msb_base_address s) of
            (Some lsb, Some msb) \<Rightarrow>
              (BL_ERR_NONE,
               boot_rollback_count_bits_set (rd32 m lsb AND version_lsb_mask s) +
               sum_list (map (\<lambda>a. boot_rollback_count_bits_set (rd32 m a AND 0xFF)) (rows_between lsb msb)) +
               boot_rollback_count_bits_set (rd32 m msb AND version_msb_mask s))
          | _ \<Rightarrow> (BL_ERR_NULL_PTR, 0)))"

text \<open>The rows are tried in order: the low word, the rows between, the high word.\<close>

fun open_row :: "(u32 \<times> u32) list \<Rightarrow> mem \<Rightarrow> (u32 \<times> u32) option" where
  "open_row [] m = None"
| "open_row ((a, msk) # rows) m =
     (let fuse_bit_mask = boot_rollback_find_open_bit (rd32 m a) msk in
      if fuse_bit_mask \<noteq> 0 then Some (a, fuse_bit_mask) else open_row rows m)"

definition boot_rollback_find_open_version_bit ::
    "boot_version_rollback_img_set option \<Rightarrow> mem \<Rightarrow> bl_error_type \<times> (u32 \<times> u32) option" where
  "boot_rollback_find_open_version_bit image_set m =
     (case image_set of None \<Rightarrow> (BL_ERR_NULL_PTR, None)
      | Some s \<Rightarrow>
         (case (version_lsb_base_address s, version_msb_base_address s) of
            (Some lsb, Some msb) \<Rightarrow>
              (case open_row ((lsb, version_lsb_mask s) # map (\<lambda>a. (a, 0xFF)) (rows_between lsb msb) @
                              [(msb, version_msb_mask s)]) m of
                 Some r \<Rightarrow> (BL_ERR_NONE, Some r)
               | None \<Rightarrow> (BL_ERR_ROLLBACK_OPEN_VERSION_FUSE_NOT_FOUND, None))
          | _ \<Rightarrow> (BL_ERR_NULL_PTR, None)))"

definition sw_version_of :: "u64 \<Rightarrow> u32" where
  "sw_version_of sw = ucast (drop_bit 32 sw)"

text \<open>The second component is the state of the application, whose unlock flag a mismatch clears.\<close>

definition boot_rollback_validate_image_version ::
    "u32 \<Rightarrow> pbl_auth_state \<Rightarrow> pbl_auth_state \<Rightarrow> bool \<times> pbl_auth_state" where
  "boot_rollback_validate_image_version app_img_id sbl_auth_state app_auth_state =
     (let sbl_img_id = ucast (sw_id sbl_auth_state) :: u32 in
      if sbl_img_id = SEC_IMG_AUTH_SBL_IMG \<and> app_img_id = SEC_IMG_AUTH_APP_IMG \<and>
         sw_version_of (sw_id app_auth_state) \<noteq> sw_version_of (sw_id sbl_auth_state)
      then (False, app_auth_state\<lparr>anti_rollback_unlock := False\<rparr>)
      else (True, app_auth_state))"

definition boot_rollback_fuse_version_save :: "u64 \<Rightarrow> dxe \<Rightarrow> (bl_error_type \<times> dxe) waits" where
  "boot_rollback_fuse_version_save fuse_value d =
     (let buf = enc32 (ucast fuse_value) @ enc32 (ucast (drop_bit 32 fuse_value)) @ replicate 8 0 in
      rram_block_write_dxe ANTI_ROLLBACK_OTP_OFFSET buf 16 d)"

text \<open>\<open>for (i = 0; i < sw_version; i++)\<close>: the low and the high mask.\<close>

fun fuse_masks :: "nat \<Rightarrow> u32 \<times> u32" where
  "fuse_masks 0 = (0, 0)"
| "fuse_masks (Suc i) =
     (case fuse_masks i of (lsb_mask, msb_mask) \<Rightarrow>
        if i < 32 then (lsb_mask OR push_bit i 1, msb_mask) else (lsb_mask, msb_mask OR push_bit (i - 32) 1))"

definition boot_rollback_update_fuse_version ::
    "fuse_regs \<Rightarrow> u32 \<Rightarrow> pbl_auth_state option \<Rightarrow> dxe \<Rightarrow> (bl_error_type \<times> dxe) waits" where
  "boot_rollback_update_fuse_version fr image_id auth_state d =
     (case auth_state of None \<Rightarrow> Some (BL_ERR_NULL_PTR, d)
      | Some st \<Rightarrow> do {
          (result, i) \<leftarrow> boot_rollback_get_set_by_img_type (boot_rollback_version_img_set_table fr) image_id;
          if result \<noteq> BL_ERR_NONE then Some (result, d)
          else
           (let image_set = Some (boot_rollback_version_img_set_table fr ! i);
                (result, feature_enabled) = boot_rollback_is_feature_enabled_on_set image_set (dx_mem d) in
            if result \<noteq> BL_ERR_NONE then Some (result, d)
            else if \<not> feature_enabled \<and> \<not> auth_enabled st then Some (BL_ERR_NONE, d)
            else
             (let (result, fuse_version_value) = boot_rollback_calculate_fuse_version image_set (dx_mem d);
                  sw_version = sw_version_of (sw_id st) in
              if result \<noteq> BL_ERR_NONE then Some (result, d)
              else if sw_version \<le> fuse_version_value then Some (BL_ERR_NONE, d)
              else if 64 < sw_version then Some (BL_ERR_NONE, d)
              else
               (let (lsb_mask, msb_mask) = fuse_masks (unat sw_version) in
                do {
                  (_, d) \<leftarrow> boot_rollback_fuse_version_save (push_bit 32 (ucast msb_mask) OR ucast lsb_mask) d;
                  Some (BL_ERR_NONE, d)
                })))
        })"

section \<open>Counting bits\<close>

definition pop_count :: "u32 \<Rightarrow> nat" where
  "pop_count x = card {i. bit x i}"

lemma finite_bits_nat: "finite {i. bit (n :: nat) i}"
proof (rule finite_subset)
  show "{i. bit n i} \<subseteq> {..< n}"
  proof
    fix i assume "i \<in> {i. bit n i}"
    then have "2 ^ i \<le> n" by (auto simp: bit_iff_odd intro: ccontr)
    from less_le_trans [OF less_exp this] show "i \<in> {..< n}" by simp
  qed
qed simp

lemma bits_double: "{i. bit (2 * n :: nat) i} = Suc ` {i. bit n i}"
  by (auto simp: bit_double_iff image_iff) (metis Suc_pred bit_double_iff)

lemma card_bits_double: "card {i. bit (2 * n :: nat) i} = card {i. bit n i}"
  by (simp add: bits_double card_image)

lemma card_bits_odd: "card {i. bit (Suc (2 * n)) i} = Suc (card {i. bit (n :: nat) i})"
proof -
  have "{i. bit (Suc (2 * n)) i} = insert 0 (Suc ` {i. bit n i})"
  proof (rule set_eqI)
    fix i
    show "i \<in> {i. bit (Suc (2 * n)) i} \<longleftrightarrow> i \<in> insert 0 (Suc ` {i. bit n i})"
      by (cases i) (auto simp: bit_Suc bit_0)
  qed
  then show ?thesis by (simp add: card_insert_if finite_bits_nat card_image)
qed

lemma card_clear_lowest: "0 < n \<Longrightarrow> card {i. bit (n :: nat) i} = Suc (card {i. bit (n AND (n - 1)) i})"
proof (induction n rule: less_induct)
  case (less n)
  show ?case
  proof (cases "even n")
    case True
    then obtain m where m: "n = 2 * m" by blast
    obtain k where k: "m = Suc k" using m less.prems by (cases m) auto
    then have "n AND (n - 1) = 2 * (m AND (m - 1))" unfolding m by (subst and_rec) simp
    then show ?thesis using less.IH [of m] m less.prems by (simp add: card_bits_double)
  next
    case False
    then obtain m where m: "n = Suc (2 * m)" by (metis oddE Suc_eq_plus1)
    then have "n AND (n - 1) = 2 * m" by (subst and_rec) auto
    then show ?thesis by (simp add: m card_bits_odd card_bits_double)
  qed
qed

lemma pop_count_unat: "pop_count x = card {i. bit (unat x) i}"
  by (simp add: pop_count_def bit_unsigned_iff)

lemma count_loop_pop: "count_loop x c = c + of_nat (pop_count x)"
proof (induction x c rule: count_loop.induct)
  case (1 x c)
  show ?case
  proof (cases "x = 0")
    case True
    then show ?thesis by (simp add: count_loop.simps pop_count_def)
  next
    case False
    then have "unat (x AND (x - 1)) = unat x AND (unat x - 1)"
      by (simp add: unsigned_and_eq unat_diff_u32 Suc_le_eq unat_gt_0)
    then have "pop_count x = Suc (pop_count (x AND (x - 1)))"
      using False card_clear_lowest [of "unat x"] by (simp add: pop_count_unat unat_gt_0)
    then show ?thesis using 1 False by (simp add: count_loop.simps [of x c])
  qed
qed

lemma count_bits_pop: "boot_rollback_count_bits_set x = of_nat (pop_count x)"
  by (simp add: boot_rollback_count_bits_set_def count_loop_pop)

lemma pop_count_le: "pop_count x \<le> 32"
proof -
  have "{i. bit x i} \<subseteq> {..< 32}" by (auto dest: bit_imp_le_length)
  then show ?thesis unfolding pop_count_def using card_mono [of "{..< 32 :: nat}"] by fastforce
qed

section \<open>Fuses\<close>

text \<open>What the register names say: words 31..0 and 63..32 of the row the save operation writes.\<close>

definition fuse_layout :: "fuse_regs \<Rightarrow> bool" where
  "fuse_layout fr \<longleftrightarrow> w0_addr fr = ANTI_ROLLBACK_OTP_OFFSET \<and> w1_addr fr = ANTI_ROLLBACK_OTP_OFFSET + 4 \<and>
     w0_mask fr = 0xFFFFFFFF \<and> w1_mask fr = 0xFFFFFFFF"

definition fuse_version :: "fuse_regs \<Rightarrow> mem \<Rightarrow> u32" where
  "fuse_version fr m = snd (boot_rollback_calculate_fuse_version (Some (boot_rollback_version_img_set_table fr ! 0)) m)"

lemma calculate_version:
  assumes "fuse_layout fr"
  shows "boot_rollback_calculate_fuse_version (Some (boot_rollback_version_img_set_table fr ! 0)) m =
    (BL_ERR_NONE, of_nat (pop_count (rd32 m 0x1A00B0) + pop_count (rd32 m 0x1A00B4)))"
proof -
  have "rows_between 0x1A00B0 0x1A00B4 = []" by (simp add: rows_between_def)
  moreover have "x AND 0xFFFFFFFF = x" for x :: u32
  proof -
    have "(0xFFFFFFFF :: u32) = - 1" by simp
    then show ?thesis by (simp only: and.right_neutral)
  qed
  ultimately show ?thesis
    using assms by (simp add: boot_rollback_calculate_fuse_version_def boot_rollback_version_img_set_table_def
      fuse_layout_def count_bits_pop)
qed

lemma bit_pushed_one: "bit (2 ^ n :: u32) i \<longleftrightarrow> i = n \<and> i < 32"
  by (auto simp: bit_exp_iff)

lemma bit_u32_high: "32 \<le> n \<Longrightarrow> \<not> bit (x :: u32) n"
  by (auto dest: bit_imp_le_length)

lemma fuse_masks_bits:
  "n \<le> 64 \<Longrightarrow> bit (fst (fuse_masks n)) i = (i < 32 \<and> i < n) \<and> bit (snd (fuse_masks n)) i = (i < 32 \<and> i + 32 < n)"
proof (induction n)
  case (Suc n)
  then show ?case
    by (cases "n < 32") (auto simp: case_prod_beta bit_or_iff bit_pushed_one less_Suc_eq)
qed simp

lemma pop_fuse_masks:
  assumes "n \<le> 64"
  shows "pop_count (fst (fuse_masks n)) + pop_count (snd (fuse_masks n)) = n"
proof -
  have "{i. bit (fst (fuse_masks n)) i} = {..< min n 32}" "{i. bit (snd (fuse_masks n)) i} = {..< n - 32}"
    using assms by (auto simp: fuse_masks_bits [OF assms])
  then show ?thesis by (simp add: pop_count_def)
qed

lemma set_search_first:
  "boot_rollback_get_set_by_img_type (boot_rollback_version_img_set_table fr) ty =
     (if ty \<in> {SEC_IMG_AUTH_SBL_IMG, SEC_IMG_AUTH_APP_IMG, SEC_IMG_AUTH_NUM_SUPPORTED_IMG} then Some (BL_ERR_NONE, 0) else None)"
proof -
  have "\<not> c < length t \<or> list_ex (\<lambda>img. img = ty) (take 3 (sec_sw_img_list (t ! i)))"
    if "set_search t c ty i = Some r" for t c ty i r
    by (rule set_search.raw_induct [where P = "\<lambda>t c ty i r. \<not> c < length t \<or>
        list_ex (\<lambda>img. img = ty) (take 3 (sec_sw_img_list (t ! i)))", OF _ that]) (auto split: if_splits)
  from this [of "boot_rollback_version_img_set_table fr" 0 ty 0] show ?thesis
    by (cases "set_search (boot_rollback_version_img_set_table fr) 0 ty 0")
      (auto simp: boot_rollback_get_set_by_img_type_def boot_rollback_version_img_set_table_def set_search.simps)
qed

text \<open>Saving a value: the two words are read back.\<close>

lemma fuse_save_words:
  assumes "dxe_ok d"
  shows "\<exists>d'. boot_rollback_fuse_version_save v d = Some (BL_ERR_NONE, d') \<and>
    rd32 (dx_mem d') 0x1A00B0 = ucast v \<and> rd32 (dx_mem d') 0x1A00B4 = ucast (drop_bit 32 v)"
proof -
  let ?buf = "enc32 (ucast v) @ enc32 (ucast (drop_bit 32 v)) @ replicate 8 0"
  let ?m = "mwrite (dx_mem d) 0x1A00B0 ?buf"
  have l: "length ?buf = 16" by simp
  have "mread ?m 0x1A00B0 16 = ?buf" using mread_mwrite_same [of ?buf "dx_mem d" "0x1A00B0"] by (simp add: l)
  then have "rd32 ?m 0x1A00B0 = ucast v" "rd32 ?m 0x1A00B4 = ucast (drop_bit 32 v)"
    using get32_mread [of 0 16 ?m "0x1A00B0"] get32_mread [of 4 16 ?m "0x1A00B0"] by (simp_all add: get32_def)
  moreover have "dxe_stores d ?m (rram_block_write_dxe 0x1A00B0 ?buf 16 d)"
    using block_write_stores [OF assms, of "0x1A00B0" 16 ?buf] by simp
  ultimately show ?thesis by (auto simp: boot_rollback_fuse_version_save_def dxe_stores_def)
qed

lemma join_words:
  "ucast (push_bit 32 (ucast (h :: u32)) OR ucast (l :: u32) :: u64) = l"
  "ucast (drop_bit 32 (push_bit 32 (ucast (h :: u32)) OR ucast (l :: u32) :: u64)) = h"
  by (auto intro!: bit_word_eqI simp: bit_simps bit_u32_high)

lemma feature_off: "boot_rollback_is_feature_enabled_on_set (Some (boot_rollback_version_img_set_table fr ! 0)) m = (BL_ERR_NONE, False)"
  by (simp add: boot_rollback_is_feature_enabled_on_set_def boot_rollback_version_img_set_table_def)

lemma open_bit_from_find:
  "list_all (\<lambda>c. c < 32) cs \<Longrightarrow>
     open_bit_from cs val msk = (case find (\<lambda>c. bit msk c \<and> \<not> bit val c) cs of None \<Rightarrow> 0 | Some k \<Rightarrow> 2 ^ k)"
  by (induction cs) (auto simp: and_exp_eq_0_iff_not_bit)

lemma update_version_cases:
  assumes "dxe_ok d" and "fuse_layout fr" and "auth_enabled st"
  defines "old \<equiv> fuse_version fr (dx_mem d)" and "v \<equiv> sw_version_of (sw_id st)"
  shows "\<exists>d'. boot_rollback_update_fuse_version fr SEC_IMG_AUTH_APP_IMG (Some st) d = Some (BL_ERR_NONE, d') \<and>
    fuse_version fr (dx_mem d') = (if old < v \<and> v \<le> 64 then v else old)"
proof -
  let ?t = "Some (boot_rollback_version_img_set_table fr ! 0)"
  have calc: "boot_rollback_calculate_fuse_version ?t (dx_mem d) = (BL_ERR_NONE, old)"
    using calculate_version [OF assms(2), of "dx_mem d"] by (simp add: old_def fuse_version_def)
  obtain lsb msb where masks: "fuse_masks (unat v) = (lsb, msb)" by (cases "fuse_masks (unat v)")
  let ?val = "push_bit 32 (ucast msb) OR ucast lsb :: u64"
  have run: "boot_rollback_update_fuse_version fr SEC_IMG_AUTH_APP_IMG (Some st) d =
      (if v \<le> old \<or> 64 < v then Some (BL_ERR_NONE, d)
       else boot_rollback_fuse_version_save ?val d \<bind> (\<lambda>(_, d). Some (BL_ERR_NONE, d)))"
    using assms(3) masks by (simp add: feature_off boot_rollback_update_fuse_version_def set_search_first case_prod_beta calc v_def Let_def)
  show ?thesis
  proof (cases "old < v \<and> v \<le> 64")
    case True
    obtain d' where w: "boot_rollback_fuse_version_save ?val d = Some (BL_ERR_NONE, d')"
      and r: "rd32 (dx_mem d') 0x1A00B0 = lsb" "rd32 (dx_mem d') 0x1A00B4 = msb"
      using fuse_save_words [OF assms(1), of ?val] unfolding join_words by blast
    have "unat v \<le> 64" using True by (simp add: word_le_nat_alt)
    from pop_fuse_masks [OF this] have "fuse_version fr (dx_mem d') = v"
      by (simp add: fuse_version_def calculate_version [OF assms(2)] r masks del: of_nat_add)
    then show ?thesis using True w by (auto simp: run not_le not_less)
  next
    case False
    then show ?thesis by (auto simp: run old_def not_le not_less)
  qed
qed

section \<open>Properties\<close>

definition demo_regs :: fuse_regs where
  "demo_regs = \<lparr>w0_addr = 0x1A00B0, w0_mask = 0xFFFFFFFF, w0_shift = 0, w1_addr = 0x1A00B4, w1_mask = 0xFFFFFFFF, w1_shift = 0\<rparr>"

definition demo_auth :: "u64 \<Rightarrow> pbl_auth_state" where
  "demo_auth v = \<lparr>auth_enabled = True, hash_integrity_check_disabled = False, debug_override = False,
     anti_rollback_unlock = True, sw_id = push_bit 32 v\<rparr>"

lemma demo_regs_layout: "fuse_layout demo_regs"
  by (simp add: fuse_layout_def demo_regs_def)

text \<open>
  The loop of \<open>boot_rollback_count_bits_set\<close>, which clears the lowest set bit until none is left,
  computes the number of set bits of its argument.
\<close>

theorem count_bits_is_population_count:
  "boot_rollback_count_bits_set x = of_nat (card {i. bit x i}) \<and> card {i. bit x i} \<le> 32"
  using count_bits_pop [of x] pop_count_le [of x] by (simp add: pop_count_def)

text \<open>
  C29: With authentication enabled, updating the fuses for an application returns without error, makes the
  fuse version that of the image when the image is newer and its version has a fuse (at most 64), and
  otherwise keeps it: the version never goes down.
\<close>

theorem fuse_update_sets_version:
  assumes "dxe_ok d" and "fuse_layout fr" and "auth_enabled st"
  shows "\<exists>d'. boot_rollback_update_fuse_version fr SEC_IMG_AUTH_APP_IMG (Some st) d = Some (BL_ERR_NONE, d') \<and>
    fuse_version fr (dx_mem d') =
      (if fuse_version fr (dx_mem d) < sw_version_of (sw_id st) \<and> sw_version_of (sw_id st) \<le> 64
       then sw_version_of (sw_id st) else fuse_version fr (dx_mem d)) \<and>
    fuse_version fr (dx_mem d) \<le> fuse_version fr (dx_mem d')"
  using update_version_cases [OF assms] by (auto split: if_splits)

theorem fuse_update_sets_version_witness:
  "\<exists>d'. boot_rollback_update_fuse_version demo_regs SEC_IMG_AUTH_APP_IMG (Some (demo_auth 35)) (demo_dxe (\<lambda>_. 0)) =
     Some (BL_ERR_NONE, d') \<and> fuse_version demo_regs (dx_mem d') = 35"
proof -
  have v: "fuse_version demo_regs (\<lambda>_. 0) = 0"
    by (simp add: fuse_version_def calculate_version [OF demo_regs_layout] rd32_def le32_def pop_count_def)
  have s: "sw_version_of (sw_id (demo_auth 35)) = 35"
    by (simp add: sw_version_of_def demo_auth_def)
  show ?thesis
    using fuse_update_sets_version [of "demo_dxe (\<lambda>_. 0)" demo_regs "demo_auth 35"] demo_regs_layout
    by (simp add: v s) (simp add: demo_auth_def)
qed

text \<open>
  C30: The search of the image set returns only for the images of the first set: for every other image,
  the golden ones among them, it loops for ever, and with it the update of the fuses.
\<close>

theorem rollback_search_loops:
  assumes "dxe_ok d" and "fuse_layout fr"
  shows "boot_rollback_update_fuse_version fr ty (Some st) d \<noteq> None \<longleftrightarrow>
    ty \<in> {SEC_IMG_AUTH_SBL_IMG, SEC_IMG_AUTH_APP_IMG, SEC_IMG_AUTH_NUM_SUPPORTED_IMG}"
proof (cases "ty \<in> {SEC_IMG_AUTH_SBL_IMG, SEC_IMG_AUTH_APP_IMG, SEC_IMG_AUTH_NUM_SUPPORTED_IMG}")
  case True
  then have same: "boot_rollback_update_fuse_version fr ty (Some st) d =
      boot_rollback_update_fuse_version fr SEC_IMG_AUTH_APP_IMG (Some st) d"
    by (simp add: boot_rollback_update_fuse_version_def set_search_first)
  show ?thesis
  proof (cases "auth_enabled st")
    case auth: True
    then show ?thesis using update_version_cases [OF assms auth] same True by auto
  next
    case False
    then show ?thesis using True
      by (simp add: boot_rollback_update_fuse_version_def set_search_first feature_off)
  qed
next
  case False
  then show ?thesis by (simp add: boot_rollback_update_fuse_version_def set_search_first)
qed

theorem rollback_search_loops_witness:
  "boot_rollback_update_fuse_version demo_regs SEC_IMG_AUTH_APP_GOLD_IMG (Some (demo_auth 1)) (demo_dxe (\<lambda>_. 0)) = None"
  using rollback_search_loops [of "demo_dxe (\<lambda>_. 0)" demo_regs SEC_IMG_AUTH_APP_GOLD_IMG "demo_auth 1"] demo_regs_layout
  by (simp del: not_None_eq)

text \<open>
  \<open>boot_rollback_find_open_bit\<close> returns the lowest fuse of the mask that is not blown, as a one-bit
  mask, and 0 exactly when all fuses of the mask are blown.
\<close>

lemma find_open_bit_lowest:
  "(boot_rollback_find_open_bit val msk = 0 \<and> (\<forall>j < 32. bit msk j \<longrightarrow> bit val j)) \<or>
   (\<exists>k < 32. boot_rollback_find_open_bit val msk = 2 ^ k \<and> bit msk k \<and> \<not> bit val k \<and> (\<forall>j < k. bit msk j \<longrightarrow> bit val j))"
proof -
  have "list_all (\<lambda>c. c < 32) [0 ..< 32 :: nat]" by (simp add: list_all_iff)
  from open_bit_from_find [OF this, of val msk] show ?thesis
    unfolding boot_rollback_find_open_bit_def
    by (cases "find (\<lambda>c. bit msk c \<and> \<not> bit val c) [0 ..< 32]")
      (auto simp: find_None_iff dest!: find_Some_iff [THEN iffD1])
qed

end
