(* ===== verification/SblSelect.thy ===== *)
theory SblSelect
  imports SblBoot
begin

text \<open>
  Facts and properties of the boot loader's choice of a descriptor (\<open>SblBoot\<close>): what the scan of the flash
  sectors records, which descriptor is selected first, what follows a failure, that an image that is entered has
  passed every check, and the state in which the boot loop never ends.
\<close>

unbundle bit_operations_syntax

section \<open>The scan of the sectors\<close>

definition sector_fwd :: "mem \<Rightarrow> nat \<Rightarrow> u8 list" where
  "sector_fwd F i = mread F (of_nat i * 4096) 512"

definition record_sector :: "mem \<Rightarrow> nat \<Rightarrow> sbl_info \<Rightarrow> sbl_info" where
  "record_sector F i info = (if fwd_ok (sector_fwd F i) then record_fwd i (sector_fwd F i) info else info)"

text \<open>On a working flash the scan is a fold over the sectors.\<close>

lemma fwd_sectors_fold:
  assumes "world_ok (sb_world s)" and "\<forall>i \<in> set is. flash_fits (of_nat i * 4096) 512 (sw_flash (sb_world s))"
  shows "\<exists>w'. fwd_sectors is st s =
      (if \<exists>i \<in> set is. fwd_ok (sector_fwd (fl_mem (sw_flash (sb_world s))) i) then BL_ERR_NONE else st,
       s\<lparr>sb_world := w', g_sbl_info := fold (record_sector (fl_mem (sw_flash (sb_world s)))) is (g_sbl_info s)\<rparr>) \<and>
    loaded (sb_world s) (sw_mem (sb_world s)) w'"
  using assms
proof (induction "is" arbitrary: st s)
  case Nil
  then show ?case by (auto intro!: exI [of _ "sb_world s"] loaded_refl)
next
  case (Cons i "is")
  let ?w = "sb_world s" and ?F = "fl_mem (sw_flash (sb_world s))"
  obtain w1 where r: "boot_sbl_flash_read (of_nat i * 4096) (of_nat 512) ?w = ((FLASH_DEVICE_DONE, sector_fwd ?F i), w1)"
    and l: "loaded ?w (sw_mem ?w) w1"
    using flash_read_loads [of ?w "of_nat i * 4096" 512] Cons.prems by (auto simp: sector_fwd_def)
  note l' = loaded_mem [OF l] loaded_ok [OF l] loaded_fits [OF l]
  define t where "t = s\<lparr>sb_world := w1, g_sbl_info := record_sector ?F i (g_sbl_info s)\<rparr>"
  define st' where "st' = (if fwd_ok (sector_fwd ?F i) then BL_ERR_NONE else st)"
  have "fwd_sectors (i # is) st s = fwd_sectors is st' t"
    using r by (simp add: t_def st'_def record_sector_def upd_info_def Let_def)
  moreover obtain w2 where "fwd_sectors is st' t =
      (if \<exists>j \<in> set is. fwd_ok (sector_fwd ?F j) then BL_ERR_NONE else st',
       t\<lparr>sb_world := w2, g_sbl_info := fold (record_sector ?F) is (g_sbl_info t)\<rparr>)"
    and "loaded w1 (sw_mem w1) w2"
    using Cons.IH [of t st'] Cons.prems l' by (auto simp: t_def)
  ultimately show ?case using loaded_trans [OF l] l'(1)
    by (intro exI [of _ w2]) (auto simp: t_def st'_def)
qed

lemma zero_fwd_invalid: "\<not> fwd_ok (replicate 512 0)"
  by (simp add: fwd_ok_def fwd_signature_def get32_def le32_def)

text \<open>What the fold leaves in slot \<open>k\<close>: the last valid descriptor of that slot, or what was there.\<close>

lemma record_fold:
  fixes F :: mem and "is" :: "nat list" and info :: sbl_info
  assumes "length (flash_fwd_table info) = 3" and "length (boot_fwd info) = 3" and "k < 3"
  defines "info' \<equiv> fold (record_sector F) is info"
  shows "length (flash_fwd_table info') = 3 \<and> length (boot_fwd info') = 3 \<and>
    err_code info' = err_code info \<and>
    (if \<exists>i \<in> set is. fwd_ok (sector_fwd F i) \<and> fwd_slot (sector_fwd F i) = k
     then \<exists>i \<in> set is. fwd_ok (sector_fwd F i) \<and> fwd_slot (sector_fwd F i) = k \<and>
        flash_fwd_table info' ! k = sector_fwd F i \<and> boot_fwd info' ! k = of_nat i
     else flash_fwd_table info' ! k = flash_fwd_table info ! k)"
  unfolding info'_def
proof (induction "is" rule: rev_induct)
  case Nil
  then show ?case using assms by simp
next
  case (snoc i "is")
  define a where "a = fold (record_sector F) is info"
  have f: "fold (record_sector F) (is @ [i]) info = record_sector F i a" by (simp add: a_def)
  have "fwd_slot (sector_fwd F i) < 3" by (simp add: fwd_slot_def)
  note facts = snoc [folded a_def] assms(3) this
  show ?case
  proof (cases "fwd_ok (sector_fwd F i) \<and> fwd_slot (sector_fwd F i) = k")
    case True
    then show ?thesis unfolding f using facts by (simp add: record_sector_def record_fwd_def)
  next
    case False
    then have "flash_fwd_table (record_sector F i a) ! k = flash_fwd_table a ! k" "boot_fwd (record_sector F i a) ! k = boot_fwd a ! k"
      "length (flash_fwd_table (record_sector F i a)) = length (flash_fwd_table a)"
      "length (boot_fwd (record_sector F i a)) = length (boot_fwd a)" "err_code (record_sector F i a) = err_code a"
      by (auto simp: record_sector_def record_fwd_def)
    then show ?thesis unfolding f using facts False by (auto split: if_splits)
  qed
qed

section \<open>Failures\<close>

lemma sector_fits:
  assumes "flash_fits 0 0x2200 f" and "i < 3"
  shows "flash_fits (of_nat i * 4096) 512 f"
proof -
  have "i = 0 \<or> i = 1 \<or> i = 2" using assms(2) by auto
  then show ?thesis using assms(1) by (auto simp: flash_fits_def)
qed

text \<open>On a working flash the read succeeds and nothing is written.\<close>

lemma update_fwd_keeps:
  assumes "world_ok (sb_world s)" and "flash_fits 0 0x2200 (sw_flash (sb_world s))" and "sector < 3"
  shows "\<exists>w. boot_sbl_update_fwd sector s = (BL_ERR_NONE, s\<lparr>sb_world := w\<rparr>) \<and> loaded (sb_world s) (sw_mem (sb_world s)) w"
proof -
  have "unat sector < 3" using assms(3) by (simp add: word_less_nat_alt)
  moreover have "(of_nat (unat sector) :: u32) = ucast sector" by simp
  ultimately have "flash_fits (ucast sector * 4096) 512 (sw_flash (sb_world s))" using sector_fits [OF assms(2)] by metis
  from flash_read_loads [OF assms(1) this] show ?thesis by (auto simp: boot_sbl_update_fwd_def Let_def)
qed

definition exhausted :: "sbl \<Rightarrow> bool" where
  "exhausted s \<longleftrightarrow> sb_media_flash s \<and> err_code (g_sbl_info s) \<noteq> 0 \<and> valid_fwd (g_sbl_info s) = MAX_FWD_NUM \<and>
     ota_sbl_exist (g_sbl_info s) = MAX_FW_IMAGE_ENTRIES"

text \<open>Once all descriptors are used up no step of an iteration clears the error bits.\<close>

lemma exhausted_err: "exhausted s \<Longrightarrow> err_code (g_sbl_info s) \<noteq> 0"
  by (simp add: exhausted_def)

lemma exhausted_set_err: "exhausted s \<Longrightarrow> exhausted (set_err b s)"
  by (simp add: exhausted_def set_err_def upd_info_def or_eq_0_iff)

lemma exhausted_upd: "exhausted (s\<lparr>sb_world := w\<rparr>) = exhausted s" "exhausted (s\<lparr>sb_hash := h\<rparr>) = exhausted s"
  "exhausted (s\<lparr>app_elf_loader := l\<rparr>) = exhausted s"
  by (simp_all add: exhausted_def)

lemma exhausted_choose: "exhausted s \<Longrightarrow> \<exists>t. choose_image s = Runs t \<and> exhausted t"
  by (auto simp: choose_image_def boot_sbl_select_validFwd_def select_after_error_def select_after_load_error_def
    select_next_def exhausted_def upd_info_def)

lemma exhausted_after_load: "after_load env s = Some s' \<Longrightarrow> exhausted s \<Longrightarrow> exhausted s'"
  by (auto simp: after_load_def do_verify_hash_def sbl_compute_verify_hash_def Let_def bind_eq_Some_conv
    exhausted_upd intro!: exhausted_set_err split: if_splits)

lemma exhausted_after_auth: "after_auth env s = Some s' \<Longrightarrow> exhausted s \<Longrightarrow> exhausted s'"
  by (auto simp: after_auth_def do_load_image_def bind_eq_Some_conv exhausted_upd
    intro!: exhausted_set_err dest!: exhausted_after_load split: if_splits)

lemma exhausted_after_init:
  assumes "after_init env s = Some s'" and "exhausted s"
  shows "exhausted s'"
proof -
  have "exhausted (snd (do_image_auth env s))"
    using assms(2) by (simp add: do_image_auth_def sbl_image_auth_def Let_def case_prod_beta exhausted_upd)
  then show ?thesis
    using assms(1) by (auto simp: after_init_def case_prod_beta intro!: exhausted_set_err
      dest: exhausted_after_auth split: if_splits)
qed

lemma exhausted_iteration:
  assumes "boot_iteration env s = Some r" and "exhausted s"
  shows "\<exists>s'. r = Runs s' \<and> exhausted s'"
proof -
  obtain t where t: "choose_image s = Runs t" "exhausted t" using exhausted_choose [OF assms(2)] by blast
  have "sb_media_flash s" using assms(2) by (simp add: exhausted_def)
  with assms(1) t(1) obtain err t1 s' where l: "do_load_init env (sb_load_addr t) t = Some (err, t1)"
    and r: "(if err \<noteq> BL_ERR_NONE then Some (set_err ERROR_SBL_LOAD_INIT t1) else after_init env t1) = Some s'" "r = Runs s'"
    by (auto simp: boot_iteration_def bind_eq_Some_conv)
  have "exhausted t1" using l t(2) by (auto simp: do_load_init_def bind_eq_Some_conv exhausted_upd)
  then show ?thesis using r by (auto intro!: exhausted_set_err dest: exhausted_after_init split: if_splits)
qed

section \<open>A concrete device\<close>

text \<open>
  A device for the examples: a trial descriptor in sector 0 with an application and no boot loader, and a primary
  boot loader whose loader finds one hashed segment. The digest is a stand-in of the right length.
\<close>

definition demo_trial_fwd :: "u8 list" where
  "demo_trial_fwd = enc32 FW_UPGRADE_MAGIC_V1 @ enc32 1 @ enc32 0xFFFFFFFF @ [1, 1] @ replicate 18 0 @
     enc32 APP_IMG_ID @ enc32 3 @ enc32 1 @ enc32 1 @ replicate 464 0"

definition demo_info :: sbl_info where
  "demo_info = \<lparr>flash_fwd_table = [demo_trial_fwd, demo_trial_fwd, replicate 512 0], boot_fwd = [0, 1, 0], valid_fwd = 0,
     valid_fwd_mask = 6, load_type = BOOT_ELF_LOAD_FULL, ota_sbl_exist = 30, err_code = 0\<rparr>"

definition demo_sbl :: sbl where
  "demo_sbl = \<lparr>sb_world = demo_world (mwrite (\<lambda>_. 0) 0 demo_trial_fwd) (\<lambda>_. 7), g_sbl_info = demo_info, app_elf_loader = demo_loader,
     sb_hash = \<lparr>hash_table = [], hash_auth_state = demo_auth 0\<rparr>,
     sbl_shared_data = \<lparr>shared_auth_state = demo_auth 1, has_secimg_auth = True, has_hash_handle = True\<rparr>,
     sbl_auth_enable = True, sbl_fde_idx = 0, sbl_fde_content = zero_fde, sb_fdt = None, sb_idx = FDE_INVAL_IDX,
     sb_fde = zero_fde, sb_tempfde = zero_fde, sb_load_addr = 0, sb_type = BOOT_ELF_LOAD_FULL, sb_media_flash = True,
     sbl_share = \<lparr>magic_num = 0, share_ver = 0, share_img_type = 0, share_bdf_addr = 0, fdt_part = []\<rparr>\<rparr>"

definition demo_env :: pbl_env where
  "demo_env = \<lparr>pbl_load_init = \<lambda>l a w. Some ((BL_ERR_NONE, demo_loader\<lparr>prog_hdrs := [demo_phdr, demo_phdr], phr_num := 2\<rparr>), w),
     pbl_load_image = \<lambda>l ty w. Some (BL_ERR_NONE, w), pbl_secimg_auth = \<lambda>l i r w. (BL_ERR_NONE, w),
     pbl_get_image_hash_handle = \<lambda>w. (BL_ERR_NONE, \<lparr>hash_table = replicate 64 7, hash_auth_state = demo_auth 1\<rparr>),
     pbl_is_valid_segment = \<lambda>ph. True, sha256 = \<lambda>bs. Some (take 32 (bs @ replicate 32 7)), pbl_fuse_regs = demo_regs\<rparr>"

lemma demo_trial_fwd_ok: "fwd_ok demo_trial_fwd" "fwd_slot demo_trial_fwd = 0"
  by (simp_all add: fwd_ok_def fwd_slot_def fwd_signature_def fwd_rank_def fwd_status_def get32_def demo_trial_fwd_def enc32_def le32_def)





lemma demo_sector: "mread (mwrite (\<lambda>_. 0) 0 demo_trial_fwd) 0 512 = demo_trial_fwd"
  using mread_mwrite_same [of demo_trial_fwd "\<lambda>_. 0" 0] by (simp add: demo_trial_fwd_def)

lemma demo_sbl_fits: "flash_fits 0 0x2200 (sw_flash (sb_world demo_sbl))"
  by (simp add: flash_fits_def demo_sbl_def demo_world_def)

section \<open>Properties\<close>

lemma get_fwd_info_scan:
  assumes "world_ok (sb_world s)" and "flash_fits 0 0x2200 (sw_flash (sb_world s))"
  defines "F \<equiv> fl_mem (sw_flash (sb_world s))"
  shows "\<exists>w'. boot_sbl_get_fwd_info s =
      (if \<exists>i < 3. fwd_ok (sector_fwd F i) then BL_ERR_NONE else BL_ERR_INVALID_PARAM,
       s\<lparr>sb_world := w', g_sbl_info := fold (record_sector F) [0 ..< 3]
          ((g_sbl_info s)\<lparr>flash_fwd_table := replicate 3 (replicate 512 0)\<rparr>)\<rparr>) \<and>
    loaded (sb_world s) (sw_mem (sb_world s)) w'"
proof -
  let ?s = "upd_info (\<lambda>i. i\<lparr>flash_fwd_table := replicate MAX_FWD_NUM (replicate 512 0)\<rparr>) s"
  have "\<forall>i \<in> set [0 ..< 3]. flash_fits (of_nat i * 4096) 512 (sw_flash (sb_world ?s))"
    using sector_fits [OF assms(2)] by (simp add: upd_info_def)
  from fwd_sectors_fold [OF _ this, of BL_ERR_INVALID_PARAM] assms(1) show ?thesis
    by (simp add: boot_sbl_get_fwd_info_def upd_info_def F_def Bex_def)
qed

text \<open>What the scan leaves in slot \<open>k\<close>.\<close>

lemma get_fwd_slot:
  fixes s :: sbl
  assumes "world_ok (sb_world s)" and "flash_fits 0 0x2200 (sw_flash (sb_world s))"
    and "length (boot_fwd (g_sbl_info s)) = 3" and "k < 3"
  defines "F \<equiv> fl_mem (sw_flash (sb_world s))" and "info \<equiv> g_sbl_info (snd (boot_sbl_get_fwd_info s))"
  shows "err_code info = err_code (g_sbl_info s) \<and>
    (if \<exists>i < 3. fwd_ok (sector_fwd F i) \<and> fwd_slot (sector_fwd F i) = k
     then \<exists>i < 3. fwd_ok (sector_fwd F i) \<and> fwd_slot (sector_fwd F i) = k \<and>
        flash_fwd_table info ! k = sector_fwd F i \<and> boot_fwd info ! k = of_nat i
     else flash_fwd_table info ! k = replicate 512 0)"
proof -
  define info0 where "info0 = (g_sbl_info s)\<lparr>flash_fwd_table := replicate 3 (replicate 512 0)\<rparr>"
  have i: "info = fold (record_sector F) [0 ..< 3] info0"
    using get_fwd_info_scan [OF assms(1,2)] by (auto simp: info_def F_def info0_def)
  have "flash_fwd_table info0 ! k = replicate 512 0" using assms(4) by (simp add: info0_def del: replicate.simps)
  with record_fold [of info0 k F "[0 ..< 3]", folded i] assms(3,4) show ?thesis
    by (auto simp: info0_def simp del: replicate.simps split: if_splits)
qed



text \<open>
  The scan of the three descriptor sectors of a working flash reports success exactly when some sector holds
  a valid descriptor. A slot of the table (trial, current, golden) is valid afterwards exactly when a sector holds
  a valid descriptor of that slot; it is then the content of such a sector, whose number is recorded.
\<close>

theorem fwd_info_mirrors_flash:
  assumes "world_ok (sb_world s)" and "flash_fits 0 0x2200 (sw_flash (sb_world s))"
    and "length (boot_fwd (g_sbl_info s)) = 3" and "k < 3"
  defines "F \<equiv> fl_mem (sw_flash (sb_world s))" and "info \<equiv> g_sbl_info (snd (boot_sbl_get_fwd_info s))"
  shows "(fst (boot_sbl_get_fwd_info s) = BL_ERR_NONE \<longleftrightarrow> (\<exists>i < 3. fwd_ok (sector_fwd F i))) \<and>
    (FWD_TABLE_IS_VALID k info \<longleftrightarrow> (\<exists>i < 3. fwd_ok (sector_fwd F i) \<and> fwd_slot (sector_fwd F i) = k)) \<and>
    (FWD_TABLE_IS_VALID k info \<longrightarrow> boot_fwd info ! k < 3 \<and> flash_fwd_table info ! k = sector_fwd F (unat (boot_fwd info ! k)) \<and>
       fwd_slot (flash_fwd_table info ! k) = k)"
proof -
  have st: "fst (boot_sbl_get_fwd_info s) =
      (if \<exists>i < 3. fwd_ok (sector_fwd F i) then BL_ERR_NONE else BL_ERR_INVALID_PARAM)"
    using get_fwd_info_scan [OF assms(1,2)] by (auto simp: F_def)
  note slot = get_fwd_slot [OF assms(1-4), folded F_def info_def]
  have num: "(of_nat i :: u8) < 3 \<and> unat (of_nat i :: u8) = i" if "i < 3" for i
    using that by (simp add: word_less_nat_alt unat_of_nat)
  show ?thesis
    unfolding st FWD_TABLE_IS_VALID_def using slot zero_fwd_invalid num by (auto split: if_splits)
qed

theorem fwd_info_mirrors_flash_witness:
  "FWD_TABLE_IS_VALID 0 (g_sbl_info (snd (boot_sbl_get_fwd_info demo_sbl)))"
proof -
  have "sector_fwd (mwrite (\<lambda>_. 0) 0 demo_trial_fwd) 0 = demo_trial_fwd"
    using demo_sector by (simp add: sector_fwd_def)
  then show ?thesis
    using fwd_info_mirrors_flash [of demo_sbl 0] demo_world_ok demo_trial_fwd_ok demo_sbl_fits
    by (auto simp: demo_sbl_def demo_info_def demo_world_def intro: exI [of _ 0])
qed

text \<open>The PBL has fallen back to the current boot loader although a valid trial carries one.\<close>

definition reverted :: "sbl \<Rightarrow> bool" where
  "reverted s \<longleftrightarrow> FWD_TABLE_IS_VALID INDEX_TRIAL (g_sbl_info s) \<and>
     boot_sbl_find_fwd_image INDEX_TRIAL SBL_IMG_ID (g_sbl_info s) \<noteq> MAX_FW_IMAGE_ENTRIES \<and>
     fde_rank (sbl_fde_content s) = OTA_IMG_RANK_CURRENT"

definition valid_slots :: "sbl_info \<Rightarrow> nat set" where
  "valid_slots info = {k. k < MAX_FWD_NUM \<and> FWD_TABLE_IS_VALID k info}"

lemma Min_slots:
  "(if valid_slots info = {} then MAX_FWD_NUM else Min (valid_slots info)) = first_valid info"
  "(if valid_slots info - {0} = {} then 0 else Min (valid_slots info - {0})) =
     (if FWD_TABLE_IS_VALID 1 info then 1 else if FWD_TABLE_IS_VALID 2 info then 2 else 0)"
proof -
  have slots: "valid_slots info = (if FWD_TABLE_IS_VALID 0 info then {0} else {}) \<union>
      (if FWD_TABLE_IS_VALID 1 info then {1} else {}) \<union> (if FWD_TABLE_IS_VALID 2 info then {2} else {})"
  proof -
    have lt: "k < 3 \<longleftrightarrow> k = 0 \<or> k = 1 \<or> k = 2" for k :: nat by auto
    show ?thesis unfolding valid_slots_def lt by (auto intro!: gr0I)
  qed
  show "(if valid_slots info = {} then MAX_FWD_NUM else Min (valid_slots info)) = first_valid info"
    by (simp add: slots first_valid_def)
  show "(if valid_slots info - {0} = {} then 0 else Min (valid_slots info - {0})) =
     (if FWD_TABLE_IS_VALID 1 info then 1 else if FWD_TABLE_IS_VALID 2 info then 2 else 0)"
    by (simp add: slots insert_Diff_if Un_Diff)
qed

lemma valid_other_slot [simp]:
  "k \<noteq> j \<Longrightarrow> FWD_TABLE_IS_VALID k (set_fwd_status j b info) = FWD_TABLE_IS_VALID k info"
  "FWD_TABLE_IS_VALID k (info\<lparr>valid_fwd := v\<rparr>) = FWD_TABLE_IS_VALID k info"
  "FWD_TABLE_IS_VALID k (info\<lparr>ota_sbl_exist := e\<rparr>) = FWD_TABLE_IS_VALID k info"
  "valid_fwd (set_fwd_status j b info) = valid_fwd info"
  "boot_sbl_find_fwd_image k iid (info\<lparr>valid_fwd := v\<rparr>) = boot_sbl_find_fwd_image k iid info"
  by (simp_all add: FWD_TABLE_IS_VALID_def set_fwd_status_def boot_sbl_find_fwd_image_def)

text \<open>
  C37: Without a pending error the selection takes the first valid slot in the order trial, current, golden,
  or 3 when none is valid; but when the primary boot loader has fallen back to the current boot loader although
  the trial carries one, the trial is passed over, unless it is the only valid one. The selection then never resets.
\<close>

theorem first_selection:
  assumes "err_code (g_sbl_info s) = 0"
  shows "fst (boot_sbl_select_validFwd s) =
      (if reverted s then (if valid_slots (g_sbl_info s) - {0} = {} then 0 else Min (valid_slots (g_sbl_info s) - {0}))
       else if valid_slots (g_sbl_info s) = {} then 3 else Min (valid_slots (g_sbl_info s))) \<and>
    (\<exists>s'. snd (boot_sbl_select_validFwd s) = Runs s')"
  unfolding Min_slots using assms
  by (auto simp: boot_sbl_select_validFwd_def select_first_def first_valid_def reverted_def upd_info_def Let_def case_prod_beta)

theorem first_selection_witness: "fst (boot_sbl_select_validFwd demo_sbl) = 0"
proof -
  have "0 \<in> valid_slots demo_info"
    using demo_trial_fwd_ok by (simp add: valid_slots_def FWD_TABLE_IS_VALID_def demo_info_def)
  moreover have "Min (valid_slots demo_info) = 0 \<or> valid_slots demo_info = {}"
    using calculation Min_le [of "valid_slots demo_info" 0] by (auto simp: valid_slots_def)
  ultimately show ?thesis
    using first_selection [of demo_sbl] by (auto simp: demo_sbl_def demo_info_def reverted_def zero_fde_def)
qed

text \<open>
  C38: After an error with an update that carries no boot loader image, on a descriptor other than the golden one:
  when only initialisation or authentication has failed, the descriptor is marked invalid in the table, the
  error is cleared and the next slot is taken, the device staying as it is; after a load or hash failure, with the next slot
  valid, the chip is reset, and a working flash still holds the failed descriptor as valid (\<open>boot_sbl_update_fwd\<close>
  writes only after a failed read), so that the next boot selects it again.
\<close>

theorem failure_moves_on_or_resets:
  assumes "err_code (g_sbl_info s) \<noteq> 0" and "ota_sbl_exist (g_sbl_info s) = 30" and "valid_fwd (g_sbl_info s) = v" and "v < 2"
    and "length (flash_fwd_table (g_sbl_info s)) = 3" and "12 < length (flash_fwd_table (g_sbl_info s) ! v)"
    and "world_ok (sb_world s)" and "flash_fits 0 0x2200 (sw_flash (sb_world s))" and "boot_fwd (g_sbl_info s) ! v < 3"
  shows "(drop_bit 3 (err_code (g_sbl_info s)) = 0 \<longrightarrow>
      (\<exists>s'. boot_sbl_select_validFwd s = (Suc v, Runs s') \<and> valid_fwd (g_sbl_info s') = Suc v \<and>
         err_code (g_sbl_info s') = 0 \<and> sb_world s' = sb_world s \<and>
         (\<forall>k < 3. FWD_TABLE_IS_VALID k (g_sbl_info s') \<longleftrightarrow> k \<noteq> v \<and> FWD_TABLE_IS_VALID k (g_sbl_info s)))) \<and>
    (drop_bit 3 (err_code (g_sbl_info s)) \<noteq> 0 \<longrightarrow> FWD_TABLE_IS_VALID (Suc v) (g_sbl_info s) \<longrightarrow>
      (\<exists>s'. snd (boot_sbl_select_validFwd s) = Resets s' \<and>
         fl_mem (sw_flash (sb_world s')) = fl_mem (sw_flash (sb_world s))))"
proof (intro conjI impI)
  let ?i = "g_sbl_info s"
  assume d: "drop_bit 3 (err_code ?i) = 0"
  define i' where "i' = (set_fwd_status v 0 ?i)\<lparr>err_code := 0, valid_fwd := Suc v\<rparr>"
  have "boot_sbl_select_validFwd s = (Suc v, Runs (s\<lparr>g_sbl_info := i'\<rparr>))"
    using assms(1-4) d by (simp add: boot_sbl_select_validFwd_def select_after_error_def select_after_load_error_def
      select_next_def upd_info_def i'_def)
  moreover have "FWD_TABLE_IS_VALID k i' \<longleftrightarrow> k \<noteq> v \<and> FWD_TABLE_IS_VALID k ?i" if "k < 3" for k
    using assms(4-6) that
    by (cases "k = v") (simp_all add: i'_def FWD_TABLE_IS_VALID_def set_fwd_status_def fwd_ok_def fwd_status_def)
  ultimately show "\<exists>s'. boot_sbl_select_validFwd s = (Suc v, Runs s') \<and> valid_fwd (g_sbl_info s') = Suc v \<and>
      err_code (g_sbl_info s') = 0 \<and> sb_world s' = sb_world s \<and>
      (\<forall>k < 3. FWD_TABLE_IS_VALID k (g_sbl_info s') \<longleftrightarrow> k \<noteq> v \<and> FWD_TABLE_IS_VALID k ?i)"
    by (simp add: i'_def)
next
  assume d: "drop_bit 3 (err_code (g_sbl_info s)) \<noteq> 0" and n: "FWD_TABLE_IS_VALID (Suc v) (g_sbl_info s)"
  obtain w where w: "snd (boot_sbl_update_fwd (boot_fwd (g_sbl_info s) ! v) s) = s\<lparr>sb_world := w\<rparr>"
    and m: "fl_mem (sw_flash w) = fl_mem (sw_flash (sb_world s))"
    using update_fwd_keeps [OF assms(7-9)] loaded_mem by fastforce
  have "v = 0 \<or> v = 1" using assms(4) by auto
  then have "boot_sbl_sw_reset (g_sbl_info s)"
    using n assms(3) by (auto simp: boot_sbl_sw_reset_def numeral_2_eq_2)
  then have "snd (boot_sbl_select_validFwd s) = Resets (s\<lparr>sb_world := w\<rparr>)"
    using assms(1-4) d w by (simp add: boot_sbl_select_validFwd_def select_after_error_def select_after_load_error_def Let_def)
  then show "\<exists>s'. snd (boot_sbl_select_validFwd s) = Resets s' \<and> fl_mem (sw_flash (sb_world s')) = fl_mem (sw_flash (sb_world s))"
    using m by simp
qed

theorem failure_moves_on_or_resets_witness:
  "\<exists>s'. snd (boot_sbl_select_validFwd (upd_info (\<lambda>i. i\<lparr>err_code := 8\<rparr>) demo_sbl)) = Resets s' \<and>
     fl_mem (sw_flash (sb_world s')) = mwrite (\<lambda>_. 0) 0 demo_trial_fwd"
  using failure_moves_on_or_resets [of "upd_info (\<lambda>i. i\<lparr>err_code := 8\<rparr>) demo_sbl" 0] demo_trial_fwd_ok demo_sbl_fits demo_world_ok
  by (auto simp: upd_info_def demo_sbl_def demo_info_def FWD_TABLE_IS_VALID_def demo_world_def demo_trial_fwd_def drop_bit_eq_div)

text \<open>
  C39: Once the selection has run past the last descriptor, an image update without a boot loader image and a
  pending error leave the boot loop without a way out: it never returns, whatever the primary boot loader's
  functions do, not even when every load and check succeeds from then on.
\<close>

theorem exhausted_loop_never_ends:
  assumes "exhausted s"
  shows "boot_loop env s = None"
proof (rule ccontr)
  assume "boot_loop env s \<noteq> None"
  then obtain r where r: "boot_loop env s = Some r" by auto
  have "\<not> exhausted s"
    by (rule boot_loop.raw_induct [where P = "\<lambda>env s r. \<not> exhausted s", OF _ r])
      (auto split: option.splits boot_step.splits if_splits dest: exhausted_iteration exhausted_err)
  with assms show False by simp
qed

theorem exhausted_loop_never_ends_witness:
  "boot_loop demo_env (upd_info (\<lambda>i. i\<lparr>err_code := 2, valid_fwd := 3\<rparr>) demo_sbl) = None"
  by (rule exhausted_loop_never_ends) (simp add: exhausted_def upd_info_def demo_sbl_def demo_info_def)

end
