(* ===== verification/DxeSource.thy ===== *)
theory DxeSource
  imports SblRram
begin

text \<open>
  More on \<open>SblRram\<close>: whatever the engine does, \<open>rram_write_dxe\<close> changes nothing outside RRAM; and a source that lies
  below RRAM, which the engine fetches while it writes, counts as the bytes it holds at the start.
\<close>

unbundle bit_operations_syntax

definition outside_rram :: "u32 \<Rightarrow> bool" where
  "outside_rram x \<longleftrightarrow> unat x < 0x200000 \<or> 0x380000 \<le> unat x"

definition rram_span :: "u32 \<Rightarrow> nat \<Rightarrow> bool" where
  "rram_span dst n \<longleftrightarrow> unat dst mod 16 = 0 \<and> 0x200000 \<le> unat dst \<and> unat dst + n \<le> 0x380000"

definition same_outside :: "dxe \<Rightarrow> dxe \<Rightarrow> bool" where
  "same_outside d d' \<longleftrightarrow> (\<forall>x. outside_rram x \<longrightarrow> dx_mem d' x = dx_mem d x)"

lemma same_outside_refl: "same_outside d d"
  by (simp add: same_outside_def)

lemma same_outside_trans: "same_outside d d' \<Longrightarrow> same_outside d' d'' \<Longrightarrow> same_outside d d''"
  by (simp add: same_outside_def)

lemma in_range_bounds:
  assumes "in_range a n x" and "unat a + n \<le> 2 ^ 32"
  shows "unat a \<le> unat x \<and> unat x < unat a + n"
proof -
  have "unat (x - a) < n" using assms(1) by (simp add: in_range_def)
  then show ?thesis
    using assms(2) unat_u32_bound [of x] unfolding unat_diff_u32 by (auto split: if_splits)
qed

lemma unit_room: "x mod 16 = 0 \<Longrightarrow> x < 0x380000 \<Longrightarrow> x + 16 \<le> (0x380000 :: nat)"
  by (auto simp: mod_eq_0_iff_dvd dvd_def)

lemma unit_floor: "0x200000 \<le> x \<Longrightarrow> 0x200000 \<le> x - x mod (16 :: nat)"
  using div_le_mono [of "0x200000" x 16] by (simp add: minus_mod_eq_mult_div)

lemma block_write_outside:
  assumes "rram_block_write_dxe dst bs len d = Some (st, d')" and "rram_span dst (unat len)"
  shows "same_outside d d'"
proof -
  define n where "n = length (take (unat len) bs)"
  have n: "n \<le> unat len" by (simp add: n_def)
  have "\<not> in_range dst n x" if "outside_rram x" for x
  proof
    assume "in_range dst n x"
    then show False using in_range_bounds [of dst n x] that assms(2) n by (auto simp: outside_rram_def rram_span_def)
  qed
  then show ?thesis
    using assms(1) unfolding n_def
    by (auto simp: rram_block_write_dxe_def same_outside_def bind_eq_Some_conv mcombine_out split: if_splits)
qed

lemma span_part:
  assumes "rram_span dst n" and "k + j \<le> n" and "k mod 16 = 0"
  shows "rram_span (dst + of_nat k) j \<and> unat (dst + of_nat k) = unat dst + k"
proof -
  have "k < 2 ^ 32" using assms by (simp add: rram_span_def)
  then have "unat (dst + of_nat k) = unat dst + k"
    using assms(1,2) by (simp add: unat_word_ariths unat_of_nat_u32 rram_span_def)
  then show ?thesis using assms by (simp add: rram_span_def mod_add_eq [symmetric])
qed

lemma full_blocks_outside:
  assumes "dxe_full_blocks n dst src off d = Some (st, d')" and "rram_span dst (n * 0x3FF0)"
  shows "same_outside d d'"
  using assms
proof (induction n arbitrary: dst off d)
  case 0
  then show ?case by (simp add: same_outside_refl)
next
  case (Suc n)
  from Suc.prems(1) obtain s1 d1 where w: "rram_block_write_dxe dst (fetch src off 0x3FF0 d) 0x3FF0 d = Some (s1, d1)"
    and r: "(if s1 \<noteq> BL_ERR_NONE then Some (s1, d1) else dxe_full_blocks n (dst + 0x3FF0) src (off + 0x3FF0) d1) = Some (st, d')"
    by (auto simp: bind_eq_Some_conv)
  have "rram_span dst (unat (0x3FF0 :: u32))" using Suc.prems(2) by (simp add: rram_span_def)
  from block_write_outside [OF w this] have o: "same_outside d d1" .
  have "rram_span (dst + 0x3FF0) (n * 0x3FF0)" using span_part [OF Suc.prems(2), of "0x3FF0" "n * 0x3FF0"] by simp
  then show ?case using r o Suc.IH by (auto intro: same_outside_trans split: if_splits)
qed

lemma partial_outside:
  assumes "dxe_partial dst src off nbytes d = Some (st, d')" and "rram_span dst (unat nbytes)"
  shows "same_outside d d'"
proof -
  let ?u = "nbytes AND 15"
  have a: "unat (nbytes - ?u) = unat nbytes - unat nbytes mod 16" by (simp add: unat_diff_u32 unat_and_15)
  from assms(1) obtain s1 d1 where w: "rram_block_write_dxe dst (fetch src off (unat (nbytes - ?u)) d) (nbytes - ?u) d = Some (s1, d1)"
    and r: "(if s1 \<noteq> BL_ERR_NONE then Some (s1, d1)
        else if ?u \<noteq> 0
        then rram_block_write_dxe (dst + (nbytes - ?u)) (fetch src (off + unat (nbytes - ?u)) (unat ?u) d1 @
                mread (dx_mem d1) (dst + (nbytes - ?u) + ?u) (16 - unat ?u)) 16 d1
        else Some (s1, d1)) = Some (st, d')"
    by (auto simp: dxe_partial_def Let_def bind_eq_Some_conv)
  have o: "same_outside d d1" using block_write_outside [OF w] assms(2) a by (auto simp: rram_span_def)
  have "rram_span (dst + (nbytes - ?u)) 16" if "?u \<noteq> 0"
  proof -
    have "unat nbytes mod 16 \<noteq> 0" using that and_15_zero [of nbytes] by simp
    moreover have k: "(unat nbytes - unat nbytes mod 16) mod 16 = 0" by (simp add: minus_mod_eq_mult_div)
    moreover have "dst + (nbytes - ?u) = dst + of_nat (unat nbytes - unat nbytes mod 16)"
      unfolding a [symmetric] by simp
    ultimately have s: "rram_span (dst + (nbytes - ?u)) (unat nbytes mod 16) \<and>
        unat (dst + (nbytes - ?u)) = unat dst + (unat nbytes - unat nbytes mod 16)"
      using span_part [OF assms(2), of "unat nbytes - unat nbytes mod 16" "unat nbytes mod 16"] by simp
    define x where "x = unat (dst + (nbytes - ?u))"
    have "x mod 16 = 0" "0x200000 \<le> x" "x < 0x380000"
      using s \<open>unat nbytes mod 16 \<noteq> 0\<close> unfolding x_def rram_span_def by linarith+
    then show ?thesis using unit_room [of x] unfolding rram_span_def x_def [symmetric] by simp
  qed
  then show ?thesis using r o block_write_outside [of "dst + (nbytes - ?u)" _ 16 d1]
    by (auto intro: same_outside_trans split: if_splits)
qed

lemma aligned_outside:
  assumes "dxe_aligned dst src off len d = Some (st, d')" and "rram_span dst (unat len)"
  shows "same_outside d d'"
proof -
  let ?q = "unat (len div 0x3FF0)" and ?r = "len mod 0x3FF0"
  have q: "?q = unat len div 0x3FF0" "unat ?r = unat len mod 0x3FF0" by (simp_all add: unat_div_distrib unat_mod_distrib)
  then have s: "?q * 0x3FF0 + unat ?r = unat len" by (metis div_mult_mod_eq)
  from assms(1) obtain s1 d1 where w: "dxe_full_blocks ?q dst src off d = Some (s1, d1)"
    and r: "(if s1 \<noteq> BL_ERR_NONE then Some (s1, d1)
        else if ?r \<noteq> 0 then dxe_partial (dst + of_nat (?q * 0x3FF0)) src (off + ?q * 0x3FF0) ?r d1 else Some (s1, d1)) = Some (st, d')"
    by (auto simp: dxe_aligned_def Let_def bind_eq_Some_conv)
  have "rram_span dst (?q * 0x3FF0)" using assms(2) s by (simp add: rram_span_def)
  from full_blocks_outside [OF w this] have o: "same_outside d d1" .
  have "(?q * 0x3FF0) mod 16 = 0" by (simp add: mod_mult_right_eq [symmetric])
  then have "rram_span (dst + of_nat (?q * 0x3FF0)) (unat ?r)" using span_part [OF assms(2), of "?q * 0x3FF0" "unat ?r"] s by simp
  then show ?thesis using r o partial_outside by (auto intro: same_outside_trans split: if_splits)
qed

text \<open>The unit that contains an address of RRAM lies in RRAM.\<close>

lemma unit_span:
  assumes "0x200000 \<le> unat dst" and "unat dst \<le> 0x37FFFF"
  shows "rram_span (dst - (dst AND 15)) 16"
proof -
  have "unat (dst - (dst AND 15)) = unat dst - unat dst mod 16" by (simp add: unat_diff_u32 unat_and_15)
  moreover have "(unat dst - unat dst mod 16) mod 16 = 0" by (simp add: minus_mod_eq_mult_div)
  ultimately show ?thesis using assms unit_floor [of "unat dst"] unit_room [of "unat dst - unat dst mod 16"]
    by (simp add: rram_span_def)
qed

lemma fill_block_count: "offset \<le> 16 \<Longrightarrow> snd (fill_block buffer offset bs) = min (16 - offset) (length bs)"
proof (induction bs arbitrary: buffer offset)
  case (Cons b bs)
  then show ?case by (cases "offset < 16") (auto simp: case_prod_beta min_def)
qed simp

lemma unaligned_outside:
  assumes "rram_write_unaligned_dxe dst src len d = Some (st, n, d')" and "0x200000 \<le> unat dst" and "unat dst \<le> 0x37FFFF"
  shows "same_outside d d' \<and> unat n = min (16 - unat dst mod 16) (length (fetch src 0 (unat len) d))"
proof -
  let ?b = "fill_block (mread (dx_mem d) (dst - (dst AND 15)) 16) (unat (dst AND 15)) (fetch src 0 (unat len) d)"
  from assms(1) have w: "rram_block_write_dxe (dst - (dst AND 15)) (fst ?b) 16 d = Some (st, d')" and n: "n = of_nat (snd ?b)"
    by (auto simp: rram_write_unaligned_dxe_def Let_def case_prod_beta bind_eq_Some_conv)
  have "snd ?b = min (16 - unat dst mod 16) (length (fetch src 0 (unat len) d))"
    using fill_block_count [of "unat (dst AND 15)"] by (simp add: unat_and_15)
  moreover have "unat (of_nat (min (16 - unat dst mod 16) k) :: u32) = min (16 - unat dst mod 16) k" for k
    by (rule unat_of_nat_u32) simp
  ultimately show ?thesis using block_write_outside [OF w] unit_span [OF assms(2,3)] n by simp
qed

text \<open>After the first unit the destination is aligned.\<close>

lemma next_unit_span:
  assumes "rram_verify_address dst len = BL_ERR_NONE" and "unat n = 16 - unat dst mod 16" and "n < len"
  shows "rram_span (dst + n) (unat (len - n))"
proof -
  note v = assms(1) [unfolded verify_address_ok]
  have l: "unat n < unat len" using assms(3) by (simp add: word_less_nat_alt)
  have "unat (dst + n) = unat dst + unat n" using v l by (simp add: unat_word_ariths)
  moreover have "unat (len - n) = unat len - unat n" using l by (simp add: unat_diff_u32)
  moreover have "(unat dst + (16 - unat dst mod 16)) mod 16 = 0"
  proof -
    have "unat dst + (16 - unat dst mod 16) = (unat dst div 16) * 16 + 16"
      using div_mult_mod_eq [of "unat dst" 16] mod_less_divisor [of 16 "unat dst"] by linarith
    then show ?thesis by simp
  qed
  ultimately show ?thesis unfolding rram_span_def using v l assms(2) by (intro conjI) (simp, linarith, linarith)
qed

lemma rram_write_outside:
  assumes "rram_write_dxe dst src len d = Some (st, d')" and "length (fetch src 0 (unat len) d) = unat len"
  shows "same_outside d d'"
proof (cases "rram_verify_address dst len = BL_ERR_NONE")
  case False
  then show ?thesis using assms(1) by (simp add: rram_write_dxe_def same_outside_refl)
next
  case ok: True
  note v = ok [unfolded verify_address_ok]
  show ?thesis
  proof (cases "dst AND 15 = 0")
    case True
    then have "rram_span dst (unat len)" using v and_15_zero [of dst] by (simp add: rram_span_def)
    then show ?thesis using assms(1) ok True aligned_outside by (simp add: rram_write_dxe_def)
  next
    case False
    with assms(1) ok obtain s1 n d1 where w: "rram_write_unaligned_dxe dst src len d = Some (s1, n, d1)"
      and r: "(if s1 \<noteq> BL_ERR_NONE \<or> len \<le> n then Some (s1, d1) else dxe_aligned (dst + n) src (unat n) (len - n) d1) = Some (st, d')"
      by (auto simp: rram_write_dxe_def bind_eq_Some_conv)
    have o: "same_outside d d1" and n: "unat n = min (16 - unat dst mod 16) (unat len)"
      using unaligned_outside [OF w] v assms(2) by auto
    have "rram_span (dst + n) (unat (len - n))" if "\<not> len \<le> n"
      using that n by (intro next_unit_span [OF ok]) (auto simp: word_le_nat_alt word_less_nat_alt)
    then show ?thesis using r o aligned_outside by (auto intro: same_outside_trans split: if_splits)
  qed
qed

section \<open>A source below RRAM\<close>

definition holds :: "u32 \<Rightarrow> u8 list \<Rightarrow> dxe \<Rightarrow> bool" where
  "holds a bs d \<longleftrightarrow> unat a + length bs \<le> 0x200000 \<and> mread (dx_mem d) a (length bs) = bs"

lemma holds_outside: "same_outside d d' \<Longrightarrow> holds a bs d \<Longrightarrow> holds a bs d'"
proof -
  assume o: "same_outside d d'" and h: "holds a bs d"
  have "outside_rram (a + of_nat i)" if "i < length bs" for i
    using h that by (simp add: holds_def outside_rram_def unat_word_ariths unat_of_nat_u32)
  then have "mread (dx_mem d') a (length bs) = mread (dx_mem d) a (length bs)"
    using o by (intro nth_equalityI) (auto simp: same_outside_def)
  then show ?thesis using h by (simp add: holds_def)
qed

lemma holds_fetch:
  assumes "holds a bs d" and "off + n \<le> length bs"
  shows "fetch (At a) off n d = fetch (Buf bs) off n d"
  using assms take_drop_mread [of off n "length bs" "dx_mem d" a] by (simp add: fetch_def holds_def)

lemma block_write_holds:
  assumes "rram_block_write_dxe dst xs len d = Some r" and "rram_span dst (unat len)" and "holds a bs d"
  shows "holds a bs (snd r)"
  using block_write_outside [of dst xs len d "fst r" "snd r"] holds_outside [of d "snd r"] assms by simp

lemma full_blocks_source:
  assumes "holds a bs d" and "rram_span dst (n * 0x3FF0)" and "off + n * 0x3FF0 \<le> length bs"
  shows "dxe_full_blocks n dst (At a) off d = dxe_full_blocks n dst (Buf bs) off d"
  using assms
proof (induction n arbitrary: dst off d)
  case (Suc n)
  have f: "fetch (At a) off 0x3FF0 d = fetch (Buf bs) off 0x3FF0 d" using Suc.prems by (intro holds_fetch) simp_all
  have s: "rram_span dst (unat (0x3FF0 :: u32))" using Suc.prems(2) by (simp add: rram_span_def)
  have s2: "rram_span (dst + 0x3FF0) (n * 0x3FF0)" using span_part [OF Suc.prems(2), of "0x3FF0" "n * 0x3FF0"] by simp
  show ?case
  proof (cases "rram_block_write_dxe dst (fetch (Buf bs) off 0x3FF0 d) 0x3FF0 d")
    case (Some r)
    from block_write_holds [OF this s Suc.prems(1)] have "holds a bs (snd r)" .
    then show ?thesis using Suc.IH [of "snd r" "dst + 0x3FF0" "off + 0x3FF0"] Suc.prems(3) s2 f Some
      by (simp add: case_prod_beta)
  qed (simp add: f)
qed simp

lemma partial_source:
  assumes "holds a bs d" and "rram_span dst (unat nbytes)" and "off + unat nbytes \<le> length bs"
  shows "dxe_partial dst (At a) off nbytes d = dxe_partial dst (Buf bs) off nbytes d"
proof -
  let ?u = "nbytes AND 15"
  have u: "unat (nbytes - ?u) = unat nbytes - unat nbytes mod 16" "unat ?u = unat nbytes mod 16"
    by (simp_all add: unat_diff_u32 unat_and_15)
  have f: "fetch (At a) off (unat (nbytes - ?u)) d = fetch (Buf bs) off (unat (nbytes - ?u)) d"
    using assms u by (intro holds_fetch) auto
  have sp: "rram_span dst (unat (nbytes - ?u))" using assms(2) u by (auto simp: rram_span_def)
  show ?thesis
  proof (cases "rram_block_write_dxe dst (fetch (Buf bs) off (unat (nbytes - ?u)) d) (nbytes - ?u) d")
    case (Some r)
    from block_write_holds [OF this sp assms(1)] have "holds a bs (snd r)" .
    then have "fetch (At a) (off + unat (nbytes - ?u)) (unat ?u) (snd r) = fetch (Buf bs) (off + unat (nbytes - ?u)) (unat ?u) (snd r)"
      using assms(3) u by (intro holds_fetch) auto
    then show ?thesis using f Some by (simp add: dxe_partial_def Let_def case_prod_beta)
  qed (simp add: dxe_partial_def Let_def f)
qed

lemma aligned_source:
  assumes "holds a bs d" and "rram_span dst (unat len)" and "off + unat len \<le> length bs"
  shows "dxe_aligned dst (At a) off len d = dxe_aligned dst (Buf bs) off len d"
proof -
  let ?q = "unat (len div 0x3FF0)" and ?r = "len mod 0x3FF0"
  have "?q = unat len div 0x3FF0" "unat ?r = unat len mod 0x3FF0" by (simp_all add: unat_div_distrib unat_mod_distrib)
  then have s: "?q * 0x3FF0 + unat ?r = unat len" by (metis div_mult_mod_eq)
  have sp: "rram_span dst (?q * 0x3FF0)" using assms(2) s by (simp add: rram_span_def)
  have f: "dxe_full_blocks ?q dst (At a) off d = dxe_full_blocks ?q dst (Buf bs) off d"
    using full_blocks_source [OF assms(1) sp, of off] assms(3) s by simp
  have "(?q * 0x3FF0) mod 16 = 0" by (simp add: mod_mult_right_eq [symmetric])
  then have sr: "rram_span (dst + of_nat (?q * 0x3FF0)) (unat ?r)" using span_part [OF assms(2), of "?q * 0x3FF0" "unat ?r"] s by simp
  show ?thesis
  proof (cases "dxe_full_blocks ?q dst (Buf bs) off d")
    case (Some r)
    then have "holds a bs (snd r)"
      using full_blocks_outside [of ?q dst "Buf bs" off d "fst r" "snd r", OF _ sp] holds_outside assms(1) by auto
    then show ?thesis
      using partial_source [OF _ sr, of a bs "snd r" "off + ?q * 0x3FF0"] assms(3) s f Some
      by (simp add: dxe_aligned_def Let_def case_prod_beta)
  qed (simp add: dxe_aligned_def Let_def f)
qed

lemma rram_write_source:
  assumes "holds a bs d" and "length bs = unat len"
  shows "rram_write_dxe dst (At a) len d = rram_write_dxe dst (Buf bs) len d"
proof (cases "rram_verify_address dst len = BL_ERR_NONE")
  case ok: True
  note v = ok [unfolded verify_address_ok]
  have f: "fetch (At a) 0 (unat len) d = fetch (Buf bs) 0 (unat len) d" using assms by (intro holds_fetch) simp_all
  then have w: "rram_write_unaligned_dxe dst (At a) len d = rram_write_unaligned_dxe dst (Buf bs) len d"
    by (simp add: rram_write_unaligned_dxe_def)
  show ?thesis
  proof (cases "dst AND 15 = 0")
    case True
    then have "rram_span dst (unat len)" using v and_15_zero [of dst] by (simp add: rram_span_def)
    then show ?thesis using aligned_source [OF assms(1), of dst len 0] assms(2) ok True by (simp add: rram_write_dxe_def)
  next
    case False
    have "dxe_aligned (dst + n) (At a) (unat n) (len - n) d1 = dxe_aligned (dst + n) (Buf bs) (unat n) (len - n) d1"
      if r: "rram_write_unaligned_dxe dst (Buf bs) len d = Some (s1, n, d1)" and l: "\<not> len \<le> n" for s1 n d1
    proof -
      have u: "same_outside d d1" "unat n = min (16 - unat dst mod 16) (unat len)"
        using unaligned_outside [OF r] v assms(2) by (auto simp: fetch_def)
      have "rram_span (dst + n) (unat (len - n))"
        using l u(2) by (intro next_unit_span [OF ok]) (auto simp: word_le_nat_alt word_less_nat_alt)
      moreover have "unat n + unat (len - n) \<le> length bs"
        using l assms(2) by (simp add: unat_diff_u32 word_le_nat_alt)
      ultimately show ?thesis using aligned_source holds_outside [OF u(1) assms(1)] by blast
    qed
    then show ?thesis using ok False w
      by (cases "rram_write_unaligned_dxe dst (Buf bs) len d") (auto simp: rram_write_dxe_def)
  qed
qed (simp add: rram_write_dxe_def)

text \<open>On a working engine the bytes of the source are stored.\<close>

lemma rram_write_at_stores:
  assumes "dxe_ok d" and "rram_verify_address dst len = BL_ERR_NONE" and "unat a + unat len \<le> 0x200000"
  shows "dxe_stores d (mwrite (dx_mem d) dst (mread (dx_mem d) a (unat len))) (rram_write_dxe dst (At a) len d)"
proof -
  have "holds a (mread (dx_mem d) a (unat len)) d" using assms(3) by (simp add: holds_def)
  from rram_write_source [OF this] rram_write_dxe_stores [OF assms(1,2), of "mread (dx_mem d) a (unat len)"]
  show ?thesis using unat_u32_bound [of len] by simp
qed

end
