(* ===== verification/HostedDfu.thy ===== *)
theory HostedDfu
  imports SblBoot DxeSource
begin

text \<open>
  Image download of the hosted boot loader, \<open>src/bootloader/HOSTED_SBL/src/wifi_fw_sys_img_loader.c\<close>, and its use in
  \<open>src/bootloader/HOSTED_SBL/src/sbl_main.c\<close>. The host and the boot loader exchange messages through two rings in
  shared memory (\<open>a2f\<close>: host to device, \<open>f2a\<close>: device to host); the boot loader asks for an image packet by packet and
  writes it to RRAM with the routines of \<open>SblRram\<close>.

  The state \<open>dfu\<close> holds the rings with their private shadow copies, the table shown to the host with its shadow, the
  context and the state of \<open>sys_loader\<close>. Messages are bytes in memory. An access outside a ring's array is the result
  \<open>Fault\<close>. The inner wait of \<open>sys_loader\<close> for an empty ring is the flag \<open>ld_drain\<close>. Addresses the linker provides are the record
  \<open>dfu_layout\<close>. The host runs between any two passes. All of the rings, the messages and the table are in memory the host
  can write; \<open>host_may\<close> is what a host does that keeps to the protocol.
\<close>

unbundle bit_operations_syntax

section \<open>Data\<close>

datatype sbl_func_status = SBL_FUNC_FAILURE | SBL_FUNC_SUCCESS | SBL_FUNC_RESET

datatype ring_direction = F2A_RING | A2F_RING

datatype sys_img_load_state =
    WAIT_FOR_DFU | CHECK_FOR_DFU_BITMAP | REQUEST_PROGRAM | WAIT_FOR_PROGRAM
  | RESOURCE_TRANSFER_COMPLETED | RESOURCE_TRANSFER_CONFIRM | SEND_REBOOT_CMD | RESOURCE_WAIT_FOR_REBOOT

record dfu_ring_element =
  p_buf :: u32
  elem_len :: u16
  elem_info :: u16

record ring_handle =
  dfu_ring_elem_size :: u8
  dfu_ring_num_elems :: u8
  dfu_read_idx :: u32
  dfu_write_idx :: u32
  ring_element :: "dfu_ring_element list"

record dfu_ring_handle =
  dfu_ring :: ring_handle
  shadow_dfu_ring :: ring_handle

record wifi_fw_dfu_defaults =
  table_hdr :: u32
  table_len :: u16
  wifi_fw_pbl_ver :: u32
  wifi_fw_wlan_ver :: u32
  wifi_fw_sbl_ver :: u32
  wifi_fw_bdf_ver :: u32
  wifi_fw_reg_db_ver :: u32
  wifi_fw_ini_ver :: u32
  ring_elem_sizes :: "u8 \<times> u8"
  ring_num_elems :: "u8 \<times> u8"
  ring_pointers :: "u32 list"

record sys_loader_cntxt =
  softid_in_progress :: u8
  start_offset :: u32
  dfu_file_size :: u32
  prog_len :: u32
  running_offset :: u32
  total_pkts :: u16
  curr_pkt_count :: u16
  softid_dfu_bitmap :: u8
  softid_dfu_done_bitmap :: u8

record ring_data_desc =
  p_buff :: u32
  data_len :: u32
  desc_index :: u8

record dfu =
  d_dxe :: dxe
  a2f_dfu_ring_handle :: dfu_ring_handle
  f2a_dfu_ring_handle :: dfu_ring_handle
  fermion_dfu_defaults :: wifi_fw_dfu_defaults
  shadow_fermion_defaults :: wifi_fw_dfu_defaults
  cntxt :: sys_loader_cntxt
  ld_state :: sys_img_load_state
  ld_drain :: bool

record dfu_layout =
  ly_fdt_reg :: u32
  ly_pointers :: "u32 list"
  ly_app_image_start :: u32
  ly_raw_file_start :: u32
  ly_bdf_addr :: u32

datatype dfu_step = Next dfu | Return sbl_func_status dfu | Fault

abbreviation d_mem :: "dfu \<Rightarrow> mem" where "d_mem s \<equiv> dx_mem (d_dxe s)"

abbreviation (input) MAX_NUMBER_OF_ELEMENTS :: nat where "MAX_NUMBER_OF_ELEMENTS \<equiv> 2"
abbreviation (input) A2F_ELEMENT_LEN :: u16 where "A2F_ELEMENT_LEN \<equiv> 0x6000"
abbreviation (input) F2A_ELEMENT_LEN :: u16 where "F2A_ELEMENT_LEN \<equiv> 0x200"
abbreviation (input) A2F_BUF_START :: u32 where "A2F_BUF_START \<equiv> 0x1003C"
abbreviation (input) F2A_BUF_START :: u32 where "F2A_BUF_START \<equiv> 0x1C044"
abbreviation (input) CONFIG_INFO_DFU :: u16 where "CONFIG_INFO_DFU \<equiv> 6"
abbreviation (input) INVALID_FW_VERSION :: u32 where "INVALID_FW_VERSION \<equiv> 0xFFFFFFFF"
abbreviation (input) WIFI_FW_SBL_ENTERED_PATTERN :: u32 where "WIFI_FW_SBL_ENTERED_PATTERN \<equiv> 0xF2AFACE1"
abbreviation (input) DFU_FINISHED :: u32 where "DFU_FINISHED \<equiv> 3"
abbreviation (input) DFU_BUFF_SIZE :: u32 where "DFU_BUFF_SIZE \<equiv> 1024"
abbreviation (input) WLAN_IMG_ID :: u8 where "WLAN_IMG_ID \<equiv> 2"
abbreviation (input) BDF_ID :: u8 where "BDF_ID \<equiv> 4"
abbreviation (input) HOST_CMD_RESET :: u8 where "HOST_CMD_RESET \<equiv> 0x7F"
abbreviation (input) HOST_CMD_BOOT :: u8 where "HOST_CMD_BOOT \<equiv> 0x3F"
abbreviation (input) A2F_DFU_REQ :: u16 where "A2F_DFU_REQ \<equiv> 1"
abbreviation (input) A2F_DFU_DATA_TRANSFER_CFM :: u16 where "A2F_DFU_DATA_TRANSFER_CFM \<equiv> 2"
abbreviation (input) A2F_DFU_DATA_TRANSFER_DONE_RSP :: u16 where "A2F_DFU_DATA_TRANSFER_DONE_RSP \<equiv> 3"
abbreviation (input) F2A_DFU_CFM :: u8 where "F2A_DFU_CFM \<equiv> 1"
abbreviation (input) F2A_DFU_DATA_TRANSFER_REQ :: u8 where "F2A_DFU_DATA_TRANSFER_REQ \<equiv> 2"
abbreviation (input) F2A_DFU_DATA_TRANSFER_DONE_IND :: u8 where "F2A_DFU_DATA_TRANSFER_DONE_IND \<equiv> 3"
abbreviation (input) F2A_DFU_REBOOT_REQ :: u8 where "F2A_DFU_REBOOT_REQ \<equiv> 4"

section \<open>Rings\<close>

definition upd_a2f :: "(dfu_ring_handle \<Rightarrow> dfu_ring_handle) \<Rightarrow> dfu \<Rightarrow> dfu" where
  "upd_a2f f s = s\<lparr>a2f_dfu_ring_handle := f (a2f_dfu_ring_handle s)\<rparr>"

definition upd_f2a :: "(dfu_ring_handle \<Rightarrow> dfu_ring_handle) \<Rightarrow> dfu \<Rightarrow> dfu" where
  "upd_f2a f s = s\<lparr>f2a_dfu_ring_handle := f (f2a_dfu_ring_handle s)\<rparr>"

definition upd_cntxt :: "(sys_loader_cntxt \<Rightarrow> sys_loader_cntxt) \<Rightarrow> dfu \<Rightarrow> dfu" where
  "upd_cntxt f s = s\<lparr>cntxt := f (cntxt s)\<rparr>"

definition upd_mem :: "(mem \<Rightarrow> mem) \<Rightarrow> dfu \<Rightarrow> dfu" where
  "upd_mem f s = s\<lparr>d_dxe := (d_dxe s)\<lparr>dx_mem := f (d_mem s)\<rparr>\<rparr>"

text \<open>The checks of \<open>check_dfu_ring_integrity\<close> only print.\<close>

definition check_dfu_ring_integrity :: "dfu_ring_handle \<Rightarrow> ring_direction \<Rightarrow> sbl_func_status" where
  "check_dfu_ring_integrity h direction = SBL_FUNC_SUCCESS"

definition check_config_table_integrity :: "dfu \<Rightarrow> sbl_func_status" where
  "check_config_table_integrity s =
     (if shadow_fermion_defaults s = fermion_dfu_defaults s then SBL_FUNC_SUCCESS else SBL_FUNC_FAILURE)"

definition increment_read_index :: "dfu_ring_handle \<Rightarrow> dfu_ring_handle" where
  "increment_read_index h =
     (let read_index = ucast (dfu_read_idx (dfu_ring h)) :: u8;
          read_index = ucast ((ucast read_index + 1 :: u32) mod ucast (dfu_ring_num_elems (dfu_ring h))) :: u8 in
      h\<lparr>shadow_dfu_ring := (shadow_dfu_ring h)\<lparr>dfu_read_idx := ucast read_index\<rparr>,
        dfu_ring := (dfu_ring h)\<lparr>dfu_read_idx := ucast read_index\<rparr>\<rparr>)"

definition increment_write_index :: "dfu_ring_handle \<Rightarrow> dfu_ring_handle" where
  "increment_write_index h =
     (let write_index = ucast (dfu_write_idx (dfu_ring h)) :: u8;
          write_index = ucast ((ucast write_index + 1 :: u32) mod ucast (dfu_ring_num_elems (dfu_ring h))) :: u8 in
      h\<lparr>shadow_dfu_ring := (shadow_dfu_ring h)\<lparr>dfu_write_idx := ucast write_index\<rparr>,
        dfu_ring := (dfu_ring h)\<lparr>dfu_write_idx := ucast write_index\<rparr>\<rparr>)"

text \<open>The place of a buffer, behind which a boundary word stands.\<close>

definition buf_place :: "ring_direction \<Rightarrow> u8 \<Rightarrow> u32" where
  "buf_place direction index =
     (if direction = A2F_RING then A2F_BUF_START + ucast index * 0x6004 else F2A_BUF_START + ucast index * 0x204)"

definition elem_room :: "ring_direction \<Rightarrow> u16" where
  "elem_room direction = (if direction = A2F_RING then A2F_ELEMENT_LEN else F2A_ELEMENT_LEN)"

definition set_elem :: "nat \<Rightarrow> (dfu_ring_element \<Rightarrow> dfu_ring_element) \<Rightarrow> ring_handle \<Rightarrow> ring_handle" where
  "set_elem i f r = r\<lparr>ring_element := (ring_element r)[i := f (ring_element r ! i)]\<rparr>"

definition upd_ring :: "ring_direction \<Rightarrow> (dfu_ring_handle \<Rightarrow> dfu_ring_handle) \<Rightarrow> dfu \<Rightarrow> dfu" where
  "upd_ring direction f = (if direction = A2F_RING then upd_a2f f else upd_f2a f)"

definition attach_buffer_to_element :: "ring_direction \<Rightarrow> u8 \<Rightarrow> dfu \<Rightarrow> bool \<times> dfu" where
  "attach_buffer_to_element direction index s =
     (if unat index < MAX_NUMBER_OF_ELEMENTS
      then (True,
        upd_mem (\<lambda>m. mwrite m (buf_place direction index + ucast (elem_room direction)) (enc32 0xFACEFACE))
         (upd_ring direction (\<lambda>h.
            h\<lparr>dfu_ring := set_elem (unat index) (\<lambda>e. e\<lparr>p_buf := buf_place direction index, elem_len := elem_room direction,
                elem_info := CONFIG_INFO_DFU\<rparr>) (dfu_ring h),
              shadow_dfu_ring := set_elem (unat index) (\<lambda>e. e\<lparr>p_buf := buf_place direction index,
                elem_len := elem_room direction\<rparr>) (shadow_dfu_ring h)\<rparr>) s))
      else (False, s))"

text \<open>A boundary word that was overwritten is only reported.\<close>

definition detach_buffer_from_element :: "ring_direction \<Rightarrow> u8 \<Rightarrow> dfu \<Rightarrow> bool \<times> dfu" where
  "detach_buffer_from_element direction index s =
     (if unat index < MAX_NUMBER_OF_ELEMENTS
      then (True, upd_ring direction (\<lambda>h.
          h\<lparr>dfu_ring := set_elem (unat index) (\<lambda>e. e\<lparr>p_buf := 0, elem_len := 0\<rparr>) (dfu_ring h),
            shadow_dfu_ring := set_elem (unat index) (\<lambda>e. e\<lparr>p_buf := 0, elem_len := 0\<rparr>) (shadow_dfu_ring h)\<rparr>) s)
      else (False, s))"

definition zero_ring :: ring_handle where
  "zero_ring = \<lparr>dfu_ring_elem_size = 0, dfu_ring_num_elems = 0, dfu_read_idx = 0, dfu_write_idx = 0,
     ring_element = replicate MAX_NUMBER_OF_ELEMENTS \<lparr>p_buf = 0, elem_len = 0, elem_info = 0\<rparr>\<rparr>"

definition init_ring_param :: "dfu \<Rightarrow> dfu" where
  "init_ring_param s =
     (let r = zero_ring\<lparr>dfu_ring_elem_size := 12, dfu_ring_num_elems := 2\<rparr>;
          h = \<lparr>dfu_ring = r, shadow_dfu_ring = zero_ring\<rparr>;
          s = s\<lparr>a2f_dfu_ring_handle := h, f2a_dfu_ring_handle := h\<rparr>;
          s = fold (\<lambda>i s. snd (attach_buffer_to_element F2A_RING i (snd (attach_buffer_to_element A2F_RING i s)))) [0, 1] s in
      upd_a2f (\<lambda>h. h\<lparr>shadow_dfu_ring := dfu_ring h\<rparr>) (upd_f2a (\<lambda>h. h\<lparr>shadow_dfu_ring := dfu_ring h\<rparr>) s))"

text \<open>The state of a resource in the table of images: \<open>dfu_status\<close> of its 64-byte descriptor.\<close>

definition fdt_version :: "u32 \<Rightarrow> dfu_layout \<Rightarrow> mem \<Rightarrow> u32" where
  "fdt_version off ly m = (if rd32 m (ly_fdt_reg ly + off + 44) \<noteq> DFU_FINISHED then INVALID_FW_VERSION else 0)"

definition init_config_table :: "dfu_layout \<Rightarrow> dfu \<Rightarrow> dfu" where
  "init_config_table ly s =
     (let s = init_ring_param s; m = d_mem s;
          a = dfu_ring (a2f_dfu_ring_handle s); f = dfu_ring (f2a_dfu_ring_handle s);
          t = \<lparr>table_hdr = WIFI_FW_SBL_ENTERED_PATTERN, table_len = 60, wifi_fw_pbl_ver = 0,
               wifi_fw_wlan_ver = fdt_version 256 ly m, wifi_fw_sbl_ver = fdt_version 0 ly m,
               wifi_fw_bdf_ver = fdt_version 128 ly m, wifi_fw_reg_db_ver = fdt_version 192 ly m,
               wifi_fw_ini_ver = fdt_version 320 ly m,
               ring_elem_sizes = (dfu_ring_elem_size a, dfu_ring_elem_size f),
               ring_num_elems = (dfu_ring_num_elems a, dfu_ring_num_elems f), ring_pointers = ly_pointers ly\<rparr> in
      s\<lparr>fermion_dfu_defaults := t, shadow_fermion_defaults := t\<rparr>)"

definition clear_dfu_table_hdr :: "dfu \<Rightarrow> dfu" where
  "clear_dfu_table_hdr s = s\<lparr>fermion_dfu_defaults := (fermion_dfu_defaults s)\<lparr>table_hdr := 0\<rparr>\<rparr>"

definition checks_pass :: "dfu_ring_handle \<Rightarrow> ring_direction \<Rightarrow> dfu \<Rightarrow> bool" where
  "checks_pass h direction s \<longleftrightarrow>
     check_config_table_integrity s = SBL_FUNC_SUCCESS \<and> check_dfu_ring_integrity h direction = SBL_FUNC_SUCCESS"

definition ring_empty :: "dfu_ring_handle \<Rightarrow> bool" where
  "ring_empty h \<longleftrightarrow> dfu_read_idx (dfu_ring h) = dfu_write_idx (dfu_ring h)"

definition a2f_dfu_ring_check_empty :: "dfu \<Rightarrow> bool" where
  "a2f_dfu_ring_check_empty s \<longleftrightarrow>
     (if checks_pass (a2f_dfu_ring_handle s) A2F_RING s then ring_empty (a2f_dfu_ring_handle s) else True)"

definition f2a_dfu_ring_check_empty :: "dfu \<Rightarrow> bool" where
  "f2a_dfu_ring_check_empty s \<longleftrightarrow>
     (if checks_pass (f2a_dfu_ring_handle s) F2A_RING s then ring_empty (f2a_dfu_ring_handle s) else True)"

definition f2a_dfu_ring_check_occupancy :: "dfu \<Rightarrow> bool" where
  "f2a_dfu_ring_check_occupancy s \<longleftrightarrow>
     checks_pass (f2a_dfu_ring_handle s) F2A_RING s \<and>
     (let r = dfu_ring (f2a_dfu_ring_handle s) in
      dfu_read_idx r \<noteq> (dfu_write_idx r + 1) mod ucast (dfu_ring_num_elems r))"

section \<open>Messages\<close>

definition rd16 :: "mem \<Rightarrow> u32 \<Rightarrow> u16" where
  "rd16 m a = le16 (mread m a 2)"

text \<open>The buffer of the element at an index, if the array has that element.\<close>

definition elem_buf :: "ring_handle \<Rightarrow> u8 \<Rightarrow> u32 option" where
  "elem_buf r i = (if unat i < length (ring_element r) then Some (p_buf (ring_element r ! unat i)) else None)"

definition recieve_dfu_req :: "dfu \<Rightarrow> (bool \<times> dfu) option" where
  "recieve_dfu_req s =
     (if a2f_dfu_ring_check_empty s then Some (False, s)
      else
       (let r = dfu_ring (a2f_dfu_ring_handle s); read_index = ucast (dfu_read_idx r) :: u8 in
        case elem_buf r read_index of
          None \<Rightarrow> None
        | Some p \<Rightarrow>
            if rd16 (d_mem s) p = A2F_DFU_REQ
            then Some (True,
              upd_cntxt (\<lambda>c. c\<lparr>softid_dfu_bitmap := d_mem s (p + 8), dfu_file_size := rd32 (d_mem s) (p + 4)\<rparr>)
               (upd_a2f (\<lambda>h. increment_read_index
                  (h\<lparr>dfu_ring := set_elem (unat read_index) (\<lambda>e. e\<lparr>elem_len := A2F_ELEMENT_LEN\<rparr>) (dfu_ring h)\<rparr>)) s))
            else Some (False, s)))"

text \<open>Sending: a message is put into the buffer at the write index when the ring has room.\<close>

definition f2a_send :: "(u32 \<Rightarrow> mem \<Rightarrow> mem) \<Rightarrow> u16 \<Rightarrow> dfu \<Rightarrow> (bool \<times> dfu) option" where
  "f2a_send fill len s =
     (if f2a_dfu_ring_check_occupancy s
      then
       (let r = dfu_ring (f2a_dfu_ring_handle s); write_index = ucast (dfu_write_idx r) :: u8 in
        case elem_buf r write_index of
          None \<Rightarrow> None
        | Some p \<Rightarrow> Some (True,
            upd_f2a (\<lambda>h. increment_write_index
              (h\<lparr>dfu_ring := set_elem (unat write_index) (\<lambda>e. e\<lparr>elem_len := len\<rparr>) (dfu_ring h)\<rparr>)) (upd_mem (fill p) s)))
      else Some (False, s))"

definition msg_hdr :: "u8 \<Rightarrow> u8 list" where
  "msg_hdr iid = [iid, 0, 0]"

definition send_dfu_confirm :: "dfu \<Rightarrow> (bool \<times> dfu) option" where
  "send_dfu_confirm = f2a_send (\<lambda>p m. mwrite m p (msg_hdr F2A_DFU_CFM)) 4"

definition send_dfu_data_transfer_req :: "u32 \<Rightarrow> u32 \<Rightarrow> u8 \<Rightarrow> dfu \<Rightarrow> (bool \<times> dfu) option" where
  "send_dfu_data_transfer_req offset len soft_id =
     f2a_send (\<lambda>p m. mwrite (mwrite m p (msg_hdr F2A_DFU_DATA_TRANSFER_REQ)) (p + 4) (enc32 offset @ enc32 len @ [soft_id])) 16"

definition send_dfu_reboot_fermion_req :: "dfu \<Rightarrow> (bool \<times> dfu) option" where
  "send_dfu_reboot_fermion_req = f2a_send (\<lambda>p m. mwrite m p (msg_hdr F2A_DFU_REBOOT_REQ)) 4"

definition send_dfu_transfer_done_ind :: "dfu \<Rightarrow> (bool \<times> dfu) option" where
  "send_dfu_transfer_done_ind s =
     f2a_send (\<lambda>p m. mwrite (mwrite m p (msg_hdr F2A_DFU_DATA_TRANSFER_DONE_IND)) (p + 4) [softid_in_progress (cntxt s)]) 8 s"

text \<open>The comparison with what was asked for has no effect; a message of another kind leaves the descriptor zero.\<close>

definition recieve_dfu_data_transfer_confirm :: "dfu \<Rightarrow> ((ring_data_desc option) \<times> dfu) option" where
  "recieve_dfu_data_transfer_confirm s =
     (if a2f_dfu_ring_check_empty s then Some (None, s)
      else
       (let r = dfu_ring (a2f_dfu_ring_handle s); read_index = ucast (dfu_read_idx r) :: u8 in
        case elem_buf r read_index of
          None \<Rightarrow> None
        | Some p \<Rightarrow>
            (let (desc, s) =
               (if rd16 (d_mem s) p = A2F_DFU_DATA_TRANSFER_CFM
                then (\<lparr>p_buff = p + 16, data_len = rd32 (d_mem s) (p + 8), desc_index = read_index\<rparr>,
                      snd (detach_buffer_from_element A2F_RING read_index s))
                else (\<lparr>p_buff = 0, data_len = 0, desc_index = 0\<rparr>, s)) in
             Some (Some desc, upd_a2f increment_read_index s))))"

definition recieve_dfu_transfer_done_rsp :: "dfu \<Rightarrow> ((u8 option) \<times> dfu) option" where
  "recieve_dfu_transfer_done_rsp s =
     (if a2f_dfu_ring_check_empty s then Some (None, s)
      else
       (let r = dfu_ring (a2f_dfu_ring_handle s); read_index = ucast (dfu_read_idx r) :: u8 in
        case elem_buf r read_index of
          None \<Rightarrow> None
        | Some p \<Rightarrow>
            if rd16 (d_mem s) p = A2F_DFU_DATA_TRANSFER_DONE_RSP
            then Some (Some (d_mem s (p + 4)),
              upd_a2f (\<lambda>h. increment_read_index
                (h\<lparr>dfu_ring := set_elem (unat read_index) (\<lambda>e. e\<lparr>elem_len := A2F_ELEMENT_LEN\<rparr>) (dfu_ring h)\<rparr>)) s)
            else Some (None, s)))"

section \<open>The loader\<close>

text \<open>\<open>with_msg\<close>: an operation on a ring, or the fault of an index outside it.\<close>

definition with_msg :: "('a \<times> dfu) option \<Rightarrow> ('a \<Rightarrow> dfu \<Rightarrow> dfu_step) \<Rightarrow> dfu_step" where
  "with_msg r f = (case r of None \<Rightarrow> Fault | Some (a, s) \<Rightarrow> f a s)"

definition wait_for_dfu :: "dfu \<Rightarrow> dfu_step" where
  "wait_for_dfu s = with_msg (recieve_dfu_req s) (\<lambda>ok s.
     if ok
     then (let s = s\<lparr>ld_state := CHECK_FOR_DFU_BITMAP\<rparr> in
           if softid_dfu_bitmap (cntxt s) = HOST_CMD_RESET then Return SBL_FUNC_RESET s
           else if softid_dfu_bitmap (cntxt s) = HOST_CMD_BOOT then Return SBL_FUNC_SUCCESS s
           else Next s)
     else Next s)"

text \<open>The packets of an image; the count is kept in 16 bits.\<close>

definition packets_of :: "u32 \<Rightarrow> u16" where
  "packets_of img_filesize =
     (let n = ucast (img_filesize div DFU_BUFF_SIZE) :: u16;
          n = (if img_filesize mod DFU_BUFF_SIZE \<noteq> 0 then n + 1 else n) in
      if n = 0 then n + 1 else n)"

definition start_resource :: "sys_loader_cntxt \<Rightarrow> sys_loader_cntxt" where
  "start_resource c =
     (let c = c\<lparr>softid_dfu_done_bitmap := 0\<rparr>; dfu_bitmap = softid_dfu_bitmap c XOR softid_dfu_done_bitmap c in
      c\<lparr>total_pkts := packets_of (dfu_file_size c), curr_pkt_count := 0, start_offset := 0,
        softid_in_progress := (if dfu_bitmap AND WLAN_IMG_ID \<noteq> 0 then WLAN_IMG_ID
          else if dfu_bitmap AND BDF_ID \<noteq> 0 then BDF_ID else 0),
        prog_len := DFU_BUFF_SIZE\<rparr>)"

definition check_for_dfu_bitmap :: "dfu \<Rightarrow> dfu_step" where
  "check_for_dfu_bitmap s =
     (if ld_drain s
      then (if f2a_dfu_ring_check_empty s then Return SBL_FUNC_SUCCESS (s\<lparr>ld_drain := False\<rparr>) else Next s)
      else with_msg (send_dfu_confirm s) (\<lambda>ok s.
        if \<not> ok then Next s
        else if softid_dfu_bitmap (cntxt s) = 0 then Next (s\<lparr>ld_drain := True\<rparr>)
        else Next ((upd_cntxt start_resource s)\<lparr>ld_state := REQUEST_PROGRAM\<rparr>)))"

definition packet_len :: "sys_loader_cntxt \<Rightarrow> u32" where
  "packet_len c =
     (if ucast (curr_pkt_count c) = (ucast (total_pkts c) - 1 :: u32)
      then (if dfu_file_size c mod DFU_BUFF_SIZE = 0 then DFU_BUFF_SIZE else dfu_file_size c mod DFU_BUFF_SIZE)
      else DFU_BUFF_SIZE)"

definition request_program :: "dfu \<Rightarrow> dfu_step" where
  "request_program s =
     (if curr_pkt_count (cntxt s) \<le> total_pkts (cntxt s)
      then
       (let s = upd_cntxt (\<lambda>c. c\<lparr>prog_len := packet_len c,
                  running_offset := start_offset c + ucast (curr_pkt_count c) * DFU_BUFF_SIZE\<rparr>) s in
        with_msg (send_dfu_data_transfer_req (running_offset (cntxt s)) (prog_len (cntxt s)) (softid_in_progress (cntxt s)) s)
          (\<lambda>ok s. Next (if ok then s\<lparr>ld_state := WAIT_FOR_PROGRAM\<rparr> else s)))
      else Next (s\<lparr>ld_state := RESOURCE_TRANSFER_COMPLETED\<rparr>))"

definition file_start :: "dfu_layout \<Rightarrow> u8 \<Rightarrow> u32" where
  "file_start ly soft_id =
     (if soft_id = WLAN_IMG_ID then ly_app_image_start ly else if soft_id = BDF_ID then ly_bdf_addr ly else 0)"

definition dst_refused :: "dfu_layout \<Rightarrow> u8 \<Rightarrow> u32 \<Rightarrow> bool" where
  "dst_refused ly soft_id dst \<longleftrightarrow>
     soft_id = WLAN_IMG_ID \<and> (dst < ly_app_image_start ly \<or> ly_raw_file_start ly < dst) \<or>
     soft_id = BDF_ID \<and> (dst < 0x37A000 \<or> 0x380000 < dst)"

text \<open>The status of the write is only printed.\<close>

definition wait_for_program :: "dfu_layout \<Rightarrow> dfu \<Rightarrow> dfu_step waits" where
  "wait_for_program ly s =
     (case recieve_dfu_data_transfer_confirm s of
        None \<Rightarrow> Some Fault
      | Some (None, s) \<Rightarrow> Some (Next s)
      | Some (Some desc, s) \<Rightarrow>
          (let soft_id = softid_in_progress (cntxt s);
               dst = file_start ly soft_id + (running_offset (cntxt s) - start_offset (cntxt s)) in
           if dst_refused ly soft_id dst then Some (Next s)
           else do {
             (rram_write_status, d) \<leftarrow> rram_write_dxe dst (At (p_buff desc)) (data_len desc) (d_dxe s);
             let s = snd (attach_buffer_to_element A2F_RING (desc_index desc) (s\<lparr>d_dxe := d\<rparr>));
             let s = upd_cntxt (\<lambda>c. c\<lparr>curr_pkt_count := curr_pkt_count c + 1\<rparr>) s;
             Some (Next (s\<lparr>ld_state := (if curr_pkt_count (cntxt s) < total_pkts (cntxt s) then REQUEST_PROGRAM
                     else RESOURCE_TRANSFER_COMPLETED)\<rparr>))
           }))"

definition transfer_completed :: "dfu \<Rightarrow> dfu_step" where
  "transfer_completed s =
     with_msg (send_dfu_transfer_done_ind s) (\<lambda>ok s. Next (if ok then s\<lparr>ld_state := RESOURCE_TRANSFER_CONFIRM\<rparr> else s))"

definition transfer_confirm :: "dfu \<Rightarrow> dfu_step" where
  "transfer_confirm s =
     (let soft_id = softid_in_progress (cntxt s) in
      with_msg (recieve_dfu_transfer_done_rsp s) (\<lambda>rsp s.
        case rsp of
          None \<Rightarrow> Next s
        | Some more_resource \<Rightarrow>
            Next ((upd_cntxt (\<lambda>c. c\<lparr>softid_dfu_done_bitmap := softid_dfu_done_bitmap c OR soft_id\<rparr>) s)
              \<lparr>ld_state := (if more_resource \<noteq> 0 then WAIT_FOR_DFU else if WLAN_IMG_ID \<le> soft_id then WAIT_FOR_DFU
                 else SEND_REBOOT_CMD)\<rparr>)))"

definition send_reboot :: "dfu \<Rightarrow> dfu_step" where
  "send_reboot s =
     with_msg (send_dfu_reboot_fermion_req s) (\<lambda>ok s.
       if ok then Return SBL_FUNC_SUCCESS (s\<lparr>ld_state := RESOURCE_WAIT_FOR_REBOOT\<rparr>) else Next s)"

text \<open>One pass of the loop of \<open>sys_loader\<close>.\<close>

definition sys_loader_pass :: "dfu_layout \<Rightarrow> dfu \<Rightarrow> dfu_step waits" where
  "sys_loader_pass ly s =
     (case ld_state s of
        WAIT_FOR_DFU \<Rightarrow> Some (wait_for_dfu s)
      | CHECK_FOR_DFU_BITMAP \<Rightarrow> Some (check_for_dfu_bitmap s)
      | REQUEST_PROGRAM \<Rightarrow> Some (request_program s)
      | WAIT_FOR_PROGRAM \<Rightarrow> wait_for_program ly s
      | RESOURCE_TRANSFER_COMPLETED \<Rightarrow> Some (transfer_completed s)
      | RESOURCE_TRANSFER_CONFIRM \<Rightarrow> Some (transfer_confirm s)
      | SEND_REBOOT_CMD \<Rightarrow> Some (send_reboot s)
      | RESOURCE_WAIT_FOR_REBOOT \<Rightarrow> Some (Next (s\<lparr>ld_state := WAIT_FOR_DFU\<rparr>)))"

definition sys_loader_init :: "dfu_layout \<Rightarrow> dfu \<Rightarrow> dfu" where
  "sys_loader_init ly s = (init_config_table ly s)\<lparr>ld_state := WAIT_FOR_DFU, ld_drain := False\<rparr>"

text \<open>The loader with a host that acts before each pass; \<open>None\<close> when it never returns.\<close>

partial_function (option) sys_loader_loop :: "dfu_layout \<Rightarrow> (nat \<Rightarrow> dfu \<Rightarrow> dfu) \<Rightarrow> nat \<Rightarrow> dfu \<Rightarrow> dfu_step option" where
  "sys_loader_loop ly host n s =
     (case sys_loader_pass ly (host n s) of
        None \<Rightarrow> None
      | Some (Next s) \<Rightarrow> sys_loader_loop ly host (Suc n) s
      | Some r \<Rightarrow> Some r)"

definition sys_loader :: "dfu_layout \<Rightarrow> (nat \<Rightarrow> dfu \<Rightarrow> dfu) \<Rightarrow> dfu \<Rightarrow> dfu_step option" where
  "sys_loader ly host s = sys_loader_loop ly host 0 (sys_loader_init ly s)"

text \<open>
  \<open>loader_start\<close> of the hosted boot loader: the download, then the binary of the descriptor table or the default place is
  entered, without authentication. On a reset command the chip is reset.
\<close>

definition hosted_start_addr :: "u32 \<Rightarrow> u32 \<Rightarrow> u32 option \<Rightarrow> char \<Rightarrow> mem \<Rightarrow> u32" where
  "hosted_start_addr sbla app_start fdt cmd m =
     (if cmd = CHR ''t''
      then (case boot_sbl_find_appimg fdt (Some FDE_INVAL_IDX) m of
              (BL_ERR_NONE, Some idx) \<Rightarrow>
                (let fde = the (snd (fde_get_by_idx sbla fdt (Some zero_fde) idx m)) in
                 if idx \<noteq> FDE_INVAL_IDX \<and> fde_format fde = OTA_IMG_FORMAT_BIN then fde_addr fde else app_start)
            | _ \<Rightarrow> app_start)
      else app_start)"

definition hosted_loader_start ::
    "dfu_layout \<Rightarrow> (nat \<Rightarrow> dfu \<Rightarrow> dfu) \<Rightarrow> u32 \<Rightarrow> u32 \<Rightarrow> char option \<Rightarrow> boot_sbl_share \<Rightarrow> dfu \<Rightarrow>
      (start \<times> boot_sbl_share option \<times> dfu) option" where
  "hosted_loader_start ly host sbla fdt_start pbl_cmd share s =
     (let cmd = (case pbl_cmd of None \<Rightarrow> CHR ''t'' | Some c \<Rightarrow> c);
          fdt = snd (fdt_get fdt_start (d_mem s));
          ly = ly\<lparr>ly_bdf_addr := get_bdf_addr sbla fdt (d_mem s)\<rparr> in
      case sys_loader ly host s of
        Some (Return err s) \<Rightarrow>
          if err = SBL_FUNC_RESET then Some (StartReset, None, s)
          else
           (let s = (if err = SBL_FUNC_SUCCESS then clear_dfu_table_hdr s else s); m = d_mem s;
                start_addr = hosted_start_addr sbla (ly_app_image_start ly) fdt cmd m in
            Some (StartBin (rd32 m (start_addr + 4)),
              set_sbl_share (ucast OTA_IMG_FORMAT_BIN) (get_bdf_addr sbla fdt m) fdt m share, s))
      | _ \<Rightarrow> None)"

section \<open>Rings and the host\<close>

text \<open>
  What a host that keeps to the protocol may change between two passes: memory (with the messages), the table, and of the rings everything but
  the number of elements, the addresses of the buffers, and the index that is the loader's (the read index of \<open>a2f\<close>, the write index of \<open>f2a\<close>).
\<close>

definition keeps_ring :: "(ring_handle \<Rightarrow> u32) \<Rightarrow> ring_handle \<Rightarrow> ring_handle \<Rightarrow> bool" where
  "keeps_ring idx r r' \<longleftrightarrow> idx r' = idx r \<and> dfu_ring_num_elems r' = dfu_ring_num_elems r \<and>
     map p_buf (ring_element r') = map p_buf (ring_element r)"

definition host_may :: "dfu \<Rightarrow> dfu \<Rightarrow> bool" where
  "host_may s s' \<longleftrightarrow> (\<exists>m a f t. s' = upd_a2f (\<lambda>h. h\<lparr>dfu_ring := a\<rparr>) (upd_f2a (\<lambda>h. h\<lparr>dfu_ring := f\<rparr>) (upd_mem (\<lambda>_. m) (s\<lparr>fermion_dfu_defaults := t\<rparr>))) \<and>
     keeps_ring dfu_read_idx (dfu_ring (a2f_dfu_ring_handle s)) a \<and> keeps_ring dfu_write_idx (dfu_ring (f2a_dfu_ring_handle s)) f)"

text \<open>What a host can do beside it: put an address into the element the loader fills next, or move the loader's index.\<close>

definition redirect :: "u32 \<Rightarrow> dfu \<Rightarrow> dfu" where
  "redirect p s =
     upd_f2a (\<lambda>h. h\<lparr>dfu_ring := set_elem (unat (ucast (dfu_write_idx (dfu_ring h)) :: u8)) (\<lambda>e. e\<lparr>p_buf := p\<rparr>) (dfu_ring h)\<rparr>) s"

definition move_index :: "u32 \<Rightarrow> dfu \<Rightarrow> dfu" where
  "move_index d s = upd_f2a (\<lambda>h. h\<lparr>dfu_ring := (dfu_ring h)\<lparr>dfu_write_idx := dfu_write_idx (dfu_ring h) + d\<rparr>\<rparr>) s"

inductive dfu_reach :: "dfu_layout \<Rightarrow> dfu \<Rightarrow> dfu \<Rightarrow> bool" for ly s0 where
  start: "dfu_reach ly s0 (sys_loader_init ly s0)"
| host: "dfu_reach ly s0 s \<Longrightarrow> host_may s s' \<Longrightarrow> dfu_reach ly s0 s'"
| pass: "dfu_reach ly s0 s \<Longrightarrow> sys_loader_pass ly s = Some (Next s') \<Longrightarrow> dfu_reach ly s0 s'"

definition a2f_ok :: "dfu_ring_handle \<Rightarrow> bool" where
  "a2f_ok h \<longleftrightarrow> length (ring_element (dfu_ring h)) = 2 \<and> length (ring_element (shadow_dfu_ring h)) = 2 \<and>
     dfu_ring_num_elems (dfu_ring h) = 2 \<and> dfu_read_idx (dfu_ring h) < 2 \<and>
     dfu_read_idx (shadow_dfu_ring h) = dfu_read_idx (dfu_ring h) \<and>
     (\<forall>i < 2. p_buf (ring_element (dfu_ring h) ! i) \<in> {0, buf_place A2F_RING (of_nat i)})"

definition f2a_ok :: "dfu_ring_handle \<Rightarrow> bool" where
  "f2a_ok h \<longleftrightarrow> length (ring_element (dfu_ring h)) = 2 \<and> length (ring_element (shadow_dfu_ring h)) = 2 \<and>
     dfu_ring_num_elems (dfu_ring h) = 2 \<and> dfu_write_idx (dfu_ring h) < 2 \<and>
     dfu_write_idx (shadow_dfu_ring h) = dfu_write_idx (dfu_ring h) \<and>
     (\<forall>i < 2. p_buf (ring_element (dfu_ring h) ! i) = buf_place F2A_RING (of_nat i))"

definition dfu_inv :: "dfu \<Rightarrow> bool" where
  "dfu_inv s \<longleftrightarrow> a2f_ok (a2f_dfu_ring_handle s) \<and> f2a_ok (f2a_dfu_ring_handle s)"

text \<open>The buffers with their boundary words; a pass changes memory only there and in RRAM.\<close>

definition in_buffers :: "u32 \<Rightarrow> bool" where
  "in_buffers x \<longleftrightarrow> 0x1003C \<le> unat x \<and> unat x < 0x1C44C"

definition confined :: "dfu \<Rightarrow> dfu \<Rightarrow> bool" where
  "confined s s' \<longleftrightarrow> (\<forall>x. outside_rram x \<longrightarrow> \<not> in_buffers x \<longrightarrow> d_mem s' x = d_mem s x)"

definition step_ok :: "dfu \<Rightarrow> dfu_step \<Rightarrow> bool" where
  "step_ok s r = (case r of Fault \<Rightarrow> False | Next s' \<Rightarrow> dfu_inv s' \<and> confined s s' | Return _ s' \<Rightarrow> dfu_inv s' \<and> confined s s')"

lemmas upd_simps = upd_a2f_def upd_f2a_def upd_mem_def upd_cntxt_def upd_ring_def

lemma confined_refl: "confined s s"
  by (simp add: confined_def)

lemma u32_less_2: "(i :: u32) < 2 \<Longrightarrow> i = 0 \<or> i = 1"
  by (simp add: word_less_nat_alt unat_eq_zero [symmetric] word_unat_eq_iff) arith

lemma a2f_ok_increment: "a2f_ok h \<Longrightarrow> a2f_ok (increment_read_index h)"
  using u32_less_2 [of "dfu_read_idx (dfu_ring h)"] by (auto simp: a2f_ok_def increment_read_index_def Let_def)

lemma f2a_ok_increment: "f2a_ok h \<Longrightarrow> f2a_ok (increment_write_index h)"
  using u32_less_2 [of "dfu_write_idx (dfu_ring h)"] by (auto simp: f2a_ok_def increment_write_index_def Let_def)

lemma ok_set_len:
  "a2f_ok h \<Longrightarrow> i < 2 \<Longrightarrow> a2f_ok (h\<lparr>dfu_ring := set_elem i (\<lambda>e. e\<lparr>elem_len := l\<rparr>) (dfu_ring h)\<rparr>)"
  "f2a_ok h \<Longrightarrow> i < 2 \<Longrightarrow> f2a_ok (h\<lparr>dfu_ring := set_elem i (\<lambda>e. e\<lparr>elem_len := l\<rparr>) (dfu_ring h)\<rparr>)"
  by (auto simp: a2f_ok_def f2a_ok_def set_elem_def nth_list_update)

lemma all_less_two: "(\<forall>i < Suc (Suc 0). P i) = (P 0 \<and> P 1)"
  by (auto simp: less_Suc_eq)

lemma idx_u8: "(i :: u32) < 2 \<Longrightarrow> unat (ucast i :: u8) = unat i \<and> unat i < 2"
  using u32_less_2 [of i] by auto

lemma a2f_elem_buf:
  assumes "a2f_ok h"
  shows "\<exists>p. elem_buf (dfu_ring h) (ucast (dfu_read_idx (dfu_ring h))) = Some p"
  using assms idx_u8 [of "dfu_read_idx (dfu_ring h)"] by (simp add: a2f_ok_def elem_buf_def)

lemma f2a_elem_buf:
  assumes "f2a_ok h"
  shows "elem_buf (dfu_ring h) (ucast (dfu_write_idx (dfu_ring h))) = Some (buf_place F2A_RING (ucast (dfu_write_idx (dfu_ring h))))"
  using assms idx_u8 [of "dfu_write_idx (dfu_ring h)"] u32_less_2 [of "dfu_write_idx (dfu_ring h)"]
  by (auto simp: f2a_ok_def elem_buf_def)

lemma inv_upd:
  "dfu_inv (s\<lparr>ld_state := st\<rparr>) = dfu_inv s" "dfu_inv (s\<lparr>ld_drain := b\<rparr>) = dfu_inv s" "dfu_inv (upd_cntxt f s) = dfu_inv s"
  "dfu_inv (upd_mem g s) = dfu_inv s" "dfu_inv (s\<lparr>d_dxe := d\<rparr>) = dfu_inv s"
  by (simp_all add: dfu_inv_def upd_simps)

lemma confined_upd:
  "confined s (t\<lparr>ld_state := st\<rparr>) = confined s t" "confined s (t\<lparr>ld_drain := b\<rparr>) = confined s t" "confined s (upd_cntxt f t) = confined s t"
  "confined s (upd_a2f f' t) = confined s t" "confined s (upd_f2a f' t) = confined s t"
  by (simp_all add: confined_def upd_simps)

lemma confined_trans: "confined s t \<Longrightarrow> confined t u \<Longrightarrow> confined s u"
  by (simp add: confined_def)

lemma confined_mwrite:
  assumes "0x1003C \<le> unat a" and "unat a + length bs \<le> 0x1C44C" and "confined s t"
  shows "confined s (upd_mem (\<lambda>m. mwrite m a bs) t)"
proof -
  have "\<not> in_range a (length bs) x" if "\<not> in_buffers x" for x
    using that in_range_bounds [of a "length bs" x] assms by (auto simp: in_buffers_def)
  then show ?thesis using assms(3) by (simp add: confined_def upd_simps mwrite_out)
qed

lemma buf_place_bounds:
  assumes "unat i < 2"
  shows "unat (buf_place F2A_RING i) \<in> {0x1C044, 0x1C248}" "unat (buf_place A2F_RING i) \<in> {0x1003C, 0x16040}"
proof -
  have "i = 0 \<or> i = 1" using assms by (auto simp: word_unat_eq_iff)
  then show "unat (buf_place F2A_RING i) \<in> {0x1C044, 0x1C248}" "unat (buf_place A2F_RING i) \<in> {0x1003C, 0x16040}"
    by (auto simp: buf_place_def)
qed

text \<open>An operation on a ring that does not fault, keeps the invariant and writes only buffers and RRAM.\<close>

definition msg_ok :: "dfu \<Rightarrow> ('a \<times> dfu) option \<Rightarrow> bool" where
  "msg_ok s r = (case r of None \<Rightarrow> False | Some (a, s') \<Rightarrow> dfu_inv s' \<and> confined s s')"

lemma with_msg_ok:
  assumes "msg_ok s r" and "\<And>a s'. dfu_inv s' \<Longrightarrow> confined s s' \<Longrightarrow> step_ok s (f a s')"
  shows "step_ok s (with_msg r f)"
  using assms by (auto simp: msg_ok_def with_msg_def split: option.splits)

lemma msg_ok_trans: "confined s t \<Longrightarrow> msg_ok t r \<Longrightarrow> msg_ok s r"
  by (auto simp: msg_ok_def intro: confined_trans split: option.splits)

lemma inv_rings: "dfu_inv s \<Longrightarrow> a2f_ok (a2f_dfu_ring_handle s)" "dfu_inv s \<Longrightarrow> f2a_ok (f2a_dfu_ring_handle s)"
  by (simp_all add: dfu_inv_def)

lemma f2a_index:
  assumes "f2a_ok h"
  shows "unat (ucast (dfu_write_idx (dfu_ring h)) :: u8) < 2"
  using assms idx_u8 [of "dfu_write_idx (dfu_ring h)"] by (simp add: f2a_ok_def)

lemma a2f_index:
  assumes "a2f_ok h"
  shows "unat (ucast (dfu_read_idx (dfu_ring h)) :: u8) < 2"
  using assms idx_u8 [of "dfu_read_idx (dfu_ring h)"] by (simp add: a2f_ok_def)

lemma send_ok:
  assumes "dfu_inv s" and "\<And>p t. 0x1003C \<le> unat p \<Longrightarrow> unat p + 32 \<le> 0x1C44C \<Longrightarrow> confined s t \<Longrightarrow> confined s (upd_mem (fill p) t)"
  shows "msg_ok s (f2a_send fill len s)"
proof (cases "f2a_dfu_ring_check_occupancy s")
  case True
  let ?h = "f2a_dfu_ring_handle s"
  let ?i = "ucast (dfu_write_idx (dfu_ring ?h)) :: u8"
  note h = inv_rings [OF assms(1)]
  note i = f2a_index [OF h(2)]
  let ?s' = "upd_f2a (\<lambda>h. increment_write_index (h\<lparr>dfu_ring := set_elem (unat ?i) (\<lambda>e. e\<lparr>elem_len := len\<rparr>) (dfu_ring h)\<rparr>))
      (upd_mem (fill (buf_place F2A_RING ?i)) s)"
  have "f2a_send fill len s = Some (True, ?s')"
    using True f2a_elem_buf [OF h(2)] by (simp add: f2a_send_def Let_def)
  moreover have "confined s ?s'"
    using assms(2) [of "buf_place F2A_RING ?i" s] buf_place_bounds(1) [OF i] confined_refl by (auto simp: confined_upd)
  moreover have "f2a_ok (f2a_dfu_ring_handle ?s')"
    using f2a_ok_increment [OF ok_set_len(2) [OF h(2) i]] by (simp add: upd_simps)
  then have "dfu_inv ?s'" using h(1) by (simp add: dfu_inv_def upd_simps)
  ultimately show ?thesis unfolding msg_ok_def by simp
qed (simp add: f2a_send_def assms(1) confined_refl msg_ok_def)

lemma sends_ok:
  assumes "dfu_inv s"
  shows "msg_ok s (send_dfu_confirm s)" and "msg_ok s (send_dfu_data_transfer_req a b c s)"
    and "msg_ok s (send_dfu_reboot_fermion_req s)" and "msg_ok s (send_dfu_transfer_done_ind s)"
proof -
  have one: "confined s (upd_mem (\<lambda>m. mwrite m p (msg_hdr k)) t)" if "0x1003C \<le> unat p" "unat p + 32 \<le> 0x1C44C" "confined s t" for p t k
    using that by (intro confined_mwrite) (simp_all add: msg_hdr_def)
  have two: "confined s (upd_mem (\<lambda>m. mwrite (mwrite m p (msg_hdr k)) (p + 4) bs) t)"
    if p: "0x1003C \<le> unat p" "unat p + 32 \<le> 0x1C44C" "confined s t" and "length bs \<le> 9" for p t k bs
  proof -
    have "unat (p + 4) = unat p + 4" using p(2) by (simp add: unat_word_ariths)
    then have "confined s (upd_mem (\<lambda>m. mwrite m (p + 4) bs) (upd_mem (\<lambda>m. mwrite m p (msg_hdr k)) t))"
      using that one [OF p] by - (rule confined_mwrite, simp_all)
    then show ?thesis by (simp add: upd_simps)
  qed
  show "msg_ok s (send_dfu_confirm s)" unfolding send_dfu_confirm_def by (rule send_ok [OF assms one])
  show "msg_ok s (send_dfu_data_transfer_req a b c s)"
    unfolding send_dfu_data_transfer_req_def by (rule send_ok [OF assms two]) (simp_all add: enc32_def)
  show "msg_ok s (send_dfu_reboot_fermion_req s)" unfolding send_dfu_reboot_fermion_req_def by (rule send_ok [OF assms one])
  show "msg_ok s (send_dfu_transfer_done_ind s)"
    unfolding send_dfu_transfer_done_ind_def by (rule send_ok [OF assms two]) simp_all
qed

text \<open>Receiving: the indices and the buffers stay in place.\<close>

lemma inv_read_message:
  assumes "dfu_inv s" and "unat i < 2"
  shows "dfu_inv (upd_a2f (\<lambda>h. increment_read_index (h\<lparr>dfu_ring := set_elem (unat (i :: u8)) (\<lambda>e. e\<lparr>elem_len := l\<rparr>) (dfu_ring h)\<rparr>)) s)"
  using a2f_ok_increment [OF ok_set_len(1) [OF inv_rings(1) [OF assms(1)] assms(2)]] assms(1) by (simp add: dfu_inv_def upd_simps)

lemma receives_ok:
  assumes "dfu_inv s"
  shows "msg_ok s (recieve_dfu_req s)" and "msg_ok s (recieve_dfu_transfer_done_rsp s)"
proof -
  note h = inv_rings(1) [OF assms]
  from a2f_elem_buf [OF h] obtain p where
    p: "elem_buf (dfu_ring (a2f_dfu_ring_handle s)) (ucast (dfu_read_idx (dfu_ring (a2f_dfu_ring_handle s)))) = Some p" by blast
  note inv = inv_read_message [OF assms a2f_index [OF h]]
  show "msg_ok s (recieve_dfu_req s)"
    using assms inv p by (simp add: recieve_dfu_req_def msg_ok_def confined_upd confined_refl inv_upd Let_def)
  show "msg_ok s (recieve_dfu_transfer_done_rsp s)"
    using assms inv p by (simp add: recieve_dfu_transfer_done_rsp_def msg_ok_def confined_upd confined_refl inv_upd Let_def)
qed

lemma a2f_ok_detach:
  assumes "a2f_ok h" and "i < 2"
  shows "a2f_ok (h\<lparr>dfu_ring := set_elem i (\<lambda>e. e\<lparr>p_buf := 0, elem_len := 0\<rparr>) (dfu_ring h),
      shadow_dfu_ring := set_elem i (\<lambda>e. e\<lparr>p_buf := 0, elem_len := 0\<rparr>) (shadow_dfu_ring h)\<rparr>)"
  using assms by (auto simp: a2f_ok_def set_elem_def nth_list_update)

lemma a2f_ok_attach:
  assumes "a2f_ok h" and "unat i < 2"
  shows "a2f_ok (h\<lparr>dfu_ring := set_elem (unat i) (\<lambda>e. e\<lparr>p_buf := buf_place A2F_RING i, elem_len := l, elem_info := k\<rparr>) (dfu_ring h),
      shadow_dfu_ring := set_elem (unat i) (\<lambda>e. e\<lparr>p_buf := buf_place A2F_RING i, elem_len := l\<rparr>) (shadow_dfu_ring h)\<rparr>)"
  using assms by (auto simp: a2f_ok_def set_elem_def nth_list_update)

lemma inv_detach:
  assumes "dfu_inv s"
  shows "dfu_inv (snd (detach_buffer_from_element A2F_RING i s)) \<and> confined s (snd (detach_buffer_from_element A2F_RING i s))"
  using assms a2f_ok_detach by (auto simp: detach_buffer_from_element_def dfu_inv_def upd_simps confined_def)

lemma inv_attach:
  assumes "dfu_inv s"
  shows "dfu_inv (snd (attach_buffer_to_element A2F_RING i s)) \<and> confined s (snd (attach_buffer_to_element A2F_RING i s))"
proof (cases "unat i < 2")
  case True
  have "buf_place A2F_RING i + 0x6000 = buf_place A2F_RING i + of_nat 0x6000" by simp
  then have "unat (buf_place A2F_RING i + 0x6000) = unat (buf_place A2F_RING i) + 0x6000"
    using buf_place_bounds(2) [OF True] by (auto simp: unat_word_ariths)
  then have c: "confined s (upd_mem (\<lambda>m. mwrite m (buf_place A2F_RING i + 0x6000) (enc32 0xFACEFACE)) s)"
    using buf_place_bounds(2) [OF True] by (intro confined_mwrite confined_refl) (auto simp: enc32_def)
  show ?thesis using c a2f_ok_attach [OF inv_rings(1) [OF assms] True, of "0x6000" 6] assms True
    by (simp add: attach_buffer_to_element_def elem_room_def inv_upd) (simp add: dfu_inv_def upd_simps confined_def)
qed (simp add: attach_buffer_to_element_def assms confined_refl)

lemma receive_data_ok:
  assumes "dfu_inv s"
  shows "msg_ok s (recieve_dfu_data_transfer_confirm s)"
proof -
  from a2f_elem_buf [OF inv_rings(1) [OF assms]] obtain p where
    p: "elem_buf (dfu_ring (a2f_dfu_ring_handle s)) (ucast (dfu_read_idx (dfu_ring (a2f_dfu_ring_handle s)))) = Some p" by blast
  have "dfu_inv (upd_a2f increment_read_index t)" if "dfu_inv t" for t
    using that a2f_ok_increment by (simp add: dfu_inv_def upd_simps)
  then show ?thesis
    using p assms inv_detach [OF assms]
    by (simp add: recieve_dfu_data_transfer_confirm_def msg_ok_def confined_upd confined_refl Let_def)
qed

text \<open>Every pass is safe in every state that satisfies the invariant.\<close>

lemma step_ok_simps:
  "step_ok s Fault = False" "step_ok s (Next s') = (dfu_inv s' \<and> confined s s')" "step_ok s (Return e s') = (dfu_inv s' \<and> confined s s')"
  by (simp_all add: step_ok_def)

lemma wait_for_program_ok:
  assumes "dfu_inv s" and "wait_for_program ly s = Some r"
  shows "step_ok s r"
proof -
  from receive_data_ok [OF assms(1)] obtain d t where r: "recieve_dfu_data_transfer_confirm s = Some (d, t)"
    and t: "dfu_inv t" "confined s t" by (auto simp: msg_ok_def split: option.splits)
  show ?thesis
  proof (cases "\<exists>st d1. d \<noteq> None \<and> rram_write_dxe (file_start ly (softid_in_progress (cntxt t)) + (running_offset (cntxt t) - start_offset (cntxt t)))
      (At (p_buff (the d))) (data_len (the d)) (d_dxe t) = Some (st, d1)")
    case True
    then obtain st d1 desc where d: "d = Some desc" and w: "rram_write_dxe (file_start ly (softid_in_progress (cntxt t)) + (running_offset (cntxt t) - start_offset (cntxt t)))
      (At (p_buff desc)) (data_len desc) (d_dxe t) = Some (st, d1)" by auto
    have "confined t (t\<lparr>d_dxe := d1\<rparr>)"
      using rram_write_outside [OF w] unat_u32_bound [of "data_len desc"] by (simp add: confined_def same_outside_def fetch_def)
    then have "confined s (snd (attach_buffer_to_element A2F_RING (desc_index desc) (t\<lparr>d_dxe := d1\<rparr>)))"
      and "dfu_inv (snd (attach_buffer_to_element A2F_RING (desc_index desc) (t\<lparr>d_dxe := d1\<rparr>)))"
      using inv_attach [of "t\<lparr>d_dxe := d1\<rparr>"] t by (auto simp: inv_upd intro: confined_trans)
    then show ?thesis using assms(2) r d w t
      by (auto simp: wait_for_program_def Let_def step_ok_simps inv_upd confined_upd split: if_splits)
  next
    case False
    then show ?thesis using assms(2) r t
      by (auto simp: wait_for_program_def Let_def step_ok_simps bind_eq_Some_conv split: option.splits if_splits)
  qed
qed

lemma request_program_ok:
  assumes "dfu_inv s"
  shows "step_ok s (request_program s)"
proof -
  define t where "t = upd_cntxt (\<lambda>c. c\<lparr>prog_len := packet_len c,
                  running_offset := start_offset c + ucast (curr_pkt_count c) * DFU_BUFF_SIZE\<rparr>) s"
  have t: "dfu_inv t" "confined s t" using assms confined_refl by (simp_all add: t_def inv_upd confined_upd)
  have "step_ok s (with_msg (send_dfu_data_transfer_req (running_offset (cntxt t)) (prog_len (cntxt t)) (softid_in_progress (cntxt t)) t)
          (\<lambda>ok s. Next (if ok then s\<lparr>ld_state := WAIT_FOR_PROGRAM\<rparr> else s)))"
    by (rule with_msg_ok [OF msg_ok_trans [OF t(2) sends_ok(2) [OF t(1)]]]) (simp add: step_ok_simps inv_upd confined_upd)
  then show ?thesis using assms confined_refl
    by (simp add: request_program_def t_def [symmetric] step_ok_simps inv_upd confined_upd Let_def)
qed

lemma pass_ok:
  assumes "dfu_inv s" and "sys_loader_pass ly s = Some r"
  shows "step_ok s r"
proof -
  note m = sends_ok [OF assms(1)] receives_ok [OF assms(1)]
  have "step_ok s (wait_for_dfu s)" unfolding wait_for_dfu_def
    by (rule with_msg_ok [OF m(5)]) (simp add: step_ok_simps inv_upd confined_upd Let_def)
  moreover have "step_ok s (check_for_dfu_bitmap s)"
    using with_msg_ok [OF m(1)] assms(1) confined_refl by (simp add: check_for_dfu_bitmap_def step_ok_simps inv_upd confined_upd)
  moreover have "step_ok s (transfer_completed s)" unfolding transfer_completed_def
    by (rule with_msg_ok [OF m(4)]) (simp add: step_ok_simps inv_upd confined_upd)
  moreover have "step_ok s (transfer_confirm s)" unfolding transfer_confirm_def Let_def
    by (rule with_msg_ok [OF m(6)]) (simp add: step_ok_simps inv_upd confined_upd split: option.split)
  moreover have "step_ok s (send_reboot s)" unfolding send_reboot_def
    by (rule with_msg_ok [OF m(3)]) (simp add: step_ok_simps inv_upd confined_upd)
  ultimately show ?thesis
    using assms wait_for_program_ok request_program_ok confined_refl
    by (auto simp: sys_loader_pass_def step_ok_simps inv_upd confined_upd split: sys_img_load_state.splits)
qed

text \<open>The start and the host.\<close>

lemma init_ring_inv: "dfu_inv (init_ring_param s)"
  by (simp add: init_ring_param_def Let_def attach_buffer_to_element_def upd_simps set_elem_def zero_ring_def
      numeral_2_eq_2 dfu_inv_def a2f_ok_def f2a_ok_def all_less_two buf_place_def)

lemma init_inv: "dfu_inv (sys_loader_init ly s)"
  using init_ring_inv [of s] by (simp add: sys_loader_init_def init_config_table_def Let_def dfu_inv_def)

lemma host_inv: "dfu_inv s \<Longrightarrow> host_may s s' \<Longrightarrow> dfu_inv s'"
proof -
  assume i: "dfu_inv s" and h: "host_may s s'"
  have buf: "length r' = length r \<and> (\<forall>i < length r. p_buf (r' ! i) = p_buf (r ! i))" if "map p_buf r' = map p_buf r" for r r'
    using that by (metis length_map nth_map)
  from h obtain a f where a: "dfu_ring (a2f_dfu_ring_handle s') = a" "shadow_dfu_ring (a2f_dfu_ring_handle s') = shadow_dfu_ring (a2f_dfu_ring_handle s)"
    "keeps_ring dfu_read_idx (dfu_ring (a2f_dfu_ring_handle s)) a" and f: "dfu_ring (f2a_dfu_ring_handle s') = f"
    "shadow_dfu_ring (f2a_dfu_ring_handle s') = shadow_dfu_ring (f2a_dfu_ring_handle s)" "keeps_ring dfu_write_idx (dfu_ring (f2a_dfu_ring_handle s)) f"
    by (auto simp: host_may_def upd_simps)
  have "a2f_ok (a2f_dfu_ring_handle s')"
    using inv_rings(1) [OF i] a buf [of "ring_element a" "ring_element (dfu_ring (a2f_dfu_ring_handle s))"] by (simp add: a2f_ok_def keeps_ring_def)
  moreover have "f2a_ok (f2a_dfu_ring_handle s')"
    using inv_rings(2) [OF i] f buf [of "ring_element f" "ring_element (dfu_ring (f2a_dfu_ring_handle s))"] by (simp add: f2a_ok_def keeps_ring_def)
  ultimately show "dfu_inv s'" by (simp add: dfu_inv_def)
qed

text \<open>A changed address is followed and a changed index is used: the checks against the shadow copies only print.\<close>

lemma tampered_occupancy:
  assumes "f2a_dfu_ring_check_occupancy s" and "f2a_ok (f2a_dfu_ring_handle s)"
  shows "f2a_dfu_ring_check_occupancy (redirect p s)" and "f2a_dfu_ring_check_occupancy (move_index 2 s)"
proof -
  have "(dfu_write_idx (dfu_ring (f2a_dfu_ring_handle s)) + 2 + 1) mod 2 = (dfu_write_idx (dfu_ring (f2a_dfu_ring_handle s)) + 1 :: u32) mod 2"
    using assms(2) u32_less_2 [of "dfu_write_idx (dfu_ring (f2a_dfu_ring_handle s))"] by (auto simp: f2a_ok_def)
  then show "f2a_dfu_ring_check_occupancy (redirect p s)" "f2a_dfu_ring_check_occupancy (move_index 2 s)"
    using assms by (simp_all add: f2a_dfu_ring_check_occupancy_def checks_pass_def check_config_table_integrity_def check_dfu_ring_integrity_def
        redirect_def move_index_def upd_simps set_elem_def f2a_ok_def Let_def)
qed

lemma redirected_send:
  assumes "f2a_dfu_ring_check_occupancy s" and "f2a_ok (f2a_dfu_ring_handle s)"
  shows "\<exists>s'. f2a_send fill len (redirect p s) = Some (True, s') \<and> d_mem s' = fill p (d_mem s) \<and> cntxt s' = cntxt s"
proof -
  have "elem_buf (dfu_ring (f2a_dfu_ring_handle (redirect p s))) (ucast (dfu_write_idx (dfu_ring (f2a_dfu_ring_handle (redirect p s))))) = Some p"
    using f2a_index [OF assms(2)] assms(2) by (simp add: elem_buf_def redirect_def upd_simps set_elem_def f2a_ok_def)
  then show ?thesis using tampered_occupancy(1) [OF assms, of p] by (auto simp: f2a_send_def Let_def upd_simps redirect_def)
qed

lemma moved_send:
  assumes "f2a_dfu_ring_check_occupancy s" and "f2a_ok (f2a_dfu_ring_handle s)"
  shows "f2a_send fill len (move_index 2 s) = None"
proof -
  have "elem_buf (dfu_ring (f2a_dfu_ring_handle (move_index 2 s))) (ucast (dfu_write_idx (dfu_ring (f2a_dfu_ring_handle (move_index 2 s))))) = None"
    using assms(2) u32_less_2 [of "dfu_write_idx (dfu_ring (f2a_dfu_ring_handle s))"] by (auto simp: elem_buf_def move_index_def upd_simps f2a_ok_def)
  then show ?thesis using tampered_occupancy(2) [OF assms] by (simp add: f2a_send_def Let_def)
qed

lemma reach_inv: "dfu_reach ly s0 s \<Longrightarrow> dfu_inv s"
proof (induction rule: dfu_reach.induct)
  case (pass s s')
  then show ?case using pass_ok step_ok_simps(2) by blast
qed (auto intro: init_inv host_inv)

end
