(* ===== verification/HostedTransfer.thy ===== *)
theory HostedTransfer
  imports HostedDfu
begin

text \<open>
  Downloads of the hosted boot loader with a host that answers what it is asked. \<open>host_put\<close> and \<open>host_take\<close> are the two
  actions of such a host on the rings; \<open>dfu_dialogue\<close> is the whole exchange from the start of \<open>sys_loader\<close> to the last
  packet. The image ends up in RRAM and nothing else changes but the message buffers.
\<close>

unbundle bit_operations_syntax

section \<open>An honest host\<close>

definition other :: "u32 \<Rightarrow> u32" where
  "other i = (i + 1) mod 2"

text \<open>The message that the host reads next, and the one that the boot loader reads next.\<close>

definition f2a_msg :: "dfu \<Rightarrow> u32" where
  "f2a_msg s = buf_place F2A_RING (ucast (dfu_read_idx (dfu_ring (f2a_dfu_ring_handle s))))"

definition a2f_msg :: "dfu \<Rightarrow> u32" where
  "a2f_msg s = buf_place A2F_RING (ucast (dfu_read_idx (dfu_ring (a2f_dfu_ring_handle s))))"

definition host_take :: "dfu \<Rightarrow> dfu" where
  "host_take s = upd_f2a (\<lambda>h. h\<lparr>dfu_ring := (dfu_ring h)\<lparr>dfu_read_idx := other (dfu_read_idx (dfu_ring h))\<rparr>\<rparr>) s"

definition host_put :: "u8 list \<Rightarrow> dfu \<Rightarrow> dfu" where
  "host_put msg s =
     (let w = dfu_write_idx (dfu_ring (a2f_dfu_ring_handle s)) in
      upd_a2f (\<lambda>h. h\<lparr>dfu_ring := (dfu_ring h)\<lparr>dfu_write_idx := other w\<rparr>\<rparr>)
        (upd_mem (\<lambda>m. mwrite m (buf_place A2F_RING (ucast w)) msg) s))"

definition request_msg :: "u8 \<Rightarrow> nat \<Rightarrow> u8 list" where
  "request_msg soft_id n = [1, 0, 0, 0] @ enc32 (of_nat n) @ [soft_id]"

definition data_msg :: "u32 \<Rightarrow> u32 \<Rightarrow> u8 \<Rightarrow> u8 list \<Rightarrow> u8 list" where
  "data_msg off len soft_id bs = [2, 0, 0, 0] @ enc32 off @ enc32 len @ [soft_id, 0, 0, 0] @ bs"

definition host_answer :: "u8 list \<Rightarrow> dfu \<Rightarrow> dfu" where
  "host_answer file s =
     (let m = d_mem s; q = f2a_msg s; off = rd32 m (q + 4); len = rd32 m (q + 8) in
      host_put (data_msg off len (m (q + 12)) (take (unat len) (drop (unat off) file))) (host_take s))"

definition dfu_pass :: "dfu_layout \<Rightarrow> dfu \<Rightarrow> dfu option" where
  "dfu_pass ly s = (case sys_loader_pass ly s of Some (Next s') \<Rightarrow> Some s' | _ \<Rightarrow> None)"

primrec dfu_exchanges :: "dfu_layout \<Rightarrow> u8 list \<Rightarrow> nat \<Rightarrow> dfu \<Rightarrow> dfu option" where
  "dfu_exchanges ly file 0 s = Some s"
| "dfu_exchanges ly file (Suc n) s =
     do { s \<leftarrow> dfu_pass ly s; s \<leftarrow> dfu_pass ly (host_answer file s); dfu_exchanges ly file n s }"

definition dfu_dialogue :: "dfu_layout \<Rightarrow> u8 \<Rightarrow> u8 list \<Rightarrow> dfu \<Rightarrow> dfu option" where
  "dfu_dialogue ly soft_id file s0 =
     do {
       s \<leftarrow> dfu_pass ly (host_put (request_msg soft_id (length file)) (sys_loader_init ly s0));
       s \<leftarrow> dfu_pass ly s;
       dfu_exchanges ly file ((length file + 1023) div 1024) (host_take s)
     }"

text \<open>The images the loader has room for.\<close>

definition image_fits :: "dfu_layout \<Rightarrow> u8 \<Rightarrow> nat \<Rightarrow> bool" where
  "image_fits ly soft_id n \<longleftrightarrow> unat (file_start ly soft_id) mod 4 = 0 \<and>
     (soft_id = WLAN_IMG_ID \<and> 0x200000 \<le> unat (ly_app_image_start ly) \<and>
        unat (ly_app_image_start ly) + n \<le> unat (ly_raw_file_start ly) \<and> unat (ly_raw_file_start ly) \<le> 0x380000 \<or>
      soft_id = BDF_ID \<and> 0x37A000 \<le> unat (ly_bdf_addr ly) \<and> unat (ly_bdf_addr ly) + n \<le> 0x380000)"

section \<open>Rings with one message\<close>

definition link :: "dfu \<Rightarrow> bool" where
  "link s \<longleftrightarrow> dfu_inv s \<and> fermion_dfu_defaults s = shadow_fermion_defaults s \<and> dxe_ok (d_dxe s) \<and>
     (\<forall>i < 2. p_buf (ring_element (dfu_ring (a2f_dfu_ring_handle s)) ! i) = buf_place A2F_RING (of_nat i))"

definition idle :: "dfu_ring_handle \<Rightarrow> bool" where
  "idle h \<longleftrightarrow> dfu_write_idx (dfu_ring h) = dfu_read_idx (dfu_ring h)"

definition pending :: "dfu_ring_handle \<Rightarrow> bool" where
  "pending h \<longleftrightarrow> dfu_write_idx (dfu_ring h) = other (dfu_read_idx (dfu_ring h)) \<and> dfu_read_idx (dfu_ring h) < 2"

text \<open>The memory outside the message buffers.\<close>

definition agrees :: "mem \<Rightarrow> mem \<Rightarrow> bool" where
  "agrees m m' \<longleftrightarrow> (\<forall>x. \<not> in_buffers x \<longrightarrow> m' x = m x)"

lemma other_simps: "i < 2 \<Longrightarrow> other (other i) = i" "i < 2 \<Longrightarrow> other i \<noteq> i" "i < 2 \<Longrightarrow> other i < 2"
  using u32_less_2 [of i] by (auto simp: other_def)

lemma increment_read: "a2f_ok h \<Longrightarrow> increment_read_index h =
    h\<lparr>shadow_dfu_ring := (shadow_dfu_ring h)\<lparr>dfu_read_idx := other (dfu_read_idx (dfu_ring h))\<rparr>,
      dfu_ring := (dfu_ring h)\<lparr>dfu_read_idx := other (dfu_read_idx (dfu_ring h))\<rparr>\<rparr>"
  using u32_less_2 [of "dfu_read_idx (dfu_ring h)"] by (auto simp: a2f_ok_def increment_read_index_def other_def Let_def)

lemma increment_write: "f2a_ok h \<Longrightarrow> increment_write_index h =
    h\<lparr>shadow_dfu_ring := (shadow_dfu_ring h)\<lparr>dfu_write_idx := other (dfu_write_idx (dfu_ring h))\<rparr>,
      dfu_ring := (dfu_ring h)\<lparr>dfu_write_idx := other (dfu_write_idx (dfu_ring h))\<rparr>\<rparr>"
  using u32_less_2 [of "dfu_write_idx (dfu_ring h)"] by (auto simp: f2a_ok_def increment_write_index_def other_def Let_def)

lemma set_elem_sel [simp]:
  "dfu_read_idx (set_elem i f r) = dfu_read_idx r" "dfu_write_idx (set_elem i f r) = dfu_write_idx r"
  "dfu_ring_num_elems (set_elem i f r) = dfu_ring_num_elems r"
  by (simp_all add: set_elem_def)

lemma link_rings: "link s \<Longrightarrow> a2f_ok (a2f_dfu_ring_handle s)" "link s \<Longrightarrow> f2a_ok (f2a_dfu_ring_handle s)"
  by (simp_all add: link_def dfu_inv_def)

lemma link_upd:
  "link (s\<lparr>ld_state := st\<rparr>) = link s" "link (upd_cntxt f s) = link s" "link (upd_mem g s) = link s"
  by (simp_all add: link_def dfu_inv_def upd_simps dxe_ok_def)

lemma idle_occupancy:
  assumes "link s" and "idle (f2a_dfu_ring_handle s)"
  shows "f2a_dfu_ring_check_occupancy s"
  using assms u32_less_2 [of "dfu_write_idx (dfu_ring (f2a_dfu_ring_handle s))"] link_rings(2) [OF assms(1)]
  by (auto simp: f2a_dfu_ring_check_occupancy_def checks_pass_def check_config_table_integrity_def check_dfu_ring_integrity_def
      link_def idle_def f2a_ok_def Let_def)

lemma pending_not_empty:
  assumes "link s" and "pending (a2f_dfu_ring_handle s)"
  shows "\<not> a2f_dfu_ring_check_empty s"
  using assms other_simps(2) [of "dfu_read_idx (dfu_ring (a2f_dfu_ring_handle s))"]
  by (auto simp: a2f_dfu_ring_check_empty_def checks_pass_def check_config_table_integrity_def check_dfu_ring_integrity_def
      link_def pending_def ring_empty_def)

lemma pending_elem_buf:
  assumes "link s"
  shows "elem_buf (dfu_ring (a2f_dfu_ring_handle s)) (ucast (dfu_read_idx (dfu_ring (a2f_dfu_ring_handle s)))) = Some (a2f_msg s)"
  using assms link_rings(1) [OF assms] idx_u8 [of "dfu_read_idx (dfu_ring (a2f_dfu_ring_handle s))"]
    u32_less_2 [of "dfu_read_idx (dfu_ring (a2f_dfu_ring_handle s))"]
  by (auto simp: elem_buf_def a2f_ok_def link_def a2f_msg_def)

text \<open>Sending on an idle ring.\<close>

lemma send_idle:
  assumes "link s" and "idle (f2a_dfu_ring_handle s)"
  obtains s' where "f2a_send fill len s = Some (True, s')" and "link s'" and "pending (f2a_dfu_ring_handle s')"
    and "a2f_dfu_ring_handle s' = a2f_dfu_ring_handle s" and "cntxt s' = cntxt s" and "ld_state s' = ld_state s"
    and "d_mem s' = fill (f2a_msg s') (d_mem s)"
proof -
  let ?h = "f2a_dfu_ring_handle s"
  let ?i = "ucast (dfu_write_idx (dfu_ring ?h)) :: u8"
  let ?g = "\<lambda>h. h\<lparr>dfu_ring := set_elem (unat ?i) (\<lambda>e. e\<lparr>elem_len := len\<rparr>) (dfu_ring h)\<rparr>"
  let ?s' = "upd_f2a (\<lambda>h. increment_write_index (?g h)) (upd_mem (fill (buf_place F2A_RING ?i)) s)"
  note h = link_rings [OF assms(1)]
  have g: "f2a_ok (?g ?h)" by (rule ok_set_len(2) [OF h(2) f2a_index [OF h(2)]])
  have "f2a_send fill len s = Some (True, ?s')"
    using idle_occupancy [OF assms] f2a_elem_buf [OF h(2)] by (simp add: f2a_send_def Let_def)
  moreover have "link ?s'"
    using assms(1) f2a_ok_increment [OF g] h by (simp add: link_def dfu_inv_def upd_simps dxe_ok_def)
  moreover have r: "dfu_ring (f2a_dfu_ring_handle ?s') = (dfu_ring (?g ?h))\<lparr>dfu_write_idx := other (dfu_write_idx (dfu_ring ?h))\<rparr>"
    using increment_write [OF g] by (simp add: upd_simps)
  then have "pending (f2a_dfu_ring_handle ?s')" "d_mem ?s' = fill (f2a_msg ?s') (d_mem s)"
    using assms(2) h(2) unfolding pending_def f2a_msg_def r by (simp_all add: idle_def f2a_ok_def upd_simps)
  ultimately show ?thesis by (intro that [of ?s']) (simp_all add: upd_simps)
qed

text \<open>The actions of the host.\<close>

lemma host_take_link:
  assumes "link s" and "pending (f2a_dfu_ring_handle s)"
  shows "link (host_take s)" and "idle (f2a_dfu_ring_handle (host_take s))"
  using assms by (simp_all add: link_def dfu_inv_def f2a_ok_def host_take_def upd_simps idle_def pending_def)

lemma host_take_same [simp]:
  "a2f_dfu_ring_handle (host_take s) = a2f_dfu_ring_handle s" "cntxt (host_take s) = cntxt s" "ld_state (host_take s) = ld_state s"
  "d_dxe (host_take s) = d_dxe s"
  by (simp_all add: host_take_def upd_simps)

lemma host_put_link:
  assumes "link s" and "idle (a2f_dfu_ring_handle s)"
  shows "link (host_put msg s)" and "pending (a2f_dfu_ring_handle (host_put msg s))"
    and "d_mem (host_put msg s) = mwrite (d_mem s) (a2f_msg (host_put msg s)) msg"
  using assms link_rings(1) [OF assms(1)]
  by (simp_all add: link_def dfu_inv_def a2f_ok_def host_put_def upd_simps idle_def pending_def a2f_msg_def Let_def dxe_ok_def)

lemma host_put_same [simp]:
  "f2a_dfu_ring_handle (host_put msg s) = f2a_dfu_ring_handle s" "cntxt (host_put msg s) = cntxt s"
  "ld_state (host_put msg s) = ld_state s"
  by (simp_all add: host_put_def upd_simps Let_def)

lemma host_take_may: "host_may s (host_take s)"
  unfolding host_may_def
  by (rule exI [of _ "d_mem s"], rule exI [of _ "dfu_ring (a2f_dfu_ring_handle s)"],
      rule exI [of _ "dfu_ring (f2a_dfu_ring_handle (host_take s))"], rule exI [of _ "fermion_dfu_defaults s"])
     (simp add: host_take_def upd_simps keeps_ring_def)

lemma host_put_may: "host_may s (host_put msg s)"
  unfolding host_may_def
  by (rule exI [of _ "d_mem (host_put msg s)"], rule exI [of _ "dfu_ring (a2f_dfu_ring_handle (host_put msg s))"],
      rule exI [of _ "dfu_ring (f2a_dfu_ring_handle s)"], rule exI [of _ "fermion_dfu_defaults s"])
     (simp add: upd_simps host_put_def Let_def keeps_ring_def)

lemma reach_pass: "dfu_reach ly s0 s \<Longrightarrow> dfu_pass ly s = Some s' \<Longrightarrow> dfu_reach ly s0 s'"
  by (auto simp: dfu_pass_def intro: dfu_reach.pass split: option.splits dfu_step.splits)

lemma reach_answer: "dfu_reach ly s0 s \<Longrightarrow> dfu_reach ly s0 (host_answer file s)"
  unfolding host_answer_def Let_def by (intro dfu_reach.host [OF dfu_reach.host [OF _ host_take_may] host_put_may])

text \<open>Fields of a message that was written to a buffer.\<close>

lemma mwrite_nth:
  assumes "i < length bs" and "length bs \<le> 2 ^ 32"
  shows "mwrite m a bs (a + of_nat i) = bs ! i"
  using assms by (simp add: mwrite_def mcombine_at)

lemma mwrite_slice:
  assumes "i + n \<le> length bs" and "length bs \<le> 2 ^ 32"
  shows "mread (mwrite m a bs) (a + of_nat i) n = take n (drop i bs)"
  using assms take_drop_mread [of i n "length bs" "mwrite m a bs" a] mread_mwrite_same [of bs m a] by simp

lemma data_msg_fields:
  fixes off len p :: u32 and m :: mem and soft_id :: u8
  assumes "length bs = unat len" and "unat len \<le> 1024"
  defines "m' \<equiv> mwrite m p (data_msg off len soft_id bs)"
  shows "rd16 m' p = A2F_DFU_DATA_TRANSFER_CFM" and "rd32 m' (p + 8) = len" and "mread m' (p + 16) (unat len) = bs"
proof -
  have l: "length (data_msg off len soft_id bs) = 16 + unat len" using assms(1) by (simp add: data_msg_def)
  have "mread m' p 2 = [2, 0]"
    using mwrite_slice [of 0 2 "data_msg off len soft_id bs" m p] l assms(2) by (simp add: m'_def data_msg_def)
  then show "rd16 m' p = A2F_DFU_DATA_TRANSFER_CFM" by (simp add: rd16_def le16_def)
  have "mread m' (p + 8) 4 = enc32 len"
    using mwrite_slice [of 8 4 "data_msg off len soft_id bs" m p] l assms(2) by (simp add: m'_def data_msg_def)
  then show "rd32 m' (p + 8) = len" by (simp add: rd32_def)
  show "mread m' (p + 16) (unat len) = bs"
    using mwrite_slice [of 16 "unat len" "data_msg off len soft_id bs" m p] l assms by (simp add: data_msg_def)
qed

lemma request_msg_fields:
  fixes p :: u32 and m :: mem and soft_id :: u8 and n :: nat
  defines "m' \<equiv> mwrite m p (request_msg soft_id n)"
  shows "rd16 m' p = A2F_DFU_REQ" and "rd32 m' (p + 4) = of_nat n" and "m' (p + 8) = soft_id"
proof -
  have "mread m' p 2 = [1, 0]"
    using mwrite_slice [of 0 2 "request_msg soft_id n" m p] by (simp add: m'_def request_msg_def)
  then show "rd16 m' p = A2F_DFU_REQ" by (simp add: rd16_def le16_def)
  have "mread m' (p + 4) 4 = enc32 (of_nat n)"
    using mwrite_slice [of 4 4 "request_msg soft_id n" m p] by (simp add: m'_def request_msg_def)
  then show "rd32 m' (p + 4) = of_nat n" by (simp add: rd32_def)
  show "m' (p + 8) = soft_id"
    using mwrite_nth [of 8 "request_msg soft_id n" m p] by (simp add: m'_def request_msg_def nth_append)
qed

lemma transfer_req_fields:
  fixes q off len :: u32 and m :: mem and soft_id :: u8
  defines "m' \<equiv> mwrite m (q + 4) (enc32 off @ enc32 len @ [soft_id])"
  shows "rd32 m' (q + 4) = off" and "rd32 m' (q + 8) = len" and "m' (q + 12) = soft_id"
proof -
  have "mread m' (q + 4) 4 = enc32 off" "mread m' (q + 8) 4 = enc32 len"
    using mwrite_slice [of 0 4 "enc32 off @ enc32 len @ [soft_id]" m "q + 4"]
      mwrite_slice [of 4 4 "enc32 off @ enc32 len @ [soft_id]" m "q + 4"] by (simp_all add: m'_def add.assoc)
  then show "rd32 m' (q + 4) = off" "rd32 m' (q + 8) = len" by (simp_all add: rd32_def)
  show "m' (q + 12) = soft_id"
    using mwrite_nth [of 8 "enc32 off @ enc32 len @ [soft_id]" m "q + 4"] by (simp add: m'_def nth_append add.assoc)
qed

section \<open>Packets\<close>

definition packet_count :: "nat \<Rightarrow> nat" where
  "packet_count n = (n + 1023) div 1024"

lemma packets_of_count:
  assumes "0 < n" and "n \<le> 0x180000"
  shows "unat (packets_of (of_nat n)) = packet_count n"
proof -
  define a where "a = n div 1024"
  have a: "a \<le> 0x600" using div_le_mono [OF assms(2), of 1024] by (simp add: a_def)
  have w: "unat (of_nat n :: u32) = n" using assms(2) by (simp add: unat_of_nat_u32)
  have d: "unat (ucast (of_nat n div 1024 :: u32) :: u16) = a"
    using a w by (simp add: unsigned_ucast_eq take_bit_eq_mod unat_div_distrib a_def)
  have p: "unat ((ucast (of_nat n div 1024 :: u32) :: u16) + 1) = a + 1"
    using a d by (simp add: unat_word_ariths)
  have m: "(of_nat n mod 1024 :: u32) = 0 \<longleftrightarrow> n mod 1024 = 0" using w by (simp add: unat_eq_zero [symmetric] unat_mod_distrib)
  have n: "n = 1024 * a + n mod 1024" by (simp add: a_def)
  show ?thesis
  proof (cases "n mod 1024 = 0")
    case True
    then have "n = 1024 * a" "0 < a" using n assms(1) by auto
    then have "packet_count n = a" by (simp add: packet_count_def)
    moreover have "(ucast (of_nat n div 1024 :: u32) :: u16) \<noteq> 0" using d \<open>0 < a\<close> by auto
    ultimately show ?thesis using True m d by (simp add: packets_of_def Let_def)
  next
    case False
    define r where "r = n mod 1024"
    have "n = 1024 * a + r" "0 < r" "r < 1024" using n False by (simp_all add: r_def)
    then have "packet_count n = a + 1" unfolding packet_count_def by (intro div_nat_eqI) simp_all
    moreover have "(ucast (of_nat n div 1024 :: u32) :: u16) + 1 \<noteq> 0"
    proof
      assume "(ucast (of_nat n div 1024 :: u32) :: u16) + 1 = 0"
      then show False using p by simp
    qed
    ultimately show ?thesis using False m p by (simp add: packets_of_def Let_def)
  qed
qed

lemma packet_count_bounds:
  assumes "k < packet_count n"
  shows "k * 1024 < n" and "k + 1 < packet_count n \<Longrightarrow> k * 1024 + 1024 \<le> n" and "k + 1 = packet_count n \<Longrightarrow> n \<le> k * 1024 + 1024"
  using assms unfolding packet_count_def by linarith+

definition ctx :: "u8 \<Rightarrow> nat \<Rightarrow> nat \<Rightarrow> sys_loader_cntxt \<Rightarrow> bool" where
  "ctx soft_id n k c \<longleftrightarrow> softid_in_progress c = soft_id \<and> start_offset c = 0 \<and> dfu_file_size c = of_nat n \<and>
     total_pkts c = packets_of (of_nat n) \<and> curr_pkt_count c = of_nat k"

lemma ctx_packet_len:
  assumes "ctx soft_id n k c" and "k < packet_count n" and "n \<le> 0x180000"
  shows "unat (packet_len c) = min 1024 (n - k * 1024)" and "unat (curr_pkt_count c) = k" and "unat (total_pkts c) = packet_count n"
proof -
  have n: "0 < n" using packet_count_bounds(1) [OF assms(2)] by simp
  note p = packets_of_count [OF n assms(3)]
  have "packet_count n \<le> 0x600" using div_le_mono [of "n + 1023" "0x180000 + 1023" 1024] assms(3) by (simp add: packet_count_def)
  then have k: "unat (of_nat k :: u16) = k" "k < 0x600" "packet_count n \<le> 0x600" using assms(2) by (simp_all add: unat_of_nat)
  show c: "unat (curr_pkt_count c) = k" "unat (total_pkts c) = packet_count n" using assms(1) k p by (simp_all add: ctx_def)
  have "unat (ucast (total_pkts c) - 1 :: u32) = packet_count n - 1"
    using c(2) k assms(2) by (simp add: unat_diff_u32 unsigned_ucast_eq take_bit_eq_mod)
  moreover have "unat (ucast (curr_pkt_count c) :: u32) = k" using c(1) k by (simp add: unsigned_ucast_eq take_bit_eq_mod)
  ultimately have last: "(ucast (curr_pkt_count c) = (ucast (total_pkts c) - 1 :: u32)) \<longleftrightarrow> k + 1 = packet_count n"
    using assms(2) by (simp add: word_unat_eq_iff) linarith
  have w: "unat (of_nat n :: u32) = n" using assms(3) by (simp add: unat_of_nat_u32)
  have m: "(of_nat n mod 1024 :: u32) = 0 \<longleftrightarrow> n mod 1024 = 0" "unat (of_nat n mod 1024 :: u32) = n mod 1024"
    using w by (simp_all add: unat_eq_zero [symmetric] unat_mod_distrib)
  show "unat (packet_len c) = min 1024 (n - k * 1024)"
  proof (cases "k + 1 = packet_count n")
    case False
    then have "k * 1024 + 1024 \<le> n" using packet_count_bounds(2) [OF assms(2)] assms(2) by simp
    then show ?thesis using False last by (simp add: packet_len_def)
  next
    case True
    have b: "k * 1024 < n" "n \<le> k * 1024 + 1024" using packet_count_bounds(1,3) [OF assms(2)] True by simp_all
    define r where "r = n - k * 1024"
    have r: "n = r + k * 1024" "0 < r" "r \<le> 1024" using b by (simp_all add: r_def)
    then have "n mod 1024 = r mod 1024" by simp
    then show ?thesis using r True last m assms(1) by (cases "r = 1024") (simp_all add: packet_len_def ctx_def)
  qed
qed

section \<open>One exchange\<close>

lemma agrees_mwrite:
  assumes "0x1003C \<le> unat a" and "unat a + length bs \<le> 0x1C44C"
  shows "agrees m (mwrite m' a bs) = agrees m m'"
proof -
  have "\<not> in_range a (length bs) x" if "\<not> in_buffers x" for x
    using that in_range_bounds [of a "length bs" x] assms by (auto simp: in_buffers_def)
  then show ?thesis by (simp add: agrees_def mwrite_out)
qed

lemma agrees_store: "agrees m m' \<Longrightarrow> agrees (mwrite m b cs) (mwrite m' b cs)"
  by (simp add: agrees_def mwrite_def mcombine_def)

lemma f2a_msg_bounds: "pending (f2a_dfu_ring_handle s) \<Longrightarrow> unat (f2a_msg s) \<in> {0x1C044, 0x1C248}"
  using buf_place_bounds(1) [of "ucast (dfu_read_idx (dfu_ring (f2a_dfu_ring_handle s)))"]
    idx_u8 [of "dfu_read_idx (dfu_ring (f2a_dfu_ring_handle s))"] by (simp add: pending_def f2a_msg_def)

lemma a2f_msg_bounds: "pending (a2f_dfu_ring_handle s) \<Longrightarrow> unat (a2f_msg s) \<in> {0x1003C, 0x16040}"
  using buf_place_bounds(2) [of "ucast (dfu_read_idx (dfu_ring (a2f_dfu_ring_handle s)))"]
    idx_u8 [of "dfu_read_idx (dfu_ring (a2f_dfu_ring_handle s))"] by (simp add: pending_def a2f_msg_def)

definition chunk :: "nat \<Rightarrow> u8 list \<Rightarrow> u8 list" where
  "chunk k file = take 1024 (drop (k * 1024) file)"

lemma length_chunk: "length (chunk k file) = min 1024 (length file - k * 1024)"
  by (simp add: chunk_def)

text \<open>The three states of an exchange: ready to ask, asked, answered. \<open>m\<close> is the memory outside the buffers.\<close>

definition ready :: "u8 \<Rightarrow> u8 list \<Rightarrow> mem \<Rightarrow> nat \<Rightarrow> dfu \<Rightarrow> bool" where
  "ready soft_id file m k s \<longleftrightarrow> link s \<and> idle (f2a_dfu_ring_handle s) \<and> idle (a2f_dfu_ring_handle s) \<and>
     ctx soft_id (length file) k (cntxt s) \<and> agrees m (d_mem s)"

definition asked :: "u8 \<Rightarrow> u8 list \<Rightarrow> mem \<Rightarrow> nat \<Rightarrow> dfu \<Rightarrow> bool" where
  "asked soft_id file m k s \<longleftrightarrow> link s \<and> pending (f2a_dfu_ring_handle s) \<and> idle (a2f_dfu_ring_handle s) \<and>
     ctx soft_id (length file) k (cntxt s) \<and> running_offset (cntxt s) = of_nat (k * 1024) \<and>
     ld_state s = WAIT_FOR_PROGRAM \<and> agrees m (d_mem s) \<and> rd32 (d_mem s) (f2a_msg s + 4) = of_nat (k * 1024) \<and>
     unat (rd32 (d_mem s) (f2a_msg s + 8)) = length (chunk k file)"

definition answered :: "u8 \<Rightarrow> u8 list \<Rightarrow> mem \<Rightarrow> nat \<Rightarrow> dfu \<Rightarrow> bool" where
  "answered soft_id file m k s \<longleftrightarrow> link s \<and> idle (f2a_dfu_ring_handle s) \<and> pending (a2f_dfu_ring_handle s) \<and>
     ctx soft_id (length file) k (cntxt s) \<and> running_offset (cntxt s) = of_nat (k * 1024) \<and>
     ld_state s = WAIT_FOR_PROGRAM \<and> agrees m (d_mem s) \<and> rd16 (d_mem s) (a2f_msg s) = A2F_DFU_DATA_TRANSFER_CFM \<and>
     unat (rd32 (d_mem s) (a2f_msg s + 8)) = length (chunk k file) \<and>
     mread (d_mem s) (a2f_msg s + 16) (length (chunk k file)) = chunk k file"

lemma request_step:
  assumes "ready soft_id file m k s" and "ld_state s = REQUEST_PROGRAM" and "k < packet_count (length file)"
    and "length file \<le> 0x180000"
  obtains s' where "dfu_pass ly s = Some s'" and "asked soft_id file m k s'"
proof -
  define t where "t = upd_cntxt (\<lambda>c. c\<lparr>prog_len := packet_len c,
                  running_offset := start_offset c + ucast (curr_pkt_count c) * DFU_BUFF_SIZE\<rparr>) s"
  have c: "ctx soft_id (length file) k (cntxt s)" and m: "agrees m (d_mem s)" using assms(1) by (simp_all add: ready_def)
  note n = ctx_packet_len [OF c assms(3,4)]
  have cn: "curr_pkt_count (cntxt s) \<le> total_pkts (cntxt s)" using n assms(3) by (simp add: word_le_nat_alt)
  have "ucast (curr_pkt_count (cntxt s)) = (of_nat k :: u32)" unfolding n(2) [symmetric] by (simp only: of_nat_unat)
  then have off: "running_offset (cntxt t) = of_nat (k * 1024)" "unat (prog_len (cntxt t)) = length (chunk k file)"
    "softid_in_progress (cntxt t) = soft_id" "ctx soft_id (length file) k (cntxt t)"
    using c n by (simp_all add: t_def upd_cntxt_def ctx_def length_chunk)
  have l: "link t" "idle (f2a_dfu_ring_handle t)" "idle (a2f_dfu_ring_handle t)" "d_mem t = d_mem s"
    using assms(1) by (simp_all add: t_def link_upd ready_def) (simp_all add: upd_cntxt_def)
  define fill where "fill = (\<lambda>p m. mwrite (mwrite m p (msg_hdr F2A_DFU_DATA_TRANSFER_REQ)) (p + 4)
      (enc32 (running_offset (cntxt t)) @ enc32 (prog_len (cntxt t)) @ [softid_in_progress (cntxt t)]))"
  from send_idle [OF l(1,2), of fill 16] obtain u where u: "f2a_send fill 16 t = Some (True, u)" "link u"
      "pending (f2a_dfu_ring_handle u)" "a2f_dfu_ring_handle u = a2f_dfu_ring_handle t" "cntxt u = cntxt t"
      "d_mem u = fill (f2a_msg u) (d_mem t)" by metis
  define s' where "s' = u\<lparr>ld_state := WAIT_FOR_PROGRAM\<rparr>"
  have q: "unat (f2a_msg u + 4) = unat (f2a_msg u) + 4" using f2a_msg_bounds [OF u(3)] by (auto simp: unat_word_ariths)
  then have "agrees m (d_mem u)"
    using f2a_msg_bounds [OF u(3)] m l(4) u(6) by (auto simp: fill_def agrees_mwrite msg_hdr_def)
  moreover have "rd32 (d_mem u) (f2a_msg u + 4) = running_offset (cntxt t)" "rd32 (d_mem u) (f2a_msg u + 8) = prog_len (cntxt t)"
    unfolding u(6) fill_def by (rule transfer_req_fields)+
  moreover have "f2a_msg s' = f2a_msg u" by (simp add: f2a_msg_def s'_def)
  ultimately have "asked soft_id file m k s'"
    using u l off by (simp add: asked_def s'_def link_upd)
  moreover have "dfu_pass ly s = Some s'"
    using u(1) assms(2) cn by (simp add: dfu_pass_def sys_loader_pass_def request_program_def t_def [symmetric] Let_def
        with_msg_def send_dfu_data_transfer_req_def fill_def s'_def)
  ultimately show ?thesis by (rule that [rotated])
qed

lemma answer_step:
  assumes "asked soft_id file m k s" and "k * 1024 < 2 ^ 32"
  shows "answered soft_id file m k (host_answer file s)"
proof -
  define t where "t = host_take s"
  have s: "link s" "pending (f2a_dfu_ring_handle s)" "idle (a2f_dfu_ring_handle s)" "agrees m (d_mem s)"
    "rd32 (d_mem s) (f2a_msg s + 4) = of_nat (k * 1024)" using assms(1) by (simp_all add: asked_def)
  define len where "len = rd32 (d_mem s) (f2a_msg s + 8)"
  have len: "unat len = length (chunk k file)" using assms(1) by (simp add: asked_def len_def)
  have off: "unat (of_nat (k * 1024) :: u32) = k * 1024" using assms(2) by (rule unat_of_nat_u32)
  have bs: "take (unat len) (drop (k * 1024) file) = chunk k file" by (simp add: len length_chunk) (simp add: chunk_def min_def)
  define msg where "msg = data_msg (of_nat (k * 1024)) len (d_mem s (f2a_msg s + 12)) (chunk k file)"
  have a: "host_answer file s = host_put msg t"
    unfolding host_answer_def Let_def s(5) len_def [symmetric] off bs msg_def t_def ..
  have t: "link t" "idle (f2a_dfu_ring_handle t)" "idle (a2f_dfu_ring_handle t)"
    using host_take_link [OF s(1,2)] s(3) by (simp_all add: t_def)
  note p = host_put_link [OF t(1,3), of msg]
  have l: "unat len \<le> 1024" "length msg = 16 + unat len" using len by (simp_all add: length_chunk msg_def data_msg_def)
  have "agrees m (d_mem (host_put msg t))"
    using a2f_msg_bounds [OF p(2)] s(4) l p(3) by (auto simp: agrees_mwrite t_def)
  then show ?thesis
    using p t(2) assms(1) data_msg_fields [OF len [symmetric] l(1), of "d_mem t" "a2f_msg (host_put msg t)" "of_nat (k * 1024)"] len
    by (simp add: answered_def a asked_def msg_def t_def)
qed

text \<open>Taking the data message, and putting its buffer back.\<close>

definition taken :: "dfu \<Rightarrow> dfu" where
  "taken s = upd_a2f increment_read_index
     (snd (detach_buffer_from_element A2F_RING (ucast (dfu_read_idx (dfu_ring (a2f_dfu_ring_handle s)))) s))"

lemma receive_data:
  assumes "link s" and "pending (a2f_dfu_ring_handle s)" and "rd16 (d_mem s) (a2f_msg s) = A2F_DFU_DATA_TRANSFER_CFM"
  shows "recieve_dfu_data_transfer_confirm s =
    Some (Some \<lparr>p_buff = a2f_msg s + 16, data_len = rd32 (d_mem s) (a2f_msg s + 8),
      desc_index = ucast (dfu_read_idx (dfu_ring (a2f_dfu_ring_handle s)))\<rparr>, taken s)"
  using pending_not_empty [OF assms(1,2)] pending_elem_buf [OF assms(1)] assms(3)
  by (simp add: recieve_dfu_data_transfer_confirm_def taken_def Let_def)

lemma taken_same:
  "cntxt (taken s) = cntxt s" "f2a_dfu_ring_handle (taken s) = f2a_dfu_ring_handle s" "d_dxe (taken s) = d_dxe s"
  "fermion_dfu_defaults (taken s) = fermion_dfu_defaults s" "shadow_fermion_defaults (taken s) = shadow_fermion_defaults s"
  by (simp_all add: taken_def detach_buffer_from_element_def upd_simps)

lemma taken_ring:
  assumes "link s"
  defines "h \<equiv> a2f_dfu_ring_handle s"
  shows "dfu_ring (a2f_dfu_ring_handle (taken s)) =
    (set_elem (unat (ucast (dfu_read_idx (dfu_ring h)) :: u8)) (\<lambda>e. e\<lparr>p_buf := 0, elem_len := 0\<rparr>) (dfu_ring h))
      \<lparr>dfu_read_idx := other (dfu_read_idx (dfu_ring h))\<rparr>"
proof -
  have "dfu_ring_num_elems (dfu_ring h) = 2" "dfu_read_idx (dfu_ring h) = 0 \<or> dfu_read_idx (dfu_ring h) = 1"
    using link_rings(1) [OF assms(1)] u32_less_2 by (auto simp: a2f_ok_def h_def)
  then show ?thesis
    by (auto simp: taken_def detach_buffer_from_element_def upd_simps increment_read_index_def Let_def other_def h_def)
qed

lemma taken_inv: "link s \<Longrightarrow> dfu_inv (taken s)"
  using inv_detach [of s] a2f_ok_increment by (simp add: link_def taken_def dfu_inv_def upd_simps)

lemma reattach:
  assumes "link s" and "pending (a2f_dfu_ring_handle s)" and "dxe_ok d"
  defines "u \<equiv> snd (attach_buffer_to_element A2F_RING (ucast (dfu_read_idx (dfu_ring (a2f_dfu_ring_handle s)))) ((taken s)\<lparr>d_dxe := d\<rparr>))"
  shows "link u" and "idle (a2f_dfu_ring_handle u)" and "f2a_dfu_ring_handle u = f2a_dfu_ring_handle s" and "cntxt u = cntxt s"
    and "agrees m (d_mem u) = agrees m (dx_mem d)"
proof -
  let ?h = "a2f_dfu_ring_handle s"
  let ?i = "ucast (dfu_read_idx (dfu_ring ?h)) :: u8"
  note h = link_rings [OF assms(1)]
  note i = a2f_index [OF h(1)]
  have inv: "dfu_inv u" using inv_attach [of "(taken s)\<lparr>d_dxe := d\<rparr>" ?i] taken_inv [OF assms(1)] by (simp add: u_def inv_upd)
  note r = taken_ring [OF assms(1)]
  show "idle (a2f_dfu_ring_handle u)"
    using assms(2) i r by (simp add: idle_def pending_def u_def attach_buffer_to_element_def upd_simps)
  show "f2a_dfu_ring_handle u = f2a_dfu_ring_handle s" "cntxt u = cntxt s"
    using i taken_same [of s] by (simp_all add: u_def attach_buffer_to_element_def upd_simps)
  have "length (ring_element (dfu_ring ?h)) = 2" using h(1) by (simp add: a2f_ok_def)
  moreover have "buf_place A2F_RING ?i = buf_place A2F_RING (of_nat (unat ?i))" by simp
  ultimately have "p_buf (ring_element (dfu_ring (a2f_dfu_ring_handle u)) ! j) = buf_place A2F_RING (of_nat j)" if "j < 2" for j
    using that i assms(1) r by (auto simp: u_def attach_buffer_to_element_def upd_simps set_elem_def nth_list_update link_def)
  moreover have "fermion_dfu_defaults u = shadow_fermion_defaults u" "dxe_ok (d_dxe u)"
    using i assms(1,3) taken_same [of s] by (simp_all add: u_def attach_buffer_to_element_def upd_simps link_def dxe_ok_def)
  ultimately show "link u" using inv by (simp add: link_def)
  have "unat (buf_place A2F_RING ?i + 0x6000) = unat (buf_place A2F_RING ?i) + 0x6000"
    using buf_place_bounds(2) [OF i] by (auto simp: unat_word_ariths)
  then have "agrees m (mwrite (dx_mem d) (buf_place A2F_RING ?i + 0x6000) (enc32 0xFACEFACE)) = agrees m (dx_mem d)"
    using buf_place_bounds(2) [OF i] by (intro agrees_mwrite) auto
  then show "agrees m (d_mem u) = agrees m (dx_mem d)"
    using i by (simp add: u_def attach_buffer_to_element_def upd_simps elem_room_def)
qed

lemma packet_place:
  assumes "image_fits ly soft_id n" and "k * 1024 < n"
  defines "dst \<equiv> file_start ly soft_id + of_nat (k * 1024)"
  shows "\<not> dst_refused ly soft_id dst" and "unat len \<le> n - k * 1024 \<Longrightarrow> rram_verify_address dst len = BL_ERR_NONE"
proof -
  define f where "f = unat (file_start ly soft_id)"
  have f: "0x200000 \<le> f" "f + n \<le> 0x380000" "f mod 4 = 0" using assms(1) by (auto simp: image_fits_def file_start_def f_def)
  have "unat (of_nat (k * 1024) :: u32) = k * 1024" using assms(2) f by (intro unat_of_nat_u32) simp
  then have d: "unat dst = f + k * 1024" using f assms(2) by (simp add: dst_def unat_word_ariths f_def [symmetric])
  have "(f + k * 1024) mod 4 = 0" using f(3) by (simp add: mod_add_eq [symmetric])
  then show "rram_verify_address dst len = BL_ERR_NONE" if "unat len \<le> n - k * 1024"
    using that f assms(2) unfolding verify_address_ok d by simp
  show "\<not> dst_refused ly soft_id dst"
    using assms(1,2) d by (auto simp: dst_refused_def image_fits_def file_start_def word_less_nat_alt f_def)
qed

lemma wait_for_program_takes:
  assumes "recieve_dfu_data_transfer_confirm s = Some (Some desc, t)" and "softid_in_progress (cntxt t) = soft_id"
    and "start_offset (cntxt t) = 0" and "dst = file_start ly soft_id + running_offset (cntxt t)" and "\<not> dst_refused ly soft_id dst"
    and "rram_write_dxe dst (At (p_buff desc)) (data_len desc) (d_dxe t) = Some (st, d)"
    and "u = snd (attach_buffer_to_element A2F_RING (desc_index desc) (t\<lparr>d_dxe := d\<rparr>))"
  shows "wait_for_program ly s = Some (Next ((upd_cntxt (\<lambda>c. c\<lparr>curr_pkt_count := curr_pkt_count c + 1\<rparr>) u)
    \<lparr>ld_state := (if curr_pkt_count (cntxt u) + 1 < total_pkts (cntxt u) then REQUEST_PROGRAM else RESOURCE_TRANSFER_COMPLETED)\<rparr>))"
  using assms by (simp add: wait_for_program_def Let_def upd_cntxt_def)

lemma store_step:
  assumes "answered soft_id file m k s" and "image_fits ly soft_id (length file)" and "k < packet_count (length file)"
  obtains s' where "dfu_pass ly s = Some s'"
    and "ready soft_id file (mwrite m (file_start ly soft_id + of_nat (k * 1024)) (chunk k file)) (k + 1) s'"
    and "ld_state s' = (if k + 1 < packet_count (length file) then REQUEST_PROGRAM else RESOURCE_TRANSFER_COMPLETED)"
proof -
  let ?n = "length file" and ?i = "ucast (dfu_read_idx (dfu_ring (a2f_dfu_ring_handle s))) :: u8"
  define dst where "dst = file_start ly soft_id + of_nat (k * 1024)"
  define len where "len = rd32 (d_mem s) (a2f_msg s + 8)"
  have s: "link s" "pending (a2f_dfu_ring_handle s)" "ctx soft_id ?n k (cntxt s)" "ld_state s = WAIT_FOR_PROGRAM"
    "unat len = length (chunk k file)" "mread (d_mem s) (a2f_msg s + 16) (unat len) = chunk k file" "agrees m (d_mem s)"
    using assms(1) by (simp_all add: answered_def len_def)
  have n: "?n \<le> 0x180000" using assms(2) by (auto simp: image_fits_def)
  note b = packet_count_bounds(1) [OF assms(3)] and c = ctx_packet_len [OF s(3) assms(3) n]
  have v: "rram_verify_address dst len = BL_ERR_NONE" "\<not> dst_refused ly soft_id dst"
    using packet_place [OF assms(2) b] s(5) by (simp_all add: dst_def length_chunk)
  have "unat (a2f_msg s + 16) + unat len \<le> 0x200000"
    using a2f_msg_bounds [OF s(2)] s(5) by (auto simp: length_chunk unat_word_ariths)
  from rram_write_at_stores [OF _ v(1) this, of "d_dxe s"] s(1,6)
  obtain e where w: "rram_write_dxe dst (At (a2f_msg s + 16)) len (d_dxe s) =
      Some (BL_ERR_NONE, (d_dxe s)\<lparr>dx_mem := mwrite (d_mem s) dst (chunk k file), dx_n := e\<rparr>)"
    by (auto simp: link_def dxe_stores_def)
  define d where "d = (d_dxe s)\<lparr>dx_mem := mwrite (d_mem s) dst (chunk k file), dx_n := e\<rparr>"
  have d: "dxe_ok d" using s(1) by (simp add: d_def link_def)
  define u where "u = snd (attach_buffer_to_element A2F_RING ?i ((taken s)\<lparr>d_dxe := d\<rparr>))"
  note r = reattach [OF s(1,2) d, folded u_def]
  define s' where "s' = (upd_cntxt (\<lambda>c. c\<lparr>curr_pkt_count := curr_pkt_count c + 1\<rparr>) u)
    \<lparr>ld_state := (if k + 1 < packet_count ?n then REQUEST_PROGRAM else RESOURCE_TRANSFER_COMPLETED)\<rparr>"
  have less: "(curr_pkt_count (cntxt s) + 1 < total_pkts (cntxt s)) \<longleftrightarrow> k + 1 < packet_count ?n"
  proof -
    have "k + 1 < 2 ^ 16" using b n by simp
    then show ?thesis using c by (simp add: word_less_nat_alt unat_word_ariths)
  qed
  have "rd16 (d_mem s) (a2f_msg s) = A2F_DFU_DATA_TRANSFER_CFM" "running_offset (cntxt s) = of_nat (k * 1024)"
    using assms(1) by (simp_all add: answered_def)
  then have "wait_for_program ly s = Some (Next s')"
    using wait_for_program_takes [OF receive_data [OF s(1,2)], of soft_id dst ly BL_ERR_NONE d u] w v(2) s(3) r(4) less
    by (simp add: taken_same ctx_def dst_def d_def u_def len_def s'_def)
  then have "dfu_pass ly s = Some s'" using s(4) by (simp add: dfu_pass_def sys_loader_pass_def)
  moreover have "agrees (mwrite m dst (chunk k file)) (d_mem u)"
    using agrees_store [OF s(7)] r(5) by (simp add: d_def)
  then have "ready soft_id file (mwrite m dst (chunk k file)) (k + 1) s'"
    using r(1-4) s(3) assms(1) by (simp add: ready_def s'_def link_upd answered_def ctx_def) (simp add: upd_cntxt_def add.commute)
  moreover have "ld_state s' = (if k + 1 < packet_count ?n then REQUEST_PROGRAM else RESOURCE_TRANSFER_COMPLETED)" by (simp add: s'_def)
  ultimately show ?thesis unfolding dst_def by (rule that)
qed

text \<open>All exchanges: the chunks make up the image.\<close>

lemma chunk_extends:
  assumes "length file \<le> 0x180000"
  shows "mwrite (mwrite m a (take (k * 1024) file)) (a + of_nat (k * 1024)) (chunk k file) = mwrite m a (take ((k + 1) * 1024) file)"
proof (cases "k * 1024 \<le> length file")
  case True
  have "take ((k + 1) * 1024) file = take (k * 1024) file @ chunk k file"
    by (simp add: chunk_def take_add [symmetric] add.commute)
  then show ?thesis using mwrite_append [of "take (k * 1024) file" "chunk k file" m a] True assms by (simp add: length_chunk)
qed (simp add: chunk_def)

lemma exchanges:
  assumes "image_fits ly soft_id (length file)" and "k + n = packet_count (length file)"
    and "ready soft_id file (mwrite m (file_start ly soft_id) (take (k * 1024) file)) k s"
    and "ld_state s = (if 0 < n then REQUEST_PROGRAM else RESOURCE_TRANSFER_COMPLETED)" and "dfu_reach ly s0 s"
  shows "\<exists>s'. dfu_exchanges ly file n s = Some s' \<and> ld_state s' = RESOURCE_TRANSFER_COMPLETED \<and> dfu_reach ly s0 s' \<and>
    agrees (mwrite m (file_start ly soft_id) (take (packet_count (length file) * 1024) file)) (d_mem s')"
  using assms(2-5)
proof (induction n arbitrary: k s)
  case 0
  then show ?case by (simp add: ready_def)
next
  case (Suc n)
  have l: "length file \<le> 0x180000" using assms(1) by (auto simp: image_fits_def)
  have k: "k < packet_count (length file)" using Suc.prems(1) by simp
  obtain s1 where s1: "dfu_pass ly s = Some s1" and a1: "asked soft_id file (mwrite m (file_start ly soft_id) (take (k * 1024) file)) k s1"
    using request_step [OF Suc.prems(2) _ k l] Suc.prems(3) by auto
  have "k * 1024 < 2 ^ 32" using packet_count_bounds(1) [OF k] l by simp
  note a2 = answer_step [OF a1 this]
  from store_step [OF a2 assms(1) k] obtain s3 where s3: "dfu_pass ly (host_answer file s1) = Some s3"
    "ready soft_id file (mwrite (mwrite m (file_start ly soft_id) (take (k * 1024) file)) (file_start ly soft_id + of_nat (k * 1024)) (chunk k file)) (k + 1) s3"
    "ld_state s3 = (if k + 1 < packet_count (length file) then REQUEST_PROGRAM else RESOURCE_TRANSFER_COMPLETED)" .
  have "ready soft_id file (mwrite m (file_start ly soft_id) (take ((k + 1) * 1024) file)) (k + 1) s3"
    using s3(2) unfolding chunk_extends [OF l] .
  moreover have "dfu_reach ly s0 s3"
    using reach_pass [OF reach_answer [OF reach_pass [OF Suc.prems(4) s1]] s3(1)] .
  ultimately show ?case
    using Suc.IH [of "k + 1" s3] Suc.prems(1) s3(1,3) s1 by simp
qed

section \<open>The whole dialogue\<close>

lemma init_fields:
  "ld_state (sys_loader_init ly s) = WAIT_FOR_DFU" "ld_drain (sys_loader_init ly s) = False"
  "fermion_dfu_defaults (sys_loader_init ly s) = shadow_fermion_defaults (sys_loader_init ly s)"
  "a2f_dfu_ring_handle (sys_loader_init ly s) = a2f_dfu_ring_handle (init_ring_param s)"
  "f2a_dfu_ring_handle (sys_loader_init ly s) = f2a_dfu_ring_handle (init_ring_param s)"
  "d_dxe (sys_loader_init ly s) = d_dxe (init_ring_param s)"
  by (simp_all add: sys_loader_init_def init_config_table_def Let_def)

lemmas init_ring_simps = init_ring_param_def Let_def attach_buffer_to_element_def upd_simps set_elem_def zero_ring_def
  numeral_2_eq_2 all_less_two

lemma init_idle: "idle (a2f_dfu_ring_handle (init_ring_param s))" "idle (f2a_dfu_ring_handle (init_ring_param s))"
  by (simp_all add: init_ring_simps idle_def)

lemma init_attached:
  "\<forall>i < Suc (Suc 0). p_buf (ring_element (dfu_ring (a2f_dfu_ring_handle (init_ring_param s))) ! i) = buf_place A2F_RING (of_nat i)"
  by (simp add: init_ring_simps)

lemma init_dxe: "\<exists>m. d_dxe (init_ring_param s) = (d_dxe s)\<lparr>dx_mem := m\<rparr>"
  by (simp add: init_ring_simps exI)

lemma agrees_attach: "agrees m (d_mem (snd (attach_buffer_to_element direction i s))) = agrees m (d_mem s)"
proof (cases "unat i < 2")
  case True
  define a where "a = buf_place direction i + ucast (elem_room direction)"
  have "unat a \<in> {0x1603C, 0x1C040, 0x1C244, 0x1C448}"
  proof -
    have "i = 0 \<or> i = 1" using True by (auto simp: word_unat_eq_iff)
    then show ?thesis by (cases direction) (auto simp: a_def buf_place_def elem_room_def)
  qed
  then have "agrees m (mwrite (d_mem s) a (enc32 0xFACEFACE)) = agrees m (d_mem s)" by (intro agrees_mwrite) auto
  then show ?thesis using True by (auto simp: attach_buffer_to_element_def a_def upd_simps)
qed (simp add: attach_buffer_to_element_def)

lemma init_agrees: "agrees (d_mem s) (d_mem (init_ring_param s))"
  by (simp add: init_ring_param_def Let_def upd_a2f_def upd_f2a_def agrees_attach) (simp add: agrees_def)

lemma init_link: "dxe_ok (d_dxe s) \<Longrightarrow> link (sys_loader_init ly s)"
  using init_attached [of s] init_dxe [of s] init_inv [of ly s] by (auto simp: link_def init_fields numeral_2_eq_2 dxe_ok_def)

lemma request_received:
  assumes "link s" and "idle (a2f_dfu_ring_handle s)" and "idle (f2a_dfu_ring_handle s)" and "agrees m (d_mem s)"
    and "ld_state s = WAIT_FOR_DFU" and "\<not> ld_drain s" and "soft_id \<in> {WLAN_IMG_ID, BDF_ID}"
  obtains s' where "dfu_pass ly (host_put (request_msg soft_id n) s) = Some s'" and "link s'" and "idle (a2f_dfu_ring_handle s')"
    and "idle (f2a_dfu_ring_handle s')" and "agrees m (d_mem s')" and "ld_state s' = CHECK_FOR_DFU_BITMAP" and "\<not> ld_drain s'"
    and "softid_dfu_bitmap (cntxt s') = soft_id" and "dfu_file_size (cntxt s') = of_nat n"
proof -
  define t where "t = host_put (request_msg soft_id n) s"
  note p = host_put_link [OF assms(1,2), of "request_msg soft_id n", folded t_def]
  note f = request_msg_fields [of "d_mem s" "a2f_msg t" soft_id n, folded p(3)]
  let ?h = "a2f_dfu_ring_handle t"
  let ?i = "ucast (dfu_read_idx (dfu_ring ?h)) :: u8"
  let ?g = "\<lambda>h. h\<lparr>dfu_ring := set_elem (unat ?i) (\<lambda>e. e\<lparr>elem_len := A2F_ELEMENT_LEN\<rparr>) (dfu_ring h)\<rparr>"
  define v where "v = upd_a2f (\<lambda>h. increment_read_index (?g h)) t"
  define u where "u = upd_cntxt (\<lambda>c. c\<lparr>softid_dfu_bitmap := soft_id, dfu_file_size := of_nat n\<rparr>) v"
  note h = link_rings(1) [OF p(1)]
  have g: "a2f_ok (?g ?h)" by (rule ok_set_len(1) [OF h a2f_index [OF h]])
  have r: "dfu_ring (a2f_dfu_ring_handle v) = (dfu_ring (?g ?h))\<lparr>dfu_read_idx := other (dfu_read_idx (dfu_ring ?h))\<rparr>"
    using increment_read [OF g] by (simp add: v_def upd_simps)
  have rx: "recieve_dfu_req t = Some (True, u)"
    using pending_not_empty [OF p(1,2)] pending_elem_buf [OF p(1)] f by (simp add: recieve_dfu_req_def u_def v_def Let_def)
  have v: "dfu_inv v" "fermion_dfu_defaults v = fermion_dfu_defaults t" "shadow_fermion_defaults v = shadow_fermion_defaults t"
    "d_dxe v = d_dxe t" "f2a_dfu_ring_handle v = f2a_dfu_ring_handle t" "ld_drain v = ld_drain t"
    using inv_read_message [OF _ a2f_index [OF h], of t "A2F_ELEMENT_LEN"] p(1) by (simp_all add: v_def link_def) (simp_all add: upd_simps)
  have "length (ring_element (dfu_ring ?h)) = 2" using h by (simp add: a2f_ok_def)
  then have "p_buf (ring_element (dfu_ring (a2f_dfu_ring_handle v)) ! j) = p_buf (ring_element (dfu_ring ?h) ! j)" if "j < 2" for j
    unfolding r using that a2f_index [OF h] by (simp add: set_elem_def nth_list_update)
  then have "link v" using p(1) v by (simp add: link_def)
  moreover have "idle (a2f_dfu_ring_handle v)" using p(2) r by (simp add: idle_def pending_def)
  moreover have "agrees m (d_mem v)"
    using v(4) p(3) assms(4) a2f_msg_bounds [OF p(2)] by (auto simp: agrees_mwrite request_msg_def)
  moreover have "\<not> ld_drain v" using v(6) assms(6) by (simp add: t_def host_put_def Let_def upd_simps)
  moreover have "dfu_pass ly t = Some (u\<lparr>ld_state := CHECK_FOR_DFU_BITMAP\<rparr>)"
    using assms(5,7) rx by (auto simp: dfu_pass_def sys_loader_pass_def t_def wait_for_dfu_def with_msg_def Let_def u_def upd_cntxt_def)
  ultimately show ?thesis
    using v(5) assms(3) by (intro that [of "u\<lparr>ld_state := CHECK_FOR_DFU_BITMAP\<rparr>"])
      (simp_all add: t_def [symmetric] u_def link_upd, simp_all add: upd_cntxt_def t_def)
qed

lemma resource_started:
  assumes "link s" and "idle (a2f_dfu_ring_handle s)" and "idle (f2a_dfu_ring_handle s)" and "agrees m (d_mem s)"
    and "ld_state s = CHECK_FOR_DFU_BITMAP" and "\<not> ld_drain s" and "softid_dfu_bitmap (cntxt s) = soft_id"
    and "dfu_file_size (cntxt s) = of_nat (length file)" and "soft_id \<in> {WLAN_IMG_ID, BDF_ID}"
  obtains s' where "dfu_pass ly s = Some s'" and "ready soft_id file m 0 (host_take s')" and "ld_state s' = REQUEST_PROGRAM"
proof -
  from send_idle [OF assms(1,3), of "\<lambda>p m. mwrite m p (msg_hdr F2A_DFU_CFM)" 4]
  obtain u where u: "send_dfu_confirm s = Some (True, u)" "link u" "pending (f2a_dfu_ring_handle u)"
    "a2f_dfu_ring_handle u = a2f_dfu_ring_handle s" "cntxt u = cntxt s"
    "d_mem u = mwrite (d_mem s) (f2a_msg u) (msg_hdr F2A_DFU_CFM)" unfolding send_dfu_confirm_def by metis
  define s' where "s' = (upd_cntxt start_resource u)\<lparr>ld_state := REQUEST_PROGRAM\<rparr>"
  have "dfu_pass ly s = Some s'"
    using assms(5-9) u(1,5) by (auto simp: dfu_pass_def sys_loader_pass_def check_for_dfu_bitmap_def with_msg_def s'_def)
  moreover have "link s'" "pending (f2a_dfu_ring_handle s')" using u by (simp_all add: s'_def link_upd) (simp add: upd_cntxt_def)
  then have "link (host_take s')" "idle (f2a_dfu_ring_handle (host_take s'))" using host_take_link by blast+
  moreover have "ctx soft_id (length file) 0 (cntxt s')"
    using assms(7-9) u(5) by (auto simp: ctx_def s'_def upd_cntxt_def start_resource_def Let_def)
  moreover have "agrees m (d_mem s')"
    using u(6) f2a_msg_bounds [OF u(3)] assms(4) by (auto simp: s'_def upd_cntxt_def agrees_mwrite msg_hdr_def)
  ultimately show ?thesis using assms(2) u(4) by (intro that [of s']) (simp_all add: ready_def, simp_all add: s'_def upd_cntxt_def)
qed

lemma dialogue_stores:
  assumes "dxe_ok (d_dxe s0)" and "image_fits ly soft_id (length file)" and "file \<noteq> []"
  shows "\<exists>s. dfu_dialogue ly soft_id file s0 = Some s \<and> ld_state s = RESOURCE_TRANSFER_COMPLETED \<and> dfu_reach ly s0 s \<and>
    agrees (mwrite (d_mem s0) (file_start ly soft_id) file) (d_mem s)"
proof -
  have id: "soft_id \<in> {WLAN_IMG_ID, BDF_ID}" using assms(2) by (auto simp: image_fits_def)
  let ?i = "sys_loader_init ly s0"
  have "idle (a2f_dfu_ring_handle ?i)" "idle (f2a_dfu_ring_handle ?i)" "agrees (d_mem s0) (d_mem ?i)"
    using init_idle [of s0] init_agrees [of s0] by (simp_all add: init_fields)
  from request_received [OF init_link [OF assms(1)] this init_fields(1) _ id, of ly "length file"] init_fields(2) [of ly s0]
  obtain s1 where s1: "dfu_pass ly (host_put (request_msg soft_id (length file)) ?i) = Some s1" "link s1"
    "idle (a2f_dfu_ring_handle s1)" "idle (f2a_dfu_ring_handle s1)" "agrees (d_mem s0) (d_mem s1)"
    "ld_state s1 = CHECK_FOR_DFU_BITMAP" "\<not> ld_drain s1" "softid_dfu_bitmap (cntxt s1) = soft_id"
    "dfu_file_size (cntxt s1) = of_nat (length file)" by blast
  from resource_started [OF s1(2-9) id]
  obtain s2 where s2: "dfu_pass ly s1 = Some s2" "ready soft_id file (d_mem s0) 0 (host_take s2)" "ld_state s2 = REQUEST_PROGRAM" .
  have "dfu_reach ly s0 (host_take s2)"
    using reach_pass [OF reach_pass [OF dfu_reach.host [OF dfu_reach.start host_put_may] s1(1)] s2(1)] host_take_may
    by (rule dfu_reach.host)
  moreover have "0 < packet_count (length file)" using assms(3) div_le_mono [of 1024 "length file + 1023" 1024] by (cases "file") (simp_all add: packet_count_def)
  ultimately obtain s where "dfu_exchanges ly file (packet_count (length file)) (host_take s2) = Some s"
    "ld_state s = RESOURCE_TRANSFER_COMPLETED" "dfu_reach ly s0 s"
    "agrees (mwrite (d_mem s0) (file_start ly soft_id) (take (packet_count (length file) * 1024) file)) (d_mem s)"
    using exchanges [OF assms(2), of 0 "packet_count (length file)" "d_mem s0" "host_take s2" s0] s2(2,3) by auto
  moreover have "length file \<le> packet_count (length file) * 1024" unfolding packet_count_def by linarith
  ultimately show ?thesis using s1(1) s2(1) by (simp add: dfu_dialogue_def packet_count_def)
qed

lemma foreign_received:
  assumes "dfu_inv s" and "\<not> a2f_dfu_ring_check_empty s"
    and "elem_buf (dfu_ring (a2f_dfu_ring_handle s)) (ucast (dfu_read_idx (dfu_ring (a2f_dfu_ring_handle s)))) = Some p"
    and "rd16 (d_mem s) p \<noteq> A2F_DFU_DATA_TRANSFER_CFM"
  shows "recieve_dfu_data_transfer_confirm s =
    Some (Some \<lparr>p_buff = 0, data_len = 0, desc_index = 0\<rparr>, upd_a2f increment_read_index s)"
  using assms by (simp add: recieve_dfu_data_transfer_confirm_def Let_def)

lemma empty_write:
  assumes "dxe_ok d"
  obtains st n where "rram_write_dxe dst (At 0) 0 d = Some (st, d\<lparr>dx_n := n\<rparr>)"
proof (cases "rram_verify_address dst 0 = BL_ERR_NONE")
  case True
  have "dxe_stores d (dx_mem d) (rram_write_dxe dst (At 0) 0 d)"
    using rram_write_at_stores [OF assms True, of 0] by (simp add: mread_def)
  then show ?thesis using that by (auto simp: dxe_stores_def)
next
  case False
  then have "rram_write_dxe dst (At 0) 0 d = Some (rram_verify_address dst 0, d\<lparr>dx_n := dx_n d\<rparr>)" by (simp add: rram_write_dxe_def)
  then show ?thesis by (rule that)
qed

definition demo_layout :: dfu_layout where
  "demo_layout = \<lparr>ly_fdt_reg = 0x37FA00, ly_pointers = [], ly_app_image_start = 0x210000, ly_raw_file_start = 0x300000,
     ly_bdf_addr = 0x37A000\<rparr>"

definition demo_dfu :: dfu where
  "demo_dfu = \<lparr>d_dxe = \<lparr>dx_mem = \<lambda>_. 0, dx_poll = \<lambda>_ _. True, dx_cell = \<lambda>_ _ b. b, dx_n = 0\<rparr>,
     a2f_dfu_ring_handle = \<lparr>dfu_ring = zero_ring, shadow_dfu_ring = zero_ring\<rparr>,
     f2a_dfu_ring_handle = \<lparr>dfu_ring = zero_ring, shadow_dfu_ring = zero_ring\<rparr>,
     fermion_dfu_defaults = \<lparr>table_hdr = 0, table_len = 0, wifi_fw_pbl_ver = 0, wifi_fw_wlan_ver = 0, wifi_fw_sbl_ver = 0,
       wifi_fw_bdf_ver = 0, wifi_fw_reg_db_ver = 0, wifi_fw_ini_ver = 0, ring_elem_sizes = (0, 0), ring_num_elems = (0, 0), ring_pointers = []\<rparr>,
     shadow_fermion_defaults = \<lparr>table_hdr = 0, table_len = 0, wifi_fw_pbl_ver = 0, wifi_fw_wlan_ver = 0, wifi_fw_sbl_ver = 0,
       wifi_fw_bdf_ver = 0, wifi_fw_reg_db_ver = 0, wifi_fw_ini_ver = 0, ring_elem_sizes = (0, 0), ring_num_elems = (0, 0), ring_pointers = []\<rparr>,
     cntxt = \<lparr>softid_in_progress = 2, start_offset = 0, dfu_file_size = 3, prog_len = 3, running_offset = 0, total_pkts = 1,
       curr_pkt_count = 0, softid_dfu_bitmap = 2, softid_dfu_done_bitmap = 0\<rparr>,
     ld_state = WAIT_FOR_DFU, ld_drain = False\<rparr>"

lemma demo_dfu_dxe_ok: "dxe_ok (d_dxe demo_dfu)"
  by (simp add: demo_dfu_def dxe_ok_def)

section \<open>Properties\<close>

text \<open>
  C22: with a host that asks for an update and answers each request with the part of the image it asks for, the loader, from
  its start, reaches the end of the transfer with the image in RRAM at the place of the resource; outside the message buffers
  no other byte has changed.
\<close>

theorem dfu_transfer_exact:
  assumes "dxe_ok (d_dxe s0)" and "image_fits ly soft_id (length file)" and "file \<noteq> []"
  shows "\<exists>s. dfu_dialogue ly soft_id file s0 = Some s \<and> ld_state s = RESOURCE_TRANSFER_COMPLETED \<and> dfu_reach ly s0 s \<and>
    (\<forall>x. \<not> in_buffers x \<longrightarrow> d_mem s x = mwrite (d_mem s0) (file_start ly soft_id) file x)"
  using dialogue_stores [OF assms] unfolding agrees_def .

theorem dfu_transfer_exact_witness:
  "\<exists>s. dfu_dialogue demo_layout 2 [1, 2, 3] demo_dfu = Some s \<and> ld_state s = RESOURCE_TRANSFER_COMPLETED \<and>
    dfu_reach demo_layout demo_dfu s \<and> (\<forall>x. \<not> in_buffers x \<longrightarrow> d_mem s x = mwrite (\<lambda>_. 0) 0x210000 [1, 2, 3] x)"
proof -
  have "image_fits demo_layout 2 (length [1, 2, 3 :: u8])" "file_start demo_layout 2 = 0x210000" "d_mem demo_dfu = (\<lambda>_. 0)"
    by (simp_all add: image_fits_def file_start_def demo_layout_def demo_dfu_def)
  then show ?thesis using dfu_transfer_exact [OF demo_dfu_dxe_ok, of demo_layout 2 "[1, 2, 3]"] by simp
qed

text \<open>
  While the loader waits for a data packet, a message of any other kind is taken as one: the packet is counted and nothing
  is stored, so that the image has a gap.
\<close>

theorem dfu_foreign_message_counted:
  assumes "dfu_inv s" and "ld_state s = WAIT_FOR_PROGRAM" and "\<not> a2f_dfu_ring_check_empty s" and "dxe_ok (d_dxe s)"
    and "elem_buf (dfu_ring (a2f_dfu_ring_handle s)) (ucast (dfu_read_idx (dfu_ring (a2f_dfu_ring_handle s)))) = Some p"
    and "rd16 (d_mem s) p \<noteq> A2F_DFU_DATA_TRANSFER_CFM" and "softid_in_progress (cntxt s) = soft_id" and "start_offset (cntxt s) = 0"
    and "\<not> dst_refused ly soft_id (file_start ly soft_id + running_offset (cntxt s))"
  shows "\<exists>s'. sys_loader_pass ly s = Some (Next s') \<and> curr_pkt_count (cntxt s') = curr_pkt_count (cntxt s) + 1 \<and>
    ld_state s' \<in> {REQUEST_PROGRAM, RESOURCE_TRANSFER_COMPLETED} \<and> (\<forall>x. \<not> in_buffers x \<longrightarrow> d_mem s' x = d_mem s x)"
proof -
  let ?t = "upd_a2f increment_read_index s" and ?dst = "file_start ly soft_id + running_offset (cntxt s)"
  have t: "cntxt ?t = cntxt s" "d_dxe ?t = d_dxe s" by (simp_all add: upd_simps)
  obtain st n where w: "rram_write_dxe ?dst (At 0) 0 (d_dxe s) = Some (st, (d_dxe s)\<lparr>dx_n := n\<rparr>)"
    using empty_write [OF assms(4)] by blast
  define u where "u = snd (attach_buffer_to_element A2F_RING 0 (?t\<lparr>d_dxe := (d_dxe s)\<lparr>dx_n := n\<rparr>\<rparr>))"
  have u: "cntxt u = cntxt s" by (simp add: u_def attach_buffer_to_element_def upd_simps)
  have "agrees (d_mem s) (d_mem u)" by (simp add: u_def agrees_attach) (simp add: agrees_def)
  moreover have "wait_for_program ly s = Some (Next ((upd_cntxt (\<lambda>c. c\<lparr>curr_pkt_count := curr_pkt_count c + 1\<rparr>) u)
    \<lparr>ld_state := (if curr_pkt_count (cntxt u) + 1 < total_pkts (cntxt u) then REQUEST_PROGRAM else RESOURCE_TRANSFER_COMPLETED)\<rparr>))"
    using assms(7-9) w t by (intro wait_for_program_takes [OF foreign_received [OF assms(1,3,5,6)]]) (simp_all add: u_def)
  ultimately show ?thesis using assms(2) u by (simp add: sys_loader_pass_def upd_cntxt_def agrees_def)
qed

definition demo_foreign :: dfu where
  "demo_foreign = (host_put [9, 0] (sys_loader_init demo_layout demo_dfu))\<lparr>ld_state := WAIT_FOR_PROGRAM\<rparr>"

lemma demo_foreign_link: "link demo_foreign" "pending (a2f_dfu_ring_handle demo_foreign)" "cntxt demo_foreign = cntxt demo_dfu"
  "d_mem demo_foreign = mwrite (d_mem (sys_loader_init demo_layout demo_dfu)) (a2f_msg demo_foreign) [9, 0]"
proof -
  have i: "idle (a2f_dfu_ring_handle (sys_loader_init demo_layout demo_dfu))" by (simp add: init_fields init_idle)
  note p = host_put_link [OF init_link [OF demo_dfu_dxe_ok] i, of "[9, 0]"]
  show "link demo_foreign" "pending (a2f_dfu_ring_handle demo_foreign)"
    "d_mem demo_foreign = mwrite (d_mem (sys_loader_init demo_layout demo_dfu)) (a2f_msg demo_foreign) [9, 0]"
    using p by (simp_all add: demo_foreign_def link_upd a2f_msg_def)
  show "cntxt demo_foreign = cntxt demo_dfu"
    by (simp add: demo_foreign_def sys_loader_init_def init_config_table_def init_ring_param_def Let_def upd_a2f_def upd_f2a_def
        attach_buffer_to_element_def upd_ring_def upd_mem_def)
qed

theorem dfu_foreign_message_counted_witness:
  "\<exists>s'. sys_loader_pass demo_layout demo_foreign = Some (Next s') \<and> curr_pkt_count (cntxt s') = 1 \<and>
    ld_state s' \<in> {REQUEST_PROGRAM, RESOURCE_TRANSFER_COMPLETED} \<and> (\<forall>x. \<not> in_buffers x \<longrightarrow> d_mem s' x = d_mem demo_foreign x)"
proof -
  note f = demo_foreign_link
  have "mread (d_mem demo_foreign) (a2f_msg demo_foreign) 2 = [9, 0]"
    using mwrite_slice [of 0 2 "[9, 0]" "d_mem (sys_loader_init demo_layout demo_dfu)" "a2f_msg demo_foreign"] f(4) by simp
  then have "rd16 (d_mem demo_foreign) (a2f_msg demo_foreign) \<noteq> A2F_DFU_DATA_TRANSFER_CFM" by (simp add: rd16_def le16_def)
  moreover have "dfu_inv demo_foreign" "dxe_ok (d_dxe demo_foreign)" using f(1) by (simp_all add: link_def)
  moreover have "ld_state demo_foreign = WAIT_FOR_PROGRAM" by (simp add: demo_foreign_def)
  moreover have "\<not> dst_refused demo_layout 2 (file_start demo_layout 2 + running_offset (cntxt demo_foreign))"
    "softid_in_progress (cntxt demo_foreign) = 2" "start_offset (cntxt demo_foreign) = 0" "curr_pkt_count (cntxt demo_foreign) = 0"
    by (simp_all add: f(3) demo_dfu_def dst_refused_def file_start_def demo_layout_def)
  ultimately show ?thesis
    using dfu_foreign_message_counted [OF _ _ pending_not_empty [OF f(1,2)] _ pending_elem_buf [OF f(1)], of 2 demo_layout] by simp
qed

text \<open>
  C28: as long as the host changes between two passes only what the protocol gives it (the messages, the table, its own indices to any value, the lengths and tags of
  the elements): the indices of the loader stay inside the rings, no pass accesses an element that does not exist, and a pass changes memory only in the
  message buffers and in RRAM. The loader relies on that: the copies it keeps of the rings are compared but the result is dropped. Where it is about to
  confirm a request and the ring has room, an address the host writes to the element is followed, whatever it is, and an index the host moves out of the ring is used.
\<close>

theorem dfu_host_safe_within_protocol:
  assumes "dfu_reach ly s0 s"
  shows "(dfu_inv s \<and> sys_loader_pass ly s \<noteq> Some Fault \<and>
    (\<forall>s' x. (sys_loader_pass ly s = Some (Next s') \<or> (\<exists>e. sys_loader_pass ly s = Some (Return e s'))) \<longrightarrow>
       outside_rram x \<longrightarrow> \<not> in_buffers x \<longrightarrow> d_mem s' x = d_mem s x)) \<and>
    (ld_state s = CHECK_FOR_DFU_BITMAP \<longrightarrow> \<not> ld_drain s \<longrightarrow> f2a_dfu_ring_check_occupancy s \<longrightarrow>
      (\<forall>p. \<exists>s'. sys_loader_pass ly (redirect p s) = Some (Next s') \<and> d_mem s' = mwrite (d_mem s) p (msg_hdr F2A_DFU_CFM)) \<and>
      sys_loader_pass ly (move_index 2 s) = Some Fault)"
proof -
  note inv = reach_inv [OF assms]
  have "\<exists>s'. sys_loader_pass ly (redirect p s) = Some (Next s') \<and> d_mem s' = mwrite (d_mem s) p (msg_hdr F2A_DFU_CFM)"
    and "sys_loader_pass ly (move_index 2 s) = Some Fault"
    if a: "ld_state s = CHECK_FOR_DFU_BITMAP" "\<not> ld_drain s" "f2a_dfu_ring_check_occupancy s" for p
  proof -
    have st: "ld_state (redirect p s) = CHECK_FOR_DFU_BITMAP" "\<not> ld_drain (redirect p s)" "ld_state (move_index 2 s) = CHECK_FOR_DFU_BITMAP"
      "\<not> ld_drain (move_index 2 s)" using a by (simp_all add: redirect_def move_index_def upd_simps)
    obtain u where "send_dfu_confirm (redirect p s) = Some (True, u)" "d_mem u = mwrite (d_mem s) p (msg_hdr F2A_DFU_CFM)"
      using redirected_send [OF a(3) inv_rings(2) [OF inv], of "\<lambda>p m. mwrite m p (msg_hdr F2A_DFU_CFM)" 4 p] unfolding send_dfu_confirm_def by blast
    then show "\<exists>s'. sys_loader_pass ly (redirect p s) = Some (Next s') \<and> d_mem s' = mwrite (d_mem s) p (msg_hdr F2A_DFU_CFM)"
      using st by (simp add: sys_loader_pass_def check_for_dfu_bitmap_def with_msg_def upd_simps)
    show "sys_loader_pass ly (move_index 2 s) = Some Fault"
      using st moved_send [OF a(3) inv_rings(2) [OF inv]]
      by (simp add: sys_loader_pass_def check_for_dfu_bitmap_def with_msg_def send_dfu_confirm_def)
  qed
  moreover have "sys_loader_pass ly s \<noteq> Some Fault \<and> (\<forall>s' x. (sys_loader_pass ly s = Some (Next s') \<or> (\<exists>e. sys_loader_pass ly s = Some (Return e s'))) \<longrightarrow>
       outside_rram x \<longrightarrow> \<not> in_buffers x \<longrightarrow> d_mem s' x = d_mem s x)"
    using pass_ok [OF inv, of ly] by (auto simp: step_ok_def confined_def)
  ultimately show ?thesis using inv by blast
qed

text \<open>A message of no known kind, and a host that asks for an image and then puts the address 0x20000 into the element of the confirmation.\<close>

theorem dfu_host_safe_within_protocol_witness:
  "sys_loader_pass demo_layout (host_put [9] (sys_loader_init demo_layout demo_dfu)) \<noteq> Some Fault \<and>
   (\<exists>s s'. dfu_reach demo_layout demo_dfu s \<and> sys_loader_pass demo_layout (redirect 0x20000 s) = Some (Next s') \<and> d_mem s' 0x20000 = F2A_DFU_CFM)"
proof
  show "sys_loader_pass demo_layout (host_put [9] (sys_loader_init demo_layout demo_dfu)) \<noteq> Some Fault"
    using dfu_host_safe_within_protocol [OF dfu_reach.host [OF dfu_reach.start [of demo_layout demo_dfu] host_put_may [of _ "[9]"]]] by simp
  let ?i = "sys_loader_init demo_layout demo_dfu"
  have "idle (a2f_dfu_ring_handle ?i)" "idle (f2a_dfu_ring_handle ?i)" "agrees (d_mem demo_dfu) (d_mem ?i)"
    using init_idle [of demo_dfu] init_agrees [of demo_dfu] by (simp_all add: init_fields)
  from request_received [OF init_link [OF demo_dfu_dxe_ok] this init_fields(1), of WLAN_IMG_ID demo_layout 3] init_fields(2) [of demo_layout demo_dfu]
  obtain s where s: "dfu_pass demo_layout (host_put (request_msg 2 3) ?i) = Some s" "link s" "idle (f2a_dfu_ring_handle s)"
    "ld_state s = CHECK_FOR_DFU_BITMAP" "\<not> ld_drain s" by blast
  have r: "dfu_reach demo_layout demo_dfu s" by (rule reach_pass [OF dfu_reach.host [OF dfu_reach.start host_put_may] s(1)])
  obtain s' where "sys_loader_pass demo_layout (redirect 0x20000 s) = Some (Next s')" "d_mem s' = mwrite (d_mem s) 0x20000 (msg_hdr F2A_DFU_CFM)"
    using dfu_host_safe_within_protocol [OF r] s(4,5) idle_occupancy [OF s(2,3)] by blast
  moreover have "mwrite (d_mem s) 0x20000 (msg_hdr F2A_DFU_CFM) 0x20000 = F2A_DFU_CFM" by (simp add: mwrite_def mcombine_def msg_hdr_def)
  ultimately show "\<exists>s s'. dfu_reach demo_layout demo_dfu s \<and> sys_loader_pass demo_layout (redirect 0x20000 s) = Some (Next s') \<and> d_mem s' 0x20000 = F2A_DFU_CFM"
    using r by metis
qed

end
