(* ===== verification/QcliUtil.thy ===== *)
theory QcliUtil
  imports Prelude
begin

text \<open>
  Conversions of the console, \<open>src/modules/console/qcli_util.c\<close>. A C string is the list of its characters up to the
  terminating zero; \<open>ch\<close> reads a character, the terminating zero included.
\<close>

unbundle bit_operations_syntax

definition ch :: "u8 list \<Rightarrow> nat \<Rightarrow> u8" where
  "ch s i = (if i < length s then s ! i else 0)"

abbreviation (input) CHR_0 :: u8 where "CHR_0 \<equiv> 0x30"
abbreviation (input) CHR_9 :: u8 where "CHR_9 \<equiv> 0x39"
abbreviation (input) CHR_A :: u8 where "CHR_A \<equiv> 0x41"
abbreviation (input) CHR_a :: u8 where "CHR_a \<equiv> 0x61"
abbreviation (input) CHR_f :: u8 where "CHR_f \<equiv> 0x66"
abbreviation (input) CHR_z :: u8 where "CHR_z \<equiv> 0x7A"
abbreviation (input) CHR_x :: u8 where "CHR_x \<equiv> 0x78"
abbreviation (input) CHR_minus :: u8 where "CHR_minus \<equiv> 0x2D"

section \<open>Comparison\<close>

definition upper :: "u8 \<Rightarrow> u8" where
  "upper b = (if CHR_a \<le> b \<and> b \<le> CHR_z then b - (CHR_a - CHR_A) else b)"

primrec QCLI_Memcmpi :: "u8 list \<Rightarrow> u8 list \<Rightarrow> nat \<Rightarrow> int" where
  "QCLI_Memcmpi s1 s2 0 = 0"
| "QCLI_Memcmpi s1 s2 (Suc n) =
     (let b1 = upper (ch s1 0); b2 = upper (ch s2 0) in
      if b1 = b2 then QCLI_Memcmpi (drop 1 s1) (drop 1 s2) n else if b1 < b2 then -1 else 1)"

section \<open>Numbers\<close>

definition QCLI_Hex_Nibble_To_Int :: "u8 \<Rightarrow> u8 option" where
  "QCLI_Hex_Nibble_To_Int nibble =
     (let nibble = nibble OR 0x20 in
      if CHR_0 \<le> nibble \<and> nibble \<le> CHR_9 then Some (nibble - CHR_0)
      else if CHR_a \<le> nibble \<and> nibble \<le> CHR_f then Some (nibble - CHR_a + 10)
      else None)"

definition hex_prefix :: "u8 list \<Rightarrow> bool" where
  "hex_prefix s \<longleftrightarrow> ch s 0 = CHR_0 \<and> ch s 1 OR 0x20 = CHR_x"

primrec digits_loop :: "'a::len word \<Rightarrow> u8 list \<Rightarrow> 'a word \<Rightarrow> bool \<times> 'a word" where
  "digits_loop base [] number = (True, number)"
| "digits_loop base (c # cs) number =
     (if c = 0 then (True, number)
      else
       (case QCLI_Hex_Nibble_To_Int c of
          None \<Rightarrow> (False, number)
        | Some v \<Rightarrow>
            if ucast v < base
            then (let number' = number * base + ucast v in
                  if number \<le> number' then digits_loop base cs number' else (False, number'))
            else (False, number)))"

text \<open>The result is a 32-bit word that the callers read as signed.\<close>

definition QCLI_String_To_Integer :: "u8 list \<Rightarrow> bool \<times> u32" where
  "QCLI_String_To_Integer s =
     (let negative = (ch s 0 = CHR_minus);
          s = (if negative then drop 1 s else s);
          base = (if hex_prefix s then 16 else 10);
          s = (if hex_prefix s then drop 2 s else s);
          (ok, number) = digits_loop base s 0;
          ok = (if ok \<and> (base = 10 \<or> negative) then 0 \<le> sint number else ok) in
      if ok then (True, if negative then 0 - number else number) else (False, 0))"

text \<open>Sixteen is above every digit, so that the loop has no comparison with the base in the next two functions.\<close>

definition QCLI_Hex_String_To_ULL :: "u8 list \<Rightarrow> bool \<times> u64" where
  "QCLI_Hex_String_To_ULL s =
     (let (ok, number) = digits_loop 16 (if hex_prefix s then drop 2 s else s) 0 in
      if ok then (True, number) else (False, 0))"

fun array_loop :: "u8 list \<Rightarrow> nat \<Rightarrow> bool \<times> u8 list" where
  "array_loop s 0 = (True, [])"
| "array_loop s (Suc room) =
     (if ch s 0 = 0 then (True, [])
      else if ch s 1 = 0 then (False, [])
      else
       (case (QCLI_Hex_Nibble_To_Int (ch s 0), QCLI_Hex_Nibble_To_Int (ch s 1)) of
          (Some v1, Some v2) \<Rightarrow> (let (ok, out) = array_loop (drop 2 s) room in (ok, (push_bit 4 v1 OR v2) # out))
        | _ \<Rightarrow> (False, [])))"

text \<open>The status, the new size and the contents of the output buffer.\<close>

definition QCLI_Hex_String_To_Array :: "u8 list \<Rightarrow> nat \<Rightarrow> bool \<times> nat \<times> u8 list" where
  "QCLI_Hex_String_To_Array s output_size =
     (let (ok, out) = array_loop (if hex_prefix s then drop 2 s else s) output_size in
      (ok, if ok then length out else output_size, out @ replicate (output_size - length out) 0))"

definition QCLI_Verify_Integer_Parameter :: "bool \<times> u32 \<Rightarrow> int \<Rightarrow> int \<Rightarrow> bool" where
  "QCLI_Verify_Integer_Parameter p min_value max_value \<longleftrightarrow> fst p \<and> min_value \<le> sint (snd p) \<and> sint (snd p) \<le> max_value"

definition QCLI_Verify_Unsigned_Integer_Parameter :: "bool \<times> u32 \<Rightarrow> u32 \<Rightarrow> u32 \<Rightarrow> bool" where
  "QCLI_Verify_Unsigned_Integer_Parameter p min_value max_value \<longleftrightarrow> fst p \<and> min_value \<le> snd p \<and> snd p \<le> max_value"

text \<open>Compared with the terminating zero, two strings are equal up to case.\<close>

lemma upper_zero [simp]: "upper c = 0 \<longleftrightarrow> c = 0"
  by (auto simp: upper_def split: if_splits)

lemma upper_0 [simp]: "upper 0 = 0" "0 = upper c \<longleftrightarrow> c = 0"
  using upper_zero [of 0] upper_zero [of c] by auto

lemma memcmpi_eq:
  assumes "0 \<notin> set s1" and "0 \<notin> set s2"
  shows "QCLI_Memcmpi s1 s2 (Suc (length s1)) = 0 \<longleftrightarrow> map upper s1 = map upper s2"
  using assms
proof (induction s1 arbitrary: s2)
  case Nil
  then show ?case by (cases s2) (auto simp: ch_def Let_def)
next
  case (Cons c s1)
  show ?case
  proof (cases s2)
    case Nil
    then show ?thesis using Cons.prems by (auto simp: ch_def Let_def)
  next
    case (Cons d t)
    have "QCLI_Memcmpi s1 t (Suc (length s1)) = 0 \<longleftrightarrow> map upper s1 = map upper t"
      using Cons.IH [of t] Cons.prems Cons by auto
    then show ?thesis using Cons by (simp add: ch_def Let_def del: QCLI_Memcmpi.simps(2)) (simp add: ch_def Let_def)
  qed
qed

section \<open>Printed numbers\<close>

definition digit :: "nat \<Rightarrow> u8" where
  "digit d = (if d < 10 then CHR_0 + of_nat d else CHR_a + of_nat (d - 10))"

fun numeral_in :: "nat \<Rightarrow> nat \<Rightarrow> u8 list" where
  "numeral_in b n = (if n < b \<or> b < 2 then [digit n] else numeral_in b (n div b) @ [digit (n mod b)])"

declare numeral_in.simps [simp del]

definition decimal :: "int \<Rightarrow> u8 list" where
  "decimal i = (if i < 0 then CHR_minus # numeral_in 10 (nat (- i)) else numeral_in 10 (nat i))"

definition hexadecimal :: "u32 \<Rightarrow> u8 list" where
  "hexadecimal w = [CHR_0, CHR_x] @ numeral_in 16 (unat w)"

lemma less_16: "d < 16 \<Longrightarrow> d \<in> {0, 1, 2, 3, 4, 5, 6, 7, 8, 9, 10, 11, 12, 13, 14, 15 :: nat}"
  unfolding insert_iff empty_iff by presburger

lemma digit_value:
  assumes "d < 16"
  shows "QCLI_Hex_Nibble_To_Int (digit d) = Some (of_nat d)" and "digit d \<noteq> 0" and "digit d OR 0x20 \<noteq> CHR_x"
    and "digit d \<noteq> CHR_minus"
  using less_16 [OF assms] by (auto simp: digit_def QCLI_Hex_Nibble_To_Int_def Let_def)

lemma digits_loop_append:
  assumes "0 \<notin> set s" and "digits_loop base s number = (True, n)"
  shows "digits_loop base (s @ t) number = digits_loop base t n"
  using assms by (induction s arbitrary: number) (auto simp: Let_def split: option.splits if_splits)

lemma numeral_digits: "b \<in> {10, 16} \<Longrightarrow> set (numeral_in b n) \<subseteq> digit ` {..<b}"
proof (induction b n rule: numeral_in.induct)
  case (1 b n)
  show ?case
  proof (cases "n < b")
    case False
    have "numeral_in b n = numeral_in b (n div b) @ [digit (n mod b)]" using False 1(2) by (subst numeral_in.simps) auto
    then show ?thesis using 1 False by auto
  qed (simp add: numeral_in.simps [of b n])
qed

lemma numeral_nonzero: "b \<in> {10, 16} \<Longrightarrow> 0 \<notin> set (numeral_in b n)"
  using numeral_digits [of b n] digit_value(2) by fastforce

lemma digit_step:
  fixes base :: "'a::len word"
  assumes "d < b" and "b \<le> 16" and "base = of_nat b" and "8 \<le> LENGTH('a)" and "m * b + d < 2 ^ LENGTH('a)" and "0 < b"
  shows "digits_loop base [digit d] (of_nat m) = (True, of_nat (m * b + d))"
proof -
  have "(2 :: nat) ^ 8 \<le> 2 ^ LENGTH('a)" using assms(4) by (intro power_increasing) simp_all
  then have small: "k < 2 ^ LENGTH('a)" if "k \<le> 16" for k :: nat using that by simp
  have u: "unat (of_nat k :: 'a word) = k" if "k < 2 ^ LENGTH('a)" for k using that by (simp add: unat_of_nat)
  have v: "ucast (of_nat d :: u8) = (of_nat d :: 'a word)"
  proof -
    have "unat (of_nat d :: u8) = d" using assms(1,2) by (simp add: unat_of_nat)
    moreover have "(of_nat (unat (of_nat d :: u8)) :: 'a word) = ucast (of_nat d :: u8)" by (simp only: of_nat_unat)
    ultimately show ?thesis by simp
  qed
  have "(of_nat d :: 'a word) < base"
    using assms(1-3) u [OF small, of d] u [OF small, of b] by (simp add: word_less_nat_alt)
  moreover have "m \<le> m * b + d" using assms(6) by (cases b) simp_all
  then have "(of_nat m :: 'a word) \<le> of_nat (m * b + d)"
    using assms(5) u [of m] u [OF assms(5)] by (simp add: word_le_nat_alt)
  ultimately show ?thesis
    using assms(1-3) digit_value(1,2) [of d] v by (simp add: Let_def)
qed

lemma numeral_loop:
  fixes base :: "'a::len word"
  assumes "b \<in> {10, 16}" and "base = of_nat b" and "8 \<le> LENGTH('a)" and "n < 2 ^ LENGTH('a)"
  shows "digits_loop base (numeral_in b n) 0 = (True, of_nat n)"
  using assms
proof (induction b n rule: numeral_in.induct)
  case (1 b n)
  have b: "0 < b" "b \<le> 16" "\<not> b < 2" using 1(2) by auto
  show ?case
  proof (cases "n < b")
    case True
    then show ?thesis using digit_step [of n b base 0] 1(3-5) b by (simp add: numeral_in.simps [of b n])
  next
    case False
    have e: "n div b * b + n mod b = n" by simp
    have "n div b < 2 ^ LENGTH('a)" using 1(5) div_le_dividend [of n b] by linarith
    from 1(1) [OF _ 1(2-4) this] False b
    have "digits_loop base (numeral_in b (n div b) @ [digit (n mod b)]) 0 = digits_loop base [digit (n mod b)] (of_nat (n div b))"
      by (intro digits_loop_append numeral_nonzero [OF 1(2)]) simp
    also have "\<dots> = (True, of_nat n)"
      using digit_step [of "n mod b" b base "n div b"] 1(3-5) b unfolding e by simp
    finally show ?thesis using False b by (simp add: numeral_in.simps [of b n])
  qed
qed

lemma numeral_head:
  assumes "b \<in> {10, 16}"
  shows "\<exists>d s. numeral_in b n = digit d # s \<and> d < b \<and> set s \<subseteq> digit ` {..<b}"
proof -
  have "numeral_in b n \<noteq> []" by (subst numeral_in.simps) simp
  then obtain c s where "numeral_in b n = c # s" by (cases "numeral_in b n") auto
  then show ?thesis using numeral_digits [OF assms, of n] by auto
qed

lemma numeral_no_prefix: "b \<in> {10, 16} \<Longrightarrow> \<not> hex_prefix (numeral_in b n) \<and> ch (numeral_in b n) 0 \<noteq> CHR_minus"
proof -
  assume b: "b \<in> {10, 16}"
  then obtain d s where e: "numeral_in b n = digit d # s" "d < b" "set s \<subseteq> digit ` {..<b}" using numeral_head by blast
  have "ch s 0 OR 0x20 \<noteq> CHR_x"
  proof (cases s)
    case (Cons c t)
    then obtain k where "c = digit k" "k < 16" using e(3) b by force
    then show ?thesis using digit_value(3) [of k] Cons by (simp add: ch_def)
  qed (simp add: ch_def)
  moreover have "ch (digit d # s) 1 = ch s 0" by (simp add: ch_def)
  ultimately show ?thesis using digit_value(4) [of d] e b by (auto simp: hex_prefix_def ch_def)
qed

text \<open>
  Every 32-bit number but the smallest is read back from its decimal form, and every word from its hexadecimal form; anything
  that is not a digit is refused.
\<close>

lemma decimal_read_back:
  assumes "- (2 ^ 31) < i" and "i < 2 ^ 31"
  shows "QCLI_String_To_Integer (decimal i) = (True, of_int i)"
proof -
  define n where "n = nat \<bar>i\<bar>"
  have n: "n < 2 ^ 31" "n < 2 ^ LENGTH(32)" using assms by (simp_all add: n_def)
  have l: "digits_loop (10 :: u32) (numeral_in 10 n) 0 = (True, of_nat n)" using n by (intro numeral_loop) simp_all
  have s: "0 \<le> sint (of_nat n :: u32)" using n(1) by (simp add: signed_of_nat signed_take_bit_int_eq_self)
  note p = numeral_no_prefix [of 10 n]
  show ?thesis
  proof (cases "i < 0")
    case True
    have "decimal i = CHR_minus # numeral_in 10 n" using True by (simp add: decimal_def n_def)
    moreover have "- (of_nat n :: u32) = of_int i" using True by (simp add: n_def)
    ultimately show ?thesis using l s p by (simp add: QCLI_String_To_Integer_def ch_def Let_def)
  next
    case False
    have "decimal i = numeral_in 10 n" using False by (simp add: decimal_def n_def)
    moreover have "(of_nat n :: u32) = of_int i" using False by (simp add: n_def)
    ultimately show ?thesis using l s p by (simp add: QCLI_String_To_Integer_def Let_def)
  qed
qed

lemma hexadecimal_read_back: "QCLI_String_To_Integer (hexadecimal w) = (True, w)"
proof -
  have "digits_loop (16 :: u32) (numeral_in 16 (unat w)) 0 = (True, w)"
    using numeral_loop [of 16 "16 :: u32" "unat w"] unat_u32_bound [of w] by simp
  then show ?thesis by (simp add: QCLI_String_To_Integer_def hexadecimal_def hex_prefix_def ch_def Let_def)
qed

definition hex_bytes :: "u8 list \<Rightarrow> u8 list" where
  "hex_bytes bs = concat (map (\<lambda>b. [digit (unat b div 16), digit (unat b mod 16)]) bs)"

lemma nibbles_join:
  assumes "a < 16" and "b < 16"
  shows "(push_bit 4 (of_nat a) OR of_nat b :: u8) = of_nat (a * 16 + b)"
  using less_16 [OF assms(1)] less_16 [OF assms(2)] by auto

lemma hex_bytes_loop: "length bs \<le> room \<Longrightarrow> array_loop (hex_bytes bs) room = (True, bs)"
proof (induction bs arbitrary: room)
  case Nil
  then show ?case by (cases room) (simp_all add: hex_bytes_def ch_def)
next
  case (Cons b bs)
  from Cons.prems obtain r where r: "room = Suc r" "length bs \<le> r" by (cases room) auto
  define x where "x = unat b"
  have x: "x < 256" using unsigned_less [of b] by (simp add: x_def)
  then have d: "x div 16 < 16" "x mod 16 < 16" by simp_all
  have "(push_bit 4 (of_nat (x div 16)) OR of_nat (x mod 16) :: u8) = b"
    unfolding nibbles_join [OF d] by (simp add: x_def)
  moreover have "hex_bytes (b # bs) = digit (x div 16) # digit (x mod 16) # hex_bytes bs" by (simp add: hex_bytes_def x_def)
  ultimately show ?case
    using Cons.IH [OF r(2)] digit_value(1,2) [OF d(1)] digit_value(1,2) [OF d(2)] r(1) by (simp add: ch_def)
qed

lemma hex_array_read_back:
  assumes "length bs \<le> n"
  shows "QCLI_Hex_String_To_Array (hex_bytes bs) n = (True, length bs, bs @ replicate (n - length bs) 0)"
proof -
  have "\<not> hex_prefix (hex_bytes bs)"
  proof (cases bs)
    case (Cons b t)
    then show ?thesis using digit_value(3) [of "unat b mod 16"] by (simp add: hex_prefix_def hex_bytes_def ch_def)
  qed (simp add: hex_prefix_def hex_bytes_def ch_def)
  then show ?thesis using hex_bytes_loop [OF assms] by (simp add: QCLI_Hex_String_To_Array_def)
qed

text \<open>A product that wraps to a larger number is not noticed, and control characters count as digits.\<close>

lemma overflow_accepted:
  "QCLI_String_To_Integer [0x35, 0x33, 0x36, 0x38, 0x37, 0x30, 0x39, 0x31, 0x32, 0x30] = (True, 1073741824)"
  "QCLI_String_To_Integer [0x11, 0x12] = (True, 12)"
  by (simp_all add: QCLI_String_To_Integer_def QCLI_Hex_Nibble_To_Int_def ch_def hex_prefix_def Let_def)

end
