(* ===== verification/QcliTree.thy ===== *)
theory QcliTree
  imports QcliUtil "HOL-Library.Monad_Syntax"
begin

text \<open>
  The menu of the console, \<open>src/modules/console/qcli.c\<close>: command groups in linked lists, registration, search and output.

  Group entries live in a heap \<open>ptr \<rightharpoonup> Group_List_Entry\<close>, the root being the static entry \<open>Root_Group\<close>. Reading an address that
  is not allocated, or following a NULL pointer, gives \<open>None\<close>, and so does a walk along a list that does not end. A command
  group's list of commands carries its count, and the empty list is NULL. Text is written to \<open>console\<close> in the form it has after \<open>vsnprintf\<close>. The recursive lock
  is always granted (\<open>PAL_Take_Lock\<close>).
\<close>

unbundle bit_operations_syntax

section \<open>Data\<close>

type_synonym ptr = nat

datatype command_function = Command_Help | Command_Up | Command_Root | User nat

record QAPI_Console_Command =
  Command_Function :: command_function
  Command_String :: "u8 list"
  Usage_String :: "u8 list"
  Description :: "u8 list"

record QAPI_Console_Command_Group =
  Group_String :: "u8 list"
  Command_List :: "QAPI_Console_Command list"

record Group_List_Entry =
  Next :: "ptr option"
  Command_Group :: "QAPI_Console_Command_Group option"
  Parent_Group :: "ptr option"
  Subgroup_List :: "ptr option"

type_synonym group_heap = "ptr \<rightharpoonup> Group_List_Entry"

datatype find_result = Found_Command QAPI_Console_Command | Found_Group ptr

text \<open>A parameter; its string starts at an offset of the input buffer.\<close>

record QAPI_Console_Parameter =
  String_Value :: nat
  Integer_Value :: u32
  Integer_Is_Valid :: bool

record background =
  th_input :: "u8 list"
  th_parameters :: "QAPI_Console_Parameter list"
  th_command :: QAPI_Console_Command
  th_index :: u32

record qcli =
  heap :: group_heap
  Current_Group :: ptr
  Executing_Group :: ptr
  Input_Length :: nat
  Input_String :: "u8 list"
  Parameter_List :: "QAPI_Console_Parameter list"
  Current_Printf_Group :: "ptr option"
  Printf_New_Line :: bool
  Thread_Count :: u8
  threads :: "background list"
  console :: "u8 list"

abbreviation (input) Root_Group :: ptr where "Root_Group \<equiv> 0"
abbreviation (input) QCLI_COMMAND_START_INDEX :: u32 where "QCLI_COMMAND_START_INDEX \<equiv> 1"
abbreviation (input) QCLI_MAXIMUM_PRINTF_LENGTH :: nat where "QCLI_MAXIMUM_PRINTF_LENGTH \<equiv> 2048"
abbreviation (input) CHR_newline :: u8 where "CHR_newline \<equiv> 10"
abbreviation (input) END_OF_LINE :: "u8 list" where "END_OF_LINE \<equiv> [13, 10]"

definition ascii :: "string \<Rightarrow> u8 list" where
  "ascii s = map (\<lambda>c. of_nat (of_char c)) s"

definition Help_Command :: QAPI_Console_Command where
  "Help_Command = \<lparr>Command_Function = Command_Help, Command_String = ascii ''Help'', Usage_String = ascii ''[Command (optional)]'',
     Description = ascii ''Display Command list or usage for a command''\<rparr>"

definition Common_Command_List :: "QAPI_Console_Command list" where
  "Common_Command_List =
     [\<lparr>Command_Function = Command_Up, Command_String = ascii ''Up'', Usage_String = [],
       Description = ascii ''Exit command group (move to parent group)''\<rparr>,
      \<lparr>Command_Function = Command_Root, Command_String = ascii ''Root'', Usage_String = [],
       Description = ascii ''Move to top-level group list''\<rparr>]"

section \<open>Output\<close>

fun print_loop :: "u8 list \<Rightarrow> u8 list \<Rightarrow> u8 list" where
  "print_loop prefix [] = []"
| "print_loop prefix (c # cs) =
     (if c = CHR_newline
      then END_OF_LINE @ (if cs \<noteq> [] \<and> hd cs \<noteq> CHR_newline then prefix else []) @ print_loop prefix cs
      else c # print_loop prefix cs)"

definition write_console :: "u8 list \<Rightarrow> qcli \<Rightarrow> qcli" where
  "write_console bs s = s\<lparr>console := console s @ bs\<rparr>"

text \<open>The part of \<open>QCLI_Printf\<close> behind the group name: the buffer is cut, line ends are replaced, the flags follow.\<close>

definition print_buffer :: "ptr \<Rightarrow> u8 list \<Rightarrow> u8 list \<Rightarrow> qcli \<Rightarrow> qcli" where
  "print_buffer h prefix string s =
     (let buf = take (QCLI_MAXIMUM_PRINTF_LENGTH - 1) string;
          s = write_console (print_loop prefix buf) (s\<lparr>Current_Printf_Group := Some h\<rparr>) in
      if buf = [] then s
      else if last buf = CHR_newline then s\<lparr>Current_Printf_Group := Some Root_Group, Printf_New_Line := False\<rparr>
      else s\<lparr>Printf_New_Line := True\<rparr>)"

definition change_group :: "ptr \<Rightarrow> qcli \<Rightarrow> qcli" where
  "change_group h s =
     (if Current_Printf_Group s \<noteq> Some h \<and> Printf_New_Line s then (write_console END_OF_LINE s)\<lparr>Printf_New_Line := False\<rparr> else s)"

text \<open>\<open>QCLI_Printf\<close> with the handle of the console itself, which prints no group name.\<close>

definition printf_main :: "u8 list \<Rightarrow> qcli \<Rightarrow> qcli" where
  "printf_main string s = print_buffer Root_Group [] string (change_group Root_Group s)"

definition print_all :: "u8 list list \<Rightarrow> qcli \<Rightarrow> qcli" where
  "print_all strings s = fold printf_main strings s"

partial_function (option) Display_Group_Name :: "ptr \<Rightarrow> qcli \<Rightarrow> qcli option" where
  "Display_Group_Name g s =
     do {
       e \<leftarrow> heap s g;
       p \<leftarrow> Parent_Group e;
       pe \<leftarrow> heap s p;
       s \<leftarrow> (if Parent_Group pe \<noteq> None
             then do { s \<leftarrow> Display_Group_Name p s; Some (printf_main (ascii [CHR 0x5C]) s) }
             else Some s);
       cg \<leftarrow> Command_Group e;
       Some (printf_main (Group_String cg) s)
     }"

definition QCLI_Printf :: "ptr option \<Rightarrow> u8 list \<Rightarrow> qcli \<Rightarrow> qcli option" where
  "QCLI_Printf handle string s =
     (case handle of
        None \<Rightarrow> Some s
      | Some h \<Rightarrow>
          do {
            e \<leftarrow> heap s h;
            s \<leftarrow> (if Current_Printf_Group s \<noteq> Some h \<and> h \<noteq> Root_Group \<and> ch string 0 \<noteq> CHR_newline
                  then do { s \<leftarrow> Display_Group_Name h (change_group h s); Some (write_console (ascii '': '') s) }
                  else Some (change_group h s));
            let prefix = (case Command_Group e of
                            Some cg \<Rightarrow> if h \<noteq> Root_Group then Group_String cg @ ascii '': '' else []
                          | None \<Rightarrow> []);
            Some (print_buffer h prefix string s)
          })"

definition two_digits :: "nat \<Rightarrow> u8 list" where
  "two_digits n = (if n < 10 then ascii '' '' else []) @ numeral_in 10 n"

definition menu_line :: "nat \<Rightarrow> u8 list \<Rightarrow> u8 list" where
  "menu_line n name = ascii ''    '' @ two_digits n @ ascii ''. '' @ name @ [CHR_newline]"

definition Display_Usage :: "u32 \<Rightarrow> QAPI_Console_Command \<Rightarrow> qcli \<Rightarrow> qcli" where
  "Display_Usage command_index c =
     print_all [[CHR_newline], decimal (sint command_index) @ ascii '': '' @ Command_String c @ ascii '' '' @ Usage_String c @ [CHR_newline],
       ascii ''    '' @ Description c @ [CHR_newline], [CHR_newline]]"

definition list_commands :: "QAPI_Console_Command list \<Rightarrow> nat \<Rightarrow> qcli \<Rightarrow> qcli" where
  "list_commands cs n = print_all (map (\<lambda>(i, c). menu_line i (Command_String c)) (enumerate n cs))"

partial_function (option) list_subgroups :: "ptr option \<Rightarrow> nat \<Rightarrow> qcli \<Rightarrow> qcli option" where
  "list_subgroups g n s =
     (case g of
        None \<Rightarrow> Some s
      | Some p \<Rightarrow>
          do {
            e \<leftarrow> heap s p;
            cg \<leftarrow> Command_Group e;
            list_subgroups (Next e) (n + 1) (printf_main (menu_line n (Group_String cg)) s)
          })"

text \<open>The parts of \<open>Display_Command_List\<close>: the title with the name of the group, the numbered commands, the numbered subgroups.\<close>

definition group_commands :: "Group_List_Entry \<Rightarrow> QAPI_Console_Command list" where
  "group_commands e = (case Command_Group e of None \<Rightarrow> [] | Some cg \<Rightarrow> Command_List cg)"

definition common_commands :: "Group_List_Entry \<Rightarrow> QAPI_Console_Command list" where
  "common_commands e = (if Parent_Group e \<noteq> None then Common_Command_List else [])"

definition list_title :: "ptr \<Rightarrow> Group_List_Entry \<Rightarrow> qcli \<Rightarrow> qcli option" where
  "list_title g e s =
     do {
       let s = print_all [[CHR_newline], ascii ''Command List''] s;
       if Parent_Group e \<noteq> None
       then do { s \<leftarrow> Display_Group_Name g (printf_main (ascii '' ('') s); Some (printf_main (ascii '')'') s) }
       else Some s
     }"

definition list_entries :: "Group_List_Entry \<Rightarrow> qcli \<Rightarrow> qcli" where
  "list_entries e s =
     (let s = print_all [ascii '':'' @ [CHR_newline], ascii ''  Commands:'' @ [CHR_newline], menu_line 1 (Command_String Help_Command)] s;
          s = list_commands (common_commands e) 2 s in
      if group_commands e \<noteq> [] then list_commands (group_commands e) (2 + length (common_commands e)) (printf_main [CHR_newline] s) else s)"

definition Display_Command_List :: "ptr \<Rightarrow> qcli \<Rightarrow> qcli option" where
  "Display_Command_List g s =
     do {
       e \<leftarrow> heap s g;
       s \<leftarrow> list_title g e s;
       let s = list_entries e s;
       let n = 2 + length (common_commands e) + length (group_commands e);
       s \<leftarrow> (if Subgroup_List e \<noteq> None
             then list_subgroups (Subgroup_List e) n (print_all [[CHR_newline], ascii ''  Subgroups:'' @ [CHR_newline]] s)
             else Some s);
       Some (printf_main [CHR_newline] s)
     }"

section \<open>Search\<close>

definition same_name :: "u8 list \<Rightarrow> u8 list \<Rightarrow> bool" where
  "same_name string name \<longleftrightarrow> QCLI_Memcmpi string name (length string + 1) = 0"

fun command_by_string :: "u8 list \<Rightarrow> QAPI_Console_Command list \<Rightarrow> u32 \<Rightarrow> QAPI_Console_Command option \<times> u32" where
  "command_by_string string [] command_index = (None, command_index)"
| "command_by_string string (c # cs) command_index =
     (if same_name string (Command_String c) then (Some c, command_index) else command_by_string string cs (command_index + 1))"

partial_function (option) subgroup_by_string :: "group_heap \<Rightarrow> u8 list \<Rightarrow> ptr option \<Rightarrow> u32 \<Rightarrow> (ptr option \<times> u32) option" where
  "subgroup_by_string h string g command_index =
     (case g of
        None \<Rightarrow> Some (None, command_index)
      | Some p \<Rightarrow>
          do {
            e \<leftarrow> h p;
            cg \<leftarrow> Command_Group e;
            if same_name string (Group_String cg) then Some (Some p, command_index)
            else subgroup_by_string h string (Next e) (command_index + 1)
          })"

text \<open>The result of a search, and the index that the parameter gets; the index of a parameter that is not found stays.\<close>

definition Find_Command_By_String :: "group_heap \<Rightarrow> ptr \<Rightarrow> u8 list \<Rightarrow> (find_result \<times> u32) option option" where
  "Find_Command_By_String h g string =
     do {
       e \<leftarrow> h g;
       if same_name string (Command_String Help_Command) then Some (Some (Found_Command Help_Command, QCLI_COMMAND_START_INDEX))
       else
        (case command_by_string string (common_commands e) QCLI_COMMAND_START_INDEX of
           (Some c, i) \<Rightarrow> Some (Some (Found_Command c, i))
         | (None, i) \<Rightarrow>
             (case command_by_string string (group_commands e) i of
                (Some c, i) \<Rightarrow> Some (Some (Found_Command c, i))
              | (None, i) \<Rightarrow>
                  do {
                    (r, i) \<leftarrow> subgroup_by_string h string (Subgroup_List e) i;
                    Some (map_option (\<lambda>p. (Found_Group p, i)) r)
                  }))
     }"

partial_function (option) subgroup_by_index :: "group_heap \<Rightarrow> ptr option \<Rightarrow> u32 \<Rightarrow> ptr option option" where
  "subgroup_by_index h g command_index =
     (case g of
        None \<Rightarrow> Some None
      | Some p \<Rightarrow>
          if command_index = 0 then Some (Some p)
          else do { e \<leftarrow> h p; subgroup_by_index h (Next e) (command_index - 1) })"

definition Find_Command_By_Index :: "group_heap \<Rightarrow> ptr \<Rightarrow> u32 \<Rightarrow> find_result option option" where
  "Find_Command_By_Index h g command_index =
     do {
       e \<leftarrow> h g;
       if command_index = QCLI_COMMAND_START_INDEX then Some (Some (Found_Command Help_Command))
       else if QCLI_COMMAND_START_INDEX < command_index
       then
        (let i = command_index - (QCLI_COMMAND_START_INDEX + 1); n = of_nat (length (common_commands e)) in
         if i < n then Some (Some (Found_Command (common_commands e ! unat i)))
         else
          (let i = i - n; n = of_nat (length (group_commands e)) in
           if i < n then Some (Some (Found_Command (group_commands e ! unat i)))
           else
            do {
              r \<leftarrow> subgroup_by_index h (Subgroup_List e) (i - n);
              Some (map_option Found_Group r)
            }))
       else Some None
     }"

definition Find_Command :: "group_heap \<Rightarrow> ptr \<Rightarrow> u8 list \<Rightarrow> QAPI_Console_Parameter \<Rightarrow>
    (find_result option \<times> QAPI_Console_Parameter) option" where
  "Find_Command h g string p =
     (if Integer_Is_Valid p
      then do { r \<leftarrow> Find_Command_By_Index h g (Integer_Value p); Some (r, p) }
      else
       do {
         r \<leftarrow> Find_Command_By_String h g string;
         Some (case r of None \<Rightarrow> (None, p) | Some (f, i) \<Rightarrow> (Some f, p\<lparr>Integer_Value := i, Integer_Is_Valid := True\<rparr>))
       })"

section \<open>Registration\<close>

text \<open>\<open>malloc\<close> is the allocator: given the addresses in use, an address or NULL.\<close>

partial_function (option) last_entry :: "group_heap \<Rightarrow> ptr \<Rightarrow> ptr option" where
  "last_entry h p = do { e \<leftarrow> h p; (case Next e of None \<Rightarrow> Some p | Some q \<Rightarrow> last_entry h q) }"

definition upd_entry :: "ptr \<Rightarrow> (Group_List_Entry \<Rightarrow> Group_List_Entry) \<Rightarrow> group_heap \<Rightarrow> group_heap" where
  "upd_entry p f h = h(p := map_option f (h p))"

definition QCLI_Register_Command_Group :: "((ptr \<Rightarrow> bool) \<Rightarrow> ptr option) \<Rightarrow> ptr option \<Rightarrow> QAPI_Console_Command_Group option \<Rightarrow> qcli \<Rightarrow>
    (ptr option \<times> qcli) option" where
  "QCLI_Register_Command_Group malloc parent cgo s =
     (case (cgo, malloc (\<lambda>p. heap s p \<noteq> None)) of
        (Some cg, Some new) \<Rightarrow>
          do {
            let p = (case parent of None \<Rightarrow> Root_Group | Some p \<Rightarrow> p);
            let h = (heap s)(new \<mapsto> \<lparr>Next = None, Command_Group = Some cg, Parent_Group = Some p, Subgroup_List = None\<rparr>);
            e \<leftarrow> h p;
            h \<leftarrow> (case Subgroup_List e of
                    None \<Rightarrow> Some (upd_entry p (\<lambda>e. e\<lparr>Subgroup_List := Some new\<rparr>) h)
                  | Some q \<Rightarrow> do { l \<leftarrow> last_entry h q; Some (upd_entry l (\<lambda>e. e\<lparr>Next := Some new\<rparr>) h) });
            Some (Some new, s\<lparr>heap := h\<rparr>)
          }
      | _ \<Rightarrow> Some (None, s))"

text \<open>The entry in front of a given one in a list.\<close>

partial_function (option) entry_before :: "group_heap \<Rightarrow> ptr \<Rightarrow> ptr option \<Rightarrow> ptr option option" where
  "entry_before h g p =
     (case p of
        None \<Rightarrow> Some None
      | Some q \<Rightarrow> do { e \<leftarrow> h q; if Next e = Some g then Some (Some q) else entry_before h g (Next e) })"

text \<open>Taking an entry out of its parent's list; the flag tells if it was there.\<close>

definition unlink_entry :: "ptr \<Rightarrow> group_heap \<Rightarrow> (bool \<times> group_heap) option" where
  "unlink_entry g h =
     do {
       e \<leftarrow> h g;
       p \<leftarrow> Parent_Group e;
       pe \<leftarrow> h p;
       if Subgroup_List pe = Some g then Some (True, upd_entry p (\<lambda>pe. pe\<lparr>Subgroup_List := Next e\<rparr>) h)
       else
        do {
          b \<leftarrow> entry_before h g (Subgroup_List pe);
          Some (case b of None \<Rightarrow> (False, h) | Some q \<Rightarrow> (True, upd_entry q (\<lambda>qe. qe\<lparr>Next := Next e\<rparr>) h))
        }
     }"

text \<open>
  \<open>Unregister_Command_Group\<close> on an entry (\<open>Inl\<close>) and its loop over the subgroups (\<open>Inr\<close>), on heap and current group. The result
  is the flag for a change of the current group.
\<close>

partial_function (option) unregister :: "ptr + ptr option \<Rightarrow> group_heap \<times> ptr \<Rightarrow> (bool \<times> group_heap \<times> ptr) option" where
  "unregister what hc =
     (case what of
        Inl g \<Rightarrow>
          do {
            (valid, h) \<leftarrow> unlink_entry g (fst hc);
            if valid
            then
             do {
               e \<leftarrow> h g;
               (r, h, c) \<leftarrow> unregister (Inr (Subgroup_List e)) (h, snd hc);
               e \<leftarrow> h g;
               (r, c) \<leftarrow> (if c = g then do { p \<leftarrow> Parent_Group e; Some (True, p) } else Some (r, c));
               Some (r, h(g := None), c)
             }
            else Some (False, h, snd hc)
          }
      | Inr None \<Rightarrow> Some (False, hc)
      | Inr (Some q) \<Rightarrow>
          do {
            e \<leftarrow> fst hc q;
            (r1, hc) \<leftarrow> unregister (Inl q) hc;
            (r2, hc) \<leftarrow> unregister (Inr (Next e)) hc;
            Some (r1 \<or> r2, hc)
          })"

definition Unregister_Command_Group :: "ptr \<Rightarrow> qcli \<Rightarrow> (bool \<times> qcli) option" where
  "Unregister_Command_Group g s =
     do { (r, h, c) \<leftarrow> unregister (Inl g) (heap s, Current_Group s); Some (r, s\<lparr>heap := h, Current_Group := c\<rparr>) }"

definition QCLI_Display_Prompt :: "qcli \<Rightarrow> qcli option" where
  "QCLI_Display_Prompt s =
     do {
       let s = printf_main [CHR_newline] s;
       e \<leftarrow> heap s (Current_Group s);
       s \<leftarrow> (if Parent_Group e \<noteq> None then Display_Group_Name (Current_Group s) s else Some s);
       let s = printf_main (ascii ''>'' @ [13, CHR_newline] @ ascii ''>'') s;
       Some (if Input_Length s \<noteq> 0 then write_console (take (Input_Length s) (Input_String s)) s else s)
     }"

definition QCLI_Unregister_Command_Group :: "ptr option \<Rightarrow> qcli \<Rightarrow> qcli option" where
  "QCLI_Unregister_Command_Group handle s =
     (case handle of
        None \<Rightarrow> Some s
      | Some g \<Rightarrow> do { (changed, s) \<leftarrow> Unregister_Command_Group g s; if changed then QCLI_Display_Prompt s else Some s })"

end
