(* ===== verification/QcliParse.thy ===== *)
theory QcliParse
  imports QcliTree
begin

text \<open>
  The parser of command lines, the first half of \<open>Process_Command\<close> in \<open>src/modules/console/qcli.c\<close>.

  It works in place on the input buffer: parameters become zero-terminated parts of it. Reading or writing outside the buffer,
  and reading a string that is not terminated, give \<open>None\<close>.
\<close>

section \<open>The buffer\<close>

abbreviation (input) CHR_space :: u8 where "CHR_space \<equiv> 0x20"
abbreviation (input) CHR_quote :: u8 where "CHR_quote \<equiv> 0x22"
abbreviation (input) CHR_backslash :: u8 where "CHR_backslash \<equiv> 0x5C"
abbreviation (input) QCLI_MAXIMUM_NUMBER_OF_PARAMETERS :: nat where "QCLI_MAXIMUM_NUMBER_OF_PARAMETERS \<equiv> 17"
abbreviation (input) QCLI_MAXIMUM_QCLI_COMMAND_STRING_LENGTH :: nat where "QCLI_MAXIMUM_QCLI_COMMAND_STRING_LENGTH \<equiv> 256"

definition char_at :: "u8 list \<Rightarrow> nat \<Rightarrow> u8 option" where
  "char_at buf i = (if i < length buf then Some (buf ! i) else None)"

definition put_char :: "u8 list \<Rightarrow> nat \<Rightarrow> u8 \<Rightarrow> u8 list option" where
  "put_char buf i c = (if i < length buf then Some (buf[i := c]) else None)"

definition c_string :: "u8 list \<Rightarrow> nat \<Rightarrow> u8 list option" where
  "c_string buf i = (if 0 \<in> set (drop i buf) then Some (takeWhile (\<lambda>c. c \<noteq> 0) (drop i buf)) else None)"

text \<open>\<open>memsmove\<close> of \<open>src/lib/libc/source/safeAPI.c\<close> within one buffer.\<close>

definition memsmove :: "u8 list \<Rightarrow> nat \<Rightarrow> nat \<Rightarrow> nat \<Rightarrow> nat \<Rightarrow> u8 list option" where
  "memsmove buf dst dst_size src src_size =
     (let copy_size = (if dst_size \<le> src_size then dst_size else src_size) in
      if dst + copy_size \<le> length buf \<and> src + copy_size \<le> length buf
      then Some (take dst buf @ take copy_size (drop src buf) @ drop (dst + copy_size) buf) else None)"

lemma length_memsmove: "memsmove buf dst m src n = Some buf' \<Longrightarrow> length buf' = length buf"
  by (auto simp: memsmove_def Let_def split: if_splits)

section \<open>The parser\<close>

record parse =
  p_buf :: "u8 list"
  p_len :: nat
  p_index :: nat
  p_inside :: bool
  p_ok :: bool
  p_params :: "QAPI_Console_Parameter list"
  p_message :: "u8 list option"

function skip_spaces :: "u8 list \<Rightarrow> nat \<Rightarrow> nat option" where
  "skip_spaces buf i = (case char_at buf i of None \<Rightarrow> None | Some c \<Rightarrow> if c = CHR_space then skip_spaces buf (Suc i) else Some i)"
  by pat_completeness auto
termination by (relation "measure (\<lambda>(buf, i). length buf - i)") (auto simp: char_at_def split: if_splits)

text \<open>The loop to the end of a parameter: the message of an error, the length of the input, the index and the buffer.\<close>

function param_loop :: "bool \<Rightarrow> nat \<Rightarrow> nat \<Rightarrow> u8 list \<Rightarrow> (u8 list option \<times> nat \<times> nat \<times> u8 list) option" where
  "param_loop inside len i buf =
     (case char_at buf i of
        None \<Rightarrow> None
      | Some c \<Rightarrow>
          if c \<noteq> 0 \<and> c \<noteq> CHR_quote \<and> (inside \<or> c \<noteq> CHR_space)
          then
           (if c = CHR_backslash
            then
             (if i + 1 < len
              then
               (case char_at buf (i + 1) of
                  None \<Rightarrow> None
                | Some d \<Rightarrow>
                    if d = CHR_backslash \<or> d = CHR_quote
                    then
                     (case memsmove buf i (len - i) (i + 1) (len - i - 1) of
                        None \<Rightarrow> None
                      | Some buf' \<Rightarrow> param_loop inside (len - 1) (Suc i) buf')
                    else
                     Some (Some (ascii ''Invalid escape sequence '' @ [CHR_quote, CHR_backslash, d, CHR_quote, CHR_newline]), len, Suc i, buf))
              else Some (Some (ascii ''Invalid escape sequence'' @ [CHR_newline]), len, Suc i, buf))
            else param_loop inside len (Suc i) buf)
          else Some (None, len, i, buf))"
  by pat_completeness auto
termination
  by (relation "measure (\<lambda>(inside, len, i, buf). length buf - i)") (auto simp: char_at_def length_memsmove split: if_splits)

declare skip_spaces.simps [simp del] param_loop.simps [simp del]

text \<open>One pass of the outer loop: up to the first character of a parameter, then to its end.\<close>

definition open_param :: "parse \<Rightarrow> (bool \<times> nat) option" where
  "open_param st =
     do {
       i \<leftarrow> skip_spaces (p_buf st) (p_index st);
       c \<leftarrow> char_at (p_buf st) i;
       Some (if c = CHR_quote then (True, i + 1) else (p_inside st, i))
     }"

definition close_param :: "bool \<Rightarrow> nat \<Rightarrow> parse \<Rightarrow> parse option" where
  "close_param inside i st =
     do {
       (message, len, j, buf) \<leftarrow> param_loop inside (p_len st) i (p_buf st);
       c \<leftarrow> char_at buf j;
       let inside = (if c = CHR_quote then \<not> inside else inside);
       buf \<leftarrow> (if c \<noteq> 0 then put_char buf j 0 else Some buf);
       let j = (if c \<noteq> 0 then j + 1 else j);
       string \<leftarrow> c_string buf i;
       let number = QCLI_String_To_Integer string;
       Some (st\<lparr>p_buf := buf, p_len := len, p_index := j, p_inside := inside, p_ok := (message = None),
         p_params := p_params st @ [\<lparr>String_Value = i, Integer_Value = snd number, Integer_Is_Valid = fst number\<rparr>], p_message := message\<rparr>)
     }"

definition parse_param :: "parse \<Rightarrow> parse option" where
  "parse_param st =
     do {
       (inside, i) \<leftarrow> open_param st;
       c \<leftarrow> char_at (p_buf st) i;
       if c = 0 then Some (st\<lparr>p_index := i, p_inside := inside\<rparr>) else close_param inside i st
     }"

lemma skip_spaces_ge: "skip_spaces buf i = Some j \<Longrightarrow> i \<le> j \<and> j < length buf \<and> buf ! j \<noteq> CHR_space \<and> (i < length buf \<and> buf ! i = CHR_space \<longrightarrow> i < j)"
proof (induction buf i rule: skip_spaces.induct)
  case (1 buf i)
  show ?case
    using 1(2) 1(1) [of CHR_space] by (subst (asm) skip_spaces.simps) (auto simp: char_at_def split: if_splits)
qed

lemma param_loop_ge:
  assumes "param_loop inside len i buf = Some (m, len', j, buf')"
  shows "i \<le> j \<and> length buf' = length buf \<and> (j = i \<longrightarrow> buf' = buf)"
  using assms
proof (induction inside len i buf rule: param_loop.induct)
  case (1 inside len i buf)
  show ?case
    using 1(3) 1(1,2) by (subst (asm) param_loop.simps) (fastforce simp: char_at_def length_memsmove split: if_splits option.splits)
qed

lemma open_param_ge: "open_param st = Some (inside, i) \<Longrightarrow> p_index st \<le> i"
  using skip_spaces_ge [of "p_buf st" "p_index st"] by (auto simp: open_param_def bind_eq_Some_conv split: if_splits)

lemma close_param_ge:
  assumes "close_param inside i st = Some st'" and "i < length (p_buf st)"
  shows "i \<le> p_index st' \<and> length (p_buf st') = length (p_buf st) \<and>
    (i < p_index st' \<or> p_buf st ! i = 0)"
proof -
  from assms(1) obtain m len j buf c where p: "param_loop inside (p_len st) i (p_buf st) = Some (m, len, j, buf)" "char_at buf j = Some c"
    "p_index st' = (if c \<noteq> 0 then j + 1 else j)" "length (p_buf st') = length buf"
    by (auto simp: close_param_def bind_eq_Some_conv Let_def put_char_def split: prod.splits if_splits)
  show ?thesis
  proof (cases "i < j")
    case False
    then have "j = i" "buf = p_buf st" using param_loop_ge [OF p(1)] by auto
    then show ?thesis using p by (auto simp: char_at_def split: if_splits)
  qed (use p param_loop_ge [OF p(1)] in auto)
qed

lemma parse_param_progress:
  assumes "parse_param st = Some st'" and "char_at (p_buf st) (p_index st) = Some c" and "c \<noteq> 0"
  shows "p_index st < p_index st' \<and> length (p_buf st') = length (p_buf st)"
proof -
  from assms(1) obtain inside i d where o: "open_param st = Some (inside, i)" "char_at (p_buf st) i = Some d"
    "(if d = 0 then Some (st\<lparr>p_index := i, p_inside := inside\<rparr>) else close_param inside i st) = Some st'"
    by (auto simp: parse_param_def bind_eq_Some_conv)
  have i: "i < length (p_buf st)" "d = p_buf st ! i" using o(2) by (simp_all add: char_at_def split: if_splits)
  show ?thesis
  proof (cases "d = 0")
    case True
    then have "p_index st \<noteq> i" using i assms(2,3) by (auto simp: char_at_def split: if_splits)
    then show ?thesis using True o(3) open_param_ge [OF o(1)] by auto
  next
    case False
    then show ?thesis using o(3) open_param_ge [OF o(1)] close_param_ge [of inside i st st'] i by auto
  qed
qed

function parse_loop :: "parse \<Rightarrow> parse option" where
  "parse_loop st =
     (if \<not> p_ok st then Some st
      else
       (case char_at (p_buf st) (p_index st) of
          None \<Rightarrow> None
        | Some c \<Rightarrow>
            if c \<noteq> 0 \<and> length (p_params st) \<le> QCLI_MAXIMUM_NUMBER_OF_PARAMETERS
            then (case parse_param st of None \<Rightarrow> None | Some st' \<Rightarrow> parse_loop st')
            else Some st))"
  by pat_completeness auto
termination
proof (relation "measure (\<lambda>st. length (p_buf st) - p_index st)", goal_cases)
  case (2 st c st')
  then show ?case using parse_param_progress [of st st' c] by (auto simp: char_at_def split: if_splits)
qed simp

declare parse_loop.simps [simp del]

definition parse_start :: "u8 list \<Rightarrow> nat \<Rightarrow> parse" where
  "parse_start buf len = \<lparr>p_buf = buf, p_len = len, p_index = 0, p_inside = False, p_ok = True, p_params = [], p_message = None\<rparr>"

section \<open>Within the buffer\<close>

text \<open>
  On a buffer that ends in a zero behind the input, the parser returns, so every access is within the buffer, every loop ends and every string
  is terminated.
\<close>

definition terminated :: "u8 list \<Rightarrow> bool" where
  "terminated buf \<longleftrightarrow> buf \<noteq> [] \<and> last buf = 0"

lemma terminated_nth: "terminated buf \<Longrightarrow> i < length buf \<Longrightarrow> buf ! i \<noteq> 0 \<Longrightarrow> Suc i < length buf"
  by (metis Suc_lessI diff_Suc_1 last_conv_nth terminated_def)

lemma terminated_upd: "terminated buf \<Longrightarrow> terminated (buf[i := 0])"
  by (auto simp: terminated_def last_list_update)

lemma terminated_string: "terminated buf \<Longrightarrow> i < length buf \<Longrightarrow> c_string buf i = Some (takeWhile (\<lambda>c. c \<noteq> 0) (drop i buf))"
  by (metis c_string_def drop_eq_Nil last_drop last_in_set not_le terminated_def)

lemma terminated_memsmove:
  assumes "terminated buf" and "i + 1 < len" and "len < length buf"
  obtains buf' where "memsmove buf i (len - i) (i + 1) (len - i - 1) = Some buf'" and "terminated buf'" and "length buf' = length buf"
proof -
  let ?b = "take i buf @ take (len - i - 1) (drop (i + 1) buf) @ drop (i + (len - i - 1)) buf"
  have "memsmove buf i (len - i) (i + 1) (len - i - 1) = Some ?b"
    using assms by (subst memsmove_def) (auto simp: Let_def)
  moreover have "terminated ?b" using assms by (auto simp: terminated_def last_append)
  ultimately show ?thesis using that length_memsmove by blast
qed

lemma skip_spaces_safe: "terminated buf \<Longrightarrow> i < length buf \<Longrightarrow> \<exists>j. skip_spaces buf i = Some j"
proof (induction buf i rule: skip_spaces.induct)
  case (1 buf i)
  show ?case using 1(1) [of CHR_space] 1(2,3) terminated_nth [OF 1(2,3)] by (subst skip_spaces.simps) (auto simp: char_at_def)
qed

lemma param_loop_safe:
  assumes "terminated buf" and "i < length buf" and "len < length buf"
  shows "\<exists>m len' j buf'. param_loop inside len i buf = Some (m, len', j, buf') \<and> j < length buf' \<and> terminated buf' \<and>
    length buf' = length buf \<and> len' \<le> len"
  using assms
proof (induction inside len i buf rule: param_loop.induct)
  case (1 inside len i buf)
  have c: "char_at buf i = Some (buf ! i)" using 1(4) by (simp add: char_at_def)
  consider "buf ! i = 0 \<or> buf ! i = CHR_quote \<or> (buf ! i = CHR_space \<and> \<not> inside)"
    | (esc) "buf ! i = CHR_backslash" | (plain) "buf ! i \<noteq> 0 \<and> buf ! i \<noteq> CHR_quote \<and> (inside \<or> buf ! i \<noteq> CHR_space)" "buf ! i \<noteq> CHR_backslash" by blast
  then show ?case
  proof cases
    case esc
    have n: "Suc i < length buf" using terminated_nth [OF 1(3,4)] esc by simp
    show ?thesis
    proof (cases "i + 1 < len \<and> (buf ! (i + 1) = CHR_backslash \<or> buf ! (i + 1) = CHR_quote)")
      case True
      obtain buf' where b: "memsmove buf i (len - i) (i + 1) (len - i - 1) = Some buf'" "terminated buf'" "length buf' = length buf"
        using terminated_memsmove [OF 1(3) _ 1(5)] True by blast
      have "\<exists>m len' j buf''. param_loop inside (len - 1) (Suc i) buf' = Some (m, len', j, buf'') \<and> j < length buf'' \<and> terminated buf'' \<and>
          length buf'' = length buf' \<and> len' \<le> len - 1"
        using 1(1) [OF c _ esc _ _ _ b(1)] True esc n b 1(5) by (simp add: char_at_def)
      then show ?thesis using True esc n b by (subst param_loop.simps) (auto simp: char_at_def)
    qed (use esc n 1(3) in \<open>subst param_loop.simps; auto simp: char_at_def\<close>)
  next
    case plain
    then show ?thesis using 1(2) [OF c] 1(3-5) terminated_nth [OF 1(3,4)] c by (subst param_loop.simps) simp
  qed (use c 1(3-5) in \<open>subst param_loop.simps; auto\<close>)
qed

definition parse_ok :: "parse \<Rightarrow> bool" where
  "parse_ok st \<longleftrightarrow> terminated (p_buf st) \<and> p_len st < length (p_buf st) \<and> p_index st < length (p_buf st) \<and>
     list_all (\<lambda>p. String_Value p < length (p_buf st)) (p_params st) \<and> length (p_params st) \<le> QCLI_MAXIMUM_NUMBER_OF_PARAMETERS + 1"

lemma parse_param_safe:
  assumes "parse_ok st" and "length (p_params st) \<le> QCLI_MAXIMUM_NUMBER_OF_PARAMETERS"
  shows "\<exists>st'. parse_param st = Some st' \<and> parse_ok st' \<and> length (p_buf st') = length (p_buf st)"
proof -
  let ?b = "p_buf st"
  have st: "terminated ?b" "p_len st < length ?b" "p_index st < length ?b" using assms(1) by (simp_all add: parse_ok_def)
  obtain k where k: "skip_spaces ?b (p_index st) = Some k" using skip_spaces_safe st by blast
  then have kl: "k < length ?b" using skip_spaces_ge by blast
  define i where "i = (if ?b ! k = CHR_quote then k + 1 else k)"
  define ins where "ins = (if ?b ! k = CHR_quote then True else p_inside st)"
  have o: "open_param st = Some (ins, i)" using k kl by (simp add: open_param_def char_at_def i_def ins_def)
  have i: "i < length ?b" using terminated_nth [OF st(1) kl] kl by (auto simp: i_def)
  obtain m len j buf where p: "param_loop ins (p_len st) i ?b = Some (m, len, j, buf)" "j < length buf" "terminated buf" "length buf = length ?b"
    "len \<le> p_len st" using param_loop_safe [OF st(1) i st(2)] by blast
  define buf' where "buf' = (if buf ! j \<noteq> 0 then buf[j := 0] else buf)"
  have b: "terminated buf'" "length buf' = length buf" using p by (auto simp: buf'_def terminated_upd)
  have "Suc j < length buf" if "buf ! j \<noteq> 0" using terminated_nth [OF p(3,2) that] .
  moreover have "(if c \<noteq> 0 then put_char buf j 0 else Some buf) = Some buf'" if "c = buf ! j" for c using that p by (simp add: put_char_def buf'_def)
  moreover have "i < length buf'" using b p(4) i by simp
  ultimately have c: "\<exists>st'. close_param ins i st = Some st' \<and> parse_ok st' \<and> length (p_buf st') = length ?b"
    using p b i assms st by (auto simp: close_param_def char_at_def Let_def terminated_string parse_ok_def)
  show ?thesis
  proof (cases "?b ! i = 0")
    case True
    then show ?thesis using o i assms by (simp add: parse_param_def char_at_def parse_ok_def)
  next
    case False
    then show ?thesis using o i c by (simp add: parse_param_def char_at_def)
  qed
qed

lemma parse_loop_safe:
  assumes "parse_ok st"
  shows "\<exists>st'. parse_loop st = Some st' \<and> parse_ok st' \<and> length (p_buf st') = length (p_buf st)"
  using assms
proof (induction st rule: parse_loop.induct)
  case (1 st)
  have c: "char_at (p_buf st) (p_index st) = Some (p_buf st ! p_index st)" using 1(2) by (simp add: parse_ok_def char_at_def)
  show ?case
  proof (cases "p_ok st \<and> p_buf st ! p_index st \<noteq> 0 \<and> length (p_params st) \<le> QCLI_MAXIMUM_NUMBER_OF_PARAMETERS")
    case True
    then obtain st' where "parse_param st = Some st'" "parse_ok st'" "length (p_buf st') = length (p_buf st)" using parse_param_safe [OF 1(2)] by blast
    then show ?thesis using True c 1(1) [OF _ c] by (subst parse_loop.simps) auto
  qed (use c 1(2) in \<open>subst parse_loop.simps; auto\<close>)
qed

end
