(* ===== verification/QcliLine.thy ===== *)
theory QcliLine
  imports QcliParse
begin

text \<open>
  Lines that the parser of the console reads back: words and quoted strings, with spaces between them. Also what becomes of an
  escaped character.
\<close>

section \<open>Lines\<close>

record token =
  spaces :: nat
  quoted :: bool
  word :: "u8 list"

definition plain :: "bool \<Rightarrow> u8 list \<Rightarrow> bool" where
  "plain q a \<longleftrightarrow> 0 \<notin> set a \<and> CHR_quote \<notin> set a \<and> CHR_backslash \<notin> set a \<and> (q \<or> CHR_space \<notin> set a)"

definition token_text :: "token \<Rightarrow> u8 list" where
  "token_text t = replicate (spaces t) CHR_space @ (if quoted t then [CHR_quote] @ word t @ [CHR_quote] else word t)"

definition line_text :: "token list \<Rightarrow> u8 list" where
  "line_text ts = concat (map token_text ts)"

text \<open>A space follows a word; after a closing quote it may be missing.\<close>

fun line_ok :: "bool \<Rightarrow> token list \<Rightarrow> bool" where
  "line_ok closed [] \<longleftrightarrow> True"
| "line_ok closed (t # ts) \<longleftrightarrow>
     (closed \<or> 0 < spaces t) \<and> plain (quoted t) (word t) \<and> (quoted t \<or> word t \<noteq> []) \<and> line_ok (quoted t) ts"

section \<open>Passing over plain characters\<close>

lemma char_at_append: "char_at (pre @ c # rest) (length pre) = Some c"
  by (simp add: char_at_def)

lemma skip_spaces_over:
  assumes "c \<noteq> CHR_space"
  shows "skip_spaces (pre @ replicate n CHR_space @ c # rest) (length pre) = Some (length pre + n)"
proof (induction n arbitrary: pre)
  case 0
  then show ?case using assms by (subst skip_spaces.simps) (simp add: char_at_append)
next
  case (Suc n)
  then show ?case using Suc [of "pre @ [CHR_space]"] by (subst skip_spaces.simps) (simp add: char_at_append)
qed

lemma param_loop_over:
  assumes "plain q a"
  shows "param_loop q len (length pre) (pre @ a @ rest) = param_loop q len (length pre + length a) (pre @ a @ rest)"
  using assms
proof (induction a arbitrary: pre)
  case (Cons c a)
  then have c: "c \<noteq> 0" "c \<noteq> CHR_quote" "c \<noteq> CHR_backslash" "q \<or> c \<noteq> CHR_space" and a: "plain q a" by (auto simp: plain_def)
  have "param_loop q len (length pre) (pre @ c # a @ rest) = param_loop q len (Suc (length pre)) (pre @ c # a @ rest)"
    using c by (subst param_loop.simps) (simp add: char_at_append)
  then show ?case using Cons.IH [OF a, of "pre @ [c]"] by simp
qed simp

lemma param_loop_stop:
  assumes "c = 0 \<or> c = CHR_quote \<or> (c = CHR_space \<and> \<not> q)"
  shows "param_loop q len (length pre) (pre @ c # rest) = Some (None, len, length pre, pre @ c # rest)"
  using assms by (subst param_loop.simps) (auto simp: char_at_append)

lemma param_loop_plain:
  assumes "plain q a" and "c = 0 \<or> c = CHR_quote \<or> (c = CHR_space \<and> \<not> q)"
  shows "param_loop q len (length pre) (pre @ a @ c # rest) = Some (None, len, length (pre @ a), pre @ a @ c # rest)"
  using param_loop_over [OF assms(1), of len pre "c # rest"] param_loop_stop [OF assms(2), of len "pre @ a" rest] by simp

lemma c_string_at: "0 \<notin> set a \<Longrightarrow> c_string (pre @ a @ 0 # rest) (length pre) = Some a"
  by (auto simp: c_string_def takeWhile_tail)

text \<open>Closing a parameter of plain characters.\<close>

definition number_param :: "nat \<Rightarrow> u8 list \<Rightarrow> QAPI_Console_Parameter" where
  "number_param i a = \<lparr>String_Value = i, Integer_Value = snd (QCLI_String_To_Integer a), Integer_Is_Valid = fst (QCLI_String_To_Integer a)\<rparr>"

lemma close_param_at:
  assumes "param_loop q (p_len st) (length pre) (p_buf st) = Some (None, len, length (pre @ a), pre @ a @ c # rest)" and "0 \<notin> set a"
  shows "close_param q (length pre) st = Some (st\<lparr>p_buf := pre @ a @ 0 # rest, p_len := len,
    p_index := if c = 0 then length (pre @ a) else length (pre @ a @ [0 :: u8]), p_inside := if c = CHR_quote then \<not> q else q, p_ok := True,
    p_params := p_params st @ [number_param (length pre) a], p_message := None\<rparr>)"
proof -
  have 1: "char_at (pre @ a @ c # rest) (length (pre @ a)) = Some c" using char_at_append [of "pre @ a"] by simp
  have 2: "put_char (pre @ a @ c # rest) (length (pre @ a)) 0 = Some (pre @ a @ 0 # rest)"
    by (simp add: put_char_def list_update_append)
  have 3: "c_string (pre @ a @ 0 # rest) (length pre) = Some a" by (rule c_string_at [OF assms(2)])
  show ?thesis
  proof (cases "c = 0")
    case True
    then show ?thesis using assms(1) 1 3 by (simp add: close_param_def number_param_def Let_def)
  next
    case False
    then show ?thesis using assms(1) 1 2 3 by (simp add: close_param_def number_param_def Let_def)
  qed
qed

lemma open_param_at:
  assumes "p_buf st = pre @ replicate n CHR_space @ c # rest" and "p_index st = length pre" and "c \<noteq> CHR_space"
  shows "open_param st = Some (if c = CHR_quote then (True, length pre + n + 1) else (p_inside st, length pre + n))"
  using skip_spaces_over [OF assms(3), of pre n rest] char_at_append [of "pre @ replicate n CHR_space" c rest] assms(1,2)
  by (simp add: open_param_def)

lemma quoted_step:
  assumes "p_buf st = pre @ replicate n CHR_space @ CHR_quote # a @ CHR_quote # rest" and "p_index st = length pre" and "plain True a"
  shows "parse_param st = Some (st\<lparr>p_buf := pre @ replicate n CHR_space @ CHR_quote # a @ 0 # rest, p_index := length pre + n + length a + 2,
    p_inside := False, p_ok := True, p_params := p_params st @ [number_param (length pre + n + 1) a], p_message := None\<rparr>)"
proof -
  let ?pre = "pre @ replicate n CHR_space @ [CHR_quote]"
  have "\<exists>c b. a @ CHR_quote # rest = c # b \<and> c \<noteq> 0" using assms(3) by (cases a) (auto simp: plain_def)
  then obtain c b where "a @ CHR_quote # rest = c # b" "c \<noteq> 0" by blast
  then have c: "char_at (p_buf st) (length ?pre) = Some c" "c \<noteq> 0" using char_at_append [of ?pre c b] assms(1) by simp_all
  have "0 \<notin> set a" using assms(3) by (simp add: plain_def)
  from close_param_at [of True st ?pre "p_len st" a CHR_quote rest, OF _ this] param_loop_plain [OF assms(3), of CHR_quote "p_len st" ?pre rest]
  have "close_param True (length ?pre) st = Some (st\<lparr>p_buf := pre @ replicate n CHR_space @ CHR_quote # a @ 0 # rest,
      p_index := length pre + n + length a + 2, p_inside := False, p_ok := True,
      p_params := p_params st @ [number_param (length pre + n + 1) a], p_message := None\<rparr>)" by (simp add: assms(1))
  then show ?thesis using open_param_at [OF assms(1,2)] c by (simp add: parse_param_def)
qed

lemma bare_step:
  assumes "p_buf st = pre @ replicate n CHR_space @ a @ c # rest" and "p_index st = length pre" and "plain False a" and "a \<noteq> []"
    and "c = 0 \<or> c = CHR_space" and "\<not> p_inside st"
  shows "parse_param st = Some (st\<lparr>p_buf := pre @ replicate n CHR_space @ a @ 0 # rest,
    p_index := length pre + n + length a + (if c = 0 then 0 else 1), p_inside := False, p_ok := True,
    p_params := p_params st @ [number_param (length pre + n) a], p_message := None\<rparr>)"
proof -
  let ?pre = "pre @ replicate n CHR_space"
  obtain d b where d: "a = d # b" "d \<noteq> 0" "d \<noteq> CHR_space" "d \<noteq> CHR_quote" using assms(3,4) by (cases a) (auto simp: plain_def)
  have at: "char_at (p_buf st) (length ?pre) = Some d" using char_at_append [of ?pre d "b @ c # rest"] assms(1) d(1) by simp
  have op: "open_param st = Some (False, length ?pre)" using open_param_at [of st pre n d "b @ c # rest"] assms(1,2,6) d by simp
  have "0 \<notin> set a" using assms(3) by (simp add: plain_def)
  from close_param_at [of False st ?pre "p_len st" a c rest, OF _ this] param_loop_plain [OF assms(3), of c "p_len st" ?pre rest] assms(5)
  have "close_param False (length ?pre) st = Some (st\<lparr>p_buf := pre @ replicate n CHR_space @ a @ 0 # rest,
      p_index := length pre + n + length a + (if c = 0 then 0 else 1), p_inside := False, p_ok := True,
      p_params := p_params st @ [number_param (length pre + n) a], p_message := None\<rparr>)" by (auto simp: assms(1))
  then show ?thesis using op at d(2) by (simp add: parse_param_def)
qed

section \<open>Whole lines\<close>

text \<open>What a command sees of a parameter: its string and its number.\<close>

definition param_view :: "u8 list \<Rightarrow> QAPI_Console_Parameter \<Rightarrow> u8 list option \<times> bool \<times> u32" where
  "param_view buf p = (c_string buf (String_Value p), Integer_Is_Valid p, Integer_Value p)"

lemma param_view_number: "0 \<notin> set a \<Longrightarrow> param_view (pre @ a @ 0 # rest) (number_param (length pre) a) = (Some a, QCLI_String_To_Integer a)"
  by (simp add: param_view_def number_param_def c_string_at)

lemma parse_loop_next:
  assumes "p_ok st" and "char_at (p_buf st) (p_index st) = Some c" and "c \<noteq> 0" and "length (p_params st) \<le> 17" and "parse_param st = Some st'"
  shows "parse_loop st = parse_loop st'"
  using assms by (subst parse_loop.simps) simp

lemma parse_loop_end: "char_at (p_buf st) (p_index st) = Some 0 \<Longrightarrow> parse_loop st = Some st"
  by (subst parse_loop.simps) simp

lemma token_first:
  assumes "plain (quoted t) (word t)" and "quoted t \<or> word t \<noteq> []"
  obtains c b where "token_text t @ rest = c # b" and "c \<noteq> 0"
  using assms by (cases "spaces t"; cases "word t"; cases "quoted t") (auto simp: token_text_def plain_def)

definition reads_back :: "parse \<Rightarrow> u8 list \<Rightarrow> token list \<Rightarrow> bool" where
  "reads_back st pre ts \<longleftrightarrow> (\<exists>st' rest qs. parse_loop st = Some st' \<and> p_ok st' \<and> \<not> p_inside st' \<and> p_message st' = None \<and>
     p_buf st' = pre @ rest \<and> p_params st' = p_params st @ qs \<and>
     map (param_view (p_buf st')) qs = map (\<lambda>t. (Some (word t), QCLI_String_To_Integer (word t))) ts)"

lemma reads_back_step:
  assumes "reads_back st1 pre1 us1" and "parse_loop st = parse_loop st1" and "0 \<notin> set (word t)" and "map word us1 = map word us"
    and "p_params st1 = p_params st @ [number_param (length pre0) (word t)]" and "pre1 = pre0 @ word t @ 0 # rest0" and "pre0 = pre @ rest2"
  shows "reads_back st pre (t # us)"
proof -
  let ?f = "\<lambda>t. (Some (word t), QCLI_String_To_Integer (word t))"
  obtain st' rest qs where r: "parse_loop st1 = Some st'" "p_ok st'" "\<not> p_inside st'" "p_message st' = None" "p_buf st' = pre1 @ rest"
    "p_params st' = p_params st1 @ qs" "map (param_view (p_buf st')) qs = map ?f us1" using assms(1) unfolding reads_back_def by blast
  have "param_view (p_buf st') (number_param (length pre0) (word t)) = ?f t"
    using param_view_number [OF assms(3), of pre0 "rest0 @ rest"] r(5) assms(6) by simp
  moreover have "map ?f us1 = map ?f us" using arg_cong [OF assms(4), of "map (\<lambda>w. (Some w, QCLI_String_To_Integer w))"] by (simp add: comp_def)
  ultimately show ?thesis using r assms(2,5-7) unfolding reads_back_def
    by (intro exI [of _ st'] exI [of _ "rest2 @ word t @ 0 # rest0 @ rest"] exI [of _ "number_param (length pre0) (word t) # qs"]) simp
qed

lemma reads_back_end:
  assumes "p_ok st" and "\<not> p_inside st" and "p_message st = None" and "p_buf st = pre @ 0 # rest" and "p_index st = length pre"
  shows "parse_loop st = Some st" and "reads_back st pre []"
proof -
  have "char_at (p_buf st) (p_index st) = Some 0" using assms(4,5) char_at_append [of pre 0 rest] by simp
  then show "parse_loop st = Some st" by (rule parse_loop_end)
  then show "reads_back st pre []" using assms by (auto simp: reads_back_def)
qed

lemma reads_back_last:
  assumes "parse_loop st = parse_loop st1" and "p_ok st1" and "\<not> p_inside st1" and "p_message st1 = None" and "0 \<notin> set (word t)"
    and "p_buf st1 = (pre @ sp) @ word t @ 0 # rest" and "p_index st1 = length (pre @ sp @ word t)"
    and "p_params st1 = p_params st @ [number_param (length (pre @ sp)) (word t)]"
  shows "reads_back st pre [t]"
proof -
  have "parse_loop st1 = Some st1" using reads_back_end(1) [OF assms(2-4), of "pre @ sp @ word t" rest] assms(6,7) by simp
  then show ?thesis using assms param_view_number [OF assms(5), of "pre @ sp" rest] unfolding reads_back_def
    by (intro exI [of _ st1] exI [of _ "sp @ word t @ 0 # rest"] exI [of _ "[number_param (length (pre @ sp)) (word t)]"]) simp
qed

lemma parse_line:
  assumes "p_ok st" and "\<not> p_inside st" and "p_message st = None" and "p_buf st = pre @ line_text ts @ replicate (Suc z) 0"
    and "p_index st = length pre" and "line_ok True ts" and "length (p_params st) + length ts \<le> 18"
  shows "reads_back st pre ts"
  using assms
proof (induction ts arbitrary: st pre rule: length_induct)
  case (1 ts)
  show ?case
  proof (cases ts)
    case Nil
    then show ?thesis using reads_back_end(2) [OF 1(2-4), of pre "replicate z 0"] 1(5,6) by (simp add: line_text_def)
  next
    case (Cons t us)
    have t: "plain (quoted t) (word t)" "quoted t \<or> word t \<noteq> []" "0 \<notin> set (word t)" "line_ok (quoted t) us" using 1(7) Cons by (auto simp: plain_def)
    let ?zs = "replicate (Suc z) (0 :: u8)" and ?sp = "replicate (spaces t) CHR_space"
    obtain c b where cb: "token_text t @ line_text us @ ?zs = c # b" "c \<noteq> 0" using token_first [OF t(1,2)] .
    have "char_at (p_buf st) (p_index st) = Some c" using 1(5,6) char_at_append [of pre c b] cb(1) Cons by (simp add: line_text_def)
    note next_st = parse_loop_next [OF 1(2) this cb(2)]
    have len: "length (p_params st) \<le> 17" using 1(8) Cons by simp
    have IH: "reads_back st1 pre1 us1" if "p_ok st1" "\<not> p_inside st1" "p_message st1 = None" "p_buf st1 = pre1 @ line_text us1 @ ?zs"
      "p_index st1 = length pre1" "line_ok True us1" "length us1 = length us" "length (p_params st1) = Suc (length (p_params st))" for st1 pre1 us1
      using 1(1) [rule_format, of us1 st1 pre1] that 1(8) Cons by simp
    consider (quoted) "quoted t" | (last) "\<not> quoted t" "us = []" | (more) u vs where "\<not> quoted t" "us = u # vs" by (cases us) auto
    then show ?thesis
    proof cases
      case quoted
      let ?pre0 = "pre @ ?sp @ [CHR_quote]"
      have "p_buf st = pre @ ?sp @ CHR_quote # word t @ CHR_quote # line_text us @ ?zs"
        using 1(5) Cons quoted by (simp add: line_text_def token_text_def)
      note q = quoted_step [OF this 1(6)]
      from reads_back_step [OF IH next_st [OF len q], of "?pre0 @ word t @ [0]" us t us ?pre0 "[]" pre "?sp @ [CHR_quote]"] t quoted
      show ?thesis by (simp add: Cons)
    next
      case last
      then have "p_buf st = pre @ ?sp @ word t @ 0 # replicate z 0" using 1(5) Cons by (simp add: line_text_def token_text_def)
      from reads_back_last [OF next_st [OF len bare_step [OF this 1(6)]], of t pre ?sp] t 1(3) last
      show ?thesis by (simp add: Cons)
    next
      case more
      obtain k where k: "spaces u = Suc k" using t(4) more by (cases "spaces u") auto
      let ?us1 = "u\<lparr>spaces := k\<rparr> # vs"
      have "p_buf st = pre @ ?sp @ word t @ CHR_space # line_text ?us1 @ ?zs"
        using 1(5) Cons more k by (simp add: line_text_def token_text_def)
      note q = bare_step [OF this 1(6)]
      from reads_back_step [OF IH next_st [OF len q], of "(pre @ ?sp) @ word t @ [0]" ?us1 t us "pre @ ?sp" "[]" pre ?sp] t more 1(3)
      show ?thesis by (simp add: Cons)
    qed
  qed
qed

section \<open>Escaped characters\<close>

text \<open>Dropping the backslash leaves the last character of the input in place, behind its copy.\<close>

lemma memsmove_escape:
  assumes "b \<noteq> []"
  shows "memsmove (pre @ CHR_backslash # e # b @ zs) (length pre) (length b + 2) (length pre + 1) (length b + 1) =
    Some (pre @ e # b @ last b # zs)"
  using assms by (cases b rule: rev_cases) (auto simp: memsmove_def)

lemma param_loop_escape:
  assumes "plain q a" and "b \<noteq> []" and "e = CHR_backslash \<or> e = CHR_quote"
  shows "param_loop q (length (pre @ a @ CHR_backslash # e # b)) (length pre) (pre @ a @ CHR_backslash # e # b @ zs) =
    param_loop q (length (pre @ a @ e # b)) (length (pre @ a @ [e])) (pre @ a @ e # b @ last b # zs)"
proof -
  let ?p = "pre @ a" and ?len = "length (pre @ a @ CHR_backslash # e # b)"
  have 1: "char_at (?p @ CHR_backslash # e # b @ zs) (length ?p) = Some CHR_backslash" by (rule char_at_append)
  have 2: "char_at (?p @ CHR_backslash # e # b @ zs) (length ?p + 1) = Some e" using char_at_append [of "?p @ [CHR_backslash]"] by simp
  have 3: "memsmove (?p @ CHR_backslash # e # b @ zs) (length ?p) (?len - length ?p) (length ?p + 1) (?len - length ?p - 1) =
      Some (?p @ e # b @ last b # zs)" using memsmove_escape [OF assms(2), of ?p e zs] by simp
  have "param_loop q ?len (length ?p) (?p @ CHR_backslash # e # b @ zs) =
      param_loop q (?len - 1) (Suc (length ?p)) (?p @ e # b @ last b # zs)"
    using 1 2 3 assms(3) by (subst param_loop.simps) simp
  then show ?thesis using param_loop_over [OF assms(1), of ?len pre "CHR_backslash # e # b @ zs"] by simp
qed

lemma escape_in_word:
  assumes "plain False a" and "plain False b" and "b \<noteq> []" and "e = CHR_backslash \<or> e = CHR_quote"
  obtains st where "parse_loop (parse_start (a @ CHR_backslash # e # b @ replicate (Suc z) 0) (length (a @ CHR_backslash # e # b))) = Some st"
    and "p_ok st" and "\<not> p_inside st"
    and "map (param_view (p_buf st)) (p_params st) = [(Some (a @ e # b @ [last b]), QCLI_String_To_Integer (a @ e # b @ [last b]))]"
proof -
  let ?zs = "replicate (Suc z) (0 :: u8)" and ?A = "a @ e # b @ [last b]"
  let ?st = "parse_start (a @ CHR_backslash # e # b @ ?zs) (length (a @ CHR_backslash # e # b))"
  have A: "0 \<notin> set ?A" "plain False (b @ [last b])" using assms by (cases b rule: rev_cases; auto simp: plain_def)+
  have loop: "param_loop False (p_len ?st) (length []) (p_buf ?st) = Some (None, length (a @ e # b), length ([] @ ?A), [] @ ?A @ 0 # replicate z 0)"
    using param_loop_escape [OF assms(1,3,4), of "[]" ?zs] param_loop_plain [OF A(2), of 0 "length (a @ e # b)" "a @ [e]" "replicate z 0"]
    by (simp add: parse_start_def)
  obtain d r where d: "a @ CHR_backslash # e # b @ ?zs = d # r" "d \<noteq> 0" "d \<noteq> CHR_space" "d \<noteq> CHR_quote" using assms(1) by (cases a) (auto simp: plain_def)
  then have at: "char_at (p_buf ?st) (p_index ?st) = Some d" by (simp add: parse_start_def char_at_def)
  have op: "open_param ?st = Some (False, 0)" using open_param_at [of ?st "[]" 0 d r] d by (simp add: parse_start_def)
  obtain st where st: "close_param False 0 ?st = Some st" "p_ok st" "\<not> p_inside st" "p_buf st = [] @ ?A @ 0 # replicate z 0" "p_index st = length ?A"
    "p_params st = [number_param (length []) ?A]" "p_message st = None"
    using close_param_at [OF loop A(1)] by (auto simp: parse_start_def)
  have "parse_param ?st = Some st" using op at d(2) st(1) by (simp add: parse_param_def parse_start_def)
  then have "parse_loop ?st = parse_loop st" using d(2) by (intro parse_loop_next [OF _ at]) (simp_all add: parse_start_def)
  moreover have "parse_loop st = Some st" using st(4,5) by (intro reads_back_end(1) [OF st(2,3,7), of ?A "replicate z 0"]) simp_all
  moreover have "map (param_view (p_buf st)) (p_params st) = [(Some ?A, QCLI_String_To_Integer ?A)]"
    using param_view_number [OF A(1), of "[]" "replicate z 0"] st(4,6) by simp
  ultimately show ?thesis using that st by simp
qed

text \<open>Within quotes the character left behind is the closing quote, which opens another string.\<close>

lemma escape_in_quotes:
  assumes "plain True a" and "plain True b" and "e = CHR_backslash \<or> e = CHR_quote"
  shows "\<exists>st. parse_loop (parse_start (CHR_quote # a @ CHR_backslash # e # b @ CHR_quote # replicate (Suc z) 0)
      (length (CHR_quote # a @ CHR_backslash # e # b @ [CHR_quote]))) = Some st \<and> p_ok st \<and> p_inside st"
proof -
  let ?zs = "replicate (Suc z) (0 :: u8)" and ?A = "a @ e # b" and ?q = "[CHR_quote]"
  let ?st = "parse_start (CHR_quote # a @ CHR_backslash # e # b @ CHR_quote # ?zs) (length (CHR_quote # a @ CHR_backslash # e # b @ [CHR_quote]))"
  have A: "0 \<notin> set ?A" using assms by (auto simp: plain_def)
  have loop: "param_loop True (p_len ?st) (length ?q) (p_buf ?st) =
      Some (None, length (?q @ a @ e # b @ ?q), length (?q @ ?A), ?q @ ?A @ CHR_quote # CHR_quote # ?zs)"
    using param_loop_escape [OF assms(1) _ assms(3), of "b @ ?q" ?q ?zs]
      param_loop_plain [OF assms(2), of CHR_quote "length (?q @ a @ e # b @ ?q)" "?q @ a @ [e]" "CHR_quote # ?zs"]
    by (simp add: parse_start_def)
  have at: "char_at (p_buf ?st) (p_index ?st) = Some CHR_quote" by (simp add: parse_start_def char_at_def)
  have op: "open_param ?st = Some (True, 1)" using open_param_at [of ?st "[]" 0 CHR_quote] by (simp add: parse_start_def)
  obtain st where st: "close_param True 1 ?st = Some st" "p_ok st" "\<not> p_inside st" "p_buf st = (?q @ ?A @ [0]) @ CHR_quote # 0 # replicate z 0"
    "p_index st = length (?q @ ?A @ [0 :: u8])" "length (p_params st) = 1" using close_param_at [OF loop A] by (auto simp: parse_start_def)
  obtain c r where "a @ CHR_backslash # e # b @ CHR_quote # ?zs = c # r" "c \<noteq> 0" using assms(1) by (cases a) (auto simp: plain_def)
  then have "char_at (p_buf ?st) 1 = Some c" "c \<noteq> 0" using char_at_append [of ?q c r] by (simp_all add: parse_start_def)
  then have "parse_param ?st = Some st" using op st(1) by (simp add: parse_param_def)
  then have "parse_loop ?st = parse_loop st" by (intro parse_loop_next [OF _ at]) (simp_all add: parse_start_def)
  moreover have at2: "char_at (p_buf st) (p_index st) = Some CHR_quote" "char_at (p_buf st) (p_index st + 1) = Some 0"
    using st(4,5) char_at_append [of "?q @ ?A @ [0]" CHR_quote] char_at_append [of "?q @ ?A @ [0, CHR_quote]" 0] by simp_all
  moreover have "open_param st = Some (True, p_index st + 1)" using open_param_at [of st "?q @ ?A @ [0]" 0 CHR_quote] st(4,5) by simp
  then have "parse_param st = Some (st\<lparr>p_index := p_index st + 1, p_inside := True\<rparr>)" using at2 by (simp add: parse_param_def)
  then have "parse_loop st = parse_loop (st\<lparr>p_index := p_index st + 1, p_inside := True\<rparr>)" using st(2,6) by (intro parse_loop_next [OF _ at2(1)]) simp_all
  ultimately show ?thesis using parse_loop_end [of "st\<lparr>p_index := p_index st + 1, p_inside := True\<rparr>"] st(2) by simp
qed

section \<open>Properties\<close>

text \<open>
  C23. A line of up to eighteen words and quoted strings, with any number of spaces between them, is read back exactly: the parser accepts it,
  and the command sees the same strings in the same order, each with the number that \<open>QCLI_String_To_Integer\<close> reads in it.
  Quoted strings may be empty and may hold spaces.
\<close>

theorem line_read_back:
  assumes "line_ok True ts" and "length ts \<le> 18"
  shows "\<exists>st. parse_loop (parse_start (line_text ts @ replicate (Suc z) 0) len) = Some st \<and> p_ok st \<and> \<not> p_inside st \<and> p_message st = None \<and>
    map (param_view (p_buf st)) (p_params st) = map (\<lambda>t. (Some (word t), QCLI_String_To_Integer (word t))) ts"
  using parse_line [of "parse_start (line_text ts @ replicate (Suc z) 0) len" "[]" ts z] assms
  by (auto simp: parse_start_def reads_back_def)

definition demo_line :: "token list" where
  "demo_line = [\<lparr>spaces = 0, quoted = False, word = ascii ''ping''\<rparr>, \<lparr>spaces = 2, quoted = True, word = ascii ''a b''\<rparr>,
     \<lparr>spaces = 0, quoted = True, word = []\<rparr>]"

theorem line_read_back_witness:
  "\<exists>st. parse_loop (parse_start (line_text demo_line @ replicate (Suc 240) 0) 13) = Some st \<and> p_ok st \<and> \<not> p_inside st \<and> p_message st = None \<and>
    map (param_view (p_buf st)) (p_params st) = map (\<lambda>t. (Some (word t), QCLI_String_To_Integer (word t))) demo_line"
  by (rule line_read_back) (simp_all add: demo_line_def plain_def ascii_def)

text \<open>
  C27. An escaped backslash or quote spoils its parameter. The rest of the input moves one place down over the backslash, but the move leaves out
  the terminating zero, so the last character of the input stays in the buffer behind its copy. In a word, the parameter gets its last character
  twice. In a quoted string, the second closing quote opens a string that nothing closes, and the whole line is refused as not terminated.
\<close>

theorem escape_repeats_last_character:
  assumes "plain q a" and "plain q b" and "e = CHR_backslash \<or> e = CHR_quote" and "q \<or> b \<noteq> []"
  shows "let body = a @ CHR_backslash # e # b; line = (if q then [CHR_quote] @ body @ [CHR_quote] else body) in
    \<exists>st. parse_loop (parse_start (line @ replicate (Suc z) 0) (length line)) = Some st \<and> p_ok st \<and> p_inside st = q \<and>
      (\<not> q \<longrightarrow> map (param_view (p_buf st)) (p_params st) = [(Some (a @ e # b @ [last b]), QCLI_String_To_Integer (a @ e # b @ [last b]))])"
proof (cases q)
  case True
  then show ?thesis using escape_in_quotes [of a b e z] assms(1-3) by (auto simp: Let_def)
next
  case False
  then show ?thesis using escape_in_word [of a b e z] assms by (simp add: Let_def) metis
qed

theorem escape_repeats_last_character_witness:
  "\<exists>st. parse_loop (parse_start (ascii ''ab'' @ CHR_backslash # CHR_quote # ascii ''cd'' @ replicate (Suc 250) 0)
      (length (ascii ''ab'' @ CHR_backslash # CHR_quote # ascii ''cd''))) = Some st \<and> p_ok st \<and>
    map (param_view (p_buf st)) (p_params st) = [(Some (ascii ''ab'' @ CHR_quote # ascii ''cdd''), False, 0)]"
  using escape_repeats_last_character [of False "ascii ''ab''" "ascii ''cd''" CHR_quote 250]
  by (auto simp: plain_def ascii_def Let_def QCLI_String_To_Integer_def QCLI_Hex_Nibble_To_Int_def hex_prefix_def ch_def)

end
