(* ===== verification/QcliMenu.thy ===== *)
theory QcliMenu
  imports QcliTree
begin

text \<open>
  The menu of the console as a tree. \<open>forest_at\<close> relates the linked entries of the heap to a forest; registering and
  unregistering a group are shown to add a leaf and to remove a subtree, without access to freed entries.
\<close>

section \<open>Trees\<close>

datatype gtree = Node ptr "QAPI_Console_Command_Group option" "gtree list"

fun forest_ptrs :: "gtree list \<Rightarrow> ptr list" where
  "forest_ptrs [] = []"
| "forest_ptrs (Node p cg us # ts) = p # forest_ptrs us @ forest_ptrs ts"

fun forest_at :: "group_heap \<Rightarrow> ptr option \<Rightarrow> ptr option \<Rightarrow> gtree list \<Rightarrow> bool" where
  "forest_at h par q [] \<longleftrightarrow> q = None"
| "forest_at h par q (Node p cg us # ts) \<longleftrightarrow>
     q = Some p \<and>
     (case h p of
        None \<Rightarrow> False
      | Some e \<Rightarrow> Command_Group e = cg \<and> Parent_Group e = par \<and> forest_at h (Some p) (Subgroup_List e) us \<and> forest_at h par (Next e) ts)"

fun kids :: "ptr \<Rightarrow> gtree list \<Rightarrow> gtree list" where
  "kids p [] = []"
| "kids p (Node q cg us # ts) = (if q = p then us else kids p us @ kids p ts)"

fun set_kids :: "ptr \<Rightarrow> gtree list \<Rightarrow> gtree list \<Rightarrow> gtree list" where
  "set_kids p ws [] = []"
| "set_kids p ws (Node q cg us # ts) = Node q cg (if q = p then ws else set_kids p ws us) # set_kids p ws ts"

text \<open>What registration and removal do to the tree.\<close>

definition add_group :: "ptr \<Rightarrow> gtree \<Rightarrow> gtree list \<Rightarrow> gtree list" where
  "add_group p t ts = set_kids p (kids p ts @ [t]) ts"

fun remove_group :: "ptr \<Rightarrow> gtree list \<Rightarrow> gtree list" where
  "remove_group g [] = []"
| "remove_group g (Node q cg us # ts) = (if q = g then ts else Node q cg (remove_group g us) # remove_group g ts)"

fun all_named :: "gtree list \<Rightarrow> bool" where
  "all_named [] \<longleftrightarrow> True"
| "all_named (Node q cg us # ts) \<longleftrightarrow> cg \<noteq> None \<and> all_named us \<and> all_named ts"

definition root_ptr :: "gtree \<Rightarrow> ptr" where
  "root_ptr t = (case t of Node p _ _ \<Rightarrow> p)"

definition menu_at :: "group_heap \<Rightarrow> gtree list \<Rightarrow> bool" where
  "menu_at h ts \<longleftrightarrow> forest_at h None (Some Root_Group) ts \<and> distinct (forest_ptrs ts) \<and> dom h = set (forest_ptrs ts) \<and>
     (\<exists>cg us. ts = [Node Root_Group cg us] \<and> all_named us)"

lemma forest_at_cong: "(\<And>x. x \<in> set (forest_ptrs ts) \<Longrightarrow> h' x = h x) \<Longrightarrow> forest_at h' par q ts = forest_at h par q ts"
  by (induction h par q ts rule: forest_at.induct) (auto split: option.splits)

lemma forest_at_dom: "forest_at h par q ts \<Longrightarrow> x \<in> set (forest_ptrs ts) \<Longrightarrow> \<exists>e. h x = Some e"
  by (induction h par q ts rule: forest_at.induct) (auto split: option.splits)

lemma upd_entry_simps: "upd_entry p f h p = map_option f (h p)" "x \<noteq> p \<Longrightarrow> upd_entry p f h x = h x"
  by (simp_all add: upd_entry_def)

lemma dom_upd_entry [simp]: "dom (upd_entry p f h) = dom h"
  by (auto simp: upd_entry_def)

lemma forest_upd_entry [simp]: "p \<notin> set (forest_ptrs ts) \<Longrightarrow> forest_at (upd_entry p f h) par q ts = forest_at h par q ts"
  by (rule forest_at_cong) (auto simp: upd_entry_def)

lemma forest_fun_upd [simp]: "p \<notin> set (forest_ptrs ts) \<Longrightarrow> forest_at (h(p := x)) par q ts = forest_at h par q ts"
  by (rule forest_at_cong) auto

lemma forest_ptrs_append [simp]: "forest_ptrs (xs @ ys) = forest_ptrs xs @ forest_ptrs ys"
  by (induction xs rule: forest_ptrs.induct) simp_all

lemma all_named_append [simp]: "all_named (xs @ ys) \<longleftrightarrow> all_named xs \<and> all_named ys"
  by (induction xs rule: all_named.induct) simp_all

lemma kids_none: "p \<notin> set (forest_ptrs ts) \<Longrightarrow> kids p ts = []"
  by (induction p ts rule: kids.induct) auto

lemma set_kids_none: "p \<notin> set (forest_ptrs ts) \<Longrightarrow> set_kids p ws ts = ts"
  by (induction p ws ts rule: set_kids.induct) auto

lemma remove_none: "p \<notin> set (forest_ptrs ts) \<Longrightarrow> remove_group p ts = ts"
  by (induction p ts rule: remove_group.induct) auto

lemma kids_apart:
  "set (forest_ptrs us) \<inter> set (forest_ptrs ts) = {} \<Longrightarrow> p \<in> set (forest_ptrs ts) \<Longrightarrow> kids p us = []"
  "set (forest_ptrs us) \<inter> set (forest_ptrs ts) = {} \<Longrightarrow> p \<in> set (forest_ptrs us) \<Longrightarrow> kids p ts = []"
  by (auto intro: kids_none)

lemma kids_subset: "set (forest_ptrs (kids p ts)) \<subseteq> set (forest_ptrs ts)"
  by (induction p ts rule: kids.induct) auto

lemma kids_not_self: "distinct (forest_ptrs ts) \<Longrightarrow> p \<notin> set (forest_ptrs (kids p ts))"
  by (induction p ts rule: kids.induct) auto

lemma kids_at:
  assumes "forest_at h par q ts" and "p \<in> set (forest_ptrs ts)" and "distinct (forest_ptrs ts)"
  shows "\<exists>e. h p = Some e \<and> forest_at h (Some p) (Subgroup_List e) (kids p ts)"
  using assms by (induction h par q ts rule: forest_at.induct) (auto simp: kids_apart split: option.splits)

lemma kids_distinct: "distinct (forest_ptrs ts) \<Longrightarrow> distinct (forest_ptrs (kids p ts))"
proof (induction p ts rule: kids.induct)
  case (2 p q cg us ts)
  then show ?case using kids_subset [of p us] kids_subset [of p ts] by (auto simp: disjoint_iff)
qed simp

text \<open>Changing the children of one entry changes nothing else of the forest.\<close>

lemma forest_set_kids:
  assumes "forest_at h par q ts" and "distinct (forest_ptrs ts)" and "p \<in> set (forest_ptrs ts)"
    and "h p = Some e" and "h' p = Some (e\<lparr>Subgroup_List := x\<rparr>)" and "forest_at h' (Some p) x ws"
    and "\<And>y. y \<in> set (forest_ptrs ts) \<Longrightarrow> y \<noteq> p \<Longrightarrow> y \<notin> set (forest_ptrs (kids p ts)) \<Longrightarrow> h' y = h y"
  shows "forest_at h' par q (set_kids p ws ts)"
  using assms
proof (induction h par q ts rule: forest_at.induct)
  case (2 h par q r cg us ts)
  from 2(3) obtain er where er: "q = Some r" "h r = Some er" "Command_Group er = cg" "Parent_Group er = par"
    "forest_at h (Some r) (Subgroup_List er) us" "forest_at h par (Next er) ts" by (auto split: option.splits)
  have d: "r \<notin> set (forest_ptrs us)" "r \<notin> set (forest_ptrs ts)" "distinct (forest_ptrs us)" "distinct (forest_ptrs ts)"
    "set (forest_ptrs us) \<inter> set (forest_ptrs ts) = {}" using 2(4) by auto
  consider "p = r" | "p \<noteq> r" "p \<in> set (forest_ptrs us)" "p \<notin> set (forest_ptrs ts)"
    | "p \<noteq> r" "p \<notin> set (forest_ptrs us)" "p \<in> set (forest_ptrs ts)" using 2(5) d(5) by auto
  then show ?case
  proof cases
    case 1
    have "forest_at h' par (Next er) ts"
      using er(6) d 2(9) 1 by (subst forest_at_cong [of _ _ h]) auto
    then show ?thesis using 1 2(6-8) er d by (auto simp: set_kids_none)
  next
    case c: 2
    have k: "kids p (Node r cg us # ts) = kids p us" using c by (simp add: kids_none)
    have "h' r = Some er" using 2(9) [of r] c d er(2) kids_subset [of p us] unfolding k by auto
    moreover have "forest_at h' (Some r) (Subgroup_List er) (set_kids p ws us)"
      using 2(1) [OF er(2)] 2(6-9) er(5) c d unfolding k by auto
    moreover have "forest_at h' par (Next er) (set_kids p ws ts)"
      unfolding set_kids_none [OF c(3)] using 2(9) c d kids_subset [of p us] er(6) unfolding k
      by (subst forest_at_cong [of _ _ h]) (auto simp: disjoint_iff)
    ultimately show ?thesis using er c(1) by auto
  next
    case c: 3
    have k: "kids p (Node r cg us # ts) = kids p ts" using c by (simp add: kids_none)
    have "h' r = Some er" using 2(9) [of r] c d er(2) kids_subset [of p ts] unfolding k by auto
    moreover have "forest_at h' par (Next er) (set_kids p ws ts)"
      using 2(2) [OF er(2)] 2(6-9) er(6) c d unfolding k by auto
    moreover have "forest_at h' (Some r) (Subgroup_List er) (set_kids p ws us)"
      unfolding set_kids_none [OF c(2)] using 2(9) c d kids_subset [of p ts] er(5) unfolding k
      by (subst forest_at_cong [of _ _ h]) (auto simp: disjoint_iff)
    ultimately show ?thesis using er c(1) by auto
  qed
qed simp

section \<open>Registration\<close>

lemma last_entry_simps: "h p = Some e \<Longrightarrow> last_entry h p = (case Next e of None \<Rightarrow> Some p | Some q \<Rightarrow> last_entry h q)"
  by (subst last_entry.simps) simp

lemma forest_last:
  assumes "forest_at h par (Some q) us" and "distinct (forest_ptrs us)"
  shows "\<exists>l. last_entry h q = Some l \<and> l \<in> set (map root_ptr us)"
  using assms
proof (induction us arbitrary: q)
  case (Cons t us)
  obtain p cg vs where t: "t = Node p cg vs" by (cases t)
  from Cons.prems(1) obtain e where e: "q = p" "h p = Some e" "forest_at h par (Next e) us" by (auto simp: t split: option.splits)
  show ?case
  proof (cases "Next e")
    case None
    then show ?thesis using last_entry_simps [of h p e, OF e(2)] e(1) by (simp add: t root_ptr_def)
  next
    case (Some r)
    with Cons.IH [of r] e(3) Cons.prems(2) obtain l where "last_entry h r = Some l" "l \<in> set (map root_ptr us)" by (auto simp: t)
    then show ?thesis using last_entry_simps [of h p e, OF e(2)] Some e(1) by auto
  qed
qed simp

lemma root_ptrs_subset: "set (map root_ptr us) \<subseteq> set (forest_ptrs us)"
  by (induction us rule: forest_ptrs.induct) (auto simp: root_ptr_def)

lemma forest_append_leaf:
  assumes "forest_at h par (Some q) us" and "distinct (forest_ptrs us)" and "new \<notin> set (forest_ptrs us)"
    and "h new = Some \<lparr>Next = None, Command_Group = cg, Parent_Group = par, Subgroup_List = None\<rparr>" and "last_entry h q = Some l"
  shows "forest_at (upd_entry l (\<lambda>e. e\<lparr>Next := Some new\<rparr>) h) par (Some q) (us @ [Node new cg []])"
  using assms
proof (induction us arbitrary: q)
  case (Cons t us)
  obtain p cg' vs where t: "t = Node p cg' vs" by (cases t)
  let ?h = "upd_entry l (\<lambda>e. e\<lparr>Next := Some new\<rparr>) h"
  from Cons.prems(1) obtain e where e: "q = p" "h p = Some e" "forest_at h par (Next e) us" "Command_Group e = cg'" "Parent_Group e = par"
    "forest_at h (Some p) (Subgroup_List e) vs" by (auto simp: t split: option.splits)
  show ?case
  proof (cases "Next e")
    case None
    then have l: "l = p" "us = []" using last_entry_simps [of h p e, OF e(2)] Cons.prems(5) e(1,3) by (cases us; auto simp: t elim: forest_at.elims)+
    have "forest_at ?h (Some p) (Subgroup_List e) vs"
      using e(6) Cons.prems(2) l by (simp add: t)
    moreover have "?h new = h new" "?h p = Some (e\<lparr>Next := Some new\<rparr>)" using Cons.prems(3) l e(2) by (simp_all add: t upd_entry_simps)
    ultimately show ?thesis using e l Cons.prems(4) by (simp add: t)
  next
    case (Some r)
    have le: "last_entry h r = Some l" using last_entry_simps [of h p e, OF e(2)] Some Cons.prems(5) e(1) by simp
    have "forest_at h par (Some r) us" using e(3) Some by simp
    from forest_last [OF this] le Cons.prems(2) have "l \<in> set (forest_ptrs us)" using root_ptrs_subset [of us] by (auto simp: t)
    then have "l \<noteq> p" "l \<notin> set (forest_ptrs vs)" using Cons.prems(2) by (auto simp: t)
    then have "forest_at ?h (Some p) (Subgroup_List e) vs" "?h p = Some e"
      using e(2,6) by (simp_all add: upd_entry_simps)
    moreover have "forest_at ?h par (Some r) (us @ [Node new cg []])"
      using Cons.IH [of r] e(3) Some Cons.prems le by (simp add: t)
    ultimately show ?thesis using e Some by (simp add: t)
  qed
qed simp

text \<open>An entry of a forest is its first root, below it, or beside it.\<close>

lemma forest_place:
  assumes "p \<in> set (forest_ptrs (Node q cg us # ts))" and "distinct (forest_ptrs (Node q cg us # ts))"
  obtains (here) "p = q" "p \<notin> set (forest_ptrs ts)" "kids p us = []" "kids p ts = []"
  | (below) "p \<noteq> q" "p \<in> set (forest_ptrs us)" "p \<notin> set (forest_ptrs ts)" "kids p ts = []"
  | (beside) "p \<noteq> q" "p \<notin> set (forest_ptrs us)" "p \<in> set (forest_ptrs ts)" "kids p us = []"
  using assms by (auto simp: disjoint_iff intro: kids_none)

lemma set_kids_ptrs:
  assumes "p \<in> set (forest_ptrs ts)" and "distinct (forest_ptrs ts)"
  shows "set (forest_ptrs (set_kids p ws ts)) = set (forest_ptrs ts) - set (forest_ptrs (kids p ts)) \<union> set (forest_ptrs ws)"
  using assms
proof (induction p ws ts rule: set_kids.induct)
  case (2 p ws q cg us ts)
  have d: "q \<notin> set (forest_ptrs us)" "q \<notin> set (forest_ptrs ts)" "set (forest_ptrs us) \<inter> set (forest_ptrs ts) = {}"
    "distinct (forest_ptrs us)" "distinct (forest_ptrs ts)" using 2(4) by auto
  from 2(3,4) show ?case
  proof (cases rule: forest_place)
    case here
    then show ?thesis using d by (auto simp: set_kids_none)
  next
    case below
    then show ?thesis using 2(1) d kids_subset [of p us] by (auto simp: set_kids_none)
  next
    case beside
    then show ?thesis using 2(2) d kids_subset [of p ts] by (auto simp: set_kids_none)
  qed
qed simp

lemma set_kids_distinct:
  assumes "p \<in> set (forest_ptrs ts)" and "distinct (forest_ptrs ts)" and "distinct (forest_ptrs ws)"
    and "set (forest_ptrs ws) \<inter> (set (forest_ptrs ts) - set (forest_ptrs (kids p ts))) = {}"
  shows "distinct (forest_ptrs (set_kids p ws ts))"
  using assms
proof (induction p ws ts rule: set_kids.induct)
  case (2 p ws q cg us ts)
  have d: "q \<notin> set (forest_ptrs us)" "q \<notin> set (forest_ptrs ts)" "set (forest_ptrs us) \<inter> set (forest_ptrs ts) = {}"
    "distinct (forest_ptrs us)" "distinct (forest_ptrs ts)" using 2(4) by auto
  from 2(3,4) show ?case
  proof (cases rule: forest_place)
    case here
    then show ?thesis using d 2(5,6) by (auto simp: set_kids_none)
  next
    case below
    have k: "kids p (Node q cg us # ts) = kids p us" using below by simp
    show ?thesis using 2(1) [OF _ below(2) d(4) 2(5)] 2(6) set_kids_ptrs [OF below(2) d(4), of ws] d below kids_subset [of p us]
      unfolding k by (auto simp: set_kids_none)
  next
    case beside
    have k: "kids p (Node q cg us # ts) = kids p ts" using beside by simp
    show ?thesis using 2(2) [OF beside(3) d(5) 2(5)] 2(6) set_kids_ptrs [OF beside(3) d(5), of ws] d beside kids_subset [of p ts]
      unfolding k by (auto simp: set_kids_none)
  qed
qed simp

lemma kids_named: "all_named ts \<Longrightarrow> all_named (kids p ts)"
  by (induction p ts rule: kids.induct) auto

lemma set_kids_named: "all_named ts \<Longrightarrow> all_named ws \<Longrightarrow> all_named (set_kids p ws ts)"
  by (induction p ws ts rule: set_kids.induct) auto

text \<open>A menu with new children for one entry is a menu again, when the heap follows.\<close>

lemma menu_set_kids:
  assumes "menu_at h ts" and "p \<in> dom h" and "h p = Some e" and "h' p = Some (e\<lparr>Subgroup_List := x\<rparr>)" and "forest_at h' (Some p) x ws"
    and "\<And>y. y \<in> set (forest_ptrs ts) \<Longrightarrow> y \<noteq> p \<Longrightarrow> y \<notin> set (forest_ptrs (kids p ts)) \<Longrightarrow> h' y = h y"
    and "dom h' = set (forest_ptrs ts) - set (forest_ptrs (kids p ts)) \<union> set (forest_ptrs ws)" and "distinct (forest_ptrs ws)"
    and "set (forest_ptrs ws) \<inter> (set (forest_ptrs ts) - set (forest_ptrs (kids p ts))) = {}" and "all_named ws"
  shows "menu_at h' (set_kids p ws ts)"
proof -
  have m: "forest_at h None (Some 0) ts" "distinct (forest_ptrs ts)" "p \<in> set (forest_ptrs ts)" using assms(1,2) by (simp_all add: menu_at_def)
  have "forest_at h' None (Some 0) (set_kids p ws ts)" by (rule forest_set_kids [OF m assms(3-6)])
  moreover have "\<exists>cg us. set_kids p ws ts = [Node 0 cg us] \<and> all_named us"
    using assms(1,10) by (auto simp: menu_at_def intro: set_kids_named)
  ultimately show ?thesis
    using set_kids_ptrs [OF m(3,2), of ws] set_kids_distinct [OF m(3,2) assms(8,9)] assms(7) by (simp add: menu_at_def)
qed

lemma menu_kids:
  assumes "menu_at h ts" and "p \<in> dom h"
  obtains e where "h p = Some e" and "forest_at h (Some p) (Subgroup_List e) (kids p ts)" and "distinct (forest_ptrs (kids p ts))"
    and "p \<notin> set (forest_ptrs (kids p ts))" and "set (forest_ptrs (kids p ts)) \<subseteq> set (forest_ptrs ts)" and "all_named (kids p ts)"
proof -
  have m: "forest_at h None (Some 0) ts" "p \<in> set (forest_ptrs ts)" "distinct (forest_ptrs ts)" using assms by (simp_all add: menu_at_def)
  obtain cg us where "ts = [Node 0 cg us]" "all_named us" using assms(1) by (auto simp: menu_at_def)
  then have "all_named (kids p ts)" using kids_named by auto
  then show ?thesis using kids_at [OF m] that kids_distinct [OF m(3)] kids_not_self [OF m(3)] kids_subset by blast
qed

lemma register_adds:
  assumes "menu_at (heap s) ts" and "malloc (\<lambda>p. heap s p \<noteq> None) = Some new" and "heap s new = None"
    and "p = (case parent of None \<Rightarrow> Root_Group | Some p \<Rightarrow> p)" and "p \<in> dom (heap s)"
  obtains h' where "QCLI_Register_Command_Group malloc parent (Some cg) s = Some (Some new, s\<lparr>heap := h'\<rparr>)"
    and "menu_at h' (add_group p (Node new (Some cg) []) ts)" and "dom h' = insert new (dom (heap s))"
proof -
  let ?h = "heap s" and ?ks = "kids p ts"
  let ?leaf = "\<lparr>Next = None, Command_Group = Some cg, Parent_Group = Some p, Subgroup_List = None\<rparr>"
  let ?h1 = "?h(new \<mapsto> ?leaf)"
  obtain e where e: "?h p = Some e" "forest_at ?h (Some p) (Subgroup_List e) ?ks" "distinct (forest_ptrs ?ks)" "p \<notin> set (forest_ptrs ?ks)"
    "set (forest_ptrs ?ks) \<subseteq> set (forest_ptrs ts)" "all_named ?ks" using menu_kids [OF assms(1,5)] .
  have d: "dom ?h = set (forest_ptrs ts)" using assms(1) by (simp add: menu_at_def)
  then have new: "new \<notin> set (forest_ptrs ts)" "new \<notin> set (forest_ptrs ?ks)" "new \<noteq> p" using assms(3,5) e(5) by auto
  have f1: "forest_at ?h1 (Some p) (Subgroup_List e) ?ks" using e(2) new by simp
  have main: "menu_at h' (add_group p (Node new (Some cg) []) ts)"
    if "h' p = Some (e\<lparr>Subgroup_List := x\<rparr>)" and "forest_at h' (Some p) x (?ks @ [Node new (Some cg) []])"
      and "\<And>y. y \<notin> set (forest_ptrs ?ks) \<Longrightarrow> y \<noteq> p \<Longrightarrow> y \<noteq> new \<Longrightarrow> h' y = ?h y" and "dom h' = insert new (dom ?h)" for h' x
    unfolding add_group_def
    by (rule menu_set_kids [OF assms(1,5) e(1) that(1,2)]) (use that(3,4) new e(3,5,6) d in auto)
  show ?thesis
  proof (cases "Subgroup_List e")
    case None
    let ?h' = "upd_entry p (\<lambda>e. e\<lparr>Subgroup_List := Some new\<rparr>) ?h1"
    have ks: "?ks = []" using e(2) None by (cases ?ks rule: forest_ptrs.cases) auto
    have "?h' p = Some (e\<lparr>Subgroup_List := Some new\<rparr>)" "?h' new = Some ?leaf" using e(1) new by (simp_all add: upd_entry_def)
    then have "menu_at ?h' (add_group p (Node new (Some cg) []) ts)"
      by (rule_tac x = "Some new" in main) (auto simp: ks upd_entry_def)
    moreover have "QCLI_Register_Command_Group malloc parent (Some cg) s = Some (Some new, s\<lparr>heap := ?h'\<rparr>)"
      using assms(2,4) e(1) None new by (simp add: QCLI_Register_Command_Group_def Let_def)
    ultimately show ?thesis by (intro that [of ?h']) auto
  next
    case (Some q)
    have f: "forest_at ?h1 (Some p) (Some q) ?ks" using f1 Some by simp
    obtain l where l: "last_entry ?h1 q = Some l" "l \<in> set (forest_ptrs ?ks)" using forest_last [OF f e(3)] root_ptrs_subset by blast
    let ?h' = "upd_entry l (\<lambda>e. e\<lparr>Next := Some new\<rparr>) ?h1"
    have "forest_at ?h' (Some p) (Some q) (?ks @ [Node new (Some cg) []])"
      by (rule forest_append_leaf [OF f e(3) new(2) _ l(1)]) simp
    moreover have "?h' p = Some (e\<lparr>Subgroup_List := Some q\<rparr>)" using e(1,4) l(2) new Some by (auto simp: upd_entry_def)
    ultimately have "menu_at ?h' (add_group p (Node new (Some cg) []) ts)"
      by (rule_tac x = "Some q" in main) (use l(2) in \<open>auto simp: upd_entry_def\<close>)
    moreover have "QCLI_Register_Command_Group malloc parent (Some cg) s = Some (Some new, s\<lparr>heap := ?h'\<rparr>)"
      using assms(2,4) e(1) Some new l(1) by (simp add: QCLI_Register_Command_Group_def Let_def)
    ultimately show ?thesis by (intro that [of ?h']) auto
  qed
qed

section \<open>Removal\<close>

lemma unregister_None: "unregister (Inr None) hc = Some (False, hc)"
  by (subst unregister.simps) simp

lemma unregister_Some: "unregister (Inr (Some q)) hc =
  do { e \<leftarrow> fst hc q; (r1, hc) \<leftarrow> unregister (Inl q) hc; (r2, hc) \<leftarrow> unregister (Inr (Next e)) hc; Some (r1 \<or> r2, hc) }"
  by (subst unregister.simps) simp

text \<open>An entry that is out of its list, with the subgroups that the loop removes, is freed.\<close>

lemma unregister_one:
  assumes "unlink_entry p h = Some (True, h1)" and "h1 p = Some ep" and "Parent_Group ep = Some g" and "p \<notin> W"
    and "unregister (Inr (Subgroup_List ep)) (h1, c) =
      Some (c \<in> W, (h1 |` (- W))(p \<mapsto> ep\<lparr>Subgroup_List := None\<rparr>), if c \<in> W then p else c)"
  shows "unregister (Inl p) (h, c) = Some (c \<in> insert p W, h1 |` (- insert p W), if c \<in> insert p W then g else c)"
proof -
  have "((h1 |` (- W))(p \<mapsto> ep\<lparr>Subgroup_List := None\<rparr>))(p := None) = h1 |` (- insert p W)"
    by (rule ext) (simp add: restrict_map_def)
  then show ?thesis using assms by (subst unregister.simps) (auto simp: Let_def)
qed

lemma unlink_head:
  assumes "h p = Some ep" and "Parent_Group ep = Some g" and "h g = Some e" and "Subgroup_List e = Some p"
  shows "unlink_entry p h = Some (True, upd_entry g (\<lambda>e. e\<lparr>Subgroup_List := Next ep\<rparr>) h)"
  using assms by (simp add: unlink_entry_def)

lemma unregister_children:
  assumes "forest_at h (Some g) q us" and "distinct (g # forest_ptrs us)" and "h g = Some e" and "Subgroup_List e = q"
  shows "unregister (Inr q) (h, c) = Some (c \<in> set (forest_ptrs us),
      (h |` (- set (forest_ptrs us)))(g \<mapsto> e\<lparr>Subgroup_List := None\<rparr>), if c \<in> set (forest_ptrs us) then g else c)"
  using assms
proof (induction us arbitrary: g q h e c rule: forest_ptrs.induct)
  case 1
  then have "h(g \<mapsto> e\<lparr>Subgroup_List := None\<rparr>) = h" by (auto simp: fun_eq_iff)
  then show ?case using 1 by (simp add: unregister_None restrict_map_def)
next
  case (2 p cg ws ts)
  from 2(3) obtain ep where q: "q = Some p" and ep: "h p = Some ep" "Parent_Group ep = Some g"
    "forest_at h (Some p) (Subgroup_List ep) ws" "forest_at h (Some g) (Next ep) ts" by (auto split: option.splits)
  let ?h1 = "upd_entry g (\<lambda>e. e\<lparr>Subgroup_List := Next ep\<rparr>) h" and ?W = "set (forest_ptrs ws)"
  let ?h3 = "?h1 |` (- insert p ?W)" and ?c = "if c \<in> insert p ?W then g else c"
  have h1: "?h1 p = Some ep" "?h1 g = Some (e\<lparr>Subgroup_List := Next ep\<rparr>)" "forest_at ?h1 (Some p) (Subgroup_List ep) ws"
    using 2(4,5) ep by (auto simp: upd_entry_simps)
  have "unregister (Inr (Subgroup_List ep)) (?h1, c) =
      Some (c \<in> ?W, (?h1 |` (- ?W))(p \<mapsto> ep\<lparr>Subgroup_List := None\<rparr>), if c \<in> ?W then p else c)"
    using 2(4) by (intro 2(1) [OF h1(3) _ h1(1)]) simp_all
  from unregister_one [OF unlink_head [OF ep(1,2) 2(5)] h1(1) ep(2) _ this] 2(4,6) q
  have one: "unregister (Inl p) (h, c) = Some (c \<in> insert p ?W, ?h3, ?c)" by simp
  have f3: "forest_at ?h3 (Some g) (Next ep) ts"
    using ep(4) 2(4) by (subst forest_at_cong [of _ _ h]) (auto simp: restrict_map_def upd_entry_def)
  have g3: "?h3 g = Some (e\<lparr>Subgroup_List := Next ep\<rparr>)" "distinct (g # forest_ptrs ts)" using 2(4) h1(2) by (auto simp: restrict_map_def)
  have ee: "e\<lparr>Subgroup_List := Next ep, Subgroup_List := None\<rparr> = e\<lparr>Subgroup_List := None\<rparr>" by simp
  have sl: "Subgroup_List (e\<lparr>Subgroup_List := Next ep\<rparr>) = Next ep" by simp
  have two: "unregister (Inr (Next ep)) (?h3, ?c) = Some (?c \<in> set (forest_ptrs ts),
      (?h3 |` (- set (forest_ptrs ts)))(g \<mapsto> e\<lparr>Subgroup_List := None\<rparr>), if ?c \<in> set (forest_ptrs ts) then g else ?c)"
    using 2(2) [OF f3 g3(2,1) sl, of ?c] unfolding ee .
  define h3 where "h3 = ?h3"
  define c1 where "c1 = ?c"
  define h4 where "h4 = (h3 |` (- set (forest_ptrs ts)))(g \<mapsto> e\<lparr>Subgroup_List := None\<rparr>)"
  have "unregister (Inr q) (h, c) = Some (c \<in> insert p ?W \<or> c1 \<in> set (forest_ptrs ts), h4, if c1 \<in> set (forest_ptrs ts) then g else c1)"
    using one two ep(1) unfolding q h4_def h3_def [symmetric] c1_def [symmetric] by (simp add: unregister_Some del: insert_iff)
  moreover have "h4 = (h |` (- set (forest_ptrs (Node p cg ws # ts))))(g \<mapsto> e\<lparr>Subgroup_List := None\<rparr>)"
    unfolding h4_def h3_def by (rule ext) (auto simp: restrict_map_def upd_entry_def)
  moreover have "c \<in> insert p ?W \<or> c1 \<in> set (forest_ptrs ts) \<longleftrightarrow> c \<in> set (forest_ptrs (Node p cg ws # ts))"
    "(if c1 \<in> set (forest_ptrs ts) then g else c1) = (if c \<in> set (forest_ptrs (Node p cg ws # ts)) then g else c)"
    using 2(4) by (auto simp: c1_def)
  ultimately show ?case by (simp only:)
qed

lemma entry_before_simps: "h q = Some e \<Longrightarrow>
    entry_before h g (Some q) = (if Next e = Some g then Some (Some q) else entry_before h g (Next e))"
  by (subst entry_before.simps) simp

lemma unlink_chain:
  assumes "forest_at h par q (as @ Node g cg us # bs)" and "distinct (forest_ptrs (as @ Node g cg us # bs))" and "h g = Some eg" and "as \<noteq> []"
  shows "\<exists>l. entry_before h g q = Some (Some l) \<and> l \<in> set (map root_ptr as) \<and>
    forest_at (upd_entry l (\<lambda>e. e\<lparr>Next := Next eg\<rparr>) h) par q (as @ bs)"
  using assms
proof (induction as arbitrary: q)
  case (Cons t as)
  obtain r cgr vs where t: "t = Node r cgr vs" by (cases t)
  from Cons.prems(1) obtain er where er: "q = Some r" "h r = Some er" "Command_Group er = cgr" "Parent_Group er = par"
    "forest_at h (Some r) (Subgroup_List er) vs" "forest_at h par (Next er) (as @ Node g cg us # bs)" by (auto simp: t split: option.splits)
  note d = Cons.prems(2) [unfolded t]
  show ?case
  proof (cases "as = []")
    case True
    have n: "Next er = Some g" "forest_at h par (Next eg) bs" using er(6) Cons.prems(3) True by auto
    have "entry_before h g q = Some (Some r)" using entry_before_simps [of h r er g, OF er(2)] er(1) n(1) by simp
    moreover have "forest_at (upd_entry r (\<lambda>e. e\<lparr>Next := Next eg\<rparr>) h) par q ([t] @ bs)"
      using er n(2) d True by (simp add: t upd_entry_simps)
    ultimately show ?thesis using True by (intro exI [of _ r]) (simp add: t root_ptr_def)
  next
    case False
    with Cons.IH [OF er(6) _ Cons.prems(3)] d obtain l where l: "entry_before h g (Next er) = Some (Some l)" "l \<in> set (map root_ptr as)"
      "forest_at (upd_entry l (\<lambda>e. e\<lparr>Next := Next eg\<rparr>) h) par (Next er) (as @ bs)" by auto
    have lr: "l \<noteq> r" "l \<notin> set (forest_ptrs vs)" using l(2) root_ptrs_subset [of as] d by auto
    have "Next er \<noteq> Some g" using er(6) False d by (cases as rule: forest_ptrs.cases) auto
    then have "entry_before h g q = Some (Some l)" using entry_before_simps [of h r er g, OF er(2)] er(1) l(1) by simp
    moreover have "forest_at (upd_entry l (\<lambda>e. e\<lparr>Next := Next eg\<rparr>) h) par q ((t # as) @ bs)"
      using er l(3) lr by (simp add: t upd_entry_simps)
    ultimately show ?thesis using l(2) by (intro exI [of _ l]) simp
  qed
qed simp

lemma forest_entry:
  assumes "forest_at h par q (as @ Node g cg us # bs)"
  shows "\<exists>eg. h g = Some eg \<and> Parent_Group eg = par \<and> forest_at h (Some g) (Subgroup_List eg) us"
  using assms by (induction as arbitrary: q rule: forest_ptrs.induct) (auto split: option.splits)

lemma unlink_any:
  assumes "h p = Some e" and "forest_at h (Some p) (Subgroup_List e) (as @ Node g cg us # bs)"
    and "distinct (p # forest_ptrs (as @ Node g cg us # bs))" and "h g = Some eg"
  obtains h1 x where "unlink_entry g h = Some (True, h1)" and "h1 p = Some (e\<lparr>Subgroup_List := x\<rparr>)" and "forest_at h1 (Some p) x (as @ bs)"
    and "h1 g = Some eg" and "\<And>y. y \<noteq> p \<Longrightarrow> y \<notin> set (forest_ptrs as) \<Longrightarrow> h1 y = h y" and "dom h1 = dom h"
proof (cases "as = []")
  case True
  have eg: "Subgroup_List e = Some g" "Parent_Group eg = Some p" "forest_at h (Some p) (Next eg) bs" using assms(2,4) True by auto
  let ?h1 = "upd_entry p (\<lambda>e. e\<lparr>Subgroup_List := Next eg\<rparr>) h"
  show ?thesis
    by (rule that [of ?h1 "Next eg"]) (use unlink_head [OF assms(4) eg(2) assms(1) eg(1)] assms eg True in \<open>auto simp: upd_entry_simps\<close>)
next
  case False
  obtain l where l: "entry_before h g (Subgroup_List e) = Some (Some l)" "l \<in> set (forest_ptrs as)"
    "forest_at (upd_entry l (\<lambda>e. e\<lparr>Next := Next eg\<rparr>) h) (Some p) (Subgroup_List e) (as @ bs)"
    using unlink_chain [OF assms(2) _ assms(4) False] assms(3) root_ptrs_subset [of as] by auto
  let ?h1 = "upd_entry l (\<lambda>e. e\<lparr>Next := Next eg\<rparr>) h"
  have "Parent_Group eg = Some p" using forest_entry [OF assms(2)] assms(4) by simp
  moreover have "Subgroup_List e \<noteq> Some g" using assms(2,3) False by (cases as rule: forest_ptrs.cases) auto
  ultimately have "unlink_entry g h = Some (True, ?h1)" using l(1) assms(1,4) by (simp add: unlink_entry_def)
  moreover have "e\<lparr>Subgroup_List := Subgroup_List e\<rparr> = e" by simp
  ultimately show ?thesis
    by (intro that [of ?h1 "Subgroup_List e"]) (use l assms in \<open>auto simp: upd_entry_simps upd_entry_def\<close>)
qed

text \<open>Every entry but the root is among the children of its parent, and removing it takes it out of that list.\<close>

lemma parent_in_forest:
  assumes "g \<in> set (forest_ptrs us)" and "distinct (forest_ptrs us)"
  shows "(\<exists>as cg ws bs. us = as @ Node g cg ws # bs) \<or>
    (\<exists>p as cg ws bs. p \<in> set (forest_ptrs us) \<and> kids p us = as @ Node g cg ws # bs)"
  using assms
proof (induction us rule: forest_ptrs.induct)
  case (2 q cgq vs ts)
  from 2(3,4) show ?case
  proof (cases rule: forest_place)
    case here
    then show ?thesis by (metis append_Nil)
  next
    case below
    from 2(1) [OF below(2)] 2(4) consider (top) as cg ws bs where "vs = as @ Node g cg ws # bs"
      | (deep) p as cg ws bs where "p \<in> set (forest_ptrs vs)" "kids p vs = as @ Node g cg ws # bs" by auto
    then show ?thesis
    proof cases
      case top
      then have "kids q (Node q cgq vs # ts) = as @ Node g cg ws # bs" by simp
      then show ?thesis by (metis forest_ptrs.simps(2) list.set_intros(1))
    next
      case deep
      then have "kids p (Node q cgq vs # ts) = as @ Node g cg ws # bs" using 2(4) kids_none [of p ts] by auto
      then show ?thesis using deep(1) by (intro disjI2 exI [of _ p]) auto
    qed
  next
    case beside
    from 2(2) [OF beside(3)] 2(4) consider (top) as cg ws bs where "ts = as @ Node g cg ws # bs"
      | (deep) p as cg ws bs where "p \<in> set (forest_ptrs ts)" "kids p ts = as @ Node g cg ws # bs" by auto
    then show ?thesis
    proof cases
      case top
      then show ?thesis by (metis append_Cons)
    next
      case deep
      then have "kids p (Node q cgq vs # ts) = as @ Node g cg ws # bs" using 2(4) kids_none [of p vs] by auto
      then show ?thesis using deep(1) by (intro disjI2 exI [of _ p]) auto
    qed
  qed
qed simp

lemma remove_from_list:
  assumes "distinct (forest_ptrs (as @ Node g cg ws # bs))"
  shows "remove_group g (as @ Node g cg ws # bs) = as @ bs"
  using assms by (induction as rule: forest_ptrs.induct) (auto simp: remove_none)

lemma kids_in: "kids p ts = as @ Node g cg ws # bs \<Longrightarrow> g \<in> set (forest_ptrs ts) \<and> p \<in> set (forest_ptrs ts)"
proof -
  assume k: "kids p ts = as @ Node g cg ws # bs"
  then have "g \<in> set (forest_ptrs (kids p ts))" by simp
  moreover have "p \<in> set (forest_ptrs ts)" using k kids_none [of p ts] by auto
  ultimately show ?thesis using kids_subset by blast
qed

lemma kids_of_list: "distinct (forest_ptrs (as @ Node g cg ws # bs)) \<Longrightarrow> kids g (as @ Node g cg ws # bs) = ws"
  by (induction as rule: forest_ptrs.induct) (auto simp: kids_none)

lemma kids_kids:
  assumes "distinct (forest_ptrs ts)" and "g \<in> set (forest_ptrs (kids p ts))"
  shows "kids g (kids p ts) = kids g ts"
  using assms
proof (induction p ts rule: kids.induct)
  case (2 p q cgq vs ts)
  have d: "distinct (forest_ptrs vs)" "distinct (forest_ptrs ts)" "q \<notin> set (forest_ptrs vs)" "q \<notin> set (forest_ptrs ts)"
    "set (forest_ptrs vs) \<inter> set (forest_ptrs ts) = {}" using 2(3) by auto
  have "kids p (Node q cgq vs # ts) \<noteq> []" using 2(4) by (metis empty_iff forest_ptrs.simps(1) list.set(1))
  then have "p \<in> set (forest_ptrs (Node q cgq vs # ts))" using kids_none by blast
  from this 2(3) show ?case
  proof (cases rule: forest_place)
    case here
    then have "g \<in> set (forest_ptrs vs)" using 2(4) by simp
    then show ?thesis using here d kids_none [of g ts] by auto
  next
    case below
    then have "g \<in> set (forest_ptrs (kids p vs))" using 2(4) by simp
    moreover from this have "g \<in> set (forest_ptrs vs)" using kids_subset by blast
    ultimately show ?thesis using below 2(1) d kids_none [of g ts] by auto
  next
    case beside
    then have "g \<in> set (forest_ptrs (kids p ts))" using 2(4) by simp
    moreover from this have "g \<in> set (forest_ptrs ts)" using kids_subset by blast
    ultimately show ?thesis using beside 2(2) d kids_none [of g vs] by auto
  qed
qed simp

lemma remove_group_kids:
  assumes "kids p ts = as @ Node g cg ws # bs" and "distinct (forest_ptrs ts)"
  shows "remove_group g ts = set_kids p (as @ bs) ts"
  using assms
proof (induction p ts rule: kids.induct)
  case (2 p q cgq vs ts)
  have i: "g \<in> set (forest_ptrs (Node q cgq vs # ts))" "p \<in> set (forest_ptrs (Node q cgq vs # ts))" using kids_in [OF 2(3)] by auto
  have gp: "g \<notin> set (forest_ptrs ts) \<or> g \<notin> insert q (set (forest_ptrs vs))" "g \<noteq> p"
    using 2(4) kids_not_self [OF 2(4), of p] unfolding 2(3) by auto
  from i(2) 2(4) show ?case
  proof (cases rule: forest_place)
    case here
    then have vs: "vs = as @ Node g cg ws # bs" using 2(3) by simp
    moreover have "distinct (forest_ptrs vs)" using 2(4) by simp
    ultimately have "remove_group g vs = as @ bs" using remove_from_list by simp
    moreover have "g \<notin> set (forest_ptrs ts)" using vs 2(4) by auto
    ultimately show ?thesis using here gp(2) by (simp add: remove_none set_kids_none)
  next
    case below
    then have k: "kids p vs = as @ Node g cg ws # bs" using 2(3) by simp
    moreover have "g \<in> set (forest_ptrs vs)" using kids_in [OF k] by simp
    ultimately show ?thesis using 2(1) 2(4) below gp by (auto simp: remove_none set_kids_none)
  next
    case beside
    then have k: "kids p ts = as @ Node g cg ws # bs" using 2(3) by simp
    moreover have "g \<in> set (forest_ptrs ts)" using kids_in [OF k] by simp
    ultimately show ?thesis using 2(2) 2(4) beside gp by (auto simp: remove_none set_kids_none)
  qed
qed simp

text \<open>Removing a group: the subtree is gone from the heap, nothing else changes, and a current group in it moves to the parent.\<close>

lemma unregister_removes:
  assumes "menu_at (heap s) ts" and "g \<in> dom (heap s)" and "g \<noteq> Root_Group"
  obtains p W h' where "p \<in> dom (heap s)" and "map_option Parent_Group (heap s g) = Some (Some p)" and "W = insert g (set (forest_ptrs (kids g ts)))"
    and "Unregister_Command_Group g s = Some (Current_Group s \<in> W,
      s\<lparr>heap := h', Current_Group := if Current_Group s \<in> W then p else Current_Group s\<rparr>)"
    and "menu_at h' (remove_group g ts)" and "dom h' = dom (heap s) - W" and "p \<notin> W"
proof -
  let ?h = "heap s"
  obtain cg0 us where m: "ts = [Node 0 cg0 us]" "distinct (forest_ptrs ts)" "dom ?h = set (forest_ptrs ts)" "all_named us"
    using assms(1) by (auto simp: menu_at_def)
  then have "g \<in> set (forest_ptrs us)" "distinct (forest_ptrs us)" using assms(2,3) by auto
  from parent_in_forest [OF this] obtain p as cg ws bs where k: "kids p ts = as @ Node g cg ws # bs"
  proof (elim disjE exE conjE)
    fix as cg ws bs assume "us = as @ Node g cg ws # bs"
    then show ?thesis using that [of 0] m(1) by simp
  next
    fix p as cg ws bs assume p: "p \<in> set (forest_ptrs us)" and "kids p us = as @ Node g cg ws # bs"
    moreover have "p \<noteq> 0" using p m(1,2) by (cases "p = 0") auto
    ultimately show ?thesis using that [of p] m(1) by simp
  qed
  have p: "p \<in> dom ?h" using kids_in [OF k] m(3) by simp
  obtain e where e: "?h p = Some e" "forest_at ?h (Some p) (Subgroup_List e) (kids p ts)" "distinct (forest_ptrs (kids p ts))"
    "p \<notin> set (forest_ptrs (kids p ts))" "set (forest_ptrs (kids p ts)) \<subseteq> set (forest_ptrs ts)" "all_named (kids p ts)" using menu_kids [OF assms(1) p] .
  have f: "forest_at ?h (Some p) (Subgroup_List e) (as @ Node g cg ws # bs)" "distinct (p # forest_ptrs (as @ Node g cg ws # bs))"
    using e(2-4) unfolding k by auto
  obtain eg where eg: "?h g = Some eg" "Parent_Group eg = Some p" "forest_at ?h (Some g) (Subgroup_List eg) ws" using forest_entry [OF f(1)] by auto
  obtain h1 x where h1: "unlink_entry g ?h = Some (True, h1)" "h1 p = Some (e\<lparr>Subgroup_List := x\<rparr>)" "forest_at h1 (Some p) x (as @ bs)"
    "h1 g = Some eg" "\<And>y. y \<noteq> p \<Longrightarrow> y \<notin> set (forest_ptrs as) \<Longrightarrow> h1 y = ?h y" "dom h1 = dom ?h" using unlink_any [OF e(1) f eg(1)] by blast
  have f1: "forest_at h1 (Some g) (Subgroup_List eg) ws"
  proof (subst forest_at_cong [of _ _ ?h])
    show "h1 y = ?h y" if "y \<in> set (forest_ptrs ws)" for y by (rule h1(5)) (use that f(2) in auto)
  qed (rule eg(3))
  have kg: "kids g ts = ws" using kids_kids [OF m(2), of g p] e(3) unfolding k by (simp add: kids_of_list)
  let ?W = "set (forest_ptrs ws)" and ?c = "Current_Group s"
  let ?h' = "h1 |` (- insert g ?W)"
  have "unregister (Inr (Subgroup_List eg)) (h1, ?c) =
      Some (?c \<in> ?W, (h1 |` (- ?W))(g \<mapsto> eg\<lparr>Subgroup_List := None\<rparr>), if ?c \<in> ?W then g else ?c)"
    using f(2) by (intro unregister_children [OF f1 _ h1(4)]) auto
  from unregister_one [OF h1(1,4) eg(2) _ this] f(2)
  have "unregister (Inl g) (?h, ?c) = Some (?c \<in> insert g ?W, ?h', if ?c \<in> insert g ?W then p else ?c)" by auto
  then have u: "Unregister_Command_Group g s = Some (?c \<in> insert g ?W, s\<lparr>heap := ?h', Current_Group := if ?c \<in> insert g ?W then p else ?c\<rparr>)"
    by (simp add: Unregister_Command_Group_def del: insert_iff)
  have "menu_at ?h' (set_kids p (as @ bs) ts)"
  proof (rule menu_set_kids [OF assms(1) p e(1)])
    show "?h' p = Some (e\<lparr>Subgroup_List := x\<rparr>)" using h1(2) f(2) by (auto simp: restrict_map_def)
    show "forest_at ?h' (Some p) x (as @ bs)"
      using h1(3) f(2) by (subst forest_at_cong [of _ _ h1]) (auto simp: restrict_map_def)
    show "?h' y = ?h y" if "y \<noteq> p" "y \<notin> set (forest_ptrs (kids p ts))" for y using that h1(5) unfolding k by (auto simp: restrict_map_def)
    show "dom ?h' = set (forest_ptrs ts) - set (forest_ptrs (kids p ts)) \<union> set (forest_ptrs (as @ bs))"
      using e(5) f(2) h1(6) m(3) unfolding k by auto
    show "distinct (forest_ptrs (as @ bs))" using f(2) by auto
    show "set (forest_ptrs (as @ bs)) \<inter> (set (forest_ptrs ts) - set (forest_ptrs (kids p ts))) = {}" unfolding k by auto
    show "all_named (as @ bs)" using e(6) unfolding k by simp
  qed
  then have "menu_at ?h' (remove_group g ts)" using remove_group_kids [OF k m(2)] by simp
  then show ?thesis using that [OF p _ _ u] eg(1,2) kg h1(6) f(2) by auto
qed

section \<open>Registration and removal undo each other\<close>

lemma forest_unique:
  assumes "forest_at h par q ts" and "forest_at h' par q' ts"
  shows "q' = q \<and> (\<forall>x \<in> set (forest_ptrs ts). h' x = h x)"
  using assms
proof (induction ts arbitrary: par q q' rule: forest_ptrs.induct)
  case (2 p cg us ts)
  from 2(3,4) obtain e e' where e: "h p = Some e" "h' p = Some e'" "q = Some p" "q' = Some p" "Command_Group e' = Command_Group e"
    "Parent_Group e' = Parent_Group e" "forest_at h (Some p) (Subgroup_List e) us" "forest_at h' (Some p) (Subgroup_List e') us"
    "forest_at h par (Next e) ts" "forest_at h' par (Next e') ts" by (auto split: option.splits)
  have "Subgroup_List e' = Subgroup_List e" "Next e' = Next e" using 2(1) [OF e(7,8)] 2(2) [OF e(9,10)] by simp_all
  then have "e' = e" using e(5,6) by simp
  then show ?case using e 2(1) [OF e(7,8)] 2(2) [OF e(9,10)] by auto
qed simp

lemma menu_unique:
  assumes "menu_at h ts" and "menu_at h' ts"
  shows "h' = h"
proof (rule ext)
  fix x
  have "\<forall>x \<in> set (forest_ptrs ts). h' x = h x" using forest_unique assms unfolding menu_at_def by blast
  moreover have "h x = None \<and> h' x = None" if "x \<notin> set (forest_ptrs ts)" using that assms by (auto simp: menu_at_def)
  ultimately show "h' x = h x" by (cases "x \<in> set (forest_ptrs ts)") auto
qed

lemma remove_added:
  assumes "distinct (forest_ptrs ts)" and "p \<in> set (forest_ptrs ts)" and "new \<notin> set (forest_ptrs ts)"
  shows "remove_group new (set_kids p (kids p ts @ [Node new cg []]) ts) = ts"
  using assms
proof (induction p ts rule: kids.induct)
  case (2 p q cgq us ts)
  have last: "remove_group new (us @ [Node new cg []]) = us" if "new \<notin> set (forest_ptrs us)"
    using that by (induction us rule: forest_ptrs.induct) (auto simp: remove_none)
  from 2(4,3) show ?case
  proof (cases rule: forest_place)
    case here
    then show ?thesis using 2(5) last by (auto simp: set_kids_none remove_none)
  next
    case below
    then show ?thesis using 2(1,3,5) by (auto simp: set_kids_none remove_none)
  next
    case beside
    then show ?thesis using 2(2,3,5) by (auto simp: set_kids_none remove_none)
  qed
qed simp

text \<open>
  C7. Registering a command group appends it to the subgroups of its parent and changes nothing else of the menu, and unregistering it gives
  back the very state from before. This is the contract of \<open>QCLI_Register_Command_Group\<close> and
  \<open>QCLI_Unregister_Command_Group\<close> on an allocator that returns a free block; the menu is the tree that \<open>menu_at\<close>
  reads from the linked entries.
\<close>

theorem register_then_unregister:
  assumes "menu_at (heap s) ts" and "Current_Group s \<in> dom (heap s)" and "p \<in> dom (heap s)"
    and "malloc (\<lambda>p. heap s p \<noteq> None) = Some new" and "heap s new = None"
  shows "\<exists>t. QCLI_Register_Command_Group malloc (Some p) (Some cg) s = Some (Some new, t) \<and>
    menu_at (heap t) (add_group p (Node new (Some cg) []) ts) \<and> dom (heap t) = insert new (dom (heap s)) \<and>
    QCLI_Unregister_Command_Group (Some new) t = Some s"
proof -
  let ?us = "add_group p (Node new (Some cg) []) ts"
  obtain h' where h': "QCLI_Register_Command_Group malloc (Some p) (Some cg) s = Some (Some new, s\<lparr>heap := h'\<rparr>)"
    "menu_at h' ?us" "dom h' = insert new (dom (heap s))"
    using register_adds [where malloc = malloc and s = s and parent = "Some p" and p = p and new = new and cg = cg, OF assms(1,4,5) _ assms(3)] by auto
  let ?t = "s\<lparr>heap := h'\<rparr>"
  have m: "distinct (forest_ptrs ts)" "p \<in> set (forest_ptrs ts)" "new \<notin> set (forest_ptrs ts)" using assms(1,3,5) by (auto simp: menu_at_def)
  have r: "remove_group new ?us = ts" unfolding add_group_def by (rule remove_added [OF m])
  have "0 \<in> dom (heap s)" using assms(1) by (auto simp: menu_at_def)
  then have "new \<noteq> 0" using assms(5) by (cases "new = 0") auto
  moreover have "menu_at (heap ?t) ?us" "new \<in> dom (heap ?t)" using h'(2,3) by simp_all
  ultimately have "menu_at (heap ?t) ?us" "new \<in> dom (heap ?t)" "new \<noteq> 0" by blast+
  from unregister_removes [OF this] obtain W h2 q where u: "W = insert new (set (forest_ptrs (kids new ?us)))"
    "Unregister_Command_Group new ?t = Some (Current_Group ?t \<in> W, ?t\<lparr>heap := h2, Current_Group := if Current_Group ?t \<in> W then q else Current_Group ?t\<rparr>)"
    "menu_at h2 (remove_group new ?us)" "dom h2 = dom (heap ?t) - W" by metis
  have h2: "h2 = heap s" using menu_unique assms(1) u(3) unfolding r by blast
  then have "Current_Group s \<notin> W" using u(4) assms(2) by auto
  then have "QCLI_Unregister_Command_Group (Some new) ?t = Some s" using u(2) h2 by (simp add: QCLI_Unregister_Command_Group_def)
  then show ?thesis using h' by auto
qed

definition demo_group :: "string \<Rightarrow> QAPI_Console_Command list \<Rightarrow> QAPI_Console_Command_Group" where
  "demo_group name cs = \<lparr>Group_String = ascii name, Command_List = cs\<rparr>"

definition demo_heap :: group_heap where
  "demo_heap =
     [0 \<mapsto> \<lparr>Next = None, Command_Group = None, Parent_Group = None, Subgroup_List = Some 1\<rparr>,
      1 \<mapsto> \<lparr>Next = None, Command_Group = Some (demo_group ''net'' []), Parent_Group = Some 0, Subgroup_List = None\<rparr>]"

definition demo_menu :: "gtree list" where
  "demo_menu = [Node 0 None [Node 1 (Some (demo_group ''net'' [])) []]]"

lemma demo_menu_at: "menu_at demo_heap demo_menu"
  by (simp add: menu_at_def demo_heap_def demo_menu_def insert_commute)

definition demo_console :: qcli where
  "demo_console =
     \<lparr>heap = demo_heap, Current_Group = 0, Executing_Group = 0, Input_Length = 0, Input_String = replicate 257 0, Parameter_List = [],
      Current_Printf_Group = None, Printf_New_Line = False, Thread_Count = 0, threads = [], console = []\<rparr>"

theorem register_then_unregister_witness:
  "\<exists>t. QCLI_Register_Command_Group (\<lambda>_. Some 2) (Some 1) (Some (demo_group ''tcp'' [])) demo_console = Some (Some 2, t) \<and>
    menu_at (heap t) (add_group 1 (Node 2 (Some (demo_group ''tcp'' [])) []) demo_menu) \<and> dom (heap t) = insert 2 (dom (heap demo_console)) \<and>
    QCLI_Unregister_Command_Group (Some 2) t = Some demo_console"
  by (rule register_then_unregister) (simp_all add: demo_console_def demo_menu_at, simp_all add: demo_heap_def)

end
