(* ===== verification/QcliSearch.thy ===== *)
theory QcliSearch
  imports QcliMenu
begin

text \<open>
  Search in the menu of the console. The two searches of \<open>src/modules/console/qcli.c\<close>, by number and by name, are compared with
  the list of entries that \<open>Display_Command_List\<close> numbers: \<open>Help\<close>, the common commands, the group's commands, its subgroups.
\<close>

section \<open>The numbered list\<close>

definition menu_items :: "group_heap \<Rightarrow> gtree list \<Rightarrow> ptr \<Rightarrow> find_result list" where
  "menu_items h ts g =
     (case h g of
        None \<Rightarrow> []
      | Some e \<Rightarrow>
          Found_Command Help_Command # map Found_Command (common_commands e) @ map Found_Command (group_commands e) @
          map (\<lambda>t. Found_Group (root_ptr t)) (kids g ts))"

fun item_name :: "group_heap \<Rightarrow> find_result \<Rightarrow> u8 list" where
  "item_name h (Found_Command c) = Command_String c"
| "item_name h (Found_Group p) = (case h p of Some e \<Rightarrow> (case Command_Group e of Some cg \<Rightarrow> Group_String cg | None \<Rightarrow> []) | None \<Rightarrow> [])"

text \<open>The place of the first entry with a property, or the length of the list.\<close>

definition first_place :: "('a \<Rightarrow> bool) \<Rightarrow> 'a list \<Rightarrow> nat" where
  "first_place P xs = length (takeWhile (\<lambda>x. \<not> P x) xs)"

lemma first_place_simps [simp]:
  "first_place P [] = 0" "first_place P (x # xs) = (if P x then 0 else Suc (first_place P xs))"
  by (simp_all add: first_place_def)

lemma first_place_append: "first_place P (xs @ ys) = (if first_place P xs < length xs then first_place P xs else length xs + first_place P ys)"
  by (induction xs) simp_all

lemma first_place_le [simp]: "first_place P xs \<le> length xs"
  by (simp add: first_place_def length_takeWhile_le)

lemma first_place_map: "first_place P (map f xs) = first_place (\<lambda>x. P (f x)) xs"
  by (induction xs) simp_all

section \<open>Search by number\<close>

lemma subgroup_by_index_simps:
  "subgroup_by_index h None i = Some None"
  "subgroup_by_index h (Some p) i = (if i = 0 then Some (Some p) else do { e \<leftarrow> h p; subgroup_by_index h (Next e) (i - 1) })"
  by (subst subgroup_by_index.simps, simp)+

lemma subgroup_by_index_forest:
  assumes "forest_at h par q us"
  shows "subgroup_by_index h q i = Some (if unat i < length us then Some (root_ptr (us ! unat i)) else None)"
  using assms
proof (induction us arbitrary: q i)
  case (Cons t us)
  obtain p cg vs where t: "t = Node p cg vs" by (cases t)
  from Cons.prems obtain e where e: "q = Some p" "h p = Some e" "forest_at h par (Next e) us" by (auto simp: t split: option.splits)
  show ?case
  proof (cases "i = 0")
    case False
    then have "unat i = Suc (unat (i - 1))" by (metis Suc_pred' measure_unat unat_minus_one unat_gt_0)
    then show ?thesis using False e Cons.IH [OF e(3), of "i - 1"] by (simp add: subgroup_by_index_simps)
  qed (simp add: e t subgroup_by_index_simps root_ptr_def)
qed (simp add: subgroup_by_index_simps)

lemma menu_entry:
  assumes "menu_at h ts" and "g \<in> dom h"
  obtains e where "h g = Some e" and "forest_at h (Some g) (Subgroup_List e) (kids g ts)" and "all_named (kids g ts)"
  using menu_kids [OF assms] by metis

lemma less_of_nat: "n < 2 ^ 32 \<Longrightarrow> k < (of_nat n :: u32) \<longleftrightarrow> unat k < n"
  by (simp add: word_less_nat_alt unat_of_nat)

lemma sub_of_nat: "\<not> unat k < n \<Longrightarrow> unat (k - (of_nat n :: u32)) = unat k - n"
proof -
  assume a: "\<not> unat k < n"
  then have "n < 2 ^ LENGTH(32)" using unat_u32_bound [of k] by simp
  then have "unat (of_nat n :: u32) = n" by (simp add: unat_of_nat)
  then show ?thesis using a by (simp add: unat_sub word_le_nat_alt)
qed

lemma by_index_is_menu_item:
  assumes "menu_at h ts" and "g \<in> dom h" and "length (menu_items h ts g) < 2 ^ 32"
  shows "Find_Command_By_Index h g i =
    Some (if 1 \<le> unat i \<and> unat i \<le> length (menu_items h ts g) then Some (menu_items h ts g ! (unat i - 1)) else None)"
proof -
  obtain e where e: "h g = Some e" "forest_at h (Some g) (Subgroup_List e) (kids g ts)" using menu_entry [OF assms(1,2)] by metis
  let ?c = "common_commands e" and ?d = "group_commands e" and ?k = "kids g ts"
  have items: "menu_items h ts g = Found_Command Help_Command # map Found_Command ?c @ map Found_Command ?d @
      map (\<lambda>t. Found_Group (root_ptr t)) ?k" by (simp add: menu_items_def e(1))
  have len: "Suc (length ?c + length ?d + length ?k) < 2 ^ 32" using assms(3) by (simp add: items)
  consider "i = 0" | "i = 1" | "2 \<le> unat i"
  proof -
    have "unat i = 0 \<or> unat i = 1 \<or> 2 \<le> unat i" by linarith
    then show ?thesis using that word_unat_eq_iff [of i 0] word_unat_eq_iff [of i 1] by auto
  qed
  then show ?thesis
  proof cases
    case 3
    define j where "j = i - 2"
    have i: "1 < i" "i \<noteq> 1" "unat i = Suc (Suc (unat j))" using 3 by (auto simp: word_less_nat_alt j_def unat_sub word_le_nat_alt)
    have "Find_Command_By_Index h g i = Some (
      if unat j < length ?c then Some (Found_Command (?c ! unat j))
      else if unat j - length ?c < length ?d then Some (Found_Command (?d ! (unat j - length ?c)))
      else if unat j - length ?c - length ?d < length ?k then Some (Found_Group (root_ptr (?k ! (unat j - length ?c - length ?d)))) else None)"
      using i(1,2) len e by (simp add: Find_Command_By_Index_def j_def [symmetric] Let_def less_of_nat sub_of_nat subgroup_by_index_forest)
    then show ?thesis using i(3) by (auto simp: items nth_append)
  qed (simp_all add: Find_Command_By_Index_def e(1) items)
qed

section \<open>Search by name\<close>

lemma command_by_string_first:
  "command_by_string str cs i =
    (let k = first_place (\<lambda>c. same_name str (Command_String c)) cs in (if k < length cs then Some (cs ! k) else None, i + of_nat k))"
  by (induction cs arbitrary: i) (auto simp: Let_def)

lemma subgroup_by_string_simps:
  "subgroup_by_string h str None i = Some (None, i)"
  "h p = Some e \<Longrightarrow> Command_Group e = Some cg \<Longrightarrow> subgroup_by_string h str (Some p) i =
    (if same_name str (Group_String cg) then Some (Some p, i) else subgroup_by_string h str (Next e) (i + 1))"
  by (subst subgroup_by_string.simps, simp)+

lemma subgroup_by_string_first:
  assumes "forest_at h par q us" and "all_named us"
  shows "subgroup_by_string h str q i =
    (let k = first_place (\<lambda>t. same_name str (item_name h (Found_Group (root_ptr t)))) us in
     Some (if k < length us then Some (root_ptr (us ! k)) else None, i + of_nat k))"
  using assms
proof (induction us arbitrary: q i)
  case (Cons t us)
  obtain p cg vs where t: "t = Node p (Some cg) vs" using Cons.prems(2) by (cases t) auto
  from Cons.prems obtain e where e: "q = Some p" "h p = Some e" "Command_Group e = Some cg" "forest_at h par (Next e) us"
    by (auto simp: t split: option.splits)
  have "item_name h (Found_Group p) = Group_String cg" "root_ptr t = p" by (simp_all add: e t root_ptr_def)
  then show ?case using Cons.IH [OF e(4), of "i + 1"] Cons.prems(2)
    by (simp add: subgroup_by_string_simps(2) [of h p e cg, OF e(2,3)] e(1) t Let_def algebra_simps)
qed (simp add: subgroup_by_string_simps)

text \<open>
  A name finds the first entry of the list that has it, but the number it reports is the number of the entry only for \<open>Help\<close>: behind
  it every number is one too low.
\<close>

lemma by_string_is_first_match:
  assumes "menu_at h ts" and "g \<in> dom h" and "k = first_place (\<lambda>it. same_name str (item_name h it)) (menu_items h ts g)"
  shows "Find_Command_By_String h g str =
    Some (if k < length (menu_items h ts g) then Some (menu_items h ts g ! k, of_nat (max 1 k)) else None)"
proof -
  obtain e where e: "h g = Some e" "forest_at h (Some g) (Subgroup_List e) (kids g ts)" "all_named (kids g ts)" using menu_entry [OF assms(1,2)] by metis
  let ?c = "common_commands e" and ?d = "group_commands e" and ?k = "kids g ts"
  let ?P = "\<lambda>c. same_name str (Command_String c)"
  define a where "a = first_place ?P ?c"
  define b where "b = first_place ?P ?d"
  define d where "d = first_place (\<lambda>t. same_name str (item_name h (Found_Group (root_ptr t)))) ?k"
  have abd: "a \<le> length ?c" "b \<le> length ?d" "d \<le> length ?k" by (simp_all add: a_def b_def d_def del: item_name.simps)
  have items: "menu_items h ts g = Found_Command Help_Command # map Found_Command ?c @ map Found_Command ?d @
      map (\<lambda>t. Found_Group (root_ptr t)) ?k" by (simp add: menu_items_def e(1))
  have k: "k = (if ?P Help_Command then 0 else Suc (if a < length ?c then a else length ?c + (if b < length ?d then b else length ?d + d)))"
    unfolding assms(3) items by (simp add: first_place_append first_place_map a_def b_def d_def)
  have "Find_Command_By_String h g str = Some (
      if ?P Help_Command then Some (Found_Command Help_Command, 1)
      else if a < length ?c then Some (Found_Command (?c ! a), 1 + of_nat a)
      else if b < length ?d then Some (Found_Command (?d ! b), 1 + of_nat a + of_nat b)
      else if d < length ?k then Some (Found_Group (root_ptr (?k ! d)), 1 + of_nat a + of_nat b + of_nat d) else None)"
    using e by (simp add: Find_Command_By_String_def command_by_string_first subgroup_by_string_first Let_def
      a_def [symmetric] b_def [symmetric] d_def [symmetric] del: item_name.simps)
  then show ?thesis using abd unfolding k items by (auto simp: nth_append)
qed

text \<open>
  C11. Both searches agree with the list that \<open>Display_Command_List\<close> numbers from 1: a number finds the entry at that place and
  nothing else, a name finds the first entry with that name up to case. The number that the search by name reports, which a usage message prints,
  is the entry's own only for \<open>Help\<close>; for every other entry it is one too low.
\<close>

theorem menu_search_agrees:
  assumes "menu_at h ts" and "g \<in> dom h" and "length (menu_items h ts g) < 2 ^ 32"
  shows "Find_Command_By_Index h g i =
      Some (if 1 \<le> unat i \<and> unat i \<le> length (menu_items h ts g) then Some (menu_items h ts g ! (unat i - 1)) else None) \<and>
    Find_Command_By_String h g str =
      Some (let k = first_place (\<lambda>it. same_name str (item_name h it)) (menu_items h ts g) in
        if k < length (menu_items h ts g) then Some (menu_items h ts g ! k, of_nat (max 1 k)) else None)"
  using by_index_is_menu_item [OF assms] by_string_is_first_match [OF assms(1,2) refl] by (simp add: Let_def)

lemma demo_items: "menu_items demo_heap demo_menu 1 = [Found_Command Help_Command, Found_Command (Common_Command_List ! 0), Found_Command (Common_Command_List ! 1)]"
  by (simp add: menu_items_def demo_heap_def demo_menu_def common_commands_def group_commands_def Common_Command_List_def demo_group_def)

lemma demo_names:
  "\<not> same_name (ascii ''root'') (Command_String Help_Command)" "\<not> same_name (ascii ''root'') (Command_String (Common_Command_List ! 0))"
  "same_name (ascii ''root'') (Command_String (Common_Command_List ! 1))"
  by (simp_all add: same_name_def ascii_def Help_Command_def Common_Command_List_def ch_def upper_def Let_def)

theorem menu_search_agrees_witness:
  "Find_Command_By_Index demo_heap 1 3 = Some (Some (Found_Command (Common_Command_List ! 1))) \<and>
    Find_Command_By_String demo_heap 1 (ascii ''root'') = Some (Some (Found_Command (Common_Command_List ! 1), 2))"
proof -
  have "1 \<in> dom demo_heap" "length (menu_items demo_heap demo_menu 1) < 2 ^ 32" by (simp add: demo_heap_def, simp only: demo_items, simp)
  from menu_search_agrees [OF demo_menu_at this, of 3 "ascii ''root''"]
  show ?thesis unfolding demo_items by (simp add: demo_names [simplified] Let_def)
qed

end
