(* ===== verification/QcliConsole.thy ===== *)
theory QcliConsole
  imports QcliSearch QcliParse
begin

text \<open>
  Execution of commands and input of the console: the second half of \<open>Process_Command\<close>, \<open>Execute_Command\<close> with its background
  threads and the entry points of \<open>src/modules/console/qcli.c\<close>, and the task of \<open>src/modules/console/qcli_pal.c\<close>
  that edits the input line.

  The functions of the registered commands and the kernel's threads are a parameter, \<open>cli_env\<close>. A thread that runs a command
  in the background is an element of \<open>threads\<close> from the moment it has taken its copy of the input until it ends.
\<close>

section \<open>Commands\<close>

abbreviation (input) QAPI_OK :: int where "QAPI_OK \<equiv> 0"
abbreviation (input) QAPI_ERROR_CONSOLE_COMMAND_STATUS_USAGE :: int where "QAPI_ERROR_CONSOLE_COMMAND_STATUS_USAGE \<equiv> - 140002"
abbreviation (input) QCLI_STATUS_USAGE_E :: int where "QCLI_STATUS_USAGE_E \<equiv> 2"
abbreviation (input) pdPASS :: int where "pdPASS \<equiv> 1"
abbreviation (input) QCLI_COMMAND_BACKGOURND_MAX_COUNT :: int where "QCLI_COMMAND_BACKGOURND_MAX_COUNT \<equiv> 5"

record cli_env =
  user_command :: "nat \<Rightarrow> u8 list \<Rightarrow> QAPI_Console_Parameter list \<Rightarrow> qcli \<Rightarrow> (int \<times> qcli) option"
  thread_create :: "qcli \<Rightarrow> int"
  signal_wait :: "qcli \<Rightarrow> bool"

fun string_list :: "u8 list \<Rightarrow> QAPI_Console_Parameter list \<Rightarrow> u8 list list option" where
  "string_list buf [] = Some []"
| "string_list buf (p # ps) = do { w \<leftarrow> c_string buf (String_Value p); ws \<leftarrow> string_list buf ps; Some (w # ws) }"

text \<open>The message for a command that is not found, with the parameters up to the one that failed.\<close>

definition print_not_found :: "u8 list \<Rightarrow> QAPI_Console_Parameter list \<Rightarrow> qcli \<Rightarrow> qcli option" where
  "print_not_found buf ps s =
     do {
       ws \<leftarrow> string_list buf ps;
       (case ws of
          [] \<Rightarrow> None
        | w # ws \<Rightarrow>
            Some (print_all ((ascii ''Command '' @ [CHR_quote] @ w) # map (\<lambda>w. [CHR_space] @ w) ws @
              [[CHR_quote] @ ascii '' not found.'' @ [CHR_newline]]) s))
     }"

fun Display_Help :: "u8 list \<Rightarrow> ptr \<Rightarrow> QAPI_Console_Parameter list \<Rightarrow> qcli \<Rightarrow> (nat \<times> qcli) option" where
  "Display_Help buf g [] s = do { s \<leftarrow> Display_Command_List g s; Some (0, s) }"
| "Display_Help buf g (p # ps) s =
     do {
       string \<leftarrow> c_string buf (String_Value p);
       (r, p) \<leftarrow> Find_Command (heap s) g string p;
       (case r of
          None \<Rightarrow> Some (1, s)
        | Some (Found_Group g) \<Rightarrow> do { (n, s) \<leftarrow> Display_Help buf g ps s; Some (if 0 < n then n + 1 else 0, s) }
        | Some (Found_Command c) \<Rightarrow> if ps = [] then Some (0, Display_Usage (Integer_Value p) c s) else Some (2, s))
     }"

definition Command_Help_fn :: "u8 list \<Rightarrow> QAPI_Console_Parameter list \<Rightarrow> qcli \<Rightarrow> (int \<times> qcli) option" where
  "Command_Help_fn buf ps s =
     do {
       (n, s) \<leftarrow> Display_Help buf (Executing_Group s) ps s;
       if n = 0 then Some (QAPI_OK, s)
       else if n \<le> length ps
       then do { s \<leftarrow> print_not_found buf (take n ps) s; Some (QAPI_ERROR_CONSOLE_COMMAND_STATUS_USAGE, s) }
       else None
     }"

definition move_to :: "(Group_List_Entry \<Rightarrow> ptr option) \<Rightarrow> qcli \<Rightarrow> (int \<times> qcli) option" where
  "move_to target s =
     do {
       e \<leftarrow> heap s (Current_Group s);
       (case Parent_Group e of
          None \<Rightarrow> Some (QAPI_OK, s)
        | Some _ \<Rightarrow>
            do {
              p \<leftarrow> target e;
              s \<leftarrow> Display_Command_List p (s\<lparr>Current_Group := p\<rparr>);
              Some (QAPI_OK, s)
            })
     }"

definition Command_Up_fn :: "qcli \<Rightarrow> (int \<times> qcli) option" where
  "Command_Up_fn = move_to Parent_Group"

definition Command_Root_fn :: "qcli \<Rightarrow> (int \<times> qcli) option" where
  "Command_Root_fn = move_to (\<lambda>_. Some Root_Group)"

definition call_command :: "cli_env \<Rightarrow> QAPI_Console_Command \<Rightarrow> u8 list \<Rightarrow> QAPI_Console_Parameter list \<Rightarrow> qcli \<Rightarrow> (int \<times> qcli) option" where
  "call_command env c buf ps s =
     (case Command_Function c of
        Command_Help \<Rightarrow> Command_Help_fn buf ps s
      | Command_Up \<Rightarrow> Command_Up_fn s
      | Command_Root \<Rightarrow> Command_Root_fn s
      | User n \<Rightarrow> user_command env n buf ps s)"

definition is_usage :: "int \<Rightarrow> bool" where
  "is_usage r \<longleftrightarrow> r = QAPI_ERROR_CONSOLE_COMMAND_STATUS_USAGE \<or> r = QCLI_STATUS_USAGE_E"

text \<open>A background thread from its call of the command to its end; \<open>k\<close> is its place in \<open>threads\<close>.\<close>

definition Command_Thread :: "cli_env \<Rightarrow> nat \<Rightarrow> qcli \<Rightarrow> qcli option" where
  "Command_Thread env k s =
     (let t = threads s ! k in
      do {
        (r, s) \<leftarrow> call_command env (th_command t) (th_input t) (th_parameters t) s;
        s \<leftarrow> (if is_usage r then QCLI_Display_Prompt (Display_Usage (th_index t) (th_command t) s) else Some s);
        Some (s\<lparr>Thread_Count := Thread_Count s - 1, threads := take k (threads s) @ drop (Suc k) (threads s)\<rparr>)
      })"

definition background_param :: "u8 list \<Rightarrow> QAPI_Console_Parameter list \<Rightarrow> bool" where
  "background_param buf ps \<longleftrightarrow> ps \<noteq> [] \<and> c_string buf (String_Value (last ps)) = Some (ascii ''&'')"

definition Execute_Command :: "cli_env \<Rightarrow> u32 \<Rightarrow> QAPI_Console_Command \<Rightarrow> QAPI_Console_Parameter list \<Rightarrow> qcli \<Rightarrow> qcli option" where
  "Execute_Command env command_index c ps s =
     (if background_param (Input_String s) ps
      then
       (if QCLI_COMMAND_BACKGOURND_MAX_COUNT \<le> sint (Thread_Count s)
        then Some (printf_main (ascii ''Max threads (5) reached, ignore.'' @ [CHR_newline]) s)
        else
         (let s = s\<lparr>Thread_Count := Thread_Count s + 1\<rparr>; r = thread_create env s in
          if r = pdPASS
          then
           (let t = \<lparr>th_input = Input_String s, th_parameters = butlast ps, th_command = c, th_index = command_index\<rparr>;
                s = s\<lparr>threads := threads s @ [t]\<rparr> in
            Some (if signal_wait env s then s else printf_main (ascii ''Thread failed to start for command.'' @ [CHR_newline]) s))
          else
           (let s = printf_main (ascii ''Failed to create thread for command ('' @ decimal r @ ascii '').'' @ [CHR_newline]) s in
            Some (s\<lparr>Thread_Count := Thread_Count s - 1\<rparr>))))
      else
       do {
         (r, s) \<leftarrow> call_command env c (Input_String s) ps s;
         Some (if is_usage r then Display_Usage command_index c s else s)
       })"

section \<open>Lines\<close>

text \<open>
  The walk down the groups: the parameters passed, the parameters left, and the group reached so far. The result is the
  command or the group found, if any.
\<close>

fun search_loop :: "QAPI_Console_Parameter list \<Rightarrow> QAPI_Console_Parameter list \<Rightarrow> ptr \<Rightarrow> qcli \<Rightarrow>
    (find_result option \<times> QAPI_Console_Parameter list \<times> QAPI_Console_Parameter list \<times> qcli) option" where
  "search_loop passed [] g s = Some (Some (Found_Group g), passed, [], s)"
| "search_loop passed (p # ps) g s =
     do {
       string \<leftarrow> c_string (Input_String s) (String_Value p);
       (r, p) \<leftarrow> Find_Command (heap s) g string p;
       (case r of
          Some (Found_Group g) \<Rightarrow> search_loop (passed @ [p]) ps g (s\<lparr>Executing_Group := g\<rparr>)
        | _ \<Rightarrow> Some (r, passed @ [p], ps, s))
     }"

definition run_line :: "cli_env \<Rightarrow> QAPI_Console_Parameter list \<Rightarrow> qcli \<Rightarrow> qcli option" where
  "run_line env params s =
     do {
       (r, passed, ps, s) \<leftarrow> search_loop [] params (Current_Group s) (s\<lparr>Executing_Group := Current_Group s\<rparr>);
       (case r of
          Some (Found_Group g) \<Rightarrow> Some (s\<lparr>Current_Group := g\<rparr>)
        | Some (Found_Command c) \<Rightarrow> Execute_Command env (Integer_Value (last passed)) c ps s
        | None \<Rightarrow> print_not_found (Input_String s) passed s)
     }"

definition Process_Command :: "cli_env \<Rightarrow> qcli \<Rightarrow> qcli option" where
  "Process_Command env s =
     do {
       st \<leftarrow> parse_loop (parse_start (Input_String s) (Input_Length s));
       let s = s\<lparr>Input_Length := 0, Input_String := p_buf st, Parameter_List := p_params st\<rparr>;
       let s = (case p_message st of None \<Rightarrow> s | Some m \<Rightarrow> printf_main m s);
       let s = (if p_inside st then printf_main ([CHR_quote] @ ascii '' not terminated'' @ [CHR_newline]) s else s);
       if p_ok st \<and> \<not> p_inside st \<and> p_params st \<noteq> [] then run_line env (p_params st) s else Some s
     }"

definition input_char :: "cli_env \<Rightarrow> u8 \<Rightarrow> qcli \<Rightarrow> qcli option" where
  "input_char env c s =
     (if c = 13
      then
       do {
         s \<leftarrow> Process_Command env s;
         QCLI_Display_Prompt (s\<lparr>Input_Length := 0, Input_String := replicate (QCLI_MAXIMUM_QCLI_COMMAND_STRING_LENGTH + 1) 0\<rparr>)
       }
      else if Input_Length s < QCLI_MAXIMUM_QCLI_COMMAND_STRING_LENGTH
      then
       do {
         buf \<leftarrow> put_char (Input_String s) (Input_Length s) c;
         Some (s\<lparr>Input_String := buf, Input_Length := Input_Length s + 1\<rparr>)
       }
      else Some s)"

fun QCLI_Process_Input_Data :: "cli_env \<Rightarrow> u8 list \<Rightarrow> qcli \<Rightarrow> qcli option" where
  "QCLI_Process_Input_Data env [] s = Some s"
| "QCLI_Process_Input_Data env (c # cs) s = do { s \<leftarrow> input_char env c s; QCLI_Process_Input_Data env cs s }"

definition QCLI_Display_Command_List :: "qcli \<Rightarrow> qcli option" where
  "QCLI_Display_Command_List s = do { s \<leftarrow> Display_Command_List (Current_Group s) s; QCLI_Display_Prompt s }"

text \<open>\<open>Executing_Group\<close> is NULL in the source until the first line is executed. It has no NULL here and starts as the root; it is
  read by \<open>Command_Help\<close> only, which runs after \<open>Process_Command\<close> has set it.\<close>

definition QCLI_Initialize :: "QAPI_Console_Command_Group option \<Rightarrow> qcli" where
  "QCLI_Initialize cg =
     \<lparr>heap = [Root_Group \<mapsto> \<lparr>Next = None, Command_Group = cg, Parent_Group = None, Subgroup_List = None\<rparr>],
      Current_Group = Root_Group, Executing_Group = Root_Group, Input_Length = 0,
      Input_String = replicate (QCLI_MAXIMUM_QCLI_COMMAND_STRING_LENGTH + 1) 0, Parameter_List = [],
      Current_Printf_Group = None, Printf_New_Line = False, Thread_Count = 0, threads = [], console = []\<rparr>"

section \<open>The line editor\<close>

text \<open>\<open>QCLI_Task\<close> keeps the line it edits; the enter key hands it to the console.\<close>

record cli_task =
  cInputString :: "u8 list"
  cInputIndex :: nat
  cli :: qcli

abbreviation (input) cmdMAX_INPUT_SIZE :: nat where "cmdMAX_INPUT_SIZE \<equiv> 500"

definition utf8_char_display_width :: "u8 \<Rightarrow> nat" where
  "utf8_char_display_width b = (if 0xE4 \<le> b \<and> b \<le> 0xE9 then 2 else 1)"

fun seq_start :: "u8 list \<Rightarrow> nat \<Rightarrow> nat option" where
  "seq_start buf 0 = Some 0"
| "seq_start buf (Suc i) = (case char_at buf (Suc i) of None \<Rightarrow> None | Some c \<Rightarrow> if 0x80 \<le> c \<and> c \<le> 0xBF then seq_start buf i else Some (Suc i))"

definition echo :: "u8 list \<Rightarrow> cli_task \<Rightarrow> cli_task" where
  "echo bs t = t\<lparr>cli := write_console bs (cli t)\<rparr>"

definition backspace :: "cli_task \<Rightarrow> cli_task option" where
  "backspace t =
     (if 0 < cInputIndex t
      then
       do {
         i \<leftarrow> seq_start (cInputString t) (cInputIndex t - 1);
         c \<leftarrow> char_at (cInputString t) i;
         let buf = take i (cInputString t) @ replicate (cInputIndex t - i) 0 @ drop (cInputIndex t) (cInputString t);
         Some (echo (concat (replicate (utf8_char_display_width c) [8, 32, 8])) (t\<lparr>cInputString := buf, cInputIndex := i\<rparr>))
       }
      else Some t)"

definition QCLI_Task_key :: "cli_env \<Rightarrow> u8 \<Rightarrow> cli_task \<Rightarrow> cli_task option" where
  "QCLI_Task_key env key t =
     (if key = 13
      then
       do {
         let t = echo END_OF_LINE t;
         buf \<leftarrow> put_char (cInputString t) (cInputIndex t) key;
         s \<leftarrow> QCLI_Process_Input_Data env (take (cInputIndex t + 1) buf) (cli t);
         Some \<lparr>cInputString = replicate (cmdMAX_INPUT_SIZE + 1) 0, cInputIndex = 0, cli = s\<rparr>
       }
      else if key = 127 \<or> key = 8 then backspace t
      else if (0x20 \<le> key \<and> key \<le> 0x7E) \<or> 0x80 \<le> key
      then
       (if cInputIndex t < cmdMAX_INPUT_SIZE
        then
         do {
           buf \<leftarrow> put_char (cInputString t) (cInputIndex t) key;
           Some (echo [key] (t\<lparr>cInputString := buf, cInputIndex := cInputIndex t + 1\<rparr>))
         }
        else Some t)
      else Some t)"

text \<open>The task for keys of the RTT viewer, a build option; it shows the line on the debugger's channel, which is left out.\<close>

definition QCLI_RTT_CLI_Task_key :: "cli_env \<Rightarrow> u8 \<Rightarrow> cli_task \<Rightarrow> cli_task option" where
  "QCLI_RTT_CLI_Task_key env key t =
     (if key = 13
      then
       (if 0 < cInputIndex t
        then
         do {
           buf \<leftarrow> put_char (cInputString t) (cInputIndex t) key;
           s \<leftarrow> QCLI_Process_Input_Data env (take (cInputIndex t + 1) buf) (cli t);
           Some \<lparr>cInputString = replicate (cmdMAX_INPUT_SIZE + 1) 0, cInputIndex = 0, cli = s\<rparr>
         }
        else Some t)
      else if (0x20 \<le> key \<and> key \<le> 0x7E) \<or> 0x80 \<le> key
      then
       (if cInputIndex t < cmdMAX_INPUT_SIZE
        then
         do {
           buf \<leftarrow> put_char (cInputString t) (cInputIndex t) key;
           Some (t\<lparr>cInputString := buf, cInputIndex := cInputIndex t + 1\<rparr>)
         }
        else Some t)
      else Some t)"

end
