(* ===== verification/QcliSafe.thy ===== *)
theory QcliSafe
  imports QcliConsole
begin

text \<open>
  Safety of the console: from the initial state, under any input, the console keeps its invariant and every operation returns.
  So no access leaves the input buffer, follows a freed or NULL group entry, or runs in a loop without end.
\<close>

section \<open>Output changes only the output\<close>

definition quiet :: "qcli \<Rightarrow> qcli" where
  "quiet s = s\<lparr>Current_Printf_Group := None, Printf_New_Line := False, console := []\<rparr>"

definition output_only :: "qcli \<Rightarrow> qcli \<Rightarrow> bool" where
  "output_only s t \<longleftrightarrow> quiet t = quiet s"

named_theorems outputs

lemma output_trans [trans]: "output_only s t \<Longrightarrow> output_only t u \<Longrightarrow> output_only s u"
  by (simp add: output_only_def)

lemma quiet_write [simp]: "quiet (write_console bs s) = quiet s"
  by (simp add: quiet_def write_console_def)

lemma quiet_flags [simp]: "quiet (s\<lparr>Printf_New_Line := n\<rparr>) = quiet s" "quiet (s\<lparr>Current_Printf_Group := g\<rparr>) = quiet s"
  by (simp_all add: quiet_def)

lemma quiet_printf [simp]: "quiet (printf_main str s) = quiet s"
  by (simp add: printf_main_def print_buffer_def change_group_def Let_def)

lemma quiet_print_all [simp]: "quiet (print_all strs s) = quiet s"
  by (induction strs arbitrary: s) (simp_all add: print_all_def)

lemma output_refl [outputs, simp]: "output_only s s"
  by (simp add: output_only_def)

lemma output_write [outputs]: "output_only s (write_console bs s)"
  by (simp add: output_only_def)

lemma output_printf [outputs]: "output_only s (printf_main str s)"
  by (simp add: output_only_def)

lemma output_print_all [outputs]: "output_only s (print_all strs s)"
  by (simp add: output_only_def)

lemma output_usage [outputs]: "output_only s (Display_Usage i c s)"
  by (simp add: Display_Usage_def outputs)

lemma output_same:
  assumes "output_only s t"
  shows "heap t = heap s" "Current_Group t = Current_Group s" "Executing_Group t = Executing_Group s" "Input_Length t = Input_Length s"
    "Input_String t = Input_String s" "Thread_Count t = Thread_Count s" "threads t = threads s"
proof -
  have q: "quiet t = quiet s" using assms by (simp add: output_only_def)
  have "\<And>s. heap (quiet s) = heap s" "\<And>s. Current_Group (quiet s) = Current_Group s" "\<And>s. Executing_Group (quiet s) = Executing_Group s"
    "\<And>s. Input_Length (quiet s) = Input_Length s" "\<And>s. Input_String (quiet s) = Input_String s" "\<And>s. Thread_Count (quiet s) = Thread_Count s"
    "\<And>s. threads (quiet s) = threads s" by (simp_all add: quiet_def)
  then show "heap t = heap s" "Current_Group t = Current_Group s" "Executing_Group t = Executing_Group s" "Input_Length t = Input_Length s"
    "Input_String t = Input_String s" "Thread_Count t = Thread_Count s" "threads t = threads s" using q by metis+
qed

section \<open>The menu can be shown\<close>

lemma group_name_step:
  assumes "heap s g = Some e" and "Parent_Group e = Some p" and "heap s p = Some pe" and "Command_Group e = Some cg"
    and "Parent_Group pe \<noteq> None \<Longrightarrow> \<exists>t. Display_Group_Name p s = Some t \<and> output_only s t"
  shows "\<exists>t. Display_Group_Name g s = Some t \<and> output_only s t"
proof (cases "Parent_Group pe = None")
  case True
  then show ?thesis using assms by (subst Display_Group_Name.simps) (simp add: outputs)
next
  case False
  with assms(5) obtain t where "Display_Group_Name p s = Some t" "output_only s t" by blast
  then show ?thesis using assms False by (subst Display_Group_Name.simps) (auto intro: output_trans [OF _ output_trans [OF output_printf output_printf]])
qed

lemma group_name_forest:
  assumes "forest_at (heap s) (Some p) q ts" and "all_named ts" and "heap s p = Some pe"
    and "Parent_Group pe \<noteq> None \<Longrightarrow> \<exists>t. Display_Group_Name p s = Some t \<and> output_only s t" and "g \<in> set (forest_ptrs ts)"
  shows "\<exists>t. Display_Group_Name g s = Some t \<and> output_only s t"
  using assms
proof (induction ts arbitrary: p pe q rule: forest_ptrs.induct)
  case (2 r cg us ts)
  from 2(3,4) obtain e c where e: "heap s r = Some e" "Parent_Group e = Some p" "Command_Group e = Some c" "forest_at (heap s) (Some r) (Subgroup_List e) us"
    "forest_at (heap s) (Some p) (Next e) ts" "all_named us" "all_named ts" by (auto split: option.splits)
  have r: "\<exists>t. Display_Group_Name r s = Some t \<and> output_only s t" by (rule group_name_step [OF e(1,2) 2(5) e(3)]) (use 2(6) in blast)
  consider "g = r" | (below) "g \<in> set (forest_ptrs us)" | (beside) "g \<in> set (forest_ptrs ts)" using 2(7) by auto
  then show ?case
  proof cases
    case below
    then show ?thesis using 2(1) [OF e(4,6,1)] r by blast
  next
    case beside
    then show ?thesis using 2(2) [OF e(5,7) 2(5,6)] by blast
  qed (use r in simp)
qed simp

lemma group_name_menu:
  assumes "menu_at (heap s) ts" and "heap s g = Some e" and "Parent_Group e \<noteq> None"
  shows "\<exists>t. Display_Group_Name g s = Some t \<and> output_only s t"
proof -
  obtain cg us where ts: "ts = [Node 0 cg us]" "all_named us" "forest_at (heap s) None (Some 0) ts" "dom (heap s) = set (forest_ptrs ts)"
    using assms(1) by (auto simp: menu_at_def)
  then obtain re where re: "heap s 0 = Some re" "Parent_Group re = None" "forest_at (heap s) (Some 0) (Subgroup_List re) us" by (auto split: option.splits)
  have "g \<noteq> 0" using re(1,2) assms(2,3) by (cases "g = 0") auto
  then have "g \<in> set (forest_ptrs us)" using domI [of "heap s" g, OF assms(2)] ts(1,4) by auto
  then show ?thesis using group_name_forest [OF re(3) ts(2) re(1)] re(2) by simp
qed

lemma list_subgroups_forest:
  assumes "forest_at (heap s) par q us" and "all_named us"
  shows "\<exists>t. list_subgroups q n s = Some t \<and> output_only s t"
  using assms
proof (induction us arbitrary: q n s)
  case Nil
  then show ?case by (subst list_subgroups.simps) (simp add: outputs)
next
  case (Cons t us)
  obtain p cg vs where t: "t = Node p (Some cg) vs" using Cons.prems(2) by (cases t) auto
  from Cons.prems obtain e where e: "q = Some p" "heap s p = Some e" "Command_Group e = Some cg" "forest_at (heap s) par (Next e) us"
    by (auto simp: t split: option.splits)
  let ?s = "printf_main (menu_line n (Group_String cg)) s"
  have "\<exists>t. list_subgroups (Next e) (n + 1) ?s = Some t \<and> output_only ?s t"
    using Cons.IH [of ?s "Next e" "n + 1"] e(4) Cons.prems(2) output_same(1) [OF output_printf] by (simp add: t)
  then show ?case using e by (subst list_subgroups.simps) (auto intro: output_trans [OF output_printf])
qed

lemma output_list_commands [outputs]: "output_only s (list_commands cs n s)"
  by (simp add: list_commands_def outputs)

lemma output_entries [outputs]: "output_only s (list_entries e s)"
  by (simp add: list_entries_def Let_def list_commands_def output_only_def)

lemma list_title_menu:
  assumes "menu_at (heap s) ts" and "heap s g = Some e"
  shows "\<exists>t. list_title g e s = Some t \<and> output_only s t"
proof (cases "Parent_Group e = None")
  case False
  let ?s1 = "print_all [[CHR_newline], ascii ''Command List''] s"
  let ?s = "printf_main (ascii '' ('') ?s1"
  have q: "output_only s ?s" using output_print_all output_printf output_trans by blast
  then obtain t where "Display_Group_Name g ?s = Some t" "output_only ?s t"
    using group_name_menu [of ?s ts g e] assms False output_same(1) by auto
  then show ?thesis using False q by (auto simp: list_title_def Let_def intro: output_trans output_printf)
qed (simp add: list_title_def outputs Let_def)

lemma display_list_menu:
  assumes "menu_at (heap s) ts" and "g \<in> dom (heap s)"
  shows "\<exists>t. Display_Command_List g s = Some t \<and> output_only s t"
proof -
  obtain e where e: "heap s g = Some e" "forest_at (heap s) (Some g) (Subgroup_List e) (kids g ts)" "all_named (kids g ts)" using menu_entry [OF assms] .
  obtain s1 where s1: "list_title g e s = Some s1" "output_only s s1"
    using list_title_menu [OF assms(1) e(1)] by blast
  let ?s2 = "list_entries e s1"
  let ?s3 = "print_all [[CHR_newline], ascii ''  Subgroups:'' @ [CHR_newline]] ?s2"
  have s2: "output_only s ?s2" using s1(2) output_entries output_trans by blast
  have s3: "output_only s ?s3" using s2 output_print_all output_trans by blast
  then have "forest_at (heap ?s3) (Some g) (Subgroup_List e) (kids g ts)" using e(2) output_same(1) by simp
  from list_subgroups_forest [OF this e(3)] obtain t where
    t: "list_subgroups (Subgroup_List e) (2 + length (common_commands e) + length (group_commands e)) ?s3 = Some t" "output_only ?s3 t" by blast
  have "output_only s t" using s3 t(2) output_trans by blast
  then show ?thesis using e(1) s1(1) s2 t(1) by (auto simp: Display_Command_List_def Let_def intro: output_trans [OF _ output_printf])
qed

lemma prompt_menu:
  assumes "menu_at (heap s) ts" and "Current_Group s \<in> dom (heap s)"
  shows "\<exists>t. QCLI_Display_Prompt s = Some t \<and> output_only s t"
proof -
  let ?s = "printf_main [CHR_newline] s"
  obtain e where e: "heap s (Current_Group s) = Some e" using assms(2) by blast
  have same: "heap ?s = heap s" "Current_Group ?s = Current_Group s" using output_same [OF output_printf] by simp_all
  obtain t where t: "(if Parent_Group e \<noteq> None then Display_Group_Name (Current_Group s) ?s else Some ?s) = Some t" "output_only s t"
    using group_name_menu [of ?s ts "Current_Group s" e] assms(1) e same output_trans [OF output_printf] output_printf by (cases "Parent_Group e = None") auto
  define u where "u = printf_main (ascii ''>'' @ [13, CHR_newline] @ ascii ''>'') t"
  have "output_only s u" using t(2) output_printf output_trans by (simp add: u_def)
  moreover have "QCLI_Display_Prompt s = Some (if Input_Length u \<noteq> 0 then write_console (take (Input_Length u) (Input_String u)) u else u)"
    using e same t(1) unfolding QCLI_Display_Prompt_def u_def Let_def by (cases "Parent_Group e") simp_all
  ultimately show ?thesis using output_trans [OF _ output_write] by simp
qed

section \<open>Searching the menu\<close>

definition found_in :: "group_heap \<Rightarrow> find_result option \<Rightarrow> bool" where
  "found_in h r \<longleftrightarrow> (\<forall>g. r = Some (Found_Group g) \<longrightarrow> g \<in> dom h)"

lemma found_in_simps [simp]: "found_in h None" "found_in h (Some (Found_Command c))" "found_in h (Some (Found_Group g)) \<longleftrightarrow> g \<in> dom h"
  by (auto simp: found_in_def)

lemma kids_dom:
  assumes "menu_at h ts" and "i < length (kids g ts)"
  shows "root_ptr (kids g ts ! i) \<in> dom h"
proof -
  have "root_ptr (kids g ts ! i) \<in> set (forest_ptrs (kids g ts))" using root_ptrs_subset [of "kids g ts"] assms(2) by auto
  then show ?thesis using kids_subset [of g ts] assms(1) by (auto simp: menu_at_def)
qed

lemma menu_items_found:
  assumes "menu_at h ts" and "it \<in> set (menu_items h ts g)"
  shows "found_in h (Some it)"
proof -
  have "root_ptr t \<in> dom h" if "t \<in> set (kids g ts)" for t using kids_dom [OF assms(1), of _ g] that by (auto simp: in_set_conv_nth)
  then show ?thesis using assms(2) by (auto simp: menu_items_def split: option.splits)
qed

lemma find_by_string_menu:
  assumes "menu_at h ts" and "g \<in> dom h"
  shows "\<exists>r. Find_Command_By_String h g str = Some r \<and> found_in h (map_option fst r)"
  using by_string_is_first_match [OF assms refl, of str] menu_items_found [OF assms(1), of _ g] by simp

lemma find_by_index_menu:
  assumes "menu_at h ts" and "g \<in> dom h"
  shows "\<exists>r. Find_Command_By_Index h g i = Some r \<and> found_in h r"
proof -
  obtain e where "h g = Some e" "forest_at h (Some g) (Subgroup_List e) (kids g ts)" using menu_entry [OF assms] by metis
  then show ?thesis using kids_dom [OF assms(1), of _ g]
    by (auto simp: Find_Command_By_Index_def Let_def subgroup_by_index_forest)
qed

lemma find_menu:
  assumes "menu_at h ts" and "g \<in> dom h"
  obtains r p' where "Find_Command h g str p = Some (r, p')" and "found_in h r" and "String_Value p' = String_Value p"
proof (cases "Integer_Is_Valid p")
  case True
  then show ?thesis using find_by_index_menu [OF assms, of "Integer_Value p"] that by (auto simp: Find_Command_def)
next
  case False
  obtain r where r: "Find_Command_By_String h g str = Some r" "found_in h (map_option fst r)" using find_by_string_menu [OF assms] by blast
  show ?thesis
  proof (cases r)
    case None
    then show ?thesis using that [of None p] False r by (simp add: Find_Command_def)
  next
    case (Some fi)
    then show ?thesis using that [of "Some (fst fi)"] False r by (cases fi) (simp add: Find_Command_def)
  qed
qed

section \<open>The invariant\<close>

definition params_in :: "u8 list \<Rightarrow> QAPI_Console_Parameter list \<Rightarrow> bool" where
  "params_in buf ps \<longleftrightarrow> terminated buf \<and> list_all (\<lambda>p. String_Value p < length buf) ps"

definition thread_ok :: "background \<Rightarrow> bool" where
  "thread_ok t \<longleftrightarrow> length (th_input t) = QCLI_MAXIMUM_QCLI_COMMAND_STRING_LENGTH + 1 \<and> params_in (th_input t) (th_parameters t) \<and>
     length (th_parameters t) \<le> QCLI_MAXIMUM_NUMBER_OF_PARAMETERS"

definition console_inv :: "qcli \<Rightarrow> bool" where
  "console_inv s \<longleftrightarrow> (\<exists>ts. menu_at (heap s) ts) \<and> Current_Group s \<in> dom (heap s) \<and>
     length (Input_String s) = QCLI_MAXIMUM_QCLI_COMMAND_STRING_LENGTH + 1 \<and> terminated (Input_String s) \<and>
     Input_Length s \<le> QCLI_MAXIMUM_QCLI_COMMAND_STRING_LENGTH \<and>
     length (threads s) \<le> 5 \<and> Thread_Count s = of_nat (length (threads s)) \<and> list_all thread_ok (threads s)"

text \<open>What the console relies on from the functions of its commands.\<close>

definition good_env :: "cli_env \<Rightarrow> bool" where
  "good_env env \<longleftrightarrow> (\<forall>n buf ps s. console_inv s \<longrightarrow> params_in buf ps \<longrightarrow>
     (\<exists>r t. user_command env n buf ps s = Some (r, t) \<and> console_inv t \<and> threads t = threads s))"

lemma inv_output: "console_inv s \<Longrightarrow> output_only s t \<Longrightarrow> console_inv t"
  using output_same [of s t] by (simp add: console_inv_def)

lemma inv_current: "console_inv s \<Longrightarrow> g \<in> dom (heap s) \<Longrightarrow> console_inv (s\<lparr>Current_Group := g\<rparr>)"
  by (simp add: console_inv_def)

lemma inv_executing [simp]: "console_inv (s\<lparr>Executing_Group := g\<rparr>) = console_inv s"
  by (simp add: console_inv_def)

lemma inv_menu:
  assumes "console_inv s"
  obtains ts where "menu_at (heap s) ts" and "Current_Group s \<in> dom (heap s)"
  using assms by (auto simp: console_inv_def)

lemma params_in_Cons [simp]: "params_in buf (p # ps) \<longleftrightarrow> String_Value p < length buf \<and> params_in buf ps"
  by (auto simp: params_in_def)

lemma params_in_string: "params_in buf (p # ps) \<Longrightarrow> \<exists>w. c_string buf (String_Value p) = Some w"
  by (simp add: params_in_def terminated_string)

lemma params_in_append: "params_in buf (ps @ qs) \<longleftrightarrow> params_in buf ps \<and> params_in buf qs"
  by (auto simp: params_in_def)

lemma string_list_safe: "params_in buf ps \<Longrightarrow> \<exists>ws. string_list buf ps = Some ws \<and> length ws = length ps"
proof (induction ps)
  case (Cons p ps)
  then show ?case using params_in_string [of buf p ps] by fastforce
qed simp

lemma not_found_safe:
  assumes "params_in buf ps" and "ps \<noteq> []"
  shows "\<exists>t. print_not_found buf ps s = Some t \<and> output_only s t"
proof -
  obtain ws where ws: "string_list buf ps = Some ws" "length ws = length ps" using string_list_safe [OF assms(1)] by blast
  then obtain w vs where "ws = w # vs" using assms(2) by (cases ws) auto
  then show ?thesis using ws(1) by (simp add: print_not_found_def outputs)
qed

lemma help_safe:
  assumes "menu_at (heap s) ts" and "g \<in> dom (heap s)" and "params_in buf ps"
  shows "\<exists>n t. Display_Help buf g ps s = Some (n, t) \<and> output_only s t \<and> n \<le> length ps"
  using assms
proof (induction buf g ps s rule: Display_Help.induct)
  case (1 buf g s)
  then show ?case using display_list_menu by fastforce
next
  case (2 buf g p ps s)
  obtain w where w: "c_string buf (String_Value p) = Some w" using params_in_string [OF 2(4)] by blast
  obtain r p' where f: "Find_Command (heap s) g w p = Some (r, p')" "found_in (heap s) r" using find_menu [OF 2(2,3)] by metis
  show ?case
  proof (cases r)
    case None
    then show ?thesis using w f by simp
  next
    case (Some it)
    show ?thesis
    proof (cases it)
      case (Found_Command c)
      then show ?thesis using w f Some by (auto simp: outputs neq_Nil_conv)
    next
      case (Found_Group g')
      have "\<exists>n t. Display_Help buf g' ps s = Some (n, t) \<and> output_only s t \<and> n \<le> length ps"
        using 2(1) [OF w f(1) refl Some Found_Group] 2(2,4) f(2) Some Found_Group by simp
      then show ?thesis using w f Some Found_Group by auto
    qed
  qed
qed

lemma command_help_safe:
  assumes "menu_at (heap s) ts" and "Executing_Group s \<in> dom (heap s)" and "params_in buf ps"
  shows "\<exists>r t. Command_Help_fn buf ps s = Some (r, t) \<and> output_only s t"
proof -
  obtain n t where h: "Display_Help buf (Executing_Group s) ps s = Some (n, t)" "output_only s t" "n \<le> length ps" using help_safe [OF assms] by blast
  show ?thesis
  proof (cases "n = 0")
    case False
    have "params_in buf (take n ps)" "take n ps \<noteq> []" using assms(3) h(3) False by (auto simp: params_in_def list_all_length)
    then obtain u where "print_not_found buf (take n ps) t = Some u" "output_only t u" using not_found_safe by blast
    then show ?thesis using h False output_trans by (auto simp: Command_Help_fn_def)
  qed (use h in \<open>simp add: Command_Help_fn_def\<close>)
qed

lemma forest_parent:
  assumes "forest_at h par q ts" and "g \<in> set (forest_ptrs ts)" and "h g = Some e"
  shows "Parent_Group e = par \<or> (\<exists>p \<in> set (forest_ptrs ts). Parent_Group e = Some p)"
  using assms by (induction h par q ts rule: forest_at.induct) (fastforce split: option.splits)+

lemma menu_parent:
  assumes "menu_at h ts" and "h g = Some e" and "Parent_Group e = Some p"
  shows "p \<in> dom h"
  using assms forest_parent [of h None "Some 0" ts g e] domI [of h g, OF assms(2)] by (auto simp: menu_at_def)

lemma move_to_safe:
  assumes "console_inv s" and "\<And>e. heap s (Current_Group s) = Some e \<Longrightarrow> Parent_Group e \<noteq> None \<Longrightarrow> \<exists>p \<in> dom (heap s). target e = Some p"
  shows "\<exists>r t. move_to target s = Some (r, t) \<and> console_inv t \<and> threads t = threads s"
proof -
  obtain ts where ts: "menu_at (heap s) ts" "Current_Group s \<in> dom (heap s)" using inv_menu [OF assms(1)] .
  then obtain e where e: "heap s (Current_Group s) = Some e" by blast
  show ?thesis
  proof (cases "Parent_Group e")
    case (Some p0)
    then obtain p where p: "target e = Some p" "p \<in> dom (heap s)" using assms(2) [OF e] by auto
    let ?s = "s\<lparr>Current_Group := p\<rparr>"
    obtain t where t: "Display_Command_List p ?s = Some t" "output_only ?s t" using display_list_menu [of ?s ts p] ts(1) p(2) by auto
    then show ?thesis using e Some p inv_output [OF inv_current [OF assms(1) p(2)] t(2)] output_same(7) [OF t(2)] by (simp add: move_to_def)
  qed (use e assms(1) in \<open>simp add: move_to_def\<close>)
qed

lemma call_command_safe:
  assumes "good_env env" and "console_inv s" and "params_in buf ps" and "Command_Function c = Command_Help \<Longrightarrow> Executing_Group s \<in> dom (heap s)"
  shows "\<exists>r t. call_command env c buf ps s = Some (r, t) \<and> console_inv t \<and> threads t = threads s"
proof -
  obtain ts where ts: "menu_at (heap s) ts" using inv_menu [OF assms(2)] .
  show ?thesis
  proof (cases "Command_Function c")
    case Command_Help
    then show ?thesis using command_help_safe [OF ts _ assms(3)] assms(4) inv_output [OF assms(2)] output_same(7) by (fastforce simp: call_command_def)
  next
    case Command_Up
    have "\<exists>r t. move_to Parent_Group s = Some (r, t) \<and> console_inv t \<and> threads t = threads s"
      by (rule move_to_safe [OF assms(2)]) (use menu_parent [OF ts] in fastforce)
    then show ?thesis by (simp add: call_command_def Command_Up_fn_def Command_Up)
  next
    case Command_Root
    have "0 \<in> dom (heap s)" using ts by (auto simp: menu_at_def)
    then have "\<exists>r t. move_to (\<lambda>_. Some 0) s = Some (r, t) \<and> console_inv t \<and> threads t = threads s" by (intro move_to_safe [OF assms(2)]) simp
    then show ?thesis by (simp add: call_command_def Command_Root_fn_def Command_Root)
  next
    case (User n)
    then show ?thesis using assms(1-3) by (simp add: call_command_def good_env_def)
  qed
qed

section \<open>Every operation keeps it\<close>

lemma command_thread_safe:
  assumes "good_env env" and "console_inv s" and "k < length (threads s)"
    and "Command_Function (th_command (threads s ! k)) = Command_Help \<Longrightarrow> Executing_Group s \<in> dom (heap s)"
  shows "\<exists>t. Command_Thread env k s = Some t \<and> console_inv t \<and> threads t = take k (threads s) @ drop (Suc k) (threads s)"
proof -
  let ?t = "threads s ! k"
  have "params_in (th_input ?t) (th_parameters ?t)" using assms(2,3) by (simp add: console_inv_def thread_ok_def list_all_length)
  from call_command_safe [OF assms(1,2) this, of "th_command ?t"] assms(4)
  obtain r u where u: "call_command env (th_command ?t) (th_input ?t) (th_parameters ?t) s = Some (r, u)" "console_inv u" "threads u = threads s" by blast
  let ?d = "Display_Usage (th_index ?t) (th_command ?t) u"
  have d: "console_inv ?d" "threads ?d = threads s" using inv_output [OF u(2)] output_same(7) [of u] u(3) by (simp_all add: outputs)
  then obtain v where v: "QCLI_Display_Prompt ?d = Some v" "output_only ?d v" using prompt_menu inv_menu by metis
  have "\<exists>w. (if is_usage r then QCLI_Display_Prompt ?d else Some u) = Some w \<and> console_inv w \<and> threads w = threads s"
    using u v inv_output [OF d(1) v(2)] output_same(7) [OF v(2)] d by simp
  then obtain w where w: "(if is_usage r then QCLI_Display_Prompt ?d else Some u) = Some w" "console_inv w" "threads w = threads s" by blast
  let ?x = "w\<lparr>Thread_Count := Thread_Count w - 1, threads := take k (threads w) @ drop (Suc k) (threads w)\<rparr>"
  have "Command_Thread env k s = Some ?x" using u(1) w(1) by (simp add: Command_Thread_def Let_def)
  moreover have "of_nat (length (threads s)) - 1 = (of_nat (length (threads s) - 1) :: u8)" using assms(3) by (simp add: of_nat_diff)
  then have "console_inv ?x" using w(2,3) assms(3) unfolding console_inv_def
    by (auto simp: list_all_length min_def nth_append)
  ultimately show ?thesis using w(3) by simp
qed

lemma thread_count_sint: "console_inv s \<Longrightarrow> sint (Thread_Count s) = int (length (threads s))"
  by (simp add: console_inv_def signed_of_nat signed_take_bit_int_eq_self)

lemma execute_safe:
  assumes "good_env env" and "console_inv s" and "params_in (Input_String s) ps" and "length ps \<le> 17" and "Executing_Group s \<in> dom (heap s)"
  shows "\<exists>t. Execute_Command env i c ps s = Some t \<and> console_inv t"
proof (cases "background_param (Input_String s) ps")
  case False
  obtain r t where "call_command env c (Input_String s) ps s = Some (r, t)" "console_inv t" using call_command_safe [OF assms(1-3,5)] by blast
  then show ?thesis using False inv_output [OF _ output_usage] by (simp add: Execute_Command_def)
next
  case bg: True
  show ?thesis
  proof (cases "length (threads s) < 5")
    case False
    then show ?thesis using bg thread_count_sint [OF assms(2)] inv_output [OF assms(2) output_printf] by (simp add: Execute_Command_def)
  next
    case True
    let ?s = "s\<lparr>Thread_Count := Thread_Count s + 1\<rparr>"
    let ?t = "\<lparr>th_input = Input_String s, th_parameters = butlast ps, th_command = c, th_index = i\<rparr>"
    let ?u = "?s\<lparr>threads := threads s @ [?t]\<rparr>"
    have "params_in (Input_String s) (butlast ps)" using assms(3)
      by (auto simp: params_in_def list_all_iff dest: in_set_butlastD)
    then have "console_inv ?u" using assms(2,4) True by (simp add: console_inv_def thread_ok_def)
    moreover have "console_inv ((printf_main str ?s)\<lparr>Thread_Count := Thread_Count (printf_main str ?s) - 1\<rparr>)" for str
      using assms(2) output_same [of ?s "printf_main str ?s"] by (simp add: console_inv_def outputs)
    ultimately show ?thesis
      using bg True thread_count_sint [OF assms(2)] inv_output [OF _ output_printf] by (simp add: Execute_Command_def Let_def)
  qed
qed

lemma search_safe:
  assumes "menu_at (heap s) ts" and "g \<in> dom (heap s)" and "params_in (Input_String s) (passed @ ps)" and "Executing_Group s = g"
  shows "\<exists>r qs rs t. search_loop passed ps g s = Some (r, qs, rs, t) \<and> found_in (heap s) r \<and> params_in (Input_String s) qs \<and>
    params_in (Input_String s) rs \<and> length qs + length rs = length passed + length ps \<and> length passed \<le> length qs \<and>
    (\<exists>x \<in> dom (heap s). t = s\<lparr>Executing_Group := x\<rparr>) \<and> (ps \<noteq> [] \<longrightarrow> length passed < length qs)"
  using assms
proof (induction passed ps g s rule: search_loop.induct)
  case (1 passed g s)
  have "\<exists>x \<in> dom (heap s). s = s\<lparr>Executing_Group := x\<rparr>" using 1(2,4) by (intro bexI [of _ g]) auto
  then show ?case using 1 by (simp add: params_in_append params_in_def)
next
  case (2 passed p ps g s)
  have pin: "params_in (Input_String s) passed" "params_in (Input_String s) (p # ps)" using 2(4) by (simp_all add: params_in_append)
  obtain w where w: "c_string (Input_String s) (String_Value p) = Some w" using params_in_string [OF pin(2)] by blast
  obtain r p' where f: "Find_Command (heap s) g w p = Some (r, p')" "found_in (heap s) r" "String_Value p' = String_Value p"
    using find_menu [OF 2(2,3)] by metis
  have p': "params_in (Input_String s) ((passed @ [p']) @ ps)" using pin f(3) by (simp add: params_in_append)
  show ?case
  proof (cases "\<exists>x. r = Some (Found_Group x)")
    case True
    then obtain x where x: "r = Some (Found_Group x)" "x \<in> dom (heap s)" using f(2) by auto
    show ?thesis using 2(1) [OF w f(1) refl x(1) refl] x 2(2) p' w f(1) by (fastforce simp: params_in_append)
  next
    case False
    have "\<exists>x \<in> dom (heap s). s = s\<lparr>Executing_Group := x\<rparr>" using 2(3,5) by (intro bexI [of _ g]) auto
    moreover have "search_loop passed (p # ps) g s = Some (r, passed @ [p'], ps, s)"
      using w f(1) False by (auto split: option.splits find_result.splits)
    ultimately show ?thesis using f(2) p' by (simp add: params_in_append) (simp add: params_in_def)
  qed
qed

lemma run_line_safe:
  assumes "good_env env" and "console_inv s" and "params_in (Input_String s) ps" and "ps \<noteq> []" and "length ps \<le> 18"
  shows "\<exists>t. run_line env ps s = Some t \<and> console_inv t"
proof -
  obtain ts where ts: "menu_at (heap s) ts" "Current_Group s \<in> dom (heap s)" using inv_menu [OF assms(2)] .
  let ?s = "s\<lparr>Executing_Group := Current_Group s\<rparr>"
  obtain r qs rs x where l: "search_loop [] ps (Current_Group s) ?s = Some (r, qs, rs, s\<lparr>Executing_Group := x\<rparr>)" "found_in (heap s) r"
    "params_in (Input_String s) qs" "params_in (Input_String s) rs" "length qs + length rs = length ps" "x \<in> dom (heap s)" "qs \<noteq> []"
    using search_safe [of ?s ts "Current_Group s" "[]" ps] ts assms(3,4) by fastforce
  let ?t = "s\<lparr>Executing_Group := x\<rparr>"
  consider g where "r = Some (Found_Group g)" | c where "r = Some (Found_Command c)" | "r = None" by (cases r) (metis find_result.exhaust)+
  then show ?thesis
  proof cases
    case 1
    then show ?thesis using l inv_current [of ?t] assms(2) by (simp add: run_line_def)
  next
    case (2 c)
    have "length rs \<le> 17" using l(5,7) assms(5) by (cases qs) auto
    then obtain t where "Execute_Command env (Integer_Value (last qs)) c rs ?t = Some t" "console_inv t"
      using execute_safe [OF assms(1), of ?t rs] assms(2) l(4,6) by auto
    then show ?thesis using l(1) 2 by (simp add: run_line_def)
  next
    case 3
    obtain t where "print_not_found (Input_String s) qs ?t = Some t" "output_only ?t t" using not_found_safe [OF l(3,7)] by blast
    then show ?thesis using l(1) 3 inv_output [of ?t t] assms(2) by (simp add: run_line_def)
  qed
qed

lemma process_command_safe:
  assumes "good_env env" and "console_inv s"
  shows "\<exists>t. Process_Command env s = Some t \<and> console_inv t"
proof -
  have inv: "length (Input_String s) = 257" "terminated (Input_String s)" "Input_Length s \<le> 256" using assms(2) by (simp_all add: console_inv_def)
  then have "parse_ok (parse_start (Input_String s) (Input_Length s))" by (simp add: parse_ok_def parse_start_def)
  from parse_loop_safe [OF this] obtain st where st: "parse_loop (parse_start (Input_String s) (Input_Length s)) = Some st" "parse_ok st"
    "length (p_buf st) = 257" using inv by (auto simp: parse_start_def)
  define s1 where "s1 = s\<lparr>Input_Length := 0, Input_String := p_buf st, Parameter_List := p_params st\<rparr>"
  define s2 where "s2 = (case p_message st of None \<Rightarrow> s1 | Some m \<Rightarrow> printf_main m s1)"
  define s3 where "s3 = (if p_inside st then printf_main ([CHR_quote] @ ascii '' not terminated'' @ [CHR_newline]) s2 else s2)"
  have "console_inv s1" using assms(2) st(2,3) by (simp add: console_inv_def s1_def parse_ok_def)
  moreover have o: "output_only s1 s3" by (simp add: output_only_def s3_def s2_def split: option.splits)
  ultimately have s3: "console_inv s3" by (rule inv_output)
  have p: "params_in (Input_String s3) (p_params st)" "length (p_params st) \<le> 18"
    using st(2,3) output_same(5) [OF o] by (simp_all add: params_in_def parse_ok_def s1_def)
  have "Process_Command env s = (if p_ok st \<and> \<not> p_inside st \<and> p_params st \<noteq> [] then run_line env (p_params st) s3 else Some s3)"
    unfolding Process_Command_def s3_def s2_def s1_def Let_def using st(1) by simp
  then show ?thesis using run_line_safe [OF assms(1) s3 p(1) _ p(2)] s3 by simp
qed

lemma inv_cleared:
  assumes "console_inv s"
  shows "console_inv (s\<lparr>Input_Length := 0, Input_String := replicate 257 0\<rparr>)"
proof -
  have "terminated (replicate 257 0)" by (simp add: terminated_def)
  then show ?thesis using assms unfolding console_inv_def by simp
qed

lemma inv_stored:
  assumes "console_inv s" and "Input_Length s < 256"
  shows "console_inv (s\<lparr>Input_String := (Input_String s)[Input_Length s := c], Input_Length := Suc (Input_Length s)\<rparr>)"
proof -
  have "terminated ((Input_String s)[Input_Length s := c])" using assms by (auto simp: console_inv_def terminated_def last_list_update)
  then show ?thesis using assms by (simp add: console_inv_def)
qed

lemma input_char_safe:
  assumes "good_env env" and "console_inv s"
  shows "\<exists>t. input_char env c s = Some t \<and> console_inv t"
proof (cases "c = 13")
  case True
  obtain t where t: "Process_Command env s = Some t" "console_inv t" using process_command_safe [OF assms] by blast
  let ?t = "t\<lparr>Input_Length := 0, Input_String := replicate 257 0\<rparr>"
  note inv = inv_cleared [OF t(2)]
  obtain u where u: "QCLI_Display_Prompt ?t = Some u" "output_only ?t u" using prompt_menu inv_menu [OF inv] by metis
  then show ?thesis using True t(1) inv_output [OF inv u(2)] by (simp add: input_char_def)
next
  case False
  show ?thesis
  proof (cases "Input_Length s < 256")
    case True
    moreover have "length (Input_String s) = 257" using assms(2) by (simp add: console_inv_def)
    ultimately show ?thesis using False inv_stored [OF assms(2), of c] by (simp add: input_char_def put_char_def)
  qed (use False assms in \<open>simp add: input_char_def\<close>)
qed

lemma process_input_safe:
  assumes "good_env env" and "console_inv s"
  shows "\<exists>t. QCLI_Process_Input_Data env data s = Some t \<and> console_inv t"
  using assms(2)
proof (induction "data" arbitrary: s)
  case (Cons c cs)
  then show ?case using input_char_safe [OF assms(1) Cons.prems, of c] by fastforce
qed simp

lemma initialize_inv: "console_inv (QCLI_Initialize cg)"
proof -
  have "menu_at (heap (QCLI_Initialize cg)) [Node 0 cg []]" by (simp add: menu_at_def QCLI_Initialize_def)
  moreover have "terminated (Input_String (QCLI_Initialize cg))" by (simp add: QCLI_Initialize_def terminated_def)
  ultimately show ?thesis unfolding console_inv_def by (auto simp: QCLI_Initialize_def)
qed

lemma register_inv:
  assumes "console_inv s" and "\<And>used new. malloc used = Some new \<Longrightarrow> \<not> used new" and "\<And>p. parent = Some p \<Longrightarrow> p \<in> dom (heap s)"
  shows "\<exists>r t. QCLI_Register_Command_Group malloc parent cg s = Some (r, t) \<and> console_inv t"
proof (cases "cg = None \<or> malloc (\<lambda>p. heap s p \<noteq> None) = None")
  case True
  then show ?thesis using assms(1) by (cases cg) (auto simp: QCLI_Register_Command_Group_def)
next
  case False
  then obtain c new where n: "cg = Some c" "malloc (\<lambda>p. heap s p \<noteq> None) = Some new" by auto
  obtain ts where ts: "menu_at (heap s) ts" using inv_menu [OF assms(1)] .
  have free: "heap s new = None" using assms(2) [OF n(2)] by simp
  have "0 \<in> dom (heap s)" using ts by (auto simp: menu_at_def)
  then have "(case parent of None \<Rightarrow> 0 | Some p \<Rightarrow> p) \<in> dom (heap s)" using assms(3) by (cases parent) auto
  from register_adds [where malloc = malloc and s = s and parent = parent and new = new and cg = c and p = "case parent of None \<Rightarrow> 0 | Some p \<Rightarrow> p",
    OF ts n(2) free refl this] obtain h' ts' where
    "QCLI_Register_Command_Group malloc parent (Some c) s = Some (Some new, s\<lparr>heap := h'\<rparr>)" "menu_at h' ts'" "dom h' = insert new (dom (heap s))" by metis
  then show ?thesis using n(1) assms(1) by (auto simp: console_inv_def)
qed

lemma unregister_inv:
  assumes "console_inv s" and "g \<in> dom (heap s)" and "g \<noteq> Root_Group"
  shows "\<exists>t. QCLI_Unregister_Command_Group (Some g) s = Some t \<and> console_inv t \<and>
    heap t g = None \<and> Executing_Group t = Executing_Group s \<and> threads t = threads s"
proof -
  obtain ts where ts: "menu_at (heap s) ts" "Current_Group s \<in> dom (heap s)" using inv_menu [OF assms(1)] .
  obtain p W h' where u: "p \<in> dom (heap s)" "W = insert g (set (forest_ptrs (kids g ts)))"
    "Unregister_Command_Group g s = Some (Current_Group s \<in> W, s\<lparr>heap := h', Current_Group := if Current_Group s \<in> W then p else Current_Group s\<rparr>)"
    "menu_at h' (remove_group g ts)" "dom h' = dom (heap s) - W" "p \<notin> W"
    using unregister_removes [OF ts(1) assms(2,3)] by metis
  let ?t = "s\<lparr>heap := h', Current_Group := if Current_Group s \<in> W then p else Current_Group s\<rparr>"
  have t: "console_inv ?t" using assms(1) u(1,4-6) ts(2) by (auto simp: console_inv_def)
  obtain v where v: "QCLI_Display_Prompt ?t = Some v" "output_only ?t v" using prompt_menu inv_menu [OF t] by metis
  have g: "h' g = None" using u(2,5) by (auto simp: domIff)
  show ?thesis
  proof (cases "Current_Group s \<in> W")
    case True
    then show ?thesis using u(3) v(1) inv_output [OF t v(2)] output_same [OF v(2)] g by (simp add: QCLI_Unregister_Command_Group_def)
  next
    case False
    then show ?thesis using u(3) t g by (simp add: QCLI_Unregister_Command_Group_def)
  qed
qed

section \<open>The line editor\<close>

definition task_inv :: "cli_task \<Rightarrow> bool" where
  "task_inv t \<longleftrightarrow> length (cInputString t) = cmdMAX_INPUT_SIZE + 1 \<and> cInputIndex t \<le> cmdMAX_INPUT_SIZE \<and> console_inv (cli t)"

lemma echo_inv: "task_inv (echo bs t) = task_inv t"
proof -
  have "output_only (cli t) (write_console bs (cli t))" by (rule output_write)
  from output_same [OF this] show ?thesis by (simp add: task_inv_def echo_def console_inv_def)
qed

lemma seq_start_safe: "i < length buf \<Longrightarrow> \<exists>j. seq_start buf i = Some j \<and> j \<le> i"
proof (induction i)
  case (Suc i)
  then show ?case by (auto simp: char_at_def)
qed simp

lemma backspace_safe:
  assumes "task_inv t"
  shows "\<exists>u. backspace t = Some u \<and> task_inv u"
proof (cases "0 < cInputIndex t")
  case True
  have l: "length (cInputString t) = 501" "cInputIndex t \<le> 500" using assms by (simp_all add: task_inv_def)
  then have "cInputIndex t - 1 < length (cInputString t)" by linarith
  then obtain i where i: "seq_start (cInputString t) (cInputIndex t - 1) = Some i" "i \<le> cInputIndex t - 1"
    using seq_start_safe by blast
  let ?u = "t\<lparr>cInputString := take i (cInputString t) @ replicate (cInputIndex t - i) 0 @ drop (cInputIndex t) (cInputString t), cInputIndex := i\<rparr>"
  have u: "task_inv ?u" using assms i(2) l True by (auto simp: task_inv_def)
  have "char_at (cInputString t) i = Some (cInputString t ! i)" using i(2) l True by (auto simp: char_at_def)
  with True i(1) have b: "backspace t = Some (echo (concat (replicate (utf8_char_display_width (cInputString t ! i)) [8, 32, 8])) ?u)"
    unfolding backspace_def Let_def by simp
  show ?thesis by (rule exI, rule conjI, rule b, unfold echo_inv, rule u)
qed (use assms in \<open>simp add: backspace_def\<close>)

lemma enter_safe:
  assumes "good_env env" and "task_inv t"
  shows "\<exists>buf s. put_char (cInputString t) (cInputIndex t) 13 = Some buf \<and>
    QCLI_Process_Input_Data env (take (cInputIndex t + 1) buf) (cli t) = Some s \<and>
    task_inv \<lparr>cInputString = replicate 501 0, cInputIndex = 0, cli = s\<rparr>"
proof -
  let ?buf = "(cInputString t)[cInputIndex t := 13]"
  obtain s where "QCLI_Process_Input_Data env (take (cInputIndex t + 1) ?buf) (cli t) = Some s" "console_inv s"
    using process_input_safe [OF assms(1)] assms(2) by (metis task_inv_def)
  then show ?thesis using assms(2) by (simp add: put_char_def task_inv_def)
qed

lemma store_safe:
  assumes "task_inv t" and "cInputIndex t < 500"
  shows "\<exists>buf. put_char (cInputString t) (cInputIndex t) key = Some buf \<and>
    task_inv (t\<lparr>cInputString := buf, cInputIndex := Suc (cInputIndex t)\<rparr>)"
  using assms by (simp add: put_char_def task_inv_def)

lemma key_safe:
  assumes "good_env env" and "task_inv t"
  shows "\<exists>u. QCLI_Task_key env key t = Some u \<and> task_inv u"
proof -
  consider "key = 13" | (erase) "key \<noteq> 13" "key = 127 \<or> key = 8" | (other) "key \<noteq> 13" "\<not> (key = 127 \<or> key = 8)" by blast
  then show ?thesis
  proof cases
    case 1
    then show ?thesis using enter_safe [OF assms(1), of "echo END_OF_LINE t"] assms(2) by (auto simp: QCLI_Task_key_def Let_def echo_inv)
  next
    case erase
    then show ?thesis using backspace_safe [OF assms(2)] by (simp add: QCLI_Task_key_def)
  next
    case other
    show ?thesis
    proof (cases "cInputIndex t < 500")
      case True
      from store_safe [OF assms(2) this, of key] other assms(2) show ?thesis by (auto simp: QCLI_Task_key_def echo_inv)
    qed (use other assms(2) in \<open>simp add: QCLI_Task_key_def\<close>)
  qed
qed

lemma rtt_key_safe:
  assumes "good_env env" and "task_inv t"
  shows "\<exists>u. QCLI_RTT_CLI_Task_key env key t = Some u \<and> task_inv u"
proof (cases "key = 13")
  case True
  then show ?thesis using enter_safe [OF assms] assms(2) by (auto simp: QCLI_RTT_CLI_Task_key_def)
next
  case False
  show ?thesis
  proof (cases "cInputIndex t < 500")
    case True
    from store_safe [OF assms(2) this, of key] False assms(2) show ?thesis by (auto simp: QCLI_RTT_CLI_Task_key_def)
  qed (use False assms(2) in \<open>simp add: QCLI_RTT_CLI_Task_key_def\<close>)
qed

section \<open>Any run of the console\<close>

text \<open>
  The steps of the system around the console: keys, the end of background threads, and components that register and remove groups. A thread that
  runs \<open>Help\<close> reads the group of the last command line, so its step asks for that group to be registered still.
\<close>

inductive console_step :: "cli_env \<Rightarrow> ((ptr \<Rightarrow> bool) \<Rightarrow> ptr option) \<Rightarrow> cli_task \<Rightarrow> cli_task \<Rightarrow> bool" for env malloc where
  key: "QCLI_Task_key env k t = Some u \<Longrightarrow> console_step env malloc t u"
| thread: "k < length (threads (cli t)) \<Longrightarrow>
    Command_Function (th_command (threads (cli t) ! k)) = Command_Help \<longrightarrow> Executing_Group (cli t) \<in> dom (heap (cli t)) \<Longrightarrow>
    Command_Thread env k (cli t) = Some s \<Longrightarrow> console_step env malloc t (t\<lparr>cli := s\<rparr>)"
| register: "pred_option (\<lambda>p. p \<in> dom (heap (cli t))) parent \<Longrightarrow>
    QCLI_Register_Command_Group malloc parent cg (cli t) = Some (r, s) \<Longrightarrow> console_step env malloc t (t\<lparr>cli := s\<rparr>)"
| unregister: "g \<in> dom (heap (cli t)) \<Longrightarrow> g \<noteq> Root_Group \<Longrightarrow>
    QCLI_Unregister_Command_Group (Some g) (cli t) = Some s \<Longrightarrow> console_step env malloc t (t\<lparr>cli := s\<rparr>)"

definition task_start :: "QAPI_Console_Command_Group option \<Rightarrow> cli_task" where
  "task_start cg = \<lparr>cInputString = replicate (cmdMAX_INPUT_SIZE + 1) 0, cInputIndex = 0, cli = QCLI_Initialize cg\<rparr>"

definition fresh_malloc :: "((ptr \<Rightarrow> bool) \<Rightarrow> ptr option) \<Rightarrow> bool" where
  "fresh_malloc malloc \<longleftrightarrow> (\<forall>used new. malloc used = Some new \<longrightarrow> \<not> used new)"

lemma task_inv_cli: "task_inv t \<Longrightarrow> console_inv s \<Longrightarrow> task_inv (t\<lparr>cli := s\<rparr>)" "task_inv t \<Longrightarrow> console_inv (cli t)"
  by (simp_all add: task_inv_def)

lemma step_inv:
  assumes "good_env env" and "fresh_malloc malloc" and "console_step env malloc t u" and "task_inv t"
  shows "task_inv u"
  using assms(3)
proof cases
  case (key k)
  then show ?thesis using key_safe [OF assms(1,4), of k] by simp
next
  case (thread k s)
  then show ?thesis using command_thread_safe [OF assms(1) task_inv_cli(2) [OF assms(4)], of k] task_inv_cli(1) [OF assms(4)] by auto
next
  case (register parent cg r s)
  then have "\<And>p. parent = Some p \<Longrightarrow> p \<in> dom (heap (cli t))" by simp
  then have "\<exists>r s. QCLI_Register_Command_Group malloc parent cg (cli t) = Some (r, s) \<and> console_inv s"
    using assms(2) unfolding fresh_malloc_def by (intro register_inv [OF task_inv_cli(2) [OF assms(4)]]) blast+
  then have "console_inv s" using register by simp
  then show ?thesis using register task_inv_cli(1) [OF assms(4)] by simp
next
  case (unregister g s)
  then show ?thesis using unregister_inv [OF task_inv_cli(2) [OF assms(4)], of g] task_inv_cli(1) [OF assms(4)] by auto
qed

lemma start_inv: "task_inv (task_start cg)"
  using initialize_inv by (simp add: task_inv_def task_start_def)

lemma reachable_inv:
  assumes "(console_step env malloc)\<^sup>*\<^sup>* t u" and "task_inv t" and "good_env env" and "fresh_malloc malloc"
  shows "task_inv u"
  using assms(1,2) by (induction rule: rtranclp_induct) (auto intro: step_inv [OF assms(3,4)])

text \<open>
  C4. After any sequence of keys, ended threads, registrations and removals, the console is in a consistent state: the menu is a tree of allocated
  entries, the current group is in it, both input buffers are within their bounds and terminated, and the thread count is the number of threads, at
  most five. In such a state every key returns, so it leaves no buffer, follows no dangling pointer and loops for no input. The
  functions of the commands are assumed to return and to leave a consistent console, the allocator to return free blocks.
\<close>

theorem console_never_faults:
  assumes "good_env env" and "fresh_malloc malloc" and "(console_step env malloc)\<^sup>*\<^sup>* (task_start cg) t"
  shows "task_inv t \<and> (\<exists>u. QCLI_Task_key env k t = Some u \<and> task_inv u)"
  using reachable_inv [OF assms(3) start_inv assms(1,2)] key_safe [OF assms(1)] by blast

definition demo_env :: cli_env where
  "demo_env = \<lparr>user_command = \<lambda>n buf ps s. Some (if ps = [] then 2 else 0, printf_main (ascii ''hello'' @ [CHR_newline]) s),
     thread_create = \<lambda>_. 1, signal_wait = \<lambda>_. True\<rparr>"

lemma demo_env_good: "good_env demo_env"
  using inv_output [OF _ output_printf] output_same(7) [OF output_printf] by (simp add: good_env_def demo_env_def)

definition demo_malloc :: "(ptr \<Rightarrow> bool) \<Rightarrow> ptr option" where
  "demo_malloc used = (if used 5 then None else Some 5)"

lemma demo_malloc_fresh: "fresh_malloc demo_malloc"
  by (simp add: fresh_malloc_def demo_malloc_def)

theorem console_never_faults_witness:
  "\<exists>t. (console_step demo_env demo_malloc)\<^sup>*\<^sup>* (task_start None) t \<and> heap (cli t) 5 \<noteq> None \<and> task_inv t \<and>
    (\<exists>u. QCLI_Task_key demo_env 13 t = Some u \<and> task_inv u)"
proof -
  obtain s where s: "QCLI_Register_Command_Group demo_malloc None (Some (demo_group ''net'' [])) (QCLI_Initialize None) = Some (Some 5, s)" "heap s 5 \<noteq> None"
    by (simp add: QCLI_Register_Command_Group_def QCLI_Initialize_def demo_malloc_def upd_entry_def Let_def)
  let ?t = "(task_start None)\<lparr>cli := s\<rparr>"
  have "console_step demo_env demo_malloc (task_start None) ?t"
    by (rule console_step.register [of _ None "demo_malloc" "Some (demo_group ''net'' [])" "Some 5"]) (simp_all add: task_start_def s)
  then have "(console_step demo_env demo_malloc)\<^sup>*\<^sup>* (task_start None) ?t" by blast
  from console_never_faults [OF demo_env_good demo_malloc_fresh this] this s(2) show ?thesis by (intro exI [of _ ?t]) simp
qed

section \<open>Help in the background\<close>

text \<open>
  C33. A \<open>Help\<close> that runs in the background reads \<open>QCLI_Context.Executing_Group\<close> when its thread gets to it, and removing
  a group does not reset that pointer. When the group of the command line is unregistered before the thread runs, the thread follows a
  freed entry.
\<close>

theorem background_help_reads_freed_group:
  assumes "console_inv s" and "Executing_Group s \<in> dom (heap s)" and "Executing_Group s \<noteq> Root_Group" and "k < length (threads s)"
    and "Command_Function (th_command (threads s ! k)) = Command_Help" and "th_parameters (threads s ! k) = []"
  shows "\<exists>t. QCLI_Unregister_Command_Group (Some (Executing_Group s)) s = Some t \<and> heap t (Executing_Group t) = None \<and> Command_Thread env k t = None"
proof -
  obtain t where t: "QCLI_Unregister_Command_Group (Some (Executing_Group s)) s = Some t" "heap t (Executing_Group s) = None"
    "Executing_Group t = Executing_Group s" "threads t = threads s" using unregister_inv [OF assms(1-3)] by blast
  then have "Command_Thread env k t = None"
    using assms(5,6) by (simp add: Command_Thread_def call_command_def Command_Help_fn_def Display_Command_List_def Let_def)
  then show ?thesis using t by auto
qed

definition demo_help_thread :: qcli where
  "demo_help_thread = demo_console\<lparr>Executing_Group := 1, Thread_Count := 1, threads :=
     [\<lparr>th_input = replicate 257 0, th_parameters = [], th_command = Help_Command, th_index = 1\<rparr>]\<rparr>"

theorem background_help_reads_freed_group_witness:
  "\<exists>t. QCLI_Unregister_Command_Group (Some 1) demo_help_thread = Some t \<and> heap t (Executing_Group t) = None \<and> Command_Thread demo_env 0 t = None"
proof -
  have "terminated (replicate 257 0)" by (simp add: terminated_def)
  moreover have "menu_at (heap demo_help_thread) demo_menu" using demo_menu_at by (simp add: demo_help_thread_def demo_console_def)
  ultimately have "console_inv demo_help_thread"
    unfolding console_inv_def by (auto simp: demo_help_thread_def demo_console_def demo_heap_def thread_ok_def params_in_def)
  from background_help_reads_freed_group [OF this, of 0 demo_env] show ?thesis
    by (simp add: demo_help_thread_def demo_console_def demo_heap_def Help_Command_def)
qed

end
