(* ===== verification/QatParse.thy ===== *)
theory QatParse
  imports QcliParse
begin

text \<open>
  The parser of AT commands, \<open>Process_AT_Extend_Command\<close> of \<open>src/modules/qat/qat.c\<close> up to the execution of the command.

  Like the console's parser it works in place on the input buffer; accesses outside the buffer, and loops that do not end, give
  \<open>None\<close>. Names and parameters are offsets in the buffer. The parser counts the error responses it asks for; its debug
  output is left out.
\<close>

unbundle bit_operations_syntax

section \<open>Data\<close>

abbreviation (input) QAT_STR_NA :: u32 where "QAT_STR_NA \<equiv> 1"
abbreviation (input) QAT_STR_EQ :: u32 where "QAT_STR_EQ \<equiv> 2"
abbreviation (input) QAT_STR_QU :: u32 where "QAT_STR_QU \<equiv> 4"
abbreviation (input) QAT_STR_AR :: u32 where "QAT_STR_AR \<equiv> 8"
abbreviation (input) QAT_MAXIMUM_COMMAND_STRING_LENGTH :: nat where "QAT_MAXIMUM_COMMAND_STRING_LENGTH \<equiv> 2048"
abbreviation (input) QAT_MAXIMUM_NUMBER_OF_PARAMETERS :: nat where "QAT_MAXIMUM_NUMBER_OF_PARAMETERS \<equiv> 32"
abbreviation (input) CHR_semicolon :: u8 where "CHR_semicolon \<equiv> 0x3B"
abbreviation (input) CHR_comma :: u8 where "CHR_comma \<equiv> 0x2C"
abbreviation (input) CHR_plus :: u8 where "CHR_plus \<equiv> 0x2B"
abbreviation (input) CHR_equals :: u8 where "CHR_equals \<equiv> 0x3D"
abbreviation (input) CHR_question :: u8 where "CHR_question \<equiv> 0x3F"
abbreviation (input) CHR_open :: u8 where "CHR_open \<equiv> 0x7B"
abbreviation (input) CHR_close :: u8 where "CHR_close \<equiv> 0x7D"

text \<open>A parameter has the fields of a parameter of the console.\<close>

type_synonym QAT_Parameter = QAPI_Console_Parameter

record at_parse =
  a_buf :: "u8 list"
  a_len :: nat
  a_index :: nat
  a_name :: "nat option"
  a_end :: "nat option"
  a_flag :: u32
  a_exec :: bool
  a_ok :: bool
  a_errors :: nat

definition at_error :: "at_parse \<Rightarrow> at_parse" where
  "at_error a = a\<lparr>a_ok := False, a_errors := a_errors a + 1\<rparr>"

section \<open>The name\<close>

definition name_char :: "u8 \<Rightarrow> bool" where
  "name_char c \<longleftrightarrow> (0x30 \<le> c \<and> c \<le> 0x39) \<or> (0x61 \<le> c \<and> c \<le> 0x7A) \<or> (0x41 \<le> c \<and> c \<le> 0x5A) \<or> c = 0x21 \<or> c = 0x25 \<or> c = 0x2D \<or>
     c = 0x2E \<or> c = 0x2F \<or> c = 0x3A \<or> c = 0x5F"

text \<open>The three branches behind the name: an equals sign, a question mark, another character. The flag tells if the loop goes on.\<close>

definition name_equals :: "nat \<Rightarrow> nat \<Rightarrow> at_parse \<Rightarrow> (bool \<times> at_parse) option" where
  "name_equals i e a =
     do {
       buf \<leftarrow> put_char (a_buf a) e 0;
       let a = a\<lparr>a_buf := buf, a_exec := False, a_flag := a_flag a OR QAT_STR_EQ, a_index := i + 1\<rparr>;
       if i + 1 < a_len a
       then
        do {
          c \<leftarrow> char_at buf (i + 1);
          Some (False, if c = CHR_question then a\<lparr>a_index := i + 2, a_flag := a_flag a OR QAT_STR_QU\<rparr>
                       else a\<lparr>a_flag := a_flag a OR QAT_STR_AR\<rparr>)
        }
       else Some (False, at_error a)
     }"

definition name_question :: "nat \<Rightarrow> nat \<Rightarrow> at_parse \<Rightarrow> (bool \<times> at_parse) option" where
  "name_question i e a =
     do {
       c \<leftarrow> char_at (a_buf a) (i + 1);
       if c \<noteq> CHR_semicolon \<and> c \<noteq> 13 \<and> c \<noteq> 0 then Some (False, at_error (a\<lparr>a_index := i + 1\<rparr>))
       else
        do {
          buf \<leftarrow> put_char (a_buf a) e 0;
          Some (False, a\<lparr>a_buf := buf, a_index := i + 1, a_flag := a_flag a OR QAT_STR_QU, a_exec := False\<rparr>)
        }
     }"

definition name_other :: "nat \<Rightarrow> nat \<Rightarrow> u8 \<Rightarrow> at_parse \<Rightarrow> bool \<times> at_parse" where
  "name_other i e c a =
     (if name_char c then (True, a\<lparr>a_exec := True, a_end := Some (e + 1), a_index := i + 1\<rparr>)
      else (False, at_error (a\<lparr>a_exec := True, a_index := i\<rparr>)))"

definition name_step :: "at_parse \<Rightarrow> (bool \<times> at_parse) option" where
  "name_step a =
     do {
       i \<leftarrow> skip_spaces (a_buf a) (a_index a);
       c \<leftarrow> char_at (a_buf a) i;
       if c = CHR_plus \<and> a_name a = None
       then Some (True, a\<lparr>a_name := Some i, a_end := Some (i + 1), a_index := i + 1, a_flag := a_flag a OR QAT_STR_NA\<rparr>)
       else
        (case a_end a of
           None \<Rightarrow> Some (True, a\<lparr>a_index := i\<rparr>)
         | Some e \<Rightarrow>
             if c = CHR_equals then name_equals i e a
             else if c = CHR_question then name_question i e a
             else Some (name_other i e c a))
     }"

partial_function (option) name_loop :: "at_parse \<Rightarrow> at_parse option" where
  "name_loop a =
     (if a_ok a \<and> a_index a < a_len a
      then
       do {
         c \<leftarrow> char_at (a_buf a) (a_index a);
         if c \<noteq> CHR_semicolon then do { (more, a) \<leftarrow> name_step a; if more then name_loop a else Some a } else Some a
       }
      else Some a)"

section \<open>Parameters\<close>

definition hex_digit :: "u8 \<Rightarrow> u8 option" where
  "hex_digit c =
     (if 0x30 \<le> c \<and> c \<le> 0x39 then Some (c - 0x30)
      else if 0x61 \<le> c \<and> c \<le> 0x66 then Some (c - 0x61 + 10)
      else if 0x41 \<le> c \<and> c \<le> 0x46 then Some (c - 0x41 + 10)
      else None)"

text \<open>How an escape at an index ends: with the buffer and the length changed, with an error response, or at \<open>clean_sources\<close> without one.\<close>

datatype escape_result = Escaped "u8 list" nat | Escape_Error | Escape_Abort "u8 list"

definition escape_hex :: "u8 list \<Rightarrow> nat \<Rightarrow> nat \<Rightarrow> escape_result option" where
  "escape_hex buf len i =
     (if i + 3 < len
      then
       do {
         buf \<leftarrow> put_char buf i 0;
         c \<leftarrow> char_at buf (i + 2);
         (case hex_digit c of
            None \<Rightarrow> Some (Escape_Abort buf)
          | Some v \<Rightarrow>
              do {
                buf \<leftarrow> put_char buf i (push_bit 4 v);
                d \<leftarrow> char_at buf (i + 3);
                (case hex_digit d of
                   None \<Rightarrow> Some (Escape_Abort buf)
                 | Some w \<Rightarrow>
                     do {
                       buf \<leftarrow> put_char buf i (push_bit 4 v OR w);
                       buf \<leftarrow> memsmove buf (i + 1) (len - i - 1) (i + 4) (len - i - 4);
                       buf \<leftarrow> put_char buf (len - 3) 0;
                       Some (Escaped buf (len - 2))
                     })
              })
       }
      else Some Escape_Error)"

definition escape_at :: "u8 list \<Rightarrow> nat \<Rightarrow> nat \<Rightarrow> escape_result option" where
  "escape_at buf len i =
     (if i + 1 < len
      then
       do {
         d \<leftarrow> char_at buf (i + 1);
         if d = CHR_backslash \<or> d = CHR_quote
         then
          do {
            buf \<leftarrow> memsmove buf i (len - i) (i + 1) (len - i - 1);
            buf \<leftarrow> put_char buf (len - 1) 0;
            Some (Escaped buf (len - 1))
          }
         else if d = 0x78 then escape_hex buf len i
         else Some Escape_Error
       }
      else Some Escape_Error)"

text \<open>How the loop over a parameter ends; in each case the buffer, the length of the input and the index.\<close>

datatype param_end = Param_Done | Param_Error | Param_Abort

function at_param_loop :: "bool \<Rightarrow> nat \<Rightarrow> nat \<Rightarrow> u8 list \<Rightarrow> (param_end \<times> nat \<times> nat \<times> u8 list) option" where
  "at_param_loop inside len i buf =
     (if i < len
      then
       (case char_at buf i of
          None \<Rightarrow> None
        | Some c \<Rightarrow>
            if c \<noteq> CHR_quote \<and> (inside \<or> c \<noteq> CHR_comma) \<and> c \<noteq> CHR_semicolon \<and> c \<noteq> CHR_close
            then
             (if c = CHR_backslash
              then
               (case escape_at buf len i of
                  None \<Rightarrow> None
                | Some Escape_Error \<Rightarrow> Some (Param_Error, len, i + 1, buf)
                | Some (Escape_Abort buf') \<Rightarrow> Some (Param_Abort, len, i, buf')
                | Some (Escaped buf' len') \<Rightarrow> if len' \<le> len then at_param_loop inside len' (Suc i) buf' else None)
              else at_param_loop inside len (Suc i) buf)
            else Some (Param_Done, len, i, buf))
      else Some (Param_Done, len, i, buf))"
  by pat_completeness auto
termination by (relation "measure (\<lambda>(inside, len, i, buf). len - i)") auto

declare at_param_loop.simps [simp del]

record at_params =
  q_buf :: "u8 list"
  q_len :: nat
  q_index :: nat
  q_inside :: bool
  q_params :: "QAT_Parameter list"
  q_default :: u32

datatype params_end = Params_Done | Params_Error | Params_Abort

text \<open>The end of a parameter: the closing quote, the separator, the conversion. The flag tells if a subcommand follows.\<close>

definition end_param :: "nat \<Rightarrow> nat \<Rightarrow> nat \<Rightarrow> bool \<Rightarrow> u8 list \<Rightarrow> at_params \<Rightarrow> (bool \<times> at_params) option" where
  "end_param start len i inside buf q =
     do {
       c \<leftarrow> char_at buf i;
       let deflt = (if c = CHR_comma \<and> start = i then q_default q OR push_bit (length (q_params q)) 1 else q_default q);
       (inside, i, buf) \<leftarrow>
         (if c = CHR_quote
          then
           do {
             buf \<leftarrow> put_char buf i 0;
             buf \<leftarrow> (if inside \<and> i + 1 < len
                    then do { d \<leftarrow> char_at buf (i + 1); if d = CHR_comma then put_char buf (i + 1) 0 else Some buf }
                    else Some buf);
             Some (\<not> inside, i + 1, buf)
           }
          else Some (inside, i, buf));
       d \<leftarrow> char_at buf i;
       let sub_command = (d = CHR_semicolon);
       (i, buf) \<leftarrow> (if i < len then do { buf \<leftarrow> put_char buf i 0; Some (i + 1, buf) } else Some (i, buf));
       string \<leftarrow> c_string buf start;
       let number = QCLI_String_To_Integer string;
       Some (sub_command, \<lparr>q_buf = buf, q_len = len, q_index = i, q_inside = inside,
         q_params = q_params q @ [\<lparr>String_Value = start, Integer_Value = snd number, Integer_Is_Valid = fst number\<rparr>], q_default = deflt\<rparr>)
     }"

text \<open>One pass: a separator is passed over, or a parameter is taken. The first component tells if the loop goes on.\<close>

definition params_step :: "at_params \<Rightarrow> ((bool \<times> params_end) \<times> at_params) option" where
  "params_step q =
     do {
       c \<leftarrow> char_at (q_buf q) (q_index q);
       if c = CHR_space \<or> c = CHR_open \<or> c = CHR_comma \<or> c = CHR_close then Some ((True, Params_Done), q\<lparr>q_index := q_index q + 1\<rparr>)
       else
        do {
          let (inside, i) = (if c = CHR_quote then (True, q_index q + 1) else (q_inside q, q_index q));
          let q = q\<lparr>q_inside := inside, q_index := i\<rparr>;
          if i < q_len q
          then
           do {
             d \<leftarrow> char_at (q_buf q) i;
             if d \<noteq> CHR_semicolon \<and> d \<noteq> CHR_comma
             then
              do {
                (r, len, j, buf) \<leftarrow> at_param_loop inside (q_len q) i (q_buf q);
                if r = Param_Abort then Some ((False, Params_Abort), q\<lparr>q_buf := buf, q_len := len, q_index := j\<rparr>)
                else
                 do {
                   (sub_command, q) \<leftarrow> end_param i len j inside buf q;
                   Some ((\<not> sub_command \<and> r = Param_Done, if r = Param_Done then Params_Done else Params_Error), q)
                 }
              }
             else Some ((True, Params_Done), q)
           }
          else Some ((True, Params_Done), q)
        }
     }"

partial_function (option) params_loop :: "at_params \<Rightarrow> (params_end \<times> at_params) option" where
  "params_loop q =
     (if q_index q < q_len q \<and> length (q_params q) \<le> QAT_MAXIMUM_NUMBER_OF_PARAMETERS
      then
       do {
         c \<leftarrow> char_at (q_buf q) (q_index q);
         if c \<noteq> CHR_semicolon
         then do { ((more, r), q) \<leftarrow> params_step q; if more then params_loop q else Some (r, q) }
         else Some (Params_Done, q)
       }
      else Some (Params_Done, q))"

end
