(* ===== verification/QatCommand.thy ===== *)
theory QatCommand
  imports QatParse
begin

text \<open>
  The AT command interface, \<open>src/modules/qat/qat.c\<close>: command groups, responses with their transmit queue, execution of
  commands, and input in command and data mode.

  The list of groups is a list of pairs, the address of a command table and its contents. A message of the transmit queue is its
  16-bit length field and the bytes of its buffer. The functions of the commands, the handlers of the other transfer modes and
  the allocator are parameters, \<open>at_env\<close>. Characters that are echoed, and what the transmit task sends, go to \<open>wire\<close>.
\<close>

unbundle bit_operations_syntax

section \<open>Data\<close>

type_synonym u16 = "16 word"

datatype QAT_Command_Status = QAT_STATUS_SUCCESS_E | QAT_STATUS_ERROR_E | QAT_STATUS_USAGE_E

datatype QAT_Transfer_Mode = QAT_Transfer_Mode_AT_COMMAND_E | QAT_Transfer_Mode_ONLINE_DATA_E | QAT_Transfer_Mode_ONLINE_COMMAND_E

record QAT_Command =
  at_string :: "u8 list"
  at_function :: nat
  at_flags :: u32

record qat =
  groups :: "(nat \<times> QAT_Command list) list"
  at_length :: nat
  at_input :: "u8 list"
  Tx_Queue :: "(u16 \<times> u8 list) list"
  transfer_mode :: QAT_Transfer_Mode
  mode_handle :: "nat option"
  Echo_Enable :: bool
  data_command :: "u8 list"
  wire :: "u8 list"

text \<open>What a command gets: the kind of operation, and its parameters or the data of the data mode.\<close>

datatype at_argument = At_Params "u8 list" "QAT_Parameter list" u32 | At_Data "u8 list"

record at_env =
  at_command :: "nat \<Rightarrow> u32 \<Rightarrow> at_argument \<Rightarrow> qat \<Rightarrow> (QAT_Command_Status \<times> qat) option"
  mode_function :: "nat \<Rightarrow> u8 list \<Rightarrow> qat \<Rightarrow> (bool \<times> qat) option"
  at_malloc :: "nat \<Rightarrow> qat \<Rightarrow> bool"

abbreviation (input) QAT_OP_QUERY :: u32 where "QAT_OP_QUERY \<equiv> 1"
abbreviation (input) QAT_OP_HELP :: u32 where "QAT_OP_HELP \<equiv> 2"
abbreviation (input) QAT_OP_EXEC :: u32 where "QAT_OP_EXEC \<equiv> 4"
abbreviation (input) QAT_OP_EXEC_W_PARAM :: u32 where "QAT_OP_EXEC_W_PARAM \<equiv> 8"
abbreviation (input) QAT_OP_EXEC_IN_DATA_MODEL :: u32 where "QAT_OP_EXEC_IN_DATA_MODEL \<equiv> 16"
abbreviation (input) QAT_RC_OK :: int where "QAT_RC_OK \<equiv> 0"
abbreviation (input) QAT_RC_ERROR :: int where "QAT_RC_ERROR \<equiv> 4"
abbreviation (input) QAT_RC_QUIET :: int where "QAT_RC_QUIET \<equiv> 10"
abbreviation (input) QAT_RC_QUIET_NO_CR :: int where "QAT_RC_QUIET_NO_CR \<equiv> 11"
abbreviation (input) QAT_RC_MAX :: int where "QAT_RC_MAX \<equiv> 12"
abbreviation (input) QAT_OUTPUT_MAX_LENGTH :: nat where "QAT_OUTPUT_MAX_LENGTH \<equiv> 1400"

section \<open>Responses\<close>

definition QAT_Result_Str :: "u8 list list" where
  "QAT_Result_Str = map ascii [''OK'', ''CONNECT'', ''RING'', ''NO CARRIER'', ''ERROR'', [], ''NO DIAL TONE'', ''BUSY'', ''NO ANSWER'', [], ''OK'', ''OK'']"

definition result_str :: "int \<Rightarrow> u8 list option" where
  "result_str code = (if 0 \<le> code \<and> nat code < length QAT_Result_Str then Some (QAT_Result_Str ! nat code) else None)"

text \<open>The bytes of a response: the frame, the text, the result string.\<close>

definition response_text :: "int \<Rightarrow> u8 list \<Rightarrow> u8 list \<Rightarrow> u8 list" where
  "response_text code text res =
     (if code \<noteq> QAT_RC_QUIET_NO_CR then END_OF_LINE else []) @
     (if text \<noteq> [] then text @ (if code \<noteq> QAT_RC_QUIET_NO_CR then END_OF_LINE else []) else []) @
     (if code \<noteq> QAT_RC_QUIET \<and> code \<noteq> QAT_RC_QUIET_NO_CR \<and> res \<noteq> [] then res @ END_OF_LINE else [])"

definition queue_message :: "nat \<Rightarrow> u8 list \<Rightarrow> qat \<Rightarrow> qat option" where
  "queue_message room bytes s = (if length bytes \<le> room then Some (s\<lparr>Tx_Queue := Tx_Queue s @ [(of_nat (length bytes), bytes)]\<rparr>) else None)"

text \<open>The buffer has room for the two strings and three times \<open>sizeof("\r\n")\<close>; writing more bytes is outside it.\<close>

definition QAT_Response_Str :: "at_env \<Rightarrow> int \<Rightarrow> u8 list option \<Rightarrow> qat \<Rightarrow> (QAT_Command_Status \<times> qat) option" where
  "QAT_Response_Str env code buffer s =
     (if QAT_RC_MAX < code then Some (QAT_STATUS_ERROR_E, s)
      else
       do {
         res \<leftarrow> result_str code;
         let text = (case buffer of None \<Rightarrow> [] | Some b \<Rightarrow> b);
         let buffer_len = length res + length text + 9;
         s \<leftarrow> (if at_malloc env buffer_len s then queue_message (buffer_len + 1) (response_text code text res) s else Some s);
         Some (QAT_STATUS_SUCCESS_E, s)
       })"

definition QAT_Response_Buffer :: "at_env \<Rightarrow> int \<Rightarrow> u8 list option \<Rightarrow> qat \<Rightarrow> (QAT_Command_Status \<times> qat) option" where
  "QAT_Response_Buffer env code buffer s =
     (case buffer of
        None \<Rightarrow> Some (QAT_STATUS_ERROR_E, s)
      | Some b \<Rightarrow>
          if b = [] \<or> QAT_RC_MAX < code then Some (QAT_STATUS_ERROR_E, s)
          else
           do {
             res \<leftarrow> result_str code;
             let len_need = length res + length b + (if code \<noteq> QAT_RC_QUIET then 3 else 0);
             let bytes = b @ (if code \<noteq> QAT_RC_QUIET \<and> res \<noteq> [] then res @ END_OF_LINE else []);
             s \<leftarrow> (if at_malloc env len_need s then queue_message (len_need + 1) bytes s else Some s);
             Some (QAT_STATUS_SUCCESS_E, s)
           })"

definition respond :: "at_env \<Rightarrow> int \<Rightarrow> qat \<Rightarrow> qat option" where
  "respond env code s = do { (_, s) \<leftarrow> QAT_Response_Str env code None s; Some s }"

fun respond_errors :: "at_env \<Rightarrow> nat \<Rightarrow> qat \<Rightarrow> qat option" where
  "respond_errors env 0 s = Some s"
| "respond_errors env (Suc n) s = do { s \<leftarrow> respond env QAT_RC_ERROR s; respond_errors env n s }"

definition QAT_Output :: "u8 list \<Rightarrow> qat \<Rightarrow> qat" where
  "QAT_Output bs s = s\<lparr>wire := wire s @ bs\<rparr>"

text \<open>The transmit task sends a message in chunks; \<open>offset\<close> is a 16-bit counter.\<close>

definition chunk_size :: "u16 \<Rightarrow> u16 \<Rightarrow> u16" where
  "chunk_size len offset = (if of_nat QAT_OUTPUT_MAX_LENGTH < len - offset then of_nat QAT_OUTPUT_MAX_LENGTH else len - offset)"

lemma chunk_size_ok:
  assumes "offset < len"
  shows "0 < unat (chunk_size len offset)" and "unat (offset + chunk_size len offset) = unat offset + unat (chunk_size len offset)"
    and "unat offset + unat (chunk_size len offset) \<le> unat len"
proof -
  have d: "unat (len - offset) = unat len - unat offset" "unat offset < unat len" using assms by (simp_all add: unat_sub word_less_nat_alt word_le_nat_alt)
  then show c: "0 < unat (chunk_size len offset)" "unat offset + unat (chunk_size len offset) \<le> unat len"
    by (auto simp: chunk_size_def word_less_nat_alt)
  have "unat len < 2 ^ 16" using unsigned_less [of len] by simp
  then show "unat (offset + chunk_size len offset) = unat offset + unat (chunk_size len offset)"
    using c(2) by (simp add: unat_word_ariths)
qed

function tx_chunks :: "u16 \<Rightarrow> u16 \<Rightarrow> u8 list \<Rightarrow> qat \<Rightarrow> qat" where
  "tx_chunks len offset buf s =
     (if offset < len
      then tx_chunks len (offset + chunk_size len offset) buf
        (QAT_Output (take (unat (chunk_size len offset)) (drop (unat offset) buf)) s)
      else s)"
  by pat_completeness auto
termination
proof (relation "measure (\<lambda>(len, offset, buf, s). unat len - unat offset)", goal_cases)
  case (2 len offset buf s)
  then show ?case using chunk_size_ok [of offset len] by simp
qed simp

declare tx_chunks.simps [simp del]

fun tx_loop :: "(u16 \<times> u8 list) list \<Rightarrow> qat \<Rightarrow> qat" where
  "tx_loop [] s = s"
| "tx_loop ((len, buf) # q) s = tx_loop q ((tx_chunks len 0 buf s)\<lparr>Tx_Queue := q\<rparr>)"

definition QAT_TxTasks :: "qat \<Rightarrow> qat" where
  "QAT_TxTasks s = tx_loop (Tx_Queue s) s"

section \<open>Groups\<close>

definition QAT_Register_Command_Group :: "at_env \<Rightarrow> (nat \<times> QAT_Command list) option \<Rightarrow> qat \<Rightarrow> bool \<times> qat" where
  "QAT_Register_Command_Group env g s =
     (case g of
        None \<Rightarrow> (False, s)
      | Some g \<Rightarrow> (True, if at_malloc env 0 s then s\<lparr>groups := groups s @ [g]\<rparr> else s))"

text \<open>The loop of the removal looks at the successor of one entry, which it never leaves.\<close>

partial_function (option) unregister_loop :: "nat \<Rightarrow> (nat \<times> QAT_Command list) list \<Rightarrow> (bool \<times> (nat \<times> QAT_Command list) list) option" where
  "unregister_loop g es =
     (case es of
        e0 # e1 # rest \<Rightarrow> if fst e1 = g then Some (True, e0 # rest) else unregister_loop g es
      | _ \<Rightarrow> Some (False, es))"

definition QAT_Unregister_Command_Group :: "nat \<Rightarrow> qat \<Rightarrow> (bool \<times> qat) option" where
  "QAT_Unregister_Command_Group g s =
     (case groups s of
        [] \<Rightarrow> Some (False, s)
      | [e] \<Rightarrow> Some (if fst e = g then (True, s\<lparr>groups := []\<rparr>) else (False, s))
      | _ \<Rightarrow> do { (r, es) \<leftarrow> unregister_loop g (groups s); Some (r, s\<lparr>groups := es\<rparr>) })"

definition at_same_name :: "u8 list \<Rightarrow> QAT_Command \<Rightarrow> bool" where
  "at_same_name name c \<longleftrightarrow> length (at_string c) = length name \<and> QCLI_Memcmpi (at_string c) name (length name) = 0"

definition At_Find_Command :: "qat \<Rightarrow> u8 list \<Rightarrow> QAT_Command option" where
  "At_Find_Command s name = find (at_same_name name) (concat (map snd (groups s)))"

section \<open>Commands\<close>

definition op_type :: "u32 \<Rightarrow> u32 option" where
  "op_type flag =
     (let f = flag AND 0xF in
      if f = QAT_STR_NA OR QAT_STR_QU then Some QAT_OP_QUERY
      else if f = QAT_STR_NA OR QAT_STR_EQ OR QAT_STR_QU then Some QAT_OP_HELP
      else if f = QAT_STR_NA then Some QAT_OP_EXEC
      else if f = QAT_STR_NA OR QAT_STR_EQ OR QAT_STR_AR then Some QAT_OP_EXEC_W_PARAM
      else None)"

text \<open>The name is looked up; an execute command has no delimiter, so one is put behind the name for the time of the search.\<close>

definition lookup_name :: "qat \<Rightarrow> at_parse \<Rightarrow> (QAT_Command option \<times> at_parse) option" where
  "lookup_name s a =
     (if a_ok a \<and> a_flag a AND QAT_STR_NA \<noteq> 0
      then
       do {
         n \<leftarrow> a_name a;
         e \<leftarrow> a_end a;
         buf \<leftarrow> (if a_exec a then put_char (a_buf a) e 0 else Some (a_buf a));
         name \<leftarrow> c_string buf n;
         let c = At_Find_Command s name;
         buf \<leftarrow> (if a_exec a then put_char buf e CHR_semicolon else Some buf);
         let a = a\<lparr>a_buf := buf\<rparr>;
         Some (c, if c = None then at_error a else a)
       }
      else Some (None, a))"

text \<open>The parameters: if the command may run, the number of error responses, and where the loop has stopped.\<close>

definition take_params :: "at_parse \<Rightarrow> (bool \<times> nat \<times> at_params) option" where
  "take_params a =
     (let q = \<lparr>q_buf = a_buf a, q_len = a_len a, q_index = a_index a, q_inside = False, q_params = [], q_default = 0\<rparr> in
      if \<not> a_ok a then Some (False, 0, q)
      else if a_flag a AND QAT_STR_AR = QAT_STR_AR
      then
       do {
         (r, q) \<leftarrow> params_loop q;
         Some (if r = Params_Abort then (False, 0, q)
               else (r = Params_Done \<and> \<not> q_inside q, (if r = Params_Error then 1 else 0) + (if q_inside q then 1 else 0), q))
       }
      else Some (True, 0, q))"

definition run_at_command :: "at_env \<Rightarrow> QAT_Command option \<Rightarrow> u32 \<Rightarrow> at_params \<Rightarrow> qat \<Rightarrow> (bool \<times> qat) option" where
  "run_at_command env c flag q s =
     (if flag = 0 then Some (True, s)
      else
       (case op_type flag of
          None \<Rightarrow> do { s \<leftarrow> respond env QAT_RC_ERROR s; Some (False, s) }
        | Some op \<Rightarrow>
            do {
              c \<leftarrow> c;
              if at_flags c AND op \<noteq> 0
              then do { (r, s) \<leftarrow> at_command env (at_function c) op (At_Params (q_buf q) (q_params q) (q_default q)) s; Some (r = QAT_STATUS_SUCCESS_E, s) }
              else do { s \<leftarrow> respond env QAT_RC_ERROR s; Some (True, s) }
            }))"

definition at_start :: "nat \<Rightarrow> qat \<Rightarrow> at_parse" where
  "at_start i s = \<lparr>a_buf = at_input s, a_len = at_length s, a_index = i, a_name = None, a_end = None, a_flag = 0, a_exec = False, a_ok = True,
     a_errors = 0\<rparr>"

definition Process_AT_Extend_Command :: "at_env \<Rightarrow> nat \<Rightarrow> qat \<Rightarrow> (bool \<times> nat \<times> qat) option" where
  "Process_AT_Extend_Command env i s =
     do {
       a \<leftarrow> name_loop (at_start i s);
       (c, a) \<leftarrow> lookup_name s a;
       (ok, n, q) \<leftarrow> take_params a;
       s \<leftarrow> respond_errors env (a_errors a + n) (s\<lparr>at_input := q_buf q, at_length := q_len q\<rparr>);
       (ok, s) \<leftarrow> (if ok then run_at_command env c (a_flag a) q s else Some (False, s));
       Some (ok, q_index q, s)
     }"

partial_function (option) command_loop :: "at_env \<Rightarrow> nat \<Rightarrow> bool \<Rightarrow> qat \<Rightarrow> (bool \<times> qat) option" where
  "command_loop env i sub s =
     (if i < at_length s
      then
       do {
         c \<leftarrow> char_at (at_input s) i;
         if c = CHR_space \<or> c = CHR_semicolon then command_loop env (i + 1) sub s
         else if c = CHR_plus
         then do { (ok, j, s) \<leftarrow> Process_AT_Extend_Command env i s; if ok then command_loop env j True s else Some (True, s) }
         else do { s \<leftarrow> respond env QAT_RC_ERROR s; Some (sub, s) }
       }
      else Some (sub, s))"

definition starts_with_at :: "u8 list \<Rightarrow> nat \<Rightarrow> nat \<Rightarrow> bool option" where
  "starts_with_at buf len i =
     (if i + 1 < len
      then do { c \<leftarrow> char_at buf i; d \<leftarrow> char_at buf (i + 1); Some (c OR 0x20 = 0x61 \<and> d OR 0x20 = 0x74) }
      else Some False)"

definition At_Process_Command :: "at_env \<Rightarrow> qat \<Rightarrow> qat option" where
  "At_Process_Command env s =
     do {
       i \<leftarrow> skip_spaces (at_input s) 0;
       find_at \<leftarrow> starts_with_at (at_input s) (at_length s) i;
       if find_at
       then
        do {
          i \<leftarrow> skip_spaces (at_input s) (i + 2);
          (sub, s) \<leftarrow> command_loop env i False s;
          if sub then Some s else respond env QAT_RC_OK s
        }
       else
        do {
          c \<leftarrow> char_at (at_input s) i;
          if at_length s \<noteq> 0 \<and> c \<noteq> CHR_space \<and> c \<noteq> 0 \<and> c \<noteq> CHR_equals \<and> c \<noteq> CHR_question \<and> c \<noteq> 13
          then respond env QAT_RC_ERROR s else Some s
        }
     }"

section \<open>Input\<close>

definition clear_input :: "qat \<Rightarrow> qat" where
  "clear_input s = s\<lparr>at_input := replicate (at_length s) 0 @ drop (at_length s) (at_input s), at_length := 0\<rparr>"

definition echo_out :: "u8 list \<Rightarrow> qat \<Rightarrow> qat" where
  "echo_out bs s = (if Echo_Enable s then QAT_Output bs s else s)"

definition store_char :: "u8 \<Rightarrow> qat \<Rightarrow> qat option" where
  "store_char c s =
     do { buf \<leftarrow> put_char (at_input s) (at_length s) c; Some (s\<lparr>at_input := buf, at_length := at_length s + 1\<rparr>) }"

definition at_char :: "at_env \<Rightarrow> u8 \<Rightarrow> qat \<Rightarrow> qat option" where
  "at_char env c s =
     (if c = 13
      then
       do {
         let s = (if at_length s = 0 then echo_out END_OF_LINE s else s);
         s \<leftarrow> At_Process_Command env s;
         Some (clear_input s)
       }
      else if c = 8
      then
       (if at_length s \<noteq> 0
        then
         do {
           let s = echo_out [8, 32, 8] s;
           buf \<leftarrow> put_char (at_input s) (at_length s - 1) 0;
           Some (s\<lparr>at_input := buf, at_length := at_length s - 1\<rparr>)
         }
        else Some s)
      else if 0x20 \<le> c \<and> c \<le> 0x7E \<and> at_length s < QAT_MAXIMUM_COMMAND_STRING_LENGTH then store_char c (echo_out [c] s)
      else Some s)"

fun at_chars :: "at_env \<Rightarrow> u8 list \<Rightarrow> qat \<Rightarrow> qat option" where
  "at_chars env [] s = Some s"
| "at_chars env (c # cs) s = do { s \<leftarrow> at_char env c s; at_chars env cs s }"

definition QAT_Process_Input_Data :: "at_env \<Rightarrow> u8 list \<Rightarrow> qat \<Rightarrow> qat option" where
  "QAT_Process_Input_Data env data s =
     (if transfer_mode s = QAT_Transfer_Mode_AT_COMMAND_E then at_chars env data s
      else do { h \<leftarrow> mode_handle s; (_, s) \<leftarrow> mode_function env h data (echo_out data s); Some s })"

definition QAT_Transfer_Mode_set :: "QAT_Transfer_Mode \<Rightarrow> nat option \<Rightarrow> qat \<Rightarrow> qat" where
  "QAT_Transfer_Mode_set mode h s =
     s\<lparr>transfer_mode := mode, mode_handle := if mode \<noteq> QAT_Transfer_Mode_AT_COMMAND_E then h else None\<rparr>"

text \<open>Data for the command of the data mode; without such a command the call goes through an uninitialised pointer.\<close>

definition Process_RAW_Data :: "at_env \<Rightarrow> qat \<Rightarrow> qat option" where
  "Process_RAW_Data env s =
     (case At_Find_Command s (data_command s) of
        None \<Rightarrow> None
      | Some c \<Rightarrow>
          do { (_, s) \<leftarrow> at_command env (at_function c) QAT_OP_EXEC_IN_DATA_MODEL (At_Data (take (at_length s) (at_input s))) s; Some s })"

fun data_chars :: "u8 list \<Rightarrow> qat \<Rightarrow> qat option" where
  "data_chars [] s = Some s"
| "data_chars (c # cs) s =
     do { s \<leftarrow> (if at_length s < QAT_MAXIMUM_COMMAND_STRING_LENGTH then store_char c (echo_out [c] s) else Some s); data_chars cs s }"

definition QAT_Data_Transfer_Mode_Handle :: "at_env \<Rightarrow> u8 list \<Rightarrow> qat \<Rightarrow> qat option" where
  "QAT_Data_Transfer_Mode_Handle env data s =
     (if transfer_mode s = QAT_Transfer_Mode_ONLINE_DATA_E \<and> data \<noteq> []
      then
       do {
         s \<leftarrow> data_chars data s;
         s \<leftarrow> (if take 3 (at_input s) = [CHR_plus, CHR_plus, CHR_plus]
               then respond env QAT_RC_OK (QAT_Transfer_Mode_set QAT_Transfer_Mode_AT_COMMAND_E None s)
               else if 0 < at_length s then Process_RAW_Data env s
               else Some s);
         Some (clear_input s)
       }
      else Some s)"

definition QAT_TxTask_Initialize :: "u8 list \<Rightarrow> bool \<Rightarrow> qat" where
  "QAT_TxTask_Initialize command echo_on =
     \<lparr>groups = [], at_length = 0, at_input = replicate (QAT_MAXIMUM_COMMAND_STRING_LENGTH + 1) 0, Tx_Queue = [],
      transfer_mode = QAT_Transfer_Mode_AT_COMMAND_E, mode_handle = None, Echo_Enable = echo_on, data_command = command, wire = []\<rparr>"

end
