(* ===== verification/QatFacts.thy ===== *)
theory QatFacts
  imports QatCommand QcliLine
begin

text \<open>Properties of the AT command interface: groups, responses, the transmit queue, and the input buffer.\<close>

section \<open>Groups\<close>

lemma unregister_loop_stuck: "unregister_loop g es = Some r \<Longrightarrow> length es \<le> 1 \<or> fst (es ! 1) = g"
  by (rule unregister_loop.raw_induct [where P = "\<lambda>g es r. length es \<le> 1 \<or> fst (es ! 1) = g"])
    (fastforce split: list.splits if_splits)+

text \<open>
  Removing a group returns only for a list of at most one group, or when the group is the second one. In every other case, the first of two groups among
  them, the loop looks at the same entry forever.
\<close>

lemma at_unregister_returns_iff:
  "(\<exists>r. QAT_Unregister_Command_Group g s = Some r) \<longleftrightarrow> length (groups s) \<le> 1 \<or> fst (groups s ! 1) = g"
proof (cases "length (groups s) \<le> 1")
  case True
  then show ?thesis by (cases "groups s"; cases "tl (groups s)") (auto simp: QAT_Unregister_Command_Group_def)
next
  case False
  then obtain e0 e1 rest where es: "groups s = e0 # e1 # rest" by (cases "groups s"; cases "tl (groups s)") auto
  show ?thesis
  proof (cases "fst e1 = g")
    case True
    then have "unregister_loop g (groups s) = Some (True, e0 # rest)" by (subst unregister_loop.simps) (simp add: es)
    then show ?thesis using True by (auto simp: QAT_Unregister_Command_Group_def es)
  next
    case False
    then have "unregister_loop g (groups s) = None" using unregister_loop_stuck [of g "groups s"] by (cases "unregister_loop g (groups s)") (auto simp: es)
    then show ?thesis using False by (simp add: QAT_Unregister_Command_Group_def es)
  qed
qed

section \<open>Responses\<close>

lemma response_fits [simp]:
  "length (response_text code text res) \<le> 10 + (length res + length text)" "length (response_text code [] res) \<le> 10 + length res"
  by (simp_all add: response_text_def)

lemma result_str_None: "result_str code = None \<longleftrightarrow> code < 0 \<or> QAT_RC_MAX \<le> code"
proof -
  have "length QAT_Result_Str = 12" by (simp add: QAT_Result_Str_def)
  then show ?thesis by (auto simp: result_str_def)
qed

text \<open>Every result code but the negative ones and \<open>QAT_RC_MAX\<close> itself is within the table, and the message within its buffer.\<close>

lemma response_in_bounds: "QAT_Response_Str env code b s = None \<longleftrightarrow> code < 0 \<or> code = QAT_RC_MAX"
  using result_str_None [of code] by (auto simp: QAT_Response_Str_def queue_message_def Let_def bind_eq_None_conv split: option.splits)

lemma response_buffer_in_bounds:
  "QAT_Response_Buffer env code buffer s = None \<longleftrightarrow> buffer \<noteq> None \<and> buffer \<noteq> Some [] \<and> (code < 0 \<or> code = QAT_RC_MAX)"
  using result_str_None [of code] by (auto simp: QAT_Response_Buffer_def queue_message_def Let_def bind_eq_None_conv split: option.splits)

lemma response_queued:
  assumes "at_malloc env (length res + length (case b of None \<Rightarrow> [] | Some x \<Rightarrow> x) + 9) s" and "result_str code = Some res"
  shows "QAT_Response_Str env code b s = Some (QAT_STATUS_SUCCESS_E, s\<lparr>Tx_Queue := Tx_Queue s @
    [(of_nat (length (response_text code (case b of None \<Rightarrow> [] | Some x \<Rightarrow> x) res)), response_text code (case b of None \<Rightarrow> [] | Some x \<Rightarrow> x) res)]\<rparr>)"
proof -
  have "code \<le> 12" using assms(2) by (auto simp: result_str_def QAT_Result_Str_def split: if_splits)
  then show ?thesis using assms by (cases b) (simp_all add: QAT_Response_Str_def queue_message_def Let_def)
qed

section \<open>The transmit task\<close>

lemma tx_chunks_sends:
  assumes "offset \<le> len"
  shows "tx_chunks len offset buf s = s\<lparr>wire := wire s @ take (unat len - unat offset) (drop (unat offset) buf)\<rparr>"
  using assms
proof (induction len offset buf s rule: tx_chunks.induct)
  case (1 len offset buf s)
  show ?case
  proof (cases "offset < len")
    case True
    let ?c = "chunk_size len offset"
    note c = chunk_size_ok [OF True]
    have le: "offset + ?c \<le> len" using c by (simp add: word_le_nat_alt)
    have n: "unat len - unat offset = unat ?c + (unat len - (unat offset + unat ?c))" using c(3) by simp
    let ?s = "QAT_Output (take (unat ?c) (drop (unat offset) buf)) s"
    have "tx_chunks len offset buf s = tx_chunks len (offset + ?c) buf ?s" using True by (subst tx_chunks.simps) simp
    also have "\<dots> = ?s\<lparr>wire := wire ?s @ take (unat len - unat (offset + ?c)) (drop (unat (offset + ?c)) buf)\<rparr>" by (rule 1(1) [OF True le])
    also have "\<dots> = s\<lparr>wire := wire s @ take (unat len - unat offset) (drop (unat offset) buf)\<rparr>"
      unfolding n take_add c(2) by (simp add: QAT_Output_def add.commute)
    finally show ?thesis .
  next
    case False
    then have "offset = len" using 1(2) by simp
    then show ?thesis by (subst tx_chunks.simps) simp
  qed
qed

lemma tx_loop_sends: "tx_loop q s = s\<lparr>wire := wire s @ concat (map (\<lambda>(len, buf). take (unat len) buf) q), Tx_Queue := if q = [] then Tx_Queue s else []\<rparr>"
proof (induction q arbitrary: s)
  case (Cons m q)
  obtain len buf where m: "m = (len, buf)" by (cases m)
  show ?case unfolding m using Cons.IH tx_chunks_sends [of 0 len buf s] by simp
qed simp

lemma tx_task_sends_queue:
  "QAT_TxTasks s = s\<lparr>wire := wire s @ concat (map (\<lambda>(len, buf). take (unat len) buf) (Tx_Queue s)), Tx_Queue := []\<rparr>"
  by (simp add: QAT_TxTasks_def tx_loop_sends)

end
