(* ===== verification/QatSafe.thy ===== *)
theory QatSafe
  imports QatFacts QcliSafe
begin

text \<open>
  The AT parser stays within its buffer. As long as no line fills the buffer, the byte behind the longest line stays zero, and every access is
  within the buffer, every string terminated and every loop finite.
\<close>

section \<open>The name\<close>

definition buf_ok :: "u8 list \<Rightarrow> nat \<Rightarrow> bool" where
  "buf_ok buf len \<longleftrightarrow> terminated buf \<and> len + 1 < length buf"

lemma buf_ok_put: "buf_ok buf len \<Longrightarrow> i \<le> len \<Longrightarrow> \<exists>buf'. put_char buf i c = Some buf' \<and> buf_ok buf' len \<and> length buf' = length buf"
  by (auto simp: buf_ok_def put_char_def terminated_def last_list_update)

lemma buf_ok_char: "buf_ok buf len \<Longrightarrow> i \<le> len + 1 \<Longrightarrow> char_at buf i = Some (buf ! i)"
  by (auto simp: buf_ok_def char_at_def)

lemma buf_ok_less: "buf_ok buf len \<Longrightarrow> len' \<le> len \<Longrightarrow> buf_ok buf len'"
  by (simp add: buf_ok_def)

text \<open>In the loop over the name, the end of the name never passes the index nor the end of the input.\<close>

definition name_inv :: "at_parse \<Rightarrow> bool" where
  "name_inv a \<longleftrightarrow> buf_ok (a_buf a) (a_len a) \<and> a_index a < length (a_buf a) \<and>
     (\<exists>n e. a_name a = Some n \<and> a_end a = Some e \<and> n < length (a_buf a) \<and> e \<le> a_index a \<and> e \<le> a_len a)"

lemma na_kept [simp]: "(f OR 2) AND 1 = f AND (1 :: u32)" "(f OR 4) AND 1 = f AND (1 :: u32)" "(f OR 8) AND 1 = f AND (1 :: u32)"
  by (simp_all add: bit.conj_disj_distrib2)

lemma name_step_safe:
  assumes "name_inv a" and "a_index a < a_len a"
  shows "\<exists>more a'. name_step a = Some (more, a') \<and> name_inv a' \<and> length (a_buf a') = length (a_buf a) \<and> a_len a' = a_len a \<and>
    a_index a \<le> a_index a' \<and> (more \<longrightarrow> a_index a < a_index a') \<and> a_flag a' AND 1 = a_flag a AND 1"
proof -
  have b: "buf_ok (a_buf a) (a_len a)" "terminated (a_buf a)" "a_len a + 1 < length (a_buf a)" using assms(1) by (simp_all add: name_inv_def buf_ok_def)
  obtain n e where ne: "a_name a = Some n" "a_end a = Some e" "n < length (a_buf a)" "e \<le> a_index a" "e \<le> a_len a" using assms(1) by (auto simp: name_inv_def)
  obtain i where i: "skip_spaces (a_buf a) (a_index a) = Some i" "a_index a \<le> i" "i < length (a_buf a)"
    using skip_spaces_safe [OF b(2), of "a_index a"] skip_spaces_ge [of "a_buf a" "a_index a"] assms(1) by (auto simp: name_inv_def)
  let ?c = "a_buf a ! i"
  have c: "char_at (a_buf a) i = Some ?c" using i(3) by (simp add: char_at_def)
  have nx: "Suc i < length (a_buf a)" if "?c \<noteq> 0" using terminated_nth [OF b(2) i(3) that] .
  obtain buf where buf: "put_char (a_buf a) e 0 = Some buf" "buf_ok buf (a_len a)" "length buf = length (a_buf a)" using buf_ok_put [OF b(1) ne(5)] by blast
  consider (eq) "?c = CHR_equals" | (qu) "?c = CHR_question" | (other) "?c \<noteq> CHR_equals" "?c \<noteq> CHR_question" by blast
  then show ?thesis
  proof cases
    case eq
    have "Suc i < length buf" using nx eq buf(3) by simp
    then show ?thesis using eq i c ne buf by (auto simp: name_step_def name_equals_def name_inv_def at_error_def Let_def char_at_def buf_ok_def)
  next
    case qu
    have "Suc i < length buf" using nx qu buf(3) by simp
    then show ?thesis using qu i c ne buf b(1) by (auto simp: name_step_def name_question_def name_inv_def at_error_def Let_def char_at_def)
  next
    case other
    have "name_char 0 = False" by (simp add: name_char_def)
    then have "Suc i < length (a_buf a)" if "name_char ?c" using nx that by (cases "?c = 0") auto
    then show ?thesis using other i c ne b(1) assms(2)
      by (auto simp: name_step_def name_other_def name_inv_def at_error_def)
  qed
qed

lemma name_loop_safe:
  assumes "name_inv a"
  shows "\<exists>a'. name_loop a = Some a' \<and> name_inv a' \<and> length (a_buf a') = length (a_buf a) \<and> a_len a' = a_len a \<and> a_index a \<le> a_index a' \<and>
    a_flag a' AND 1 = a_flag a AND 1"
  using assms
proof (induction "a_len a - a_index a" arbitrary: a rule: less_induct)
  case less
  have c: "char_at (a_buf a) (a_index a) = Some (a_buf a ! a_index a)" using less.prems by (simp add: name_inv_def char_at_def)
  show ?case
  proof (cases "a_ok a \<and> a_index a < a_len a \<and> a_buf a ! a_index a \<noteq> CHR_semicolon")
    case True
    then obtain more a1 where s: "name_step a = Some (more, a1)" "name_inv a1" "length (a_buf a1) = length (a_buf a)" "a_len a1 = a_len a"
      "a_index a \<le> a_index a1" "more \<Longrightarrow> a_index a < a_index a1" "a_flag a1 AND 1 = a_flag a AND 1" using name_step_safe [OF less.prems] by blast
    have i: "a_index a < a_len a" using True by simp
    have u: "name_loop a = (if more then name_loop a1 else Some a1)" using True c s(1) by (subst name_loop.simps) simp
    show ?thesis
    proof (cases more)
      case True
      then have "a_len a1 - a_index a1 < a_len a - a_index a" using s(4,6) i by auto
      from less.hyps [OF this s(2)] s u True show ?thesis by force
    qed (use s u in auto)
  next
    case False
    then have "name_loop a = Some a" using c by (subst name_loop.simps) auto
    then show ?thesis using less.prems by simp
  qed
qed

section \<open>Parameters\<close>

lemma memsmove_ok:
  assumes "buf_ok buf len" and "dst + n \<le> len" and "src + n \<le> len" and "n \<le> m"
  shows "\<exists>buf'. memsmove buf dst m src n = Some buf' \<and> buf_ok buf' len \<and> length buf' = length buf"
proof -
  let ?b = "take dst buf @ take n (drop src buf) @ drop (dst + n) buf"
  have "(if m \<le> n then m else n) = n" using assms(4) by simp
  then have "memsmove buf dst m src n = Some ?b" using assms by (simp add: memsmove_def Let_def buf_ok_def)
  moreover from this have "length ?b = length buf" by (rule length_memsmove)
  moreover have "terminated ?b" using assms by (auto simp: buf_ok_def terminated_def last_append)
  ultimately show ?thesis using assms(1) by (simp add: buf_ok_def)
qed

lemma escape_hex_safe:
  assumes "buf_ok buf len" and "i < len"
  shows "(\<exists>buf'. escape_hex buf len i = Some (Escaped buf' (len - 2)) \<and> i + 3 < len \<and> buf_ok buf' len \<and> length buf' = length buf) \<or>
    (\<exists>buf'. escape_hex buf len i = Some (Escape_Abort buf') \<and> buf_ok buf' len \<and> length buf' = length buf) \<or> escape_hex buf len i = Some Escape_Error"
proof (cases "i + 3 < len")
  case True
  obtain b1 where b1: "put_char buf i 0 = Some b1" "buf_ok b1 len" "length b1 = length buf" using buf_ok_put [OF assms(1), of i] assms(2) by auto
  have c1: "char_at b1 (i + 2) = Some (b1 ! (i + 2))" using True by (intro buf_ok_char [OF b1(2)]) simp
  show ?thesis
  proof (cases "hex_digit (b1 ! (i + 2))")
    case None
    then show ?thesis using True b1 c1 by (simp add: escape_hex_def)
  next
    case (Some v)
    obtain b2 where b2: "put_char b1 i (push_bit 4 v) = Some b2" "buf_ok b2 len" "length b2 = length b1" using buf_ok_put [OF b1(2), of i] assms(2) by auto
    have c2: "char_at b2 (i + 3) = Some (b2 ! (i + 3))" using True by (intro buf_ok_char [OF b2(2)]) simp
    show ?thesis
    proof (cases "hex_digit (b2 ! (i + 3))")
      case None
      then show ?thesis using True b1 b2 c1 c2 Some by (simp add: escape_hex_def)
    next
      case w: (Some w)
      obtain b3 where b3: "put_char b2 i (push_bit 4 v OR w) = Some b3" "buf_ok b3 len" "length b3 = length b2" using buf_ok_put [OF b2(2), of i] assms(2) by auto
      obtain b4 where b4: "memsmove b3 (i + 1) (len - i - 1) (i + 4) (len - i - 4) = Some b4" "buf_ok b4 len" "length b4 = length b3"
      proof -
        have "i + 1 + (len - i - 4) \<le> len" "i + 4 + (len - i - 4) \<le> len" "len - i - 4 \<le> len - i - 1" using True by linarith+
        then show ?thesis using memsmove_ok [OF b3(2)] that by blast
      qed
      obtain b5 where b5: "put_char b4 (len - 3) 0 = Some b5" "buf_ok b5 len" "length b5 = length b4" using buf_ok_put [OF b4(2), of "len - 3"] by auto
      show ?thesis using True b1 b2 b3 b4 b5 c1 c2 Some w by (simp add: escape_hex_def)
    qed
  qed
qed (simp add: escape_hex_def)

lemma escape_safe:
  assumes "buf_ok buf len" and "i < len"
  obtains (esc) buf' len' where "escape_at buf len i = Some (Escaped buf' len')" and "Suc i \<le> len'" and "len' \<le> len" and "buf_ok buf' len'" and "length buf' = length buf"
  | (abort) buf' where "escape_at buf len i = Some (Escape_Abort buf')" and "buf_ok buf' len" and "length buf' = length buf"
  | (err) "escape_at buf len i = Some Escape_Error"
proof (cases "i + 1 < len")
  case True
  have c: "char_at buf (i + 1) = Some (buf ! (i + 1))" using True by (intro buf_ok_char [OF assms(1)]) simp
  consider (q) "buf ! (i + 1) = CHR_backslash \<or> buf ! (i + 1) = CHR_quote" | (x) "buf ! (i + 1) = 0x78"
    | (o) "\<not> (buf ! (i + 1) = CHR_backslash \<or> buf ! (i + 1) = CHR_quote)" "buf ! (i + 1) \<noteq> 0x78" by blast
  then show ?thesis
  proof cases
    case q
    obtain b1 where b1: "memsmove buf i (len - i) (i + 1) (len - i - 1) = Some b1" "buf_ok b1 len" "length b1 = length buf"
    proof -
      have "i + (len - i - 1) \<le> len" "i + 1 + (len - i - 1) \<le> len" "len - i - 1 \<le> len - i" using True by linarith+
      then show ?thesis using memsmove_ok [OF assms(1)] that by blast
    qed
    obtain b2 where b2: "put_char b1 (len - 1) 0 = Some b2" "buf_ok b2 len" "length b2 = length b1" using buf_ok_put [OF b1(2), of "len - 1"] by auto
    then show ?thesis using esc [of b2 "len - 1"] q True b1 c buf_ok_less [OF b2(2), of "len - 1"] by (simp add: escape_at_def)
  next
    case x
    then have e: "escape_at buf len i = escape_hex buf len i" using True c by (simp add: escape_at_def)
    from escape_hex_safe [OF assms] show ?thesis unfolding e [symmetric]
      using esc [of _ "len - 2"] abort err buf_ok_less [of _ len "len - 2"] by auto
  next
    case o
    then show ?thesis using True c err by (simp add: escape_at_def)
  qed
qed (simp add: escape_at_def err)

lemma at_param_loop_safe:
  assumes "buf_ok buf len" and "i \<le> len"
  shows "\<exists>r len' j buf'. at_param_loop inside len i buf = Some (r, len', j, buf') \<and> buf_ok buf' len' \<and> length buf' = length buf \<and> len' \<le> len \<and> j \<le> len' \<and>
    i \<le> j \<and> (i < len \<and> buf ! i \<notin> {CHR_quote, CHR_comma, CHR_semicolon, CHR_close} \<and> r \<noteq> Param_Abort \<longrightarrow> i < j)"
  using assms
proof (induction inside len i buf rule: at_param_loop.induct)
  case (1 inside len i buf)
  show ?case
  proof (cases "i < len \<and> buf ! i \<noteq> CHR_quote \<and> (inside \<or> buf ! i \<noteq> CHR_comma) \<and> buf ! i \<noteq> CHR_semicolon \<and> buf ! i \<noteq> CHR_close")
    case False
    then have "at_param_loop inside len i buf = Some (Param_Done, len, i, buf)"
      using buf_ok_char [OF 1(3), of i] 1(4) by (subst at_param_loop.simps) auto
    then show ?thesis using 1(3,4) False by auto
  next
    case True
    then have c: "i < len" "char_at buf i = Some (buf ! i)" using buf_ok_char [OF 1(3), of i] by auto
    show ?thesis
    proof (cases "buf ! i = CHR_backslash")
      case False
      then have "at_param_loop inside len i buf = at_param_loop inside len (Suc i) buf" using True c by (subst at_param_loop.simps) simp
      then show ?thesis using 1(2) [OF c] True False 1(3) by fastforce
    next
      case bs: True
      from 1(3) c(1) show ?thesis
      proof (cases rule: escape_safe)
        case (esc buf' len')
        then have "at_param_loop inside len i buf = at_param_loop inside len' (Suc i) buf'" using True bs c by (subst at_param_loop.simps) simp
        then show ?thesis using 1(1) [OF c _ bs esc(1) refl esc(3)] True esc by fastforce
      next
        case (abort buf')
        then have "at_param_loop inside len i buf = Some (Param_Abort, len, i, buf')" using True bs c by (subst at_param_loop.simps) simp
        then show ?thesis using abort c(1) by auto
      next
        case err
        then have "at_param_loop inside len i buf = Some (Param_Error, len, i + 1, buf)" using True bs c by (subst at_param_loop.simps) simp
        then show ?thesis using 1(3) c(1) by auto
      qed
    qed
  qed
qed

definition params_ok :: "at_params \<Rightarrow> bool" where
  "params_ok q \<longleftrightarrow> buf_ok (q_buf q) (q_len q) \<and> q_index q < length (q_buf q) \<and> params_in (q_buf q) (q_params q) \<and>
     length (q_params q) \<le> QAT_MAXIMUM_NUMBER_OF_PARAMETERS + 1"

text \<open>The closing quote and the character behind it.\<close>

lemma end_param_safe:
  assumes "buf_ok buf len" and "i \<le> len" and "start \<le> i" and "list_all (\<lambda>p. String_Value p < length buf) (q_params q)" and "length (q_params q) \<le> 32"
  shows "\<exists>sub q'. end_param start len i inside buf q = Some (sub, q') \<and> params_ok q' \<and> q_len q' = len \<and> length (q_buf q') = length buf \<and> i \<le> q_index q'"
proof -
  have c: "char_at buf i = Some (buf ! i)" using buf_ok_char [OF assms(1)] assms(2) by simp
  obtain inside' k b where k: "(if buf ! i = CHR_quote
      then do { buf \<leftarrow> put_char buf i 0; buf \<leftarrow> (if inside \<and> i + 1 < len then do { d \<leftarrow> char_at buf (i + 1); if d = CHR_comma then put_char buf (i + 1) 0 else Some buf } else Some buf);
        Some (\<not> inside, i + 1, buf) } else Some (inside, i, buf)) = Some (inside', k, b)" "i \<le> k" "k \<le> len + 1" "buf_ok b len" "length b = length buf"
  proof (cases "buf ! i = CHR_quote")
    case True
    obtain b1 where b1: "put_char buf i 0 = Some b1" "buf_ok b1 len" "length b1 = length buf" using buf_ok_put [OF assms(1,2)] by blast
    obtain b2 where "(if inside \<and> i + 1 < len then do { d \<leftarrow> char_at b1 (i + 1); if d = CHR_comma then put_char b1 (i + 1) 0 else Some b1 } else Some b1) = Some b2"
      "buf_ok b2 len" "length b2 = length buf"
    proof (cases "inside \<and> i + 1 < len")
      case True
      then have d: "char_at b1 (i + 1) = Some (b1 ! (i + 1))" using buf_ok_char [OF b1(2), of "i + 1"] by simp
      obtain b2 where "put_char b1 (i + 1) 0 = Some b2" "buf_ok b2 len" "length b2 = length b1" using buf_ok_put [OF b1(2), of "i + 1"] True by auto
      then show ?thesis using that [of b1] that [of b2] True d b1 by (cases "b1 ! (i + 1) = CHR_comma") simp_all
    qed (use that b1 in auto)
    then show ?thesis using that [of "\<not> inside" "i + 1" b2] True b1 assms(2) by simp
  qed (use that assms in simp)
  have d: "char_at b k = Some (b ! k)" using buf_ok_char [OF k(4,3)] .
  obtain j b' where j: "(if k < len then do { buf \<leftarrow> put_char b k 0; Some (k + 1, buf) } else Some (k, b)) = Some (j, b')" "buf_ok b' len" "length b' = length buf" "k \<le> j" "j \<le> len + 1"
  proof (cases "k < len")
    case True
    obtain b1 where "put_char b k 0 = Some b1" "buf_ok b1 len" "length b1 = length b" using buf_ok_put [OF k(4), of k] True by auto
    then show ?thesis using that [of "k + 1" b1] True k by simp
  qed (use that k in simp)
  have t: "terminated b'" "start < length b'" "j < length b'" using j(2,3,5) assms(1-3) by (auto simp: buf_ok_def)
  show ?thesis using c k(1,2) d j t assms(4,5) terminated_string [OF t(1,2)]
    by (auto simp: end_param_def Let_def params_ok_def params_in_def)
qed


lemma params_step_safe:
  assumes "params_ok q" and "q_index q < q_len q" and "length (q_params q) \<le> 32" and "q_buf q ! q_index q \<noteq> CHR_semicolon"
  shows "\<exists>more r q'. params_step q = Some ((more, r), q') \<and> params_ok q' \<and> length (q_buf q') = length (q_buf q) \<and> q_len q' \<le> q_len q \<and>
    q_index q \<le> q_index q' \<and> (more \<longrightarrow> q_index q < q_index q')"
proof -
  let ?b = "q_buf q" and ?k = "q_index q" and ?len = "q_len q"
  have b: "buf_ok ?b ?len" "?len + 1 < length ?b" "params_in ?b (q_params q)" using assms(1) by (simp_all add: params_ok_def buf_ok_def)
  have c: "char_at ?b ?k = Some (?b ! ?k)" using buf_ok_char [OF b(1)] assms(2) by simp
  define i where "i = (if ?b ! ?k = CHR_quote then ?k + 1 else ?k)"
  define ins where "ins = (?b ! ?k = CHR_quote \<or> q_inside q)"
  have i: "?k \<le> i" "i \<le> ?len" "char_at ?b i = Some (?b ! i)" using assms(2) buf_ok_char [OF b(1), of i] by (auto simp: i_def)
  let ?q = "q\<lparr>q_inside := ins, q_index := i\<rparr>"
  consider (sep) "?b ! ?k \<in> {CHR_space, CHR_open, CHR_comma, CHR_close}" | (none) "?b ! ?k \<notin> {CHR_space, CHR_open, CHR_comma, CHR_close}" "i = ?len \<or> ?b ! i \<in> {CHR_semicolon, CHR_comma}"
    | (param) "?b ! ?k \<notin> {CHR_space, CHR_open, CHR_comma, CHR_close}" "i < ?len" "?b ! i \<notin> {CHR_semicolon, CHR_comma}" using i(2) by force
  then show ?thesis
  proof cases
    case sep
    then have "params_step q = Some ((True, Params_Done), q\<lparr>q_index := ?k + 1\<rparr>)" using c by (auto simp: params_step_def)
    then show ?thesis using assms(1,2) b by (auto simp: params_ok_def)
  next
    case none
    then have "params_step q = Some ((True, Params_Done), ?q)" using c i by (auto simp: params_step_def Let_def i_def ins_def)
    moreover have "?k < i" using none assms(2,4) by (auto simp: i_def split: if_splits)
    ultimately show ?thesis using assms(1) b i(2) by (auto simp: params_ok_def)
  next
    case param
    obtain r len j buf where p: "at_param_loop ins ?len i ?b = Some (r, len, j, buf)" "buf_ok buf len" "length buf = length ?b" "len \<le> ?len" "j \<le> len" "i \<le> j"
      "?b ! i \<notin> {CHR_quote, CHR_comma, CHR_semicolon, CHR_close} \<and> r \<noteq> Param_Abort \<Longrightarrow> i < j" using at_param_loop_safe [OF b(1) i(2), of ins] param(2) by blast
    have s: "params_step q = (if r = Param_Abort then Some ((False, Params_Abort), ?q\<lparr>q_buf := buf, q_len := len, q_index := j\<rparr>)
      else do { (sub_command, q) \<leftarrow> end_param i len j ins buf ?q; Some ((\<not> sub_command \<and> r = Param_Done, if r = Param_Done then Params_Done else Params_Error), q) })"
      using param c i(3) p(1) by (auto simp: params_step_def Let_def i_def ins_def)
    have l: "j < length buf" using p(2,5) by (simp add: buf_ok_def)
    show ?thesis
    proof (cases "r = Param_Abort")
      case True
      have "params_in buf (q_params q)" using p(2,3) b(3) by (simp add: params_in_def buf_ok_def)
      then show ?thesis using s p(2-6) l i(1) assms(3) True by (simp add: params_ok_def) blast
    next
      case False
      have "?k < j" using False p(6,7) i(1) param by (auto simp: i_def split: if_splits)
      moreover obtain sub q' where "end_param i len j ins buf ?q = Some (sub, q')" "params_ok q'" "q_len q' = len" "length (q_buf q') = length buf" "j \<le> q_index q'"
        using end_param_safe [OF p(2,5,6), of ?q ins] b(3) p(3) assms(3) by (auto simp: params_in_def)
      ultimately show ?thesis using s False p(3,4) by auto
    qed
  qed
qed

lemma params_loop_safe:
  assumes "params_ok q"
  shows "\<exists>r q'. params_loop q = Some (r, q') \<and> params_ok q' \<and> length (q_buf q') = length (q_buf q) \<and> q_len q' \<le> q_len q \<and> q_index q \<le> q_index q'"
  using assms
proof (induction "q_len q - q_index q" arbitrary: q rule: less_induct)
  case less
  show ?case
  proof (cases "q_index q < q_len q \<and> length (q_params q) \<le> 32 \<and> q_buf q ! q_index q \<noteq> CHR_semicolon")
    case True
    then have c: "char_at (q_buf q) (q_index q) = Some (q_buf q ! q_index q)" using less.prems buf_ok_char [of "q_buf q" "q_len q" "q_index q"] by (simp add: params_ok_def)
    obtain more r q1 where s: "params_step q = Some ((more, r), q1)" "params_ok q1" "length (q_buf q1) = length (q_buf q)" "q_len q1 \<le> q_len q" "q_index q \<le> q_index q1"
      "more \<Longrightarrow> q_index q < q_index q1" using params_step_safe [OF less.prems] True by blast
    have u: "params_loop q = (if more then params_loop q1 else Some (r, q1))" using True c s(1) by (subst params_loop.simps) simp
    show ?thesis
    proof (cases more)
      case m: True
      then have "q_len q1 - q_index q1 < q_len q - q_index q" using s(4) s(6) [OF m] True by linarith
      from less.hyps [OF this s(2)] s u m show ?thesis by force
    qed (use s u in auto)
  next
    case False
    have "char_at (q_buf q) (q_index q) = Some (q_buf q ! q_index q)" if "q_index q < q_len q"
      using less.prems that buf_ok_char [of "q_buf q" "q_len q" "q_index q"] by (simp add: params_ok_def)
    then have "params_loop q = Some (Params_Done, q)" using False by (subst params_loop.simps) auto
    then show ?thesis using less.prems by simp
  qed
qed

section \<open>A command\<close>

definition at_inv :: "qat \<Rightarrow> bool" where
  "at_inv s \<longleftrightarrow> length (at_input s) = QAT_MAXIMUM_COMMAND_STRING_LENGTH + 1 \<and> buf_ok (at_input s) (at_length s) \<and>
     (transfer_mode s \<noteq> QAT_Transfer_Mode_AT_COMMAND_E \<longrightarrow> mode_handle s \<noteq> None)"

text \<open>What the parser relies on: commands and mode handlers return, keep the invariant and do not lengthen the input.\<close>

definition good_at :: "at_env \<Rightarrow> bool" where
  "good_at env \<longleftrightarrow>
     (\<forall>f op arg s. at_inv s \<longrightarrow> (\<exists>r s'. at_command env f op arg s = Some (r, s') \<and> at_inv s' \<and> at_length s' \<le> at_length s)) \<and>
     (\<forall>h bs s. at_inv s \<longrightarrow> (\<exists>r s'. mode_function env h bs s = Some (r, s') \<and> at_inv s'))"

lemma respond_safe:
  assumes "code = QAT_RC_OK \<or> code = QAT_RC_ERROR"
  shows "\<exists>tx. respond env code s = Some (s\<lparr>Tx_Queue := tx\<rparr>)"
proof -
  have "result_str code \<noteq> None" using assms by (auto simp: result_str_def QAT_Result_Str_def)
  then obtain res where res: "result_str code = Some res" by blast
  have m: "queue_message (Suc (length res + 9)) (response_text code [] res) s = Some (s\<lparr>Tx_Queue := Tx_Queue s @ [(of_nat (length (response_text code [] res)), response_text code [] res)]\<rparr>)"
    by (simp add: queue_message_def)
  have "\<exists>tx. s = s\<lparr>Tx_Queue := tx\<rparr>" by (rule exI [of _ "Tx_Queue s"]) simp
  then show ?thesis using assms res m by (auto simp: respond_def QAT_Response_Str_def Let_def)
qed

lemma at_inv_tx [simp]: "at_inv (s\<lparr>Tx_Queue := tx\<rparr>) = at_inv s" "at_inv (s\<lparr>wire := w\<rparr>) = at_inv s"
  by (simp_all add: at_inv_def)

lemma respond_errors_safe: "\<exists>tx. respond_errors env n s = Some (s\<lparr>Tx_Queue := tx\<rparr>)"
proof (induction n arbitrary: s)
  case 0
  have "s = s\<lparr>Tx_Queue := Tx_Queue s\<rparr>" by simp
  then show ?case by (metis respond_errors.simps(1))
next
  case (Suc n)
  obtain tx where "respond env QAT_RC_ERROR s = Some (s\<lparr>Tx_Queue := tx\<rparr>)" using respond_safe by blast
  then show ?case using Suc [of "s\<lparr>Tx_Queue := tx\<rparr>"] by auto
qed

lemma name_loop_start:
  assumes "at_inv s" and "i < at_length s" and "at_input s ! i = CHR_plus"
  shows "\<exists>a. name_loop (at_start i s) = Some a \<and> name_inv a \<and> length (a_buf a) = length (at_input s) \<and> a_len a = at_length s \<and> i < a_index a \<and> a_flag a AND 1 = 1"
proof -
  let ?a = "(at_start i s)\<lparr>a_name := Some i, a_end := Some (i + 1), a_index := i + 1, a_flag := 1\<rparr>"
  have b: "buf_ok (at_input s) (at_length s)" "at_length s + 1 < length (at_input s)" using assms(1) by (simp_all add: at_inv_def buf_ok_def)
  have c: "char_at (at_input s) i = Some CHR_plus" using buf_ok_char [OF b(1)] assms(2,3) by simp
  then have "skip_spaces (at_input s) i = Some i" by (subst skip_spaces.simps) simp
  then have "name_step (at_start i s) = Some (True, ?a)" using c by (simp add: name_step_def at_start_def)
  then have "name_loop (at_start i s) = name_loop ?a" using assms(2) c by (subst name_loop.simps) (simp add: at_start_def)
  moreover have "name_inv ?a" using b assms(2) by (simp add: name_inv_def at_start_def)
  ultimately show ?thesis using name_loop_safe [of ?a] by (auto simp: at_start_def Suc_le_eq)
qed

lemma lookup_name_safe:
  assumes "name_inv a" and "a_flag a AND 1 = 1"
  shows "\<exists>c a'. lookup_name s a = Some (c, a') \<and> name_inv a' \<and> length (a_buf a') = length (a_buf a) \<and> a_len a' = a_len a \<and> a_index a' = a_index a \<and>
    a_flag a' = a_flag a \<and> (a_ok a' \<longrightarrow> c \<noteq> None)"
proof (cases "a_ok a")
  case True
  obtain n e where ne: "a_name a = Some n" "a_end a = Some e" "n < length (a_buf a)" "e \<le> a_index a" "e \<le> a_len a" using assms(1) by (auto simp: name_inv_def)
  have b: "buf_ok (a_buf a) (a_len a)" "a_index a < length (a_buf a)" using assms(1) by (simp_all add: name_inv_def)
  obtain b1 where b1: "(if a_exec a then put_char (a_buf a) e 0 else Some (a_buf a)) = Some b1" "buf_ok b1 (a_len a)" "length b1 = length (a_buf a)"
    using buf_ok_put [OF b(1) ne(5), of 0] b(1) by (cases "a_exec a") auto
  obtain b2 where b2: "(if a_exec a then put_char b1 e CHR_semicolon else Some b1) = Some b2" "buf_ok b2 (a_len a)" "length b2 = length b1"
    using buf_ok_put [OF b1(2) ne(5), of CHR_semicolon] b1(2) by (cases "a_exec a") auto
  have "c_string b1 n = Some (takeWhile (\<lambda>c. c \<noteq> 0) (drop n b1))" using b1(2,3) ne(3) by (intro terminated_string) (simp_all add: buf_ok_def)
  then show ?thesis using True assms(2) ne b b1 b2 by (simp add: lookup_name_def name_inv_def at_error_def Let_def)
qed (use assms in \<open>simp add: lookup_name_def\<close>)

lemma take_params_safe:
  assumes "name_inv a"
  shows "\<exists>ok n q. take_params a = Some (ok, n, q) \<and> params_ok q \<and> length (q_buf q) = length (a_buf a) \<and> q_len q \<le> a_len a \<and> a_index a \<le> q_index q \<and> (ok \<longrightarrow> a_ok a)"
proof -
  let ?q = "\<lparr>q_buf = a_buf a, q_len = a_len a, q_index = a_index a, q_inside = False, q_params = [], q_default = 0\<rparr>"
  have q: "params_ok ?q" using assms by (simp add: params_ok_def name_inv_def params_in_def buf_ok_def)
  from params_loop_safe [OF q] obtain r q' where "params_loop ?q = Some (r, q')" "params_ok q'" "length (q_buf q') = length (a_buf a)" "q_len q' \<le> a_len a" "a_index a \<le> q_index q'"
    by auto
  then show ?thesis using q by (simp add: take_params_def Let_def) blast
qed

lemma run_at_command_safe:
  assumes "good_at env" and "at_inv s" and "c \<noteq> None"
  shows "\<exists>ok s'. run_at_command env c flag q s = Some (ok, s') \<and> at_inv s' \<and> at_length s' \<le> at_length s"
proof -
  obtain tx where tx: "respond env QAT_RC_ERROR s = Some (s\<lparr>Tx_Queue := tx\<rparr>)" using respond_safe by blast
  obtain d where d: "c = Some d" using assms(3) by blast
  show ?thesis
  proof (cases "op_type flag")
    case (Some op)
    obtain r s' where "at_command env (at_function d) op (At_Params (q_buf q) (q_params q) (q_default q)) s = Some (r, s')" "at_inv s'" "at_length s' \<le> at_length s"
      using assms(1,2) unfolding good_at_def by blast
    then show ?thesis using tx d assms(2) Some by (simp add: run_at_command_def) blast
  qed (use tx assms(2) in \<open>auto simp: run_at_command_def\<close>)
qed

lemma Process_AT_safe:
  assumes "good_at env" and "at_inv s" and "i < at_length s" and "at_input s ! i = CHR_plus"
  shows "\<exists>ok j s'. Process_AT_Extend_Command env i s = Some (ok, j, s') \<and> at_inv s' \<and> at_length s' \<le> at_length s \<and> i < j"
proof -
  obtain a where a: "name_loop (at_start i s) = Some a" "name_inv a" "length (a_buf a) = length (at_input s)" "a_len a = at_length s" "i < a_index a" "a_flag a AND 1 = 1"
    using name_loop_start [OF assms(2-4)] by blast
  obtain c a' where c: "lookup_name s a = Some (c, a')" "name_inv a'" "length (a_buf a') = length (a_buf a)" "a_len a' = a_len a" "a_index a' = a_index a" "a_ok a' \<Longrightarrow> c \<noteq> None"
    using lookup_name_safe [OF a(2,6)] by blast
  obtain ok n q where q: "take_params a' = Some (ok, n, q)" "params_ok q" "length (q_buf q) = length (a_buf a')" "q_len q \<le> a_len a'" "a_index a' \<le> q_index q" "ok \<Longrightarrow> a_ok a'"
    using take_params_safe [OF c(2)] by blast
  let ?s = "s\<lparr>at_input := q_buf q, at_length := q_len q\<rparr>"
  obtain tx where tx: "respond_errors env (a_errors a' + n) ?s = Some (?s\<lparr>Tx_Queue := tx\<rparr>)" using respond_errors_safe by blast
  have inv: "at_inv (?s\<lparr>Tx_Queue := tx\<rparr>)" using assms(2) a(3) c(3) q(2,3) by (simp add: at_inv_def params_ok_def)
  have ij: "i < q_index q" "q_len q \<le> at_length s" using a(4,5) c(4,5) q(4,5) by simp_all
  show ?thesis
  proof (cases ok)
    case True
    then obtain r s' where "run_at_command env c (a_flag a') q (?s\<lparr>Tx_Queue := tx\<rparr>) = Some (r, s')" "at_inv s'" "at_length s' \<le> q_len q"
      using run_at_command_safe [OF assms(1) inv, of c "a_flag a'" q] c(6) q(6) by auto
    then show ?thesis using a(1) c(1) q(1) tx ij True by (simp add: Process_AT_Extend_Command_def)
  qed (use a(1) c(1) q(1) tx ij inv in \<open>auto simp: Process_AT_Extend_Command_def\<close>)
qed

lemma command_loop_safe:
  assumes "good_at env" and "at_inv s"
  shows "\<exists>b s'. command_loop env i sub s = Some (b, s') \<and> at_inv s'"
  using assms(2)
proof (induction "at_length s - i" arbitrary: i sub s rule: less_induct)
  case less
  show ?case
  proof (cases "i < at_length s")
    case True
    let ?c = "at_input s ! i"
    have c: "char_at (at_input s) i = Some ?c" using less.prems True buf_ok_char [of "at_input s" "at_length s" i] by (simp add: at_inv_def)
    consider (skip) "?c = CHR_space \<or> ?c = CHR_semicolon" | (plus) "?c = CHR_plus" | (other) "\<not> (?c = CHR_space \<or> ?c = CHR_semicolon)" "?c \<noteq> CHR_plus" by blast
    then show ?thesis
    proof cases
      case skip
      then have "command_loop env i sub s = command_loop env (i + 1) sub s" using True c by (subst command_loop.simps) simp
      then show ?thesis using less.hyps [of s "i + 1" sub] True less.prems by simp
    next
      case plus
      obtain ok j s' where p: "Process_AT_Extend_Command env i s = Some (ok, j, s')" "at_inv s'" "at_length s' \<le> at_length s" "i < j"
        using Process_AT_safe [OF assms(1) less.prems True plus] by blast
      have "command_loop env i sub s = (if ok then command_loop env j True s' else Some (True, s'))" using True c plus p(1) by (subst command_loop.simps) simp
      moreover have "at_length s' - j < at_length s - i" using p(3,4) True by linarith
      ultimately show ?thesis using less.hyps [of s' j True] p(2) by (cases ok) auto
    next
      case other
      obtain tx where "respond env QAT_RC_ERROR s = Some (s\<lparr>Tx_Queue := tx\<rparr>)" using respond_safe by blast
      then have "command_loop env i sub s = Some (sub, s\<lparr>Tx_Queue := tx\<rparr>)" using True c other by (subst command_loop.simps) simp
      then show ?thesis using less.prems by simp
    qed
  next
    case False
    then have "command_loop env i sub s = Some (sub, s)" by (subst command_loop.simps) simp
    then show ?thesis using less.prems by simp
  qed
qed

lemma Process_Command_safe:
  assumes "good_at env" and "at_inv s"
  shows "\<exists>s'. At_Process_Command env s = Some s' \<and> at_inv s'"
proof -
  have b: "terminated (at_input s)" "length (at_input s) = 2049" "at_length s \<le> 2047" using assms(2) by (simp_all add: at_inv_def buf_ok_def)
  obtain i where i: "skip_spaces (at_input s) 0 = Some i" "i < length (at_input s)" using skip_spaces_safe [OF b(1), of 0] skip_spaces_ge [of "at_input s" 0] b(2) by auto
  obtain tx where tx: "respond env QAT_RC_ERROR s = Some (s\<lparr>Tx_Queue := tx\<rparr>)" using respond_safe by blast
  have c: "char_at (at_input s) i = Some (at_input s ! i)" using i(2) by (simp add: char_at_def)
  show ?thesis
  proof (cases "starts_with_at (at_input s) (at_length s) i = Some True")
    case True
    then have "i + 2 \<le> at_length s" by (simp add: starts_with_at_def split: if_splits)
    then have "i + 2 < length (at_input s)" using b by simp
    then obtain j where j: "skip_spaces (at_input s) (i + 2) = Some j" using skip_spaces_safe [OF b(1)] by blast
    obtain sub s' where s': "command_loop env j False s = Some (sub, s')" "at_inv s'" using command_loop_safe [OF assms] by blast
    obtain tx' where "respond env QAT_RC_OK s' = Some (s'\<lparr>Tx_Queue := tx'\<rparr>)" using respond_safe by blast
    then show ?thesis using True i(1) j s' by (simp add: At_Process_Command_def)
  next
    case False
    have "char_at (at_input s) (i + 1) = Some (at_input s ! (i + 1))" if "i + 1 < at_length s" using that b by (simp add: char_at_def)
    then have "starts_with_at (at_input s) (at_length s) i = Some False" using c False by (auto simp: starts_with_at_def split: if_splits)
    then show ?thesis using i(1) c tx assms(2) by (simp add: At_Process_Command_def)
  qed
qed

section \<open>Input\<close>

text \<open>Lines that are shorter than the buffer by one character, counted from the characters already there.\<close>

fun short_lines :: "nat \<Rightarrow> u8 list \<Rightarrow> bool" where
  "short_lines n [] \<longleftrightarrow> True"
| "short_lines n (c # cs) \<longleftrightarrow> (if c = 13 then short_lines 0 cs else n + 1 < QAT_MAXIMUM_COMMAND_STRING_LENGTH \<and> short_lines (n + 1) cs)"

lemma at_inv_echo [simp]: "at_inv (echo_out bs s) = at_inv s" "at_length (echo_out bs s) = at_length s" "at_input (echo_out bs s) = at_input s"
  by (simp_all add: echo_out_def QAT_Output_def)

lemma at_inv_set:
  assumes "at_inv s" and "buf_ok buf len" and "length buf = length (at_input s)"
  shows "at_inv (s\<lparr>at_input := buf, at_length := len\<rparr>)"
  using assms by (simp add: at_inv_def)

lemma clear_input_inv: "at_inv s \<Longrightarrow> at_inv (clear_input s)"
  by (auto simp: at_inv_def clear_input_def buf_ok_def terminated_def)

lemma at_char_safe:
  assumes "good_at env" and "at_inv s" and "c = 13 \<or> at_length s + 1 < 2048"
  shows "\<exists>s'. at_char env c s = Some s' \<and> at_inv s' \<and> at_length s' \<le> (if c = 13 then 0 else at_length s + 1)"
proof -
  have b: "buf_ok (at_input s) (at_length s)" "length (at_input s) = 2049" using assms(2) by (simp_all add: at_inv_def)
  consider (cr) "c = 13" | (bs) "c = 8" "0 < at_length s" | (put) "c \<noteq> 13" "c \<noteq> 8" "0x20 \<le> c \<and> c \<le> 0x7E"
    | (none) "c \<noteq> 13" "c = 8 \<and> at_length s = 0 \<or> c \<noteq> 8 \<and> \<not> (0x20 \<le> c \<and> c \<le> 0x7E)" by blast
  then show ?thesis
  proof cases
    case cr
    let ?s = "if at_length s = 0 then echo_out END_OF_LINE s else s"
    have "at_inv ?s" using assms(2) by simp
    then obtain s' where "At_Process_Command env ?s = Some s'" "at_inv s'" using Process_Command_safe [OF assms(1)] by blast
    then show ?thesis using cr clear_input_inv [of s'] by (simp add: at_char_def Let_def) (simp add: clear_input_def)
  next
    case bs
    obtain buf where "put_char (at_input s) (at_length s - 1) 0 = Some buf" "buf_ok buf (at_length s)" "length buf = length (at_input s)" using buf_ok_put [OF b(1), of "at_length s - 1" 0] by auto
    then show ?thesis using bs at_inv_set [of "echo_out [8, 32, 8] s" buf "at_length s - 1"] buf_ok_less [of buf "at_length s" "at_length s - 1"] assms(2)
      by (simp add: at_char_def Let_def)
  next
    case put
    then have l: "at_length s + 1 < 2048" using assms(3) by simp
    obtain buf where buf: "put_char (at_input s) (at_length s) c = Some buf" "buf_ok buf (at_length s)" "length buf = length (at_input s)" using buf_ok_put [OF b(1)] by blast
    then have "buf_ok buf (at_length s + 1)" using l b(2) by (simp add: buf_ok_def)
    then show ?thesis using put l buf at_inv_set [of "echo_out [c] s" buf "at_length s + 1"] assms(2) by (simp add: at_char_def store_char_def)
  next
    case none
    then show ?thesis using assms(2) by (auto simp: at_char_def)
  qed
qed

lemma short_lines_mono: "short_lines n cs \<Longrightarrow> m \<le> n \<Longrightarrow> short_lines m cs"
  by (induction n cs arbitrary: m rule: short_lines.induct) (auto split: if_splits)

lemma at_chars_safe:
  assumes "good_at env" and "at_inv s" and "short_lines (at_length s) cs"
  shows "\<exists>s'. at_chars env cs s = Some s' \<and> at_inv s'"
  using assms(2,3)
proof (induction cs arbitrary: s)
  case (Cons c cs)
  have "c = 13 \<or> at_length s + 1 < 2048" using Cons.prems(2) by (auto split: if_splits)
  then obtain s' where s': "at_char env c s = Some s'" "at_inv s'" "at_length s' \<le> (if c = 13 then 0 else at_length s + 1)"
    using at_char_safe [OF assms(1) Cons.prems(1)] by blast
  then have "short_lines (at_length s') cs" using Cons.prems(2) short_lines_mono [OF _ s'(3)] by (auto split: if_splits)
  then show ?case using Cons.IH [OF s'(2)] s'(1) by simp
qed simp

lemma at_inv_initial: "at_inv (QAT_TxTask_Initialize command echo_on)"
  by (simp add: at_inv_def QAT_TxTask_Initialize_def buf_ok_def terminated_def)

end
