(* ===== verification/QatLine.thy ===== *)
theory QatLine
  imports QatSafe
begin

text \<open>
  Whole lines at the AT interface: no line shorter than the buffer makes the parser leave it, and what a mistyped line leaves behind it becomes
  part of a parameter of the next line.
\<close>

section \<open>Lines are stored\<close>

definition printable :: "u8 \<Rightarrow> bool" where
  "printable c \<longleftrightarrow> 0x20 \<le> c \<and> c \<le> 0x7E"

lemma at_char_printable:
  assumes "printable c" and "at_length s < 2048" and "length (at_input s) = 2049" and "\<not> Echo_Enable s"
  shows "at_char env c s = Some (s\<lparr>at_input := (at_input s)[at_length s := c], at_length := at_length s + 1\<rparr>)"
proof -
  have "c \<noteq> 13" "c \<noteq> 8" using assms(1) by (auto simp: printable_def)
  then show ?thesis using assms by (simp add: at_char_def printable_def store_char_def put_char_def echo_out_def)
qed

lemma at_chars_printable:
  assumes "list_all printable cs" and "at_length s + length cs \<le> 2048" and "length (at_input s) = 2049" and "\<not> Echo_Enable s"
  shows "at_chars env (cs @ ds) s = at_chars env ds (s\<lparr>at_input := take (at_length s) (at_input s) @ cs @ drop (at_length s + length cs) (at_input s),
    at_length := at_length s + length cs\<rparr>)"
  using assms
proof (induction cs arbitrary: s)
  case (Cons c cs)
  let ?s = "s\<lparr>at_input := (at_input s)[at_length s := c], at_length := at_length s + 1\<rparr>"
  have "at_char env c s = Some ?s" using Cons.prems by (intro at_char_printable) auto
  moreover have "take (at_length s + 1) ((at_input s)[at_length s := c]) = take (at_length s) (at_input s) @ [c]"
    using Cons.prems(2,3) by (simp add: take_Suc_conv_app_nth)
  ultimately show ?case using Cons.IH [of ?s] Cons.prems by simp
qed simp

section \<open>The name of a line\<close>

lemma name_loop_chars:
  assumes "list_all name_char cs" and "take (length cs) (drop (a_index a) (a_buf a)) = cs" and "a_index a + length cs \<le> a_len a" and "a_ok a"
    and "a_name a = Some n" and "a_end a = Some e"
  shows "name_loop a = name_loop (a\<lparr>a_exec := (a_exec a \<or> cs \<noteq> []), a_end := Some (e + length cs), a_index := a_index a + length cs\<rparr>)"
  using assms
proof (induction cs arbitrary: a e)
  case (Cons c cs)
  have l: "a_index a < length (a_buf a)" using Cons.prems(2) by (cases "a_index a < length (a_buf a)") auto
  have d: "drop (a_index a) (a_buf a) = a_buf a ! a_index a # drop (Suc (a_index a)) (a_buf a)" using l by (simp add: Cons_nth_drop_Suc)
  have c: "a_buf a ! a_index a = c" "take (length cs) (drop (Suc (a_index a)) (a_buf a)) = cs" using Cons.prems(2) d by simp_all
  have n: "name_char c" using Cons.prems(1) by simp
  then have x: "c \<notin> {CHR_space, CHR_semicolon, CHR_plus, CHR_equals, CHR_question}" by (auto simp: name_char_def)
  have at: "char_at (a_buf a) (a_index a) = Some c" using l c(1) by (simp add: char_at_def)
  then have "skip_spaces (a_buf a) (a_index a) = Some (a_index a)" using x by (subst skip_spaces.simps) simp
  then have "name_step a = Some (True, a\<lparr>a_exec := True, a_end := Some (e + 1), a_index := a_index a + 1\<rparr>)"
    using at x n Cons.prems(5,6) by (simp add: name_step_def name_other_def)
  then have "name_loop a = name_loop (a\<lparr>a_exec := True, a_end := Some (e + 1), a_index := a_index a + 1\<rparr>)"
    using at x Cons.prems(3,4) by (subst name_loop.simps) simp
  also have "\<dots> = name_loop (a\<lparr>a_exec := True, a_end := Some (e + 1 + length cs), a_index := a_index a + 1 + length cs\<rparr>)"
    using Cons.IH [of "a\<lparr>a_exec := True, a_end := Some (e + 1), a_index := a_index a + 1\<rparr>" "e + 1"] Cons.prems c(2) by simp
  finally show ?case by simp
next
  case Nil
  then have "a\<lparr>a_end := Some e\<rparr> = a" by (cases a) simp
  then show ?case by simp
qed

text \<open>A line begins with \<open>AT+\<close> and a name.\<close>

definition AT_plus :: "u8 list" where
  "AT_plus = ascii ''AT+''"

lemma AT_plus_chars: "AT_plus = [0x41, 0x54, CHR_plus]"
  by (simp add: AT_plus_def ascii_def)

lemma name_loop_line:
  assumes "at_input s = AT_plus @ n @ ds" and "list_all name_char n" and "n \<noteq> []" and "3 + length n \<le> at_length s" 
  shows "name_loop (at_start 2 s) = name_loop ((at_start 2 s)\<lparr>a_name := Some 2, a_end := Some (3 + length n), a_index := 3 + length n, a_flag := 1, a_exec := True\<rparr>)"
proof -
  let ?a = "(at_start 2 s)\<lparr>a_name := Some 2, a_end := Some 3, a_index := 3, a_flag := 1\<rparr>"
  have c: "char_at (at_input s) 2 = Some CHR_plus" using assms(1) by (simp add: AT_plus_chars char_at_def)
  then have "skip_spaces (at_input s) 2 = Some 2" by (subst skip_spaces.simps) simp
  then have "name_step (at_start 2 s) = Some (True, ?a)" using c by (simp add: name_step_def at_start_def)
  then have "name_loop (at_start 2 s) = name_loop ?a" using assms(4) c by (subst name_loop.simps) (simp add: at_start_def)
  also have "\<dots> = name_loop (?a\<lparr>a_exec := True, a_end := Some (3 + length n), a_index := 3 + length n\<rparr>)"
    using name_loop_chars [of n ?a 2 3] assms by (simp add: at_start_def AT_plus_chars)
  finally show ?thesis by (simp add: at_start_def)
qed

lemma process_line:
  assumes "at_input s = AT_plus @ ds" and "3 \<le> at_length s"
  shows "At_Process_Command env s =
    do { (sub, s) \<leftarrow> command_loop env 2 False s; if sub then Some s else respond env QAT_RC_OK s }"
proof -
  have "char_at (at_input s) 0 = Some 0x41" "char_at (at_input s) (Suc 0) = Some 0x54" "char_at (at_input s) 2 = Some CHR_plus"
    using assms(1) by (simp_all add: AT_plus_chars char_at_def)
  moreover from this have "skip_spaces (at_input s) 0 = Some 0" "skip_spaces (at_input s) 2 = Some 2"
    by (subst skip_spaces.simps, simp)+
  ultimately show ?thesis using assms(2) by (simp add: At_Process_Command_def starts_with_at_def numeral_2_eq_2)
qed

lemma command_loop_line:
  assumes "at_input s = AT_plus @ ds" and "3 \<le> at_length s"
  shows "command_loop env 2 False s =
    do { (ok, j, s) \<leftarrow> Process_AT_Extend_Command env 2 s; if ok then command_loop env j True s else Some (True, s) }"
  using assms by (subst command_loop.simps) (simp add: AT_plus_chars char_at_def)

lemma name_chars_nonzero: "list_all name_char n \<Longrightarrow> c \<in> set n \<Longrightarrow> c \<noteq> 0 \<and> c \<notin> {CHR_space, CHR_open, CHR_comma, CHR_close, CHR_semicolon, CHR_quote, CHR_backslash, CHR_question}"
  by (auto simp: list_all_iff name_char_def)

lemma c_string_behind:
  assumes "length pre = i" and "0 \<notin> set w"
  shows "c_string (pre @ w @ 0 # zs) i = Some w"
  using assms by (auto simp: c_string_def takeWhile_append)

section \<open>A command that does not exist\<close>

lemma mistyped_parse:
  assumes "at_input s = AT_plus @ n @ x # zs" and "at_length s = 3 + length n" and "list_all name_char n" and "n \<noteq> []"
    and "At_Find_Command s (CHR_plus # n) = None"
  shows "Process_AT_Extend_Command env 2 s =
    do { s \<leftarrow> respond env QAT_RC_ERROR (s\<lparr>at_input := AT_plus @ n @ CHR_semicolon # zs, at_length := 3 + length n\<rparr>); Some (False, 3 + length n, s) }"
proof -
  let ?a = "(at_start 2 s)\<lparr>a_name := Some 2, a_end := Some (3 + length n), a_index := 3 + length n, a_flag := 1, a_exec := True\<rparr>"
  let ?b = "\<lambda>c. AT_plus @ n @ c # zs"
  have "name_loop (at_start 2 s) = name_loop ?a" using name_loop_line [OF assms(1,3,4)] assms(2) by simp
  also have "\<dots> = Some ?a" by (subst name_loop.simps) (simp add: at_start_def assms(2))
  finally have nl: "name_loop (at_start 2 s) = Some ?a" .
  have z: "0 \<notin> set (CHR_plus # n)" using name_chars_nonzero [OF assms(3)] by auto
  have "c_string ([0x41, 0x54] @ (CHR_plus # n) @ 0 # zs) 2 = Some (CHR_plus # n)" using z by (intro c_string_behind) simp_all
  then have cs: "c_string (?b 0) 2 = Some (CHR_plus # n)" by (simp add: AT_plus_chars)
  have put: "put_char (?b c) (3 + length n) d = Some (?b d)" for c d by (simp add: put_char_def AT_plus_chars list_update_append)
  have "lookup_name s ?a = Some (None, at_error (?a\<lparr>a_buf := ?b CHR_semicolon\<rparr>))"
    using put cs assms(1,5) by (simp add: lookup_name_def at_start_def)
  then show ?thesis using nl assms(2)
    by (simp add: Process_AT_Extend_Command_def take_params_def at_error_def at_start_def)
qed

lemma mistyped_line:
  assumes "at_input s = AT_plus @ n @ x # zs" and "at_length s = 3 + length n" and "list_all name_char n" and "n \<noteq> []"
    and "At_Find_Command s (CHR_plus # n) = None"
  shows "\<exists>tx. At_Process_Command env s = Some (s\<lparr>at_input := AT_plus @ n @ CHR_semicolon # zs, at_length := 3 + length n, Tx_Queue := tx\<rparr>)"
proof -
  obtain tx where "respond env QAT_RC_ERROR (s\<lparr>at_input := AT_plus @ n @ CHR_semicolon # zs, at_length := 3 + length n\<rparr>) =
      Some (s\<lparr>at_input := AT_plus @ n @ CHR_semicolon # zs, at_length := 3 + length n, Tx_Queue := tx\<rparr>)"
    using respond_safe [of QAT_RC_ERROR env "s\<lparr>at_input := AT_plus @ n @ CHR_semicolon # zs, at_length := 3 + length n\<rparr>"] by auto
  then show ?thesis using mistyped_parse [OF assms] process_line [of s "n @ x # zs" env] command_loop_line [of s "n @ x # zs" env] assms(1,2)
    by (intro exI [of _ tx]) simp
qed

section \<open>A command with a parameter\<close>

lemma name_loop_equals:
  assumes "at_input s = AT_plus @ m @ CHR_equals # v @ ds" and "at_length s = 4 + length m + length v" and "list_all name_char m" and "m \<noteq> []"
    and "list_all name_char v" and "v \<noteq> []"
  shows "name_loop (at_start 2 s) = Some ((at_start 2 s)\<lparr>a_buf := AT_plus @ m @ 0 # v @ ds, a_name := Some 2, a_end := Some (3 + length m), a_index := 4 + length m,
    a_flag := 11\<rparr>)"
proof -
  let ?a = "(at_start 2 s)\<lparr>a_name := Some 2, a_end := Some (3 + length m), a_index := 3 + length m, a_flag := 1, a_exec := True\<rparr>"
  let ?b = "AT_plus @ m @ 0 # v @ ds"
  have c: "char_at (at_input s) (3 + length m) = Some CHR_equals" by (simp add: assms(1) char_at_def AT_plus_chars nth_append)
  then have sk: "skip_spaces (at_input s) (3 + length m) = Some (3 + length m)" by (subst skip_spaces.simps) simp
  have p: "put_char (at_input s) (3 + length m) 0 = Some ?b" by (simp add: assms(1) put_char_def AT_plus_chars list_update_append)
  have d: "char_at ?b (4 + length m) = Some (hd v)" using assms(6) by (cases v) (simp_all add: char_at_def AT_plus_chars nth_append)
  have "hd v \<noteq> CHR_question" "0 < length v" using name_chars_nonzero [OF assms(5), of "hd v"] assms(6) by simp_all
  then have "name_loop ?a = Some ((at_start 2 s)\<lparr>a_buf := ?b, a_name := Some 2, a_end := Some (3 + length m), a_index := 4 + length m, a_flag := 11\<rparr>)"
    using c sk p d assms(2) by (subst name_loop.simps) (simp add: at_start_def name_step_def name_equals_def Let_def)
  then show ?thesis using name_loop_line [OF assms(1,3,4)] assms(2) by simp
qed

lemma at_param_loop_chars:
  assumes "list_all name_char cs" and "take (length cs) (drop i buf) = cs" and "len = i + length cs" and "len \<le> length buf"
  shows "at_param_loop inside len i buf = Some (Param_Done, len, len, buf)"
  using assms
proof (induction cs arbitrary: i)
  case Nil
  then show ?case by (subst at_param_loop.simps) simp
next
  case (Cons c cs)
  have l: "i < length buf" using Cons.prems(3,4) by simp
  then have "drop i buf = buf ! i # drop (Suc i) buf" by (simp add: Cons_nth_drop_Suc)
  then have c: "buf ! i = c" "take (length cs) (drop (Suc i) buf) = cs" using Cons.prems(2) by simp_all
  have "at_param_loop inside len (Suc i) buf = Some (Param_Done, len, len, buf)" using Cons.IH [of "Suc i"] Cons.prems c(2) by simp
  then show ?case using l c(1) Cons.prems(3) name_chars_nonzero [OF Cons.prems(1), of c] by (subst at_param_loop.simps) (simp add: char_at_def)
qed

lemma line_drop: "drop (4 + length m) (AT_plus @ m @ y # ds) = ds"
  using drop_append [of "Suc 3 + length m" "AT_plus @ m" "y # ds"] by (simp add: AT_plus_chars)

lemma line_string:
  assumes "list_all name_char v" and "x = 0 \<or> x = CHR_semicolon"
  shows "c_string (AT_plus @ m @ 0 # v @ x # 0 # zs) (4 + length m) = Some (v @ (if x = 0 then [] else [x]))"
proof -
  have "0 \<notin> set v" using name_chars_nonzero [OF assms(1)] by auto
  then show ?thesis using assms(2) unfolding c_string_def line_drop by (auto simp: takeWhile_append)
qed

text \<open>The character behind the line, zero or a semicolon, decides if the parameter ends with the line.\<close>

lemma line_params:
  assumes "buf = AT_plus @ m @ 0 # v @ x # 0 # zs" and "len = 4 + length m + length v" and "list_all name_char v" and "v \<noteq> []" and "x = 0 \<or> x = CHR_semicolon"
  shows "params_loop \<lparr>q_buf = buf, q_len = len, q_index = 4 + length m, q_inside = False, q_params = [], q_default = 0\<rparr> =
    Some (Params_Done, \<lparr>q_buf = buf, q_len = len, q_index = len, q_inside = False,
      q_params = [let w = v @ (if x = 0 then [] else [x]); number = QCLI_String_To_Integer w in
        \<lparr>String_Value = 4 + length m, Integer_Value = snd number, Integer_Is_Valid = fst number\<rparr>], q_default = 0\<rparr>)" (is "params_loop ?q = Some (_, ?r)")
proof -
  have l: "4 + length m < len" "len < length buf" using assms(1,2,4) by (simp_all add: AT_plus_chars)
  have d: "drop (4 + length m) buf = v @ x # 0 # zs" unfolding assms(1) by (rule line_drop)
  then have "buf ! (4 + length m) = hd v" using assms(4) l by (metis append_is_Nil_conv hd_append2 hd_drop_conv_nth less_trans)
  then have c: "char_at buf (4 + length m) = Some (hd v)" using l by (simp add: char_at_def)
  have h: "hd v \<notin> {CHR_space, CHR_open, CHR_comma, CHR_close, CHR_semicolon, CHR_quote}" using name_chars_nonzero [OF assms(3), of "hd v"] assms(4) by simp
  have lp: "at_param_loop False len (4 + length m) buf = Some (Param_Done, len, len, buf)"
    using at_param_loop_chars [OF assms(3), of "4 + length m" buf len] d l assms(2) by simp
  have "buf ! len = x" by (simp add: assms(1,2) AT_plus_chars nth_append)
  then have e: "char_at buf len = Some x" using l(2) by (simp add: char_at_def)
  have "c_string buf (4 + length m) = Some (v @ (if x = 0 then [] else [x]))" using line_string [OF assms(3,5)] assms(1) by simp
  then have "end_param (4 + length m) len len False buf ?q = Some (x = CHR_semicolon, ?r)" using e assms(5) l(1) by (auto simp: end_param_def Let_def)
  then have "params_step ?q = Some ((x \<noteq> CHR_semicolon, Params_Done), ?r)" using c h l(1) lp by (simp add: params_step_def Let_def)
  then have "params_loop ?q = (if x \<noteq> CHR_semicolon then params_loop ?r else Some (Params_Done, ?r))" using c h l(1) by (subst params_loop.simps) simp
  moreover have "params_loop ?r = Some (Params_Done, ?r)" by (subst params_loop.simps) simp
  ultimately show ?thesis by simp
qed

text \<open>A command that prints its first parameter.\<close>

definition prints_first :: "at_env \<Rightarrow> nat \<Rightarrow> bool" where
  "prints_first env f \<longleftrightarrow> (\<forall>op buf p ps d s w. c_string buf (String_Value p) = Some w \<longrightarrow>
     at_command env f op (At_Params buf (p # ps) d) s = Some (QAT_STATUS_SUCCESS_E, QAT_Output w s))"

lemma parameter_line:
  assumes "at_input s = AT_plus @ m @ CHR_equals # v @ x # 0 # zs" and "at_length s = 4 + length m + length v" and "list_all name_char m" and "m \<noteq> []"
    and "list_all name_char v" and "v \<noteq> []" and "x = 0 \<or> x = CHR_semicolon"
    and "At_Find_Command s (CHR_plus # m) = Some c" and "at_flags c AND QAT_OP_EXEC_W_PARAM \<noteq> 0" and "prints_first env (at_function c)"
  shows "At_Process_Command env s = Some (QAT_Output (v @ (if x = 0 then [] else [x])) (s\<lparr>at_input := AT_plus @ m @ 0 # v @ x # 0 # zs, at_length := 4 + length m + length v\<rparr>))"
proof -
  let ?b = "AT_plus @ m @ 0 # v @ x # 0 # zs" and ?l = "4 + length m + length v" and ?w = "v @ (if x = 0 then [] else [x])"
  let ?a = "(at_start 2 s)\<lparr>a_buf := ?b, a_name := Some 2, a_end := Some (3 + length m), a_index := 4 + length m, a_flag := 11\<rparr>"
  have nl: "name_loop (at_start 2 s) = Some ?a" using name_loop_equals [OF assms(1-6)] .
  have "0 \<notin> set (CHR_plus # m)" using name_chars_nonzero [OF assms(3)] by auto
  then have "c_string ([0x41, 0x54] @ (CHR_plus # m) @ 0 # v @ x # 0 # zs) 2 = Some (CHR_plus # m)" by (intro c_string_behind) simp_all
  then have "c_string ?b 2 = Some (CHR_plus # m)" by (simp add: AT_plus_chars)
  then have lk: "lookup_name s ?a = Some (Some c, ?a)" using assms(8) by (simp add: lookup_name_def at_start_def)
  note w = line_string [OF assms(5,7), of m zs]
  note pl = line_params [OF refl refl assms(5,6,7), of m zs]
  have op: "op_type 11 = Some QAT_OP_EXEC_W_PARAM" by (simp add: op_type_def)
  have "Process_AT_Extend_Command env 2 s = Some (True, ?l, QAT_Output ?w (s\<lparr>at_input := ?b, at_length := ?l\<rparr>))"
    using nl lk pl op w assms(2,9,10) by (simp add: Process_AT_Extend_Command_def take_params_def run_at_command_def at_start_def Let_def prints_first_def)
  moreover have "command_loop env ?l True (QAT_Output ?w (s\<lparr>at_input := ?b, at_length := ?l\<rparr>)) = Some (True, QAT_Output ?w (s\<lparr>at_input := ?b, at_length := ?l\<rparr>))"
    by (subst command_loop.simps) (simp add: QAT_Output_def)
  ultimately show ?thesis using process_line [of s "m @ CHR_equals # v @ x # 0 # zs" env] command_loop_line [of s "m @ CHR_equals # v @ x # 0 # zs" env] assms(1,2) by simp
qed

section \<open>Two lines\<close>

text \<open>A cleared buffer with one character left behind at a place.\<close>

definition stale :: "nat \<Rightarrow> u8 \<Rightarrow> u8 list" where
  "stale n x = replicate n 0 @ x # replicate (2048 - n) 0"

lemma stale_zero: "n \<le> 2048 \<Longrightarrow> stale n 0 = replicate 2049 0"
proof -
  assume "n \<le> 2048"
  then have "2049 = n + Suc (2048 - n)" by simp
  then show ?thesis unfolding stale_def by (metis replicate_Suc replicate_add)
qed

lemma typed_line:
  assumes "list_all printable cs" and "at_input s = stale (length cs) x" and "length cs \<le> 2047" and "at_length s = 0" and "\<not> Echo_Enable s" and "cs \<noteq> []"
  shows "at_chars env (cs @ 13 # ds) s =
    do { s \<leftarrow> At_Process_Command env (s\<lparr>at_input := cs @ x # 0 # replicate (2047 - length cs) 0, at_length := length cs\<rparr>); at_chars env ds (clear_input s) }"
proof -
  have "2048 - length cs = Suc (2047 - length cs)" using assms(3) by simp
  then have "drop (length cs) (at_input s) = x # 0 # replicate (2047 - length cs) 0" by (simp add: assms(2) stale_def)
  moreover have "length (at_input s) = 2049" using assms(2,3) by (simp add: stale_def)
  ultimately have "at_chars env (cs @ 13 # ds) s = at_chars env (13 # ds) (s\<lparr>at_input := cs @ x # 0 # replicate (2047 - length cs) 0, at_length := length cs\<rparr>)"
    using at_chars_printable [OF assms(1), of s env "13 # ds"] assms(3,4,5) by simp
  then show ?thesis using assms(6) by (simp add: at_char_def bind_assoc)
qed

lemma name_printable: "list_all name_char n \<Longrightarrow> list_all printable n"
  by (auto simp: list_all_iff name_char_def printable_def word_le_nat_alt)

lemma At_Find_same [simp]:
  "At_Find_Command (s\<lparr>at_input := b\<rparr>) = At_Find_Command s" "At_Find_Command (s\<lparr>at_length := l\<rparr>) = At_Find_Command s" "At_Find_Command (s\<lparr>Tx_Queue := q\<rparr>) = At_Find_Command s"
  by (simp_all add: At_Find_Command_def fun_eq_iff)

lemma parameter_typed:
  assumes "list_all name_char m" and "m \<noteq> []" and "list_all name_char v" and "v \<noteq> []" and "4 + length m + length v \<le> 2047" and "x = 0 \<or> x = CHR_semicolon"
    and "at_input s = stale (4 + length m + length v) x" and "at_length s = 0" and "\<not> Echo_Enable s"
    and "At_Find_Command s (CHR_plus # m) = Some c" and "at_flags c AND QAT_OP_EXEC_W_PARAM \<noteq> 0" and "prints_first env (at_function c)"
  shows "\<exists>s'. at_chars env (AT_plus @ m @ CHR_equals # v @ [13]) s = Some s' \<and> wire s' = wire s @ v @ (if x = 0 then [] else [x])"
proof -
  let ?cs = "AT_plus @ m @ CHR_equals # v" and ?z = "replicate (2047 - (4 + length m + length v)) 0"
  have l: "length ?cs = 4 + length m + length v" by (simp add: AT_plus_chars)
  have "printable CHR_equals" "list_all printable AT_plus" by (simp_all add: printable_def AT_plus_chars)
  then have "list_all printable ?cs" using name_printable [OF assms(1)] name_printable [OF assms(3)] by simp
  from typed_line [OF this, of s x env "[]"] have "at_chars env (AT_plus @ m @ CHR_equals # v @ [13]) s =
      do { s \<leftarrow> At_Process_Command env (s\<lparr>at_input := ?cs @ x # 0 # ?z, at_length := 4 + length m + length v\<rparr>); Some (clear_input s) }"
    using assms(5,7-9) unfolding l by (simp add: AT_plus_chars)
  moreover have "At_Process_Command env (s\<lparr>at_input := ?cs @ x # 0 # ?z, at_length := 4 + length m + length v\<rparr>) =
      Some (QAT_Output (v @ (if x = 0 then [] else [x])) (s\<lparr>at_input := AT_plus @ m @ 0 # v @ x # 0 # ?z, at_length := 4 + length m + length v\<rparr>))"
    using parameter_line [of "s\<lparr>at_input := ?cs @ x # 0 # ?z, at_length := 4 + length m + length v\<rparr>" m v x ?z c env] assms by simp
  ultimately show ?thesis by (simp add: clear_input_def QAT_Output_def)
qed

lemma mistyped_typed:
  assumes "list_all name_char n" and "n \<noteq> []" and "3 + length n \<le> 2047" and "at_input s = stale (3 + length n) 0" and "at_length s = 0" and "\<not> Echo_Enable s"
    and "At_Find_Command s (CHR_plus # n) = None"
  shows "\<exists>tx. at_chars env (AT_plus @ n @ 13 # ds) s = at_chars env ds (s\<lparr>at_input := stale (3 + length n) CHR_semicolon, Tx_Queue := tx\<rparr>)"
proof -
  let ?cs = "AT_plus @ n" and ?z = "replicate (2047 - (3 + length n)) (0 :: u8)"
  have l: "length ?cs = 3 + length n" by (simp add: AT_plus_chars)
  have z: "0 # ?z = replicate (2048 - (3 + length n)) 0"
  proof -
    have "2048 - (3 + length n) = Suc (2047 - (3 + length n))" using assms(3) by simp
    then show ?thesis by simp
  qed
  have "list_all printable AT_plus" by (simp add: printable_def AT_plus_chars)
  then have "list_all printable ?cs" using name_printable [OF assms(1)] by simp
  from typed_line [OF this, of s 0 env ds] have a: "at_chars env (AT_plus @ n @ 13 # ds) s =
      do { s \<leftarrow> At_Process_Command env (s\<lparr>at_input := ?cs @ 0 # 0 # ?z, at_length := 3 + length n\<rparr>); at_chars env ds (clear_input s) }"
    using assms(3-6) unfolding l by (simp add: AT_plus_chars)
  obtain tx where "At_Process_Command env (s\<lparr>at_input := ?cs @ 0 # 0 # ?z, at_length := 3 + length n\<rparr>) =
      Some (s\<lparr>at_input := AT_plus @ n @ CHR_semicolon # 0 # ?z, at_length := 3 + length n, Tx_Queue := tx\<rparr>)"
    using mistyped_line [of "s\<lparr>at_input := ?cs @ 0 # 0 # ?z, at_length := 3 + length n\<rparr>" n 0 "0 # ?z" env] assms by auto
  moreover have drop3: "drop (3 + length n) (AT_plus @ n @ d) = d" for d using l by (metis append_assoc append_eq_conv_conj)
  moreover have "clear_input (s\<lparr>at_input := AT_plus @ n @ CHR_semicolon # 0 # ?z, at_length := 3 + length n, Tx_Queue := tx\<rparr>) =
      s\<lparr>at_input := stale (3 + length n) CHR_semicolon, Tx_Queue := tx\<rparr>"
    using assms(5) drop3 unfolding z by (cases s) (simp add: clear_input_def stale_def)
  ultimately show ?thesis using a by (intro exI [of _ tx]) simp
qed

text \<open>A line that goes on with another character than a plus is answered twice, with an error and with success.\<close>

lemma at_other_answers_twice:
  assumes "at_input s = 0x41 # 0x54 # d # ds" and "3 \<le> at_length s" and "d \<notin> {CHR_plus, CHR_space, CHR_semicolon}"
  shows "At_Process_Command env s = do { s \<leftarrow> respond env QAT_RC_ERROR s; respond env QAT_RC_OK s }"
proof -
  have c: "char_at (at_input s) 0 = Some 0x41" "char_at (at_input s) (Suc 0) = Some 0x54" "char_at (at_input s) 2 = Some d" using assms(1) by (simp_all add: char_at_def)
  then have "skip_spaces (at_input s) 0 = Some 0" "skip_spaces (at_input s) 2 = Some 2" using assms(3) by (subst skip_spaces.simps, simp)+
  moreover have "command_loop env 2 False s = do { s \<leftarrow> respond env QAT_RC_ERROR s; Some (False, s) }" using c(3) assms(2,3) by (subst command_loop.simps) simp
  ultimately show ?thesis using c assms(2) by (simp add: At_Process_Command_def starts_with_at_def numeral_2_eq_2)
qed

section \<open>The properties\<close>

text \<open>
  With commands and mode handlers that return and keep the invariant, input of any kind whose lines stay below the size of the buffer never makes the AT
  interface leave its buffer, follow an unterminated string or hang, and the invariant holds again behind it.
\<close>

lemma input_safe:
  assumes "good_at env" and "at_inv s" and "short_lines (at_length s) data"
  shows "\<exists>s'. QAT_Process_Input_Data env data s = Some s' \<and> at_inv s'"
proof (cases "transfer_mode s = QAT_Transfer_Mode_AT_COMMAND_E")
  case True
  then show ?thesis using at_chars_safe [OF assms] by (simp add: QAT_Process_Input_Data_def)
next
  case False
  then obtain h where h: "mode_handle s = Some h" using assms(2) by (auto simp: at_inv_def)
  obtain r s' where "mode_function env h data (echo_out data s) = Some (r, s')" "at_inv s'" using assms(1,2) unfolding good_at_def by (metis at_inv_echo(1))
  then show ?thesis using False h by (simp add: QAT_Process_Input_Data_def)
qed

text \<open>A command table with one command, \<open>+M\<close>, that prints its first parameter.\<close>

definition print_env :: at_env where
  "print_env = \<lparr>at_command = \<lambda>f op arg s. Some (QAT_STATUS_SUCCESS_E,
       case arg of At_Params buf (p # ps) d \<Rightarrow> (case c_string buf (String_Value p) of Some w \<Rightarrow> QAT_Output w s | None \<Rightarrow> s) | _ \<Rightarrow> s),
     mode_function = \<lambda>h bs s. Some (True, clear_input s), at_malloc = \<lambda>n s. True\<rparr>"

definition print_start :: qat where
  "print_start = (QAT_TxTask_Initialize (ascii ''+D'') False)\<lparr>groups := [(1, [\<lparr>at_string = ascii ''+M'', at_function = 7, at_flags = QAT_OP_EXEC_W_PARAM\<rparr>])]\<rparr>"

lemma print_env_good: "good_at print_env"
  by (auto simp: good_at_def print_env_def QAT_Output_def clear_input_inv split: at_argument.splits list.splits option.splits)

lemma print_env_prints: "prints_first print_env f"
  by (simp add: prints_first_def print_env_def)

text \<open>
  C25: an execute command leaves a semicolon behind its line, which the reset of the buffer does not reach. A following command with a parameter whose line is as long
  gets the semicolon as part of the parameter: a command that prints its parameter prints it exactly on a fresh buffer, and with a semicolon behind a mistyped command.
\<close>

theorem stale_semicolon_joins_parameter:
  assumes "list_all name_char n" and "list_all name_char m" and "m \<noteq> []" and "list_all name_char v" and "v \<noteq> []"
    and "length n = length m + 1 + length v" and "length n \<le> 2044"
    and "at_input s = replicate 2049 0" and "at_length s = 0" and "transfer_mode s = QAT_Transfer_Mode_AT_COMMAND_E" and "\<not> Echo_Enable s"
    and "At_Find_Command s (CHR_plus # n) = None" and "At_Find_Command s (CHR_plus # m) = Some c" and "at_flags c AND QAT_OP_EXEC_W_PARAM \<noteq> 0"
    and "prints_first env (at_function c)"
  shows "(\<exists>s'. QAT_Process_Input_Data env (AT_plus @ m @ CHR_equals # v @ [13]) s = Some s' \<and> wire s' = wire s @ v) \<and>
    (\<exists>s'. QAT_Process_Input_Data env (AT_plus @ n @ 13 # AT_plus @ m @ CHR_equals # v @ [13]) s = Some s' \<and> wire s' = wire s @ v @ [CHR_semicolon])"
proof
  have l: "3 + length n = 4 + length m + length v" "3 + length n \<le> 2047" "4 + length m + length v \<le> 2047" using assms(6,7) by simp_all
  have b: "at_input s = stale (4 + length m + length v) 0" using stale_zero [of "4 + length m + length v"] l(3) assms(8) by simp
  show "\<exists>s'. QAT_Process_Input_Data env (AT_plus @ m @ CHR_equals # v @ [13]) s = Some s' \<and> wire s' = wire s @ v"
    using parameter_typed [OF assms(2-5) l(3) _ b assms(9,11,13-15)] assms(10) by (simp add: QAT_Process_Input_Data_def)
  have "n \<noteq> []" using assms(6) by auto
  then obtain tx where tx: "at_chars env (AT_plus @ n @ 13 # AT_plus @ m @ CHR_equals # v @ [13]) s =
      at_chars env (AT_plus @ m @ CHR_equals # v @ [13]) (s\<lparr>at_input := stale (3 + length n) CHR_semicolon, Tx_Queue := tx\<rparr>)"
    using mistyped_typed [OF assms(1) _ l(2) _ assms(9,11,12)] b l(1) by fastforce
  have "\<exists>s'. at_chars env (AT_plus @ m @ CHR_equals # v @ [13]) (s\<lparr>at_input := stale (3 + length n) CHR_semicolon, Tx_Queue := tx\<rparr>) = Some s' \<and>
      wire s' = wire s @ v @ [CHR_semicolon]"
    unfolding l(1) using parameter_typed [OF assms(2-5) l(3), of CHR_semicolon "s\<lparr>at_input := stale (4 + length m + length v) CHR_semicolon, Tx_Queue := tx\<rparr>" c env]
      assms(9,11,13-15) by simp
  then show "\<exists>s'. QAT_Process_Input_Data env (AT_plus @ n @ 13 # AT_plus @ m @ CHR_equals # v @ [13]) s = Some s' \<and> wire s' = wire s @ v @ [CHR_semicolon]"
    using tx assms(10) by (simp add: QAT_Process_Input_Data_def)
qed

theorem stale_semicolon_joins_parameter_witness:
  "(\<exists>s'. QAT_Process_Input_Data print_env (AT_plus @ ascii ''M'' @ CHR_equals # ascii ''5'' @ [13]) print_start = Some s' \<and> wire s' = wire print_start @ ascii ''5'') \<and>
   (\<exists>s'. QAT_Process_Input_Data print_env (AT_plus @ ascii ''RST'' @ 13 # AT_plus @ ascii ''M'' @ CHR_equals # ascii ''5'' @ [13]) print_start = Some s' \<and>
     wire s' = wire print_start @ ascii ''5'' @ [CHR_semicolon])"
proof -
  have n: "list_all name_char (ascii ''RST'')" "list_all name_char (ascii ''M'')" "list_all name_char (ascii ''5'')" by (simp_all add: ascii_def name_char_def)
  have f: "At_Find_Command print_start (CHR_plus # ascii ''RST'') = None"
    by (simp add: print_start_def At_Find_Command_def at_same_name_def ascii_def)
  have g: "At_Find_Command print_start (CHR_plus # ascii ''M'') = Some \<lparr>at_string = ascii ''+M'', at_function = 7, at_flags = QAT_OP_EXEC_W_PARAM\<rparr>"
    by (simp add: print_start_def At_Find_Command_def at_same_name_def ascii_def QCLI_Memcmpi_def)
  show ?thesis
    by (rule stale_semicolon_joins_parameter [OF n(1,2) _ n(3) _ _ _ _ _ _ _ f g _ print_env_prints])
      (simp_all add: ascii_def print_start_def QAT_TxTask_Initialize_def)
qed

end
