(* ===== verification/QatUtil.thy ===== *)
theory QatUtil
  imports QcliUtil
begin

text \<open>
  The conversions of the AT commands, \<open>src/modules/qat/qat_util.c\<close>: hex strings to bytes and range checks. They do the same as the functions of
  the console, but for the check of a parameter, which no longer knows if the parameter was a number.
\<close>

unbundle bit_operations_syntax

definition QAT_Hex_Nibble_To_Int :: "u8 \<Rightarrow> u8 option" where
  "QAT_Hex_Nibble_To_Int nibble =
     (let nibble = nibble OR 0x20 in
      if CHR_0 \<le> nibble \<and> nibble \<le> CHR_9 then Some (nibble - CHR_0)
      else if CHR_a \<le> nibble \<and> nibble \<le> CHR_f then Some (nibble - CHR_a + 10)
      else None)"

text \<open>The loop: status, number of bytes and output buffer; the first argument is the room that is left.\<close>

fun hex_pairs :: "nat \<Rightarrow> u8 list \<Rightarrow> nat \<Rightarrow> u8 list \<Rightarrow> bool \<times> nat \<times> u8 list" where
  "hex_pairs 0 s n out = (True, n, out)"
| "hex_pairs (Suc room) s n out =
     (if ch s 0 = 0 then (True, n, out)
      else if ch s 1 \<noteq> 0
      then
       (case QAT_Hex_Nibble_To_Int (ch s 0) of
          None \<Rightarrow> (False, n, out)
        | Some v1 \<Rightarrow>
            (case QAT_Hex_Nibble_To_Int (ch s 1) of
               None \<Rightarrow> (False, n, out)
             | Some v2 \<Rightarrow> hex_pairs room (drop 2 s) (n + 1) (out[n := push_bit 4 v1 OR v2])))
      else (False, n, out))"

definition QAT_Hex_String_To_Array :: "u8 list \<Rightarrow> nat \<Rightarrow> bool \<times> nat \<times> u8 list" where
  "QAT_Hex_String_To_Array s output_size =
     (let s = (if ch s 0 = CHR_0 \<and> ch s 1 OR 0x20 = CHR_x then drop 2 s else s);
          (ok, n, out) = hex_pairs output_size s 0 (replicate output_size 0) in
      (ok, if ok then n else output_size, out))"

definition QAT_Verify_Integer_Parameter :: "int \<Rightarrow> int \<Rightarrow> int \<Rightarrow> bool" where
  "QAT_Verify_Integer_Parameter p min_value max_value \<longleftrightarrow> min_value \<le> p \<and> p \<le> max_value"

definition QAT_Verify_Unsigned_Integer_Parameter :: "u32 \<Rightarrow> u32 \<Rightarrow> u32 \<Rightarrow> bool" where
  "QAT_Verify_Unsigned_Integer_Parameter p min_value max_value \<longleftrightarrow> min_value \<le> p \<and> p \<le> max_value"

lemma nibble_same: "QAT_Hex_Nibble_To_Int c = QCLI_Hex_Nibble_To_Int c"
  by (simp add: QAT_Hex_Nibble_To_Int_def QCLI_Hex_Nibble_To_Int_def)

lemma hex_pairs_same:
  "hex_pairs room s (length pre) (pre @ replicate room 0) =
     (let (ok, out) = array_loop s room in (ok, length (pre @ out), pre @ out @ replicate (room - length out) 0))"
proof (induction room arbitrary: s pre)
  case (Suc room)
  have "(pre @ replicate (Suc room) 0)[length pre := b] = (pre @ [b]) @ replicate room (0 :: u8)" for b by simp
  then show ?case using Suc [of "drop 2 s" "pre @ [_]"]
    by (auto simp: nibble_same Let_def split: option.splits prod.splits)
qed simp

text \<open>The two conversions of hex strings agree on every string and buffer.\<close>

lemma hex_string_same: "QAT_Hex_String_To_Array s n = QCLI_Hex_String_To_Array s n"
  using hex_pairs_same [of n _ "[]"]
  by (auto simp: QAT_Hex_String_To_Array_def QCLI_Hex_String_To_Array_def hex_prefix_def Let_def split: prod.splits)

lemma integer_check_same: "QCLI_Verify_Integer_Parameter (valid, v) a b \<longleftrightarrow> valid \<and> QAT_Verify_Integer_Parameter (sint v) a b"
  by (auto simp: QCLI_Verify_Integer_Parameter_def QAT_Verify_Integer_Parameter_def)

end
