(* ===== verification/QatUart.thy ===== *)
theory QatUart
  imports QatLine QatUtil
begin

text \<open>
  The AT interface on its serial line, \<open>UartRxTasks\<close> and \<open>QAT_UART_Output\<close> of \<open>src/modules/qat/qat_uart.c\<close>.

  The receive task collects a line in a buffer of its own and passes it on with its end. Each received byte is one pass of the
  task's loop. The driver's transmit function is a parameter: the number of bytes it takes at a call, or an error.
\<close>

section \<open>Reception\<close>

abbreviation (input) INPUT_BUFFER_SIZE :: nat where "INPUT_BUFFER_SIZE \<equiv> 1500"

record uart_rx =
  Total :: nat
  QAT_Rcv_Buff :: "u8 list"
  rx_at :: qat

definition rx_reset :: "qat \<Rightarrow> uart_rx" where
  "rx_reset s = \<lparr>Total = 0, QAT_Rcv_Buff = replicate INPUT_BUFFER_SIZE 0, rx_at = s\<rparr>"

definition UartRxTasks_byte :: "at_env \<Rightarrow> u8 \<Rightarrow> uart_rx \<Rightarrow> uart_rx option" where
  "UartRxTasks_byte env c r =
     do {
       buf \<leftarrow> put_char (QAT_Rcv_Buff r) (Total r) c;
       let total = Total r + 1;
       if c = 13
       then
        (if 1 < total
         then
          do {
            let len = (if transfer_mode (rx_at r) = QAT_Transfer_Mode_ONLINE_DATA_E then total - 1 else total);
            s \<leftarrow> QAT_Process_Input_Data env (take len buf) (rx_at r);
            Some (rx_reset s)
          }
         else Some (rx_reset (rx_at r)))
       else Some (r\<lparr>Total := total, QAT_Rcv_Buff := buf\<rparr>)
     }"

fun UartRxTasks :: "at_env \<Rightarrow> u8 list \<Rightarrow> uart_rx \<Rightarrow> uart_rx option" where
  "UartRxTasks env [] r = Some r"
| "UartRxTasks env (c # cs) r = do { r \<leftarrow> UartRxTasks_byte env c r; UartRxTasks env cs r }"

section \<open>Transmission\<close>

partial_function (option) transmit_loop :: "(nat \<Rightarrow> nat \<Rightarrow> nat option) \<Rightarrow> nat \<Rightarrow> u8 list \<Rightarrow> nat \<Rightarrow> nat \<Rightarrow> u8 list \<Rightarrow> u8 list option" where
  "transmit_loop tx k buf offset remain w =
     (let sent = (case tx k remain of Some m \<Rightarrow> m | None \<Rightarrow> 0);
          w = w @ take sent (drop offset buf) in
      if remain - sent = 0 then Some w else transmit_loop tx (k + 1) buf (offset + sent) (remain - sent) w)"

definition QAT_UART_Output :: "bool \<Rightarrow> (nat \<Rightarrow> nat \<Rightarrow> nat option) \<Rightarrow> u8 list \<Rightarrow> u8 list \<Rightarrow> u8 list option" where
  "QAT_UART_Output memory tx bs w = (if \<not> memory \<or> bs = [] then Some w else transmit_loop tx 0 bs 0 (length bs) w)"

text \<open>With a driver that takes at most what it is given, and again and again some of it, every byte is sent once and in order.\<close>

lemma transmit_loop_sends:
  assumes "\<And>k n m. tx k n = Some m \<Longrightarrow> m \<le> n" and "\<And>k. \<exists>j\<ge>k. \<forall>n>0. \<exists>m>0. tx j n = Some m"
  shows "0 < remain \<Longrightarrow> transmit_loop tx k buf offset remain w = Some (w @ take remain (drop offset buf))"
proof (induction remain arbitrary: k offset w rule: less_induct)
  case (less remain)
  have some: "transmit_loop tx k buf offset remain w = Some (w @ take remain (drop offset buf))" if m: "tx k remain = Some m" "0 < m" for k m w
  proof (cases "m = remain")
    case True
    then show ?thesis using m by (subst transmit_loop.simps) simp
  next
    case False
    then have l: "m < remain" using assms(1) [OF m(1)] by simp
    then have "transmit_loop tx k buf offset remain w = transmit_loop tx (k + 1) buf (offset + m) (remain - m) (w @ take m (drop offset buf))"
      using m by (subst transmit_loop.simps) simp
    also have "\<dots> = Some ((w @ take m (drop offset buf)) @ take (remain - m) (drop (offset + m) buf))" using less.IH [of "remain - m"] l m(2) by simp
    finally show ?thesis using l take_add [of m "remain - m" "drop offset buf"] by (simp add: add.commute)
  qed
  obtain j where j: "k \<le> j" "\<exists>m>0. tx j remain = Some m" using assms(2) less.prems by blast
  from j(1) show ?case
  proof (induction k rule: inc_induct)
    case base
    then show ?case using some j(2) by blast
  next
    case (step i)
    show ?case
    proof (cases "\<exists>m>0. tx i remain = Some m")
      case False
      then have "(case tx i remain of Some m \<Rightarrow> m | None \<Rightarrow> 0) = 0" by (cases "tx i remain") auto
      then have "transmit_loop tx i buf offset remain w = transmit_loop tx (Suc i) buf offset remain w"
        using less.prems by (subst transmit_loop.simps) simp
      then show ?thesis using step.IH by simp
    qed (use some in blast)
  qed
qed

lemma uart_output_sends:
  assumes "\<And>k n m. tx k n = Some m \<Longrightarrow> m \<le> n" and "\<And>k. \<exists>j\<ge>k. \<forall>n>0. \<exists>m>0. tx j n = Some m"
  shows "QAT_UART_Output True tx bs (wire s) = Some (wire (QAT_Output bs s))"
  using transmit_loop_sends [of tx "length bs" 0 bs 0 "wire s", OF assms] by (simp add: QAT_UART_Output_def QAT_Output_def)

section \<open>Lines that fit\<close>

text \<open>No line, its end included, is longer than the receive buffer.\<close>

fun lines_fit :: "nat \<Rightarrow> u8 list \<Rightarrow> bool" where
  "lines_fit n [] \<longleftrightarrow> True"
| "lines_fit n (c # cs) \<longleftrightarrow> n < INPUT_BUFFER_SIZE \<and> lines_fit (if c = 13 then 0 else n + 1) cs"

definition rx_inv :: "uart_rx \<Rightarrow> bool" where
  "rx_inv r \<longleftrightarrow> length (QAT_Rcv_Buff r) = INPUT_BUFFER_SIZE \<and> Total r \<le> INPUT_BUFFER_SIZE \<and> at_inv (rx_at r) \<and> at_length (rx_at r) = 0"

lemma data_mode_clears: "QAT_Data_Transfer_Mode_Handle env data s = Some s' \<Longrightarrow> at_length s = 0 \<Longrightarrow> at_length s' = 0"
  by (auto simp: QAT_Data_Transfer_Mode_Handle_def clear_input_def bind_eq_Some_conv split: if_splits)

lemma data_chars_safe:
  assumes "at_inv s" and "at_length s + length bs \<le> 2047"
  shows "\<exists>s'. data_chars bs s = Some s' \<and> at_inv s' \<and> groups s' = groups s \<and> data_command s' = data_command s"
  using assms
proof (induction bs arbitrary: s)
  case (Cons c bs)
  have b: "buf_ok (at_input s) (at_length s)" "length (at_input s) = 2049" using Cons.prems(1) by (simp_all add: at_inv_def)
  obtain buf where buf: "put_char (at_input s) (at_length s) c = Some buf" "buf_ok buf (at_length s)" "length buf = length (at_input s)" using buf_ok_put [OF b(1)] by blast
  then have "buf_ok buf (at_length s + 1)" using Cons.prems(2) b(2) by (simp add: buf_ok_def)
  then have "at_inv ((echo_out [c] s)\<lparr>at_input := buf, at_length := at_length s + 1\<rparr>)" using Cons.prems(1) buf(3) by (intro at_inv_set) simp_all
  from Cons.IH [OF this] Cons.prems(2) show ?case using buf(1) by (auto simp: store_char_def echo_out_def QAT_Output_def)
qed (use assms in simp)

text \<open>The handler of the data mode is such a handler, if the command of the data mode is registered and the data fit.\<close>

lemma data_mode_safe:
  assumes "good_at env" and "at_inv s" and "at_length s + length bs \<le> 2047" and "At_Find_Command s (data_command s) \<noteq> None"
  shows "\<exists>s'. QAT_Data_Transfer_Mode_Handle env bs s = Some s' \<and> at_inv s'"
proof (cases "transfer_mode s = QAT_Transfer_Mode_ONLINE_DATA_E \<and> bs \<noteq> []")
  case True
  obtain t where t: "data_chars bs s = Some t" "at_inv t" "groups t = groups s" "data_command t = data_command s" using data_chars_safe [OF assms(2,3)] by blast
  then obtain c where "At_Find_Command t (data_command t) = Some c" using assms(4) by (auto simp: At_Find_Command_def)
  moreover obtain r t' where "at_command env (at_function c) QAT_OP_EXEC_IN_DATA_MODEL (At_Data (take (at_length t) (at_input t))) t = Some (r, t')" "at_inv t'"
    using assms(1) t(2) unfolding good_at_def by blast
  ultimately have raw: "Process_RAW_Data env t = Some t'" "at_inv t'" by (simp_all add: Process_RAW_Data_def)
  let ?u = "QAT_Transfer_Mode_set QAT_Transfer_Mode_AT_COMMAND_E None t"
  obtain tx where tx: "respond env QAT_RC_OK ?u = Some (?u\<lparr>Tx_Queue := tx\<rparr>)" using respond_safe by blast
  have u: "at_inv ?u" using t(2) by (simp add: at_inv_def QAT_Transfer_Mode_set_def)
  show ?thesis using True t(1,2) raw tx u clear_input_inv [of t'] clear_input_inv [of t] clear_input_inv [of "?u\<lparr>Tx_Queue := tx\<rparr>"]
    by (simp add: QAT_Data_Transfer_Mode_Handle_def)
qed (use assms(2) in \<open>auto simp: QAT_Data_Transfer_Mode_Handle_def\<close>)

text \<open>The mode handlers leave no input behind, as \<open>QAT_Data_Transfer_Mode_Handle\<close> does.\<close>

definition good_uart :: "at_env \<Rightarrow> bool" where
  "good_uart env \<longleftrightarrow> good_at env \<and> (\<forall>h bs s r s'. mode_function env h bs s = Some (r, s') \<and> at_length s = 0 \<longrightarrow> at_length s' = 0)"

lemma short_lines_length: "n + length cs \<le> 2047 \<Longrightarrow> short_lines n cs"
  by (induction n cs rule: short_lines.induct) auto

lemma at_chars_append: "at_chars env (cs @ ds) s = do { s \<leftarrow> at_chars env cs s; at_chars env ds s }"
proof (induction cs arbitrary: s)
  case (Cons c cs)
  then show ?case by (cases "at_char env c s") simp_all
qed simp

lemma at_chars_end: "at_chars env (cs @ [13]) s = Some s' \<Longrightarrow> at_length s' = 0"
  by (auto simp: at_chars_append at_char_def clear_input_def bind_eq_Some_conv)

lemma input_line_safe:
  assumes "good_uart env" and "at_inv s" and "at_length s = 0" and "length cs < INPUT_BUFFER_SIZE"
    and "line = (if transfer_mode s = QAT_Transfer_Mode_ONLINE_DATA_E then cs else cs @ [13])"
  shows "\<exists>s'. QAT_Process_Input_Data env line s = Some s' \<and> at_inv s' \<and> at_length s' = 0"
proof -
  have "short_lines (at_length s) line" using assms(3-5) by (intro short_lines_length) simp
  then obtain s' where s': "QAT_Process_Input_Data env line s = Some s'" "at_inv s'" using input_safe [of env s line] assms(1,2) by (auto simp: good_uart_def)
  have "at_length s' = 0"
  proof (cases "transfer_mode s = QAT_Transfer_Mode_AT_COMMAND_E")
    case True
    then show ?thesis using s'(1) assms(5) at_chars_end by (simp add: QAT_Process_Input_Data_def)
  next
    case False
    then show ?thesis using s'(1) assms(1,3) at_inv_echo(2) [of line s] by (auto simp: QAT_Process_Input_Data_def good_uart_def bind_eq_Some_conv simp del: at_inv_echo)
  qed
  then show ?thesis using s' by blast
qed

lemma rx_byte_safe:
  assumes "good_uart env" and "rx_inv r" and "Total r < INPUT_BUFFER_SIZE"
  shows "\<exists>r'. UartRxTasks_byte env c r = Some r' \<and> rx_inv r' \<and> Total r' = (if c = 13 then 0 else Total r + 1)"
proof -
  let ?b = "(QAT_Rcv_Buff r)[Total r := c]"
  have p: "put_char (QAT_Rcv_Buff r) (Total r) c = Some ?b" using assms(2,3) by (simp add: put_char_def rx_inv_def)
  have l: "length (QAT_Rcv_Buff r) = 1500" "at_inv (rx_at r)" "at_length (rx_at r) = 0" using assms(2) by (simp_all add: rx_inv_def)
  show ?thesis
  proof (cases "c = 13 \<and> 0 < Total r")
    case True
    let ?cs = "take (Total r) (QAT_Rcv_Buff r)" and ?d = "transfer_mode (rx_at r) = QAT_Transfer_Mode_ONLINE_DATA_E"
    have t: "take (Total r + 1) ?b = ?cs @ [13]" "take (Total r) ?b = ?cs" using True l(1) assms(3) by (simp_all add: take_Suc_conv_app_nth)
    obtain s' where "QAT_Process_Input_Data env (if ?d then ?cs else ?cs @ [13]) (rx_at r) = Some s'" "at_inv s'" "at_length s' = 0"
      using input_line_safe [OF assms(1) l(2,3) _ refl, of ?cs] l(1) assms(3) by auto
    then show ?thesis using True p t by (cases ?d) (simp_all add: UartRxTasks_byte_def rx_inv_def rx_reset_def Let_def)
  next
    case False
    then show ?thesis using p l assms(3) by (auto simp: UartRxTasks_byte_def rx_inv_def rx_reset_def Let_def)
  qed
qed

lemma rx_byte_outside: "rx_inv r \<Longrightarrow> \<not> Total r < INPUT_BUFFER_SIZE \<Longrightarrow> UartRxTasks_byte env c r = None"
  by (simp add: UartRxTasks_byte_def rx_inv_def put_char_def)

text \<open>
  C16: with commands and mode handlers that return and keep the invariant, whatever bytes come in on the serial line, the AT interface never leaves its
  buffers, follows an unterminated string or hangs, and its invariant holds again behind them, if no line is longer than the receive buffer; and with a
  longer line the receive task writes behind that buffer.
\<close>

theorem uart_safe_iff_lines_fit:
  assumes "good_uart env" and "rx_inv r"
  shows "if lines_fit (Total r) bs then \<exists>r'. UartRxTasks env bs r = Some r' \<and> rx_inv r' else UartRxTasks env bs r = None"
  using assms(2)
proof (induction bs arbitrary: r)
  case (Cons c bs)
  show ?case
  proof (cases "Total r < INPUT_BUFFER_SIZE")
    case True
    then obtain r' where "UartRxTasks_byte env c r = Some r'" "rx_inv r'" "Total r' = (if c = 13 then 0 else Total r + 1)"
      using rx_byte_safe [OF assms(1) Cons.prems] by blast
    then show ?thesis using Cons.IH [of r'] True by simp
  next
    case False
    then show ?thesis using rx_byte_outside [OF Cons.prems] by simp
  qed
qed simp

theorem uart_safe_iff_lines_fit_witness:
  "(\<exists>r'. UartRxTasks print_env (AT_plus @ ascii ''M=\"a'' @ [92, 120, 52] @ ascii ''1\",{7};+M=?'' @ [13, 65, 84]) (rx_reset print_start) = Some r' \<and> rx_inv r') \<and>
   UartRxTasks print_env (replicate 1501 65) (rx_reset print_start) = None"
proof -
  have g: "good_uart print_env" using print_env_good by (simp add: good_uart_def print_env_def clear_input_def)
  have i: "rx_inv (rx_reset print_start)"
    using at_inv_initial [of "ascii ''+D''" False] by (simp add: rx_inv_def rx_reset_def print_start_def at_inv_def QAT_TxTask_Initialize_def)
  have "lines_fit n (replicate k 65) \<longleftrightarrow> k = 0 \<or> n + k \<le> 1500" for n k by (induction k arbitrary: n) auto
  then have "\<not> lines_fit (Total (rx_reset print_start)) (replicate 1501 65)" by (simp add: rx_reset_def)
  moreover have "lines_fit (Total (rx_reset print_start)) (AT_plus @ ascii ''M=\"a'' @ [92, 120, 52] @ ascii ''1\",{7};+M=?'' @ [13, 65, 84])"
    by (simp add: rx_reset_def AT_plus_chars ascii_def)
  ultimately show ?thesis
    using uart_safe_iff_lines_fit [OF g i, of "replicate 1501 65"] uart_safe_iff_lines_fit [OF g i, of "AT_plus @ ascii ''M=\"a'' @ [92, 120, 52] @ ascii ''1\",{7};+M=?'' @ [13, 65, 84]"]
    by presburger
qed

end
