(* ===== verification/Unpa.thy ===== *)
theory Unpa
  imports Prelude
begin

text \<open>
  The resource power arbiter uNPA: \<open>unpa.c\<close>, \<open>unpa_client.c\<close>, \<open>unpa_resource.c\<close> and \<open>unpa_query.c\<close> of \<open>src/modules/core/system/sys_src\<close>, with the types of
  \<open>src/modules/wifi/inc/unpa.h\<close> and \<open>unpa_resource.h\<close>.

  Clients vote for the state of a resource; an update function aggregates the votes by the kind of client, and a driver function applies the
  aggregation. Resources and clients are heap objects: maps from addresses; a linked list is the list of its addresses, newest first. The drivers, the
  update functions of other modules and the allocator are the parameter \<open>unpa_env\<close>; the calls of drivers are recorded. \<open>None\<close> is a failed
  \<open>CORE_VERIFY\<close> or an access through a null pointer. The mutexes are recursive and exclusive, so an operation is one step; \<open>unpa_stub\<close>
  is not defined in the build.
\<close>

unbundle bit_operations_syntax

section \<open>Data\<close>

type_synonym unpa_resource_state = u32

datatype unpa_resource_update_fcn = Min_Update | Max_Update | Binary_Update | Other_Update nat

record unpa_resource_definition =
  d_name :: string
  d_update_fcn :: unpa_resource_update_fcn
  d_driver_fcn :: nat
  d_max :: unpa_resource_state
  d_client_types :: u8
  d_attributes :: u32

record unpa_client =
  c_name :: string
  c_type :: u8
  request_attr :: u32
  active_request :: unpa_resource_state
  pending_request :: unpa_resource_state
  c_resource :: nat

record unpa_resource =
  r_definition :: unpa_resource_definition
  r_clients :: "nat list"
  active_state :: unpa_resource_state
  sleep_state :: unpa_resource_state
  agg_state :: "unpa_resource_state list"
  active_max :: unpa_resource_state

text \<open>A call of a driver: the resource, the client's type, attributes and request, and the state to apply.\<close>

record driver_call =
  dc_resource :: nat
  dc_type :: u8
  dc_attr :: u32
  dc_request :: unpa_resource_state
  dc_state :: unpa_resource_state

type_synonym client_heap = "nat \<Rightarrow> unpa_client option"

record unpa =
  u_resources :: "nat list"
  u_res :: "nat \<Rightarrow> unpa_resource option"
  u_clients :: client_heap
  u_stubs :: "string option list"
  u_calls :: "driver_call list"

record unpa_env =
  env_driver :: "nat \<Rightarrow> unpa_resource \<Rightarrow> unpa_client \<Rightarrow> unpa_resource_state \<Rightarrow> unpa_resource_state"
  env_update :: "nat \<Rightarrow> client_heap \<Rightarrow> nat \<Rightarrow> unpa_resource \<Rightarrow> unpa_resource_state \<times> unpa_resource_state \<times> unpa_resource_state list"
  env_alloc :: "unpa \<Rightarrow> nat option"

abbreviation (input) UNPA_MAX_NAME_LEN :: nat where "UNPA_MAX_NAME_LEN \<equiv> 16"
abbreviation (input) UNPA_MAX_STUBS :: nat where "UNPA_MAX_STUBS \<equiv> 5"
abbreviation (input) UNPA_CLIENT_INITIALIZE :: u8 where "UNPA_CLIENT_INITIALIZE \<equiv> 0"
abbreviation (input) UNPA_CLIENT_REQUIRED :: u8 where "UNPA_CLIENT_REQUIRED \<equiv> 1"
abbreviation (input) UNPA_CLIENT_SUPPRESSIBLE :: u8 where "UNPA_CLIENT_SUPPRESSIBLE \<equiv> 2"
abbreviation (input) UNPA_CLIENT_SLEEP :: u8 where "UNPA_CLIENT_SLEEP \<equiv> 4"
abbreviation (input) UNPA_REQUEST_DEFAULT :: u32 where "UNPA_REQUEST_DEFAULT \<equiv> 0"
abbreviation (input) UNPA_REQUEST_ADD_CLIENT :: u32 where "UNPA_REQUEST_ADD_CLIENT \<equiv> 1"
abbreviation (input) UNPA_REQUEST_REMOVE_CLIENT :: u32 where "UNPA_REQUEST_REMOVE_CLIENT \<equiv> 2"
abbreviation (input) UNPA_REQUEST_DROP_VOTE :: u32 where "UNPA_REQUEST_DROP_VOTE \<equiv> 4"
abbreviation (input) UNPA_UPDATE_CLIENT_TYPES :: u8 where "UNPA_UPDATE_CLIENT_TYPES \<equiv> 0"
abbreviation (input) UNPA_RESOURCE_DRIVER_UNCONDITIONAL :: u32 where "UNPA_RESOURCE_DRIVER_UNCONDITIONAL \<equiv> 1"
abbreviation (input) UNPA_RESOURCE_CLIENT_CHANGE_NOTIFY :: u32 where "UNPA_RESOURCE_CLIENT_CHANGE_NOTIFY \<equiv> 2"

section \<open>Resources\<close>

definition unpa_init :: "string option list \<Rightarrow> unpa" where
  "unpa_init stubs = \<lparr>u_resources = [], u_res = (\<lambda>_. None), u_clients = (\<lambda>_. None), u_stubs = stubs, u_calls = []\<rparr>"

definition unpa_resource_has_attribute :: "unpa_resource \<Rightarrow> u32 \<Rightarrow> bool" where
  "unpa_resource_has_attribute r attribute \<longleftrightarrow> d_attributes (r_definition r) AND attribute \<noteq> 0"

text \<open>\<open>strncmp\<close> looks at one character more than a name may have.\<close>

definition unpa_same_name :: "string \<Rightarrow> string \<Rightarrow> bool" where
  "unpa_same_name a b \<longleftrightarrow> take (UNPA_MAX_NAME_LEN + 1) a = take (UNPA_MAX_NAME_LEN + 1) b"

definition unpa_get_resource :: "string \<Rightarrow> unpa \<Rightarrow> nat option" where
  "unpa_get_resource name s =
     find (\<lambda>a. case u_res s a of Some r \<Rightarrow> unpa_same_name name (d_name (r_definition r)) | None \<Rightarrow> False) (u_resources s)"

definition call_driver :: "unpa_env \<Rightarrow> nat \<Rightarrow> unpa_resource \<Rightarrow> unpa_client \<Rightarrow> unpa_resource_state \<Rightarrow> unpa \<Rightarrow> unpa_resource_state \<times> unpa" where
  "call_driver env a r c state s =
     (env_driver env (d_driver_fcn (r_definition r)) r c state,
      s\<lparr>u_calls := u_calls s @ [\<lparr>dc_resource = a, dc_type = c_type c, dc_attr = request_attr c, dc_request = pending_request c, dc_state = state\<rparr>]\<rparr>)"

definition unpa_create_resource :: "unpa_env \<Rightarrow> unpa_resource_definition \<Rightarrow> unpa_resource_state \<Rightarrow> unpa \<Rightarrow> (nat option \<times> unpa) option" where
  "unpa_create_resource env d initial_state s =
     (if \<not> length (d_name d) < UNPA_MAX_NAME_LEN \<or> unpa_get_resource (d_name d) s \<noteq> None then None
      else
       (case env_alloc env s of
          None \<Rightarrow> Some (None, s)
        | Some a \<Rightarrow>
            let r = \<lparr>r_definition = d, r_clients = [], active_state = 0, sleep_state = 0, agg_state = [0, 0, 0], active_max = d_max d\<rparr>;
                client = \<lparr>c_name = [], c_type = UNPA_CLIENT_INITIALIZE, request_attr = 0, active_request = 0, pending_request = initial_state, c_resource = 0\<rparr>;
                (state, s) = call_driver env a r client initial_state s in
            Some (Some a, s\<lparr>u_res := (u_res s)(a \<mapsto> r\<lparr>active_state := state\<rparr>), u_resources := a # u_resources s\<rparr>)))"

fun first_free :: "nat \<Rightarrow> string option list \<Rightarrow> nat option" where
  "first_free i [] = None"
| "first_free i (x # xs) = (if x = None then Some i else first_free (i + 1) xs)"

definition unpa_stub_resource :: "string \<Rightarrow> unpa \<Rightarrow> unpa option" where
  "unpa_stub_resource name s =
     (if \<not> length name < UNPA_MAX_NAME_LEN \<or> unpa_get_resource name s \<noteq> None then None
      else case first_free 0 (u_stubs s) of None \<Rightarrow> None | Some i \<Rightarrow> Some (s\<lparr>u_stubs := (u_stubs s)[i := Some name]\<rparr>))"

section \<open>Aggregation\<close>

definition unpa_get_agg_index :: "u8 \<Rightarrow> nat option" where
  "unpa_get_agg_index t =
     (if t = UNPA_CLIENT_REQUIRED then Some 0 else if t = UNPA_CLIENT_SUPPRESSIBLE then Some 1 else if t = UNPA_CLIENT_SLEEP then Some 2 else None)"

definition unpa_get_supported_client_types :: "unpa_resource_update_fcn \<Rightarrow> u8" where
  "unpa_get_supported_client_types f =
     (if f = Min_Update \<or> f = Max_Update \<or> f = Binary_Update then UNPA_CLIENT_REQUIRED OR UNPA_CLIENT_SUPPRESSIBLE OR UNPA_CLIENT_SLEEP else 0)"

definition aggregated_type :: "u8 \<Rightarrow> bool" where
  "aggregated_type t \<longleftrightarrow> t = UNPA_CLIENT_REQUIRED \<or> t = UNPA_CLIENT_SUPPRESSIBLE \<or> t = UNPA_CLIENT_SLEEP"

text \<open>The walks over the clients; the loops test at their end, so they access the first client of an empty list.\<close>

fun min_walk :: "client_heap \<Rightarrow> nat \<Rightarrow> u8 \<Rightarrow> nat list \<Rightarrow> unpa_resource_state \<Rightarrow> unpa_resource_state option" where
  "min_walk cl client t [] pending_min = Some pending_min"
| "min_walk cl client t (c # cs) pending_min =
     (case cl c of
        None \<Rightarrow> None
      | Some x \<Rightarrow>
          min_walk cl client t cs
            (if c \<noteq> client \<and> c_type x = t \<and> active_request x \<noteq> 0 \<and> (pending_min = 0 \<or> active_request x < pending_min)
             then active_request x else pending_min))"

fun max_walk :: "client_heap \<Rightarrow> nat \<Rightarrow> u8 \<Rightarrow> nat list \<Rightarrow> unpa_resource_state \<Rightarrow> unpa_resource_state option" where
  "max_walk cl client t [] pending_max = Some pending_max"
| "max_walk cl client t (c # cs) pending_max =
     (case cl c of
        None \<Rightarrow> None
      | Some x \<Rightarrow>
          max_walk cl client t cs (if c \<noteq> client \<and> c_type x = t \<and> pending_max < active_request x then active_request x else pending_max))"

definition c_MIN :: "u32 \<Rightarrow> u32 \<Rightarrow> u32" where "c_MIN x y = (if x < y then x else y)"

definition c_MAX :: "u32 \<Rightarrow> u32 \<Rightarrow> u32" where "c_MAX x y = (if y < x then x else y)"

definition min_of :: "u32 \<Rightarrow> u32 \<Rightarrow> u32" where
  "min_of required other = (if other = 0 then required else if required = 0 then other else c_MIN required other)"

definition unpa_min_update_fcn :: "client_heap \<Rightarrow> nat \<Rightarrow> unpa_resource \<Rightarrow> (unpa_resource_state \<times> unpa_resource) option" where
  "unpa_min_update_fcn cl client r =
     (case cl client of
        None \<Rightarrow> None
      | Some c \<Rightarrow>
          let aggs =
            (if aggregated_type (c_type c)
             then
              (case unpa_get_agg_index (c_type c) of
                 None \<Rightarrow> None
               | Some i \<Rightarrow>
                   let active_min = agg_state r ! i; request = pending_request c in
                   (case (if request \<noteq> 0 \<and> (active_min = 0 \<or> request < active_min) then Some request
                          else if active_min = active_request c
                          then (if r_clients r = [] then None else min_walk cl client (c_type c) (r_clients r) request)
                          else Some active_min) of
                      None \<Rightarrow> None
                    | Some pending_min \<Rightarrow> Some ((agg_state r)[i := pending_min])))
             else Some (agg_state r)) in
          (case aggs of
             None \<Rightarrow> None
           | Some aggs \<Rightarrow> Some (min_of (aggs ! 0) (aggs ! 1), r\<lparr>agg_state := aggs, sleep_state := min_of (aggs ! 0) (aggs ! 2)\<rparr>)))"

definition unpa_max_update_fcn :: "client_heap \<Rightarrow> nat \<Rightarrow> unpa_resource \<Rightarrow> (unpa_resource_state \<times> unpa_resource) option" where
  "unpa_max_update_fcn cl client r =
     (case cl client of
        None \<Rightarrow> None
      | Some c \<Rightarrow>
          let aggs =
            (if aggregated_type (c_type c)
             then
              (case unpa_get_agg_index (c_type c) of
                 None \<Rightarrow> None
               | Some i \<Rightarrow>
                   let active_max = agg_state r ! i; request = pending_request c in
                   (case (if active_max < request then Some request
                          else if active_max = active_request c
                          then (if r_clients r = [] then None else max_walk cl client (c_type c) (r_clients r) request)
                          else Some active_max) of
                      None \<Rightarrow> None
                    | Some pending_max \<Rightarrow> Some ((agg_state r)[i := pending_max])))
             else Some (agg_state r)) in
          (case aggs of
             None \<Rightarrow> None
           | Some aggs \<Rightarrow> Some (c_MAX (aggs ! 0) (aggs ! 1), r\<lparr>agg_state := aggs, sleep_state := c_MAX (aggs ! 0) (aggs ! 2)\<rparr>)))"

definition unpa_binary_update_fcn :: "client_heap \<Rightarrow> nat \<Rightarrow> unpa_resource \<Rightarrow> (unpa_resource_state \<times> unpa_resource) option" where
  "unpa_binary_update_fcn cl client r =
     (case cl client of
        None \<Rightarrow> None
      | Some c \<Rightarrow>
          let aggs =
            (if aggregated_type (c_type c)
             then
              (case unpa_get_agg_index (c_type c) of
                 None \<Rightarrow> None
               | Some i \<Rightarrow>
                   Some ((agg_state r)[i := agg_state r ! i - (if active_request c = 0 then 0 else 1) + (if pending_request c = 0 then 0 else 1)]))
             else Some (agg_state r)) in
          (case aggs of
             None \<Rightarrow> None
           | Some aggs \<Rightarrow>
               Some (if 0 < c_MAX (aggs ! 0) (aggs ! 1) then 1 else 0,
                     r\<lparr>agg_state := aggs, sleep_state := if 0 < c_MAX (aggs ! 0) (aggs ! 2) then 1 else 0\<rparr>)))"

definition call_update :: "unpa_env \<Rightarrow> client_heap \<Rightarrow> nat \<Rightarrow> unpa_resource \<Rightarrow> (unpa_resource_state \<times> unpa_resource) option" where
  "call_update env cl client r =
     (case d_update_fcn (r_definition r) of
        Min_Update \<Rightarrow> unpa_min_update_fcn cl client r
      | Max_Update \<Rightarrow> unpa_max_update_fcn cl client r
      | Binary_Update \<Rightarrow> unpa_binary_update_fcn cl client r
      | Other_Update n \<Rightarrow> (case env_update env n cl client r of (agg, sleep, aggs) \<Rightarrow> Some (agg, r\<lparr>agg_state := aggs, sleep_state := sleep\<rparr>)))"

section \<open>Requests\<close>

definition clip :: "unpa_resource_state \<Rightarrow> unpa_resource_state \<Rightarrow> unpa_resource_state" where
  "clip m x = (if m < x then m else x)"

definition unpa_update_resource :: "unpa_env \<Rightarrow> nat \<Rightarrow> unpa \<Rightarrow> unpa option" where
  "unpa_update_resource env client s =
     (case u_clients s client of
        None \<Rightarrow> None
      | Some c \<Rightarrow>
     (case u_res s (c_resource c) of
        None \<Rightarrow> None
      | Some r \<Rightarrow>
     (case call_update env (u_clients s) client r of
        None \<Rightarrow> None
      | Some (agg, r') \<Rightarrow>
          let active_agg = clip (active_max r') agg;
              r' = r'\<lparr>sleep_state := clip (active_max r') (sleep_state r')\<rparr>;
              (r', s) =
                (if unpa_resource_has_attribute r' UNPA_RESOURCE_DRIVER_UNCONDITIONAL \<or> active_agg \<noteq> active_state r' \<or> sleep_state r \<noteq> sleep_state r'
                 then (case call_driver env (c_resource c) r' c active_agg s of (state, s) \<Rightarrow> (r'\<lparr>active_state := state\<rparr>, s))
                 else (r', s)) in
          Some (s\<lparr>u_res := (u_res s)(c_resource c \<mapsto> r'), u_clients := (u_clients s)(client \<mapsto> c\<lparr>active_request := pending_request c\<rparr>)\<rparr>))))"

definition upd_client :: "nat \<Rightarrow> (unpa_client \<Rightarrow> unpa_client) \<Rightarrow> unpa \<Rightarrow> unpa option" where
  "upd_client client f s = (case u_clients s client of None \<Rightarrow> None | Some c \<Rightarrow> Some (s\<lparr>u_clients := (u_clients s)(client \<mapsto> f c)\<rparr>))"

definition unpa_issue_request :: "unpa_env \<Rightarrow> nat \<Rightarrow> unpa_resource_state \<Rightarrow> unpa \<Rightarrow> unpa option" where
  "unpa_issue_request env client request s =
     (case u_clients s client of
        None \<Rightarrow> None
      | Some c \<Rightarrow>
     (case (if request \<noteq> active_request c
            then (case upd_client client (\<lambda>c. c\<lparr>pending_request := request\<rparr>) s of None \<Rightarrow> None | Some s \<Rightarrow> unpa_update_resource env client s)
            else Some s) of
        None \<Rightarrow> None
      | Some s \<Rightarrow> upd_client client (\<lambda>c. c\<lparr>request_attr := UNPA_REQUEST_DEFAULT\<rparr>) s))"

definition drop_vote :: "nat \<Rightarrow> unpa \<Rightarrow> unpa option" where
  "drop_vote client = upd_client client (\<lambda>c. c\<lparr>request_attr := request_attr c OR UNPA_REQUEST_DROP_VOTE\<rparr>)"

definition unpa_cancel_request :: "unpa_env \<Rightarrow> nat \<Rightarrow> unpa \<Rightarrow> unpa option" where
  "unpa_cancel_request env client s = (case drop_vote client s of None \<Rightarrow> None | Some s \<Rightarrow> unpa_issue_request env client 0 s)"

text \<open>The outcome of the attempt to take the lock is an argument.\<close>

definition unpa_try_issue_request :: "unpa_env \<Rightarrow> bool \<Rightarrow> nat \<Rightarrow> unpa_resource_state \<Rightarrow> unpa \<Rightarrow> (bool \<times> unpa) option" where
  "unpa_try_issue_request env locked client request s =
     (case u_clients s client of
        None \<Rightarrow> None
      | Some c \<Rightarrow>
     (case (if request \<noteq> active_request c
            then
             (case upd_client client (\<lambda>c. c\<lparr>pending_request := request\<rparr>) s of
                None \<Rightarrow> None
              | Some s \<Rightarrow> if locked then map_option (Pair True) (unpa_update_resource env client s) else Some (False, s))
            else Some (True, s)) of
        None \<Rightarrow> None
      | Some (ok, s) \<Rightarrow> map_option (Pair ok) (upd_client client (\<lambda>c. c\<lparr>request_attr := UNPA_REQUEST_DEFAULT\<rparr>) s)))"

definition unpa_try_cancel_request :: "unpa_env \<Rightarrow> bool \<Rightarrow> nat \<Rightarrow> unpa \<Rightarrow> (bool \<times> unpa) option" where
  "unpa_try_cancel_request env locked client s = (case drop_vote client s of None \<Rightarrow> None | Some s \<Rightarrow> unpa_try_issue_request env locked client 0 s)"

section \<open>Clients\<close>

definition supported_types :: "unpa_resource \<Rightarrow> u8 option" where
  "supported_types r =
     (let t = d_client_types (r_definition r) in
      if t = UNPA_UPDATE_CLIENT_TYPES
      then (let t = unpa_get_supported_client_types (d_update_fcn (r_definition r)) in if t \<noteq> 0 then Some t else None)
      else Some t)"

definition unpa_create_client :: "unpa_env \<Rightarrow> string \<Rightarrow> u32 \<Rightarrow> string \<Rightarrow> unpa \<Rightarrow> (nat option \<times> unpa) option" where
  "unpa_create_client env name client_type resource_name s =
     (if \<not> length name < UNPA_MAX_NAME_LEN then None
      else
       (case unpa_get_resource resource_name s of
          None \<Rightarrow> Some (None, s)
        | Some a \<Rightarrow>
       (case u_res s a of
          None \<Rightarrow> None
        | Some r \<Rightarrow>
       (case supported_types r of
          None \<Rightarrow> None
        | Some types \<Rightarrow>
            if ucast types AND client_type = 0 then Some (None, s)
            else
             (case env_alloc env s of
                None \<Rightarrow> Some (None, s)
              | Some p \<Rightarrow>
                  let c = \<lparr>c_name = name, c_type = ucast client_type, request_attr = UNPA_REQUEST_DEFAULT, active_request = 0, pending_request = 0, c_resource = a\<rparr>;
                      r = r\<lparr>r_clients := p # r_clients r\<rparr>;
                      (c, s) =
                        (if unpa_resource_has_attribute r UNPA_RESOURCE_CLIENT_CHANGE_NOTIFY
                         then let c = c\<lparr>request_attr := UNPA_REQUEST_ADD_CLIENT\<rparr> in (c, snd (call_driver env a r c 0 s))
                         else (c, s)) in
                  Some (Some p, s\<lparr>u_clients := (u_clients s)(p \<mapsto> c), u_res := (u_res s)(a \<mapsto> r)\<rparr>))))))"

definition unpa_destroy_client :: "unpa_env \<Rightarrow> nat \<Rightarrow> unpa \<Rightarrow> unpa option" where
  "unpa_destroy_client env client s =
     (case unpa_cancel_request env client s of
        None \<Rightarrow> None
      | Some s \<Rightarrow>
     (case u_clients s client of
        None \<Rightarrow> None
      | Some c \<Rightarrow>
     (case u_res s (c_resource c) of
        None \<Rightarrow> None
      | Some r \<Rightarrow>
          if client \<notin> set (r_clients r) then None
          else
            let r = r\<lparr>r_clients := remove1 client (r_clients r)\<rparr>;
                c = c\<lparr>request_attr := UNPA_REQUEST_REMOVE_CLIENT\<rparr>;
                s = (if unpa_resource_has_attribute r UNPA_RESOURCE_CLIENT_CHANGE_NOTIFY then snd (call_driver env (c_resource c) r c 0 s) else s) in
            Some (s\<lparr>u_res := (u_res s)(c_resource c \<mapsto> r), u_clients := (u_clients s)(client := None)\<rparr>))))"

section \<open>Queries\<close>

datatype unpa_query_id = UNPA_QUERY_ACTIVE_STATE | UNPA_QUERY_SLEEP_STATE | UNPA_QUERY_ACTIVE_MAX | UNPA_QUERY_ACTIVE_REQUEST | Other_Query int

datatype unpa_query_status = UNPA_QUERY_SUCCESS | UNPA_QUERY_UNSUPPORTED

definition unpa_get_query_handle :: "string \<Rightarrow> unpa \<Rightarrow> nat option" where
  "unpa_get_query_handle resource_name s = unpa_get_resource resource_name s"

fun find_client :: "client_heap \<Rightarrow> string \<Rightarrow> nat list \<Rightarrow> nat option option" where
  "find_client cl client_name [] = Some None"
| "find_client cl client_name (c # cs) =
     (case cl c of None \<Rightarrow> None | Some x \<Rightarrow> if unpa_same_name client_name (c_name x) then Some (Some c) else find_client cl client_name cs)"

definition unpa_get_client_query_handle :: "string \<Rightarrow> string \<Rightarrow> unpa \<Rightarrow> nat option option" where
  "unpa_get_client_query_handle client_name resource_name s =
     (case unpa_get_resource resource_name s of
        None \<Rightarrow> Some None
      | Some a \<Rightarrow> (case u_res s a of None \<Rightarrow> None | Some r \<Rightarrow> find_client (u_clients s) client_name (r_clients r)))"

text \<open>The handle is cast to what the query is about; \<open>None\<close> is an object of the other kind, or none.\<close>

definition unpa_query :: "nat option \<Rightarrow> unpa_query_id \<Rightarrow> unpa_resource_state \<Rightarrow> unpa \<Rightarrow> (unpa_query_status \<times> unpa_resource_state) option" where
  "unpa_query handle qid result s =
     (case handle of
        None \<Rightarrow> None
      | Some h \<Rightarrow>
     (case qid of
        UNPA_QUERY_ACTIVE_STATE \<Rightarrow> map_option (\<lambda>r. (UNPA_QUERY_SUCCESS, active_state r)) (u_res s h)
      | UNPA_QUERY_SLEEP_STATE \<Rightarrow> map_option (\<lambda>r. (UNPA_QUERY_SUCCESS, sleep_state r)) (u_res s h)
      | UNPA_QUERY_ACTIVE_MAX \<Rightarrow> map_option (\<lambda>r. (UNPA_QUERY_SUCCESS, active_max r)) (u_res s h)
      | UNPA_QUERY_ACTIVE_REQUEST \<Rightarrow> map_option (\<lambda>c. (UNPA_QUERY_SUCCESS, active_request c)) (u_clients s h)
      | Other_Query _ \<Rightarrow> Some (UNPA_QUERY_UNSUPPORTED, result)))"

end
