(* ===== verification/UnpaAgg.thy ===== *)
theory UnpaAgg
  imports Unpa
begin

text \<open>
  The update functions of the arbiter against a reference: for each kind of client the aggregation is the fold of the votes of all clients of
  that kind, although the functions look at the other clients only when the client whose vote changes was the extreme one.

  The locale \<open>aggregation\<close> has what the clients of an update function rely on; it is interpreted on the three functions.
\<close>

section \<open>The reference\<close>

definition votes :: "client_heap \<Rightarrow> u8 \<Rightarrow> nat list \<Rightarrow> u32 list" where
  "votes cl t cs = map (\<lambda>c. active_request (the (cl c))) (filter (\<lambda>c. c_type (the (cl c)) = t) cs)"

definition count_vote :: "u32 \<Rightarrow> u32 \<Rightarrow> u32" where
  "count_vote x n = (if x = 0 then n else n + 1)"

definition any_vote :: "u32 \<Rightarrow> u32 \<Rightarrow> u32" where
  "any_vote x y = (if 0 < c_MAX x y then 1 else 0)"

fun vote_op :: "unpa_resource_update_fcn \<Rightarrow> u32 \<Rightarrow> u32 \<Rightarrow> u32" where
  "vote_op Min_Update = min_of"
| "vote_op Max_Update = c_MAX"
| "vote_op Binary_Update = count_vote"
| "vote_op (Other_Update n) = (\<lambda>_ y. y)"

fun join_op :: "unpa_resource_update_fcn \<Rightarrow> u32 \<Rightarrow> u32 \<Rightarrow> u32" where
  "join_op Min_Update = min_of"
| "join_op Max_Update = c_MAX"
| "join_op Binary_Update = any_vote"
| "join_op (Other_Update n) = (\<lambda>x _. x)"

definition provided :: "unpa_resource_update_fcn \<Rightarrow> bool" where
  "provided u \<longleftrightarrow> u \<in> {Min_Update, Max_Update, Binary_Update}"

definition kind_of :: "nat \<Rightarrow> u8" where
  "kind_of i = [UNPA_CLIENT_REQUIRED, UNPA_CLIENT_SUPPRESSIBLE, UNPA_CLIENT_SLEEP] ! i"

definition agg_ok :: "(u32 \<Rightarrow> u32 \<Rightarrow> u32) \<Rightarrow> client_heap \<Rightarrow> unpa_resource \<Rightarrow> bool" where
  "agg_ok f cl r \<longleftrightarrow> length (agg_state r) = 3 \<and> (\<forall>i<3. agg_state r ! i = foldr f (votes cl (kind_of i) (r_clients r)) 0)"

lemma less_3: "(i :: nat) < 3 \<longleftrightarrow> i = 0 \<or> i = 1 \<or> i = 2"
  by auto

lemma kind_values: "kind_of 0 = 1" "kind_of (Suc 0) = 2" "kind_of 1 = 2" "kind_of 2 = 4"
  by (simp_all add: kind_of_def)

lemma agg_index_iff: "i < 3 \<Longrightarrow> unpa_get_agg_index (kind_of i) = Some i \<and> aggregated_type (kind_of i)"
  by (auto simp: unpa_get_agg_index_def aggregated_type_def kind_values less_3)

lemma aggregated_iff: "aggregated_type t \<longleftrightarrow> (\<exists>i<3. t = kind_of i)"
  by (auto simp: aggregated_type_def kind_values less_3)

lemma kind_of_inj: "i < 3 \<Longrightarrow> j < 3 \<Longrightarrow> kind_of i = kind_of j \<longleftrightarrow> i = j"
  by (auto simp: kind_values less_3)

lemma votes_Cons: "votes cl t (c # cs) = (if c_type (the (cl c)) = t then [active_request (the (cl c))] else []) @ votes cl t cs"
  by (simp add: votes_def)

lemma votes_Nil [simp]: "votes cl t [] = []"
  by (simp add: votes_def)

abbreviation (input) others :: "nat \<Rightarrow> nat list \<Rightarrow> nat list" where
  "others client cs \<equiv> filter (\<lambda>c. c \<noteq> client) cs"

text \<open>Changing a client does not change the votes of the others, nor those of another kind.\<close>

lemma votes_others: "votes (cl(client := x)) t (others client cs) = votes cl t (others client cs)"
  by (induction cs) (auto simp: votes_Cons)

lemma votes_other_kind: "c_type (the (cl client)) \<noteq> t \<Longrightarrow> votes cl t (others client cs) = votes cl t cs"
  by (induction cs) (auto simp: votes_Cons)

section \<open>The interface of an update function\<close>

locale aggregation =
  fixes u :: unpa_resource_update_fcn and f :: "u32 \<Rightarrow> u32 \<Rightarrow> u32" and join :: "u32 \<Rightarrow> u32 \<Rightarrow> u32"
  assumes left_commute: "f x (f y z) = f y (f x z)"
    and zero: "f 0 z = z"
    and join_zero: "join 0 0 = 0"
    and update_kind: "cl client = Some c \<Longrightarrow> d_update_fcn (r_definition r) = u \<Longrightarrow> r_clients r \<noteq> [] \<Longrightarrow> \<forall>x \<in> set (r_clients r). cl x \<noteq> None \<Longrightarrow>
      i < 3 \<Longrightarrow> c_type c = kind_of i \<Longrightarrow> rest = foldr f (votes cl (c_type c) (others client (r_clients r))) 0 \<Longrightarrow> agg_state r ! i = f (active_request c) rest \<Longrightarrow>
      aggs = (agg_state r)[i := f (pending_request c) rest] \<Longrightarrow>
      call_update env cl client r = Some (join (aggs ! 0) (aggs ! 1), r\<lparr>agg_state := aggs, sleep_state := join (aggs ! 0) (aggs ! 2)\<rparr>)"
    and update_other: "cl client = Some c \<Longrightarrow> d_update_fcn (r_definition r) = u \<Longrightarrow> \<not> aggregated_type (c_type c) \<Longrightarrow>
      call_update env cl client r = Some (join (agg_state r ! 0) (agg_state r ! 1), r\<lparr>sleep_state := join (agg_state r ! 0) (agg_state r ! 2)\<rparr>)"
begin

lemma fold_votes_split:
  assumes "distinct cs" and "client \<in> set cs" and "cl client = Some c"
  shows "foldr f (votes cl (c_type c) cs) 0 = f (active_request c) (foldr f (votes cl (c_type c) (others client cs)) 0)"
  using assms(1,2)
proof (induction cs)
  case (Cons x cs)
  show ?case
  proof (cases "x = client")
    case True
    then have "others client cs = cs" using Cons.prems(1) by (auto simp: filter_id_conv)
    then show ?thesis using True assms(3) by (simp add: votes_Cons)
  next
    case False
    then show ?thesis using Cons left_commute by (simp add: votes_Cons)
  qed
qed simp

lemma update_keeps_agg:
  assumes "agg_ok f cl r" and "d_update_fcn (r_definition r) = u" and "distinct (r_clients r)" and "client \<in> set (r_clients r)"
    and "\<forall>x \<in> set (r_clients r). cl x \<noteq> None" and "cl client = Some c"
  shows "\<exists>aggs. call_update env cl client r = Some (join (aggs ! 0) (aggs ! 1), r\<lparr>agg_state := aggs, sleep_state := join (aggs ! 0) (aggs ! 2)\<rparr>) \<and>
    agg_ok f (cl(client \<mapsto> c\<lparr>active_request := pending_request c\<rparr>)) (r\<lparr>agg_state := aggs, sleep_state := join (aggs ! 0) (aggs ! 2)\<rparr>)"
proof -
  let ?cl = "cl(client \<mapsto> c\<lparr>active_request := pending_request c\<rparr>)"
  have old: "agg_state r ! j = foldr f (votes cl (kind_of j) (r_clients r)) 0" "length (agg_state r) = 3" if "j < 3" for j using assms(1) that by (simp_all add: agg_ok_def)
  have l: "length (agg_state r) = 3" using assms(1) by (simp add: agg_ok_def)
  have same: "votes ?cl t (r_clients r) = votes cl t (r_clients r)" if "t \<noteq> c_type c" for t
    using votes_other_kind [of ?cl client t "r_clients r"] votes_other_kind [of cl client t "r_clients r"] votes_others [of cl client "Some (c\<lparr>active_request := pending_request c\<rparr>)" t "r_clients r"]
      that assms(6) by simp
  show ?thesis
  proof (cases "aggregated_type (c_type c)")
    case True
    then obtain i where i: "i < 3" "c_type c = kind_of i" using aggregated_iff by blast
    let ?rest = "foldr f (votes cl (c_type c) (others client (r_clients r))) 0"
    let ?aggs = "(agg_state r)[i := f (pending_request c) ?rest]"
    have "agg_state r ! i = f (active_request c) ?rest" using old(1) [OF i(1)] fold_votes_split [of "r_clients r" client cl c] assms(3,4,6) i(2) by simp
    then have "call_update env cl client r = Some (join (?aggs ! 0) (?aggs ! 1), r\<lparr>agg_state := ?aggs, sleep_state := join (?aggs ! 0) (?aggs ! 2)\<rparr>)"
      using assms(4) by (intro update_kind [OF assms(6,2) _ assms(5) i refl _ refl]) auto
    moreover have "?aggs ! j = foldr f (votes ?cl (kind_of j) (r_clients r)) 0" if "j < 3" for j
    proof (cases "j = i")
      case True
      then show ?thesis using fold_votes_split [of "r_clients r" client ?cl "c\<lparr>active_request := pending_request c\<rparr>"] assms(3,4) i(2)
          votes_others [of cl client "Some (c\<lparr>active_request := pending_request c\<rparr>)" "c_type c" "r_clients r"] l that by simp
    next
      case False
      then show ?thesis using same [of "kind_of j"] kind_of_inj [OF that i(1)] i(2) old(1) [OF that] by simp
    qed
    ultimately show ?thesis using l by (intro exI [of _ ?aggs]) (simp add: agg_ok_def)
  next
    case False
    have "votes ?cl (kind_of j) (r_clients r) = votes cl (kind_of j) (r_clients r)" if "j < 3" for j using same [of "kind_of j"] False aggregated_iff that by metis
    then have "agg_ok f ?cl (r\<lparr>sleep_state := join (agg_state r ! 0) (agg_state r ! 2)\<rparr>)" using assms(1) by (simp add: agg_ok_def)
    moreover have "r\<lparr>agg_state := agg_state r, sleep_state := z\<rparr> = r\<lparr>sleep_state := z\<rparr>" for z by simp
    ultimately show ?thesis using update_other [of cl client c r env, OF assms(6,2) False] by (intro exI [of _ "agg_state r"]) simp
  qed
qed

text \<open>A client without a vote does not count.\<close>

lemma fold_votes_zero:
  assumes "distinct cs" and "client \<in> set cs" and "cl client = Some c" and "active_request c = 0"
  shows "foldr f (votes cl t cs) 0 = foldr f (votes cl t (others client cs)) 0"
proof (cases "c_type c = t")
  case True
  then show ?thesis using fold_votes_split [OF assms(1,2), of cl c] assms(3,4) zero by simp
next
  case False
  then show ?thesis using votes_other_kind [of cl client t cs] assms(3) by simp
qed

lemma agg_ok_add:
  assumes "agg_ok f cl r" and "client \<notin> set (r_clients r)" and "active_request c = 0"
  shows "agg_ok f (cl(client \<mapsto> c)) (r\<lparr>r_clients := client # r_clients r\<rparr>)"
proof -
  have "others client (r_clients r) = r_clients r" using assms(2) by (auto simp: filter_id_conv)
  then have "votes (cl(client \<mapsto> c)) t (r_clients r) = votes cl t (r_clients r)" for t using votes_others [of cl client "Some c" t "r_clients r"] by simp
  then show ?thesis using assms(1,3) zero by (auto simp: agg_ok_def votes_Cons)
qed

lemma agg_ok_remove:
  assumes "agg_ok f cl r" and "distinct (r_clients r)" and "client \<in> set (r_clients r)" and "cl client = Some c" and "active_request c = 0"
  shows "agg_ok f (cl(client := None)) (r\<lparr>r_clients := remove1 client (r_clients r)\<rparr>)"
proof -
  have "(\<lambda>c. c \<noteq> client) = (\<lambda>c. client \<noteq> c)" by auto
  then have "remove1 client (r_clients r) = others client (r_clients r)" using distinct_remove1_removeAll [OF assms(2)] by (simp add: removeAll_filter_not_eq)
  then show ?thesis using assms(1) fold_votes_zero [OF assms(2,3), of cl c] assms(4,5) votes_others [of cl client None _ "r_clients r"] by (simp add: agg_ok_def)
qed

end

section \<open>The three update functions\<close>

lemma MAX_simps: "c_MAX x y = max x y" "c_MIN x y = min x y"
  by (auto simp: c_MAX_def c_MIN_def max_def min_def)

lemma c_MAX_max: "c_MAX = max"
  by (intro ext) (rule MAX_simps)

lemma max_walk_eq:
  assumes "\<forall>x \<in> set cs. cl x \<noteq> None"
  shows "max_walk cl client t cs m = Some (max m (foldr max (votes cl t (others client cs)) 0))"
  using assms by (induction cs arbitrary: m) (auto simp: votes_Cons max.assoc max_def)

lemma min_of_assoc: "min_of (min_of x y) z = min_of x (min_of y z)"
  by (auto simp: min_of_def MAX_simps min_def)

lemma min_of_comm: "min_of x y = min_of y x"
  by (auto simp: min_of_def MAX_simps min_def)

lemma min_of_zero [simp]: "min_of 0 z = z" "min_of z 0 = z"
  by (auto simp: min_of_def)

lemma min_of_step: "min_of m q = (if q \<noteq> 0 \<and> (m = 0 \<or> q < m) then q else m)"
  by (auto simp: min_of_def MAX_simps min_def)

lemma min_walk_eq:
  assumes "\<forall>x \<in> set cs. cl x \<noteq> None"
  shows "min_walk cl client t cs m = Some (min_of m (foldr min_of (votes cl t (others client cs)) 0))"
  using assms
proof (induction cs arbitrary: m)
  case (Cons c cs)
  then show ?case by (auto simp: votes_Cons min_of_step [symmetric] min_of_assoc [symmetric])
qed simp

interpretation maximum: aggregation Max_Update c_MAX c_MAX
proof (unfold_locales, goal_cases)
  case (4 cl client c r i rest aggs env)
  note i = agg_index_iff [OF 4(5)]
  have r: "max_walk cl client (c_type c) (r_clients r) m = Some (max m rest)" for m
    using max_walk_eq [OF 4(4)] 4(7) by (simp add: c_MAX_max)
  have "(if agg_state r ! i < pending_request c then Some (pending_request c)
      else if agg_state r ! i = active_request c then (if r_clients r = [] then None else max_walk cl client (c_type c) (r_clients r) (pending_request c)) else Some (agg_state r ! i)) =
    Some (max (pending_request c) rest)"
    using 4(3,8) r by (auto simp: MAX_simps max_def)
  then show ?case using 4(1,2,6,9) i by (simp add: call_update_def unpa_max_update_fcn_def MAX_simps)
qed (auto simp: MAX_simps max.left_commute call_update_def unpa_max_update_fcn_def)

interpretation minimum: aggregation Min_Update min_of min_of
proof (unfold_locales, goal_cases)
  case (4 cl client c r i rest aggs env)
  note i = agg_index_iff [OF 4(5)]
  have r: "min_walk cl client (c_type c) (r_clients r) m = Some (min_of m rest)" for m
    using min_walk_eq [OF 4(4)] 4(7) by simp
  have "(if pending_request c \<noteq> 0 \<and> (agg_state r ! i = 0 \<or> pending_request c < agg_state r ! i) then Some (pending_request c)
      else if agg_state r ! i = active_request c then (if r_clients r = [] then None else min_walk cl client (c_type c) (r_clients r) (pending_request c)) else Some (agg_state r ! i)) =
    Some (min_of (pending_request c) rest)"
    using 4(3,8) r by (auto simp: min_of_def MAX_simps min_def split: if_splits)
  then show ?case using 4(1,2,6,9) i by (simp add: call_update_def unpa_min_update_fcn_def)
next
  case (1 x y z)
  show ?case by (metis min_of_assoc min_of_comm)
qed (auto simp: call_update_def unpa_min_update_fcn_def)

interpretation binary: aggregation Binary_Update count_vote any_vote
proof (unfold_locales, goal_cases)
  case (4 cl client c r i rest aggs env)
  note i = agg_index_iff [OF 4(5)]
  have "agg_state r ! i - (if active_request c = 0 then 0 else 1) + (if pending_request c = 0 then 0 else 1) = count_vote (pending_request c) rest"
    using 4(8) by (simp add: count_vote_def)
  then show ?case using 4(1,2,6,9) i by (simp add: call_update_def unpa_binary_update_fcn_def any_vote_def)
qed (auto simp: count_vote_def any_vote_def MAX_simps call_update_def unpa_binary_update_fcn_def)

end
