(* ===== verification/UnpaInv.thy ===== *)
theory UnpaInv
  imports UnpaAgg
begin

text \<open>
  The arbiter's invariant over all sequences of operations: every operation on an existing client returns, and the states of a resource are what the
  votes of its clients add up to.
\<close>

section \<open>The invariant\<close>

lemma provided_aggregation: "provided u \<Longrightarrow> aggregation u (vote_op u) (join_op u)"
  using maximum.aggregation_axioms minimum.aggregation_axioms binary.aggregation_axioms by (auto simp: provided_def)

abbreviation (input) update_of :: "unpa_resource \<Rightarrow> unpa_resource_update_fcn" where
  "update_of r \<equiv> d_update_fcn (r_definition r)"

definition res_ok :: "client_heap \<Rightarrow> nat \<Rightarrow> unpa_resource \<Rightarrow> bool" where
  "res_ok cl a r \<longleftrightarrow> distinct (r_clients r) \<and> (\<forall>c \<in> set (r_clients r). \<exists>x. cl c = Some x \<and> c_resource x = a) \<and>
     (provided (update_of r) \<longrightarrow> agg_ok (vote_op (update_of r)) cl r \<and>
        sleep_state r = clip (active_max r) (join_op (update_of r) (agg_state r ! 0) (agg_state r ! 2)))"

definition unpa_inv :: "unpa \<Rightarrow> bool" where
  "unpa_inv s \<longleftrightarrow> (\<forall>a r. u_res s a = Some r \<longrightarrow> res_ok (u_clients s) a r) \<and> (\<forall>a \<in> set (u_resources s). u_res s a \<noteq> None) \<and>
     (\<forall>c x. u_clients s c = Some x \<longrightarrow> (\<exists>r. u_res s (c_resource x) = Some r \<and> c \<in> set (r_clients r)))"

lemma unpa_inv_res: "unpa_inv s \<Longrightarrow> u_res s a = Some r \<Longrightarrow> res_ok (u_clients s) a r"
  by (simp add: unpa_inv_def)

lemma unpa_inv_client: "unpa_inv s \<Longrightarrow> u_clients s c = Some x \<Longrightarrow> \<exists>r. u_res s (c_resource x) = Some r \<and> c \<in> set (r_clients r)"
  by (simp add: unpa_inv_def)

lemma res_ok_client: "res_ok cl a r \<Longrightarrow> c \<in> set (r_clients r) \<Longrightarrow> \<exists>x. cl c = Some x \<and> c_resource x = a"
  by (simp add: res_ok_def)

lemma res_ok_cong:
  assumes "\<And>c. c \<in> set (r_clients r) \<Longrightarrow> cl' c = cl c"
  shows "res_ok cl' a r = res_ok cl a r"
proof -
  have "filter (\<lambda>c. c_type (the (cl' c)) = t) (r_clients r) = filter (\<lambda>c. c_type (the (cl c)) = t) (r_clients r)" for t using assms by (intro filter_cong) simp_all
  then have "votes cl' t (r_clients r) = votes cl t (r_clients r)" for t using assms by (simp add: votes_def)
  then show ?thesis using assms by (simp add: res_ok_def agg_ok_def)
qed

text \<open>Changing a client and its resource keeps the other resources.\<close>

lemma unpa_inv_change:
  assumes "unpa_inv s" and "\<And>b r. b \<noteq> a \<Longrightarrow> u_res s b = Some r \<Longrightarrow> client \<notin> set (r_clients r)"
    and "res_ok ((u_clients s)(client := x)) a r'" and "u_resources s' = u_resources s" and "u_clients s' = (u_clients s)(client := x)"
    and "u_res s' = (u_res s)(a \<mapsto> r')" and "\<And>y. x = Some y \<Longrightarrow> c_resource y = a \<and> client \<in> set (r_clients r')"
    and "\<And>r c. u_res s a = Some r \<Longrightarrow> c \<in> set (r_clients r) \<Longrightarrow> c \<noteq> client \<Longrightarrow> c \<in> set (r_clients r')"
  shows "unpa_inv s'"
proof -
  have "res_ok (u_clients s') b r" if "u_res s' b = Some r" for b r
  proof (cases "b = a")
    case False
    then have r: "u_res s b = Some r" using that assms(6) by simp
    then have "res_ok (u_clients s) b r" using assms(1) by (simp add: unpa_inv_def)
    moreover have "res_ok (u_clients s') b r = res_ok (u_clients s) b r" using assms(2) [OF False r] assms(5) by (intro res_ok_cong) auto
    ultimately show ?thesis by simp
  qed (use that assms(3,5,6) in simp)
  moreover have "u_res s' b \<noteq> None" if "b \<in> set (u_resources s')" for b using assms(1) that assms(4,6) by (simp add: unpa_inv_def)
  moreover have "\<exists>r. u_res s' (c_resource y) = Some r \<and> c \<in> set (r_clients r)" if y: "u_clients s' c = Some y" for c y
  proof (cases "c = client")
    case False
    then obtain r where "u_res s (c_resource y) = Some r" "c \<in> set (r_clients r)" using unpa_inv_client [OF assms(1), of c y] assms(5) y by auto
    then show ?thesis using assms(6,8) False by (cases "c_resource y = a") auto
  qed (use y assms(5,6,7) in auto)
  ultimately show ?thesis by (simp add: unpa_inv_def)
qed

lemma client_of_one_resource:
  assumes "unpa_inv s" and "u_clients s client = Some c" and "b \<noteq> c_resource c" and "u_res s b = Some r"
  shows "client \<notin> set (r_clients r)"
  using res_ok_client [OF unpa_inv_res [OF assms(1,4)], of client] assms(2,3) by auto

section \<open>Requests\<close>

text \<open>What the pass of a request through the pipeline does.\<close>

lemma update_resource_ok:
  assumes "unpa_inv s" and "u_clients s client = Some c" and "u_res s (c_resource c) = Some r"
  shows "\<exists>s' r'. unpa_update_resource env client s = Some s' \<and> unpa_inv s' \<and> u_clients s' = (u_clients s)(client \<mapsto> c\<lparr>active_request := pending_request c\<rparr>) \<and>
    u_res s' = (u_res s)(c_resource c \<mapsto> r') \<and> r_clients r' = r_clients r \<and> r_definition r' = r_definition r \<and> active_max r' = active_max r \<and> u_resources s' = u_resources s \<and>
    (provided (update_of r) \<longrightarrow> (let agg = clip (active_max r) (join_op (update_of r) (agg_state r' ! 0) (agg_state r' ! 1)) in
       active_state r' = agg \<or> (\<exists>r0. active_state r' = env_driver env (d_driver_fcn (r_definition r)) r0 c agg)))"
proof -
  have ok: "res_ok (u_clients s) (c_resource c) r" using assms(1,3) by (simp add: unpa_inv_def)
  have cl: "client \<in> set (r_clients r)" using unpa_inv_client [OF assms(1,2)] assms(3) by simp
  let ?cl = "(u_clients s)(client \<mapsto> c\<lparr>active_request := pending_request c\<rparr>)" and ?u = "update_of r"
  obtain agg aggs sleep where up: "call_update env (u_clients s) client r = Some (agg, r\<lparr>agg_state := aggs, sleep_state := sleep\<rparr>)"
    and new: "provided ?u \<Longrightarrow> agg = join_op ?u (aggs ! 0) (aggs ! 1) \<and> sleep = join_op ?u (aggs ! 0) (aggs ! 2) \<and> agg_ok (vote_op ?u) ?cl (r\<lparr>agg_state := aggs, sleep_state := sleep\<rparr>)"
  proof (cases "provided ?u")
    case True
    then have "agg_ok (vote_op ?u) (u_clients s) r" "distinct (r_clients r)" "\<forall>x \<in> set (r_clients r). u_clients s x \<noteq> None" using ok by (auto simp: res_ok_def)
    then obtain aggs where a: "call_update env (u_clients s) client r = Some (join_op ?u (aggs ! 0) (aggs ! 1), r\<lparr>agg_state := aggs, sleep_state := join_op ?u (aggs ! 0) (aggs ! 2)\<rparr>)"
      "agg_ok (vote_op ?u) ?cl (r\<lparr>agg_state := aggs, sleep_state := join_op ?u (aggs ! 0) (aggs ! 2)\<rparr>)"
      using aggregation.update_keeps_agg [OF provided_aggregation [OF True], where cl = "u_clients s" and r = r and client = client and c = c and env = env] cl assms(2) by blast
    show ?thesis by (rule that [OF a(1)]) (use a(2) in simp)
  next
    case False
    then obtain n where "?u = Other_Update n" by (cases ?u) (auto simp: provided_def)
    then show ?thesis using that False by (cases "env_update env n (u_clients s) client r") (auto simp: call_update_def)
  qed
  let ?r1 = "r\<lparr>agg_state := aggs, sleep_state := clip (active_max r) sleep\<rparr>"
  let ?go = "unpa_resource_has_attribute ?r1 1 \<or> clip (active_max r) agg \<noteq> active_state r \<or> sleep_state r \<noteq> clip (active_max r) sleep"
  let ?r' = "if ?go then ?r1\<lparr>active_state := env_driver env (d_driver_fcn (r_definition r)) ?r1 c (clip (active_max r) agg)\<rparr> else ?r1"
  let ?t = "if ?go then snd (call_driver env (c_resource c) ?r1 c (clip (active_max r) agg) s) else s"
  let ?s' = "?t\<lparr>u_res := (u_res s)(c_resource c \<mapsto> ?r'), u_clients := ?cl\<rparr>"
  have e: "unpa_update_resource env client s = Some ?s'"
    using assms(2,3) up by (simp add: unpa_update_resource_def Let_def call_driver_def)
  have ok': "res_ok ?cl (c_resource c) ?r'" using ok new assms(2) by (auto simp: res_ok_def agg_ok_def)
  have "unpa_inv ?s'"
    by (rule unpa_inv_change [OF assms(1) client_of_one_resource [OF assms(1,2)] ok']) (use cl assms(3) in \<open>auto simp: call_driver_def\<close>)
  moreover have "provided ?u \<longrightarrow> (let agg = clip (active_max r) (join_op ?u (agg_state ?r' ! 0) (agg_state ?r' ! 1)) in
       active_state ?r' = agg \<or> (\<exists>r0. active_state ?r' = env_driver env (d_driver_fcn (r_definition r)) r0 c agg))"
    using new by (auto simp: Let_def)
  ultimately show ?thesis using e by (intro exI [of _ ?s'] exI [of _ ?r']) (simp add: call_driver_def)
qed

text \<open>The attributes and the pending request of a client do not count.\<close>

lemma upd_client_ok:
  assumes "unpa_inv s" and "u_clients s client = Some c" and "c_resource (f c) = c_resource c" and "c_type (f c) = c_type c" and "active_request (f c) = active_request c"
  shows "\<exists>s'. upd_client client f s = Some s' \<and> unpa_inv s' \<and> u_clients s' = (u_clients s)(client \<mapsto> f c) \<and> u_res s' = u_res s \<and> u_resources s' = u_resources s"
proof -
  let ?cl = "(u_clients s)(client \<mapsto> f c)" and ?s' = "s\<lparr>u_clients := (u_clients s)(client \<mapsto> f c)\<rparr>"
  obtain r where r: "u_res s (c_resource c) = Some r" "client \<in> set (r_clients r)" using unpa_inv_client [OF assms(1,2)] by blast
  have "c_type (the (?cl x)) = c_type (the (u_clients s x))" "active_request (the (?cl x)) = active_request (the (u_clients s x))" for x using assms(2-5) by auto
  then have "votes ?cl = votes (u_clients s)" by (simp add: votes_def fun_eq_iff)
  then have ok: "res_ok ?cl (c_resource c) r" using unpa_inv_res [OF assms(1) r(1)] assms(2,3) by (auto simp: res_ok_def agg_ok_def)
  have "unpa_inv ?s'"
    by (rule unpa_inv_change [OF assms(1) client_of_one_resource [OF assms(1,2)] ok]) (use r assms(3) in auto)
  then show ?thesis using assms(2) by (simp add: upd_client_def)
qed

definition client_after :: "unpa_client \<Rightarrow> u32 \<Rightarrow> unpa_client" where
  "client_after c request = c\<lparr>active_request := request, pending_request := (if request \<noteq> active_request c then request else pending_request c), request_attr := 0\<rparr>"

text \<open>Every request on an existing client is processed; the resource and the client are the only objects that change.\<close>

lemma issue_request_ok:
  assumes "unpa_inv s" and "u_clients s client = Some c" and "u_res s (c_resource c) = Some r"
  shows "\<exists>s' r'. unpa_issue_request env client request s = Some s' \<and> unpa_inv s' \<and> u_clients s' = (u_clients s)(client \<mapsto> client_after c request) \<and>
    u_res s' = (u_res s)(c_resource c \<mapsto> r') \<and> r_clients r' = r_clients r \<and> r_definition r' = r_definition r \<and> active_max r' = active_max r \<and> u_resources s' = u_resources s \<and>
    (request \<noteq> active_request c \<and> provided (update_of r) \<longrightarrow> (let agg = clip (active_max r) (join_op (update_of r) (agg_state r' ! 0) (agg_state r' ! 1)) in
       active_state r' = agg \<or> (\<exists>r0 c0. active_state r' = env_driver env (d_driver_fcn (r_definition r)) r0 c0 agg)))"
proof (cases "request = active_request c")
  case True
  obtain s' where "upd_client client (\<lambda>c. c\<lparr>request_attr := 0\<rparr>) s = Some s'" "unpa_inv s'" "u_clients s' = (u_clients s)(client \<mapsto> c\<lparr>request_attr := 0\<rparr>)" "u_res s' = u_res s"
    "u_resources s' = u_resources s" using upd_client_ok [OF assms(1,2), of "\<lambda>c. c\<lparr>request_attr := 0\<rparr>"] by auto
  moreover have "client_after c request = c\<lparr>request_attr := 0\<rparr>" using True by (simp add: client_after_def)
  ultimately show ?thesis using True assms(2,3) by (intro exI [of _ s'] exI [of _ r]) (simp add: unpa_issue_request_def fun_upd_idem)
next
  case False
  let ?c1 = "c\<lparr>pending_request := request\<rparr>"
  obtain s1 where s1: "upd_client client (\<lambda>c. c\<lparr>pending_request := request\<rparr>) s = Some s1" "unpa_inv s1" "u_clients s1 = (u_clients s)(client \<mapsto> ?c1)" "u_res s1 = u_res s"
    "u_resources s1 = u_resources s" using upd_client_ok [OF assms(1,2), of "\<lambda>c. c\<lparr>pending_request := request\<rparr>"] by auto
  have c1: "u_clients s1 client = Some ?c1" "u_res s1 (c_resource ?c1) = Some r" using s1(3,4) assms(3) by simp_all
  obtain s2 r' where s2: "unpa_update_resource env client s1 = Some s2" "unpa_inv s2" "u_clients s2 = (u_clients s1)(client \<mapsto> ?c1\<lparr>active_request := request\<rparr>)"
    "u_res s2 = (u_res s1)(c_resource c \<mapsto> r')" "r_clients r' = r_clients r" "r_definition r' = r_definition r" "active_max r' = active_max r" "u_resources s2 = u_resources s1"
    "provided (update_of r) \<longrightarrow> (let agg = clip (active_max r) (join_op (update_of r) (agg_state r' ! 0) (agg_state r' ! 1)) in
       active_state r' = agg \<or> (\<exists>r0. active_state r' = env_driver env (d_driver_fcn (r_definition r)) r0 ?c1 agg))"
    using update_resource_ok [OF s1(2) c1, of env] by auto
  have c2: "u_clients s2 client = Some (?c1\<lparr>active_request := request\<rparr>)" using s2(3) by simp
  obtain s3 where s3: "upd_client client (\<lambda>c. c\<lparr>request_attr := 0\<rparr>) s2 = Some s3" "unpa_inv s3" "u_clients s3 = (u_clients s2)(client \<mapsto> ?c1\<lparr>active_request := request, request_attr := 0\<rparr>)"
    "u_res s3 = u_res s2" "u_resources s3 = u_resources s2" using upd_client_ok [OF s2(2) c2, of "\<lambda>c. c\<lparr>request_attr := 0\<rparr>"] by auto
  have "client_after c request = ?c1\<lparr>active_request := request, request_attr := 0\<rparr>" using False by (simp add: client_after_def)
  then show ?thesis using False assms(2) s1 s2 s3 by (intro exI [of _ s3] exI [of _ r']) (auto simp: unpa_issue_request_def Let_def)
qed

lemma cancel_request_ok:
  assumes "unpa_inv s" and "u_clients s client = Some c" and "u_res s (c_resource c) = Some r"
  shows "\<exists>s' r'. unpa_cancel_request env client s = Some s' \<and> unpa_inv s' \<and> u_clients s' = (u_clients s)(client \<mapsto> client_after c 0) \<and>
    u_res s' = (u_res s)(c_resource c \<mapsto> r') \<and> r_clients r' = r_clients r \<and> r_definition r' = r_definition r \<and> u_resources s' = u_resources s"
proof -
  let ?f = "\<lambda>c. c\<lparr>request_attr := request_attr c OR UNPA_REQUEST_DROP_VOTE\<rparr>"
  obtain s1 where s1: "upd_client client ?f s = Some s1" "unpa_inv s1" "u_clients s1 = (u_clients s)(client \<mapsto> ?f c)" "u_res s1 = u_res s" "u_resources s1 = u_resources s"
    using upd_client_ok [OF assms(1,2), of ?f] by auto
  have "client_after (?f c) 0 = client_after c 0" by (simp add: client_after_def)
  then show ?thesis using issue_request_ok [of s1 client "?f c" r env 0] s1 assms(3) by (auto simp: unpa_cancel_request_def drop_vote_def)
qed

lemma try_issue_ok:
  assumes "unpa_inv s" and "u_clients s client = Some c"
  shows "\<exists>ok s'. unpa_try_issue_request env locked client request s = Some (ok, s') \<and> unpa_inv s'"
proof -
  obtain r where r: "u_res s (c_resource c) = Some r" using unpa_inv_client [OF assms] by blast
  show ?thesis
  proof (cases "locked \<or> request = active_request c")
    case True
    then have "unpa_try_issue_request env locked client request s = map_option (Pair True) (unpa_issue_request env client request s)"
      using assms(2) by (auto simp: unpa_try_issue_request_def unpa_issue_request_def split: option.splits)
    then show ?thesis using issue_request_ok [OF assms r, of env request] by auto
  next
    case False
    obtain s1 where s1: "upd_client client (\<lambda>c. c\<lparr>pending_request := request\<rparr>) s = Some s1" "unpa_inv s1" "u_clients s1 = (u_clients s)(client \<mapsto> c\<lparr>pending_request := request\<rparr>)"
      using upd_client_ok [OF assms, of "\<lambda>c. c\<lparr>pending_request := request\<rparr>"] by auto
    then obtain s2 where "upd_client client (\<lambda>c. c\<lparr>request_attr := 0\<rparr>) s1 = Some s2" "unpa_inv s2"
      using upd_client_ok [OF s1(2), of client _ "\<lambda>c. c\<lparr>request_attr := 0\<rparr>"] by auto
    then show ?thesis using False s1(1) assms(2) by (auto simp: unpa_try_issue_request_def)
  qed
qed

lemma try_cancel_ok:
  assumes "unpa_inv s" and "u_clients s client = Some c"
  shows "\<exists>ok s'. unpa_try_cancel_request env locked client s = Some (ok, s') \<and> unpa_inv s'"
proof -
  let ?f = "\<lambda>c. c\<lparr>request_attr := request_attr c OR UNPA_REQUEST_DROP_VOTE\<rparr>"
  obtain s1 where s1: "upd_client client ?f s = Some s1" "unpa_inv s1" "u_clients s1 = (u_clients s)(client \<mapsto> ?f c)"
    using upd_client_ok [OF assms, of ?f] by auto
  then show ?thesis using try_issue_ok [OF s1(2), of client "?f c" env locked 0] by (auto simp: unpa_try_cancel_request_def drop_vote_def)
qed

section \<open>Creation and destruction\<close>

text \<open>The allocator returns unused memory.\<close>

definition good_alloc :: "unpa_env \<Rightarrow> bool" where
  "good_alloc env \<longleftrightarrow> (\<forall>s p. env_alloc env s = Some p \<longrightarrow> u_res s p = None \<and> u_clients s p = None)"

lemma create_resource_inv:
  assumes "good_alloc env" and "unpa_inv s" and "unpa_create_resource env d i s = Some (p, s')"
  shows "unpa_inv s'"
proof (cases "env_alloc env s")
  case None
  then show ?thesis using assms(2,3) by (auto simp: unpa_create_resource_def split: if_splits)
next
  case (Some a)
  let ?r = "\<lparr>r_definition = d, r_clients = [], active_state = 0, sleep_state = 0, agg_state = [0, 0, 0], active_max = d_max d\<rparr>"
  let ?c = "\<lparr>c_name = [], c_type = 0, request_attr = 0, active_request = 0, pending_request = i, c_resource = 0\<rparr>"
  let ?st = "env_driver env (d_driver_fcn d) ?r ?c i"
  have s': "s' = (snd (call_driver env a ?r ?c i s))\<lparr>u_res := (u_res s)(a \<mapsto> ?r\<lparr>active_state := ?st\<rparr>), u_resources := a # u_resources s\<rparr>"
    using assms(3) Some by (auto simp: unpa_create_resource_def call_driver_def Let_def split: if_splits)
  have fresh: "u_res s a = None" using assms(1) Some by (simp add: good_alloc_def)
  have "res_ok (u_clients s) a (?r\<lparr>active_state := ?st\<rparr>)"
  proof -
    have "join_op (d_update_fcn d) 0 0 = 0" if "provided (d_update_fcn d)" using aggregation.join_zero [OF provided_aggregation [OF that]] .
    moreover have "\<forall>j<3. [0, 0, 0 :: u32] ! j = 0" by (simp add: less_3)
    ultimately show ?thesis by (simp add: res_ok_def agg_ok_def clip_def)
  qed
  moreover have "\<exists>r. ((u_res s)(a \<mapsto> ?r\<lparr>active_state := ?st\<rparr>)) (c_resource x) = Some r \<and> c \<in> set (r_clients r)" if "u_clients s c = Some x" for c x
    using unpa_inv_client [OF assms(2) that] fresh by auto
  ultimately show ?thesis using assms(2) unfolding s' by (auto simp: unpa_inv_def call_driver_def)
qed

lemma create_client_ok:
  assumes "good_alloc env" and "unpa_inv s" and "unpa_create_client env name t res s = Some (p, s')"
  shows "unpa_inv s'"
proof -
  have none: "s' = s \<or> (\<exists>a r q. p = Some q \<and> unpa_get_resource res s = Some a \<and> u_res s a = Some r \<and> env_alloc env s = Some q)"
  proof (cases "env_alloc env s")
    case None
    then show ?thesis using assms(3) by (auto simp: unpa_create_client_def split: if_splits option.splits)
  next
    case (Some q)
    then show ?thesis using assms(3) by (auto simp: unpa_create_client_def Let_def split: if_splits option.splits prod.splits)
  qed
  show ?thesis
  proof (cases "s' = s")
    case False
    then obtain a r q where r: "p = Some q" "unpa_get_resource res s = Some a" "u_res s a = Some r" "env_alloc env s = Some q" using none by auto
    let ?r = "r\<lparr>r_clients := q # r_clients r\<rparr>" and ?n = "d_attributes (r_definition r) AND 2 \<noteq> 0"
    let ?c = "\<lparr>c_name = name, c_type = ucast t, request_attr = if ?n then 1 else 0, active_request = 0, pending_request = 0, c_resource = a\<rparr>"
    have fresh: "u_clients s q = None" using assms(1) r(4) by (simp add: good_alloc_def)
    have s': "u_clients s' = (u_clients s)(q \<mapsto> ?c)" "u_res s' = (u_res s)(a \<mapsto> ?r)" "u_resources s' = u_resources s"
      using assms(3) r by (auto simp: unpa_create_client_def unpa_resource_has_attribute_def call_driver_def Let_def split: if_splits option.splits)
    have notin: "q \<notin> set (r_clients r')" if "u_res s b = Some r'" for b r' using res_ok_client [OF unpa_inv_res [OF assms(2) that], of q] fresh by auto
    note ok = unpa_inv_res [OF assms(2) r(3)]
    have "res_ok ((u_clients s)(q \<mapsto> ?c)) a ?r"
    proof -
      have "agg_ok (vote_op (update_of r)) ((u_clients s)(q \<mapsto> ?c)) ?r" if "provided (update_of r)"
        using aggregation.agg_ok_add [OF provided_aggregation [OF that], of "u_clients s" r q ?c] ok that notin [OF r(3)] by (simp add: res_ok_def)
      then show ?thesis using ok notin [OF r(3)] by (auto simp: res_ok_def)
    qed
    then show ?thesis using notin r(3) by (intro unpa_inv_change [OF assms(2) _ _ s'(3,1,2)]) auto
  qed (use assms(2) in simp)
qed

lemma destroy_client_ok:
  assumes "unpa_inv s" and "u_clients s client = Some c"
  shows "\<exists>s'. unpa_destroy_client env client s = Some s' \<and> unpa_inv s' \<and> u_clients s' = (u_clients s)(client := None)"
proof -
  obtain r where r: "u_res s (c_resource c) = Some r" "client \<in> set (r_clients r)" using unpa_inv_client [OF assms] by blast
  obtain s1 r1 where s1: "unpa_cancel_request env client s = Some s1" "unpa_inv s1" "u_clients s1 = (u_clients s)(client \<mapsto> client_after c 0)"
    "u_res s1 = (u_res s)(c_resource c \<mapsto> r1)" "r_clients r1 = r_clients r" "u_resources s1 = u_resources s"
    using cancel_request_ok [OF assms r(1), of env] by auto
  let ?a = "c_resource c" and ?r = "r1\<lparr>r_clients := remove1 client (r_clients r1)\<rparr>" and ?c = "(client_after c 0)\<lparr>request_attr := 2\<rparr>"
  let ?t = "if unpa_resource_has_attribute ?r 2 then snd (call_driver env ?a ?r ?c 0 s1) else s1"
  let ?s' = "?t\<lparr>u_res := (u_res s1)(?a \<mapsto> ?r), u_clients := (u_clients s1)(client := None)\<rparr>"
  have ca: "c_resource (client_after c 0) = ?a" "active_request (client_after c 0) = 0" by (simp_all add: client_after_def)
  have r1: "u_res s1 ?a = Some r1" "u_clients s1 client = Some (client_after c 0)" "client \<in> set (r_clients r1)" using s1 r(2) by simp_all
  have d: "unpa_destroy_client env client s = Some ?s'"
    using s1(1) r1 ca by (simp add: unpa_destroy_client_def Let_def call_driver_def)
  note ok = unpa_inv_res [OF s1(2) r1(1)]
  have ok': "res_ok ((u_clients s1)(client := None)) ?a ?r"
  proof -
    have "agg_ok (vote_op (update_of r1)) ((u_clients s1)(client := None)) ?r" if "provided (update_of r1)"
      using aggregation.agg_ok_remove [OF provided_aggregation [OF that], of "u_clients s1" r1 client "client_after c 0"] ok that r1 ca by (simp add: res_ok_def)
    then show ?thesis using ok by (auto simp: res_ok_def)
  qed
  have one: "client \<notin> set (r_clients r')" if "b \<noteq> ?a" "u_res s1 b = Some r'" for b r' using client_of_one_resource [OF s1(2) r1(2) _ that(2)] that(1) ca by simp
  have "unpa_inv ?s'" by (rule unpa_inv_change [OF s1(2) one ok']) (use r1 in \<open>auto simp: call_driver_def\<close>)
  then show ?thesis using d s1(3) by simp
qed

section \<open>What the reference computes\<close>

lemma fold_max: "foldr c_MAX xs 0 = Max (insert 0 (set xs))"
proof (induction xs)
  case (Cons x xs)
  have "Max (insert 0 (set (x # xs))) = Max (insert x (insert 0 (set xs)))" by (simp add: insert_commute)
  then show ?case using Cons by (simp add: MAX_simps)
qed simp

lemma fold_min: "foldr min_of xs 0 = (if \<exists>x \<in> set xs. x \<noteq> 0 then Min {x \<in> set xs. x \<noteq> 0} else 0)"
proof (induction xs)
  case (Cons x xs)
  let ?V = "{y \<in> set xs. y \<noteq> 0}"
  have V: "{y \<in> set (x # xs). y \<noteq> 0} = (if x = 0 then ?V else insert x ?V)" by auto
  show ?case
  proof (cases "\<exists>y \<in> set xs. y \<noteq> 0")
    case True
    then have n: "?V \<noteq> {}" by auto
    then have "Min ?V \<in> ?V" by (intro Min_in) auto
    moreover have "Min (insert x ?V) = min x (Min ?V)" using n by (intro Min_insert) auto
    ultimately show ?thesis using Cons True unfolding V by (simp add: min_of_def MAX_simps)
  next
    case False
    then have e: "?V = {}" by auto
    show ?thesis using Cons False unfolding V e by simp
  qed
qed simp

lemma fold_count: "foldr count_vote xs 0 = of_nat (length (filter (\<lambda>x. x \<noteq> 0) xs))"
  by (induction xs) (simp_all add: count_vote_def add.commute)

section \<open>All sequences of operations\<close>

inductive unpa_reach :: "unpa_env \<Rightarrow> unpa \<Rightarrow> bool" for env where
  init: "unpa_reach env (unpa_init stubs)"
| new_resource: "unpa_reach env s \<Longrightarrow> unpa_create_resource env d state s = Some (p, s') \<Longrightarrow> unpa_reach env s'"
| stub: "unpa_reach env s \<Longrightarrow> unpa_stub_resource name s = Some s' \<Longrightarrow> unpa_reach env s'"
| new_client: "unpa_reach env s \<Longrightarrow> unpa_create_client env name t resource s = Some (p, s') \<Longrightarrow> unpa_reach env s'"
| destroy: "unpa_reach env s \<Longrightarrow> unpa_destroy_client env client s = Some s' \<Longrightarrow> unpa_reach env s'"
| issue: "unpa_reach env s \<Longrightarrow> unpa_issue_request env client request s = Some s' \<Longrightarrow> unpa_reach env s'"
| cancel: "unpa_reach env s \<Longrightarrow> unpa_cancel_request env client s = Some s' \<Longrightarrow> unpa_reach env s'"
| try_issue: "unpa_reach env s \<Longrightarrow> unpa_try_issue_request env locked client request s = Some (ok, s') \<Longrightarrow> unpa_reach env s'"
| try_cancel: "unpa_reach env s \<Longrightarrow> unpa_try_cancel_request env locked client s = Some (ok, s') \<Longrightarrow> unpa_reach env s'"

lemma ops_need_client:
  "unpa_issue_request env client request s = Some s' \<Longrightarrow> \<exists>c. u_clients s client = Some c"
  "unpa_cancel_request env client s = Some s' \<Longrightarrow> \<exists>c. u_clients s client = Some c"
  "unpa_destroy_client env client s = Some s' \<Longrightarrow> \<exists>c. u_clients s client = Some c"
  "unpa_try_issue_request env locked client request s = Some (ok, s') \<Longrightarrow> \<exists>c. u_clients s client = Some c"
  "unpa_try_cancel_request env locked client s = Some (ok, s') \<Longrightarrow> \<exists>c. u_clients s client = Some c"
  by (auto simp: unpa_issue_request_def unpa_cancel_request_def unpa_destroy_client_def unpa_try_issue_request_def unpa_try_cancel_request_def drop_vote_def upd_client_def
      split: option.splits)

lemma unpa_reach_inv:
  assumes "good_alloc env" and "unpa_reach env s"
  shows "unpa_inv s"
  using assms(2)
proof induction
  case (init stubs)
  then show ?case by (simp add: unpa_inv_def unpa_init_def)
next
  case (new_resource s d state p s')
  then show ?case using create_resource_inv [OF assms(1)] by blast
next
  case (stub s name s')
  then show ?case by (auto simp: unpa_stub_resource_def unpa_inv_def split: if_splits option.splits)
next
  case (new_client s name t resource p s')
  then show ?case using create_client_ok [OF assms(1)] by blast
next
  case (destroy s client s')
  obtain c where "u_clients s client = Some c" using ops_need_client(3) [OF destroy.hyps(2)] by blast
  then show ?case using destroy_client_ok [OF destroy.IH, of client c env] destroy.hyps(2) by auto
next
  case (issue s client request s')
  obtain c where c: "u_clients s client = Some c" using ops_need_client(1) [OF issue.hyps(2)] by blast
  obtain r where "u_res s (c_resource c) = Some r" using unpa_inv_client [OF issue.IH c] by blast
  then show ?case using issue_request_ok [OF issue.IH c, of r env request] issue.hyps(2) by auto
next
  case (cancel s client s')
  obtain c where c: "u_clients s client = Some c" using ops_need_client(2) [OF cancel.hyps(2)] by blast
  obtain r where "u_res s (c_resource c) = Some r" using unpa_inv_client [OF cancel.IH c] by blast
  then show ?case using cancel_request_ok [OF cancel.IH c, of r env] cancel.hyps(2) by auto
next
  case (try_issue s locked client request ok s')
  obtain c where "u_clients s client = Some c" using ops_need_client(4) [OF try_issue.hyps(2)] by blast
  then show ?case using try_issue_ok [OF try_issue.IH, of client c env locked request] try_issue.hyps(2) by auto
next
  case (try_cancel s locked client ok s')
  obtain c where "u_clients s client = Some c" using ops_need_client(5) [OF try_cancel.hyps(2)] by blast
  then show ?case using try_cancel_ok [OF try_cancel.IH, of client c env locked] try_cancel.hyps(2) by auto
qed

section \<open>Queries\<close>

lemma find_client_found:
  "\<forall>c \<in> set cs. cl c \<noteq> None \<Longrightarrow> \<exists>h. find_client cl name cs = Some h \<and> (\<forall>c. h = Some c \<longrightarrow> c \<in> set cs \<and> (\<exists>x. cl c = Some x \<and> unpa_same_name name (c_name x))) \<and>
     (h = None \<longrightarrow> (\<forall>c \<in> set cs. \<forall>x. cl c = Some x \<longrightarrow> \<not> unpa_same_name name (c_name x)))"
  by (induction cs) (auto split: option.splits)

lemma get_resource_found: "unpa_get_resource name s = Some a \<Longrightarrow> a \<in> set (u_resources s) \<and> (\<exists>r. u_res s a = Some r \<and> unpa_same_name name (d_name (r_definition r)))"
  unfolding unpa_get_resource_def find_Some_iff by (auto split: option.splits)

text \<open>A query handle to a client is always found or refused, and it is answered with the vote of a client of that name and resource.\<close>

lemma client_query_answers:
  assumes "good_alloc env" and "unpa_reach env s"
  shows "\<exists>h. unpa_get_client_query_handle client_name resource_name s = Some h \<and>
    (\<forall>c. h = Some c \<longrightarrow> (\<exists>x. u_clients s c = Some x \<and> unpa_same_name client_name (c_name x) \<and> unpa_get_resource resource_name s = Some (c_resource x) \<and>
       unpa_query h UNPA_QUERY_ACTIVE_REQUEST res s = Some (UNPA_QUERY_SUCCESS, active_request x)))"
proof (cases "unpa_get_resource resource_name s")
  case (Some a)
  then obtain r where r: "u_res s a = Some r" using get_resource_found by blast
  have ok: "\<exists>x. u_clients s c = Some x \<and> c_resource x = a" if "c \<in> set (r_clients r)" for c
    using res_ok_client [OF unpa_inv_res [OF unpa_reach_inv [OF assms] r] that] .
  then have "\<forall>c \<in> set (r_clients r). u_clients s c \<noteq> None" by fastforce
  from find_client_found [OF this, of client_name] obtain h where h: "find_client (u_clients s) client_name (r_clients r) = Some h"
    "\<And>c. h = Some c \<Longrightarrow> c \<in> set (r_clients r) \<and> (\<exists>x. u_clients s c = Some x \<and> unpa_same_name client_name (c_name x))" by blast
  show ?thesis
  proof (intro exI [of _ h] conjI allI impI)
    show "unpa_get_client_query_handle client_name resource_name s = Some h" using Some r h(1) by (simp add: unpa_get_client_query_handle_def)
    fix c assume c: "h = Some c"
    then obtain x where "u_clients s c = Some x" "unpa_same_name client_name (c_name x)" "c_resource x = a" using h(2) [OF c] ok by fastforce
    then show "\<exists>x. u_clients s c = Some x \<and> unpa_same_name client_name (c_name x) \<and> unpa_get_resource resource_name s = Some (c_resource x) \<and>
       unpa_query h UNPA_QUERY_ACTIVE_REQUEST res s = Some (UNPA_QUERY_SUCCESS, active_request x)" using c Some by (simp add: unpa_query_def)
  qed
qed (simp add: unpa_get_client_query_handle_def)

section \<open>An example\<close>

text \<open>Memory at the addresses 1 to 3, drivers that apply what they are given, a clock with the largest vote, two clients.\<close>

definition demo_unpa_env :: unpa_env where
  "demo_unpa_env = \<lparr>env_driver = \<lambda>d r c x. x, env_update = \<lambda>n cl c r. (0, 0, agg_state r),
     env_alloc = \<lambda>s. find (\<lambda>p. u_res s p = None \<and> u_clients s p = None) [1, 2, 3]\<rparr>"

definition demo_clock :: unpa_resource_definition where
  "demo_clock = \<lparr>d_name = ''clk'', d_update_fcn = Max_Update, d_driver_fcn = 0, d_max = 100, d_client_types = 0, d_attributes = 0\<rparr>"

definition demo_unpa :: "unpa option" where
  "demo_unpa =
     (case unpa_create_resource demo_unpa_env demo_clock 0 (unpa_init (replicate 5 None)) of
        None \<Rightarrow> None
      | Some (_, s) \<Rightarrow>
     (case unpa_create_client demo_unpa_env ''a'' 1 ''clk'' s of
        None \<Rightarrow> None
      | Some (_, s) \<Rightarrow>
     (case unpa_create_client demo_unpa_env ''b'' 1 ''clk'' s of
        None \<Rightarrow> None
      | Some (_, s) \<Rightarrow>
     (case unpa_issue_request demo_unpa_env 2 70 s of
        None \<Rightarrow> None
      | Some s \<Rightarrow> unpa_issue_request demo_unpa_env 3 40 s))))"

lemma demo_unpa_alloc: "good_alloc demo_unpa_env"
  by (auto simp: good_alloc_def demo_unpa_env_def split: if_splits)

lemma demo_unpa_reach:
  assumes "demo_unpa = Some s"
  shows "unpa_reach demo_unpa_env s"
proof -
  obtain p1 s1 p2 s2 p3 s3 s4 where "unpa_create_resource demo_unpa_env demo_clock 0 (unpa_init (replicate 5 None)) = Some (p1, s1)"
    "unpa_create_client demo_unpa_env ''a'' 1 ''clk'' s1 = Some (p2, s2)" "unpa_create_client demo_unpa_env ''b'' 1 ''clk'' s2 = Some (p3, s3)"
    "unpa_issue_request demo_unpa_env 2 70 s3 = Some s4" "unpa_issue_request demo_unpa_env 3 40 s4 = Some s"
    using assms by (auto simp: demo_unpa_def split: option.splits)
  then show ?thesis by (meson unpa_reach.intros)
qed

lemmas demo_unpa_defs = demo_unpa_def demo_unpa_env_def demo_clock_def unpa_create_resource_def unpa_init_def unpa_get_resource_def unpa_create_client_def
  unpa_issue_request_def unpa_update_resource_def upd_client_def call_driver_def call_update_def unpa_max_update_fcn_def supported_types_def
  unpa_get_supported_client_types_def unpa_resource_has_attribute_def aggregated_type_def unpa_get_agg_index_def unpa_same_name_def c_MAX_def clip_def Let_def

lemma demo_unpa_state:
  "\<exists>s r c. demo_unpa = Some s \<and> u_res s 1 = Some r \<and> u_clients s 2 = Some c \<and> c_resource c = 1 \<and> active_request c = 70 \<and> r_clients r = [3, 2] \<and> active_max r = 100 \<and>
    update_of r = Max_Update \<and> agg_state r = [70, 0, 0]"
  by (simp add: demo_unpa_defs)

text \<open>One client on a resource, and its first request.\<close>

definition demo_first :: "unpa_resource_definition \<Rightarrow> u32 \<Rightarrow> unpa option" where
  "demo_first d t =
     (case unpa_create_resource demo_unpa_env d 0 (unpa_init (replicate 5 None)) of
        None \<Rightarrow> None
      | Some (_, s) \<Rightarrow>
     (case unpa_create_client demo_unpa_env ''a'' t ''clk'' s of None \<Rightarrow> None | Some (_, s) \<Rightarrow> unpa_issue_request demo_unpa_env 2 70 s))"

text \<open>The attribute of a new client is still set in the driver call of its first request.\<close>

lemma first_request_looks_like_new_client:
  "map_option (\<lambda>s. map (\<lambda>d. (dc_attr d, dc_state d)) (u_calls s)) (demo_first (demo_clock\<lparr>d_attributes := UNPA_RESOURCE_CLIENT_CHANGE_NOTIFY\<rparr>) 1) =
     Some [(0, 0), (UNPA_REQUEST_ADD_CLIENT, 0), (UNPA_REQUEST_ADD_CLIENT, 70)]"
  by (simp add: demo_first_def demo_unpa_defs)

text \<open>A client with two types at once is accepted, and its votes are ignored.\<close>

lemma combined_client_ignored:
  "map_option (\<lambda>s. (map_option active_request (u_clients s 2), map_option active_state (u_res s 1))) (demo_first demo_clock 3) = Some (Some 70, Some 0)"
  by (simp add: demo_first_def demo_unpa_defs)

section \<open>The properties\<close>

text \<open>
  C9: after any sequence of operations, for a resource with one of the update functions of uNPA, the aggregation of each kind of client is the fold of the votes of
  all its clients of that kind (their maximum, the minimum of the votes that are not zero, or the number of these), and the sleep state is what the votes of
  required and sleep clients ask for, up to the maximum of the resource.
\<close>

theorem unpa_states_follow_votes:
  assumes "good_alloc env" and "unpa_reach env s" and "u_res s a = Some r" and "provided (update_of r)"
  shows "agg_state r = map (\<lambda>t. foldr (vote_op (update_of r)) (votes (u_clients s) t (r_clients r)) 0) [UNPA_CLIENT_REQUIRED, UNPA_CLIENT_SUPPRESSIBLE, UNPA_CLIENT_SLEEP] \<and>
    sleep_state r = clip (active_max r) (join_op (update_of r) (agg_state r ! 0) (agg_state r ! 2))"
proof -
  have ok: "res_ok (u_clients s) a r" using unpa_inv_res [OF unpa_reach_inv [OF assms(1,2)] assms(3)] .
  then have "length (agg_state r) = 3" "\<And>i. i < 3 \<Longrightarrow> agg_state r ! i = foldr (vote_op (update_of r)) (votes (u_clients s) (kind_of i) (r_clients r)) 0"
    using assms(4) by (simp_all add: res_ok_def agg_ok_def)
  then have "agg_state r = map (\<lambda>t. foldr (vote_op (update_of r)) (votes (u_clients s) t (r_clients r)) 0) [1, 2, 4]"
    by (intro nth_equalityI) (auto simp: less_3 kind_values)
  then show ?thesis using ok assms(4) by (simp add: res_ok_def)
qed

theorem unpa_states_follow_votes_witness:
  "\<exists>s r. demo_unpa = Some s \<and> u_res s 1 = Some r \<and> agg_state r = [70, 0, 0] \<and>
     agg_state r = map (\<lambda>t. foldr c_MAX (votes (u_clients s) t (r_clients r)) 0) [UNPA_CLIENT_REQUIRED, UNPA_CLIENT_SUPPRESSIBLE, UNPA_CLIENT_SLEEP]"
proof -
  obtain s r c where d: "demo_unpa = Some s" "u_res s 1 = Some r" "update_of r = Max_Update" "agg_state r = [70, 0, 0]" using demo_unpa_state by blast
  show ?thesis using unpa_states_follow_votes [OF demo_unpa_alloc demo_unpa_reach [OF d(1)] d(2)] d by (auto simp: provided_def)
qed

text \<open>
  C14: a request that differs from the client's last one is always processed: it becomes the client's vote, no other vote changes, and with a driver that applies what it
  is given the resource is then in the state all votes of required and suppressible clients ask for, up to its maximum.
\<close>

theorem issued_vote_is_applied:
  assumes "good_alloc env" and "unpa_reach env s" and "\<forall>d r c x. env_driver env d r c x = x"
    and "u_clients s client = Some c" and "u_res s (c_resource c) = Some r" and "provided (update_of r)" and "request \<noteq> active_request c"
  shows "\<exists>s' r'. unpa_issue_request env client request s = Some s' \<and> u_res s' (c_resource c) = Some r' \<and> r_clients r' = r_clients r \<and>
    active_request (the (u_clients s' client)) = request \<and> (\<forall>x. x \<noteq> client \<longrightarrow> u_clients s' x = u_clients s x) \<and>
    active_state r' = clip (active_max r) (join_op (update_of r)
      (foldr (vote_op (update_of r)) (votes (u_clients s') UNPA_CLIENT_REQUIRED (r_clients r)) 0)
      (foldr (vote_op (update_of r)) (votes (u_clients s') UNPA_CLIENT_SUPPRESSIBLE (r_clients r)) 0))"
proof -
  obtain s' r' where s': "unpa_issue_request env client request s = Some s'" "unpa_inv s'" "u_clients s' = (u_clients s)(client \<mapsto> client_after c request)"
    "u_res s' = (u_res s)(c_resource c \<mapsto> r')" "r_clients r' = r_clients r" "r_definition r' = r_definition r"
    "active_state r' = clip (active_max r) (join_op (update_of r) (agg_state r' ! 0) (agg_state r' ! 1))"
    using issue_request_ok [OF unpa_reach_inv [OF assms(1,2)] assms(4,5), of env request] assms(3,6,7) by (auto simp: Let_def)
  have "u_res s' (c_resource c) = Some r'" using s'(4) by simp
  from unpa_inv_res [OF s'(2) this] have "agg_state r' ! i = foldr (vote_op (update_of r)) (votes (u_clients s') (kind_of i) (r_clients r)) 0" if "i < 3" for i
    using assms(6) s'(5,6) that by (simp add: res_ok_def agg_ok_def)
  from this [of 0] this [of 1] show ?thesis using s' by (intro exI [of _ s'] exI [of _ r']) (simp add: kind_values client_after_def)
qed

theorem issued_vote_is_applied_witness:
  "\<exists>s r s' r'. demo_unpa = Some s \<and> u_res s 1 = Some r \<and> unpa_issue_request demo_unpa_env 2 10 s = Some s' \<and> u_res s' 1 = Some r' \<and>
     active_request (the (u_clients s' 2)) = 10 \<and>
     active_state r' = clip 100 (c_MAX (foldr c_MAX (votes (u_clients s') UNPA_CLIENT_REQUIRED [3, 2]) 0) (foldr c_MAX (votes (u_clients s') UNPA_CLIENT_SUPPRESSIBLE [3, 2]) 0))"
proof -
  obtain s r c where d: "demo_unpa = Some s" "u_res s 1 = Some r" "u_clients s 2 = Some c" "c_resource c = 1" "active_request c = 70" "r_clients r = [3, 2]"
    "active_max r = 100" "update_of r = Max_Update" using demo_unpa_state by blast
  have dr: "\<forall>d r c x. env_driver demo_unpa_env d r c x = x" by (simp add: demo_unpa_env_def)
  have r: "u_res s (c_resource c) = Some r" "provided (update_of r)" "(10 :: u32) \<noteq> active_request c" using d by (simp_all add: provided_def)
  from issued_vote_is_applied [OF demo_unpa_alloc demo_unpa_reach [OF d(1)] dr d(3) r] d show ?thesis by auto
qed

end
