(* ===== verification/RingIf.thy ===== *)
theory RingIf
  imports Prelude
begin

text \<open>
  The rings between the firmware and the host: \<open>ring_ctx_holder.c\<close> and \<open>ring_svc_api.c\<close> of \<open>src/modules/core/hostif/ring_if_lib\<close>, in the build
  with \<open>CONFIG_RING_IF_ONLY\<close> (eight rings per direction, statistics).

  A ring is an array of elements with a write index and a read index; of each direction the host owns one of the two. The rings of one direction are a
  \<open>ring_side\<close>: the contexts, the two arrays of indices and the statistics. Contexts point into the arrays of indices; a pointer is an
  option. Elements hold the addresses of buffers (0 is the null pointer); all rings are created with the size of \<open>ring_element_t\<close>, so an element is
  one entry of a list. The host runs whenever the firmware reads an index in a loop (\<open>env_host\<close>). \<open>None\<close> is an access outside of an
  object or through a null pointer, a failed assertion, or a loop that does not end. The messages of the log are left out.
\<close>

section \<open>Data\<close>

record ring_element =
  e_buf :: nat
  e_len :: u16
  e_info :: u16
  e_buf_start :: nat

datatype RING_STATE_ENUM = RING_STATE_INVALID | RING_STATE_IN_USE

datatype RING_DIR = RING_DIR_A2F | RING_DIR_F2A

text \<open>The functions that are registered for the updates of a ring.\<close>

datatype post2thread = Post_Ctrl_A2F | Post_Ctrl_F2A | Post_Hfc_A2F | Post_Hfc_F2A

record ring_ctx =
  p_ring_base :: "ring_element list option"
  p_write_idx :: "nat option"
  p_read_idx :: "nat option"
  ring_state :: RING_STATE_ENUM
  ring_id :: u8
  ring_elem_size :: u8
  ring_num_elem :: u8
  ring_idx_to_clear :: u8
  ring_idx_clear_pending :: u8
  pfn_post2thread :: "post2thread option"

record ring_stats =
  num_pkts_attached :: u32
  num_pkts_detached :: u32
  num_attach_failures :: u32
  num_detach_failures :: u32

record ring_side =
  s_ctx :: "ring_ctx list"
  s_index :: "u8 list"
  s_outdex :: "u8 list"
  s_stats :: "ring_stats list"

record hfc_msg =
  m_id :: u32
  m_buf :: nat
  m_data :: nat
  m_len :: u16

text \<open>
  The state: both directions, the timer, the interrupts sent to the host, the signals and the queue of the control task, the queue of callbacks of
  the data task, the messages for the application, and the buffers given back so far. \<open>host_sent\<close> is no variable of the firmware: it is the
  record of what the host has written to each ring from the host, which no function of the firmware reads or changes.
\<close>

record ringif =
  a2f :: ring_side
  f2a :: ring_side
  timer_on :: bool
  hosted_mode :: bool
  host_signals :: nat
  notified :: u32
  task_queue :: "ring_element list"
  data_queue :: "(RING_DIR \<times> u8) list"
  recv_queue :: "hfc_msg list"
  freed :: "nat list"
  host_sent :: "u8 \<Rightarrow> ring_element list"

record ring_env =
  env_host :: "ringif \<Rightarrow> ringif"
  env_malloc :: "ringif \<Rightarrow> nat option"
  env_ftm :: bool

type_synonym process_fn = "ring_element \<Rightarrow> ringif \<Rightarrow> (bool \<times> ringif) option"
type_synonym elem_fn = "ring_element \<Rightarrow> ringif \<Rightarrow> bool \<times> ring_element \<times> ringif"

abbreviation (input) MAX_NUM_RINGS :: nat where "MAX_NUM_RINGS \<equiv> 8"
abbreviation (input) NUM_DUMMY_BYTES :: nat where "NUM_DUMMY_BYTES \<equiv> 8"
abbreviation (input) INVALID_RING_ID :: u8 where "INVALID_RING_ID \<equiv> 0xFF"
abbreviation (input) TOTAL_NUM_DATA_RING_ELEMS :: nat where "TOTAL_NUM_DATA_RING_ELEMS \<equiv> 52"

definition zero_element :: ring_element where
  "zero_element = \<lparr>e_buf = 0, e_len = 0, e_info = 0, e_buf_start = 0\<rparr>"

definition zero_ctx :: ring_ctx where
  "zero_ctx = \<lparr>p_ring_base = None, p_write_idx = None, p_read_idx = None, ring_state = RING_STATE_INVALID, ring_id = 0, ring_elem_size = 0,
     ring_num_elem = 0, ring_idx_to_clear = 0, ring_idx_clear_pending = 0, pfn_post2thread = None\<rparr>"

definition zero_stats :: ring_stats where
  "zero_stats = \<lparr>num_pkts_attached = 0, num_pkts_detached = 0, num_attach_failures = 0, num_detach_failures = 0\<rparr>"

definition zero_side :: ring_side where
  "zero_side = \<lparr>s_ctx = replicate MAX_NUM_RINGS zero_ctx, s_index = replicate (MAX_NUM_RINGS + NUM_DUMMY_BYTES) 0,
     s_outdex = replicate (MAX_NUM_RINGS + NUM_DUMMY_BYTES) 0, s_stats = replicate MAX_NUM_RINGS zero_stats\<rparr>"

definition ringif_reset :: ringif where
  "ringif_reset = \<lparr>a2f = zero_side, f2a = zero_side, timer_on = False, hosted_mode = False, host_signals = 0, notified = 0, task_queue = [],
     data_queue = [], recv_queue = [], freed = [], host_sent = (\<lambda>_. [])\<rparr>"

section \<open>Contexts, indices and elements\<close>

text \<open>\<open>ringif_a2f_ring_ctx\<close> and \<open>ringif_f2a_ring_ctx\<close>.\<close>

definition ring_ctx_of :: "ring_side \<Rightarrow> u8 \<Rightarrow> ring_ctx option" where
  "ring_ctx_of sd i = (if unat i < MAX_NUM_RINGS then Some (s_ctx sd ! unat i) else None)"

definition write_idx :: "ring_side \<Rightarrow> ring_ctx \<Rightarrow> u8 option" where
  "write_idx sd c = map_option (nth (s_index sd)) (p_write_idx c)"

definition read_idx :: "ring_side \<Rightarrow> ring_ctx \<Rightarrow> u8 option" where
  "read_idx sd c = map_option (nth (s_outdex sd)) (p_read_idx c)"

definition elem_at :: "ring_ctx \<Rightarrow> u8 \<Rightarrow> ring_element option" where
  "elem_at c i = (case p_ring_base c of None \<Rightarrow> None | Some es \<Rightarrow> if unat i < length es then Some (es ! unat i) else None)"

definition next_idx :: "ring_ctx \<Rightarrow> u8 \<Rightarrow> u8" where
  "next_idx c i = of_nat ((unat i + 1) mod unat (ring_num_elem c))"

definition upd_ctx :: "u8 \<Rightarrow> (ring_ctx \<Rightarrow> ring_ctx) \<Rightarrow> ring_side \<Rightarrow> ring_side" where
  "upd_ctx i f sd = sd\<lparr>s_ctx := (s_ctx sd)[unat i := f (s_ctx sd ! unat i)]\<rparr>"

definition put_elem :: "u8 \<Rightarrow> u8 \<Rightarrow> ring_element \<Rightarrow> ring_side \<Rightarrow> ring_side" where
  "put_elem i k e = upd_ctx i (\<lambda>c. c\<lparr>p_ring_base := map_option (\<lambda>es. es[unat k := e]) (p_ring_base c)\<rparr>)"

definition set_write_idx :: "ring_ctx \<Rightarrow> u8 \<Rightarrow> ring_side \<Rightarrow> ring_side" where
  "set_write_idx c v sd = (case p_write_idx c of None \<Rightarrow> sd | Some p \<Rightarrow> sd\<lparr>s_index := (s_index sd)[p := v]\<rparr>)"

definition set_read_idx :: "ring_ctx \<Rightarrow> u8 \<Rightarrow> ring_side \<Rightarrow> ring_side" where
  "set_read_idx c v sd = (case p_read_idx c of None \<Rightarrow> sd | Some p \<Rightarrow> sd\<lparr>s_outdex := (s_outdex sd)[p := v]\<rparr>)"

section \<open>Statistics, host and threads\<close>

definition upd_stats :: "u8 \<Rightarrow> (ring_stats \<Rightarrow> ring_stats) \<Rightarrow> ring_side \<Rightarrow> ring_side option" where
  "upd_stats i f sd = (if unat i < length (s_stats sd) then Some (sd\<lparr>s_stats := (s_stats sd)[unat i := f (s_stats sd ! unat i)]\<rparr>) else None)"

definition ringif_stats_attach_succ :: "u8 \<Rightarrow> u8 \<Rightarrow> ring_side \<Rightarrow> ring_side option" where
  "ringif_stats_attach_succ i num = upd_stats i (\<lambda>t. t\<lparr>num_pkts_attached := num_pkts_attached t + ucast num\<rparr>)"

definition ringif_stats_detach_succ :: "u8 \<Rightarrow> u8 \<Rightarrow> ring_side \<Rightarrow> ring_side option" where
  "ringif_stats_detach_succ i num = upd_stats i (\<lambda>t. t\<lparr>num_pkts_detached := num_pkts_detached t + ucast num\<rparr>)"

definition ringif_stats_attach_fail :: "u8 \<Rightarrow> u8 \<Rightarrow> ring_side \<Rightarrow> ring_side option" where
  "ringif_stats_attach_fail i num = upd_stats i (\<lambda>t. t\<lparr>num_attach_failures := num_attach_failures t + ucast num\<rparr>)"

definition ringif_stats_detach_fail :: "u8 \<Rightarrow> u8 \<Rightarrow> ring_side \<Rightarrow> ring_side option" where
  "ringif_stats_detach_fail i num = upd_stats i (\<lambda>t. t\<lparr>num_detach_failures := num_detach_failures t + ucast num\<rparr>)"

definition ringif_clear_ring_stats :: "u8 \<Rightarrow> ring_side \<Rightarrow> ring_side option" where
  "ringif_clear_ring_stats i = upd_stats i (\<lambda>_. zero_stats)"

definition ringif_indicate_to_host :: "ringif \<Rightarrow> bool \<times> ringif" where
  "ringif_indicate_to_host s = (True, s\<lparr>host_signals := host_signals s + 1\<rparr>)"

text \<open>
  The control rings set a bit of the task's notification; the data rings queue a callback for the data task without waiting, and a full queue is only
  reported in the log.
\<close>

definition hfc_data_try_callback :: "RING_DIR \<Rightarrow> u8 \<Rightarrow> ringif \<Rightarrow> ringif" where
  "hfc_data_try_callback d i s = (if length (data_queue s) < TOTAL_NUM_DATA_RING_ELEMS then s\<lparr>data_queue := data_queue s @ [(d, i)]\<rparr> else s)"

definition call_post2thread :: "post2thread \<Rightarrow> u8 \<Rightarrow> ringif \<Rightarrow> ringif" where
  "call_post2thread f i s =
     (case f of
        Post_Ctrl_A2F \<Rightarrow> s\<lparr>notified := or (notified s) 1\<rparr>
      | Post_Ctrl_F2A \<Rightarrow> s\<lparr>notified := or (notified s) 2\<rparr>
      | Post_Hfc_A2F \<Rightarrow> hfc_data_try_callback RING_DIR_A2F i s
      | Post_Hfc_F2A \<Rightarrow> hfc_data_try_callback RING_DIR_F2A i s)"

definition post_ring_update :: "ring_ctx \<Rightarrow> ringif \<Rightarrow> ringif" where
  "post_ring_update c s = (case pfn_post2thread c of None \<Rightarrow> s | Some f \<Rightarrow> call_post2thread f (ring_id c) s)"

section \<open>Full and empty rings\<close>

definition ringif_ring_full :: "ring_side \<Rightarrow> ring_ctx option \<Rightarrow> bool" where
  "ringif_ring_full sd ctx =
     (case ctx of
        None \<Rightarrow> True
      | Some c \<Rightarrow>
          if p_ring_base c = None then True
          else
           (case write_idx sd c of
              None \<Rightarrow> True
            | Some w \<Rightarrow>
                if ring_num_elem c \<le> w then True
                else
                 (case read_idx sd c of
                    None \<Rightarrow> True
                  | Some r \<Rightarrow> if ring_num_elem c \<le> r then True else unat r = (unat w + 1) mod unat (ring_num_elem c))))"

definition ringif_ring_empty :: "ring_side \<Rightarrow> ring_ctx option \<Rightarrow> bool" where
  "ringif_ring_empty sd ctx =
     (case ctx of
        None \<Rightarrow> True
      | Some c \<Rightarrow>
          if p_ring_base c = None then True
          else
           (case write_idx sd c of
              None \<Rightarrow> True
            | Some w \<Rightarrow>
                if ring_num_elem c \<le> w then True
                else (case read_idx sd c of None \<Rightarrow> True | Some r \<Rightarrow> if ring_num_elem c \<le> r then True else r = w)))"

definition has_buf :: "ring_element \<Rightarrow> bool" where
  "has_buf e \<longleftrightarrow> e_buf e \<noteq> 0 \<or> e_buf_start e \<noteq> 0"

definition ringif_ring_buf_full :: "ring_ctx option \<Rightarrow> u8 \<Rightarrow> bool option" where
  "ringif_ring_buf_full ctx i =
     (case ctx of
        None \<Rightarrow> Some True
      | Some c \<Rightarrow>
          if p_ring_base c = None then Some True
          else
           (case elem_at c i of
              None \<Rightarrow> None
            | Some this \<Rightarrow>
           (case elem_at c (if i = 0 then ring_num_elem c - 1 else i - 1) of
              None \<Rightarrow> None
            | Some before \<Rightarrow> Some (has_buf this \<and> has_buf before))))"

definition ringif_f2a_num_elems_to_clear :: "ring_side \<Rightarrow> ring_ctx option \<Rightarrow> u8 option" where
  "ringif_f2a_num_elems_to_clear sd ctx =
     (case ctx of
        None \<Rightarrow> Some 0
      | Some c \<Rightarrow>
          (case read_idx sd c of
             None \<Rightarrow> Some 0
           | Some r \<Rightarrow>
               if ring_num_elem c \<le> r then Some 0
               else if ring_idx_to_clear c < r then Some (r - ring_idx_to_clear c)
               else if r = ring_idx_to_clear c
               then (case write_idx sd c of None \<Rightarrow> None | Some w \<Rightarrow> Some (if w = r \<and> ring_idx_clear_pending c = 1 then ring_num_elem c else 0))
               else Some (ring_num_elem c + r - ring_idx_to_clear c)))"

section \<open>From the firmware to the host\<close>

definition ringif_f2a_pkt_attach :: "u8 \<Rightarrow> nat \<Rightarrow> nat \<Rightarrow> u16 \<Rightarrow> u16 \<Rightarrow> ringif \<Rightarrow> (bool \<times> ringif) option" where
  "ringif_f2a_pkt_attach i buf_start buf len info s =
     (let sd = f2a s; fail = map_option (\<lambda>sd. (False, s\<lparr>f2a := sd\<rparr>)) (ringif_stats_attach_fail i 1 sd) in
      if ringif_ring_full sd (ring_ctx_of sd i) then fail
      else
       (case ring_ctx_of sd i of
          None \<Rightarrow> None
        | Some c \<Rightarrow>
       (case write_idx sd c of
          None \<Rightarrow> None
        | Some w \<Rightarrow>
       (case elem_at c w of
          None \<Rightarrow> None
        | Some e \<Rightarrow>
            if has_buf e then fail
            else
              let sd = put_elem i w \<lparr>e_buf = buf, e_len = len, e_info = info, e_buf_start = buf_start\<rparr> sd;
                  sd = set_write_idx c (next_idx c w) sd;
                  sd = upd_ctx i (\<lambda>c. c\<lparr>ring_idx_clear_pending := 1\<rparr>) sd in
              (case ringif_stats_attach_succ i 1 sd of
                 None \<Rightarrow> None
               | Some sd \<Rightarrow> Some (True, snd (ringif_indicate_to_host (s\<lparr>f2a := sd\<rparr>))))))))"

text \<open>One pass of a loop: it goes on, ends, or leaves an object.\<close>

datatype 'a pass = Next 'a | Stop 'a | Fault

type_synonym clear_state = "u8 \<times> u8 \<times> ringif"

definition clear_pass :: "ring_env \<Rightarrow> elem_fn \<Rightarrow> u8 \<Rightarrow> clear_state \<Rightarrow> clear_state pass" where
  "clear_pass env clear i x =
     (case x of (idx, cleared, s) \<Rightarrow>
     (case ring_ctx_of (f2a s) i of
        None \<Rightarrow> Fault
      | Some c \<Rightarrow>
     (case elem_at c idx of
        None \<Rightarrow> Fault
      | Some e \<Rightarrow>
          if e_buf e \<noteq> 0 \<and> e_buf_start e \<noteq> 0
          then
           (case clear e s of (ok, e, s) \<Rightarrow>
              let s = s\<lparr>f2a := put_elem i idx e (f2a s)\<rparr> in
              if \<not> ok
              then (case ringif_stats_detach_fail i 1 (f2a s) of None \<Rightarrow> Fault | Some sd \<Rightarrow> Stop (idx, cleared, s\<lparr>f2a := sd\<rparr>))
              else
                let idx = next_idx c idx; s = env_host env s in
                (case read_idx (f2a s) c of
                   None \<Rightarrow> Fault
                 | Some r \<Rightarrow> if idx = r then Stop (idx, cleared + 1, s) else Next (idx, cleared + 1, s)))
          else Stop (idx, cleared, s))))"

partial_function (option) clear_loop :: "ring_env \<Rightarrow> elem_fn \<Rightarrow> u8 \<Rightarrow> clear_state \<Rightarrow> clear_state option" where
  "clear_loop env clear i x = (case clear_pass env clear i x of Next y \<Rightarrow> clear_loop env clear i y | Stop y \<Rightarrow> Some y | Fault \<Rightarrow> None)"

definition clear_end :: "u8 \<Rightarrow> clear_state \<Rightarrow> (bool \<times> ringif) option" where
  "clear_end i x =
     (case x of (idx, cleared, s) \<Rightarrow>
     (case ringif_stats_detach_succ i cleared (f2a s) of
        None \<Rightarrow> None
      | Some sd \<Rightarrow>
          let sd = upd_ctx i (\<lambda>c. c\<lparr>ring_idx_to_clear := idx\<rparr>) sd in
          Some (True,
            if \<not> ringif_ring_empty sd (ring_ctx_of sd i) then s\<lparr>f2a := sd, timer_on := True\<rparr>
            else s\<lparr>f2a := upd_ctx i (\<lambda>c. c\<lparr>ring_idx_clear_pending := 0\<rparr>) sd\<rparr>)))"

definition ringif_f2a_clear_used_bufs :: "ring_env \<Rightarrow> elem_fn \<Rightarrow> u8 \<Rightarrow> ringif \<Rightarrow> (bool \<times> ringif) option" where
  "ringif_f2a_clear_used_bufs env clear i s =
     (case ring_ctx_of (f2a s) i of
        None \<Rightarrow> Some (False, s)
      | Some c \<Rightarrow>
     (case read_idx (f2a s) c of
        None \<Rightarrow> None
      | Some r \<Rightarrow>
     (case write_idx (f2a s) c of
        None \<Rightarrow> None
      | Some w \<Rightarrow>
     (case (if ring_idx_to_clear c = r then (if w \<noteq> r then Some True else map_option Not (ringif_ring_buf_full (Some c) (ring_idx_to_clear c))) else Some False) of
        None \<Rightarrow> None
      | Some cleared_already \<Rightarrow>
          if cleared_already then Some (True, s)
          else (case clear_loop env clear i (ring_idx_to_clear c, 0, s) of None \<Rightarrow> None | Some x \<Rightarrow> clear_end i x)))))"

section \<open>From the host to the firmware\<close>

definition ringif_a2f_get_read_idx :: "u8 \<Rightarrow> ringif \<Rightarrow> (u8 \<times> u8) option" where
  "ringif_a2f_get_read_idx i s =
     (let sd = a2f s; ctx = ring_ctx_of sd i in
      if ringif_ring_empty sd ctx then Some (0, 0)
      else
       (case ctx of
          None \<Rightarrow> None
        | Some c \<Rightarrow>
       (case (read_idx sd c, write_idx sd c) of
          (Some r, Some w) \<Rightarrow> Some (if r < w then w - r else ring_num_elem c + w - r, r)
        | _ \<Rightarrow> None)))"

text \<open>Pointers to elements are the ring and the index.\<close>

definition ringif_a2f_element_ptr :: "u8 \<Rightarrow> u8 \<Rightarrow> ringif \<Rightarrow> ring_element option" where
  "ringif_a2f_element_ptr i k s = (case ring_ctx_of (a2f s) i of None \<Rightarrow> None | Some c \<Rightarrow> elem_at c k)"

definition ringif_a2f_next_read_elem :: "u8 \<Rightarrow> ringif \<Rightarrow> u8 option option" where
  "ringif_a2f_next_read_elem i s =
     (case ringif_a2f_get_read_idx i s of None \<Rightarrow> None | Some (num, r) \<Rightarrow> Some (if num \<noteq> 0 then Some r else None))"

type_synonym process_state = "bool \<times> u8 \<times> u8 \<times> u8 \<times> ringif"

definition process_pass :: "ring_env \<Rightarrow> process_fn \<Rightarrow> elem_fn \<Rightarrow> u8 \<Rightarrow> process_state \<Rightarrow> process_state pass" where
  "process_pass env process refill i x =
     (case x of (_, idx, processed, refilled, s) \<Rightarrow>
      let s = env_host env s in
     (case ring_ctx_of (a2f s) i of
        None \<Rightarrow> Fault
      | Some c \<Rightarrow>
     (case write_idx (a2f s) c of
        None \<Rightarrow> Fault
      | Some w \<Rightarrow>
          if idx = w then Stop (True, idx, processed, refilled, s)
          else
           (case elem_at c idx of
              None \<Rightarrow> Fault
            | Some e \<Rightarrow>
           (case (if e_buf e \<noteq> 0 \<and> e_buf_start e \<noteq> 0 then process e s else Some (True, s)) of
              None \<Rightarrow> Fault
            | Some (ok, s) \<Rightarrow>
                if \<not> ok then Stop (False, idx, processed, refilled, s)
                else
                 (case refill e s of (ok, e, s) \<Rightarrow>
                    if ok
                    then
                      let s = s\<lparr>a2f := set_read_idx c (next_idx c idx) (put_elem i idx e (a2f s))\<rparr> in
                      Next (True, next_idx c idx, processed + 1, refilled + 1, s)
                    else Stop (True, idx, processed + 1, refilled, s\<lparr>a2f := put_elem i idx zero_element (a2f s)\<rparr>)))))))"

partial_function (option) process_loop :: "ring_env \<Rightarrow> process_fn \<Rightarrow> elem_fn \<Rightarrow> u8 \<Rightarrow> process_state \<Rightarrow> process_state option" where
  "process_loop env process refill i x =
     (case process_pass env process refill i x of Next y \<Rightarrow> process_loop env process refill i y | Stop y \<Rightarrow> Some y | Fault \<Rightarrow> None)"

definition process_end :: "u8 \<Rightarrow> process_state \<Rightarrow> (u8 \<times> ringif) option" where
  "process_end i x =
     (case x of (ok, idx, processed, refilled, s) \<Rightarrow>
      let unfinished = \<not> ok \<or> refilled < processed in
     (case (if unfinished \<and> \<not> ok then ringif_stats_detach_fail i 1 (a2f s) else Some (a2f s)) of
        None \<Rightarrow> None
      | Some sd \<Rightarrow>
     (case (if unfinished \<and> refilled < processed then ringif_stats_attach_fail i (processed - refilled) sd else Some sd) of
        None \<Rightarrow> None
      | Some sd \<Rightarrow>
     (case ringif_stats_detach_succ i processed sd of
        None \<Rightarrow> None
      | Some sd \<Rightarrow>
     (case ringif_stats_attach_succ i refilled sd of
        None \<Rightarrow> None
      | Some sd \<Rightarrow> Some (processed, snd (ringif_indicate_to_host (s\<lparr>a2f := sd, timer_on := timer_on s \<or> unfinished\<rparr>))))))))"

definition ringif_a2f_process_pkts :: "ring_env \<Rightarrow> process_fn \<Rightarrow> elem_fn \<Rightarrow> u8 \<Rightarrow> ringif \<Rightarrow> (u8 \<times> ringif) option" where
  "ringif_a2f_process_pkts env process refill i s =
     (case ring_ctx_of (a2f s) i of
        None \<Rightarrow> Some (0, s)
      | Some c \<Rightarrow>
     (case (read_idx (a2f s) c, write_idx (a2f s) c) of
        (Some r, Some w) \<Rightarrow>
          if r = w then Some (0, s)
          else
           (case process_loop env process refill i (True, r, 0, 0, s\<lparr>timer_on := False\<rparr>) of
              None \<Rightarrow> None
            | Some x \<Rightarrow> process_end i x)
      | _ \<Rightarrow> None))"

definition ringif_a2f_num_pending_pkts :: "u8 \<Rightarrow> ringif \<Rightarrow> u8 option" where
  "ringif_a2f_num_pending_pkts i s =
     (case ring_ctx_of (a2f s) i of
        None \<Rightarrow> Some 0
      | Some c \<Rightarrow>
     (case (read_idx (a2f s) c, write_idx (a2f s) c) of
        (Some r, Some w) \<Rightarrow> Some (if r \<le> w then w - r else ring_num_elem c + w - r)
      | _ \<Rightarrow> None))"

text \<open>The pointer to the element is advanced without wrapping.\<close>

fun clear_elems :: "nat \<Rightarrow> nat \<Rightarrow> ring_element list \<Rightarrow> ring_element list option" where
  "clear_elems 0 k es = Some es"
| "clear_elems (Suc n) k es = (if k < length es then clear_elems n (k + 1) (es[k := zero_element]) else None)"

definition ringif_a2f_mark_as_read :: "u8 \<Rightarrow> u8 \<Rightarrow> ringif \<Rightarrow> (bool \<times> ringif) option" where
  "ringif_a2f_mark_as_read i num s =
     (case ring_ctx_of (a2f s) i of
        None \<Rightarrow> Some (False, s)
      | Some c \<Rightarrow>
     (case (read_idx (a2f s) c, p_ring_base c) of
        (Some r, Some es) \<Rightarrow>
          (case clear_elems (unat num) (unat r) es of
             None \<Rightarrow> None
           | Some es \<Rightarrow>
               if ring_num_elem c = 0 then None
               else
                 let sd = upd_ctx i (\<lambda>c. c\<lparr>p_ring_base := Some es\<rparr>) (a2f s) in
                 Some (True, s\<lparr>a2f := set_read_idx c (of_nat ((unat r + unat num) mod unat (ring_num_elem c))) sd\<rparr>))
      | _ \<Rightarrow> None))"

text \<open>The search for an empty element goes from the write index up to the read index; it ends because every pass moves to the next element.\<close>

fun empty_search :: "nat \<Rightarrow> ring_ctx \<Rightarrow> u8 \<Rightarrow> u8 \<Rightarrow> u8 option option" where
  "empty_search 0 c r idx = None"
| "empty_search (Suc n) c r idx =
     (case elem_at c idx of
        None \<Rightarrow> None
      | Some e \<Rightarrow>
          if e_buf e = 0 then Some (Some idx)
          else let idx = next_idx c idx in if idx = r then Some None else empty_search n c r idx)"

definition ringif_a2f_get_next_empty_elem :: "u8 \<Rightarrow> ringif \<Rightarrow> u8 option option" where
  "ringif_a2f_get_next_empty_elem i s =
     (let sd = a2f s; ctx = ring_ctx_of sd i in
      if ringif_ring_full sd ctx then Some None
      else
       (case ctx of
          None \<Rightarrow> None
        | Some c \<Rightarrow>
       (case (read_idx sd c, write_idx sd c) of
          (Some r, Some w) \<Rightarrow> empty_search (unat (ring_num_elem c)) c r w
        | _ \<Rightarrow> None)))"

definition ringif_a2f_refill_next_empty_elem :: "elem_fn \<Rightarrow> u8 \<Rightarrow> ringif \<Rightarrow> (bool \<times> ringif) option" where
  "ringif_a2f_refill_next_empty_elem refill i s =
     (case ringif_a2f_get_next_empty_elem i s of
        None \<Rightarrow> None
      | Some None \<Rightarrow> Some (True, s)
      | Some (Some k) \<Rightarrow>
          (case ringif_a2f_element_ptr i k s of
             None \<Rightarrow> None
           | Some e \<Rightarrow>
               (case refill e s of (ok, e, s) \<Rightarrow>
                  let sd = put_elem i k e (a2f s) in
                  if ok then map_option (\<lambda>sd. ringif_indicate_to_host (s\<lparr>a2f := sd\<rparr>)) (ringif_stats_attach_succ i 1 sd)
                  else map_option (\<lambda>sd. (False, s\<lparr>a2f := sd\<rparr>)) (ringif_stats_attach_fail i 1 sd))))"

text \<open>The refill of a whole ring; the read index is read once. The passes are at most the elements of the ring.\<close>

fun refill_loop :: "nat \<Rightarrow> elem_fn \<Rightarrow> u8 \<Rightarrow> u8 \<Rightarrow> u8 \<Rightarrow> u8 \<Rightarrow> ringif \<Rightarrow> (u8 option \<times> ringif) option" where
  "refill_loop 0 refill i r idx filled s = None"
| "refill_loop (Suc n) refill i r idx filled s =
     (case ring_ctx_of (a2f s) i of
        None \<Rightarrow> None
      | Some c \<Rightarrow>
     (case elem_at c idx of
        None \<Rightarrow> None
      | Some e \<Rightarrow>
     (case (if e_buf e = 0 then refill e s else (True, e, s)) of (ok, e, s) \<Rightarrow>
        let s = s\<lparr>a2f := put_elem i idx e (a2f s)\<rparr> in
        if \<not> ok then Some (None, s)
        else if next_idx c idx = r then Some (Some (filled + 1), s)
        else refill_loop n refill i r (next_idx c idx) (filled + 1) s)))"

definition ringif_a2f_refill_bufs :: "elem_fn \<Rightarrow> u8 \<Rightarrow> ringif \<Rightarrow> (bool \<times> ringif) option" where
  "ringif_a2f_refill_bufs refill i s =
     (let sd = a2f s; ctx = ring_ctx_of sd i in
      if ringif_ring_full sd ctx then Some (True, s)
      else
       (case ctx of
          None \<Rightarrow> None
        | Some c \<Rightarrow>
       (case (read_idx sd c, write_idx sd c) of
          (Some r, Some w) \<Rightarrow>
            (case refill_loop (unat (ring_num_elem c)) refill i r w 0 s of
               None \<Rightarrow> None
             | Some (None, s) \<Rightarrow> map_option (\<lambda>sd. (False, s\<lparr>a2f := sd\<rparr>)) (ringif_stats_attach_fail i 1 (a2f s))
             | Some (Some filled, s) \<Rightarrow>
                 map_option (\<lambda>sd. (True, snd (ringif_indicate_to_host (s\<lparr>a2f := sd\<rparr>)))) (ringif_stats_attach_succ i filled (a2f s)))
        | _ \<Rightarrow> None)))"

section \<open>Creation and deletion\<close>

definition first_invalid :: "ring_side \<Rightarrow> nat option" where
  "first_invalid sd = find (\<lambda>k. ring_state (s_ctx sd ! k) = RING_STATE_INVALID) [0..<MAX_NUM_RINGS]"

definition new_ctx :: "nat \<Rightarrow> post2thread \<Rightarrow> u8 \<Rightarrow> u8 \<Rightarrow> ring_ctx" where
  "new_ctx k post elem_size max_num_elem =
     \<lparr>p_ring_base = Some (replicate (unat max_num_elem) zero_element), p_write_idx = Some k, p_read_idx = Some k, ring_state = RING_STATE_IN_USE,
      ring_id = of_nat k, ring_elem_size = elem_size, ring_num_elem = max_num_elem, ring_idx_to_clear = 0, ring_idx_clear_pending = 0,
      pfn_post2thread = Some post\<rparr>"

definition clear_new_stats :: "nat \<Rightarrow> ring_side \<Rightarrow> ring_side" where
  "clear_new_stats k sd = (if 0 < k then (case ringif_clear_ring_stats (of_nat k) sd of None \<Rightarrow> sd | Some sd \<Rightarrow> sd) else sd)"

definition ringif_create_a2f_ring :: "ring_env \<Rightarrow> post2thread \<Rightarrow> u8 \<Rightarrow> u8 \<Rightarrow> ringif \<Rightarrow> u8 \<times> ringif" where
  "ringif_create_a2f_ring env post elem_size max_num_elem s =
     (case first_invalid (a2f s) of
        None \<Rightarrow> (INVALID_RING_ID, s)
      | Some k \<Rightarrow>
          let i = of_nat k; sd = upd_ctx i (\<lambda>_. zero_ctx) (a2f s) in
          (case env_malloc env s of
             None \<Rightarrow> (INVALID_RING_ID, s\<lparr>a2f := sd\<rparr>)
           | Some _ \<Rightarrow>
               let sd = upd_ctx i (\<lambda>_. new_ctx k post elem_size max_num_elem) sd;
                   w = s_index sd ! k;
                   sd = (if w < max_num_elem then sd\<lparr>s_outdex := (s_outdex sd)[k := w]\<rparr>
                         else sd\<lparr>s_index := (s_index sd)[k := 0], s_outdex := (s_outdex sd)[k := 0]\<rparr>) in
               (i, s\<lparr>a2f := clear_new_stats k sd\<rparr>)))"

definition ringif_create_f2a_ring :: "ring_env \<Rightarrow> post2thread \<Rightarrow> u8 \<Rightarrow> u8 \<Rightarrow> ringif \<Rightarrow> u8 \<times> ringif" where
  "ringif_create_f2a_ring env post elem_size max_num_elem s =
     (case first_invalid (f2a s) of
        None \<Rightarrow> (INVALID_RING_ID, s)
      | Some k \<Rightarrow>
          let i = of_nat k; sd = upd_ctx i (\<lambda>_. zero_ctx) (f2a s) in
          (case env_malloc env s of
             None \<Rightarrow> (INVALID_RING_ID, s\<lparr>f2a := sd\<rparr>)
           | Some _ \<Rightarrow>
               let sd = upd_ctx i (\<lambda>_. new_ctx k post elem_size max_num_elem) sd;
                   r = s_outdex sd ! k;
                   sd = (if r < max_num_elem then sd\<lparr>s_index := (s_index sd)[k := r]\<rparr>
                         else sd\<lparr>s_index := (s_index sd)[k := 0], s_outdex := (s_outdex sd)[k := 0]\<rparr>);
                   sd = upd_ctx i (\<lambda>c. c\<lparr>ring_idx_to_clear := s_outdex sd ! k\<rparr>) sd in
               (i, s\<lparr>f2a := clear_new_stats k sd\<rparr>)))"

text \<open>The loop over the elements of a ring that is deleted, whose memory is then freed.\<close>

fun clear_all :: "elem_fn \<Rightarrow> ring_element list \<Rightarrow> ringif \<Rightarrow> ringif" where
  "clear_all clear [] s = s"
| "clear_all clear (e # es) s = clear_all clear es (if e_buf e \<noteq> 0 then snd (snd (clear e s)) else s)"

definition ringif_delete_ring :: "elem_fn \<Rightarrow> ring_ctx option \<Rightarrow> ringif \<Rightarrow> bool \<times> ring_ctx \<times> ringif" where
  "ringif_delete_ring clear ctx s =
     (case ctx of
        None \<Rightarrow> (False, zero_ctx, s)
      | Some c \<Rightarrow>
          if ring_state c = RING_STATE_INVALID then (False, c, s)
          else (True, zero_ctx, clear_all clear (case p_ring_base c of None \<Rightarrow> [] | Some es \<Rightarrow> es) s))"

text \<open>After the context is cleared, the indices are read through its pointers.\<close>

definition ringif_a2f_delete_ring :: "elem_fn \<Rightarrow> u8 \<Rightarrow> ringif \<Rightarrow> (bool \<times> ringif) option" where
  "ringif_a2f_delete_ring clear i s =
     (case ringif_delete_ring clear (ring_ctx_of (a2f s) i) s of (ok, c, s) \<Rightarrow>
        if ok
        then
         (let s = s\<lparr>a2f := upd_ctx i (\<lambda>_. c) (a2f s)\<rparr> in
          case (p_read_idx c, write_idx (a2f s) c) of
            (Some p, Some w) \<Rightarrow> Some (True, s\<lparr>a2f := set_read_idx c w (a2f s)\<rparr>)
          | _ \<Rightarrow> None)
        else Some (False, s))"

definition ringif_f2a_delete_ring :: "elem_fn \<Rightarrow> u8 \<Rightarrow> ringif \<Rightarrow> (bool \<times> ringif) option" where
  "ringif_f2a_delete_ring clear i s =
     (case ringif_delete_ring clear (ring_ctx_of (f2a s) i) s of (ok, c, s) \<Rightarrow>
        if ok
        then
         (let s = s\<lparr>f2a := upd_ctx i (\<lambda>_. c) (f2a s)\<rparr> in
          case (p_write_idx c, read_idx (f2a s) c) of
            (Some p, Some r) \<Rightarrow> Some (True, s\<lparr>f2a := set_write_idx c r (f2a s)\<rparr>)
          | _ \<Rightarrow> None)
        else Some (False, s))"

section \<open>Updates\<close>

definition ringif_tickle_a2f_ring :: "u8 \<Rightarrow> ringif \<Rightarrow> ringif option" where
  "ringif_tickle_a2f_ring i s =
     (case ring_ctx_of (a2f s) i of
        None \<Rightarrow> Some s
      | Some c \<Rightarrow>
          Some (if \<not> ringif_ring_empty (a2f s) (Some c) then post_ring_update c s else s))"

definition ringif_tickle_f2a_ring :: "u8 \<Rightarrow> ringif \<Rightarrow> ringif option" where
  "ringif_tickle_f2a_ring i s =
     (case ring_ctx_of (f2a s) i of
        None \<Rightarrow> Some s
      | Some c \<Rightarrow>
          (case ringif_f2a_num_elems_to_clear (f2a s) (Some c) of None \<Rightarrow> None | Some n \<Rightarrow> Some (if 0 < n then post_ring_update c s else s)))"

fun tickle_rings :: "(ringif \<Rightarrow> ring_side) \<Rightarrow> (u8 \<Rightarrow> ringif \<Rightarrow> ringif option) \<Rightarrow> nat list \<Rightarrow> ringif \<Rightarrow> ringif option" where
  "tickle_rings side tickle [] s = Some s"
| "tickle_rings side tickle (k # ks) s =
     (if ring_state (s_ctx (side s) ! k) = RING_STATE_INVALID then tickle_rings side tickle ks s
      else (case tickle (of_nat k) s of None \<Rightarrow> None | Some s \<Rightarrow> tickle_rings side tickle ks s))"

definition ringif_tickle_all_rings :: "bool \<Rightarrow> ringif \<Rightarrow> ringif option" where
  "ringif_tickle_all_rings from_isr s =
     (let s = s\<lparr>hosted_mode := hosted_mode s \<or> from_isr, timer_on := False\<rparr> in
      case tickle_rings a2f ringif_tickle_a2f_ring [0..<MAX_NUM_RINGS] s of
        None \<Rightarrow> None
      | Some s \<Rightarrow> tickle_rings f2a ringif_tickle_f2a_ring [0..<MAX_NUM_RINGS] s)"

definition ringif_apps_ring_update_isr :: "ringif \<Rightarrow> ringif option" where
  "ringif_apps_ring_update_isr s = ringif_tickle_all_rings True s"

definition ringif_handle_timer :: "ringif \<Rightarrow> ringif option" where
  "ringif_handle_timer s = ringif_tickle_all_rings False s"

end
