(* ===== verification/RingTasks.thy ===== *)
theory RingTasks
  imports RingIf
begin

text \<open>
  The users of the rings: the control rings (\<open>ctrl_ring_hdlr.c\<close>) with their task, the data rings (the part of \<open>data_ring_hdlr.c\<close> for the build of
  \<open>RingIf\<close>) and the packets of the application (\<open>data_svc/src/data_svc_hfc.c\<close>, with \<open>CONFIG_QCSPI_HFC_ATCMD_ENABLE\<close>, where the application
  takes the packets from a queue). A send that waits for room in a queue of the kernel appends to it.
\<close>

abbreviation (input) A2F_RING_ID_CONFIG :: u8 where "A2F_RING_ID_CONFIG \<equiv> 0"
abbreviation (input) F2A_RING_ID_CONFIG :: u8 where "F2A_RING_ID_CONFIG \<equiv> 0"
abbreviation (input) A2F_RING_ID_DATA :: u8 where "A2F_RING_ID_DATA \<equiv> 1"
abbreviation (input) F2A_RING_ID_DATA :: u8 where "F2A_RING_ID_DATA \<equiv> 1"
abbreviation (input) CONFIG_INFO_INVALID :: u16 where "CONFIG_INFO_INVALID \<equiv> 0"
abbreviation (input) CONFIG_INFO_HFC :: u16 where "CONFIG_INFO_HFC \<equiv> 5"
abbreviation (input) CONFIG_INFO_MAX :: u16 where "CONFIG_INFO_MAX \<equiv> 7"
abbreviation (input) DATA_RING_BUFF_SIZE :: u16 where "DATA_RING_BUFF_SIZE \<equiv> 1600"
abbreviation (input) MAX_NUM_A2F_DATA_RING_ELEMS :: u8 where "MAX_NUM_A2F_DATA_RING_ELEMS \<equiv> 20"
abbreviation (input) MAX_NUM_F2A_DATA_RING_ELEMS :: u8 where "MAX_NUM_F2A_DATA_RING_ELEMS \<equiv> 32"

definition free_memory :: "nat \<Rightarrow> ringif \<Rightarrow> ringif" where
  "free_memory p s = s\<lparr>freed := freed s @ [p]\<rparr>"

section \<open>Control rings\<close>

definition ringif_get_ctrl_buf_size :: "ring_env \<Rightarrow> u16" where
  "ringif_get_ctrl_buf_size env = (if env_ftm env then 1568 else 256)"

definition ringif_get_ctrl_buf :: "ring_env \<Rightarrow> ringif \<Rightarrow> u16 \<times> nat option" where
  "ringif_get_ctrl_buf env s = (ringif_get_ctrl_buf_size env, env_malloc env s)"

definition ringif_free_ctrl_buf :: "nat \<Rightarrow> ringif \<Rightarrow> bool \<times> ringif" where
  "ringif_free_ctrl_buf p s = (True, free_memory p s)"

definition ringif_refill_ctrl_elem :: "ring_env \<Rightarrow> elem_fn" where
  "ringif_refill_ctrl_elem env e s =
     (if e_buf_start e \<noteq> 0 \<or> e_buf e \<noteq> 0 \<or> e_len e \<noteq> 0 then (False, e, s)
      else
       (case ringif_get_ctrl_buf env s of (len, p) \<Rightarrow>
          let e = e\<lparr>e_len := len\<rparr> in
          (case p of Some p \<Rightarrow> (True, e\<lparr>e_buf_start := p, e_buf := p\<rparr>, s) | None \<Rightarrow> (False, e, s))))"

definition ringif_clear_ctrl_elem :: elem_fn where
  "ringif_clear_ctrl_elem e s =
     (if e_buf_start e = 0 \<or> e_buf e = 0 \<or> e_len e = 0 then (False, e, s)
      else
       (case ringif_free_ctrl_buf (e_buf_start e) s of (ok, s) \<Rightarrow>
          if ok then (True, e\<lparr>e_buf := 0, e_buf_start := 0, e_len := 0\<rparr>, s) else (False, e, s)))"

text \<open>The kind of packet the application handles; every other kind is freed.\<close>

definition process_hfc_config_pkt :: process_fn where
  "process_hfc_config_pkt e s = (if e_buf e = 0 then None else Some (True, free_memory (e_buf_start e) s))"

definition post2thread_a2f_ctrl_pkt :: process_fn where
  "post2thread_a2f_ctrl_pkt e s =
     (if e_info e = CONFIG_INFO_HFC then process_hfc_config_pkt e s else Some (True, snd (ringif_free_ctrl_buf (e_buf_start e) s)))"

definition process_ctrl_a2f_ring_update :: "ring_env \<Rightarrow> u8 \<Rightarrow> ringif \<Rightarrow> (bool \<times> ringif) option" where
  "process_ctrl_a2f_ring_update env i s =
     (case ringif_a2f_next_read_elem i s of
        None \<Rightarrow> None
      | Some None \<Rightarrow> Some (False, s)
      | Some (Some k) \<Rightarrow>
     (case ringif_a2f_element_ptr i k s of
        None \<Rightarrow> None
      | Some e \<Rightarrow>
     (case post2thread_a2f_ctrl_pkt e s of
        None \<Rightarrow> None
      | Some (ok, s) \<Rightarrow>
          if \<not> ok then Some (False, s)
          else
           (case ringif_a2f_mark_as_read i 1 s of
              None \<Rightarrow> None
            | Some (_, s) \<Rightarrow>
                map_option (\<lambda>(_, s). (True, s)) (ringif_a2f_refill_next_empty_elem (ringif_refill_ctrl_elem env) i s)))))"

definition process_ctrl_f2a_ring_update :: "ring_env \<Rightarrow> u8 \<Rightarrow> ringif \<Rightarrow> (bool \<times> ringif) option" where
  "process_ctrl_f2a_ring_update env i s =
     (case ring_ctx_of (f2a s) i of None \<Rightarrow> Some (False, s) | Some _ \<Rightarrow> ringif_f2a_clear_used_bufs env ringif_clear_ctrl_elem i s)"

definition ringif_attach_config_pkt :: "ring_element \<Rightarrow> ringif \<Rightarrow> (bool \<times> ringif) option" where
  "ringif_attach_config_pkt e s = ringif_f2a_pkt_attach F2A_RING_ID_CONFIG (e_buf_start e) (e_buf e) (e_len e) (e_info e) s"

definition ringif_send_config_pkt :: "ring_env \<Rightarrow> nat \<Rightarrow> u16 \<Rightarrow> u16 \<Rightarrow> ringif \<Rightarrow> bool \<times> ringif" where
  "ringif_send_config_pkt env buf len info s =
     (if info = CONFIG_INFO_INVALID \<or> CONFIG_INFO_MAX \<le> info then ringif_free_ctrl_buf buf s
      else if ringif_get_ctrl_buf_size env < len then ringif_free_ctrl_buf buf s
      else
       (True, s\<lparr>task_queue := task_queue s @ [\<lparr>e_buf = buf, e_len = len, e_info = info, e_buf_start = buf\<rparr>], notified := or (notified s) 4\<rparr>))"

definition ringif_send_hfc_config :: "ring_env \<Rightarrow> nat \<Rightarrow> u16 \<Rightarrow> ringif \<Rightarrow> bool \<times> ringif" where
  "ringif_send_hfc_config env buf len s = ringif_send_config_pkt env buf len CONFIG_INFO_HFC s"

fun attach_messages :: "nat \<Rightarrow> ringif \<Rightarrow> ringif option" where
  "attach_messages 0 s = Some s"
| "attach_messages (Suc n) s =
     (case task_queue s of
        [] \<Rightarrow> None
      | e # q \<Rightarrow>
          (case ringif_attach_config_pkt e (s\<lparr>task_queue := q\<rparr>) of
             None \<Rightarrow> None
           | Some (ok, s) \<Rightarrow> attach_messages n (if ok then s else snd (ringif_free_ctrl_buf (e_buf_start e) s))))"

text \<open>One pass of the control task: the notification is taken and cleared, then each of its bits is served once.\<close>

definition ringif_handle_tasks_pass :: "ring_env \<Rightarrow> ringif \<Rightarrow> ringif option" where
  "ringif_handle_tasks_pass env s =
     (let bits = notified s; s = s\<lparr>notified := 0\<rparr> in
      case (if bit bits 0 then map_option snd (process_ctrl_a2f_ring_update env A2F_RING_ID_CONFIG s) else Some s) of
        None \<Rightarrow> None
      | Some s \<Rightarrow>
     (case (if bit bits 1 then map_option snd (process_ctrl_f2a_ring_update env F2A_RING_ID_CONFIG s) else Some s) of
        None \<Rightarrow> None
      | Some s \<Rightarrow> if bit bits 2 then attach_messages (length (task_queue s)) s else Some s))"

definition create_config_rings :: "ring_env \<Rightarrow> ringif \<Rightarrow> ringif option" where
  "create_config_rings env s =
     (let n = if env_ftm env then 2 else 16; s = s\<lparr>timer_on := True\<rparr> in
      case ringif_create_f2a_ring env Post_Ctrl_F2A 12 n s of (i, s) \<Rightarrow>
      if i \<noteq> A2F_RING_ID_CONFIG then None
      else
       (case ringif_create_a2f_ring env Post_Ctrl_A2F 12 n s of (i, s) \<Rightarrow>
        if i \<noteq> A2F_RING_ID_CONFIG then None
        else map_option snd (ringif_a2f_refill_bufs (ringif_refill_ctrl_elem env) i s)))"

section \<open>Data rings\<close>

definition data_svc_get_hfc_data_buff :: "ring_env \<Rightarrow> u16 \<Rightarrow> elem_fn" where
  "data_svc_get_hfc_data_buff env len e s =
     (case env_malloc env s of
        Some p \<Rightarrow> (True, zero_element\<lparr>e_buf := p, e_buf_start := p, e_len := len\<rparr>, s)
      | None \<Rightarrow> (False, zero_element, s))"

definition data_svc_free_hfc_data_buff :: elem_fn where
  "data_svc_free_hfc_data_buff e s = (True, e\<lparr>e_buf := 0, e_buf_start := 0\<rparr>, free_memory (e_buf_start e) s)"

definition ringif_refill_hfc_elem :: "ring_env \<Rightarrow> elem_fn" where
  "ringif_refill_hfc_elem env e s = data_svc_get_hfc_data_buff env DATA_RING_BUFF_SIZE e s"

definition ringif_clear_hfc_elem :: elem_fn where
  "ringif_clear_hfc_elem e s = data_svc_free_hfc_data_buff e s"

definition data_svc_hfc_send_data_pkt :: "nat \<Rightarrow> nat \<Rightarrow> u16 \<Rightarrow> u16 \<Rightarrow> ringif \<Rightarrow> (int \<times> ringif) option" where
  "data_svc_hfc_send_data_pkt buff payload len info s =
     (if buff = 0 \<or> payload = 0 \<or> len = 0 then Some (-1, s)
      else map_option (\<lambda>(ok, s). (if ok then 0 else -2, s)) (ringif_f2a_pkt_attach F2A_RING_ID_DATA buff payload len info s))"

definition data_svc_hfc_queue_send :: "ring_element \<Rightarrow> ringif \<Rightarrow> (int \<times> ringif) option" where
  "data_svc_hfc_queue_send e s =
     (if e_buf e = 0 then Some (-1, s)
      else if 1400 < e_len e then None
      else Some (0, s\<lparr>recv_queue := recv_queue s @ [\<lparr>m_id = ucast (e_info e), m_buf = e_buf_start e, m_data = e_buf e, m_len = e_len e\<rparr>]\<rparr>))"

definition process_hfc_data_pkt :: process_fn where
  "process_hfc_data_pkt e s = (if e_buf e = 0 then Some (False, s) else map_option (\<lambda>(_, s). (True, s)) (data_svc_hfc_queue_send e s))"

datatype hfc_status = QAPI_OK | QAPI_ERR_TIMEOUT | QAPI_ERR_INVALID_PARAM

text \<open>The copy into the application's buffer is the address of the data and the number of bytes.\<close>

definition data_svc_hfc_recv_data_pkt :: "nat \<Rightarrow> u16 \<Rightarrow> ringif \<Rightarrow> hfc_status \<times> (nat \<times> u16 \<times> u16) option \<times> ringif" where
  "data_svc_hfc_recv_data_pkt buff buf_len s =
     (if buff = 0 \<or> buf_len = 0 then (QAPI_ERR_INVALID_PARAM, None, s)
      else
       (case recv_queue s of
          [] \<Rightarrow> (QAPI_ERR_TIMEOUT, None, s)
        | m # q \<Rightarrow>
            (QAPI_OK, Some (m_data m, if buf_len < m_len m then buf_len else m_len m, ucast (m_id m)), free_memory (m_buf m) (s\<lparr>recv_queue := q\<rparr>))))"

definition handle_a2f_hfc_data_ring_update :: "ring_env \<Rightarrow> u8 \<Rightarrow> ringif \<Rightarrow> ringif option" where
  "handle_a2f_hfc_data_ring_update env i s = map_option snd (ringif_a2f_process_pkts env process_hfc_data_pkt (ringif_refill_hfc_elem env) i s)"

definition handle_f2a_hfc_data_ring_update :: "ring_env \<Rightarrow> u8 \<Rightarrow> ringif \<Rightarrow> ringif option" where
  "handle_f2a_hfc_data_ring_update env i s = map_option snd (ringif_f2a_clear_used_bufs env ringif_clear_hfc_elem i s)"

text \<open>One pass of the data task.\<close>

definition qcspi_hfc_thread_pass :: "ring_env \<Rightarrow> ringif \<Rightarrow> ringif option" where
  "qcspi_hfc_thread_pass env s =
     (case data_queue s of
        [] \<Rightarrow> Some s
      | (d, i) # q \<Rightarrow>
          let s = s\<lparr>data_queue := q\<rparr> in
          (case d of RING_DIR_A2F \<Rightarrow> handle_a2f_hfc_data_ring_update env i s | RING_DIR_F2A \<Rightarrow> handle_f2a_hfc_data_ring_update env i s))"

definition create_data_rings :: "ring_env \<Rightarrow> ringif \<Rightarrow> ringif option" where
  "create_data_rings env s =
     (case ringif_create_f2a_ring env Post_Hfc_F2A 12 MAX_NUM_F2A_DATA_RING_ELEMS s of (i, s) \<Rightarrow>
      if i \<noteq> A2F_RING_ID_DATA then None
      else
       (case ringif_create_a2f_ring env Post_Hfc_A2F 12 MAX_NUM_A2F_DATA_RING_ELEMS s of (i, s) \<Rightarrow>
        if i \<noteq> F2A_RING_ID_DATA then None
        else map_option snd (ringif_a2f_refill_bufs (ringif_refill_hfc_elem env) i s)))"

definition ringif_init :: "ring_env \<Rightarrow> ringif \<Rightarrow> ringif option" where
  "ringif_init env s = (case create_config_rings env s of None \<Rightarrow> None | Some s \<Rightarrow> create_data_rings env s)"

end
