(* ===== verification/RingF2a.thy ===== *)
theory RingF2a
  imports RingTasks
begin

text \<open>
  The rings from the firmware to the host as queues: the elements the host has read and the firmware has still to free (\<open>used\<close>), and those the host has
  still to read (\<open>unread\<close>). Turned to the index that is cleared next, the array of a ring is these two, one behind the other, and then empty elements.
\<close>

section \<open>Arrays as rings\<close>

lemma nth_rotate_mod: "k < length xs \<Longrightarrow> rotate m xs ! k = xs ! ((m + k) mod length xs)"
  by (simp add: nth_rotate add.commute)

lemma mod_offset_less:
  assumes "(m + a) mod n = (m + b) mod n" and "b < n" and "a \<le> (b :: nat)"
  shows "a = b"
proof -
  have "n dvd (m + b) - (m + a)" using assms(1,3) mod_eq_dvd_iff_nat [of "m + a" "m + b" n] by simp
  then show ?thesis using assms(2,3) by (auto dest: dvd_imp_le)
qed

lemma mod_offset_inj: "(m + a) mod n = (m + b) mod n \<Longrightarrow> a < n \<Longrightarrow> b < n \<Longrightarrow> a = (b :: nat)"
  using mod_offset_less [of m a n b] mod_offset_less [of m b n a] by (cases "a \<le> b") auto

lemma rotate_update: "k < length xs \<Longrightarrow> rotate m (xs[(m + k) mod length xs := v]) = (rotate m xs)[k := v]"
proof (rule nth_equalityI)
  fix j assume k: "k < length xs" and "j < length (rotate m (xs[(m + k) mod length xs := v]))"
  then have j: "j < length xs" by simp
  then have "(m + k) mod length xs = (m + j) mod length xs \<longleftrightarrow> k = j" using mod_offset_inj [OF _ k j, of m] by auto
  moreover have "(m + j) mod length xs < length xs" using j by (intro mod_less_divisor) (cases xs; simp)
  ultimately show "rotate m (xs[(m + k) mod length xs := v]) ! j = (rotate m xs)[k := v] ! j" using j k by (simp add: nth_rotate_mod nth_list_update)
qed simp

lemma mod_offset_self: "(m :: nat) < n \<Longrightarrow> a \<le> n \<Longrightarrow> (m + a) mod n = m \<longleftrightarrow> a = 0 \<or> a = n"
  using mod_offset_inj [of m a n 0] by (cases "a < n") auto

section \<open>A ring of one direction\<close>

definition ring_wf :: "ring_side \<Rightarrow> u8 \<Rightarrow> ring_ctx \<Rightarrow> ring_element list \<Rightarrow> bool" where
  "ring_wf sd i c es \<longleftrightarrow> unat i < MAX_NUM_RINGS \<and> length (s_ctx sd) = MAX_NUM_RINGS \<and> length (s_stats sd) = MAX_NUM_RINGS \<and>
     unat i < length (s_index sd) \<and> unat i < length (s_outdex sd) \<and> s_ctx sd ! unat i = c \<and> p_ring_base c = Some es \<and>
     p_write_idx c = Some (unat i) \<and> p_read_idx c = Some (unat i) \<and> unat (ring_num_elem c) = length es \<and> 2 \<le> length es"

lemma ring_wf_access:
  assumes "ring_wf sd i c es"
  shows "ring_ctx_of sd i = Some c" "write_idx sd c = Some (s_index sd ! unat i)" "read_idx sd c = Some (s_outdex sd ! unat i)"
    "elem_at c k = (if unat k < length es then Some (es ! unat k) else None)" "next_idx c k = of_nat ((unat k + 1) mod length es)"
    "p_ring_base c = Some es" "ring_num_elem c \<le> k \<longleftrightarrow> length es \<le> unat k"
  using assms by (auto simp: ring_wf_def ring_ctx_of_def write_idx_def read_idx_def elem_at_def next_idx_def word_le_nat_alt)

lemma ring_wf_length: "ring_wf sd i c es \<Longrightarrow> length es < 256"
proof -
  assume "ring_wf sd i c es"
  moreover have "unat (ring_num_elem c) < 256" using unsigned_less [of "ring_num_elem c"] by simp
  ultimately show ?thesis by (simp add: ring_wf_def)
qed

lemma unat_index: "ring_wf sd i c es \<Longrightarrow> unat (of_nat (k mod length es) :: u8) = k mod length es"
proof -
  assume w: "ring_wf sd i c es"
  then have "0 < length es" by (auto simp: ring_wf_def)
  then have "k mod length es < length es" by (rule mod_less_divisor)
  then show ?thesis using ring_wf_length [OF w] by (simp add: unat_of_nat)
qed

lemma ring_wf_put_elem: "ring_wf sd i c es \<Longrightarrow> ring_wf (put_elem i k e sd) i (c\<lparr>p_ring_base := Some (es[unat k := e])\<rparr>) (es[unat k := e])"
  by (simp add: ring_wf_def put_elem_def upd_ctx_def)

lemma put_elem_idx [simp]: "s_index (put_elem i k e sd) = s_index sd" "s_outdex (put_elem i k e sd) = s_outdex sd"
  by (simp_all add: put_elem_def upd_ctx_def)

lemma ring_wf_set_idx:
  "ring_wf sd i c es \<Longrightarrow> ring_wf (sd\<lparr>s_index := (s_index sd)[p := v]\<rparr>) i c es"
  "ring_wf sd i c es \<Longrightarrow> ring_wf (sd\<lparr>s_outdex := (s_outdex sd)[p := v]\<rparr>) i c es"
  by (simp_all add: ring_wf_def)

lemma upd_stats_ok:
  assumes "ring_wf sd i c es"
  shows "\<exists>sd'. upd_stats i f sd = Some sd' \<and> ring_wf sd' i c es \<and> s_ctx sd' = s_ctx sd \<and> s_index sd' = s_index sd \<and> s_outdex sd' = s_outdex sd"
  using assms by (simp add: upd_stats_def ring_wf_def)

lemmas stats_defs = ringif_stats_attach_succ_def ringif_stats_detach_succ_def ringif_stats_attach_fail_def ringif_stats_detach_fail_def

section \<open>Used and unread elements\<close>

definition packet :: "ring_element \<Rightarrow> bool" where
  "packet e \<longleftrightarrow> e_buf e \<noteq> 0 \<and> e_buf_start e \<noteq> 0"

definition f2a_at :: "u8 \<Rightarrow> ring_side \<Rightarrow> nat \<Rightarrow> u8 \<Rightarrow> ring_element list \<Rightarrow> ring_element list \<Rightarrow> bool" where
  "f2a_at i sd n clr used unread \<longleftrightarrow>
     (\<exists>c es free. ring_wf sd i c es \<and> length es = n \<and> unat clr < n \<and> rotate (unat clr) es = used @ unread @ free \<and>
        unat (s_outdex sd ! unat i) = (unat clr + length used) mod n \<and>
        unat (s_index sd ! unat i) = (unat clr + length used + length unread) mod n \<and> length unread < n \<and>
        (\<forall>e \<in> set free. \<not> has_buf e) \<and> (\<forall>e \<in> set (used @ unread). e_buf e \<noteq> 0 \<and> e_buf_start e \<noteq> 0) \<and>
        (used @ unread \<noteq> [] \<longrightarrow> ring_idx_clear_pending c = 1))"

definition f2a_rel :: "u8 \<Rightarrow> nat \<Rightarrow> ringif \<Rightarrow> ring_element list \<Rightarrow> ring_element list \<Rightarrow> bool" where
  "f2a_rel i n s used unread \<longleftrightarrow> f2a_at i (f2a s) n (ring_idx_to_clear (s_ctx (f2a s) ! unat i)) used unread \<and>
     (ring_idx_clear_pending (s_ctx (f2a s) ! unat i) = 1 \<longrightarrow> used @ unread \<noteq> [])"

lemma f2a_at_length:
  assumes "f2a_at i sd n clr used unread"
  shows "length used + length unread \<le> n" "2 \<le> n" "n < 256"
proof -
  obtain c es free where w: "ring_wf sd i c es" "length es = n" "rotate (unat clr) es = used @ unread @ free" using assms by (auto simp: f2a_at_def)
  then have "length used + length unread + length free = n" by (metis length_append length_rotate add.assoc)
  then show "length used + length unread \<le> n" by simp
  show "2 \<le> n" "n < 256" using w(1,2) ring_wf_length [OF w(1)] by (auto simp: ring_wf_def)
qed

lemma mod_next: "(m + k) mod n = m' \<Longrightarrow> (m' + 1) mod n = (m + k + 1) mod (n :: nat)"
  by (auto simp: mod_Suc_eq)

lemma f2a_full:
  assumes "f2a_at i sd n clr used unread"
  shows "ringif_ring_full sd (ring_ctx_of sd i) \<longleftrightarrow> length unread + 1 = n"
proof -
  obtain c es where w: "ring_wf sd i c es" "length es = n" and idx: "unat (s_outdex sd ! unat i) = (unat clr + length used) mod n"
    "unat (s_index sd ! unat i) = (unat clr + length used + length unread) mod n" and u: "length unread < n"
    using assms by (auto simp: f2a_at_def)
  have less: "\<not> n \<le> k mod n" for k using u by (simp add: not_le)
  have "(unat clr + length used) mod n = (unat clr + length used + (length unread + 1)) mod n \<longleftrightarrow> length unread + 1 = n"
  proof
    assume "(unat clr + length used) mod n = (unat clr + length used + (length unread + 1)) mod n"
    then show "length unread + 1 = n" using mod_offset_inj [of "unat clr + length used" 0 n "length unread + 1"] u by (cases "length unread + 1 < n") auto
  next
    assume "length unread + 1 = n"
    then show "(unat clr + length used) mod n = (unat clr + length used + (length unread + 1)) mod n" by simp
  qed
  then show ?thesis unfolding ringif_ring_full_def using ring_wf_access [OF w(1)] idx less w by (simp add: mod_Suc_eq ring_wf_def)
qed

lemma f2a_at_cong:
  assumes "s_ctx sd' = s_ctx sd" and "s_index sd' = s_index sd" and "s_outdex sd' = s_outdex sd" and "length (s_stats sd') = length (s_stats sd)"
  shows "f2a_at i sd' n clr used unread = f2a_at i sd n clr used unread"
  using assms by (simp add: f2a_at_def ring_wf_def)

lemma upd_stats_at:
  assumes "f2a_at i sd n clr used unread"
  shows "\<exists>sd'. upd_stats i f sd = Some sd' \<and> s_ctx sd' = s_ctx sd \<and> (\<forall>clr used unread. f2a_at i sd' n clr used unread = f2a_at i sd n clr used unread)"
proof -
  obtain c es where "ring_wf sd i c es" using assms by (auto simp: f2a_at_def)
  then have "upd_stats i f sd = Some (sd\<lparr>s_stats := (s_stats sd)[unat i := f (s_stats sd ! unat i)]\<rparr>)" by (simp add: upd_stats_def ring_wf_def)
  then show ?thesis using f2a_at_cong [of "sd\<lparr>s_stats := (s_stats sd)[unat i := f (s_stats sd ! unat i)]\<rparr>" sd] by simp
qed

text \<open>The element at the write index.\<close>

lemma f2a_write_slot:
  assumes "f2a_at i sd n clr used unread" and "ring_wf sd i c es"
  shows "elem_at c (s_index sd ! unat i) = Some (es ! ((unat clr + (length used + length unread)) mod n))"
    "has_buf (es ! ((unat clr + (length used + length unread)) mod n)) \<longleftrightarrow> length used + length unread = n"
proof -
  obtain free where w: "length es = n" and c: "unat clr < n" "rotate (unat clr) es = used @ unread @ free"
    and idx: "unat (s_index sd ! unat i) = (unat clr + length used + length unread) mod n"
    and el: "\<forall>e \<in> set free. \<not> has_buf e" "\<forall>e \<in> set (used @ unread). e_buf e \<noteq> 0 \<and> e_buf_start e \<noteq> 0"
    using assms by (auto simp: f2a_at_def ring_wf_def)
  let ?k = "length used + length unread"
  have k: "?k + length free = n" using w c(2) by (metis length_append length_rotate add.assoc)
  have n: "0 < n" using f2a_at_length(2) [OF assms(1)] by simp
  show "elem_at c (s_index sd ! unat i) = Some (es ! ((unat clr + ?k) mod n))" using ring_wf_access(4) [OF assms(2)] idx w n by (simp add: add.assoc)
  show "has_buf (es ! ((unat clr + ?k) mod n)) \<longleftrightarrow> ?k = n"
  proof (cases "?k = n")
    case True
    then have "es ! ((unat clr + ?k) mod n) = (used @ unread) ! 0" using nth_rotate_mod [of 0 es "unat clr"] w c n k by simp
    moreover have "(used @ unread) ! 0 \<in> set (used @ unread)" using True n by (intro nth_mem) simp
    ultimately show ?thesis using el(2) True by (auto simp: has_buf_def)
  next
    case False
    then have "es ! ((unat clr + ?k) mod n) = free ! 0" using nth_rotate_mod [of ?k es "unat clr"] w c k by (simp add: nth_append)
    moreover have "free ! 0 \<in> set free" using False k by (intro nth_mem) (cases free; simp)
    ultimately show ?thesis using el(1) False by auto
  qed
qed

lemma attach_at:
  assumes "f2a_at i sd n clr used unread" and "ring_wf sd i c es" and "length unread + 1 < n" and "length used + length unread < n"
    and "e_buf e \<noteq> 0" and "e_buf_start e \<noteq> 0"
  defines "w \<equiv> s_index sd ! unat i"
  defines "sd' \<equiv> upd_ctx i (\<lambda>c. c\<lparr>ring_idx_clear_pending := 1\<rparr>) (set_write_idx c (next_idx c w) (put_elem i w e sd))"
  shows "f2a_at i sd' n clr used (unread @ [e]) \<and> ring_idx_to_clear (s_ctx sd' ! unat i) = ring_idx_to_clear c"
proof -
  obtain free where len: "length es = n" and c: "unat clr < n" "rotate (unat clr) es = used @ unread @ free"
    and idx: "unat (s_outdex sd ! unat i) = (unat clr + length used) mod n" "unat w = (unat clr + length used + length unread) mod n"
    and el: "\<forall>e \<in> set free. \<not> has_buf e" "\<forall>e \<in> set (used @ unread). e_buf e \<noteq> 0 \<and> e_buf_start e \<noteq> 0"
    using assms(1,2) by (auto simp: f2a_at_def ring_wf_def w_def)
  let ?k = "length used + length unread" and ?es = "es[unat w := e]"
  let ?c = "c\<lparr>p_ring_base := Some ?es, ring_idx_clear_pending := 1\<rparr>"
  have "?k + length free = n" using len c(2) by (metis length_append length_rotate add.assoc)
  then obtain f fs where free: "free = f # fs" using assms(4) by (cases free) auto
  have sd': "sd' = sd\<lparr>s_ctx := (s_ctx sd)[unat i := ?c], s_index := (s_index sd)[unat i := next_idx c w]\<rparr>"
    using assms(2) by (simp add: sd'_def upd_ctx_def set_write_idx_def put_elem_def ring_wf_def)
  have wf: "ring_wf sd' i ?c ?es" using assms(2) by (simp add: sd' ring_wf_def)
  have "rotate (unat clr) ?es = (used @ unread @ free)[?k := e]"
    using rotate_update [of ?k es "unat clr" e] idx(2) len c(2) assms(4) by (simp add: add.assoc)
  then have rot: "rotate (unat clr) ?es = used @ (unread @ [e]) @ fs" by (simp add: free list_update_append)
  have "unat (next_idx c w) = (unat clr + length used + length (unread @ [e])) mod n"
    using unat_index [OF assms(2), of "unat w + 1"] ring_wf_access(5) [OF assms(2), of w] len idx(2) by (simp add: mod_Suc_eq)
  then have "unat (s_index sd' ! unat i) = (unat clr + length used + length (unread @ [e])) mod n" using assms(2) by (simp add: sd' ring_wf_def)
  moreover have "unat (s_outdex sd' ! unat i) = (unat clr + length used) mod n" using idx(1) by (simp add: sd')
  ultimately have "f2a_at i sd' n clr used (unread @ [e])" unfolding f2a_at_def
    using wf rot len c(1) assms(3,5,6) el by (intro exI [of _ ?c] exI [of _ ?es] exI [of _ fs]) (simp add: free)
  then show ?thesis using wf by (auto simp: ring_wf_def)
qed

lemma f2a_attach:
  assumes rel: "f2a_rel i n s used unread" and buf: "buf \<noteq> 0" "buf_start \<noteq> 0"
  defines "room \<equiv> length unread + 1 < n \<and> length used + length unread < n"
  shows "\<exists>s'. ringif_f2a_pkt_attach i buf_start buf len info s = Some (room, s') \<and> freed s' = freed s \<and>
    f2a_rel i n s' used (if room then unread @ [\<lparr>e_buf = buf, e_len = len, e_info = info, e_buf_start = buf_start\<rparr>] else unread)"
proof -
  let ?sd = "f2a s" and ?e = "\<lparr>e_buf = buf, e_len = len, e_info = info, e_buf_start = buf_start\<rparr>"
  let ?clr = "ring_idx_to_clear (s_ctx ?sd ! unat i)"
  have at: "f2a_at i ?sd n ?clr used unread" using rel by (simp add: f2a_rel_def)
  then obtain c es where w: "ring_wf ?sd i c es" by (auto simp: f2a_at_def)
  note acc = ring_wf_access [OF w] and slot = f2a_write_slot [OF at w] and full = f2a_full [OF at] and len = f2a_at_length [OF at]
  have u: "length unread < n" using at by (auto simp: f2a_at_def)
  obtain sd' where fail: "ringif_stats_attach_fail i 1 ?sd = Some sd'" "f2a_rel i n (s\<lparr>f2a := sd'\<rparr>) used unread"
    using upd_stats_at [OF at] rel unfolding stats_defs f2a_rel_def by fastforce
  show ?thesis
  proof (cases room)
    case True
    let ?w = "s_index ?sd ! unat i"
    let ?sd' = "upd_ctx i (\<lambda>c. c\<lparr>ring_idx_clear_pending := 1\<rparr>) (set_write_idx c (next_idx c ?w) (put_elem i ?w ?e ?sd))"
    have at': "f2a_at i ?sd' n ?clr used (unread @ [?e])" "ring_idx_to_clear (s_ctx ?sd' ! unat i) = ?clr"
      using attach_at [OF at w, of ?e] True buf w by (auto simp: room_def ring_wf_def)
    obtain sd' where "ringif_stats_attach_succ i 1 ?sd' = Some sd'" "s_ctx sd' = s_ctx ?sd'" "f2a_at i sd' n ?clr used (unread @ [?e])"
      using upd_stats_at [OF at'(1)] at'(1) unfolding stats_defs by blast
    then show ?thesis using True full slot acc at'(2)
      by (simp add: ringif_f2a_pkt_attach_def Let_def room_def ringif_indicate_to_host_def f2a_rel_def)
  next
    case False
    then have "ringif_ring_full ?sd (ring_ctx_of ?sd i) \<or> has_buf (es ! ((unat ?clr + (length used + length unread)) mod n))"
      using full slot(2) u len by (auto simp: room_def)
    then show ?thesis using False fail slot(1) acc by (auto simp: ringif_f2a_pkt_attach_def Let_def)
  qed
qed

section \<open>Clearing\<close>

lemma clear_at:
  assumes "f2a_at i sd n idx (x # used) unread" and "\<not> has_buf e"
  shows "f2a_at i (put_elem i idx e sd) n (of_nat ((unat idx + 1) mod n)) used unread"
proof -
  obtain c es free where w: "ring_wf sd i c es" "length es = n" and c: "unat idx < n" "rotate (unat idx) es = (x # used) @ unread @ free"
    and idx: "unat (s_outdex sd ! unat i) = (unat idx + length (x # used)) mod n"
    "unat (s_index sd ! unat i) = (unat idx + length (x # used) + length unread) mod n" "length unread < n"
    and el: "\<forall>e \<in> set free. \<not> has_buf e" "\<forall>e \<in> set ((x # used) @ unread). e_buf e \<noteq> 0 \<and> e_buf_start e \<noteq> 0" "ring_idx_clear_pending c = 1"
    using assms(1) by (auto simp: f2a_at_def)
  let ?es = "es[unat idx := e]" and ?c = "c\<lparr>p_ring_base := Some (es[unat idx := e])\<rparr>" and ?i = "of_nat ((unat idx + 1) mod n) :: u8"
  have i: "unat ?i = (unat idx + 1) mod n" using unat_index [OF w(1)] w(2) by simp
  have "rotate (unat idx) ?es = (rotate (unat idx) es)[0 := e]" using rotate_update [of 0 es "unat idx" e] c(1) w(2) by simp
  then have "rotate (Suc (unat idx)) ?es = (used @ unread @ free) @ [e]" using c(2) by simp
  then have rot: "rotate (unat ?i) ?es = used @ unread @ (free @ [e])" using rotate_conv_mod [of "Suc (unat idx)" ?es] w(2) i by simp
  have "(unat ?i + k) mod n = (unat idx + 1 + k) mod n" for k using i by (simp add: mod_simps)
  from this [of "length used"] this [of "length used + length unread"]
  have "unat (s_outdex sd ! unat i) = (unat ?i + length used) mod n" "unat (s_index sd ! unat i) = (unat ?i + length used + length unread) mod n"
    using idx by (simp_all add: add.assoc)
  moreover have "unat ?i < n" using i c(1) by simp
  ultimately show ?thesis unfolding f2a_at_def
    using ring_wf_put_elem [OF w(1), of idx e] w(2) rot idx(3) el assms(2) by (intro exI [of _ ?c] exI [of _ ?es] exI [of _ "free @ [e]"]) auto
qed

text \<open>A host that reads elements, and changes nothing else that the firmware uses of the ring.\<close>

definition host_reads :: "ring_env \<Rightarrow> u8 \<Rightarrow> nat \<Rightarrow> bool" where
  "host_reads env i n \<longleftrightarrow> (\<forall>s clr used unread. f2a_at i (f2a s) n clr used unread \<longrightarrow>
     (\<exists>k. f2a_at i (f2a (env_host env s)) n clr (used @ take k unread) (drop k unread)) \<and> freed (env_host env s) = freed s \<and>
     s_ctx (f2a (env_host env s)) = s_ctx (f2a s))"

lemma host_readsD:
  assumes "host_reads env i n" and "f2a_at i (f2a s) n clr used unread"
  obtains k where "f2a_at i (f2a (env_host env s)) n clr (used @ take k unread) (drop k unread)" "freed (env_host env s) = freed s"
    "s_ctx (f2a (env_host env s)) = s_ctx (f2a s)"
  using assms unfolding host_reads_def by blast

lemma f2a_read_idx:
  assumes "f2a_at i sd n clr used unread" and "length used + length unread < n"
  shows "clr = s_outdex sd ! unat i \<longleftrightarrow> used = []"
proof -
  have "unat clr < n" "unat (s_outdex sd ! unat i) = (unat clr + length used) mod n" using assms(1) by (auto simp: f2a_at_def)
  then have "unat clr = unat (s_outdex sd ! unat i) \<longleftrightarrow> used = []" using mod_offset_self [of "unat clr" n "length used"] assms(2) by auto
  then show ?thesis by (simp add: word_unat_eq_iff)
qed

text \<open>What the ring expects of a function that clears elements.\<close>

locale freeing =
  fixes clear :: elem_fn and good :: "ring_element \<Rightarrow> bool"
  assumes clear_law: "good e \<Longrightarrow> e_buf e \<noteq> 0 \<Longrightarrow> e_buf_start e \<noteq> 0 \<Longrightarrow>
    \<exists>e'. clear e s = (True, e', s\<lparr>freed := freed s @ [e_buf_start e]\<rparr>) \<and> \<not> has_buf e'"
begin

lemma clear_pass_step:
  assumes at: "f2a_at i (f2a s) n idx (x # used) unread" and "good x" and "host_reads env i n"
  shows "\<exists>k s'. f2a_at i (f2a s') n (of_nat ((unat idx + 1) mod n)) (used @ take k unread) (drop k unread) \<and> freed s' = freed s @ [e_buf_start x] \<and>
    clear_pass env clear i (idx, m, s) =
      (if used @ take k unread = [] then Stop (of_nat ((unat idx + 1) mod n), m + 1, s') else Next (of_nat ((unat idx + 1) mod n), m + 1, s'))"
proof -
  obtain c es free where w: "ring_wf (f2a s) i c es" "length es = n" and c: "unat idx < n" "rotate (unat idx) es = (x # used) @ unread @ free"
    and x: "e_buf x \<noteq> 0" "e_buf_start x \<noteq> 0" using at by (auto simp: f2a_at_def)
  note acc = ring_wf_access [OF w(1)]
  have e: "elem_at c idx = Some x" using acc(4) [of idx] c w(2) nth_rotate_mod [of 0 es "unat idx"] by (cases es) auto
  obtain e where cl: "clear x s = (True, e, s\<lparr>freed := freed s @ [e_buf_start x]\<rparr>)" "\<not> has_buf e" using clear_law [OF assms(2) x] by blast
  let ?i = "of_nat ((unat idx + 1) mod n) :: u8"
  let ?s = "s\<lparr>freed := freed s @ [e_buf_start x], f2a := put_elem i idx e (f2a s)\<rparr>"
  have "f2a_at i (f2a ?s) n ?i used unread" using clear_at [OF at cl(2)] by simp
  from host_readsD [OF assms(3) this] obtain k where k: "f2a_at i (f2a (env_host env ?s)) n ?i (used @ take k unread) (drop k unread)"
    "freed (env_host env ?s) = freed ?s" by blast
  then obtain c' es' where w': "ring_wf (f2a (env_host env ?s)) i c' es'" by (auto simp: f2a_at_def)
  have r: "read_idx (f2a (env_host env ?s)) c = Some (s_outdex (f2a (env_host env ?s)) ! unat i)" using w(1) by (simp add: read_idx_def ring_wf_def)
  have "length (used @ take k unread) + length (drop k unread) < n" using f2a_at_length(1) [OF at] by simp
  then have "?i = s_outdex (f2a (env_host env ?s)) ! unat i \<longleftrightarrow> used @ take k unread = []" using f2a_read_idx [OF k(1)] by blast
  then have "clear_pass env clear i (idx, m, s) =
      (if used @ take k unread = [] then Stop (?i, m + 1, env_host env ?s) else Next (?i, m + 1, env_host env ?s))"
    unfolding clear_pass_def using acc(1) e x cl(1) r acc(5) [of idx] w(2) by (simp add: Let_def)
  then show ?thesis using k by (intro exI [of _ k] exI [of _ "env_host env ?s"]) simp
qed

lemma clear_loop_frees:
  assumes "f2a_at i (f2a s) n idx used unread" and "used \<noteq> []" and "\<forall>e \<in> set (used @ unread). good e" and "host_reads env i n"
  shows "\<exists>idx' m' s' k. clear_loop env clear i (idx, m, s) = Some (idx', m', s') \<and> f2a_at i (f2a s') n idx' [] (drop k unread) \<and>
    freed s' = freed s @ map e_buf_start (used @ take k unread)"
  using assms(1-3)
proof (induction "length used + length unread" arbitrary: idx used unread m s)
  case 0
  then show ?case by simp
next
  case (Suc l)
  then obtain x xs where used: "used = x # xs" by (cases used) auto
  have g: "good x" using Suc.prems(3) used by simp
  let ?i = "of_nat ((unat idx + 1) mod n) :: u8"
  from clear_pass_step [OF Suc.prems(1) [unfolded used] g assms(4), of m] obtain k s' where
    st: "f2a_at i (f2a s') n ?i (xs @ take k unread) (drop k unread)" "freed s' = freed s @ [e_buf_start x]"
    "clear_pass env clear i (idx, m, s) = (if xs @ take k unread = [] then Stop (?i, m + 1, s') else Next (?i, m + 1, s'))" by blast
  show ?case
  proof (cases "xs @ take k unread = []")
    case True
    then have e: "xs = []" "take k unread = []" by simp_all
    have "clear_loop env clear i (idx, m, s) = Some (?i, m + 1, s')" using st(3) True clear_loop.simps [of env clear i "(idx, m, s)"] by simp
    moreover have "f2a_at i (f2a s') n ?i [] (drop k unread)" using st(1) e by simp
    moreover have "freed s' = freed s @ map e_buf_start (used @ take k unread)" using st(2) e used by simp
    ultimately show ?thesis by blast
  next
    case False
    have "l = length (xs @ take k unread) + length (drop k unread)" using Suc.hyps(2) used by simp
    moreover have "\<forall>e \<in> set ((xs @ take k unread) @ drop k unread). good e"
      using Suc.prems(3) used set_take_subset [of k unread] set_drop_subset [of k unread] by auto
    ultimately obtain idx' m' s'' k' where IH: "clear_loop env clear i (?i, m + 1, s') = Some (idx', m', s'')"
      "f2a_at i (f2a s'') n idx' [] (drop k' (drop k unread))"
      "freed s'' = freed s' @ map e_buf_start ((xs @ take k unread) @ take k' (drop k unread))"
      using Suc.hyps(1) [OF _ st(1) False] by blast
    moreover have "clear_loop env clear i (idx, m, s) = clear_loop env clear i (?i, m + 1, s')"
      unfolding clear_loop.simps [of env clear i "(idx, m, s)"] st(3) if_not_P [OF False] by simp
    moreover have "take k unread @ take k' (drop k unread) = take (k + k') unread" "drop k' (drop k unread) = drop (k + k') unread"
      by (simp add: take_add, simp add: add.commute)
    ultimately have "clear_loop env clear i (idx, m, s) = Some (idx', m', s'')" "f2a_at i (f2a s'') n idx' [] (drop (k + k') unread)"
      "freed s'' = freed s @ map e_buf_start (used @ take (k + k') unread)" using used st(2) by (simp_all flip: map_append)
    then show ?thesis by blast
  qed
qed

end

lemma f2a_empty:
  assumes "f2a_at i sd n idx [] unread"
  shows "ringif_ring_empty sd (ring_ctx_of sd i) \<longleftrightarrow> unread = []"
proof -
  obtain c es where w: "ring_wf sd i c es" "length es = n" and idx: "unat (s_outdex sd ! unat i) = unat idx mod n"
    "unat (s_index sd ! unat i) = (unat idx + length unread) mod n" and u: "length unread < n" "unat idx < n"
    using assms unfolding f2a_at_def append_Nil list.size(3) add_0_right by blast
  have less: "\<not> n \<le> k mod n" for k using u by (simp add: not_le)
  have "s_outdex sd ! unat i = s_index sd ! unat i \<longleftrightarrow> unread = []"
    using idx u mod_offset_self [of "unat idx" n "length unread"] by (auto simp: word_unat_eq_iff)
  then show ?thesis unfolding ringif_ring_empty_def using ring_wf_access [OF w(1)] idx less w by (simp add: ring_wf_def)
qed

lemma f2a_at_upd:
  assumes "f2a_at i sd n clr used unread" and "\<And>c. f c = c\<lparr>ring_idx_to_clear := ring_idx_to_clear (f c), ring_idx_clear_pending := ring_idx_clear_pending (f c)\<rparr>"
    and "used @ unread \<noteq> [] \<Longrightarrow> ring_idx_clear_pending (f (s_ctx sd ! unat i)) = ring_idx_clear_pending (s_ctx sd ! unat i)"
  shows "f2a_at i (upd_ctx i f sd) n clr used unread"
proof -
  obtain c es free where w: "ring_wf sd i c es" "s_ctx sd ! unat i = c" and r: "length es = n" "unat clr < n" "rotate (unat clr) es = used @ unread @ free"
    "unat (s_outdex sd ! unat i) = (unat clr + length used) mod n" "unat (s_index sd ! unat i) = (unat clr + length used + length unread) mod n"
    "length unread < n" "\<forall>e \<in> set free. \<not> has_buf e" "\<forall>e \<in> set (used @ unread). e_buf e \<noteq> 0 \<and> e_buf_start e \<noteq> 0"
    "used @ unread \<noteq> [] \<longrightarrow> ring_idx_clear_pending c = 1"
    using assms(1) by (auto simp: f2a_at_def ring_wf_def)
  have f: "p_ring_base (f c) = p_ring_base c" "p_write_idx (f c) = p_write_idx c" "p_read_idx (f c) = p_read_idx c" "ring_num_elem (f c) = ring_num_elem c"
    by (subst assms(2); simp)+
  have "ring_wf (upd_ctx i f sd) i (f c) es" using w f by (simp add: ring_wf_def upd_ctx_def)
  moreover have "s_outdex (upd_ctx i f sd) = s_outdex sd" "s_index (upd_ctx i f sd) = s_index sd" by (simp_all add: upd_ctx_def)
  moreover have "used @ unread \<noteq> [] \<longrightarrow> ring_idx_clear_pending (f c) = 1" using assms(3) w(2) r(9) by auto
  ultimately show ?thesis unfolding f2a_at_def using r(1-8) by (intro exI [of _ "f c"] exI [of _ es] exI [of _ free]) simp
qed

lemma ctx_upd: "unat i < length (s_ctx sd) \<Longrightarrow> s_ctx (upd_ctx i f sd) ! unat i = f (s_ctx sd ! unat i)"
  by (simp add: upd_ctx_def)

lemma clear_end_rel:
  assumes "f2a_at i (f2a s) n idx [] unread"
  shows "\<exists>s'. clear_end i (idx, m, s) = Some (True, s') \<and> f2a_rel i n s' [] unread \<and> freed s' = freed s"
proof -
  obtain sd where sd: "ringif_stats_detach_succ i m (f2a s) = Some sd" "f2a_at i sd n idx [] unread"
    using upd_stats_at [OF assms] assms unfolding stats_defs by blast
  let ?sd = "upd_ctx i (\<lambda>c. c\<lparr>ring_idx_to_clear := idx\<rparr>) sd" and ?z = "upd_ctx i (\<lambda>c. c\<lparr>ring_idx_clear_pending := 0\<rparr>)"
  have l: "unat i < length (s_ctx sd)" "unat i < length (s_ctx ?sd)" using sd(2) by (auto simp: f2a_at_def ring_wf_def upd_ctx_def)
  have at: "f2a_at i ?sd n idx [] unread" using f2a_at_upd [OF sd(2), of "\<lambda>c. c\<lparr>ring_idx_to_clear := idx\<rparr>"] by simp
  have z: "f2a_at i (?z ?sd) n idx [] unread" if "unread = []"
    using f2a_at_upd [OF at, of "\<lambda>c. c\<lparr>ring_idx_clear_pending := 0\<rparr>"] that by simp
  show ?thesis
  proof (cases "unread = []")
    case True
    then have "clear_end i (idx, m, s) = Some (True, s\<lparr>f2a := ?z ?sd\<rparr>)" using sd(1) f2a_empty [OF at] by (simp add: clear_end_def Let_def)
    moreover have "f2a_rel i n (s\<lparr>f2a := ?z ?sd\<rparr>) [] unread" using z [OF True] ctx_upd [OF l(1)] ctx_upd [OF l(2)] by (simp add: f2a_rel_def)
    ultimately show ?thesis by simp
  next
    case False
    then have "clear_end i (idx, m, s) = Some (True, s\<lparr>f2a := ?sd, timer_on := True\<rparr>)" using sd(1) f2a_empty [OF at] by (simp add: clear_end_def Let_def)
    moreover have "f2a_rel i n (s\<lparr>f2a := ?sd, timer_on := True\<rparr>) [] unread" using at ctx_upd [OF l(1)] False by (simp add: f2a_rel_def)
    ultimately show ?thesis by simp
  qed
qed

lemma index_before:
  assumes "ring_wf sd i c es" and "unat idx < length es"
  shows "unat (if idx = 0 then ring_num_elem c - 1 else idx - 1) < length es"
proof -
  have num: "unat (ring_num_elem c) = length es" "2 \<le> length es" using assms(1) by (simp_all add: ring_wf_def)
  then have "ring_num_elem c \<noteq> 0" by auto
  then show ?thesis using num assms(2) unat_sub [of 1 idx] unat_sub [of 1 "ring_num_elem c"] by (auto simp: word_le_nat_alt unat_gt_0 Suc_le_eq)
qed

text \<open>Whether there is nothing to clear: both elements around the index are used when the whole ring is.\<close>

lemma f2a_buf_full:
  assumes "f2a_at i sd n clr used unread" and "ring_wf sd i c es" and "used = [] \<and> unread = [] \<or> length used = n"
  shows "ringif_ring_buf_full (Some c) clr = Some (used \<noteq> [])"
proof -
  obtain free where len: "length es = n" and r: "unat clr < n" "rotate (unat clr) es = used @ unread @ free"
    and el: "\<forall>e \<in> set free. \<not> has_buf e" "\<forall>e \<in> set (used @ unread). e_buf e \<noteq> 0 \<and> e_buf_start e \<noteq> 0"
    using assms(1,2) by (auto simp: f2a_at_def ring_wf_def)
  have n: "2 \<le> n" using f2a_at_length(2) [OF assms(1)] .
  have "set es = set (used @ unread @ free)" using r(2) by (metis set_rotate)
  moreover have "length (used @ unread @ free) = n" using r(2) len by (metis length_rotate)
  ultimately have all: "has_buf e \<longleftrightarrow> used \<noteq> []" if "e \<in> set es" for e using that assms(3) el n by (auto simp: has_buf_def)
  show ?thesis using index_before [OF assms(2), of clr] r(1) len all ring_wf_access [OF assms(2)] by (simp add: ringif_ring_buf_full_def)
qed

context freeing
begin

lemma clear_used_bufs_rel:
  assumes rel: "f2a_rel i n s used unread" and good: "\<forall>e \<in> set (used @ unread). good e" and host: "host_reads env i n"
  shows "\<exists>s' k. ringif_f2a_clear_used_bufs env clear i s = Some (True, s') \<and> f2a_rel i n s' [] (drop k unread) \<and>
    freed s' = freed s @ map e_buf_start (used @ take k unread)"
proof -
  let ?sd = "f2a s" and ?clr = "ring_idx_to_clear (s_ctx (f2a s) ! unat i)"
  have at: "f2a_at i ?sd n ?clr used unread" using rel by (simp add: f2a_rel_def)
  then obtain c es where w: "ring_wf ?sd i c es" by (auto simp: f2a_at_def)
  note acc = ring_wf_access [OF w] and len = f2a_at_length [OF at]
  have c: "s_ctx ?sd ! unat i = c" using w by (simp add: ring_wf_def)
  have idx: "unat ?clr < n" "unat (s_outdex ?sd ! unat i) = (unat ?clr + length used) mod n"
    "unat (s_index ?sd ! unat i) = (unat ?clr + length used + length unread) mod n" "length unread < n" using at by (auto simp: f2a_at_def)
  show ?thesis
  proof (cases "used = []")
    case True
    have r: "s_outdex ?sd ! unat i = ?clr" using idx(1,2) True by (simp add: word_unat_eq_iff)
    have "s_index ?sd ! unat i = ?clr \<longleftrightarrow> unread = []" using idx True mod_offset_self [of "unat ?clr" n "length unread"] by (auto simp: word_unat_eq_iff)
    then have "ringif_f2a_clear_used_bufs env clear i s = Some (True, s)"
      unfolding ringif_f2a_clear_used_bufs_def using acc f2a_buf_full [OF at w] True r c by (cases "unread = []") simp_all
    then show ?thesis using rel True by (intro exI [of _ s] exI [of _ 0]) simp
  next
    case False
    obtain idx' m' s' k where l: "clear_loop env clear i (?clr, 0, s) = Some (idx', m', s')" "f2a_at i (f2a s') n idx' [] (drop k unread)"
      "freed s' = freed s @ map e_buf_start (used @ take k unread)" using clear_loop_frees [OF at False good host] by blast
    have r: "s_outdex ?sd ! unat i = ?clr \<longleftrightarrow> length used = n"
      using idx(1,2) False mod_offset_self [of "unat ?clr" n "length used"] len(1) by (auto simp: word_unat_eq_iff)
    have "unread = []" "s_index ?sd ! unat i = ?clr" if "length used = n" using that len(1) idx(1,3) by (simp_all add: word_unat_eq_iff)
    then have "ringif_f2a_clear_used_bufs env clear i s = clear_end i (idx', m', s')"
      unfolding ringif_f2a_clear_used_bufs_def using acc f2a_buf_full [OF at w] False r c l(1) by (cases "length used = n") simp_all
    then show ?thesis using clear_end_rel [OF l(2), of m'] l(3) by force
  qed
qed

end

text \<open>The number reported to the interrupt handler is that of the used elements, also when these are all.\<close>

lemma num_elems_to_clear_used:
  assumes "f2a_rel i n s used unread"
  shows "ringif_f2a_num_elems_to_clear (f2a s) (ring_ctx_of (f2a s) i) = Some (of_nat (length used))"
proof -
  let ?sd = "f2a s" and ?clr = "ring_idx_to_clear (s_ctx (f2a s) ! unat i)"
  have at: "f2a_at i ?sd n ?clr used unread" using assms by (simp add: f2a_rel_def)
  then obtain c es where wf: "ring_wf ?sd i c es" "length es = n" "used @ unread \<noteq> [] \<longrightarrow> ring_idx_clear_pending c = 1" by (auto simp: f2a_at_def)
  note acc = ring_wf_access [OF wf(1)] and len = f2a_at_length [OF at]
  have c: "?clr = ring_idx_to_clear c" "unat (ring_num_elem c) = n" using wf(1,2) by (simp_all add: ring_wf_def)
  define r w where "r = s_outdex ?sd ! unat i" and "w = s_index ?sd ! unat i"
  have idx: "unat ?clr < n" "unat r = (unat ?clr + length used) mod n" "unat w = (unat ?clr + length used + length unread) mod n" "length unread < n"
    using at by (auto simp: f2a_at_def r_def w_def)
  have rn: "\<not> ring_num_elem c \<le> r" using idx c(2) by (simp add: word_le_nat_alt not_le)
  have eq: "r = ?clr \<longleftrightarrow> used = [] \<or> length used = n" using idx(1,2) mod_offset_self [of "unat ?clr" n "length used"] len(1) by (auto simp: word_unat_eq_iff)
  show ?thesis
  proof (cases "r = ?clr")
    case True
    have "w = r \<and> ring_idx_clear_pending c = 1 \<longleftrightarrow> length used = n"
    proof (cases "used = []")
      case True
      then have "w = r \<longleftrightarrow> unread = []" using idx mod_offset_self [of "unat ?clr" n "length unread"] by (auto simp: word_unat_eq_iff)
      then show ?thesis using True assms c(1) wf(1) len(2) by (auto simp: f2a_rel_def ring_wf_def)
    next
      case False
      then have "length used = n" "unread = []" using eq True len(1) by auto
      then show ?thesis using idx wf(3) False by (auto simp: word_unat_eq_iff)
    qed
    moreover have "ring_num_elem c = of_nat (length used)" if "length used = n" using c(2) that by (simp add: word_unat_eq_iff unat_of_nat len(3))
    moreover have "length used \<noteq> n \<Longrightarrow> used = []" using eq True by blast
    ultimately show ?thesis unfolding ringif_f2a_num_elems_to_clear_def acc(1) using acc(2,3) rn True c(1)
      by (cases "length used = n") (auto simp: r_def w_def)
  next
    case False
    have "unat ?clr + length used < 2 * n" using idx(1) len(1) by simp
    then have "unat r = (if unat ?clr + length used < n then unat ?clr + length used else unat ?clr + length used - n)" using idx(2) by (simp add: mod_if le_mod_geq)
    moreover have "length used \<noteq> n" using eq False by blast
    moreover have "used \<noteq> []" using eq False by blast
    ultimately have "length used + unat ?clr = (if unat ?clr < unat r then unat r else unat (ring_num_elem c) + unat r)" using c(2) len by auto
    then have "(of_nat (length used + unat ?clr) :: u8) = of_nat (if unat ?clr < unat r then unat r else unat (ring_num_elem c) + unat r)" by simp
    then have u: "of_nat (length used) = (if ?clr < r then r - ?clr else ring_num_elem c + r - ?clr)"
      by (cases "?clr < r") (simp_all add: word_less_nat_alt eq_diff_eq)
    show ?thesis unfolding ringif_f2a_num_elems_to_clear_def acc(1) using acc(3) rn False c(1) u by (simp add: r_def)
  qed
qed

end
