(* ===== verification/RingQueue.thy ===== *)
theory RingQueue
  imports RingF2a
begin

text \<open>
  The rings from the firmware to the host over sequences of operations: a contract for such a ring as a locale, what follows from it for every sequence, and
  its interpretations on the control and the data ring.
\<close>

section \<open>The contract of a packet ring\<close>

datatype 'e ring_op = Op_Attach 'e | Op_Clear | Op_Host

text \<open>A sequence of operations; the packets that were accepted and the final state.\<close>

fun ring_run :: "('e \<Rightarrow> 's \<Rightarrow> (bool \<times> 's) option) \<Rightarrow> ('s \<Rightarrow> (bool \<times> 's) option) \<Rightarrow> ('s \<Rightarrow> 's) \<Rightarrow> 'e ring_op list \<Rightarrow> 's \<Rightarrow> ('e list \<times> 's) option" where
  "ring_run attach clear host [] s = Some ([], s)"
| "ring_run attach clear host (Op_Attach e # ops) s =
     (case attach e s of
        None \<Rightarrow> None
      | Some (ok, s) \<Rightarrow> map_option (\<lambda>(acc, s). (if ok then e # acc else acc, s)) (ring_run attach clear host ops s))"
| "ring_run attach clear host (Op_Clear # ops) s = (case clear s of None \<Rightarrow> None | Some (_, s) \<Rightarrow> ring_run attach clear host ops s)"
| "ring_run attach clear host (Op_Host # ops) s = ring_run attach clear host ops (host s)"

locale packet_ring =
  fixes rel :: "'s \<Rightarrow> 'e list \<Rightarrow> 'e list \<Rightarrow> bool" and attach :: "'e \<Rightarrow> 's \<Rightarrow> (bool \<times> 's) option" and clear :: "'s \<Rightarrow> (bool \<times> 's) option"
    and host :: "'s \<Rightarrow> 's" and given :: "'s \<Rightarrow> 'b list" and buf :: "'e \<Rightarrow> 'b" and ok :: "'e \<Rightarrow> bool"
  assumes attach_law: "rel s used unread \<Longrightarrow> ok e \<Longrightarrow> \<exists>b s'. attach e s = Some (b, s') \<and> rel s' used (unread @ (if b then [e] else [])) \<and> given s' = given s"
    and clear_law: "rel s used unread \<Longrightarrow> list_all ok (used @ unread) \<Longrightarrow>
      \<exists>b s' k. clear s = Some (b, s') \<and> rel s' [] (drop k unread) \<and> given s' = given s @ map buf (used @ take k unread)"
    and host_law: "rel s used unread \<Longrightarrow> \<exists>k. rel (host s) (used @ take k unread) (drop k unread) \<and> given (host s) = given s"
begin

lemma run_conserves:
  assumes "rel s used unread" and "list_all ok (used @ unread)" and "\<forall>e. Op_Attach e \<in> set ops \<longrightarrow> ok e"
  shows "\<exists>acc s' used' unread'. ring_run attach clear host ops s = Some (acc, s') \<and> rel s' used' unread' \<and> list_all ok (used' @ unread') \<and>
    given s' @ map buf (used' @ unread') = given s @ map buf (used @ unread @ acc)"
  using assms
proof (induction ops arbitrary: s used unread)
  case Nil
  then show ?case by fastforce
next
  case (Cons op ops)
  have ops: "\<forall>e. Op_Attach e \<in> set ops \<longrightarrow> ok e" using Cons.prems(3) by simp
  show ?case
  proof (cases op)
    case (Op_Attach e)
    then have e: "ok e" using Cons.prems(3) by simp
    then obtain b s1 where s1: "attach e s = Some (b, s1)" "rel s1 used (unread @ (if b then [e] else []))" "given s1 = given s"
      using attach_law [OF Cons.prems(1)] by blast
    have "list_all ok (used @ unread @ (if b then [e] else []))" using Cons.prems(2) e by simp
    from Cons.IH [OF s1(2) this ops] obtain acc s' used' unread' where "ring_run attach clear host ops s1 = Some (acc, s')" "rel s' used' unread'"
      "list_all ok (used' @ unread')" "given s' @ map buf (used' @ unread') = given s1 @ map buf (used @ (unread @ (if b then [e] else [])) @ acc)" by blast
    then show ?thesis using s1 Op_Attach by (intro exI [of _ "if b then e # acc else acc"] exI [of _ s'] exI [of _ used'] exI [of _ unread']) auto
  next
    case Op_Clear
    obtain b s1 k where s1: "clear s = Some (b, s1)" "rel s1 [] (drop k unread)" "given s1 = given s @ map buf (used @ take k unread)"
      using clear_law [OF Cons.prems(1,2)] by blast
    have "list_all ok ([] @ drop k unread)" using Cons.prems(2) set_drop_subset [of k unread] by (auto simp: list_all_iff)
    from Cons.IH [OF s1(2) this ops] obtain acc s' used' unread' where r: "ring_run attach clear host ops s1 = Some (acc, s')" "rel s' used' unread'"
      "list_all ok (used' @ unread')" "given s' @ map buf (used' @ unread') = given s1 @ map buf ([] @ drop k unread @ acc)" by blast
    have "map buf (take k unread) @ map buf (drop k unread) = map buf unread" by (simp flip: map_append)
    then have "given s' @ map buf (used' @ unread') = given s @ map buf (used @ unread @ acc)" using r(4) s1(3) by simp
    then show ?thesis using r(1-3) s1(1) Op_Clear by auto
  next
    case Op_Host
    obtain k where k: "rel (host s) (used @ take k unread) (drop k unread)" "given (host s) = given s" using host_law [OF Cons.prems(1)] by blast
    have "list_all ok ((used @ take k unread) @ drop k unread)" using Cons.prems(2) by simp
    moreover have "(used @ take k unread) @ drop k unread @ acc = used @ unread @ acc" for acc by simp
    ultimately show ?thesis using Cons.IH [OF k(1) _ ops] unfolding k(2) Op_Host ring_run.simps by presburger
  qed
qed

end

section \<open>The rings of the firmware\<close>

definition attach_element :: "u8 \<Rightarrow> ring_element \<Rightarrow> ringif \<Rightarrow> (bool \<times> ringif) option" where
  "attach_element i e s = ringif_f2a_pkt_attach i (e_buf_start e) (e_buf e) (e_len e) (e_info e) s"

definition ring_with :: "ring_env \<Rightarrow> u8 \<Rightarrow> nat \<Rightarrow> ringif \<Rightarrow> ring_element list \<Rightarrow> ring_element list \<Rightarrow> bool" where
  "ring_with env i n s used unread \<longleftrightarrow> host_reads env i n \<and> f2a_rel i n s used unread"

lemma attach_element_law:
  "ring_with env i n s used unread \<Longrightarrow> packet e \<Longrightarrow>
   \<exists>b s'. attach_element i e s = Some (b, s') \<and> ring_with env i n s' used (unread @ (if b then [e] else [])) \<and> freed s' = freed s"
  using f2a_attach [of i n s used unread "e_buf e" "e_buf_start e" "e_len e" "e_info e"]
  by (cases e) (auto simp: attach_element_def packet_def ring_with_def split: if_splits)

lemma host_step_law:
  assumes "ring_with env i n s used unread"
  shows "\<exists>k. ring_with env i n (env_host env s) (used @ take k unread) (drop k unread) \<and> freed (env_host env s) = freed s"
proof -
  have h: "host_reads env i n" and r: "f2a_rel i n s used unread" using assms by (simp_all add: ring_with_def)
  from r have at: "f2a_at i (f2a s) n (ring_idx_to_clear (s_ctx (f2a s) ! unat i)) used unread" by (simp add: f2a_rel_def)
  from host_readsD [OF h at] obtain k where "f2a_at i (f2a (env_host env s)) n (ring_idx_to_clear (s_ctx (f2a s) ! unat i)) (used @ take k unread) (drop k unread)"
    "freed (env_host env s) = freed s" "s_ctx (f2a (env_host env s)) = s_ctx (f2a s)" by blast
  then show ?thesis using h r by (intro exI [of _ k]) (auto simp: ring_with_def f2a_rel_def)
qed

interpretation hfc_free: freeing ringif_clear_hfc_elem "\<lambda>_. True"
  by unfold_locales (simp add: ringif_clear_hfc_elem_def data_svc_free_hfc_data_buff_def free_memory_def has_buf_def)

interpretation ctrl_free: freeing ringif_clear_ctrl_elem "\<lambda>e. e_len e \<noteq> 0"
  by unfold_locales (simp add: ringif_clear_ctrl_elem_def ringif_free_ctrl_buf_def free_memory_def has_buf_def)

interpretation data_ring: packet_ring "ring_with env i n" "attach_element i" "ringif_f2a_clear_used_bufs env ringif_clear_hfc_elem i" "env_host env" freed e_buf_start packet
  for env i n
proof (unfold_locales, goal_cases)
  case (1 s used unread e)
  then show ?case by (rule attach_element_law)
next
  case (2 s used unread)
  then show ?case using hfc_free.clear_used_bufs_rel [of i n s used unread env] by (auto simp: ring_with_def)
next
  case (3 s used unread)
  then show ?case by (rule host_step_law)
qed

interpretation ctrl_ring: packet_ring "ring_with env i n" "attach_element i" "ringif_f2a_clear_used_bufs env ringif_clear_ctrl_elem i" "env_host env" freed e_buf_start
  "\<lambda>e. packet e \<and> e_len e \<noteq> 0"
  for env i n
proof (unfold_locales, goal_cases)
  case (1 s used unread e)
  then show ?case using attach_element_law by blast
next
  case (2 s used unread)
  then show ?case using ctrl_free.clear_used_bufs_rel [of i n s used unread env] by (auto simp: ring_with_def list_all_iff)
next
  case (3 s used unread)
  then show ?case by (rule host_step_law)
qed

section \<open>Creation, and a host that reads\<close>

lemma rotate_replicate_id: "rotate m (replicate n x) = replicate n x"
  by (rule nth_equalityI) (auto simp: nth_rotate)

lemma first_invalid_less: "first_invalid sd = Some k \<Longrightarrow> k < MAX_NUM_RINGS"
  by (auto simp: first_invalid_def find_Some_iff)

definition side_ok :: "ring_side \<Rightarrow> bool" where
  "side_ok sd \<longleftrightarrow> length (s_ctx sd) = MAX_NUM_RINGS \<and> length (s_stats sd) = MAX_NUM_RINGS \<and> MAX_NUM_RINGS \<le> length (s_index sd) \<and> MAX_NUM_RINGS \<le> length (s_outdex sd)"

text \<open>A new ring is empty, whatever the indices of the host were.\<close>

lemma create_f2a_empty:
  assumes "side_ok (f2a s)" and "first_invalid (f2a s) = Some k" and "env_malloc env s = Some p" and "2 \<le> unat num"
  shows "fst (ringif_create_f2a_ring env post sz num s) = of_nat k \<and> f2a_rel (of_nat k) (unat num) (snd (ringif_create_f2a_ring env post sz num s)) [] []"
proof -
  have k: "k < 8" "unat (of_nat k :: u8) = k" using first_invalid_less [OF assms(2)] by (simp_all add: unat_of_nat)
  define r where "r = (if s_outdex (f2a s) ! k < num then s_outdex (f2a s) ! k else 0)"
  have r: "unat r < unat num" using assms(4) by (auto simp: r_def word_less_nat_alt)
  let ?c = "(new_ctx k post sz num)\<lparr>ring_idx_to_clear := r\<rparr>"
  obtain sd where sd: "ringif_create_f2a_ring env post sz num s = (of_nat k, s\<lparr>f2a := clear_new_stats k sd\<rparr>)"
    "s_ctx sd = (s_ctx (f2a s))[k := ?c]" "s_stats sd = s_stats (f2a s)" "s_index sd = (s_index (f2a s))[k := r]"
    "length (s_outdex sd) = length (s_outdex (f2a s))" "s_outdex sd ! k = r"
    using assms k by (auto simp: ringif_create_f2a_ring_def Let_def upd_ctx_def r_def side_ok_def)
  have stats: "s_ctx (clear_new_stats k sd) = s_ctx sd" "s_index (clear_new_stats k sd) = s_index sd" "s_outdex (clear_new_stats k sd) = s_outdex sd"
    "length (s_stats (clear_new_stats k sd)) = length (s_stats sd)"
    by (simp_all add: clear_new_stats_def ringif_clear_ring_stats_def upd_stats_def)
  have "ring_wf (clear_new_stats k sd) (of_nat k) ?c (replicate (unat num) zero_element)"
    using assms(1,4) k sd stats by (simp add: ring_wf_def side_ok_def new_ctx_def)
  then have "f2a_at (of_nat k) (clear_new_stats k sd) (unat num) r [] []" unfolding f2a_at_def
    using sd(1,4,6) k r assms(1,4) stats by (intro exI [of _ ?c] exI [of _ "replicate (unat num) zero_element"] exI [of _ "replicate (unat num) zero_element"])
      (auto simp: rotate_replicate_id has_buf_def zero_element_def side_ok_def)
  moreover have "s_ctx (clear_new_stats k sd) ! k = ?c" using sd(2) stats(1) assms(1) k by (simp add: side_ok_def)
  ultimately show ?thesis using sd(1) k(2) by (simp add: f2a_rel_def new_ctx_def)
qed

text \<open>The host takes one element of a ring of \<open>n\<close> elements, if there is one.\<close>

definition host_take_one :: "u8 \<Rightarrow> nat \<Rightarrow> ringif \<Rightarrow> ringif" where
  "host_take_one i n s =
     (let r = s_outdex (f2a s) ! unat i in
      if r = s_index (f2a s) ! unat i then s
      else s\<lparr>f2a := (f2a s)\<lparr>s_outdex := (s_outdex (f2a s))[unat i := of_nat ((unat r + 1) mod n)]\<rparr>\<rparr>)"

lemma host_take_one_reads:
  assumes "env_host env = host_take_one i n"
  shows "host_reads env i n"
  unfolding host_reads_def assms
proof (intro allI impI)
  fix s :: ringif and clr used unread assume at: "f2a_at i (f2a s) n clr used unread"
  let ?r = "s_outdex (f2a s) ! unat i" and ?s = "host_take_one i n s"
  obtain c es free where w: "ring_wf (f2a s) i c es" "length es = n" and f: "unat clr < n" "rotate (unat clr) es = used @ unread @ free"
    "unat ?r = (unat clr + length used) mod n" "unat (s_index (f2a s) ! unat i) = (unat clr + length used + length unread) mod n" "length unread < n"
    "\<forall>e \<in> set free. \<not> has_buf e" "\<forall>e \<in> set (used @ unread). e_buf e \<noteq> 0 \<and> e_buf_start e \<noteq> 0" "used @ unread \<noteq> [] \<longrightarrow> ring_idx_clear_pending c = 1"
    using at by (auto simp: f2a_at_def)
  have "\<exists>k. f2a_at i (f2a ?s) n clr (used @ take k unread) (drop k unread)"
  proof (cases unread)
    case Nil
    then have "?s = s" using f(3,4) by (simp add: host_take_one_def Let_def word_unat_eq_iff)
    then show ?thesis using at Nil by simp
  next
    case (Cons x xs)
    have "?r \<noteq> s_index (f2a s) ! unat i"
    proof
      assume "?r = s_index (f2a s) ! unat i"
      then have "(unat clr + length used + 0) mod n = (unat clr + length used + length unread) mod n" using f(3,4) by simp
      from mod_offset_inj [OF this] show False using f(5) Cons by simp
    qed
    then have s: "?s = s\<lparr>f2a := (f2a s)\<lparr>s_outdex := (s_outdex (f2a s))[unat i := of_nat ((unat ?r + 1) mod n)]\<rparr>\<rparr>" by (simp add: host_take_one_def Let_def)
    have "unat (s_outdex (f2a ?s) ! unat i) = (unat clr + length (used @ [x])) mod n"
      using w unat_index [OF w(1), of "unat ?r + 1"] f(3) by (simp add: s ring_wf_def mod_Suc_eq)
    then have "f2a_at i (f2a ?s) n clr (used @ [x]) xs" unfolding f2a_at_def
      using ring_wf_set_idx(2) [OF w(1)] w(2) f(1,2,4-8) Cons by (intro exI [of _ c] exI [of _ es] exI [of _ free]) (simp add: s)
    then show ?thesis using Cons by (intro exI [of _ 1]) simp
  qed
  moreover have "freed ?s = freed s" "s_ctx (f2a ?s) = s_ctx (f2a s)" by (simp_all add: host_take_one_def Let_def)
  ultimately show "(\<exists>k. f2a_at i (f2a ?s) n clr (used @ take k unread) (drop k unread)) \<and> freed ?s = freed s \<and> s_ctx (f2a ?s) = s_ctx (f2a s)" by blast
qed

section \<open>The property\<close>

text \<open>
  C20: whatever sequence of packets, clearing and reads by the host, which reads also while the firmware clears, a ring to the host works as a bounded
  queue: every operation returns; the buffers given back followed by those still in the ring are those of the accepted packets in their order, none lost,
  repeated or freed before it was read; a packet is accepted exactly when there is room; and the interrupt handler sees exactly the elements to free.
\<close>

theorem f2a_ring_conserves_packets:
  assumes "host_reads env i n" and "f2a_rel i n s [] []" and "\<forall>e. Op_Attach e \<in> set ops \<longrightarrow> packet e"
  shows "\<exists>acc s' used unread.
    ring_run (attach_element i) (ringif_f2a_clear_used_bufs env ringif_clear_hfc_elem i) (env_host env) ops s = Some (acc, s') \<and>
    f2a_rel i n s' used unread \<and> freed s' @ map e_buf_start (used @ unread) = freed s @ map e_buf_start acc \<and>
    (\<forall>e. packet e \<longrightarrow> (\<exists>s''. attach_element i e s' = Some (length unread + 1 < n \<and> length used + length unread < n, s''))) \<and>
    ringif_f2a_num_elems_to_clear (f2a s') (ring_ctx_of (f2a s') i) = Some (of_nat (length used))"
proof -
  have "ring_with env i n s [] []" using assms(1,2) by (simp add: ring_with_def)
  from data_ring.run_conserves [OF this _ assms(3)] obtain acc s' used unread where
    r: "ring_run (attach_element i) (ringif_f2a_clear_used_bufs env ringif_clear_hfc_elem i) (env_host env) ops s = Some (acc, s')"
    "f2a_rel i n s' used unread" "freed s' @ map e_buf_start (used @ unread) = freed s @ map e_buf_start acc" by (auto simp: ring_with_def)
  moreover have "\<exists>s''. attach_element i e s' = Some (length unread + 1 < n \<and> length used + length unread < n, s'')" if "packet e" for e
    using f2a_attach [OF r(2), of "e_buf e" "e_buf_start e" "e_len e" "e_info e"] that by (auto simp: attach_element_def packet_def)
  ultimately show ?thesis using num_elems_to_clear_used [OF r(2)] by blast
qed

definition demo_ring_env :: ring_env where
  "demo_ring_env = \<lparr>env_host = host_take_one 0 4, env_malloc = (\<lambda>_. Some 100), env_ftm = False\<rparr>"

definition demo_event :: "nat \<Rightarrow> ring_element" where
  "demo_event a = \<lparr>e_buf = a + 4, e_len = 20, e_info = 0, e_buf_start = a\<rparr>"

definition demo_ring :: ringif where
  "demo_ring = snd (ringif_create_f2a_ring demo_ring_env Post_Hfc_F2A 12 4 ringif_reset)"

lemma reset_sides: "side_ok zero_side" "first_invalid zero_side = Some 0"
  by (simp_all add: side_ok_def zero_side_def first_invalid_def zero_ctx_def upt_rec)

lemma demo_ring_rel: "f2a_rel 0 4 demo_ring [] []"
  using create_f2a_empty [of ringif_reset 0 demo_ring_env 100 4 Post_Hfc_F2A 12] reset_sides by (simp add: demo_ring_def demo_ring_env_def ringif_reset_def)

theorem f2a_ring_conserves_packets_witness:
  "\<exists>acc s' used unread.
    ring_run (attach_element 0) (ringif_f2a_clear_used_bufs demo_ring_env ringif_clear_hfc_elem 0) (env_host demo_ring_env)
      [Op_Attach (demo_event 8), Op_Attach (demo_event 40), Op_Host, Op_Clear, Op_Attach (demo_event 80)] demo_ring = Some (acc, s') \<and>
    f2a_rel 0 4 s' used unread \<and> freed s' @ map e_buf_start (used @ unread) = freed demo_ring @ map e_buf_start acc"
proof -
  have h: "host_reads demo_ring_env 0 4" by (rule host_take_one_reads) (simp add: demo_ring_env_def)
  show ?thesis using f2a_ring_conserves_packets [OF h demo_ring_rel,
      of "[Op_Attach (demo_event 8), Op_Attach (demo_event 40), Op_Host, Op_Clear, Op_Attach (demo_event 80)]"]
    by (fastforce simp: packet_def demo_event_def)
qed

end
