(* ===== verification/RingA2f.thy ===== *)
theory RingA2f
  imports RingF2a
begin

text \<open>
  The data ring from the host to the firmware: the packets the host has written and the firmware has still to take (\<open>pend\<close>) are the elements from the read index
  on. An element without buffers, left by a failed allocation, is no packet.
\<close>

section \<open>Pending packets\<close>

definition a2f_rel :: "u8 \<Rightarrow> nat \<Rightarrow> ringif \<Rightarrow> ring_element list \<Rightarrow> bool" where
  "a2f_rel i n s pend \<longleftrightarrow>
     (\<exists>c es rest. ring_wf (a2f s) i c es \<and> length es = n \<and> unat (s_outdex (a2f s) ! unat i) < n \<and>
        rotate (unat (s_outdex (a2f s) ! unat i)) es = pend @ rest \<and>
        unat (s_index (a2f s) ! unat i) = (unat (s_outdex (a2f s) ! unat i) + length pend) mod n \<and> length pend < n)"

definition hfc_msg_of :: "ring_element \<Rightarrow> hfc_msg" where
  "hfc_msg_of e = \<lparr>m_id = ucast (e_info e), m_buf = e_buf_start e, m_data = e_buf e, m_len = e_len e\<rparr>"

definition msgs :: "ring_element list \<Rightarrow> hfc_msg list" where
  "msgs es = map hfc_msg_of (filter packet es)"

definition short :: "ring_element list \<Rightarrow> bool" where
  "short es \<longleftrightarrow> (\<forall>e \<in> set es. packet e \<longrightarrow> e_len e \<le> 1400)"

lemma msgs_simps [simp]: "msgs [] = []" "msgs (e # es) = (if packet e then [hfc_msg_of e] else []) @ msgs es" "msgs (es @ fs) = msgs es @ msgs fs"
  "\<not> packet zero_element"
  by (simp_all add: msgs_def packet_def zero_element_def)

lemma short_simps [simp]: "short []" "short (e # es) \<longleftrightarrow> (packet e \<longrightarrow> e_len e \<le> 1400) \<and> short es" "short (es @ fs) \<longleftrightarrow> short es \<and> short fs"
  by (auto simp: short_def)

text \<open>A host that appends packets that are not too long; what it appends is what it records. A host that stops sends no more than \<open>b\<close> elements in all.\<close>

definition host_appends :: "ring_env \<Rightarrow> u8 \<Rightarrow> nat \<Rightarrow> bool" where
  "host_appends env i n \<longleftrightarrow> (\<forall>s pend. a2f_rel i n s pend \<longrightarrow>
     (\<exists>new. a2f_rel i n (env_host env s) (pend @ new) \<and> short new \<and> host_sent (env_host env s) i = host_sent s i @ new) \<and>
     recv_queue (env_host env s) = recv_queue s \<and> s_outdex (a2f (env_host env s)) = s_outdex (a2f s))"

definition host_stops :: "ring_env \<Rightarrow> u8 \<Rightarrow> nat \<Rightarrow> bool" where
  "host_stops env i b \<longleftrightarrow> (\<forall>s. length (host_sent (env_host env s) i) \<le> max b (length (host_sent s i)))"

lemma host_appendsD:
  assumes "host_appends env i n" and "a2f_rel i n s pend"
  obtains new where "a2f_rel i n (env_host env s) (pend @ new)" "short new" "host_sent (env_host env s) i = host_sent s i @ new"
    "recv_queue (env_host env s) = recv_queue s" "s_outdex (a2f (env_host env s)) = s_outdex (a2f s)"
  using assms unfolding host_appends_def by blast

lemma a2f_rel_cong: "a2f s' = a2f s \<Longrightarrow> a2f_rel i n s' pend = a2f_rel i n s pend"
  by (simp add: a2f_rel_def)

text \<open>The packet at the read index is taken, or loses its buffer.\<close>

lemma a2f_take:
  assumes "a2f_rel i n s (e # pend)" and "ring_wf (a2f s) i c es"
  defines "r \<equiv> s_outdex (a2f s) ! unat i"
  shows "a2f_rel i n (s\<lparr>a2f := set_read_idx c (next_idx c r) (put_elem i r e' (a2f s))\<rparr>) pend"
    "s_outdex (set_read_idx c (next_idx c r) (put_elem i r e' (a2f s))) ! unat i = next_idx c r"
    "a2f_rel i n (s\<lparr>a2f := put_elem i r e' (a2f s)\<rparr>) (e' # pend)"
proof -
  obtain rest where len: "length es = n" and r: "unat r < n" "rotate (unat r) es = e # pend @ rest"
    and w: "unat (s_index (a2f s) ! unat i) = (unat r + length (e # pend)) mod n" "length (e # pend) < n"
    using assms(1,2) by (auto simp: a2f_rel_def ring_wf_def r_def)
  let ?es = "es[unat r := e']" and ?c = "c\<lparr>p_ring_base := Some (es[unat r := e'])\<rparr>" and ?sd = "put_elem i r e' (a2f s)"
  have rot: "rotate (unat r) ?es = e' # pend @ rest" using rotate_update [of 0 es "unat r" e'] len r by simp
  have wf: "ring_wf ?sd i ?c ?es" using ring_wf_put_elem [OF assms(2)] .
  show "a2f_rel i n (s\<lparr>a2f := ?sd\<rparr>) (e' # pend)" unfolding a2f_rel_def
    using wf len r(1) rot w by (intro exI [of _ ?c] exI [of _ ?es] exI [of _ rest]) (simp add: r_def)
  let ?r = "next_idx c r"
  have nr: "unat ?r = (unat r + 1) mod n" using unat_index [OF assms(2), of "unat r + 1"] ring_wf_access(5) [OF assms(2), of r] len by simp
  have sd: "set_read_idx c ?r ?sd = ?sd\<lparr>s_outdex := (s_outdex (a2f s))[unat i := ?r]\<rparr>" using assms(2) by (simp add: set_read_idx_def ring_wf_def)
  show o: "s_outdex (set_read_idx c ?r ?sd) ! unat i = ?r" using assms(2) sd by (simp add: ring_wf_def)
  have "rotate (Suc (unat r)) ?es = (pend @ rest) @ [e']" using rot by simp
  then have "rotate (unat ?r) ?es = pend @ rest @ [e']" using rotate_conv_mod [of "Suc (unat r)" ?es] len nr by simp
  moreover have "ring_wf (set_read_idx c ?r ?sd) i ?c ?es" using ring_wf_set_idx(2) [OF wf] by (simp add: sd)
  moreover have "(unat ?r + length pend) mod n = (unat r + length (e # pend)) mod n" using nr by (simp add: mod_simps)
  ultimately show "a2f_rel i n (s\<lparr>a2f := set_read_idx c ?r ?sd\<rparr>) pend" unfolding a2f_rel_def
    using len w o nr r(1) by (intro exI [of _ ?c] exI [of _ ?es] exI [of _ "rest @ [e']"]) (simp add: sd)
qed

section \<open>One pass\<close>

lemma a2f_head:
  assumes "a2f_rel i n s pend" and "ring_wf (a2f s) i c es"
  shows "write_idx (a2f s) c = Some (s_index (a2f s) ! unat i)" "s_outdex (a2f s) ! unat i = s_index (a2f s) ! unat i \<longleftrightarrow> pend = []"
    "pend = e # pend' \<Longrightarrow> elem_at c (s_outdex (a2f s) ! unat i) = Some e"
proof -
  let ?r = "s_outdex (a2f s) ! unat i"
  obtain rest where r: "length es = n" "unat ?r < n" "rotate (unat ?r) es = pend @ rest"
    "unat (s_index (a2f s) ! unat i) = (unat ?r + length pend) mod n" "length pend < n" using assms by (auto simp: a2f_rel_def ring_wf_def)
  show "write_idx (a2f s) c = Some (s_index (a2f s) ! unat i)" using ring_wf_access(2) [OF assms(2)] .
  show "?r = s_index (a2f s) ! unat i \<longleftrightarrow> pend = []" using r mod_offset_self [of "unat ?r" n "length pend"] by (auto simp: word_unat_eq_iff)
  show "elem_at c ?r = Some e" if "pend = e # pend'"
    using ring_wf_access(4) [OF assms(2), of ?r] r that nth_rotate_mod [of 0 es "unat ?r"] by (cases es) auto
qed

lemma process_hfc_ok:
  assumes "packet e \<longrightarrow> e_len e \<le> 1400"
  shows "(if e_buf e \<noteq> 0 \<and> e_buf_start e \<noteq> 0 then process_hfc_data_pkt e s else Some (True, s)) = Some (True, s\<lparr>recv_queue := recv_queue s @ msgs [e]\<rparr>)"
  using assms by (auto simp: packet_def process_hfc_data_pkt_def data_svc_hfc_queue_send_def hfc_msg_of_def msgs_def not_less)

lemma process_hfc_cases:
  "(if e_buf e \<noteq> 0 \<and> e_buf_start e \<noteq> 0 then process_hfc_data_pkt e s else Some (True, s)) = None \<or>
   (\<exists>q. (if e_buf e \<noteq> 0 \<and> e_buf_start e \<noteq> 0 then process_hfc_data_pkt e s else Some (True, s)) = Some (True, s\<lparr>recv_queue := q\<rparr>))"
proof (cases "packet e \<longrightarrow> e_len e \<le> 1400")
  case True
  from process_hfc_ok [OF this] show ?thesis by blast
next
  case False
  then show ?thesis by (simp add: packet_def process_hfc_data_pkt_def data_svc_hfc_queue_send_def not_le)
qed

text \<open>What a pass leaves: the packets handed over and those pending are the same as before, with what the host has recorded as sent.\<close>

definition pass_ok :: "u8 \<Rightarrow> nat \<Rightarrow> ringif \<Rightarrow> ring_element list \<Rightarrow> ring_element list \<Rightarrow> process_state \<Rightarrow> ring_element list \<Rightarrow> bool" where
  "pass_ok i n s pend new x pend' \<longleftrightarrow> (case x of (b, idx, m, k, s') \<Rightarrow>
     short pend' \<and> a2f_rel i n s' pend' \<and> idx = s_outdex (a2f s') ! unat i \<and> host_sent s' i = host_sent s i @ new \<and>
     recv_queue s' @ msgs pend' = recv_queue s @ msgs (pend @ new))"

lemma process_pass_hfc:
  fixes d :: bool and m k :: u8
  assumes rel: "a2f_rel i n s pend" and host: "host_appends env i n" and sh: "short pend" and idx: "idx = s_outdex (a2f s) ! unat i"
  defines "pass \<equiv> process_pass env process_hfc_data_pkt (ringif_refill_hfc_elem env) i (d, idx, m, k, s)"
  shows "\<exists>new pend' x. pass_ok i n s pend new x pend' \<and> host_sent (env_host env s) i = host_sent s i @ new \<and>
    (pass = Next x \<and> length pend' < length (pend @ new) \<or> pass = Stop x \<and> ((\<forall>s. env_malloc env s \<noteq> None) \<longrightarrow> pend' = []))"
proof -
  let ?s = "env_host env s"
  obtain new where new: "a2f_rel i n ?s (pend @ new)" "short new" "recv_queue ?s = recv_queue s" "s_outdex (a2f ?s) = s_outdex (a2f s)"
    "host_sent ?s i = host_sent s i @ new" using host_appendsD [OF host rel] by metis
  then obtain c es where w: "ring_wf (a2f ?s) i c es" by (auto simp: a2f_rel_def)
  note head = a2f_head [OF new(1) w] and acc = ring_wf_access [OF w]
  have idx: "idx = s_outdex (a2f ?s) ! unat i" using idx new(4) by simp
  have short: "short (pend @ new)" using sh new(2) by simp
  show ?thesis
  proof (cases "pend @ new")
    case Nil
    then have "pass = Stop (True, idx, m, k, ?s)" using head acc idx by (simp add: pass_def process_pass_def Let_def)
    moreover have "pass_ok i n s pend new (True, idx, m, k, ?s) []" using Nil new idx by (simp add: pass_ok_def)
    ultimately show ?thesis using new(5) by blast
  next
    case (Cons e tl)
    define t where "t = ?s\<lparr>recv_queue := recv_queue ?s @ msgs [e]\<rparr>"
    have t: "a2f t = a2f ?s" "recv_queue t = recv_queue s @ msgs [e]" "host_sent t i = host_sent s i @ new" using new(3,5) by (simp_all add: t_def)
    have e: "elem_at c idx = Some e" "idx \<noteq> s_index (a2f ?s) ! unat i" using head(2,3) Cons idx by auto
    have relt: "a2f_rel i n t (e # tl)" "ring_wf (a2f t) i c es" using new(1) Cons w by (simp_all add: a2f_rel_def t(1))
    have idxt: "s_outdex (a2f t) ! unat i = idx" using idx t(1) by simp
    have pr: "(if e_buf e \<noteq> 0 \<and> e_buf_start e \<noteq> 0 then process_hfc_data_pkt e ?s else Some (True, ?s)) = Some (True, t)"
      using process_hfc_ok [of e ?s] short Cons by (simp add: t_def)
    note take = a2f_take [OF relt, unfolded idxt]
    have sh: "short tl" "recv_queue t @ msgs tl = recv_queue s @ msgs (pend @ new)" using short Cons t(2) by simp_all
    show ?thesis
    proof (cases "env_malloc env t")
      case None
      let ?s' = "t\<lparr>a2f := put_elem i idx zero_element (a2f t)\<rparr>"
      have "pass = Stop (True, idx, m + 1, k, ?s')" unfolding pass_def process_pass_def using pr e head(1) acc None
        by (simp add: Let_def ringif_refill_hfc_elem_def data_svc_get_hfc_data_buff_def)
      moreover have "pass_ok i n s pend new (True, idx, m + 1, k, ?s') (zero_element # tl)" unfolding pass_ok_def
        using take(3) [of zero_element] sh idxt t(3) by simp
      ultimately show ?thesis using new(5) None by blast
    next
      case (Some p)
      let ?e = "zero_element\<lparr>e_buf := p, e_buf_start := p, e_len := 1600\<rparr>"
      let ?s' = "t\<lparr>a2f := set_read_idx c (next_idx c idx) (put_elem i idx ?e (a2f t))\<rparr>"
      have "pass = Next (True, next_idx c idx, m + 1, k + 1, ?s')" unfolding pass_def process_pass_def using pr e head(1) acc Some
        by (simp add: Let_def ringif_refill_hfc_elem_def data_svc_get_hfc_data_buff_def)
      moreover have "pass_ok i n s pend new (True, next_idx c idx, m + 1, k + 1, ?s') tl" unfolding pass_ok_def using take(1,2) [of ?e] sh t(3) by simp
      moreover have "length tl < length (pend @ new)" using Cons by simp
      ultimately show ?thesis using new(5) by blast
    qed
  qed
qed

section \<open>The loop\<close>

lemma process_loop_invariant:
  assumes "process_loop env process refill i x = Some y" and "Q x"
    and "\<And>x z. Q x \<Longrightarrow> process_pass env process refill i x = Next z \<Longrightarrow> Q z" and "\<And>x z. Q x \<Longrightarrow> process_pass env process refill i x = Stop z \<Longrightarrow> R z"
  shows "R y"
proof -
  let ?P = "\<lambda>env' process' refill' i' x y. env' = env \<longrightarrow> process' = process \<longrightarrow> refill' = refill \<longrightarrow> i' = i \<longrightarrow> Q x \<longrightarrow> R y"
  have "?P env process refill i x y"
    by (rule process_loop.raw_induct [of ?P "((((env, process), refill), i), x)" y, unfolded prod.case, OF _ assms(1)])
      (auto split: pass.splits dest: assms(3,4))
  then show ?thesis using assms(2) by simp
qed

lemma pass_ok_trans:
  "pass_ok i n s pend new (d, idx, m, k, t) pend' \<Longrightarrow> pass_ok i n t pend' new' y pend'' \<Longrightarrow> pass_ok i n s pend (new @ new') y pend''"
  by (auto simp: pass_ok_def split: prod.splits)

lemma process_loop_conserves:
  assumes "process_loop env process_hfc_data_pkt (ringif_refill_hfc_elem env) i (d, s_outdex (a2f s) ! unat i, m, k, s) = Some y"
    and host: "host_appends env i n" and "a2f_rel i n s pend" and "short pend"
  shows "\<exists>new pend'. pass_ok i n s pend new y pend'"
proof (rule process_loop_invariant [OF assms(1), where Q = "\<lambda>x. \<exists>new pend'. pass_ok i n s pend new x pend'"])
  show "\<exists>new pend'. pass_ok i n s pend new (d, s_outdex (a2f s) ! unat i, m, k, s) pend'"
    using assms(3,4) by (intro exI [of _ "[]"] exI [of _ pend]) (simp add: pass_ok_def)
next
  have step: "\<exists>new pend'. pass_ok i n s pend new z pend'" if x: "\<exists>new pend'. pass_ok i n s pend new x pend'"
    and z: "process_pass env process_hfc_data_pkt (ringif_refill_hfc_elem env) i x \<in> {Next z, Stop z}" for x z
  proof -
    obtain new pend' where p: "pass_ok i n s pend new x pend'" using x by blast
    obtain d' idx' m' k' t where x: "x = (d', idx', m', k', t)" by (cases x)
    then have t: "a2f_rel i n t pend'" "short pend'" "idx' = s_outdex (a2f t) ! unat i" using p by (simp_all add: pass_ok_def)
    obtain new' pend'' y where y: "pass_ok i n t pend' new' y pend''" "process_pass env process_hfc_data_pkt (ringif_refill_hfc_elem env) i x \<in> {Next y, Stop y}"
      using process_pass_hfc [OF t(1) host t(2,3), of d' m' k'] unfolding x by blast
    then have "pass_ok i n t pend' new' z pend''" using z by auto
    then show ?thesis using pass_ok_trans p x by blast
  qed
  show "\<exists>new pend'. pass_ok i n s pend new z pend'"
    if "\<exists>new pend'. pass_ok i n s pend new x pend'" "process_pass env process_hfc_data_pkt (ringif_refill_hfc_elem env) i x = Next z" for x z
    using step [OF that(1)] that(2) by blast
  show "\<exists>new pend'. pass_ok i n s pend new z pend'"
    if "\<exists>new pend'. pass_ok i n s pend new x pend'" "process_pass env process_hfc_data_pkt (ringif_refill_hfc_elem env) i x = Stop z" for x z
    using step [OF that(1)] that(2) by blast
qed

lemma process_loop_returns:
  assumes host: "host_appends env i n" and stops: "host_stops env i b" and "a2f_rel i n s pend" and "short pend"
  shows "\<exists>y new pend'. process_loop env process_hfc_data_pkt (ringif_refill_hfc_elem env) i (d, s_outdex (a2f s) ! unat i, m, k, s) = Some y \<and>
    pass_ok i n s pend new y pend' \<and> ((\<forall>s. env_malloc env s \<noteq> None) \<longrightarrow> pend' = [])"
  using assms(3,4)
proof (induction "length pend + (b - length (host_sent s i))" arbitrary: pend d m k s rule: less_induct)
  case less
  let ?x = "(d, s_outdex (a2f s) ! unat i, m, k, s)"
  let ?pass = "process_pass env process_hfc_data_pkt (ringif_refill_hfc_elem env) i ?x"
  let ?loop = "process_loop env process_hfc_data_pkt (ringif_refill_hfc_elem env) i"
  note simps = process_loop.simps [of env process_hfc_data_pkt "ringif_refill_hfc_elem env" i ?x]
  from process_pass_hfc [OF less.prems(1) host less.prems(2) refl, of d m k] obtain new pend' x where
    p: "pass_ok i n s pend new x pend'" "host_sent (env_host env s) i = host_sent s i @ new"
    "?pass = Next x \<and> length pend' < length (pend @ new) \<or> ?pass = Stop x \<and> ((\<forall>s. env_malloc env s \<noteq> None) \<longrightarrow> pend' = [])" by blast
  from p(3) show ?case
  proof
    assume "?pass = Stop x \<and> ((\<forall>s. env_malloc env s \<noteq> None) \<longrightarrow> pend' = [])"
    then show ?case using p(1) simps by fastforce
  next
    assume n: "?pass = Next x \<and> length pend' < length (pend @ new)"
    obtain d' idx' m' k' s' where x: "x = (d', idx', m', k', s')" by (cases x)
    then have s': "short pend'" "a2f_rel i n s' pend'" "idx' = s_outdex (a2f s') ! unat i" "host_sent s' i = host_sent s i @ new"
      using p(1) by (simp_all add: pass_ok_def)
    have "length (host_sent s i @ new) \<le> max b (length (host_sent s i))" using stops p(2) unfolding host_stops_def by metis
    then have "length pend' + (b - length (host_sent s' i)) < length pend + (b - length (host_sent s i))" using n unfolding s'(4) by auto
    from less.hyps [OF this s'(2,1)] obtain y new' pend'' where "?loop x = Some y" "pass_ok i n s' pend' new' y pend''"
      "(\<forall>s. env_malloc env s \<noteq> None) \<longrightarrow> pend'' = []" using x s'(3) by blast
    moreover have "?loop ?x = ?loop x" using n simps by simp
    ultimately show ?case using pass_ok_trans p(1) x by metis
  qed
qed

section \<open>The end of a call\<close>

lemma a2f_stats:
  assumes "\<And>s. a2f s = sd \<Longrightarrow> a2f_rel i n s pend"
  shows "\<exists>sd'. upd_stats i f sd = Some sd' \<and> (\<forall>s. a2f s = sd' \<longrightarrow> a2f_rel i n s pend)"
proof -
  have "a2f_rel i n (ringif_reset\<lparr>a2f := sd\<rparr>) pend" using assms by simp
  then have "unat i < length (s_stats sd)" by (auto simp: a2f_rel_def ring_wf_def)
  moreover have "a2f_rel i n s pend" if "a2f s = sd\<lparr>s_stats := (s_stats sd)[unat i := f (s_stats sd ! unat i)]\<rparr>" for s
    using assms [of "s\<lparr>a2f := sd\<rparr>"] that by (simp add: a2f_rel_def ring_wf_def)
  ultimately show ?thesis by (simp add: upd_stats_def)
qed

lemma a2f_stats_if:
  assumes "\<And>s. a2f s = sd \<Longrightarrow> a2f_rel i n s pend"
  shows "\<exists>sd'. (if p then upd_stats i f sd else Some sd) = Some sd' \<and> (\<forall>s. a2f s = sd' \<longrightarrow> a2f_rel i n s pend)"
  using a2f_stats [OF assms, where f = f] assms by (cases p) simp_all

lemma process_end_ok:
  assumes "pass_ok i n s pend new x pend'"
  shows "\<exists>num s'. process_end i x = Some (num, s') \<and> a2f_rel i n s' pend' \<and> host_sent s' i = host_sent s i @ new \<and>
    recv_queue s' @ msgs pend' = recv_queue s @ msgs (pend @ new)"
proof -
  obtain b idx m k t where x: "x = (b, idx, m, k, t)" by (cases x)
  then have t: "a2f_rel i n t pend'" "recv_queue t @ msgs pend' = recv_queue s @ msgs (pend @ new)" "host_sent t i = host_sent s i @ new" using assms by (simp_all add: pass_ok_def)
  have good: "\<And>s. a2f s = a2f t \<Longrightarrow> a2f_rel i n s pend'" using t(1) a2f_rel_cong by blast
  let ?u = "\<not> b \<or> k < m"
  obtain sd1 where 1: "(if ?u \<and> \<not> b then ringif_stats_detach_fail i 1 (a2f t) else Some (a2f t)) = Some sd1" "\<forall>s. a2f s = sd1 \<longrightarrow> a2f_rel i n s pend'"
    using a2f_stats_if [OF good] unfolding stats_defs by blast
  obtain sd2 where 2: "(if ?u \<and> k < m then ringif_stats_attach_fail i (m - k) sd1 else Some sd1) = Some sd2" "\<forall>s. a2f s = sd2 \<longrightarrow> a2f_rel i n s pend'"
    using a2f_stats_if [of sd1 i n pend'] 1(2) unfolding stats_defs by blast
  obtain sd3 where 3: "ringif_stats_detach_succ i m sd2 = Some sd3" "\<forall>s. a2f s = sd3 \<longrightarrow> a2f_rel i n s pend'"
    using a2f_stats [of sd2 i n pend'] 2(2) unfolding stats_defs by blast
  obtain sd4 where 4: "ringif_stats_attach_succ i k sd3 = Some sd4" "\<forall>s. a2f s = sd4 \<longrightarrow> a2f_rel i n s pend'"
    using a2f_stats [of sd3 i n pend'] 3(2) unfolding stats_defs by blast
  have "process_end i x = Some (m, snd (ringif_indicate_to_host (t\<lparr>a2f := sd4, timer_on := timer_on t \<or> ?u\<rparr>)))"
    unfolding process_end_def x prod.case Let_def 1(1) option.case 2(1) 3(1) 4(1) by simp
  then show ?thesis using 4(2) t(2,3) by (simp add: ringif_indicate_to_host_def)
qed

section \<open>An index that is not checked\<close>

text \<open>
  A write index outside of the ring, which the test for an empty ring refuses, keeps the loop from ending: it goes round the ring, past elements the host has
  not filled, until an assertion fails, or for ever.
\<close>

lemma corrupt_index_never_returns:
  assumes "ring_wf (a2f s) i c es" and "length es \<le> unat (s_index (a2f s) ! unat i)" and "unat (s_outdex (a2f s) ! unat i) < length es"
    and "\<And>s. env_host env s = s" and "\<And>s. env_malloc env s \<noteq> None"
  shows "ringif_ring_empty (a2f s) (Some c) \<and> ringif_a2f_process_pkts env process_hfc_data_pkt (ringif_refill_hfc_elem env) i s = None"
proof
  note acc = ring_wf_access [OF assms(1)]
  show "ringif_ring_empty (a2f s) (Some c)" using acc assms(2) by (simp add: ringif_ring_empty_def)
  define Q where "Q x \<longleftrightarrow> (case x of (d, idx, m, k, t) \<Rightarrow> \<exists>c es. ring_wf (a2f t) i c es \<and> unat idx < length es \<and> length es \<le> unat (s_index (a2f t) ! unat i))" for x :: process_state
  have step: "\<exists>z. process_pass env process_hfc_data_pkt (ringif_refill_hfc_elem env) i x = Next z \<and> Q z \<or>
      process_pass env process_hfc_data_pkt (ringif_refill_hfc_elem env) i x = Fault" if "Q x" for x
  proof -
    obtain d idx m k t where x: "x = (d, idx, m, k, t)" by (cases x)
    then obtain c es where w: "ring_wf (a2f t) i c es" "unat idx < length es" "length es \<le> unat (s_index (a2f t) ! unat i)" using \<open>Q x\<close> by (auto simp: Q_def)
    note ac = ring_wf_access [OF w(1)]
    have ne: "idx \<noteq> s_index (a2f t) ! unat i" using w(2,3) by auto
    let ?e = "es ! unat idx"
    have "\<exists>q. env_malloc env t' = Some q" for t' using assms(5) [of t'] by blast
    then obtain p where p: "\<And>t'. env_malloc env t' = Some (p t')" by metis
    define u where "u = (if e_buf ?e \<noteq> 0 \<and> e_buf_start ?e \<noteq> 0 then process_hfc_data_pkt ?e t else Some (True, t))"
    consider "u = None" | q where "u = Some (True, t\<lparr>recv_queue := q\<rparr>)" using process_hfc_cases [of ?e t, folded u_def] by blast
    then show ?thesis
    proof cases
      case 1
      then show ?thesis using x ac w(2) ne assms(4) by (simp add: process_pass_def Let_def u_def)
    next
      case (2 q)
      let ?t = "t\<lparr>recv_queue := q\<rparr>"
      let ?n = "zero_element\<lparr>e_buf := p ?t, e_buf_start := p ?t, e_len := 1600\<rparr>"
      let ?sd = "set_read_idx c (next_idx c idx) (put_elem i idx ?n (a2f t))"
      have "process_pass env process_hfc_data_pkt (ringif_refill_hfc_elem env) i x = Next (True, next_idx c idx, m + 1, k + 1, ?t\<lparr>a2f := ?sd\<rparr>)"
        using 2 x ac w(2) ne assms(4) p by (simp add: u_def process_pass_def Let_def ringif_refill_hfc_elem_def data_svc_get_hfc_data_buff_def)
      moreover have "ring_wf ?sd i (c\<lparr>p_ring_base := Some (es[unat idx := ?n])\<rparr>) (es[unat idx := ?n])" "s_index ?sd = s_index (a2f t)"
        using ring_wf_set_idx(2) [OF ring_wf_put_elem [OF w(1), of idx ?n]] w(1) by (simp_all add: set_read_idx_def ring_wf_def)
      moreover have "unat (next_idx c idx) < length es" unfolding ac(5) unat_index [OF w(1)] using w(2) by (intro mod_less_divisor) linarith
      ultimately show ?thesis using w(3) by (fastforce simp: Q_def)
    qed
  qed
  have "process_loop env process_hfc_data_pkt (ringif_refill_hfc_elem env) i (True, s_outdex (a2f s) ! unat i, 0, 0, s\<lparr>timer_on := False\<rparr>) = None"
  proof (rule ccontr)
    assume "process_loop env process_hfc_data_pkt (ringif_refill_hfc_elem env) i (True, s_outdex (a2f s) ! unat i, 0, 0, s\<lparr>timer_on := False\<rparr>) \<noteq> None"
    then obtain y where y: "process_loop env process_hfc_data_pkt (ringif_refill_hfc_elem env) i (True, s_outdex (a2f s) ! unat i, 0, 0, s\<lparr>timer_on := False\<rparr>) = Some y" by blast
    show False
    proof (rule process_loop_invariant [OF y, where Q = Q and R = "\<lambda>_. False"])
      show "Q (True, s_outdex (a2f s) ! unat i, 0, 0, s\<lparr>timer_on := False\<rparr>)" using assms(1-3) by (auto simp: Q_def)
      show "Q z" if "Q x" "process_pass env process_hfc_data_pkt (ringif_refill_hfc_elem env) i x = Next z" for x z using step [OF that(1)] that(2) by auto
      show False if "Q x" "process_pass env process_hfc_data_pkt (ringif_refill_hfc_elem env) i x = Stop z" for x z using step [OF that(1)] that(2) by auto
    qed
  qed
  moreover have "s_outdex (a2f s) ! unat i \<noteq> s_index (a2f s) ! unat i" using assms(2,3) by auto
  ultimately show "ringif_a2f_process_pkts env process_hfc_data_pkt (ringif_refill_hfc_elem env) i s = None"
    using acc by (simp add: ringif_a2f_process_pkts_def)
qed

section \<open>A host\<close>

text \<open>
  A host that sends one packet: it fills the buffer it finds at its write index and moves on, unless the ring is full or the element has no buffer to fill.
\<close>

definition host_send :: "u8 \<Rightarrow> u16 \<Rightarrow> u16 \<Rightarrow> ringif \<Rightarrow> ringif" where
  "host_send i len info s =
     (case ring_ctx_of (a2f s) i of
        None \<Rightarrow> s
      | Some c \<Rightarrow>
     (case write_idx (a2f s) c of
        None \<Rightarrow> s
      | Some w \<Rightarrow>
     (case elem_at c w of
        None \<Rightarrow> s
      | Some e \<Rightarrow>
          if ringif_ring_full (a2f s) (Some c) \<or> e_buf e = 0 then s
          else
            let e = e\<lparr>e_len := len, e_info := info\<rparr> in
            s\<lparr>a2f := set_write_idx c (next_idx c w) (put_elem i w e (a2f s)), host_sent := (host_sent s)(i := host_sent s i @ [e])\<rparr>)))"

text \<open>The ring from the read index on: the pending elements and the others.\<close>

definition a2f_parts :: "u8 \<Rightarrow> nat \<Rightarrow> ringif \<Rightarrow> ring_element list \<Rightarrow> ring_element list \<Rightarrow> bool" where
  "a2f_parts i n s pend free \<longleftrightarrow>
     (\<exists>c es. ring_wf (a2f s) i c es \<and> length es = n \<and> unat (s_outdex (a2f s) ! unat i) < n \<and>
        rotate (unat (s_outdex (a2f s) ! unat i)) es = pend @ free \<and>
        unat (s_index (a2f s) ! unat i) = (unat (s_outdex (a2f s) ! unat i) + length pend) mod n \<and> free \<noteq> [])"

lemma a2f_rel_parts: "a2f_rel i n s pend \<longleftrightarrow> (\<exists>free. a2f_parts i n s pend free)"
proof -
  have "length pend < length es \<longleftrightarrow> rest \<noteq> []" if "rotate m es = pend @ rest" for m es rest
  proof -
    have "length es = length pend + length rest" using that by (metis length_append length_rotate)
    then show ?thesis by auto
  qed
  then show ?thesis unfolding a2f_rel_def a2f_parts_def by blast
qed

lemma a2f_partsE:
  assumes "a2f_parts i n s pend free"
  obtains c es where "ring_wf (a2f s) i c es" "length es = n" "unat (s_outdex (a2f s) ! unat i) < n"
    "rotate (unat (s_outdex (a2f s) ! unat i)) es = pend @ free"
    "unat (s_index (a2f s) ! unat i) = (unat (s_outdex (a2f s) ! unat i) + length pend) mod n" "free \<noteq> []" "n = length pend + length free"
proof -
  obtain c es where p: "ring_wf (a2f s) i c es" "length es = n" "unat (s_outdex (a2f s) ! unat i) < n"
    "rotate (unat (s_outdex (a2f s) ! unat i)) es = pend @ free"
    "unat (s_index (a2f s) ! unat i) = (unat (s_outdex (a2f s) ! unat i) + length pend) mod n" "free \<noteq> []" using assms by (auto simp: a2f_parts_def)
  have "n = length pend + length free" using p(2,4) by (metis length_append length_rotate)
  then show thesis using that p by blast
qed

lemma parts_full:
  assumes "a2f_parts i n s pend free" and "ring_wf (a2f s) i c es"
  shows "ringif_ring_full (a2f s) (Some c) \<longleftrightarrow> length free = 1"
proof -
  obtain es' where p: "length es = n" "unat (s_outdex (a2f s) ! unat i) < n"
    "unat (s_index (a2f s) ! unat i) = (unat (s_outdex (a2f s) ! unat i) + length pend) mod n" "free \<noteq> []" "n = length pend + length free"
    using a2f_partsE [OF assms(1)] assms(2) by (auto simp: ring_wf_def)
  let ?r = "unat (s_outdex (a2f s) ! unat i)"
  have "(?r + (length pend + 1)) mod n = ?r \<longleftrightarrow> length free = 1"
    using mod_offset_self [OF p(2), of "length pend + 1"] p(4,5) by (cases free) auto
  moreover have "\<not> n \<le> k mod n" for k using p(2) by (simp add: not_le)
  ultimately show ?thesis
    using ring_wf_access [OF assms(2)] p assms(2) unfolding ringif_ring_full_def by (auto simp: mod_Suc_eq ring_wf_def)
qed

lemma host_send_sent:
  assumes "a2f_parts i n s pend (e # free)" and "free \<noteq> []" and "e_buf e \<noteq> 0"
  shows "a2f_parts i n (host_send i len info s) (pend @ [e\<lparr>e_len := len, e_info := info\<rparr>]) free \<and>
    host_sent (host_send i len info s) i = host_sent s i @ [e\<lparr>e_len := len, e_info := info\<rparr>]"
proof -
  obtain c es where p: "ring_wf (a2f s) i c es" "length es = n" "unat (s_outdex (a2f s) ! unat i) < n"
    "rotate (unat (s_outdex (a2f s) ! unat i)) es = pend @ e # free"
    "unat (s_index (a2f s) ! unat i) = (unat (s_outdex (a2f s) ! unat i) + length pend) mod n" "n = length pend + length (e # free)"
    using a2f_partsE [OF assms(1)] by metis
  note acc = ring_wf_access [OF p(1)]
  let ?r = "unat (s_outdex (a2f s) ! unat i)" and ?w = "s_index (a2f s) ! unat i" and ?e = "e\<lparr>e_len := len, e_info := info\<rparr>"
  let ?es = "es[unat ?w := ?e]" and ?c = "c\<lparr>p_ring_base := Some (es[unat ?w := ?e])\<rparr>" and ?sd = "put_elem i ?w ?e (a2f s)"
  have lt: "length pend < length es" "unat ?w < length es" using p(2,3,5,6) by (simp_all add: mod_less_divisor)
  have "es ! unat ?w = e" using nth_rotate_mod [OF lt(1), of ?r] p(2,4,5) by simp
  moreover have "\<not> ringif_ring_full (a2f s) (Some c)" using parts_full [OF assms(1) p(1)] assms(2) by simp
  ultimately have s: "host_send i len info s = s\<lparr>a2f := set_write_idx c (next_idx c ?w) ?sd, host_sent := (host_sent s)(i := host_sent s i @ [?e])\<rparr>"
    using acc(1,2,4) lt(2) assms(3) by (simp add: host_send_def Let_def)
  have sd: "set_write_idx c (next_idx c ?w) ?sd = ?sd\<lparr>s_index := (s_index (a2f s))[unat i := next_idx c ?w]\<rparr>"
    using p(1) by (simp add: set_write_idx_def ring_wf_def)
  have "rotate ?r ?es = pend @ ?e # free" using rotate_update [OF lt(1), of ?r ?e] p(2,4,5) by (simp add: list_update_append)
  moreover have "unat (next_idx c ?w) = (?r + length (pend @ [?e])) mod n"
    using unat_index [OF p(1)] acc(5) p(2,5) by (simp add: mod_Suc_eq)
  moreover have "unat i < length (s_index (a2f s))" using p(1) by (simp add: ring_wf_def)
  ultimately have "a2f_parts i n (host_send i len info s) (pend @ [?e]) free" unfolding a2f_parts_def
    using ring_wf_set_idx(1) [OF ring_wf_put_elem [OF p(1), of ?w ?e]] p(2,3) assms(2) by (intro exI [of _ ?c] exI [of _ ?es]) (simp add: s sd)
  then show ?thesis by (simp add: s)
qed

lemma host_send_waits:
  assumes "a2f_parts i n s pend (e # free)" and "free = [] \<or> e_buf e = 0"
  shows "host_send i len info s = s"
proof -
  obtain c es where p: "ring_wf (a2f s) i c es" "length es = n" "unat (s_outdex (a2f s) ! unat i) < n"
    "rotate (unat (s_outdex (a2f s) ! unat i)) es = pend @ e # free"
    "unat (s_index (a2f s) ! unat i) = (unat (s_outdex (a2f s) ! unat i) + length pend) mod n" "n = length pend + length (e # free)"
    using a2f_partsE [OF assms(1)] by metis
  have lt: "length pend < length es" using p(2,6) by simp
  have "es ! unat (s_index (a2f s) ! unat i) = e" using nth_rotate_mod [OF lt, of "unat (s_outdex (a2f s) ! unat i)"] p(2,4,5) by simp
  then show ?thesis
    using assms(2) parts_full [OF assms(1) p(1)] ring_wf_access(1,2,4) [OF p(1)] by (auto simp: host_send_def Let_def split: if_splits)
qed

lemma host_send_frame [simp]:
  "recv_queue (host_send i len info s) = recv_queue s" "s_outdex (a2f (host_send i len info s)) = s_outdex (a2f s)"
  by (simp_all add: host_send_def set_write_idx_def Let_def split: option.split)

lemma host_send_appends:
  assumes "a2f_rel i n s pend" and "len \<le> 1400"
  shows "\<exists>new. a2f_rel i n (host_send i len info s) (pend @ new) \<and> short new \<and> host_sent (host_send i len info s) i = host_sent s i @ new \<and> length new \<le> 1"
proof -
  obtain e free where p: "a2f_parts i n s pend (e # free)"
    using assms(1) unfolding a2f_rel_parts by (metis a2f_partsE neq_Nil_conv)
  show ?thesis
  proof (cases "free = [] \<or> e_buf e = 0")
    case True
    then show ?thesis using host_send_waits [OF p] assms(1) by (intro exI [of _ "[]"]) simp
  next
    case False
    let ?e = "e\<lparr>e_len := len, e_info := info\<rparr>"
    show ?thesis using host_send_sent [OF p, of len info] False assms(2) by (intro exI [of _ "[?e]"]) (auto simp: a2f_rel_parts)
  qed
qed

text \<open>It sends as long as it has sent fewer than \<open>b\<close> packets.\<close>

definition host_sends_upto :: "nat \<Rightarrow> u8 \<Rightarrow> u16 \<Rightarrow> u16 \<Rightarrow> ringif \<Rightarrow> ringif" where
  "host_sends_upto b i len info s = (if length (host_sent s i) < b then host_send i len info s else s)"

lemma host_sends_upto_ok:
  assumes "env_host env = host_sends_upto b i len info" and "len \<le> 1400"
  shows "host_appends env i n" and "host_stops env i b"
proof -
  have "\<exists>new. a2f_rel i n (host_sends_upto b i len info s) (pend @ new) \<and> short new \<and> host_sent (host_sends_upto b i len info s) i = host_sent s i @ new"
    if "a2f_rel i n s pend" for s pend
  proof (cases "length (host_sent s i) < b")
    case True
    then show ?thesis using host_send_appends [OF that assms(2), of info] unfolding host_sends_upto_def by auto
  next
    case False
    then show ?thesis using that by (intro exI [of _ "[]"]) (simp add: host_sends_upto_def)
  qed
  then show "host_appends env i n" unfolding host_appends_def assms(1) by (simp add: host_sends_upto_def)
  have "length (host_sent (host_send i len info s) i) \<le> Suc (length (host_sent s i))" for s
    by (simp add: host_send_def Let_def split: option.split)
  then show "host_stops env i b" unfolding host_stops_def assms(1) host_sends_upto_def by (auto simp: less_eq_Suc_le intro: le_trans)
qed

section \<open>The property\<close>

text \<open>
  C36: a call that takes the packets of the data ring, none of them longer than the 1400 bytes that the code asserts, hands each one to the application exactly
  once and in order, over failed allocations and over packets the host sends meanwhile: the packets handed over, followed by those still pending in the ring, are
  those handed over and pending before, followed by those the host has recorded as sent during the call. The call returns when the host does not send for ever, and with
  enough memory nothing is then left pending.
\<close>

theorem a2f_packets_delivered_once:
  assumes "host_appends env i n" and "a2f_rel i n s pend" and "short pend"
  shows "(\<forall>num s'. ringif_a2f_process_pkts env process_hfc_data_pkt (ringif_refill_hfc_elem env) i s = Some (num, s') \<longrightarrow>
      (\<exists>new pend'. host_sent s' i = host_sent s i @ new \<and> a2f_rel i n s' pend' \<and> recv_queue s' @ msgs pend' = recv_queue s @ msgs (pend @ new))) \<and>
    (host_stops env i b \<longrightarrow>
      (\<exists>num s'. ringif_a2f_process_pkts env process_hfc_data_pkt (ringif_refill_hfc_elem env) i s = Some (num, s') \<and>
         ((\<forall>s. env_malloc env s \<noteq> None) \<longrightarrow> a2f_rel i n s' [] \<and>
           (\<exists>new. host_sent s' i = host_sent s i @ new \<and> recv_queue s' = recv_queue s @ msgs (pend @ new)))))"
proof -
  obtain c es where w: "ring_wf (a2f s) i c es" using assms(2) by (auto simp: a2f_rel_def)
  note acc = ring_wf_access [OF w] and head = a2f_head [OF assms(2) w]
  let ?s = "s\<lparr>timer_on := False\<rparr>" and ?loop = "process_loop env process_hfc_data_pkt (ringif_refill_hfc_elem env) i"
  let ?x = "(True, s_outdex (a2f ?s) ! unat i, 0, 0, ?s)" and ?call = "ringif_a2f_process_pkts env process_hfc_data_pkt (ringif_refill_hfc_elem env) i s"
  have rel: "a2f_rel i n ?s pend" using assms(2) by (simp add: a2f_rel_def)
  show ?thesis
  proof (cases "pend = []")
    case True
    then have "?call = Some (0, s)" using acc head(2) by (simp add: ringif_a2f_process_pkts_def)
    then show ?thesis using assms(2) True by fastforce
  next
    case False
    then have call: "?call = (case ?loop ?x of None \<Rightarrow> None | Some x \<Rightarrow> process_end i x)" using acc head(2) by (simp add: ringif_a2f_process_pkts_def)
    have "\<exists>new pend'. host_sent s' i = host_sent s i @ new \<and> a2f_rel i n s' pend' \<and> recv_queue s' @ msgs pend' = recv_queue s @ msgs (pend @ new)"
      if result: "?call = Some (num, s')" for num s'
    proof -
      obtain y where y: "?loop ?x = Some y" "process_end i y = Some (num, s')" using result call by (auto split: option.splits)
      obtain new pend' where "pass_ok i n ?s pend new y pend'" using process_loop_conserves [OF y(1) assms(1) rel assms(3)] by blast
      from process_end_ok [OF this] y(2) show ?thesis by auto
    qed
    moreover have "\<exists>num s' new pend'. ?call = Some (num, s') \<and> a2f_rel i n s' pend' \<and> host_sent s' i = host_sent s i @ new \<and>
        recv_queue s' @ msgs pend' = recv_queue s @ msgs (pend @ new) \<and> ((\<forall>s. env_malloc env s \<noteq> None) \<longrightarrow> pend' = [])" if stops: "host_stops env i b"
    proof -
      obtain y new pend' where y: "?loop ?x = Some y" "pass_ok i n ?s pend new y pend'" "(\<forall>s. env_malloc env s \<noteq> None) \<longrightarrow> pend' = []"
        using process_loop_returns [OF assms(1) stops rel assms(3), of True 0 0] by blast
      from process_end_ok [OF y(2)] y(1,3) call show ?thesis by auto
    qed
    ultimately show ?thesis by fastforce
  qed
qed

text \<open>A host that sends two more packets of 30 bytes while the firmware takes the pending ones.\<close>

definition busy_env :: ring_env where
  "busy_env = \<lparr>env_host = host_sends_upto 2 0 30 9, env_malloc = (\<lambda>_. Some 100), env_ftm = False\<rparr>"

definition demo_a2f_elems :: "ring_element list" where
  "demo_a2f_elems = [\<lparr>e_buf = 8, e_len = 20, e_info = 1, e_buf_start = 8\<rparr>, zero_element, \<lparr>e_buf = 64, e_len = 1600, e_info = 0, e_buf_start = 64\<rparr>,
     \<lparr>e_buf = 40, e_len = 7, e_info = 2, e_buf_start = 40\<rparr>]"

text \<open>The host has written two packets across the end of the ring, the second one behind an element that lost its buffer.\<close>

definition demo_a2f :: ringif where
  "demo_a2f = ringif_reset\<lparr>a2f := zero_side\<lparr>s_ctx := (s_ctx zero_side)[0 := (new_ctx 0 Post_Hfc_A2F 12 4)\<lparr>p_ring_base := Some demo_a2f_elems\<rparr>],
     s_index := (s_index zero_side)[0 := 2], s_outdex := (s_outdex zero_side)[0 := 3]\<rparr>\<rparr>"

lemma demo_a2f_rel: "a2f_rel 0 4 demo_a2f [demo_a2f_elems ! 3, demo_a2f_elems ! 0, demo_a2f_elems ! 1]"
proof -
  let ?c = "(new_ctx 0 Post_Hfc_A2F 12 4)\<lparr>p_ring_base := Some demo_a2f_elems\<rparr>"
  have w: "ring_wf (a2f demo_a2f) 0 ?c demo_a2f_elems" by (simp add: ring_wf_def demo_a2f_def zero_side_def new_ctx_def demo_a2f_elems_def)
  have i: "s_outdex (a2f demo_a2f) ! 0 = 3" "s_index (a2f demo_a2f) ! 0 = 2" by (simp_all add: demo_a2f_def zero_side_def)
  have "rotate 3 demo_a2f_elems = [demo_a2f_elems ! 3, demo_a2f_elems ! 0, demo_a2f_elems ! 1] @ [demo_a2f_elems ! 2]"
    by (simp add: demo_a2f_elems_def numeral_3_eq_3)
  then show ?thesis unfolding a2f_rel_def using w i
    by (intro exI [of _ ?c] exI [of _ demo_a2f_elems] exI [of _ "[demo_a2f_elems ! 2]"]) (simp add: demo_a2f_elems_def)
qed

declare process_loop.simps [code]

lemma demo_busy_sent:
  "map_option (\<lambda>(num, s'). host_sent s' 0) (ringif_a2f_process_pkts busy_env process_hfc_data_pkt (ringif_refill_hfc_elem busy_env) 0 demo_a2f) =
     Some [\<lparr>e_buf = 64, e_len = 30, e_info = 9, e_buf_start = 64\<rparr>, \<lparr>e_buf = 100, e_len = 30, e_info = 9, e_buf_start = 100\<rparr>]"
  by code_simp

theorem a2f_packets_delivered_once_witness:
  "\<exists>num s'. ringif_a2f_process_pkts busy_env process_hfc_data_pkt (ringif_refill_hfc_elem busy_env) 0 demo_a2f = Some (num, s') \<and> a2f_rel 0 4 s' [] \<and>
     map (\<lambda>m. (m_buf m, m_len m)) (recv_queue s') = [(40, 7), (8, 20), (64, 30), (100, 30)]"
proof -
  let ?pend = "[demo_a2f_elems ! 3, demo_a2f_elems ! 0, demo_a2f_elems ! 1]"
  have h: "host_appends busy_env 0 4" "host_stops busy_env 0 2" using host_sends_upto_ok [of busy_env 2 0 30 9] by (simp_all add: busy_env_def)
  have sh: "short ?pend" by (simp add: demo_a2f_elems_def packet_def zero_element_def)
  have q: "\<forall>s. env_malloc busy_env s \<noteq> None" "host_sent demo_a2f 0 = []" by (simp_all add: busy_env_def demo_a2f_def ringif_reset_def)
  obtain num s' new where r: "ringif_a2f_process_pkts busy_env process_hfc_data_pkt (ringif_refill_hfc_elem busy_env) 0 demo_a2f = Some (num, s')" "a2f_rel 0 4 s' []"
    "host_sent s' 0 = new" "recv_queue s' = recv_queue demo_a2f @ msgs (?pend @ new)"
    using a2f_packets_delivered_once [OF h(1) demo_a2f_rel sh, of 2] q h(2) by auto
  have "new = [\<lparr>e_buf = 64, e_len = 30, e_info = 9, e_buf_start = 64\<rparr>, \<lparr>e_buf = 100, e_len = 30, e_info = 9, e_buf_start = 100\<rparr>]"
    using demo_busy_sent r(1,3) by simp
  with r show ?thesis by (simp add: demo_a2f_def ringif_reset_def demo_a2f_elems_def packet_def zero_element_def hfc_msg_of_def)
qed

end
