(* ===== verification/RingCtrl.thy ===== *)
theory RingCtrl
  imports RingA2f
begin

text \<open>The control rings: what a failed allocation does to the packets from the host, what an event of length zero leaves behind, and the deletion of a ring.\<close>

section \<open>The search for an empty element\<close>

text \<open>The number of elements is enough for the search: from the write index it passes every element at most once before the read index.\<close>

lemma empty_search_returns:
  assumes w: "ring_wf sd i c es" and r: "unat r < length es" and idx: "unat idx < length es" and m: "(unat idx + m) mod length es = unat r" "0 < m" "m \<le> n"
  shows "\<exists>k. empty_search n c r idx = Some k"
  using idx m
proof (induction n arbitrary: idx m)
  case (Suc n)
  obtain e where e: "elem_at c idx = Some e" using ring_wf_access(4) [OF w] Suc.prems(1) by simp
  let ?i = "next_idx c idx"
  have i: "unat ?i = (unat idx + 1) mod length es" using ring_wf_access(5) [OF w] unat_index [OF w] by simp
  show ?case
  proof (cases "e_buf e = 0 \<or> ?i = r")
    case False
    have "(unat ?i + (m - 1)) mod length es = (unat idx + 1 + (m - 1)) mod length es" unfolding i by (simp add: mod_simps)
    then have m': "(unat ?i + (m - 1)) mod length es = unat r" using Suc.prems(2,3) by simp
    have "m \<noteq> 1"
    proof
      assume "m = 1"
      then show False using Suc.prems(2) i False by (simp add: word_unat_eq_iff)
    qed
    moreover have "unat ?i < length es" unfolding i using Suc.prems(1) by (intro mod_less_divisor) linarith
    ultimately show ?thesis using Suc.IH [OF _ m'] Suc.prems(3,4) e False by (simp add: Let_def)
  qed (use e in auto)
qed simp

text \<open>So it is for the refill of a whole ring, with a function that leaves the rings alone.\<close>

lemma refill_loop_returns:
  assumes "ring_wf (a2f s) i c es" and "unat r < length es" and "unat idx < length es" and "(unat idx + m) mod length es = unat r" and "0 < m" and "m \<le> n"
    and frame: "\<And>e s. a2f (snd (snd (refill e s))) = a2f s"
  shows "\<exists>x. refill_loop n refill i r idx filled s = Some x"
  using assms(1-6)
proof (induction n arbitrary: idx m filled s c es)
  case (Suc n)
  note w = Suc.prems(1) and acc = ring_wf_access [OF Suc.prems(1)]
  let ?e = "es ! unat idx" and ?i = "next_idx c idx"
  obtain ok e s' where x: "(if e_buf ?e = 0 then refill ?e s else (True, ?e, s)) = (ok, e, s')" by (metis prod_cases3)
  then have s': "a2f s' = a2f s" using frame [of ?e s] by (auto split: if_splits)
  let ?s = "s'\<lparr>a2f := put_elem i idx e (a2f s')\<rparr>" and ?es = "es[unat idx := e]"
  have w': "ring_wf (a2f ?s) i (c\<lparr>p_ring_base := Some ?es\<rparr>) ?es" using ring_wf_put_elem [OF w] s' by simp
  have i: "unat ?i = (unat idx + 1) mod length es" using acc(5) unat_index [OF w] by simp
  have loop: "refill_loop (Suc n) refill i r idx filled s =
      (if \<not> ok then Some (None, ?s) else if ?i = r then Some (Some (filled + 1), ?s) else refill_loop n refill i r ?i (filled + 1) ?s)"
    using acc(1,4) x Suc.prems(3) by (simp add: Let_def)
  show ?case
  proof (cases "ok \<and> ?i \<noteq> r")
    case True
    have "(unat ?i + (m - 1)) mod length es = (unat idx + 1 + (m - 1)) mod length es" unfolding i by (simp add: mod_simps)
    then have m': "(unat ?i + (m - 1)) mod length ?es = unat r" using Suc.prems(4,5) by simp
    have "m \<noteq> 1"
    proof
      assume "m = 1"
      then show False using Suc.prems(4) i True by (simp add: word_unat_eq_iff)
    qed
    moreover have "unat ?i < length ?es" unfolding i length_list_update using Suc.prems(3) by (intro mod_less_divisor) linarith
    ultimately show ?thesis using Suc.IH [OF w' _ _ m', of "filled + 1"] Suc.prems(2,5,6) True unfolding loop by simp
  next
    case False
    then show ?thesis unfolding loop by auto
  qed
qed simp

section \<open>The control task\<close>

text \<open>The search finds the first element behind the write index that has no buffer.\<close>

lemma empty_search_first:
  assumes w: "ring_wf sd i c es" and "unat r < length es" and "rotate (unat r) es = pend @ bs @ x # rest" and "\<forall>b \<in> set bs. e_buf b \<noteq> 0" and "e_buf x = 0"
    and "unat idx = (unat r + length pend) mod length es" and "length bs < n"
  shows "\<exists>k. empty_search n c r idx = Some (Some k) \<and> unat k = (unat r + length pend + length bs) mod length es"
  using assms(3-7)
proof (induction bs arbitrary: pend idx n)
  case Nil
  then obtain n' where n: "n = Suc n'" by (cases n) auto
  have len: "length es = length pend + Suc (length rest)" using Nil.prems(1) by (metis append_Nil length_Cons length_append length_rotate)
  have "unat idx < length es" unfolding Nil.prems(4) using len by (intro mod_less_divisor) simp
  moreover have "es ! unat idx = x" using nth_rotate_mod [of "length pend" es "unat r"] Nil.prems(1,4) len by simp
  ultimately have "elem_at c idx = Some x" using ring_wf_access(4) [OF w] by simp
  then show ?case using Nil.prems(3,4) n by simp
next
  case (Cons b bs)
  then obtain n' where n: "n = Suc n'" "length bs < n'" by (cases n) auto
  have len: "length es = length pend + Suc (length bs + Suc (length rest))" using Cons.prems(1) by (metis append_Cons length_Cons length_append length_rotate)
  have lt: "unat idx < length es" unfolding Cons.prems(4) using len by (intro mod_less_divisor) simp
  have "es ! unat idx = b" using nth_rotate_mod [of "length pend" es "unat r"] Cons.prems(1,4) len by simp
  then have e: "elem_at c idx = Some b" "e_buf b \<noteq> 0" using ring_wf_access(4) [OF w] lt Cons.prems(2) by simp_all
  let ?i = "next_idx c idx"
  have i: "unat ?i = (unat r + length (pend @ [b])) mod length es"
    using ring_wf_access(5) [OF w] unat_index [OF w] Cons.prems(4) by (simp add: mod_Suc_eq)
  have "?i \<noteq> r" using mod_offset_self [OF assms(2), of "length (pend @ [b])"] i len by (auto simp: word_unat_eq_iff)
  moreover have "\<exists>k. empty_search n' c r ?i = Some (Some k) \<and> unat k = (unat r + length (pend @ [b]) + length bs) mod length es"
    using Cons.prems(1-3) n(2) i by (intro Cons.IH) simp_all
  ultimately show ?case using e n(1) by (simp add: Let_def)
qed

lemma refill_first_empty:
  assumes "a2f_parts i n s pend (bs @ x # rest)" and "bs @ rest \<noteq> []" and "\<forall>b \<in> set bs. e_buf b \<noteq> 0" and "e_buf x = 0"
    and "\<And>s. refill x s = (ok, x', s)"
  shows "\<exists>s'. ringif_a2f_refill_next_empty_elem refill i s = Some (ok, s') \<and> a2f_parts i n s' pend (bs @ x' # rest)"
proof -
  obtain c es where p: "ring_wf (a2f s) i c es" "length es = n" "unat (s_outdex (a2f s) ! unat i) < n"
    "rotate (unat (s_outdex (a2f s) ! unat i)) es = pend @ bs @ x # rest"
    "unat (s_index (a2f s) ! unat i) = (unat (s_outdex (a2f s) ! unat i) + length pend) mod n" "n = length pend + length (bs @ x # rest)"
    using a2f_partsE [OF assms(1)] by metis
  note acc = ring_wf_access [OF p(1)]
  let ?r = "s_outdex (a2f s) ! unat i"
  have "length bs < unat (ring_num_elem c)" using p(1,2,6) by (simp add: ring_wf_def)
  then obtain k where k: "empty_search (unat (ring_num_elem c)) c ?r (s_index (a2f s) ! unat i) = Some (Some k)" "unat k = (unat ?r + (length pend + length bs)) mod n"
    using empty_search_first [OF p(1) _ p(4) assms(3,4), of "s_index (a2f s) ! unat i"] p(2,3,5) by (auto simp: add.assoc)
  have "\<not> ringif_ring_full (a2f s) (Some c)" using parts_full [OF assms(1) p(1)] assms(2) by (cases bs; cases rest) auto
  then have found: "ringif_a2f_get_next_empty_elem i s = Some (Some k)" using k(1) acc by (simp add: ringif_a2f_get_next_empty_elem_def Let_def)
  have lt: "length pend + length bs < length es" "unat k < length es" using p(2,3,6) k(2) by (simp_all add: mod_less_divisor)
  have "es ! unat k = x" using nth_rotate_mod [OF lt(1), of "unat ?r"] p(2,4) k(2) by (simp add: nth_append)
  then have ptr: "ringif_a2f_element_ptr i k s = Some x" using acc lt(2) by (simp add: ringif_a2f_element_ptr_def)
  let ?es = "es[unat k := x']" and ?c = "c\<lparr>p_ring_base := Some (es[unat k := x'])\<rparr>" and ?sd = "put_elem i k x' (a2f s)"
  have wf: "ring_wf ?sd i ?c ?es" using ring_wf_put_elem [OF p(1)] .
  have rot: "rotate (unat ?r) ?es = pend @ bs @ x' # rest" using rotate_update [OF lt(1), of "unat ?r" x'] p(2,4) k(2) by (simp add: list_update_append)
  have parts: "a2f_parts i n s' pend (bs @ x' # rest)" if "ring_wf (a2f s') i ?c ?es" "s_index (a2f s') = s_index (a2f s)" "s_outdex (a2f s') = s_outdex (a2f s)" for s'
    unfolding a2f_parts_def using that p(2,3,5) rot by (intro exI [of _ ?c] exI [of _ ?es]) simp
  obtain sd where sd: "(if ok then ringif_stats_attach_succ i 1 ?sd else ringif_stats_attach_fail i 1 ?sd) = Some sd" "ring_wf sd i ?c ?es"
    "s_index sd = s_index (a2f s)" "s_outdex sd = s_outdex (a2f s)"
    using upd_stats_ok [OF wf] unfolding stats_defs by (cases ok) fastforce+
  then show ?thesis using found ptr assms(5) parts
    by (cases ok) (simp_all add: ringif_a2f_refill_next_empty_elem_def ringif_indicate_to_host_def Let_def)
qed

lemma parts_take:
  assumes "a2f_parts i n s (e # pend) free"
  shows "ringif_a2f_next_read_elem i s = Some (Some (s_outdex (a2f s) ! unat i))" "ringif_a2f_element_ptr i (s_outdex (a2f s) ! unat i) s = Some e"
    and "\<exists>s'. ringif_a2f_mark_as_read i 1 s = Some (True, s') \<and> a2f_parts i n s' pend (free @ [zero_element])"
proof -
  obtain c es where p: "ring_wf (a2f s) i c es" "length es = n" "unat (s_outdex (a2f s) ! unat i) < n"
    "rotate (unat (s_outdex (a2f s) ! unat i)) es = (e # pend) @ free"
    "unat (s_index (a2f s) ! unat i) = (unat (s_outdex (a2f s) ! unat i) + length (e # pend)) mod n" "free \<noteq> []" "n = length (e # pend) + length free"
    using a2f_partsE [OF assms] by metis
  note acc = ring_wf_access [OF p(1)]
  let ?r = "s_outdex (a2f s) ! unat i" and ?w = "s_index (a2f s) ! unat i" and ?es = "es[unat (s_outdex (a2f s) ! unat i) := zero_element]"
  have wn: "unat ?w < n" unfolding p(5) using p(7) by (intro mod_less_divisor) simp
  have rw: "?r \<noteq> ?w" using mod_offset_self [OF p(3), of "length (e # pend)"] p(5,6,7) by (auto simp: word_unat_eq_iff)
  have num: "unat (ring_num_elem c) = n" "n < 256" using p(1,2) ring_wf_length [OF p(1)] by (simp_all add: ring_wf_def)
  have "(if ?r < ?w then ?w - ?r else ring_num_elem c + ?w - ?r) \<noteq> 0"
  proof (cases "?r < ?w")
    case False
    then have "unat ?w < unat ?r" using rw by (simp add: word_less_nat_alt word_unat_eq_iff)
    then have "ring_num_elem c + ?w \<noteq> ?r" using num wn p(3) by (auto simp: word_unat_eq_iff unat_word_ariths mod_if split: if_splits)
    then show ?thesis using False by simp
  qed auto
  moreover have "\<not> ringif_ring_empty (a2f s) (Some c)" using acc p(2,3) wn rw by (simp add: ringif_ring_empty_def)
  ultimately show "ringif_a2f_next_read_elem i s = Some (Some ?r)"
    using acc by (simp add: ringif_a2f_next_read_elem_def ringif_a2f_get_read_idx_def Let_def)
  have "es ! unat ?r = e" using nth_rotate_mod [of 0 es "unat ?r"] p(2,3,4) by (cases es) auto
  then show "ringif_a2f_element_ptr i ?r s = Some e" using acc p(2,3) by (simp add: ringif_a2f_element_ptr_def)
  let ?s = "s\<lparr>a2f := set_read_idx c (next_idx c ?r) (put_elem i ?r zero_element (a2f s))\<rparr>" and ?c = "c\<lparr>p_ring_base := Some ?es\<rparr>"
  have "put_elem i ?r zero_element (a2f s) = upd_ctx i (\<lambda>c. c\<lparr>p_ring_base := Some ?es\<rparr>) (a2f s)"
    using p(1) by (simp add: put_elem_def upd_ctx_def ring_wf_def)
  then have mark: "ringif_a2f_mark_as_read i 1 s = Some (True, ?s)"
    using acc p(2,3) num(1) by (auto simp: ringif_a2f_mark_as_read_def next_idx_def Let_def)
  have nr: "unat (next_idx c ?r) = (unat ?r + 1) mod n" using unat_index [OF p(1)] acc(5) p(2) by simp
  have "rotate (unat ?r) ?es = zero_element # pend @ free" using rotate_update [of 0 es "unat ?r" zero_element] p(2-4) by simp
  then have "rotate (Suc (unat ?r)) ?es = pend @ free @ [zero_element]" by simp
  then have "rotate (unat (next_idx c ?r)) ?es = pend @ free @ [zero_element]" using rotate_conv_mod [of "Suc (unat ?r)" ?es] p(2) nr by simp
  moreover have "set_read_idx c (next_idx c ?r) (put_elem i ?r zero_element (a2f s)) = (put_elem i ?r zero_element (a2f s))\<lparr>s_outdex := (s_outdex (a2f s))[unat i := next_idx c ?r]\<rparr>"
    using p(1) by (simp add: set_read_idx_def ring_wf_def)
  moreover have "unat i < length (s_outdex (a2f s))" using p(1) by (simp add: ring_wf_def)
  moreover have "(unat ?r + 1) mod n < n" using p(3) by (intro mod_less_divisor) linarith
  moreover have "((unat ?r + 1) mod n + length pend) mod n = unat ?w" using p(5) by (simp add: mod_simps)
  ultimately have "a2f_parts i n ?s pend (free @ [zero_element])" unfolding a2f_parts_def
    using ring_wf_set_idx(2) [OF ring_wf_put_elem [OF p(1), of ?r zero_element]] p(2) nr by (intro exI [of _ ?c] exI [of _ ?es]) simp
  with mark show "\<exists>s'. ringif_a2f_mark_as_read i 1 s = Some (True, s') \<and> a2f_parts i n s' pend (free @ [zero_element])" by blast
qed

lemma ctrl_update:
  assumes "a2f_parts i n s (e # pend) free" and "e_buf e \<noteq> 0" and "free @ [zero_element] = bs @ x # rest" and "\<forall>b \<in> set bs. e_buf b \<noteq> 0" and "e_buf x = 0"
    and "\<And>s. ringif_refill_ctrl_elem env x s = (ok, x', s)"
  shows "\<exists>s'. process_ctrl_a2f_ring_update env i s = Some (True, s') \<and> a2f_parts i n s' pend (bs @ x' # rest)"
proof -
  obtain s1 where s1: "post2thread_a2f_ctrl_pkt e s = Some (True, s1)" "a2f s1 = a2f s"
    using assms(2) by (simp add: post2thread_a2f_ctrl_pkt_def process_hfc_config_pkt_def ringif_free_ctrl_buf_def free_memory_def)
  then have p1: "a2f_parts i n s1 (e # pend) free" using assms(1) by (simp add: a2f_parts_def)
  then obtain s2 where s2: "ringif_a2f_mark_as_read i 1 s1 = Some (True, s2)" "a2f_parts i n s2 pend (bs @ x # rest)"
    using parts_take(3) assms(3) by metis
  have "free \<noteq> []" using assms(1) by (auto simp: a2f_parts_def)
  then have "bs @ rest \<noteq> []" using assms(3) by (cases bs) auto
  from refill_first_empty [where refill = "ringif_refill_ctrl_elem env", OF s2(2) this assms(4-6)] obtain s3 where
    "ringif_a2f_refill_next_empty_elem (ringif_refill_ctrl_elem env) i s2 = Some (ok, s3)" "a2f_parts i n s3 pend (bs @ x' # rest)" by blast
  then show ?thesis using parts_take(1,2) [OF assms(1)] s1(1) s2(1) by (simp add: process_ctrl_a2f_ring_update_def)
qed

lemma ctrl_update_idle:
  assumes "a2f_parts i n s [] free"
  shows "process_ctrl_a2f_ring_update env i s = Some (False, s)"
proof -
  obtain c es where p: "ring_wf (a2f s) i c es" "unat (s_outdex (a2f s) ! unat i) < n" "unat (s_index (a2f s) ! unat i) = unat (s_outdex (a2f s) ! unat i) mod n"
    using a2f_partsE [OF assms] by (metis add_0_right list.size(3))
  then have "s_index (a2f s) ! unat i = s_outdex (a2f s) ! unat i" by (simp add: word_unat_eq_iff)
  then show ?thesis using ring_wf_access [OF p(1)]
    by (simp add: process_ctrl_a2f_ring_update_def ringif_a2f_next_read_elem_def ringif_a2f_get_read_idx_def ringif_ring_empty_def Let_def)
qed

section \<open>A ring without refill\<close>

text \<open>
  The runs of a control ring: the host sends packets, and the control task serves the ring, with whatever memory there is at that time. The result is the number of packets the
  task has taken.
\<close>

datatype ctrl_op = Host_Sends u16 u16 | Ctrl_Task ring_env

fun ctrl_run :: "ctrl_op list \<Rightarrow> u8 \<Rightarrow> ringif \<Rightarrow> (nat \<times> ringif) option" where
  "ctrl_run [] i s = Some (0, s)"
| "ctrl_run (Host_Sends len info # ops) i s = ctrl_run ops i (host_send i len info s)"
| "ctrl_run (Ctrl_Task env # ops) i s =
     (case process_ctrl_a2f_ring_update env i s of
        None \<Rightarrow> None
      | Some (ok, s) \<Rightarrow> map_option (\<lambda>(m, s). (if ok then Suc m else m, s)) (ctrl_run ops i s))"

text \<open>The elements of a ring that have a buffer.\<close>

definition buffers :: "u8 \<Rightarrow> ringif \<Rightarrow> nat" where
  "buffers i s = (case p_ring_base (s_ctx (a2f s) ! unat i) of None \<Rightarrow> 0 | Some es \<Rightarrow> length (filter (\<lambda>e. e_buf e \<noteq> 0) es))"

lemma buffers_parts: "a2f_parts i n s pend free \<Longrightarrow> buffers i s = length (filter (\<lambda>e. e_buf e \<noteq> 0) (pend @ free))"
proof -
  assume "a2f_parts i n s pend free"
  then obtain c es where p: "ring_wf (a2f s) i c es" "rotate (unat (s_outdex (a2f s) ! unat i)) es = pend @ free" by (auto simp: a2f_parts_def)
  have "length (filter P (rotate m es)) = length (filter P (take (m mod length es) es @ drop (m mod length es) es))" for P m
    unfolding rotate_drop_take filter_append length_append by (rule add.commute)
  then have "length (filter (\<lambda>e. e_buf e \<noteq> 0) (pend @ free)) = length (filter (\<lambda>e. e_buf e \<noteq> 0) es)" unfolding p(2) [symmetric] by simp
  then show ?thesis using p(1) by (simp add: buffers_def ring_wf_def)
qed

definition ctrl_stuck :: "u8 \<Rightarrow> nat \<Rightarrow> ringif \<Rightarrow> nat \<Rightarrow> bool" where
  "ctrl_stuck i n s m \<longleftrightarrow> (\<exists>pend bs x rest. a2f_parts i n s pend (bs @ x # rest) \<and> (\<forall>b \<in> set (pend @ bs). e_buf b \<noteq> 0) \<and>
     e_buf x = 0 \<and> e_len x \<noteq> 0 \<and> (\<forall>e \<in> set rest. e_buf e = 0) \<and> m = length pend + length bs)"

lemma ctrl_stuck_buffers: "ctrl_stuck i n s m \<Longrightarrow> buffers i s = m"
  by (auto simp: ctrl_stuck_def buffers_parts)

lemma ctrl_stuck_host: "ctrl_stuck i n s m \<Longrightarrow> ctrl_stuck i n (host_send i len info s) m"
proof -
  assume "ctrl_stuck i n s m"
  then obtain pend bs x rest where p: "a2f_parts i n s pend (bs @ x # rest)" "\<forall>b \<in> set (pend @ bs). e_buf b \<noteq> 0" "e_buf x = 0" "e_len x \<noteq> 0"
    "\<forall>e \<in> set rest. e_buf e = 0" "m = length pend + length bs" by (auto simp: ctrl_stuck_def)
  show ?thesis
  proof (cases bs)
    case Nil
    then have "host_send i len info s = s" using host_send_waits p(1,3) by simp
    then show ?thesis using \<open>ctrl_stuck i n s m\<close> by simp
  next
    case (Cons b bs')
    then have "a2f_parts i n (host_send i len info s) (pend @ [b\<lparr>e_len := len, e_info := info\<rparr>]) (bs' @ x # rest)"
      using host_send_sent [of i n s pend b "bs' @ x # rest" len info] p(1,2) by simp
    then show ?thesis using p(2-6) Cons unfolding ctrl_stuck_def
      by (intro exI [of _ "pend @ [b\<lparr>e_len := len, e_info := info\<rparr>]"] exI [of _ bs'] exI [of _ x] exI [of _ rest]) auto
  qed
qed

lemma ctrl_stuck_task:
  assumes "ctrl_stuck i n s m"
  shows "\<exists>ok s' m'. process_ctrl_a2f_ring_update env i s = Some (ok, s') \<and> ctrl_stuck i n s' m' \<and> m = (if ok then Suc m' else m')"
proof -
  obtain pend bs x rest where p: "a2f_parts i n s pend (bs @ x # rest)" "\<forall>b \<in> set (pend @ bs). e_buf b \<noteq> 0" "e_buf x = 0" "e_len x \<noteq> 0"
    "\<forall>e \<in> set rest. e_buf e = 0" "m = length pend + length bs" using assms by (auto simp: ctrl_stuck_def)
  show ?thesis
  proof (cases pend)
    case Nil
    then show ?thesis using ctrl_update_idle p(1) assms by fastforce
  next
    case (Cons e pend')
    have "ringif_refill_ctrl_elem env x t = (False, x, t)" for t using p(4) by (simp add: ringif_refill_ctrl_elem_def)
    then obtain s' where s': "process_ctrl_a2f_ring_update env i s = Some (True, s')" "a2f_parts i n s' pend' (bs @ x # rest @ [zero_element])"
      using ctrl_update [of i n s e pend' "bs @ x # rest" bs x "rest @ [zero_element]" env False x] p(1-3) Cons by auto
    then have "ctrl_stuck i n s' (length pend' + length bs)" using p(2-5) Cons unfolding ctrl_stuck_def
      by (intro exI [of _ pend'] exI [of _ bs] exI [of _ x] exI [of _ "rest @ [zero_element]"]) (auto simp: zero_element_def)
    then show ?thesis using s'(1) p(6) Cons by auto
  qed
qed

lemma ctrl_stuck_run: "ctrl_stuck i n s m \<Longrightarrow> \<exists>k s'. ctrl_run ops i s = Some (k, s') \<and> ctrl_stuck i n s' (m - k) \<and> k \<le> m"
proof (induction ops arbitrary: s m)
  case (Cons op ops)
  show ?case
  proof (cases op)
    case (Host_Sends len info)
    then show ?thesis using Cons.IH [OF ctrl_stuck_host [OF Cons.prems]] by simp
  next
    case (Ctrl_Task env)
    obtain ok s1 m1 where s1: "process_ctrl_a2f_ring_update env i s = Some (ok, s1)" "ctrl_stuck i n s1 m1" "m = (if ok then Suc m1 else m1)"
      using ctrl_stuck_task [OF Cons.prems] by blast
    from Cons.IH [OF s1(2)] obtain k s' where "ctrl_run ops i s1 = Some (k, s')" "ctrl_stuck i n s' (m1 - k)" "k \<le> m1" by blast
    then show ?thesis using s1(1,3) Ctrl_Task by (intro exI [of _ "if ok then Suc k else k"] exI [of _ s']) auto
  qed
qed simp

text \<open>A ring as it is after its creation: every element has a buffer.\<close>

definition ctrl_whole :: "u8 \<Rightarrow> nat \<Rightarrow> ringif \<Rightarrow> nat \<Rightarrow> bool" where
  "ctrl_whole i n s m \<longleftrightarrow> (\<exists>pend free. a2f_parts i n s pend free \<and> (\<forall>e \<in> set (pend @ free). e_buf e \<noteq> 0) \<and> length pend = m)"

section \<open>An event of length zero\<close>

text \<open>
  An event of length zero is accepted (only longer ones than a buffer are refused), but clearing refuses it: the element at the index to clear stays, and nothing
  behind it is ever freed.
\<close>

definition event_stuck :: "u8 \<Rightarrow> ringif \<Rightarrow> bool" where
  "event_stuck i s \<longleftrightarrow> (\<exists>c es. ring_wf (f2a s) i c es \<and> unat (ring_idx_to_clear c) < length es \<and> packet (es ! unat (ring_idx_to_clear c)) \<and>
     e_len (es ! unat (ring_idx_to_clear c)) = 0)"

lemma event_stuck_ctx:
  assumes "ring_wf sd i c es" and "unat (ring_idx_to_clear c) < length es" and "packet (es ! unat (ring_idx_to_clear c))" and "e_len (es ! unat (ring_idx_to_clear c)) = 0"
    and "f2a s = upd_ctx i f sd" and "p_ring_base (f c) = p_ring_base c" "p_write_idx (f c) = p_write_idx c" "p_read_idx (f c) = p_read_idx c"
    "ring_num_elem (f c) = ring_num_elem c" "ring_idx_to_clear (f c) = ring_idx_to_clear c"
  shows "event_stuck i s"
  unfolding event_stuck_def assms(5) using assms(1-4,6-) by (intro exI [of _ "f c"] exI [of _ es]) (simp add: ring_wf_def upd_ctx_def)

lemma zero_length_event_blocks:
  assumes "event_stuck i s"
  shows "\<exists>s'. ringif_f2a_clear_used_bufs env ringif_clear_ctrl_elem i s = Some (True, s') \<and> event_stuck i s' \<and> freed s' = freed s"
proof -
  obtain c es where w: "ring_wf (f2a s) i c es" "unat (ring_idx_to_clear c) < length es" "packet (es ! unat (ring_idx_to_clear c))" "e_len (es ! unat (ring_idx_to_clear c)) = 0"
    using assms by (auto simp: event_stuck_def)
  note acc = ring_wf_access [OF w(1)]
  let ?clr = "ring_idx_to_clear c" and ?e = "es ! unat (ring_idx_to_clear c)"
  have "\<exists>b. ringif_ring_buf_full (Some c) ?clr = Some b" using acc index_before [OF w(1,2)] w(2) by (simp add: ringif_ring_buf_full_def)
  then have start: "ringif_f2a_clear_used_bufs env ringif_clear_ctrl_elem i s \<in>
      {Some (True, s), (case clear_loop env ringif_clear_ctrl_elem i (?clr, 0, s) of None \<Rightarrow> None | Some x \<Rightarrow> clear_end i x)}"
    using acc by (auto simp: ringif_f2a_clear_used_bufs_def)
  have "c\<lparr>p_ring_base := Some es\<rparr> = c" using w(1) by (cases c) (simp add: ring_wf_def)
  then have same: "put_elem i ?clr ?e (f2a s) = f2a s" using w(1,2) by (simp add: put_elem_def upd_ctx_def ring_wf_def list_update_same_conv)
  obtain sd1 where sd1: "ringif_stats_detach_fail i 1 (f2a s) = Some sd1" "ring_wf sd1 i c es" using upd_stats_ok [OF w(1)] unfolding stats_defs by blast
  have "clear_pass env ringif_clear_ctrl_elem i (?clr, 0, s) = Stop (?clr, 0, s\<lparr>f2a := sd1\<rparr>)"
    using acc w(2-4) sd1(1) same by (simp add: clear_pass_def ringif_clear_ctrl_elem_def packet_def Let_def)
  then have loop: "clear_loop env ringif_clear_ctrl_elem i (?clr, 0, s) = Some (?clr, 0, s\<lparr>f2a := sd1\<rparr>)" by (simp add: clear_loop.simps)
  obtain sd2 where sd2: "ringif_stats_detach_succ i 0 sd1 = Some sd2" "ring_wf sd2 i c es" using upd_stats_ok [OF sd1(2)] unfolding stats_defs by blast
  let ?u = "upd_ctx i (\<lambda>c. c\<lparr>ring_idx_to_clear := ?clr\<rparr>) sd2" and ?z = "\<lambda>c. c\<lparr>ring_idx_clear_pending := 0\<rparr>"
  have u: "?u = sd2" using sd2(2) by (simp add: upd_ctx_def ring_wf_def list_update_same_conv)
  have "event_stuck i t" if "f2a t = sd2 \<or> f2a t = upd_ctx i ?z sd2" for t
    using that
  proof
    assume "f2a t = sd2"
    then show ?thesis using sd2(2) w(2-4) by (auto simp: event_stuck_def)
  next
    assume "f2a t = upd_ctx i ?z sd2"
    then show ?thesis using event_stuck_ctx [OF sd2(2) w(2-4)] by simp
  qed
  moreover have "\<exists>s'. clear_end i (?clr, 0, s\<lparr>f2a := sd1\<rparr>) = Some (True, s') \<and> (f2a s' = sd2 \<or> f2a s' = upd_ctx i ?z sd2) \<and> freed s' = freed s"
    using sd2(1) u by (simp add: clear_end_def Let_def)
  ultimately have "\<exists>s'. clear_end i (?clr, 0, s\<lparr>f2a := sd1\<rparr>) = Some (True, s') \<and> event_stuck i s' \<and> freed s' = freed s" by blast
  then show ?thesis using start loop assms by auto
qed

section \<open>Deletion\<close>

text \<open>Deleting a ring in use always reads an index through a pointer that was just cleared.\<close>

lemma delete_reads_null:
  assumes "unat i < MAX_NUM_RINGS"
  shows "ring_state (s_ctx (a2f s) ! unat i) = RING_STATE_IN_USE \<Longrightarrow> ringif_a2f_delete_ring clear i s = None"
    "ring_state (s_ctx (f2a s) ! unat i) = RING_STATE_IN_USE \<Longrightarrow> ringif_f2a_delete_ring clear i s = None"
  using assms by (simp_all add: ringif_a2f_delete_ring_def ringif_f2a_delete_ring_def ringif_delete_ring_def ring_ctx_of_def zero_ctx_def Let_def)

section \<open>The property\<close>

text \<open>
  C18: one failed allocation ends the refill of a control ring. While memory can be allocated, a control packet is taken and its element gets a new buffer, so that every element of the
  ring keeps one. When the allocation fails, the element is left with a length and no buffer; as long as the host sends packets only in elements that have a
  buffer, it is the element that each later refill finds first and refuses, whatever memory there is by then: each packet taken from then on costs the ring a buffer, and only
  as many packets as there are buffers left can ever be taken.
\<close>

theorem failed_refill_starves_ring:
  assumes "ctrl_whole i n s (Suc m)"
  shows "((\<exists>p. p \<noteq> 0 \<and> (\<forall>t. env_malloc env t = Some p)) \<longrightarrow> (\<exists>s1. process_ctrl_a2f_ring_update env i s = Some (True, s1) \<and> ctrl_whole i n s1 m)) \<and>
    ((\<forall>t. env_malloc env t = None) \<longrightarrow> (\<exists>s1. process_ctrl_a2f_ring_update env i s = Some (True, s1) \<and>
       (\<forall>ops. \<exists>k s2. ctrl_run ops i s1 = Some (k, s2) \<and> k + buffers i s2 = n - 1)))"
proof -
  obtain e pend free where p: "a2f_parts i n s (e # pend) free" "\<forall>b \<in> set (e # pend @ free). e_buf b \<noteq> 0" "length pend = m"
    using assms by (auto simp: ctrl_whole_def length_Suc_conv)
  have n: "n = Suc m + length free" using a2f_partsE [OF p(1)] p(3) by (metis length_Cons)
  note upd = ctrl_update [OF p(1), of free zero_element "[]" env]
  have buf: "e_buf e \<noteq> 0" "\<forall>b \<in> set free. e_buf b \<noteq> 0" "e_buf zero_element = 0" using p(2) by (simp_all add: zero_element_def)
  let ?z = "zero_element\<lparr>e_len := ringif_get_ctrl_buf_size env\<rparr>"
  have len: "ringif_get_ctrl_buf_size env \<noteq> 0" by (simp add: ringif_get_ctrl_buf_size_def)
  have "\<exists>s1. process_ctrl_a2f_ring_update env i s = Some (True, s1) \<and> ctrl_whole i n s1 m" if a: "a \<noteq> 0" "\<forall>t. env_malloc env t = Some a" for a
  proof -
    have "ringif_refill_ctrl_elem env zero_element t = (True, ?z\<lparr>e_buf_start := a, e_buf := a\<rparr>, t)" for t
      using a(2) by (simp add: ringif_refill_ctrl_elem_def ringif_get_ctrl_buf_def zero_element_def)
    from upd [OF buf(1) _ buf(2,3) this] obtain s1 where
      "process_ctrl_a2f_ring_update env i s = Some (True, s1)" "a2f_parts i n s1 pend (free @ [?z\<lparr>e_buf_start := a, e_buf := a\<rparr>])" by auto
    then show ?thesis using p(2,3) a(1) unfolding ctrl_whole_def by 
      (intro exI [of _ s1] conjI exI [of _ pend] exI [of _ "free @ [?z\<lparr>e_buf_start := a, e_buf := a\<rparr>]"]) auto
  qed
  moreover have "\<exists>s1. process_ctrl_a2f_ring_update env i s = Some (True, s1) \<and> (\<forall>ops. \<exists>k s2. ctrl_run ops i s1 = Some (k, s2) \<and> k + buffers i s2 = n - 1)"
    if "\<forall>t. env_malloc env t = None"
  proof -
    have "ringif_refill_ctrl_elem env zero_element t = (False, ?z, t)" for t
      using that by (simp add: ringif_refill_ctrl_elem_def ringif_get_ctrl_buf_def zero_element_def)
    from upd [OF buf(1) _ buf(2,3) this] obtain s1 where s1: "process_ctrl_a2f_ring_update env i s = Some (True, s1)" "a2f_parts i n s1 pend (free @ [?z])" by auto
    then have "ctrl_stuck i n s1 (n - 1)" unfolding ctrl_stuck_def using p(2,3) n len
      by (intro exI [of _ pend] exI [of _ free] exI [of _ ?z] exI [of _ "[]"]) (auto simp: zero_element_def)
    then have "\<exists>k s2. ctrl_run ops i s1 = Some (k, s2) \<and> k + buffers i s2 = n - 1" for ops
      using ctrl_stuck_run [of i n s1 "n - 1" ops] ctrl_stuck_buffers by fastforce
    then show ?thesis using s1(1) by blast
  qed
  ultimately show ?thesis by blast
qed

text \<open>A ring of four elements after its creation, in which the host has sent a packet.\<close>

definition memory_env :: "nat option \<Rightarrow> ring_env" where
  "memory_env p = \<lparr>env_host = (\<lambda>s. s), env_malloc = (\<lambda>_. p), env_ftm = False\<rparr>"

definition demo_ctrl_elem :: ring_element where
  "demo_ctrl_elem = \<lparr>e_buf = 100, e_len = 256, e_info = 0, e_buf_start = 100\<rparr>"

definition demo_ctrl :: ringif where
  "demo_ctrl = (case ringif_a2f_refill_bufs (ringif_refill_ctrl_elem (memory_env (Some 100))) 0
       (snd (ringif_create_a2f_ring (memory_env (Some 100)) Post_Ctrl_A2F 12 4 ringif_reset)) of
     Some (_, s) \<Rightarrow> host_send 0 20 5 s | None \<Rightarrow> ringif_reset)"

lemma demo_ctrl_state:
  "s_ctx (a2f demo_ctrl) = (replicate 8 zero_ctx)[0 := (new_ctx 0 Post_Ctrl_A2F 12 4)\<lparr>p_ring_base := Some (demo_ctrl_elem\<lparr>e_len := 20, e_info := 5\<rparr> # replicate 3 demo_ctrl_elem)\<rparr>]"
  "s_index (a2f demo_ctrl) = (replicate 16 0)[0 := 1]" "s_outdex (a2f demo_ctrl) = replicate 16 0" "length (s_stats (a2f demo_ctrl)) = 8"
  by code_simp+

lemma demo_ctrl_whole: "ctrl_whole 0 4 demo_ctrl 1"
proof -
  let ?es = "demo_ctrl_elem\<lparr>e_len := 20, e_info := 5\<rparr> # replicate 3 demo_ctrl_elem"
  let ?c = "(new_ctx 0 Post_Ctrl_A2F 12 4)\<lparr>p_ring_base := Some ?es\<rparr>"
  have "ring_wf (a2f demo_ctrl) 0 ?c ?es" by (simp add: ring_wf_def demo_ctrl_state new_ctx_def)
  then have "a2f_parts 0 4 demo_ctrl [demo_ctrl_elem\<lparr>e_len := 20, e_info := 5\<rparr>] (replicate 3 demo_ctrl_elem)"
    unfolding a2f_parts_def by (intro exI [of _ ?c] exI [of _ ?es]) (simp add: demo_ctrl_state)
  then show ?thesis unfolding ctrl_whole_def by (intro exI conjI) (assumption, auto simp: demo_ctrl_elem_def)
qed

theorem failed_refill_starves_ring_witness:
  "\<exists>s1 k s2. process_ctrl_a2f_ring_update (memory_env None) 0 demo_ctrl = Some (True, s1) \<and>
     ctrl_run (concat (replicate 9 [Host_Sends 20 5, Ctrl_Task (memory_env (Some 100))])) 0 s1 = Some (k, s2) \<and> k + buffers 0 s2 = 3"
proof -
  have "\<forall>t. env_malloc (memory_env None) t = None" by (simp add: memory_env_def)
  then obtain s1 where "process_ctrl_a2f_ring_update (memory_env None) 0 demo_ctrl = Some (True, s1)"
    "\<forall>ops. \<exists>k s2. ctrl_run ops 0 s1 = Some (k, s2) \<and> k + buffers 0 s2 = 4 - 1"
    using failed_refill_starves_ring [of 0 4 demo_ctrl 0 "memory_env None"] demo_ctrl_whole by auto
  then show ?thesis by (auto dest!: spec [of _ "concat (replicate 9 [Host_Sends 20 5, Ctrl_Task (memory_env (Some 100))])"])
qed

end
