(* ===== verification/Spec2Isabelle.thy ===== *)
theory Spec2Isabelle
  imports FwSession FwIntegrity FwPartition SblSelect HostedTransfer QcliLine QcliSafe QatUart UnpaInv RingQueue RingA2f RingCtrl
begin

text \<open>
  Verification of the storage, firmware-upgrade, boot loader, console, AT command, power arbiter and host interface code of the QCC730 SDK (C sources under
  \<open>src/\<close>). The first three decide which firmware runs: the upgrade code writes images and descriptors
  into non-volatile memory, and the boot loader reads the descriptors, loads the chosen image, checks it and starts it.
  The console and the AT commands are where a user or a host reaches every other function of the SDK.

  \<^bold>\<open>The program and its parts.\<close>
  The application side is \<open>src/modules/fw_upgrade\<close>: a session (\<open>fw_upgrade.c\<close>) receives a configuration file and images
  over a transport plugin and drives a state machine; the storage module (\<open>fw_upgrade_mem.c\<close>) keeps up to three
  firmware descriptors (FWD) in the first sectors of the QSPI flash, partitions inside an image set, and the firmware
  descriptor table (FDT) in RRAM. It uses the drivers \<open>src/modules/hal/qcc730/flash/ferm_flash.c\<close> and
  \<open>src/modules/hal/qcc730/rram/nt_mem.c\<close>. The boot side is \<open>src/bootloader/SBL\<close>: \<open>src/sbl_main.c\<close> takes over from the primary
  boot loader (PBL) in ROM, looks up the application in the FDT (\<open>system/rram_fdt.c\<close>), scans the descriptors in flash
  (\<open>system/sbl_flash_fwd.c\<close>), selects one, loads its ELF image (\<open>elf_loader/\<close>, with \<open>system/nt_bl_rram_dxe.c\<close> for writes to
  RRAM), authenticates it (\<open>sbl_auth/sbl_auth.c\<close>) with protection against rollback (\<open>sbl_auth/rollback/\<close>) and enters it.
  A second boot loader, \<open>src/bootloader/HOSTED_SBL\<close>, is fed by a host: it exchanges messages with the host through two rings
  in shared memory, writes the image it is given to RRAM and enters it. The console is \<open>src/modules/console\<close>: a task edits the
  line (\<open>qcli_pal.c\<close>), \<open>qcli.c\<close> parses it, finds the command in a tree of groups that components register, and runs it,
  in the background when asked to; \<open>qcli_util.c\<close> has the conversions. The AT interface is \<open>src/modules/qat\<close>: a task collects lines from the
  serial line (\<open>qat_uart.c\<close>), \<open>qat.c\<close> splits them into commands with parameters, runs these, and queues the responses for a second task.
  The power arbiter uNPA (\<open>unpa.c\<close> and its parts in \<open>src/modules/core/system/sys_src\<close>) lets the drivers of the firmware vote for the state of
  shared resources, such as clocks, and applies what the votes add up to. The host interface (\<open>src/modules/core/hostif\<close>) exchanges packets with a host
  processor over rings in shared memory: \<open>ring_if_lib\<close> has the rings, a task for control packets and one for data, \<open>data_svc_hfc.c\<close> the packets of the
  application.

  \<^bold>\<open>Theories.\<close> Each opens with the list of the functions it models.
  \<^item> \<open>Prelude\<close>: machine words, byte memories (\<open>mem\<close>, \<open>mread\<close>, \<open>mwrite\<close>, \<open>mcombine\<close>), little-endian fields, the collections
    \<open>mem_simps\<close> and \<open>frame_simps\<close>. \<open>ByteStore\<close>: the locale of a device with reads, writes and ranges; its lemmas (read after
    write, frame of disjoint ranges) are used through the interpretations on the flash, the RRAM, the DXE engine and
    the partitions.
  \<^item> \<open>FlashDriver\<close>: \<open>ferm_flash.c\<close>; the state \<open>flash\<close> is the driver's context, the array and the controller's answers.
    Shown: writes store what is read back and touch nothing else, erases set exactly their blocks (C1 to C3); the range
    check of an erase wraps.
  \<^item> \<open>RramDriver\<close>: \<open>nt_mem.c\<close>; address and OTP permission checks, padded writes with retry, OTP locks (C5, C6).
    A write near the end of the area pads its last unit without having read it; C5 says which cells may then change.
  \<^item> \<open>FwTypes\<close>, \<open>FwUpgradeMem\<close>, \<open>FwMemFacts\<close>, \<open>FwPartition\<close>: \<open>fw_upgrade_mem.c\<close>, one definition per function, over the two
    drivers; the abstract view of the descriptors (\<open>view\<close>) and the refinement of accept and reject to it, bounds of
    partition accesses, creation and lookup, write and read (C8, C10, C12). C8 includes the case in which accepting
    a trial leaves no valid descriptor.
  \<^item> \<open>FwUpgrade\<close>, \<open>FwUpgradeFacts\<close>, \<open>FwSession\<close>, \<open>FwIntegrity\<close>: \<open>fw_upgrade.c\<close>, one definition per state of
    \<open>fw_upgrade_session_process\<close> and per public function; the documented transitions as an inductive relation, the session
    invariant by induction over the iterations, what a finished or failed session has published, termination of the
    receive loop, and that the bytes hashed are the bytes in flash (C13, C15, C17, C19).
  \<^item> \<open>SblRram\<close>: \<open>nt_bl_rram_dxe.c\<close> (C21). \<open>SblFdt\<close>: \<open>rram_fdt.c\<close> and the searches of \<open>sbl_main.c\<close> (C24, C26).
    \<open>SblRollback\<close>: the rollback fuses (C29, C30). \<open>SblElf\<close>: loader, region dispatch and chunked copies, with a reference
    loader \<open>image_memory\<close> that the loader refines (C31), the exact effect of the copy from RRAM to RAM, which overruns (C32), and
    the headers that are accepted, given by their bytes in flash (C34).
  \<^item> \<open>SblBoot\<close>: descriptor scan, selection, authentication and the boot loop on the state \<open>sbl\<close>; \<open>SblSelect\<close>: its
    properties (C35, C37 to C39). C35 follows the last iteration through the calls of the PBL: the table that is compared is the one
    handed out for the headers that were authenticated.
  \<^item> \<open>DxeSource\<close>: what \<open>SblRram\<close> does with a source in memory. \<open>HostedDfu\<close>: \<open>wifi_fw_sys_img_loader.c\<close> and \<open>loader_start\<close> of the hosted
    boot loader; a host that changes what the protocol gives it runs between any two passes of \<open>sys_loader\<close>, and the reachable
    states are an inductive predicate. \<open>HostedTransfer\<close>: a host that answers what it is asked gets its image into RRAM, byte
    for byte (C22); a message of another kind is counted as a packet; no host that keeps to its part of the shared memory
    makes the loader leave its rings or write outside the message buffers and RRAM, and one that does not can (C28).
  \<^item> \<open>QcliUtil\<close>: \<open>qcli_util.c\<close>; printed numbers are read back. \<open>QcliTree\<close>: the menu of \<open>qcli.c\<close>, group entries in a heap, with
    registration, search and output. \<open>QcliMenu\<close>: the heap as a tree, to which registration and removal are refined (C7).
    \<open>QcliSearch\<close>: search against the numbered list (C11). \<open>QcliParse\<close>: the parser, in place on the input buffer, and that it
    stays within it. \<open>QcliLine\<close>: lines that are read back (C23) and what an escape does (C27). \<open>QcliConsole\<close>: execution,
    background threads, input and the line editor. \<open>QcliSafe\<close>: the console's invariant over all sequences of keys, threads,
    registrations and removals, as a step relation (C4), and the one access to a freed entry it has (C33).
  \<^item> \<open>QatParse\<close>: the parser of AT commands, in place on the input buffer. \<open>QatCommand\<close>: groups, responses, the transmit task, execution, command
    and data mode. \<open>QatFacts\<close>: when the removal of a group returns, what a response holds and that the task sends the queue.
    \<open>QatSafe\<close>: parser and input stay within the buffer and return. \<open>QatLine\<close>: whole lines, and what a line leaves for the next one (C25).
    \<open>QatUart\<close>: the serial line; the interface is safe exactly for lines that fit the receive buffer (C16). \<open>QatUtil\<close>: the conversions.
  \<^item> \<open>Unpa\<close>: the arbiter, resources and clients in a heap. \<open>UnpaAgg\<close>: what an update function promises, as a locale, with the three of the
    source as its interpretations. \<open>UnpaInv\<close>: the reachable states; the aggregations kept step by step are the fold of all votes (C9), a
    request is always applied (C14), and queries are answered.
  \<^item> \<open>RingIf\<close>: the rings, with contexts, shared indices and statistics. \<open>RingTasks\<close>: the control and data tasks and their functions for elements. \<open>RingF2a\<close>: a ring
    to the host as a queue of elements to free and elements to read, related to the array by turning it to the index that is cleared next.
    \<open>RingQueue\<close>: the contract of such a ring as a locale, interpreted on both rings, and that over all sequences of operations buffers are given back
    exactly once, in order, and after they were read (C20). \<open>RingA2f\<close>: packets of the host are handed over exactly once and in order (C36), where
    a record of what the host has sent (\<open>host_sent\<close>, which no code reads) says what those are, and what an index outside of the ring does.
    \<open>RingCtrl\<close>: runs of the control ring after a failed allocation, which end with no buffer left (C18), an event of length zero, and deletion.
  This theory composes the two sides: what a session publishes is what is booted next (C40).

  \<^bold>\<open>Conventions.\<close> C integers keep their width (\<open>u8\<close>, \<open>u32\<close>, \<open>u64\<close> words, with wrap-around); structures are records, or the bytes
  they occupy where the code reads them from a device; status codes are datatypes with the names of the source;
  state is passed explicitly. Pointers that may be NULL are options. Hardware is a field of the state that answers
  each access in turn (\<open>fl_hw\<close>, \<open>dx_poll\<close>, \<open>dx_cell\<close>), so that properties either hold for every answer or name the
  working device they need (\<open>flash_ready\<close>, \<open>rram_ready\<close>, \<open>dxe_ok\<close>, \<open>world_ok\<close>). The transport plugin, the allocator, SHA-256 and
  the PBL's functions are not under \<open>src/\<close>: they are the parameters \<open>fw_env\<close> and \<open>pbl_env\<close>. The functions that components
  register as console commands, and the threads of the kernel, are the parameter \<open>cli_env\<close>, those of the AT commands \<open>at_env\<close>, and
  the drivers and the allocator of the power arbiter \<open>unpa_env\<close>, the allocator and the host of the rings \<open>ring_env\<close>.

  \<^bold>\<open>Loops.\<close> Bounded loops are structural or have a measure. The receive loop has fuel, and the packet length plus the
  number of images is shown to be enough (C13). The session loop has fuel because it depends on the server and on
  requests; its properties hold for every amount that lets it end. Loops that may not end are partial functions into
  \<open>option\<close>, where \<open>None\<close> is not returning: the wait for the engine, the search of the rollback table and the boot loop.
  Their properties state when they return (C21) and when they do not (C30, C39). The walks over the console's groups are
  of the same kind; they return on every menu that is a tree (C4). So are the loops of the AT parser, which return on every input (C16), and the
  removal of an AT group, which does not. The loops over a ring return with any host that reads (C20) and with a host that does not send for ever (C36); the
  search for an empty element has the number of elements as fuel, which is enough (\<open>empty_search_returns\<close>), and so has the refill of a ring (\<open>refill_loop_returns\<close>).

  \<^bold>\<open>Not modelled.\<close> Register sequences without decisions (bring-up, power, XIP, memory protection, UART), debug dumps and
  print-outs; drivers and radio firmware; the ELF variant of the download in \<open>SBL/src/wifi_fw_sys_img_loader.c\<close>, which nothing
  calls; in the hosted boot loader the SPI slave and the copies of the modelled files; the SPI transport of
  the AT interface and the handlers of its commands; demos and the dump functions of the console; the UDP, TCP and raw Ethernet rings
  of the other build of the host interface; the third-party kernel, network stack, crypto and
  file system. Concurrency is limited to the requests polled by the session loop, to the hosted loader's host, to the host of the rings, which runs at
  every read of a shared index in a loop, and to the console's background threads, whose commands are single steps; mutexes are taken as exclusive.
  A failed QSPI read is taken to leave its buffer as it was, and the boot loader is the build without execute-in-place.
\<close>

section \<open>From the upgrade to the next boot\<close>

text \<open>The boot loader's reading of a descriptor sector, in the fields the upgrade code writes.\<close>

definition boots_as_trial :: "fwd_view \<Rightarrow> bool" where
  "boots_as_trial v \<longleftrightarrow> v_magic v = FW_UPGRADE_MAGIC_V1 \<and> v_status v = 1 \<and> v_rank v = 0xFFFFFFFF"

lemma sector_view:
  assumes "i < 3"
  shows "fwd_ok (sector_fwd F (unat i)) \<and> fwd_slot (sector_fwd F (unat i)) = INDEX_TRIAL \<longleftrightarrow> boots_as_trial (view F i)"
proof -
  have "(of_nat (unat i) :: u32) = ucast i" by simp
  then have a: "sector_fwd F (unat i) = mread F (4096 * ucast i) 512"
    unfolding sector_fwd_def by (simp add: mult.commute)
  have "fwd_signature (mread F (4096 * ucast i) 512) = v_magic (view F i)" "fwd_rank (mread F (4096 * ucast i) 512) = v_rank (view F i)"
    "fwd_status (mread F (4096 * ucast i) 512) = v_status (view F i)"
    by (simp_all add: fwd_signature_def fwd_rank_def fwd_status_def view_def Let_def mem_simps)
  then show ?thesis by (auto simp: a fwd_ok_def fwd_slot_def boots_as_trial_def split: if_splits)
qed

text \<open>
  C40: The trial a complete upgrade session publishes is the image of the next boot: when the boot loader scans
  the flash the session has left, no other descriptor being a trial, and the primary boot loader has not fallen
  back, its first selection is the trial slot, filled from the sector of the session's descriptor.
\<close>

theorem published_trial_is_selected:
  assumes "fu_ready (s_fu \<sigma>)" and "trial_fwd_idx \<sigma> < 3"
    and "s_state \<sigma> = FW_UPGRADE_STATE_FINISH_E" and "session_status \<sigma> \<noteq> FW_UPGRADE_SESSION_CANCEL_E"
    and "view (fmem (s_fu \<sigma>)) (trial_fwd_idx \<sigma>) =
      \<lparr>v_magic = FW_UPGRADE_MAGIC_V1, v_rank = 0xFFFFFFFF, v_status = 0xFF, v_images = n\<rparr>"
    and "\<forall>i < 3. i \<noteq> trial_fwd_idx \<sigma> \<longrightarrow> \<not> boots_as_trial (view (fmem (s_fu \<sigma>)) i)"
    and "fl_mem (sw_flash (sb_world s)) = fmem (g_fu (snd (fw_upgrade_session_finalize OK \<sigma> g)))"
    and "world_ok (sb_world s)" and "flash_fits 0 0x2200 (sw_flash (sb_world s))"
    and "length (boot_fwd (g_sbl_info s)) = 3" and "err_code (g_sbl_info s) = 0"
    and "\<not> reverted (snd (boot_sbl_get_fwd_info s))"
  shows "fst (boot_sbl_select_validFwd (snd (boot_sbl_get_fwd_info s))) = INDEX_TRIAL \<and>
    boot_fwd (g_sbl_info (snd (boot_sbl_get_fwd_info s))) ! INDEX_TRIAL = trial_fwd_idx \<sigma> \<and>
    flash_fwd_table (g_sbl_info (snd (boot_sbl_get_fwd_info s))) ! INDEX_TRIAL =
      mread (fl_mem (sw_flash (sb_world s))) (4096 * ucast (trial_fwd_idx \<sigma>)) 512"
proof -
  let ?F = "fl_mem (sw_flash (sb_world s))" and ?s = "snd (boot_sbl_get_fwd_info s)" and ?t = "trial_fwd_idx \<sigma>"
  have only: "fwd_ok (sector_fwd ?F j) \<and> fwd_slot (sector_fwd ?F j) = 0 \<longleftrightarrow> j = unat ?t" if "j < 3" for j
  proof -
    have j: "(of_nat j :: u8) < 3" "unat (of_nat j :: u8) = j" using that by (simp_all add: word_less_nat_alt unat_of_nat)
    have "boots_as_trial (view ?F (of_nat j)) \<longleftrightarrow> (of_nat j :: u8) = ?t"
      unfolding assms(7) finalize_views [OF assms(1-4) j(1)] using assms(5,6) j(1) by (simp add: boots_as_trial_def)
    moreover have "(of_nat j :: u8) = ?t \<longleftrightarrow> j = unat ?t" using j by auto
    ultimately show ?thesis using sector_view [OF j(1), of ?F] j(2) by simp
  qed
  have t: "unat ?t < 3" using assms(2) by (simp add: word_less_nat_alt)
  then have "\<exists>i < 3. fwd_ok (sector_fwd ?F i) \<and> fwd_slot (sector_fwd ?F i) = 0" using only by blast
  with get_fwd_slot [OF assms(8-10), of 0] obtain i where "i < 3" "fwd_ok (sector_fwd ?F i)" "fwd_slot (sector_fwd ?F i) = 0"
    "flash_fwd_table (g_sbl_info ?s) ! 0 = sector_fwd ?F i" "boot_fwd (g_sbl_info ?s) ! 0 = of_nat i"
    and e: "err_code (g_sbl_info ?s) = err_code (g_sbl_info s)"
    by auto
  moreover from this have "i = unat ?t" using only [of i] by blast
  ultimately have slot: "flash_fwd_table (g_sbl_info ?s) ! 0 = sector_fwd ?F (unat ?t) \<and> boot_fwd (g_sbl_info ?s) ! 0 = ?t \<and>
      err_code (g_sbl_info ?s) = 0"
    using assms(11) by simp
  then have v: "FWD_TABLE_IS_VALID 0 (g_sbl_info ?s)" using only [OF t] by (simp add: FWD_TABLE_IS_VALID_def)
  have "fst (boot_sbl_select_validFwd ?s) = 0"
    using v slot assms(12) by (simp add: boot_sbl_select_validFwd_def select_first_def first_valid_def reverted_def upd_info_def Let_def)
  then show ?thesis using slot by (simp add: sector_fwd_def mult.commute)
qed

theorem published_trial_is_selected_witness:
  "\<exists>s. fl_mem (sw_flash (sb_world s)) = fmem (g_fu (snd (fw_upgrade_session_finalize OK demo_done demo_glob))) \<and>
     fst (boot_sbl_select_validFwd (snd (boot_sbl_get_fwd_info s))) = 0 \<and>
     boot_fwd (g_sbl_info (snd (boot_sbl_get_fwd_info s))) ! 0 = 2"
proof -
  let ?F = "fmem (g_fu (snd (fw_upgrade_session_finalize OK demo_done demo_glob)))"
  let ?s = "demo_sbl\<lparr>sb_world := demo_world ?F (\<lambda>_. 0)\<rparr>"
  have t: "trial_fwd_idx demo_done = 2" by (simp add: demo_done_def)
  have v: "view (fmem (s_fu demo_done)) 2 = \<lparr>v_magic = FW_UPGRADE_MAGIC_V1, v_rank = 0xFFFFFFFF, v_status = 0xFF, v_images = 1\<rparr>"
    "\<not> boots_as_trial (view (fmem (s_fu demo_done)) 0)" "\<not> boots_as_trial (view (fmem (s_fu demo_done)) 1)"
    by (simp_all add: demo_done_def view_def Let_def demo_flash_mem_def demo_descriptor_def eval_mem boots_as_trial_def)
  have o: "\<forall>i < 3. i \<noteq> trial_fwd_idx demo_done \<longrightarrow> \<not> boots_as_trial (view (fmem (s_fu demo_done)) i)"
    using v(2,3) t u8_less_3 by metis
  have ft: "flash_fits 0 0x2200 (sw_flash (sb_world ?s))" by (simp add: flash_fits_def demo_world_def)
  have ok: "world_ok (sb_world ?s)" using demo_world_ok by simp
  have "sbl_fde_content (snd (boot_sbl_get_fwd_info ?s)) = sbl_fde_content ?s"
    using get_fwd_info_scan [OF ok ft] by (elim exE conjE) simp
  then have r: "\<not> reverted (snd (boot_sbl_get_fwd_info ?s))"
    by (simp add: reverted_def demo_sbl_def zero_fde_def)
  have "fl_mem (sw_flash (sb_world ?s)) = ?F" by (simp add: demo_world_def)
  moreover have "fst (boot_sbl_select_validFwd (snd (boot_sbl_get_fwd_info ?s))) = 0 \<and>
     boot_fwd (g_sbl_info (snd (boot_sbl_get_fwd_info ?s))) ! 0 = 2"
    using published_trial_is_selected [OF _ _ _ _ _ o calculation ok ft _ _ r] v(1) t
    by (auto simp: demo_done_def new_session_def demo_sbl_def demo_info_def)
  ultimately show ?thesis by blast
qed

end
